(* ===== verification/Movy_Prelude.thy ===== *)
theory Movy_Prelude
  imports Main "HOL-Library.Word" "HOL-Library.Char_ord" "HOL-Library.List_Lexorder"
    "HOL-Library.Product_Lexorder"
begin

text \<open>
  Shared material of the development: the machine integer types, the results of fallible Rust
  code (\<open>MovyError\<close> values and panics as values of a sum type), early-exit loops over lists, and
  the model of \<open>std::collections::BTreeMap\<close> as a strictly key-sorted association list, whose
  iteration order is the key order, as in the source. The ordered-map interface is the locale
  \<open>ordered_map\<close>, interpreted on that model.
\<close>

section \<open>Collections of facts\<close>

named_theorems res_simps \<open>computation rules of fallible code\<close>
named_theorems bt_simps \<open>lookup after an update of an ordered map\<close>
named_theorems bt_wf \<open>operations that keep an ordered map well formed\<close>

section \<open>Machine integers\<close>

type_synonym u8 = "8 word"
type_synonym u16 = "16 word"
type_synonym u32 = "32 word"
type_synonym u64 = "64 word"
type_synonym u128 = "128 word"
type_synonym u256 = "256 word"

text \<open>\<open>n as u16\<close> of a \<open>usize\<close> keeps the low bits.\<close>

abbreviation as_u16 :: "nat \<Rightarrow> u16" where
  "as_u16 n \<equiv> word_of_nat n"

lemma unat_as_u16: "n < 65536 \<Longrightarrow> unat (as_u16 n) = n"
  by (simp add: unat_of_nat)

section \<open>Results of fallible code\<close>

text \<open>The error type of the workspace, with the payload of every variant as text.\<close>

datatype MovyError =
    RPC int string
  | STDJSON string
  | TOML string
  | IO string
  | Reqwest string
  | Any string
  | BCS string
  | OSS string
  | Derive string
  | SUI string
  | SUISDK string
  | Binary string
  | LIBAFL string
  | Trace string
  | Unsupported string
  | InvalidIdentifier string
  | InvalidSeed string
  | Tonic string
  | Other string

text \<open>A call ends in a value, in an \<open>Err\<close> that the caller sees, or in a panic.\<close>

datatype fault = Panic string | Err MovyError

type_synonym 'a res = "fault + 'a"

definition bindR :: "'a res \<Rightarrow> ('a \<Rightarrow> 'b res) \<Rightarrow> 'b res" where
  "bindR r f = (case r of Inl e \<Rightarrow> Inl e | Inr x \<Rightarrow> f x)"

lemma bindR_simps [simp, res_simps]:
  "bindR (Inl e) f = Inl e" "bindR (Inr x) f = f x"
  by (simp_all add: bindR_def)

lemma bindR_cong [fundef_cong]:
  "r = r' \<Longrightarrow> (\<And>x. r' = Inr x \<Longrightarrow> f x = f' x) \<Longrightarrow> bindR r f = bindR r' f'"
  by (cases r') simp_all

lemma bindR_eq_Inr [res_simps]:
  "bindR r f = Inr y \<longleftrightarrow> (\<exists>x. r = Inr x \<and> f x = Inr y)"
  by (cases r) simp_all

lemma bindR_InrE:
  assumes "bindR r f = Inr y"
  obtains x where "r = Inr x" "f x = Inr y"
  using assms by (cases r) simp_all

definition unwrapR :: "string \<Rightarrow> 'a option \<Rightarrow> 'a res" where
  "unwrapR msg v = (case v of None \<Rightarrow> Inl (Panic msg) | Some x \<Rightarrow> Inr x)"

lemma unwrapR_simps [simp, res_simps]:
  "unwrapR msg None = Inl (Panic msg)" "unwrapR msg (Some x) = Inr x"
  by (simp_all add: unwrapR_def)

lemma unwrapR_eq_Inr [res_simps]: "unwrapR msg v = Inr x \<longleftrightarrow> v = Some x"
  by (cases v) simp_all

text \<open>\<open>v[i]\<close> panics beyond the end.\<close>

definition indexR :: "'a list \<Rightarrow> nat \<Rightarrow> 'a res" where
  "indexR xs i = (if i < length xs then Inr (xs ! i) else Inl (Panic ''index out of bounds''))"

lemma indexR_simps [simp, res_simps]: "i < length xs \<Longrightarrow> indexR xs i = Inr (xs ! i)"
  by (simp add: indexR_def)

text \<open>Fallible code with fuel: the outer \<open>None\<close> is an exhausted bound.\<close>

type_synonym 'a fuelled = "'a res option"

definition bindFR :: "'a fuelled \<Rightarrow> ('a \<Rightarrow> 'b fuelled) \<Rightarrow> 'b fuelled" where
  "bindFR r f = (case r of None \<Rightarrow> None | Some (Inl e) \<Rightarrow> Some (Inl e) | Some (Inr x) \<Rightarrow> f x)"

lemma bindFR_simps [simp, res_simps]:
  "bindFR None f = None" "bindFR (Some (Inl e)) f = Some (Inl e)" "bindFR (Some (Inr x)) f = f x"
  by (simp_all add: bindFR_def)

lemma bindFR_eq_Inr: "bindFR x f = Some (Inr y) \<longleftrightarrow> (\<exists>v. x = Some (Inr v) \<and> f v = Some (Inr y))"
  by (auto simp: bindFR_def split: option.splits sum.splits)

lemma bindFR_E:
  assumes "bindFR x f = Some (Inr y)"
  obtains v where "x = Some (Inr v)" "f v = Some (Inr y)"
  using assms by (auto simp: bindFR_eq_Inr)

fun foldFR :: "('s \<Rightarrow> 'a \<Rightarrow> 's fuelled) \<Rightarrow> 's \<Rightarrow> 'a list \<Rightarrow> 's fuelled" where
  "foldFR f s [] = Some (Inr s)"
| "foldFR f s (x # xs) = bindFR (f s x) (\<lambda>s'. foldFR f s' xs)"

text \<open>A \<open>for\<close> loop whose body can leave the function, and \<open>collect::<Result<Vec<_>, _>>()\<close>.\<close>

fun foldR :: "('s \<Rightarrow> 'a \<Rightarrow> 's res) \<Rightarrow> 's \<Rightarrow> 'a list \<Rightarrow> 's res" where
  "foldR f s [] = Inr s"
| "foldR f s (x # xs) = bindR (f s x) (\<lambda>s'. foldR f s' xs)"

lemma foldR_append: "foldR f s (xs @ ys) = bindR (foldR f s xs) (\<lambda>s'. foldR f s' ys)"
proof (induction xs arbitrary: s)
  case (Cons x xs)
  then show ?case by (cases "f s x") simp_all
qed simp

lemma foldR_invariant:
  assumes "\<And>s x s'. P s \<Longrightarrow> f s x = Inr s' \<Longrightarrow> P s'"
  shows "P s \<Longrightarrow> foldR f s xs = Inr s' \<Longrightarrow> P s'"
proof (induction xs arbitrary: s)
  case (Cons x xs)
  then obtain t where "f s x = Inr t" "foldR f t xs = Inr s'"
    by (auto simp: bindR_eq_Inr)
  with Cons.IH [of t] Cons.prems(1) assms show ?case by blast
qed simp

text \<open>A loop that changes a quantity by what each element takes and adds.\<close>

lemma foldR_balance:
  fixes measured :: "'s \<Rightarrow> nat"
  assumes "\<And>s x s'. x \<in> set xs \<Longrightarrow> f s x = Inr s' \<Longrightarrow> measured s' + taken x = measured s + added x"
  shows "foldR f s xs = Inr s' \<Longrightarrow> measured s' + sum_list (map taken xs) = measured s + sum_list (map added xs)"
  using assms
proof (induction xs arbitrary: s)
  case (Cons x xs)
  then obtain t where t: "f s x = Inr t" "foldR f t xs = Inr s'" by (auto simp: bindR_eq_Inr)
  with Cons.prems(2) [of x s t] Cons.IH [OF t(2)] Cons.prems(2) show ?case by force
qed simp

text \<open>Loops that add to a set, or take from it, what each element determines.\<close>

lemma foldR_adds:
  assumes "\<And>s x s'. P s \<Longrightarrow> x \<in> set xs \<Longrightarrow> f s x = Inr s' \<Longrightarrow> P s' \<and> A s' = A s \<union> g x"
  shows "foldR f s xs = Inr s' \<Longrightarrow> P s \<Longrightarrow> P s' \<and> A s' = A s \<union> (\<Union>x \<in> set xs. g x)"
  using assms
proof (induction xs arbitrary: s)
  case (Cons x xs)
  from Cons.prems(1) obtain t where t: "f s x = Inr t" "foldR f t xs = Inr s'" by (auto simp: bindR_eq_Inr)
  have "P t \<and> A t = A s \<union> g x" using Cons.prems(3) [OF Cons.prems(2) _ t(1)] by simp
  moreover have "P s' \<and> A s' = A t \<union> (\<Union>x \<in> set xs. g x)"
    by (rule Cons.IH [OF t(2)]) (use calculation in simp, use Cons.prems(3) in \<open>meson list.set_intros(2)\<close>)
  ultimately show ?case by auto
qed simp

lemma foldR_drops:
  assumes "\<And>s x s'. P s \<Longrightarrow> x \<in> set xs \<Longrightarrow> f s x = Inr s' \<Longrightarrow> P s' \<and> A s' = A s - h x"
  shows "foldR f s xs = Inr s' \<Longrightarrow> P s \<Longrightarrow> P s' \<and> A s' = A s - (\<Union>x \<in> set xs. h x)"
proof -
  assume "foldR f s xs = Inr s'" "P s"
  then have "P s' \<and> - A s' = - A s \<union> (\<Union>x \<in> set xs. h x)"
    by (rule foldR_adds [where A = "\<lambda>s. - A s", rotated]) (use assms in auto)
  then show ?thesis by blast
qed

lemma foldR_invariant_set:
  assumes "\<And>s x s'. P s \<Longrightarrow> x \<in> set xs \<Longrightarrow> f s x = Inr s' \<Longrightarrow> P s'"
  shows "foldR f s xs = Inr s' \<Longrightarrow> P s \<Longrightarrow> P s'"
  using assms
proof (induction xs arbitrary: s)
  case (Cons x xs)
  from Cons.prems(1) obtain t where t: "f s x = Inr t" "foldR f t xs = Inr s'" by (auto simp: bindR_eq_Inr)
  have "P t" using Cons.prems(3) [OF Cons.prems(2) _ t(1)] by simp
  then show ?case by (rule Cons.IH [OF t(2)]) (meson Cons.prems(3) list.set_intros(2))
qed simp

lemma foldR_enumerate_invariant:
  assumes "\<And>k s s'. k < length xs \<Longrightarrow> P k s \<Longrightarrow> f s (k, xs ! k) = Inr s' \<Longrightarrow> P (Suc k) s'"
  shows "foldR f s (enumerate 0 xs) = Inr s' \<Longrightarrow> P 0 s \<Longrightarrow> P (length xs) s'"
  using assms
proof (induction xs arbitrary: s' rule: rev_induct)
  case (snoc x xs)
  from snoc.prems(1) obtain t where t: "foldR f s (enumerate 0 xs) = Inr t" "f t (length xs, x) = Inr s'"
    by (auto simp: enumerate_append_eq foldR_append bindR_eq_Inr)
  have "P (length xs) t"
  proof (rule snoc.IH [OF t(1) snoc.prems(2)])
    fix k u u' assume "k < length xs" "P k u" "f u (k, xs ! k) = Inr u'"
    then show "P (Suc k) u'" using snoc.prems(3) [of k u u'] by (simp add: nth_append)
  qed
  with snoc.prems(3) [of "length xs" t s'] t(2) show ?case by simp
qed simp

lemma map_leI: "(\<And>i t. f i = Some t \<Longrightarrow> g i = Some t) \<Longrightarrow> f \<subseteq>\<^sub>m g"
  unfolding map_le_def by (metis domD)

fun mapR :: "('a \<Rightarrow> 'b res) \<Rightarrow> 'a list \<Rightarrow> 'b list res" where
  "mapR f [] = Inr []"
| "mapR f (x # xs) = bindR (f x) (\<lambda>y. bindR (mapR f xs) (\<lambda>ys. Inr (y # ys)))"

lemma mapR_cong [fundef_cong]:
  "xs = xs' \<Longrightarrow> (\<And>x. x \<in> set xs' \<Longrightarrow> f x = f' x) \<Longrightarrow> mapR f xs = mapR f' xs'"
proof (induction xs arbitrary: xs')
  case (Cons x xs)
  have "f x = f' x" using Cons.prems by auto
  moreover have "mapR f xs = mapR f' xs"
    using Cons.prems by (intro Cons.IH) auto
  ultimately show ?case using Cons.prems(1) by (auto intro!: bindR_cong)
qed simp

lemma mapR_eq_Inr: "mapR f xs = Inr ys \<longleftrightarrow> list_all2 (\<lambda>x y. f x = Inr y) xs ys"
  by (induction xs arbitrary: ys) (auto simp: bindR_eq_Inr list_all2_Cons1)

section \<open>Early-exit loops over options\<close>

fun foldO :: "('s \<Rightarrow> 'a \<Rightarrow> 's option) \<Rightarrow> 's \<Rightarrow> 'a list \<Rightarrow> 's option" where
  "foldO f s [] = Some s"
| "foldO f s (x # xs) = (case f s x of None \<Rightarrow> None | Some s' \<Rightarrow> foldO f s' xs)"

lemma foldO_cong [fundef_cong]:
  "s = s' \<Longrightarrow> xs = xs' \<Longrightarrow> (\<And>a x. x \<in> set xs' \<Longrightarrow> f a x = f' a x) \<Longrightarrow>
   foldO f s xs = foldO f' s' xs'"
proof (induction xs arbitrary: s s' xs')
  case (Cons x xs)
  have "f s x = f' s x" using Cons.prems by auto
  moreover have "foldO f t xs = foldO f' t xs" for t
    using Cons.prems by (intro Cons.IH) auto
  ultimately show ?case using Cons.prems(1,2) by (auto split: option.splits)
qed simp

lemma foldO_total: "(\<And>s x. x \<in> set xs \<Longrightarrow> f s x \<noteq> None) \<Longrightarrow> foldO f s xs \<noteq> None"
proof (induction xs arbitrary: s)
  case (Cons x xs)
  obtain s' where "f s x = Some s'" using Cons.prems [of x s] by auto
  moreover have "foldO f s' xs \<noteq> None" using Cons.prems by (intro Cons.IH) simp
  ultimately show ?case by simp
qed simp

lemma those_eq_Some: "those xs = Some ys \<longleftrightarrow> xs = map Some ys"
proof (induction xs arbitrary: ys)
  case (Cons x xs)
  show ?case by (cases x) (auto simp: Cons.IH)
qed auto

lemma those_map_eq_Some:
  "those (map f xs) = Some ys \<longleftrightarrow> list_all2 (\<lambda>x y. f x = Some y) xs ys"
  unfolding those_eq_Some
  by (auto simp: list_all2_conv_all_nth list_eq_iff_nth_eq)

lemma those_map_cong:
  "(\<And>x. x \<in> set xs \<Longrightarrow> f x = g x) \<Longrightarrow> those (map f xs) = those (map g xs)"
  by (metis map_cong)

text \<open>Recursion into the components of a zipped argument list.\<close>

lemma size_zip_fst [termination_simp]:
  "(a, b) \<in> set (zip xs ys) \<Longrightarrow> size a < Suc (size_list size xs)"
  by (drule set_zip_leftD) (simp add: size_list_estimation' less_Suc_eq_le)

lemma foldO_append: "foldO f s (xs @ ys) = Option.bind (foldO f s xs) (\<lambda>s'. foldO f s' ys)"
  by (induction xs arbitrary: s) (auto split: option.splits)

section \<open>Text\<close>

text \<open>Joining strings, as \<open>Itertools::join\<close>, and decimal printing of an index.\<close>

fun join :: "string \<Rightarrow> string list \<Rightarrow> string" where
  "join sep [] = []"
| "join sep [x] = x"
| "join sep (x # y # ys) = x @ sep @ join sep (y # ys)"

fun dec :: "nat \<Rightarrow> string" where
  "dec n = (if n < 10 then [char_of (48 + n)] else dec (n div 10) @ [char_of (48 + n mod 10)])"

declare dec.simps [simp del]

section \<open>Ordered maps\<close>

text \<open>
  The interface that the clients of a \<open>BTreeMap\<close> use, over the abstraction \<open>get\<close> to a HOL map:
  lookups after updates, and iteration in strictly ascending key order.
\<close>

locale ordered_map =
  fixes empty :: 'm
    and insert :: "'k :: linorder \<Rightarrow> 'v \<Rightarrow> 'm \<Rightarrow> 'm"
    and remove :: "'k \<Rightarrow> 'm \<Rightarrow> 'm"
    and get :: "'m \<Rightarrow> 'k \<Rightarrow> 'v option"
    and entries :: "'m \<Rightarrow> ('k \<times> 'v) list"
    and wf :: "'m \<Rightarrow> bool"
  assumes get_empty: "get empty k = None"
    and get_insert: "get (insert k v m) = (get m)(k \<mapsto> v)"
    and get_remove: "wf m \<Longrightarrow> get (remove k m) = (get m)(k := None)"
    and entries_get: "wf m \<Longrightarrow> (k, v) \<in> set (entries m) \<longleftrightarrow> get m k = Some v"
    and entries_sorted: "wf m \<Longrightarrow> sorted_wrt (\<lambda>p q. fst p < fst q) (entries m)"
    and wf_empty: "wf empty"
    and wf_insert: "wf m \<Longrightarrow> wf (insert k v m)"
    and wf_remove: "wf m \<Longrightarrow> wf (remove k m)"
begin

text \<open>Inserting a run of pairs, as \<open>collect\<close> and \<open>extend\<close> do: later pairs win.\<close>

definition extend :: "('k \<times> 'v) list \<Rightarrow> 'm \<Rightarrow> 'm" where
  "extend ps m = foldl (\<lambda>m p. insert (fst p) (snd p) m) m ps"

lemma wf_extend: "wf m \<Longrightarrow> wf (extend ps m)"
  unfolding extend_def by (induction ps arbitrary: m) (auto intro: wf_insert)

lemma get_extend: "get (extend ps m) = get m ++ map_of (rev ps)"
  unfolding extend_def
proof (induction ps arbitrary: m)
  case (Cons p ps)
  have "get (foldl (\<lambda>m p. insert (fst p) (snd p) m) (insert (fst p) (snd p) m) ps) =
      (get m)(fst p \<mapsto> snd p) ++ map_of (rev ps)"
    unfolding Cons.IH get_insert ..
  then show ?case by (cases p) (auto simp: fun_eq_iff map_add_def split: option.splits)
qed simp

lemma entries_unique:
  assumes "wf m" "(k, v) \<in> set (entries m)" "(k, w) \<in> set (entries m)"
  shows "v = w"
  using assms by (auto simp: entries_get)

end

type_synonym ('k, 'v) btree = "('k \<times> 'v) list"

fun bt_insert :: "'k :: linorder \<Rightarrow> 'v \<Rightarrow> ('k, 'v) btree \<Rightarrow> ('k, 'v) btree" where
  "bt_insert k v [] = [(k, v)]"
| "bt_insert k v ((k', v') # m) =
     (if k < k' then (k, v) # (k', v') # m
      else if k = k' then (k, v) # m
      else (k', v') # bt_insert k v m)"

fun bt_remove :: "'k \<Rightarrow> ('k, 'v) btree \<Rightarrow> ('k, 'v) btree" where
  "bt_remove k [] = []"
| "bt_remove k ((k', v') # m) = (if k = k' then m else (k', v') # bt_remove k m)"

abbreviation bt_get :: "('k, 'v) btree \<Rightarrow> 'k \<Rightarrow> 'v option" where
  "bt_get \<equiv> map_of"

abbreviation bt_keys :: "('k, 'v) btree \<Rightarrow> 'k list" where
  "bt_keys m \<equiv> map fst m"

definition bt_wf :: "('k :: linorder, 'v) btree \<Rightarrow> bool" where
  "bt_wf m \<longleftrightarrow> sorted_wrt (<) (bt_keys m)"

lemma bt_get_insert [simp, bt_simps]: "bt_get (bt_insert k v m) = (bt_get m)(k \<mapsto> v)"
  by (induction k v m rule: bt_insert.induct) (auto simp: fun_upd_twist)

lemma bt_wf_Nil [simp, bt_wf]: "bt_wf []"
  by (simp add: bt_wf_def)

lemma bt_wf_Cons: "bt_wf (p # m) \<longleftrightarrow> (\<forall>k \<in> fst ` set m. fst p < k) \<and> bt_wf m"
  by (auto simp: bt_wf_def)

lemma bt_keys_insert [simp]: "fst ` set (bt_insert k v m) = insert k (fst ` set m)"
  by (induction k v m rule: bt_insert.induct) auto

lemma bt_wf_insert [bt_wf]: "bt_wf m \<Longrightarrow> bt_wf (bt_insert k v m)"
  by (induction k v m rule: bt_insert.induct) (force simp: bt_wf_Cons)+

lemma bt_keys_remove: "fst ` set (bt_remove k m) \<subseteq> fst ` set m"
  by (induction k m rule: bt_remove.induct) auto

lemma bt_wf_remove [bt_wf]: "bt_wf m \<Longrightarrow> bt_wf (bt_remove k m)"
proof (induction k m rule: bt_remove.induct)
  case (2 k k' v' m)
  have "\<forall>a \<in> fst ` set (bt_remove k m). k' < a"
    using 2 bt_keys_remove [of k m] by (auto simp only: bt_wf_Cons fst_conv)
  with 2 show ?case by (auto simp: bt_wf_Cons)
qed simp

lemma bt_wf_distinct: "bt_wf m \<Longrightarrow> distinct (bt_keys m)"
  unfolding bt_wf_def by (simp add: strict_sorted_iff)

lemma bt_wf_entries: "bt_wf m \<Longrightarrow> sorted_wrt (\<lambda>p q. fst p < fst q) m"
  by (simp add: bt_wf_def sorted_wrt_map)

lemma bt_get_remove [bt_simps]:
  "bt_wf m \<Longrightarrow> bt_get (bt_remove k m) = (bt_get m)(k := None)"
proof (induction k m rule: bt_remove.induct)
  case (2 k k' v' m)
  have "bt_get m k' = None" if "bt_wf ((k', v') # m)"
    using that by (force simp: bt_wf_Cons map_of_eq_None_iff)
  with 2 show ?case by (auto simp: bt_wf_Cons fun_eq_iff)
qed (simp add: fun_eq_iff)

interpretation bt: ordered_map "[]" bt_insert bt_remove bt_get "\<lambda>m. m" bt_wf
  by unfold_locales
    (simp_all add: bt_get_remove bt_wf_insert bt_wf_remove bt_wf_distinct bt_wf_entries
      del: fun_upd_apply)

text \<open>\<open>entry(k).or_default().push(v)\<close> and \<open>retain\<close>.\<close>

definition bt_push :: "'k :: linorder \<Rightarrow> 'v \<Rightarrow> ('k, 'v list) btree \<Rightarrow> ('k, 'v list) btree" where
  "bt_push k v m = bt_insert k ((case bt_get m k of None \<Rightarrow> [] | Some vs \<Rightarrow> vs) @ [v]) m"

lemma bt_wf_push [bt_wf]: "bt_wf m \<Longrightarrow> bt_wf (bt_push k v m)"
  by (simp add: bt_push_def bt_wf_insert)

lemma bt_get_push [bt_simps]:
  "bt_get (bt_push k v m) k' =
     (if k' = k then Some ((case bt_get m k of None \<Rightarrow> [] | Some vs \<Rightarrow> vs) @ [v])
      else bt_get m k')"
  by (simp add: bt_push_def)

lemma bt_wf_get: "bt_wf m \<Longrightarrow> (k, v) \<in> set m \<longleftrightarrow> bt_get m k = Some v"
  by (rule bt.entries_get)

lemma bt_wf_filter [bt_wf]: "bt_wf m \<Longrightarrow> bt_wf (filter P m)"
  by (induction m) (auto simp: bt_wf_Cons)

section \<open>Sorting and removing duplicates\<close>

text \<open>\<open>v.sort(); v.dedup()\<close> leaves the strictly ascending list of the distinct elements.\<close>

definition sort_dedup :: "'a :: linorder list \<Rightarrow> 'a list" where
  "sort_dedup xs = remdups_adj (sort xs)"

lemma set_sort_dedup [simp]: "set (sort_dedup xs) = set xs"
  by (simp add: sort_dedup_def)

lemma sorted_remdups_adj_strict: "sorted xs \<Longrightarrow> sorted_wrt (<) (remdups_adj xs)"
  by (induction xs rule: remdups_adj.induct) (auto simp: order_less_le)

lemma sorted_sort_dedup: "sorted_wrt (<) (sort_dedup xs)"
  by (simp add: sort_dedup_def sorted_remdups_adj_strict)

lemma distinct_sort_dedup: "distinct (sort_dedup xs)"
  using sorted_sort_dedup [of xs] by (simp add: strict_sorted_iff)

section \<open>Positions\<close>

text \<open>\<open>iter().position(..)\<close>.\<close>

fun position_of :: "('a \<Rightarrow> bool) \<Rightarrow> 'a list \<Rightarrow> nat option" where
  "position_of P [] = None"
| "position_of P (x # xs) = (if P x then Some 0 else map_option Suc (position_of P xs))"

lemma position_of_SomeD: "position_of P xs = Some i \<Longrightarrow> i < length xs \<and> P (xs ! i)"
  by (induction xs arbitrary: i) (auto split: if_splits)

lemma position_of_None: "position_of P xs = None \<longleftrightarrow> (\<forall>x \<in> set xs. \<not> P x)"
  by (induction xs) auto

section \<open>Fallible code over a state\<close>

text \<open>A computation that reads and writes a state, keeps it when it fails, and is \<open>None\<close> when it runs
  out of fuel.\<close>

type_synonym ('s, 'a) act = "'s \<Rightarrow> ('a res \<times> 's) option"

definition returnS :: "'a \<Rightarrow> ('s, 'a) act" where
  "returnS x s = Some (Inr x, s)"

definition liftS :: "'a res \<Rightarrow> ('s, 'a) act" where
  "liftS r s = Some (r, s)"

definition bindS :: "('s, 'a) act \<Rightarrow> ('a \<Rightarrow> ('s, 'b) act) \<Rightarrow> ('s, 'b) act" where
  "bindS m f s = (case m s of None \<Rightarrow> None | Some (Inl e, s') \<Rightarrow> Some (Inl e, s') | Some (Inr x, s') \<Rightarrow> f x s')"

fun foldS :: "('b \<Rightarrow> 'a \<Rightarrow> ('s, 'b) act) \<Rightarrow> 'b \<Rightarrow> 'a list \<Rightarrow> ('s, 'b) act" where
  "foldS f b [] = returnS b"
| "foldS f b (x # xs) = bindS (f b x) (\<lambda>b. foldS f b xs)"

definition mapS :: "('a \<Rightarrow> ('s, 'b) act) \<Rightarrow> 'a list \<Rightarrow> ('s, 'b list) act" where
  "mapS f xs = foldS (\<lambda>ys x. bindS (f x) (\<lambda>y. returnS (ys @ [y]))) [] xs"

text \<open>A call whose error the caller turns into a value, and one that only reads the state.\<close>

definition tryS :: "('s, 'a) act \<Rightarrow> ('s, MovyError + 'a) act" where
  "tryS m s = (case m s of
     None \<Rightarrow> None
   | Some (Inl (Panic p), s') \<Rightarrow> Some (Inl (Panic p), s')
   | Some (Inl (Err e), s') \<Rightarrow> Some (Inr (Inl e), s')
   | Some (Inr x, s') \<Rightarrow> Some (Inr (Inr x), s'))"

definition readS :: "('s \<Rightarrow> 'a \<times> 's) \<Rightarrow> ('s, 'a) act" where
  "readS f s = (case f s of (x, s') \<Rightarrow> Some (Inr x, s'))"

lemma act_simps [simp, res_simps]:
  "returnS x s = Some (Inr x, s)" "liftS r s = Some (r, s)"
  "readS f s = Some (Inr (fst (f s)), snd (f s))"
  by (simp_all add: returnS_def liftS_def readS_def split: prod.split)

lemma bindS_eq_Inr: "bindS m f s = Some (Inr y, t) \<longleftrightarrow> (\<exists>x u. m s = Some (Inr x, u) \<and> f x u = Some (Inr y, t))"
  by (auto simp: bindS_def split: option.splits sum.splits prod.splits)

lemma bindS_E:
  assumes "bindS m f s = Some (Inr y, t)"
  obtains x u where "m s = Some (Inr x, u)" "f x u = Some (Inr y, t)"
  using assms by (auto simp: bindS_eq_Inr)

lemma bindS_Some [simp]:
  "m s = Some (Inr x, u) \<Longrightarrow> bindS m f s = f x u" "m s = Some (Inl e, u) \<Longrightarrow> bindS m f s = Some (Inl e, u)"
  "m s = None \<Longrightarrow> bindS m f s = None"
  by (simp_all add: bindS_def)

lemma bindS_return [simp]: "bindS (returnS x) f = f x"
  by (rule ext) simp

lemma bindS_assoc: "bindS (bindS m g) h = bindS m (\<lambda>x. bindS (g x) h)"
  by (rule ext) (auto simp: bindS_def split: option.splits sum.splits prod.splits)

lemma foldS_append: "foldS f b (xs @ ys) = bindS (foldS f b xs) (\<lambda>b. foldS f b ys)"
  by (induction xs arbitrary: b) (simp_all add: bindS_assoc)

text \<open>What every step of a computation keeps of the state, its whole run keeps.\<close>

definition keepsS :: "('s \<Rightarrow> 's \<Rightarrow> bool) \<Rightarrow> ('s, 'a) act \<Rightarrow> bool" where
  "keepsS R m \<longleftrightarrow> (\<forall>s r t. m s = Some (r, t) \<longrightarrow> R s t)"

lemma keepsS_bind:
  assumes "keepsS R m" "\<And>x. keepsS R (f x)" "transp R"
  shows "keepsS R (bindS m f)"
  unfolding keepsS_def
proof (intro allI impI)
  fix s r t assume "bindS m f s = Some (r, t)"
  then consider e where "m s = Some (Inl e, t)" | x u where "m s = Some (Inr x, u)" "f x u = Some (r, t)"
    by (auto simp: bindS_def split: option.splits sum.splits prod.splits)
  then show "R s t"
    using assms unfolding keepsS_def by cases (blast dest: transpD)+
qed

lemma keepsS_basic: "reflp R \<Longrightarrow> keepsS R (returnS x)" "reflp R \<Longrightarrow> keepsS R (liftS r)"
  by (auto simp: keepsS_def reflpD)

lemma keepsS_fold:
  "(\<And>b x. keepsS R (f b x)) \<Longrightarrow> reflp R \<Longrightarrow> transp R \<Longrightarrow> keepsS R (foldS f b xs)"
  by (induction xs arbitrary: b) (auto intro: keepsS_bind keepsS_basic)

end
