(* ===== verification/Range_Chunks.thy ===== *)
theory Range_Chunks
  imports Movy_Prelude
begin

text \<open>
  \<open>movy-types/src/range.rs\<close>: the iterator that splits a range of \<open>usize\<close> into chunks. A
  \<open>usize\<close> is a natural number below \<open>2 ^ 64\<close>; the addition in \<open>next\<close> is the checked one, whose
  overflow is a panic.
\<close>

definition USIZE_MAX :: nat where "USIZE_MAX = 2 ^ 64 - 1"

record RangeChunks =
  rc_start :: nat
  rc_end :: nat
  rc_chunk_size :: nat

definition RangeChunks_new :: "nat \<times> nat \<Rightarrow> nat \<Rightarrow> RangeChunks res" where
  "RangeChunks_new r chunk_size =
     (if chunk_size > 0
      then Inr \<lparr>rc_start = fst r, rc_end = snd r, rc_chunk_size = chunk_size\<rparr>
      else Inl (Panic ''Chunk size must be greater than 0''))"

definition next_chunk :: "RangeChunks \<Rightarrow> ((nat \<times> nat) option \<times> RangeChunks) res" where
  "next_chunk self =
     (if rc_start self \<ge> rc_end self then Inr (None, self)
      else if rc_start self + rc_chunk_size self > USIZE_MAX
      then Inl (Panic ''attempt to add with overflow'')
      else (let chunk_start = rc_start self;
                chunk_end = min (rc_start self + rc_chunk_size self) (rc_end self)
            in Inr (Some (chunk_start, chunk_end), self\<lparr>rc_start := chunk_end\<rparr>)))"

text \<open>Draining the iterator, at most \<open>n\<close> calls of \<open>next\<close>; \<open>None\<close> is not finished.\<close>

fun drain_chunks :: "nat \<Rightarrow> RangeChunks \<Rightarrow> (nat \<times> nat) list option res" where
  "drain_chunks 0 rc = Inr None"
| "drain_chunks (Suc n) rc =
     bindR (next_chunk rc) (\<lambda>(item, rc').
       case item of
         None \<Rightarrow> Inr (Some [])
       | Some r \<Rightarrow> bindR (drain_chunks n rc') (\<lambda>rs. Inr (map_option ((#) r) rs)))"

definition range_chunks :: "nat \<times> nat \<Rightarrow> nat \<Rightarrow> (nat \<times> nat) list option res" where
  "range_chunks r chunk_size =
     bindR (RangeChunks_new r chunk_size) (\<lambda>rc. drain_chunks (Suc (snd r - fst r)) rc)"

lemma drain_chunks_cover:
  assumes "0 < rc_chunk_size rc" "rc_end rc + rc_chunk_size rc \<le> USIZE_MAX"
    "rc_end rc - rc_start rc < n"
  shows "\<exists>rs. drain_chunks n rc = Inr (Some rs)
    \<and> concat (map (\<lambda>(a, b). [a..<b]) rs) = [rc_start rc..<rc_end rc]
    \<and> (\<forall>(a, b) \<in> set rs. a < b \<and> b - a \<le> rc_chunk_size rc)"
  using assms
proof (induction n arbitrary: rc)
  case (Suc n)
  show ?case
  proof (cases "rc_start rc \<ge> rc_end rc")
    case False
    let ?e = "min (rc_start rc + rc_chunk_size rc) (rc_end rc)"
    let ?rc = "rc\<lparr>rc_start := ?e\<rparr>"
    have nx: "next_chunk rc = Inr (Some (rc_start rc, ?e), ?rc)"
      using False Suc.prems(2) by (simp add: next_chunk_def Let_def)
    have "rc_end rc - ?e < n" using Suc.prems(1,3) False by linarith
    then obtain rs where rs: "drain_chunks n ?rc = Inr (Some rs)"
      "concat (map (\<lambda>(a, b). [a..<b]) rs) = [?e..<rc_end rc]"
      "\<forall>(a, b) \<in> set rs. a < b \<and> b - a \<le> rc_chunk_size rc"
      using Suc.IH [of ?rc] Suc.prems by auto
    have "[rc_start rc..<?e] @ [?e..<rc_end rc] = [rc_start rc..<rc_end rc]"
      using False upt_add_eq_append [of "rc_start rc" ?e "rc_end rc - ?e"] by simp
    moreover have "rc_start rc < ?e \<and> ?e - rc_start rc \<le> rc_chunk_size rc"
      using False Suc.prems(1) by auto
    ultimately show ?thesis
      using nx rs by (intro exI [of _ "(rc_start rc, ?e) # rs"]) simp
  qed (simp add: next_chunk_def)
qed simp

text \<open>
  \<open>range_chunks\<close> terminates and partitions the range: its chunks, in order, enumerate
  exactly the indices of the range, each chunk is non-empty and no longer than the chunk size.
\<close>
theorem range_chunks_partition:
  assumes "0 < chunk_size" "e + chunk_size \<le> USIZE_MAX"
  shows "\<exists>rs. range_chunks (s, e) chunk_size = Inr (Some rs)
    \<and> concat (map (\<lambda>(a, b). [a..<b]) rs) = [s..<e]
    \<and> (\<forall>(a, b) \<in> set rs. a < b \<and> b - a \<le> chunk_size)"
  using drain_chunks_cover [of "\<lparr>rc_start = s, rc_end = e, rc_chunk_size = chunk_size\<rparr>"
      "Suc (e - s)"] assms
  by (simp add: range_chunks_def RangeChunks_new_def)

theorem range_chunks_partition_witness:
  "\<exists>rs. range_chunks (3, 10) 4 = Inr (Some rs) \<and> concat (map (\<lambda>(a, b). [a..<b]) rs) = [3..<10]
    \<and> (\<forall>(a, b) \<in> set rs. a < b \<and> b - a \<le> 4)"
  by (rule range_chunks_partition) (simp_all add: USIZE_MAX_def)

text \<open>Near the top of the type the addition overflows although the range itself is fine.\<close>

lemma range_chunks_overflow:
  "next_chunk \<lparr>rc_start = 0, rc_end = 1, rc_chunk_size = USIZE_MAX + 1\<rparr>
     = Inl (Panic ''attempt to add with overflow'')"
  by (simp add: next_chunk_def)

end
