(* ===== verification/Test_Report.thy ===== *)
theory Test_Report
  imports Movy_Prelude
begin

text \<open>
  \<open>movy-types/src/test_report.rs\<close>: the report of a test run with its rolling summary, and the
  lines that the human renderer prints. Counters are \<open>usize\<close> values, one increment per recorded
  function, so they are natural numbers here. The JSON output is not modelled.
\<close>

datatype Outcome =
    OutOk
  | SequenceBuildFailure
  | ExecutionFailure (status_debug: string) (ef_sequence: string) (ef_trace: "string option")
  | OracleCrash (reason: "string option") (oc_sequence: string) (oc_trace: "string option")

record FunctionResult =
  fr_function :: string
  fr_outcome :: Outcome

record Summary =
  total :: nat
  ok :: nat
  sequence_build_failure :: nat
  execution_failure :: nat
  oracle_crash :: nat

definition Summary_default :: Summary where
  "Summary_default = \<lparr>total = 0, ok = 0, sequence_build_failure = 0, execution_failure = 0,
     oracle_crash = 0\<rparr>"

record TestRunReport =
  report_version :: u32
  report_functions :: "FunctionResult list"
  summary :: Summary
  lcov :: "string option"

definition SCHEMA_VERSION :: u32 where "SCHEMA_VERSION = 2"

definition empty_report :: TestRunReport where
  "empty_report = \<lparr>report_version = SCHEMA_VERSION, report_functions = [],
     summary = Summary_default, lcov = None\<rparr>"

definition observe :: "Outcome \<Rightarrow> Summary \<Rightarrow> Summary" where
  "observe outcome s =
     (let s = s\<lparr>total := total s + 1\<rparr> in
      case outcome of
        OutOk \<Rightarrow> s\<lparr>ok := ok s + 1\<rparr>
      | SequenceBuildFailure \<Rightarrow> s\<lparr>sequence_build_failure := sequence_build_failure s + 1\<rparr>
      | ExecutionFailure _ _ _ \<Rightarrow> s\<lparr>execution_failure := execution_failure s + 1\<rparr>
      | OracleCrash _ _ _ \<Rightarrow> s\<lparr>oracle_crash := oracle_crash s + 1\<rparr>)"

definition all_ok :: "Summary \<Rightarrow> bool" where
  "all_ok s \<longleftrightarrow> total s > 0 \<and> ok s = total s"

definition any_oracle_crash :: "Summary \<Rightarrow> bool" where
  "any_oracle_crash s \<longleftrightarrow> oracle_crash s > 0"

definition report_record :: "string \<Rightarrow> Outcome \<Rightarrow> TestRunReport \<Rightarrow> TestRunReport" where
  "report_record f outcome r =
     r\<lparr>summary := observe outcome (summary r),
       report_functions := report_functions r @ [\<lparr>fr_function = f, fr_outcome = outcome\<rparr>]\<rparr>"

text \<open>The block that \<open>render_human\<close> prints for a function.\<close>

definition render_line :: "FunctionResult \<Rightarrow> string" where
  "render_line e = (case fr_outcome e of
     OutOk \<Rightarrow> ''ok '' @ fr_function e
   | SequenceBuildFailure \<Rightarrow>
       ''FAIL '' @ fr_function e @ '': unable to construct a test sequence''
   | ExecutionFailure st sq t \<Rightarrow>
       ''FAIL '' @ fr_function e @ '': execution failed'' @ [CHR 0x0A] @ ''  status: '' @ st
         @ [CHR 0x0A] @ ''  sequence:'' @ [CHR 0x0A] @ sq
         @ (case t of None \<Rightarrow> [] | Some t \<Rightarrow> [CHR 0x0A] @ ''  trace:'' @ [CHR 0x0A] @ t)
   | OracleCrash r sq t \<Rightarrow>
       ''FAIL '' @ fr_function e @ '': oracle crash: ''
         @ (case r of None \<Rightarrow> ''<no reason>'' | Some r \<Rightarrow> r)
         @ [CHR 0x0A] @ ''  sequence:'' @ [CHR 0x0A] @ sq
         @ (case t of None \<Rightarrow> [] | Some t \<Rightarrow> [CHR 0x0A] @ ''  trace:'' @ [CHR 0x0A] @ t))"

definition render_human :: "TestRunReport \<Rightarrow> string list" where
  "render_human r = map render_line (report_functions r)
     @ [''summary: total='' @ dec (total (summary r)) @ '' ok='' @ dec (ok (summary r))
        @ '' oracle_crash='' @ dec (oracle_crash (summary r))
        @ '' execution_failure='' @ dec (execution_failure (summary r))
        @ '' sequence_build_failure='' @ dec (sequence_build_failure (summary r))]"

text \<open>A report built by the run loop: one \<open>record\<close> per outcome.\<close>

definition run_report :: "(string \<times> Outcome) list \<Rightarrow> TestRunReport" where
  "run_report rs = foldl (\<lambda>r (f, out). report_record f out r) empty_report rs"

definition count_outcomes :: "(Outcome \<Rightarrow> bool) \<Rightarrow> TestRunReport \<Rightarrow> nat" where
  "count_outcomes P r = length (filter (P \<circ> fr_outcome) (report_functions r))"

text \<open>The contract in the source's comments: every counter counts its variant.\<close>

definition summary_in_sync :: "TestRunReport \<Rightarrow> bool" where
  "summary_in_sync r \<longleftrightarrow>
     total (summary r) = length (report_functions r)
     \<and> ok (summary r) = count_outcomes (\<lambda>out. out = OutOk) r
     \<and> sequence_build_failure (summary r) = count_outcomes (\<lambda>out. out = SequenceBuildFailure) r
     \<and> execution_failure (summary r) = count_outcomes is_ExecutionFailure r
     \<and> oracle_crash (summary r) = count_outcomes is_OracleCrash r"

lemma record_in_sync: "summary_in_sync r \<Longrightarrow> summary_in_sync (report_record f out r)"
  by (cases out)
    (auto simp: summary_in_sync_def report_record_def observe_def count_outcomes_def Let_def)

lemma run_report_in_sync: "summary_in_sync (run_report rs)"
proof -
  have "summary_in_sync r \<Longrightarrow>
      summary_in_sync (foldl (\<lambda>r (f, out). report_record f out r) r rs)" for r
    by (induction rs arbitrary: r) (auto intro: record_in_sync)
  moreover have "summary_in_sync empty_report"
    by (simp add: summary_in_sync_def empty_report_def Summary_default_def count_outcomes_def)
  ultimately show ?thesis by (simp add: run_report_def)
qed

lemma run_report_outcomes: "map fr_outcome (report_functions (run_report rs)) = map snd rs"
proof -
  have "map fr_outcome (report_functions (foldl (\<lambda>r (f, out). report_record f out r) r rs))
      = map fr_outcome (report_functions r) @ map snd rs" for r
    by (induction rs arbitrary: r) (auto simp: report_record_def)
  then show ?thesis by (simp add: run_report_def empty_report_def)
qed

text \<open>
  The verdicts of the summary are those of the run: \<open>all_ok\<close> holds exactly when the run is
  non-empty and every outcome is \<open>Ok\<close>, \<open>any_oracle_crash\<close> exactly when some outcome is an oracle
  crash.
\<close>
theorem summary_verdicts:
  "(all_ok (summary (run_report rs)) \<longleftrightarrow> rs \<noteq> [] \<and> snd ` set rs = {OutOk})
   \<and> (any_oracle_crash (summary (run_report rs)) \<longleftrightarrow> list_ex (is_OracleCrash \<circ> snd) rs)"
proof -
  let ?fs = "report_functions (run_report rs)"
  have cnt: "count_outcomes P (run_report rs) = length (filter P (map snd rs))" for P
    unfolding count_outcomes_def run_report_outcomes [symmetric] by (simp add: filter_map)
  have len: "length ?fs = length rs" using run_report_outcomes by (metis length_map)
  have eq: "length (filter P ys) = length ys \<longleftrightarrow> list_all P ys" for P and ys :: "Outcome list"
    by (metis filter_True length_filter_less less_irrefl list_all_iff)
  have "all_ok (summary (run_report rs)) \<longleftrightarrow> rs \<noteq> [] \<and> list_all (\<lambda>out. out = OutOk) (map snd rs)"
    using run_report_in_sync [of rs] unfolding summary_in_sync_def all_ok_def
    by (simp only: cnt len eq [symmetric] length_map) simp
  moreover have "any_oracle_crash (summary (run_report rs)) \<longleftrightarrow> list_ex (is_OracleCrash \<circ> snd) rs"
    using run_report_in_sync [of rs] unfolding summary_in_sync_def
    by (auto simp: any_oracle_crash_def cnt list_ex_iff filter_empty_conv)
  ultimately show ?thesis by (cases rs) (auto simp: list_all_iff)
qed

end
