(* ===== verification/Move_Types.thy ===== *)
theory Move_Types
  imports Movy_Prelude
begin

text \<open>
  The data model of \<open>movy-types\<close> (\<open>input.rs\<close>, \<open>object.rs\<close>, and the identifiers of \<open>abi.rs\<close>):
  addresses, module and function identifiers with their textual form, type tags, owners, the
  arguments and commands of a programmable transaction, and the conversion of type tags to and
  from the tags of the Sui SDK.

  A \<open>MoveAddress\<close> wraps 32 big-endian bytes, so it is a 256-bit word and its derived order is the
  numeric one. Parsing and printing an address (\<open>ObjectID::from_str\<close>, \<open>to_canonical_string\<close>) and
  checking an identifier (\<open>Identifier::new\<close>) are code of the Sui SDK: they are parameters.
\<close>

section \<open>Addresses and identifiers\<close>

type_synonym MoveAddress = u256

definition zero :: MoveAddress where "zero = 0"
definition one :: MoveAddress where "one = 1"
definition two :: MoveAddress where "two = 2"

definition is_zero :: "MoveAddress \<Rightarrow> bool" where
  "is_zero a \<longleftrightarrow> a = 0"

definition is_sui_std :: "MoveAddress \<Rightarrow> bool" where
  "is_sui_std a \<longleftrightarrow> a = 1 \<or> a = 2 \<or> a = 3 \<or> a = 13"

record MoveModuleId =
  module_address :: MoveAddress
  mod_name :: string

datatype FunctionIdent = FunctionIdent (ident_module: MoveModuleId) (ident_function: string)

definition FunctionIdent_new :: "MoveAddress \<Rightarrow> string \<Rightarrow> string \<Rightarrow> FunctionIdent" where
  "FunctionIdent_new address name function_name =
     FunctionIdent \<lparr>module_address = address, mod_name = name\<rparr> function_name"

lemma FunctionIdent_new_inject [simp]:
  "FunctionIdent_new a m f = FunctionIdent_new a' m' f' \<longleftrightarrow> a = a' \<and> m = m' \<and> f = f'"
  by (auto simp: FunctionIdent_new_def)

text \<open>The derived orders compare the fields in declaration order.\<close>

instantiation MoveModuleId_ext :: (linorder) linorder
begin

definition less_eq_MoveModuleId_ext :: "'a MoveModuleId_scheme \<Rightarrow> 'a MoveModuleId_scheme \<Rightarrow> bool" where
  "less_eq_MoveModuleId_ext r s \<longleftrightarrow>
     (module_address r, mod_name r, MoveModuleId.more r)
       \<le> (module_address s, mod_name s, MoveModuleId.more s)"

definition less_MoveModuleId_ext :: "'a MoveModuleId_scheme \<Rightarrow> 'a MoveModuleId_scheme \<Rightarrow> bool" where
  "less_MoveModuleId_ext r s \<longleftrightarrow>
     (module_address r, mod_name r, MoveModuleId.more r)
       < (module_address s, mod_name s, MoveModuleId.more s)"

instance
proof
  fix r s t :: "'a MoveModuleId_scheme"
  show "r < s \<longleftrightarrow> r \<le> s \<and> \<not> s \<le> r"
    unfolding less_eq_MoveModuleId_ext_def less_MoveModuleId_ext_def by (rule less_le_not_le)
  show "r \<le> r" unfolding less_eq_MoveModuleId_ext_def by (rule order_refl)
  show "r \<le> s \<Longrightarrow> s \<le> t \<Longrightarrow> r \<le> t"
    unfolding less_eq_MoveModuleId_ext_def by (rule order_trans)
  show "r \<le> s \<Longrightarrow> s \<le> r \<Longrightarrow> r = s"
    unfolding less_eq_MoveModuleId_ext_def by (drule (1) order_antisym) simp
  show "r \<le> s \<or> s \<le> r" unfolding less_eq_MoveModuleId_ext_def by (rule linear)
qed

end

instantiation FunctionIdent :: linorder
begin

definition less_eq_FunctionIdent :: "FunctionIdent \<Rightarrow> FunctionIdent \<Rightarrow> bool" where
  "less_eq_FunctionIdent f g \<longleftrightarrow>
     (ident_module f, ident_function f) \<le> (ident_module g, ident_function g)"

definition less_FunctionIdent :: "FunctionIdent \<Rightarrow> FunctionIdent \<Rightarrow> bool" where
  "less_FunctionIdent f g \<longleftrightarrow>
     (ident_module f, ident_function f) < (ident_module g, ident_function g)"

instance
proof
  fix f g h :: FunctionIdent
  show "f < g \<longleftrightarrow> f \<le> g \<and> \<not> g \<le> f"
    unfolding less_eq_FunctionIdent_def less_FunctionIdent_def by (rule less_le_not_le)
  show "f \<le> f" unfolding less_eq_FunctionIdent_def by (rule order_refl)
  show "f \<le> g \<Longrightarrow> g \<le> h \<Longrightarrow> f \<le> h"
    unfolding less_eq_FunctionIdent_def by (rule order_trans)
  show "f \<le> g \<Longrightarrow> g \<le> f \<Longrightarrow> f = g"
    unfolding less_eq_FunctionIdent_def
    by (drule (1) order_antisym) (auto intro: FunctionIdent.expand)
  show "f \<le> g \<or> g \<le> f" unfolding less_eq_FunctionIdent_def by (rule linear)
qed

end

section \<open>The textual form of identifiers\<close>

text \<open>\<open>s.split("::")\<close>: the separators are found from the left and do not overlap.\<close>

fun split_colons :: "string \<Rightarrow> string list" where
  "split_colons [] = [[]]"
| "split_colons [c] = [[c]]"
| "split_colons (c # d # cs) =
     (if c = CHR '':'' \<and> d = CHR '':'' then [] # split_colons cs
      else (case split_colons (d # cs) of
              [] \<Rightarrow> [[c]] | part # parts \<Rightarrow> (c # part) # parts))"

lemma split_colons_nonempty: "split_colons cs \<noteq> []"
  by (induction cs rule: split_colons.induct) (auto split: list.splits)

lemma split_colons_Cons:
  "c \<noteq> CHR '':'' \<Longrightarrow> split_colons (c # cs) = (c # hd (split_colons cs)) # tl (split_colons cs)"
  by (cases cs) (auto split: list.splits simp: split_colons_nonempty)

lemma split_colons_plain:
  "CHR '':'' \<notin> set cs \<Longrightarrow> split_colons (cs @ ''::'' @ ds) = cs # split_colons ds"
  by (induction cs) (auto simp: split_colons_Cons)

lemma split_colons_last: "CHR '':'' \<notin> set cs \<Longrightarrow> split_colons cs = [cs]"
  by (induction cs) (auto simp: split_colons_Cons)

definition MoveAddress_from_str :: "(string \<Rightarrow> MoveAddress option) \<Rightarrow> string \<Rightarrow> MoveAddress res" where
  "MoveAddress_from_str parse s =
     (case parse s of
        None \<Rightarrow> Inl (Err (InvalidIdentifier (''Invalid MoveAddress string: '' @ s)))
      | Some object_id \<Rightarrow> Inr object_id)"

definition MoveModuleId_to_string :: "(MoveAddress \<Rightarrow> string) \<Rightarrow> MoveModuleId \<Rightarrow> string" where
  "MoveModuleId_to_string print m = print (module_address m) @ ''::'' @ mod_name m"

definition MoveModuleId_from_str :: "(string \<Rightarrow> MoveAddress option) \<Rightarrow> string \<Rightarrow> MoveModuleId res" where
  "MoveModuleId_from_str parse s =
     (let parts = split_colons s in
      if length parts \<noteq> 2
      then Inl (Err (InvalidIdentifier (''Invalid MoveModuleId string: '' @ s)))
      else bindR (MoveAddress_from_str parse (parts ! 0)) (\<lambda>a.
             Inr \<lparr>module_address = a, mod_name = parts ! 1\<rparr>))"

definition FunctionIdent_to_string :: "(MoveAddress \<Rightarrow> string) \<Rightarrow> FunctionIdent \<Rightarrow> string" where
  "FunctionIdent_to_string print f =
     MoveModuleId_to_string print (ident_module f) @ ''::'' @ ident_function f"

definition FunctionIdent_from_str :: "(string \<Rightarrow> MoveAddress option) \<Rightarrow> string \<Rightarrow> FunctionIdent res" where
  "FunctionIdent_from_str parse s =
     (let parts = split_colons s in
      if length parts \<noteq> 3
      then Inl (Err (InvalidIdentifier (''Invalid FunctionIdent string: '' @ s)))
      else bindR (MoveAddress_from_str parse (parts ! 0)) (\<lambda>a.
             Inr (FunctionIdent \<lparr>module_address = a, mod_name = parts ! 1\<rparr> (parts ! 2))))"

text \<open>What the code relies on of the SDK's address text: printing is parsed back, and hex
  digits contain no colon.\<close>

definition address_text :: "(MoveAddress \<Rightarrow> string) \<Rightarrow> (string \<Rightarrow> MoveAddress option) \<Rightarrow> bool" where
  "address_text print parse \<longleftrightarrow>
     (\<forall>a. parse (print a) = Some a \<and> CHR '':'' \<notin> set (print a))"

text \<open>\<open>canonical_short\<close>: \<open>0x\<close> and the canonical hex with leading zeros stripped.\<close>

definition canonical_short :: "(MoveAddress \<Rightarrow> string) \<Rightarrow> MoveAddress \<Rightarrow> string" where
  "canonical_short to_canonical a =
     (let stripped = dropWhile (\<lambda>c. c = CHR ''0'') (to_canonical a) in
      if stripped = [] then ''0x0'' else ''0x'' @ stripped)"

lemma stripped_inject:
  assumes "length xs = length ys" "dropWhile P xs = dropWhile P ys"
    and "\<And>c. P c \<Longrightarrow> c = z"
  shows "xs = ys"
proof -
  have strip: "takeWhile P zs = replicate (length zs - length (dropWhile P zs)) z" for zs
  proof -
    have "takeWhile P zs = replicate (length (takeWhile P zs)) z"
      by (induction zs) (auto dest: assms(3))
    moreover have "length (takeWhile P zs) = length zs - length (dropWhile P zs)"
      by (metis add_diff_cancel_right' length_append takeWhile_dropWhile_id)
    ultimately show ?thesis by simp
  qed
  then have "takeWhile P xs = takeWhile P ys" using assms(1,2) by simp
  then show ?thesis using assms(2) by (metis takeWhile_dropWhile_id)
qed

section \<open>Type tags\<close>

datatype MoveTypeTag =
    TagBool | TagU8 | TagU16 | TagU32 | TagU64 | TagU128 | TagU256
  | TagVector MoveTypeTag
  | TagAddress | TagSigner
  | TagStruct MoveStructTag
  and MoveStructTag =
    MoveStructTag (tag_address: MoveAddress) (tag_module: string) (tag_name: string)
      (tag_tys: "MoveTypeTag list")

fun flat_addresses :: "MoveTypeTag \<Rightarrow> MoveAddress list" where
  "flat_addresses (TagStruct (MoveStructTag a m n tys)) = concat (map flat_addresses tys) @ [a]"
| "flat_addresses (TagVector inner) = flat_addresses inner"
| "flat_addresses _ = []"

fun flat_structs :: "MoveTypeTag \<Rightarrow> MoveStructTag list" where
  "flat_structs (TagStruct (MoveStructTag a m n tys)) =
     MoveStructTag a m n tys # concat (map flat_structs tys)"
| "flat_structs (TagVector st) = flat_structs st"
| "flat_structs _ = []"

text \<open>The tags of the Sui SDK, with the constructors that \<open>From<TypeTag>\<close> matches. An
  \<open>Identifier\<close> is a string accepted by \<open>Identifier::new\<close>.\<close>

datatype TypeTag =
    TyBool | TyU8 | TyU16 | TyU32 | TyU64 | TyU128 | TyU256
  | TyAddress | TySigner
  | TyVector TypeTag
  | TyStruct StructTag
  and StructTag =
    StructTag (st_address: MoveAddress) (st_module: string) (st_name: string)
      (st_type_params: "TypeTag list")

fun MoveTypeTag_from :: "TypeTag \<Rightarrow> MoveTypeTag"
  and MoveStructTag_from :: "StructTag \<Rightarrow> MoveStructTag" where
  "MoveTypeTag_from TyAddress = TagAddress"
| "MoveTypeTag_from TyBool = TagBool"
| "MoveTypeTag_from (TyStruct v) = TagStruct (MoveStructTag_from v)"
| "MoveTypeTag_from TySigner = TagSigner"
| "MoveTypeTag_from TyU8 = TagU8"
| "MoveTypeTag_from TyU16 = TagU16"
| "MoveTypeTag_from TyU32 = TagU32"
| "MoveTypeTag_from TyU128 = TagU128"
| "MoveTypeTag_from TyU64 = TagU64"
| "MoveTypeTag_from TyU256 = TagU256"
| "MoveTypeTag_from (TyVector v) = TagVector (MoveTypeTag_from v)"
| "MoveStructTag_from (StructTag a m n tys) = MoveStructTag a m n (map MoveTypeTag_from tys)"

fun TypeTag_try_from :: "(string \<Rightarrow> bool) \<Rightarrow> MoveTypeTag \<Rightarrow> TypeTag res"
  and StructTag_try_from :: "(string \<Rightarrow> bool) \<Rightarrow> MoveStructTag \<Rightarrow> StructTag res" where
  "TypeTag_try_from ident_ok TagAddress = Inr TyAddress"
| "TypeTag_try_from ident_ok TagBool = Inr TyBool"
| "TypeTag_try_from ident_ok TagSigner = Inr TySigner"
| "TypeTag_try_from ident_ok TagU8 = Inr TyU8"
| "TypeTag_try_from ident_ok TagU16 = Inr TyU16"
| "TypeTag_try_from ident_ok TagU32 = Inr TyU32"
| "TypeTag_try_from ident_ok TagU128 = Inr TyU128"
| "TypeTag_try_from ident_ok TagU64 = Inr TyU64"
| "TypeTag_try_from ident_ok TagU256 = Inr TyU256"
| "TypeTag_try_from ident_ok (TagVector v) =
     bindR (TypeTag_try_from ident_ok v) (\<lambda>t. Inr (TyVector t))"
| "TypeTag_try_from ident_ok (TagStruct v) =
     bindR (StructTag_try_from ident_ok v) (\<lambda>t. Inr (TyStruct t))"
| "StructTag_try_from ident_ok (MoveStructTag a m n tys) =
     (if \<not> ident_ok m then Inl (Err (InvalidIdentifier m))
      else if \<not> ident_ok n then Inl (Err (InvalidIdentifier n))
      else bindR (mapR (TypeTag_try_from ident_ok) tys) (\<lambda>ts. Inr (StructTag a m n ts)))"

text \<open>A value of the SDK's tag type carries valid identifiers only.\<close>

fun TypeTag_ok :: "(string \<Rightarrow> bool) \<Rightarrow> TypeTag \<Rightarrow> bool"
  and StructTag_ok :: "(string \<Rightarrow> bool) \<Rightarrow> StructTag \<Rightarrow> bool" where
  "TypeTag_ok ident_ok (TyVector v) = TypeTag_ok ident_ok v"
| "TypeTag_ok ident_ok (TyStruct v) = StructTag_ok ident_ok v"
| "TypeTag_ok ident_ok _ = True"
| "StructTag_ok ident_ok (StructTag a m n tys) =
     (ident_ok m \<and> ident_ok n \<and> list_all (TypeTag_ok ident_ok) tys)"

section \<open>Owners and object information\<close>

datatype MoveOwner =
    AddressOwner MoveAddress
  | ObjectOwner MoveAddress
  | Immutable
  | Shared (initial_shared_version: u64)
  | ConsensusAddressOwner (start_version: u64) (consensus_owner: MoveAddress)

record MoveObjectInfo =
  info_id :: MoveAddress
  info_ty :: MoveTypeTag
  info_owner :: MoveOwner
  info_version :: u64
  info_digest :: u256

section \<open>Arguments and commands of a sequence\<close>

type_synonym ObjectRef = "MoveAddress \<times> u64 \<times> u256"

datatype SuiObjectInputArgument =
    ImmOrOwnedObject ObjectRef
  | SharedObject MoveAddress u64 bool
  | Receiving ObjectRef

definition imm_or_owned_object :: "MoveAddress \<Rightarrow> u64 \<Rightarrow> u256 \<Rightarrow> SuiObjectInputArgument" where
  "imm_or_owned_object oid version digest = ImmOrOwnedObject (oid, version, digest)"

definition shared_object :: "MoveAddress \<Rightarrow> u64 \<Rightarrow> bool \<Rightarrow> SuiObjectInputArgument" where
  "shared_object oid start_ver mutable = SharedObject oid start_ver mutable"

fun SuiObjectInputArgument_id :: "SuiObjectInputArgument \<Rightarrow> MoveAddress" where
  "SuiObjectInputArgument_id (ImmOrOwnedObject (oid, _, _)) = oid"
| "SuiObjectInputArgument_id (Receiving (oid, _, _)) = oid"
| "SuiObjectInputArgument_id (SharedObject oid _ _) = oid"

datatype InputArgument =
    InBool bool
  | InU8 u8 | InU16 u16 | InU32 u32 | InU64 u64 | InU128 u128 | InU256 u256
  | InVector MoveTypeTag "InputArgument list"
  | InSigner MoveAddress
  | InAddress MoveAddress
  | InObject MoveTypeTag SuiObjectInputArgument

fun InputArgument_ty :: "InputArgument \<Rightarrow> MoveTypeTag" where
  "InputArgument_ty (InBool _) = TagBool"
| "InputArgument_ty (InAddress _) = TagAddress"
| "InputArgument_ty (InSigner _) = TagSigner"
| "InputArgument_ty (InVector ty _) = ty"
| "InputArgument_ty (InObject ty _) = ty"
| "InputArgument_ty (InU8 _) = TagU8"
| "InputArgument_ty (InU16 _) = TagU16"
| "InputArgument_ty (InU32 _) = TagU32"
| "InputArgument_ty (InU64 _) = TagU64"
| "InputArgument_ty (InU128 _) = TagU128"
| "InputArgument_ty (InU256 _) = TagU256"

datatype SequenceArgument = GasCoin | Input u16 | Result u16 | NestedResult u16 u16

record MoveCall =
  call_module_id :: MoveAddress
  call_module_name :: string
  call_function :: string
  call_type_arguments :: "MoveTypeTag list"
  call_arguments :: "SequenceArgument list"

definition is_split :: "MoveCall \<Rightarrow> bool" where
  "is_split mc \<longleftrightarrow> call_module_id mc = two
     \<and> (call_module_name mc = ''coin'' \<or> call_module_name mc = ''balance'')
     \<and> call_function mc = ''split''"

datatype MoveSequenceCall =
    Call MoveCall
  | TransferObjects "SequenceArgument list" SequenceArgument
  | SplitCoins SequenceArgument "SequenceArgument list"
  | MergeCoins SequenceArgument "SequenceArgument list"
  | Publish "u8 list list" "MoveAddress list"
  | MakeMoveVec MoveTypeTag "SequenceArgument list"
  | Upgrade "u8 list list" "MoveAddress list" MoveAddress SequenceArgument

record MoveSequence =
  inputs :: "InputArgument list"
  commands :: "MoveSequenceCall list"

definition call_ident :: "MoveCall \<Rightarrow> FunctionIdent" where
  "call_ident mc = FunctionIdent_new (call_module_id mc) (call_module_name mc) (call_function mc)"

section \<open>Properties\<close>

lemma set_flat_addresses: "set (flat_addresses t) = tag_address ` set (flat_structs t)"
  by (induction t rule: flat_structs.induct) auto

text \<open>
  An identifier printed by \<open>Display for FunctionIdent\<close> is read back by
  \<open>FunctionIdent::from_str\<close>, for every address and for names without a colon (Move identifiers
  have none).
\<close>
theorem FunctionIdent_roundtrip:
  assumes "address_text print parse"
    and "CHR '':'' \<notin> set (mod_name (ident_module f))"
    and "CHR '':'' \<notin> set (ident_function f)"
  shows "FunctionIdent_from_str parse (FunctionIdent_to_string print f) = Inr f"
proof -
  obtain m n where f: "f = FunctionIdent m n" by (cases f)
  let ?a = "module_address m"
  have "split_colons (FunctionIdent_to_string print f) = [print ?a, mod_name m, n]"
    using assms f
    by (simp add: FunctionIdent_to_string_def MoveModuleId_to_string_def address_text_def
        split_colons_plain [simplified] split_colons_last)
  moreover have "parse (print ?a) = Some ?a" using assms(1) by (simp add: address_text_def)
  ultimately show ?thesis
    by (simp add: FunctionIdent_from_str_def MoveAddress_from_str_def f)
qed

text \<open>A concrete address text: one digit per bit, for the witness.\<close>

definition bit_text :: "MoveAddress \<Rightarrow> string" where
  "bit_text a = map (\<lambda>i. if bit a i then CHR ''1'' else CHR ''0'') [0..<256]"

definition bit_parse :: "string \<Rightarrow> MoveAddress option" where
  "bit_parse s = Some (horner_sum of_bool 2 (map (\<lambda>c. c = CHR ''1'') s))"

lemma address_text_bits: "address_text bit_text bit_parse"
proof -
  have "horner_sum of_bool 2 (map (bit a) [0..<256]) = a" for a :: MoveAddress
    by (simp add: horner_sum_bit_eq_take_bit take_bit_word_eq_self)
  then show ?thesis
    by (auto simp: address_text_def bit_text_def bit_parse_def comp_def if_distrib cong: if_cong)
qed

theorem FunctionIdent_roundtrip_witness:
  "FunctionIdent_from_str bit_parse
     (FunctionIdent_to_string bit_text (FunctionIdent_new 2 ''coin'' ''split''))
   = Inr (FunctionIdent_new 2 ''coin'' ''split'')"
  by (rule FunctionIdent_roundtrip [OF address_text_bits]) (simp_all add: FunctionIdent_new_def)

text \<open>
  The short text key of an address is unambiguous: two addresses with the same
  \<open>canonical_short\<close> are equal, given that the canonical hex form has a fixed width and is
  injective.
\<close>
theorem canonical_short_inject:
  assumes "inj to_canonical"
    and "\<And>a b. length (to_canonical a) = length (to_canonical b)"
  shows "inj (canonical_short to_canonical)"
proof (rule injI)
  fix a b
  assume eq: "canonical_short to_canonical a = canonical_short to_canonical b"
  let ?strip = "dropWhile (\<lambda>c. c = CHR ''0'')"
  have nz: "?strip xs \<noteq> ''0''" for xs
    using hd_dropWhile [of "\<lambda>c. c = CHR ''0''" xs] by (metis list.sel(1) list.distinct(1))
  have "?strip (to_canonical a) = ?strip (to_canonical b)"
    using eq nz [of "to_canonical a"] nz [of "to_canonical b"]
    unfolding canonical_short_def Let_def
    by (cases "?strip (to_canonical a) = []"; cases "?strip (to_canonical b) = []")
      (simp_all del: dropWhile_eq_Nil_conv)
  with assms(2) have "to_canonical a = to_canonical b"
    by (rule stripped_inject)
  with assms(1) show "a = b" by (rule injD)
qed

theorem canonical_short_inject_witness: "inj (canonical_short bit_text)"
proof (rule canonical_short_inject)
  show "inj bit_text"
    using address_text_bits unfolding address_text_def inj_def by (metis option.inject)
qed (simp add: bit_text_def)

lemma MoveTypeTag_conv:
  "TypeTag_ok ok t \<Longrightarrow> TypeTag_try_from ok (MoveTypeTag_from t) = Inr t"
  "StructTag_ok ok s \<Longrightarrow> StructTag_try_from ok (MoveStructTag_from s) = Inr s"
proof (induction t and s rule: MoveTypeTag_from_MoveStructTag_from.induct)
  case (12 a m n tys)
  have "list_all2 (\<lambda>x y. TypeTag_try_from ok x = Inr y) (map MoveTypeTag_from tys) tys"
    using 12 by (auto simp: list_all2_conv_all_nth list_all_length)
  then have "mapR (TypeTag_try_from ok) (map MoveTypeTag_from tys) = Inr tys"
    by (simp add: mapR_eq_Inr)
  with 12 show ?case by simp
qed simp_all

text \<open>
  Converting an SDK type tag into a \<open>MoveTypeTag\<close> loses nothing: \<open>TryFrom<MoveTypeTag>\<close>
  gives the original tag back.
\<close>
theorem TypeTag_roundtrip:
  assumes "TypeTag_ok ident_ok t"
  shows "TypeTag_try_from ident_ok (MoveTypeTag_from t) = Inr t"
  using assms by (rule MoveTypeTag_conv)

theorem TypeTag_roundtrip_witness:
  "TypeTag_try_from (\<lambda>s. s \<noteq> [])
     (MoveTypeTag_from (TyVector (TyStruct (StructTag 2 ''coin'' ''Coin'' [TyU64]))))
   = Inr (TyVector (TyStruct (StructTag 2 ''coin'' ''Coin'' [TyU64])))"
  by (rule TypeTag_roundtrip) simp

end
