(* ===== verification/Move_Bytecode.thy ===== *)
theory Move_Bytecode
  imports Movy_Prelude
begin

text \<open>
  The instructions of the Move virtual machine, \<open>Bytecode\<close> of \<open>move_binary_format\<close>, as the tracers of
  \<open>movy-replay\<close> and the analyses of compiled modules match them. Instructions that no file names are
  \<open>BcOther\<close>; operands are table indices and immediate values.
\<close>

datatype IntTy = I8 | I16 | I32 | I64 | I128 | I256
datatype ArithBc = BAdd | BSub | BMul | BDiv | BMod
datatype LogicBc = BAnd | BBitAnd | BOr | BBitOr | BXor
datatype CmpBc = BEq | BNeq | BLt | BLe | BGt | BGe
datatype PackBc = BPack | BPackGeneric | BPackVariant | BPackVariantGeneric
datatype UnpackBc =
    BUnpack | BUnpackGeneric | BUnpackVariant | BUnpackVariantImmRef | BUnpackVariantMutRef
  | BUnpackVariantGeneric | BUnpackVariantGenericImmRef | BUnpackVariantGenericMutRef

datatype Bytecode =
    BcPop | BcRet | BcBrTrue u16 | BcBrFalse u16 | BcBranch u16
  | BcLdInt IntTy u256 | BcLdConst u16 | BcLdTrue | BcLdFalse
  | BcCast IntTy
  | BcCopyLoc u8 | BcMoveLoc u8 | BcStLoc u8 | BcMutBorrowLoc u8 | BcImmBorrowLoc u8
  | BcCall u16 | BcCallGeneric u16
  | BcPackOp PackBc u16 | BcUnpackOp UnpackBc u16 | BcVariantSwitch u16
  | BcWriteRef
  | BcArith ArithBc | BcLogic LogicBc | BcShl | BcShr | BcNot
  | BcCmp CmpBc
  | BcAbort | BcNop
  | BcVecPack u16 u64 | BcVecUnpack u16 u64 | BcVecImmBorrow u16 | BcVecMutBorrow u16
  | BcVecPushBack u16 | BcVecSwap u16
  | BcOther string

end
