(* ===== verification/Trace_State.thy ===== *)
theory Trace_State
  imports Move_Types Move_Bytecode
begin

text \<open>
  \<open>movy-replay/src/tracer\<close>, files \<open>state.rs\<close> and \<open>mod.rs\<close>: the machine that rebuilds the VM state
  from trace events, and the wrapper and combinators that run tracers beside it.

  Events, values and bytecodes are types of \<open>move_trace_format\<close> and \<open>move_binary_format\<close>, with
  the constructors that the code matches; bytecodes are those of \<open>Move_Bytecode\<close>. The methods
  \<open>snapshot\<close> and \<open>value_mut\<close> of a trace value are parameters (the record \<open>TraceApi\<close>). A \<open>Vec\<close> used
  as a stack has its top at the end of the list.
\<close>

section \<open>Trace events\<close>

datatype SerializableMoveValue =
    SAddress MoveAddress | SBool bool
  | SU8 u8 | SU16 u16 | SU32 u32 | SU64 u64 | SU128 u128 | SU256 u256
  | SStruct StructTag "(string \<times> SerializableMoveValue) list"
  | SVector "SerializableMoveValue list"
  | SVariant StructTag string "(string \<times> SerializableMoveValue) list"

type_synonym TraceIndex = nat

datatype Location =
    Local TraceIndex nat
  | Indexed Location nat
  | Global TraceIndex

datatype TraceValue =
    RuntimeValue SerializableMoveValue
  | ImmRef Location SerializableMoveValue
  | MutRef Location SerializableMoveValue

record TraceApi =
  snapshot :: "TraceValue \<Rightarrow> SerializableMoveValue"
  value_mut :: "TraceValue \<Rightarrow> (SerializableMoveValue \<Rightarrow> TraceValue) option"

datatype Effect =
    ExecutionError string
  | Push TraceValue
  | PopEff TraceValue
  | ReadEff Location TraceValue bool
  | WriteEff Location TraceValue
  | DataLoad Location SerializableMoveValue

datatype RefType = RefImm | RefMut

record TypeTagWithRefs =
  plain_type :: TypeTag
  ref_type :: "RefType option"

record Frame =
  frame_id :: TraceIndex
  frame_module :: MoveModuleId
  function_name :: string
  version_id :: MoveAddress
  binary_member_index :: u16
  type_instantiation :: "TypeTag list"
  frame_parameters :: "TraceValue list"
  return_types :: "TypeTagWithRefs list"
  locals_types :: "TypeTagWithRefs list"
  is_native :: bool

datatype TraceEvent =
    OpenFrame Frame u64
  | CloseFrame TraceIndex "TraceValue list" u64
  | InstructionEv "TypeTag list" u16 u64 Bytecode
  | EffectEv Effect
  | External "string option"
  | OtherEv

section \<open>The reconstructed state\<close>

type_synonym trace_locals = "(nat, TraceValue) btree"

record TraceState =
  loaded_state :: "(TraceIndex, SerializableMoveValue) btree"
  operand_stack :: "TraceValue list"
  call_stack :: "(TraceIndex, trace_locals \<times> bool) btree"

definition TraceState_new :: TraceState where
  "TraceState_new = \<lparr>loaded_state = [], operand_stack = [], call_stack = []\<rparr>"

text \<open>\<open>get_mut_location\<close> followed by the assignment of \<open>v\<close>; every \<open>unwrap\<close> is a panic.\<close>

fun set_location ::
  "TraceApi \<Rightarrow> Location \<Rightarrow> SerializableMoveValue \<Rightarrow> TraceState \<Rightarrow> TraceState res" where
  "set_location A (Local frame_idx idx) v st =
     bindR (unwrapR ''unwrap on None'' (bt_get (call_stack st) frame_idx)) (\<lambda>(locals, native).
     bindR (unwrapR ''unwrap on None'' (bt_get locals idx)) (\<lambda>tv.
     bindR (unwrapR ''unwrap on None'' (value_mut A tv)) (\<lambda>set_value.
       Inr (st\<lparr>call_stack :=
         bt_insert frame_idx (bt_insert idx (set_value v) locals, native) (call_stack st)\<rparr>))))"
| "set_location A (Indexed loc offset) v st = set_location A loc v st"
| "set_location A (Global gid) v st =
     bindR (unwrapR ''unwrap on None'' (bt_get (loaded_state st) gid)) (\<lambda>_.
       Inr (st\<lparr>loaded_state := bt_insert gid v (loaded_state st)\<rparr>))"

text \<open>\<open>OpenFrame\<close> pops one operand per parameter (a pop of the empty stack is allowed here).\<close>

definition open_locals :: "TraceValue list \<Rightarrow> TraceValue list \<Rightarrow> TraceValue list \<times> trace_locals" where
  "open_locals stack params =
     foldl (\<lambda>(stack, locals) (i, p). (butlast stack, bt_insert i p locals)) (stack, [])
       (enumerate 0 params)"

definition apply_effect :: "TraceApi \<Rightarrow> Effect \<Rightarrow> TraceState \<Rightarrow> TraceState res" where
  "apply_effect A ef st = (case ef of
     ExecutionError _ \<Rightarrow> Inr st
   | Push v \<Rightarrow> Inr (st\<lparr>operand_stack := operand_stack st @ [v]\<rparr>)
   | PopEff _ \<Rightarrow>
       if operand_stack st = []
       then Inl (Panic ''Tried to pop off the empty operand stack -- this should never happen'')
       else Inr (st\<lparr>operand_stack := butlast (operand_stack st)\<rparr>)
   | ReadEff location _ moved \<Rightarrow>
       if moved then
         (case location of
            Local frame_idx idx \<Rightarrow>
              bindR (unwrapR ''unwrap on None'' (bt_get (call_stack st) frame_idx))
                (\<lambda>(locals, native). Inr (st\<lparr>call_stack :=
                   bt_insert frame_idx (bt_remove idx locals, native) (call_stack st)\<rparr>))
          | Indexed _ _ \<Rightarrow> Inl (Panic ''Cannot move from indexed location'')
          | Global _ \<Rightarrow> Inl (Panic ''Cannot move from global location''))
       else Inr st
   | WriteEff location v \<Rightarrow>
       (case location of
          Local frame_idx idx \<Rightarrow>
            bindR (unwrapR ''unwrap on None'' (bt_get (call_stack st) frame_idx))
              (\<lambda>(locals, native). Inr (st\<lparr>call_stack :=
                 bt_insert frame_idx (bt_insert idx v locals, native) (call_stack st)\<rparr>))
        | Indexed loc _ \<Rightarrow> set_location A loc (snapshot A v) st
        | Global gid \<Rightarrow>
            bindR (unwrapR ''unwrap on None'' (bt_get (loaded_state st) gid)) (\<lambda>_.
              Inr (st\<lparr>loaded_state := bt_insert gid (snapshot A v) (loaded_state st)\<rparr>)))
   | DataLoad location snap \<Rightarrow>
       (case location of
          Global gid \<Rightarrow> Inr (st\<lparr>loaded_state := bt_insert gid snap (loaded_state st)\<rparr>)
        | _ \<Rightarrow> Inl (Panic ''Dataload by reference must have a global location'')))"

definition apply_event :: "TraceApi \<Rightarrow> TraceState \<Rightarrow> TraceEvent \<Rightarrow> TraceState res" where
  "apply_event A st ev = (case ev of
     OpenFrame frame _ \<Rightarrow>
       (case open_locals (operand_stack st) (frame_parameters frame) of (stack, locals) \<Rightarrow>
          Inr (st\<lparr>operand_stack := stack,
                  call_stack := bt_insert (frame_id frame) (locals, is_native frame) (call_stack st)\<rparr>))
   | CloseFrame _ _ _ \<Rightarrow>
       if call_stack st = []
       then Inl (Panic ''Unbalanced call stack in memory tracer -- this should never happen'')
       else Inr (st\<lparr>call_stack := butlast (call_stack st)\<rparr>)
   | EffectEv ef \<Rightarrow> apply_effect A ef st
   | External e \<Rightarrow>
       if e = Some ''MoveCallStart''
       then Inr (st\<lparr>loaded_state := [], operand_stack := [], call_stack := []\<rparr>)
       else Inr st
   | _ \<Rightarrow> Inr st)"

section \<open>Tracers\<close>

text \<open>The trait \<open>MovySuiTracerExt\<close>, with the tracer's own state as \<open>'t\<close>.\<close>

record 't TracerExt =
  on_raw_event :: "TraceState \<Rightarrow> TraceEvent \<Rightarrow> 't \<Rightarrow> ('t \<times> bool) res"
  on_move_call :: "TraceState \<Rightarrow> 't \<Rightarrow> 't res"
  on_effect :: "TraceState \<Rightarrow> Effect \<Rightarrow> 't \<Rightarrow> 't res"
  open_frame :: "TraceState \<Rightarrow> Frame \<Rightarrow> u64 \<Rightarrow> 't \<Rightarrow> 't res"
  close_frame :: "TraceState \<Rightarrow> TraceIndex \<Rightarrow> TraceValue list \<Rightarrow> u64 \<Rightarrow> 't \<Rightarrow> 't res"
  before_instruction :: "TraceState \<Rightarrow> TypeTag list \<Rightarrow> u16 \<Rightarrow> u64 \<Rightarrow> Bytecode \<Rightarrow> 't \<Rightarrow> 't res"

definition default_tracer :: "'t TracerExt" where
  "default_tracer = \<lparr>on_raw_event = (\<lambda>_ _ t. Inr (t, False)), on_move_call = (\<lambda>_ t. Inr t),
     on_effect = (\<lambda>_ _ t. Inr t), open_frame = (\<lambda>_ _ _ t. Inr t),
     close_frame = (\<lambda>_ _ _ _ t. Inr t), before_instruction = (\<lambda>_ _ _ _ _ t. Inr t)\<rparr>"

record 't MovySuiTracerWrapper =
  tracer :: 't
  wrapper_state :: TraceState

definition wrapper_from :: "'t \<Rightarrow> 't MovySuiTracerWrapper" where
  "wrapper_from t = \<lparr>tracer = t, wrapper_state = TraceState_new\<rparr>"

text \<open>The hook that an event selects once the tracer keeps it.\<close>

definition dispatch :: "'t TracerExt \<Rightarrow> TraceState \<Rightarrow> TraceEvent \<Rightarrow> 't \<Rightarrow> 't res" where
  "dispatch T st ev t = (case ev of
     External e \<Rightarrow> if e = Some ''MoveCallStart'' then on_move_call T st t else Inr t
   | OpenFrame frame gas_left \<Rightarrow> open_frame T st frame gas_left t
   | CloseFrame fid ret gas_left \<Rightarrow> close_frame T st fid ret gas_left t
   | EffectEv e \<Rightarrow> on_effect T st e t
   | InstructionEv tys pc gas_left instruction \<Rightarrow>
       before_instruction T st tys pc gas_left instruction t
   | OtherEv \<Rightarrow> Inr t)"

definition notify ::
  "TraceApi \<Rightarrow> 't TracerExt \<Rightarrow> 't MovySuiTracerWrapper \<Rightarrow> TraceEvent \<Rightarrow> 't MovySuiTracerWrapper res"
  where
  "notify A T self event =
     bindR (on_raw_event T (wrapper_state self) event (tracer self)) (\<lambda>(t, keep).
       if \<not> keep then
         bindR (apply_event A (wrapper_state self) event) (\<lambda>st.
           Inr \<lparr>tracer = t, wrapper_state = st\<rparr>)
       else
         bindR (dispatch T (wrapper_state self) event t) (\<lambda>t'.
         bindR (apply_event A (wrapper_state self) event) (\<lambda>st.
           Inr \<lparr>tracer = t', wrapper_state = st\<rparr>)))"

definition nop_tracer :: "unit TracerExt" where
  "nop_tracer = default_tracer"

definition selective_tracer :: "'a TracerExt \<Rightarrow> 'b TracerExt \<Rightarrow> ('a + 'b) TracerExt" where
  "selective_tracer T1 T2 = \<lparr>
     on_raw_event = (\<lambda>st ev t. case t of
         Inl v \<Rightarrow> bindR (on_raw_event T1 st ev v) (\<lambda>(v', k). Inr (Inl v', k))
       | Inr v \<Rightarrow> bindR (on_raw_event T2 st ev v) (\<lambda>(v', k). Inr (Inr v', k))),
     on_move_call = (\<lambda>st t. case t of
         Inl v \<Rightarrow> bindR (on_move_call T1 st v) (\<lambda>v'. Inr (Inl v'))
       | Inr v \<Rightarrow> bindR (on_move_call T2 st v) (\<lambda>v'. Inr (Inr v'))),
     on_effect = (\<lambda>st e t. case t of
         Inl v \<Rightarrow> bindR (on_effect T1 st e v) (\<lambda>v'. Inr (Inl v'))
       | Inr v \<Rightarrow> bindR (on_effect T2 st e v) (\<lambda>v'. Inr (Inr v'))),
     open_frame = (\<lambda>st f g t. case t of
         Inl v \<Rightarrow> bindR (open_frame T1 st f g v) (\<lambda>v'. Inr (Inl v'))
       | Inr v \<Rightarrow> bindR (open_frame T2 st f g v) (\<lambda>v'. Inr (Inr v'))),
     close_frame = (\<lambda>st i r g t. case t of
         Inl v \<Rightarrow> bindR (close_frame T1 st i r g v) (\<lambda>v'. Inr (Inl v'))
       | Inr v \<Rightarrow> bindR (close_frame T2 st i r g v) (\<lambda>v'. Inr (Inr v'))),
     before_instruction = (\<lambda>st ty pc g b t. case t of
         Inl v \<Rightarrow> bindR (before_instruction T1 st ty pc g b v) (\<lambda>v'. Inr (Inl v'))
       | Inr v \<Rightarrow> bindR (before_instruction T2 st ty pc g b v) (\<lambda>v'. Inr (Inr v')))\<rparr>"

definition both :: "('a \<Rightarrow> 'a res) \<Rightarrow> ('b \<Rightarrow> 'b res) \<Rightarrow> 'a \<times> 'b \<Rightarrow> ('a \<times> 'b) res" where
  "both f g t = bindR (f (fst t)) (\<lambda>a. bindR (g (snd t)) (\<lambda>b. Inr (a, b)))"

definition tee_tracer :: "'a TracerExt \<Rightarrow> 'b TracerExt \<Rightarrow> ('a \<times> 'b) TracerExt" where
  "tee_tracer T1 T2 = \<lparr>
     on_raw_event = (\<lambda>st ev t.
       bindR (on_raw_event T1 st ev (fst t)) (\<lambda>(a, keep_left).
       bindR (on_raw_event T2 st ev (snd t)) (\<lambda>(b, keep_right).
         Inr ((a, b), keep_left \<or> keep_right)))),
     on_move_call = (\<lambda>st. both (on_move_call T1 st) (on_move_call T2 st)),
     on_effect = (\<lambda>st e. both (on_effect T1 st e) (on_effect T2 st e)),
     open_frame = (\<lambda>st f g. both (open_frame T1 st f g) (open_frame T2 st f g)),
     close_frame = (\<lambda>st i r g. both (close_frame T1 st i r g) (close_frame T2 st i r g)),
     before_instruction = (\<lambda>st ty pc g b.
       both (before_instruction T1 st ty pc g b) (before_instruction T2 st ty pc g b))\<rparr>"

text \<open>\<open>MayEnableTracer\<close> forwards to the tracer when there is one; the answer is ignored.\<close>

definition may_enable_notify ::
  "('t \<Rightarrow> TraceEvent \<Rightarrow> 't res) \<Rightarrow> 't option \<Rightarrow> TraceEvent \<Rightarrow> 't option res" where
  "may_enable_notify inner self event =
     (case self of None \<Rightarrow> Inr None | Some t \<Rightarrow> bindR (inner t event) (\<lambda>t'. Inr (Some t')))"

section \<open>Invariants of the reconstructed state\<close>

definition trace_wf :: "TraceState \<Rightarrow> bool" where
  "trace_wf st \<longleftrightarrow> bt_wf (loaded_state st) \<and> bt_wf (call_stack st)
     \<and> (\<forall>f \<in> set (call_stack st). bt_wf (fst (snd f)))"

lemma bt_set_insert: "set (bt_insert k v m) \<subseteq> insert (k, v) (set m)"
  by (induction k v m rule: bt_insert.induct) auto

lemma bt_keys_insert_old:
  "bt_wf m \<Longrightarrow> bt_get m k = Some w \<Longrightarrow> bt_keys (bt_insert k v m) = bt_keys m"
proof (induction k v m rule: bt_insert.induct)
  case (2 k v k' v' m)
  then show ?case
    by (auto simp: bt_wf_Cons split: if_splits dest!: map_of_SomeD)
qed simp

lemma bt_insert_last:
  "\<forall>k' \<in> set (bt_keys m). k' < k \<Longrightarrow> bt_insert k v m = m @ [(k, v)]"
  by (induction k v m rule: bt_insert.induct) auto

lemma bt_wf_butlast [bt_wf]: "bt_wf m \<Longrightarrow> bt_wf (butlast m)"
  by (induction m) (auto simp: bt_wf_Cons dest: in_set_butlastD)

lemma open_locals_eq:
  "open_locals stack params = (take (length stack - length params) stack, enumerate 0 params)"
proof -
  have "foldl (\<lambda>(stack, locals) (i, p). (butlast stack, bt_insert i p locals)) (s, l) (enumerate n ps)
      = (take (length s - length ps) s, l @ enumerate n ps)"
    if "\<forall>k \<in> set (bt_keys l). k < n" for s l n and ps :: "TraceValue list"
    using that
  proof (induction ps arbitrary: s l n)
    case (Cons p ps)
    have l: "bt_insert n p l = l @ [(n, p)]" using Cons.prems by (rule bt_insert_last)
    have "\<forall>k \<in> set (bt_keys (l @ [(n, p)])). k < Suc n" using Cons.prems by (auto intro: less_SucI)
    moreover have "take (length (butlast s) - length ps) (butlast s)
        = take (length s - length (p # ps)) s"
      by (cases "s = []") (simp_all add: take_butlast)
    ultimately show ?case by (simp add: l Cons.IH)
  qed simp
  from this [of "[]" 0 stack params] show ?thesis by (simp add: open_locals_def)
qed

lemma bt_wf_enumerate: "bt_wf (enumerate n xs)"
  by (induction xs arbitrary: n) (auto simp: bt_wf_Cons in_set_enumerate_eq)

lemma trace_wf_call_stack:
  assumes "trace_wf st" "bt_wf locals"
  shows "trace_wf (st\<lparr>call_stack := bt_insert k (locals, native) (call_stack st)\<rparr>)"
  using assms bt_set_insert [of k "(locals, native)" "call_stack st"]
  unfolding trace_wf_def by (auto intro: bt_wf_insert)

lemma trace_wf_locals: "trace_wf st \<Longrightarrow> bt_get (call_stack st) k = Some (locals, native) \<Longrightarrow> bt_wf locals"
  unfolding trace_wf_def by (force dest!: map_of_SomeD)

lemma set_location_wf:
  "set_location A loc v st = Inr st' \<Longrightarrow> trace_wf st \<Longrightarrow>
     trace_wf st' \<and> bt_keys (call_stack st') = bt_keys (call_stack st)"
proof (induction A loc v st rule: set_location.induct)
  case (1 A frame_idx idx v st)
  then obtain locals native tv f where
    l: "bt_get (call_stack st) frame_idx = Some (locals, native)" "bt_get locals idx = Some tv"
    and st': "st' = st\<lparr>call_stack :=
      bt_insert frame_idx (bt_insert idx (f v) locals, native) (call_stack st)\<rparr>"
    by (auto simp: res_simps)
  have wf: "bt_wf (call_stack st)" using 1 by (simp add: trace_wf_def)
  show ?case
    using trace_wf_call_stack [OF "1.prems"(2) bt_wf_insert [OF trace_wf_locals [OF "1.prems"(2) l(1)]]]
      bt_keys_insert_old [OF wf l(1)] by (simp add: st')
next
  case (3 A gid v st)
  then show ?case by (auto simp: res_simps trace_wf_def bt_wf_insert)
qed simp

lemma apply_effect_wf:
  assumes "apply_effect A ef st = Inr st'" "trace_wf st"
  shows "trace_wf st' \<and> bt_keys (call_stack st') = bt_keys (call_stack st)"
proof -
  have wf: "bt_wf (call_stack st)" using assms(2) by (simp add: trace_wf_def)
  note upd = trace_wf_call_stack [OF assms(2)] bt_keys_insert_old [OF wf]
    trace_wf_locals [OF assms(2)] bt_wf_insert bt_wf_remove
  show ?thesis
  proof (cases ef)
    case (ReadEff loc w moved)
    with assms show ?thesis
      by (auto simp: apply_effect_def res_simps upd split: if_splits Location.splits)
  next
    case (WriteEff loc w)
    show ?thesis
    proof (cases loc)
      case (Indexed l i)
      with assms WriteEff show ?thesis by (auto simp: apply_effect_def dest: set_location_wf)
    next
      case (Local k i)
      with assms WriteEff show ?thesis by (auto simp: apply_effect_def res_simps upd)
    qed (use assms WriteEff in \<open>auto simp: apply_effect_def res_simps trace_wf_def bt_wf_insert\<close>)
  qed (use assms in \<open>auto simp: apply_effect_def trace_wf_def bt_wf_insert
         split: if_splits Location.splits\<close>)
qed

lemma apply_event_wf:
  assumes "apply_event A st ev = Inr st'" "trace_wf st"
  shows "trace_wf st'"
proof (cases ev)
  case (OpenFrame f g)
  have "trace_wf (st\<lparr>operand_stack := xs,
      call_stack := bt_insert k (enumerate 0 ps, n) (call_stack st)\<rparr>)" for xs k ps n
    using trace_wf_call_stack [OF assms(2) bt_wf_enumerate [of 0 ps]] by (simp add: trace_wf_def)
  with assms OpenFrame show ?thesis by (auto simp: apply_event_def open_locals_eq)
next
  case (EffectEv ef)
  with assms show ?thesis by (auto simp: apply_event_def dest: apply_effect_wf)
next
  case (CloseFrame i r g)
  have "\<forall>p \<in> set (butlast (call_stack st)). p \<in> set (call_stack st)" by (auto dest: in_set_butlastD)
  with assms CloseFrame show ?thesis
    unfolding apply_event_def trace_wf_def by (auto simp: bt_wf_butlast split: if_splits)
qed (use assms in \<open>auto simp: apply_event_def trace_wf_def split: if_splits\<close>)

section \<open>Frames\<close>

text \<open>
  The traces of a call: events that are neither frames nor call boundaries, and frames whose
  indices increase, each closed after its own segment.
\<close>

definition plain_event :: "TraceEvent \<Rightarrow> bool" where
  "plain_event ev = (case ev of
     OpenFrame _ _ \<Rightarrow> False | CloseFrame _ _ _ \<Rightarrow> False
   | External e \<Rightarrow> e \<noteq> Some ''MoveCallStart'' | _ \<Rightarrow> True)"

inductive segment :: "nat \<Rightarrow> TraceEvent list \<Rightarrow> nat \<Rightarrow> bool" where
  seg_nil: "segment n [] n"
| seg_plain: "plain_event ev \<Longrightarrow> segment n evs m \<Longrightarrow> segment n (ev # evs) m"
| seg_call: "n \<le> frame_id f \<Longrightarrow> segment (Suc (frame_id f)) body k \<Longrightarrow> segment k rest m \<Longrightarrow>
    segment n (OpenFrame f g # body @ CloseFrame i r g' # rest) m"

inductive_cases segment_ConsE: "segment n (ev # evs) m"

lemma segment_mono: "segment n evs m \<Longrightarrow> n \<le> m"
  by (induction rule: segment.induct) auto

lemma apply_event_plain:
  assumes "plain_event ev" "apply_event A st ev = Inr st'" "trace_wf st"
  shows "bt_keys (call_stack st') = bt_keys (call_stack st)"
  using assms by (cases ev) (auto simp: plain_event_def apply_event_def dest: apply_effect_wf
      split: if_splits)

lemma segment_frames:
  assumes "segment n evs m"
  shows "foldR (apply_event A) st evs = Inr st' \<Longrightarrow> trace_wf st \<Longrightarrow>
    \<forall>k \<in> set (bt_keys (call_stack st)). k < n \<Longrightarrow>
    trace_wf st' \<and> bt_keys (call_stack st') = bt_keys (call_stack st)"
  using assms
proof (induction arbitrary: st st' rule: segment.induct)
  case (seg_plain ev n evs m)
  from seg_plain.prems(1) obtain s1 where s1: "apply_event A st ev = Inr s1"
    "foldR (apply_event A) s1 evs = Inr st'" by (auto simp: bindR_eq_Inr)
  have "bt_keys (call_stack s1) = bt_keys (call_stack st)"
    using apply_event_plain [OF seg_plain.hyps(1) s1(1)] seg_plain.prems(2) by blast
  then show ?case
    using seg_plain.IH [OF s1(2) apply_event_wf [OF s1(1) seg_plain.prems(2)]] seg_plain.prems(3)
    by metis
next
  case (seg_call n f body k rest m g i r g')
  from seg_call.prems(1) obtain s1 s2 s3 where s: "apply_event A st (OpenFrame f g) = Inr s1"
    "foldR (apply_event A) s1 body = Inr s2" "apply_event A s2 (CloseFrame i r g') = Inr s3"
    "foldR (apply_event A) s3 rest = Inr st'"
    by (auto simp: bindR_eq_Inr foldR_append)
  let ?ks = "bt_keys (call_stack st)"
  have lt: "\<forall>k \<in> set ?ks. k < frame_id f" using seg_call.prems(3) seg_call.hyps(1) by auto
  have k1: "bt_keys (call_stack s1) = ?ks @ [frame_id f]"
    using s(1) lt by (auto simp: apply_event_def open_locals_eq bt_insert_last)
  have "\<forall>k \<in> set (bt_keys (call_stack s1)). k < Suc (frame_id f)"
    unfolding k1 using lt by (auto intro: less_SucI)
  then have s2: "trace_wf s2" "bt_keys (call_stack s2) = ?ks @ [frame_id f]"
    using seg_call.IH(1) [OF s(2) apply_event_wf [OF s(1) seg_call.prems(2)]] k1 by simp_all
  have k3: "bt_keys (call_stack s3) = ?ks"
    using s(3) s2(2) by (auto simp: apply_event_def map_butlast split: if_splits)
  have "frame_id f < k" using segment_mono [OF seg_call.hyps(2)] by simp
  then have "\<forall>j \<in> set (bt_keys (call_stack s3)). j < k" unfolding k3 using lt by auto
  then show ?case
    using seg_call.IH(2) [OF s(4) apply_event_wf [OF s(3) s2(1)]] k3 by simp
qed simp

section \<open>What a tracer is shown\<close>

text \<open>
  A call of a hook with its arguments, and the tracer that does what \<open>T\<close> does and records each
  call that is made to it together with the state it is handed; for \<open>on_raw_event\<close> the record
  includes the tracer's answer.
\<close>

datatype HookCall =
    RawCall TraceEvent bool
  | MoveCallHook
  | EffectHook Effect
  | OpenHook Frame u64
  | CloseHook TraceIndex "TraceValue list" u64
  | InstructionHook "TypeTag list" u16 u64 Bytecode

type_synonym hook_log = "(TraceState \<times> HookCall) list"

definition log_call :: "TraceState \<Rightarrow> HookCall \<Rightarrow> ('t \<Rightarrow> 't res) \<Rightarrow> 't \<times> hook_log \<Rightarrow> ('t \<times> hook_log) res" where
  "log_call st call f = (\<lambda>(t, log). bindR (f t) (\<lambda>t'. Inr (t', log @ [(st, call)])))"

definition recorder :: "'t TracerExt \<Rightarrow> ('t \<times> hook_log) TracerExt" where
  "recorder T = \<lparr>
     on_raw_event = (\<lambda>st ev (t, log). bindR (on_raw_event T st ev t) (\<lambda>(t', keep).
       Inr ((t', log @ [(st, RawCall ev keep)]), keep))),
     on_move_call = (\<lambda>st. log_call st MoveCallHook (on_move_call T st)),
     on_effect = (\<lambda>st e. log_call st (EffectHook e) (on_effect T st e)),
     open_frame = (\<lambda>st f g. log_call st (OpenHook f g) (open_frame T st f g)),
     close_frame = (\<lambda>st i r g. log_call st (CloseHook i r g) (close_frame T st i r g)),
     before_instruction = (\<lambda>st ty pc g b.
       log_call st (InstructionHook ty pc g b) (before_instruction T st ty pc g b))\<rparr>"

text \<open>The hook an event is for, and all calls an event leads to.\<close>

fun hook_calls :: "TraceEvent \<Rightarrow> HookCall list" where
  "hook_calls (External e) = (if e = Some ''MoveCallStart'' then [MoveCallHook] else [])"
| "hook_calls (OpenFrame f g) = [OpenHook f g]"
| "hook_calls (CloseFrame i r g) = [CloseHook i r g]"
| "hook_calls (EffectEv e) = [EffectHook e]"
| "hook_calls (InstructionEv ty pc g b) = [InstructionHook ty pc g b]"
| "hook_calls OtherEv = []"

definition calls_shown :: "TraceState \<times> TraceEvent \<times> bool \<Rightarrow> hook_log" where
  "calls_shown = (\<lambda>(st, ev, keep). map (Pair st) (RawCall ev keep # (if keep then hook_calls ev else [])))"

lemma dispatch_recorder:
  assumes "dispatch T st ev t = Inr t'"
  shows "dispatch (recorder T) st ev (t, log) = Inr (t', log @ map (Pair st) (hook_calls ev))"
  using assms by (cases ev) (auto simp: dispatch_def recorder_def log_call_def)

lemma notify_recorder:
  assumes "notify A T \<lparr>tracer = t, wrapper_state = st\<rparr> ev = Inr w"
  obtains keep where "apply_event A st ev = Inr (wrapper_state w)"
    and "\<And>log. notify A (recorder T) \<lparr>tracer = (t, log), wrapper_state = st\<rparr> ev
      = Inr \<lparr>tracer = (tracer w, log @ calls_shown (st, ev, keep)), wrapper_state = wrapper_state w\<rparr>"
proof -
  obtain t1 keep where raw: "on_raw_event T st ev t = Inr (t1, keep)"
    using assms by (auto simp: notify_def bindR_eq_Inr)
  then have raw': "on_raw_event (recorder T) st ev (t, log)
      = Inr ((t1, log @ [(st, RawCall ev keep)]), keep)" for log
    by (simp add: recorder_def)
  show ?thesis
  proof (cases keep)
    case True
    then obtain t2 where t2: "dispatch T st ev t1 = Inr t2" "tracer w = t2"
        "apply_event A st ev = Inr (wrapper_state w)"
      using assms raw by (auto simp: notify_def bindR_eq_Inr)
    show ?thesis
      by (rule that [of True])
        (use True t2 raw' in \<open>simp_all add: notify_def dispatch_recorder [OF t2(1)] calls_shown_def\<close>)
  next
    case False
    then have "tracer w = t1" "apply_event A st ev = Inr (wrapper_state w)"
      using assms raw by (auto simp: notify_def bindR_eq_Inr)
    then show ?thesis
      using False raw' by (intro that [of False]) (simp_all add: notify_def calls_shown_def)
  qed
qed

section \<open>Properties\<close>

text \<open>
  C12: the tracer is shown the run as it is, and cannot disturb it. Whatever the hooks do, after a
  run over any events the wrapper's state is that of applying the events alone; and the calls
  made to the tracer's hooks, recorded with the state each was handed, are, event by event, first
  \<open>on_raw_event\<close> with the event and then, if the tracer answered that it keeps the event, the one
  hook the event is for with the event's own data, all of them handed the state that applying
  exactly the events before this one gives.
\<close>
theorem notify_state:
  assumes "foldR (notify A T) \<lparr>tracer = t, wrapper_state = st\<rparr> evs = Inr w"
  shows "foldR (apply_event A) st evs = Inr (wrapper_state w)
    \<and> (\<exists>states keeps. length states = length evs \<and> length keeps = length evs
         \<and> (\<forall>k < length evs. foldR (apply_event A) st (take k evs) = Inr (states ! k))
         \<and> foldR (notify A (recorder T)) \<lparr>tracer = (t, log), wrapper_state = st\<rparr> evs
             = Inr \<lparr>tracer = (tracer w, log @ concat (map calls_shown (zip states (zip evs keeps)))),
                 wrapper_state = wrapper_state w\<rparr>)"
  using assms
proof (induction evs arbitrary: t st log)
  case (Cons ev evs)
  from Cons.prems obtain w1 where w1: "notify A T \<lparr>tracer = t, wrapper_state = st\<rparr> ev = Inr w1"
    and "foldR (notify A T) w1 evs = Inr w"
    by (auto simp: bindR_eq_Inr)
  then have rest: "foldR (notify A T) \<lparr>tracer = tracer w1, wrapper_state = wrapper_state w1\<rparr> evs = Inr w"
    by (cases w1) simp
  from w1 obtain keep where st: "apply_event A st ev = Inr (wrapper_state w1)"
    and rec: "\<And>log. notify A (recorder T) \<lparr>tracer = (t, log), wrapper_state = st\<rparr> ev
      = Inr \<lparr>tracer = (tracer w1, log @ calls_shown (st, ev, keep)), wrapper_state = wrapper_state w1\<rparr>"
    by (rule notify_recorder) blast
  from Cons.IH [OF rest, of "log @ calls_shown (st, ev, keep)"] obtain states keeps where IH:
    "foldR (apply_event A) (wrapper_state w1) evs = Inr (wrapper_state w)"
    "length states = length evs" "length keeps = length evs"
    "\<forall>k < length evs. foldR (apply_event A) (wrapper_state w1) (take k evs) = Inr (states ! k)"
    "foldR (notify A (recorder T))
        \<lparr>tracer = (tracer w1, log @ calls_shown (st, ev, keep)), wrapper_state = wrapper_state w1\<rparr> evs
      = Inr \<lparr>tracer = (tracer w, (log @ calls_shown (st, ev, keep))
               @ concat (map calls_shown (zip states (zip evs keeps)))),
             wrapper_state = wrapper_state w\<rparr>" by blast
  have "foldR (apply_event A) st (take k (ev # evs)) = Inr ((st # states) ! k)"
    if "k < length (ev # evs)" for k
    using that IH(4) st by (cases k) simp_all
  moreover have "foldR (notify A (recorder T)) \<lparr>tracer = (t, log), wrapper_state = st\<rparr> (ev # evs)
      = Inr \<lparr>tracer = (tracer w, log @ concat (map calls_shown
               (zip (st # states) (zip (ev # evs) (keep # keeps))))), wrapper_state = wrapper_state w\<rparr>"
    using rec IH(5) by simp
  ultimately show ?case
    using st IH(1-3) by (intro conjI exI [of _ "st # states"] exI [of _ "keep # keeps"]) simp_all
qed (auto simp: MovySuiTracerWrapper.defs)

definition runtime_api :: TraceApi where
  "runtime_api = \<lparr>snapshot = (\<lambda>v. case v of
       RuntimeValue x \<Rightarrow> x | ImmRef _ x \<Rightarrow> x | MutRef _ x \<Rightarrow> x),
     value_mut = (\<lambda>v. case v of RuntimeValue _ \<Rightarrow> Some RuntimeValue | _ \<Rightarrow> None)\<rparr>"

text \<open>A tracer that counts the events it sees and keeps the instructions.\<close>

definition counting_tracer :: "nat TracerExt" where
  "counting_tracer = default_tracer\<lparr>on_raw_event := \<lambda>_ ev t. Inr (t + 1, (case ev of InstructionEv _ _ _ _ \<Rightarrow> True | _ \<Rightarrow> False))\<rparr>"

theorem notify_state_witness:
  "\<exists>w states keeps. foldR (notify runtime_api counting_tracer) (wrapper_from 0)
       [EffectEv (Push (RuntimeValue (SU8 7))), InstructionEv [] 0 9 BcPop] = Inr w
     \<and> tracer w = 2 \<and> length states = 2 \<and> length keeps = 2
     \<and> states ! 1 = \<lparr>loaded_state = [], operand_stack = [RuntimeValue (SU8 7)], call_stack = []\<rparr>
     \<and> foldR (notify runtime_api (recorder counting_tracer)) (wrapper_from (0, []))
         [EffectEv (Push (RuntimeValue (SU8 7))), InstructionEv [] 0 9 BcPop]
       = Inr \<lparr>tracer = (2, concat (map calls_shown (zip states (zip
             [EffectEv (Push (RuntimeValue (SU8 7))), InstructionEv [] 0 9 BcPop] keeps)))),
           wrapper_state = wrapper_state w\<rparr>"
proof -
  let ?evs = "[EffectEv (Push (RuntimeValue (SU8 7))), InstructionEv [] 0 9 BcPop]"
  let ?st = "\<lparr>loaded_state = [], operand_stack = [RuntimeValue (SU8 7)], call_stack = []\<rparr>"
  have run: "foldR (notify runtime_api counting_tracer) \<lparr>tracer = 0, wrapper_state = TraceState_new\<rparr> ?evs
      = Inr \<lparr>tracer = 2, wrapper_state = ?st\<rparr>"
    by (simp add: notify_def counting_tracer_def default_tracer_def TraceState_new_def dispatch_def
        apply_event_def apply_effect_def)
  obtain states keeps where r: "length states = length ?evs" "length keeps = length ?evs"
    "\<forall>k < length ?evs. foldR (apply_event runtime_api) TraceState_new (take k ?evs) = Inr (states ! k)"
    "foldR (notify runtime_api (recorder counting_tracer)) \<lparr>tracer = (0, []), wrapper_state = TraceState_new\<rparr> ?evs
       = Inr \<lparr>tracer = (tracer \<lparr>tracer = 2, wrapper_state = ?st\<rparr>,
             [] @ concat (map calls_shown (zip states (zip ?evs keeps)))),
           wrapper_state = wrapper_state \<lparr>tracer = 2 :: nat, wrapper_state = ?st\<rparr>\<rparr>"
    using notify_state [OF run, of "[]"] by blast
  have "foldR (apply_event runtime_api) TraceState_new (take 1 ?evs) = Inr ?st"
    by (simp add: TraceState_new_def apply_event_def apply_effect_def)
  then have "states ! 1 = ?st" using r(3) [rule_format, of 1] by simp
  moreover have "length states = 2" "length keeps = 2" using r(1,2) by simp_all
  moreover have "foldR (notify runtime_api (recorder counting_tracer)) (wrapper_from (0, [])) ?evs
      = Inr \<lparr>tracer = (2, concat (map calls_shown (zip states (zip ?evs keeps)))), wrapper_state = ?st\<rparr>"
    unfolding wrapper_from_def r(4) by (simp only: append_Nil MovySuiTracerWrapper.simps)
  ultimately show ?thesis
    using run unfolding wrapper_from_def
    by (intro exI [of _ "\<lparr>tracer = 2, wrapper_state = ?st\<rparr>"] exI [of _ states] exI [of _ keeps] conjI)
      (simp_all only: MovySuiTracerWrapper.simps)
qed

text \<open>
  Frames are bracketed: over the complete trace of a call the call stack ends with exactly
  the frames it started with, so closing a frame always removes the frame that was opened for it.
\<close>
theorem segment_call_stack:
  assumes "segment n evs m" "trace_wf st" "\<forall>k \<in> set (bt_keys (call_stack st)). k < n"
    and "foldR (apply_event A) st evs = Inr st'"
  shows "trace_wf st' \<and> bt_keys (call_stack st') = bt_keys (call_stack st)"
  using segment_frames [OF assms(1,4,2,3)] .

definition demo_frame :: "nat \<Rightarrow> Frame" where
  "demo_frame i = \<lparr>frame_id = i, frame_module = \<lparr>module_address = 7, mod_name = ''m''\<rparr>,
     function_name = ''f'', version_id = 7, binary_member_index = 0, type_instantiation = [],
     frame_parameters = [RuntimeValue (SU8 1)], return_types = [], locals_types = [],
     is_native = False\<rparr>"

theorem segment_call_stack_witness:
  "trace_wf TraceState_new \<and> bt_keys (call_stack TraceState_new) = bt_keys (call_stack TraceState_new)"
proof (rule segment_call_stack [where n = 0 and A = runtime_api])
  show "segment 0 (OpenFrame (demo_frame 0) 5 # [EffectEv (WriteEff (Local 0 0) (RuntimeValue (SU8 2)))]
      @ CloseFrame 0 [] 4 # []) 1"
    by (rule seg_call [where k = 1]) (auto simp: demo_frame_def plain_event_def intro: segment.intros)
qed (simp_all add: TraceState_new_def trace_wf_def apply_event_def apply_effect_def open_locals_def
      demo_frame_def)

text \<open>A tracer that keeps every event, and the same tracer made to see every event.\<close>

definition keeps_all :: "'t TracerExt \<Rightarrow> bool" where
  "keeps_all T \<longleftrightarrow> (\<forall>st ev t t' k. on_raw_event T st ev t = Inr (t', k) \<longrightarrow> k)"

definition forced :: "'t TracerExt \<Rightarrow> 't TracerExt" where
  "forced T = T\<lparr>on_raw_event := \<lambda>st ev t. bindR (on_raw_event T st ev t) (\<lambda>(t', _). Inr (t', True))\<rparr>"

lemma dispatch_tee: "dispatch (tee_tracer T1 T2) st ev = both (dispatch T1 st ev) (dispatch T2 st ev)"
  by (cases ev) (auto simp: dispatch_def tee_tracer_def both_def fun_eq_iff)

lemma dispatch_forced: "dispatch (forced T) st ev = dispatch T st ev"
  by (cases ev) (auto simp: dispatch_def forced_def fun_eq_iff)

lemma notify_keeps:
  assumes "keeps_all T"
  shows "notify A T \<lparr>tracer = t, wrapper_state = st\<rparr> ev = Inr w \<longleftrightarrow>
    (\<exists>t1 k t2 s. on_raw_event T st ev t = Inr (t1, k) \<and> dispatch T st ev t1 = Inr t2
      \<and> apply_event A st ev = Inr s \<and> w = \<lparr>tracer = t2, wrapper_state = s\<rparr>)"
proof (cases "on_raw_event T st ev t")
  case (Inr p)
  obtain a b where p: "p = (a, b)" by (cases p)
  then have b using assms Inr unfolding keeps_all_def by blast
  then show ?thesis using Inr p by (auto simp: notify_def bindR_eq_Inr)
qed (simp add: notify_def)

lemma notify_forced:
  "notify A (forced T) \<lparr>tracer = t, wrapper_state = st\<rparr> ev = Inr w \<longleftrightarrow>
    (\<exists>t1 k t2 s. on_raw_event T st ev t = Inr (t1, k) \<and> dispatch T st ev t1 = Inr t2
      \<and> apply_event A st ev = Inr s \<and> w = \<lparr>tracer = t2, wrapper_state = s\<rparr>)"
  by (cases "on_raw_event T st ev t")
    (auto simp: notify_def dispatch_forced bindR_eq_Inr, auto simp: forced_def bindR_eq_Inr)

lemma keeps_all_tee: "keeps_all T1 \<Longrightarrow> keeps_all (tee_tracer T1 T2)"
  unfolding keeps_all_def by (force simp: tee_tracer_def bindR_eq_Inr)

text \<open>
  Beside a tracer that keeps every event, a tee runs both tracers independently: the first as
  if it were alone, the second as if it kept every event too.
\<close>
theorem tee_independent:
  assumes "keeps_all T1"
    and "foldR (notify A (tee_tracer T1 T2)) \<lparr>tracer = (a, b), wrapper_state = st\<rparr> evs
      = Inr \<lparr>tracer = (a', b'), wrapper_state = st'\<rparr>"
  shows "foldR (notify A T1) \<lparr>tracer = a, wrapper_state = st\<rparr> evs
      = Inr \<lparr>tracer = a', wrapper_state = st'\<rparr>
    \<and> foldR (notify A (forced T2)) \<lparr>tracer = b, wrapper_state = st\<rparr> evs
      = Inr \<lparr>tracer = b', wrapper_state = st'\<rparr>"
  using assms(2)
proof (induction evs arbitrary: a b st)
  case (Cons ev evs)
  from Cons.prems obtain w where
    w: "notify A (tee_tracer T1 T2) \<lparr>tracer = (a, b), wrapper_state = st\<rparr> ev = Inr w"
    "foldR (notify A (tee_tracer T1 T2)) w evs = Inr \<lparr>tracer = (a', b'), wrapper_state = st'\<rparr>"
    by (auto simp: bindR_eq_Inr)
  obtain ab k t2 s where t: "on_raw_event (tee_tracer T1 T2) st ev (a, b) = Inr (ab, k)"
    "dispatch (tee_tracer T1 T2) st ev ab = Inr t2" "apply_event A st ev = Inr s"
    "w = \<lparr>tracer = t2, wrapper_state = s\<rparr>"
    using w(1) unfolding notify_keeps [OF keeps_all_tee [OF assms(1)]] by blast
  obtain a1 k1 b1 k2 where raw: "on_raw_event T1 st ev a = Inr (a1, k1)"
    "on_raw_event T2 st ev b = Inr (b1, k2)" "ab = (a1, b1)"
    using t(1) by (auto simp: tee_tracer_def bindR_eq_Inr)
  obtain a2 b2 where d: "dispatch T1 st ev a1 = Inr a2" "dispatch T2 st ev b1 = Inr b2" "t2 = (a2, b2)"
    using t(2) unfolding dispatch_tee raw(3) both_def by (auto simp: bindR_eq_Inr)
  have "notify A T1 \<lparr>tracer = a, wrapper_state = st\<rparr> ev = Inr \<lparr>tracer = a2, wrapper_state = s\<rparr>"
    unfolding notify_keeps [OF assms(1)] using raw d t(3) by blast
  moreover have "notify A (forced T2) \<lparr>tracer = b, wrapper_state = st\<rparr> ev
      = Inr \<lparr>tracer = b2, wrapper_state = s\<rparr>"
    unfolding notify_forced using raw d t(3) by blast
  ultimately show ?case using Cons.IH w(2) unfolding t(4) d(3) by simp
qed simp

end
