(* ===== verification/Move_Abi.thy ===== *)
theory Move_Abi
  imports Move_Types Move_Bytecode
begin

text \<open>
  \<open>movy-types/src/abi.rs\<close>: abilities, signature tokens with their queries, extraction and
  substitution of type arguments (the typing core of the fuzzer), function, module and package
  ABIs, and their construction from a compiled module. A \<open>CompiledModule\<close> of
  \<open>move_binary_format\<close> is a record of the accessors that the code calls.
\<close>

unbundle bit_operations_syntax

section \<open>Abilities\<close>

type_synonym MoveAbility = u8

definition COPY :: MoveAbility where "COPY = 1"
definition DROP :: MoveAbility where "DROP = 2"
definition STORE :: MoveAbility where "STORE = 4"
definition KEY :: MoveAbility where "KEY = 8"
definition PRIMITIVES :: MoveAbility where "PRIMITIVES = 7"

lemmas ability_defs = COPY_def DROP_def STORE_def KEY_def PRIMITIVES_def

text \<open>\<open>contains\<close> as the \<open>bitflags\<close> macro generates it.\<close>

definition ability_contains :: "MoveAbility \<Rightarrow> MoveAbility \<Rightarrow> bool" where
  "ability_contains self other \<longleftrightarrow> self AND other = other"

definition ability_is_hot_potato :: "MoveAbility \<Rightarrow> bool" where
  "ability_is_hot_potato a \<longleftrightarrow> \<not> ability_contains a DROP \<and> \<not> ability_contains a STORE"

definition is_subset_of :: "MoveAbility \<Rightarrow> MoveAbility \<Rightarrow> bool" where
  "is_subset_of self other \<longleftrightarrow> self AND other = self"

definition ability_to_string :: "MoveAbility \<Rightarrow> string" where
  "ability_to_string a = join '' + ''
     ((if ability_contains a DROP then [''drop''] else [])
      @ (if ability_contains a STORE then [''store''] else [])
      @ (if ability_contains a KEY then [''key''] else [])
      @ (if ability_contains a COPY then [''copy''] else []))"

definition ability_to_string_with_name :: "MoveAbility \<Rightarrow> string \<Rightarrow> string" where
  "ability_to_string_with_name a name =
     (if a = 0 then name else name @ '': '' @ ability_to_string a)"

text \<open>The four queries of the binary format's \<open>AbilitySet\<close> that \<open>From<AbilitySet>\<close> makes.\<close>

record AbilitySet =
  has_copy :: bool
  has_key :: bool
  has_store :: bool
  has_drop :: bool

definition MoveAbility_from :: "AbilitySet \<Rightarrow> MoveAbility" where
  "MoveAbility_from v =
     (let a = 0;
          a = (if has_copy v then a OR COPY else a);
          a = (if has_key v then a OR KEY else a);
          a = (if has_store v then a OR STORE else a);
          a = (if has_drop v then a OR DROP else a)
      in a)"

section \<open>Signature tokens\<close>

record MoveStructTypeParameters =
  constraints :: MoveAbility
  phantom :: bool

definition tyParam_to_string_with_name :: "MoveStructTypeParameters \<Rightarrow> string \<Rightarrow> string" where
  "tyParam_to_string_with_name p name =
     (if phantom p then ''phantom '' else []) @ ability_to_string_with_name (constraints p) name"

record MoveStructHandle =
  handle_module_id :: MoveModuleId
  struct_name :: string
  abilities :: MoveAbility
  type_parameters :: "MoveStructTypeParameters list"

datatype MoveAbiSignatureToken =
    TokBool | TokU8 | TokU16 | TokU32 | TokU64 | TokU128 | TokU256 | TokAddress | TokSigner
  | TokVector MoveAbiSignatureToken
  | TokStruct MoveStructHandle
  | TokStructInstantiation MoveStructHandle "MoveAbiSignatureToken list"
  | TokTypeParameter u16 MoveAbility
  | TokReference MoveAbiSignatureToken
  | TokMutableReference MoveAbiSignatureToken

fun as_struct :: "MoveAbiSignatureToken \<Rightarrow> MoveStructHandle option" where
  "as_struct (TokStruct handle) = Some handle"
| "as_struct (TokStructInstantiation handle _) = Some handle"
| "as_struct _ = None"

fun as_struct_ref :: "MoveAbiSignatureToken \<Rightarrow> (MoveStructHandle \<times> bool) option" where
  "as_struct_ref (TokReference inner) = map_option (\<lambda>h. (h, False)) (as_struct inner)"
| "as_struct_ref (TokMutableReference inner) = map_option (\<lambda>h. (h, True)) (as_struct inner)"
| "as_struct_ref _ = None"

text \<open>\<open>Display\<close>: the alternate form prints addresses with \<open>short\<close>, the plain one in full; the
  two address printers are the parameter.\<close>

definition struct_path :: "(MoveAddress \<Rightarrow> string) \<Rightarrow> MoveStructHandle \<Rightarrow> string \<Rightarrow> string" where
  "struct_path addr s ty_string =
     addr (module_address (handle_module_id s)) @ ''::'' @ mod_name (handle_module_id s)
       @ ''::'' @ struct_name s @ ty_string"

fun token_to_string :: "(MoveAddress \<Rightarrow> string) \<Rightarrow> MoveAbiSignatureToken \<Rightarrow> string" where
  "token_to_string addr TokBool = ''bool''"
| "token_to_string addr TokU8 = ''u8''"
| "token_to_string addr TokU16 = ''u16''"
| "token_to_string addr TokU32 = ''u32''"
| "token_to_string addr TokU64 = ''u64''"
| "token_to_string addr TokU128 = ''u128''"
| "token_to_string addr TokU256 = ''u256''"
| "token_to_string addr TokAddress = ''address''"
| "token_to_string addr TokSigner = ''signer''"
| "token_to_string addr (TokVector v) = ''vector<'' @ token_to_string addr v @ ''>''"
| "token_to_string addr (TokStruct s) =
     struct_path addr s
       (if type_parameters s = [] then []
        else ''<'' @ join '', '' (map (\<lambda>(idx, v). tyParam_to_string_with_name v (''ST'' @ dec idx))
                                   (enumerate 0 (type_parameters s))) @ ''>'')"
| "token_to_string addr (TokStructInstantiation s insts) =
     struct_path addr s
       (if type_parameters s = [] then []
        else ''<'' @ join '', '' (map (token_to_string addr) insts) @ ''>'')"
| "token_to_string addr (TokMutableReference v) = ''&mut '' @ token_to_string addr v"
| "token_to_string addr (TokReference v) = ''&'' @ token_to_string addr v"
| "token_to_string addr (TokTypeParameter idx _) = ''T'' @ dec (unat idx)"

definition handle_published_at ::
  "MoveAddress \<Rightarrow> MoveAddress \<Rightarrow> MoveStructHandle \<Rightarrow> MoveStructHandle" where
  "handle_published_at previous address st =
     (if module_address (handle_module_id st) = previous
      then st\<lparr>handle_module_id := (handle_module_id st)\<lparr>module_address := address\<rparr>\<rparr>
      else st)"

fun token_published_at ::
  "MoveAddress \<Rightarrow> MoveAddress \<Rightarrow> MoveAbiSignatureToken \<Rightarrow> MoveAbiSignatureToken" where
  "token_published_at previous address (TokStruct st) =
     TokStruct (handle_published_at previous address st)"
| "token_published_at previous address (TokStructInstantiation st insts) =
     TokStructInstantiation (handle_published_at previous address st)
       (map (token_published_at previous address) insts)"
| "token_published_at previous address (TokMutableReference mt) =
     TokMutableReference (token_published_at previous address mt)"
| "token_published_at previous address (TokReference rf) =
     TokReference (token_published_at previous address rf)"
| "token_published_at previous address (TokVector v) =
     TokVector (token_published_at previous address v)"
| "token_published_at previous address t = t"

fun dereference :: "MoveAbiSignatureToken \<Rightarrow> MoveAbiSignatureToken option" where
  "dereference (TokReference v) = Some v"
| "dereference (TokMutableReference v) = Some v"
| "dereference _ = None"

definition handle_tag :: "MoveStructHandle \<Rightarrow> MoveTypeTag list \<Rightarrow> MoveTypeTag" where
  "handle_tag st tys =
     TagStruct (MoveStructTag (module_address (handle_module_id st))
       (mod_name (handle_module_id st)) (struct_name st) tys)"

lemma handle_tag_eq [simp]:
  "handle_tag st tys = TagStruct (MoveStructTag a m n tys') \<longleftrightarrow>
     module_address (handle_module_id st) = a \<and> mod_name (handle_module_id st) = m
       \<and> struct_name st = n \<and> tys = tys'"
  by (simp add: handle_tag_def)

fun to_type_tag :: "MoveAbiSignatureToken \<Rightarrow> MoveTypeTag option" where
  "to_type_tag TokBool = Some TagBool"
| "to_type_tag TokU8 = Some TagU8"
| "to_type_tag TokU16 = Some TagU16"
| "to_type_tag TokU32 = Some TagU32"
| "to_type_tag TokU64 = Some TagU64"
| "to_type_tag TokU128 = Some TagU128"
| "to_type_tag TokU256 = Some TagU256"
| "to_type_tag TokAddress = Some TagAddress"
| "to_type_tag TokSigner = Some TagSigner"
| "to_type_tag (TokVector v) = map_option TagVector (to_type_tag v)"
| "to_type_tag (TokStructInstantiation st tys) =
     (if length (type_parameters st) = length tys
      then map_option (handle_tag st) (those (map to_type_tag tys))
      else None)"
| "to_type_tag _ = None"

fun is_mutable :: "MoveAbiSignatureToken \<Rightarrow> bool" where
  "is_mutable (TokVector inner) = is_mutable inner"
| "is_mutable t = (t \<in> {TokBool, TokAddress, TokU8, TokU16, TokU32, TokU64, TokU128, TokU256})"

definition handle_named :: "string \<Rightarrow> string \<Rightarrow> MoveStructHandle \<Rightarrow> bool" where
  "handle_named m n h \<longleftrightarrow> module_address (handle_module_id h) = two
     \<and> mod_name (handle_module_id h) = m \<and> struct_name h = n"

fun is_tx_context :: "MoveAbiSignatureToken \<Rightarrow> bool" where
  "is_tx_context (TokStruct inner) = handle_named ''tx_context'' ''TxContext'' inner"
| "is_tx_context (TokReference inner) = is_tx_context inner"
| "is_tx_context (TokMutableReference inner) = is_tx_context inner"
| "is_tx_context _ = False"

fun is_balance :: "MoveAbiSignatureToken \<Rightarrow> bool" where
  "is_balance (TokStructInstantiation inner _) = handle_named ''balance'' ''Balance'' inner"
| "is_balance _ = False"

fun is_coin :: "MoveAbiSignatureToken \<Rightarrow> bool" where
  "is_coin (TokStructInstantiation inner _) = handle_named ''coin'' ''Coin'' inner"
| "is_coin _ = False"

fun is_hot_potato :: "MoveAbiSignatureToken \<Rightarrow> bool" where
  "is_hot_potato (TokStruct inner) =
     (if is_balance (TokStruct inner) \<or> is_tx_context (TokStruct inner) then False
      else ability_is_hot_potato (abilities inner))"
| "is_hot_potato (TokStructInstantiation inner tys) =
     (if is_balance (TokStructInstantiation inner tys)
           \<or> is_tx_context (TokStructInstantiation inner tys) then False
      else ability_is_hot_potato (abilities inner))"
| "is_hot_potato (TokVector inner) = is_hot_potato inner"
| "is_hot_potato _ = False"

definition sampled_leaf :: "MoveAbiSignatureToken \<Rightarrow> bool" where
  "sampled_leaf b = (case b of
     TokStruct _ \<Rightarrow> True | TokStructInstantiation _ _ \<Rightarrow> True | TokTypeParameter _ _ \<Rightarrow> True
   | _ \<Rightarrow> False)"

fun needs_sample :: "MoveAbiSignatureToken \<Rightarrow> bool" where
  "needs_sample (TokReference b) =
     (\<not> is_tx_context b \<and> (sampled_leaf b \<or> needs_sample b))"
| "needs_sample (TokMutableReference b) =
     (\<not> is_tx_context b \<and> (sampled_leaf b \<or> needs_sample b))"
| "needs_sample (TokVector b) = (sampled_leaf b \<or> needs_sample b)"
| "needs_sample t = (\<not> is_tx_context t \<and> sampled_leaf t)"

definition token_has_copy :: "MoveAbiSignatureToken \<Rightarrow> bool" where
  "token_has_copy t =
     (case as_struct t of Some h \<Rightarrow> ability_contains (abilities h) COPY | None \<Rightarrow> False)"

definition is_key_store :: "MoveAbiSignatureToken \<Rightarrow> bool" where
  "is_key_store t =
     (case as_struct t of Some h \<Rightarrow> ability_contains (abilities h) (KEY OR STORE) | None \<Rightarrow> False)"

text \<open>\<open>gen_input_arg\<close> gives the zero value of a type, 1024 of them for a vector; the
  \<open>expect\<close> on the tag of a vector element is a panic.\<close>

fun gen_input_arg :: "MoveAbiSignatureToken \<Rightarrow> InputArgument option res" where
  "gen_input_arg TokBool = Inr (Some (InBool False))"
| "gen_input_arg TokAddress = Inr (Some (InAddress zero))"
| "gen_input_arg TokU8 = Inr (Some (InU8 0))"
| "gen_input_arg TokU16 = Inr (Some (InU16 0))"
| "gen_input_arg TokU32 = Inr (Some (InU32 0))"
| "gen_input_arg TokU64 = Inr (Some (InU64 0))"
| "gen_input_arg TokU128 = Inr (Some (InU128 0))"
| "gen_input_arg TokU256 = Inr (Some (InU256 0))"
| "gen_input_arg TokSigner = Inr (Some (InSigner zero))"
| "gen_input_arg (TokVector inner) =
     bindR (gen_input_arg inner) (\<lambda>r. case r of
       None \<Rightarrow> Inr None
     | Some v \<Rightarrow> bindR (unwrapR ''Vector inner type tag'' (to_type_tag inner)) (\<lambda>ty.
         Inr (Some (InVector ty (replicate 1024 v)))))"
| "gen_input_arg (TokReference inner) =
     bindR (gen_input_arg inner) (\<lambda>inner_value.
       Inr (if \<not> needs_sample inner then inner_value else None))"
| "gen_input_arg (TokMutableReference inner) =
     bindR (gen_input_arg inner) (\<lambda>inner_value.
       Inr (if \<not> needs_sample inner then inner_value else None))"
| "gen_input_arg _ = Inr None"

fun ability :: "MoveAbiSignatureToken \<Rightarrow> MoveAbility option" where
  "ability TokSigner = Some DROP"
| "ability (TokStruct inner) = Some (abilities inner)"
| "ability (TokStructInstantiation inner _) = Some (abilities inner)"
| "ability (TokTypeParameter _ _) = None"
| "ability (TokReference _) = None"
| "ability (TokMutableReference _) = None"
| "ability _ = Some PRIMITIVES"

section \<open>Type arguments\<close>

type_synonym ty_args = "(u16, MoveTypeTag) btree"

text \<open>The merge loop of both extractions: a conflicting argument gives up.\<close>

definition add_ty_arg :: "ty_args \<Rightarrow> u16 \<times> MoveTypeTag \<Rightarrow> ty_args option" where
  "add_ty_arg m p = (case p of (index, ty) \<Rightarrow>
     (case bt_get m index of
        Some ty' \<Rightarrow> if ty' \<noteq> ty then None else Some (bt_insert index ty m)
      | None \<Rightarrow> Some (bt_insert index ty m)))"

definition merge_ty_args :: "ty_args \<Rightarrow> ty_args \<Rightarrow> ty_args option" where
  "merge_ty_args m sub = foldO add_ty_arg m sub"

definition handle_is :: "MoveStructHandle \<Rightarrow> MoveStructTag \<Rightarrow> bool" where
  "handle_is h tag \<longleftrightarrow> module_address (handle_module_id h) = tag_address tag
     \<and> mod_name (handle_module_id h) = tag_module tag \<and> struct_name h = tag_name tag"

fun extract_ty_args :: "MoveAbiSignatureToken \<Rightarrow> MoveTypeTag \<Rightarrow> ty_args option" where
  "extract_ty_args (TokVector inner) ty =
     (case ty of TagVector inner_ty \<Rightarrow> extract_ty_args inner inner_ty | _ \<Rightarrow> None)"
| "extract_ty_args (TokStructInstantiation inner type_args) ty =
     (case ty of
        TagStruct tag \<Rightarrow>
          if \<not> handle_is inner tag then None
          else foldO (\<lambda>m (sub_generic_ty, sub_instantiated_ty).
                 case extract_ty_args sub_generic_ty sub_instantiated_ty of
                   Some sub_ty_args \<Rightarrow> merge_ty_args m sub_ty_args
                 | None \<Rightarrow> None) [] (zip type_args (tag_tys tag))
      | _ \<Rightarrow> None)"
| "extract_ty_args (TokStruct inner) ty =
     (case ty of
        TagStruct tag \<Rightarrow>
          if \<not> handle_is inner tag then None
          else if type_parameters inner \<noteq> [] then None else Some []
      | _ \<Rightarrow> None)"
| "extract_ty_args (TokReference inner) ty = extract_ty_args inner ty"
| "extract_ty_args (TokMutableReference inner) ty = extract_ty_args inner ty"
| "extract_ty_args (TokTypeParameter index _) ty = Some (bt_insert index ty [])"
| "extract_ty_args TokBool ty = (if ty = TagBool then Some [] else None)"
| "extract_ty_args TokAddress ty = (if ty = TagAddress then Some [] else None)"
| "extract_ty_args TokU8 ty = (if ty = TagU8 then Some [] else None)"
| "extract_ty_args TokU16 ty = (if ty = TagU16 then Some [] else None)"
| "extract_ty_args TokU32 ty = (if ty = TagU32 then Some [] else None)"
| "extract_ty_args TokU64 ty = (if ty = TagU64 then Some [] else None)"
| "extract_ty_args TokU128 ty = (if ty = TagU128 then Some [] else None)"
| "extract_ty_args TokU256 ty = (if ty = TagU256 then Some [] else None)"
| "extract_ty_args TokSigner ty = (if ty = TagSigner then Some [] else None)"

fun subst :: "MoveAbiSignatureToken \<Rightarrow> (u16 \<rightharpoonup> MoveTypeTag) \<Rightarrow> MoveTypeTag option" where
  "subst (TokVector inner) ty_args = map_option TagVector (subst inner ty_args)"
| "subst (TokStructInstantiation inner type_params) ty_args =
     map_option (handle_tag inner) (those (map (\<lambda>ty. subst ty ty_args) type_params))"
| "subst (TokStruct inner) ty_args =
     (if type_parameters inner = [] then Some (handle_tag inner []) else None)"
| "subst (TokReference inner) ty_args = subst inner ty_args"
| "subst (TokMutableReference inner) ty_args = subst inner ty_args"
| "subst (TokTypeParameter index _) ty_args = ty_args index"
| "subst TokBool ty_args = Some TagBool"
| "subst TokAddress ty_args = Some TagAddress"
| "subst TokU8 ty_args = Some TagU8"
| "subst TokU16 ty_args = Some TagU16"
| "subst TokU32 ty_args = Some TagU32"
| "subst TokU64 ty_args = Some TagU64"
| "subst TokU128 ty_args = Some TagU128"
| "subst TokU256 ty_args = Some TagU256"
| "subst TokSigner ty_args = Some TagSigner"

fun from_type_tag_lossy :: "MoveTypeTag \<Rightarrow> MoveAbiSignatureToken" where
  "from_type_tag_lossy TagBool = TokBool"
| "from_type_tag_lossy TagAddress = TokAddress"
| "from_type_tag_lossy TagU8 = TokU8"
| "from_type_tag_lossy TagU16 = TokU16"
| "from_type_tag_lossy TagU32 = TokU32"
| "from_type_tag_lossy TagU64 = TokU64"
| "from_type_tag_lossy TagU128 = TokU128"
| "from_type_tag_lossy TagU256 = TokU256"
| "from_type_tag_lossy TagSigner = TokSigner"
| "from_type_tag_lossy (TagVector inner) = TokVector (from_type_tag_lossy inner)"
| "from_type_tag_lossy (TagStruct (MoveStructTag a m n tys)) =
     (let handle = \<lparr>handle_module_id = \<lparr>module_address = a, mod_name = m\<rparr>, struct_name = n,
                    abilities = 0, type_parameters = []\<rparr> in
      if tys = [] then TokStruct handle
      else TokStructInstantiation handle (map from_type_tag_lossy tys))"

fun partial_subst :: "MoveAbiSignatureToken \<Rightarrow> (u16 \<rightharpoonup> MoveTypeTag) \<Rightarrow> MoveAbiSignatureToken" where
  "partial_subst (TokVector inner) ty_args = TokVector (partial_subst inner ty_args)"
| "partial_subst (TokStructInstantiation inner type_params) ty_args =
     TokStructInstantiation inner (map (\<lambda>ty. partial_subst ty ty_args) type_params)"
| "partial_subst (TokReference inner) ty_args = TokReference (partial_subst inner ty_args)"
| "partial_subst (TokMutableReference inner) ty_args =
     TokMutableReference (partial_subst inner ty_args)"
| "partial_subst (TokTypeParameter index a) ty_args =
     (case ty_args index of
        Some ty_tag \<Rightarrow> from_type_tag_lossy ty_tag
      | None \<Rightarrow> TokTypeParameter index a)"
| "partial_subst t ty_args = t"

fun contains_type_param :: "MoveAbiSignatureToken \<Rightarrow> u16 \<Rightarrow> bool" where
  "contains_type_param (TokTypeParameter i _) index = (i = index)"
| "contains_type_param (TokVector inner) index = contains_type_param inner index"
| "contains_type_param (TokReference inner) index = contains_type_param inner index"
| "contains_type_param (TokMutableReference inner) index = contains_type_param inner index"
| "contains_type_param (TokStructInstantiation _ type_params) index =
     list_ex (\<lambda>ty. contains_type_param ty index) type_params"
| "contains_type_param _ index = False"

text \<open>
  \<open>partial_extract_ty_args\<close> unifies a consumer type \<open>self\<close> with a producer type \<open>other\<close>: arguments
  for the consumer's parameters, for the producer's, and the pairs of parameters that must agree.
\<close>

type_synonym partial_args = "ty_args \<times> ty_args \<times> (u16 \<times> u16) list"

definition bind_other :: "MoveAbiSignatureToken \<Rightarrow> u16 \<Rightarrow> partial_args option" where
  "bind_other self other_index =
     map_option (\<lambda>ty. ([], bt_insert other_index ty [], [])) (subst self (\<lambda>_. None))"

definition merge_partial :: "partial_args \<Rightarrow> partial_args \<Rightarrow> partial_args option" where
  "merge_partial acc sub =
     (case acc of (ty_args, other_ty_args, mapping) \<Rightarrow>
      case sub of (sub_ty_args, sub_other_ty_args, sub_mapping) \<Rightarrow>
      case merge_ty_args ty_args sub_ty_args of
        None \<Rightarrow> None
      | Some ty_args' \<Rightarrow>
          (case merge_ty_args other_ty_args sub_other_ty_args of
             None \<Rightarrow> None
           | Some other_ty_args' \<Rightarrow> Some (ty_args', other_ty_args', mapping @ sub_mapping)))"

fun partial_extract_ty_args ::
  "MoveAbiSignatureToken \<Rightarrow> MoveAbiSignatureToken \<Rightarrow> partial_args option" where
  "partial_extract_ty_args (TokTypeParameter index _) other =
     (case other of
        TokTypeParameter other_index _ \<Rightarrow> Some ([], [], [(index, other_index)])
      | _ \<Rightarrow> map_option (\<lambda>ty. (bt_insert index ty [], [], [])) (subst other (\<lambda>_. None)))"
| "partial_extract_ty_args (TokStruct inner) other =
     (case other of
        TokTypeParameter other_index _ \<Rightarrow> bind_other (TokStruct inner) other_index
      | TokStruct other_inner \<Rightarrow>
          if handle_module_id inner \<noteq> handle_module_id other_inner
              \<or> struct_name inner \<noteq> struct_name other_inner
              \<or> length (type_parameters inner) \<noteq> length (type_parameters other_inner)
          then None else Some ([], [], [])
      | _ \<Rightarrow> None)"
| "partial_extract_ty_args (TokStructInstantiation inner type_args) other =
     (case other of
        TokTypeParameter other_index _ \<Rightarrow>
          bind_other (TokStructInstantiation inner type_args) other_index
      | TokStructInstantiation other_inner other_type_args \<Rightarrow>
          if handle_module_id inner \<noteq> handle_module_id other_inner
              \<or> struct_name inner \<noteq> struct_name other_inner
              \<or> length type_args \<noteq> length other_type_args
          then None
          else foldO (\<lambda>acc (sub_generic_ty, sub_other_ty).
                 case partial_extract_ty_args sub_generic_ty sub_other_ty of
                   None \<Rightarrow> None
                 | Some sub \<Rightarrow> merge_partial acc sub) ([], [], []) (zip type_args other_type_args)
      | _ \<Rightarrow> None)"
| "partial_extract_ty_args (TokVector inner) other =
     (case other of
        TokTypeParameter other_index _ \<Rightarrow> bind_other (TokVector inner) other_index
      | TokVector other_inner \<Rightarrow> partial_extract_ty_args inner other_inner
      | _ \<Rightarrow> None)"
| "partial_extract_ty_args (TokMutableReference inner) other =
     (case other of
        TokTypeParameter other_index _ \<Rightarrow> bind_other (TokMutableReference inner) other_index
      | TokMutableReference other_inner \<Rightarrow> partial_extract_ty_args inner other_inner
      | _ \<Rightarrow> partial_extract_ty_args inner other)"
| "partial_extract_ty_args (TokReference inner) other =
     (case other of
        TokTypeParameter other_index _ \<Rightarrow> bind_other (TokReference inner) other_index
      | TokMutableReference other_inner \<Rightarrow> partial_extract_ty_args inner other_inner
      | TokReference other_inner \<Rightarrow> partial_extract_ty_args inner other_inner
      | _ \<Rightarrow> partial_extract_ty_args inner other)"
| "partial_extract_ty_args self other =
     (case other of
        TokTypeParameter other_index _ \<Rightarrow> bind_other self other_index
      | _ \<Rightarrow> if self \<noteq> other then None else Some ([], [], []))"

section \<open>Reading a compiled module\<close>

text \<open>The accessors of \<open>move_binary_format\<close> that the code calls, over \<open>u16\<close> pool indices. A constant is
  the debug text of its value, or \<open>None\<close> when it cannot be deserialised.\<close>

datatype SignatureToken =
    SigBool | SigU8 | SigU16 | SigU32 | SigU64 | SigU128 | SigU256 | SigAddress | SigSigner
  | SigVector SignatureToken
  | SigDatatype u16
  | SigDatatypeInstantiation u16 "SignatureToken list"
  | SigTypeParameter u16
  | SigReference SignatureToken
  | SigMutableReference SignatureToken

record DatatypeTyParameter =
  dtp_constraints :: AbilitySet
  dtp_is_phantom :: bool

record ModuleHandle =
  mh_address :: u16
  mh_name :: u16

record DatatypeHandle =
  dh_module :: u16
  dh_name :: u16
  dh_abilities :: AbilitySet
  dh_type_parameters :: "DatatypeTyParameter list"

datatype Visibility = VisFriend | VisPublic | VisPrivate

record FunctionHandle =
  fh_module :: u16
  fh_name :: u16
  fh_parameters :: u16
  fh_return :: u16
  fh_type_parameters :: "AbilitySet list"

record FunctionDefinition =
  fd_function :: u16
  fd_visibility :: Visibility
  fd_is_entry :: bool
  fd_code :: "Bytecode list option"

record FieldDefinition =
  field_name :: u16
  field_signature :: SignatureToken

record StructDefinition =
  sd_struct_handle :: u16
  sd_fields :: "FieldDefinition list option"

record FunctionInstantiation =
  fi_handle :: u16
  fi_type_parameters :: u16

record CompiledModule =
  cm_address :: MoveAddress
  cm_name :: string
  datatype_handle_at :: "u16 \<Rightarrow> DatatypeHandle"
  identifier_at :: "u16 \<Rightarrow> string"
  module_handle_at :: "u16 \<Rightarrow> ModuleHandle"
  address_identifier_at :: "u16 \<Rightarrow> MoveAddress"
  signature_at :: "u16 \<Rightarrow> SignatureToken list"
  function_handle_at :: "u16 \<Rightarrow> FunctionHandle"
  cm_struct_defs :: "StructDefinition list"
  cm_function_defs :: "FunctionDefinition list"
  function_instantiation_at :: "u16 \<Rightarrow> FunctionInstantiation"
  struct_instantiation_def :: "u16 \<Rightarrow> u16"
  variant_handle_enum :: "u16 \<Rightarrow> u16"
  variant_instantiation_enum :: "u16 \<Rightarrow> u16"
  enum_defs_len :: nat
  constant_pool :: "string option list"
  immediate_dependencies :: "MoveModuleId list"

definition MoveStructTypeParameters_from :: "DatatypeTyParameter \<Rightarrow> MoveStructTypeParameters" where
  "MoveStructTypeParameters_from v =
     \<lparr>constraints = MoveAbility_from (dtp_constraints v), phantom = dtp_is_phantom v\<rparr>"

definition from_module_idx :: "u16 \<Rightarrow> CompiledModule \<Rightarrow> MoveStructHandle" where
  "from_module_idx idx module =
     (let dty = datatype_handle_at module idx;
          struct_module = module_handle_at module (dh_module dty)
      in \<lparr>handle_module_id =
            \<lparr>module_address = address_identifier_at module (mh_address struct_module),
             mod_name = identifier_at module (mh_name struct_module)\<rparr>,
          struct_name = identifier_at module (dh_name dty),
          abilities = MoveAbility_from (dh_abilities dty),
          type_parameters = map MoveStructTypeParameters_from (dh_type_parameters dty)\<rparr>)"

fun from_sui_token_module ::
  "SignatureToken \<Rightarrow> MoveAbility list \<Rightarrow> CompiledModule \<Rightarrow> MoveAbiSignatureToken res" where
  "from_sui_token_module SigAddress tys module = Inr TokAddress"
| "from_sui_token_module SigBool tys module = Inr TokBool"
| "from_sui_token_module SigSigner tys module = Inr TokSigner"
| "from_sui_token_module SigU8 tys module = Inr TokU8"
| "from_sui_token_module SigU16 tys module = Inr TokU16"
| "from_sui_token_module SigU32 tys module = Inr TokU32"
| "from_sui_token_module SigU64 tys module = Inr TokU64"
| "from_sui_token_module SigU128 tys module = Inr TokU128"
| "from_sui_token_module SigU256 tys module = Inr TokU256"
| "from_sui_token_module (SigVector v) tys module =
     bindR (from_sui_token_module v tys module) (\<lambda>t. Inr (TokVector t))"
| "from_sui_token_module (SigDatatype dty) tys module =
     Inr (TokStruct (from_module_idx dty module))"
| "from_sui_token_module (SigDatatypeInstantiation dty insts) tys module =
     bindR (mapR (\<lambda>v. from_sui_token_module v tys module) insts) (\<lambda>ts.
       Inr (TokStructInstantiation (from_module_idx dty module) ts))"
| "from_sui_token_module (SigTypeParameter ty) tys module =
     (if unat ty < length tys then Inr (TokTypeParameter ty (tys ! unat ty))
      else Inl (Panic ''called `Option::unwrap()` on a `None` value''))"
| "from_sui_token_module (SigReference r) tys module =
     bindR (from_sui_token_module r tys module) (\<lambda>t. Inr (TokReference t))"
| "from_sui_token_module (SigMutableReference r) tys module =
     bindR (from_sui_token_module r tys module) (\<lambda>t. Inr (TokMutableReference t))"

section \<open>Struct, function, module and package ABIs\<close>

record MoveStructField =
  sf_name :: string
  sf_ty :: MoveAbiSignatureToken

record MoveStructAbi =
  struct_handle :: MoveStructHandle
  struct_fields :: "MoveStructField list"

definition struct_from_module_def :: "StructDefinition \<Rightarrow> CompiledModule \<Rightarrow> MoveStructAbi res" where
  "struct_from_module_def def module =
     (let handle = from_module_idx (sd_struct_handle def) module;
          tys = map constraints (type_parameters handle)
      in bindR (mapR (\<lambda>fd. bindR (from_sui_token_module (field_signature fd) tys module) (\<lambda>ty.
                  Inr \<lparr>sf_name = identifier_at module (field_name fd), sf_ty = ty\<rparr>))
                (case sd_fields def of None \<Rightarrow> [] | Some fds \<Rightarrow> fds)) (\<lambda>fs.
           Inr \<lparr>struct_handle = handle, struct_fields = fs\<rparr>))"

datatype MoveFunctionVisibility = Public | Private | Friend

fun visibility_to_string :: "MoveFunctionVisibility \<Rightarrow> string" where
  "visibility_to_string Private = ''private''"
| "visibility_to_string Public = ''public''"
| "visibility_to_string Friend = ''friend''"

fun MoveFunctionVisibility_from :: "Visibility \<Rightarrow> MoveFunctionVisibility" where
  "MoveFunctionVisibility_from VisFriend = Friend"
| "MoveFunctionVisibility_from VisPublic = Public"
| "MoveFunctionVisibility_from VisPrivate = Private"

record MoveFunctionAbi =
  fn_name :: string
  parameters :: "MoveAbiSignatureToken list"
  return_paramters :: "MoveAbiSignatureToken list"
  fn_type_parameters :: "MoveAbility list"
  visibility :: MoveFunctionVisibility
  is_entry :: bool

definition MOVY_INIT :: string where "MOVY_INIT = ''movy_init''"
definition MOVY_ORACLE :: string where "MOVY_ORACLE = ''movy_oracle''"
definition MOVY_PRE :: string where "MOVY_PRE = ''movy_pre''"
definition MOVY_POST :: string where "MOVY_POST = ''movy_post''"
definition MOVY_SEQUENCE :: string where "MOVY_SEQUENCE = ''ptb''"

lemmas movy_names = MOVY_INIT_def MOVY_ORACLE_def MOVY_PRE_def MOVY_POST_def MOVY_SEQUENCE_def

text \<open>\<open>starts_with\<close>, and the slice \<open>&s[n..]\<close>, which panics beyond the end of the string.\<close>

definition starts_with :: "string \<Rightarrow> string \<Rightarrow> bool" where
  "starts_with s p \<longleftrightarrow> take (length p) s = p"

definition str_from :: "string \<Rightarrow> nat \<Rightarrow> string res" where
  "str_from s n = (if n \<le> length s then Inr (drop n s)
                   else Inl (Panic ''byte index out of bounds''))"

definition is_movy_init :: "MoveFunctionAbi \<Rightarrow> bool" where
  "is_movy_init f \<longleftrightarrow> fn_name f = MOVY_INIT"

definition is_movy_oracle :: "MoveFunctionAbi \<Rightarrow> bool" where
  "is_movy_oracle f \<longleftrightarrow> starts_with (fn_name f) MOVY_ORACLE"

definition try_derive_movy_pre :: "MoveFunctionAbi \<Rightarrow> string option res" where
  "try_derive_movy_pre f =
     (if starts_with (fn_name f) MOVY_PRE
      then bindR (str_from (fn_name f) (length MOVY_PRE + 1)) (\<lambda>n. Inr (Some n))
      else Inr None)"

definition try_derive_movy_post :: "MoveFunctionAbi \<Rightarrow> string option res" where
  "try_derive_movy_post f =
     (if starts_with (fn_name f) MOVY_POST
      then bindR (str_from (fn_name f) (length MOVY_POST + 1)) (\<lambda>n. Inr (Some n))
      else Inr None)"

definition is_movy_pre_ptb :: "MoveFunctionAbi \<Rightarrow> bool res" where
  "is_movy_pre_ptb f = bindR (try_derive_movy_pre f) (\<lambda>r. Inr (r = Some MOVY_SEQUENCE))"

definition is_movy_post_ptb :: "MoveFunctionAbi \<Rightarrow> bool res" where
  "is_movy_post_ptb f = bindR (try_derive_movy_post f) (\<lambda>r. Inr (r = Some MOVY_SEQUENCE))"

definition function_to_string :: "(MoveAddress \<Rightarrow> string) \<Rightarrow> MoveFunctionAbi \<Rightarrow> string" where
  "function_to_string addr f =
     visibility_to_string (visibility f) @ '' '' @ fn_name f
     @ (if fn_type_parameters f = [] then []
        else ''<'' @ join '', '' (map (\<lambda>(idx, v). ability_to_string_with_name v (''T'' @ dec idx))
                                   (enumerate 0 (fn_type_parameters f))) @ ''>'')
     @ ''('' @ join '', '' (map (token_to_string addr) (parameters f)) @ '')''
     @ (if return_paramters f = [] then []
        else '': '' @ join '', '' (map (token_to_string addr) (return_paramters f)))"

definition from_module_function_handle_visibility ::
  "FunctionHandle \<Rightarrow> CompiledModule \<Rightarrow> MoveFunctionVisibility \<Rightarrow> MoveFunctionAbi res" where
  "from_module_function_handle_visibility fdecl module vis =
     (let ftys = map MoveAbility_from (fh_type_parameters fdecl);
          fname = identifier_at module (fh_name fdecl)
      in bindR (mapR (\<lambda>v. from_sui_token_module v ftys module)
                  (signature_at module (fh_parameters fdecl))) (\<lambda>ps.
         bindR (mapR (\<lambda>v. from_sui_token_module v ftys module)
                  (signature_at module (fh_return fdecl))) (\<lambda>rs.
         Inr \<lparr>fn_name = fname, parameters = ps, return_paramters = rs,
              fn_type_parameters = ftys, visibility = vis, is_entry = False\<rparr>)))"

definition function_from_module_def ::
  "FunctionDefinition \<Rightarrow> CompiledModule \<Rightarrow> MoveFunctionAbi res" where
  "function_from_module_def fdef module =
     bindR (from_module_function_handle_visibility (function_handle_at module (fd_function fdef))
              module (MoveFunctionVisibility_from (fd_visibility fdef))) (\<lambda>abi.
       Inr (abi\<lparr>is_entry := fd_is_entry fdef\<rparr>))"

record MoveModuleAbi =
  abi_module_id :: MoveModuleId
  abi_structs :: "MoveStructAbi list"
  abi_functions :: "MoveFunctionAbi list"

definition locate_movy_init :: "MoveModuleAbi \<Rightarrow> MoveFunctionAbi option" where
  "locate_movy_init m = List.find is_movy_init (abi_functions m)"

definition movy_oracles :: "MoveModuleAbi \<Rightarrow> MoveFunctionAbi list" where
  "movy_oracles m = filter is_movy_oracle (abi_functions m)"

definition is_test_only_module :: "MoveModuleAbi \<Rightarrow> bool" where
  "is_test_only_module m = list_ex (\<lambda>v. fn_name v = ''unit_test_poison'') (abi_functions m)"

definition from_sui_module :: "CompiledModule \<Rightarrow> MoveModuleAbi res" where
  "from_sui_module module =
     bindR (mapR (\<lambda>st. struct_from_module_def st module) (cm_struct_defs module)) (\<lambda>sts.
     bindR (mapR (\<lambda>f. function_from_module_def f module) (cm_function_defs module)) (\<lambda>fs.
     Inr \<lparr>abi_module_id = \<lparr>module_address = cm_address module, mod_name = cm_name module\<rparr>,
          abi_structs = sts, abi_functions = fs\<rparr>))"

record MovePackageAbi =
  package_id :: MoveAddress
  modules :: "MoveModuleAbi list"

definition function_published_at ::
  "MoveAddress \<Rightarrow> MoveAddress \<Rightarrow> MoveFunctionAbi \<Rightarrow> MoveFunctionAbi" where
  "function_published_at prev address fc =
     fc\<lparr>parameters := map (token_published_at prev address) (parameters fc),
        return_paramters := map (token_published_at prev address) (return_paramters fc)\<rparr>"

definition package_published_at :: "MoveAddress \<Rightarrow> MovePackageAbi \<Rightarrow> MovePackageAbi" where
  "package_published_at address self =
     (let prev = package_id self in
      self\<lparr>package_id := address,
           modules := map (\<lambda>md.
             md\<lparr>abi_module_id := (abi_module_id md)\<lparr>module_address := address\<rparr>,
                abi_structs := map (\<lambda>st. st\<lparr>struct_handle := (struct_handle st)
                  \<lparr>handle_module_id := (handle_module_id (struct_handle st))
                     \<lparr>module_address := address\<rparr>\<rparr>\<rparr>) (abi_structs md),
                abi_functions := map (function_published_at prev address) (abi_functions md)\<rparr>)
             (modules self)\<rparr>)"

definition from_sui_id_and_modules :: "MoveAddress \<Rightarrow> CompiledModule list \<Rightarrow> MovePackageAbi res" where
  "from_sui_id_and_modules pid ms =
     bindR (mapR from_sui_module ms) (\<lambda>out_modules.
       Inr \<lparr>package_id = pid, modules = out_modules\<rparr>)"

text \<open>\<open>from_sui_package\<close> with the deserialiser of the binary format as a parameter.\<close>

definition from_sui_package ::
  "('b \<Rightarrow> CompiledModule res) \<Rightarrow> MoveAddress \<Rightarrow> (string \<times> 'b) list \<Rightarrow> MovePackageAbi res" where
  "from_sui_package deserialize pid serialized_module_map =
     bindR (mapR (\<lambda>v. deserialize (snd v)) serialized_module_map) (\<lambda>ms.
       from_sui_id_and_modules pid ms)"

section \<open>Type layouts\<close>

text \<open>
  \<open>to_move_type_layout\<close> unfolds struct definitions. A table with a cyclic definition would make
  it recurse forever, so the model counts unfoldings: the outer \<open>None\<close> is running out of the
  bound, the inner one is the \<open>None\<close> of the code.
\<close>

datatype MoveTypeLayout =
    LBool | LU8 | LU16 | LU32 | LU64 | LU128 | LU256 | LAddress | LSigner
  | LVector MoveTypeLayout
  | LStruct StructTag "(string \<times> MoveTypeLayout) list"

type_synonym struct_defs = "MoveModuleId \<times> string \<Rightarrow> MoveStructAbi option"

definition bindF :: "'a option option \<Rightarrow> ('a \<Rightarrow> 'b option option) \<Rightarrow> 'b option option" where
  "bindF r f = (case r of None \<Rightarrow> None | Some None \<Rightarrow> Some None | Some (Some x) \<Rightarrow> f x)"

lemma bindF_cong [fundef_cong]:
  "r = r' \<Longrightarrow> (\<And>x. r' = Some (Some x) \<Longrightarrow> f x = f' x) \<Longrightarrow> bindF r f = bindF r' f'"
  by (auto simp: bindF_def split: option.splits)

fun mapF :: "('a \<Rightarrow> 'b option option) \<Rightarrow> 'a list \<Rightarrow> 'b list option option" where
  "mapF f [] = Some (Some [])"
| "mapF f (x # xs) = bindF (f x) (\<lambda>y. bindF (mapF f xs) (\<lambda>ys. Some (Some (y # ys))))"

lemma mapF_cong [fundef_cong]:
  "xs = xs' \<Longrightarrow> (\<And>x. x \<in> set xs' \<Longrightarrow> f x = f' x) \<Longrightarrow> mapF f xs = mapF f' xs'"
proof (induction xs arbitrary: xs')
  case (Cons x xs)
  have "f x = f' x" using Cons.prems by auto
  moreover have "mapF f xs = mapF f' xs" using Cons.prems by (intro Cons.IH) auto
  ultimately show ?case using Cons.prems(1) by auto
qed simp

definition struct_key :: "MoveStructHandle \<Rightarrow> MoveModuleId \<times> string" where
  "struct_key st = (handle_module_id st, struct_name st)"

text \<open>\<open>to_move_struct_layout\<close>, with the layout of a field token as a parameter; an identifier
  that \<open>Identifier::new\<close> rejects gives \<open>None\<close>.\<close>

definition to_move_struct_layout ::
  "(string \<Rightarrow> bool) \<Rightarrow> (MoveAbiSignatureToken \<Rightarrow> MoveTypeLayout option option)
     \<Rightarrow> MoveStructAbi \<Rightarrow> MoveTypeLayout option option" where
  "to_move_struct_layout ident_ok layout st =
     (let h = struct_handle st in
      bindF (mapF (\<lambda>fd. bindF (layout (sf_ty fd)) (\<lambda>ty.
               if ident_ok (sf_name fd) then Some (Some (sf_name fd, ty)) else Some None))
             (struct_fields st)) (\<lambda>fs.
        case StructTag_try_from ident_ok (MoveStructTag (module_address (handle_module_id h))
               (mod_name (handle_module_id h)) (struct_name h) []) of
          Inl _ \<Rightarrow> Some None
        | Inr tag \<Rightarrow> Some (Some (LStruct tag fs))))"

lemma to_move_struct_layout_cong [fundef_cong]:
  "ok = ok' \<Longrightarrow> st = st' \<Longrightarrow>
   (\<And>fd. fd \<in> set (struct_fields st') \<Longrightarrow> l (sf_ty fd) = l' (sf_ty fd)) \<Longrightarrow>
   to_move_struct_layout ok l st = to_move_struct_layout ok' l' st'"
  unfolding to_move_struct_layout_def Let_def
  by (intro bindF_cong mapF_cong) auto

function to_move_type_layout ::
  "(string \<Rightarrow> bool) \<Rightarrow> struct_defs \<Rightarrow> nat \<Rightarrow> MoveAbiSignatureToken \<Rightarrow> MoveTypeLayout list
     \<Rightarrow> MoveTypeLayout option option" where
  "to_move_type_layout ok defs n TokAddress typs = Some (Some LAddress)"
| "to_move_type_layout ok defs n TokSigner typs = Some (Some LSigner)"
| "to_move_type_layout ok defs n TokBool typs = Some (Some LBool)"
| "to_move_type_layout ok defs n TokU8 typs = Some (Some LU8)"
| "to_move_type_layout ok defs n TokU16 typs = Some (Some LU16)"
| "to_move_type_layout ok defs n TokU32 typs = Some (Some LU32)"
| "to_move_type_layout ok defs n TokU64 typs = Some (Some LU64)"
| "to_move_type_layout ok defs n TokU128 typs = Some (Some LU128)"
| "to_move_type_layout ok defs n TokU256 typs = Some (Some LU256)"
| "to_move_type_layout ok defs n (TokStruct st) typs =
     (case defs (struct_key st) of
        None \<Rightarrow> Some None
      | Some abi \<Rightarrow>
          (case n of 0 \<Rightarrow> None
           | Suc n' \<Rightarrow> to_move_struct_layout ok (\<lambda>t. to_move_type_layout ok defs n' t typs) abi))"
| "to_move_type_layout ok defs n (TokStructInstantiation st insts) typs =
     (case defs (struct_key st) of
        None \<Rightarrow> Some None
      | Some abi \<Rightarrow>
          bindF (mapF (\<lambda>inst. to_move_type_layout ok defs n inst typs) insts) (\<lambda>new_typs.
            case n of 0 \<Rightarrow> None
            | Suc n' \<Rightarrow>
                to_move_struct_layout ok (\<lambda>t. to_move_type_layout ok defs n' t new_typs) abi))"
| "to_move_type_layout ok defs n (TokTypeParameter idx a) typs =
     (if unat idx < length typs then Some (Some (typs ! unat idx)) else Some None)"
| "to_move_type_layout ok defs n (TokVector v) typs =
     bindF (to_move_type_layout ok defs n v typs) (\<lambda>l. Some (Some (LVector l)))"
| "to_move_type_layout ok defs n (TokReference rf) typs = to_move_type_layout ok defs n rf typs"
| "to_move_type_layout ok defs n (TokMutableReference rf) typs =
     to_move_type_layout ok defs n rf typs"
  by pat_completeness auto

termination
  by (relation "measures [\<lambda>(_, _, n, _, _). n, \<lambda>(_, _, _, t, _). size t]")
    (auto simp: size_list_estimation' less_Suc_eq_le)

subsection \<open>Lemmas on extraction and substitution\<close>

lemma add_ty_arg_Some:
  "add_ty_arg m (i, ty) = Some m' \<longleftrightarrow>
     (bt_get m i = None \<or> bt_get m i = Some ty) \<and> m' = bt_insert i ty m"
  by (auto simp: add_ty_arg_def split: option.splits)

text \<open>A successful merge extends the accumulator and contains every merged pair; it succeeds
  when both sides agree with one assignment.\<close>

lemma merge_ty_args_Some:
  assumes "merge_ty_args m sub = Some m'"
  shows "bt_get m \<subseteq>\<^sub>m bt_get m'" "\<And>i ty. (i, ty) \<in> set sub \<Longrightarrow> bt_get m' i = Some ty"
    "bt_wf m \<Longrightarrow> bt_wf m'"
proof -
  have "bt_get m \<subseteq>\<^sub>m bt_get m' \<and> (\<forall>(i, ty) \<in> set sub. bt_get m' i = Some ty)
      \<and> (bt_wf m \<longrightarrow> bt_wf m')"
    using assms unfolding merge_ty_args_def
  proof (induction sub arbitrary: m)
    case (Cons p sub)
    obtain i ty where p: "p = (i, ty)" by (cases p)
    with Cons.prems have ok: "bt_get m i = None \<or> bt_get m i = Some ty"
      and rest: "foldO add_ty_arg (bt_insert i ty m) sub = Some m'"
      by (auto simp: add_ty_arg_Some split: option.splits)
    have "bt_get m \<subseteq>\<^sub>m bt_get (bt_insert i ty m)" using ok by (auto simp: map_le_def dom_def)
    moreover have "bt_get m' i = Some ty"
      using Cons.IH [OF rest] by (auto simp: map_le_def dom_def)
    ultimately show ?case
      using Cons.IH [OF rest] p
      by (auto intro: map_le_trans bt_wf_insert simp del: fun_upd_apply)
  qed simp
  then show "bt_get m \<subseteq>\<^sub>m bt_get m'" "\<And>i ty. (i, ty) \<in> set sub \<Longrightarrow> bt_get m' i = Some ty"
    "bt_wf m \<Longrightarrow> bt_wf m'" by auto
qed

lemma merge_ty_args_agree:
  assumes "bt_get m \<subseteq>\<^sub>m \<sigma>" "\<And>i ty. (i, ty) \<in> set sub \<Longrightarrow> \<sigma> i = Some ty"
  shows "\<exists>m'. merge_ty_args m sub = Some m' \<and> bt_get m' \<subseteq>\<^sub>m \<sigma>"
  using assms unfolding merge_ty_args_def
proof (induction sub arbitrary: m)
  case (Cons p sub)
  obtain i ty where p: "p = (i, ty)" by (cases p)
  with Cons.prems(2) have i: "\<sigma> i = Some ty" by auto
  with Cons.prems(1) have "bt_get m i = None \<or> bt_get m i = Some ty"
    by (cases "bt_get m i") (force simp: map_le_def dom_def)+
  then have "add_ty_arg m p = Some (bt_insert i ty m)" by (simp add: p add_ty_arg_Some)
  moreover have "bt_get (bt_insert i ty m) \<subseteq>\<^sub>m \<sigma>"
    using Cons.prems(1) i by (auto simp: map_le_def)
  ultimately show ?case
    using Cons.IH [of "bt_insert i ty m"] Cons.prems(2) by (auto simp del: fun_upd_apply)
qed simp

text \<open>\<open>subst\<close> is monotone in the assignment and reads only the parameters that occur.\<close>

lemma subst_mono:
  "subst t \<sigma> = Some ty \<Longrightarrow> \<sigma> \<subseteq>\<^sub>m \<tau> \<Longrightarrow> subst t \<tau> = Some ty"
proof (induction t \<sigma> arbitrary: ty rule: subst.induct)
  case (2 inner ps \<sigma>)
  then obtain tys where tys: "list_all2 (\<lambda>p ty. subst p \<sigma> = Some ty) ps tys"
    "ty = handle_tag inner tys" by (auto simp: those_map_eq_Some)
  have "list_all2 (\<lambda>p ty. subst p \<tau> = Some ty) ps tys"
    using tys(1) 2 by (auto intro: list.rel_mono_strong)
  then show ?case by (simp add: tys(2) those_map_eq_Some [THEN iffD2])
next
  case (6 i a \<sigma>)
  then show ?case by (force simp: map_le_def dom_def)
qed auto

lemma subst_cong:
  "(\<And>i. contains_type_param t i \<Longrightarrow> \<sigma> i = \<tau> i) \<Longrightarrow> subst t \<sigma> = subst t \<tau>"
proof (induction t \<sigma> rule: subst.induct)
  case (2 inner ps \<sigma>)
  have "those (map (\<lambda>ty. subst ty \<sigma>) ps) = those (map (\<lambda>ty. subst ty \<tau>) ps)"
    using 2 by (intro those_map_cong) (auto simp: list_ex_iff)
  then show ?case by simp
qed auto

lemma subst_from_type_tag_lossy: "subst (from_type_tag_lossy ty) \<sigma> = Some ty"
proof (induction ty rule: from_type_tag_lossy.induct)
  case (11 a m n tys)
  have "those (map (\<lambda>t. subst t \<sigma>) (map from_type_tag_lossy tys)) = Some tys"
    using 11 [OF refl] by (cases "tys = []") (auto simp: those_eq_Some)
  then show ?case by (auto simp: Let_def)
qed auto

lemma subst_partial_subst: "subst (partial_subst t m) \<sigma> = subst t (\<sigma> ++ m)"
proof (induction t m rule: partial_subst.induct)
  case (2 inner ps m)
  have "those (map (\<lambda>p. subst p \<sigma>) (map (\<lambda>p. partial_subst p m) ps))
      = those (map (\<lambda>p. subst p (\<sigma> ++ m)) ps)"
    using 2 by (simp add: comp_def cong: map_cong)
  then show ?case by simp
qed (auto simp: subst_from_type_tag_lossy map_add_def split: option.splits)

subsection \<open>Extraction inverts substitution\<close>

text \<open>The tag has as many arguments as the token at every struct: the condition that the
  zipped loop of \<open>extract_ty_args\<close> does not check.\<close>

fun arity_agrees :: "MoveAbiSignatureToken \<Rightarrow> MoveTypeTag \<Rightarrow> bool" where
  "arity_agrees (TokVector inner) ty =
     (case ty of TagVector inner_ty \<Rightarrow> arity_agrees inner inner_ty | _ \<Rightarrow> True)"
| "arity_agrees (TokStructInstantiation inner type_args) ty =
     (case ty of
        TagStruct tag \<Rightarrow> length type_args = length (tag_tys tag)
          \<and> list_all (\<lambda>(t, u). arity_agrees t u) (zip type_args (tag_tys tag))
      | _ \<Rightarrow> True)"
| "arity_agrees (TokStruct inner) ty = (case ty of TagStruct tag \<Rightarrow> tag_tys tag = [] | _ \<Rightarrow> True)"
| "arity_agrees (TokReference inner) ty = arity_agrees inner ty"
| "arity_agrees (TokMutableReference inner) ty = arity_agrees inner ty"
| "arity_agrees _ ty = True"

lemma extract_fold_Some:
  assumes "foldO (\<lambda>m (t, u). case g t u of Some s \<Rightarrow> merge_ty_args m s | None \<Rightarrow> None) m ps = Some m'"
  shows "bt_get m \<subseteq>\<^sub>m bt_get m' \<and> (bt_wf m \<longrightarrow> bt_wf m')
    \<and> (\<forall>(t, u) \<in> set ps. \<exists>s. g t u = Some s \<and> (\<forall>(i, ty) \<in> set s. bt_get m' i = Some ty))"
  using assms
proof (induction ps arbitrary: m)
  case (Cons p ps)
  obtain t u where p: "p = (t, u)" by (cases p)
  with Cons.prems obtain s m1 where s: "g t u = Some s" and m1: "merge_ty_args m s = Some m1"
    and rest: "foldO (\<lambda>m (t, u). case g t u of Some s \<Rightarrow> merge_ty_args m s | None \<Rightarrow> None) m1 ps
      = Some m'"
    by (auto split: option.splits)
  note IH = Cons.IH [OF rest]
  have "\<forall>(i, ty) \<in> set s. bt_get m' i = Some ty"
    using merge_ty_args_Some(2) [OF m1] IH by (force simp: map_le_def dom_def)
  then show ?case
    using IH merge_ty_args_Some(1,3) [OF m1] s p by (auto intro: map_le_trans)
qed simp

lemma extract_fold_agree:
  assumes "bt_get m \<subseteq>\<^sub>m \<sigma>"
    and "\<And>t u. (t, u) \<in> set ps \<Longrightarrow> \<exists>s. g t u = Some s \<and> (\<forall>(i, ty) \<in> set s. \<sigma> i = Some ty)"
  shows "\<exists>m'. foldO (\<lambda>m (t, u). case g t u of Some s \<Rightarrow> merge_ty_args m s | None \<Rightarrow> None) m ps
    = Some m' \<and> bt_get m' \<subseteq>\<^sub>m \<sigma>"
  using assms
proof (induction ps arbitrary: m)
  case (Cons p ps)
  obtain t u where p: "p = (t, u)" by (cases p)
  with Cons.prems(2) obtain s where s: "g t u = Some s" "\<forall>(i, ty) \<in> set s. \<sigma> i = Some ty"
    by force
  then obtain m1 where m1: "merge_ty_args m s = Some m1" "bt_get m1 \<subseteq>\<^sub>m \<sigma>"
    using merge_ty_args_agree [OF Cons.prems(1), of s] by blast
  from Cons.IH [OF m1(2)] Cons.prems(2) p s m1(1) show ?case by auto
qed simp

lemma extract_wf: "extract_ty_args t ty = Some m \<Longrightarrow> bt_wf m"
proof (induction t ty arbitrary: m rule: extract_ty_args.induct)
  case (2 inner ts ty)
  then show ?case by (auto split: MoveTypeTag.splits if_splits dest!: extract_fold_Some)
qed (auto split: MoveTypeTag.splits if_splits simp: bt_wf_Cons)

lemma bt_entries_le:
  "bt_wf s \<Longrightarrow> (\<forall>(i, ty) \<in> set s. \<sigma> i = Some ty) \<longleftrightarrow> bt_get s \<subseteq>\<^sub>m \<sigma>"
proof
  assume "bt_wf s" "\<forall>(i, ty) \<in> set s. \<sigma> i = Some ty"
  then show "bt_get s \<subseteq>\<^sub>m \<sigma>" by (fastforce simp: map_le_def dest: map_of_SomeD)
next
  assume "bt_wf s" "bt_get s \<subseteq>\<^sub>m \<sigma>"
  then show "\<forall>(i, ty) \<in> set s. \<sigma> i = Some ty" by (force simp: map_le_def dom_def bt_wf_get)
qed

lemma handle_tag_is: "handle_tag h us = TagStruct tag \<longleftrightarrow> handle_is h tag \<and> us = tag_tys tag"
  by (cases tag) (simp add: handle_is_def)

lemma zip_all2D: "list_all2 P xs ys \<Longrightarrow> (x, y) \<in> set (zip xs ys) \<Longrightarrow> x \<in> set xs \<and> P x y"
  by (auto simp: list_all2_iff dest: set_zip_leftD)

lemma extract_sound:
  "extract_ty_args t ty = Some m \<Longrightarrow> arity_agrees t ty \<Longrightarrow> subst t (bt_get m) = Some ty"
proof (induction t ty arbitrary: m rule: extract_ty_args.induct)
  case (2 inner ts ty)
  from "2.prems" obtain tag where ty: "ty = TagStruct tag"
    by (cases ty) simp_all
  let ?us = "tag_tys tag"
  from "2.prems" have h: "handle_is inner tag" and len: "length ts = length ?us"
    and f: "foldO (\<lambda>m (t, u). case extract_ty_args t u of
        Some s \<Rightarrow> merge_ty_args m s | None \<Rightarrow> None) [] (zip ts ?us) = Some m"
    and ar: "\<And>t u. (t, u) \<in> set (zip ts ?us) \<Longrightarrow> arity_agrees t u"
    by (auto simp: ty list_all_iff split: if_splits)
  have "subst t (bt_get m) = Some u" if tu: "(t, u) \<in> set (zip ts ?us)" for t u
  proof -
    obtain s where s: "extract_ty_args t u = Some s" "bt_get s \<subseteq>\<^sub>m bt_get m"
      using extract_fold_Some [OF f] tu by (fastforce simp: bt_entries_le dest: extract_wf)
    have "subst t (bt_get s) = Some u"
      using "2.IH" ty h tu s(1) ar [OF tu] by blast
    then show ?thesis using s(2) by (rule subst_mono)
  qed
  then have "list_all2 (\<lambda>t u. subst t (bt_get m) = Some u) ts ?us"
    using len by (auto simp: list_all2_iff)
  then show ?case using h by (simp add: ty handle_tag_is those_map_eq_Some [THEN iffD2])
qed (auto split: MoveTypeTag.splits if_splits simp: handle_tag_is)

lemma extract_complete:
  "subst t \<sigma> = Some ty \<Longrightarrow>
     arity_agrees t ty \<and> (\<exists>m. extract_ty_args t ty = Some m \<and> bt_get m \<subseteq>\<^sub>m \<sigma>)"
proof (induction t \<sigma> arbitrary: ty rule: subst.induct)
  case (2 inner ts \<sigma>)
  then obtain us where us: "list_all2 (\<lambda>t u. subst t \<sigma> = Some u) ts us"
    and ty: "ty = handle_tag inner us" by (auto simp: those_map_eq_Some)
  have sub: "arity_agrees t u \<and> (\<exists>s. extract_ty_args t u = Some s \<and> bt_get s \<subseteq>\<^sub>m \<sigma>)"
    if "(t, u) \<in> set (zip ts us)" for t u
    using "2.IH" zip_all2D [OF us that] by blast
  then have "\<exists>m. foldO (\<lambda>m (t, u). case extract_ty_args t u of
      Some s \<Rightarrow> merge_ty_args m s | None \<Rightarrow> None) [] (zip ts us) = Some m \<and> bt_get m \<subseteq>\<^sub>m \<sigma>"
    by (intro extract_fold_agree) (auto, metis bt_entries_le extract_wf)
  then show ?case
    using sub us by (auto simp: ty handle_tag_def handle_is_def list_all_iff list_all2_iff)
qed (auto simp: handle_tag_def handle_is_def map_le_def)

subsection \<open>Unification of a consumer with a producer\<close>

lemma partial_fold_Some:
  assumes "foldO (\<lambda>acc (t, u). case g t u of None \<Rightarrow> None | Some sub \<Rightarrow> merge_partial acc sub)
      (a, b, c) ps = Some (a', b', c')"
  shows "bt_get a \<subseteq>\<^sub>m bt_get a' \<and> bt_get b \<subseteq>\<^sub>m bt_get b' \<and> set c \<subseteq> set c'
    \<and> (bt_wf a \<longrightarrow> bt_wf a') \<and> (bt_wf b \<longrightarrow> bt_wf b')
    \<and> (\<forall>(t, u) \<in> set ps. \<exists>x y z. g t u = Some (x, y, z)
        \<and> (\<forall>(i, ty) \<in> set x. bt_get a' i = Some ty)
        \<and> (\<forall>(i, ty) \<in> set y. bt_get b' i = Some ty) \<and> set z \<subseteq> set c')"
  using assms
proof (induction ps arbitrary: a b c)
  case (Cons p ps)
  obtain t u where p: "p = (t, u)" by (cases p)
  with Cons.prems obtain x y z a1 b1 where g: "g t u = Some (x, y, z)"
    and a1: "merge_ty_args a x = Some a1" and b1: "merge_ty_args b y = Some b1"
    and rest: "foldO (\<lambda>acc (t, u). case g t u of None \<Rightarrow> None | Some sub \<Rightarrow> merge_partial acc sub)
      (a1, b1, c @ z) ps = Some (a', b', c')"
    by (auto simp: merge_partial_def split: option.splits)
  note IH = Cons.IH [OF rest] and A = merge_ty_args_Some [OF a1] and B = merge_ty_args_Some [OF b1]
  have "\<forall>(i, ty) \<in> set x. bt_get a' i = Some ty" "\<forall>(i, ty) \<in> set y. bt_get b' i = Some ty"
    using IH A(2) B(2) by (force simp: map_le_def dom_def)+
  then show ?case
    using IH A(1,3) B(1,3) g p by (auto intro: map_le_trans)
qed simp

lemma partial_extract_wf:
  "partial_extract_ty_args t u = Some (a, b, c) \<Longrightarrow> bt_wf a \<and> bt_wf b"
proof (induction t u arbitrary: a b c rule: partial_extract_ty_args.induct)
  case (3 inner ts u)
  then show ?case
    by (cases u) (auto simp: bind_other_def bt_wf_Cons split: if_splits dest!: partial_fold_Some)
qed (auto simp: bind_other_def bt_wf_Cons split: MoveAbiSignatureToken.splits if_splits)

text \<open>Two assignments solve an extraction when they extend its arguments and agree on the
  paired parameters.\<close>

definition solves :: "(u16 \<rightharpoonup> MoveTypeTag) \<Rightarrow> (u16 \<rightharpoonup> MoveTypeTag) \<Rightarrow> partial_args \<Rightarrow> bool" where
  "solves \<sigma> \<tau> p = (case p of (a, b, c) \<Rightarrow>
     (\<forall>(i, ty) \<in> set a. \<sigma> i = Some ty) \<and> (\<forall>(i, ty) \<in> set b. \<tau> i = Some ty)
       \<and> (\<forall>(i, j) \<in> set c. \<sigma> i = \<tau> j))"

lemma subst_None_all: "subst t (\<lambda>_. None) = Some ty \<Longrightarrow> subst t \<sigma> = Some ty"
  by (rule subst_mono) (auto simp: map_le_def)

lemma bind_other_unifies: "bind_other t j = Some p \<Longrightarrow> solves \<sigma> \<tau> p \<Longrightarrow> subst t \<sigma> = \<tau> j"
  by (auto simp: bind_other_def solves_def dest!: subst_None_all [of _ _ \<sigma>])

lemma partial_extract_unifies:
  "partial_extract_ty_args t u = Some p \<Longrightarrow> solves \<sigma> \<tau> p \<Longrightarrow> subst t \<sigma> = subst u \<tau>"
proof (induction t u arbitrary: p rule: partial_extract_ty_args.induct)
  case (1 index ab other)
  then show ?case
    by (cases other) (auto simp: solves_def simp del: subst.simps(1-5,7-15)
      dest!: subst_None_all [of _ _ \<tau>])
next
  case (2 inner u)
  then show ?case
    by (cases u) (auto simp: handle_tag_def split: if_splits dest: bind_other_unifies)
next
  case (3 inner ts u)
  show ?case
  proof (cases u)
    case (TokStructInstantiation other us)
    obtain a b c where p: "p = (a, b, c)" by (cases p)
    have len: "length ts = length us" and h: "handle_module_id inner = handle_module_id other"
      "struct_name inner = struct_name other"
      and f: "foldO (\<lambda>acc (t, u). case partial_extract_ty_args t u of
        None \<Rightarrow> None | Some sub \<Rightarrow> merge_partial acc sub) ([], [], []) (zip ts us) = Some (a, b, c)"
      using "3.prems"(1) by (auto simp: TokStructInstantiation p split: if_splits)
    have "subst t \<sigma> = subst u \<tau>" if tu: "(t, u) \<in> set (zip ts us)" for t u
    proof -
      obtain x y z where g: "partial_extract_ty_args t u = Some (x, y, z)"
        and x: "\<forall>(i, ty) \<in> set x. bt_get a i = Some ty"
        and y: "\<forall>(i, ty) \<in> set y. bt_get b i = Some ty" and z: "set z \<subseteq> set c"
        using partial_fold_Some [OF f] tu by fastforce
      have "solves \<sigma> \<tau> (x, y, z)"
        using x y z "3.prems"(2) unfolding solves_def p
        by (fastforce dest: map_of_SomeD)
      then show ?thesis using "3.IH" TokStructInstantiation h len tu g by blast
    qed
    then have "map (\<lambda>t. subst t \<sigma>) ts = map (\<lambda>u. subst u \<tau>) us"
      using len by (auto simp: list_eq_iff_nth_eq in_set_zip)
    moreover have "handle_tag inner = handle_tag other"
      using h by (simp add: handle_tag_def fun_eq_iff)
    ultimately show ?thesis by (simp add: TokStructInstantiation)
  qed (use "3.prems" in \<open>auto dest: bind_other_unifies\<close>)
qed (auto split: MoveAbiSignatureToken.splits if_splits dest: bind_other_unifies)

section \<open>Properties of type arguments\<close>

text \<open>
  C16: \<open>extract_ty_args\<close> inverts \<open>subst\<close>: matching a token against one of its instances
  succeeds, finds no argument that the instance did not use, and what it finds rebuilds the
  instance.
\<close>
theorem extract_ty_args_inverts:
  assumes "subst t \<sigma> = Some ty"
  shows "\<exists>m. extract_ty_args t ty = Some m \<and> bt_get m \<subseteq>\<^sub>m \<sigma> \<and> subst t (bt_get m) = Some ty"
  using extract_complete [OF assms] extract_sound by blast

definition coin_of :: "MoveAbiSignatureToken \<Rightarrow> MoveAbiSignatureToken" where
  "coin_of t = TokStructInstantiation
     \<lparr>handle_module_id = \<lparr>module_address = 2, mod_name = ''coin''\<rparr>, struct_name = ''Coin'',
      abilities = KEY OR STORE, type_parameters = [\<lparr>constraints = 0, phantom = True\<rparr>]\<rparr> [t]"

theorem extract_ty_args_inverts_witness:
  "\<exists>m. extract_ty_args (TokVector (coin_of (TokTypeParameter 0 0)))
         (TagVector (TagStruct (MoveStructTag 2 ''coin'' ''Coin'' [TagU64]))) = Some m
     \<and> bt_get m \<subseteq>\<^sub>m [0 \<mapsto> TagU64, 1 \<mapsto> TagBool]
     \<and> subst (TokVector (coin_of (TokTypeParameter 0 0))) (bt_get m)
         = Some (TagVector (TagStruct (MoveStructTag 2 ''coin'' ''Coin'' [TagU64])))"
  by (rule extract_ty_args_inverts) (simp add: coin_of_def handle_tag_def)

text \<open>
  What \<open>extract_ty_args\<close> returns is a solution: substituting it gives exactly the type that
  was matched, whenever the tag has the arity of the token at every struct.
\<close>
theorem extract_ty_args_sound:
  assumes "extract_ty_args t ty = Some m" "arity_agrees t ty"
  shows "subst t (bt_get m) = Some ty"
  using assms by (rule extract_sound)

theorem extract_ty_args_sound_witness:
  "subst (coin_of (TokTypeParameter 3 0)) (bt_get [(3, TagBool)])
     = Some (TagStruct (MoveStructTag 2 ''coin'' ''Coin'' [TagBool]))"
  by (rule extract_ty_args_sound)
    (simp_all add: coin_of_def handle_is_def merge_ty_args_def add_ty_arg_def)

text \<open>
  C9: \<open>partial_extract_ty_args\<close> unifies: under every pair of assignments that extend the
  extracted arguments and agree on the paired parameters, the consumer and the producer denote
  the same type.
\<close>
theorem partial_extract_ty_args_unifies:
  assumes "partial_extract_ty_args consumer producer = Some p" "solves \<sigma> \<tau> p"
  shows "subst consumer \<sigma> = subst producer \<tau>"
  using assms by (rule partial_extract_unifies)

theorem partial_extract_ty_args_unifies_witness:
  "subst (TokReference (coin_of (TokTypeParameter 0 0))) [0 \<mapsto> TagU8]
     = subst (TokMutableReference (coin_of (TokTypeParameter 5 0))) [5 \<mapsto> TagU8]"
  by (rule partial_extract_ty_args_unifies [where p = "([], [], [(0, 5)])"])
    (simp_all add: coin_of_def solves_def merge_partial_def merge_ty_args_def)

text \<open>
  Partial substitution composes: substituting after \<open>partial_subst\<close> is one substitution in
  which the earlier arguments take precedence.
\<close>
theorem partial_subst_compose:
  "subst (partial_subst t (bt_get m)) \<sigma> = subst t (\<sigma> ++ bt_get m)"
  by (rule subst_partial_subst)

text \<open>The zipped loop ignores missing type arguments, and a plain struct ignores surplus ones:
  the match succeeds although no assignment produces the tag.\<close>

lemma extract_ty_args_short:
  "extract_ty_args (coin_of TokU64) (TagStruct (MoveStructTag 2 ''coin'' ''Coin'' [])) = Some []"
  "subst (coin_of TokU64) \<sigma> \<noteq> Some (TagStruct (MoveStructTag 2 ''coin'' ''Coin'' []))"
  by (simp_all add: coin_of_def handle_is_def)

text \<open>A \<open>&\<close> producer is accepted for a \<open>&mut\<close> consumer whose type is a parameter.\<close>

lemma partial_extract_mut_from_imm:
  "partial_extract_ty_args (TokMutableReference (TokTypeParameter 0 0)) (TokReference TokU8)
     = Some ([(0, TagU8)], [], [])"
  by simp

section \<open>Properties of republishing\<close>

fun tok_addresses :: "MoveAbiSignatureToken \<Rightarrow> MoveAddress list" where
  "tok_addresses (TokStruct h) = [module_address (handle_module_id h)]"
| "tok_addresses (TokStructInstantiation h ts) =
     module_address (handle_module_id h) # concat (map tok_addresses ts)"
| "tok_addresses (TokVector t) = tok_addresses t"
| "tok_addresses (TokReference t) = tok_addresses t"
| "tok_addresses (TokMutableReference t) = tok_addresses t"
| "tok_addresses _ = []"

definition readdress :: "MoveAddress \<Rightarrow> MoveAddress \<Rightarrow> MoveAddress \<Rightarrow> MoveAddress" where
  "readdress prev address a = (if a = prev then address else a)"

lemma tok_addresses_published_at:
  "tok_addresses (token_published_at prev address t) = map (readdress prev address) (tok_addresses t)"
proof (induction t rule: tok_addresses.induct)
  case (2 h ts)
  then show ?case
    by (simp add: readdress_def handle_published_at_def map_concat comp_def cong: map_cong)
qed (simp_all add: readdress_def handle_published_at_def)

definition signature_addresses :: "MoveFunctionAbi \<Rightarrow> MoveAddress list" where
  "signature_addresses f = concat (map tok_addresses (parameters f @ return_paramters f))"

definition package_functions :: "MovePackageAbi \<Rightarrow> MoveFunctionAbi list" where
  "package_functions p = concat (map abi_functions (modules p))"

text \<open>
  Republishing a package renames its address, and only it, in every function signature:
  the addresses of the signatures are those of before, position by position, with the previous
  package id replaced.
\<close>
theorem published_at_signatures:
  "map signature_addresses (package_functions (package_published_at address p))
     = map (map (readdress (package_id p) address) \<circ> signature_addresses) (package_functions p)"
proof -
  have "signature_addresses (function_published_at prev address f)
      = map (readdress prev address) (signature_addresses f)" for prev f
    by (simp add: signature_addresses_def function_published_at_def tok_addresses_published_at
        map_concat comp_def)
  then show ?thesis
    by (simp add: package_functions_def package_published_at_def Let_def map_concat comp_def)
qed

text \<open>The field types of a struct keep the previous address.\<close>

lemma published_at_fields_unchanged:
  "map (map struct_fields \<circ> abi_structs) (modules (package_published_at address p))
     = map (map struct_fields \<circ> abi_structs) (modules p)"
  by (simp add: package_published_at_def Let_def comp_def)

section \<open>Properties of layouts and default values\<close>

fun tok_structs :: "MoveAbiSignatureToken \<Rightarrow> MoveStructHandle list" where
  "tok_structs (TokStruct h) = [h]"
| "tok_structs (TokStructInstantiation h ts) = h # concat (map tok_structs ts)"
| "tok_structs (TokVector t) = tok_structs t"
| "tok_structs (TokReference t) = tok_structs t"
| "tok_structs (TokMutableReference t) = tok_structs t"
| "tok_structs _ = []"

text \<open>A rank that every struct definition decreases into its fields: no struct contains itself,
  as the Move verifier demands.\<close>

definition ranked :: "(MoveModuleId \<times> string \<Rightarrow> nat) \<Rightarrow> struct_defs \<Rightarrow> bool" where
  "ranked rank defs \<longleftrightarrow> (\<forall>k abi fd h. defs k = Some abi \<and> fd \<in> set (struct_fields abi)
     \<and> h \<in> set (tok_structs (sf_ty fd)) \<longrightarrow> rank (struct_key h) < rank k)"

lemma bindF_total: "r \<noteq> None \<Longrightarrow> (\<And>x. r = Some (Some x) \<Longrightarrow> f x \<noteq> None) \<Longrightarrow> bindF r f \<noteq> None"
  by (auto simp: bindF_def split: option.splits)

lemma mapF_total: "(\<And>x. x \<in> set xs \<Longrightarrow> f x \<noteq> None) \<Longrightarrow> mapF f xs \<noteq> None"
proof (induction xs)
  case (Cons x xs)
  then show ?case unfolding mapF.simps by (intro bindF_total) auto
qed simp

lemma to_move_struct_layout_total:
  assumes "\<And>fd. fd \<in> set (struct_fields st) \<Longrightarrow> l (sf_ty fd) \<noteq> None"
  shows "to_move_struct_layout ok l st \<noteq> None"
  unfolding to_move_struct_layout_def Let_def
  by (intro bindF_total mapF_total) (auto simp: assms split: sum.splits)

lemma ranked_field:
  assumes "ranked rank defs" "defs k = Some abi" "fd \<in> set (struct_fields abi)" "rank k < Suc n"
  shows "\<forall>h \<in> set (tok_structs (sf_ty fd)). rank (struct_key h) < n"
  using assms unfolding ranked_def by (meson less_Suc_eq_le order_less_le_trans)

lemma layout_total:
  "ranked rank defs \<Longrightarrow> \<forall>h \<in> set (tok_structs t). rank (struct_key h) < n \<Longrightarrow>
    to_move_type_layout ok defs n t typs \<noteq> None"
proof (induction ok defs n t typs rule: to_move_type_layout.induct)
  case (10 ok defs n st typs)
  show ?case
  proof (cases "defs (struct_key st)")
    case (Some abi)
    from "10.prems" obtain n' where n: "n = Suc n'" by (cases n) auto
    have "to_move_struct_layout ok (\<lambda>t. to_move_type_layout ok defs n' t typs) abi \<noteq> None"
      using "10.IH" [OF Some n] "10.prems" n Some
      by (intro to_move_struct_layout_total) (metis ranked_field list.set_intros(1) tok_structs.simps(1))
    then show ?thesis by (simp add: Some n)
  qed simp
next
  case (11 ok defs n st insts typs)
  show ?case
  proof (cases "defs (struct_key st)")
    case (Some abi)
    from "11.prems" obtain n' where n: "n = Suc n'" by (cases n) auto
    have "mapF (\<lambda>inst. to_move_type_layout ok defs n inst typs) insts \<noteq> None"
      using "11.IH"(1) [OF Some] "11.prems" by (intro mapF_total) auto
    moreover have "to_move_struct_layout ok (\<lambda>t. to_move_type_layout ok defs n' t new) abi \<noteq> None"
      if "mapF (\<lambda>inst. to_move_type_layout ok defs n inst typs) insts = Some (Some new)" for new
      using "11.IH"(2) [OF Some that n] "11.prems" n Some
      by (intro to_move_struct_layout_total) (metis ranked_field list.set_intros(1) tok_structs.simps(2))
    ultimately show ?thesis by (simp add: Some n bindF_total)
  qed simp
next
  case (13 ok defs n v typs)
  then show ?case unfolding to_move_type_layout.simps by (intro bindF_total) auto
qed auto

text \<open>
  C21: \<open>to_move_type_layout\<close> terminates on every table of struct definitions without a cycle: as
  many unfoldings as the highest rank in the token give its answer.
\<close>
theorem to_move_type_layout_terminates:
  assumes "ranked rank defs"
  shows "\<exists>n r. to_move_type_layout ident_ok defs n t typs = Some r"
proof -
  let ?n = "Suc (\<Sum>h \<leftarrow> tok_structs t. rank (struct_key h))"
  have "\<forall>h \<in> set (tok_structs t). rank (struct_key h) < ?n"
    by (auto simp: less_Suc_eq_le intro!: member_le_sum_list)
  then show ?thesis using layout_total [OF assms] by blast
qed

definition demo_defs :: struct_defs where
  "demo_defs k = (if k = (\<lparr>module_address = 7, mod_name = ''m''\<rparr>, ''S'')
     then Some \<lparr>struct_handle = \<lparr>handle_module_id = fst k, struct_name = snd k, abilities = 0,
                 type_parameters = []\<rparr>,
               struct_fields = [\<lparr>sf_name = ''f'', sf_ty = TokVector TokU8\<rparr>]\<rparr>
     else None)"

theorem to_move_type_layout_terminates_witness:
  "\<exists>n r. to_move_type_layout (\<lambda>s. s \<noteq> []) demo_defs n (TokStruct \<lparr>handle_module_id =
       \<lparr>module_address = 7, mod_name = ''m''\<rparr>, struct_name = ''S'', abilities = 0,
       type_parameters = []\<rparr>) [] = Some r"
  by (rule to_move_type_layout_terminates [of "\<lambda>_. 0"])
    (auto simp: ranked_def demo_defs_def split: if_splits)

text \<open>A default value exists without a panic for every token in which no vector holds a
  reference, which is every Move type.\<close>

fun vector_closed :: "MoveAbiSignatureToken \<Rightarrow> bool" where
  "vector_closed (TokVector t) = (vector_closed t \<and> dereference t = None)"
| "vector_closed (TokReference t) = vector_closed t"
| "vector_closed (TokMutableReference t) = vector_closed t"
| "vector_closed _ = True"

lemma gen_input_arg_tag:
  "vector_closed t \<Longrightarrow> \<exists>r. gen_input_arg t = Inr r
     \<and> (dereference t = None \<longrightarrow> r \<noteq> None \<longrightarrow> to_type_tag t \<noteq> None)"
  by (induction t rule: gen_input_arg.induct) (auto split: option.splits)

end
