(* ===== verification/Ptb.thy ===== *)
theory Ptb
  imports Move_Abi
begin

text \<open>
  \<open>movy-types/src/input.rs\<close>: the text of a sequence and its translation into a programmable
  transaction. The transaction builder of the Sui SDK is a parameter: a record of the operations
  that \<open>to_ptb\<close> calls on a builder state, with \<open>builder_keeps\<close> as what the code relies on.
\<close>

section \<open>Conversion to the types of the SDK\<close>

datatype TypeInput =
    TiBool | TiU8 | TiU16 | TiU32 | TiU64 | TiU128 | TiU256 | TiAddress | TiSigner
  | TiVector TypeInput
  | TiStruct MoveAddress string string "TypeInput list"

fun TypeInput_from :: "MoveTypeTag \<Rightarrow> TypeInput"
  and StructInput_from :: "MoveStructTag \<Rightarrow> TypeInput" where
  "TypeInput_from TagAddress = TiAddress"
| "TypeInput_from TagBool = TiBool"
| "TypeInput_from TagSigner = TiSigner"
| "TypeInput_from TagU8 = TiU8"
| "TypeInput_from TagU16 = TiU16"
| "TypeInput_from TagU32 = TiU32"
| "TypeInput_from TagU128 = TiU128"
| "TypeInput_from TagU64 = TiU64"
| "TypeInput_from TagU256 = TiU256"
| "TypeInput_from (TagVector v) = TiVector (TypeInput_from v)"
| "TypeInput_from (TagStruct v) = StructInput_from v"
| "StructInput_from (MoveStructTag a m n tys) = TiStruct a m n (map TypeInput_from tys)"

datatype Argument = ArgGasCoin | ArgInput u16 | ArgResult u16 | ArgNestedResult u16 u16

fun Argument_from :: "SequenceArgument \<Rightarrow> Argument" where
  "Argument_from GasCoin = ArgGasCoin"
| "Argument_from (Input v) = ArgInput v"
| "Argument_from (NestedResult l r) = ArgNestedResult l r"
| "Argument_from (Result v) = ArgResult v"

record ProgrammableMoveCall =
  pmc_package :: MoveAddress
  pmc_module :: string
  pmc_function :: string
  pmc_type_arguments :: "TypeInput list"
  pmc_arguments :: "Argument list"

definition ProgrammableMoveCall_from :: "MoveCall \<Rightarrow> ProgrammableMoveCall" where
  "ProgrammableMoveCall_from v =
     \<lparr>pmc_package = call_module_id v, pmc_module = call_module_name v,
      pmc_function = call_function v,
      pmc_type_arguments = map TypeInput_from (call_type_arguments v),
      pmc_arguments = map Argument_from (call_arguments v)\<rparr>"

datatype Command =
    CmdMoveCall ProgrammableMoveCall
  | CmdTransferObjects "Argument list" Argument
  | CmdSplitCoins Argument "Argument list"
  | CmdMergeCoins Argument "Argument list"
  | CmdPublish "u8 list list" "MoveAddress list"
  | CmdMakeMoveVec "TypeInput option" "Argument list"
  | CmdUpgrade "u8 list list" "MoveAddress list" MoveAddress Argument

datatype ObjectArg =
    OaImmOrOwnedObject ObjectRef
  | OaReceiving ObjectRef
  | OaSharedObject MoveAddress u64 bool

fun ObjectArg_from :: "SuiObjectInputArgument \<Rightarrow> ObjectArg" where
  "ObjectArg_from (ImmOrOwnedObject v) = OaImmOrOwnedObject v"
| "ObjectArg_from (Receiving v) = OaReceiving v"
| "ObjectArg_from (SharedObject oid ver mutable) = OaSharedObject oid ver mutable"

section \<open>Building the transaction\<close>

text \<open>The value handed to \<open>pure\<close>; signers and addresses are both Sui addresses.\<close>

datatype PureValue =
    PureBool bool | PureU8 u8 | PureU16 u16 | PureU32 u32 | PureU64 u64 | PureU128 u128
  | PureU256 u256 | PureAddress MoveAddress

record 'b Builder =
  b_new :: 'b
  b_pure :: "'b \<Rightarrow> PureValue \<Rightarrow> ('b \<times> Argument) res"
  b_obj :: "'b \<Rightarrow> ObjectArg \<Rightarrow> ('b \<times> Argument) res"
  b_command :: "'b \<Rightarrow> Command \<Rightarrow> 'b \<times> Argument"
  b_commands :: "'b \<Rightarrow> Command list"

text \<open>The inner map visits the elements left to right, threading the builder.\<close>

fun mapAccumR :: "('s \<Rightarrow> 'a \<Rightarrow> ('s \<times> 'b) res) \<Rightarrow> 's \<Rightarrow> 'a list \<Rightarrow> ('s \<times> 'b list) res" where
  "mapAccumR f s [] = Inr (s, [])"
| "mapAccumR f s (x # xs) =
     bindR (f s x) (\<lambda>(s', y). bindR (mapAccumR f s' xs) (\<lambda>(s'', ys). Inr (s'', y # ys)))"

lemma mapAccumR_cong [fundef_cong]:
  "s = s' \<Longrightarrow> xs = xs' \<Longrightarrow> (\<And>t x. x \<in> set xs' \<Longrightarrow> f t x = f' t x) \<Longrightarrow>
   mapAccumR f s xs = mapAccumR f' s' xs'"
proof (induction xs arbitrary: s s' xs')
  case (Cons x xs)
  have "f s x = f' s x" using Cons.prems by auto
  moreover have "mapAccumR f t xs = mapAccumR f' t xs" for t
    using Cons.prems by (intro Cons.IH) auto
  ultimately show ?case using Cons.prems(1,2) by auto
qed simp

lemma mapAccumR_nth:
  assumes "mapAccumR f s xs = Inr (s', ys)"
  shows "length ys = length xs" "i < length xs \<Longrightarrow> \<exists>t t'. f t (xs ! i) = Inr (t', ys ! i)"
proof -
  have "length ys = length xs \<and> (\<forall>i < length xs. \<exists>t t'. f t (xs ! i) = Inr (t', ys ! i))"
    using assms
  proof (induction xs arbitrary: s ys)
    case (Cons x xs)
    then obtain t y zs where t: "f s x = Inr (t, y)" "mapAccumR f t xs = Inr (s', zs)" "ys = y # zs"
      by (auto simp: bindR_eq_Inr)
    with Cons.IH [OF t(2)] show ?case by (auto simp: nth_Cons split: nat.splits)
  qed auto
  then show "length ys = length xs" "i < length xs \<Longrightarrow> \<exists>t t'. f t (xs ! i) = Inr (t', ys ! i)" by auto
qed

fun sui_builder_input_arg ::
  "('b, 'z) Builder_scheme \<Rightarrow> 'b \<Rightarrow> InputArgument \<Rightarrow> ('b \<times> Argument) res" where
  "sui_builder_input_arg B s (InBool v) = b_pure B s (PureBool v)"
| "sui_builder_input_arg B s (InU8 v) = b_pure B s (PureU8 v)"
| "sui_builder_input_arg B s (InU16 v) = b_pure B s (PureU16 v)"
| "sui_builder_input_arg B s (InU32 v) = b_pure B s (PureU32 v)"
| "sui_builder_input_arg B s (InU64 v) = b_pure B s (PureU64 v)"
| "sui_builder_input_arg B s (InU128 v) = b_pure B s (PureU128 v)"
| "sui_builder_input_arg B s (InU256 v) = b_pure B s (PureU256 v)"
| "sui_builder_input_arg B s (InAddress v) = b_pure B s (PureAddress v)"
| "sui_builder_input_arg B s (InSigner v) = b_pure B s (PureAddress v)"
| "sui_builder_input_arg B s (InVector ty vs) =
     bindR (mapAccumR (\<lambda>s v. sui_builder_input_arg B s v) s vs) (\<lambda>(s', args).
       Inr (b_command B s' (CmdMakeMoveVec (Some (TypeInput_from ty)) args)))"
| "sui_builder_input_arg B s (InObject _ v) = b_obj B s (ObjectArg_from v)"

fun Command_from :: "MoveSequenceCall \<Rightarrow> Command" where
  "Command_from (Call call) = CmdMoveCall (ProgrammableMoveCall_from call)"
| "Command_from (MakeMoveVec ty args) =
     CmdMakeMoveVec (Some (TypeInput_from ty)) (map Argument_from args)"
| "Command_from (Publish ms address) = CmdPublish ms address"
| "Command_from (TransferObjects args dst) =
     CmdTransferObjects (map Argument_from args) (Argument_from dst)"
| "Command_from (MergeCoins dst src) = CmdMergeCoins (Argument_from dst) (map Argument_from src)"
| "Command_from (SplitCoins src amounts) =
     CmdSplitCoins (Argument_from src) (map Argument_from amounts)"
| "Command_from (Upgrade ms deps package ticket) = CmdUpgrade ms deps package (Argument_from ticket)"

definition to_ptb :: "('b, 'z) Builder_scheme \<Rightarrow> MoveSequence \<Rightarrow> 'b res" where
  "to_ptb B self =
     bindR (foldR (\<lambda>s input. bindR (sui_builder_input_arg B s input) (\<lambda>(s', _). Inr s'))
              (b_new B) (inputs self)) (\<lambda>s.
       Inr (foldl (\<lambda>s cmd. fst (b_command B s (Command_from cmd))) s (commands self)))"

section \<open>Text of a sequence\<close>

fun tag_to_string :: "(MoveAddress \<Rightarrow> string) \<Rightarrow> MoveTypeTag \<Rightarrow> string"
  and struct_tag_to_string :: "(MoveAddress \<Rightarrow> string) \<Rightarrow> MoveStructTag \<Rightarrow> string" where
  "tag_to_string addr TagBool = ''bool''"
| "tag_to_string addr TagU8 = ''u8''"
| "tag_to_string addr TagU16 = ''u16''"
| "tag_to_string addr TagU32 = ''u32''"
| "tag_to_string addr TagU64 = ''u64''"
| "tag_to_string addr TagU128 = ''u128''"
| "tag_to_string addr TagU256 = ''u256''"
| "tag_to_string addr TagAddress = ''address''"
| "tag_to_string addr TagSigner = ''signer''"
| "tag_to_string addr (TagVector inner) = ''vector<'' @ tag_to_string addr inner @ ''>''"
| "tag_to_string addr (TagStruct tag) = struct_tag_to_string addr tag"
| "struct_tag_to_string addr (MoveStructTag a m n tys) =
     addr a @ ''::'' @ m @ ''::'' @ n
       @ (if tys = [] then [] else ''<'' @ join '', '' (map (tag_to_string addr) tys) @ ''>'')"

definition bool_to_string :: "bool \<Rightarrow> string" where
  "bool_to_string b = (if b then ''true'' else ''false'')"

fun object_arg_to_string :: "(MoveAddress \<Rightarrow> string) \<Rightarrow> SuiObjectInputArgument \<Rightarrow> string" where
  "object_arg_to_string addr (ImmOrOwnedObject (oid, _, _)) = ''ImmOrOwnedObject('' @ addr oid @ '')''"
| "object_arg_to_string addr (Receiving (oid, _, _)) = ''Receiving('' @ addr oid @ '')''"
| "object_arg_to_string addr (SharedObject oid ver mutable) =
     ''SharedObject('' @ addr oid @ '', version='' @ dec (unat ver) @ '', mutable=''
       @ bool_to_string mutable @ '')''"

fun input_to_string :: "(MoveAddress \<Rightarrow> string) \<Rightarrow> InputArgument \<Rightarrow> string" where
  "input_to_string addr (InBool v) = ''Bool('' @ bool_to_string v @ '')''"
| "input_to_string addr (InU8 v) = ''U8('' @ dec (unat v) @ '')''"
| "input_to_string addr (InU16 v) = ''U16('' @ dec (unat v) @ '')''"
| "input_to_string addr (InU32 v) = ''U32('' @ dec (unat v) @ '')''"
| "input_to_string addr (InU64 v) = ''U64('' @ dec (unat v) @ '')''"
| "input_to_string addr (InU128 v) = ''U128('' @ dec (unat v) @ '')''"
| "input_to_string addr (InU256 v) = ''U256('' @ dec (unat v) @ '')''"
| "input_to_string addr (InVector ty values) =
     ''Vector<'' @ tag_to_string addr ty @ ''>[''
       @ join '', '' (map (input_to_string addr) values) @ '']''"
| "input_to_string addr (InSigner a) = ''Signer('' @ addr a @ '')''"
| "input_to_string addr (InAddress a) = ''Address('' @ addr a @ '')''"
| "input_to_string addr (InObject ty obj) =
     ''Object<'' @ tag_to_string addr ty @ ''>('' @ object_arg_to_string addr obj @ '')''"

fun argument_to_string :: "SequenceArgument \<Rightarrow> string" where
  "argument_to_string GasCoin = ''GasCoin''"
| "argument_to_string (Input idx) = ''Input('' @ dec (unat idx) @ '')''"
| "argument_to_string (Result idx) = ''Result('' @ dec (unat idx) @ '')''"
| "argument_to_string (NestedResult m n) =
     ''NestedResult('' @ dec (unat m) @ '', '' @ dec (unat n) @ '')''"

definition call_fmt_with ::
  "(MoveAddress \<Rightarrow> string) \<Rightarrow> (SequenceArgument \<Rightarrow> string) \<Rightarrow> MoveCall \<Rightarrow> string" where
  "call_fmt_with addr fmt_arg c =
     addr (call_module_id c) @ ''::'' @ call_module_name c @ ''::'' @ call_function c
     @ (if call_type_arguments c = [] then []
        else ''<'' @ join '', '' (map (tag_to_string addr) (call_type_arguments c)) @ ''>'')
     @ ''('' @ join '', '' (map fmt_arg (call_arguments c)) @ '')''"

fun command_fmt_with ::
  "(MoveAddress \<Rightarrow> string) \<Rightarrow> (SequenceArgument \<Rightarrow> string) \<Rightarrow> MoveSequenceCall \<Rightarrow> string" where
  "command_fmt_with addr fmt_arg (Call mc) = ''MoveCall('' @ call_fmt_with addr fmt_arg mc @ '')''"
| "command_fmt_with addr fmt_arg (TransferObjects args dst) =
     ''TransferObjects(['' @ join '', '' (map fmt_arg args) @ ''], '' @ fmt_arg dst @ '')''"
| "command_fmt_with addr fmt_arg (SplitCoins src amounts) =
     ''SplitCoins('' @ fmt_arg src @ '', ['' @ join '', '' (map fmt_arg amounts) @ ''])''"
| "command_fmt_with addr fmt_arg (MergeCoins dst srcs) =
     ''MergeCoins('' @ fmt_arg dst @ '', ['' @ join '', '' (map fmt_arg srcs) @ ''])''"
| "command_fmt_with addr fmt_arg (Publish ms deps) =
     ''Publish('' @ dec (length ms) @ '' modules, ['' @ join '', '' (map addr deps) @ ''])''"
| "command_fmt_with addr fmt_arg (MakeMoveVec ty args) =
     ''MakeMoveVec('' @ tag_to_string addr ty @ '', ['' @ join '', '' (map fmt_arg args) @ ''])''"
| "command_fmt_with addr fmt_arg (Upgrade ms deps package ticket) =
     ''Upgrade('' @ dec (length ms) @ '' modules, ['' @ join '', '' (map addr deps) @ ''], ''
       @ addr package @ '', '' @ fmt_arg ticket @ '')''"

definition nl_tab :: string where "nl_tab = [CHR 0x0A, CHR 0x09]"

definition sequence_to_string :: "(MoveAddress \<Rightarrow> string) \<Rightarrow> MoveSequence \<Rightarrow> string" where
  "sequence_to_string addr self =
     (let formatted_inputs = map (input_to_string addr) (inputs self);
          fmt_arg = (\<lambda>arg. case arg of
            Input idx \<Rightarrow>
              if unat idx < length formatted_inputs
              then ''Input('' @ dec (unat idx) @ '', '' @ formatted_inputs ! unat idx @ '')''
              else ''Input('' @ dec (unat idx) @ '')''
          | _ \<Rightarrow> argument_to_string arg);
          calls = map (command_fmt_with addr fmt_arg) (commands self);
          inputs_display = (if formatted_inputs = [] then ''<none>'' else join nl_tab formatted_inputs);
          commands_display = (if calls = [] then ''<none>'' else join nl_tab calls)
      in ''Inputs:'' @ nl_tab @ inputs_display @ [CHR 0x0A] @ ''Commands:'' @ nl_tab
           @ commands_display)"

section \<open>Properties\<close>

text \<open>What the code relies on of the builder: it starts empty, \<open>pure\<close> and \<open>obj\<close> add no command,
  \<open>command\<close> appends one and answers with its index.\<close>

definition builder_keeps :: "('b, 'z) Builder_scheme \<Rightarrow> bool" where
  "builder_keeps B \<longleftrightarrow> b_commands B (b_new B) = []
     \<and> (\<forall>s v s' a. b_pure B s v = Inr (s', a) \<longrightarrow> b_commands B s' = b_commands B s)
     \<and> (\<forall>s v s' a. b_obj B s v = Inr (s', a) \<longrightarrow> b_commands B s' = b_commands B s)
     \<and> (\<forall>s c. b_commands B (fst (b_command B s c)) = b_commands B s @ [c]
          \<and> snd (b_command B s c) = ArgResult (as_u16 (length (b_commands B s))))"

lemma builder_keepsD:
  assumes "builder_keeps B"
  shows "b_pure B s v = Inr (s', a) \<Longrightarrow> b_commands B s' = b_commands B s"
    and "b_obj B s w = Inr (s', a) \<Longrightarrow> b_commands B s' = b_commands B s"
  using assms unfolding builder_keeps_def by blast+

fun vector_nodes :: "InputArgument \<Rightarrow> nat" where
  "vector_nodes (InVector ty vs) = Suc (sum_list (map vector_nodes vs))"
| "vector_nodes _ = 0"

lemma builder_fold:
  assumes "builder_keeps B"
  shows "b_commands B (foldl (\<lambda>s cmd. fst (b_command B s (f cmd))) s cs) = b_commands B s @ map f cs"
  using assms by (induction cs arbitrary: s) (auto simp: builder_keeps_def)

lemma mapAccumR_commands:
  assumes "\<And>x s s' a. x \<in> set xs \<Longrightarrow> f s x = Inr (s', a) \<Longrightarrow>
      \<exists>cs. length cs = n x \<and> b_commands B s' = b_commands B s @ cs"
  shows "mapAccumR f s xs = Inr (s', as) \<Longrightarrow>
    \<exists>cs. length cs = sum_list (map n xs) \<and> b_commands B s' = b_commands B s @ cs"
  using assms
proof (induction xs arbitrary: s as)
  case (Cons x xs)
  from Cons.prems(1) obtain s1 a bs where
    1: "f s x = Inr (s1, a)" "mapAccumR f s1 xs = Inr (s', bs)"
    by (auto simp: bindR_eq_Inr)
  obtain cs where "length cs = n x" "b_commands B s1 = b_commands B s @ cs"
    using Cons.prems(2) [OF _ 1(1)] by auto
  moreover obtain ds where "length ds = sum_list (map n xs)" "b_commands B s' = b_commands B s1 @ ds"
    using Cons.IH [OF 1(2)] Cons.prems(2) by (metis list.set_intros(2))
  ultimately have "length (cs @ ds) = sum_list (map n (x # xs))"
    "b_commands B s' = b_commands B s @ (cs @ ds)" by simp_all
  then show ?case by blast
qed simp

lemma sui_builder_input_arg_commands:
  assumes "builder_keeps B"
  shows "sui_builder_input_arg B s v = Inr (s', a) \<Longrightarrow>
    \<exists>cs. length cs = vector_nodes v \<and> b_commands B s' = b_commands B s @ cs"
proof (induction v arbitrary: s s' a rule: vector_nodes.induct)
  case (1 ty vs)
  from "1.prems" obtain s1 as where
    m: "mapAccumR (\<lambda>s v. sui_builder_input_arg B s v) s vs = Inr (s1, as)"
    and s': "s' = fst (b_command B s1 (CmdMakeMoveVec (Some (TypeInput_from ty)) as))"
    by (auto simp: bindR_eq_Inr)
  from mapAccumR_commands [OF _ m, where n = vector_nodes and B = B] "1.IH"
  obtain cs where "length cs = sum_list (map vector_nodes vs)"
    "b_commands B s1 = b_commands B s @ cs" by blast
  then show ?case
    using assms s' by (intro exI [of _ "cs @ [CmdMakeMoveVec (Some (TypeInput_from ty)) as]"])
      (simp add: builder_keeps_def)
qed (auto dest: builder_keepsD [OF assms])

lemma to_ptb_inputs_commands:
  assumes "builder_keeps B"
    and "foldR (\<lambda>s input. bindR (sui_builder_input_arg B s input) (\<lambda>(s', _). Inr s')) s xs = Inr s'"
  shows "\<exists>cs. length cs = sum_list (map vector_nodes xs) \<and> b_commands B s' = b_commands B s @ cs"
  using assms(2)
proof (induction xs arbitrary: s)
  case (Cons x xs)
  then obtain s1 a where 1: "sui_builder_input_arg B s x = Inr (s1, a)"
    "foldR (\<lambda>s input. bindR (sui_builder_input_arg B s input) (\<lambda>(s', _). Inr s')) s1 xs = Inr s'"
    by (auto simp: bindR_eq_Inr)
  obtain cs where "length cs = vector_nodes x" "b_commands B s1 = b_commands B s @ cs"
    using sui_builder_input_arg_commands [OF assms(1) 1(1)] by blast
  moreover obtain ds where "length ds = sum_list (map vector_nodes xs)"
    "b_commands B s' = b_commands B s1 @ ds" using Cons.IH [OF 1(2)] by blast
  ultimately have "length (cs @ ds) = sum_list (map vector_nodes (x # xs))"
    "b_commands B s' = b_commands B s @ (cs @ ds)" by simp_all
  then show ?case by blast
qed simp

text \<open>
  C20: \<open>to_ptb\<close> issues the commands of the sequence in order and unchanged, after one
  \<open>MakeMoveVec\<close> command per vector node of the inputs. So the result indices of the sequence
  are the indices of the transaction exactly when no input is a vector.
\<close>
theorem to_ptb_commands:
  assumes "builder_keeps B" "to_ptb B seq = Inr s"
  shows "\<exists>pre. b_commands B s = pre @ map Command_from (commands seq)
    \<and> length pre = sum_list (map vector_nodes (inputs seq))"
proof -
  obtain s1 where s1: "foldR (\<lambda>s input. bindR (sui_builder_input_arg B s input) (\<lambda>(s', _). Inr s'))
      (b_new B) (inputs seq) = Inr s1"
    and s: "s = foldl (\<lambda>s cmd. fst (b_command B s (Command_from cmd))) s1 (commands seq)"
    using assms(2) by (auto simp: to_ptb_def bindR_eq_Inr)
  have "b_commands B (b_new B) = []" using assms(1) by (simp add: builder_keeps_def)
  then show ?thesis
    using to_ptb_inputs_commands [OF assms(1) s1] builder_fold [OF assms(1)] s by auto
qed

text \<open>A builder over lists, for the witness.\<close>

definition list_builder :: "(nat \<times> Command list) Builder" where
  "list_builder = \<lparr>b_new = (0, []),
     b_pure = (\<lambda>(n, cs) v. Inr ((Suc n, cs), ArgInput (as_u16 n))),
     b_obj = (\<lambda>(n, cs) v. Inr ((Suc n, cs), ArgInput (as_u16 n))),
     b_command = (\<lambda>(n, cs) c. ((n, cs @ [c]), ArgResult (as_u16 (length cs)))),
     b_commands = snd\<rparr>"

lemma list_builder_keeps: "builder_keeps list_builder"
  by (auto simp: builder_keeps_def list_builder_def)

theorem to_ptb_commands_witness:
  "\<exists>pre. b_commands list_builder
       (1, [CmdMakeMoveVec (Some TiU8) [ArgInput 0], CmdMergeCoins ArgGasCoin [ArgResult 0]])
     = pre @ map Command_from (commands
         \<lparr>inputs = [InVector TagU8 [InU8 7]], commands = [MergeCoins GasCoin [Result 0]]\<rparr>)
     \<and> length pre = sum_list (map vector_nodes (inputs
         \<lparr>inputs = [InVector TagU8 [InU8 7]], commands = [MergeCoins GasCoin [Result 0]]\<rparr>))"
  by (rule to_ptb_commands [OF list_builder_keeps]) (simp add: to_ptb_def list_builder_def)

end
