(* ===== verification/Tree_Tracer.thy ===== *)
theory Tree_Tracer
  imports Trace_State Ptb
begin

text \<open>
  \<open>movy-replay/src/tracer\<close>, files \<open>tree.rs\<close> and \<open>lcov.rs\<close>: the tracer that builds the call tree
  of a transaction and remembers where the first error happened, its printed views, and the
  tracer that collects executed bytecode locations.

  The labels print values and types with formatters of other crates, which are parameters. The
  tree printer is given as the sequence of calls it makes on the \<open>ptree\<close> builder.
\<close>

section \<open>The call tree\<close>

datatype FrameTraced =
  FrameTraced (ft_open: Frame) (ft_subcalls: "FrameTraced list") (ft_close: "TraceValue list option")

record TreeTraceResult =
  calls :: "FrameTraced list"
  call_idxs :: "nat list"
  error_call_idxs :: "nat list option"
  error_message :: "string option"
  raw_evs :: "TraceEvent list"

definition TreeTracer_new :: TreeTraceResult where
  "TreeTracer_new = \<lparr>calls = [], call_idxs = [], error_call_idxs = None, error_message = None,
     raw_evs = []\<rparr>"

text \<open>\<open>current_calls\<close> and \<open>current_frame\<close> hand out a mutable reference into the tree; here they are
  followed by the update \<open>f\<close> of what the reference points to.\<close>

fun current_calls ::
  "nat list \<Rightarrow> (FrameTraced list \<Rightarrow> FrameTraced list) \<Rightarrow> FrameTraced list \<Rightarrow> FrameTraced list res" where
  "current_calls [] f cs = Inr (f cs)"
| "current_calls (idx # path) f cs =
     (if idx < length cs
      then (case cs ! idx of FrameTraced op subs cl \<Rightarrow>
        bindR (current_calls path f subs) (\<lambda>subs'. Inr (cs[idx := FrameTraced op subs' cl])))
      else Inl (Panic ''unwrap on None''))"

fun current_frame ::
  "nat list \<Rightarrow> (FrameTraced \<Rightarrow> FrameTraced) \<Rightarrow> FrameTraced list \<Rightarrow> FrameTraced list res" where
  "current_frame [] f cs = Inr cs"
| "current_frame (idx # path) f cs =
     (if idx < length cs
      then (if path = [] then Inr (cs[idx := f (cs ! idx)])
            else (case cs ! idx of FrameTraced op subs cl \<Rightarrow>
              bindR (current_frame path f subs) (\<lambda>subs'. Inr (cs[idx := FrameTraced op subs' cl]))))
      else Inl (Panic ''unwrap on None''))"

fun calls_at :: "nat list \<Rightarrow> FrameTraced list \<Rightarrow> FrameTraced list option" where
  "calls_at [] cs = Some cs"
| "calls_at (idx # path) cs =
     (if idx < length cs then calls_at path (ft_subcalls (cs ! idx)) else None)"

definition open_frame_inner :: "Frame \<Rightarrow> TreeTraceResult \<Rightarrow> TreeTraceResult res" where
  "open_frame_inner frame inner =
     bindR (unwrapR ''unwrap on None'' (calls_at (call_idxs inner) (calls inner))) (\<lambda>current.
       let idx_len = length current in
       bindR (current_calls (call_idxs inner) (\<lambda>cs. cs @ [FrameTraced frame [] None]) (calls inner))
         (\<lambda>calls'. Inr (inner\<lparr>calls := calls', call_idxs := call_idxs inner @ [idx_len]\<rparr>)))"

definition close_frame_inner :: "TraceValue list \<Rightarrow> TreeTraceResult \<Rightarrow> TreeTraceResult res" where
  "close_frame_inner ret inner =
     bindR (current_frame (call_idxs inner)
              (\<lambda>fr. FrameTraced (ft_open fr) (ft_subcalls fr) (Some ret)) (calls inner)) (\<lambda>calls'.
       Inr (inner\<lparr>calls := calls', call_idxs := butlast (call_idxs inner)\<rparr>))"

definition tree_on_raw_event :: "TraceEvent \<Rightarrow> TreeTraceResult \<Rightarrow> TreeTraceResult" where
  "tree_on_raw_event ev inner =
     (let inner = (case ev of
         EffectEv (ExecutionError message) \<Rightarrow>
           if error_call_idxs inner = None
           then inner\<lparr>error_call_idxs := Some (call_idxs inner), error_message := Some message\<rparr>
           else inner
       | _ \<Rightarrow> inner)
      in inner\<lparr>raw_evs := raw_evs inner @ [ev]\<rparr>)"

definition tree_tracer :: "TreeTraceResult TracerExt" where
  "tree_tracer = default_tracer\<lparr>
     on_raw_event := \<lambda>_ ev t. Inr (tree_on_raw_event ev t, True),
     open_frame := \<lambda>_ frame _ t. open_frame_inner frame t,
     close_frame := \<lambda>_ _ ret _ t. close_frame_inner ret t\<rparr>"

section \<open>Printed views\<close>

record Fmt =
  fmt_value :: "TraceValue \<Rightarrow> string"
  fmt_type :: "TypeTag \<Rightarrow> string"
  fmt_address :: "MoveAddress \<Rightarrow> string"

definition type_instantiation_suffix :: "Fmt \<Rightarrow> FrameTraced \<Rightarrow> string" where
  "type_instantiation_suffix F fr =
     (if type_instantiation (ft_open fr) = [] then []
      else ''<'' @ join '','' (map (fmt_type F) (type_instantiation (ft_open fr))) @ ''>'')"

definition name_only_label :: "Fmt \<Rightarrow> FrameTraced \<Rightarrow> string" where
  "name_only_label F fr =
     fmt_address F (module_address (frame_module (ft_open fr))) @ ''::''
       @ mod_name (frame_module (ft_open fr)) @ ''::'' @ function_name (ft_open fr)"

definition full_label :: "Fmt \<Rightarrow> FrameTraced \<Rightarrow> string" where
  "full_label F fr =
     (let returns = (case ft_close fr of None \<Rightarrow> [] | Some vs \<Rightarrow> join '','' (map (fmt_value F) vs)) in
      name_only_label F fr @ type_instantiation_suffix F fr
        @ ''('' @ join '','' (map (fmt_value F) (frame_parameters (ft_open fr))) @ '')''
        @ (if returns = [] then [] else '' -> '' @ returns))"

definition is_framework_call :: "FrameTraced \<Rightarrow> bool" where
  "is_framework_call fr \<longleftrightarrow> module_address (frame_module (ft_open fr)) = one
     \<or> module_address (frame_module (ft_open fr)) = two"

datatype TreeOp = AddEmptyChild string | BeginChild string | EndChild

fun pprint_child :: "(FrameTraced \<Rightarrow> string) \<Rightarrow> FrameTraced list \<Rightarrow> TreeOp list" where
  "pprint_child label [] = []"
| "pprint_child label (FrameTraced op subs cl # rest) =
     (let child = FrameTraced op subs cl in
      (if subs = [] then [AddEmptyChild (label child)]
       else BeginChild (label child) # pprint_child label subs @ [EndChild])
      @ pprint_child label rest)"

fun pprint_child_filtered ::
  "(FrameTraced \<Rightarrow> bool) \<Rightarrow> (FrameTraced \<Rightarrow> string) \<Rightarrow> FrameTraced list \<Rightarrow> TreeOp list" where
  "pprint_child_filtered inc label [] = []"
| "pprint_child_filtered inc label (FrameTraced op subs cl # rest) =
     (let child = FrameTraced op subs cl in
      (if inc child then
         (if subs = [] then [AddEmptyChild (label child)]
          else BeginChild (label child) # pprint_child_filtered inc label subs @ [EndChild])
       else pprint_child_filtered inc label subs)
      @ pprint_child_filtered inc label rest)"

definition pprint :: "Fmt \<Rightarrow> TreeTraceResult \<Rightarrow> string \<times> TreeOp list" where
  "pprint F r = (''full_call_trace'', pprint_child (full_label F) (calls r))"

definition pprint_without_params :: "Fmt \<Rightarrow> TreeTraceResult \<Rightarrow> string \<times> TreeOp list" where
  "pprint_without_params F r = (''full_call_trace_without_params'',
     pprint_child_filtered (\<lambda>fr. \<not> is_framework_call fr) (name_only_label F) (calls r))"

fun frame_at_path :: "FrameTraced list \<Rightarrow> nat list \<Rightarrow> FrameTraced option" where
  "frame_at_path cs [] = None"
| "frame_at_path cs (first # rest) =
     (if first < length cs
      then (if rest = [] then Some (cs ! first) else frame_at_path (ft_subcalls (cs ! first)) rest)
      else None)"

definition corner :: string where
  "corner = [CHR 0xE2, CHR 0x94, CHR 0x94, CHR 0xE2, CHR 0x94, CHR 0x80, CHR '' '']"

definition pprint_error_trace :: "Fmt \<Rightarrow> TreeTraceResult \<Rightarrow> string option" where
  "pprint_error_trace F r =
     (case error_call_idxs r of
        None \<Rightarrow> None
      | Some path \<Rightarrow>
          map_option (\<lambda>out. out @ (case error_message r of
              None \<Rightarrow> []
            | Some msg \<Rightarrow> concat (replicate (length path) ''  '') @ corner @ ''ExecutionError: ''
                @ msg @ [CHR 0x0A]))
            (foldO (\<lambda>out depth. map_option (\<lambda>frame.
                 out @ concat (replicate depth ''  '') @ (if depth > 0 then corner else [])
                   @ full_label F frame @ [CHR 0x0A])
               (frame_at_path (calls r) (take (Suc depth) path)))
             (''error_call_trace:'' @ [CHR 0x0A]) [0..<length path]))"

section \<open>Line coverage\<close>

record BytecodeLocation =
  loc_module :: MoveModuleId
  loc_function :: u16
  loc_pc :: u16

record LineCoverageTracer =
  hits :: "BytecodeLocation set"
  cov_frames :: "BytecodeLocation list"

definition lcov_tracer :: "LineCoverageTracer TracerExt" where
  "lcov_tracer = default_tracer\<lparr>
     open_frame := \<lambda>_ frame _ t. Inr (t\<lparr>cov_frames := cov_frames t @
       [\<lparr>loc_module = frame_module frame, loc_function = binary_member_index frame, loc_pc = 0\<rparr>]\<rparr>),
     close_frame := \<lambda>_ _ _ _ t. Inr (t\<lparr>cov_frames := butlast (cov_frames t)\<rparr>),
     before_instruction := \<lambda>_ _ pc _ _ t.
       Inr (if cov_frames t = [] then t
            else t\<lparr>hits := insert ((last (cov_frames t))\<lparr>loc_pc := pc\<rparr>) (hits t)\<rparr>)\<rparr>"

section \<open>The open frames are a path of the tree\<close>

text \<open>The frames of a tree in the order in which they were opened.\<close>

fun preorder :: "FrameTraced list \<Rightarrow> FrameTraced list" where
  "preorder [] = []"
| "preorder (FrameTraced op subs cl # rest) =
     FrameTraced op subs cl # preorder subs @ preorder rest"

text \<open>\<open>path_ok\<close>: each index of the path is the last child, so the open frames are the rightmost
  branch.\<close>

fun path_ok :: "FrameTraced list \<Rightarrow> nat list \<Rightarrow> bool" where
  "path_ok cs [] = True"
| "path_ok cs (i # path) = (Suc i = length cs \<and> path_ok (ft_subcalls (last cs)) path)"

lemma preorder_append: "preorder (xs @ ys) = preorder xs @ preorder ys"
proof (induction xs)
  case (Cons x xs)
  then show ?case by (cases x) simp
qed simp

lemma path_last: "Suc i = length cs \<Longrightarrow> cs ! i = last cs \<and> i < length cs \<and> cs \<noteq> []"
  by (cases cs rule: rev_cases) auto

lemma list_update_last: "Suc i = length cs \<Longrightarrow> cs[i := x] = butlast cs @ [x]"
  by (cases cs rule: rev_cases) auto

lemma open_path:
  "path_ok cs path \<Longrightarrow> \<exists>cur cs'. calls_at path cs = Some cur
     \<and> current_calls path (\<lambda>cs. cs @ [FrameTraced f [] None]) cs = Inr cs'
     \<and> path_ok cs' (path @ [length cur])
     \<and> map ft_open (preorder cs') = map ft_open (preorder cs) @ [f]"
proof (induction path arbitrary: cs)
  case (Cons i path)
  obtain op subs cl where l: "last cs = FrameTraced op subs cl" by (cases "last cs")
  from Cons.prems have i: "Suc i = length cs" and p: "path_ok subs path" by (simp_all add: l)
  obtain cur cs' where IH: "calls_at path subs = Some cur"
    "current_calls path (\<lambda>cs. cs @ [FrameTraced f [] None]) subs = Inr cs'"
    "path_ok cs' (path @ [length cur])"
    "map ft_open (preorder cs') = map ft_open (preorder subs) @ [f]"
    using Cons.IH [OF p] by blast
  have cs: "cs = butlast cs @ [FrameTraced op subs cl]"
    using i l by (metis append_butlast_last_id path_last)
  have "preorder cs = preorder (butlast cs) @ FrameTraced op subs cl # preorder subs"
    by (subst cs) (simp add: preorder_append)
  then show ?case
    using IH path_last [OF i] l i
    by (simp add: list_update_last [OF i] preorder_append)
qed (simp add: preorder_append)

lemma close_path:
  "path_ok cs path \<Longrightarrow> \<exists>cs'. current_frame path (\<lambda>fr. FrameTraced (ft_open fr) (ft_subcalls fr) r) cs
     = Inr cs' \<and> path_ok cs' path \<and> map ft_open (preorder cs') = map ft_open (preorder cs)"
proof (induction path arbitrary: cs)
  case (Cons i path)
  obtain op subs cl where l: "last cs = FrameTraced op subs cl" by (cases "last cs")
  from Cons.prems have i: "Suc i = length cs" and p: "path_ok subs path" by (simp_all add: l)
  have cs: "cs = butlast cs @ [FrameTraced op subs cl]"
    using i l by (metis append_butlast_last_id path_last)
  have pre: "preorder cs = preorder (butlast cs) @ FrameTraced op subs cl # preorder subs"
    by (subst cs) (simp add: preorder_append)
  show ?case
    using Cons.IH [OF p] path_last [OF i] l i pre
    by (auto simp: list_update_last [OF i] preorder_append)
qed simp

lemma path_ok_butlast: "path_ok cs path \<Longrightarrow> path_ok cs (butlast path)"
  by (induction path arbitrary: cs) auto

text \<open>Updates of the current position keep every path of the tree valid.\<close>

lemma calls_at_current_calls:
  "current_calls path (\<lambda>cs. cs @ [x]) cs = Inr cs' \<Longrightarrow> calls_at p cs \<noteq> None \<Longrightarrow> calls_at p cs' \<noteq> None"
proof (induction path arbitrary: cs cs' p)
  case Nil
  then show ?case by (cases p) (auto simp: nth_append split: if_splits)
next
  case (Cons idx path)
  obtain op subs cl where n: "cs ! idx = FrameTraced op subs cl" by (cases "cs ! idx")
  from Cons.prems(1) obtain subs' where s: "idx < length cs"
    "current_calls path (\<lambda>cs. cs @ [x]) subs = Inr subs'" "cs' = cs[idx := FrameTraced op subs' cl]"
    by (auto simp: n bindR_eq_Inr split: if_splits)
  show ?case
    using Cons.IH [OF s(2)] Cons.prems(2) s n
    by (cases p) (auto simp: nth_list_update split: if_splits)
qed

lemma calls_at_current_frame:
  "current_frame path (\<lambda>fr. FrameTraced (ft_open fr) (ft_subcalls fr) r) cs = Inr cs' \<Longrightarrow>
     calls_at p cs \<noteq> None \<Longrightarrow> calls_at p cs' \<noteq> None"
proof (induction path arbitrary: cs cs' p)
  case (Cons idx path)
  obtain op subs cl where n: "cs ! idx = FrameTraced op subs cl" by (cases "cs ! idx")
  show ?case
  proof (cases "path = []")
    case True
    then show ?thesis
      using Cons.prems by (cases p) (auto simp: nth_list_update split: if_splits)
  next
    case False
    with Cons.prems(1) obtain subs' where s: "idx < length cs"
      "current_frame path (\<lambda>fr. FrameTraced (ft_open fr) (ft_subcalls fr) r) subs = Inr subs'"
      "cs' = cs[idx := FrameTraced op subs' cl]"
      by (auto simp: n bindR_eq_Inr split: if_splits)
    show ?thesis
      using Cons.IH [OF s(2)] Cons.prems(2) s n
      by (cases p) (auto simp: nth_list_update split: if_splits)
  qed
qed simp

lemma path_ok_calls_at: "path_ok cs path \<Longrightarrow> calls_at path cs \<noteq> None"
  by (induction path arbitrary: cs) (auto dest: path_last)

lemma calls_at_frame:
  "calls_at p cs \<noteq> None \<Longrightarrow> d < length p \<Longrightarrow> frame_at_path cs (take (Suc d) p) \<noteq> None"
proof (induction p arbitrary: cs d)
  case (Cons i p)
  then show ?case by (cases d) (auto split: if_splits)
qed simp

definition tree_inv :: "TreeTraceResult \<Rightarrow> bool" where
  "tree_inv t \<longleftrightarrow> path_ok (calls t) (call_idxs t)
     \<and> (\<forall>p. error_call_idxs t = Some p \<longrightarrow> calls_at p (calls t) \<noteq> None)"

definition opened :: "TraceEvent list \<Rightarrow> Frame list" where
  "opened evs = concat (map (\<lambda>ev. case ev of OpenFrame f _ \<Rightarrow> [f] | _ \<Rightarrow> []) evs)"

definition tree_frames :: "TreeTraceResult \<Rightarrow> Frame list" where
  "tree_frames t = map ft_open (preorder (calls t))"

lemma open_frame_inner_ok:
  assumes "tree_inv t"
  shows "\<exists>t'. open_frame_inner f t = Inr t' \<and> tree_inv t' \<and> tree_frames t' = tree_frames t @ [f]
    \<and> error_call_idxs t' = error_call_idxs t"
proof -
  obtain cur cs' where o: "calls_at (call_idxs t) (calls t) = Some cur"
    "current_calls (call_idxs t) (\<lambda>cs. cs @ [FrameTraced f [] None]) (calls t) = Inr cs'"
    "path_ok cs' (call_idxs t @ [length cur])"
    "map ft_open (preorder cs') = map ft_open (preorder (calls t)) @ [f]"
    using open_path [of "calls t" "call_idxs t" f] assms by (auto simp: tree_inv_def)
  then show ?thesis
    using assms calls_at_current_calls [OF o(2)]
    by (simp add: open_frame_inner_def tree_inv_def tree_frames_def Let_def)
qed

lemma close_frame_inner_ok:
  assumes "tree_inv t"
  shows "\<exists>t'. close_frame_inner r t = Inr t' \<and> tree_inv t' \<and> tree_frames t' = tree_frames t
    \<and> error_call_idxs t' = error_call_idxs t"
proof -
  obtain cs' where c: "current_frame (call_idxs t)
      (\<lambda>fr. FrameTraced (ft_open fr) (ft_subcalls fr) (Some r)) (calls t) = Inr cs'"
    "path_ok cs' (call_idxs t)" "map ft_open (preorder cs') = map ft_open (preorder (calls t))"
    using close_path [of "calls t" "call_idxs t" "Some r"] assms by (auto simp: tree_inv_def)
  then show ?thesis
    using assms calls_at_current_frame [OF c(1)] path_ok_butlast [OF c(2)]
    by (simp add: close_frame_inner_def tree_inv_def tree_frames_def)
qed

lemma tree_on_raw_event_ok:
  assumes "tree_inv t"
  shows "tree_inv (tree_on_raw_event ev t) \<and> tree_frames (tree_on_raw_event ev t) = tree_frames t
    \<and> (error_call_idxs t \<noteq> None \<longrightarrow> error_call_idxs (tree_on_raw_event ev t) \<noteq> None)
    \<and> (\<forall>msg. ev = EffectEv (ExecutionError msg) \<longrightarrow> error_call_idxs (tree_on_raw_event ev t) \<noteq> None)"
  using assms path_ok_calls_at [of "calls t" "call_idxs t"]
  by (auto simp: tree_on_raw_event_def tree_inv_def tree_frames_def Let_def
      split: TraceEvent.splits Effect.splits)

text \<open>The effect of a run on the tracer: the invariant holds, the opened frames are appended, and
  an error, once seen, is recorded.\<close>

definition is_error :: "TraceEvent \<Rightarrow> bool" where
  "is_error ev = (case ev of EffectEv (ExecutionError _) \<Rightarrow> True | _ \<Rightarrow> False)"

definition tree_adv :: "TraceEvent list \<Rightarrow> TreeTraceResult \<Rightarrow> TreeTraceResult \<Rightarrow> bool" where
  "tree_adv evs t t' \<longleftrightarrow> tree_inv t' \<and> tree_frames t' = tree_frames t @ opened evs
     \<and> (error_call_idxs t \<noteq> None \<or> list_ex is_error evs \<longrightarrow> error_call_idxs t' \<noteq> None)"

lemma tree_adv_trans: "tree_adv xs t u \<Longrightarrow> tree_adv ys u v \<Longrightarrow> tree_adv (xs @ ys) t v"
  by (auto simp: tree_adv_def opened_def)

lemma tree_notify_ok:
  assumes "tree_inv (tracer w)" "apply_event A (wrapper_state w) ev = Inr st"
  shows "\<exists>w'. notify A tree_tracer w ev = Inr w' \<and> wrapper_state w' = st
    \<and> tree_adv [ev] (tracer w) (tracer w')"
proof -
  let ?t = "tree_on_raw_event ev (tracer w)"
  have raw: "tree_inv ?t" "tree_frames ?t = tree_frames (tracer w)"
    "error_call_idxs (tracer w) \<noteq> None \<or> is_error ev \<longrightarrow> error_call_idxs ?t \<noteq> None"
    using tree_on_raw_event_ok [OF assms(1), of ev]
    by (auto simp: is_error_def split: TraceEvent.splits Effect.splits)
  have "\<exists>t'. dispatch tree_tracer (wrapper_state w) ev ?t = Inr t' \<and> tree_inv t'
      \<and> tree_frames t' = tree_frames ?t @ opened [ev] \<and> error_call_idxs t' = error_call_idxs ?t"
    using raw(1) open_frame_inner_ok [of ?t] close_frame_inner_ok [of ?t]
    by (cases ev) (auto simp: dispatch_def tree_tracer_def default_tracer_def opened_def)
  then obtain t' where t': "dispatch tree_tracer (wrapper_state w) ev ?t = Inr t'"
    "tree_adv [ev] (tracer w) t'"
    using raw by (auto simp: tree_adv_def)
  have "on_raw_event tree_tracer (wrapper_state w) ev (tracer w) = Inr (?t, True)"
    by (simp add: tree_tracer_def default_tracer_def)
  then show ?thesis using t' assms(2) by (simp add: notify_def)
qed

lemma tree_run_ok:
  assumes "tree_inv (tracer w)" "foldR (apply_event A) (wrapper_state w) evs = Inr st"
  shows "\<exists>w'. foldR (notify A tree_tracer) w evs = Inr w' \<and> wrapper_state w' = st
    \<and> tree_adv evs (tracer w) (tracer w')"
  using assms
proof (induction evs arbitrary: w)
  case (Cons ev evs)
  from Cons.prems(2) obtain s1 where s1: "apply_event A (wrapper_state w) ev = Inr s1"
    "foldR (apply_event A) s1 evs = Inr st" by (auto simp: bindR_eq_Inr)
  obtain w1 where w1: "notify A tree_tracer w ev = Inr w1" "wrapper_state w1 = s1"
    "tree_adv [ev] (tracer w) (tracer w1)"
    using tree_notify_ok [OF Cons.prems(1) s1(1)] by blast
  then have "tree_inv (tracer w1)" by (simp add: tree_adv_def)
  then obtain w' where w': "foldR (notify A tree_tracer) w1 evs = Inr w'" "wrapper_state w' = st"
    "tree_adv evs (tracer w1) (tracer w')"
    using Cons.IH [of w1] s1(2) w1(2) by blast
  then show ?case using w1 tree_adv_trans [OF w1(3) w'(3)] by simp
qed (simp add: opened_def tree_adv_def)

lemma tree_inv_new: "tree_inv TreeTracer_new" "tree_frames TreeTracer_new = []"
  by (simp_all add: tree_inv_def TreeTracer_new_def tree_frames_def)

section \<open>Properties\<close>

text \<open>
  C19: the tree tracer never fails on a trace that the state machine accepts, and its tree holds
  exactly the frames that were opened, in the order of their opening.
\<close>
theorem tree_tracer_frames:
  assumes "foldR (apply_event A) TraceState_new evs = Inr st"
  shows "\<exists>w. foldR (notify A tree_tracer) (wrapper_from TreeTracer_new) evs = Inr w
    \<and> wrapper_state w = st \<and> map ft_open (preorder (calls (tracer w))) = opened evs"
  using tree_run_ok [of "wrapper_from TreeTracer_new" A evs st] assms tree_inv_new
  by (auto simp: wrapper_from_def tree_frames_def tree_adv_def)

theorem tree_tracer_frames_witness:
  "\<exists>w. foldR (notify runtime_api tree_tracer) (wrapper_from TreeTracer_new)
         [OpenFrame (demo_frame 0) 9, OpenFrame (demo_frame 1) 8, CloseFrame 1 [] 7] = Inr w
    \<and> wrapper_state w = \<lparr>loaded_state = [], operand_stack = [],
        call_stack = [(0, [(0, RuntimeValue (SU8 1))], False)]\<rparr>
    \<and> map ft_open (preorder (calls (tracer w))) =
        opened [OpenFrame (demo_frame 0) 9, OpenFrame (demo_frame 1) 8, CloseFrame 1 [] 7]"
  by (rule tree_tracer_frames)
    (simp add: TraceState_new_def apply_event_def open_locals_def demo_frame_def)

text \<open>
  When the trace reports an execution error, the error view exists: the path recorded at the
  first error leads through frames of the finished tree, however the run went on.
\<close>
theorem error_trace_available:
  assumes "foldR (apply_event A) TraceState_new evs = Inr st"
    and "EffectEv (ExecutionError msg) \<in> set evs"
    and "foldR (notify A tree_tracer) (wrapper_from TreeTracer_new) evs = Inr w"
  shows "pprint_error_trace F (tracer w) \<noteq> None"
proof -
  have "list_ex is_error evs" using assms(2) by (force simp: list_ex_iff is_error_def)
  then have "tree_inv (tracer w) \<and> error_call_idxs (tracer w) \<noteq> None"
    using tree_run_ok [of "wrapper_from TreeTracer_new" A evs st] assms tree_inv_new
    by (auto simp: wrapper_from_def tree_adv_def)
  then obtain p where p: "error_call_idxs (tracer w) = Some p" "calls_at p (calls (tracer w)) \<noteq> None"
    by (auto simp: tree_inv_def)
  show ?thesis
    unfolding pprint_error_trace_def p(1) option.case option.map_disc_iff
    by (intro foldO_total) (simp add: calls_at_frame [OF p(2)] del: split_paired_Ex)
qed

definition demo_fmt :: Fmt where
  "demo_fmt = \<lparr>fmt_value = (\<lambda>_. ''v''), fmt_type = (\<lambda>_. ''t''), fmt_address = bit_text\<rparr>"

theorem error_trace_available_witness:
  "pprint_error_trace demo_fmt
     \<lparr>calls = [FrameTraced (demo_frame 0) [] (Some [])], call_idxs = [], error_call_idxs = Some [0],
      error_message = Some ''abort'', raw_evs = [OpenFrame (demo_frame 0) 9,
        EffectEv (ExecutionError ''abort''), CloseFrame 0 [] 7]\<rparr> \<noteq> None"
  using error_trace_available [of runtime_api "[OpenFrame (demo_frame 0) 9,
      EffectEv (ExecutionError ''abort''), CloseFrame 0 [] 7]" TraceState_new "''abort''"
      "\<lparr>tracer = \<lparr>calls = [FrameTraced (demo_frame 0) [] (Some [])], call_idxs = [],
          error_call_idxs = Some [0], error_message = Some ''abort'', raw_evs = [OpenFrame (demo_frame 0) 9,
          EffectEv (ExecutionError ''abort''), CloseFrame 0 [] 7]\<rparr>,
        wrapper_state = TraceState_new\<rparr>" demo_fmt]
  by (simp add: TraceState_new_def apply_event_def apply_effect_def open_locals_def demo_frame_def
      notify_def tree_tracer_def default_tracer_def tree_on_raw_event_def dispatch_def Let_def
      open_frame_inner_def close_frame_inner_def wrapper_from_def TreeTracer_new_def)

definition op_labels :: "TreeOp list \<Rightarrow> string list" where
  "op_labels ops = concat (map (\<lambda>x. case x of AddEmptyChild s \<Rightarrow> [s] | BeginChild s \<Rightarrow> [s] | EndChild \<Rightarrow> [])
     ops)"

text \<open>
  The filtered view prints exactly the frames that pass the filter, once each, in the order
  of the call tree: children of a hidden frame are kept.
\<close>
theorem pprint_child_filtered_labels:
  "op_labels (pprint_child_filtered inc label cs) = map label (filter inc (preorder cs))"
proof (induction inc label cs rule: pprint_child_filtered.induct)
  case (2 inc label op subs cl rest)
  then show ?case by (cases "subs = []") (auto simp: op_labels_def Let_def)
qed (simp add: op_labels_def)

text \<open>
  Run by itself, the line coverage tracer records nothing: it inherits the default
  \<open>on_raw_event\<close>, which skips every event, so no hook is ever called. (Beside a tracer that keeps
  every event it sees all of them.)
\<close>
theorem lcov_alone_records_nothing:
  assumes "foldR (notify A (selective_tracer T lcov_tracer))
      \<lparr>tracer = Inr t, wrapper_state = st\<rparr> evs = Inr w"
  shows "tracer w = Inr t"
  using assms
proof (induction evs arbitrary: st)
  case (Cons ev evs)
  then show ?case
    by (auto simp: bindR_eq_Inr notify_def selective_tracer_def lcov_tracer_def default_tracer_def)
qed auto

theorem lcov_alone_records_nothing_witness:
  "tracer \<lparr>tracer = Inr \<lparr>hits = {}, cov_frames = []\<rparr> :: TreeTraceResult + LineCoverageTracer,
     wrapper_state = \<lparr>loaded_state = [], operand_stack = [],
       call_stack = [(0, [(0, RuntimeValue (SU8 1))], False)]\<rparr>\<rparr> = Inr \<lparr>hits = {}, cov_frames = []\<rparr>"
  by (rule lcov_alone_records_nothing [where A = runtime_api and T = tree_tracer
        and st = TraceState_new and evs = "[OpenFrame (demo_frame 0) 9, InstructionEv [] 3 8 BcNop]"])
    (simp add: TraceState_new_def apply_event_def open_locals_def demo_frame_def notify_def
      selective_tracer_def lcov_tracer_def default_tracer_def)

lemma keeps_all_tree: "keeps_all tree_tracer"
  by (simp add: keeps_all_def tree_tracer_def)

text \<open>One event, a frame opened, seen by the tee of the call-tree and the line-coverage tracer.\<close>

theorem tee_independent_witness:
  "foldR (notify runtime_api tree_tracer) \<lparr>tracer = TreeTracer_new, wrapper_state = TraceState_new\<rparr>
      [OpenFrame (demo_frame 0) 9]
    = Inr \<lparr>tracer = \<lparr>calls = [FrameTraced (demo_frame 0) [] None], call_idxs = [0],
          error_call_idxs = None, error_message = None, raw_evs = [OpenFrame (demo_frame 0) 9]\<rparr>,
        wrapper_state = \<lparr>loaded_state = [], operand_stack = [],
          call_stack = [(0, [(0, RuntimeValue (SU8 1))], False)]\<rparr>\<rparr>
   \<and> foldR (notify runtime_api (forced lcov_tracer))
      \<lparr>tracer = \<lparr>hits = {}, cov_frames = []\<rparr>, wrapper_state = TraceState_new\<rparr>
      [OpenFrame (demo_frame 0) 9]
    = Inr \<lparr>tracer = \<lparr>hits = {}, cov_frames = [\<lparr>loc_module = frame_module (demo_frame 0),
          loc_function = 0, loc_pc = 0\<rparr>]\<rparr>,
        wrapper_state = \<lparr>loaded_state = [], operand_stack = [],
          call_stack = [(0, [(0, RuntimeValue (SU8 1))], False)]\<rparr>\<rparr>"
  by (rule tee_independent [OF keeps_all_tree])
    (simp add: notify_def tee_tracer_def both_def dispatch_def tree_tracer_def lcov_tracer_def default_tracer_def
      tree_on_raw_event_def open_frame_inner_def TreeTracer_new_def TraceState_new_def apply_event_def
      open_locals_def demo_frame_def)

end
