(* ===== verification/Concolic_Int.thy ===== *)
theory Concolic_Int
  imports Movy_Prelude
begin

text \<open>
  \<open>movy-replay/src/tracer/concolic.rs\<close>, lines 119 to 223: bitwise operations with a constant
  mask, written with integer division and remainder only, as the concolic engine hands them to
  the solver.

  The solver's term builders (\<open>z3::ast\<close>) are a parameter: the record \<open>Z3\<close> of the functions that
  the code calls. The locale \<open>z3_semantics\<close> states their documented meaning under one assignment
  of the symbolic constants, and is interpreted on the terms denoted by functions of an
  assignment. \<open>U256\<close> is a 256-bit word; its shift and its subtraction are parameters of the
  record because for operands of type \<open>u256\<close> the code shifts one by 256 and subtracts one from
  the result, where only the library decides what comes out. The laws of the locale speak of
  shifts below 256 and of subtractions that do not go below zero, so the bitwise operations are
  proved for widths below 256; at width 256 a shift that drops all bits makes \<open>int_two_pow\<close> the
  numeral zero, and the operand is taken modulo zero.
\<close>

unbundle bit_operations_syntax

section \<open>The solver interface\<close>

record ('i, 'b) Z3 =
  z_from_u64 :: "u64 \<Rightarrow> 'i"
  z_numeral :: "u256 \<Rightarrow> 'i"
  z_new_const :: "string \<Rightarrow> 'i"
  z_add :: "'i \<Rightarrow> 'i \<Rightarrow> 'i"
  z_sub :: "'i \<Rightarrow> 'i \<Rightarrow> 'i"
  z_mul :: "'i \<Rightarrow> 'i \<Rightarrow> 'i"
  z_div :: "'i \<Rightarrow> 'i \<Rightarrow> 'i"
  z_rem :: "'i \<Rightarrow> 'i \<Rightarrow> 'i"
  z_modulo :: "'i \<Rightarrow> 'i \<Rightarrow> 'i"
  z_eq :: "'i \<Rightarrow> 'i \<Rightarrow> 'b"
  z_lt :: "'i \<Rightarrow> 'i \<Rightarrow> 'b"
  z_le :: "'i \<Rightarrow> 'i \<Rightarrow> 'b"
  z_gt :: "'i \<Rightarrow> 'i \<Rightarrow> 'b"
  z_ge :: "'i \<Rightarrow> 'i \<Rightarrow> 'b"
  z_not :: "'b \<Rightarrow> 'b"
  z_ite :: "'b \<Rightarrow> 'i \<Rightarrow> 'i \<Rightarrow> 'i"
  u256_shl :: "u256 \<Rightarrow> nat \<Rightarrow> u256"
  u256_sub :: "u256 \<Rightarrow> u256 \<Rightarrow> u256"

section \<open>Bitwise operations over integers\<close>

definition int_two_pow :: "('i, 'b) Z3 \<Rightarrow> nat \<Rightarrow> 'i" where
  "int_two_pow Z bits = z_numeral Z (u256_shl Z 1 bits)"

definition int_mod_2n :: "('i, 'b) Z3 \<Rightarrow> 'i \<Rightarrow> nat \<Rightarrow> 'i" where
  "int_mod_2n Z x bits = z_modulo Z x (int_two_pow Z bits)"

definition int_from_u256 :: "('i, 'b) Z3 \<Rightarrow> u256 \<Rightarrow> 'i" where
  "int_from_u256 Z u = z_numeral Z u"

text \<open>The inner loops of \<open>int_bvand_const\<close>: skip zeros, consume ones.\<close>

definition shr1 :: "u256 \<Rightarrow> u256" where
  "shr1 m = drop_bit 1 m"

lemma unat_shr1 [simp]: "unat (shr1 m) = unat m div 2"
proof -
  have "unat (drop_bit 1 m) = drop_bit 1 (unat m)" by (rule unat_drop_bit_eq)
  then show ?thesis by (simp add: shr1_def drop_bit_eq_div)
qed

lemma odd_unat: "odd (unat m) = odd m" for m :: u256
  by transfer (simp add: even_nat_iff)

lemma low_bit: "m AND 1 = (if odd (unat m) then 1 else 0)" for m :: u256
  by (simp add: and_one_eq mod_2_eq_odd odd_unat)

function skip_zeros :: "u256 \<Rightarrow> nat \<Rightarrow> u256 \<times> nat" where
  "skip_zeros m i = (if m \<noteq> 0 \<and> m AND 1 = 0 then skip_zeros (shr1 m) (i + 1) else (m, i))"
  by auto
termination by (relation "measure (\<lambda>(m, _). unat m)") (auto simp: unat_gt_0)

function consume_ones :: "u256 \<Rightarrow> nat \<Rightarrow> u256 \<times> nat" where
  "consume_ones m i = (if m AND 1 = 1 then consume_ones (shr1 m) (i + 1) else (m, i))"
  by auto
termination
  by (relation "measure (\<lambda>(m, _). unat m)") (auto simp: low_bit elim: oddE split: if_splits)

declare skip_zeros.simps [simp del] consume_ones.simps [simp del]

text \<open>Skipping and consuming, over the value of the mask.\<close>

lemma skip_zeros_spec:
  "skip_zeros m i = (m1, a) \<Longrightarrow>
     i \<le> a \<and> unat m = unat m1 * 2 ^ (a - i) \<and> (m \<noteq> 0 \<longrightarrow> odd (unat m1))"
proof (induction m i rule: skip_zeros.induct)
  case (1 m i)
  show ?case
  proof (cases "m \<noteq> 0 \<and> m AND 1 = 0")
    case True
    then have even: "even (unat m)" by (auto simp: low_bit split: if_splits)
    have IH: "i + 1 \<le> a \<and> unat (shr1 m) = unat m1 * 2 ^ (a - (i + 1))
        \<and> (shr1 m \<noteq> 0 \<longrightarrow> odd (unat m1))"
      using 1 True by (simp add: skip_zeros.simps [of m i])
    have "unat m = 2 * unat (shr1 m)" using even by simp
    also have "\<dots> = unat m1 * 2 ^ Suc (a - (i + 1))" using IH by simp
    also have "Suc (a - (i + 1)) = a - i" using IH by linarith
    finally have "unat m = unat m1 * 2 ^ (a - i)" .
    moreover have "shr1 m \<noteq> 0"
      using True even by (metis unat_shr1 unat_eq_0 dvd_mult_div_cancel mult_zero_right)
    ultimately show ?thesis using IH by simp
  next
    case False
    with "1.prems" have "m1 = m" "a = i" by (auto simp: skip_zeros.simps [of m i])
    then show ?thesis using False by (auto simp: low_bit split: if_splits)
  qed
qed

lemma consume_ones_spec:
  "consume_ones m1 a = (m2, i2) \<Longrightarrow>
     a \<le> i2 \<and> unat m1 + 1 = (unat m2 + 1) * 2 ^ (i2 - a) \<and> (odd (unat m1) \<longrightarrow> a < i2)"
proof (induction m1 a rule: consume_ones.induct)
  case (1 m a)
  show ?case
  proof (cases "m AND 1 = 1")
    case True
    then have odd: "odd (unat m)" by (auto simp: low_bit split: if_splits)
    have IH: "a + 1 \<le> i2 \<and> unat (shr1 m) + 1 = (unat m2 + 1) * 2 ^ (i2 - (a + 1))"
      using 1 True by (simp add: consume_ones.simps [of m a])
    have "unat m + 1 = 2 * (unat (shr1 m) + 1)" using odd by (simp add: odd_two_times_div_two_succ)
    also have "\<dots> = (unat m2 + 1) * 2 ^ Suc (i2 - (a + 1))" using IH by simp
    also have "Suc (i2 - (a + 1)) = i2 - a" using IH by linarith
    finally show ?thesis using IH by simp
  next
    case False
    with "1.prems" have "m2 = m" "i2 = a" by (auto simp: consume_ones.simps [of m a])
    then show ?thesis using False by (auto simp: low_bit split: if_splits)
  qed
qed

lemma mask_step_less:
  assumes "skip_zeros m i = (m1, a)" "m \<noteq> 0" "consume_ones m1 a = (m2, i2)"
  shows "unat m2 < unat m"
proof -
  have m1: "unat m = unat m1 * 2 ^ (a - i)" "odd (unat m1)"
    using skip_zeros_spec [OF assms(1)] assms(2) by simp_all
  have m2: "unat m1 + 1 = (unat m2 + 1) * 2 ^ (i2 - a)" "a < i2"
    using consume_ones_spec [OF assms(3)] m1 by simp_all
  have "2 \<le> (2 :: nat) ^ (i2 - a)" using m2(2) self_le_power [of 2 "i2 - a"] by simp
  then have "(unat m2 + 1) * 2 \<le> unat m1 + 1" unfolding m2(1) by (rule mult_le_mono2)
  then have "unat m2 < unat m1" by simp
  also have "unat m1 \<le> unat m" using m1(1) by simp
  finally show ?thesis .
qed

function mask_terms :: "('i, 'b) Z3 \<Rightarrow> 'i \<Rightarrow> u256 \<Rightarrow> nat \<Rightarrow> 'i list" where
  "mask_terms Z x0 m i =
     (if m \<noteq> 0 then
        (case skip_zeros m i of (m1, a) \<Rightarrow>
           if m1 = 0 then []
           else (case consume_ones m1 a of (m2, i2) \<Rightarrow>
             let b = i2 - 1;
                 L = b - a + 1;
                 term = z_mul Z
                   (z_rem Z (z_div Z (z_rem Z x0 (int_two_pow Z (b + 1))) (int_two_pow Z a))
                      (int_two_pow Z L))
                   (int_two_pow Z a)
             in term # mask_terms Z x0 m2 i2))
      else [])"
  by auto
termination
  by (relation "measure (\<lambda>(_, _, m, _). unat m)") 
    (auto split: prod.splits intro: mask_step_less [OF sym])

declare mask_terms.simps [simp del]

text \<open>One round of the outer loop, and its run of ones.\<close>

lemma mask_terms_step:
  assumes "m \<noteq> 0" "skip_zeros m i = (m1, a)" "m1 \<noteq> 0" "consume_ones m1 a = (m2, a + Suc n)"
  shows "mask_terms Z x0 m i =
    z_mul Z (z_rem Z (z_div Z (z_rem Z x0 (int_two_pow Z (a + Suc n))) (int_two_pow Z a))
              (int_two_pow Z (Suc n))) (int_two_pow Z a) # mask_terms Z x0 m2 (a + Suc n)"
  using assms by (subst mask_terms.simps) (simp add: Let_def)

lemma int_times_pow: "int (x * 2 ^ k) = int x * 2 ^ k"
  by simp

lemma int_times_pow_less: "int x * 2 ^ k < 2 ^ n \<longleftrightarrow> x * 2 ^ k < 2 ^ n"
  unfolding int_times_pow [symmetric] by (rule of_nat_less_numeral_power_cancel_iff)

lemma mask_round:
  assumes "skip_zeros m i = (m1, a)" "m \<noteq> 0" "consume_ones m1 a = (m2, i2)"
  obtains n where "i2 = a + Suc n" "m1 \<noteq> 0"
    "int (unat m) * 2 ^ i = int (unat m2) * 2 ^ (a + Suc n) + (2 ^ Suc n - 1) * 2 ^ a"
proof -
  have s1: "i \<le> a" "unat m = unat m1 * 2 ^ (a - i)" "odd (unat m1)"
    using skip_zeros_spec [OF assms(1)] assms(2) by simp_all
  have s2: "a < i2" "unat m1 + 1 = (unat m2 + 1) * 2 ^ (i2 - a)"
    using consume_ones_spec [OF assms(3)] s1(3) by simp_all
  from s2(1) obtain n where n: "i2 = a + Suc n" by (metis less_iff_Suc_add add_Suc_right)
  have nz: "m1 \<noteq> 0" using s1(3) by auto
  have v1: "unat m * 2 ^ i = unat m1 * 2 ^ a"
    unfolding s1(2) mult.assoc power_add [symmetric] using s1(1) by simp
  define M1 M2 where M: "M1 = int (unat m1)" "M2 = int (unat m2)"
  have "int (unat m1 + 1) = int ((unat m2 + 1) * 2 ^ Suc n)" using s2(2) n by simp
  then have M1: "M1 = M2 * 2 ^ Suc n + (2 ^ Suc n - 1)"
    unfolding M of_nat_add of_nat_mult of_nat_power by (simp only: distrib_right) simp
  have "int (unat m) * 2 ^ i = M1 * 2 ^ a"
    unfolding M int_times_pow [symmetric] v1 ..
  also have "\<dots> = M2 * 2 ^ (a + Suc n) + (2 ^ Suc n - 1) * 2 ^ a"
    unfolding M1 distrib_right power_add by (simp only: mult_ac)
  finally show ?thesis using that n nz unfolding M by blast
qed

definition full_mask :: "('i, 'b) Z3 \<Rightarrow> nat \<Rightarrow> u256" where
  "full_mask Z bits = u256_sub Z (u256_shl Z 1 bits) 1"

definition int_bvand_const :: "('i, 'b) Z3 \<Rightarrow> 'i \<Rightarrow> u256 \<Rightarrow> nat \<Rightarrow> 'i" where
  "int_bvand_const Z x msk bits =
     (let x0 = int_mod_2n Z x bits in
      if msk = 0 then z_from_u64 Z 0
      else (let mask_w = msk AND full_mask Z bits in
            foldl (z_add Z) (z_from_u64 Z 0) (mask_terms Z x0 mask_w 0)))"

definition int_bvor_const :: "('i, 'b) Z3 \<Rightarrow> 'i \<Rightarrow> u256 \<Rightarrow> nat \<Rightarrow> 'i" where
  "int_bvor_const Z x msk bits =
     (let full = full_mask Z bits;
          mask_w = msk AND full;
          not_mask_w = full XOR mask_w;
          kept = int_bvand_const Z x not_mask_w bits
      in z_add Z kept (int_from_u256 Z mask_w))"

definition int_bvnot :: "('i, 'b) Z3 \<Rightarrow> 'i \<Rightarrow> nat \<Rightarrow> 'i" where
  "int_bvnot Z x bits =
     (let x0 = int_mod_2n Z x bits;
          full = z_sub Z (int_two_pow Z bits) (z_from_u64 Z 1)
      in z_sub Z full x0)"

definition int_bvxor_const :: "('i, 'b) Z3 \<Rightarrow> 'i \<Rightarrow> u256 \<Rightarrow> nat \<Rightarrow> 'i" where
  "int_bvxor_const Z x msk bits =
     (let full = full_mask Z bits;
          mask_w = msk AND full;
          not_mask_w = full XOR mask_w;
          part_keep = int_bvand_const Z x not_mask_w bits;
          x_not = int_bvnot Z x bits;
          part_flip = int_bvand_const Z x_not mask_w bits;
          sum = z_add Z part_keep part_flip
      in int_mod_2n Z sum bits)"

section \<open>Meaning of the terms\<close>

lemma window_and:
  "(X mod 2 ^ (a + L)) div 2 ^ a mod 2 ^ L * 2 ^ a = X AND ((2 ^ L - 1) * 2 ^ a)" for X :: int
proof -
  have "push_bit a (take_bit L (drop_bit a (take_bit (a + L) X))) = X AND push_bit a (mask L)"
    by (rule bit_eqI) (auto simp: bit_simps)
  then show ?thesis
    by (simp add: take_bit_eq_mod drop_bit_eq_div push_bit_eq_mult mask_eq_exp_minus_1)
qed

lemma and_add_disjoint:
  "A AND B = 0 \<Longrightarrow> X AND (A + B) = (X AND A) + (X AND B)" for X A B :: int
proof -
  assume AB: "A AND B = 0"
  have "X AND (A + B) = (X AND A) OR (X AND B)"
    using AB by (simp add: disjunctive_add_eq_or bit.conj_disj_distrib)
  also have "\<dots> = (X AND A) + (X AND B)"
    using AB by (intro disjunctive_add_eq_or [symmetric]) (metis and.assoc and.commute and_zero_eq)
  finally show ?thesis .
qed

lemma high_low_disjoint: "(M * 2 ^ (a + L)) AND ((2 ^ L - 1) * 2 ^ a) = 0" for M :: int
proof -
  have "push_bit (a + L) M AND push_bit a (mask L) = 0"
    by (rule bit_eqI) (auto simp: bit_simps)
  then show ?thesis by (simp add: push_bit_eq_mult mask_eq_exp_minus_1)
qed

lemma uint_exp: "n < 256 \<Longrightarrow> uint (push_bit n 1 :: u256) = 2 ^ n"
  by (simp only: unsigned_push_bit_eq) simp

lemma uint_mask: "n < 256 \<Longrightarrow> uint (mask n :: u256) = mask n"
  by transfer simp

locale z3_semantics =
  fixes Z :: "('i, 'b) Z3"
    and ev :: "'i \<Rightarrow> int"
    and evb :: "'b \<Rightarrow> bool"
  assumes ev_from_u64: "ev (z_from_u64 Z w) = uint w"
    and ev_numeral: "ev (z_numeral Z u) = uint u"
    and ev_add: "ev (z_add Z a b) = ev a + ev b"
    and ev_sub: "ev (z_sub Z a b) = ev a - ev b"
    and ev_mul: "ev (z_mul Z a b) = ev a * ev b"
    and ev_div: "0 < ev b \<Longrightarrow> ev (z_div Z a b) = ev a div ev b"
    and ev_rem: "0 < ev b \<Longrightarrow> ev (z_rem Z a b) = ev a mod ev b"
    and ev_modulo: "0 < ev b \<Longrightarrow> ev (z_modulo Z a b) = ev a mod ev b"
    and evb_eq: "evb (z_eq Z a b) \<longleftrightarrow> ev a = ev b"
    and evb_lt: "evb (z_lt Z a b) \<longleftrightarrow> ev a < ev b"
    and evb_le: "evb (z_le Z a b) \<longleftrightarrow> ev a \<le> ev b"
    and evb_gt: "evb (z_gt Z a b) \<longleftrightarrow> ev a > ev b"
    and evb_ge: "evb (z_ge Z a b) \<longleftrightarrow> ev a \<ge> ev b"
    and evb_not: "evb (z_not Z p) \<longleftrightarrow> \<not> evb p"
    and ev_ite: "ev (z_ite Z p a b) = (if evb p then ev a else ev b)"
    and shl_small: "n < 256 \<Longrightarrow> u256_shl Z x n = push_bit n x"
    and sub_le: "v \<le> u \<Longrightarrow> u256_sub Z u v = u - v"
begin

lemma ev_two_pow: "n < 256 \<Longrightarrow> ev (int_two_pow Z n) = 2 ^ n"
  by (simp only: int_two_pow_def ev_numeral shl_small uint_exp)

lemma ev_mod_2n: "bits < 256 \<Longrightarrow> ev (int_mod_2n Z x bits) = ev x mod 2 ^ bits"
  by (simp add: int_mod_2n_def ev_modulo ev_two_pow)

lemma full_mask_val: "bits < 256 \<Longrightarrow> full_mask Z bits = mask bits"
proof -
  assume "bits < 256"
  then have "1 \<le> (push_bit bits 1 :: u256)" by (simp only: word_le_def uint_exp) simp
  then show ?thesis
    using \<open>bits < 256\<close> by (simp add: full_mask_def shl_small sub_le push_bit_of_1 mask_eq_exp_minus_1)
qed

lemma ev_sum: "ev (foldl (z_add Z) acc ts) = ev acc + sum_list (map ev ts)"
  by (induction ts arbitrary: acc) (simp_all add: ev_add)

lemma ev_mask_terms:
  assumes "bits < 256"
  shows "unat m * 2 ^ i < 2 ^ bits \<Longrightarrow>
    sum_list (map ev (mask_terms Z x0 m i)) = ev x0 AND (int (unat m) * 2 ^ i)"
proof (induction "unat m" arbitrary: m i rule: less_induct)
  case less
  show ?case
  proof (cases "m = 0")
    case False
    obtain m1 a where m1: "skip_zeros m i = (m1, a)" by fastforce
    obtain m2 i2 where m2: "consume_ones m1 a = (m2, i2)" by fastforce
    obtain n where n: "i2 = a + Suc n" "m1 \<noteq> 0"
      and split: "int (unat m) * 2 ^ i = int (unat m2) * 2 ^ (a + Suc n) + (2 ^ Suc n - 1) * 2 ^ a"
      using mask_round [OF m1 False m2] .
    define H W :: int where HW: "H = int (unat m2) * 2 ^ (a + Suc n)" "W = (2 ^ Suc n - 1) * 2 ^ a"
    have "int (unat m) * 2 ^ i < 2 ^ bits"
      unfolding int_times_pow_less by (rule less.prems)
    moreover have "0 \<le> H" "0 \<le> W" by (simp_all add: HW)
    ultimately have H: "H < 2 ^ bits" and W: "W < 2 ^ bits"
      using split unfolding HW [symmetric] by linarith+
    have "2 ^ (a + n) \<le> W"
    proof -
      have "(2 :: int) ^ n \<le> 2 ^ Suc n - 1" by simp
      then have "(2 :: int) ^ n * 2 ^ a \<le> W" unfolding HW by (rule mult_right_mono) simp
      then show ?thesis by (simp only: power_add mult.commute)
    qed
    then have "(2 :: int) ^ (a + n) < 2 ^ bits" using W by (rule order_le_less_trans)
    then have an: "a + Suc n < 256" using assms by simp
    have "unat m2 * 2 ^ (a + Suc n) < 2 ^ bits"
      using H unfolding HW int_times_pow_less .
    then have rest: "sum_list (map ev (mask_terms Z x0 m2 (a + Suc n))) = ev x0 AND H"
      unfolding HW using less.hyps [of m2] mask_step_less [OF m1 False m2] by blast
    have "sum_list (map ev (mask_terms Z x0 m i))
        = (ev x0 mod 2 ^ (a + Suc n)) div 2 ^ a mod 2 ^ Suc n * 2 ^ a + (ev x0 AND H)"
      using an unfolding mask_terms_step [OF False m1 n(2) m2 [unfolded n(1)]] list.map
        sum_list.Cons rest by (simp add: ev_mul ev_rem ev_div ev_two_pow del: power_Suc)
    also have "\<dots> = ev x0 AND (H + W)"
      unfolding window_and HW and_add_disjoint [OF high_low_disjoint] by (rule add.commute)
    finally show ?thesis unfolding split HW .
  qed (simp add: mask_terms.simps)
qed

lemma ev_bvand_const:
  assumes "bits < 256"
  shows "ev (int_bvand_const Z x msk bits) = take_bit bits (ev x) AND uint msk"
proof (cases "msk = 0")
  case False
  let ?w = "msk AND full_mask Z bits"
  have w: "uint ?w = take_bit bits (uint msk)"
    by (simp add: full_mask_val assms unsigned_and_eq take_bit_eq_mask uint_mask)
  have "unat ?w < 2 ^ bits"
    using w take_bit_int_less_exp [of bits "uint msk"] by (simp add: unat_eq_nat_uint nat_less_iff)
  then have "sum_list (map ev (mask_terms Z (int_mod_2n Z x bits) ?w 0))
      = (ev x mod 2 ^ bits) AND uint ?w"
    using ev_mask_terms [OF assms, of ?w 0] by (simp add: ev_mod_2n assms)
  then show ?thesis
    using False w
    by (simp add: int_bvand_const_def Let_def ev_sum ev_from_u64 take_bit_eq_mod [symmetric])
      (simp add: take_bit_eq_mask ac_simps)
qed (simp add: int_bvand_const_def ev_from_u64)

lemma uint_mask_w: "bits < 256 \<Longrightarrow> uint (msk AND full_mask Z bits) = take_bit bits (uint msk)"
  by (simp add: full_mask_val unsigned_and_eq take_bit_eq_mask uint_mask)

lemma uint_not_mask_w:
  "bits < 256 \<Longrightarrow> uint (full_mask Z bits XOR (msk AND full_mask Z bits))
     = mask bits XOR take_bit bits (uint msk)"
  by (simp add: full_mask_val unsigned_and_eq unsigned_xor_eq take_bit_eq_mask uint_mask)

lemma ev_bvor_const:
  assumes "bits < 256"
  shows "ev (int_bvor_const Z x msk bits) = take_bit bits (ev x) OR take_bit bits (uint msk)"
proof -
  let ?X = "take_bit bits (ev x)" and ?M = "take_bit bits (uint msk)"
  have "(?X AND (mask bits XOR ?M)) AND ?M = 0" by (rule bit_eqI) (auto simp: bit_simps)
  then have "(?X AND (mask bits XOR ?M)) + ?M = (?X AND (mask bits XOR ?M)) OR ?M"
    by (rule disjunctive_add_eq_or)
  also have "\<dots> = ?X OR ?M" by (rule bit_eqI) (auto simp: bit_simps)
  finally show ?thesis
    by (simp add: int_bvor_const_def Let_def ev_add ev_bvand_const int_from_u256_def ev_numeral
        uint_mask_w uint_not_mask_w assms)
qed

lemma ev_bvnot: "bits < 256 \<Longrightarrow> ev (int_bvnot Z x bits) = take_bit bits (NOT (ev x))"
  unfolding take_bit_not_eq_mask_diff
  by (simp add: int_bvnot_def Let_def ev_sub ev_two_pow ev_mod_2n ev_from_u64
      mask_eq_exp_minus_1 take_bit_eq_mod)

lemma ev_bvxor_const:
  assumes "bits < 256"
  shows "ev (int_bvxor_const Z x msk bits) = take_bit bits (ev x XOR uint msk)"
proof -
  let ?X = "take_bit bits (ev x)" and ?N = "take_bit bits (NOT (ev x))"
    and ?M = "take_bit bits (uint msk)"
  have "(?X AND (mask bits XOR ?M)) AND (?N AND ?M) = 0" by (rule bit_eqI) (auto simp: bit_simps)
  then have "(?X AND (mask bits XOR ?M)) + (?N AND ?M) = (?X AND (mask bits XOR ?M)) OR (?N AND ?M)"
    by (rule disjunctive_add_eq_or)
  also have "\<dots> = take_bit bits (ev x XOR uint msk)" by (rule bit_eqI) (auto simp: bit_simps)
  finally show ?thesis
    by (simp add: int_bvxor_const_def Let_def ev_add ev_bvand_const ev_bvnot ev_mod_2n
        uint_mask_w uint_not_mask_w assms take_bit_eq_mod [symmetric])
qed

end

section \<open>Denotations of terms\<close>

text \<open>A term denotes a function of the assignment of the symbolic constants.\<close>

type_synonym assignment = "string \<Rightarrow> int"

definition den_api :: "(assignment \<Rightarrow> int, assignment \<Rightarrow> bool) Z3" where
  "den_api = \<lparr>z_from_u64 = (\<lambda>n \<rho>. uint n), z_numeral = (\<lambda>u \<rho>. uint u),
     z_new_const = (\<lambda>s \<rho>. \<rho> s),
     z_add = (\<lambda>a b \<rho>. a \<rho> + b \<rho>), z_sub = (\<lambda>a b \<rho>. a \<rho> - b \<rho>), z_mul = (\<lambda>a b \<rho>. a \<rho> * b \<rho>),
     z_div = (\<lambda>a b \<rho>. a \<rho> div b \<rho>), z_rem = (\<lambda>a b \<rho>. a \<rho> mod b \<rho>),
     z_modulo = (\<lambda>a b \<rho>. a \<rho> mod b \<rho>),
     z_eq = (\<lambda>a b \<rho>. a \<rho> = b \<rho>), z_lt = (\<lambda>a b \<rho>. a \<rho> < b \<rho>), z_le = (\<lambda>a b \<rho>. a \<rho> \<le> b \<rho>),
     z_gt = (\<lambda>a b \<rho>. a \<rho> > b \<rho>), z_ge = (\<lambda>a b \<rho>. a \<rho> \<ge> b \<rho>), z_not = (\<lambda>p \<rho>. \<not> p \<rho>),
     z_ite = (\<lambda>p a b \<rho>. if p \<rho> then a \<rho> else b \<rho>), u256_shl = (\<lambda>x n. push_bit n x),
     u256_sub = (\<lambda>x y. x - y)\<rparr>"

lemma den_semantics: "z3_semantics den_api (\<lambda>t. t \<rho>) (\<lambda>p. p \<rho>)"
  by unfold_locales (simp_all add: den_api_def)

interpretation den: z3_semantics den_api "\<lambda>t. t \<rho>" "\<lambda>p. p \<rho>" for \<rho>
  by (rule den_semantics)

text \<open>
  The same denotations with a remainder by zero that is zero: the laws of the solver say nothing
  about it, so a model may choose it like this.
\<close>

definition den_zero :: "(assignment \<Rightarrow> int, assignment \<Rightarrow> bool) Z3" where
  "den_zero = den_api\<lparr>z_rem := (\<lambda>a b \<rho>. if b \<rho> = 0 then 0 else a \<rho> mod b \<rho>),
     z_modulo := (\<lambda>a b \<rho>. if b \<rho> = 0 then 0 else a \<rho> mod b \<rho>)\<rparr>"

lemma den_zero_semantics: "z3_semantics den_zero (\<lambda>t. t \<rho>) (\<lambda>p. p \<rho>)"
  by unfold_locales (simp_all add: den_zero_def den_api_def)

lemma den_zero_shl: "u256_shl den_zero 1 256 = 0"
  by (simp add: den_zero_def den_api_def push_bit_of_1)

lemma mask_terms_one:
  "mask_terms Z x0 1 0 = [z_mul Z (z_rem Z (z_div Z (z_rem Z x0 (int_two_pow Z 1)) (int_two_pow Z 0))
      (int_two_pow Z 1)) (int_two_pow Z 0)]"
proof -
  have "shr1 1 = 0" by (simp add: shr1_def)
  then have "skip_zeros 1 0 = (1, 0)" "consume_ones 1 0 = (0, 0 + Suc 0)"
    by (simp_all add: skip_zeros.simps consume_ones.simps)
  from mask_terms_step [OF _ this(1) _ this(2), of Z x0] show ?thesis
    by (simp add: mask_terms.simps)
qed

section \<open>Properties\<close>

text \<open>
  C17: at the widths below 256, \<open>int_bvand_const\<close> is bitwise conjunction: under every assignment,
  the integer term that decomposes the mask into runs of ones has the value of \<open>x AND mask\<close> on
  the low bits of \<open>x\<close>. At width 256, the width of \<open>u256\<close>, it is not: when shifting one by 256
  gives zero, the runs are cut out of \<open>x\<close> modulo the numeral zero, about which the solver
  promises nothing.
\<close>
theorem int_bvand_const_correct:
  assumes "z3_semantics Z ev evb"
  shows "(bits < 256 \<longrightarrow> ev (int_bvand_const Z x msk bits) = take_bit bits (ev x) AND uint msk)
    \<and> (bits = 256 \<and> u256_shl Z 1 256 = 0 \<and> msk \<noteq> 0 \<longrightarrow>
         int_bvand_const Z x msk bits = foldl (z_add Z) (z_from_u64 Z 0)
           (mask_terms Z (z_modulo Z x (z_numeral Z 0)) (msk AND u256_sub Z 0 1) 0))"
  using z3_semantics.ev_bvand_const [OF assms, of bits x msk]
  by (simp add: int_bvand_const_def int_mod_2n_def int_two_pow_def full_mask_def)

text \<open>
  The witness evaluates the 16-bit conjunction, and a 256-bit one where the result is zero
  although both the operand and the mask are one.
\<close>
theorem int_bvand_const_correct_witness:
  "int_bvand_const den_api (\<lambda>\<rho>. \<rho> ''0.0'') 0xF0F 16 (\<lambda>_. 0x1234)
     = take_bit 16 0x1234 AND uint (0xF0F :: u256)
   \<and> z3_semantics den_zero (\<lambda>t. t (\<lambda>_. 1)) (\<lambda>p. p (\<lambda>_. 1))
   \<and> int_bvand_const den_zero (\<lambda>\<rho>. \<rho> ''0.0'') 1 256 (\<lambda>_. 1) \<noteq> 1 AND uint (1 :: u256)"
proof (intro conjI)
  show "int_bvand_const den_api (\<lambda>\<rho>. \<rho> ''0.0'') 0xF0F 16 (\<lambda>_. 0x1234)
      = take_bit 16 0x1234 AND uint (0xF0F :: u256)"
    using int_bvand_const_correct [OF den_semantics [of "\<lambda>_. 0x1234"], of 16 "\<lambda>\<rho>. \<rho> ''0.0''" "0xF0F"]
    by simp
  show "z3_semantics den_zero (\<lambda>t. t (\<lambda>_. 1)) (\<lambda>p. p (\<lambda>_. 1))" by (rule den_zero_semantics)
  have full: "u256_sub den_zero 0 1 = - 1" by (simp add: den_zero_def den_api_def)
  have "int_bvand_const den_zero (\<lambda>\<rho>. \<rho> ''0.0'') 1 256 = foldl (z_add den_zero) (z_from_u64 den_zero 0)
      (mask_terms den_zero (z_modulo den_zero (\<lambda>\<rho>. \<rho> ''0.0'') (z_numeral den_zero 0)) 1 0)"
    using int_bvand_const_correct [OF den_zero_semantics, of 256 "\<lambda>\<rho>. \<rho> ''0.0''" 1] den_zero_shl full
    by simp
  then have "int_bvand_const den_zero (\<lambda>\<rho>. \<rho> ''0.0'') 1 256 (\<lambda>_. 1) = 0"
    by (simp add: mask_terms_one int_two_pow_def den_zero_def den_api_def)
  then show "int_bvand_const den_zero (\<lambda>\<rho>. \<rho> ''0.0'') 1 256 (\<lambda>_. 1) \<noteq> 1 AND uint (1 :: u256)" by simp
qed

text \<open>
  At the widths below 256, \<open>int_bvor_const\<close> and \<open>int_bvxor_const\<close> are bitwise disjunction and
  exclusive disjunction on the low bits, and \<open>int_bvnot\<close> is bitwise complement.
\<close>
theorem int_bv_ops_correct:
  assumes "z3_semantics Z ev evb" "bits < 256"
  shows "ev (int_bvor_const Z x msk bits) = take_bit bits (ev x OR uint msk)
    \<and> ev (int_bvxor_const Z x msk bits) = take_bit bits (ev x XOR uint msk)
    \<and> ev (int_bvnot Z x bits) = take_bit bits (NOT (ev x))"
  using z3_semantics.ev_bvor_const [OF assms] z3_semantics.ev_bvxor_const [OF assms]
    z3_semantics.ev_bvnot [OF assms] by simp

theorem int_bv_ops_correct_witness:
  "int_bvor_const den_api (\<lambda>\<rho>. \<rho> ''0.0'') 0x0F 8 (\<lambda>_. 0xA1) = take_bit 8 (0xA1 OR uint (0x0F :: u256))
   \<and> int_bvxor_const den_api (\<lambda>\<rho>. \<rho> ''0.0'') 0x0F 8 (\<lambda>_. 0xA1)
       = take_bit 8 (0xA1 XOR uint (0x0F :: u256))
   \<and> int_bvnot den_api (\<lambda>\<rho>. \<rho> ''0.0'') 8 (\<lambda>_. 0xA1) = take_bit 8 (NOT 0xA1)"
  by (rule int_bv_ops_correct [OF den_semantics]) simp

end
