(* ===== verification/Concolic.thy ===== *)
theory Concolic
  imports Concolic_Int Trace_State
begin

text \<open>
  \<open>movy-replay/src/tracer/concolic.rs\<close>: the concolic machine. It keeps a symbolic stack and
  symbolic locals beside the reconstructed VM state, builds terms for the instructions it can
  follow, and returns the path constraint of comparisons, shifts and casts. Solver terms are built
  with the record \<open>Z3\<close> of \<open>Concolic_Int\<close>; every \<open>unwrap\<close>, \<open>panic!\<close> and \<open>unreachable!\<close> is a panic
  of the model.
\<close>

section \<open>Concrete values\<close>

datatype PrimitiveValue =
    PBool bool | PU8 u8 | PU16 u16 | PU32 u32 | PU64 u64 | PU128 u128 | PU256 u256

fun bitwidth :: "PrimitiveValue \<Rightarrow> nat" where
  "bitwidth (PBool _) = 1"
| "bitwidth (PU8 _) = 8"
| "bitwidth (PU16 _) = 16"
| "bitwidth (PU32 _) = 32"
| "bitwidth (PU64 _) = 64"
| "bitwidth (PU128 _) = 128"
| "bitwidth (PU256 _) = 256"

fun as_u256 :: "PrimitiveValue \<Rightarrow> u256" where
  "as_u256 (PBool b) = (if b then 1 else 0)"
| "as_u256 (PU8 u) = ucast u"
| "as_u256 (PU16 u) = ucast u"
| "as_u256 (PU32 u) = ucast u"
| "as_u256 (PU64 u) = ucast u"
| "as_u256 (PU128 u) = ucast u"
| "as_u256 (PU256 u) = u"

definition extract_primitive_value :: "TraceApi \<Rightarrow> TraceValue \<Rightarrow> PrimitiveValue res" where
  "extract_primitive_value A v = (case snapshot A v of
     SBool b \<Rightarrow> Inr (PBool b) | SU8 u \<Rightarrow> Inr (PU8 u) | SU16 u \<Rightarrow> Inr (PU16 u)
   | SU32 u \<Rightarrow> Inr (PU32 u) | SU64 u \<Rightarrow> Inr (PU64 u) | SU128 u \<Rightarrow> Inr (PU128 u)
   | SU256 u \<Rightarrow> Inr (PU256 u)
   | _ \<Rightarrow> Inl (Panic ''Unsupported value type for comparison''))"

datatype Ordering = Less | Equal | Greater

definition cmp :: "'a :: linorder \<Rightarrow> 'a \<Rightarrow> Ordering" where
  "cmp l r = (if l < r then Less else if l = r then Equal else Greater)"

definition compare_value_impl :: "PrimitiveValue \<Rightarrow> PrimitiveValue \<Rightarrow> Ordering res" where
  "compare_value_impl v1 v2 =
     (let unsupported = Inl (Panic ''Unsupported value types for comparison'') in
      case v1 of
        PBool l \<Rightarrow> (case v2 of PBool r \<Rightarrow> Inr (cmp l r) | _ \<Rightarrow> unsupported)
      | PU8 l \<Rightarrow> (case v2 of PU8 r \<Rightarrow> Inr (cmp l r) | _ \<Rightarrow> unsupported)
      | PU16 l \<Rightarrow> (case v2 of PU16 r \<Rightarrow> Inr (cmp l r) | _ \<Rightarrow> unsupported)
      | PU32 l \<Rightarrow> (case v2 of PU32 r \<Rightarrow> Inr (cmp l r) | _ \<Rightarrow> unsupported)
      | PU64 l \<Rightarrow> (case v2 of PU64 r \<Rightarrow> Inr (cmp l r) | _ \<Rightarrow> unsupported)
      | PU128 l \<Rightarrow> (case v2 of PU128 r \<Rightarrow> Inr (cmp l r) | _ \<Rightarrow> unsupported)
      | PU256 l \<Rightarrow> (case v2 of PU256 r \<Rightarrow> Inr (cmp l r) | _ \<Rightarrow> unsupported))"

definition compare_value :: "TraceApi \<Rightarrow> TraceValue \<Rightarrow> TraceValue \<Rightarrow> Ordering res" where
  "compare_value A v1 v2 =
     bindR (extract_primitive_value A v1) (\<lambda>p1.
     bindR (extract_primitive_value A v2) (\<lambda>p2. compare_value_impl p1 p2))"

definition value_to_u256 :: "TraceApi \<Rightarrow> TraceValue \<Rightarrow> u256 res" where
  "value_to_u256 A v = bindR (extract_primitive_value A v) (\<lambda>p. Inr (as_u256 p))"

definition value_bitwidth :: "TraceApi \<Rightarrow> TraceValue \<Rightarrow> nat res" where
  "value_bitwidth A v = bindR (extract_primitive_value A v) (\<lambda>p. Inr (bitwidth p))"

definition stack_top2 :: "TraceValue list \<Rightarrow> (TraceValue \<times> TraceValue) res" where
  "stack_top2 stack =
     (let len = length stack in
      if len < 2 then Inl (Panic ''attempt to subtract with overflow'')
      else Inr (stack ! (len - 2), stack ! (len - 1)))"

definition stack_top1 :: "TraceValue list \<Rightarrow> TraceValue res" where
  "stack_top1 stack =
     (if stack = [] then Inl (Panic ''attempt to subtract with overflow'')
      else Inr (stack ! (length stack - 1)))"

section \<open>The symbolic state\<close>

datatype 'i SymbolValue = Value 'i | Unknown

record 'i ConcolicState =
  sym_stack :: "'i SymbolValue list"
  sym_locals :: "'i SymbolValue list list"
  sym_args :: "(nat, 'i) btree list"
  disable :: bool

definition ConcolicState_new :: "'i ConcolicState" where
  "ConcolicState_new = \<lparr>sym_stack = [], sym_locals = [], sym_args = [], disable = False\<rparr>"

definition max_u_bits :: "('i, 'b) Z3 \<Rightarrow> nat \<Rightarrow> 'i res" where
  "max_u_bits Z n =
     (if n \<le> 63 then Inr (z_from_u64 Z (2 ^ n - 1))
      else if n = 64 then Inr (z_numeral Z 18446744073709551615)
      else if n = 128 then Inr (z_numeral Z 340282366920938463463374607431768211455)
      else if n = 256 then Inr (z_numeral Z
        115792089237316195423570985008687907853269984665640564039457584007913129639935)
      else Inl (Panic ''add more cases or compute big ints as needed''))"

definition resolve_arg ::
  "('i, 'b) Z3 \<Rightarrow> nat \<Rightarrow> nat \<Rightarrow> TypeTagWithRefs \<Rightarrow> 'i SymbolValue" where
  "resolve_arg Z cmd_index param_index ty =
     (if ref_type ty \<noteq> None then Unknown
      else if plain_type ty \<in> {TyBool, TyU8, TyU16, TyU32, TyU64, TyU128, TyU256}
      then Value (z_new_const Z (dec cmd_index @ ''.'' @ dec param_index))
      else Unknown)"

definition resolve_value :: "TraceApi \<Rightarrow> ('i, 'b) Z3 \<Rightarrow> TraceValue \<Rightarrow> 'i res" where
  "resolve_value A Z v =
     bindR (extract_primitive_value A v) (\<lambda>p. Inr (case p of
       PBool b \<Rightarrow> z_from_u64 Z (if b then 1 else 0)
     | PU8 u \<Rightarrow> z_from_u64 Z (ucast u)
     | PU16 u \<Rightarrow> z_from_u64 Z (ucast u)
     | PU32 u \<Rightarrow> z_from_u64 Z (ucast u)
     | PU64 u \<Rightarrow> z_from_u64 Z u
     | PU128 u \<Rightarrow> z_numeral Z (ucast u)
     | PU256 u \<Rightarrow> z_numeral Z u))"

section \<open>Frames and raw events\<close>

definition on_move_call_inner :: "'i ConcolicState \<Rightarrow> 'i ConcolicState" where
  "on_move_call_inner c = c\<lparr>sym_locals := [], sym_stack := []\<rparr>"

definition on_raw_event_inner ::
  "TraceEvent \<Rightarrow> TraceState \<Rightarrow> 'i ConcolicState \<Rightarrow> 'i ConcolicState \<times> bool" where
  "on_raw_event_inner ev st c =
     (if disable c then (c, False)
      else case ev of
        InstructionEv _ _ _ _ \<Rightarrow>
          if length (sym_stack c) \<noteq> length (operand_stack st) then (c\<lparr>disable := True\<rparr>, False)
          else (c, True)
      | EffectEv (ExecutionError _) \<Rightarrow> (c\<lparr>sym_stack := butlast (sym_stack c)\<rparr>, True)
      | _ \<Rightarrow> (c, True))"

text \<open>\<open>resize(n, Unknown)\<close> when the vector is shorter.\<close>

definition pad_unknown :: "nat \<Rightarrow> 'i SymbolValue list \<Rightarrow> 'i SymbolValue list" where
  "pad_unknown n xs = xs @ replicate (n - length xs) Unknown"

definition on_open_frame_inner ::
  "('i, 'b) Z3 \<Rightarrow> Frame \<Rightarrow> 'i ConcolicState \<Rightarrow> 'i ConcolicState" where
  "on_open_frame_inner Z frame c =
     (let param_count = length (frame_parameters frame) in
      if sym_locals c = [] then
        (let locals =
               (if locals_types frame = [] then replicate param_count Unknown
                else map (\<lambda>(i, ty). resolve_arg Z (length (sym_args c)) i ty)
                       (enumerate 0 (locals_types frame)));
             locals = (if length locals < param_count then pad_unknown param_count locals else locals);
             args = concat (map (\<lambda>(i, v). case v of Value bv \<Rightarrow> [(i, bv)] | Unknown \<Rightarrow> [])
                      (enumerate 0 (take param_count locals)))
         in c\<lparr>sym_args := sym_args c @ [args], sym_locals := sym_locals c @ [locals]\<rparr>)
      else
        (let arg_len = min param_count (length (sym_stack c));
             skip_idx = length (sym_stack c) - arg_len;
             locals = drop skip_idx (sym_stack c);
             rest = take skip_idx (sym_stack c);
             locals = (if length (locals_types frame) > length locals
                       then pad_unknown (length (locals_types frame)) locals else locals)
         in c\<lparr>sym_locals := sym_locals c @ [locals],
              sym_stack := (if is_native frame
                            then rest @ replicate (length (return_types frame)) Unknown else rest)\<rparr>))"

definition on_close_frame_inner :: "'i ConcolicState \<Rightarrow> 'i ConcolicState" where
  "on_close_frame_inner c = c\<lparr>sym_locals := butlast (sym_locals c)\<rparr>"

section \<open>Instructions\<close>

type_synonym ('i, 'b) con_res = "('i ConcolicState \<times> 'b option) res"

definition sym_push :: "'i SymbolValue \<Rightarrow> 'i ConcolicState \<Rightarrow> 'i ConcolicState" where
  "sym_push v c = c\<lparr>sym_stack := sym_stack c @ [v]\<rparr>"

text \<open>\<open>(self.stack.pop().unwrap(), self.stack.pop().unwrap())\<close>, as \<open>(lhs, rhs)\<close>.\<close>

definition sym_pop2 ::
  "'i ConcolicState \<Rightarrow> (('i SymbolValue \<times> 'i SymbolValue) \<times> 'i ConcolicState) res" where
  "sym_pop2 c =
     (let n = length (sym_stack c) in
      if n < 2 then Inl (Panic ''unwrap on None'')
      else Inr ((sym_stack c ! (n - 2), sym_stack c ! (n - 1)),
                c\<lparr>sym_stack := take (n - 2) (sym_stack c)\<rparr>))"

definition pops :: "nat \<Rightarrow> 'i ConcolicState \<Rightarrow> 'i ConcolicState" where
  "pops n c = c\<lparr>sym_stack := take (length (sym_stack c) - n) (sym_stack c)\<rparr>"

definition push_unknowns :: "nat \<Rightarrow> 'i ConcolicState \<Rightarrow> 'i ConcolicState" where
  "push_unknowns n c = c\<lparr>sym_stack := sym_stack c @ replicate n Unknown\<rparr>"

text \<open>The operands of a binary operation: an unknown side takes its concrete value, and two
  unknown sides give none.\<close>

definition resolve_operands ::
  "TraceApi \<Rightarrow> ('i, 'b) Z3 \<Rightarrow> TraceValue \<Rightarrow> TraceValue \<Rightarrow> 'i SymbolValue \<times> 'i SymbolValue
     \<Rightarrow> ('i \<times> 'i) option res" where
  "resolve_operands A Z true_lhs true_rhs ops = (case ops of
     (Value l, Value r) \<Rightarrow> Inr (Some (l, r))
   | (Value l, Unknown) \<Rightarrow> bindR (resolve_value A Z true_rhs) (\<lambda>new_r. Inr (Some (l, new_r)))
   | (Unknown, Value r) \<Rightarrow> bindR (resolve_value A Z true_lhs) (\<lambda>new_l. Inr (Some (new_l, r)))
   | (Unknown, Unknown) \<Rightarrow> Inr None)"

definition process_binary_op ::
  "TraceApi \<Rightarrow> ('i, 'b) Z3 \<Rightarrow> TraceValue list \<Rightarrow> 'i ConcolicState
     \<Rightarrow> ('i ConcolicState \<times> ('i \<times> 'i) option) res" where
  "process_binary_op A Z stack c =
     bindR (sym_pop2 c) (\<lambda>(ops, c).
     bindR (stack_top2 stack) (\<lambda>(true_lhs, true_rhs).
     bindR (resolve_operands A Z true_lhs true_rhs ops) (\<lambda>r. Inr (c, r))))"

fun arith_term :: "('i, 'b) Z3 \<Rightarrow> ArithBc \<Rightarrow> 'i \<Rightarrow> 'i \<Rightarrow> 'i" where
  "arith_term Z BAdd l r = z_add Z l r"
| "arith_term Z BSub l r = z_sub Z l r"
| "arith_term Z BMul l r = z_mul Z l r"
| "arith_term Z BDiv l r = z_div Z l r"
| "arith_term Z BMod l r = z_rem Z l r"

definition con_arith ::
  "TraceApi \<Rightarrow> ('i, 'b) Z3 \<Rightarrow> ArithBc \<Rightarrow> TraceValue list \<Rightarrow> 'i ConcolicState \<Rightarrow> ('i, 'b) con_res" where
  "con_arith A Z op stack c =
     bindR (process_binary_op A Z stack c) (\<lambda>(c, r). case r of
       Some (l, r) \<Rightarrow> Inr (sym_push (Value (arith_term Z op l r)) c, None)
     | None \<Rightarrow> Inr (sym_push Unknown c, None))"

text \<open>\<open>CastU8\<close> to \<open>CastU128\<close>: the constraint that the cast does not overflow; the stack is kept.\<close>

definition con_cast ::
  "('i, 'b) Z3 \<Rightarrow> nat \<Rightarrow> 'i ConcolicState \<Rightarrow> ('i, 'b) con_res" where
  "con_cast Z n c =
     (if sym_stack c = [] then Inr (c, None)
      else case last (sym_stack c) of
        Value i \<Rightarrow> bindR (max_u_bits Z n) (\<lambda>m. Inr (c, Some (z_le Z i m)))
      | Unknown \<Rightarrow> Inr (c, None))"

fun logic_term :: "('i, 'b) Z3 \<Rightarrow> LogicBc \<Rightarrow> 'i \<Rightarrow> u256 \<Rightarrow> nat \<Rightarrow> 'i" where
  "logic_term Z BAnd x m w = int_bvand_const Z x m w"
| "logic_term Z BBitAnd x m w = int_bvand_const Z x m w"
| "logic_term Z BOr x m w = int_bvor_const Z x m w"
| "logic_term Z BBitOr x m w = int_bvor_const Z x m w"
| "logic_term Z BXor x m w = int_bvxor_const Z x m w"

definition con_logic ::
  "TraceApi \<Rightarrow> ('i, 'b) Z3 \<Rightarrow> LogicBc \<Rightarrow> TraceValue list \<Rightarrow> 'i ConcolicState \<Rightarrow> ('i, 'b) con_res" where
  "con_logic A Z op stack c =
     bindR (sym_pop2 c) (\<lambda>((lhs, rhs), c).
     bindR (stack_top2 stack) (\<lambda>(true_lhs, true_rhs).
     bindR (value_bitwidth A true_lhs) (\<lambda>bit_width.
     bindR (value_to_u256 A true_lhs) (\<lambda>true_l.
     bindR (value_to_u256 A true_rhs) (\<lambda>true_r.
       Inr (sym_push (case (lhs, rhs) of
           (Value l, Value r) \<Rightarrow> Unknown
         | (Value l, Unknown) \<Rightarrow> Value (logic_term Z op l true_r bit_width)
         | (Unknown, Value r) \<Rightarrow> Value (logic_term Z op r true_l bit_width)
         | (Unknown, Unknown) \<Rightarrow> Unknown) c, None))))))"

definition con_shl ::
  "TraceApi \<Rightarrow> ('i, 'b) Z3 \<Rightarrow> TraceValue list \<Rightarrow> 'i ConcolicState \<Rightarrow> ('i, 'b) con_res" where
  "con_shl A Z stack c =
     bindR (sym_pop2 c) (\<lambda>((lhs, rhs), c).
     bindR (stack_top2 stack) (\<lambda>(true_lhs, true_rhs).
     bindR (value_bitwidth A true_lhs) (\<lambda>bit_width.
     bindR (value_to_u256 A true_rhs) (\<lambda>r256.
     bindR (max_u_bits Z bit_width) (\<lambda>threshold.
       let true_r = unat (ucast r256 :: u32) in
       case (lhs, rhs) of
         (Value l, Unknown) \<Rightarrow>
           (let shl = z_mul Z l (int_two_pow Z true_r);
                shl_mod = z_modulo Z shl (int_two_pow Z bit_width)
            in Inr (sym_push (Value shl_mod) c, Some (z_gt Z shl threshold)))
       | _ \<Rightarrow> Inr (sym_push Unknown c, None))))))"

definition con_shr ::
  "TraceApi \<Rightarrow> ('i, 'b) Z3 \<Rightarrow> TraceValue list \<Rightarrow> 'i ConcolicState \<Rightarrow> ('i, 'b) con_res" where
  "con_shr A Z stack c =
     bindR (sym_pop2 c) (\<lambda>((lhs, rhs), c).
     bindR (stack_top2 stack) (\<lambda>(true_lhs, true_rhs).
     bindR (value_to_u256 A true_rhs) (\<lambda>r256.
       let true_r = unat (ucast r256 :: u32) in
       case (lhs, rhs) of
         (Value l, Unknown) \<Rightarrow> Inr (sym_push (Value (z_div Z l (int_two_pow Z true_r))) c, None)
       | _ \<Rightarrow> Inr (sym_push Unknown c, None))))"

definition con_not ::
  "TraceApi \<Rightarrow> ('i, 'b) Z3 \<Rightarrow> TraceValue list \<Rightarrow> 'i ConcolicState \<Rightarrow> ('i, 'b) con_res" where
  "con_not A Z stack c =
     (if sym_stack c = [] then Inr (c, None)
      else case last (sym_stack c) of
        Value n \<Rightarrow>
          bindR (stack_top1 stack) (\<lambda>top.
          bindR (value_bitwidth A top) (\<lambda>bit_width.
            Inr (sym_push (Value (int_bvnot Z n bit_width)) (pops 1 c), None)))
      | Unknown \<Rightarrow> Inr (sym_push Unknown (pops 1 c), None))"

section \<open>Locals\<close>

definition con_copy_loc :: "u8 \<Rightarrow> 'i ConcolicState \<Rightarrow> 'i ConcolicState" where
  "con_copy_loc idx c =
     sym_push (if sym_locals c \<noteq> [] \<and> unat idx < length (last (sym_locals c))
               then last (sym_locals c) ! unat idx else Unknown) c"

definition con_move_loc :: "u8 \<Rightarrow> 'i ConcolicState \<Rightarrow> 'i ConcolicState" where
  "con_move_loc idx c =
     (if sym_locals c \<noteq> [] \<and> unat idx < length (last (sym_locals c))
      then sym_push (last (sym_locals c) ! unat idx)
        (c\<lparr>sym_locals := butlast (sym_locals c) @ [(last (sym_locals c))[unat idx := Unknown]]\<rparr>)
      else sym_push Unknown c)"

definition con_st_loc :: "u8 \<Rightarrow> 'i ConcolicState \<Rightarrow> 'i ConcolicState" where
  "con_st_loc idx c =
     (if sym_stack c = [] then c
      else let v = last (sym_stack c); c = pops 1 c in
        if sym_locals c = [] then c
        else let locals = last (sym_locals c);
                 locals = (if unat idx < length locals then locals
                           else pad_unknown (Suc (unat idx)) locals)
             in c\<lparr>sym_locals := butlast (sym_locals c) @ [locals[unat idx := v]]\<rparr>)"

section \<open>Comparisons\<close>

text \<open>The common part of the six comparisons: operands, the concrete order, and the branch that
  pushes the 0/1 term of the chosen constraint.\<close>

definition sym_bool :: "('i, 'b) Z3 \<Rightarrow> 'b \<Rightarrow> 'i" where
  "sym_bool Z p = z_ite Z p (z_from_u64 Z 1) (z_from_u64 Z 0)"

definition con_compare ::
  "TraceApi \<Rightarrow> ('i, 'b) Z3 \<Rightarrow> ('i \<Rightarrow> 'i \<Rightarrow> Ordering \<Rightarrow> 'b \<times> 'b) \<Rightarrow> TraceValue list \<Rightarrow> 'i ConcolicState
     \<Rightarrow> ('i, 'b) con_res" where
  "con_compare A Z branch stack c =
     bindR (sym_pop2 c) (\<lambda>(ops, c).
     bindR (stack_top2 stack) (\<lambda>(true_lhs, true_rhs).
     bindR (resolve_operands A Z true_lhs true_rhs ops) (\<lambda>r. case r of
       None \<Rightarrow> Inr (sym_push Unknown c, None)
     | Some (new_l, new_r) \<Rightarrow>
         bindR (compare_value A true_lhs true_rhs) (\<lambda>ord.
           case branch new_l new_r ord of (value_cond, constraint) \<Rightarrow>
             Inr (sym_push (Value (sym_bool Z value_cond)) c, Some constraint)))))"

definition con_eq where
  "con_eq A Z = con_compare A Z (\<lambda>l r ord.
     if ord = Equal then (let eq = z_eq Z l r in (eq, eq))
     else (let neq = z_not Z (z_eq Z l r) in (neq, neq)))"

definition con_neq where
  "con_neq A Z = con_compare A Z (\<lambda>l r ord.
     if ord \<noteq> Equal then (let neq = z_not Z (z_eq Z l r) in (neq, neq))
     else (let eq = z_eq Z l r in (eq, z_not Z eq)))"

definition con_lt where
  "con_lt A Z = con_compare A Z (\<lambda>l r ord.
     if ord = Less then (let lt = z_lt Z l r in (lt, lt))
     else (let nlt = z_not Z (z_lt Z l r) in (nlt, nlt)))"

definition con_le where
  "con_le A Z = con_compare A Z (\<lambda>l r ord.
     if ord \<noteq> Greater then (let le = z_le Z l r in (le, le))
     else (let nle = z_not Z (z_le Z l r) in (nle, nle)))"

definition con_gt where
  "con_gt A Z = con_compare A Z (\<lambda>l r ord.
     if ord = Greater then (let gt = z_gt Z l r in (gt, gt))
     else (let ngt = z_not Z (z_gt Z l r) in (ngt, ngt)))"

definition con_ge where
  "con_ge A Z = con_compare A Z (\<lambda>l r ord.
     if ord \<noteq> Less then (let ge = z_ge Z l r in (ge, ge))
     else (let nge = z_not Z (z_ge Z l r) in (nge, nge)))"

fun con_cmp ::
  "TraceApi \<Rightarrow> ('i, 'b) Z3 \<Rightarrow> CmpBc \<Rightarrow> TraceValue list \<Rightarrow> 'i ConcolicState \<Rightarrow> ('i, 'b) con_res" where
  "con_cmp A Z BEq = con_eq A Z"
| "con_cmp A Z BNeq = con_neq A Z"
| "con_cmp A Z BLt = con_lt A Z"
| "con_cmp A Z BLe = con_le A Z"
| "con_cmp A Z BGt = con_gt A Z"
| "con_cmp A Z BGe = con_ge A Z"

section \<open>Aggregates\<close>

datatype InstructionExtraInformation =
    XPack nat | XPackGeneric nat | XPackVariant nat | XPackVariantGeneric nat
  | XUnpack nat | XUnpackVariant nat | XUnpackGeneric nat | XUnpackVariantGeneric nat

definition con_pack ::
  "PackBc \<Rightarrow> InstructionExtraInformation option \<Rightarrow> 'i ConcolicState \<Rightarrow> ('i, 'b) con_res" where
  "con_pack kind extra c =
     bindR (unwrapR ''unwrap on None'' extra) (\<lambda>x.
       case (kind \<in> {BPack, BPackGeneric}, x) of
         (True, XPack count) \<Rightarrow> Inr (sym_push Unknown (pops count c), None)
       | (True, XPackGeneric count) \<Rightarrow> Inr (sym_push Unknown (pops count c), None)
       | (False, XPackVariant count) \<Rightarrow> Inr (sym_push Unknown (pops count c), None)
       | (False, XPackVariantGeneric count) \<Rightarrow> Inr (sym_push Unknown (pops count c), None)
       | _ \<Rightarrow> Inl (Panic ''internal error: entered unreachable code''))"

definition con_unpack ::
  "UnpackBc \<Rightarrow> InstructionExtraInformation option \<Rightarrow> 'i ConcolicState \<Rightarrow> ('i, 'b) con_res" where
  "con_unpack kind extra c =
     (let c = pops 1 c in
      if kind \<in> {BUnpack, BUnpackGeneric} then
        bindR (unwrapR ''unwrap on None'' extra) (\<lambda>x. case x of
          XUnpack count \<Rightarrow> Inr (push_unknowns count c, None)
        | XUnpackGeneric count \<Rightarrow> Inr (push_unknowns count c, None)
        | _ \<Rightarrow> Inl (Panic ''internal error: entered unreachable code''))
      else
        (case extra of
           None \<Rightarrow> Inr (c\<lparr>disable := True\<rparr>, None)
         | Some x \<Rightarrow> (case x of
             XUnpackVariant count \<Rightarrow> Inr (push_unknowns count c, None)
           | XUnpackVariantGeneric count \<Rightarrow> Inr (push_unknowns count c, None)
           | _ \<Rightarrow> Inl (Panic ''internal error: entered unreachable code''))))"

fun cast_bits :: "IntTy \<Rightarrow> nat option" where
  "cast_bits I8 = Some 8"
| "cast_bits I16 = Some 16"
| "cast_bits I32 = Some 32"
| "cast_bits I64 = Some 64"
| "cast_bits I128 = Some 128"
| "cast_bits I256 = None"

definition on_before_instruction_inner ::
  "TraceApi \<Rightarrow> ('i, 'b) Z3 \<Rightarrow> Bytecode \<Rightarrow> TraceState \<Rightarrow> InstructionExtraInformation option
     \<Rightarrow> 'i ConcolicState \<Rightarrow> ('i, 'b) con_res" where
  "on_before_instruction_inner A Z instruction trace_state extra c =
     (let stack = operand_stack trace_state in
      if length (sym_stack c) \<noteq> length stack \<or> disable c then Inr (c\<lparr>disable := True\<rparr>, None)
      else case instruction of
        BcPop \<Rightarrow> Inr (pops 1 c, None)
      | BcBrTrue _ \<Rightarrow> Inr (pops 1 c, None)
      | BcBrFalse _ \<Rightarrow> Inr (pops 1 c, None)
      | BcAbort \<Rightarrow> Inr (pops 1 c, None)
      | BcVecImmBorrow _ \<Rightarrow> Inr (pops 1 c, None)
      | BcVecMutBorrow _ \<Rightarrow> Inr (pops 1 c, None)
      | BcLdInt _ _ \<Rightarrow> Inr (sym_push Unknown c, None)
      | BcLdConst _ \<Rightarrow> Inr (sym_push Unknown c, None)
      | BcLdFalse \<Rightarrow> Inr (sym_push (Value (z_from_u64 Z 0)) c, None)
      | BcLdTrue \<Rightarrow> Inr (sym_push (Value (z_from_u64 Z 1)) c, None)
      | BcCast ty \<Rightarrow> (case cast_bits ty of None \<Rightarrow> Inr (c, None) | Some n \<Rightarrow> con_cast Z n c)
      | BcArith op \<Rightarrow> con_arith A Z op stack c
      | BcLogic op \<Rightarrow> con_logic A Z op stack c
      | BcShl \<Rightarrow> con_shl A Z stack c
      | BcShr \<Rightarrow> con_shr A Z stack c
      | BcNot \<Rightarrow> con_not A Z stack c
      | BcCopyLoc idx \<Rightarrow> Inr (con_copy_loc idx c, None)
      | BcMutBorrowLoc idx \<Rightarrow> Inr (con_copy_loc idx c, None)
      | BcImmBorrowLoc idx \<Rightarrow> Inr (con_copy_loc idx c, None)
      | BcMoveLoc idx \<Rightarrow> Inr (con_move_loc idx c, None)
      | BcStLoc idx \<Rightarrow> Inr (con_st_loc idx c, None)
      | BcWriteRef \<Rightarrow> Inr (pops 2 c, None)
      | BcVecPushBack _ \<Rightarrow> Inr (pops 2 c, None)
      | BcCmp op \<Rightarrow> con_cmp A Z op stack c
      | BcVecPack _ len \<Rightarrow> Inr (sym_push Unknown (pops (unat len) c), None)
      | BcVecUnpack _ len \<Rightarrow> Inr (push_unknowns (unat len) (pops 1 c), None)
      | BcVecSwap _ \<Rightarrow> Inr (pops 3 c, None)
      | BcPackOp kind _ \<Rightarrow> con_pack kind extra c
      | BcUnpackOp kind _ \<Rightarrow> con_unpack kind extra c
      | BcVariantSwitch _ \<Rightarrow> Inr (pops 1 c, None)
      | _ \<Rightarrow> Inr (c, None))"

section \<open>Stack discipline\<close>

text \<open>What the VM pops and pushes for an instruction.\<close>

fun extra_count :: "InstructionExtraInformation \<Rightarrow> nat" where
  "extra_count (XPack n) = n"
| "extra_count (XPackGeneric n) = n"
| "extra_count (XPackVariant n) = n"
| "extra_count (XPackVariantGeneric n) = n"
| "extra_count (XUnpack n) = n"
| "extra_count (XUnpackVariant n) = n"
| "extra_count (XUnpackGeneric n) = n"
| "extra_count (XUnpackVariantGeneric n) = n"

definition vm_effect :: "Bytecode \<Rightarrow> InstructionExtraInformation option \<Rightarrow> nat \<times> nat" where
  "vm_effect b extra = (let n = (case extra of None \<Rightarrow> 0 | Some x \<Rightarrow> extra_count x) in case b of
     BcPop \<Rightarrow> (1, 0) | BcBrTrue _ \<Rightarrow> (1, 0) | BcBrFalse _ \<Rightarrow> (1, 0) | BcAbort \<Rightarrow> (1, 0)
   | BcVecImmBorrow _ \<Rightarrow> (2, 1) | BcVecMutBorrow _ \<Rightarrow> (2, 1)
   | BcLdInt _ _ \<Rightarrow> (0, 1) | BcLdConst _ \<Rightarrow> (0, 1) | BcLdTrue \<Rightarrow> (0, 1) | BcLdFalse \<Rightarrow> (0, 1)
   | BcCast _ \<Rightarrow> (1, 1)
   | BcArith _ \<Rightarrow> (2, 1) | BcLogic _ \<Rightarrow> (2, 1) | BcShl \<Rightarrow> (2, 1) | BcShr \<Rightarrow> (2, 1)
   | BcCmp _ \<Rightarrow> (2, 1) | BcNot \<Rightarrow> (1, 1)
   | BcCopyLoc _ \<Rightarrow> (0, 1) | BcMoveLoc _ \<Rightarrow> (0, 1) | BcMutBorrowLoc _ \<Rightarrow> (0, 1)
   | BcImmBorrowLoc _ \<Rightarrow> (0, 1) | BcStLoc _ \<Rightarrow> (1, 0)
   | BcWriteRef \<Rightarrow> (2, 0) | BcVecPushBack _ \<Rightarrow> (2, 0) | BcVecSwap _ \<Rightarrow> (3, 0)
   | BcVecPack _ len \<Rightarrow> (unat len, 1) | BcVecUnpack _ len \<Rightarrow> (1, unat len)
   | BcPackOp _ _ \<Rightarrow> (n, 1) | BcUnpackOp _ _ \<Rightarrow> (1, n) | BcVariantSwitch _ \<Rightarrow> (1, 0)
   | _ \<Rightarrow> (0, 0))"

lemma sym_stack_simps [simp]:
  "length (sym_stack (sym_push v c)) = Suc (length (sym_stack c))"
  "length (sym_stack (pops n c)) = length (sym_stack c) - n"
  "length (sym_stack (push_unknowns n c)) = length (sym_stack c) + n"
  "length (sym_stack (con_copy_loc i c)) = Suc (length (sym_stack c))"
  "length (sym_stack (con_move_loc i c)) = Suc (length (sym_stack c))"
  "length (sym_stack (con_st_loc i c)) = length (sym_stack c) - 1"
  by (simp_all add: sym_push_def pops_def push_unknowns_def con_copy_loc_def con_move_loc_def
      con_st_loc_def Let_def)

lemma sym_pop2_length:
  "sym_pop2 c = Inr (ops, c1) \<Longrightarrow> length (sym_stack c) = Suc (Suc (length (sym_stack c1)))"
  by (auto simp: sym_pop2_def Let_def split: if_splits)

lemma binary_length:
  "con_arith A Z aop stack c = Inr (c', r) \<Longrightarrow> length (sym_stack c) = Suc (length (sym_stack c'))"
  "con_logic A Z lop stack c = Inr (c', r) \<Longrightarrow> length (sym_stack c) = Suc (length (sym_stack c'))"
  "con_shl A Z stack c = Inr (c', r) \<Longrightarrow> length (sym_stack c) = Suc (length (sym_stack c'))"
  "con_shr A Z stack c = Inr (c', r) \<Longrightarrow> length (sym_stack c) = Suc (length (sym_stack c'))"
  "con_compare A Z br stack c = Inr (c', r) \<Longrightarrow> length (sym_stack c) = Suc (length (sym_stack c'))"
  by (auto simp: con_arith_def process_binary_op_def con_logic_def con_shl_def con_shr_def
      con_compare_def Let_def elim!: bindR_InrE dest!: sym_pop2_length
      split: option.split_asm SymbolValue.split_asm prod.split_asm)

lemmas con_cmp_defs = con_eq_def con_neq_def con_lt_def con_le_def con_gt_def con_ge_def

lemma con_cmp_length:
  "con_cmp A Z cop stack c = Inr (c', r) \<Longrightarrow> length (sym_stack c) = Suc (length (sym_stack c'))"
  by (cases cop) (simp_all add: con_cmp_defs binary_length(5))

lemma unary_length:
  "con_cast Z n c = Inr (c', r) \<Longrightarrow> sym_stack c' = sym_stack c"
  "con_not A Z stack c = Inr (c', r) \<Longrightarrow> length (sym_stack c') = length (sym_stack c)"
  by (auto simp: con_cast_def con_not_def bindR_eq_Inr split: if_splits SymbolValue.splits)

lemma aggregate_length:
  "con_pack k x c = Inr (c', r :: 'b option) \<Longrightarrow>
     \<exists>y. x = Some y \<and> length (sym_stack c') = Suc (length (sym_stack c) - extra_count y)"
  "con_unpack u x c = Inr (c', r) \<Longrightarrow> disable c' \<or>
     length (sym_stack c') = length (sym_stack c) - 1 + (case x of None \<Rightarrow> 0 | Some y \<Rightarrow> extra_count y)"
  by (cases x; auto simp: con_pack_def con_unpack_def Let_def
      split: if_splits InstructionExtraInformation.splits bool.splits)+

lemma on_before_instruction_length:
  assumes "on_before_instruction_inner A Z b st extra c = Inr (c', r)" "\<not> disable c'"
    and "fst (vm_effect b extra) \<le> length (sym_stack c)"
  shows "length (sym_stack c') + fst (vm_effect b extra) = length (sym_stack c) + snd (vm_effect b extra)"
proof -
  have sync: "length (sym_stack c) = length (operand_stack st)" "\<not> disable c"
    using assms(1,2) by (auto simp: on_before_instruction_inner_def Let_def split: if_splits)
  note lens = binary_length con_cmp_length unary_length aggregate_length
  show ?thesis
    using assms sync
    by (cases b) (auto simp: on_before_instruction_inner_def vm_effect_def Let_def dest!: lens
        split: option.splits)
qed

section \<open>Agreement of the symbolic with the concrete stack\<close>

definition num :: "PrimitiveValue \<Rightarrow> int" where
  "num p = uint (as_u256 p)"

definition sym_ok :: "TraceApi \<Rightarrow> ('i \<Rightarrow> int) \<Rightarrow> 'i SymbolValue \<Rightarrow> TraceValue \<Rightarrow> bool" where
  "sym_ok A ev sv tv = (case sv of
     Unknown \<Rightarrow> True
   | Value i \<Rightarrow> (case extract_primitive_value A tv of Inl _ \<Rightarrow> False | Inr p \<Rightarrow> ev i = num p))"

definition consistent :: "TraceApi \<Rightarrow> ('i \<Rightarrow> int) \<Rightarrow> 'i ConcolicState \<Rightarrow> TraceState \<Rightarrow> bool" where
  "consistent A ev c st \<longleftrightarrow> list_all2 (sym_ok A ev) (sym_stack c) (operand_stack st)"

lemma uint_ucast_up:
  fixes w :: "'a :: len word"
  assumes "LENGTH('a) \<le> LENGTH('c :: len)"
  shows "uint (ucast w :: 'c word) = uint w"
proof -
  have "uint w < 2 ^ LENGTH('a)" by (rule unsigned_less)
  also have "\<dots> \<le> (2 :: int) ^ LENGTH('c)" using assms by (simp add: power_increasing)
  finally show ?thesis by (simp add: unsigned_ucast_eq take_bit_int_eq_self)
qed

lemma num_simps [simp]:
  "num (PBool b) = (if b then 1 else 0)" "num (PU8 x8) = uint x8" "num (PU16 x16) = uint x16"
  "num (PU32 x32) = uint x32" "num (PU64 x64) = uint x64" "num (PU128 x128) = uint x128"
  "num (PU256 x256) = uint x256"
  by (simp_all add: num_def uint_ucast_up)

lemma num_bounds: "0 \<le> num p" "num p < 2 ^ bitwidth p"
  using unsigned_less [where 'a = int and 'b = 8] unsigned_less [where 'a = int and 'b = 16]
    unsigned_less [where 'a = int and 'b = 32] unsigned_less [where 'a = int and 'b = 64]
    unsigned_less [where 'a = int and 'b = 128] unsigned_less [where 'a = int and 'b = 256]
  by (cases p; simp)+

lemma cmp_uint: "cmp a b = cmp (uint a) (uint b)" for a b :: "'a :: len word"
  by (simp add: cmp_def word_less_def word_uint_eq_iff)

lemma cmp_num: "compare_value_impl p q = Inr ord \<Longrightarrow> ord = cmp (num p) (num q)"
  by (cases p; cases q)
    (simp_all add: compare_value_impl_def cmp_uint, auto simp: cmp_def split: if_splits)

context z3_semantics
begin

lemma resolve_value_num:
  "resolve_value A Z v = Inr i \<Longrightarrow> \<exists>p. extract_primitive_value A v = Inr p \<and> ev i = num p"
  by (auto simp: resolve_value_def ev_from_u64 ev_numeral uint_ucast_up elim!: bindR_InrE
      split: PrimitiveValue.splits)

lemma resolve_operands_num:
  assumes "resolve_operands A Z vl vr (a, b) = Inr (Some (l, r))" "sym_ok A ev a vl" "sym_ok A ev b vr"
  shows "\<exists>p q. extract_primitive_value A vl = Inr p \<and> extract_primitive_value A vr = Inr q
    \<and> ev l = num p \<and> ev r = num q"
  using assms
  by (cases a; cases b)
    (auto simp: resolve_operands_def sym_ok_def split: sum.split_asm elim!: bindR_InrE
      dest!: resolve_value_num)

lemma stack_pair:
  assumes "consistent A ev c st" "sym_pop2 c = Inr ((a, b), c1)"
    "stack_top2 (operand_stack st) = Inr (vl, vr)"
  shows "sym_ok A ev a vl \<and> sym_ok A ev b vr \<and> sym_stack c = sym_stack c1 @ [a, b]"
proof -
  let ?n = "length (sym_stack c)"
  have len: "length (operand_stack st) = ?n"
    using assms(1) by (simp add: consistent_def list_all2_lengthD)
  have n: "2 \<le> ?n" and ab: "a = sym_stack c ! (?n - 2)" "b = sym_stack c ! (?n - 1)"
    and c1: "sym_stack c1 = take (?n - 2) (sym_stack c)"
    using assms(2) by (auto simp: sym_pop2_def Let_def split: if_splits)
  have t: "vl = operand_stack st ! (?n - 2)" "vr = operand_stack st ! (?n - 1)"
    using assms(3) len by (auto simp: stack_top2_def Let_def split: if_splits)
  have "?n - 2 < ?n" "?n - 1 < ?n" using n by simp_all
  then have "sym_ok A ev a vl" "sym_ok A ev b vr"
    using assms(1) unfolding consistent_def ab t by (simp_all add: list_all2_nthD)
  moreover have "sym_stack c = take (?n - 2) (sym_stack c) @ [a, b]"
  proof -
    have "drop (?n - 2) (sym_stack c) = [a, b]"
      using n unfolding ab by (auto simp: list_eq_iff_nth_eq less_Suc_eq numeral_2_eq_2)
    then show ?thesis by (metis append_take_drop_id)
  qed
  ultimately show ?thesis using c1 by simp
qed

lemma con_compare_num:
  assumes "con_compare A Z br (operand_stack st) c = Inr (c', Some p)" "consistent A ev c st"
  shows "\<exists>l r vc. br l r (cmp (ev l) (ev r)) = (vc, p) \<and> last (sym_stack c') = Value (sym_bool Z vc)
    \<and> (\<exists>vl vr x y. stack_top2 (operand_stack st) = Inr (vl, vr)
         \<and> extract_primitive_value A vl = Inr x \<and> extract_primitive_value A vr = Inr y
         \<and> ev l = num x \<and> ev r = num y)"
proof -
  from assms(1) obtain a b c1 vl vr l r ord vc where
    pop: "sym_pop2 c = Inr ((a, b), c1)" and top: "stack_top2 (operand_stack st) = Inr (vl, vr)"
    and ops: "resolve_operands A Z vl vr (a, b) = Inr (Some (l, r))"
    and ord: "compare_value A vl vr = Inr ord" and br: "br l r ord = (vc, p)"
    and c': "c' = sym_push (Value (sym_bool Z vc)) c1"
    by (auto simp: con_compare_def elim!: bindR_InrE split: option.split_asm prod.split_asm)
  obtain x y where xy: "extract_primitive_value A vl = Inr x" "extract_primitive_value A vr = Inr y"
    "ev l = num x" "ev r = num y"
    using resolve_operands_num [OF ops] stack_pair [OF assms(2) pop top] by blast
  have "ord = cmp (ev l) (ev r)"
    using ord xy by (auto simp: compare_value_def dest!: cmp_num)
  then have "br l r (cmp (ev l) (ev r)) = (vc, p)" using br by simp
  moreover have "last (sym_stack c') = Value (sym_bool Z vc)" by (simp add: c' sym_push_def)
  ultimately show ?thesis using xy top by blast
qed

lemma sym_bool_num: "ev (sym_bool Z p) = (if evb p then 1 else 0)"
  by (simp add: sym_bool_def ev_ite ev_from_u64)

lemma cmp_constraint:
  assumes "con_cmp A Z op (operand_stack st) c = Inr (c', Some p)" "consistent A ev c st"
  shows "(op \<noteq> BNeq \<longrightarrow> evb p) \<and> (\<exists>t. last (sym_stack c') = Value t \<and> ev t = 1)"
proof -
  obtain br where br: "con_cmp A Z op = con_compare A Z br"
    and ok: "\<And>l r. (op \<noteq> BNeq \<longrightarrow> evb (snd (br l r (cmp (ev l) (ev r)))))
      \<and> evb (fst (br l r (cmp (ev l) (ev r))))"
  proof (cases op)
    case BEq
    show ?thesis by (rule that [of "\<lambda>l r ord. if ord = Equal then (let eq = z_eq Z l r in (eq, eq))
        else (let neq = z_not Z (z_eq Z l r) in (neq, neq))"])
      (auto simp: BEq con_eq_def cmp_def evb_eq evb_not Let_def split: if_splits)
  next
    case BNeq
    show ?thesis by (rule that [of "\<lambda>l r ord. if ord \<noteq> Equal
        then (let neq = z_not Z (z_eq Z l r) in (neq, neq))
        else (let eq = z_eq Z l r in (eq, z_not Z eq))"])
      (auto simp: BNeq con_neq_def cmp_def evb_eq evb_not Let_def split: if_splits)
  next
    case BLt
    show ?thesis by (rule that [of "\<lambda>l r ord. if ord = Less then (let lt = z_lt Z l r in (lt, lt))
        else (let nlt = z_not Z (z_lt Z l r) in (nlt, nlt))"])
      (auto simp: BLt con_lt_def cmp_def evb_lt evb_not Let_def split: if_splits)
  next
    case BLe
    show ?thesis by (rule that [of "\<lambda>l r ord. if ord \<noteq> Greater then (let le = z_le Z l r in (le, le))
        else (let nle = z_not Z (z_le Z l r) in (nle, nle))"])
      (auto simp: BLe con_le_def cmp_def evb_le evb_not Let_def split: if_splits)
  next
    case BGt
    show ?thesis by (rule that [of "\<lambda>l r ord. if ord = Greater then (let gt = z_gt Z l r in (gt, gt))
        else (let ngt = z_not Z (z_gt Z l r) in (ngt, ngt))"])
      (auto simp: BGt con_gt_def cmp_def evb_gt evb_not Let_def split: if_splits)
  next
    case BGe
    show ?thesis by (rule that [of "\<lambda>l r ord. if ord \<noteq> Less then (let ge = z_ge Z l r in (ge, ge))
        else (let nge = z_not Z (z_ge Z l r) in (nge, nge))"])
      (auto simp: BGe con_ge_def cmp_def evb_ge evb_not Let_def split: if_splits)
  qed
  obtain l r vc where v: "br l r (cmp (ev l) (ev r)) = (vc, p)"
    "last (sym_stack c') = Value (sym_bool Z vc)"
    using con_compare_num [of A br st c c' p] assms br by auto
  show ?thesis using ok [of l r] v by (simp add: sym_bool_num)
qed

lemma binary_operands:
  assumes "consistent A ev c st" "sym_pop2 c = Inr ((a, b), c1)"
    "stack_top2 (operand_stack st) = Inr (vl, vr)"
    "extract_primitive_value A vl = Inr x" "extract_primitive_value A vr = Inr y"
  shows "(a = Unknown \<or> (\<exists>l. a = Value l \<and> ev l = num x)) \<and> (b = Unknown \<or> (\<exists>r. b = Value r \<and> ev r = num y))"
  using stack_pair [OF assms(1-3)] assms(4,5)
  by (cases a; cases b; simp add: sym_ok_def)

lemma operands_num:
  assumes "resolve_operands A Z vl vr (a, b) = Inr (Some (l, r))" "sym_ok A ev a vl" "sym_ok A ev b vr"
    "extract_primitive_value A vl = Inr x" "extract_primitive_value A vr = Inr y"
  shows "ev l = num x \<and> ev r = num y"
  using resolve_operands_num [OF assms(1-3)] assms(4,5) by auto

lemma rest_consistent:
  assumes "consistent A ev c st" "sym_pop2 c = Inr ((a, b), c1)" "sym_ok A ev v tv"
  shows "list_all2 (sym_ok A ev) (sym_stack (sym_push v c1))
    (take (length (operand_stack st) - 2) (operand_stack st) @ [tv])"
proof -
  have "length (operand_stack st) = length (sym_stack c)"
    using assms(1) by (simp add: consistent_def list_all2_lengthD)
  moreover have "sym_stack c1 = take (length (sym_stack c) - 2) (sym_stack c)"
    using assms(2) by (auto simp: sym_pop2_def Let_def split: if_splits)
  ultimately show ?thesis
    using assms(1,3) by (simp add: consistent_def sym_push_def list_all2_appendI list_all2_takeI)
qed

end

section \<open>The virtual machine's binary operations\<close>

text \<open>The value a binary instruction leaves on \<open>w\<close>-bit operands, \<open>None\<close> where it aborts.\<close>

definition in_width :: "nat \<Rightarrow> int \<Rightarrow> int option" where
  "in_width w k = (if 0 \<le> k \<and> k < 2 ^ w then Some k else None)"

fun vm_arith :: "ArithBc \<Rightarrow> nat \<Rightarrow> int \<Rightarrow> int \<Rightarrow> int option" where
  "vm_arith BAdd w a b = in_width w (a + b)"
| "vm_arith BSub w a b = in_width w (a - b)"
| "vm_arith BMul w a b = in_width w (a * b)"
| "vm_arith BDiv w a b = (if b = 0 then None else Some (a div b))"
| "vm_arith BMod w a b = (if b = 0 then None else Some (a mod b))"

fun vm_logic :: "LogicBc \<Rightarrow> int \<Rightarrow> int \<Rightarrow> int" where
  "vm_logic BAnd a b = a AND b"
| "vm_logic BBitAnd a b = a AND b"
| "vm_logic BOr a b = a OR b"
| "vm_logic BBitOr a b = a OR b"
| "vm_logic BXor a b = a XOR b"

definition vm_binary :: "Bytecode \<Rightarrow> nat \<Rightarrow> int \<Rightarrow> int \<Rightarrow> int option" where
  "vm_binary i w a b = (case i of
     BcArith op \<Rightarrow> vm_arith op w a b
   | BcLogic op \<Rightarrow> Some (vm_logic op a b)
   | BcShl \<Rightarrow> if b < int w then Some (take_bit w (a * 2 ^ nat b)) else None
   | BcShr \<Rightarrow> if b < int w then Some (a div 2 ^ nat b) else None
   | _ \<Rightarrow> None)"

lemma take_bit_num: "take_bit (bitwidth p) (num p) = num p"
  using num_bounds [of p] by (simp add: take_bit_int_eq_self)

lemma vm_logic_commute: "vm_logic op a b = vm_logic op b a"
  by (cases op) (simp_all add: and.commute or.commute xor.commute)

lemma shift_amount:
  assumes "num y < int w" "w \<le> 256"
  shows "unat (ucast (as_u256 y) :: u32) = nat (num y)" "nat (num y) < 256"
proof -
  have "num y < 2 ^ 32" using assms by simp
  then have "uint (ucast (as_u256 y) :: u32) = num y"
    using num_bounds(1) [of y] by (simp add: num_def unsigned_ucast_eq take_bit_int_eq_self)
  then show "unat (ucast (as_u256 y) :: u32) = nat (num y)" by (simp add: unat_eq_nat_uint)
  show "nat (num y) < 256" using assms by linarith
qed

lemma bitwidth_le: "bitwidth p \<le> 256"
  by (cases p) simp_all

context z3_semantics
begin

lemma arith_term_num:
  assumes "vm_arith op w (ev l) (ev r) = Some k" "0 \<le> ev r"
  shows "ev (arith_term Z op l r) = k"
  using assms
  by (cases op) (auto simp: in_width_def ev_add ev_sub ev_mul ev_div ev_rem split: if_splits)

lemma logic_term_num:
  assumes "w < 256" "take_bit w (ev l) = ev l" "take_bit w (uint m) = uint m"
  shows "ev (logic_term Z op l m w) = vm_logic op (ev l) (uint m)"
  using assms
  by (cases op) (simp_all add: ev_bvand_const ev_bvor_const ev_bvxor_const)

lemma arith_sim:
  assumes run: "con_arith A Z op (operand_stack st) c = Inr (c', q)" and cons: "consistent A ev c st"
    and top: "stack_top2 (operand_stack st) = Inr (vl, vr)"
    and x: "extract_primitive_value A vl = Inr x" and y: "extract_primitive_value A vr = Inr y"
    and k: "vm_arith op w (num x) (num y) = Some k"
    and z: "extract_primitive_value A vz = Inr z" "num z = k"
  shows "list_all2 (sym_ok A ev) (sym_stack c')
    (take (length (operand_stack st) - 2) (operand_stack st) @ [vz])"
proof -
  from run top obtain a b c1 o2 where pop: "sym_pop2 c = Inr ((a, b), c1)"
    and ops: "resolve_operands A Z vl vr (a, b) = Inr o2"
    and c': "c' = sym_push (case o2 of None \<Rightarrow> Unknown | Some (l, r) \<Rightarrow> Value (arith_term Z op l r)) c1"
    by (auto simp: con_arith_def process_binary_op_def elim!: bindR_InrE split: option.split_asm)
  have ok: "sym_ok A ev a vl" "sym_ok A ev b vr" using stack_pair [OF cons pop top] by simp_all
  have "sym_ok A ev (case o2 of None \<Rightarrow> Unknown | Some (l, r) \<Rightarrow> Value (arith_term Z op l r)) vz"
  proof (cases o2)
    case (Some lr)
    obtain l r where lr: "o2 = Some (l, r)" using Some by (cases lr) simp
    have n: "ev l = num x" "ev r = num y"
      using operands_num [OF _ ok x y] ops lr by simp_all
    show ?thesis
      using arith_term_num [of op w l r k] n k num_bounds(1) [of y] z by (simp add: lr sym_ok_def)
  qed (simp add: sym_ok_def)
  then show ?thesis unfolding c' by (rule rest_consistent [OF cons pop])
qed

lemma logic_sim:
  assumes run: "con_logic A Z op (operand_stack st) c = Inr (c', q)" and cons: "consistent A ev c st"
    and top: "stack_top2 (operand_stack st) = Inr (vl, vr)"
    and x: "extract_primitive_value A vl = Inr x" and y: "extract_primitive_value A vr = Inr y"
    and w: "bitwidth x = bitwidth y" "bitwidth x < 256"
    and z: "extract_primitive_value A vz = Inr z" "num z = vm_logic op (num x) (num y)"
  shows "list_all2 (sym_ok A ev) (sym_stack c')
    (take (length (operand_stack st) - 2) (operand_stack st) @ [vz])"
proof -
  let ?v = "\<lambda>a b. case (a, b) of
           (Value l, Value r) \<Rightarrow> Unknown
         | (Value l, Unknown) \<Rightarrow> Value (logic_term Z op l (as_u256 y) (bitwidth x))
         | (Unknown, Value r) \<Rightarrow> Value (logic_term Z op r (as_u256 x) (bitwidth x))
         | (Unknown, Unknown) \<Rightarrow> Unknown"
  from run top x y obtain a b c1 where pop: "sym_pop2 c = Inr ((a, b), c1)"
    and c': "c' = sym_push (?v a b) c1"
    by (auto simp: con_logic_def value_bitwidth_def value_to_u256_def elim!: bindR_InrE)
  have ok: "a = Unknown \<or> (\<exists>l. a = Value l \<and> ev l = num x)"
      "b = Unknown \<or> (\<exists>r. b = Value r \<and> ev r = num y)"
    using binary_operands [OF cons pop top x y] by simp_all
  have t: "take_bit (bitwidth x) (num x) = num x" "take_bit (bitwidth x) (num y) = num y"
    using take_bit_num [of x] take_bit_num [of y] w by simp_all
  have l: "ev (logic_term Z op i (as_u256 y) (bitwidth x)) = num z" if "ev i = num x" for i
    using logic_term_num [of "bitwidth x" i "as_u256 y" op] that w t z by (simp add: num_def)
  have r: "ev (logic_term Z op i (as_u256 x) (bitwidth x)) = num z" if "ev i = num y" for i
    using logic_term_num [of "bitwidth x" i "as_u256 x" op] that w t z
    by (simp add: num_def vm_logic_commute [of op "uint (as_u256 x)"])
  have "sym_ok A ev (?v a b) vz"
    using ok l r z(1) by (auto simp: sym_ok_def)
  then show ?thesis unfolding c' by (rule rest_consistent [OF cons pop])
qed

end

context z3_semantics
begin

lemma max_u_bits_num:
  assumes "max_u_bits Z (bitwidth x) = Inr m"
  shows "ev m = 2 ^ bitwidth x - 1"
  using assms by (cases x) (auto simp: max_u_bits_def ev_from_u64 ev_numeral)

lemma shl_sim:
  assumes run: "con_shl A Z (operand_stack st) c = Inr (c', q)" and cons: "consistent A ev c st"
    and top: "stack_top2 (operand_stack st) = Inr (vl, vr)"
    and x: "extract_primitive_value A vl = Inr x" and y: "extract_primitive_value A vr = Inr y"
    and w: "num y < int (bitwidth x)" "bitwidth x < 256"
  shows "(\<forall>vz z. extract_primitive_value A vz = Inr z
      \<longrightarrow> num z = take_bit (bitwidth x) (num x * 2 ^ nat (num y))
      \<longrightarrow> list_all2 (sym_ok A ev) (sym_stack c')
            (take (length (operand_stack st) - 2) (operand_stack st) @ [vz]))
    \<and> (\<forall>p. q = Some p \<longrightarrow> (evb p \<longleftrightarrow> 2 ^ bitwidth x \<le> num x * 2 ^ nat (num y)))"
proof -
  let ?t = "\<lambda>l. z_mul Z l (int_two_pow Z (nat (num y)))"
  let ?v = "\<lambda>a b. case (a, b) of
           (Value l, Unknown) \<Rightarrow> Value (z_modulo Z (?t l) (int_two_pow Z (bitwidth x)))
         | _ \<Rightarrow> Unknown"
  note sh = shift_amount [OF w(1) bitwidth_le]
  from run top x y obtain a b c1 m where pop: "sym_pop2 c = Inr ((a, b), c1)"
    and m: "max_u_bits Z (bitwidth x) = Inr m"
    and c': "c' = sym_push (?v a b) c1"
    and q: "q = (case (a, b) of (Value l, Unknown) \<Rightarrow> Some (z_gt Z (?t l) m) | _ \<Rightarrow> None)"
    by (auto simp: con_shl_def value_bitwidth_def value_to_u256_def Let_def sh elim!: bindR_InrE
        split: SymbolValue.split_asm)
  have ok: "a = Unknown \<or> (\<exists>l. a = Value l \<and> ev l = num x)"
    using binary_operands [OF cons pop top x y] by simp
  have t: "ev (?t l) = num x * 2 ^ nat (num y)" if "ev l = num x" for l
    using that sh(2) by (simp add: ev_mul ev_two_pow)
  have "sym_ok A ev (?v a b) vz" if "extract_primitive_value A vz = Inr z"
      "num z = take_bit (bitwidth x) (num x * 2 ^ nat (num y))" for vz z
    using ok that w t by (cases b) (auto simp: sym_ok_def ev_modulo ev_two_pow take_bit_eq_mod)
  moreover have "evb p \<longleftrightarrow> 2 ^ bitwidth x \<le> num x * 2 ^ nat (num y)" if "q = Some p" for p
    using that q ok t max_u_bits_num [OF m] by (cases b) (auto simp: evb_gt)
  ultimately show ?thesis unfolding c' using rest_consistent [OF cons pop] by blast
qed

lemma shr_sim:
  assumes run: "con_shr A Z (operand_stack st) c = Inr (c', q)" and cons: "consistent A ev c st"
    and top: "stack_top2 (operand_stack st) = Inr (vl, vr)"
    and x: "extract_primitive_value A vl = Inr x" and y: "extract_primitive_value A vr = Inr y"
    and w: "num y < int (bitwidth x)"
    and z: "extract_primitive_value A vz = Inr z" "num z = num x div 2 ^ nat (num y)"
  shows "list_all2 (sym_ok A ev) (sym_stack c')
      (take (length (operand_stack st) - 2) (operand_stack st) @ [vz])"
proof -
  let ?v = "\<lambda>a b. case (a, b) of
           (Value l, Unknown) \<Rightarrow> Value (z_div Z l (int_two_pow Z (nat (num y))))
         | _ \<Rightarrow> Unknown"
  note sh = shift_amount [OF w(1) bitwidth_le]
  from run top x y obtain a b c1 where pop: "sym_pop2 c = Inr ((a, b), c1)"
    and c': "c' = sym_push (?v a b) c1"
    by (auto simp: con_shr_def value_to_u256_def Let_def sh elim!: bindR_InrE
        split: SymbolValue.split_asm)
  have ok: "a = Unknown \<or> (\<exists>l. a = Value l \<and> ev l = num x)"
    using binary_operands [OF cons pop top x y] by simp
  have "sym_ok A ev (?v a b) vz"
    using ok z sh(2) by (cases b) (auto simp: sym_ok_def ev_div ev_two_pow)
  then show ?thesis unfolding c' by (rule rest_consistent [OF cons pop])
qed

lemmas shl_constraint = shl_sim [THEN conjunct2, rule_format]

lemma cast_constraint:
  assumes "con_cast Z n c = Inr (c', Some p)" "n \<in> {8, 16, 32, 64, 128}" "consistent A ev c st"
    and "stack_top1 (operand_stack st) = Inr vt" "extract_primitive_value A vt = Inr x"
  shows "evb p \<longleftrightarrow> num x < 2 ^ n"
proof -
  from assms(1) obtain i m where i: "sym_stack c \<noteq> []" "last (sym_stack c) = Value i"
    and m: "max_u_bits Z n = Inr m" and p: "p = z_le Z i m"
    by (auto simp: con_cast_def elim!: bindR_InrE split: if_splits SymbolValue.split_asm)
  have "list_all2 (sym_ok A ev) (sym_stack c) (operand_stack st)"
    using assms(3) by (simp add: consistent_def)
  then have "sym_ok A ev (last (sym_stack c)) (last (operand_stack st))"
    using i(1) by (metis last_conv_nth length_greater_0_conv diff_less list_all2_lengthD
        list_all2_nthD zero_less_one list.rel_distinct(2))
  then have "ev i = num x"
    using assms(4,5) i by (auto simp: stack_top1_def sym_ok_def last_conv_nth split: if_splits)
  moreover have "ev m = 2 ^ n - 1"
    using m assms(2) by (auto simp: max_u_bits_def ev_from_u64 ev_numeral)
  ultimately show ?thesis by (auto simp: p evb_le)
qed

end

section \<open>Properties\<close>

lemma instruction_enabled:
  assumes "on_before_instruction_inner A Z b st extra c = Inr (c', r)" "\<not> disable c'"
  shows "length (sym_stack c) = length (operand_stack st) \<and> \<not> disable c"
  using assms by (auto simp: on_before_instruction_inner_def Let_def split: if_splits)

lemma cmp_instruction:
  assumes "on_before_instruction_inner A Z (BcCmp op) st extra c = Inr (c', Some p)"
  shows "con_cmp A Z op (operand_stack st) c = Inr (c', Some p)"
  using assms by (auto simp: on_before_instruction_inner_def Let_def split: if_splits)

text \<open>
  The symbolic stack keeps the height of the VM's operand stack: unless it disables itself,
  \<open>on_before_instruction_inner\<close> pops and pushes as many entries as the instruction does.
\<close>
theorem symbolic_stack_height:
  assumes "on_before_instruction_inner A Z b st extra c = Inr (c', r)" "\<not> disable c'"
    and "fst (vm_effect b extra) \<le> length (operand_stack st)"
    and "length (operand_stack st') =
      length (operand_stack st) - fst (vm_effect b extra) + snd (vm_effect b extra)"
  shows "length (sym_stack c') = length (operand_stack st')"
  using on_before_instruction_length [OF assms(1,2)] instruction_enabled [OF assms(1,2)] assms(3,4)
  by simp


text \<open>
  The term pushed for the result of a comparison has the value 1 on the run that produced it,
  whatever the comparison gave: a comparison that is false leaves a symbolic 1 beside a concrete 0.
\<close>
theorem comparison_result_is_one:
  assumes "z3_semantics Z ev evb" "consistent A ev c st"
    and "on_before_instruction_inner A Z (BcCmp op) st extra c = Inr (c', Some p)"
  shows "\<exists>t. last (sym_stack c') = Value t \<and> ev t = 1"
  using z3_semantics.cmp_constraint [OF assms(1) cmp_instruction [OF assms(3)] assms(2)] by simp

text \<open>
  C8: arithmetic, bitwise and shift instructions keep the symbolic stack in agreement with the
  concrete one: if every known symbol has its concrete value before the instruction and the
  instruction does not abort, this holds after it. Arithmetic and \<open>Shr\<close> are covered at every
  width, \<open>u256\<close> included; \<open>BitOr\<close>, \<open>BitAnd\<close>, \<open>Xor\<close> and \<open>Shl\<close> at the widths below 256 only, because
  their terms take the operand modulo \<open>int_two_pow\<close> of the width, and one shifted by 256 is zero.
\<close>
theorem binary_simulation:
  assumes "z3_semantics Z ev evb" "consistent A ev c st"
    and "on_before_instruction_inner A Z i st extra c = Inr (c', q)" "\<not> disable c'"
    and "stack_top2 (operand_stack st) = Inr (vl, vr)"
    and "extract_primitive_value A vl = Inr x" "extract_primitive_value A vr = Inr y"
    and "i \<in> range BcLogic \<union> {BcShl} \<longrightarrow> bitwidth x < 256"
    and "i \<notin> {BcShl, BcShr} \<longrightarrow> bitwidth x = bitwidth y"
    and "vm_binary i (bitwidth x) (num x) (num y) = Some (num z)"
    and "extract_primitive_value A vz = Inr z"
    and "operand_stack st' = take (length (operand_stack st) - 2) (operand_stack st) @ [vz]"
  shows "consistent A ev c' st'"
proof -
  note ev = assms(1)
  have run: "on_before_instruction_inner A Z i st extra c = Inr (c', q)" "\<not> disable c"
      "length (sym_stack c) = length (operand_stack st)"
    using assms(3) instruction_enabled [OF assms(3,4)] by simp_all
  note step = run [unfolded on_before_instruction_inner_def]
  show ?thesis
    using assms(10) step z3_semantics.arith_sim [OF ev _ assms(2,5,6,7) _ assms(11)]
      z3_semantics.logic_sim [OF ev _ assms(2,5,6,7) _ _ assms(11)]
      z3_semantics.shl_sim [OF ev _ assms(2,5,6,7), THEN conjunct1, rule_format, OF _ _ _ assms(11)]
      z3_semantics.shr_sim [OF ev _ assms(2,5,6,7) _ assms(11)] assms(8,9,12)
    by (cases i) (auto simp: vm_binary_def consistent_def Let_def split: if_splits)
qed

text \<open>
  The constraint returned for \<open>Shl\<close> holds exactly when the shift loses bits, and the one
  returned for a cast exactly when the operand fits the target type.
\<close>
theorem overflow_constraints:
  assumes "z3_semantics Z ev evb" "consistent A ev c st"
    and "on_before_instruction_inner A Z i st extra c = Inr (c', Some p)" "\<not> disable c'"
    and "i = BcShl \<and> stack_top2 (operand_stack st) = Inr (vl, vr) \<and> extract_primitive_value A vl = Inr x
           \<and> extract_primitive_value A vr = Inr y \<and> num y < int (bitwidth x) \<and> bitwidth x < 256
         \<or> i = BcCast ty \<and> stack_top1 (operand_stack st) = Inr vt \<and> extract_primitive_value A vt = Inr x"
  shows "evb p \<longleftrightarrow> (if i = BcShl then 2 ^ bitwidth x \<le> num x * 2 ^ nat (num y)
                    else \<exists>n. cast_bits ty = Some n \<and> num x < 2 ^ n)"
proof -
  note ev = assms(1)
  have run: "on_before_instruction_inner A Z i st extra c = Inr (c', Some p)" "\<not> disable c"
      "length (sym_stack c) = length (operand_stack st)"
    using assms(3) instruction_enabled [OF assms(3,4)] by simp_all
  note step = run [unfolded on_before_instruction_inner_def Let_def]
  from assms(5) show ?thesis
  proof (elim disjE conjE)
    assume shl: "i = BcShl" "stack_top2 (operand_stack st) = Inr (vl, vr)"
      "extract_primitive_value A vl = Inr x" "extract_primitive_value A vr = Inr y"
      "num y < int (bitwidth x)" "bitwidth x < 256"
    have "con_shl A Z (operand_stack st) c = Inr (c', Some p)" using step shl(1) by simp
    from z3_semantics.shl_constraint [OF ev this assms(2) shl(2-) refl] shl(1) show ?thesis by simp
  next
    assume cast: "i = BcCast ty" "stack_top1 (operand_stack st) = Inr vt"
      "extract_primitive_value A vt = Inr x"
    obtain n where n: "cast_bits ty = Some n" "con_cast Z n c = Inr (c', Some p)"
      using step cast(1) by (auto split: option.split_asm)
    from z3_semantics.cast_constraint [OF ev n(2) _ assms(2) cast(2,3)] n(1) cast(1) show ?thesis
      by (auto elim!: cast_bits.elims)
  qed
qed

section \<open>A run of the concolic machine\<close>

definition demo_state :: "TraceValue list \<Rightarrow> TraceState" where
  "demo_state vs = \<lparr>loaded_state = [], operand_stack = vs, call_stack = []\<rparr>"

definition demo_sym :: "(assignment \<Rightarrow> int) ConcolicState" where
  "demo_sym = \<lparr>sym_stack = [Value (\<lambda>\<rho>. \<rho> ''0.0''), Unknown], sym_locals = [], sym_args = [],
     disable = False\<rparr>"

lemmas demo_defs = demo_state_def demo_sym_def on_before_instruction_inner_def con_cmp_defs
  con_compare_def con_arith_def con_shl_def process_binary_op_def sym_pop2_def stack_top2_def
  resolve_operands_def resolve_value_def compare_value_def compare_value_impl_def
  extract_primitive_value_def runtime_api_def cmp_def sym_push_def max_u_bits_def
  value_bitwidth_def value_to_u256_def consistent_def sym_ok_def vm_effect_def Let_def

theorem symbolic_stack_height_witness:
  "length (sym_stack (demo_sym\<lparr>sym_stack := []\<rparr>)) = length (operand_stack (demo_state []))"
  by (rule symbolic_stack_height [of runtime_api den_api BcWriteRef
        "demo_state [RuntimeValue (SU8 200), RuntimeValue (SU8 3)]" None demo_sym _ None])
    (simp_all add: demo_defs pops_def)


theorem comparison_result_is_one_witness:
  "\<exists>t. last (sym_stack (sym_push (Value (sym_bool den_api (\<lambda>\<rho>. \<not> \<rho> ''0.0'' < 3)))
      (demo_sym\<lparr>sym_stack := []\<rparr>))) = Value t \<and> t (\<lambda>_. 200) = 1"
  by (rule comparison_result_is_one [OF den_semantics, of runtime_api _ demo_sym
      "demo_state [RuntimeValue (SU8 200), RuntimeValue (SU8 3)]" BLt None _ "\<lambda>\<rho>. \<not> \<rho> ''0.0'' < 3"])
    (simp_all add: demo_defs den_api_def)

theorem binary_simulation_witness:
  "on_before_instruction_inner runtime_api den_api (BcArith BAdd)
     (demo_state [RuntimeValue (SU8 200), RuntimeValue (SU8 3)]) None demo_sym
     = Inr (demo_sym\<lparr>sym_stack := [Value (\<lambda>\<rho>. \<rho> ''0.0'' + 3)]\<rparr>, None)
   \<and> consistent runtime_api (\<lambda>t. t (\<lambda>_. 200))
     (demo_sym\<lparr>sym_stack := [Value (\<lambda>\<rho>. \<rho> ''0.0'' + 3)]\<rparr>) (demo_state [RuntimeValue (SU8 203)])"
proof
  show run: "on_before_instruction_inner runtime_api den_api (BcArith BAdd)
      (demo_state [RuntimeValue (SU8 200), RuntimeValue (SU8 3)]) None demo_sym
      = Inr (demo_sym\<lparr>sym_stack := [Value (\<lambda>\<rho>. \<rho> ''0.0'' + 3)]\<rparr>, None)"
    by (simp add: demo_defs den_api_def)
  show "consistent runtime_api (\<lambda>t. t (\<lambda>_. 200))
      (demo_sym\<lparr>sym_stack := [Value (\<lambda>\<rho>. \<rho> ''0.0'' + 3)]\<rparr>) (demo_state [RuntimeValue (SU8 203)])"
    by (rule binary_simulation [OF den_semantics _ run, of _ "RuntimeValue (SU8 200)"
          "RuntimeValue (SU8 3)" "PU8 200" "PU8 3" "PU8 203"])
      (simp_all add: demo_defs den_api_def vm_binary_def in_width_def)
qed

text \<open>The shift of 200 by three places loses bits, and its constraint says so.\<close>
theorem overflow_constraints_witness:
  "\<exists>c' p. on_before_instruction_inner runtime_api den_api BcShl
       (demo_state [RuntimeValue (SU8 200), RuntimeValue (SU8 3)]) None demo_sym = Inr (c', Some p)
     \<and> (p (\<lambda>_. 200) \<longleftrightarrow> (2 :: int) ^ 8 \<le> 200 * 2 ^ 3)"
proof (intro exI conjI)
  show run: "on_before_instruction_inner runtime_api den_api BcShl
      (demo_state [RuntimeValue (SU8 200), RuntimeValue (SU8 3)]) None demo_sym
      = Inr (demo_sym\<lparr>sym_stack := [Value (\<lambda>\<rho>. (\<rho> ''0.0'' * 8) mod 256)]\<rparr>,
          Some (\<lambda>\<rho>. \<rho> ''0.0'' * 8 > 255))"
    by (simp add: demo_defs den_api_def int_two_pow_def)
  show "(\<lambda>\<rho> :: assignment. \<rho> ''0.0'' * 8 > 255) (\<lambda>_. 200) \<longleftrightarrow> (2 :: int) ^ 8 \<le> 200 * 2 ^ 3"
    using overflow_constraints [OF den_semantics [of "\<lambda>_. 200"] _ run, of
        "RuntimeValue (SU8 200)" "RuntimeValue (SU8 3)" "PU8 200" "PU8 3"]
    by (simp add: demo_defs den_api_def int_two_pow_def)
qed

end
