(* ===== verification/Oracles.thy ===== *)
theory Oracles
  imports Concolic
begin

text \<open>
  \<open>movy-replay/src/tracer/oracle.rs\<close>, \<open>movy-types/src/oracle.rs\<close> and
  \<open>movy-fuzz/src/oracles/sui\<close>: the oracle interface with its unit, pair and switch combinators,
  and the seven oracles of the fuzzer. An oracle is a record of hooks on its own state; the solver's
  syntax trees, the object store and the standard hasher are parameters. The \<open>extra\<close> of a finding
  is the JSON value that the source builds, with serialized structures kept as they are.
\<close>

section \<open>Findings\<close>

datatype Severity = Discussion | Informational | Minor | Medium | Major | Critical

fun severity_to_string :: "Severity \<Rightarrow> string" where
  "severity_to_string Discussion = ''Discussion''"
| "severity_to_string Informational = ''Informational''"
| "severity_to_string Minor = ''Minor''"
| "severity_to_string Medium = ''Medium''"
| "severity_to_string Major = ''Major''"
| "severity_to_string Critical = ''Critical''"

record Event =
  event_ty :: MoveStructTag
  event_contents :: "u8 list"

record ('own, 'ty) BalanceChange =
  bc_owner :: 'own
  bc_coin_type :: 'ty
  bc_amount :: int

datatype ('own, 'ty) Json =
    JString string
  | JNumber int
  | JArray "('own, 'ty) Json list"
  | JObject "(string \<times> ('own, 'ty) Json) list"
  | JEvent Event
  | JBalanceChanges "('own, 'ty) BalanceChange list"

record ('own, 'ty) OracleFinding =
  finding_oracle :: string
  severity :: Severity
  extra :: "('own, 'ty) Json"

definition located_finding ::
  "(MoveAddress \<Rightarrow> string) \<Rightarrow> string \<Rightarrow> Severity \<Rightarrow> FunctionIdent \<Rightarrow> u16
     \<Rightarrow> ('own, 'ty) OracleFinding" where
  "located_finding print name sev current_function pc =
     \<lparr>finding_oracle = name, severity = sev,
      extra = JObject [(''oracle'', JString name),
        (''function'', JString (FunctionIdent_to_string print current_function)),
        (''pc'', JNumber (uint pc))]\<rparr>"

section \<open>The interface\<close>

text \<open>\<open>'o\<close> is the oracle's own state, \<open>'i\<close> the solver's terms, \<open>'s\<close> the fuzzing state, \<open>'db\<close> the
  object store and \<open>'fx\<close> the transaction effects.\<close>

type_synonym ('o, 's, 'f) hook_result = "('o \<times> 's \<times> 'f list) res"

record ('o, 'i, 's, 'db, 'fx, 'f) SuiGeneralOracle =
  pre_execution :: "'db \<Rightarrow> MoveSequence \<Rightarrow> 'o \<Rightarrow> 's \<Rightarrow> ('o \<times> 's) res"
  o_open_frame :: "Frame \<Rightarrow> TraceState \<Rightarrow> 'i ConcolicState \<Rightarrow> FunctionIdent \<Rightarrow> 'o \<Rightarrow> 's
     \<Rightarrow> ('o, 's, 'f) hook_result"
  o_before_instruction :: "u16 \<Rightarrow> Bytecode \<Rightarrow> TraceState \<Rightarrow> 'i ConcolicState \<Rightarrow> FunctionIdent \<Rightarrow> 'o
     \<Rightarrow> 's \<Rightarrow> ('o, 's, 'f) hook_result"
  done_execution :: "'db \<Rightarrow> 'fx \<Rightarrow> 'o \<Rightarrow> 's \<Rightarrow> ('o, 's, 'f) hook_result"

definition no_findings :: "'o \<Rightarrow> 's \<Rightarrow> ('o, 's, 'f) hook_result" where
  "no_findings o1 s = Inr (o1, s, [])"

definition default_oracle :: "('o, 'i, 's, 'db, 'fx, 'f) SuiGeneralOracle" where
  "default_oracle = \<lparr>pre_execution = \<lambda>_ _ o1 s. Inr (o1, s), o_open_frame = \<lambda>_ _ _ _. no_findings,
     o_before_instruction = \<lambda>_ _ _ _ _. no_findings, done_execution = \<lambda>_ _. no_findings\<rparr>"

definition unit_oracle :: "(unit, 'i, 's, 'db, 'fx, 'f) SuiGeneralOracle" where
  "unit_oracle = default_oracle"

definition both_hooks ::
  "('a \<Rightarrow> 's \<Rightarrow> ('a, 's, 'f) hook_result) \<Rightarrow> ('b \<Rightarrow> 's \<Rightarrow> ('b, 's, 'f) hook_result)
     \<Rightarrow> 'a \<times> 'b \<Rightarrow> 's \<Rightarrow> ('a \<times> 'b, 's, 'f) hook_result" where
  "both_hooks h0 h1 ab s =
     bindR (h0 (fst ab) s) (\<lambda>(a, s, fs0).
     bindR (h1 (snd ab) s) (\<lambda>(b, s, fs1). Inr ((a, b), s, fs0 @ fs1)))"

definition pair_oracle ::
  "('a, 'i, 's, 'db, 'fx, 'f) SuiGeneralOracle \<Rightarrow> ('b, 'i, 's, 'db, 'fx, 'f) SuiGeneralOracle
     \<Rightarrow> ('a \<times> 'b, 'i, 's, 'db, 'fx, 'f) SuiGeneralOracle" where
  "pair_oracle O0 O1 = \<lparr>
     pre_execution = \<lambda>db sequence ab s.
       bindR (pre_execution O0 db sequence (fst ab) s) (\<lambda>(a, s).
       bindR (pre_execution O1 db sequence (snd ab) s) (\<lambda>(b, s). Inr ((a, b), s))),
     o_open_frame = \<lambda>frame st sym f. both_hooks (o_open_frame O0 frame st sym f)
       (o_open_frame O1 frame st sym f),
     o_before_instruction = \<lambda>pc bc st sym f. both_hooks (o_before_instruction O0 pc bc st sym f)
       (o_before_instruction O1 pc bc st sym f),
     done_execution = \<lambda>db fx. both_hooks (done_execution O0 db fx) (done_execution O1 db fx)\<rparr>"

text \<open>\<open>CouldDisabledOralce\<close>; the flag never changes after \<open>new\<close>.\<close>

definition could_disabled ::
  "bool \<Rightarrow> ('o, 'i, 's, 'db, 'fx, 'f) SuiGeneralOracle \<Rightarrow> ('o, 'i, 's, 'db, 'fx, 'f) SuiGeneralOracle"
  where
  "could_disabled disabled Orc = \<lparr>
     pre_execution = \<lambda>db sequence o1 s.
       if disabled then Inr (o1, s) else pre_execution Orc db sequence o1 s,
     o_open_frame = \<lambda>frame st sym f o1 s.
       if disabled then no_findings o1 s else o_open_frame Orc frame st sym f o1 s,
     o_before_instruction = \<lambda>pc bc st sym f o1 s.
       if disabled then no_findings o1 s else o_before_instruction Orc pc bc st sym f o1 s,
     done_execution = \<lambda>db fx o1 s.
       if disabled then no_findings o1 s else done_execution Orc db fx o1 s\<rparr>"

section \<open>Overflow and type conversion\<close>

text \<open>\<open>U256::leading_zeros\<close>, counted from bit \<open>n\<close> downwards.\<close>

fun leading_zeros_from :: "nat \<Rightarrow> u256 \<Rightarrow> nat" where
  "leading_zeros_from 0 u = 0"
| "leading_zeros_from (Suc n) u = (if bit u n then 0 else Suc (leading_zeros_from n u))"

definition value_sig_bits :: "TraceApi \<Rightarrow> TraceValue \<Rightarrow> nat res" where
  "value_sig_bits A v =
     bindR (value_to_u256 A v) (\<lambda>u. Inr (if u = 0 then 0 else 256 - leading_zeros_from 256 u))"

definition overflow_check :: "TraceApi \<Rightarrow> TraceValue list \<Rightarrow> bool res" where
  "overflow_check A stack =
     (let lhs = stack ! (length stack - 2); rhs = stack ! (length stack - 1) in
      bindR (value_bitwidth A lhs) (\<lambda>lhs_width_bits.
      bindR (value_sig_bits A lhs) (\<lambda>lhs_sig_bits.
      bindR (value_to_u256 A rhs) (\<lambda>rhs_bits.
        Inr (if rhs_bits \<ge> of_nat lhs_width_bits then True
             else let shift = unat (ucast rhs_bits :: u32) in
               lhs_sig_bits + shift > lhs_width_bits)))))"

definition OverflowOracle ::
  "TraceApi \<Rightarrow> (MoveAddress \<Rightarrow> string) \<Rightarrow> (unit, 'i, 's, 'db, 'fx, ('own, 'ty) OracleFinding) SuiGeneralOracle"
  where
  "OverflowOracle A print = default_oracle\<lparr>
     o_before_instruction := \<lambda>pc instruction trace_state _ current_function o1 s.
       if instruction \<noteq> BcShl then no_findings o1 s
       else let stack = operand_stack trace_state in
         if length stack < 2 then no_findings o1 s
         else bindR (overflow_check A stack) (\<lambda>overflow.
           if overflow
           then Inr (o1, s, [located_finding print ''OverflowOracle'' Medium current_function pc])
           else no_findings o1 s)\<rparr>"

fun cast_width :: "IntTy \<Rightarrow> nat" where
  "cast_width I8 = 8"
| "cast_width I16 = 16"
| "cast_width I32 = 32"
| "cast_width I64 = 64"
| "cast_width I128 = 128"
| "cast_width I256 = 256"

definition TypeConversionOracle ::
  "TraceApi \<Rightarrow> (MoveAddress \<Rightarrow> string) \<Rightarrow> (unit, 'i, 's, 'db, 'fx, ('own, 'ty) OracleFinding) SuiGeneralOracle"
  where
  "TypeConversionOracle A print = default_oracle\<lparr>
     o_before_instruction := \<lambda>pc instruction trace_state _ current_function o1 s.
       let stack = operand_stack trace_state in
       if stack = [] then no_findings o1 s
       else let val = stack ! (length stack - 1) in
         bindR (case instruction of
             BcCast ty \<Rightarrow> bindR (value_bitwidth A val) (\<lambda>w. Inr (w = cast_width ty))
           | _ \<Rightarrow> Inr False) (\<lambda>unnecessary.
           if unnecessary
           then Inr (o1, s, [located_finding print ''TypeConversionOracle'' Minor current_function pc])
           else no_findings o1 s)\<rparr>"

section \<open>Infinite loops\<close>

type_synonym branch_counts = "(u64, (u16, u64 \<times> nat) btree) btree"

text \<open>The standard hasher, the text of a term, and the text of a frame's \<open>ModuleId\<close>, which is not the
  \<open>MoveModuleId\<close> of the current function.\<close>

record 'i LoopApi =
  hash_to_u64 :: "string \<Rightarrow> u64"
  int_to_string :: "'i \<Rightarrow> string"
  frame_module_text :: "MoveModuleId \<Rightarrow> string"

definition function_key :: "'i LoopApi \<Rightarrow> string \<Rightarrow> string \<Rightarrow> u64" where
  "function_key H m f = hash_to_u64 H (m @ ''::'' @ f)"

definition or_default :: "'v \<Rightarrow> 'v option \<Rightarrow> 'v" where
  "or_default d x = (case x of None \<Rightarrow> d | Some v \<Rightarrow> v)"

lemma or_default_simps [simp]: "or_default d None = d" "or_default d (Some v) = v"
  by (simp_all add: or_default_def)

text \<open>One visit of a branch: the updated counter, and whether it reports.\<close>

definition visit_branch :: "u64 \<Rightarrow> u64 \<times> nat \<Rightarrow> (u64 \<times> nat) \<times> bool" where
  "visit_branch v count =
     (if fst count \<noteq> v then ((v, 1), False)
      else if snd count \<ge> 1000 then ((fst count, 0), True)
      else ((fst count, snd count + 1), False))"

definition count_branch :: "u64 \<Rightarrow> u16 \<Rightarrow> u64 \<Rightarrow> branch_counts \<Rightarrow> branch_counts \<times> bool" where
  "count_branch key pc v branch_counts =
     (let per_function = or_default [] (bt_get branch_counts key);
          count = or_default (0, 0) (bt_get per_function pc)
      in case visit_branch v count of (count, report) \<Rightarrow>
           (bt_insert key (bt_insert pc count per_function) branch_counts, report))"

definition is_branch :: "Bytecode \<Rightarrow> bool" where
  "is_branch b = (case b of BcBrFalse _ \<Rightarrow> True | BcBrTrue _ \<Rightarrow> True | _ \<Rightarrow> False)"

definition InfiniteLoopOracle ::
  "'i LoopApi \<Rightarrow> (MoveAddress \<Rightarrow> string)
     \<Rightarrow> (branch_counts, 'i, 's, 'db, 'fx, ('own, 'ty) OracleFinding) SuiGeneralOracle" where
  "InfiniteLoopOracle H print = default_oracle\<lparr>
     o_open_frame := \<lambda>frame _ _ _ counts s.
       Inr (bt_remove (function_key H (frame_module_text H (frame_module frame)) (function_name frame)) counts, s, []),
     o_before_instruction := \<lambda>pc instruction _ symbol_stack current_function counts s.
       if \<not> is_branch instruction \<or> sym_stack symbol_stack = [] then no_findings counts s
       else case last (sym_stack symbol_stack) of
         Unknown \<Rightarrow> no_findings counts s
       | Value v \<Rightarrow>
           (case count_branch
               (function_key H (MoveModuleId_to_string print (ident_module current_function))
                 (ident_function current_function)) pc
               (hash_to_u64 H (int_to_string H v)) counts of
              (counts, report) \<Rightarrow>
                Inr (counts, s, if report
                  then [located_finding print ''InfiniteLoopOracle'' Major current_function pc]
                  else []))\<rparr>"

section \<open>Searches of a term\<close>

text \<open>The solver's syntax trees: \<open>is_const\<close>, the kind of a node's declaration, if it has one, and
  its children.\<close>

datatype DeclKind = KUninterpreted | KDiv | KIdiv | KOther

record 'i Ast =
  node_is_const :: "'i \<Rightarrow> bool"
  node_decl :: "'i \<Rightarrow> DeclKind option"
  node_children :: "'i \<Rightarrow> 'i list"

text \<open>The loops below pop the last node and push its children, and stop after 10000 nodes: the
  first argument counts the nodes that may still be visited.\<close>

fun has_variable_loop :: "'i Ast \<Rightarrow> nat \<Rightarrow> 'i list \<Rightarrow> bool option" where
  "has_variable_loop T n stack =
     (if stack = [] then Some False
      else case n of
        0 \<Rightarrow> None
      | Suc n' \<Rightarrow>
          (let node = last stack in
           if node_is_const T node \<and> node_decl T node = Some KUninterpreted then Some True
           else has_variable_loop T n' (butlast stack @ node_children T node)))"

definition int_has_variable :: "'i Ast \<Rightarrow> 'i \<Rightarrow> bool option" where
  "int_has_variable T expr = has_variable_loop T 10000 [expr]"

fun contains_division_loop :: "'i Ast \<Rightarrow> nat \<Rightarrow> 'i list \<Rightarrow> bool" where
  "contains_division_loop T n stack =
     (if stack = [] then False
      else case n of
        0 \<Rightarrow> False
      | Suc n' \<Rightarrow>
          (let node = last stack in
           if node_decl T node \<in> {Some KDiv, Some KIdiv} then True
           else contains_division_loop T n' (butlast stack @ node_children T node)))"

definition contains_division :: "'i Ast \<Rightarrow> 'i \<Rightarrow> bool" where
  "contains_division T expr = contains_division_loop T 10000 [expr]"

declare has_variable_loop.simps [simp del] contains_division_loop.simps [simp del]

definition format_vulnerability_info ::
  "(MoveAddress \<Rightarrow> string) \<Rightarrow> string \<Rightarrow> (MoveModuleId \<times> string) option \<Rightarrow> u16 option \<Rightarrow> string" where
  "format_vulnerability_info print base current_function pc =
     join '' | '' (base #
       (case current_function of None \<Rightarrow> []
        | Some (module_id, f) \<Rightarrow>
            [''location='' @ print (module_address module_id) @ ''::'' @ mod_name module_id @ ''::'' @ f])
       @ (case pc of None \<Rightarrow> [] | Some pc \<Rightarrow> [''pc='' @ dec (unat pc)]))"

text \<open>\<open>Identifier::new\<close> accepts the names \<open>valid_ident\<close>.\<close>

definition to_module_func :: "(string \<Rightarrow> bool) \<Rightarrow> FunctionIdent \<Rightarrow> (MoveModuleId \<times> string) option" where
  "to_module_func valid_ident fid =
     (if valid_ident (mod_name (ident_module fid))
      then Some (ident_module fid, ident_function fid) else None)"

definition is_comparison :: "Bytecode \<Rightarrow> bool" where
  "is_comparison b = (case b of BcCmp _ \<Rightarrow> True | _ \<Rightarrow> False)"

definition BoolJudgementOracle ::
  "'i Ast \<Rightarrow> (string \<Rightarrow> bool) \<Rightarrow> (MoveAddress \<Rightarrow> string)
     \<Rightarrow> (unit, 'i, 's, 'db, 'fx, ('own, 'ty) OracleFinding) SuiGeneralOracle" where
  "BoolJudgementOracle T valid_ident print = default_oracle\<lparr>
     o_before_instruction := \<lambda>pc instruction _ symbol_stack current_function o1 s.
       let stack_syms = sym_stack symbol_stack;
           current = to_module_func valid_ident current_function;
           stack_len = length stack_syms;
           loss = is_comparison instruction \<and> stack_len \<ge> 2 \<and>
             (case (stack_syms ! (stack_len - 2), stack_syms ! (stack_len - 1)) of
                (Value l, Value r) \<Rightarrow>
                  int_has_variable T l = Some False \<and> int_has_variable T r = Some False
              | _ \<Rightarrow> False)
       in if loss
          then Inr (o1, s, [\<lparr>finding_oracle = ''BoolJudgementOracle'', severity = Minor,
            extra = JString (format_vulnerability_info print
              ''Unnecessary bool judgement (two constants)'' current (Some pc))\<rparr>])
          else no_findings o1 s\<rparr>"

definition precision_loss :: "'i Ast \<Rightarrow> 'i SymbolValue list \<Rightarrow> bool" where
  "precision_loss T stack =
     (let stack_len = length stack in
      stack_len \<ge> 2 \<and>
      (case (stack ! (stack_len - 2), stack ! (stack_len - 1)) of
         (Value l, _) \<Rightarrow> contains_division T l
       | (_, Value r) \<Rightarrow> contains_division T r
       | _ \<Rightarrow> False))"

definition PrecisionLossOracle ::
  "'i Ast \<Rightarrow> (MoveAddress \<Rightarrow> string)
     \<Rightarrow> (unit, 'i, 's, 'db, 'fx, ('own, 'ty) OracleFinding) SuiGeneralOracle" where
  "PrecisionLossOracle T print = default_oracle\<lparr>
     o_before_instruction := \<lambda>pc instruction _ symbol_stack current_function o1 s.
       if instruction = BcArith BMul \<and> precision_loss T (sym_stack symbol_stack)
       then Inr (o1, s, [located_finding print ''PrecisionLossOracle'' Medium current_function pc])
       else no_findings o1 s\<rparr>"

section \<open>Outcomes and effects\<close>

datatype ExitKind = ExitOk | ExitCrash

record ('own, 'ty) ExecutionOutcome =
  events_verdict :: ExitKind
  exec_events :: "Event list"
  allowed_success :: bool
  exec_findings :: "('own, 'ty) OracleFinding list"

text \<open>What the oracles read of the fuzzing state.\<close>

record ('own, 'ty) OracleView =
  global_outcome :: "('own, 'ty) ExecutionOutcome option"
  fuzz_gas_id :: MoveAddress

datatype ExecutionStatus =
    Success
  | MoveAbortFailure u64 "nat option"
  | OtherFailure "nat option"

type_synonym ObjectDigest = u256

record 'own TransactionEffects =
  fx_status :: ExecutionStatus
  gas_owner :: 'own
  net_gas_usage :: int
  all_changed_objects :: "(MoveAddress \<times> u64 \<times> ObjectDigest) list"
  modified_at_versions :: "(MoveAddress \<times> u64) list"
  unwrapped_then_deleted :: "MoveAddress list"

definition TYPED_BUG_ABORT_CODE :: u64 where
  "TYPED_BUG_ABORT_CODE = 19260817"

definition TypedBugOracle ::
  "bool \<Rightarrow> (unit, 'i, ('own, 'ty) OracleView, 'db, 'own TransactionEffects, ('own, 'ty) OracleFinding)
     SuiGeneralOracle" where
  "TypedBugOracle use_abort = default_oracle\<lparr>
     done_execution := \<lambda>_ effects o1 s.
       if use_abort then
         (case fx_status effects of
            MoveAbortFailure code _ \<Rightarrow>
              if code = TYPED_BUG_ABORT_CODE
              then Inr (o1, s, [\<lparr>finding_oracle = ''TypedBugOracle'', severity = Critical,
                extra = JObject [(''abort_code'', JNumber (uint code))]\<rparr>])
              else no_findings o1 s
          | _ \<Rightarrow> no_findings o1 s)
       else
         (case global_outcome s of
            None \<Rightarrow> no_findings o1 s
          | Some out \<Rightarrow>
              if \<not> allowed_success out then no_findings o1 s
              else (case find (\<lambda>event. tag_module (event_ty event) = ''oracle''
                        \<and> tag_name (event_ty event) = ''Crash'') (exec_events out) of
                  Some event \<Rightarrow> Inr (o1, s, [\<lparr>finding_oracle = ''TypedBugOracle'', severity = Critical,
                    extra = JObject [(''event'', JEvent event)]\<rparr>])
                | None \<Rightarrow> no_findings o1 s))\<rparr>"

section \<open>Proceeds\<close>

text \<open>An object of the store: its owner and digest and, for a coin, its type parameters and the
  balance its contents decode to.\<close>

record ('own, 'ty) StoredObject =
  obj_owner :: 'own
  obj_digest :: ObjectDigest
  obj_coin :: "('ty list \<times> u64 option) option"

type_synonym ('own, 'ty) object_provider =
  "MoveAddress \<Rightarrow> u64 \<Rightarrow> ('own, 'ty) StoredObject option"

type_synonym object_key = "MoveAddress \<times> u64 \<times> ObjectDigest option"

text \<open>\<open>None\<close> for an object the provider does not have.\<close>

definition fetch_coin ::
  "('own, 'ty) object_provider \<Rightarrow> object_key \<Rightarrow> ('own \<times> 'ty \<times> u64) list option res" where
  "fetch_coin db key = (case key of (i, version, digest_opt) \<Rightarrow>
     (case db i version of
        None \<Rightarrow> Inr None
      | Some ob \<Rightarrow>
          (case obj_coin ob of
             None \<Rightarrow> Inr (Some [])
           | Some (type_params, balance) \<Rightarrow>
               if digest_opt \<noteq> None \<and> digest_opt \<noteq> Some (obj_digest ob)
               then Inl (Panic ''Object digest mismatch--got bad data from object_provider?'')
               else (case type_params of
                   [coin_type] \<Rightarrow> bindR (unwrapR ''unwrap on None'' balance) (\<lambda>amount.
                     Inr (Some [(obj_owner ob, coin_type, amount)]))
                 | _ \<Rightarrow> Inl (Panic ''unwrap on Err'')))))"

fun fetch_coins ::
  "('own, 'ty) object_provider \<Rightarrow> object_key list \<Rightarrow> ('own \<times> 'ty \<times> u64) list option res" where
  "fetch_coins db [] = Inr (Some [])"
| "fetch_coins db (key # rest) =
     bindR (fetch_coin db key) (\<lambda>r. case r of
       None \<Rightarrow> Inr None
     | Some coin \<Rightarrow> bindR (fetch_coins db rest) (\<lambda>coins. Inr (map_option ((@) coin) coins)))"

definition add_balance ::
  "int \<Rightarrow> (('own :: linorder \<times> 'ty :: linorder), int) btree \<Rightarrow> 'own \<times> 'ty \<times> u64
     \<Rightarrow> (('own \<times> 'ty), int) btree" where
  "add_balance sign acc coin = (case coin of (owner, ty, amount) \<Rightarrow>
     bt_insert (owner, ty) (or_default 0 (bt_get acc (owner, ty)) + sign * uint amount) acc)"

definition get_balance_changes ::
  "('own :: linorder, 'ty :: linorder) object_provider \<Rightarrow> object_key list \<Rightarrow> object_key list
     \<Rightarrow> ('own, 'ty) BalanceChange list option res" where
  "get_balance_changes db modified_at_version all_mutated =
     bindR (fetch_coins db modified_at_version) (\<lambda>ins. case ins of
       None \<Rightarrow> Inr None
     | Some ins \<Rightarrow>
         (let balances = foldl (add_balance (- 1)) [] ins in
          bindR (fetch_coins db all_mutated) (\<lambda>outputs. case outputs of
            None \<Rightarrow> Inr None
          | Some outs \<Rightarrow>
              (let balances = foldl (add_balance 1) balances outs in
               Inr (Some (map (\<lambda>((owner, ty), amount).
                   \<lparr>bc_owner = owner, bc_coin_type = ty, bc_amount = amount\<rparr>)
                 (filter (\<lambda>(_, amount). amount \<noteq> 0) balances)))))))"

datatype InputObjectKind =
    ImmOrOwnedMoveObject MoveAddress u64 ObjectDigest
  | SharedMoveObject MoveAddress u64 bool
  | MovePackageObject MoveAddress

fun owned_digest :: "InputObjectKind \<Rightarrow> (MoveAddress \<times> ObjectDigest) option" where
  "owned_digest (ImmOrOwnedMoveObject i _ d) = Some (i, d)"
| "owned_digest _ = None"

definition get_balance_changes_from_effect ::
  "('own :: linorder, 'ty :: linorder) object_provider \<Rightarrow> 'ty \<Rightarrow> 'own TransactionEffects
     \<Rightarrow> InputObjectKind list \<Rightarrow> MoveAddress \<Rightarrow> ('own, 'ty) BalanceChange list option res" where
  "get_balance_changes_from_effect db gas_type effects input_objs mocked_coin =
     (if fx_status effects \<noteq> Success
      then Inr (Some [\<lparr>bc_owner = gas_owner effects, bc_coin_type = gas_type,
                       bc_amount = - net_gas_usage effects\<rparr>])
      else
        (let all_mutated = concat (map (\<lambda>(i, version, digest).
               if i = mocked_coin then [] else [(i, version, Some digest)]) (all_changed_objects effects));
             input_objs_to_digest = map_of (rev (List.map_filter owned_digest input_objs));
             modified = concat (map (\<lambda>(i, version).
               if i = mocked_coin then []
               else if i \<in> set (unwrapped_then_deleted effects) then []
               else [(i, version, input_objs_to_digest i)]) (modified_at_versions effects))
         in get_balance_changes db modified all_mutated))"

fun input_object_kind :: "InputArgument \<Rightarrow> InputObjectKind option" where
  "input_object_kind (InObject _ (ImmOrOwnedObject r)) =
     (case r of (i, v, digest) \<Rightarrow> Some (ImmOrOwnedMoveObject i v digest))"
| "input_object_kind (InObject _ (SharedObject i v mutable)) =
     Some (SharedMoveObject i v mutable)"
| "input_object_kind _ = None"

definition ProceedsOracle ::
  "'ty \<Rightarrow> (InputObjectKind list, 'i, ('own :: linorder, 'ty :: linorder) OracleView,
     ('own, 'ty) object_provider, 'own TransactionEffects, ('own, 'ty) OracleFinding) SuiGeneralOracle"
  where
  "ProceedsOracle gas_type = default_oracle\<lparr>
     pre_execution := \<lambda>_ sequence _ s. Inr (List.map_filter input_object_kind (inputs sequence), s),
     done_execution := \<lambda>db effects input_objects s.
       if \<not> (case global_outcome s of None \<Rightarrow> False | Some out \<Rightarrow> allowed_success out)
       then no_findings input_objects s
       else bindR (get_balance_changes_from_effect db gas_type effects input_objects (fuzz_gas_id s))
         (\<lambda>balance_change. case balance_change of
            None \<Rightarrow> no_findings input_objects s
          | Some bc \<Rightarrow>
              if list_all (\<lambda>c. bc_amount c \<ge> 0) bc \<and> list_ex (\<lambda>c. bc_amount c > 0) bc
              then Inr (input_objects, s, [\<lparr>finding_oracle = ''ProceedsOracle'', severity = Critical,
                extra = JObject [(''message'', JString ''Positive proceeds detected''),
                  (''balance_changes'', JBalanceChanges bc)]\<rparr>])
              else no_findings input_objects s)\<rparr>"

section \<open>The oracles of a fuzzing run\<close>

text \<open>\<open>oracles\<close> of \<open>operations/sui_fuzz.rs\<close>: nested pairs that end in the unit oracle.\<close>

record 'i OracleApi =
  oa_trace :: TraceApi
  oa_ast :: "'i Ast"
  oa_loop :: "'i LoopApi"
  oa_valid_ident :: "string \<Rightarrow> bool"
  oa_print :: "MoveAddress \<Rightarrow> string"

definition oracles where
  "oracles (X :: 'i OracleApi) gas_type typed_bug_abort disable_profit_oracle disable_defects_oracle =
     pair_oracle (could_disabled disable_defects_oracle
       (BoolJudgementOracle (oa_ast X) (oa_valid_ident X) (oa_print X)))
     (pair_oracle (could_disabled disable_defects_oracle (InfiniteLoopOracle (oa_loop X) (oa_print X)))
     (pair_oracle (could_disabled disable_defects_oracle (PrecisionLossOracle (oa_ast X) (oa_print X)))
     (pair_oracle (could_disabled disable_defects_oracle (TypeConversionOracle (oa_trace X) (oa_print X)))
     (pair_oracle (could_disabled disable_defects_oracle (OverflowOracle (oa_trace X) (oa_print X)))
     (pair_oracle (could_disabled disable_profit_oracle (ProceedsOracle gas_type))
     (pair_oracle (could_disabled False (TypedBugOracle typed_bug_abort)) unit_oracle))))))"

section \<open>Overflow: exactness\<close>

lemma sig_bits_le: "leading_zeros_from n u \<le> n"
  by (induction n) auto

lemma sig_bits_bound:
  "u \<noteq> 0 \<Longrightarrow> (\<forall>i \<ge> n. \<not> bit u i) \<Longrightarrow>
    (\<forall>i \<ge> n - leading_zeros_from n u. \<not> bit u i) \<and> 0 < n - leading_zeros_from n u
    \<and> bit u (n - leading_zeros_from n u - 1)"
proof (induction n)
  case 0
  then have "u = 0" by (auto intro: bit_word_eqI)
  with 0 show ?case by simp
next
  case (Suc n)
  show ?case
  proof (cases "bit u n")
    case False
    then have "\<forall>i \<ge> n. \<not> bit u i" using Suc.prems(2) by (metis Suc_leI le_neq_implies_less)
    then show ?thesis using Suc.IH [OF Suc.prems(1)] False by simp
  qed (use Suc.prems in simp)
qed

text \<open>\<open>k\<close> significant bits: the value lies between \<open>2 ^ (k - 1)\<close> and \<open>2 ^ k\<close>.\<close>

lemma sig_bits_range:
  fixes u :: u256
  assumes "u \<noteq> 0" "k = 256 - leading_zeros_from 256 u"
  shows "0 < k" "2 ^ (k - 1) \<le> uint u" "uint u < 2 ^ k"
proof -
  have "\<forall>i \<ge> 256. \<not> bit u i" by (auto dest: bit_imp_le_length)
  note b = sig_bits_bound [OF assms(1) this, folded assms(2)]
  show "0 < k" using b by simp
  have "take_bit k u = u"
  proof (rule bit_word_eqI)
    fix i
    show "bit (take_bit k u) i \<longleftrightarrow> bit u i"
      using b by (cases "i < k") (auto simp: bit_take_bit_iff)
  qed
  then have "take_bit k (uint u) = uint u" by (metis unsigned_take_bit_eq)
  then show "uint u < 2 ^ k" by (metis take_bit_int_less_exp)
  have "bit (uint u) (k - 1)" using b assms(2) by (simp add: bit_uint_iff)
  then have "uint u div 2 ^ (k - 1) \<noteq> 0" by (auto simp: bit_iff_odd)
  moreover have "0 \<le> uint u" by simp
  ultimately show "2 ^ (k - 1) \<le> uint u" by (metis div_pos_pos_trivial not_le)
qed

lemma shift_fits:
  assumes "0 < k" "2 ^ (k - 1) \<le> (m :: int)" "m < 2 ^ k"
  shows "2 ^ w \<le> m * 2 ^ s \<longleftrightarrow> w < k + s"
proof
  assume "w < k + s"
  then have "(2 :: int) ^ w \<le> 2 ^ (k - 1) * 2 ^ s"
    using assms(1) by (simp flip: power_add)
  also have "\<dots> \<le> m * 2 ^ s" using assms(2) by simp
  finally show "2 ^ w \<le> m * 2 ^ s" .
next
  assume "2 ^ w \<le> m * 2 ^ s"
  also have "m * 2 ^ s < 2 ^ k * 2 ^ s" using assms(3) by simp
  finally have "(2 :: int) ^ w < 2 ^ (k + s)" by (simp add: power_add)
  then show "w < k + s" by simp
qed

lemma overflow_check_exact:
  assumes x: "extract_primitive_value A (stack ! (length stack - 2)) = Inr x"
    and y: "extract_primitive_value A (stack ! (length stack - 1)) = Inr y"
  shows "overflow_check A stack =
    Inr (int (bitwidth x) \<le> num y \<or> 2 ^ bitwidth x \<le> num x * 2 ^ nat (num y))"
proof -
  let ?k = "if as_u256 x = 0 then 0 else 256 - leading_zeros_from 256 (as_u256 x)"
  have big: "as_u256 y \<ge> of_nat (bitwidth x) \<longleftrightarrow> int (bitwidth x) \<le> num y"
    using bitwidth_le [of x] by (simp add: word_le_def num_def take_bit_int_eq_self unsigned_of_nat take_bit_nat_eq_self)
  have small: "?k + nat (num y) > bitwidth x \<longleftrightarrow> 2 ^ bitwidth x \<le> num x * 2 ^ nat (num y)"
    if "num y < int (bitwidth x)"
  proof (cases "as_u256 x = 0")
    case True
    then have "num x = 0" by (simp add: num_def)
    then show ?thesis using True that num_bounds(1) [of y] by simp
  next
    case False
    from shift_fits [OF sig_bits_range [OF False refl], of "bitwidth x" "nat (num y)"] show ?thesis
      using False by (simp add: num_def)
  qed
  show ?thesis
    using big small shift_amount(1) [of y, OF _ bitwidth_le [of x]]
    by (auto simp: overflow_check_def value_bitwidth_def value_sig_bits_def value_to_u256_def x y
        y [simplified] Let_def not_le)
qed

section \<open>Loops: the period of the reports\<close>

definition branch_count :: "u64 \<Rightarrow> u16 \<Rightarrow> branch_counts \<Rightarrow> u64 \<times> nat" where
  "branch_count key pc counts = or_default (0, 0) (bt_get (or_default [] (bt_get counts key)) pc)"

lemma count_branch_count:
  "count_branch key pc v counts = (counts', report) \<Longrightarrow>
    visit_branch v (branch_count key pc counts) = (branch_count key pc counts', report)
    \<and> (\<forall>k q. (k, q) \<noteq> (key, pc) \<longrightarrow> branch_count k q counts' = branch_count k q counts)"
  by (auto simp: count_branch_def branch_count_def Let_def or_default_def split: prod.splits)

text \<open>A step visits a branch \<open>(key, pc)\<close> with a hashed condition, or none.\<close>

type_synonym visit = "(u64 \<times> u16 \<times> u64) option"

fun count_branches :: "visit list \<Rightarrow> branch_counts \<Rightarrow> branch_counts \<times> bool list" where
  "count_branches [] counts = (counts, [])"
| "count_branches (None # visits) counts =
     (case count_branches visits counts of (counts, reports) \<Rightarrow> (counts, False # reports))"
| "count_branches (Some (key, pc, v) # visits) counts =
     (case count_branch key pc v counts of (counts, report) \<Rightarrow>
      case count_branches visits counts of (counts, reports) \<Rightarrow> (counts, report # reports))"

fun visits_at :: "u64 \<Rightarrow> u16 \<Rightarrow> visit \<Rightarrow> bool" where
  "visits_at key pc None \<longleftrightarrow> False"
| "visits_at key pc (Some (k, q, u)) \<longleftrightarrow> k = key \<and> q = pc"

text \<open>The counter after \<open>n\<close> visits with the condition \<open>v\<close>.\<close>

definition counted :: "u64 \<Rightarrow> nat \<Rightarrow> u64 \<times> nat \<Rightarrow> bool" where
  "counted v n count \<longleftrightarrow> count = (v, n mod 1001) \<or> n mod 1001 = 0 \<and> snd count = 0"

lemma visit_step:
  assumes "counted v n count"
  shows "visit_branch v count = ((v, Suc n mod 1001), Suc n mod 1001 = 0)"
proof -
  have "Suc n mod 1001 = (if n mod 1001 = 1000 then 0 else Suc (n mod 1001))" by (simp add: mod_Suc)
  moreover have "n mod 1001 < 1001" by simp
  ultimately show ?thesis
    using assms by (cases "fst count = v") (auto simp: counted_def visit_branch_def prod_eq_iff)
qed

lemma count_branches_period:
  assumes "\<forall>k q u. Some (k, q, u) \<in> set visits \<and> k = key \<and> q = pc \<longrightarrow> u = v"
    and "counted v n (branch_count key pc counts)"
    and "i < length visits" "visits_at key pc (visits ! i)"
  shows "snd (count_branches visits counts) ! i \<longleftrightarrow>
    (n + length (filter (visits_at key pc) (take (Suc i) visits))) mod 1001 = 0"
  using assms
proof (induction visits arbitrary: counts n i)
  case (Cons w visits)
  have IH: "snd (count_branches visits c) ! j \<longleftrightarrow>
      (m + length (filter (visits_at key pc) (take (Suc j) visits))) mod 1001 = 0"
    if "i = Suc j" "counted v m (branch_count key pc c)" for c m j
    using Cons.IH [of m c j] Cons.prems that by (auto simp: imp_conjL)
  show ?case
  proof (cases w)
    case None
    then obtain j where i: "i = Suc j" using Cons.prems(4) by (cases i) auto
    then show ?thesis
      using IH [OF i Cons.prems(2)] None by (auto split: prod.splits)
  next
    case (Some kqu)
    obtain k q u where w: "w = Some (k, q, u)" using Some by (cases kqu) simp
    obtain c1 r1 where c1: "count_branch k q u counts = (c1, r1)" by fastforce
    note cb = count_branch_count [OF c1]
    show ?thesis
    proof (cases "k = key \<and> q = pc")
      case True
      then have "u = v" using Cons.prems(1) w by auto
      then have st: "branch_count key pc c1 = (v, Suc n mod 1001)" "r1 = (Suc n mod 1001 = 0)"
        using cb visit_step [OF Cons.prems(2)] True by auto
      then have "counted v (Suc n) (branch_count key pc c1)" by (simp add: counted_def)
      moreover have "count_branch key pc u counts = (c1, r1)" using c1 True by simp
      ultimately show ?thesis
        using IH [of _ "Suc n" c1] st True
        by (cases i) (auto simp: w split: prod.splits)
    next
      case False
      then obtain j where i: "i = Suc j"
        using Cons.prems(4) w by (cases i) auto
      have "branch_count key pc c1 = branch_count key pc counts" using cb False by auto
      then show ?thesis
        using IH [OF i, of n c1] Cons.prems(2) False
        by (auto simp: w c1 i split: prod.splits)
    qed
  qed
qed simp

section \<open>Runs of the loop oracle\<close>

record 'i step =
  step_pc :: u16
  step_instruction :: Bytecode
  step_symbols :: "'i ConcolicState"
  step_function :: FunctionIdent

text \<open>The findings of the \<open>before_instruction\<close> hook at each of a sequence of steps.\<close>

fun run_steps ::
  "('o, 'i, 's, 'db, 'fx, 'f) SuiGeneralOracle \<Rightarrow> TraceState \<Rightarrow> 'i step list \<Rightarrow> 'o \<Rightarrow> 's
     \<Rightarrow> 'f list list res" where
  "run_steps Orc st [] o1 s = Inr []"
| "run_steps Orc st (x # xs) o1 s =
     bindR (o_before_instruction Orc (step_pc x) (step_instruction x) st (step_symbols x)
              (step_function x) o1 s) (\<lambda>(o1, s, fs).
     bindR (run_steps Orc st xs o1 s) (\<lambda>fss. Inr (fs # fss)))"

definition step_key :: "'i LoopApi \<Rightarrow> (MoveAddress \<Rightarrow> string) \<Rightarrow> 'i step \<Rightarrow> u64" where
  "step_key H print x = function_key H
     (MoveModuleId_to_string print (ident_module (step_function x))) (ident_function (step_function x))"

definition step_visit :: "'i LoopApi \<Rightarrow> (MoveAddress \<Rightarrow> string) \<Rightarrow> 'i step \<Rightarrow> visit" where
  "step_visit H print x =
     (if \<not> is_branch (step_instruction x) \<or> sym_stack (step_symbols x) = [] then None
      else case last (sym_stack (step_symbols x)) of
        Unknown \<Rightarrow> None
      | Value v \<Rightarrow> Some (step_key H print x, step_pc x, hash_to_u64 H (int_to_string H v)))"

lemma run_loop_oracle:
  fixes Orc :: "(branch_counts, 'i, 's, 'db, 'fx, ('own, 'ty) OracleFinding) SuiGeneralOracle"
  assumes Orc: "Orc = InfiniteLoopOracle H print"
  shows "\<exists>fss. run_steps Orc st xs counts s = Inr fss
     \<and> map (\<lambda>fs. fs \<noteq> []) fss = snd (count_branches (map (step_visit H print) xs) counts)"
proof (induction xs arbitrary: counts)
  case (Cons x xs)
  obtain c r where c: "(case step_visit H print x of None \<Rightarrow> (counts, False)
      | Some (k, q, v) \<Rightarrow> count_branch k q v counts) = (c, r)"
    by fastforce
  obtain fs where hook: "o_before_instruction Orc (step_pc x)
      (step_instruction x) st (step_symbols x) (step_function x) counts s = Inr (c, s, fs)"
    and fs: "fs \<noteq> [] \<longleftrightarrow> r"
    using c by (auto simp: Orc InfiniteLoopOracle_def no_findings_def step_visit_def step_key_def
        split: if_splits SymbolValue.splits prod.splits)
  obtain fss where "run_steps Orc st xs c s = Inr fss"
    "map (\<lambda>fs. fs \<noteq> []) fss = snd (count_branches (map (step_visit H print) xs) c)"
    using Cons.IH by blast
  then show ?case
    using hook fs c by (cases "step_visit H print x") (auto split: prod.splits)
qed simp

section \<open>Searches: exactness\<close>

text \<open>\<open>nodes\<close> lists the nodes of a term, the term itself first.\<close>

definition lists_nodes :: "'i Ast \<Rightarrow> ('i \<Rightarrow> 'i list) \<Rightarrow> bool" where
  "lists_nodes T nodes \<longleftrightarrow> (\<forall>i. nodes i = i # concat (map nodes (node_children T i)))"

definition is_variable :: "'i Ast \<Rightarrow> 'i \<Rightarrow> bool" where
  "is_variable T i \<longleftrightarrow> node_is_const T i \<and> node_decl T i = Some KUninterpreted"

definition is_division :: "'i Ast \<Rightarrow> 'i \<Rightarrow> bool" where
  "is_division T i \<longleftrightarrow> node_decl T i \<in> {Some KDiv, Some KIdiv}"

lemma stack_nodes:
  assumes "lists_nodes T nodes" "stack \<noteq> []"
  shows "set (concat (map nodes stack)) = insert (last stack)
      (set (concat (map nodes (butlast stack @ node_children T (last stack)))))"
    and "length (concat (map nodes stack)) = Suc (length (concat (map nodes
      (butlast stack @ node_children T (last stack)))))"
proof -
  have "nodes (last stack) = last stack # concat (map nodes (node_children T (last stack)))"
    using assms(1) unfolding lists_nodes_def by blast
  moreover have "concat (map nodes stack) = concat (map nodes (butlast stack)) @ nodes (last stack)"
    by (subst append_butlast_last_id [OF assms(2), symmetric]) simp
  ultimately show "set (concat (map nodes stack)) = insert (last stack)
      (set (concat (map nodes (butlast stack @ node_children T (last stack)))))"
    "length (concat (map nodes stack)) = Suc (length (concat (map nodes
      (butlast stack @ node_children T (last stack)))))"
    by auto
qed

lemma has_variable_loop_sound:
  assumes "lists_nodes T nodes"
  shows "has_variable_loop T n stack = Some b \<Longrightarrow>
      b \<longleftrightarrow> (\<exists>i \<in> set (concat (map nodes stack)). is_variable T i)"
    and "length (concat (map nodes stack)) \<le> n \<Longrightarrow> has_variable_loop T n stack \<noteq> None"
proof (induction n arbitrary: stack)
  case 0
  { case 1 then show ?case by (auto simp: has_variable_loop.simps split: if_splits) next
    case 2 then show ?case using stack_nodes(2) [OF assms, of stack]
      by (cases "stack = []") (auto simp: has_variable_loop.simps) }
next
  case (Suc n)
  { case 1
    then show ?case
      using Suc.IH(1) [of "butlast stack @ node_children T (last stack)"] stack_nodes(1) [OF assms, of stack]
      by (cases "stack = []") (auto simp: has_variable_loop.simps [of T "Suc n"] Let_def is_variable_def
          split: if_splits)
  next
    case 2
    then show ?case
      using Suc.IH(2) [of "butlast stack @ node_children T (last stack)"] stack_nodes(2) [OF assms, of stack]
      by (cases "stack = []") (auto simp: has_variable_loop.simps [of T "Suc n"] Let_def) }
qed

lemma contains_division_loop_sound:
  assumes "lists_nodes T nodes" "length (concat (map nodes stack)) \<le> n"
  shows "contains_division_loop T n stack \<longleftrightarrow> (\<exists>i \<in> set (concat (map nodes stack)). is_division T i)"
  using assms(2)
proof (induction n arbitrary: stack)
  case 0
  then show ?case using stack_nodes(2) [OF assms(1), of stack]
    by (cases "stack = []") (auto simp: contains_division_loop.simps)
next
  case (Suc n)
  show ?case
  proof (cases "stack = []")
    case False
    note sn = stack_nodes [OF assms(1) False]
    then show ?thesis
      using Suc.IH [of "butlast stack @ node_children T (last stack)"] Suc.prems False
      unfolding sn(1) by (auto simp: contains_division_loop.simps [of T "Suc n"] Let_def is_division_def)
  qed (simp add: contains_division_loop.simps)
qed

section \<open>Proceeds: the sums\<close>

definition coin_sum :: "'own \<times> 'ty \<Rightarrow> ('own \<times> 'ty \<times> u64) list \<Rightarrow> int" where
  "coin_sum k coins = (\<Sum>(owner, ty, amount) \<leftarrow> coins. if (owner, ty) = k then uint amount else 0)"

lemma add_balance_get:
  "or_default 0 (bt_get (add_balance sg acc coin) k) =
     or_default 0 (bt_get acc k) + sg * coin_sum k [coin]"
  by (cases coin) (auto simp: add_balance_def coin_sum_def or_default_def)

lemma add_balances_get:
  "or_default 0 (bt_get (foldl (add_balance sg) acc coins) k) =
     or_default 0 (bt_get acc k) + sg * coin_sum k coins"
  by (induction coins arbitrary: acc)
    (simp_all add: add_balance_get coin_sum_def algebra_simps split: prod.splits)

lemma add_balances_wf: "bt_wf acc \<Longrightarrow> bt_wf (foldl (add_balance sg) acc coins)"
  by (induction coins arbitrary: acc) (auto simp: add_balance_def bt_wf split: prod.splits)

lemma balance_changes_entries:
  assumes "get_balance_changes db ins_keys out_keys = Inr (Some bc)"
  obtains ins outs where "fetch_coins db ins_keys = Inr (Some ins)" "fetch_coins db out_keys = Inr (Some outs)"
    "bc = map (\<lambda>((owner, ty), amount). \<lparr>bc_owner = owner, bc_coin_type = ty, bc_amount = amount\<rparr>)
       (filter (\<lambda>(_, amount). amount \<noteq> 0)
         (foldl (add_balance 1) (foldl (add_balance (- 1)) [] ins) outs))"
  using assms unfolding get_balance_changes_def Let_def
  by (elim bindR_InrE) (auto split: option.split_asm elim!: bindR_InrE)

section \<open>Properties\<close>

text \<open>
  The overflow oracle is exact: for operands of integer type it reports a left shift if and
  only if the shift amount reaches the width of the value or bits of the value are lost.
\<close>
theorem overflow_oracle_exact:
  assumes "2 \<le> length (operand_stack st)"
    and "extract_primitive_value A (operand_stack st ! (length (operand_stack st) - 2)) = Inr x"
    and "extract_primitive_value A (operand_stack st ! (length (operand_stack st) - 1)) = Inr y"
  shows "o_before_instruction (OverflowOracle A print) pc BcShl st symb f o1 s =
    Inr (o1, s, if int (bitwidth x) \<le> num y \<or> 2 ^ bitwidth x \<le> num x * 2 ^ nat (num y)
                then [located_finding print ''OverflowOracle'' Medium f pc] else [])"
  using overflow_check_exact [OF assms(2,3)] assms(1)
  by (simp add: OverflowOracle_def no_findings_def)

theorem overflow_oracle_exact_witness:
  "o_before_instruction (OverflowOracle runtime_api bit_text) 4 BcShl
     (demo_state [RuntimeValue (SU8 200), RuntimeValue (SU8 1)]) demo_sym
     (FunctionIdent_new 7 ''m'' ''f'') () () =
   Inr ((), (), if int (bitwidth (PU8 200)) \<le> num (PU8 1)
       \<or> 2 ^ bitwidth (PU8 200) \<le> num (PU8 200) * 2 ^ nat (num (PU8 1))
     then [located_finding bit_text ''OverflowOracle'' Medium (FunctionIdent_new 7 ''m'' ''f'') 4
             :: (nat, nat) OracleFinding] else [])"
  by (rule overflow_oracle_exact)
    (simp_all add: demo_state_def extract_primitive_value_def runtime_api_def)

text \<open>
  The loop oracle reports a branch at exactly every 1001st visit with an unchanged symbolic
  condition, however the visits interleave with other instructions and branches.
\<close>
theorem infinite_loop_period:
  fixes Orc :: "(branch_counts, 'i, 's, 'db, 'fx, ('own, 'ty) OracleFinding) SuiGeneralOracle"
  assumes "Orc = InfiniteLoopOracle H print" "run_steps Orc st xs counts s = Inr fss"
    and "snd (branch_count key pc counts) = 0"
    and "\<forall>x \<in> set xs. visits_at key pc (step_visit H print x) \<longrightarrow>
      step_visit H print x = Some (key, pc, v)"
    and "i < length xs" "visits_at key pc (step_visit H print (xs ! i))"
  shows "fss ! i \<noteq> [] \<longleftrightarrow>
    length (filter (\<lambda>x. visits_at key pc (step_visit H print x)) (take (Suc i) xs)) mod 1001 = 0"
proof -
  let ?vs = "map (step_visit H print) xs"
  have fss: "map (\<lambda>fs. fs \<noteq> []) fss = snd (count_branches ?vs counts)"
    using run_loop_oracle [OF assms(1), of st xs counts s] assms(2) by auto
  have "length (snd (count_branches vs c)) = length vs" for vs c
    by (induction vs c rule: count_branches.induct) (auto split: prod.splits)
  then have len: "length fss = length xs" using arg_cong [OF fss, of length] by simp
  have "\<forall>k q u. Some (k, q, u) \<in> set ?vs \<and> k = key \<and> q = pc \<longrightarrow> u = v"
  proof safe
    fix u
    assume "Some (key, pc, u) \<in> set ?vs"
    then obtain x where "x \<in> set xs" "step_visit H print x = Some (key, pc, u)" by auto
    then show "u = v" using assms(4) by force
  qed
  moreover have "counted v 0 (branch_count key pc counts)" using assms(3) by (simp add: counted_def)
  ultimately have "snd (count_branches ?vs counts) ! i \<longleftrightarrow>
      (0 + length (filter (visits_at key pc) (take (Suc i) ?vs))) mod 1001 = 0"
    by (rule count_branches_period) (use assms(5,6) in simp_all)
  moreover have "fss ! i \<noteq> [] \<longleftrightarrow> snd (count_branches ?vs counts) ! i"
    using arg_cong [OF fss, of "\<lambda>l. l ! i"] assms(5) len by simp
  ultimately show ?thesis by (simp add: take_map filter_map comp_def)
qed

text \<open>
  C24: the proceeds are the sums of the coins: an owner has a balance change for a coin type if
  and only if the coins it holds after the transaction and the coins it held before differ in
  value, the amount is that difference, and no pair of owner and type is listed twice.
\<close>
theorem balance_changes_are_sums:
  assumes "get_balance_changes db ins_keys out_keys = Inr (Some bc)"
  shows "\<exists>ins outs. fetch_coins db ins_keys = Inr (Some ins) \<and> fetch_coins db out_keys = Inr (Some outs)
    \<and> (\<forall>owner ty amount. \<lparr>bc_owner = owner, bc_coin_type = ty, bc_amount = amount\<rparr> \<in> set bc \<longleftrightarrow>
         amount = coin_sum (owner, ty) outs - coin_sum (owner, ty) ins \<and> amount \<noteq> 0)
    \<and> distinct (map (\<lambda>c. (bc_owner c, bc_coin_type c)) bc)"
proof -
  obtain ins outs where io: "fetch_coins db ins_keys = Inr (Some ins)"
      "fetch_coins db out_keys = Inr (Some outs)"
    and bc: "bc = map (\<lambda>((owner, ty), amount). \<lparr>bc_owner = owner, bc_coin_type = ty, bc_amount = amount\<rparr>)
       (filter (\<lambda>(_, amount). amount \<noteq> 0)
         (foldl (add_balance 1) (foldl (add_balance (- 1)) [] ins) outs))"
    using balance_changes_entries [OF assms] by blast
  let ?m = "foldl (add_balance 1) (foldl (add_balance (- 1)) [] ins) outs"
  have wf: "bt_wf ?m" by (intro add_balances_wf) simp
  have get: "or_default 0 (bt_get ?m k) = coin_sum k outs - coin_sum k ins" for k
    by (simp add: add_balances_get)
  have entry: "(k, a) \<in> set ?m \<and> a \<noteq> 0 \<longleftrightarrow> a = coin_sum k outs - coin_sum k ins \<and> a \<noteq> 0" for k a
    using get [of k] bt_wf_get [OF wf, of k a] by (cases "bt_get ?m k") (auto simp: or_default_def)
  have "\<lparr>bc_owner = ow, bc_coin_type = ty, bc_amount = a\<rparr> \<in> set bc \<longleftrightarrow> ((ow, ty), a) \<in> set ?m \<and> a \<noteq> 0"
    for ow ty a by (force simp: bc)
  moreover have "map (\<lambda>c. (bc_owner c, bc_coin_type c)) bc = bt_keys (filter (\<lambda>(_, a). a \<noteq> 0) ?m)"
    by (auto simp: bc)
  moreover have "distinct (bt_keys (filter (\<lambda>(_, a). a \<noteq> 0) ?m))"
    by (intro bt_wf_distinct bt_wf_filter wf)
  ultimately show ?thesis using io entry by auto
qed

text \<open>A branch visited once by the loop oracle, and a payment of seven coins.\<close>

definition demo_loop :: "(assignment \<Rightarrow> int) LoopApi" where
  "demo_loop = \<lparr>hash_to_u64 = \<lambda>t. of_nat (length t), int_to_string = \<lambda>_. ''x'',
     frame_module_text = \<lambda>m. mod_name m\<rparr>"

definition demo_step :: "(assignment \<Rightarrow> int) step" where
  "demo_step = \<lparr>step_pc = 3, step_instruction = BcBrTrue 9,
     step_symbols = demo_sym\<lparr>sym_stack := [Value (\<lambda>\<rho>. \<rho> ''0.0'')]\<rparr>,
     step_function = FunctionIdent_new 7 ''m'' ''f''\<rparr>"

lemma demo_step_visit:
  "step_visit demo_loop (\<lambda>_. ''0x7'') demo_step = Some (9, 3, 1)"
  by (simp add: step_visit_def demo_step_def is_branch_def step_key_def function_key_def demo_loop_def
      FunctionIdent_new_def MoveModuleId_to_string_def)

theorem infinite_loop_period_witness:
  "[[] :: (nat, nat) OracleFinding list] ! 0 \<noteq> [] \<longleftrightarrow>
    length (filter (\<lambda>x. visits_at 9 3 (step_visit demo_loop (\<lambda>_. ''0x7'') x))
      (take (Suc 0) [demo_step])) mod 1001 = 0"
  by (rule infinite_loop_period [of
        "InfiniteLoopOracle demo_loop (\<lambda>_. ''0x7'')
          :: (branch_counts, _, unit, unit, unit, (nat, nat) OracleFinding) SuiGeneralOracle"
        _ _ "demo_state []" _ "[]" "()" _ _ _ 1])
    (simp_all add: demo_step_visit, simp_all add: InfiniteLoopOracle_def demo_step_def is_branch_def
      count_branch_def visit_branch_def or_default_def demo_loop_def branch_count_def)

definition demo_provider :: "(nat, nat) object_provider" where
  "demo_provider i version = (if version = 1
     then Some \<lparr>obj_owner = 1, obj_digest = 0, obj_coin = Some ([5], Some 7)\<rparr>
     else Some \<lparr>obj_owner = 2, obj_digest = 0, obj_coin = Some ([5], Some 7)\<rparr>)"

definition demo_changes :: "(nat, nat) BalanceChange list" where
  "demo_changes = [\<lparr>bc_owner = 1, bc_coin_type = 5, bc_amount = - 7\<rparr>,
     \<lparr>bc_owner = 2, bc_coin_type = 5, bc_amount = 7\<rparr>]"

theorem balance_changes_are_sums_witness:
  "\<exists>ins outs. fetch_coins demo_provider [(1, 1, None)] = Inr (Some ins)
    \<and> fetch_coins demo_provider [(1, 2, Some 0)] = Inr (Some outs)
    \<and> (\<forall>owner ty amount. \<lparr>bc_owner = owner, bc_coin_type = ty, bc_amount = amount\<rparr> \<in> set demo_changes \<longleftrightarrow>
         amount = coin_sum (owner, ty) outs - coin_sum (owner, ty) ins \<and> amount \<noteq> 0)
    \<and> distinct (map (\<lambda>c. (bc_owner c, bc_coin_type c)) demo_changes)"
  by (rule balance_changes_are_sums)
    (simp add: get_balance_changes_def fetch_coin_def demo_provider_def add_balance_def demo_changes_def)

text \<open>
  The term searches of the bool-judgement and precision-loss oracles are sound, and exact for
  terms of at most 10000 nodes.
\<close>
theorem term_searches_exact:
  assumes "lists_nodes T nodes"
  shows "(int_has_variable T e = Some b \<longrightarrow> b = (\<exists>i \<in> set (nodes e). is_variable T i))
    \<and> (length (nodes e) \<le> 10000 \<longrightarrow>
         int_has_variable T e = Some (\<exists>i \<in> set (nodes e). is_variable T i)
         \<and> (contains_division T e \<longleftrightarrow> (\<exists>i \<in> set (nodes e). is_division T i)))"
proof (intro conjI impI)
  have sound: "b = (\<exists>i \<in> set (nodes e). is_variable T i)" if "int_has_variable T e = Some b" for b
    using has_variable_loop_sound(1) [OF assms, of 10000 "[e]" b] that by (simp add: int_has_variable_def)
  then show "int_has_variable T e = Some b \<Longrightarrow> b = (\<exists>i \<in> set (nodes e). is_variable T i)" .
  assume len: "length (nodes e) \<le> 10000"
  then have "int_has_variable T e \<noteq> None"
    using has_variable_loop_sound(2) [OF assms, of "[e]" 10000] by (simp add: int_has_variable_def)
  with sound show "int_has_variable T e = Some (\<exists>i \<in> set (nodes e). is_variable T i)" by auto
  show "contains_division T e \<longleftrightarrow> (\<exists>i \<in> set (nodes e). is_division T i)"
    using contains_division_loop_sound [OF assms, of "[e]" 10000] len by (simp add: contains_division_def)
qed

text \<open>Terms as trees: a node with its declaration and children.\<close>

datatype demo_term = DemoTerm DeclKind "demo_term list"

fun demo_children :: "demo_term \<Rightarrow> demo_term list" where
  "demo_children (DemoTerm _ ts) = ts"

fun demo_nodes :: "demo_term \<Rightarrow> demo_term list" where
  "demo_nodes (DemoTerm k ts) = DemoTerm k ts # concat (map demo_nodes ts)"

definition demo_ast :: "demo_term Ast" where
  "demo_ast = \<lparr>node_is_const = \<lambda>t. demo_children t = [],
     node_decl = \<lambda>t. (case t of DemoTerm k _ \<Rightarrow> Some k), node_children = demo_children\<rparr>"

lemma demo_lists_nodes: "lists_nodes demo_ast demo_nodes"
  unfolding lists_nodes_def
proof
  show "demo_nodes t = t # concat (map demo_nodes (node_children demo_ast t))" for t
    by (cases t) (simp add: demo_ast_def)
qed

theorem term_searches_exact_witness:
  "int_has_variable demo_ast (DemoTerm KDiv [DemoTerm KUninterpreted [], DemoTerm KOther []]) = Some True
   \<and> contains_division demo_ast (DemoTerm KDiv [DemoTerm KUninterpreted [], DemoTerm KOther []])"
  using term_searches_exact [OF demo_lists_nodes,
      of "DemoTerm KDiv [DemoTerm KUninterpreted [], DemoTerm KOther []]" True]
  by (simp add: is_variable_def is_division_def demo_ast_def)

end
