(* ===== verification/Fuzz_Tracer.thy ===== *)
theory Fuzz_Tracer
  imports Oracles
begin

text \<open>
  \<open>movy-replay/src/tracer\<close>, files \<open>fuzz.rs\<close>, \<open>op.rs\<close> and \<open>extra.rs\<close>: the tracer of the fuzzer. It
  drives the oracles and the concolic machine, fills the coverage map and logs comparisons, shifts
  and casts. Compiled modules, the package store and the standard hasher are parameters. A step
  that fails with an \<open>Err\<close> keeps the changes it made before, so the instruction handler returns the
  tracer with an optional error; only panics leave it.
\<close>

section \<open>Logged values\<close>

datatype Magic =
    MagicU8 u8 | MagicU16 u16 | MagicU32 u32 | MagicU64 u64 | MagicU128 u128 | MagicU256 u256
  | MagicBytes "u8 list"

text \<open>The bytes of an address, and of a name.\<close>

record ByteApi =
  address_bytes :: "MoveAddress \<Rightarrow> u8 list"
  name_bytes :: "string \<Rightarrow> u8 list"
  hex_encode :: "u8 list \<Rightarrow> string"

fun magic_to_string :: "ByteApi \<Rightarrow> Magic \<Rightarrow> string" where
  "magic_to_string Y (MagicU8 v) = ''U8('' @ dec (unat v) @ '')''"
| "magic_to_string Y (MagicU16 v) = ''U16('' @ dec (unat v) @ '')''"
| "magic_to_string Y (MagicU32 v) = ''U32('' @ dec (unat v) @ '')''"
| "magic_to_string Y (MagicU64 v) = ''U64('' @ dec (unat v) @ '')''"
| "magic_to_string Y (MagicU128 v) = ''U128('' @ dec (unat v) @ '')''"
| "magic_to_string Y (MagicU256 v) = ''U256('' @ dec (unat v) @ '')''"
| "magic_to_string Y (MagicBytes v) = ''Bytes('' @ hex_encode Y v @ '')''"

definition Magic_try_from_value :: "ByteApi \<Rightarrow> SerializableMoveValue \<Rightarrow> Magic res" where
  "Magic_try_from_value Y v = (case v of
     SBool b \<Rightarrow> Inr (MagicU8 (if b then 1 else 0))
   | SU8 u \<Rightarrow> Inr (MagicU8 u)
   | SU16 u \<Rightarrow> Inr (MagicU16 u)
   | SU32 u \<Rightarrow> Inr (MagicU32 u)
   | SU64 u \<Rightarrow> Inr (MagicU64 u)
   | SU128 u \<Rightarrow> Inr (MagicU128 u)
   | SU256 u \<Rightarrow> Inr (MagicU256 u)
   | SAddress a \<Rightarrow> Inr (MagicBytes (address_bytes Y a))
   | SStruct ty _ \<Rightarrow> (case ty of StructTag a m n _ \<Rightarrow>
       Inr (MagicBytes (address_bytes Y a @ name_bytes Y m @ name_bytes Y n)))
   | _ \<Rightarrow> Inl (Err (Other ''TraceValue is not an integer'')))"

definition Magic_try_from :: "TraceApi \<Rightarrow> ByteApi \<Rightarrow> TraceValue \<Rightarrow> Magic res" where
  "Magic_try_from A Y v = Magic_try_from_value Y (snapshot A v)"

datatype CmpOp = LT | LE | GT | GE | NEQ | EQ

fun cmp_op_to_string :: "CmpOp \<Rightarrow> string" where
  "cmp_op_to_string LE = ''<=''"
| "cmp_op_to_string LT = ''<''"
| "cmp_op_to_string GE = ''>=''"
| "cmp_op_to_string GT = ''>''"
| "cmp_op_to_string NEQ = ''!=''"
| "cmp_op_to_string EQ = ''==''"

definition CmpOp_try_from :: "Bytecode \<Rightarrow> CmpOp res" where
  "CmpOp_try_from b = (case b of
     BcCmp BLe \<Rightarrow> Inr LE | BcCmp BLt \<Rightarrow> Inr LT | BcCmp BGe \<Rightarrow> Inr GE | BcCmp BGt \<Rightarrow> Inr GT
   | BcCmp BNeq \<Rightarrow> Inr NEQ | BcCmp BEq \<Rightarrow> Inr EQ
   | _ \<Rightarrow> Inl (Err (Other ''can not convert into Cmpop'')))"

datatype 'b Log =
    CmpLog Magic Magic CmpOp "'b option"
  | ShlLog Magic Magic "'b option"
  | CastLog Magic "'b option"

fun log_to_string :: "ByteApi \<Rightarrow> 'b Log \<Rightarrow> string option" where
  "log_to_string Y (CmpLog lhs rhs op _) =
     Some (magic_to_string Y lhs @ cmp_op_to_string op @ magic_to_string Y rhs)"
| "log_to_string Y _ = None"

section \<open>Packages\<close>

text \<open>What the code reads of a compiled module: the number of declared fields of a struct (\<open>None\<close>
  for a native one), instantiations, variant handles and the fields of a variant.\<close>

record 'm ModuleApi =
  deserialize_with_defaults :: "u8 list \<Rightarrow> 'm option"
  self_id :: "'m \<Rightarrow> MoveModuleId"
  struct_def_fields :: "'m \<Rightarrow> u16 \<Rightarrow> nat option"
  struct_instantiation_def :: "'m \<Rightarrow> u16 \<Rightarrow> u16"
  variant_handle_at :: "'m \<Rightarrow> u16 \<Rightarrow> u16 \<times> u16"
  variant_instantiation_handle_at :: "'m \<Rightarrow> u16 \<Rightarrow> u16 \<times> u16"
  enum_instantiation_def :: "'m \<Rightarrow> u16 \<Rightarrow> u16"
  variant_def_fields :: "'m \<Rightarrow> u16 \<Rightarrow> u16 \<Rightarrow> nat"

type_synonym 'm PackageResolvedCache = "(MoveAddress, (MoveModuleId, 'm) btree) btree"

definition module_ref :: "'m PackageResolvedCache \<Rightarrow> MoveModuleId \<Rightarrow> MoveAddress \<Rightarrow> 'm option" where
  "module_ref packages module_id package_id =
     Option.bind (bt_get packages package_id) (\<lambda>v. bt_get v module_id)"

text \<open>\<open>get_package_object\<close>: an error, no package, or the serialized modules in name order. The
  modules inserted before one that does not deserialize stay in the cache.\<close>

type_synonym package_store = "MoveAddress \<Rightarrow> u8 list list option res"

fun load_modules ::
  "'m ModuleApi \<Rightarrow> MoveAddress \<Rightarrow> u8 list list \<Rightarrow> 'm PackageResolvedCache
     \<Rightarrow> 'm PackageResolvedCache \<times> MovyError option" where
  "load_modules M package_id [] packages = (packages, None)"
| "load_modules M package_id (md # rest) packages =
     (case deserialize_with_defaults M md of
        None \<Rightarrow> (packages, Some (Other ''deserialize''))
      | Some m \<Rightarrow>
          load_modules M package_id rest
            (bt_insert package_id
              (bt_insert (self_id M m) m (or_default [] (bt_get packages package_id))) packages))"

definition may_load_package ::
  "'m ModuleApi \<Rightarrow> package_store \<Rightarrow> MoveAddress \<Rightarrow> 'm PackageResolvedCache
     \<Rightarrow> ('m PackageResolvedCache \<times> MovyError option) res" where
  "may_load_package M db package_id packages =
     (if bt_get packages package_id \<noteq> None then Inr (packages, None)
      else case db package_id of
        Inl (Panic p) \<Rightarrow> Inl (Panic p)
      | Inl (Err e) \<Rightarrow> Inr (packages, Some e)
      | Inr None \<Rightarrow> Inr (packages, Some (Other ''package missing from the db''))
      | Inr (Some modules) \<Rightarrow> Inr (load_modules M package_id modules packages))"

definition declared_fields :: "nat option \<Rightarrow> nat" where
  "declared_fields info = (case info of None \<Rightarrow> 0 | Some n \<Rightarrow> n)"

definition from_resolver ::
  "'m ModuleApi \<Rightarrow> Bytecode \<Rightarrow> 'm PackageResolvedCache \<Rightarrow> MoveAddress \<Rightarrow> MoveModuleId
     \<Rightarrow> InstructionExtraInformation option" where
  "from_resolver M instruction packages package_id module_id =
     (let struct_fields = (\<lambda>m i. declared_fields (struct_def_fields M m i));
          struct_inst_fields = (\<lambda>m i. declared_fields (struct_def_fields M m (struct_instantiation_def M m i)));
          variant_fields = (\<lambda>m i. case variant_handle_at M m i of (enum_def, variant) \<Rightarrow>
            variant_def_fields M m enum_def variant);
          variant_inst_fields = (\<lambda>m i. case variant_instantiation_handle_at M m i of (enum_inst, variant) \<Rightarrow>
            variant_def_fields M m (enum_instantiation_def M m enum_inst) variant);
          count = (\<lambda>mk fields i. map_option (\<lambda>m. mk (fields m i)) (module_ref packages module_id package_id))
      in case instruction of
        BcUnpackOp kind i \<Rightarrow>
          (case kind of
             BUnpack \<Rightarrow> count XUnpack struct_fields i
           | BUnpackVariant \<Rightarrow> count XUnpackVariant variant_fields i
           | BUnpackVariantImmRef \<Rightarrow> count XUnpackVariant variant_fields i
           | BUnpackVariantMutRef \<Rightarrow> count XUnpackVariant variant_fields i
           | BUnpackGeneric \<Rightarrow> count XUnpackGeneric struct_inst_fields i
           | BUnpackVariantGeneric \<Rightarrow> count XUnpackVariantGeneric variant_inst_fields i
           | BUnpackVariantGenericImmRef \<Rightarrow> count XUnpackVariantGeneric variant_inst_fields i
           | BUnpackVariantGenericMutRef \<Rightarrow> count XUnpackVariantGeneric variant_inst_fields i)
      | BcPackOp kind i \<Rightarrow>
          (case kind of
             BPack \<Rightarrow> count XPack struct_fields i
           | BPackGeneric \<Rightarrow> count XPackGeneric struct_inst_fields i
           | BPackVariant \<Rightarrow> count XPackVariant variant_fields i
           | BPackVariantGeneric \<Rightarrow> count XPackVariantGeneric variant_inst_fields i)
      | _ \<Rightarrow> None)"

section \<open>Coverage\<close>

text \<open>\<open>cov_map\<close> is the observer's map, \<open>None\<close> when the observer is not in the tuple.\<close>

record CoverageTracer =
  packages :: "u64 list"
  had_br :: bool
  prev :: u64
  cov_map :: "u8 list option"

definition CoverageTracer_new :: "u8 list option \<Rightarrow> CoverageTracer" where
  "CoverageTracer_new m = \<lparr>packages = [], had_br = False, prev = 0, cov_map = m\<rparr>"

definition u8_saturating_add :: "u8 \<Rightarrow> u8 \<Rightarrow> u8" where
  "u8_saturating_add a b = (if unat a + unat b > 255 then 255 else a + b)"

definition hit_cov :: "u16 \<Rightarrow> CoverageTracer \<Rightarrow> CoverageTracer res" where
  "hit_cov pc cov =
     (case cov_map cov of
        None \<Rightarrow> Inr cov
      | Some m \<Rightarrow>
          if m = [] then Inr cov
          else if packages cov = [] then Inl (Panic ''stack empty?!'')
          else let pkg = last (packages cov);
                   pc = (ucast pc :: u64);
                   pc = (drop_bit 4 pc XOR push_bit 8 pc) XOR pkg;
                   len = (of_nat (length m) :: u64);
                   hit = unat ((prev cov XOR pc) mod len)
            in if hit < length m
               then Inr (cov\<lparr>prev := pc, cov_map := Some (m[hit := u8_saturating_add (m ! hit) 1])\<rparr>)
               else Inl (Panic ''index out of bounds''))"

definition call_package :: "(string \<Rightarrow> u64) \<Rightarrow> string \<Rightarrow> CoverageTracer \<Rightarrow> CoverageTracer" where
  "call_package hash_package package cov =
     cov\<lparr>packages := packages cov @ [hash_package package], had_br := True\<rparr>"

definition call_end_package :: "CoverageTracer \<Rightarrow> CoverageTracer" where
  "call_end_package cov = cov\<lparr>packages := butlast (packages cov), had_br := True\<rparr>"

definition will_branch :: "CoverageTracer \<Rightarrow> CoverageTracer" where
  "will_branch cov = cov\<lparr>had_br := True\<rparr>"

definition may_do_coverage :: "u16 \<Rightarrow> CoverageTracer \<Rightarrow> CoverageTracer res" where
  "may_do_coverage pc cov = (if had_br cov then hit_cov pc (cov\<lparr>had_br := False\<rparr>) else Inr cov)"

section \<open>The fuzz tracer\<close>

record ('i, 'b, 'f) TraceOutcome =
  pending_error :: "MovyError option"
  logs :: "(FunctionIdent, 'b Log list) btree"
  verdict :: ExitKind
  findings :: "'f list"
  concolic :: "'i ConcolicState"

definition TraceOutcome_new :: "('i, 'b, 'f) TraceOutcome" where
  "TraceOutcome_new = \<lparr>pending_error = None, logs = [], verdict = ExitOk, findings = [],
     concolic = ConcolicState_new\<rparr>"

record ('o, 's, 'i, 'b, 'f, 'm) SuiFuzzTracer =
  current_functions :: "(MoveAddress \<times> FunctionIdent) list"
  coverage :: CoverageTracer
  fuzz_state :: 's
  outcome :: "('i, 'b, 'f) TraceOutcome"
  oracle_state :: 'o
  skip_concolic :: bool
  resolver_cache :: "'m PackageResolvedCache"

text \<open>Everything the tracer calls: the VM's values, the solver, the oracles and the packages.\<close>

record ('o, 's, 'i, 'b, 'db, 'fx, 'f, 'm) FuzzApi =
  fa_trace :: TraceApi
  fa_z3 :: "('i, 'b) Z3"
  fa_bytes :: ByteApi
  fa_oracles :: "('o, 'i, 's, 'db, 'fx, 'f) SuiGeneralOracle"
  fa_module :: "'m ModuleApi"
  fa_store :: package_store
  fa_hash :: "string \<Rightarrow> u64"
  fa_canonical :: "MoveAddress \<Rightarrow> string"

definition SuiFuzzTracer_new ::
  "u8 list option \<Rightarrow> 's \<Rightarrow> 'o \<Rightarrow> 'm PackageResolvedCache \<Rightarrow> ('o, 's, 'i, 'b, 'f, 'm) SuiFuzzTracer" where
  "SuiFuzzTracer_new ob st o1 cache = \<lparr>current_functions = [], coverage = CoverageTracer_new ob,
     fuzz_state = st, outcome = TraceOutcome_new, oracle_state = o1, skip_concolic = False,
     resolver_cache = cache\<rparr>"

definition bin_ops :: "TraceApi \<Rightarrow> ByteApi \<Rightarrow> TraceValue list \<Rightarrow> (Magic \<times> Magic) res" where
  "bin_ops A Y stack =
     (if length stack < 2 then Inl (Err (Other ''stack less than 2?!''))
      else bindR (Magic_try_from A Y (stack ! (length stack - 2))) (\<lambda>lhs.
           bindR (Magic_try_from A Y (stack ! (length stack - 1))) (\<lambda>rhs. Inr (lhs, rhs))))"

text \<open>\<open>logs.entry(current_functions.first()).or_default().push(log)\<close>, nothing without a function.\<close>

definition push_log ::
  "'b Log \<Rightarrow> ('o, 's, 'i, 'b, 'f, 'm) SuiFuzzTracer \<Rightarrow> ('o, 's, 'i, 'b, 'f, 'm) SuiFuzzTracer" where
  "push_log entry t = (case current_functions t of
     [] \<Rightarrow> t
   | (_, f) # _ \<Rightarrow> t\<lparr>outcome := (outcome t)\<lparr>logs := bt_push f entry (logs (outcome t))\<rparr>\<rparr>)"

text \<open>The \<open>match instruction\<close> at the end of \<open>before_instruction\<close>.\<close>

definition log_instruction ::
  "('o, 's, 'i, 'b, 'db, 'fx, 'f, 'm) FuzzApi \<Rightarrow> TraceState \<Rightarrow> Bytecode \<Rightarrow> 'b option
     \<Rightarrow> ('o, 's, 'i, 'b, 'f, 'm) SuiFuzzTracer
     \<Rightarrow> (('o, 's, 'i, 'b, 'f, 'm) SuiFuzzTracer \<times> MovyError option) res" where
  "log_instruction X st instruction constraint t =
     (let branch = Inr (t\<lparr>coverage := will_branch (coverage t)\<rparr>, None) in
      case instruction of
        BcBrFalse _ \<Rightarrow> branch
      | BcBrTrue _ \<Rightarrow> branch
      | BcBranch _ \<Rightarrow> branch
      | BcVariantSwitch _ \<Rightarrow> branch
      | BcCmp _ \<Rightarrow>
          (case bin_ops (fa_trace X) (fa_bytes X) (operand_stack st) of
             Inl (Panic p) \<Rightarrow> Inl (Panic p)
           | Inl (Err _) \<Rightarrow> Inr (t, None)
           | Inr (lhs, rhs) \<Rightarrow>
               if current_functions t = [] then Inr (t, None)
               else (case CmpOp_try_from instruction of
                   Inl (Panic p) \<Rightarrow> Inl (Panic p)
                 | Inl (Err e) \<Rightarrow> Inr (t, Some e)
                 | Inr op \<Rightarrow> Inr (push_log (CmpLog lhs rhs op constraint) t, None)))
      | BcShl \<Rightarrow>
          (case bin_ops (fa_trace X) (fa_bytes X) (operand_stack st) of
             Inl (Panic p) \<Rightarrow> Inl (Panic p)
           | Inl (Err _) \<Rightarrow> Inr (t, None)
           | Inr (lhs, rhs) \<Rightarrow> Inr (push_log (ShlLog lhs rhs constraint) t, None))
      | BcCast ty \<Rightarrow>
          if ty = I256 \<or> operand_stack st = [] then Inr (t, None)
          else (case Magic_try_from (fa_trace X) (fa_bytes X) (last (operand_stack st)) of
              Inl (Panic p) \<Rightarrow> Inl (Panic p)
            | Inl (Err e) \<Rightarrow> Inr (t, Some e)
            | Inr lhs \<Rightarrow> Inr (push_log (CastLog lhs constraint) t, None))
      | _ \<Rightarrow> Inr (t, None))"

text \<open>The calls of the oracles' hook, \<open>Inl e\<close> for an error.\<close>

definition ask_oracles ::
  "('o, 's, 'i, 'b, 'db, 'fx, 'f, 'm) FuzzApi \<Rightarrow> TraceState \<Rightarrow> u16 \<Rightarrow> Bytecode
     \<Rightarrow> ('o, 's, 'i, 'b, 'f, 'm) SuiFuzzTracer
     \<Rightarrow> (MovyError + ('o, 's, 'i, 'b, 'f, 'm) SuiFuzzTracer) res" where
  "ask_oracles X st pc instruction t =
     (if current_functions t = [] then Inr (Inr t)
      else case o_before_instruction (fa_oracles X) pc instruction st (concolic (outcome t))
          (snd (last (current_functions t))) (oracle_state t) (fuzz_state t) of
        Inl (Panic p) \<Rightarrow> Inl (Panic p)
      | Inl (Err e) \<Rightarrow> Inr (Inl e)
      | Inr (o1, s, fs) \<Rightarrow>
          Inr (Inr (t\<lparr>oracle_state := o1, fuzz_state := s,
            outcome := (outcome t)\<lparr>verdict := (if fs \<noteq> [] then ExitCrash else verdict (outcome t)),
              findings := findings (outcome t) @ fs\<rparr>\<rparr>)))"

definition fuzz_before_instruction ::
  "('o, 's, 'i, 'b, 'db, 'fx, 'f, 'm) FuzzApi \<Rightarrow> TraceState \<Rightarrow> u16 \<Rightarrow> Bytecode
     \<Rightarrow> ('o, 's, 'i, 'b, 'f, 'm) SuiFuzzTracer
     \<Rightarrow> (('o, 's, 'i, 'b, 'f, 'm) SuiFuzzTracer \<times> MovyError option) res" where
  "fuzz_before_instruction X st pc instruction t =
     bindR (ask_oracles X st pc instruction t) (\<lambda>asked. case asked of
       Inl e \<Rightarrow> Inr (t, Some e)
     | Inr t \<Rightarrow>
         (let xinfo = (if current_functions t = [] then None
              else case last (current_functions t) of (pkg, md) \<Rightarrow>
                from_resolver (fa_module X) instruction (resolver_cache t) pkg (ident_module md)) in
          bindR (if skip_concolic t then Inr (concolic (outcome t), None)
                 else on_before_instruction_inner (fa_trace X) (fa_z3 X) instruction st xinfo
                   (concolic (outcome t))) (\<lambda>(c, constraint).
          bindR (may_do_coverage pc (coverage t)) (\<lambda>cov.
            log_instruction X st instruction constraint
              (t\<lparr>outcome := (outcome t)\<lparr>concolic := c\<rparr>, coverage := cov\<rparr>)))))"

definition fuzz_open_frame ::
  "('o, 's, 'i, 'b, 'db, 'fx, 'f, 'm) FuzzApi \<Rightarrow> Frame \<Rightarrow> ('o, 's, 'i, 'b, 'f, 'm) SuiFuzzTracer
     \<Rightarrow> ('o, 's, 'i, 'b, 'f, 'm) SuiFuzzTracer res" where
  "fuzz_open_frame X frame t =
     bindR (may_load_package (fa_module X) (fa_store X) (version_id frame) (resolver_cache t)) (\<lambda>(cache, _).
       let t = t\<lparr>resolver_cache := cache\<rparr>;
           t = (if skip_concolic t then t
                else t\<lparr>outcome := (outcome t)\<lparr>concolic :=
                  on_open_frame_inner (fa_z3 X) frame (concolic (outcome t))\<rparr>\<rparr>);
           package = fa_canonical X (module_address (frame_module frame)) @ ''::''
             @ mod_name (frame_module frame) @ ''::'' @ function_name frame
       in Inr (t\<lparr>current_functions := current_functions t @ [(version_id frame,
                 FunctionIdent_new (module_address (frame_module frame)) (mod_name (frame_module frame))
                   (function_name frame))],
               coverage := call_package (fa_hash X) package (coverage t)\<rparr>))"

definition fuzz_close_frame ::
  "('o, 's, 'i, 'b, 'f, 'm) SuiFuzzTracer \<Rightarrow> ('o, 's, 'i, 'b, 'f, 'm) SuiFuzzTracer" where
  "fuzz_close_frame t =
     (let t = (if skip_concolic t then t
               else t\<lparr>outcome := (outcome t)\<lparr>concolic := on_close_frame_inner (concolic (outcome t))\<rparr>\<rparr>)
      in t\<lparr>coverage := call_end_package (coverage t), current_functions := butlast (current_functions t)\<rparr>)"

definition fuzz_on_raw_event ::
  "TraceState \<Rightarrow> TraceEvent \<Rightarrow> ('o, 's, 'i, 'b, 'f, 'm) SuiFuzzTracer
     \<Rightarrow> ('o, 's, 'i, 'b, 'f, 'm) SuiFuzzTracer" where
  "fuzz_on_raw_event st ev t =
     (case on_raw_event_inner ev st (concolic (outcome t)) of (c, keep) \<Rightarrow>
        t\<lparr>outcome := (outcome t)\<lparr>concolic := c\<rparr>, skip_concolic := \<not> keep\<rparr>)"

definition fuzz_tracer ::
  "('o, 's, 'i, 'b, 'db, 'fx, 'f, 'm) FuzzApi \<Rightarrow> ('o, 's, 'i, 'b, 'f, 'm) SuiFuzzTracer TracerExt" where
  "fuzz_tracer X = \<lparr>
     on_raw_event = \<lambda>st ev t. Inr (fuzz_on_raw_event st ev t, True),
     on_move_call = \<lambda>_ t. Inr (if skip_concolic t then t
       else t\<lparr>outcome := (outcome t)\<lparr>concolic := on_move_call_inner (concolic (outcome t))\<rparr>\<rparr>),
     on_effect = \<lambda>_ _ t. Inr t,
     open_frame = \<lambda>_ frame _ t. fuzz_open_frame X frame t,
     close_frame = \<lambda>_ _ _ _ t. Inr (fuzz_close_frame t),
     before_instruction = \<lambda>st _ pc _ instruction t.
       bindR (fuzz_before_instruction X st pc instruction t) (\<lambda>(t, _). Inr t)\<rparr>"

section \<open>Invariant of a run\<close>

definition fuzz_inv :: "nat option \<Rightarrow> ('o, 's, 'i, 'b, 'f, 'm) SuiFuzzTracer \<Rightarrow> bool" where
  "fuzz_inv n t \<longleftrightarrow> length (packages (coverage t)) = length (current_functions t)
     \<and> (verdict (outcome t) = ExitCrash \<longleftrightarrow> findings (outcome t) \<noteq> [])
     \<and> map_option length (cov_map (coverage t)) = n \<and> bt_wf (logs (outcome t))"

lemma may_do_coverage_frame:
  assumes "may_do_coverage pc cov = Inr cov'"
  shows "packages cov' = packages cov" "map_option length (cov_map cov') = map_option length (cov_map cov)"
  using assms by (auto simp: may_do_coverage_def hit_cov_def Let_def split: if_splits option.splits)

lemma push_log_inv [simp]: "fuzz_inv n (push_log entry t) = fuzz_inv n t" if "bt_wf (logs (outcome t))"
  using that by (auto simp: push_log_def fuzz_inv_def bt_wf split: list.splits)

lemma log_instruction_inv:
  assumes "log_instruction X st b q t = Inr (t', e)" "fuzz_inv n t"
  shows "fuzz_inv n t'"
proof -
  have "bt_wf (logs (outcome t))" using assms(2) by (simp add: fuzz_inv_def)
  note [simp] = push_log_inv [OF this]
  have [simp]: "fuzz_inv n (t\<lparr>coverage := will_branch (coverage t)\<rparr>)"
    using assms(2) by (simp add: fuzz_inv_def will_branch_def)
  show ?thesis
    using assms
    by (cases b) (auto simp: log_instruction_def Let_def split: sum.split_asm fault.split_asm if_splits)
qed

lemma ask_oracles_inv:
  assumes "ask_oracles X st pc b t = Inr (Inr t')" "fuzz_inv n t"
  shows "fuzz_inv n t'"
  using assms by (auto simp: ask_oracles_def fuzz_inv_def split: if_splits sum.split_asm fault.split_asm)

lemma before_instruction_inv:
  assumes "fuzz_before_instruction X st pc b t = Inr (t', e)" "fuzz_inv n t"
  shows "fuzz_inv n t'"
proof -
  from assms(1) consider "t' = t" | t1 c q cov where "ask_oracles X st pc b t = Inr (Inr t1)"
      "may_do_coverage pc (coverage t1) = Inr cov"
      "log_instruction X st b q (t1\<lparr>outcome := (outcome t1)\<lparr>concolic := c\<rparr>, coverage := cov\<rparr>) = Inr (t', e)"
    by (auto simp: fuzz_before_instruction_def Let_def elim!: bindR_InrE split: sum.split_asm prod.split_asm)
  then show ?thesis
  proof cases
    case 2
    have "fuzz_inv n (t1\<lparr>outcome := (outcome t1)\<lparr>concolic := c\<rparr>, coverage := cov\<rparr>)"
      using ask_oracles_inv [OF 2(1) assms(2)] may_do_coverage_frame [OF 2(2)] by (simp add: fuzz_inv_def)
    then show ?thesis by (rule log_instruction_inv [OF 2(3)])
  qed (use assms(2) in simp)
qed

lemma fuzz_dispatch_inv:
  assumes "dispatch (fuzz_tracer X) st ev t = Inr t'" "fuzz_inv n t"
  shows "fuzz_inv n t'"
proof (cases ev)
  case (InstructionEv tys pc g b)
  then show ?thesis
    using assms before_instruction_inv [of X st pc b t t' _ n]
    by (auto simp: dispatch_def fuzz_tracer_def elim!: bindR_InrE)
qed (use assms in \<open>auto simp: dispatch_def fuzz_tracer_def fuzz_open_frame_def fuzz_close_frame_def
    call_package_def call_end_package_def fuzz_inv_def Let_def split: if_splits elim!: bindR_InrE\<close>)

lemma fuzz_notify_inv:
  assumes "notify A (fuzz_tracer X) w ev = Inr w'" "fuzz_inv n (tracer w)"
  shows "fuzz_inv n (tracer w')"
proof -
  obtain t where t: "t = fuzz_on_raw_event (wrapper_state w) ev (tracer w)"
    and d: "dispatch (fuzz_tracer X) (wrapper_state w) ev t = Inr (tracer w')"
    using assms(1) by (auto simp: notify_def fuzz_tracer_def elim!: bindR_InrE split: if_splits)
  have "fuzz_inv n t"
    using assms(2) by (auto simp: t fuzz_on_raw_event_def fuzz_inv_def split: prod.splits)
  then show ?thesis by (rule fuzz_dispatch_inv [OF d])
qed

section \<open>Properties\<close>

text \<open>
  A coverage hit inside a frame never fails: the index is inside the map, exactly the cell it
  names is incremented, saturating at 255, and nothing else of the map changes.
\<close>
theorem hit_cov_total:
  assumes "packages cov \<noteq> []" "cov_map cov = Some m" "m \<noteq> []" "length m < 2 ^ 64"
  shows "\<exists>cov' hit. hit_cov pc cov = Inr cov' \<and> hit < length m
    \<and> cov_map cov' = Some (m[hit := (if m ! hit = 255 then 255 else m ! hit + 1)])
    \<and> packages cov' = packages cov"
proof -
  let ?pc = "(drop_bit 4 (ucast pc :: u64) XOR push_bit 8 (ucast pc)) XOR last (packages cov)"
  let ?hit = "unat ((prev cov XOR ?pc) mod of_nat (length m))"
  have "unat (of_nat (length m) :: u64) = length m" using assms(4) by (simp add: unsigned_of_nat take_bit_nat_eq_self)
  then have hit: "?hit < length m"
    using assms(3) by (simp add: unat_mod_distrib)
  have sat: "u8_saturating_add v 1 = (if v = 255 then 255 else v + 1)" for v :: u8
  proof -
    have "unat v = 255 \<longleftrightarrow> v = 255" using word_unat_eq_iff [of v 255] by simp
    moreover have "unat v < 256" using unsigned_less [of v, where 'a = nat] by simp
    ultimately show ?thesis by (auto simp: u8_saturating_add_def)
  qed
  show ?thesis
    using assms hit by (intro exI [of _ "cov\<lparr>prev := ?pc,
        cov_map := Some (m[?hit := u8_saturating_add (m ! ?hit) 1])\<rparr>"] exI [of _ ?hit])
      (simp add: hit_cov_def Let_def sat)
qed

text \<open>
  C14: over every trace the verdict is a crash exactly when an oracle made a finding, the stack of
  package hashes has one entry per open function, and the coverage map keeps its size.
\<close>
theorem fuzz_tracer_invariant:
  assumes "foldR (notify A (fuzz_tracer X)) \<lparr>tracer = SuiFuzzTracer_new ob s o1 cache, wrapper_state = st\<rparr> evs
    = Inr w"
  shows "(verdict (outcome (tracer w)) = ExitCrash \<longleftrightarrow> findings (outcome (tracer w)) \<noteq> [])
    \<and> length (packages (coverage (tracer w))) = length (current_functions (tracer w))
    \<and> map_option length (cov_map (coverage (tracer w))) = map_option length ob"
proof -
  have "fuzz_inv (map_option length ob) (SuiFuzzTracer_new ob s o1 cache)"
    by (simp add: fuzz_inv_def SuiFuzzTracer_new_def CoverageTracer_new_def TraceOutcome_new_def)
  then have "fuzz_inv (map_option length ob) (tracer w)"
    using foldR_invariant [where P = "\<lambda>w. fuzz_inv (map_option length ob) (tracer w)",
        OF fuzz_notify_inv _ assms] by simp
  then show ?thesis by (simp add: fuzz_inv_def)
qed

theorem hit_cov_total_witness:
  "\<exists>cov' hit. hit_cov 35 \<lparr>packages = [9], had_br = False, prev = 6, cov_map = Some [0, 255, 7]\<rparr> = Inr cov'
    \<and> hit < length [0 :: u8, 255, 7]
    \<and> cov_map cov' = Some ([0, 255, 7][hit := (if [0 :: u8, 255, 7] ! hit = 255 then 255
        else [0, 255, 7] ! hit + 1)])
    \<and> packages cov' = packages \<lparr>packages = [9], had_br = False, prev = 6, cov_map = Some [0, 255, 7]\<rparr>"
  by (rule hit_cov_total) simp_all

definition demo_fuzz ::
  "(unit, 's, assignment \<Rightarrow> int, assignment \<Rightarrow> bool, 'db, 'fx, 'f, unit) FuzzApi" where
  "demo_fuzz = \<lparr>fa_trace = runtime_api, fa_z3 = den_api,
     fa_bytes = \<lparr>address_bytes = \<lambda>_. [], name_bytes = \<lambda>_. [], hex_encode = \<lambda>_. []\<rparr>,
     fa_oracles = unit_oracle,
     fa_module = \<lparr>deserialize_with_defaults = \<lambda>_. None, self_id = \<lambda>_. \<lparr>module_address = 7, mod_name = ''m''\<rparr>,
       struct_def_fields = \<lambda>_ _. None, struct_instantiation_def = \<lambda>_ i. i, variant_handle_at = \<lambda>_ i. (i, i),
       variant_instantiation_handle_at = \<lambda>_ i. (i, i), enum_instantiation_def = \<lambda>_ i. i,
       variant_def_fields = \<lambda>_ _ _. 0\<rparr>,
     fa_store = \<lambda>_. Inr None, fa_hash = \<lambda>s. of_nat (length s), fa_canonical = \<lambda>_. ''0x7''\<rparr>"

theorem fuzz_tracer_invariant_witness:
  "\<exists>w. foldR (notify runtime_api (fuzz_tracer (demo_fuzz :: (unit, unit, _, _, unit, unit, unit, unit) FuzzApi)))
      \<lparr>tracer = SuiFuzzTracer_new (Some [0, 0, 0]) () () [], wrapper_state = TraceState_new\<rparr>
      [OpenFrame (demo_frame 0) 9, InstructionEv [] 3 8 BcLdTrue] = Inr w
    \<and> (verdict (outcome (tracer w)) = ExitCrash \<longleftrightarrow> findings (outcome (tracer w)) \<noteq> [])
    \<and> length (packages (coverage (tracer w))) = length (current_functions (tracer w))
    \<and> map_option length (cov_map (coverage (tracer w))) = map_option length (Some [0 :: u8, 0, 0])"
proof -
  have "\<exists>w. foldR (notify runtime_api (fuzz_tracer (demo_fuzz :: (unit, unit, _, _, unit, unit, unit, unit) FuzzApi)))
      \<lparr>tracer = SuiFuzzTracer_new (Some [0, 0, 0]) () () [], wrapper_state = TraceState_new\<rparr>
      [OpenFrame (demo_frame 0) 9, InstructionEv [] 3 8 BcLdTrue] = Inr w"
    by (simp add: notify_def fuzz_tracer_def SuiFuzzTracer_new_def CoverageTracer_new_def
        TraceOutcome_new_def TraceState_new_def fuzz_on_raw_event_def on_raw_event_inner_def
        ConcolicState_new_def dispatch_def fuzz_open_frame_def may_load_package_def demo_fuzz_def
        on_open_frame_inner_def demo_frame_def call_package_def apply_event_def open_locals_def
        fuzz_before_instruction_def ask_oracles_def unit_oracle_def default_oracle_def no_findings_def
        from_resolver_def on_before_instruction_inner_def may_do_coverage_def hit_cov_def
        log_instruction_def Let_def)
  then show ?thesis using fuzz_tracer_invariant by fast
qed

end
