(* ===== verification/Cached_Store.thy ===== *)
theory Cached_Store
  imports Move_Types
begin

text \<open>
  \<open>movy-sui/src/database\<close>, files \<open>cache.rs\<close> and \<open>file.rs\<close>: the object caches in front of a forked
  chain, one in memory with tombstones for deleted objects, one on disk without. Both keep every
  version of an object and read through to the backing store, whose reads are the parameter record
  \<open>ObjectStore\<close>. The interior mutability of the source is explicit state passing. On disk the
  objects are an ordered map on the decoded keys, id first and version second, which is the order
  of the encoded keys; failures of the database itself are not modelled. The common contract of
  the two caches is the locale \<open>version_cache\<close>.
\<close>

section \<open>Objects and stores\<close>

type_synonym ObjectID = MoveAddress

record 'c Object =
  object_id :: ObjectID
  object_version :: u64
  object_contents :: 'c

record 'c ObjectStore =
  store_get_object :: "ObjectID \<Rightarrow> 'c Object option"
  store_get_object_by_key :: "ObjectID \<Rightarrow> u64 \<Rightarrow> 'c Object option"
  store_get_package_object :: "ObjectID \<Rightarrow> 'c Object option res"
  store_get_object_received :: "ObjectID \<Rightarrow> ObjectID \<Rightarrow> u64 \<Rightarrow> u64 \<Rightarrow> 'c Object option res"
  store_read_child_object :: "ObjectID \<Rightarrow> ObjectID \<Rightarrow> u64 \<Rightarrow> 'c Object option res"

text \<open>What a commit reads of the temporary store and of the effects of a transaction.\<close>

record 'c InnerTemporaryStore =
  written :: "(ObjectID, 'c Object) btree"
  input_objects :: "(ObjectID, 'c Object) btree"
  lamport_version :: u64
  stream_ended_consensus_objects :: "(ObjectID, u64) btree"

record CommitEffects =
  deleted :: "(ObjectID \<times> u64) list"
  transferred_from_consensus :: "(ObjectID \<times> u64) list"
  consensus_owner_changed :: "(ObjectID \<times> u64) list"
  stream_ended_mutably_accessed :: "ObjectID list"

section \<open>The snapshot\<close>

type_synonym 'c versions = "(u64, 'c Object option) btree"

type_synonym 'c CachedSnapshot = "(ObjectID, 'c versions) btree"

datatype 'c ResolvedResult = Unbound | KnownNotExisting | Existing "'c Object"

fun into_object :: "'c ResolvedResult \<Rightarrow> 'c Object option" where
  "into_object Unbound = None"
| "into_object KnownNotExisting = None"
| "into_object (Existing obj) = Some obj"

definition object_exact_version :: "'c CachedSnapshot \<Rightarrow> ObjectID \<Rightarrow> u64 \<Rightarrow> 'c Object option" where
  "object_exact_version objects oid version =
     (case bt_get objects oid of
        None \<Rightarrow> None
      | Some t \<Rightarrow> (case bt_get t version of None \<Rightarrow> None | Some x \<Rightarrow> x))"

definition resolve_versions :: "'c versions \<Rightarrow> u64 \<Rightarrow> 'c ResolvedResult" where
  "resolve_versions vmap upbound =
     (case filter (\<lambda>(v, _). v \<le> upbound) vmap of
        [] \<Rightarrow> Unbound
      | below \<Rightarrow> (case snd (last below) of None \<Rightarrow> KnownNotExisting | Some obj \<Rightarrow> Existing obj))"

definition object_resolve_upperbound_details ::
  "'c CachedSnapshot \<Rightarrow> ObjectID \<Rightarrow> u64 \<Rightarrow> 'c ResolvedResult" where
  "object_resolve_upperbound_details objects oid upbound =
     (case bt_get objects oid of None \<Rightarrow> Unbound | Some vmap \<Rightarrow> resolve_versions vmap upbound)"

definition object_resolved_upperbound ::
  "'c CachedSnapshot \<Rightarrow> ObjectID \<Rightarrow> u64 \<Rightarrow> 'c Object option" where
  "object_resolved_upperbound objects oid upbound =
     into_object (object_resolve_upperbound_details objects oid upbound)"

definition object_id_cached :: "'c CachedSnapshot \<Rightarrow> ObjectID \<Rightarrow> 'c Object option" where
  "object_id_cached objects oid = object_resolved_upperbound objects oid (- 1)"

definition cache_query ::
  "ObjectID \<Rightarrow> u64 \<Rightarrow> 'c Object option \<Rightarrow> 'c CachedSnapshot \<Rightarrow> 'c CachedSnapshot" where
  "cache_query oid version obj objects =
     bt_insert oid (bt_insert version obj
       (case bt_get objects oid of None \<Rightarrow> [] | Some vmap \<Rightarrow> vmap)) objects"

definition cache_object_only :: "'c Object \<Rightarrow> 'c CachedSnapshot \<Rightarrow> 'c CachedSnapshot" where
  "cache_object_only obj = cache_query (object_id obj) (object_version obj) (Some obj)"

section \<open>The cache in memory\<close>

text \<open>Operations return their result and the new snapshot.\<close>

definition cs_reset :: "'c CachedSnapshot \<Rightarrow> 'c CachedSnapshot \<times> 'c CachedSnapshot" where
  "cs_reset inner = (inner, [])"

definition cs_dump_snapshot :: "'c CachedSnapshot \<Rightarrow> 'c CachedSnapshot" where
  "cs_dump_snapshot inner = inner"

definition bt_extend :: "('k :: linorder, 'v) btree \<Rightarrow> ('k \<times> 'v) list \<Rightarrow> ('k, 'v) btree" where
  "bt_extend m ps = foldl (\<lambda>m p. bt_insert (fst p) (snd p) m) m ps"

definition cs_restore_snapshot :: "'c CachedSnapshot \<Rightarrow> 'c CachedSnapshot \<Rightarrow> 'c CachedSnapshot" where
  "cs_restore_snapshot dump inner =
     foldl (\<lambda>inner (obj_id, mp). bt_insert obj_id
         (bt_extend (case bt_get inner obj_id of None \<Rightarrow> [] | Some vmap \<Rightarrow> vmap) mp) inner) inner dump"

definition cs_get_package_object ::
  "'c ObjectStore \<Rightarrow> ObjectID \<Rightarrow> 'c CachedSnapshot \<Rightarrow> ('c Object option \<times> 'c CachedSnapshot) res" where
  "cs_get_package_object store package_id inner =
     (case object_id_cached inner package_id of
        Some hit \<Rightarrow> Inr (Some hit, inner)
      | None \<Rightarrow> bindR (store_get_package_object store package_id) (\<lambda>hit.
          Inr (hit, (case hit of None \<Rightarrow> inner | Some obj \<Rightarrow> cache_object_only obj inner))))"

definition cs_get_object ::
  "'c ObjectStore \<Rightarrow> ObjectID \<Rightarrow> 'c CachedSnapshot \<Rightarrow> 'c Object option \<times> 'c CachedSnapshot" where
  "cs_get_object store oid inner =
     (case object_id_cached inner oid of
        Some hit \<Rightarrow> (Some hit, inner)
      | None \<Rightarrow>
          (case store_get_object store oid of
             None \<Rightarrow> (None, inner)
           | Some hit \<Rightarrow> (Some hit, cache_object_only hit inner)))"

definition cs_get_object_by_key ::
  "'c ObjectStore \<Rightarrow> ObjectID \<Rightarrow> u64 \<Rightarrow> 'c CachedSnapshot \<Rightarrow> 'c Object option \<times> 'c CachedSnapshot" where
  "cs_get_object_by_key store oid version inner =
     (case object_exact_version inner oid version of
        Some hit \<Rightarrow> (Some hit, inner)
      | None \<Rightarrow>
          (case store_get_object_by_key store oid version of
             None \<Rightarrow> (None, inner)
           | Some hit \<Rightarrow> (Some hit, cache_object_only hit inner)))"

definition cs_get_object_received_at_version ::
  "'c ObjectStore \<Rightarrow> ObjectID \<Rightarrow> ObjectID \<Rightarrow> u64 \<Rightarrow> u64 \<Rightarrow> 'c CachedSnapshot
     \<Rightarrow> ('c Object option \<times> 'c CachedSnapshot) res" where
  "cs_get_object_received_at_version store owner oid version epoch inner =
     (case object_exact_version inner oid version of
        Some hit \<Rightarrow> Inr (Some hit, inner)
      | None \<Rightarrow> bindR (store_get_object_received store owner oid version epoch) (\<lambda>hit.
          Inr (hit, (case hit of None \<Rightarrow> inner | Some obj \<Rightarrow> cache_object_only obj inner))))"

definition cs_read_child_object ::
  "'c ObjectStore \<Rightarrow> ObjectID \<Rightarrow> ObjectID \<Rightarrow> u64 \<Rightarrow> 'c CachedSnapshot
     \<Rightarrow> ('c Object option \<times> 'c CachedSnapshot) res" where
  "cs_read_child_object store parent child upbound inner =
     (let miss = bindR (store_read_child_object store parent child upbound) (\<lambda>hit.
            Inr (hit, (case hit of None \<Rightarrow> cache_query child upbound None inner
                       | Some obj \<Rightarrow> cache_object_only obj inner)))
      in case object_resolve_upperbound_details inner child upbound of
        KnownNotExisting \<Rightarrow> Inr (None, inner)
      | Existing hit \<Rightarrow> if object_version hit = upbound then Inr (Some hit, inner) else miss
      | Unbound \<Rightarrow> miss)"

definition cs_commit_single_object :: "'c Object \<Rightarrow> 'c CachedSnapshot \<Rightarrow> 'c CachedSnapshot" where
  "cs_commit_single_object obj inner = cache_object_only obj inner"

definition removed_refs :: "CommitEffects \<Rightarrow> (ObjectID \<times> u64) list" where
  "removed_refs effects =
     deleted effects @ transferred_from_consensus effects @ consensus_owner_changed effects"

text \<open>The removals, each of which takes its object from \<open>input_objects\<close>: the ids and versions that
  were there, and what is left.\<close>

fun take_inputs ::
  "(ObjectID \<times> u64) list \<Rightarrow> (ObjectID, 'c Object) btree
     \<Rightarrow> (ObjectID \<times> u64) list \<times> (ObjectID, 'c Object) btree" where
  "take_inputs [] ins = ([], ins)"
| "take_inputs ((oid, version) # refs) ins =
     (if bt_get ins oid = None then take_inputs refs ins
      else case take_inputs refs (bt_remove oid ins) of (rs, ins) \<Rightarrow> ((oid, version) # rs, ins))"

definition stream_ended_id ::
  "(ObjectID, 'c Object) btree \<Rightarrow> (ObjectID, u64) btree \<Rightarrow> ObjectID \<Rightarrow> ObjectID res" where
  "stream_ended_id ins ended oid = (case bt_get ins oid of
     Some obj \<Rightarrow> Inr (object_id obj)
   | None \<Rightarrow> (case bt_get ended oid of
       Some _ \<Rightarrow> Inr oid
     | None \<Rightarrow> Inl (Panic ''stream-ended object must be in either input_objects or stream_ended_consensus_objects'')))"

definition cs_commit_store ::
  "'c InnerTemporaryStore \<Rightarrow> CommitEffects \<Rightarrow> 'c CachedSnapshot \<Rightarrow> 'c CachedSnapshot res" where
  "cs_commit_store tmp effects inner =
     (let inner = foldl (\<lambda>inner (_, obj). cache_object_only obj inner) inner (written tmp) in
      case take_inputs (removed_refs effects) (input_objects tmp) of (rs, ins) \<Rightarrow>
        (let inner = foldl (\<lambda>inner (oid, version). cache_query oid version None inner) inner rs in
         foldR (\<lambda>inner oid.
             bindR (stream_ended_id ins (stream_ended_consensus_objects tmp) oid) (\<lambda>i.
               Inr (cache_query i (lamport_version tmp) None inner)))
           inner (stream_ended_mutably_accessed effects)))"

section \<open>The cache on disk\<close>

record 'c RocksCachedStore =
  rocks_db :: "(ObjectID \<times> u64, 'c Object) btree"
  ro :: bool

definition rocks_put :: "'c Object \<Rightarrow> (ObjectID \<times> u64, 'c Object) btree
    \<Rightarrow> (ObjectID \<times> u64, 'c Object) btree" where
  "rocks_put obj db = bt_insert (object_id obj, object_version obj) obj db"

definition rc_put_object :: "'c Object \<Rightarrow> 'c RocksCachedStore \<Rightarrow> 'c RocksCachedStore" where
  "rc_put_object obj s = (if ro s then s else s\<lparr>rocks_db := rocks_put obj (rocks_db s)\<rparr>)"

text \<open>The iteration from \<open>(id, 0)\<close> that stops at another id or above the bound.\<close>

definition rc_get_object_upperbound :: "ObjectID \<Rightarrow> u64 \<Rightarrow> 'c RocksCachedStore \<Rightarrow> 'c Object option" where
  "rc_get_object_upperbound oid upperbound s =
     (let items = dropWhile (\<lambda>(k, _). k < (oid, 0)) (rocks_db s);
          run = takeWhile (\<lambda>((i, v), _). i = oid \<and> v \<le> upperbound) items
      in if run = [] then None else Some (snd (last run)))"

definition rc_get_object_exact :: "ObjectID \<Rightarrow> u64 \<Rightarrow> 'c RocksCachedStore \<Rightarrow> 'c Object option" where
  "rc_get_object_exact oid exact s = bt_get (rocks_db s) (oid, exact)"

definition rc_get_object_by_id_db :: "ObjectID \<Rightarrow> 'c RocksCachedStore \<Rightarrow> 'c Object option" where
  "rc_get_object_by_id_db oid s = rc_get_object_upperbound oid (- 1) s"

definition rc_versions :: "ObjectID \<Rightarrow> (ObjectID \<times> u64, 'c Object) btree \<Rightarrow> (ObjectID \<times> u64) list" where
  "rc_versions oid db = map fst (takeWhile (\<lambda>((i, v), _). i = oid) (dropWhile (\<lambda>(k, _). k < (oid, 0)) db))"

definition rc_dump_snapshot :: "'c RocksCachedStore \<Rightarrow> 'c CachedSnapshot" where
  "rc_dump_snapshot s = foldl (\<lambda>snap ((oid, version), obj).
     (let vmap = (case bt_get snap oid of None \<Rightarrow> [] | Some vmap \<Rightarrow> vmap) in
      bt_insert oid (if bt_get vmap version = None then bt_insert version (Some obj) vmap else vmap) snap))
     [] (rocks_db s)"

definition rc_restore_snapshot :: "'c CachedSnapshot \<Rightarrow> 'c RocksCachedStore \<Rightarrow> 'c RocksCachedStore res" where
  "rc_restore_snapshot snap s =
     (if ro s then Inl (Err (Other ''db in ro, can not restore''))
      else Inr (s\<lparr>rocks_db := foldl (\<lambda>db obj. rocks_put obj db) (rocks_db s)
        (concat (map (\<lambda>(_, obj_map). List.map_filter snd obj_map) snap))\<rparr>))"

definition rc_list_object_ids :: "'c RocksCachedStore \<Rightarrow> ObjectID list" where
  "rc_list_object_ids s = map (fst \<circ> fst) (rocks_db s)"

definition rc_get_package_object ::
  "'c ObjectStore \<Rightarrow> ObjectID \<Rightarrow> 'c RocksCachedStore \<Rightarrow> ('c Object option \<times> 'c RocksCachedStore) res" where
  "rc_get_package_object store package_id s =
     (case rc_get_object_by_id_db package_id s of
        Some hit \<Rightarrow> Inr (Some hit, s)
      | None \<Rightarrow> bindR (store_get_package_object store package_id) (\<lambda>hit.
          Inr (hit, (case hit of None \<Rightarrow> s | Some obj \<Rightarrow> rc_put_object obj s))))"

definition rc_get_object ::
  "'c ObjectStore \<Rightarrow> ObjectID \<Rightarrow> 'c RocksCachedStore \<Rightarrow> 'c Object option \<times> 'c RocksCachedStore" where
  "rc_get_object store oid s =
     (case rc_get_object_by_id_db oid s of
        Some hit \<Rightarrow> (Some hit, s)
      | None \<Rightarrow>
          (let obj = store_get_object store oid in
           (obj, (case obj of None \<Rightarrow> s | Some x \<Rightarrow> rc_put_object x s))))"

definition rc_get_object_by_key ::
  "'c ObjectStore \<Rightarrow> ObjectID \<Rightarrow> u64 \<Rightarrow> 'c RocksCachedStore \<Rightarrow> 'c Object option \<times> 'c RocksCachedStore" where
  "rc_get_object_by_key store oid version s =
     (case rc_get_object_exact oid version s of
        Some hit \<Rightarrow> (Some hit, s)
      | None \<Rightarrow>
          (let obj = store_get_object_by_key store oid version in
           (obj, (case obj of None \<Rightarrow> s | Some x \<Rightarrow> rc_put_object x s))))"

definition rc_get_object_received_at_version ::
  "'c ObjectStore \<Rightarrow> ObjectID \<Rightarrow> ObjectID \<Rightarrow> u64 \<Rightarrow> u64 \<Rightarrow> 'c RocksCachedStore
     \<Rightarrow> ('c Object option \<times> 'c RocksCachedStore) res" where
  "rc_get_object_received_at_version store owner oid version epoch s =
     (case rc_get_object_exact oid version s of
        Some hit \<Rightarrow> Inr (Some hit, s)
      | None \<Rightarrow> bindR (store_get_object_received store owner oid version epoch) (\<lambda>hit.
          Inr (hit, (case hit of None \<Rightarrow> s | Some obj \<Rightarrow> rc_put_object obj s))))"

definition rc_read_child_object ::
  "'c ObjectStore \<Rightarrow> ObjectID \<Rightarrow> ObjectID \<Rightarrow> u64 \<Rightarrow> 'c RocksCachedStore
     \<Rightarrow> ('c Object option \<times> 'c RocksCachedStore) res" where
  "rc_read_child_object store parent child upbound s =
     (let miss = bindR (store_read_child_object store parent child upbound) (\<lambda>hit.
            Inr (hit, (case hit of None \<Rightarrow> s | Some obj \<Rightarrow> rc_put_object obj s)))
      in case rc_get_object_upperbound child upbound s of
        Some hit \<Rightarrow> if object_version hit = upbound then Inr (Some hit, s) else miss
      | None \<Rightarrow> miss)"

definition rc_commit_single_object :: "'c Object \<Rightarrow> 'c RocksCachedStore \<Rightarrow> 'c RocksCachedStore" where
  "rc_commit_single_object = rc_put_object"

text \<open>The batch is written at the end: the keys to delete are those of the database before it.\<close>

definition rc_commit_store ::
  "'c InnerTemporaryStore \<Rightarrow> CommitEffects \<Rightarrow> 'c RocksCachedStore \<Rightarrow> 'c RocksCachedStore res" where
  "rc_commit_store tmp effects s =
     (if ro s then Inr s
      else case take_inputs (removed_refs effects) (input_objects tmp) of (rs, ins) \<Rightarrow>
        bindR (mapR (stream_ended_id ins (stream_ended_consensus_objects tmp))
                (stream_ended_mutably_accessed effects)) (\<lambda>ended.
          let db = rocks_db s;
              doomed = concat (map (\<lambda>i. rc_versions i db) (map fst rs @ ended));
              db' = foldl (\<lambda>db (_, obj). rocks_put obj db) db (written tmp)
          in Inr (s\<lparr>rocks_db := foldl (\<lambda>db k. bt_remove k db) db' doomed\<rparr>)))"

definition rc_remove_all_versions :: "ObjectID \<Rightarrow> 'c RocksCachedStore \<Rightarrow> 'c RocksCachedStore" where
  "rc_remove_all_versions oid s =
     (if ro s then s
      else s\<lparr>rocks_db := foldl (\<lambda>db k. bt_remove k db) (rocks_db s) (rc_versions oid (rocks_db s))\<rparr>)"

section \<open>The contract of a cache of versions\<close>

text \<open>\<open>newest s i v\<close>: the cache has no entry of \<open>i\<close> above \<open>v\<close>.\<close>

locale version_cache =
  fixes exact :: "'s \<Rightarrow> ObjectID \<Rightarrow> u64 \<Rightarrow> 'c Object option"
    and bounded :: "'s \<Rightarrow> ObjectID \<Rightarrow> u64 \<Rightarrow> 'c Object option"
    and newest :: "'s \<Rightarrow> ObjectID \<Rightarrow> u64 \<Rightarrow> bool"
    and put :: "'c Object \<Rightarrow> 's \<Rightarrow> 's"
    and wf :: "'s \<Rightarrow> bool"
  assumes wf_put: "wf s \<Longrightarrow> wf (put obj s)"
    and exact_put: "wf s \<Longrightarrow> exact (put obj s) i v =
      (if i = object_id obj \<and> v = object_version obj then Some obj else exact s i v)"
    and bounded_exact: "wf s \<Longrightarrow> bounded s i b = Some obj \<Longrightarrow> \<exists>v \<le> b. exact s i v = Some obj
      \<and> (\<forall>v'. v < v' \<longrightarrow> v' \<le> b \<longrightarrow> exact s i v' = None)"
    and newest_bounded: "wf s \<Longrightarrow> newest s i v \<Longrightarrow> exact s i v = Some obj \<Longrightarrow> v \<le> b \<Longrightarrow>
      bounded s i b = Some obj"
    and newest_put: "wf s \<Longrightarrow> newest (put obj s) i v \<longleftrightarrow>
      newest s i v \<and> (i = object_id obj \<longrightarrow> object_version obj \<le> v)"
begin

text \<open>The cache agrees with the versions that the backing store has.\<close>

definition coherent :: "(ObjectID \<Rightarrow> u64 \<Rightarrow> 'c Object option) \<Rightarrow> 's \<Rightarrow> bool" where
  "coherent B s \<longleftrightarrow> wf s \<and> (\<forall>i v obj. exact s i v = Some obj \<longrightarrow> B i v = Some obj)"

definition read_through ::
  "(ObjectID \<Rightarrow> u64 \<Rightarrow> 'c Object option) \<Rightarrow> ObjectID \<Rightarrow> u64 \<Rightarrow> 's \<Rightarrow> 'c Object option \<times> 's" where
  "read_through B i v s = (case exact s i v of
     Some hit \<Rightarrow> (Some hit, s)
   | None \<Rightarrow> (case B i v of None \<Rightarrow> (None, s) | Some hit \<Rightarrow> (Some hit, put hit s)))"

lemma read_through_transparent:
  assumes "coherent B s" "\<And>i v obj. B i v = Some obj \<Longrightarrow> object_id obj = i \<and> object_version obj = v"
  shows "fst (read_through B i v s) = B i v \<and> coherent B (snd (read_through B i v s))"
proof (cases "exact s i v")
  case (Some hit)
  then show ?thesis using assms(1) by (simp add: read_through_def coherent_def)
next
  case None
  then show ?thesis
    using assms exact_put [of s] wf_put [of s]
    by (cases "B i v") (auto simp: read_through_def coherent_def)
qed

lemma put_visible:
  assumes "wf s" "newest s (object_id obj) (object_version obj)" "object_version obj \<le> b"
  shows "exact (put obj s) (object_id obj) (object_version obj) = Some obj"
    "bounded (put obj s) (object_id obj) b = Some obj"
proof -
  show e: "exact (put obj s) (object_id obj) (object_version obj) = Some obj"
    using exact_put [OF assms(1)] by simp
  show "bounded (put obj s) (object_id obj) b = Some obj"
    using newest_bounded [OF wf_put [OF assms(1)] _ e assms(3)] newest_put [OF assms(1)] assms(2) by simp
qed

text \<open>Committing a run of objects with distinct ids.\<close>

abbreviation puts :: "'c Object list \<Rightarrow> 's \<Rightarrow> 's" where
  "puts objs s \<equiv> foldl (\<lambda>s obj. put obj s) s objs"

lemma puts_wf: "wf s \<Longrightarrow> wf (puts objs s)"
  by (induction objs arbitrary: s) (auto simp: wf_put)

lemma puts_other:
  "wf s \<Longrightarrow> i \<notin> object_id ` set objs \<Longrightarrow>
     exact (puts objs s) i v = exact s i v \<and> newest (puts objs s) i v = newest s i v"
  by (induction objs arbitrary: s) (auto simp: wf_put exact_put newest_put)

lemma puts_visible:
  assumes "wf s" "distinct (map object_id objs)" "obj \<in> set objs"
  shows "exact (puts objs s) (object_id obj) (object_version obj) = Some obj"
    and "newest s (object_id obj) (object_version obj) \<Longrightarrow>
      newest (puts objs s) (object_id obj) (object_version obj)"
proof -
  obtain xs ys where objs: "objs = xs @ obj # ys" using assms(3) by (meson split_list)
  then have ids: "object_id obj \<notin> object_id ` set xs" "object_id obj \<notin> object_id ` set ys"
    using assms(2) by auto
  note wf = puts_wf [OF assms(1), of xs]
  note ys = puts_other [OF wf_put [OF wf] ids(2), of obj]
  show "exact (puts objs s) (object_id obj) (object_version obj) = Some obj"
    using ys by (simp add: objs exact_put [OF wf])
  show "newest (puts objs s) (object_id obj) (object_version obj)"
    if "newest s (object_id obj) (object_version obj)"
    using that ys puts_other [OF assms(1) ids(1)] by (simp add: objs newest_put [OF wf])
qed

end

section \<open>The two caches meet the contract\<close>

definition snap_wf :: "'c CachedSnapshot \<Rightarrow> bool" where
  "snap_wf objects \<longleftrightarrow> bt_wf objects \<and> (\<forall>(i, vmap) \<in> set objects. bt_wf vmap)"

definition snap_newest :: "'c CachedSnapshot \<Rightarrow> ObjectID \<Rightarrow> u64 \<Rightarrow> bool" where
  "snap_newest objects i v \<longleftrightarrow> (\<forall>vmap. bt_get objects i = Some vmap \<longrightarrow> (\<forall>k \<in> fst ` set vmap. k \<le> v))"

definition versions_of :: "'c CachedSnapshot \<Rightarrow> ObjectID \<Rightarrow> 'c versions" where
  "versions_of objects i = (case bt_get objects i of None \<Rightarrow> [] | Some vmap \<Rightarrow> vmap)"

lemma snap_wf_versions: "snap_wf objects \<Longrightarrow> bt_wf (versions_of objects i)"
  by (auto simp: snap_wf_def versions_of_def split: option.splits dest: map_of_SomeD)

lemma versions_of_query [simp]:
  "versions_of (cache_query i v x objects) j =
     (if j = i then bt_insert v x (versions_of objects i) else versions_of objects j)"
  by (simp add: versions_of_def cache_query_def)

lemma snap_wf_query: "snap_wf objects \<Longrightarrow> snap_wf (cache_query i v x objects)"
proof -
  assume wf: "snap_wf objects"
  let ?new = "bt_insert v x (versions_of objects i)"
  have "bt_wf (bt_insert i ?new objects)" using wf by (simp add: snap_wf_def bt_wf_insert)
  moreover have "bt_wf vmap" if "(j, vmap) \<in> set (bt_insert i ?new objects)" for j vmap
  proof -
    have "bt_get (bt_insert i ?new objects) j = Some vmap"
      using that calculation by (simp only: bt_wf_get)
    then show ?thesis
      using snap_wf_versions [OF wf] wf
      by (auto simp: bt_wf_insert snap_wf_def split: if_splits dest: map_of_SomeD)
  qed
  ultimately show ?thesis by (auto simp: snap_wf_def cache_query_def versions_of_def)
qed

lemma exact_versions:
  "object_exact_version objects i v = (case bt_get (versions_of objects i) v of None \<Rightarrow> None | Some x \<Rightarrow> x)"
  by (simp add: object_exact_version_def versions_of_def split: option.splits)

lemma bounded_versions:
  "object_resolved_upperbound objects i b = into_object (resolve_versions (versions_of objects i) b)"
  by (simp add: object_resolved_upperbound_def object_resolve_upperbound_details_def versions_of_def
      resolve_versions_def split: option.splits)

lemma newest_versions: "snap_newest objects i v \<longleftrightarrow> (\<forall>k \<in> fst ` set (versions_of objects i). k \<le> v)"
  by (cases "bt_get objects i") (simp_all add: snap_newest_def versions_of_def)

lemma newest_query: "snap_newest (cache_query i v x s) j w \<longleftrightarrow> snap_newest s j w \<and> (j = i \<longrightarrow> v \<le> w)"
proof (cases "j = i")
  case True
  then have "versions_of (cache_query i v x s) j = bt_insert v x (versions_of s j)" by simp
  then have "fst ` set (versions_of (cache_query i v x s) j) = insert v (fst ` set (versions_of s j))"
    by (simp only: bt_keys_insert)
  then show ?thesis using True unfolding newest_versions by (simp only: ball_simps) blast
qed (simp add: newest_versions)

text \<open>The last entry at or below a bound has the greatest key at or below it.\<close>

lemma last_below:
  assumes "bt_wf m" "filter (\<lambda>(k, _). k \<le> b) m \<noteq> []"
  shows "last (filter (\<lambda>(k, _). k \<le> b) m) \<in> set m"
    "fst (last (filter (\<lambda>(k, _). k \<le> b) m)) \<le> b"
    "\<forall>(k, x) \<in> set m. k \<le> b \<longrightarrow> k \<le> fst (last (filter (\<lambda>(k, _). k \<le> b) m))"
proof -
  let ?f = "filter (\<lambda>(k, _). k \<le> b) m"
  have "last ?f \<in> set ?f" using assms(2) by (rule last_in_set)
  then show "last ?f \<in> set m" "fst (last ?f) \<le> b" by auto
  obtain ys p where f: "?f = ys @ [p]" using assms(2) by (cases ?f rule: rev_cases) simp_all
  have "sorted_wrt (\<lambda>p q. fst p < fst q) ?f"
    using bt_wf_entries [OF bt_wf_filter [OF assms(1)]] .
  then have "\<forall>q \<in> set ?f. fst q \<le> fst (last ?f)"
    unfolding f by (auto simp: sorted_wrt_append intro: less_imp_le)
  then show "\<forall>(k, x) \<in> set m. k \<le> b \<longrightarrow> k \<le> fst (last ?f)" by force
qed

lemma snap_bounded_exact:
  assumes "snap_wf s" "object_resolved_upperbound s i b = Some obj"
  shows "\<exists>v \<le> b. object_exact_version s i v = Some obj
    \<and> (\<forall>v'. v < v' \<longrightarrow> v' \<le> b \<longrightarrow> object_exact_version s i v' = None)"
proof -
  let ?m = "versions_of s i" and ?f = "filter (\<lambda>(v, _). v \<le> b) (versions_of s i)"
  have wf: "bt_wf ?m" using assms(1) by (rule snap_wf_versions)
  have f: "?f \<noteq> []" "snd (last ?f) = Some obj"
    using assms(2) unfolding bounded_versions resolve_versions_def
    by (auto split: list.split_asm option.split_asm)
  note l = last_below [OF wf f(1)]
  have "bt_get ?m (fst (last ?f)) = Some (Some obj)"
    using l(1) f(2) bt_wf_get [OF wf, of "fst (last ?f)" "Some obj"] by (metis prod.collapse)
  moreover have "bt_get ?m v' = None" if "fst (last ?f) < v'" "v' \<le> b" for v'
    using l(3) that bt_wf_get [OF wf, of v'] by (cases "bt_get ?m v'") force+
  ultimately show ?thesis using l(2) by (auto simp: exact_versions)
qed

lemma resolve_newest:
  assumes "bt_wf m" "bt_get m v = Some x" "\<forall>k \<in> fst ` set m. k \<le> v" "v \<le> b"
  shows "resolve_versions m b = (case x of None \<Rightarrow> KnownNotExisting | Some obj \<Rightarrow> Existing obj)"
proof -
  let ?f = "filter (\<lambda>(v, _). v \<le> b) m"
  have v: "(v, x) \<in> set m" using assms(2) bt_wf_get [OF assms(1)] by blast
  then have f: "?f \<noteq> []" using assms(4) by (auto simp: filter_empty_conv)
  note l = last_below [OF assms(1) f]
  have "v \<le> fst (last ?f)" using bspec [OF l(3) v] assms(4) by simp
  moreover have "fst (last ?f) \<le> v" using assms(3) l(1) by (metis image_eqI)
  ultimately have "last ?f = (v, x)"
    using l(1) bt_wf_get [OF assms(1), of v] assms(2) by (metis order_antisym option.inject prod.collapse)
  then show ?thesis using f by (cases ?f) (simp_all add: resolve_versions_def)
qed

lemma snap_newest_bounded:
  assumes "snap_wf s" "snap_newest s i v" "object_exact_version s i v = Some obj" "v \<le> b"
  shows "object_resolved_upperbound s i b = Some obj"
proof -
  have "bt_get (versions_of s i) v = Some (Some obj)"
    using assms(3) by (auto simp: exact_versions split: option.splits)
  from resolve_newest [OF snap_wf_versions [OF assms(1)] this _ assms(4)] assms(2) show ?thesis
    unfolding newest_versions by (simp add: bounded_versions)
qed

interpretation snap: version_cache object_exact_version object_resolved_upperbound snap_newest
  cache_object_only snap_wf
proof
  show "snap_wf s \<Longrightarrow> snap_wf (cache_object_only obj s)" for s :: "'a CachedSnapshot" and obj
    by (simp add: cache_object_only_def snap_wf_query)
  show "object_exact_version (cache_object_only obj s) i v =
      (if i = object_id obj \<and> v = object_version obj then Some obj else object_exact_version s i v)"
    for s :: "'a CachedSnapshot" and obj i v
    by (auto simp: cache_object_only_def exact_versions)
  show "snap_newest (cache_object_only obj s) i v \<longleftrightarrow>
      snap_newest s i v \<and> (i = object_id obj \<longrightarrow> object_version obj \<le> v)"
    for s :: "'a CachedSnapshot" and obj i v
    by (simp add: cache_object_only_def newest_query)
qed (fact snap_bounded_exact snap_newest_bounded)+

definition rocks_wf :: "'c RocksCachedStore \<Rightarrow> bool" where
  "rocks_wf s \<longleftrightarrow> bt_wf (rocks_db s) \<and> \<not> ro s"

definition rocks_newest :: "'c RocksCachedStore \<Rightarrow> ObjectID \<Rightarrow> u64 \<Rightarrow> bool" where
  "rocks_newest s i v \<longleftrightarrow> (\<forall>(j, v') \<in> fst ` set (rocks_db s). j = i \<longrightarrow> v' \<le> v)"

text \<open>The iteration visits exactly the entries of the id at or below the bound.\<close>

lemma take_drop_filter:
  assumes "bt_wf m"
  shows "takeWhile (\<lambda>((i, v), _). i = oid \<and> v \<le> b) (dropWhile (\<lambda>(k, _). k < (oid, 0 :: u64)) m)
    = filter (\<lambda>((i, v), _). i = oid \<and> v \<le> b) m"
  using assms
proof (induction m)
  case (Cons p m)
  obtain i v x where p: "p = ((i, v), x)" by (metis surj_pair)
  have m: "bt_wf m" and lt: "\<And>k y. (k, y) \<in> set m \<Longrightarrow> (i, v) < k"
    using Cons.prems by (force simp: bt_wf_Cons p)+
  note IH = Cons.IH [OF m]
  show ?case
  proof (cases "(i, v) < (oid, 0)")
    case True
    then show ?thesis using IH by (auto simp: p less_prod_def)
  next
    case False
    have "\<not> k < (oid, 0)" if "(k, y) \<in> set m" for k y
      using lt [OF that] False by (meson order.strict_trans)
    then have drop: "dropWhile (\<lambda>(k, _). k < (oid, 0 :: u64)) m = m"
      by (cases m) (auto simp del: less_prod_simp)
    show ?thesis
    proof (cases "i = oid \<and> v \<le> b")
      case True
      then show ?thesis using IH False drop by (simp add: p)
    next
      case no: False
      have "\<not> (j = oid \<and> w \<le> b)" if "((j, w), y) \<in> set m" for j w y
        using lt [OF that] no False by (auto simp: less_prod_def less_eq_prod_def not_less)
      then have "filter (\<lambda>((i, v), _). i = oid \<and> v \<le> b) m = []"
        by (auto simp: filter_empty_conv)
      then show ?thesis using no False by (auto simp: p)
    qed
  qed
qed simp

lemma rocks_upperbound_filter:
  assumes "rocks_wf s"
  shows "rc_get_object_upperbound oid b s =
    (let run = filter (\<lambda>((i, v), _). i = oid \<and> v \<le> b) (rocks_db s)
     in if run = [] then None else Some (snd (last run)))"
  using assms by (simp add: rc_get_object_upperbound_def rocks_wf_def take_drop_filter)

lemma rocks_last:
  assumes "rocks_wf s" "filter (\<lambda>((i, v), _). i = oid \<and> v \<le> b) (rocks_db s) = ys @ [((i, v), x)]"
  shows "i = oid" "v \<le> b" "rc_get_object_exact oid v s = Some x"
    "\<And>v'. v < v' \<Longrightarrow> v' \<le> b \<Longrightarrow> rc_get_object_exact oid v' s = None"
    "rc_get_object_upperbound oid b s = Some x"
proof -
  let ?f = "filter (\<lambda>((i, v), _). i = oid \<and> v \<le> b) (rocks_db s)"
  have wf: "bt_wf (rocks_db s)" using assms(1) by (simp add: rocks_wf_def)
  have "((i, v), x) \<in> set ?f" using assms(2) by simp
  then show i: "i = oid" and "v \<le> b" and "rc_get_object_exact oid v s = Some x"
    using bt_wf_get [OF wf] by (auto simp: rc_get_object_exact_def)
  show "rc_get_object_upperbound oid b s = Some x"
    using assms by (simp add: rocks_upperbound_filter)
  have srt: "sorted_wrt (\<lambda>p q. fst p < fst q) (ys @ [((i, v), x)])"
    using bt_wf_entries [OF bt_wf_filter [OF wf]] assms(2) by metis
  fix v'
  assume v': "v < v'" "v' \<le> b"
  show "rc_get_object_exact oid v' s = None"
  proof (rule ccontr)
    assume "rc_get_object_exact oid v' s \<noteq> None"
    then obtain y where "((oid, v'), y) \<in> set (rocks_db s)"
      using bt_wf_get [OF wf] by (auto simp: rc_get_object_exact_def)
    then have "((oid, v'), y) \<in> set (ys @ [((i, v), x)])" using v' assms(2) [symmetric] by simp
    then show False using srt v' i by (auto simp: sorted_wrt_append)
  qed
qed

interpretation rocks: version_cache "\<lambda>s i v. rc_get_object_exact i v s"
  "\<lambda>s i b. rc_get_object_upperbound i b s" rocks_newest rc_put_object rocks_wf
proof
  fix s :: "'a RocksCachedStore" and obj i v b
  assume wf: "rocks_wf s"
  show "rocks_wf (rc_put_object obj s)"
    using wf by (simp add: rocks_wf_def rc_put_object_def rocks_put_def bt_wf_insert)
  show "rc_get_object_exact i v (rc_put_object obj s) =
      (if i = object_id obj \<and> v = object_version obj then Some obj else rc_get_object_exact i v s)"
    using wf by (simp add: rocks_wf_def rc_put_object_def rocks_put_def rc_get_object_exact_def)
  have "fst ` set (rocks_db (rc_put_object obj s)) =
      insert (object_id obj, object_version obj) (fst ` set (rocks_db s))"
    using wf bt_keys_insert by (simp add: rocks_wf_def rc_put_object_def rocks_put_def)
  then show "rocks_newest (rc_put_object obj s) i v \<longleftrightarrow>
      rocks_newest s i v \<and> (i = object_id obj \<longrightarrow> object_version obj \<le> v)"
    unfolding rocks_newest_def by (simp only: ball_simps) auto
  let ?f = "filter (\<lambda>((i', v), _). i' = i \<and> v \<le> b) (rocks_db s)"
  show "\<exists>v \<le> b. rc_get_object_exact i v s = Some obj
      \<and> (\<forall>v'. v < v' \<longrightarrow> v' \<le> b \<longrightarrow> rc_get_object_exact i v' s = None)"
    if up: "rc_get_object_upperbound i b s = Some obj"
  proof -
    obtain ys i' v x where f: "?f = ys @ [((i', v), x)]"
      using up wf by (cases ?f rule: rev_cases) (auto simp: rocks_upperbound_filter)
    note r = rocks_last [OF wf f]
    show ?thesis using r up by (intro exI [of _ v]) auto
  qed
  show "rc_get_object_upperbound i b s = Some obj"
    if new: "rocks_newest s i v" and ex: "rc_get_object_exact i v s = Some obj" and le: "v \<le> b"
  proof -
    have "((i, v), obj) \<in> set ?f"
      using ex le bt_wf_get [of "rocks_db s"] wf by (auto simp: rc_get_object_exact_def rocks_wf_def)
    then obtain ys i' v' x where f: "?f = ys @ [((i', v'), x)]"
      by (cases ?f rule: rev_cases) auto
    note r = rocks_last [OF wf f]
    have "((i, v'), x) \<in> set (rocks_db s)"
      using r(3) bt_wf_get [of "rocks_db s"] wf by (simp add: rc_get_object_exact_def rocks_wf_def)
    then have "v' \<le> v" using new by (force simp: rocks_newest_def)
    moreover have "\<not> v' < v" using r(4) [of v] le ex by auto
    ultimately show ?thesis using r(3,5) ex by simp
  qed
qed

section \<open>Commits and snapshots\<close>

text \<open>Only the object cells that a commit names change.\<close>

lemma query_exact:
  "object_exact_version (cache_query i v x s) j w =
     (if j = i \<and> w = v then x else object_exact_version s j w)"
  by (simp add: exact_versions)

lemma queries_exact:
  "(\<forall>(i, v) \<in> set rs. i \<noteq> j) \<Longrightarrow>
    object_exact_version (foldl (\<lambda>s (i, v). cache_query i v None s) s rs) j w = object_exact_version s j w
    \<and> snap_newest (foldl (\<lambda>s (i, v). cache_query i v None s) s rs) j w = snap_newest s j w
    \<and> (snap_wf s \<longrightarrow> snap_wf (foldl (\<lambda>s (i, v). cache_query i v None s) s rs))"
  by (induction rs arbitrary: s) (auto simp: query_exact newest_query snap_wf_query)

lemma take_inputs_subset: "set (fst (take_inputs rs ins)) \<subseteq> set rs"
  by (induction rs ins rule: take_inputs.induct) (auto split: prod.splits)

lemma stream_ended_exact:
  assumes "foldR (\<lambda>s oid. bindR (stream_ended_id ins ended oid) (\<lambda>i. Inr (cache_query i v None s))) s oids
      = Inr s'"
    and "\<forall>oid \<in> set oids. stream_ended_id ins ended oid \<noteq> Inr j"
  shows "object_exact_version s' j w = object_exact_version s j w \<and> snap_newest s' j w = snap_newest s j w
    \<and> (snap_wf s \<longrightarrow> snap_wf s')"
  using assms
proof (induction oids arbitrary: s)
  case (Cons a oids)
  then obtain i where "stream_ended_id ins ended a = Inr i" and "i \<noteq> j"
    and "foldR (\<lambda>s oid. bindR (stream_ended_id ins ended oid) (\<lambda>i. Inr (cache_query i v None s)))
      (cache_query i v None s) oids = Inr s'"
    by (auto simp: bindR_eq_Inr)
  with Cons.IH [of "cache_query i v None s"] Cons.prems(2) show ?case
    by (simp add: query_exact newest_query snap_wf_query)
qed simp

lemma bt_extend_append: "bt_extend m (ps @ qs) = bt_extend (bt_extend m ps) qs"
  by (simp add: bt_extend_def)

lemma bt_insert_last_key:
  "\<forall>k' \<in> fst ` set m. k' < k \<Longrightarrow> bt_insert k v m = m @ [(k, v)]"
  by (induction m) (auto simp: not_less_iff_gr_or_eq)

lemma bt_extend_empty: "bt_wf m \<Longrightarrow> bt_extend [] m = m"
proof (induction m rule: rev_induct)
  case (snoc p m)
  then have "bt_wf m" "\<forall>k \<in> fst ` set m. k < fst p"
    by (auto simp: bt_wf_def sorted_wrt_append)
  then show ?case
    using snoc.IH bt_insert_last_key [of m "fst p" "snd p"] by (simp add: bt_extend_def)
qed (simp add: bt_extend_def)

lemma restore_empty: "snap_wf snap \<Longrightarrow> cs_restore_snapshot snap [] = snap"
proof (induction snap rule: rev_induct)
  case (snoc p snap)
  obtain i vmap where p: "p = (i, vmap)" by fastforce
  have wf: "snap_wf snap" "bt_wf vmap" and lt: "\<forall>k \<in> fst ` set snap. k < i"
    using snoc.prems by (auto simp: p snap_wf_def bt_wf_def sorted_wrt_append)
  then have "bt_get snap i = None" by (force simp: map_of_eq_None_iff)
  then show ?case
    using snoc.IH [OF wf(1)] bt_extend_empty [OF wf(2)] bt_insert_last_key [OF lt, of vmap]
    by (simp add: cs_restore_snapshot_def p)
qed (simp add: cs_restore_snapshot_def)

section \<open>Properties\<close>

text \<open>
  C13: reads by key are transparent: if the backing store returns an object of the id and version
  asked for and the cache only holds versions of the backing store, both caches return what the
  backing store returns and still only hold its versions. The on-disk cache is one that is open for
  writing: a read-only one cannot keep what it fetches.
\<close>
theorem get_object_by_key_transparent:
  assumes "\<And>i v obj. store_get_object_by_key B i v = Some obj \<Longrightarrow> object_id obj = i \<and> object_version obj = v"
  shows "(snap.coherent (store_get_object_by_key B) s \<longrightarrow>
      fst (cs_get_object_by_key B i v s) = store_get_object_by_key B i v
      \<and> snap.coherent (store_get_object_by_key B) (snd (cs_get_object_by_key B i v s)))
    \<and> (rocks.coherent (store_get_object_by_key B) r \<longrightarrow>
      fst (rc_get_object_by_key B i v r) = store_get_object_by_key B i v
      \<and> rocks.coherent (store_get_object_by_key B) (snd (rc_get_object_by_key B i v r)))"
proof -
  have "cs_get_object_by_key B i v s = snap.read_through (store_get_object_by_key B) i v s"
    by (simp add: cs_get_object_by_key_def snap.read_through_def)
  moreover have "rc_get_object_by_key B i v r = rocks.read_through (store_get_object_by_key B) i v r"
    by (auto simp: rc_get_object_by_key_def rocks.read_through_def Let_def split: option.splits)
  ultimately show ?thesis
    using snap.read_through_transparent [of "store_get_object_by_key B"]
      rocks.read_through_transparent [of "store_get_object_by_key B"] assms by simp
qed

text \<open>
  C22: a committed transaction is visible: after \<open>commit_store\<close> every written object that the
  effects do not remove is found by key and, unless the cache knew a newer version of it, is the
  object that \<open>get_object\<close> returns.
\<close>
theorem commit_store_visible:
  assumes "cs_commit_store tmp effects s = Inr s'" "snap_wf s"
    and "\<forall>(i, obj) \<in> set (written tmp). object_id obj = i" "distinct (bt_keys (written tmp))"
    and "(i, obj) \<in> set (written tmp)" "i \<notin> fst ` set (removed_refs effects)"
    and "\<forall>oid \<in> set (stream_ended_mutably_accessed effects).
      stream_ended_id (snd (take_inputs (removed_refs effects) (input_objects tmp)))
        (stream_ended_consensus_objects tmp) oid \<noteq> Inr i"
  shows "fst (cs_get_object_by_key B i (object_version obj) s') = Some obj
    \<and> (snap_newest s i (object_version obj) \<longrightarrow> fst (cs_get_object B i s') = Some obj)"
proof -
  let ?objs = "map snd (written tmp)"
  let ?s1 = "foldl (\<lambda>s obj. cache_object_only obj s) s ?objs"
  obtain rs ins where rs: "take_inputs (removed_refs effects) (input_objects tmp) = (rs, ins)" by fastforce
  let ?s2 = "foldl (\<lambda>s (i, v). cache_query i v None s) ?s1 rs"
  have "foldl (\<lambda>s (_, obj). cache_object_only obj s) s (written tmp) = ?s1"
    by (simp add: foldl_map case_prod_unfold)
  then have run: "foldR (\<lambda>s oid. bindR (stream_ended_id ins (stream_ended_consensus_objects tmp) oid)
      (\<lambda>i. Inr (cache_query i (lamport_version tmp) None s))) ?s2 (stream_ended_mutably_accessed effects) = Inr s'"
    using assms(1) rs by (simp add: cs_commit_store_def)
  have "map object_id ?objs = bt_keys (written tmp)" using assms(3) by auto
  then have d: "distinct (map object_id ?objs)" using assms(4) by metis
  have i: "i = object_id obj" "obj \<in> set ?objs" using assms(3,5) by force+
  note v1 = snap.puts_visible [OF assms(2) d i(2)] and w1 = snap.puts_wf [OF assms(2), of ?objs]
  have "\<forall>(j, v) \<in> set rs. j \<noteq> i"
    using take_inputs_subset [of "removed_refs effects" "input_objects tmp"] assms(6) rs by force
  note q = queries_exact [OF this, of ?s1 "object_version obj"]
  note e = stream_ended_exact [OF run, of i "object_version obj"]
  have key: "object_exact_version s' i (object_version obj) = Some obj" "snap_wf s'"
    using v1(1) w1 q e assms(7) rs i(1) by simp_all
  have "object_id_cached s' i = Some obj" if "snap_newest s i (object_version obj)"
    unfolding object_id_cached_def
    using snap_newest_bounded [OF key(2) _ key(1)] v1(2) q e assms(7) rs i(1) that by simp
  then show ?thesis using key(1) by (simp add: cs_get_object_by_key_def cs_get_object_def)
qed

text \<open>
  Between two test functions the cache is put back exactly: \<open>reset\<close> followed by
  \<open>restore_snapshot\<close> of a dump gives the dumped snapshot, whatever was cached since.
\<close>
theorem reset_restore_exact:
  assumes "snap_wf baseline"
  shows "cs_restore_snapshot (cs_dump_snapshot baseline) (snd (cs_reset inner)) = baseline"
  using restore_empty [OF assms] by (simp add: cs_dump_snapshot_def cs_reset_def)

text \<open>
  C23: a deletion is forgotten by \<open>get_object\<close>: when the newest cached entry of an object is the
  tombstone of its deletion, \<open>get_object\<close> still answers with the object of the backing store.
\<close>
theorem deleted_object_read_from_store:
  assumes "snap_wf s" "snap_newest s i v" "store_get_object B i = Some old"
  shows "fst (cs_get_object B i (cache_query i v None s)) = Some old"
proof -
  let ?s = "cache_query i v None s"
  have "bt_get (versions_of ?s i) v = Some None" by simp
  moreover have "\<forall>k \<in> fst ` set (versions_of ?s i). k \<le> v"
    using assms(2) newest_query [of i v None s i v] unfolding newest_versions by blast
  ultimately have "object_id_cached ?s i = None"
    using resolve_newest [OF snap_wf_versions [OF snap_wf_query [OF assms(1)]], where b = "- 1"]
    by (simp add: object_id_cached_def bounded_versions del: versions_of_query)
  then show ?thesis using assms(3) by (simp add: cs_get_object_def)
qed

section \<open>A small chain\<close>

definition demo_object :: "u64 \<Rightarrow> nat Object" where
  "demo_object v = \<lparr>object_id = 5, object_version = v, object_contents = unat v\<rparr>"

definition demo_store :: "nat ObjectStore" where
  "demo_store = \<lparr>store_get_object = \<lambda>i. if i = 5 then Some (demo_object 3) else None,
     store_get_object_by_key = \<lambda>i v. if i = 5 \<and> v \<le> 3 then Some (demo_object v) else None,
     store_get_package_object = \<lambda>_. Inr None, store_get_object_received = \<lambda>_ _ _ _. Inr None,
     store_read_child_object = \<lambda>_ _ _. Inr None\<rparr>"

definition demo_tmp :: "nat InnerTemporaryStore" where
  "demo_tmp = \<lparr>written = [(5, demo_object 4)], input_objects = [(5, demo_object 3)], lamport_version = 4,
     stream_ended_consensus_objects = []\<rparr>"

definition demo_effects :: CommitEffects where
  "demo_effects = \<lparr>deleted = [], transferred_from_consensus = [], consensus_owner_changed = [],
     stream_ended_mutably_accessed = []\<rparr>"

lemma demo_snap_wf: "snap_wf [(5, [(3, Some (demo_object 3))])]"
  by (simp add: snap_wf_def bt_wf_def)

theorem get_object_by_key_transparent_witness:
  "fst (cs_get_object_by_key demo_store 5 2 []) = store_get_object_by_key demo_store 5 2
   \<and> fst (rc_get_object_by_key demo_store 5 2 \<lparr>rocks_db = [], ro = False\<rparr>)
     = store_get_object_by_key demo_store 5 2"
proof -
  have key: "\<And>i v obj. store_get_object_by_key demo_store i v = Some obj \<Longrightarrow> object_id obj = i \<and> object_version obj = v"
    by (auto simp: demo_store_def demo_object_def split: if_splits)
  have "snap.coherent (store_get_object_by_key demo_store) []"
    unfolding snap.coherent_def by (simp add: snap_wf_def object_exact_version_def)
  moreover have "rocks.coherent (store_get_object_by_key demo_store) \<lparr>rocks_db = [], ro = False\<rparr>"
    unfolding rocks.coherent_def by (simp add: rocks_wf_def rc_get_object_exact_def)
  ultimately show ?thesis
    using get_object_by_key_transparent [of demo_store "[]" 5 2 "\<lparr>rocks_db = [], ro = False\<rparr>"] key
    by blast
qed

theorem commit_store_visible_witness:
  "fst (cs_get_object_by_key demo_store 5 (object_version (demo_object 4))
       [(5, [(3, Some (demo_object 3)), (4, Some (demo_object 4))])]) = Some (demo_object 4)
   \<and> fst (cs_get_object demo_store 5 [(5, [(3, Some (demo_object 3)), (4, Some (demo_object 4))])])
     = Some (demo_object 4)"
  using commit_store_visible [of demo_tmp demo_effects "[(5, [(3, Some (demo_object 3))])]"
      "[(5, [(3, Some (demo_object 3)), (4, Some (demo_object 4))])]" 5 "demo_object 4" demo_store]
    demo_snap_wf
  by (simp add: cs_commit_store_def demo_tmp_def demo_effects_def removed_refs_def cache_object_only_def
      cache_query_def snap_newest_def demo_object_def)

theorem reset_restore_exact_witness:
  "cs_restore_snapshot (cs_dump_snapshot [(5, [(3, Some (demo_object 3))])])
     (snd (cs_reset [(5, [(4, None)])])) = [(5, [(3, Some (demo_object 3))])]"
  by (rule reset_restore_exact) (rule demo_snap_wf)

theorem deleted_object_read_from_store_witness:
  "fst (cs_get_object demo_store 5 (cache_query 5 4 None [(5, [(3, Some (demo_object 3))])]))
     = Some (demo_object 3)"
  by (rule deleted_object_read_from_store [OF demo_snap_wf])
    (simp_all add: snap_newest_def demo_store_def)

end
