(* ===== verification/Graphs.thy ===== *)
theory Graphs
  imports Move_Abi
begin

text \<open>
  \<open>movy-analysis/src\<close>, files \<open>type_graph.rs\<close> and \<open>call_graph.rs\<close>: which functions consume and
  produce values of a type, and which functions call which. A \<open>petgraph\<close> graph is the list of its
  nodes, whose positions are the node indices, and the list of its edges in insertion order; edges
  of a node are visited from the newest. The index of interned nodes is kept in insertion order,
  where the source iterates in key order: the properties are about sets of functions.
\<close>

section \<open>Graphs with interned nodes\<close>

record ('n, 'e) Graph =
  g_nodes :: "'n list"
  g_edges :: "(nat \<times> nat \<times> 'e) list"

definition Graph_new :: "('n, 'e) Graph" where
  "Graph_new = \<lparr>g_nodes = [], g_edges = []\<rparr>"

definition add_node :: "'n \<Rightarrow> ('n, 'e) Graph \<Rightarrow> nat \<times> ('n, 'e) Graph" where
  "add_node n g = (length (g_nodes g), g\<lparr>g_nodes := g_nodes g @ [n]\<rparr>)"

definition add_edge :: "nat \<Rightarrow> nat \<Rightarrow> 'e \<Rightarrow> ('n, 'e) Graph \<Rightarrow> ('n, 'e) Graph" where
  "add_edge i j e g = g\<lparr>g_edges := g_edges g @ [(i, j, e)]\<rparr>"

text \<open>\<open>may_add_ty\<close> and \<open>may_add_function\<close>: the index of a known node, or a new node.\<close>

definition may_add ::
  "'n \<Rightarrow> ('n, 'e) Graph \<times> ('n \<times> nat) list \<Rightarrow> nat \<times> ('n, 'e) Graph \<times> ('n \<times> nat) list" where
  "may_add n gt = (case gt of (g, table) \<Rightarrow>
     (case map_of table n of
        Some idx \<Rightarrow> (idx, g, table)
      | None \<Rightarrow> (case add_node n g of (idx, g) \<Rightarrow> (idx, g, table @ [(n, idx)]))))"

definition graph_ok :: "('n, 'e) Graph \<times> ('n \<times> nat) list \<Rightarrow> bool" where
  "graph_ok gt \<longleftrightarrow> (case gt of (g, table) \<Rightarrow>
     (\<forall>(n, i) \<in> set table. i < length (g_nodes g) \<and> g_nodes g ! i = n) \<and> distinct (map fst table)
     \<and> (\<forall>(i, j, e) \<in> set (g_edges g). i < length (g_nodes g) \<and> j < length (g_nodes g)))"

text \<open>The edges, with the nodes at their ends.\<close>

definition links :: "('n, 'e) Graph \<Rightarrow> ('n \<times> 'n \<times> 'e) set" where
  "links g = {(g_nodes g ! i, g_nodes g ! j, e) | i j e. (i, j, e) \<in> set (g_edges g)}"

lemma graph_ok_edges:
  "graph_ok (g, table) \<Longrightarrow> (i, j, e) \<in> set (g_edges g) \<Longrightarrow> i < length (g_nodes g) \<and> j < length (g_nodes g)"
  by (auto simp: graph_ok_def)

lemma links_add_node:
  assumes "graph_ok (g, table)"
  shows "links (g\<lparr>g_nodes := g_nodes g @ [n]\<rparr>) = links g"
proof -
  have "(g_nodes g @ [n]) ! i = g_nodes g ! i \<and> (g_nodes g @ [n]) ! j = g_nodes g ! j"
    if "(i, j, e) \<in> set (g_edges g)" for i j e
    using graph_ok_edges [OF assms that] by (simp add: nth_append)
  then show ?thesis unfolding links_def by (force intro!: Collect_cong ex_cong1)
qed

lemma links_add_edge: "links (add_edge i j e g) = insert (g_nodes g ! i, g_nodes g ! j, e) (links g)"
  by (auto simp: links_def add_edge_def)

lemma graph_ok_add_edge:
  "graph_ok (g, table) \<Longrightarrow> i < length (g_nodes g) \<Longrightarrow> j < length (g_nodes g) \<Longrightarrow>
    graph_ok (add_edge i j e g, table)"
  by (auto simp: graph_ok_def add_edge_def)

lemma may_add_spec:
  assumes "graph_ok (g, table)" "may_add n (g, table) = (idx, g', table')"
  shows "graph_ok (g', table')" "idx < length (g_nodes g')" "g_nodes g' ! idx = n"
    "links g' = links g" "\<exists>ns. g_nodes g' = g_nodes g @ ns" "(n, idx) \<in> set table'"
    "set table \<subseteq> set table'" "fst ` set table' = insert n (fst ` set table)"
proof -
  have "graph_ok (g', table') \<and> idx < length (g_nodes g') \<and> g_nodes g' ! idx = n \<and> links g' = links g
    \<and> (\<exists>ns. g_nodes g' = g_nodes g @ ns) \<and> (n, idx) \<in> set table' \<and> set table \<subseteq> set table'
    \<and> fst ` set table' = insert n (fst ` set table)"
  proof (cases "map_of table n")
    case None
    then have eqs: "idx = length (g_nodes g)" "g' = g\<lparr>g_nodes := g_nodes g @ [n]\<rparr>" "table' = table @ [(n, idx)]"
      using assms(2) by (auto simp: may_add_def add_node_def)
    have "n \<notin> fst ` set table" using None by (simp add: map_of_eq_None_iff)
    moreover have "(\<forall>(m, i) \<in> set table. i < length (g_nodes g) \<and> g_nodes g ! i = m)"
      "distinct (map fst table)"
      "\<forall>(i, j, e) \<in> set (g_edges g). i < length (g_nodes g) \<and> j < length (g_nodes g)"
      using assms(1) by (auto simp: graph_ok_def)
    ultimately have "graph_ok (g', table')"
      unfolding graph_ok_def eqs by (fastforce simp: nth_append)
    then show ?thesis using links_add_node [OF assms(1)] by (auto simp: eqs)
  next
    case (Some i)
    then have eqs: "idx = i" "g' = g" "table' = table"
      using assms(2) by (auto simp: may_add_def)
    have "(n, i) \<in> set table" using Some by (rule map_of_SomeD)
    then show ?thesis using assms(1) unfolding eqs by (force simp: graph_ok_def)
  qed
  then show "graph_ok (g', table')" "idx < length (g_nodes g')" "g_nodes g' ! idx = n"
    "links g' = links g" "\<exists>ns. g_nodes g' = g_nodes g @ ns" "(n, idx) \<in> set table'"
    "set table \<subseteq> set table'" "fst ` set table' = insert n (fst ` set table)" by simp_all
qed

section \<open>The type graph\<close>

datatype TypeGraphNode =
    NFunction MoveModuleId MoveFunctionAbi
  | NType MoveAbiSignatureToken

datatype TypeGraphEdge = FunctionReturn | MutableReferenceEdge | ReferenceEdge | ValueEdge

record MoveTypeGraph =
  type_graph :: "(TypeGraphNode, TypeGraphEdge) Graph"
  tys :: "(TypeGraphNode \<times> nat) list"
  graph_modules :: "MoveModuleId set"

definition MoveTypeGraph_new :: MoveTypeGraph where
  "MoveTypeGraph_new = \<lparr>type_graph = Graph_new, tys = [], graph_modules = {}\<rparr>"

definition param_edge :: "MoveAbiSignatureToken \<Rightarrow> MoveAbiSignatureToken \<times> TypeGraphEdge" where
  "param_edge param = (case param of
     TokReference v \<Rightarrow> (v, ReferenceEdge)
   | TokMutableReference v \<Rightarrow> (v, MutableReferenceEdge)
   | _ \<Rightarrow> (param, ValueEdge))"

definition return_type :: "MoveAbiSignatureToken \<Rightarrow> MoveAbiSignatureToken" where
  "return_type rt = (case dereference rt of Some d \<Rightarrow> d | None \<Rightarrow> rt)"

type_synonym tg = "(TypeGraphNode, TypeGraphEdge) Graph \<times> (TypeGraphNode \<times> nat) list"

definition add_param :: "nat \<Rightarrow> tg \<Rightarrow> MoveAbiSignatureToken \<Rightarrow> tg" where
  "add_param fidx gt param = (case param_edge param of (ty, edge) \<Rightarrow>
     (case may_add (NType ty) gt of (idx, g, table) \<Rightarrow> (add_edge idx fidx edge g, table)))"

definition add_return :: "nat \<Rightarrow> tg \<Rightarrow> MoveAbiSignatureToken \<Rightarrow> tg" where
  "add_return fidx gt rt =
     (case may_add (NType (return_type rt)) gt of (idx, g, table) \<Rightarrow>
        (add_edge fidx idx FunctionReturn g, table))"

definition add_function :: "MoveModuleId \<Rightarrow> MoveTypeGraph \<Rightarrow> MoveFunctionAbi \<Rightarrow> MoveTypeGraph" where
  "add_function module_id self f =
     (case add_node (NFunction module_id f) (type_graph self) of (fidx, g) \<Rightarrow>
        (let gt = foldl (add_param fidx) (g, tys self) (parameters f);
             gt = foldl (add_return fidx) gt (return_paramters f)
         in self\<lparr>type_graph := fst gt, tys := snd gt\<rparr>))"

definition add_module :: "MoveTypeGraph \<Rightarrow> MoveModuleAbi \<Rightarrow> MoveTypeGraph" where
  "add_module self md =
     (if abi_module_id md \<in> graph_modules self then self
      else foldl (add_function (abi_module_id md))
        (self\<lparr>graph_modules := insert (abi_module_id md) (graph_modules self)\<rparr>) (abi_functions md))"

definition add_package :: "MoveTypeGraph \<Rightarrow> MovePackageAbi \<Rightarrow> MoveTypeGraph" where
  "add_package self abi = foldl add_module self (modules abi)"

text \<open>\<open>edges_directed\<close>, newest first, followed to the function at the other end.\<close>

definition node_functions ::
  "(TypeGraphNode, TypeGraphEdge) Graph \<Rightarrow> nat list \<Rightarrow> (MoveModuleId \<times> MoveFunctionAbi) list" where
  "node_functions g targets = List.map_filter (\<lambda>j. case g_nodes g ! j of
     NFunction m f \<Rightarrow> Some (m, f) | NType _ \<Rightarrow> None) targets"

definition outgoing :: "('n, 'e) Graph \<Rightarrow> nat \<Rightarrow> nat list" where
  "outgoing g node = rev (map (\<lambda>(i, j, e). j) (filter (\<lambda>(i, j, e). i = node) (g_edges g)))"

definition incoming :: "('n, 'e) Graph \<Rightarrow> nat \<Rightarrow> nat list" where
  "incoming g node = rev (map (\<lambda>(i, j, e). i) (filter (\<lambda>(i, j, e). j = node) (g_edges g)))"

definition matching_nodes :: "MoveTypeGraph \<Rightarrow> MoveAbiSignatureToken \<Rightarrow> nat list" where
  "matching_nodes self ty = List.map_filter (\<lambda>(n, i). case n of
     NType t \<Rightarrow> if partial_extract_ty_args t ty \<noteq> None then Some i else None
   | NFunction _ _ \<Rightarrow> None) (tys self)"

definition find_consumers ::
  "MoveTypeGraph \<Rightarrow> MoveAbiSignatureToken \<Rightarrow> bool \<Rightarrow> (MoveModuleId \<times> MoveFunctionAbi) list" where
  "find_consumers self ty public_only =
     concat (map (\<lambda>node. filter (\<lambda>(m, f). \<not> (public_only \<and> visibility f \<noteq> Public))
         (node_functions (type_graph self) (outgoing (type_graph self) node)))
       (matching_nodes self ty))"

definition producer_allowed :: "MoveModuleId \<Rightarrow> MoveFunctionAbi \<Rightarrow> bool" where
  "producer_allowed module_id f =
     (let addr = module_address module_id; md = mod_name module_id; name = fn_name f;
          is_stdlib = (addr = one); is_sui = (addr = two);
          is_other_sui_std = (is_sui_std addr \<and> \<not> is_stdlib \<and> \<not> is_sui)
      in if \<not> is_stdlib \<and> \<not> is_sui \<and> \<not> is_other_sui_std then True
         else addr = two \<and> md = ''coin'' \<and> name = ''into_balance''
            \<or> addr = one \<and> md = ''ascii'' \<and> name = ''string''
            \<or> addr = one \<and> md = ''string'' \<and> name = ''utf8''
            \<or> addr = one \<and> md = ''uq32_32'' \<and> name = ''from_quotient''
            \<or> addr = one \<and> md = ''uq64_64'' \<and> name = ''from_quotient'')"

definition is_excluded ::
  "(MoveAddress \<times> string \<times> string) option \<Rightarrow> MoveModuleId \<Rightarrow> MoveFunctionAbi \<Rightarrow> bool" where
  "is_excluded excluded m f = (case excluded of
     None \<Rightarrow> False
   | Some (a, md, name) \<Rightarrow> module_address m = a \<and> mod_name m = md \<and> fn_name f = name)"

definition find_producers ::
  "MoveTypeGraph \<Rightarrow> MoveAbiSignatureToken \<Rightarrow> bool \<Rightarrow> (MoveAddress \<times> string \<times> string) option
     \<Rightarrow> (MoveModuleId \<times> MoveFunctionAbi) list" where
  "find_producers self ty public_only excluded =
     (let ty = return_type ty in
      concat (map (\<lambda>node. filter (\<lambda>(m, f). \<not> (public_only \<and> visibility f \<noteq> Public)
             \<and> \<not> is_excluded excluded m f \<and> producer_allowed m f)
           (node_functions (type_graph self) (incoming (type_graph self) node)))
         (matching_nodes self ty)))"

section \<open>What the type graph records\<close>

text \<open>Every type node is in the index.\<close>

definition gt_ok :: "tg \<Rightarrow> bool" where
  "gt_ok gt \<longleftrightarrow> graph_ok gt \<and> (\<forall>i t. i < length (g_nodes (fst gt)) \<longrightarrow> g_nodes (fst gt) ! i = NType t \<longrightarrow>
     (NType t, i) \<in> set (snd gt))"

definition function_links :: "MoveModuleId \<Rightarrow> MoveFunctionAbi \<Rightarrow> (TypeGraphNode \<times> TypeGraphNode \<times> TypeGraphEdge) set"
  where
  "function_links m f =
     (\<lambda>p. (NType (fst (param_edge p)), NFunction m f, snd (param_edge p))) ` set (parameters f)
   \<union> (\<lambda>rt. (NFunction m f, NType (return_type rt), FunctionReturn)) ` set (return_paramters f)"

lemma gt_ok_may_add:
  assumes "gt_ok (g, table)" "may_add (NType ty) (g, table) = (idx, g', table')"
  shows "gt_ok (g', table')"
proof -
  have ok: "graph_ok (g, table)" using assms(1) by (simp add: gt_ok_def)
  note m = may_add_spec [OF ok assms(2)]
  show ?thesis
    using assms m(1) unfolding gt_ok_def
    by (auto simp: may_add_def add_node_def nth_append less_Suc_eq split: option.split_asm)
qed

lemma add_edge_nodes [simp]: "g_nodes (add_edge i j e g) = g_nodes g"
  by (simp add: add_edge_def)

lemma gt_ok_add_edge:
  "gt_ok (g, table) \<Longrightarrow> i < length (g_nodes g) \<Longrightarrow> j < length (g_nodes g) \<Longrightarrow> gt_ok (add_edge i j e g, table)"
  by (simp add: gt_ok_def graph_ok_add_edge)

lemma add_param_spec:
  assumes "gt_ok gt" "fidx < length (g_nodes (fst gt))"
  shows "gt_ok (add_param fidx gt p)"
    "links (fst (add_param fidx gt p)) =
      insert (NType (fst (param_edge p)), g_nodes (fst gt) ! fidx, snd (param_edge p)) (links (fst gt))"
    "\<exists>ns. g_nodes (fst (add_param fidx gt p)) = g_nodes (fst gt) @ ns"
proof -
  obtain g table where gt: "gt = (g, table)" by fastforce
  obtain ty e where pe: "param_edge p = (ty, e)" by fastforce
  obtain idx g' table' where m: "may_add (NType ty) (g, table) = (idx, g', table')" by (metis prod_cases3)
  have ok: "graph_ok (g, table)" using assms(1) by (simp add: gt_ok_def gt)
  note s = may_add_spec [OF ok m] and ok' = gt_ok_may_add [OF assms(1) [unfolded gt] m]
  obtain ns where ns: "g_nodes g' = g_nodes g @ ns" using s(5) by blast
  then have f: "fidx < length (g_nodes g')" "g_nodes g' ! fidx = g_nodes g ! fidx"
    using assms(2) by (auto simp: gt nth_append)
  have eq: "add_param fidx (g, table) p = (add_edge idx fidx e g', table')"
    by (simp add: add_param_def pe gt m)
  show "gt_ok (add_param fidx gt p)" using gt_ok_add_edge [OF ok' s(2) f(1)] by (simp add: eq gt)
  show "links (fst (add_param fidx gt p)) =
      insert (NType (fst (param_edge p)), g_nodes (fst gt) ! fidx, snd (param_edge p)) (links (fst gt))"
    using s(3,4) f(2) by (simp add: eq links_add_edge pe gt)
  show "\<exists>ns. g_nodes (fst (add_param fidx gt p)) = g_nodes (fst gt) @ ns" using ns by (simp add: eq gt)
qed

lemma add_return_spec:
  assumes "gt_ok gt" "fidx < length (g_nodes (fst gt))"
  shows "gt_ok (add_return fidx gt rt)"
    "links (fst (add_return fidx gt rt)) =
      insert (g_nodes (fst gt) ! fidx, NType (return_type rt), FunctionReturn) (links (fst gt))"
    "\<exists>ns. g_nodes (fst (add_return fidx gt rt)) = g_nodes (fst gt) @ ns"
proof -
  obtain g table where gt: "gt = (g, table)" by fastforce
  obtain idx g' table' where m: "may_add (NType (return_type rt)) (g, table) = (idx, g', table')"
    by (metis prod_cases3)
  have ok: "graph_ok (g, table)" using assms(1) by (simp add: gt_ok_def gt)
  note s = may_add_spec [OF ok m] and ok' = gt_ok_may_add [OF assms(1) [unfolded gt] m]
  obtain ns where ns: "g_nodes g' = g_nodes g @ ns" using s(5) by blast
  then have f: "fidx < length (g_nodes g')" "g_nodes g' ! fidx = g_nodes g ! fidx"
    using assms(2) by (auto simp: gt nth_append)
  have eq: "add_return fidx (g, table) rt = (add_edge fidx idx FunctionReturn g', table')"
    by (simp add: add_return_def gt m)
  show "gt_ok (add_return fidx gt rt)" using gt_ok_add_edge [OF ok' f(1) s(2)] by (simp add: eq gt)
  show "links (fst (add_return fidx gt rt)) =
      insert (g_nodes (fst gt) ! fidx, NType (return_type rt), FunctionReturn) (links (fst gt))"
    using s(3,4) f(2) by (simp add: eq links_add_edge gt)
  show "\<exists>ns. g_nodes (fst (add_return fidx gt rt)) = g_nodes (fst gt) @ ns" using ns by (simp add: eq gt)
qed

text \<open>A fold of steps that each record one link of the node \<open>fidx\<close>.\<close>

lemma fold_links:
  assumes step: "\<And>gt x. gt_ok gt \<Longrightarrow> fidx < length (g_nodes (fst gt)) \<Longrightarrow>
      gt_ok (h gt x) \<and> links (fst (h gt x)) = insert (lk (g_nodes (fst gt) ! fidx) x) (links (fst gt))
      \<and> (\<exists>ns. g_nodes (fst (h gt x)) = g_nodes (fst gt) @ ns)"
  shows "gt_ok gt \<Longrightarrow> fidx < length (g_nodes (fst gt)) \<Longrightarrow>
    gt_ok (foldl h gt xs) \<and> links (fst (foldl h gt xs)) =
      lk (g_nodes (fst gt) ! fidx) ` set xs \<union> links (fst gt)
    \<and> (\<exists>ns. g_nodes (fst (foldl h gt xs)) = g_nodes (fst gt) @ ns)"
proof (induction xs arbitrary: gt)
  case (Cons x xs)
  obtain ns where s: "gt_ok (h gt x)" "g_nodes (fst (h gt x)) = g_nodes (fst gt) @ ns"
    "links (fst (h gt x)) = insert (lk (g_nodes (fst gt) ! fidx) x) (links (fst gt))"
    using step [OF Cons.prems] by blast
  then have "fidx < length (g_nodes (fst (h gt x)))" "g_nodes (fst (h gt x)) ! fidx = g_nodes (fst gt) ! fidx"
    using Cons.prems(2) by (simp_all add: nth_append)
  then show ?case using Cons.IH [OF s(1)] s by auto
qed simp

definition tg_ok :: "MoveTypeGraph \<Rightarrow> bool" where
  "tg_ok self \<longleftrightarrow> gt_ok (type_graph self, tys self)"

lemma add_function_spec:
  assumes "tg_ok self"
  shows "tg_ok (add_function m self f)"
    "links (type_graph (add_function m self f)) = function_links m f \<union> links (type_graph self)"
    "graph_modules (add_function m self f) = graph_modules self"
proof -
  let ?g = "type_graph self" and ?n = "NFunction m f"
  let ?g1 = "?g\<lparr>g_nodes := g_nodes ?g @ [?n]\<rparr>" and ?i = "length (g_nodes ?g)"
  have ok: "graph_ok (?g, tys self)" using assms by (simp add: tg_ok_def gt_ok_def)
  have ok1: "gt_ok (?g1, tys self)"
    using assms by (fastforce simp: tg_ok_def gt_ok_def graph_ok_def nth_append less_Suc_eq)
  let ?lp = "\<lambda>a p. (NType (fst (param_edge p)), a, snd (param_edge p))"
  let ?lr = "\<lambda>a rt. (a, NType (return_type rt), FunctionReturn)"
  let ?gt1 = "foldl (add_param ?i) (?g1, tys self) (parameters f)"
  have p: "gt_ok ?gt1 \<and> links (fst ?gt1) = ?lp (g_nodes ?g1 ! ?i) ` set (parameters f) \<union> links ?g1
      \<and> (\<exists>ns. g_nodes (fst ?gt1) = g_nodes ?g1 @ ns)"
    using fold_links [of ?i "add_param ?i" ?lp "(?g1, tys self)" "parameters f"] add_param_spec ok1 by simp
  then obtain ns where ns: "g_nodes (fst ?gt1) = g_nodes ?g1 @ ns" by blast
  let ?gt2 = "foldl (add_return ?i) ?gt1 (return_paramters f)"
  have r: "gt_ok ?gt2 \<and> links (fst ?gt2) = ?lr (g_nodes (fst ?gt1) ! ?i) ` set (return_paramters f)
      \<union> links (fst ?gt1)"
    using fold_links [of ?i "add_return ?i" ?lr ?gt1 "return_paramters f"] add_return_spec p ns by simp
  have eq: "add_function m self f = self\<lparr>type_graph := fst ?gt2, tys := snd ?gt2\<rparr>"
    by (simp add: add_function_def add_node_def Let_def)
  show "tg_ok (add_function m self f)" using r by (simp add: eq tg_ok_def)
  have n: "g_nodes ?g1 ! ?i = ?n" "g_nodes (fst ?gt1) ! ?i = ?n" by (simp_all add: ns nth_append)
  have "links (fst ?gt2) = ?lr ?n ` set (return_paramters f) \<union> (?lp ?n ` set (parameters f) \<union> links ?g)"
    using r p n links_add_node [OF ok] by simp
  then show "links (type_graph (add_function m self f)) = function_links m f \<union> links ?g"
    unfolding eq function_links_def by (simp add: Un_assoc Un_left_commute)
  show "graph_modules (add_function m self f) = graph_modules self" by (simp add: eq)
qed

text \<open>The functions of a list of modules that the graph analyses: those of the first module of
  every id that is not yet in \<open>seen\<close>.\<close>

fun analysed :: "MoveModuleId set \<Rightarrow> MoveModuleAbi list \<Rightarrow> (MoveModuleId \<times> MoveFunctionAbi) set" where
  "analysed seen [] = {}"
| "analysed seen (md # mds) =
     (if abi_module_id md \<in> seen then analysed seen mds
      else {abi_module_id md} \<times> set (abi_functions md)
           \<union> analysed (insert (abi_module_id md) seen) mds)"

lemma add_functions_spec:
  "tg_ok self \<Longrightarrow> tg_ok (foldl (add_function m) self fs)
    \<and> links (type_graph (foldl (add_function m) self fs)) =
        (\<Union>f \<in> set fs. function_links m f) \<union> links (type_graph self)
    \<and> graph_modules (foldl (add_function m) self fs) = graph_modules self"
proof (induction fs arbitrary: self)
  case (Cons f fs)
  then show ?case using Cons.IH [OF add_function_spec(1) [OF Cons.prems]] add_function_spec [OF Cons.prems]
    by auto
qed simp

lemma add_modules_spec:
  "tg_ok self \<Longrightarrow> tg_ok (foldl add_module self mds)
    \<and> links (type_graph (foldl add_module self mds)) =
        (\<Union>(m, f) \<in> analysed (graph_modules self) mds. function_links m f) \<union> links (type_graph self)"
proof (induction mds arbitrary: self)
  case (Cons md mds)
  show ?case
  proof (cases "abi_module_id md \<in> graph_modules self")
    case True
    then show ?thesis using Cons by (simp add: add_module_def)
  next
    case False
    let ?s0 = "self\<lparr>graph_modules := insert (abi_module_id md) (graph_modules self)\<rparr>"
    let ?s1 = "foldl (add_function (abi_module_id md)) ?s0 (abi_functions md)"
    have "tg_ok ?s0" using Cons.prems by (simp add: tg_ok_def)
    note s1 = add_functions_spec [OF this, of "abi_module_id md" "abi_functions md"]
    have eq: "add_module self md = ?s1" using False by (simp add: add_module_def)
    have "(\<Union>(m, f) \<in> {abi_module_id md} \<times> set (abi_functions md). function_links m f)
        = (\<Union>f \<in> set (abi_functions md). function_links (abi_module_id md) f)" by auto
    then show ?thesis
      using Cons.IH [of ?s1] s1 False by (auto simp: eq)
  qed
qed simp

lemma add_packages_modules:
  "foldl add_package self pkgs = foldl add_module self (concat (map modules pkgs))"
  by (induction pkgs arbitrary: self) (simp_all add: add_package_def)

lemma tg_ok_new: "tg_ok MoveTypeGraph_new" "links (type_graph MoveTypeGraph_new) = {}"
  by (simp_all add: tg_ok_def gt_ok_def graph_ok_def MoveTypeGraph_new_def Graph_new_def links_def)

lemma matching_nodes_iff:
  assumes "tg_ok self"
  shows "i \<in> set (matching_nodes self ty) \<longleftrightarrow> i < length (g_nodes (type_graph self))
    \<and> (\<exists>t. g_nodes (type_graph self) ! i = NType t \<and> partial_extract_ty_args t ty \<noteq> None)"
proof -
  have "(\<exists>t. (NType t, i) \<in> set (tys self) \<and> partial_extract_ty_args t ty \<noteq> None) \<longleftrightarrow>
      i < length (g_nodes (type_graph self))
      \<and> (\<exists>t. g_nodes (type_graph self) ! i = NType t \<and> partial_extract_ty_args t ty \<noteq> None)"
    using assms unfolding tg_ok_def gt_ok_def graph_ok_def by fastforce
  moreover have "i \<in> set (matching_nodes self ty) \<longleftrightarrow>
      (\<exists>t. (NType t, i) \<in> set (tys self) \<and> partial_extract_ty_args t ty \<noteq> None)"
    by (force simp: matching_nodes_def map_filter_def split: TypeGraphNode.splits if_splits)
  ultimately show ?thesis by simp
qed

lemma node_functions_iff:
  "(m, f) \<in> set (node_functions g js) \<longleftrightarrow> (\<exists>j \<in> set js. g_nodes g ! j = NFunction m f)"
  by (force simp: node_functions_def map_filter_def split: TypeGraphNode.splits)

lemma outgoing_iff: "j \<in> set (outgoing g i) \<longleftrightarrow> (\<exists>e. (i, j, e) \<in> set (g_edges g))"
  and incoming_iff: "i \<in> set (incoming g j) \<longleftrightarrow> (\<exists>e. (i, j, e) \<in> set (g_edges g))"
  by (force simp: outgoing_def incoming_def)+

lemma links_iff:
  "(a, b, e) \<in> links g \<longleftrightarrow> (\<exists>i j. (i, j, e) \<in> set (g_edges g) \<and> g_nodes g ! i = a \<and> g_nodes g ! j = b)"
  by (auto simp: links_def)

lemma edge_ends:
  "tg_ok self \<Longrightarrow> (i, j, e) \<in> set (g_edges (type_graph self)) \<Longrightarrow>
    i < length (g_nodes (type_graph self)) \<and> j < length (g_nodes (type_graph self))"
  by (rule graph_ok_edges [of _ "tys self"]) (auto simp: tg_ok_def gt_ok_def)

lemma find_consumers_links:
  assumes "tg_ok self"
  shows "(m, f) \<in> set (find_consumers self ty po) \<longleftrightarrow> \<not> (po \<and> visibility f \<noteq> Public)
    \<and> (\<exists>t e. (NType t, NFunction m f, e) \<in> links (type_graph self) \<and> partial_extract_ty_args t ty \<noteq> None)"
proof -
  have "(\<exists>t e. (NType t, NFunction m f, e) \<in> links (type_graph self) \<and> partial_extract_ty_args t ty \<noteq> None)
      \<longleftrightarrow> (\<exists>i \<in> set (matching_nodes self ty). (m, f) \<in> set (node_functions (type_graph self)
             (outgoing (type_graph self) i)))"
    unfolding matching_nodes_iff [OF assms] Bex_def node_functions_iff links_iff outgoing_iff
    using edge_ends [OF assms] by blast
  then show ?thesis by (auto simp: find_consumers_def)
qed

lemma find_producers_links:
  assumes "tg_ok self"
  shows "(m, f) \<in> set (find_producers self ty po ex) \<longleftrightarrow> \<not> (po \<and> visibility f \<noteq> Public)
    \<and> \<not> is_excluded ex m f \<and> producer_allowed m f
    \<and> (\<exists>t e. (NFunction m f, NType t, e) \<in> links (type_graph self)
         \<and> partial_extract_ty_args t (return_type ty) \<noteq> None)"
proof -
  have "(\<exists>t e. (NFunction m f, NType t, e) \<in> links (type_graph self)
         \<and> partial_extract_ty_args t (return_type ty) \<noteq> None)
      \<longleftrightarrow> (\<exists>i \<in> set (matching_nodes self (return_type ty)). (m, f) \<in> set (node_functions (type_graph self)
             (incoming (type_graph self) i)))"
    unfolding matching_nodes_iff [OF assms] Bex_def node_functions_iff links_iff incoming_iff
    using edge_ends [OF assms] by blast
  then show ?thesis by (auto simp: find_producers_def)
qed

section \<open>Properties\<close>

text \<open>
  C15: the type graph of a list of packages answers exactly: the consumers of a type are the
  functions of the analysed modules with a parameter, references stripped, that the type may
  instantiate, and the producers are those with such a return type that the filters allow.
\<close>
theorem type_graph_exact:
  "set (find_consumers (foldl add_package MoveTypeGraph_new pkgs) ty po) =
     {(m, f). (m, f) \<in> analysed {} (concat (map modules pkgs)) \<and> \<not> (po \<and> visibility f \<noteq> Public)
        \<and> (\<exists>p \<in> set (parameters f). partial_extract_ty_args (fst (param_edge p)) ty \<noteq> None)}
   \<and> set (find_producers (foldl add_package MoveTypeGraph_new pkgs) ty po ex) =
     {(m, f). (m, f) \<in> analysed {} (concat (map modules pkgs)) \<and> \<not> (po \<and> visibility f \<noteq> Public)
        \<and> \<not> is_excluded ex m f \<and> producer_allowed m f
        \<and> (\<exists>rt \<in> set (return_paramters f).
             partial_extract_ty_args (return_type rt) (return_type ty) \<noteq> None)}"
proof -
  let ?G = "foldl add_package MoveTypeGraph_new pkgs" and ?S = "analysed {} (concat (map modules pkgs))"
  have G: "tg_ok ?G" "links (type_graph ?G) = (\<Union>(m, f) \<in> ?S. function_links m f)"
    using add_modules_spec [OF tg_ok_new(1), of "concat (map modules pkgs)"] tg_ok_new(2)
    unfolding add_packages_modules by (simp_all add: MoveTypeGraph_new_def)
  have c: "(\<exists>t e. (NType t, NFunction m f, e) \<in> links (type_graph ?G) \<and> P t) \<longleftrightarrow>
      (m, f) \<in> ?S \<and> (\<exists>p \<in> set (parameters f). P (fst (param_edge p)))" for m f P
    unfolding G(2) function_links_def by force
  have r: "(\<exists>t e. (NFunction m f, NType t, e) \<in> links (type_graph ?G) \<and> P t) \<longleftrightarrow>
      (m, f) \<in> ?S \<and> (\<exists>rt \<in> set (return_paramters f). P (return_type rt))" for m f P
    unfolding G(2) function_links_def by force
  have "(m, f) \<in> set (find_consumers ?G ty po) \<longleftrightarrow> (m, f) \<in> ?S \<and> \<not> (po \<and> visibility f \<noteq> Public)
        \<and> (\<exists>p \<in> set (parameters f). partial_extract_ty_args (fst (param_edge p)) ty \<noteq> None)" for m f
    unfolding find_consumers_links [OF G(1)] c by blast
  moreover have "(m, f) \<in> set (find_producers ?G ty po ex) \<longleftrightarrow> (m, f) \<in> ?S \<and> \<not> (po \<and> visibility f \<noteq> Public)
        \<and> \<not> is_excluded ex m f \<and> producer_allowed m f
        \<and> (\<exists>rt \<in> set (return_paramters f).
             partial_extract_ty_args (return_type rt) (return_type ty) \<noteq> None)" for m f
    unfolding find_producers_links [OF G(1)] r by blast
  ultimately show ?thesis unfolding set_eq_iff by (simp only: split_paired_All mem_Collect_eq case_prod_conv) blast
qed

end
