(* ===== verification/Metadata.thy ===== *)
theory Metadata
  imports Graphs
begin

text \<open>
  \<open>movy-replay/src/meta.rs\<close>: the metadata of an environment, gathered from the packages and objects
  of a store, with \<open>export_abi\<close> of \<open>env.rs\<close>. The store is a record of the methods of the traits
  \<open>ObjectStoreCachedStore\<close> and \<open>ObjectStoreInfo\<close> over which the source is generic; a \<open>BTreeSet\<close> is
  a strictly ascending list. The theory also gives \<open>MoveTypeTag\<close> its derived order.
\<close>

section \<open>The order of type tags\<close>

text \<open>
  The derived order compares variants by position and fields from the left. The key lists what it
  looks at, with an end mark below every character and every further element, so the keys compare
  lexicographically as the tags do.
\<close>

definition string_key :: "string \<Rightarrow> nat list" where
  "string_key s = map (\<lambda>c. Suc (of_char c)) s @ [0]"

fun tag_key :: "MoveTypeTag \<Rightarrow> nat list"
  and struct_tag_key :: "MoveStructTag \<Rightarrow> nat list" where
  "tag_key TagBool = [0]"
| "tag_key TagU8 = [1]"
| "tag_key TagU16 = [2]"
| "tag_key TagU32 = [3]"
| "tag_key TagU64 = [4]"
| "tag_key TagU128 = [5]"
| "tag_key TagU256 = [6]"
| "tag_key (TagVector t) = 7 # tag_key t"
| "tag_key TagAddress = [8]"
| "tag_key TagSigner = [9]"
| "tag_key (TagStruct s) = 10 # struct_tag_key s"
| "struct_tag_key (MoveStructTag a m n tas) =
     unat a # string_key m @ string_key n @ concat (map (\<lambda>t. 1 # tag_key t) tas) @ [0]"

lemma string_key_append_inject:
  "string_key s @ xs = string_key t @ ys \<longleftrightarrow> s = t \<and> xs = ys"
proof (induction s arbitrary: t)
  case Nil
  then show ?case by (cases t) (auto simp: string_key_def)
next
  case (Cons c s)
  then show ?case by (cases t) (auto simp: string_key_def)
qed

lemma concat_key_append_inject:
  assumes "\<And>t u xs ys. t \<in> set ts \<Longrightarrow> key t @ xs = key u @ ys \<longleftrightarrow> t = u \<and> xs = ys"
  shows "concat (map (\<lambda>t. 1 # key t) ts) @ 0 # xs = concat (map (\<lambda>t. 1 # key t) us) @ 0 # ys
    \<longleftrightarrow> ts = us \<and> xs = (ys :: nat list)"
  using assms
proof (induction ts arbitrary: us)
  case Nil
  then show ?case by (cases us) auto
next
  case (Cons t ts)
  then show ?case by (cases us) auto
qed

lemma tag_key_append_inject: "tag_key t @ xs = tag_key u @ ys \<longleftrightarrow> t = u \<and> xs = ys"
  and struct_tag_key_append_inject: "struct_tag_key s @ xs = struct_tag_key s' @ ys \<longleftrightarrow> s = s' \<and> xs = ys"
proof (induction t and s arbitrary: u xs ys and s' xs ys)
  case (MoveStructTag a m n tas)
  obtain a' m' n' tas' where s': "s' = MoveStructTag a' m' n' tas'" by (cases s')
  show ?case
    using concat_key_append_inject [of tas tag_key xs tas' ys] MoveStructTag
    by (auto simp: s' string_key_append_inject word_unat_eq_iff)
next
  case (TagVector t)
  then show ?case by (cases u) auto
next
  case (TagStruct s)
  then show ?case by (cases u) auto
qed (case_tac u; auto)+

lemma tag_key_inject: "tag_key t = tag_key u \<longleftrightarrow> t = u"
  using tag_key_append_inject [of t "[]" u "[]"] by simp

instantiation MoveTypeTag :: linorder
begin

definition less_eq_MoveTypeTag :: "MoveTypeTag \<Rightarrow> MoveTypeTag \<Rightarrow> bool" where
  "less_eq_MoveTypeTag t u \<longleftrightarrow> tag_key t \<le> tag_key u"

definition less_MoveTypeTag :: "MoveTypeTag \<Rightarrow> MoveTypeTag \<Rightarrow> bool" where
  "less_MoveTypeTag t u \<longleftrightarrow> tag_key t < tag_key u"

instance
proof
  fix t u v :: MoveTypeTag
  show "t < u \<longleftrightarrow> t \<le> u \<and> \<not> u \<le> t"
    unfolding less_eq_MoveTypeTag_def less_MoveTypeTag_def by (rule less_le_not_le)
  show "t \<le> u \<Longrightarrow> u \<le> t \<Longrightarrow> t = u"
    unfolding less_eq_MoveTypeTag_def by (drule (1) order_antisym) (simp add: tag_key_inject)
qed (auto simp: less_eq_MoveTypeTag_def)

end

section \<open>The metadata of an environment\<close>

text \<open>The methods of the store; their \<open>Err\<close> values carry a \<open>MovyError\<close>.\<close>

record StoreInfo =
  list_objects :: "MovyError + MoveAddress list"
  get_version :: "MoveAddress \<Rightarrow> MovyError + u64"
  get_move_object_info :: "MoveAddress \<Rightarrow> MovyError + MoveObjectInfo"
  get_package_info :: "MoveAddress \<Rightarrow> MovyError + MovePackageAbi option"

type_synonym abi_map = "(MoveAddress, MovePackageAbi) btree"

definition export_abi :: "StoreInfo \<Rightarrow> MovyError + abi_map" where
  "export_abi env = map_sum id
     (foldl (\<lambda>out obj. case get_package_info env obj of
         Inr (Some abi) \<Rightarrow> bt_insert (package_id abi) abi out
       | _ \<Rightarrow> out) [])
     (list_objects env)"

record Metadata =
  md_type_graph :: MoveTypeGraph
  md_abis :: abi_map
  md_testing_abis :: abi_map
  md_types_pool :: "(MoveTypeTag, MoveAddress list) btree"
  md_module_address_to_package :: "(MoveAddress, MoveAddress) btree"
  md_ability_to_type_tag :: "(MoveAbility, MoveTypeTag list) btree"
  md_function_name_to_idents :: "(string, FunctionIdent list) btree"
  md_structs_mapping :: "(MoveModuleId \<times> string, MoveStructAbi) btree"

definition iter_functions ::
  "Metadata \<Rightarrow> (MoveAddress \<times> string \<times> MoveModuleAbi \<times> string \<times> MoveFunctionAbi) list" where
  "iter_functions self =
     concat (map (\<lambda>(package_addr, package_meta).
       concat (map (\<lambda>module_data.
         map (\<lambda>func_data. (package_addr, mod_name (abi_module_id module_data), module_data,
                           fn_name func_data, func_data))
           (abi_functions module_data)) (modules package_meta))) (md_abis self))"

definition resolved_package :: "Metadata \<Rightarrow> MoveAddress \<Rightarrow> MoveAddress" where
  "resolved_package self p =
     (case bt_get (md_module_address_to_package self) p of Some q \<Rightarrow> q | None \<Rightarrow> p)"

definition get_package_metadata :: "Metadata \<Rightarrow> MoveAddress \<Rightarrow> MovePackageAbi option" where
  "get_package_metadata self p = bt_get (md_testing_abis self) (resolved_package self p)"

definition get_original_package_metadata :: "Metadata \<Rightarrow> MoveAddress \<Rightarrow> MovePackageAbi option" where
  "get_original_package_metadata self p = bt_get (md_abis self) (resolved_package self p)"

definition find_module :: "string \<Rightarrow> MovePackageAbi \<Rightarrow> MoveModuleAbi option" where
  "find_module module pkg = List.find (\<lambda>m. mod_name (abi_module_id m) = module) (modules pkg)"

definition get_function :: "Metadata \<Rightarrow> MoveAddress \<Rightarrow> string \<Rightarrow> string \<Rightarrow> MoveFunctionAbi option" where
  "get_function self p module function_name =
     Option.bind (Option.bind (get_package_metadata self p) (find_module module))
       (\<lambda>m. List.find (\<lambda>f. fn_name f = function_name) (abi_functions m))"

definition get_struct :: "Metadata \<Rightarrow> MoveAddress \<Rightarrow> string \<Rightarrow> string \<Rightarrow> MoveStructAbi option" where
  "get_struct self p module name =
     Option.bind (Option.bind (get_package_metadata self p) (find_module module))
       (\<lambda>m. List.find (\<lambda>s. struct_name (struct_handle s) = name) (abi_structs m))"

text \<open>\<open>get_enum\<close> has the body of \<open>get_struct\<close>.\<close>

definition get_enum :: "Metadata \<Rightarrow> MoveAddress \<Rightarrow> string \<Rightarrow> string \<Rightarrow> MoveStructAbi option" where
  "get_enum self p module name =
     Option.bind (Option.bind (get_package_metadata self p) (find_module module))
       (\<lambda>m. List.find (\<lambda>s. struct_name (struct_handle s) = name) (abi_structs m))"

definition get_abilities :: "Metadata \<Rightarrow> MoveAddress \<Rightarrow> string \<Rightarrow> string \<Rightarrow> MoveAbility option" where
  "get_abilities self p module name =
     (case get_struct self p module name of
        Some s \<Rightarrow> Some (abilities (struct_handle s))
      | None \<Rightarrow> map_option (\<lambda>e. abilities (struct_handle e)) (get_enum self p module name))"

text \<open>Decoding an event: the layout of its type, then the decoder of the SDK, a parameter. The
  outer \<open>None\<close> is an exhausted layout bound.\<close>

definition event_layouts ::
  "(string \<Rightarrow> bool) \<Rightarrow> nat \<Rightarrow> Metadata \<Rightarrow> TypeTag list \<Rightarrow> MoveTypeLayout list option" where
  "event_layouts ok n self params =
     map_option (map the \<circ> filter (\<lambda>l. l \<noteq> None))
       (those (map (\<lambda>ty. to_move_type_layout ok (bt_get (md_structs_mapping self)) n
                          (from_type_tag_lossy (MoveTypeTag_from ty)) []) params))"

definition decode_sui_event ::
  "(string \<Rightarrow> bool) \<Rightarrow> nat \<Rightarrow> ('c \<Rightarrow> MoveTypeLayout \<Rightarrow> MovyError + 'v) \<Rightarrow> Metadata
     \<Rightarrow> StructTag \<Rightarrow> 'c \<Rightarrow> (MovyError + 'v option) option" where
  "decode_sui_event ok n decode self ty contents =
     (case get_struct self (st_address ty) (st_module ty) (st_name ty) of
        None \<Rightarrow> Some (Inr None)
      | Some st \<Rightarrow>
          Option.bind (event_layouts ok n self (st_type_params ty)) (\<lambda>typs.
          Option.bind (to_move_struct_layout ok
                         (\<lambda>t. to_move_type_layout ok (bt_get (md_structs_mapping self)) n t typs) st)
            (\<lambda>l. case l of
               None \<Rightarrow> Some (Inr None)
             | Some layout \<Rightarrow> Some (map_sum id Some (decode contents layout)))))"

section \<open>Gathering the metadata\<close>

definition insert_all :: "('k :: linorder, 'v) btree \<Rightarrow> ('k \<times> 'v) list \<Rightarrow> ('k, 'v) btree" where
  "insert_all m ps = foldl (\<lambda>m (k, v). bt_insert k v m) m ps"

text \<open>The modules of all packages, each with the package that holds it, in iteration order.\<close>

definition package_modules :: "abi_map \<Rightarrow> (MoveAddress \<times> MoveModuleAbi) list" where
  "package_modules abis = concat (map (\<lambda>(pkg_id, abi). map (Pair pkg_id) (modules abi)) abis)"

definition map_module ::
  "StoreInfo \<Rightarrow> (MoveAddress, MoveAddress) btree \<Rightarrow> MoveAddress \<times> MoveModuleAbi
     \<Rightarrow> (MoveAddress, MoveAddress) btree res" where
  "map_module env m p =
     (case p of (pkg_id, module) \<Rightarrow>
      let a = module_address (abi_module_id module) in
      case bt_get m a of
        Some old_pkg_id \<Rightarrow>
          bindR (map_sum Err id (get_version env old_pkg_id)) (\<lambda>old_version.
          bindR (map_sum Err id (get_version env pkg_id)) (\<lambda>new_version.
            Inr (if old_version < new_version then bt_insert a pkg_id m else m)))
      | None \<Rightarrow> Inr (bt_insert a pkg_id m))"

definition primitive_tags :: "(MoveAbility, MoveTypeTag list) btree" where
  "primitive_tags =
     bt_insert DROP [TagSigner]
      (bt_insert PRIMITIVES
        (sort [TagBool, TagAddress, TagU8, TagU16, TagU32, TagU64, TagU128, TagU256, TagVector TagU8])
        [])"

definition set_insert ::
  "'k :: linorder \<Rightarrow> 'v :: linorder \<Rightarrow> ('k, 'v list) btree \<Rightarrow> ('k, 'v list) btree" where
  "set_insert k v m =
     bt_insert k (insort_insert v (case bt_get m k of Some vs \<Rightarrow> vs | None \<Rightarrow> [])) m"

definition add_struct_tag ::
  "(MoveAbility, MoveTypeTag list) btree \<Rightarrow> MoveStructAbi \<Rightarrow> (MoveAbility, MoveTypeTag list) btree" where
  "add_struct_tag m s =
     (let h = struct_handle s in
      if type_parameters h \<noteq> [] then m
      else set_insert (abilities h)
             (TagStruct (MoveStructTag (module_address (handle_module_id h))
                (mod_name (handle_module_id h)) (struct_name h) [])) m)"

definition module_structs :: "abi_map \<Rightarrow> MoveStructAbi list" where
  "module_structs abis = concat (map (abi_structs \<circ> snd) (package_modules abis))"

definition module_idents :: "MoveModuleAbi \<Rightarrow> FunctionIdent list" where
  "module_idents m = map (\<lambda>f. FunctionIdent_new (module_address (abi_module_id m))
     (mod_name (abi_module_id m)) (fn_name f)) (abi_functions m)"

definition name_idents :: "abi_map \<Rightarrow> (string, FunctionIdent list) btree" where
  "name_idents abis = foldl (\<lambda>m i. bt_push (ident_function i) i m) []
     (concat (map (module_idents \<circ> snd) (package_modules abis)))"

definition pool_object ::
  "StoreInfo \<Rightarrow> (MoveTypeTag, MoveAddress list) btree \<Rightarrow> MoveAddress
     \<Rightarrow> (MoveTypeTag, MoveAddress list) btree" where
  "pool_object env pool obj_id =
     (case get_move_object_info env obj_id of
        Inr info \<Rightarrow> set_insert (info_ty info) obj_id pool
      | Inl _ \<Rightarrow> pool)"

definition structs_of :: "abi_map \<Rightarrow> (MoveModuleId \<times> string, MoveStructAbi) btree" where
  "structs_of abis = insert_all []
     (concat (map (\<lambda>(_, md). map (\<lambda>st. ((abi_module_id md, struct_name (struct_handle st)), st))
                              (abi_structs md)) (package_modules abis)))"

definition filter_types_pool ::
  "(MoveTypeTag, MoveAddress list) btree \<Rightarrow> MoveTypeTag list option \<Rightarrow> MoveTypeTag list option
     \<Rightarrow> (MoveTypeTag, MoveAddress list) btree" where
  "filter_types_pool pool include_types exclude_types =
     (let pool = (case include_types of
                    Some inc \<Rightarrow> filter (\<lambda>(ty, _). ty \<in> set inc) pool | None \<Rightarrow> pool);
          pool = (case exclude_types of
                    Some exc \<Rightarrow> filter (\<lambda>(ty, _). ty \<notin> set exc) pool | None \<Rightarrow> pool)
      in filter (\<lambda>(_, ids). ids \<noteq> []) pool)"

definition from_env_filtered ::
  "StoreInfo \<Rightarrow> abi_map \<Rightarrow> MoveTypeTag list option \<Rightarrow> MoveTypeTag list option \<Rightarrow> Metadata res" where
  "from_env_filtered env local_abis include_types exclude_types =
     bindR (map_sum Err id (export_abi env)) (\<lambda>testing_abis.
     let abis = insert_all testing_abis local_abis in
     bindR (foldR (map_module env) [] (package_modules abis)) (\<lambda>module_address_to_package.
     bindR (map_sum Err id (list_objects env)) (\<lambda>objects.
     Inr \<lparr>md_type_graph = foldl add_package MoveTypeGraph_new (map snd abis),
          md_abis = abis,
          md_testing_abis = testing_abis,
          md_types_pool = filter_types_pool (foldl (pool_object env) [] objects)
                            include_types exclude_types,
          md_module_address_to_package = module_address_to_package,
          md_ability_to_type_tag = foldl add_struct_tag primitive_tags (module_structs abis),
          md_function_name_to_idents = name_idents testing_abis,
          md_structs_mapping = structs_of testing_abis\<rparr>)))"

definition Metadata_from_env :: "StoreInfo \<Rightarrow> abi_map \<Rightarrow> Metadata res" where
  "Metadata_from_env env local_abis = from_env_filtered env local_abis None None"

section \<open>Lemmas\<close>

definition lookup_set :: "('k, 'v list) btree \<Rightarrow> 'k \<Rightarrow> 'v set" where
  "lookup_set m k = (case bt_get m k of Some vs \<Rightarrow> set vs | None \<Rightarrow> {})"

lemma lookup_set_insert [simp]:
  "lookup_set (set_insert k v m) k' = lookup_set m k' \<union> (if k' = k then {v} else {})"
  by (auto simp: lookup_set_def set_insert_def set_insort_insert split: option.splits)

lemma bt_wf_set_insert [bt_wf]: "bt_wf m \<Longrightarrow> bt_wf (set_insert k v m)"
  by (simp add: set_insert_def bt_wf_insert)

lemma bt_wf_foldl: "(\<And>m x. bt_wf m \<Longrightarrow> bt_wf (f m x)) \<Longrightarrow> bt_wf m \<Longrightarrow> bt_wf (foldl f m xs)"
  by (induction xs arbitrary: m) auto

lemma bt_wf_pool_object: "bt_wf m \<Longrightarrow> bt_wf (pool_object env m i)"
  by (auto simp: pool_object_def bt_wf split: sum.splits)

lemma pool_objects:
  "lookup_set (foldl (pool_object env) m objs) ty = lookup_set m ty
     \<union> {i \<in> set objs. \<exists>info. get_move_object_info env i = Inr info \<and> info_ty info = ty}"
  by (induction objs arbitrary: m) (auto simp: pool_object_def split: sum.splits if_splits)

lemma bt_get_filter_key: "bt_get (filter (\<lambda>(k, _). P k) m) k = (if P k then bt_get m k else None)"
  by (induction m) auto

lemma lookup_set_nonempty:
  "bt_wf m \<Longrightarrow> lookup_set (filter (\<lambda>(_, vs). vs \<noteq> []) m) k = lookup_set m k"
proof (induction m)
  case (Cons p m)
  have "bt_get m (fst p) = None"
    using Cons.prems by (force simp: bt_wf_Cons map_of_eq_None_iff)
  moreover have "bt_get (filter (\<lambda>(_, vs). vs \<noteq> []) m) (fst p) = None"
    using Cons.prems by (force simp: bt_wf_Cons map_of_eq_None_iff)
  ultimately show ?case using Cons by (cases p) (auto simp: lookup_set_def bt_wf_Cons)
qed simp

definition type_allowed :: "MoveTypeTag list option \<Rightarrow> MoveTypeTag list option \<Rightarrow> MoveTypeTag \<Rightarrow> bool" where
  "type_allowed inc exc ty \<longleftrightarrow> \<not> (\<exists>ts. inc = Some ts \<and> ty \<notin> set ts) \<and> \<not> (\<exists>ts. exc = Some ts \<and> ty \<in> set ts)"

lemma lookup_filter_types_pool:
  "bt_wf m \<Longrightarrow> lookup_set (filter_types_pool m inc exc) ty =
     (if type_allowed inc exc ty then lookup_set m ty else {})"
  unfolding filter_types_pool_def Let_def
  by (subst lookup_set_nonempty)
    (auto simp: lookup_set_def bt_get_filter_key type_allowed_def bt_wf split: option.splits)

text \<open>The loop over the modules: the package kept for an address is one of those seen, and none
  of them is newer.\<close>

definition newest_among ::
  "StoreInfo \<Rightarrow> (MoveAddress \<times> MoveModuleAbi) list \<Rightarrow> MoveAddress \<Rightarrow> MoveAddress \<Rightarrow> bool" where
  "newest_among env ps a p \<longleftrightarrow>
     (\<exists>md. (p, md) \<in> set ps \<and> module_address (abi_module_id md) = a)
     \<and> (\<forall>(q, md) \<in> set ps. module_address (abi_module_id md) = a \<longrightarrow>
          q = p \<or> (\<exists>vq vp. get_version env q = Inr vq \<and> get_version env p = Inr vp \<and> vq \<le> vp))"

definition modules_mapped ::
  "StoreInfo \<Rightarrow> (MoveAddress \<times> MoveModuleAbi) list \<Rightarrow> (MoveAddress, MoveAddress) btree \<Rightarrow> bool" where
  "modules_mapped env ps m \<longleftrightarrow>
     (\<forall>a. case bt_get m a of
        Some p \<Rightarrow> newest_among env ps a p
      | None \<Rightarrow> (\<forall>(q, md) \<in> set ps. module_address (abi_module_id md) \<noteq> a))"

lemma newest_among_skip:
  "module_address (abi_module_id md) \<noteq> a \<Longrightarrow> newest_among env (ps @ [(q, md)]) a p \<longleftrightarrow> newest_among env ps a p"
  by (auto simp: newest_among_def)

lemma newest_among_keep:
  assumes "newest_among env ps a p" "get_version env p = Inr vp" "get_version env q = Inr vq" "vq \<le> vp"
  shows "newest_among env (ps @ [(q, md)]) a p"
  using assms unfolding newest_among_def by auto

lemma newest_among_replace:
  assumes "newest_among env ps a p" "get_version env p = Inr vp" "get_version env q = Inr vq" "vp < vq"
    and "module_address (abi_module_id md) = a"
  shows "newest_among env (ps @ [(q, md)]) a q"
proof -
  have "r = q \<or> (\<exists>vr vq. get_version env r = Inr vr \<and> get_version env q = Inr vq \<and> vr \<le> vq)"
    if "(r, md') \<in> set ps" "module_address (abi_module_id md') = a" for r md'
    using assms that unfolding newest_among_def by fastforce
  then show ?thesis using assms(5) unfolding newest_among_def by auto
qed

lemma map_module_step:
  assumes "modules_mapped env ps m" "map_module env m x = Inr m'"
  shows "modules_mapped env (ps @ [x]) m'"
proof -
  obtain q md where x: "x = (q, md)" by (cases x)
  let ?a = "module_address (abi_module_id md)"
  have at: "case bt_get m a of Some p \<Rightarrow> newest_among env ps a p
      | None \<Rightarrow> (\<forall>(q, md) \<in> set ps. module_address (abi_module_id md) \<noteq> a)" for a
    using assms(1) unfolding modules_mapped_def by blast
  have other: "bt_get m' a = bt_get m a" if "a \<noteq> ?a" for a
    using assms(2) that
    by (auto simp: x map_module_def Let_def bindR_eq_Inr split: option.splits if_splits)
  have here: "\<exists>p. bt_get m' ?a = Some p \<and> newest_among env (ps @ [x]) ?a p"
  proof (cases "bt_get m ?a")
    case None
    then have "\<forall>(r, md') \<in> set ps. module_address (abi_module_id md') \<noteq> ?a" using at [of ?a] by simp
    then show ?thesis using assms(2) None by (auto simp: x map_module_def Let_def newest_among_def)
  next
    case (Some p)
    then have p: "newest_among env ps ?a p" using at [of ?a] by simp
    obtain vp vq where v: "get_version env p = Inr vp" "get_version env q = Inr vq"
        "m' = (if vp < vq then bt_insert ?a q m else m)"
      using assms(2) Some by (cases "get_version env p"; cases "get_version env q")
        (auto simp: x map_module_def Let_def)
    show ?thesis
      using v Some newest_among_replace [OF p v(1,2)] newest_among_keep [OF p v(1,2)]
      by (cases "vp < vq") (auto simp: x)
  qed
  have "case bt_get m' a of Some p \<Rightarrow> newest_among env (ps @ [x]) a p
      | None \<Rightarrow> (\<forall>(q, md) \<in> set (ps @ [x]). module_address (abi_module_id md) \<noteq> a)" for a
  proof (cases "a = ?a")
    case False
    then show ?thesis
      using at [of a] other [of a] newest_among_skip [of md a env ps q]
      by (auto simp: x split: option.splits)
  qed (use here in auto)
  then show ?thesis unfolding modules_mapped_def by blast
qed

lemma map_modules: "foldR (map_module env) [] ps = Inr m \<Longrightarrow> modules_mapped env ps m"
proof (induction ps arbitrary: m rule: rev_induct)
  case (snoc x ps)
  then show ?case by (auto simp: foldR_append bindR_eq_Inr intro: map_module_step)
qed (simp add: modules_mapped_def)

lemma lookup_set_push:
  "lookup_set (bt_push k v m) k' = lookup_set m k' \<union> (if k' = k then {v} else {})"
  by (auto simp: lookup_set_def bt_get_push split: option.splits)

lemma name_idents_exact:
  "lookup_set (name_idents abis) n =
     {i. ident_function i = n \<and> (\<exists>(p, md) \<in> set (package_modules abis). i \<in> set (module_idents md))}"
proof -
  have "lookup_set (foldl (\<lambda>m i. bt_push (ident_function i) i m) m is) n =
      lookup_set m n \<union> {i \<in> set is. ident_function i = n}" for m "is"
    by (induction "is" arbitrary: m) (auto simp: lookup_set_push)
  then show ?thesis by (force simp: name_idents_def lookup_set_def)
qed

section \<open>Properties\<close>

text \<open>
  A module address resolves to a package that holds a module with that address, and to the
  newest such package: any other one has a version that is at most as high. An address that does
  not resolve belongs to no module of any package.
\<close>
theorem newest_package_wins:
  assumes "from_env_filtered env local_abis inc exc = Inr md"
  shows "case bt_get (md_module_address_to_package md) a of
      Some p \<Rightarrow> newest_among env (package_modules (md_abis md)) a p
    | None \<Rightarrow> \<forall>(q, m) \<in> set (package_modules (md_abis md)). module_address (abi_module_id m) \<noteq> a"
proof -
  have "foldR (map_module env) [] (package_modules (md_abis md)) = Inr (md_module_address_to_package md)"
    using assms by (auto simp: from_env_filtered_def Let_def bindR_eq_Inr)
  then show ?thesis using map_modules unfolding modules_mapped_def by blast
qed

text \<open>
  The pool of a type lists exactly the objects of the store whose type it is, when the filters
  allow the type, and the index of function names lists exactly the functions of that name.
\<close>
theorem metadata_pools_exact:
  assumes "from_env_filtered env local_abis inc exc = Inr md" "list_objects env = Inr objs"
  shows "lookup_set (md_types_pool md) ty =
      {i \<in> set objs. type_allowed inc exc ty
         \<and> (\<exists>info. get_move_object_info env i = Inr info \<and> info_ty info = ty)}
    \<and> lookup_set (md_function_name_to_idents md) n =
      {i. ident_function i = n
         \<and> (\<exists>(p, m) \<in> set (package_modules (md_testing_abis md)). i \<in> set (module_idents m))}"
proof -
  have pool: "md_types_pool md = filter_types_pool (foldl (pool_object env) [] objs) inc exc"
    and names: "md_function_name_to_idents md = name_idents (md_testing_abis md)"
    using assms by (auto simp: from_env_filtered_def Let_def bindR_eq_Inr)
  have "bt_wf (foldl (pool_object env) [] objs)" by (rule bt_wf_foldl) (simp_all add: bt_wf_pool_object)
  then show ?thesis
    unfolding pool names lookup_filter_types_pool [OF \<open>bt_wf _\<close>] pool_objects name_idents_exact
    by (auto simp: lookup_set_def)
qed

text \<open>Two packages, the second an upgrade that keeps the module address of the first, and a coin.\<close>

definition demo_package :: "MoveAddress \<Rightarrow> MovePackageAbi" where
  "demo_package p = \<lparr>package_id = p, modules = [\<lparr>abi_module_id = \<lparr>module_address = 5, mod_name = ''m''\<rparr>,
     abi_structs = [], abi_functions = []\<rparr>]\<rparr>"

definition demo_env :: StoreInfo where
  "demo_env = \<lparr>list_objects = Inr [5, 6, 9],
     get_version = (\<lambda>i. Inr (if i = 6 then 2 else 1)),
     get_move_object_info = (\<lambda>i. if i = 9
        then Inr \<lparr>info_id = 9, info_ty = TagU8, info_owner = Immutable, info_version = 1, info_digest = 0\<rparr>
        else Inl (Any ''package'')),
     get_package_info = (\<lambda>i. if i = 9 then Inl (Any ''object'') else Inr (Some (demo_package i)))\<rparr>"

definition demo_metadata :: Metadata where
  "demo_metadata = (case from_env_filtered demo_env [] None None of Inr md \<Rightarrow> md)"

lemma demo_metadata:
  "from_env_filtered demo_env [] None None = Inr demo_metadata"
  "bt_get (md_module_address_to_package demo_metadata) 5 = Some 6"
  "md_abis demo_metadata = [(5, demo_package 5), (6, demo_package 6)]"
  by (simp_all add: demo_metadata_def from_env_filtered_def demo_env_def export_abi_def demo_package_def
      insert_all_def package_modules_def map_module_def Let_def)

theorem newest_package_wins_witness:
  "newest_among demo_env [(5, hd (modules (demo_package 5))), (6, hd (modules (demo_package 6)))] 5 6"
  using newest_package_wins [OF demo_metadata(1), of 5]
  by (simp add: demo_metadata package_modules_def demo_package_def)

theorem metadata_pools_exact_witness: "lookup_set (md_types_pool demo_metadata) TagU8 = {9}"
  using metadata_pools_exact [OF demo_metadata(1), of "[5, 6, 9]" TagU8]
  by (auto simp: demo_env_def type_allowed_def)

end
