(* ===== verification/Fuzz_Meta.thy ===== *)
theory Fuzz_Meta
  imports Metadata
begin

text \<open>
  \<open>movy-fuzz/src/meta.rs\<close> and \<open>const.rs\<close>, with \<open>update_score\<close> of \<open>mutators/object_data.rs\<close>: what
  the fuzzer targets. Packages and functions are filtered, functions get scores, and the test
  modules' \<open>movy_pre_\<close> and \<open>movy_post_\<close> functions become hooks of the functions they name. The
  random generator of the fuzzing library is the record \<open>Rand\<close> of the methods that the source
  calls; parsing an address is a parameter. Arithmetic on scores is checked, as in the
  profile of the workspace, and an overflow is a panic.
\<close>

section \<open>Text\<close>

fun split_char :: "char \<Rightarrow> string \<Rightarrow> string list" where
  "split_char c [] = [[]]"
| "split_char c (x # xs) =
     (if x = c then [] # split_char c xs
      else (case split_char c xs of [] \<Rightarrow> [[x]] | part # parts \<Rightarrow> (x # part) # parts))"

text \<open>\<open>u64::from_str\<close>: an optional plus sign, then decimal digits that fit.\<close>

definition is_digit :: "char \<Rightarrow> bool" where
  "is_digit c \<longleftrightarrow> 48 \<le> (of_char c :: nat) \<and> (of_char c :: nat) \<le> 57"

definition digits_value :: "string \<Rightarrow> nat" where
  "digits_value ds = foldl (\<lambda>n c. 10 * n + (of_char c - 48)) 0 ds"

definition u64_from_str :: "string \<Rightarrow> u64 option" where
  "u64_from_str s =
     (let ds = (case s of c # cs \<Rightarrow> if c = CHR ''+'' then cs else s | [] \<Rightarrow> []) in
      if ds = [] \<or> \<not> list_all is_digit ds \<or> 2 ^ 64 \<le> digits_value ds then None
      else Some (word_of_nat (digits_value ds)))"

record ObjectWithversion =
  ov_id :: MoveAddress
  ov_version :: "u64 option"

definition ObjectWithversion_from_str ::
  "(string \<Rightarrow> MoveAddress option) \<Rightarrow> string \<Rightarrow> ObjectWithversion res" where
  "ObjectWithversion_from_str parse s =
     (case split_char (CHR '':'') s of
        [i] \<Rightarrow> (case parse i of
           None \<Rightarrow> Inl (Err (Other (''can not parse id '' @ i)))
         | Some a \<Rightarrow> Inr \<lparr>ov_id = a, ov_version = None\<rparr>)
      | [i, v] \<Rightarrow> (case u64_from_str v of
           None \<Rightarrow> Inl (Err (Other (''can not parse version '' @ v)))
         | Some n \<Rightarrow> (case parse i of
             None \<Rightarrow> Inl (Err (Other (''can not parse id '' @ i)))
           | Some a \<Rightarrow> Inr \<lparr>ov_id = a, ov_version = Some n\<rparr>))
      | _ \<Rightarrow> Inl (Err (Other (''can not parse ObjectWithversion from '' @ s))))"

record FuzzFunctionScore =
  score_function :: FunctionIdent
  score_value :: u64

definition FuzzFunctionScore_from_str ::
  "(string \<Rightarrow> MoveAddress option) \<Rightarrow> string \<Rightarrow> FuzzFunctionScore res" where
  "FuzzFunctionScore_from_str parse s =
     (let st = split_char (CHR ''/'') s in
      if length st \<noteq> 2 then Inl (Err (Other ''expected usage: 0x2::coin::split/1000''))
      else case u64_from_str (st ! 1) of
        None \<Rightarrow> Inl (Err (Other (''can not parse score '' @ st ! 1)))
      | Some n \<Rightarrow> bindR (FunctionIdent_from_str parse (st ! 0)) (\<lambda>f.
          Inr \<lparr>score_function = f, score_value = n\<rparr>))"

section \<open>Random choices\<close>

text \<open>
  The methods of \<open>libafl_bolts::rands::Rand\<close> that the mutators call. \<open>choose\<close> of a collection is
  given by the position it picks; the comparison of a random float with the probability of growing
  a sequence of \<open>n\<close> commands is one field.
\<close>

record 'r Rand =
  below_or_zero :: "nat \<Rightarrow> 'r \<Rightarrow> nat \<times> 'r"
  choose_index :: "nat \<Rightarrow> 'r \<Rightarrow> nat \<times> 'r"
  float_below_growth :: "nat \<Rightarrow> 'r \<Rightarrow> bool \<times> 'r"

definition rand_ok :: "'r Rand \<Rightarrow> bool" where
  "rand_ok R \<longleftrightarrow> (\<forall>n r. fst (below_or_zero R n r) < max 1 n \<and> fst (choose_index R n r) < max 1 n)"

definition rand_choose :: "'r Rand \<Rightarrow> 'a list \<Rightarrow> 'r \<Rightarrow> 'a option \<times> 'r" where
  "rand_choose R xs r = (if xs = [] then (None, r)
     else (case choose_index R (length xs) r of (i, r') \<Rightarrow> (Some (xs ! i), r')))"

lemma rand_ok_below: "rand_ok R \<Longrightarrow> 0 < n \<Longrightarrow> below_or_zero R n r = (i, r') \<Longrightarrow> i < n"
  unfolding rand_ok_def by (metis fst_conv max_def nat_neq_iff not_less_eq One_nat_def less_Suc0)

section \<open>The fuzzing metadata\<close>

datatype MutatorKind = KindSequence | KindArg | KindMagic

record FunctionHook =
  pre_hooks :: "FunctionIdent list"
  post_hooks :: "FunctionIdent list"

definition FunctionHook_default :: FunctionHook where
  "FunctionHook_default = \<lparr>pre_hooks = [], post_hooks = []\<rparr>"

record TargetFilters =
  include_packages :: "MoveAddress list option"
  exclude_packages :: "MoveAddress list option"
  include_modules :: "MoveModuleId list option"
  exclude_modules :: "MoveModuleId list option"
  include_functions :: "FunctionIdent list option"
  exclude_functions :: "FunctionIdent list option"
  filter_include_types :: "MoveTypeTag list option"
  filter_exclude_types :: "MoveTypeTag list option"

record 'r FuzzMetadata =
  fm_base :: Metadata
  fm_rand :: 'r
  attacker :: MoveAddress
  callers_pool :: "MoveAddress list"
  addresses_pool :: "MoveAddress list"
  function_scores :: "(FunctionIdent, u64) btree"
  current_mutator :: "MutatorKind option"
  specific_function_scores :: "(FunctionIdent, u64) btree"
  target_functions :: "FunctionIdent list"
  target_packages :: "MoveAddress list"
  function_hooks :: "(FunctionIdent, FunctionHook) btree"
  sequence_hooks :: FunctionHook
  gas_id :: MoveAddress
  fm_checkpoint :: u64
  fm_epoch :: u64
  fm_epoch_ms :: u64

definition INIT_FUNCTION_SCORE :: u64 where "INIT_FUNCTION_SCORE = 100"
definition SCORE_TICK :: u64 where "SCORE_TICK = 5000"

definition get_rand_address :: "'r Rand \<Rightarrow> 'm FuzzMetadata \<Rightarrow> 'r \<Rightarrow> (MoveAddress \<times> 'r) res" where
  "get_rand_address R self r =
     (case below_or_zero R (length (addresses_pool self)) r of (idx, r') \<Rightarrow>
        bindR (indexR (addresses_pool self) idx) (\<lambda>a. Inr (a, r')))"

definition get_rand_caller :: "'r Rand \<Rightarrow> 'm FuzzMetadata \<Rightarrow> 'r \<Rightarrow> (MoveAddress \<times> 'r) res" where
  "get_rand_caller R self r =
     (case below_or_zero R (length (callers_pool self)) r of (idx, r') \<Rightarrow>
        bindR (indexR (callers_pool self) idx) (\<lambda>a. Inr (a, r')))"

definition has_caller :: "'m FuzzMetadata \<Rightarrow> MoveAddress \<Rightarrow> bool" where
  "has_caller self addr \<longleftrightarrow> addr \<in> set (callers_pool self)"

definition add_caller :: "MoveAddress \<Rightarrow> 'm FuzzMetadata \<Rightarrow> 'm FuzzMetadata" where
  "add_caller addr self =
     (if addr \<in> set (callers_pool self) then self
      else self\<lparr>callers_pool := callers_pool self @ [addr]\<rparr>)"

definition add_address :: "MoveAddress \<Rightarrow> 'm FuzzMetadata \<Rightarrow> 'm FuzzMetadata" where
  "add_address caller self =
     (if caller \<in> set (addresses_pool self) then self
      else self\<lparr>addresses_pool := addresses_pool self @ [caller]\<rparr>)"

section \<open>Target selection\<close>

definition normalize_packages :: "MoveAddress list \<Rightarrow> TargetFilters \<Rightarrow> MoveAddress list" where
  "normalize_packages targets filters =
     (let ps = targets;
          ps = (case include_packages filters of
                  Some inc \<Rightarrow> filter (\<lambda>p. p \<in> set inc) ps | None \<Rightarrow> ps);
          ps = (case exclude_packages filters of
                  Some exc \<Rightarrow> filter (\<lambda>p. p \<notin> set exc) ps | None \<Rightarrow> ps)
      in sort_dedup ps)"

definition has_ability :: "MoveAbiSignatureToken \<Rightarrow> MoveAbility \<Rightarrow> bool" where
  "has_ability t a = (case ability t of Some b \<Rightarrow> ability_contains b a | None \<Rightarrow> False)"

definition is_reference :: "MoveAbiSignatureToken \<Rightarrow> bool" where
  "is_reference t = (case t of TokReference _ \<Rightarrow> True | _ \<Rightarrow> False)"

definition is_any_reference :: "MoveAbiSignatureToken \<Rightarrow> bool" where
  "is_any_reference t = (case t of TokReference _ \<Rightarrow> True | TokMutableReference _ \<Rightarrow> True | _ \<Rightarrow> False)"

definition read_only_signature :: "MoveFunctionAbi \<Rightarrow> bool" where
  "read_only_signature f \<longleftrightarrow>
     list_all (\<lambda>t. has_ability t DROP \<or> is_reference t \<or> is_tx_context t) (parameters f)
     \<and> list_all (\<lambda>t. is_mutable t \<or> has_ability t DROP) (return_paramters f)"

definition return_reason :: "(MoveAddress \<Rightarrow> string) \<Rightarrow> Metadata \<Rightarrow> MoveAbiSignatureToken \<Rightarrow> string option" where
  "return_reason addr base ret_ty =
     (if is_any_reference ret_ty then Some (''returns a reference: '' @ token_to_string addr ret_ty)
      else if is_hot_potato ret_ty \<and> find_consumers (md_type_graph base) ret_ty True = []
      then Some (''returns an unconsumable hot potato: '' @ token_to_string addr ret_ty)
      else None)"

fun first_some :: "('a \<Rightarrow> 'b option) \<Rightarrow> 'a list \<Rightarrow> 'b option" where
  "first_some f [] = None"
| "first_some f (x # xs) = (case f x of Some y \<Rightarrow> Some y | None \<Rightarrow> first_some f xs)"

definition skip_function_reason ::
  "(MoveAddress \<Rightarrow> string) \<Rightarrow> Metadata \<Rightarrow> MoveFunctionAbi \<Rightarrow> string option" where
  "skip_function_reason addr base f =
     (if visibility f \<noteq> Public then Some ''non-public visibility''
      else if read_only_signature f then Some ''read-only signature''
      else first_some (return_reason addr base) (return_paramters f))"

text \<open>The functions of a package that pass a test, named by the address the package was asked for.\<close>

definition package_idents ::
  "(MoveFunctionAbi \<Rightarrow> bool) \<Rightarrow> MoveAddress \<Rightarrow> MovePackageAbi \<Rightarrow> FunctionIdent list" where
  "package_idents P p abi = concat (map (\<lambda>module.
     map (\<lambda>f. FunctionIdent_new p (mod_name (abi_module_id module)) (fn_name f))
       (filter P (abi_functions module))) (modules abi))"

definition collect_idents ::
  "(MoveAddress \<Rightarrow> MovePackageAbi option) \<Rightarrow> (MoveFunctionAbi \<Rightarrow> bool) \<Rightarrow> MoveAddress list
     \<Rightarrow> FunctionIdent list" where
  "collect_idents get P ps =
     concat (map (\<lambda>p. case get p of None \<Rightarrow> [] | Some abi \<Rightarrow> package_idents P p abi) ps)"

definition collect_target_functions ::
  "(MoveAddress \<Rightarrow> string) \<Rightarrow> Metadata \<Rightarrow> MoveAddress list \<Rightarrow> FunctionIdent list" where
  "collect_target_functions addr base ps =
     collect_idents (get_original_package_metadata base)
       (\<lambda>f. skip_function_reason addr base f = None) ps"

definition collect_testing_target_functions ::
  "(MoveAddress \<Rightarrow> string) \<Rightarrow> Metadata \<Rightarrow> MoveAddress list \<Rightarrow> FunctionIdent list" where
  "collect_testing_target_functions addr base ps =
     collect_idents (get_package_metadata base) (\<lambda>f. skip_function_reason addr base f = None) ps"

definition collect_validation_target_functions :: "Metadata \<Rightarrow> MoveAddress list \<Rightarrow> FunctionIdent list" where
  "collect_validation_target_functions base ps =
     collect_idents (get_package_metadata base)
       (\<lambda>f. \<not> (visibility f \<noteq> Public \<or> \<not> starts_with (fn_name f) ''movy_validate'')) ps"

definition fallback_target_functions :: "Metadata \<Rightarrow> MoveAddress list \<Rightarrow> FunctionIdent list" where
  "fallback_target_functions base ps =
     concat (map (\<lambda>(p, abi). package_idents (\<lambda>_. True) p abi)
       (filter (\<lambda>(p, _). p \<in> set ps) (md_abis base @ md_testing_abis base)))"

definition in_opt :: "'a \<Rightarrow> 'a list option \<Rightarrow> bool" where
  "in_opt x s = (case s of Some xs \<Rightarrow> x \<in> set xs | None \<Rightarrow> True)"

definition out_opt :: "'a \<Rightarrow> 'a list option \<Rightarrow> bool" where
  "out_opt x s = (case s of Some xs \<Rightarrow> x \<notin> set xs | None \<Rightarrow> True)"

definition passes_filters :: "TargetFilters \<Rightarrow> FunctionIdent \<Rightarrow> bool" where
  "passes_filters filters f =
     (let pkg = module_address (ident_module f); module_id = ident_module f in
      in_opt pkg (include_packages filters) \<and> out_opt pkg (exclude_packages filters)
      \<and> in_opt f (include_functions filters) \<and> out_opt f (exclude_functions filters)
      \<and> in_opt module_id (include_modules filters) \<and> out_opt module_id (exclude_modules filters))"

definition apply_function_filters :: "FunctionIdent list \<Rightarrow> TargetFilters \<Rightarrow> FunctionIdent list" where
  "apply_function_filters fs filters = filter (passes_filters filters) fs"

definition derive_function_scores ::
  "FunctionIdent list \<Rightarrow> (FunctionIdent, u64) btree \<Rightarrow> (FunctionIdent, u64) btree" where
  "derive_function_scores fs specific =
     foldl (\<lambda>m f. let score = (case bt_get specific f of Some s \<Rightarrow> s | None \<Rightarrow> INIT_FUNCTION_SCORE) in
               case bt_get m f of Some _ \<Rightarrow> m | None \<Rightarrow> bt_insert f score m) [] fs"

definition collect_target_packages_from_functions :: "FunctionIdent list \<Rightarrow> MoveAddress list" where
  "collect_target_packages_from_functions fs = sort_dedup (map (module_address \<circ> ident_module) fs)"

section \<open>Hooks\<close>

text \<open>The function a hook names: the only one of that name, or the one that a test on the module
  picks; the test is the parameter, because the source writes a different one for each kind.\<close>

definition hook_target ::
  "string \<Rightarrow> (FunctionIdent \<Rightarrow> bool) \<Rightarrow> (string, FunctionIdent list) btree \<Rightarrow> string \<Rightarrow> FunctionIdent res" where
  "hook_target kind pick names name =
     (case bt_get names name of
        Some idents \<Rightarrow>
          if length idents = 1 then Inr (idents ! 0)
          else unwrapR ''called `Option::unwrap()` on a `None` value'' (List.find pick idents)
      | None \<Rightarrow> Inl (Panic (''can not find '' @ kind @ '' function '' @ name)))"

definition update_hook ::
  "FunctionIdent \<Rightarrow> (FunctionHook \<Rightarrow> FunctionHook) \<Rightarrow> (FunctionIdent, FunctionHook) btree
     \<Rightarrow> (FunctionIdent, FunctionHook) btree" where
  "update_hook target upd m =
     bt_insert target (upd (case bt_get m target of Some h \<Rightarrow> h | None \<Rightarrow> FunctionHook_default)) m"

definition add_pre_hook :: "FunctionIdent \<Rightarrow> FunctionHook \<Rightarrow> FunctionHook" where
  "add_pre_hook i h = h\<lparr>pre_hooks := pre_hooks h @ [i]\<rparr>"

definition add_post_hook :: "FunctionIdent \<Rightarrow> FunctionHook \<Rightarrow> FunctionHook" where
  "add_post_hook i h = h\<lparr>post_hooks := post_hooks h @ [i]\<rparr>"

definition derive_pre ::
  "(string, FunctionIdent list) btree \<Rightarrow> MoveAddress \<Rightarrow> MoveModuleAbi \<Rightarrow> MoveFunctionAbi
     \<Rightarrow> (FunctionIdent, FunctionHook) btree \<Rightarrow> (FunctionIdent, FunctionHook) btree res" where
  "derive_pre names p module f m =
     bindR (is_movy_pre_ptb f) (\<lambda>whole.
     bindR (if whole then Inr None else try_derive_movy_pre f) (\<lambda>d. case d of
       None \<Rightarrow> Inr m
     | Some pre_func \<Rightarrow>
         bindR (hook_target ''movy_pre''
                  (\<lambda>ident. module_address (ident_module ident) = p
                     \<and> ''movy_'' @ mod_name (ident_module ident) = mod_name (abi_module_id module))
                  names pre_func) (\<lambda>target.
           Inr (update_hook target
             (add_pre_hook (FunctionIdent_new p (mod_name (abi_module_id module)) (fn_name f))) m))))"

definition derive_post ::
  "(string, FunctionIdent list) btree \<Rightarrow> MoveAddress \<Rightarrow> MoveModuleAbi \<Rightarrow> MoveFunctionAbi
     \<Rightarrow> (FunctionIdent, FunctionHook) btree \<Rightarrow> (FunctionIdent, FunctionHook) btree res" where
  "derive_post names p module f m =
     bindR (is_movy_post_ptb f) (\<lambda>whole.
     bindR (if whole then Inr None else try_derive_movy_post f) (\<lambda>d. case d of
       None \<Rightarrow> Inr m
     | Some post_func \<Rightarrow>
         bindR (hook_target ''movy_post''
                  (\<lambda>ident. module_address (ident_module ident) = p
                     \<and> mod_name (ident_module ident) = mod_name (abi_module_id module))
                  names post_func) (\<lambda>target.
           Inr (update_hook target
             (add_post_hook (FunctionIdent_new p (mod_name (abi_module_id module)) (fn_name f))) m))))"

text \<open>The functions of all modules with their package and module, in iteration order.\<close>

definition abi_functions_of :: "abi_map \<Rightarrow> (MoveAddress \<times> MoveModuleAbi \<times> MoveFunctionAbi) list" where
  "abi_functions_of abis =
     concat (map (\<lambda>(p, md). map (\<lambda>f. (p, md, f)) (abi_functions md)) (package_modules abis))"

definition derive_function_hooks ::
  "abi_map \<Rightarrow> (string, FunctionIdent list) btree \<Rightarrow> (FunctionIdent, FunctionHook) btree res" where
  "derive_function_hooks abis names =
     foldR (\<lambda>m (p, md, f). bindR (derive_pre names p md f m) (derive_post names p md f)) []
       (abi_functions_of abis)"

definition derive_sequence_hooks :: "abi_map \<Rightarrow> FunctionHook res" where
  "derive_sequence_hooks abis =
     foldR (\<lambda>h (p, md, f).
         let ident = FunctionIdent_new p (mod_name (abi_module_id md)) (fn_name f) in
         bindR (is_movy_pre_ptb f) (\<lambda>pre.
         let h = (if pre then add_pre_hook ident h else h) in
         bindR (is_movy_post_ptb f) (\<lambda>post.
         Inr (if post then add_post_hook ident h else h))))
       FunctionHook_default (abi_functions_of abis)"

section \<open>Construction and queries\<close>

definition select_test_functions :: "'r FuzzMetadata \<Rightarrow> FunctionIdent list" where
  "select_test_functions self =
     sort_dedup (concat (map (\<lambda>(p, abi). package_idents (\<lambda>f. starts_with (fn_name f) ''test_'') p abi)
       (filter (\<lambda>(p, _). p \<in> set (target_packages self)) (md_testing_abis (fm_base self)))))"

definition select_targets ::
  "(MoveAddress \<Rightarrow> string) \<Rightarrow> Metadata \<Rightarrow> MoveAddress list \<Rightarrow> TargetFilters \<Rightarrow> FunctionIdent list" where
  "select_targets addr base ps filters =
     (let ts = collect_target_functions addr base ps;
          ts = ts @ collect_validation_target_functions base ps;
          ts = sort_dedup (apply_function_filters ts filters);
          ts = (if ts = []
                then sort_dedup (apply_function_filters
                       (collect_testing_target_functions addr base ps
                          @ collect_validation_target_functions base ps) filters)
                else ts)
      in if ts = [] then apply_function_filters (fallback_target_functions base ps) filters else ts)"

definition from_metadata ::
  "(MoveAddress \<Rightarrow> string) \<Rightarrow> Metadata \<Rightarrow> 'r \<Rightarrow> FuzzFunctionScore list \<Rightarrow> MoveAddress list \<Rightarrow> MoveAddress
     \<Rightarrow> MoveAddress \<Rightarrow> MoveAddress \<Rightarrow> abi_map \<Rightarrow> u64 \<Rightarrow> u64 \<Rightarrow> u64 \<Rightarrow> TargetFilters \<Rightarrow> 'r FuzzMetadata res" where
  "from_metadata addr base rand scores targets att admin gas local_testing_abis ckpt epoch epoch_ms filters =
     (let specific = insert_all [] (map (\<lambda>f. (score_function f, score_value f)) scores);
          ps = normalize_packages targets filters;
          ts = select_targets addr base ps filters
      in bindR (derive_function_hooks local_testing_abis (md_function_name_to_idents base)) (\<lambda>hooks.
         bindR (derive_sequence_hooks local_testing_abis) (\<lambda>seq_hooks.
         Inr \<lparr>fm_base = base, fm_rand = rand, attacker = att, callers_pool = [att],
              addresses_pool = [att, admin], function_scores = derive_function_scores ts specific,
              current_mutator = None, specific_function_scores = specific, target_functions = ts,
              target_packages = collect_target_packages_from_functions ts, function_hooks = hooks,
              sequence_hooks = seq_hooks, gas_id = gas, fm_checkpoint = ckpt, fm_epoch = epoch,
              fm_epoch_ms = epoch_ms\<rparr>)))"

definition FuzzMetadata_from_env ::
  "(MoveAddress \<Rightarrow> string) \<Rightarrow> StoreInfo \<Rightarrow> 'r \<Rightarrow> FuzzFunctionScore list \<Rightarrow> MoveAddress list \<Rightarrow> MoveAddress
     \<Rightarrow> MoveAddress \<Rightarrow> MoveAddress \<Rightarrow> abi_map \<Rightarrow> abi_map \<Rightarrow> u64 \<Rightarrow> u64 \<Rightarrow> u64 \<Rightarrow> TargetFilters
     \<Rightarrow> 'r FuzzMetadata res" where
  "FuzzMetadata_from_env addr env rand scores targets att admin gas local_abis local_testing_abis
     ckpt epoch epoch_ms filters =
     bindR (from_env_filtered env local_abis (filter_include_types filters) (filter_exclude_types filters))
       (\<lambda>base. from_metadata addr base rand scores targets att admin gas local_testing_abis
                 ckpt epoch epoch_ms filters)"

definition iter_target ::
  "Metadata \<Rightarrow> FunctionIdent
     \<Rightarrow> (MoveAddress \<times> string \<times> MoveModuleAbi \<times> string \<times> MoveFunctionAbi) option res" where
  "iter_target base ident =
     (let module_id = ident_module ident; p = module_address module_id; m = mod_name module_id;
          func_name = ident_function ident in
      case get_function base p m func_name of
        None \<Rightarrow> Inr None
      | Some func_data \<Rightarrow>
          bindR (unwrapR ''called `Option::unwrap()` on a `None` value'' (get_package_metadata base p)) (\<lambda>pkg.
          bindR (unwrapR ''called `Option::unwrap()` on a `None` value''
                   (List.find (\<lambda>md. abi_module_id md = module_id) (modules pkg))) (\<lambda>module_data.
            Inr (Some (p, m, module_data, func_name, func_data)))))"

definition iter_target_functions ::
  "'r FuzzMetadata \<Rightarrow> (MoveAddress \<times> string \<times> MoveModuleAbi \<times> string \<times> MoveFunctionAbi) list res" where
  "iter_target_functions self =
     bindR (mapR (iter_target (fm_base self)) (target_functions self)) (\<lambda>rs.
       Inr (map the (filter (\<lambda>r. r \<noteq> None) rs)))"

definition generate_magic_number_pool :: "'r FuzzMetadata \<Rightarrow> u8 list list" where
  "generate_magic_number_pool self = []"

section \<open>Scores\<close>

definition add_u64 :: "u64 \<Rightarrow> u64 \<Rightarrow> u64 res" where
  "add_u64 a b = (if unat a + unat b < 2 ^ 64 then Inr (a + b)
                  else Inl (Panic ''attempt to add with overflow''))"

definition potato_consumers :: "'r FuzzMetadata \<Rightarrow> MoveTypeTag list \<Rightarrow> FunctionIdent list" where
  "potato_consumers self hot_potatoes =
     concat (map (\<lambda>type_tag. map (\<lambda>(module_id, f).
         FunctionIdent_new (module_address module_id) (mod_name module_id) (fn_name f))
       (find_consumers (md_type_graph (fm_base self)) (from_type_tag_lossy type_tag) True)) hot_potatoes)"

definition tick_score ::
  "(FunctionIdent, u64) btree \<Rightarrow> FunctionIdent \<Rightarrow> (FunctionIdent, u64) btree res" where
  "tick_score m f =
     (case bt_get m f of
        Some score \<Rightarrow> bindR (add_u64 score SCORE_TICK) (\<lambda>s. Inr (bt_insert f s m))
      | None \<Rightarrow> Inr m)"

definition update_score :: "MoveTypeTag list \<Rightarrow> 'r FuzzMetadata \<Rightarrow> 'r FuzzMetadata res" where
  "update_score hot_potatoes self =
     (let consumers = potato_consumers self hot_potatoes in
      bindR (foldR tick_score (function_scores self) consumers) (\<lambda>ticked.
        Inr (self\<lparr>function_scores :=
          map (\<lambda>(f, score). (f, if f \<in> set consumers then score
                 else case bt_get (specific_function_scores self) f of
                   Some s \<Rightarrow> s | None \<Rightarrow> INIT_FUNCTION_SCORE)) ticked\<rparr>)))"

section \<open>Lemmas\<close>

lemma bt_get_insert_all: "bt_get (insert_all m ps) = bt_get m ++ map_of (rev ps)"
proof -
  have "insert_all m ps = bt.extend ps m" by (simp add: insert_all_def bt.extend_def case_prod_unfold)
  then show ?thesis by (simp add: bt.get_extend)
qed

definition initial_score :: "(FunctionIdent, u64) btree \<Rightarrow> FunctionIdent \<Rightarrow> u64" where
  "initial_score specific f = (case bt_get specific f of Some s \<Rightarrow> s | None \<Rightarrow> INIT_FUNCTION_SCORE)"

lemma derive_function_scores_get:
  "bt_get (derive_function_scores fs specific) f =
     (if f \<in> set fs then Some (initial_score specific f) else None)"
proof (induction fs rule: rev_induct)
  case (snoc g fs)
  have "derive_function_scores (fs @ [g]) specific =
      (case bt_get (derive_function_scores fs specific) g of
         Some _ \<Rightarrow> derive_function_scores fs specific
       | None \<Rightarrow> bt_insert g (initial_score specific g) (derive_function_scores fs specific))"
    by (simp add: derive_function_scores_def initial_score_def Let_def split: option.split)
  moreover have "bt_get (derive_function_scores fs specific) g \<noteq> None \<longleftrightarrow> g \<in> set fs"
    by (induction fs rule: rev_induct)
      (auto simp: derive_function_scores_def Let_def split: option.splits)
  ultimately show ?case using snoc.IH by (auto split: option.splits)
qed (simp add: derive_function_scores_def)

lemma package_idents_address: "f \<in> set (package_idents P p abi) \<Longrightarrow> module_address (ident_module f) = p"
  by (auto simp: package_idents_def FunctionIdent_new_def)

lemma collect_idents_address:
  "f \<in> set (collect_idents get P ps) \<Longrightarrow> module_address (ident_module f) \<in> set ps"
  by (auto simp: collect_idents_def dest: package_idents_address split: option.splits)

lemma normalize_packages_subset: "set (normalize_packages targets filters) \<subseteq> set targets"
  by (auto simp: normalize_packages_def Let_def split: option.splits)

lemma select_targets_filtered:
  assumes "f \<in> set (select_targets addr base ps filters)"
  shows "passes_filters filters f \<and> module_address (ident_module f) \<in> set ps"
  using assms
  by (auto simp: select_targets_def Let_def apply_function_filters_def collect_target_functions_def
      collect_testing_target_functions_def collect_validation_target_functions_def
      fallback_target_functions_def dest: collect_idents_address package_idents_address split: if_splits)

text \<open>Hooks: what one function of a test module adds.\<close>

definition pre_target ::
  "(string, FunctionIdent list) btree \<Rightarrow> MoveAddress \<times> MoveModuleAbi \<times> MoveFunctionAbi \<Rightarrow> FunctionIdent \<Rightarrow> bool" where
  "pre_target names x t = (case x of (p, md, f) \<Rightarrow>
     \<exists>n. try_derive_movy_pre f = Inr (Some n) \<and> n \<noteq> MOVY_SEQUENCE
       \<and> hook_target ''movy_pre'' (\<lambda>i. module_address (ident_module i) = p
           \<and> ''movy_'' @ mod_name (ident_module i) = mod_name (abi_module_id md)) names n = Inr t)"

definition post_target ::
  "(string, FunctionIdent list) btree \<Rightarrow> MoveAddress \<times> MoveModuleAbi \<times> MoveFunctionAbi \<Rightarrow> FunctionIdent \<Rightarrow> bool" where
  "post_target names x t = (case x of (p, md, f) \<Rightarrow>
     \<exists>n. try_derive_movy_post f = Inr (Some n) \<and> n \<noteq> MOVY_SEQUENCE
       \<and> hook_target ''movy_post'' (\<lambda>i. module_address (ident_module i) = p
           \<and> mod_name (ident_module i) = mod_name (abi_module_id md)) names n = Inr t)"

definition hook_ident :: "MoveAddress \<times> MoveModuleAbi \<times> MoveFunctionAbi \<Rightarrow> FunctionIdent" where
  "hook_ident x = (case x of (p, md, f) \<Rightarrow>
     FunctionIdent_new p (mod_name (abi_module_id md)) (fn_name f))"

definition hooks_at :: "(FunctionIdent, FunctionHook) btree \<Rightarrow> FunctionIdent \<Rightarrow> FunctionHook" where
  "hooks_at m t = (case bt_get m t of Some h \<Rightarrow> h | None \<Rightarrow> FunctionHook_default)"

lemma hooks_at_update [simp]:
  "hooks_at (update_hook t upd m) t' = (if t' = t then upd (hooks_at m t) else hooks_at m t')"
  by (simp add: hooks_at_def update_hook_def)

lemma hooks_at_Nil [simp]: "hooks_at [] t = FunctionHook_default"
  by (simp add: hooks_at_def)

lemma pre_target_unique: "pre_target names x t \<Longrightarrow> pre_target names x t' \<Longrightarrow> t = t'"
  and post_target_unique: "post_target names x t \<Longrightarrow> post_target names x t' \<Longrightarrow> t = t'"
  by (auto simp: pre_target_def post_target_def)

lemma derive_pre_spec:
  assumes "derive_pre names p md f m = Inr m'"
  shows "hooks_at m' t = (if pre_target names (p, md, f) t
     then add_pre_hook (hook_ident (p, md, f)) (hooks_at m t) else hooks_at m t)"
proof (cases "try_derive_movy_pre f")
  case (Inr d)
  show ?thesis
  proof (cases "d = None \<or> d = Some MOVY_SEQUENCE")
    case True
    with Inr assms show ?thesis
      by (auto simp: derive_pre_def is_movy_pre_ptb_def pre_target_def)
  next
    case False
    with Inr assms show ?thesis
      by (auto simp: derive_pre_def is_movy_pre_ptb_def pre_target_def hook_ident_def
          elim!: bindR_InrE)
  qed
qed (use assms in \<open>simp add: derive_pre_def is_movy_pre_ptb_def\<close>)

lemma derive_post_spec:
  assumes "derive_post names p md f m = Inr m'"
  shows "hooks_at m' t = (if post_target names (p, md, f) t
     then add_post_hook (hook_ident (p, md, f)) (hooks_at m t) else hooks_at m t)"
proof (cases "try_derive_movy_post f")
  case (Inr d)
  show ?thesis
  proof (cases "d = None \<or> d = Some MOVY_SEQUENCE")
    case True
    with Inr assms show ?thesis
      by (auto simp: derive_post_def is_movy_post_ptb_def post_target_def)
  next
    case False
    with Inr assms show ?thesis
      by (auto simp: derive_post_def is_movy_post_ptb_def post_target_def hook_ident_def
          elim!: bindR_InrE)
  qed
qed (use assms in \<open>simp add: derive_post_def is_movy_post_ptb_def\<close>)

lemma add_hook_sel [simp]:
  "pre_hooks (add_pre_hook i h) = pre_hooks h @ [i]" "post_hooks (add_pre_hook i h) = post_hooks h"
  "post_hooks (add_post_hook i h) = post_hooks h @ [i]" "pre_hooks (add_post_hook i h) = pre_hooks h"
  by (simp_all add: add_pre_hook_def add_post_hook_def)

lemma derive_hooks_fold:
  "foldR (\<lambda>m (p, md, f). bindR (derive_pre names p md f m) (derive_post names p md f)) m xs = Inr m' \<Longrightarrow>
   pre_hooks (hooks_at m' t) =
     pre_hooks (hooks_at m t) @ map hook_ident (filter (\<lambda>x. pre_target names x t) xs)
   \<and> post_hooks (hooks_at m' t) =
     post_hooks (hooks_at m t) @ map hook_ident (filter (\<lambda>x. post_target names x t) xs)"
proof (induction xs arbitrary: m)
  case (Cons x xs)
  obtain p md f where x: "x = (p, md, f)" by (cases x)
  from Cons.prems obtain m1 m2 where "derive_pre names p md f m = Inr m1"
      "derive_post names p md f m1 = Inr m2"
      "foldR (\<lambda>m (p, md, f). bindR (derive_pre names p md f m) (derive_post names p md f)) m2 xs = Inr m'"
    by (auto simp: x bindR_eq_Inr)
  then show ?case
    using Cons.IH [of m2] derive_pre_spec [of names p md f m m1 t] derive_post_spec [of names p md f m1 m2 t]
    by (auto simp: x)
qed simp

lemma hook_target_named:
  assumes "hook_target kind pick names n = Inr t" "\<And>n i. i \<in> lookup_set names n \<Longrightarrow> ident_function i = n"
  shows "ident_function t = n"
proof -
  obtain idents where get: "bt_get names n = Some idents"
    using assms(1) by (auto simp: hook_target_def split: option.splits)
  then have "t \<in> set idents"
    using assms(1)
    by (auto simp: hook_target_def unwrapR_eq_Inr find_Some_iff in_set_conv_nth split: if_splits)
  then show ?thesis using assms(2) [of t n] get by (simp add: lookup_set_def)
qed

lemma starts_with_split: "starts_with s p \<Longrightarrow> Suc (length p) \<le> length s \<Longrightarrow>
    \<exists>c. s = p @ c # drop (Suc (length p)) s"
  unfolding starts_with_def by (metis Cons_nth_drop_Suc Suc_le_lessD append_take_drop_id)

lemma derived_pre_name: "try_derive_movy_pre f = Inr (Some n) \<Longrightarrow> \<exists>c. fn_name f = MOVY_PRE @ c # n"
  and derived_post_name: "try_derive_movy_post f = Inr (Some n) \<Longrightarrow> \<exists>c. fn_name f = MOVY_POST @ c # n"
  using starts_with_split [of "fn_name f" MOVY_PRE] starts_with_split [of "fn_name f" MOVY_POST]
  by (auto simp: try_derive_movy_pre_def try_derive_movy_post_def str_from_def bindR_eq_Inr split: if_splits)

text \<open>Scores: the ticks of a list of consumers.\<close>

lemma add_u64_Inr: "add_u64 a b = Inr c \<Longrightarrow> c = a + b \<and> unat c = unat a + unat b"
  by (auto simp: add_u64_def unat_word_ariths split: if_splits)

lemma ticks:
  "foldR tick_score m fs = Inr m' \<Longrightarrow>
     (case bt_get m f of None \<Rightarrow> bt_get m' f = None
      | Some s \<Rightarrow> \<exists>s'. bt_get m' f = Some s' \<and> unat s' = unat s + 5000 * count_list fs f)"
proof (induction fs arbitrary: m)
  case Nil
  then show ?case by (auto split: option.splits)
next
  case (Cons g fs)
  then obtain m1 where m1: "tick_score m g = Inr m1" "foldR tick_score m1 fs = Inr m'"
    by (auto elim: bindR_InrE)
  have "case bt_get m f of None \<Rightarrow> bt_get m1 f = None
      | Some s \<Rightarrow> \<exists>s'. bt_get m1 f = Some s' \<and> unat s' = unat s + (if f = g then 5000 else 0)"
    using m1(1) add_u64_Inr
    by (auto simp: tick_score_def SCORE_TICK_def elim!: bindR_InrE split: option.splits)
  then show ?case using Cons.IH [OF m1(2)] by (auto split: option.splits)
qed

lemma bt_get_map_value: "bt_get (map (\<lambda>(k, v). (k, g k v)) m) k = map_option (g k) (bt_get m k)"
  by (induction m) auto

section \<open>Properties\<close>

text \<open>
  C25: every target function passes all the filters and belongs to a requested package; the target
  packages are the packages of the target functions, each once and in order; and exactly the
  target functions have a score, the last one given for it or the initial one.
\<close>
theorem targets_filtered_and_scored:
  assumes "from_metadata addr base rand scores targets att admin gas abis ckpt epoch epoch_ms filters = Inr m"
  shows "(\<forall>f \<in> set (target_functions m). passes_filters filters f
        \<and> module_address (ident_module f) \<in> set targets)
    \<and> set (target_packages m) = (module_address \<circ> ident_module) ` set (target_functions m)
    \<and> sorted_wrt (<) (target_packages m)
    \<and> (\<forall>f. bt_get (function_scores m) f =
         (if f \<in> set (target_functions m)
          then Some (case map_of (rev (map (\<lambda>s. (score_function s, score_value s)) scores)) f of
                       Some s \<Rightarrow> s | None \<Rightarrow> INIT_FUNCTION_SCORE)
          else None))"
proof -
  let ?specific = "insert_all [] (map (\<lambda>s. (score_function s, score_value s)) scores)"
  have m: "target_functions m = select_targets addr base (normalize_packages targets filters) filters"
      "target_packages m = collect_target_packages_from_functions (target_functions m)"
      "function_scores m = derive_function_scores (target_functions m) ?specific"
    using assms by (auto simp: from_metadata_def Let_def elim!: bindR_InrE)
  have "passes_filters filters f \<and> module_address (ident_module f) \<in> set targets"
    if "f \<in> set (target_functions m)" for f
    using select_targets_filtered [of f addr base _ filters] that normalize_packages_subset m(1) by fastforce
  then show ?thesis
    unfolding m(2,3) derive_function_scores_get
    by (simp add: collect_target_packages_from_functions_def sorted_sort_dedup initial_score_def
        bt_get_insert_all)
qed

text \<open>
  A function named in the test modules as \<open>movy_pre_<f>\<close> or \<open>movy_post_<f>\<close>, other than the
  hooks of whole sequences, is a hook of exactly one function, which is called \<open>f\<close>, and the hooks
  of a function are exactly these, in the order of the test modules.
\<close>
theorem hooks_attached_exactly:
  assumes "derive_function_hooks abis names = Inr hooks"
    and "\<And>n i. i \<in> lookup_set names n \<Longrightarrow> ident_function i = n"
  shows "pre_hooks (hooks_at hooks t) = map hook_ident (filter (\<lambda>x. pre_target names x t) (abi_functions_of abis))
    \<and> post_hooks (hooks_at hooks t) = map hook_ident (filter (\<lambda>x. post_target names x t) (abi_functions_of abis))
    \<and> (pre_target names x t \<longrightarrow>
         (\<exists>c. ident_function (hook_ident x) = MOVY_PRE @ c # ident_function t) \<and> (\<forall>u. pre_target names x u \<longrightarrow> u = t))
    \<and> (post_target names x t \<longrightarrow>
         (\<exists>c. ident_function (hook_ident x) = MOVY_POST @ c # ident_function t) \<and> (\<forall>u. post_target names x u \<longrightarrow> u = t))"
proof -
  obtain p md f where x: "x = (p, md, f)" by (cases x)
  have "pre_target names x t \<Longrightarrow> \<exists>c. ident_function (hook_ident x) = MOVY_PRE @ c # ident_function t"
    using hook_target_named [OF _ assms(2)] derived_pre_name
    by (fastforce simp: x pre_target_def hook_ident_def FunctionIdent_new_def)
  moreover have "post_target names x t \<Longrightarrow> \<exists>c. ident_function (hook_ident x) = MOVY_POST @ c # ident_function t"
    using hook_target_named [OF _ assms(2)] derived_post_name
    by (fastforce simp: x post_target_def hook_ident_def FunctionIdent_new_def)
  ultimately show ?thesis
    using derive_hooks_fold [OF assms(1) [unfolded derive_function_hooks_def], of t]
      pre_target_unique post_target_unique
    by (simp add: FunctionHook_default_def)
qed

text \<open>
  After an execution that left hot potatoes, the score of a function that can consume them has
  grown by 5000 for each match, without overflow; the score of any other scored function is back
  at its initial value, and no function gains or loses its score.
\<close>
theorem update_score_ticks:
  assumes "update_score hot_potatoes m = Inr m'"
  shows "case bt_get (function_scores m) f of
      None \<Rightarrow> bt_get (function_scores m') f = None
    | Some s \<Rightarrow> (let n = count_list (potato_consumers m hot_potatoes) f in
        \<exists>s'. bt_get (function_scores m') f = Some s'
          \<and> (if n = 0 then s' = initial_score (specific_function_scores m) f
             else unat s' = unat s + 5000 * n))"
proof -
  let ?cs = "potato_consumers m hot_potatoes"
  obtain ticked where t: "foldR tick_score (function_scores m) ?cs = Inr ticked"
      "function_scores m' = map (\<lambda>(f, score). (f, if f \<in> set ?cs then score
         else initial_score (specific_function_scores m) f)) ticked"
    using assms unfolding update_score_def Let_def initial_score_def [symmetric]
    by (auto elim!: bindR_InrE)
  have "count_list ?cs f = 0 \<longleftrightarrow> f \<notin> set ?cs" by (simp add: count_list_0_iff)
  then show ?thesis
    using ticks [OF t(1), of f] unfolding t(2) bt_get_map_value
    by (auto simp: Let_def split: option.splits)
qed

text \<open>
  Listing the target functions panics for a target of an upgraded package: the function is
  found under the package that was asked for, but no module of the package has that address,
  because an upgrade keeps the addresses of its modules.
\<close>
theorem iter_target_functions_upgraded:
  assumes "ident \<in> set (target_functions m)"
    and "get_function (fm_base m) (module_address (ident_module ident))
           (mod_name (ident_module ident)) (ident_function ident) = Some f"
    and "get_package_metadata (fm_base m) (module_address (ident_module ident)) = Some pkg"
    and "\<forall>md \<in> set (modules pkg). module_address (abi_module_id md) \<noteq> module_address (ident_module ident)"
  shows "\<exists>e. iter_target_functions m = Inl e"
proof -
  have "List.find (\<lambda>md. abi_module_id md = ident_module ident) (modules pkg) = None"
    using assms(4) by (auto simp: find_None_iff)
  then have "iter_target (fm_base m) ident = Inl (Panic ''called `Option::unwrap()` on a `None` value'')"
    using assms(2,3) by (simp add: iter_target_def Let_def)
  then have "mapR (iter_target (fm_base m)) (target_functions m) \<noteq> Inr rs" for rs
    using assms(1) by (auto simp: mapR_eq_Inr in_set_conv_nth list_all2_conv_all_nth)
  then show ?thesis
    by (cases "mapR (iter_target (fm_base m)) (target_functions m)") (auto simp: iter_target_functions_def)
qed

text \<open>A package with one function that consumes a pool, and a test module with a hook for it.\<close>

definition demo_handle :: MoveStructHandle where
  "demo_handle = \<lparr>handle_module_id = \<lparr>module_address = 7, mod_name = ''m''\<rparr>, struct_name = ''Pool'',
     abilities = 8, type_parameters = []\<rparr>"

definition demo_function :: "string \<Rightarrow> MoveFunctionAbi" where
  "demo_function n = \<lparr>fn_name = n, parameters = [TokStruct demo_handle], return_paramters = [],
     fn_type_parameters = [], visibility = Public, is_entry = False\<rparr>"

definition demo_abis :: "MoveAddress \<Rightarrow> string \<Rightarrow> abi_map" where
  "demo_abis p n = [(p, \<lparr>package_id = p, modules = [\<lparr>abi_module_id = \<lparr>module_address = 7, mod_name = ''m''\<rparr>,
     abi_structs = [], abi_functions = [demo_function n]\<rparr>]\<rparr>)]"

definition demo_names :: "(string, FunctionIdent list) btree" where
  "demo_names = [(''deposit'', [FunctionIdent_new 7 ''m'' ''deposit''])]"

definition demo_base :: Metadata where
  "demo_base = \<lparr>md_type_graph = foldl add_package MoveTypeGraph_new (map snd (demo_abis 7 ''deposit'')),
     md_abis = demo_abis 7 ''deposit'', md_testing_abis = demo_abis 7 ''deposit'', md_types_pool = [],
     md_module_address_to_package = [(7, 7)], md_ability_to_type_tag = [],
     md_function_name_to_idents = demo_names, md_structs_mapping = []\<rparr>"

definition no_filters :: TargetFilters where
  "no_filters = \<lparr>include_packages = None, exclude_packages = None, include_modules = None,
     exclude_modules = None, include_functions = None, exclude_functions = None,
     filter_include_types = None, filter_exclude_types = None\<rparr>"

definition demo_meta :: "unit FuzzMetadata" where
  "demo_meta = \<lparr>fm_base = demo_base, fm_rand = (), attacker = 1, callers_pool = [1],
     addresses_pool = [1, 2], function_scores = [(FunctionIdent_new 7 ''m'' ''deposit'', 100)],
     current_mutator = None, specific_function_scores = [],
     target_functions = [FunctionIdent_new 7 ''m'' ''deposit''], target_packages = [7],
     function_hooks = [(FunctionIdent_new 7 ''m'' ''deposit'',
        \<lparr>pre_hooks = [FunctionIdent_new 7 ''m'' ''movy_pre_deposit''], post_hooks = []\<rparr>)],
     sequence_hooks = FunctionHook_default, gas_id = 3, fm_checkpoint = 0, fm_epoch = 0, fm_epoch_ms = 0\<rparr>"

lemmas demo_defs = demo_handle_def demo_function_def demo_abis_def demo_names_def demo_base_def
  no_filters_def demo_meta_def

lemma demo_meta:
  "from_metadata bit_text demo_base () [] [7] 1 2 3 (demo_abis 7 ''movy_pre_deposit'') 0 0 0 no_filters
     = Inr demo_meta"
  by code_simp

theorem targets_filtered_and_scored_witness:
  "passes_filters no_filters (FunctionIdent_new 7 ''m'' ''deposit'')
   \<and> bt_get (function_scores demo_meta) (FunctionIdent_new 7 ''m'' ''deposit'') = Some 100"
  using targets_filtered_and_scored [OF demo_meta] by (simp add: demo_meta_def INIT_FUNCTION_SCORE_def)

lemma demo_names_ok: "i \<in> lookup_set demo_names n \<Longrightarrow> ident_function i = n"
  by (auto simp: lookup_set_def demo_names_def FunctionIdent_new_def split: if_splits)

lemma demo_hooks:
  "derive_function_hooks (demo_abis 7 ''movy_pre_deposit'') demo_names = Inr (function_hooks demo_meta)"
  by code_simp

theorem hooks_attached_exactly_witness:
  "map hook_ident (filter (\<lambda>x. pre_target demo_names x (FunctionIdent_new 7 ''m'' ''deposit''))
      (abi_functions_of (demo_abis 7 ''movy_pre_deposit''))) =
     [FunctionIdent_new 7 ''m'' ''movy_pre_deposit'']"
  using hooks_attached_exactly [OF demo_hooks demo_names_ok, of "FunctionIdent_new 7 ''m'' ''deposit''"]
  by (simp add: demo_meta_def hooks_at_def)

abbreviation demo_potato :: "MoveTypeTag list" where
  "demo_potato \<equiv> [TagStruct (MoveStructTag 7 ''m'' ''Pool'' [])]"

lemma demo_consumers: "potato_consumers demo_meta demo_potato = [FunctionIdent_new 7 ''m'' ''deposit'']"
  by code_simp

lemma demo_scores:
  "function_scores demo_meta = [(FunctionIdent_new 7 ''m'' ''deposit'', 100)]"
  "specific_function_scores demo_meta = []"
  by (simp_all add: demo_meta_def)

lemma demo_update:
  "update_score demo_potato demo_meta =
     Inr (demo_meta\<lparr>function_scores := [(FunctionIdent_new 7 ''m'' ''deposit'', 5100)]\<rparr>)"
  by (simp add: update_score_def demo_consumers demo_scores tick_score_def add_u64_def SCORE_TICK_def)

theorem update_score_ticks_witness:
  "\<exists>s'. Some (5100 :: u64) = Some s' \<and> unat s' = unat (100 :: u64) + 5000 * 1"
  using update_score_ticks [OF demo_update, of "FunctionIdent_new 7 ''m'' ''deposit''"]
  by (simp add: demo_scores demo_consumers)

definition demo_upgraded :: "unit FuzzMetadata" where
  "demo_upgraded = demo_meta\<lparr>fm_base := demo_base\<lparr>md_testing_abis := demo_abis 8 ''deposit''\<rparr>,
     target_functions := [FunctionIdent_new 8 ''m'' ''deposit'']\<rparr>"

theorem iter_target_functions_upgraded_witness: "\<exists>e. iter_target_functions demo_upgraded = Inl e"
  by (rule iter_target_functions_upgraded [where ident = "FunctionIdent_new 8 ''m'' ''deposit''"
        and f = "demo_function ''deposit''" and pkg = "snd (hd (demo_abis 8 ''deposit''))"])
    (simp_all add: demo_upgraded_def demo_defs FunctionIdent_new_def get_function_def
      get_package_metadata_def resolved_package_def find_module_def)

end
