(* ===== verification/Sequence_Edit.thy ===== *)
theory Sequence_Edit
  imports Fuzz_Meta Ptb
begin

text \<open>
  \<open>movy-fuzz/src/mutators\<close>: \<open>sequence/remap.rs\<close>, the removal half of \<open>sequence.rs\<close>, the stripping
  half of \<open>sequence/hooks.rs\<close> and of \<open>sequence/post.rs\<close>, and \<open>flash.rs\<close>. Commands of a sequence refer to
  the results of earlier ones by position, so deleting commands means deleting what depends on
  them and renumbering the rest.

  Positions that the source keeps as \<open>u16\<close> are natural numbers here, with the conversions and the
  checked additions written out. The recursion of \<open>gen_remove_idxes\<close> is on a shared vector of
  visited positions; it takes fuel, and \<open>gen_remove_total\<close> shows that the number of commands is
  enough.
\<close>

section \<open>Flash loans\<close>

datatype FlashProvider =
    Cetus (fp_package: MoveAddress) (coin_a: MoveTypeTag) (coin_b: MoveTypeTag)
      (global_config: SuiObjectInputArgument) (fp_pool: SuiObjectInputArgument)
      (fp_clock: SuiObjectInputArgument)
  | Nemo (fp_package: MoveAddress) (fp_coin: MoveTypeTag) (fp_version: SuiObjectInputArgument)
      (py_state: SuiObjectInputArgument) (fp_clock: SuiObjectInputArgument)

record FlashWrapper =
  flash_provider :: FlashProvider
  flash_coin :: MoveStructTag
  initial_flash_amount :: u64

fun flash_provider_to_string :: "(MoveAddress \<Rightarrow> string) \<Rightarrow> FlashProvider \<Rightarrow> string" where
  "flash_provider_to_string addr (Cetus p a b config pool clock) =
     ''Cetus(package='' @ addr p @ '', coins='' @ tag_to_string addr a @ ''/'' @ tag_to_string addr b
       @ '', config='' @ addr (SuiObjectInputArgument_id config)
       @ '', pool='' @ addr (SuiObjectInputArgument_id pool) @ '')''"
| "flash_provider_to_string addr (Nemo p c v st clock) =
     ''Nemo(package='' @ addr p @ '', coin='' @ tag_to_string addr c
       @ '', version='' @ addr (SuiObjectInputArgument_id v)
       @ '', py_state='' @ addr (SuiObjectInputArgument_id st) @ '')''"

definition flash_to_string :: "(MoveAddress \<Rightarrow> string) \<Rightarrow> FlashWrapper \<Rightarrow> string" where
  "flash_to_string addr self =
     ''Flash(source='' @ flash_provider_to_string addr (flash_provider self)
       @ '', coin='' @ struct_tag_to_string addr (flash_coin self)
       @ '', initial_amount='' @ dec (unat (initial_flash_amount self)) @ '')''"

section \<open>Renumbering\<close>

fun remap_arg_with_map :: "u16 option list \<Rightarrow> SequenceArgument \<Rightarrow> SequenceArgument option" where
  "remap_arg_with_map mapping (Result i) =
     (if unat i < length mapping then map_option Result (mapping ! unat i) else None)"
| "remap_arg_with_map mapping (NestedResult i j) =
     (if unat i < length mapping then map_option (\<lambda>n. NestedResult n j) (mapping ! unat i) else None)"
| "remap_arg_with_map mapping arg = Some arg"

definition mapping_at :: "u16 list \<Rightarrow> u16 \<Rightarrow> u16 res" where
  "mapping_at mapping i =
     (if unat i < length mapping then Inr (mapping ! unat i)
      else Inl (Panic (''missing mapping for command index '' @ dec (unat i))))"

fun remap_arg :: "u16 list \<Rightarrow> SequenceArgument \<Rightarrow> SequenceArgument res" where
  "remap_arg mapping (Result i) = bindR (mapping_at mapping i) (\<lambda>n. Inr (Result n))"
| "remap_arg mapping (NestedResult i j) = bindR (mapping_at mapping i) (\<lambda>n. Inr (NestedResult n j))"
| "remap_arg mapping arg = Inr arg"

fun remap_command_with_map :: "u16 option list \<Rightarrow> MoveSequenceCall \<Rightarrow> MoveSequenceCall option" where
  "remap_command_with_map mapping (Call movecall) =
     Option.bind (those (map (remap_arg_with_map mapping) (call_arguments movecall))) (\<lambda>as.
       Some (Call (movecall\<lparr>call_arguments := as\<rparr>)))"
| "remap_command_with_map mapping (TransferObjects as dst) =
     Option.bind (those (map (remap_arg_with_map mapping) as)) (\<lambda>as.
     Option.bind (remap_arg_with_map mapping dst) (\<lambda>dst. Some (TransferObjects as dst)))"
| "remap_command_with_map mapping (SplitCoins src amts) =
     Option.bind (remap_arg_with_map mapping src) (\<lambda>src.
     Option.bind (those (map (remap_arg_with_map mapping) amts)) (\<lambda>amts. Some (SplitCoins src amts)))"
| "remap_command_with_map mapping (MergeCoins dst srcs) =
     Option.bind (remap_arg_with_map mapping dst) (\<lambda>dst.
     Option.bind (those (map (remap_arg_with_map mapping) srcs)) (\<lambda>srcs. Some (MergeCoins dst srcs)))"
| "remap_command_with_map mapping (MakeMoveVec ty as) =
     Option.bind (those (map (remap_arg_with_map mapping) as)) (\<lambda>as. Some (MakeMoveVec ty as))"
| "remap_command_with_map mapping (Publish mods deps) = Some (Publish mods deps)"
| "remap_command_with_map mapping (Upgrade mods deps package ticket) =
     Option.bind (remap_arg_with_map mapping ticket) (\<lambda>ticket.
       Some (Upgrade mods deps package ticket))"

fun remap_command :: "u16 list \<Rightarrow> MoveSequenceCall \<Rightarrow> MoveSequenceCall res" where
  "remap_command mapping (Call movecall) =
     bindR (mapR (remap_arg mapping) (call_arguments movecall)) (\<lambda>as.
       Inr (Call (movecall\<lparr>call_arguments := as\<rparr>)))"
| "remap_command mapping (TransferObjects as dst) =
     bindR (mapR (remap_arg mapping) as) (\<lambda>as.
     bindR (remap_arg mapping dst) (\<lambda>dst. Inr (TransferObjects as dst)))"
| "remap_command mapping (SplitCoins src amts) =
     bindR (remap_arg mapping src) (\<lambda>src.
     bindR (mapR (remap_arg mapping) amts) (\<lambda>amts. Inr (SplitCoins src amts)))"
| "remap_command mapping (MergeCoins dst srcs) =
     bindR (remap_arg mapping dst) (\<lambda>dst.
     bindR (mapR (remap_arg mapping) srcs) (\<lambda>srcs. Inr (MergeCoins dst srcs)))"
| "remap_command mapping (MakeMoveVec ty as) =
     bindR (mapR (remap_arg mapping) as) (\<lambda>as. Inr (MakeMoveVec ty as))"
| "remap_command mapping (Publish mods deps) = Inr (Publish mods deps)"
| "remap_command mapping (Upgrade mods deps package ticket) =
     bindR (remap_arg mapping ticket) (\<lambda>ticket. Inr (Upgrade mods deps package ticket))"

section \<open>Stripping hooks\<close>

definition context_ident :: "(string, FunctionIdent list) btree \<Rightarrow> string \<Rightarrow> FunctionIdent option" where
  "context_ident names name =
     Option.bind (bt_get names name) (\<lambda>v.
       case List.find (\<lambda>ident. mod_name (ident_module ident) = ''context'') v of
         Some ident \<Rightarrow> Some ident
       | None \<Rightarrow> (case v of [] \<Rightarrow> None | ident # _ \<Rightarrow> Some ident))"

definition context_idents :: "'r FuzzMetadata \<Rightarrow> (FunctionIdent \<times> FunctionIdent) option" where
  "context_idents self =
     (let names = md_function_name_to_idents (fm_base self) in
      Option.bind (context_ident names ''create_context'') (\<lambda>create.
      Option.bind (context_ident names ''destroy_context'') (\<lambda>destroy. Some (create, destroy))))"

definition hook_idents :: "'r FuzzMetadata \<Rightarrow> FunctionIdent set" where
  "hook_idents self =
     set (pre_hooks (sequence_hooks self)) \<union> set (post_hooks (sequence_hooks self))
     \<union> (\<Union>(_, hook) \<in> set (function_hooks self). set (pre_hooks hook) \<union> set (post_hooks hook))
     \<union> (case context_idents self of Some (create, destroy) \<Rightarrow> {create, destroy} | None \<Rightarrow> {})"

definition is_hook_command :: "FunctionIdent set \<Rightarrow> MoveSequenceCall \<Rightarrow> bool" where
  "is_hook_command hooks cmd = (case cmd of Call mc \<Rightarrow> call_ident mc \<in> hooks | _ \<Rightarrow> False)"

definition strip_step ::
  "FunctionIdent set \<Rightarrow> u16 option list \<times> MoveSequenceCall list \<Rightarrow> MoveSequenceCall
     \<Rightarrow> u16 option list \<times> MoveSequenceCall list" where
  "strip_step hooks acc cmd = (case acc of (mapping, kept) \<Rightarrow>
     if is_hook_command hooks cmd then (mapping @ [None], kept)
     else (mapping @ [Some (as_u16 (length kept))], kept @ [cmd]))"

definition strip_hooks_only :: "MoveSequence \<Rightarrow> 'r FuzzMetadata \<Rightarrow> MoveSequence" where
  "strip_hooks_only ptb self =
     (case foldl (strip_step (hook_idents self)) ([], []) (commands ptb) of (mapping, kept) \<Rightarrow>
      \<lparr>inputs = inputs ptb,
       commands = List.map_filter (remap_command_with_map mapping) kept\<rparr>)"

definition remove_process_key_store :: "MoveSequence \<Rightarrow> MoveSequence" where
  "remove_process_key_store ptb =
     (case rev (commands ptb) of
        TransferObjects _ (Input _) # _ \<Rightarrow>
          ptb\<lparr>commands := butlast (commands ptb), inputs := butlast (inputs ptb)\<rparr>
      | _ \<Rightarrow> ptb)"

definition is_from_balance :: "MoveSequenceCall \<Rightarrow> bool" where
  "is_from_balance cmd = (case cmd of
     Call mc \<Rightarrow> call_module_id mc = two \<and> call_module_name mc = ''coin'' \<and> call_function mc = ''from_balance''
   | _ \<Rightarrow> False)"

definition remove_process_balance :: "MoveSequence \<Rightarrow> MoveSequence" where
  "remove_process_balance ptb =
     ptb\<lparr>commands := rev (dropWhile is_from_balance (rev (commands ptb)))\<rparr>"

definition strip_generated :: "MoveSequence \<Rightarrow> 'r FuzzMetadata \<Rightarrow> MoveSequence" where
  "strip_generated ptb self =
     remove_process_balance (remove_process_key_store (strip_hooks_only ptb self))"

section \<open>Removing a command\<close>

definition sub_usize :: "nat \<Rightarrow> nat \<Rightarrow> nat res" where
  "sub_usize a b = (if b \<le> a then Inr (a - b) else Inl (Panic ''attempt to subtract with overflow''))"

definition add_u16 :: "nat \<Rightarrow> nat \<Rightarrow> nat res" where
  "add_u16 a b = (if a + b < 65536 then Inr (a + b) else Inl (Panic ''attempt to add with overflow''))"

text \<open>The positions that may not be removed: the flash loan and its repayment, or none.\<close>

definition keeps_position :: "FlashProvider option \<Rightarrow> nat \<Rightarrow> nat \<Rightarrow> bool res" where
  "keeps_position flash len idx =
     (case flash of
        Some (Cetus _ _ _ _ _ _) \<Rightarrow> bindR (sub_usize len 3) (\<lambda>n. Inr (n \<le> idx \<or> idx = 0))
      | Some (Nemo _ _ _ _ _) \<Rightarrow> bindR (sub_usize len 1) (\<lambda>n. Inr (n \<le> idx \<or> idx \<le> 1))
      | None \<Rightarrow> Inr (len \<le> idx))"

fun result_index :: "SequenceArgument \<Rightarrow> nat option" where
  "result_index (Result i) = Some (unat i)"
| "result_index (NestedResult i _) = Some (unat i)"
| "result_index _ = None"

definition uses_result :: "nat \<Rightarrow> MoveSequenceCall \<Rightarrow> bool" where
  "uses_result idx cmd = (case cmd of
     Call mc \<Rightarrow> list_ex (\<lambda>arg. result_index arg = Some idx) (call_arguments mc) | _ \<Rightarrow> False)"

definition dependents :: "MoveSequenceCall list \<Rightarrow> nat \<Rightarrow> nat list res" where
  "dependents cmds idx =
     mapR (\<lambda>(post_idx, _). bindR (add_u16 idx (post_idx mod 65536)) (\<lambda>n. add_u16 n 1))
       (filter (\<lambda>(_, post_cmd). uses_result idx post_cmd) (enumerate 0 (drop (idx + 1) cmds)))"

definition is_struct :: "MoveAbiSignatureToken \<Rightarrow> bool" where
  "is_struct t = (case t of TokStruct _ \<Rightarrow> True | TokStructInstantiation _ _ \<Rightarrow> True | _ \<Rightarrow> False)"

definition potato_sources :: "MoveCall \<Rightarrow> MoveFunctionAbi \<Rightarrow> nat list" where
  "potato_sources mc f =
     List.map_filter (\<lambda>(arg, param). if is_struct param \<and> is_hot_potato param then result_index arg else None)
       (zip (call_arguments mc) (parameters f))"

definition is_split_at :: "MoveSequenceCall list \<Rightarrow> nat \<Rightarrow> bool" where
  "is_split_at cmds i \<longleftrightarrow> i < length cmds \<and> (case cmds ! i of Call mc \<Rightarrow> is_split mc | _ \<Rightarrow> False)"

text \<open>The two loops of \<open>gen_remove_idxes\<close> over its own recursive calls \<open>g\<close>.\<close>

fun remove_each :: "(nat \<Rightarrow> nat list \<Rightarrow> nat list fuelled) \<Rightarrow> nat list \<Rightarrow> nat list \<Rightarrow> nat list fuelled" where
  "remove_each g [] removed = Some (Inr removed)"
| "remove_each g (i # is) removed =
     (if i \<in> set removed then remove_each g is removed
      else bindFR (g i removed) (remove_each g is))"

fun remove_splits ::
  "(nat \<Rightarrow> nat list \<Rightarrow> nat list fuelled) \<Rightarrow> MoveSequenceCall list \<Rightarrow> nat list \<Rightarrow> nat list \<Rightarrow> nat list fuelled" where
  "remove_splits g cmds [] removed = Some (Inr removed)"
| "remove_splits g cmds (i # is) removed =
     (if i \<in> set removed then remove_splits g cmds is removed
      else if is_split_at cmds i then bindFR (g i removed) (remove_splits g cmds is)
      else Some (Inr removed))"

fun gen_remove_idxes ::
  "Metadata \<Rightarrow> FlashProvider option \<Rightarrow> MoveSequenceCall list \<Rightarrow> nat \<Rightarrow> nat \<Rightarrow> nat list \<Rightarrow> nat list fuelled" where
  "gen_remove_idxes meta flash cmds 0 idx removed = None"
| "gen_remove_idxes meta flash cmds (Suc n) idx removed =
     bindFR (Some (keeps_position flash (length cmds) idx)) (\<lambda>keeps.
     if keeps then Some (Inr removed)
     else bindFR (Some (dependents cmds idx)) (\<lambda>deleting_idxes.
     bindFR (remove_each (gen_remove_idxes meta flash cmds n) (rev (sort_dedup deleting_idxes))
               (removed @ [idx])) (\<lambda>removed.
     bindFR (Some (indexR cmds idx)) (\<lambda>cmd.
     case cmd of
       Call movecall \<Rightarrow>
         bindFR (remove_splits (gen_remove_idxes meta flash cmds n) cmds (rev [0..<idx]) removed) (\<lambda>removed.
         bindFR (Some (unwrapR ''called `Option::unwrap()` on a `None` value''
                   (get_function meta (call_module_id movecall) (call_module_name movecall)
                      (call_function movecall)))) (\<lambda>f.
         bindFR (remove_each (gen_remove_idxes meta flash cmds n)
                   (rev (sort_dedup (potato_sources movecall f))) removed) (\<lambda>removed.
         Some (Inr (sort_dedup removed)))))
     | _ \<Rightarrow> Some (Inr removed)))))"

definition remove_at :: "'a list \<Rightarrow> nat \<Rightarrow> 'a list res" where
  "remove_at xs i = (if i < length xs then Inr (take i xs @ drop (Suc i) xs)
                     else Inl (Panic ''removal index should be < len''))"

definition shift_index :: "nat list \<Rightarrow> u16 \<Rightarrow> u16 res" where
  "shift_index removed i =
     (let shift = length (filter (\<lambda>r. r < unat i) removed) in
      if shift \<le> unat i then Inr (as_u16 (unat i - shift))
      else Inl (Panic ''attempt to subtract with overflow''))"

fun shift_arg :: "nat list \<Rightarrow> SequenceArgument \<Rightarrow> SequenceArgument res" where
  "shift_arg removed (Result i) = bindR (shift_index removed i) (\<lambda>n. Inr (Result n))"
| "shift_arg removed (NestedResult i j) = bindR (shift_index removed i) (\<lambda>n. Inr (NestedResult n j))"
| "shift_arg removed arg = Inr arg"

definition shift_command :: "nat list \<Rightarrow> MoveSequenceCall \<Rightarrow> MoveSequenceCall res" where
  "shift_command removed cmd = (case cmd of
     Call mc \<Rightarrow> bindR (mapR (shift_arg removed) (call_arguments mc)) (\<lambda>as. Inr (Call (mc\<lparr>call_arguments := as\<rparr>)))
   | _ \<Rightarrow> Inr cmd)"

datatype MutationResult = Mutated | Skipped

definition remove_command ::
  "Metadata \<Rightarrow> FlashProvider option \<Rightarrow> nat \<Rightarrow> MoveSequence \<Rightarrow> nat \<Rightarrow> (MutationResult \<times> MoveSequence) fuelled" where
  "remove_command meta flash fuel ptb idx =
     bindFR (gen_remove_idxes meta flash (commands ptb) fuel idx []) (\<lambda>removed_idxes.
     if length (commands ptb) \<le> length removed_idxes \<or> removed_idxes = [] then Some (Inr (Skipped, ptb))
     else bindFR (Some (foldR remove_at (commands ptb) (rev removed_idxes))) (\<lambda>cmds.
     bindFR (Some (mapR (shift_command removed_idxes) cmds)) (\<lambda>cmds.
     Some (Inr (Mutated, ptb\<lparr>commands := cmds\<rparr>)))))"

section \<open>Lemmas: the removed positions\<close>

definition depends_on :: "MoveSequenceCall list \<Rightarrow> nat \<Rightarrow> nat set" where
  "depends_on cmds x = {k. x < k \<and> k < length cmds \<and> uses_result x (cmds ! k)}"

lemma mapR_Inr: "(\<And>x. x \<in> set xs \<Longrightarrow> f x = Inr (h x)) \<Longrightarrow> mapR f xs = Inr (map h xs)"
  by (induction xs) auto

lemma dependents_spec:
  assumes "length cmds \<le> 65536"
  shows "\<exists>ds. dependents cmds idx = Inr ds \<and> set ds = depends_on cmds idx"
proof -
  let ?ps = "filter (\<lambda>(_, c). uses_result idx c) (enumerate 0 (drop (idx + 1) cmds))"
  have "dependents cmds idx = Inr (map (\<lambda>(p, _). idx + p + 1) ?ps)"
    unfolding dependents_def using assms
    by (intro mapR_Inr) (auto simp: add_u16_def in_set_enumerate_eq)
  moreover have "(\<lambda>(p, _). idx + p + 1) ` set ?ps = depends_on cmds idx"
  proof (intro equalityI subsetI)
    fix k assume "k \<in> depends_on cmds idx"
    then have "(k - idx - 1, cmds ! k) \<in> set ?ps" "k = idx + (k - idx - 1) + 1"
      by (auto simp: depends_on_def in_set_enumerate_eq)
    then show "k \<in> (\<lambda>(p, _). idx + p + 1) ` set ?ps" by (force intro: image_eqI)
  qed (auto simp: depends_on_def in_set_enumerate_eq add.commute)
  ultimately show ?thesis by auto
qed

text \<open>A call of the removal extends the visited positions by some that are all treated: what
  depends on them is visited too.\<close>

definition extends :: "nat \<Rightarrow> (nat \<Rightarrow> nat set) \<Rightarrow> nat list \<Rightarrow> nat list \<Rightarrow> bool" where
  "extends len D R R' \<longleftrightarrow> distinct R' \<and> set R' \<subseteq> {..<len} \<and> set R \<subseteq> set R'
     \<and> (\<forall>x \<in> set R' - set R. D x \<subseteq> set R')"

definition remover_ok :: "nat \<Rightarrow> (nat \<Rightarrow> nat set) \<Rightarrow> nat \<Rightarrow> (nat \<Rightarrow> nat list \<Rightarrow> nat list fuelled) \<Rightarrow> bool" where
  "remover_ok len D n g \<longleftrightarrow>
     (\<forall>i R. distinct R \<longrightarrow> set R \<subseteq> {..<len} \<longrightarrow> i < len \<longrightarrow> i \<notin> set R \<longrightarrow> len \<le> length R + n \<longrightarrow>
        (\<exists>R'. g i R = Some (Inr R') \<and> extends len D R R' \<and> i \<in> set R'))"

lemma remover_okD:
  assumes "remover_ok len D n g" "distinct R" "set R \<subseteq> {..<len}" "i < len" "i \<notin> set R" "len \<le> length R + n"
  obtains R' where "g i R = Some (Inr R')" "extends len D R R'" "i \<in> set R'"
  using assms unfolding remover_ok_def by blast

lemma extends_refl: "distinct R \<Longrightarrow> set R \<subseteq> {..<len} \<Longrightarrow> extends len D R R"
  by (simp add: extends_def)

lemma extends_trans: "extends len D R S \<Longrightarrow> extends len D S T \<Longrightarrow> extends len D R T"
  unfolding extends_def by blast

lemma extends_length: "distinct R \<Longrightarrow> extends len D R R' \<Longrightarrow> length R \<le> length R'"
  unfolding extends_def by (metis card_mono distinct_card finite_set)

lemma extends_dest: "extends len D R R' \<Longrightarrow> distinct R' \<and> set R' \<subseteq> {..<len} \<and> set R \<subseteq> set R'"
  by (simp add: extends_def)

lemma remove_each_ok:
  assumes "remover_ok len D n g"
  shows "distinct R \<Longrightarrow> set R \<subseteq> {..<len} \<Longrightarrow> set is \<subseteq> {..<len} \<Longrightarrow> len \<le> length R + n \<Longrightarrow>
    \<exists>R'. remove_each g is R = Some (Inr R') \<and> extends len D R R' \<and> set is \<subseteq> set R'"
proof (induction "is" arbitrary: R)
  case (Cons i "is")
  obtain S where S: "remove_each g (i # is) R = remove_each g is S" "extends len D R S" "i \<in> set S"
  proof (cases "i \<in> set R")
    case True
    then show ?thesis using Cons.prems that [of R] by (simp add: extends_refl)
  next
    case False
    with Cons.prems obtain S where "g i R = Some (Inr S)" "extends len D R S" "i \<in> set S"
      by (auto elim: remover_okD [OF assms, of R i])
    then show ?thesis using False that by simp
  qed
  have "len \<le> length S + n" using extends_length [OF Cons.prems(1) S(2)] Cons.prems(4) by simp
  then obtain T where "remove_each g is S = Some (Inr T)" "extends len D S T" "set is \<subseteq> set T"
    using Cons.IH [of S] extends_dest [OF S(2)] Cons.prems(3) by auto
  then show ?case using S extends_trans [OF S(2)] extends_dest by (intro exI [of _ T]) fastforce
qed (simp add: extends_refl)

lemma remove_splits_ok:
  assumes "remover_ok len D n g"
  shows "distinct R \<Longrightarrow> set R \<subseteq> {..<len} \<Longrightarrow> set is \<subseteq> {..<len} \<Longrightarrow> len \<le> length R + n \<Longrightarrow>
    \<exists>R'. remove_splits g cmds is R = Some (Inr R') \<and> extends len D R R'"
proof (induction "is" arbitrary: R)
  case (Cons i "is")
  consider "i \<in> set R" | "i \<notin> set R" "is_split_at cmds i" | "i \<notin> set R" "\<not> is_split_at cmds i" by blast
  then show ?case
  proof cases
    case 1
    then show ?thesis using Cons by simp
  next
    case 2
    then obtain S where S: "g i R = Some (Inr S)" "extends len D R S"
      using Cons.prems by (auto elim: remover_okD [OF assms, of R i])
    have "len \<le> length S + n" using extends_length [OF Cons.prems(1) S(2)] Cons.prems(4) by simp
    then obtain T where "remove_splits g cmds is S = Some (Inr T)" "extends len D S T"
      using Cons.IH [of S] extends_dest [OF S(2)] Cons.prems(3) by auto
    then show ?thesis using 2 S extends_trans [OF S(2)] by auto
  next
    case 3
    then show ?thesis using Cons.prems by (simp add: extends_refl)
  qed
qed (simp add: extends_refl)

text \<open>Sequences as the mutators build them: calls of known functions that refer backwards.\<close>

definition well_referenced :: "Metadata \<Rightarrow> MoveSequenceCall list \<Rightarrow> bool" where
  "well_referenced meta cmds \<longleftrightarrow> length cmds \<le> 65536 \<and>
     (\<forall>k < length cmds. \<exists>mc. cmds ! k = Call mc
        \<and> get_function meta (call_module_id mc) (call_module_name mc) (call_function mc) \<noteq> None
        \<and> (\<forall>arg \<in> set (call_arguments mc). \<forall>i. result_index arg = Some i \<longrightarrow> i < k))"

lemma well_referencedE:
  assumes "well_referenced meta cmds" "k < length cmds"
  obtains mc f where "cmds ! k = Call mc"
    "get_function meta (call_module_id mc) (call_module_name mc) (call_function mc) = Some f"
    "\<And>arg i. arg \<in> set (call_arguments mc) \<Longrightarrow> result_index arg = Some i \<Longrightarrow> i < k"
  using assms unfolding well_referenced_def by blast

lemma potato_sources_subset:
  "set (potato_sources mc f) \<subseteq> {i. \<exists>arg \<in> set (call_arguments mc). result_index arg = Some i}"
  by (auto simp: potato_sources_def map_filter_def split: if_splits dest: set_zip_leftD)

lemma extends_sort_dedup: "extends len D R R' \<Longrightarrow> extends len D R (sort_dedup R')"
  by (auto simp: extends_def distinct_sort_dedup)

lemma gen_remove_ok:
  assumes "well_referenced meta cmds"
  shows "remover_ok (length cmds) (depends_on cmds) n (gen_remove_idxes meta None cmds n)"
proof (induction n)
  case 0
  have "False" if "distinct R" "set R \<subseteq> {..<length cmds}" "i < length cmds" "i \<notin> set R"
      "length cmds \<le> length R" for i and R :: "nat list"
    using card_seteq [of "{..<length cmds}" "set R"] that distinct_card [of R] by auto
  then show ?case by (auto simp: remover_ok_def)
next
  case (Suc n)
  let ?len = "length cmds" and ?D = "depends_on cmds" and ?g = "gen_remove_idxes meta None cmds n"
  have "\<exists>R'. gen_remove_idxes meta None cmds (Suc n) i R = Some (Inr R') \<and> extends ?len ?D R R' \<and> i \<in> set R'"
    if R: "distinct R" "set R \<subseteq> {..<?len}" and i: "i < ?len" "i \<notin> set R" and n: "?len \<le> length R + Suc n" for i R
  proof -
    obtain mc f where mc: "cmds ! i = Call mc"
      "get_function meta (call_module_id mc) (call_module_name mc) (call_function mc) = Some f"
      "\<And>arg j. arg \<in> set (call_arguments mc) \<Longrightarrow> result_index arg = Some j \<Longrightarrow> j < i"
      using well_referencedE [OF assms i(1)] by blast
    obtain ds where ds: "dependents cmds i = Inr ds" "set ds = ?D i"
      using dependents_spec [of cmds i] assms by (auto simp: well_referenced_def)
    have "distinct (R @ [i])" "set (R @ [i]) \<subseteq> {..<?len}" "?len \<le> length (R @ [i]) + n"
      using R i n by auto
    moreover have "set (rev (sort_dedup ds)) \<subseteq> {..<?len}" using ds(2) by (auto simp: depends_on_def)
    ultimately obtain S where S: "remove_each ?g (rev (sort_dedup ds)) (R @ [i]) = Some (Inr S)"
        "extends ?len ?D (R @ [i]) S" "?D i \<subseteq> set S"
      using remove_each_ok [OF Suc.IH, of "R @ [i]" "rev (sort_dedup ds)"] ds(2) by auto
    have lenS: "?len \<le> length S + n"
      using extends_length [OF \<open>distinct (R @ [i])\<close> S(2)] n by simp
    have "set (rev [0..<i]) \<subseteq> {..<?len}" using i(1) by auto
    then obtain T where T: "remove_splits ?g cmds (rev [0..<i]) S = Some (Inr T)" "extends ?len ?D S T"
      using remove_splits_ok [OF Suc.IH, of S "rev [0..<i]" cmds] extends_dest [OF S(2)] lenS by blast
    have lenT: "?len \<le> length T + n"
      using extends_length [of S ?len ?D T] T(2) lenS extends_dest [OF S(2)] by simp
    have "set (rev (sort_dedup (potato_sources mc f))) \<subseteq> {..<?len}"
      using potato_sources_subset [of mc f] mc(3) i(1) by fastforce
    then obtain U where U: "remove_each ?g (rev (sort_dedup (potato_sources mc f))) T = Some (Inr U)"
        "extends ?len ?D T U"
      using remove_each_ok [OF Suc.IH, of T "rev (sort_dedup (potato_sources mc f))"]
        extends_dest [OF T(2)] lenT by auto
    have "extends ?len ?D (R @ [i]) U" using S(2) T(2) U(2) extends_trans by blast
    moreover have "?D i \<subseteq> set U" using S(3) extends_dest [OF T(2)] extends_dest [OF U(2)] by auto
    ultimately have "extends ?len ?D R U" "i \<in> set U" unfolding extends_def by auto
    then show ?thesis
      using i(1) mc ds(1) S(1) T(1) U(1)
      by (auto simp: keeps_position_def intro: extends_sort_dedup)
  qed
  then show ?case unfolding remover_ok_def by auto
qed

lemma gen_remove_total:
  assumes "well_referenced meta cmds" "length cmds \<le> fuel" "idx < length cmds"
  obtains R where "gen_remove_idxes meta None cmds fuel idx [] = Some (Inr R)" "idx \<in> set R"
    "sorted_wrt (<) R" "set R \<subseteq> {..<length cmds}" "\<And>x. x \<in> set R \<Longrightarrow> depends_on cmds x \<subseteq> set R"
proof -
  obtain R where R: "gen_remove_idxes meta None cmds fuel idx [] = Some (Inr R)"
      "extends (length cmds) (depends_on cmds) [] R" "idx \<in> set R"
    by (rule remover_okD [OF gen_remove_ok [OF assms(1), of fuel], of "[]" idx]) (use assms in auto)
  obtain n where "fuel = Suc n" using assms by (cases fuel) auto
  moreover obtain mc where "cmds ! idx = Call mc" using well_referencedE [OF assms(1,3)] by metis
  ultimately obtain R0 where "R = sort_dedup R0"
    using R(1) assms(3)
    by (auto simp: keeps_position_def bindFR_def split: option.splits sum.splits)
  then show ?thesis using R that sorted_sort_dedup by (auto simp: extends_def)
qed

section \<open>Lemmas: renumbering the kept commands\<close>

lemma nths_map_nth: "nths xs A = map ((!) xs) (filter (\<lambda>i. i \<in> A) [0..<length xs])"
proof -
  have "zip xs [0..<length xs] = map (\<lambda>i. (xs ! i, i)) [0..<length xs]"
    by (rule nth_equalityI) simp_all
  then show ?thesis by (simp add: nths_def filter_map comp_def)
qed

lemma remove_all:
  "sorted_wrt (<) rs \<Longrightarrow> set rs \<subseteq> {..<length xs} \<Longrightarrow> foldR remove_at xs (rev rs) = Inr (nths xs (- set rs))"
proof (induction rs arbitrary: xs rule: rev_induct)
  case Nil
  then show ?case by (simp add: nths_all)
next
  case (snoc r rs)
  have r: "r < length xs" "\<forall>s \<in> set rs. s < r" using snoc.prems by (auto simp: sorted_wrt_append)
  let ?ys = "take r xs @ drop (Suc r) xs"
  have xs: "xs = take r xs @ [xs ! r] @ drop (Suc r) xs" using r(1) by (simp add: id_take_nth_drop)
  have tl: "nths (drop (Suc r) xs) {j. j + k \<in> - set rs} = drop (Suc r) xs" if "r \<le> k" for k
    using r(2) that by (intro nths_all) fastforce
  have "nths xs (- set (rs @ [r])) = nths (take r xs) (- set (rs @ [r])) @ drop (Suc r) xs"
  proof -
    have "nths (drop (Suc r) xs) {j. j + Suc r \<in> - set (rs @ [r])} = drop (Suc r) xs"
      using r(2) by (intro nths_all) fastforce
    then show ?thesis using r(1) by (subst xs) (simp add: nths_append nths_Cons)
  qed
  also have "nths (take r xs) (- set (rs @ [r])) = nths (take r xs) (- set rs)"
    unfolding nths_map_nth by (intro arg_cong [where f = "map _"] filter_cong) auto
  also have "nths (take r xs) (- set rs) @ drop (Suc r) xs = nths ?ys (- set rs)"
    using r(1) tl [of r] by (simp add: nths_append)
  finally have eq: "nths xs (- set (rs @ [r])) = nths ?ys (- set rs)" .
  have "foldR remove_at ?ys (rev rs) = Inr (nths ?ys (- set rs))"
    using snoc.prems r by (intro snoc.IH) (auto simp: sorted_wrt_append)
  moreover have "remove_at xs r = Inr ?ys" using r(1) by (simp add: remove_at_def)
  ultimately show ?case using eq by simp
qed

lemma sorted_position:
  "sorted_wrt (<) ks \<Longrightarrow> i \<in> set ks \<Longrightarrow>
     length (filter (\<lambda>k. k < i) ks) < length ks \<and> ks ! length (filter (\<lambda>k. k < i) ks) = (i :: nat)"
proof (induction ks)
  case (Cons k ks)
  then have "i = k \<Longrightarrow> filter (\<lambda>k. k < i) (k # ks) = []" by (auto simp: filter_empty_conv)
  with Cons show ?case by (cases "i = k") auto
qed simp

definition kept_positions :: "nat \<Rightarrow> nat list \<Rightarrow> nat list" where
  "kept_positions len removed = filter (\<lambda>i. i \<notin> set removed) [0..<len]"

lemma kept_sorted: "sorted_wrt (<) (kept_positions len removed)"
  unfolding kept_positions_def by (intro sorted_wrt_filter) simp

lemma set_kept: "set (kept_positions len removed) = {..<len} - set removed"
  by (auto simp: kept_positions_def)

lemma kept_position:
  assumes "distinct removed" "set removed \<subseteq> {..<len}" "i < len" "i \<notin> set removed"
  shows "length (filter (\<lambda>r. r < i) removed) \<le> i"
    and "i - length (filter (\<lambda>r. r < i) removed) < length (kept_positions len removed)"
    and "kept_positions len removed ! (i - length (filter (\<lambda>r. r < i) removed)) = i"
proof -
  let ?K = "kept_positions len removed"
  have "length (filter (\<lambda>r. r < i) removed) = card ({..<i} \<inter> set removed)"
    using assms(1) by (subst distinct_card [symmetric]) (auto intro: arg_cong [where f = card])
  moreover have "length (filter (\<lambda>k. k < i) ?K) = card ({..<i} - set removed)"
    using kept_sorted [of len removed] assms(3)
    by (subst distinct_card [symmetric])
      (auto simp: strict_sorted_iff set_kept intro!: arg_cong [where f = card] distinct_filter)
  moreover have "card ({..<i} \<inter> set removed) + card ({..<i} - set removed) = i"
    using card_Int_Diff [of "{..<i}" "set removed"] by simp
  ultimately have "length (filter (\<lambda>k. k < i) ?K) = i - length (filter (\<lambda>r. r < i) removed)"
      "length (filter (\<lambda>r. r < i) removed) \<le> i" by auto
  then show "length (filter (\<lambda>r. r < i) removed) \<le> i"
      "i - length (filter (\<lambda>r. r < i) removed) < length ?K"
      "?K ! (i - length (filter (\<lambda>r. r < i) removed)) = i"
    using sorted_position [OF kept_sorted, of i len removed] assms(3,4) by (auto simp: set_kept)
qed

text \<open>Reading a renumbered command through the list of kept positions.\<close>

fun rename_arg :: "(nat \<Rightarrow> nat) \<Rightarrow> SequenceArgument \<Rightarrow> SequenceArgument" where
  "rename_arg f (Result i) = Result (as_u16 (f (unat i)))"
| "rename_arg f (NestedResult i j) = NestedResult (as_u16 (f (unat i))) j"
| "rename_arg f arg = arg"

definition rename_call :: "(nat \<Rightarrow> nat) \<Rightarrow> MoveCall \<Rightarrow> MoveCall" where
  "rename_call f mc = mc\<lparr>call_arguments := map (rename_arg f) (call_arguments mc)\<rparr>"

lemma shift_arg_spec:
  assumes "distinct removed" "set removed \<subseteq> {..<len}" "len \<le> 65536"
    and "\<And>i. result_index arg = Some i \<Longrightarrow> i < k \<and> i \<notin> set removed" "k < len"
  shows "\<exists>arg'. shift_arg removed arg = Inr arg' \<and> rename_arg ((!) (kept_positions len removed)) arg' = arg
     \<and> (\<forall>i. result_index arg' = Some i \<longrightarrow>
          i < length (kept_positions len removed) \<and> kept_positions len removed ! i < k)"
proof -
  have *: "\<exists>n. shift_index removed i = Inr n \<and> as_u16 (kept_positions len removed ! unat n) = i
      \<and> unat n < length (kept_positions len removed) \<and> kept_positions len removed ! unat n < k"
    if "unat i < k" "unat i \<notin> set removed" for i :: u16
  proof -
    let ?n = "unat i - length (filter (\<lambda>r. r < unat i) removed)"
    have "unat i < len" using that(1) assms(5) by simp
    note kp = kept_position [OF assms(1,2) this that(2)]
    have "unat (as_u16 ?n) = ?n"
      using that(1) assms(3,5) by (intro unat_as_u16) simp
    then show ?thesis using kp that(1) by (simp add: shift_index_def Let_def)
  qed
  show ?thesis
  proof (cases arg)
    case (Result i)
    then show ?thesis using * [of i] assms(4) by auto
  next
    case (NestedResult i j)
    then show ?thesis using * [of i] assms(4) by auto
  qed auto
qed

lemma rename_shifted:
  assumes "distinct removed" "set removed \<subseteq> {..<len}" "len \<le> 65536" "k < len"
    and "\<And>arg i. arg \<in> set (call_arguments mc) \<Longrightarrow> result_index arg = Some i \<Longrightarrow> i < k \<and> i \<notin> set removed"
  shows "\<exists>mc'. shift_command removed (Call mc) = Inr (Call mc') \<and> rename_call ((!) (kept_positions len removed)) mc' = mc
     \<and> call_ident mc' = call_ident mc
     \<and> (\<forall>arg \<in> set (call_arguments mc'). \<forall>i. result_index arg = Some i \<longrightarrow>
          i < length (kept_positions len removed) \<and> kept_positions len removed ! i < k)"
proof -
  let ?P = "\<lambda>arg arg'. shift_arg removed arg = Inr arg' \<and> rename_arg ((!) (kept_positions len removed)) arg' = arg
     \<and> (\<forall>i. result_index arg' = Some i \<longrightarrow>
          i < length (kept_positions len removed) \<and> kept_positions len removed ! i < k)"
  have "\<forall>arg \<in> set (call_arguments mc). \<exists>arg'. ?P arg arg'"
    using shift_arg_spec [OF assms(1-3)] assms(4,5) by blast
  then obtain h where h: "\<And>arg. arg \<in> set (call_arguments mc) \<Longrightarrow> ?P arg (h arg)" by metis
  have "mapR (shift_arg removed) (call_arguments mc) = Inr (map h (call_arguments mc))"
    using h by (intro mapR_Inr) blast
  moreover have "map (rename_arg ((!) (kept_positions len removed))) (map h (call_arguments mc)) = call_arguments mc"
    using h by (simp add: map_idI)
  ultimately show ?thesis
    using h by (intro exI [of _ "mc\<lparr>call_arguments := map h (call_arguments mc)\<rparr>"])
      (auto simp: shift_command_def rename_call_def call_ident_def)
qed

lemma kept_below: "j < length (kept_positions len removed) \<Longrightarrow> i < length (kept_positions len removed) \<Longrightarrow>
    kept_positions len removed ! i < kept_positions len removed ! j \<Longrightarrow> i < j"
  using kept_sorted [of len removed] by (metis linorder_neqE_nat order_less_asym sorted_wrt_iff_nth_less)

text \<open>Dropping a closed set of positions and shifting the references of the rest.\<close>

definition renumbered :: "MoveSequenceCall list \<Rightarrow> nat list \<Rightarrow> MoveSequenceCall list \<Rightarrow> bool" where
  "renumbered cmds kept cmds' \<longleftrightarrow> length cmds' = length kept \<and>
     (\<forall>j < length kept. \<exists>mc mc'. cmds ! (kept ! j) = Call mc \<and> cmds' ! j = Call mc' \<and> rename_call ((!) kept) mc' = mc)"

lemma shift_kept:
  assumes ref: "well_referenced meta cmds" and R: "distinct R" "set R \<subseteq> {..<length cmds}"
    and closed: "\<And>x. x \<in> set R \<Longrightarrow> depends_on cmds x \<subseteq> set R"
  shows "\<exists>cmds'. mapR (shift_command R) (nths cmds (- set R)) = Inr cmds'
    \<and> renumbered cmds (kept_positions (length cmds) R) cmds' \<and> well_referenced meta cmds'"
proof -
  let ?K = "kept_positions (length cmds) R"
  have len: "length cmds \<le> 65536" using ref by (simp add: well_referenced_def)
  have cmds: "nths cmds (- set R) = map ((!) cmds) ?K" by (simp add: nths_map_nth kept_positions_def)
  let ?P = "\<lambda>k mc mc'. cmds ! k = Call mc \<and> shift_command R (Call mc) = Inr (Call mc')
      \<and> rename_call ((!) ?K) mc' = mc \<and> call_ident mc' = call_ident mc
      \<and> get_function meta (call_module_id mc) (call_module_name mc) (call_function mc) \<noteq> None
      \<and> (\<forall>arg \<in> set (call_arguments mc'). \<forall>i. result_index arg = Some i \<longrightarrow> i < length ?K \<and> ?K ! i < k)"
  have "\<exists>mc mc'. ?P k mc mc'" if k: "k \<in> set ?K" for k
  proof -
    have k': "k < length cmds" "k \<notin> set R" using k by (auto simp: set_kept)
    obtain mc f where mc: "cmds ! k = Call mc"
        "get_function meta (call_module_id mc) (call_module_name mc) (call_function mc) = Some f"
        "\<And>arg i. arg \<in> set (call_arguments mc) \<Longrightarrow> result_index arg = Some i \<Longrightarrow> i < k"
      using well_referencedE [OF ref k'(1)] by blast
    have "i \<notin> set R" if "arg \<in> set (call_arguments mc)" "result_index arg = Some i" for arg i
    proof
      assume "i \<in> set R"
      moreover have "k \<in> depends_on cmds i"
        using that mc k'(1) by (auto simp: depends_on_def uses_result_def list_ex_iff)
      ultimately show False using closed k'(2) by blast
    qed
    then show ?thesis using rename_shifted [OF R len k'(1), of mc] mc by (metis option.distinct(1))
  qed
  then obtain old new where P: "\<And>k. k \<in> set ?K \<Longrightarrow> ?P k (old k) (new k)" by metis
  have res: "mapR (shift_command R) (nths cmds (- set R)) = Inr (map (\<lambda>k. Call (new k)) ?K)"
    unfolding cmds mapR_eq_Inr using P by (auto simp: list_all2_map1 list_all2_map2 intro!: list_all2_refl list.rel_refl_strong)
  moreover have "renumbered cmds ?K (map (\<lambda>k. Call (new k)) ?K)"
    unfolding renumbered_def using P by (metis length_map nth_map nth_mem)
  moreover have "well_referenced meta (map (\<lambda>k. Call (new k)) ?K)"
  proof -
    have "length ?K \<le> length cmds" unfolding kept_positions_def by (metis length_filter_le length_upt diff_zero)
    moreover have "\<exists>mc. map (\<lambda>k. Call (new k)) ?K ! j = Call mc
        \<and> get_function meta (call_module_id mc) (call_module_name mc) (call_function mc) \<noteq> None
        \<and> (\<forall>arg \<in> set (call_arguments mc). \<forall>i. result_index arg = Some i \<longrightarrow> i < j)" if "j < length ?K" for j
      using P [OF nth_mem [OF that]] that kept_below [OF that] by (auto simp: call_ident_def)
    ultimately show ?thesis using len unfolding well_referenced_def by (simp add: le_trans)
  qed
  ultimately show ?thesis by blast
qed

section \<open>Lemmas: stripping hooks\<close>

fun command_args :: "MoveSequenceCall \<Rightarrow> SequenceArgument list" where
  "command_args (Call mc) = call_arguments mc"
| "command_args (TransferObjects as dst) = as @ [dst]"
| "command_args (SplitCoins src amts) = src # amts"
| "command_args (MergeCoins dst srcs) = dst # srcs"
| "command_args (MakeMoveVec ty as) = as"
| "command_args (Publish mods deps) = []"
| "command_args (Upgrade mods deps package ticket) = [ticket]"

definition command_refs :: "MoveSequenceCall \<Rightarrow> nat set" where
  "command_refs cmd = {i. \<exists>arg \<in> set (command_args cmd). result_index arg = Some i}"

text \<open>A partial renumbering \<open>mapping\<close> and a total one \<open>back\<close> that undoes it.\<close>

definition undoes :: "u16 list \<Rightarrow> u16 option list \<Rightarrow> bool" where
  "undoes back mapping \<longleftrightarrow> length mapping \<le> 65536 \<and>
     (\<forall>i < length mapping. \<forall>n. mapping ! i = Some n \<longrightarrow> unat n < length back \<and> back ! unat n = as_u16 i)"

lemma undoesD:
  assumes "undoes back mapping" "unat i < length mapping" "mapping ! unat i = Some n"
  shows "mapping_at back n = Inr i"
  using assms unfolding undoes_def mapping_at_def by fastforce

lemma remap_arg_back:
  "undoes back mapping \<Longrightarrow> remap_arg_with_map mapping arg = Some arg' \<Longrightarrow> remap_arg back arg' = Inr arg"
  by (cases arg) (auto dest: undoesD split: if_splits)

lemma remap_args_back:
  assumes "undoes back mapping" "those (map (remap_arg_with_map mapping) as) = Some as'"
  shows "mapR (remap_arg back) as' = Inr as"
  using assms(2) unfolding those_map_eq_Some mapR_eq_Inr
  by (rule list_all2_mono [THEN list.rel_flip [THEN iffD1, unfolded conversep_iff [abs_def]]])
    (auto intro: remap_arg_back [OF assms(1)])

lemma remap_command_back:
  assumes "undoes back mapping" "remap_command_with_map mapping cmd = Some cmd'"
  shows "remap_command back cmd' = Inr cmd"
  using assms(2)
  by (cases cmd) (auto simp: bind_eq_Some_conv remap_args_back [OF assms(1)] remap_arg_back [OF assms(1)])

lemma remap_command_defined:
  assumes "\<And>i. i \<in> command_refs cmd \<Longrightarrow> i < length mapping \<and> mapping ! i \<noteq> None"
  shows "remap_command_with_map mapping cmd \<noteq> None"
proof -
  have arg: "\<exists>arg'. remap_arg_with_map mapping arg = Some arg'" if "arg \<in> set (command_args cmd)" for arg
  proof -
    have "i < length mapping \<and> mapping ! i \<noteq> None" if "result_index arg = Some i" for i
      using assms [of i] that \<open>arg \<in> _\<close> by (auto simp: command_refs_def)
    then show ?thesis by (cases arg) auto
  qed
  have args: "\<exists>as'. those (map (remap_arg_with_map mapping) as) = Some as'"
    if "\<forall>arg \<in> set as. arg \<in> set (command_args cmd)" for "as"
    using that arg by (induction "as") (force split: option.splits)+
  show ?thesis
  proof (cases cmd)
    case (Call mc)
    then show ?thesis using args [of "call_arguments mc"] by auto
  next
    case (TransferObjects as dst)
    then show ?thesis using args [of "as"] arg [of dst] by auto
  next
    case (SplitCoins src amts)
    then show ?thesis using args [of amts] arg [of src] by auto
  next
    case (MergeCoins dst srcs)
    then show ?thesis using args [of srcs] arg [of dst] by auto
  next
    case (MakeMoveVec ty as)
    then show ?thesis using args [of "as"] by auto
  next
    case (Upgrade mods ds package ticket)
    then show ?thesis using arg [of ticket] by auto
  qed simp
qed

definition strip_mapping :: "FunctionIdent set \<Rightarrow> MoveSequenceCall list \<Rightarrow> u16 option list" where
  "strip_mapping hooks cmds = map (\<lambda>i. if is_hook_command hooks (cmds ! i) then None
     else Some (as_u16 (length (filter (\<lambda>k. \<not> is_hook_command hooks (cmds ! k)) [0..<i])))) [0..<length cmds]"

lemma strip_fold:
  "foldl (strip_step hooks) ([], []) cmds =
     (strip_mapping hooks cmds, filter (\<lambda>c. \<not> is_hook_command hooks c) cmds)"
proof (induction cmds rule: rev_induct)
  case (snoc c cmds)
  have "filter (\<lambda>k. \<not> is_hook_command hooks ((cmds @ [c]) ! k)) [0..<i] =
      filter (\<lambda>k. \<not> is_hook_command hooks (cmds ! k)) [0..<i]" if "i \<le> length cmds" for i
    using that by (intro filter_cong) (auto simp: nth_append)
  moreover have "length (filter (\<lambda>k. \<not> is_hook_command hooks (cmds ! k)) [0..<length cmds]) =
      length (filter (\<lambda>c. \<not> is_hook_command hooks c) cmds)"
    by (simp add: length_filter_conv_card cong: conj_cong)
  ultimately have "strip_mapping hooks (cmds @ [c]) = strip_mapping hooks cmds @
      [if is_hook_command hooks c then None
       else Some (as_u16 (length (filter (\<lambda>c. \<not> is_hook_command hooks c) cmds)))]"
    by (auto simp: strip_mapping_def nth_append)
  moreover have "strip_step hooks (m, k) c = (if is_hook_command hooks c then (m @ [None], k)
      else (m @ [Some (as_u16 (length k))], k @ [c]))" for m k
    by (simp add: strip_step_def)
  ultimately show ?case by (simp add: snoc.IH)
qed (simp add: strip_mapping_def)

lemma filter_upt_below: "i \<le> n \<Longrightarrow> filter (\<lambda>k. k < i) (filter P [0..<n]) = filter P [0..<i]"
proof -
  assume "i \<le> n"
  then have "[0..<n] = [0..<i] @ [i..<n]" by (metis le_add_diff_inverse upt_add_eq_append zero_le add_0)
  then show ?thesis by (auto simp: filter_empty_conv intro!: filter_cong)
qed

lemma undoes_strip:
  assumes "length cmds \<le> 65536"
  shows "undoes (map as_u16 (filter (\<lambda>k. \<not> is_hook_command hooks (cmds ! k)) [0..<length cmds]))
    (strip_mapping hooks cmds)"
proof -
  let ?K = "filter (\<lambda>k. \<not> is_hook_command hooks (cmds ! k)) [0..<length cmds]"
  have "unat n < length ?K \<and> ?K ! unat n = i"
    if i: "i < length cmds" "strip_mapping hooks cmds ! i = Some n" for i n
  proof -
    have keep: "\<not> is_hook_command hooks (cmds ! i)"
      and n: "n = as_u16 (length (filter (\<lambda>k. \<not> is_hook_command hooks (cmds ! k)) [0..<i]))"
      using i by (auto simp: strip_mapping_def split: if_splits)
    have "filter (\<lambda>k. k < i) ?K = filter (\<lambda>k. \<not> is_hook_command hooks (cmds ! k)) [0..<i]"
      using i(1) by (intro filter_upt_below) simp
    moreover have "sorted_wrt (<) ?K" by (intro sorted_wrt_filter) simp
    moreover have "length (filter (\<lambda>k. \<not> is_hook_command hooks (cmds ! k)) [0..<i]) < 65536"
      using i(1) assms le_less_trans [OF length_filter_le, of "[0..<i]" 65536] by simp
    ultimately show ?thesis using sorted_position [of ?K i] keep i(1) by (simp add: n unat_as_u16)
  qed
  then show ?thesis using assms by (auto simp: undoes_def strip_mapping_def)
qed

lemma remove_process_balance_idem:
  assumes "\<forall>c \<in> set bs. is_from_balance c"
  shows "remove_process_balance (ptb\<lparr>commands := commands ptb @ bs\<rparr>) = remove_process_balance ptb"
proof -
  have "dropWhile is_from_balance (rev bs @ rev (commands ptb)) = dropWhile is_from_balance (rev (commands ptb))"
    using assms by (intro dropWhile_append2) simp
  then show ?thesis by (simp add: remove_process_balance_def)
qed

section \<open>Properties\<close>

text \<open>
  C7: without a flash loan, removing a command of a sequence of backward-referring calls always
  ends. The command goes, with everything that depends on it; each remaining call is the old one
  with its references renumbered, so that they still name the results they named before, and they
  still refer backwards. When every command would go the sequence is left as it is.
\<close>
theorem remove_command_consistent:
  assumes "well_referenced meta (commands ptb)" "length (commands ptb) \<le> fuel" "0 < fuel"
  shows "\<exists>res ptb'. remove_command meta None fuel ptb idx = Some (Inr (res, ptb'))
    \<and> (case res of
         Skipped \<Rightarrow> ptb' = ptb
       | Mutated \<Rightarrow> inputs ptb' = inputs ptb \<and> well_referenced meta (commands ptb')
           \<and> (\<exists>kept. sorted_wrt (<) kept \<and> set kept \<subseteq> {..<length (commands ptb)} - {idx}
                \<and> renumbered (commands ptb) kept (commands ptb')))"
proof (cases "idx < length (commands ptb)")
  case False
  then have "gen_remove_idxes meta None (commands ptb) fuel idx [] = Some (Inr [])"
    using assms(3) by (cases fuel) (simp_all add: keeps_position_def)
  then show ?thesis by (simp add: remove_command_def)
next
  case True
  then obtain R where R: "gen_remove_idxes meta None (commands ptb) fuel idx [] = Some (Inr R)"
      "idx \<in> set R" "sorted_wrt (<) R" "set R \<subseteq> {..<length (commands ptb)}"
      "\<And>x. x \<in> set R \<Longrightarrow> depends_on (commands ptb) x \<subseteq> set R"
    using gen_remove_total [OF assms(1,2)] by blast
  have "distinct R" using R(3) by (simp add: strict_sorted_iff)
  then obtain cmds' where c: "mapR (shift_command R) (nths (commands ptb) (- set R)) = Inr cmds'"
      "renumbered (commands ptb) (kept_positions (length (commands ptb)) R) cmds'"
      "well_referenced meta cmds'"
    using shift_kept [OF assms(1) _ R(4,5)] by blast
  have "set (kept_positions (length (commands ptb)) R) \<subseteq> {..<length (commands ptb)} - {idx}"
    using R(2) by (auto simp: set_kept)
  then show ?thesis
    using R(1) c remove_all [OF R(3,4)] kept_sorted
    by (cases "length (commands ptb) \<le> length R \<or> R = []") (auto simp: remove_command_def)
qed

lemma filter_positions: "filter P xs = map ((!) xs) (filter (\<lambda>k. P (xs ! k)) [0..<length xs])"
proof -
  have "filter P (map ((!) xs) [0..<length xs]) = map ((!) xs) (filter (\<lambda>k. P (xs ! k)) [0..<length xs])"
    by (simp only: filter_map comp_def)
  then show ?thesis by (simp only: map_nth)
qed

definition base_positions :: "'r FuzzMetadata \<Rightarrow> MoveSequenceCall list \<Rightarrow> nat list" where
  "base_positions self cmds =
     filter (\<lambda>k. \<not> is_hook_command (hook_idents self) (cmds ! k)) [0..<length cmds]"

text \<open>
  C26: stripping the hooks keeps exactly the other commands, in order: when no kept command uses
  the result of a hook, renumbering the stripped commands by the kept positions gives the kept
  commands of the original sequence.
\<close>
theorem strip_hooks_only_exact:
  assumes "length (commands ptb) \<le> 65536"
    and "\<And>k i. k \<in> set (base_positions self (commands ptb)) \<Longrightarrow> i \<in> command_refs (commands ptb ! k) \<Longrightarrow>
      i \<in> set (base_positions self (commands ptb))"
  shows "mapR (remap_command (map as_u16 (base_positions self (commands ptb))))
      (commands (strip_hooks_only ptb self)) =
    Inr (map ((!) (commands ptb)) (base_positions self (commands ptb)))"
proof -
  let ?cs = "commands ptb" and ?H = "hook_idents self"
  let ?K = "base_positions self ?cs" and ?m = "strip_mapping ?H ?cs"
  have "i < length ?m \<and> ?m ! i \<noteq> None" if "i \<in> set ?K" for i
    using that by (auto simp: strip_mapping_def base_positions_def)
  then have def: "remap_command_with_map ?m (?cs ! k) \<noteq> None" if "k \<in> set ?K" for k
    using that assms(2) by (intro remap_command_defined) blast
  have strip: "commands (strip_hooks_only ptb self) = map (\<lambda>k. the (remap_command_with_map ?m (?cs ! k))) ?K"
    unfolding strip_hooks_only_def strip_fold filter_positions [of _ ?cs] using def
    by (auto simp: map_filter_def comp_def base_positions_def)
  have "remap_command (map as_u16 ?K) (the (remap_command_with_map ?m (?cs ! k))) = Inr (?cs ! k)"
    if "k \<in> set ?K" for k
    using remap_command_back [OF undoes_strip [OF assms(1), of ?H, folded base_positions_def]] def [OF that]
    by auto
  then show ?thesis unfolding strip
    by (simp add: mapR_eq_Inr list_all2_map1 list_all2_map2 list.rel_refl_strong)
qed

text \<open>Four calls; the second uses the first, the last uses the third.\<close>

definition demo_call :: "string \<Rightarrow> SequenceArgument list \<Rightarrow> MoveSequenceCall" where
  "demo_call f as = Call \<lparr>call_module_id = 7, call_module_name = ''m'', call_function = f,
     call_type_arguments = [], call_arguments = as\<rparr>"

definition demo_sequence :: MoveSequence where
  "demo_sequence = \<lparr>inputs = [InBool True], commands = [demo_call ''deposit'' [Input 0],
     demo_call ''deposit'' [Result 0], demo_call ''deposit'' [Input 0], demo_call ''deposit'' [NestedResult 2 1]]\<rparr>"

lemma demo_sequence_ok: "well_referenced demo_base (commands demo_sequence)"
proof -
  have "get_function demo_base 7 ''m'' ''deposit'' = Some (demo_function ''deposit'')"
    by (simp add: get_function_def get_package_metadata_def resolved_package_def find_module_def demo_defs)
  then show ?thesis
    by (simp add: well_referenced_def demo_sequence_def demo_call_def All_less_Suc)
qed

theorem remove_command_consistent_witness:
  "\<exists>res ptb'. remove_command demo_base None 4 demo_sequence 0 = Some (Inr (res, ptb'))
    \<and> (case res of
         Skipped \<Rightarrow> ptb' = demo_sequence
       | Mutated \<Rightarrow> inputs ptb' = inputs demo_sequence \<and> well_referenced demo_base (commands ptb')
           \<and> (\<exists>kept. sorted_wrt (<) kept \<and> set kept \<subseteq> {..<length (commands demo_sequence)} - {0}
                \<and> renumbered (commands demo_sequence) kept (commands ptb')))"
  by (rule remove_command_consistent [OF demo_sequence_ok]) (simp_all add: demo_sequence_def)

text \<open>A sequence with a hook before the call it belongs to.\<close>

definition hooked_sequence :: MoveSequence where
  "hooked_sequence = \<lparr>inputs = [InBool True], commands = [demo_call ''deposit'' [Input 0],
     demo_call ''movy_pre_deposit'' [], demo_call ''deposit'' [Result 0], demo_call ''deposit'' [NestedResult 2 1]]\<rparr>"

theorem strip_hooks_only_exact_witness:
  "base_positions demo_meta (commands hooked_sequence) = [0, 2, 3]
   \<and> mapR (remap_command (map as_u16 (base_positions demo_meta (commands hooked_sequence))))
     (commands (strip_hooks_only hooked_sequence demo_meta)) =
   Inr (map ((!) (commands hooked_sequence)) (base_positions demo_meta (commands hooked_sequence)))"
proof
  have "hook_idents demo_meta = {FunctionIdent_new 7 ''m'' ''movy_pre_deposit''}" by code_simp
  then show base: "base_positions demo_meta (commands hooked_sequence) = [0, 2, 3]"
    by (simp add: base_positions_def hooked_sequence_def demo_call_def is_hook_command_def call_ident_def
        upt_rec numeral_eq_Suc)
  show "mapR (remap_command (map as_u16 (base_positions demo_meta (commands hooked_sequence))))
     (commands (strip_hooks_only hooked_sequence demo_meta)) =
    Inr (map ((!) (commands hooked_sequence)) (base_positions demo_meta (commands hooked_sequence)))"
  proof (rule strip_hooks_only_exact)
    show "i \<in> set (base_positions demo_meta (commands hooked_sequence))"
      if "k \<in> set (base_positions demo_meta (commands hooked_sequence))"
        "i \<in> command_refs (commands hooked_sequence ! k)" for k i
      using that unfolding base by (auto simp: hooked_sequence_def demo_call_def command_refs_def)
  qed (simp add: hooked_sequence_def)
qed

end
