(* ===== verification/Object_Data.thy ===== *)
theory Object_Data
  imports Sequence_Edit
begin

text \<open>
  \<open>movy-fuzz/src/mutators/object_data.rs\<close>: the objects a sequence leaves available. \<open>from_ptb\<close> replays
  the signatures of the calls of a sequence: the object inputs and the structures that calls return
  become available, the ones passed by value are used up, and values without the drop ability are
  kept in \<open>hot_potatoes\<close> until a call takes them. The store is the record \<open>StoreInfo\<close>. An argument
  index \<open>i as u16\<close> is a truncation.
\<close>

section \<open>Data\<close>

datatype Gate = GateOwned | GateImmutable | GateShared

type_synonym object_map = "(MoveTypeTag, (SequenceArgument \<times> Gate) list) btree"

record ObjectData =
  existing_objects :: object_map
  key_store_objects :: "SequenceArgument list"
  hot_potatoes :: "MoveTypeTag list"
  used_object_ids :: "MoveAddress list"
  balances :: "SequenceArgument list"

definition ObjectData_new :: ObjectData where
  "ObjectData_new = \<lparr>existing_objects = [], key_store_objects = [], hot_potatoes = [],
     used_object_ids = [], balances = []\<rparr>"

section \<open>The objects a sequence leaves\<close>

definition unwrap_result :: "'e + 'a \<Rightarrow> 'a res" where
  "unwrap_result r = (case r of Inr x \<Rightarrow> Inr x | Inl _ \<Rightarrow> Inl (Panic ''called `Result::unwrap()` on an `Err` value''))"

lemma unwrap_result_Inr [simp, res_simps]: "unwrap_result (Inr x) = Inr x"
  by (simp add: unwrap_result_def)

lemma unwrap_result_eq [res_simps]: "unwrap_result r = Inr x \<longleftrightarrow> r = Inr x"
  by (cases r) (auto simp: unwrap_result_def)

definition owner_gate :: "MoveOwner \<Rightarrow> Gate res" where
  "owner_gate owner =
     (case owner of
        AddressOwner _ \<Rightarrow> Inr GateOwned
      | Immutable \<Rightarrow> Inr GateImmutable
      | Shared _ \<Rightarrow> Inr GateShared
      | _ \<Rightarrow> Inl (Panic ''Unsupported object owner type''))"

definition collect_input :: "StoreInfo \<Rightarrow> ObjectData \<Rightarrow> nat \<times> InputArgument \<Rightarrow> ObjectData res" where
  "collect_input env self p = (case p of (i, input) \<Rightarrow>
     (case input of
        InObject _ obj \<Rightarrow>
          bindR (case obj of
                   Receiving _ \<Rightarrow> Inl (Panic ''not implemented: Unsupported object argument type'')
                 | _ \<Rightarrow> Inr (SuiObjectInputArgument_id obj)) (\<lambda>obj_id.
          bindR (unwrap_result (get_move_object_info env obj_id)) (\<lambda>object.
          bindR (owner_gate (info_owner object)) (\<lambda>gate.
          Inr (self\<lparr>used_object_ids := used_object_ids self @ [obj_id],
            existing_objects := bt_push (info_ty object) (Input (as_u16 i), gate) (existing_objects self)\<rparr>))))
      | _ \<Rightarrow> Inr self))"

definition is_input :: "SequenceArgument \<Rightarrow> bool" where
  "is_input arg = (case arg of Input _ \<Rightarrow> True | _ \<Rightarrow> False)"

definition drop_argument :: "SequenceArgument \<Rightarrow> (SequenceArgument \<times> Gate) list \<Rightarrow> (SequenceArgument \<times> Gate) list" where
  "drop_argument arg cs = filter (\<lambda>(a, _). a \<noteq> arg) cs"

definition take_potato :: "MoveTypeTag \<Rightarrow> ObjectData \<Rightarrow> ObjectData res" where
  "take_potato ty self =
     (if ty \<in> set (hot_potatoes self) then Inr (self\<lparr>hot_potatoes := remove1 ty (hot_potatoes self)\<rparr>)
      else Inl (Panic ''Expected hot potato object''))"

definition settle_argument ::
  "SequenceArgument \<Rightarrow> MoveTypeTag \<Rightarrow> MoveAbiSignatureToken \<Rightarrow> ObjectData \<Rightarrow> ObjectData res" where
  "settle_argument arg ty partial_instantiation self =
     (if is_input arg then Inr self
      else
        let self = (if is_balance partial_instantiation
                    then self\<lparr>balances := filter (\<lambda>a. a \<noteq> arg) (balances self)\<rparr> else self);
            self = (if is_key_store partial_instantiation
                    then self\<lparr>key_store_objects := filter (\<lambda>a. a \<noteq> arg) (key_store_objects self)\<rparr> else self) in
        if is_hot_potato partial_instantiation then take_potato ty self else Inr self)"

definition consume_argument ::
  "ty_args \<Rightarrow> ObjectData \<Rightarrow> SequenceArgument \<times> MoveAbiSignatureToken \<Rightarrow> ObjectData res" where
  "consume_argument ty_args_map self p = (case p of (arg, param) \<Rightarrow>
     if \<not> needs_sample param then Inr self
     else if is_any_reference param then Inr self
     else
       bindR (unwrapR ''called `Option::unwrap()` on a `None` value'' (subst param (bt_get ty_args_map))) (\<lambda>ty.
       bindR (unwrapR ''Expected existing objects'' (bt_get (existing_objects self) ty)) (\<lambda>cs.
       let left = drop_argument arg cs;
           self = self\<lparr>existing_objects :=
             (if left = [] then bt_remove ty (existing_objects self) else bt_insert ty left (existing_objects self))\<rparr> in
       settle_argument arg ty (partial_subst param (bt_get ty_args_map)) self)))"

text \<open>Whether a returned vector holds values that cannot be dropped, for the element types the code
  looks at.\<close>

definition undroppable_element :: "Metadata \<Rightarrow> ty_args \<Rightarrow> MoveAbiSignatureToken \<Rightarrow> bool res" where
  "undroppable_element meta ty_args_map inner =
     (case inner of
        TokStruct h \<Rightarrow> Inr (\<not> ability_contains (abilities h) DROP)
      | TokStructInstantiation h _ \<Rightarrow> Inr (\<not> ability_contains (abilities h) DROP)
      | TokTypeParameter idx _ \<Rightarrow>
          bindR (unwrapR ''called `Option::unwrap()` on a `None` value'' (bt_get ty_args_map idx)) (\<lambda>ty_tag.
          case ty_tag of
            TagStruct tag \<Rightarrow>
              bindR (unwrapR ''Struct not found in module''
                (get_abilities meta (tag_address tag) (tag_module tag) (tag_name tag))) (\<lambda>tag_abilities.
              Inr (\<not> ability_contains tag_abilities DROP))
          | _ \<Rightarrow> Inr False)
      | _ \<Rightarrow> Inr False)"

definition result_argument :: "nat \<Rightarrow> nat \<Rightarrow> nat \<Rightarrow> SequenceArgument" where
  "result_argument n i j = (if n = 1 then Result (as_u16 i) else NestedResult (as_u16 i) (as_u16 j))"

definition is_struct_tag :: "MoveTypeTag \<Rightarrow> bool" where
  "is_struct_tag ty = (case ty of TagStruct _ \<Rightarrow> True | _ \<Rightarrow> False)"

definition produce_result ::
  "Metadata \<Rightarrow> ty_args \<Rightarrow> nat \<Rightarrow> nat \<Rightarrow> ObjectData \<Rightarrow> nat \<times> MoveAbiSignatureToken \<Rightarrow> ObjectData res" where
  "produce_result meta ty_args_map n i self p = (case p of (j, ret_ty) \<Rightarrow>
     bindR (unwrapR ''called `Option::unwrap()` on a `None` value'' (subst ret_ty (bt_get ty_args_map))) (\<lambda>ty.
     case ret_ty of
       TokVector inner \<Rightarrow>
         bindR (undroppable_element meta ty_args_map inner) (\<lambda>undroppable.
         Inr (if undroppable then self\<lparr>hot_potatoes := hot_potatoes self @ [ty]\<rparr> else self))
     | _ \<Rightarrow>
         let partial_instantiation = partial_subst ret_ty (bt_get ty_args_map) in
         if \<not> is_struct_tag ty then Inr self
         else
           let res_arg = result_argument n i j;
               self = self\<lparr>existing_objects := bt_push ty (res_arg, GateOwned) (existing_objects self)\<rparr>;
               self = (if is_balance partial_instantiation then self\<lparr>balances := balances self @ [res_arg]\<rparr> else self);
               self = (if is_key_store partial_instantiation
                       then self\<lparr>key_store_objects := key_store_objects self @ [res_arg]\<rparr> else self) in
           Inr (if is_hot_potato partial_instantiation
                then self\<lparr>hot_potatoes := hot_potatoes self @ [ty]\<rparr> else self)))"

definition numbered_ty_args :: "MoveTypeTag list \<Rightarrow> ty_args" where
  "numbered_ty_args tas = insert_all [] (map (\<lambda>(i, ty). (as_u16 i, ty)) (enumerate 0 tas))"

definition call_ty_args :: "MoveCall \<Rightarrow> ty_args" where
  "call_ty_args mc = numbered_ty_args (call_type_arguments mc)"

definition process_command :: "Metadata \<Rightarrow> ObjectData \<Rightarrow> nat \<times> MoveSequenceCall \<Rightarrow> ObjectData res" where
  "process_command meta self p = (case p of (i, cmd) \<Rightarrow>
     (case cmd of
        Call mc \<Rightarrow>
          bindR (unwrapR ''Function not found in module''
                  (get_function meta (call_module_id mc) (call_module_name mc) (call_function mc))) (\<lambda>f.
          bindR (foldR (consume_argument (call_ty_args mc)) self (zip (call_arguments mc) (parameters f))) (\<lambda>self.
          foldR (produce_result meta (call_ty_args mc) (length (return_paramters f)) i) self
            (enumerate 0 (return_paramters f))))
      | _ \<Rightarrow> Inr self))"

definition from_ptb :: "StoreInfo \<Rightarrow> 'm FuzzMetadata \<Rightarrow> MoveSequence \<Rightarrow> ObjectData res" where
  "from_ptb env self ptb =
     (let start = ObjectData_new\<lparr>used_object_ids := [gas_id self]\<rparr> in
      if commands ptb = [] then Inr start
      else bindR (foldR (collect_input env) start (enumerate 0 (inputs ptb))) (\<lambda>d.
           foldR (process_command (fm_base self)) d (enumerate 0 (commands ptb))))"

definition remove_used :: "ObjectData \<Rightarrow> SequenceArgument \<Rightarrow> ObjectData" where
  "remove_used self arg =
     (let holders = map fst (filter (\<lambda>(_, cs). list_ex (\<lambda>(a, _). a = arg) cs) (existing_objects self)) in
      self\<lparr>existing_objects :=
             filter (\<lambda>(_, cs). cs \<noteq> []) (map (\<lambda>(ty, cs). (ty, drop_argument arg cs)) (existing_objects self)),
           hot_potatoes := foldl (\<lambda>ps ty. remove1 ty ps) (hot_potatoes self) holders,
           balances := filter (\<lambda>a. a \<noteq> arg) (balances self),
           key_store_objects := filter (\<lambda>a. a \<noteq> arg) (key_store_objects self)\<rparr>)"

definition from_ptb_and_remove_used ::
  "StoreInfo \<Rightarrow> 'm FuzzMetadata \<Rightarrow> MoveSequence \<Rightarrow> SequenceArgument list \<Rightarrow> ObjectData res" where
  "from_ptb_and_remove_used env self ptb used_arguments =
     bindR (from_ptb env self ptb) (\<lambda>d. Inr (foldl remove_used d used_arguments))"

section \<open>Accounting of hot potatoes\<close>

text \<open>The hot potatoes of a type that a call takes and makes, read off its signature.\<close>

definition takes_potato :: "ty_args \<Rightarrow> MoveTypeTag \<Rightarrow> SequenceArgument \<times> MoveAbiSignatureToken \<Rightarrow> bool" where
  "takes_potato m ty p \<longleftrightarrow> (case p of (arg, param) \<Rightarrow>
     needs_sample param \<and> \<not> is_any_reference param \<and> \<not> is_input arg
     \<and> is_hot_potato (partial_subst param (bt_get m)) \<and> subst param (bt_get m) = Some ty)"

definition makes_potato :: "Metadata \<Rightarrow> ty_args \<Rightarrow> MoveTypeTag \<Rightarrow> MoveAbiSignatureToken \<Rightarrow> bool" where
  "makes_potato meta m ty ret \<longleftrightarrow> subst ret (bt_get m) = Some ty
     \<and> (case ret of
          TokVector inner \<Rightarrow> undroppable_element meta m inner = Inr True
        | _ \<Rightarrow> is_struct_tag ty \<and> is_hot_potato (partial_subst ret (bt_get m)))"

definition call_function_of :: "Metadata \<Rightarrow> MoveCall \<Rightarrow> MoveFunctionAbi option" where
  "call_function_of meta mc = get_function meta (call_module_id mc) (call_module_name mc) (call_function mc)"

definition potatoes_taken :: "Metadata \<Rightarrow> MoveTypeTag \<Rightarrow> MoveSequenceCall \<Rightarrow> nat" where
  "potatoes_taken meta ty cmd = (case cmd of
     Call mc \<Rightarrow> (case call_function_of meta mc of
       Some f \<Rightarrow> length (filter (takes_potato (call_ty_args mc) ty) (zip (call_arguments mc) (parameters f)))
     | None \<Rightarrow> 0)
   | _ \<Rightarrow> 0)"

definition potatoes_made :: "Metadata \<Rightarrow> MoveTypeTag \<Rightarrow> MoveSequenceCall \<Rightarrow> nat" where
  "potatoes_made meta ty cmd = (case cmd of
     Call mc \<Rightarrow> (case call_function_of meta mc of
       Some f \<Rightarrow> length (filter (makes_potato meta (call_ty_args mc) ty) (return_paramters f))
     | None \<Rightarrow> 0)
   | _ \<Rightarrow> 0)"

abbreviation potatoes :: "MoveTypeTag \<Rightarrow> ObjectData \<Rightarrow> nat" where
  "potatoes ty d \<equiv> count_list (hot_potatoes d) ty"

lemma count_list_remove1: "count_list (remove1 x xs) y = count_list xs y - (if x = y then 1 else 0)"
  by (induction xs) (auto simp: count_list_0_iff Suc_diff_1 count_list_0_iff dest: count_notin)

lemma take_potato_count:
  assumes "take_potato t d = Inr d'"
  shows "potatoes ty d' + of_bool (t = ty) = potatoes ty d"
proof -
  have "potatoes t d \<noteq> 0" using assms by (simp add: take_potato_def count_list_0_iff split: if_splits)
  then show ?thesis using assms by (auto simp: take_potato_def count_list_remove1 split: if_splits)
qed

lemma settle_argument_count:
  assumes "settle_argument arg t q d = Inr d'"
  shows "potatoes ty d' + of_bool (\<not> is_input arg \<and> is_hot_potato q \<and> t = ty) = potatoes ty d"
  using assms unfolding settle_argument_def Let_def
  by (auto dest!: take_potato_count [where ty = ty] split: if_splits)

lemma settle_argument_existing: "settle_argument arg t q d = Inr d' \<Longrightarrow> existing_objects d' = existing_objects d"
  unfolding settle_argument_def Let_def by (auto simp: take_potato_def split: if_splits)

lemma consume_argument_eq:
  "consume_argument m d (arg, param) = Inr d' \<longleftrightarrow>
     (if needs_sample param \<and> \<not> is_any_reference param
      then \<exists>t cs. subst param (bt_get m) = Some t \<and> bt_get (existing_objects d) t = Some cs
        \<and> settle_argument arg t (partial_subst param (bt_get m))
             (d\<lparr>existing_objects := (if drop_argument arg cs = [] then bt_remove t (existing_objects d)
                else bt_insert t (drop_argument arg cs) (existing_objects d))\<rparr>) = Inr d'
      else d' = d)"
  by (auto simp: consume_argument_def Let_def bindR_eq_Inr unwrapR_eq_Inr)

lemma consume_argument_count:
  assumes "consume_argument m d p = Inr d'"
  shows "potatoes ty d' + of_bool (takes_potato m ty p) = potatoes ty d"
proof -
  obtain arg param where p: "p = (arg, param)" by (cases p)
  show ?thesis
  proof (cases "needs_sample param \<and> \<not> is_any_reference param")
    case True
    with assms obtain t e where "subst param (bt_get m) = Some t"
      "settle_argument arg t (partial_subst param (bt_get m)) (d\<lparr>existing_objects := e\<rparr>) = Inr d'"
      unfolding p consume_argument_eq by auto
    with True settle_argument_count [of arg t _ "d\<lparr>existing_objects := e\<rparr>" d' ty] show ?thesis by (simp add: p takes_potato_def)
  next
    case False
    with assms show ?thesis by (auto simp: p consume_argument_eq takes_potato_def)
  qed
qed

text \<open>A returned value that is not a vector, as one record update.\<close>

definition produced :: "ty_args \<Rightarrow> SequenceArgument \<Rightarrow> MoveTypeTag \<Rightarrow> MoveAbiSignatureToken \<Rightarrow> ObjectData \<Rightarrow> ObjectData" where
  "produced m arg ty ret d =
     d\<lparr>existing_objects := bt_push ty (arg, GateOwned) (existing_objects d),
       balances := balances d @ (if is_balance (partial_subst ret (bt_get m)) then [arg] else []),
       key_store_objects := key_store_objects d @ (if is_key_store (partial_subst ret (bt_get m)) then [arg] else []),
       hot_potatoes := hot_potatoes d @ (if is_hot_potato (partial_subst ret (bt_get m)) then [ty] else [])\<rparr>"

lemma produced_simps [simp]:
  "existing_objects (produced m arg ty ret d) = bt_push ty (arg, GateOwned) (existing_objects d)"
  "hot_potatoes (produced m arg ty ret d) =
     hot_potatoes d @ (if is_hot_potato (partial_subst ret (bt_get m)) then [ty] else [])"
  by (simp_all add: produced_def)

lemma produce_result_vector:
  "produce_result meta m n i d (j, TokVector inner) = Inr d' \<longleftrightarrow>
     (\<exists>ty u. subst (TokVector inner) (bt_get m) = Some ty \<and> undroppable_element meta m inner = Inr u
        \<and> d' = (if u then d\<lparr>hot_potatoes := hot_potatoes d @ [ty]\<rparr> else d))"
  by (auto simp: produce_result_def res_simps)

lemma case_not_vector:
  "(\<And>inner. ret \<noteq> TokVector inner) \<Longrightarrow> (case ret of TokVector inner \<Rightarrow> A inner | _ \<Rightarrow> B) = B"
  by (cases ret) auto

lemma produce_result_other:
  assumes "\<And>inner. ret \<noteq> TokVector inner"
  shows "produce_result meta m n i d (j, ret) = Inr d' \<longleftrightarrow>
     (\<exists>ty. subst ret (bt_get m) = Some ty
        \<and> d' = (if is_struct_tag ty then produced m (result_argument n i j) ty ret d else d))"
  unfolding produce_result_def prod.case case_not_vector [OF assms]
  by (cases d) (auto simp: res_simps produced_def Let_def)

lemma produce_result_count:
  assumes "produce_result meta m n i d p = Inr d'"
  shows "potatoes ty d' = potatoes ty d + of_bool (makes_potato meta m ty (snd p))"
proof (cases "\<exists>inner. snd p = TokVector inner")
  case True
  with assms show ?thesis by (cases p) (auto simp: produce_result_vector makes_potato_def)
next
  case False
  then have "makes_potato meta m ty (snd p) \<longleftrightarrow> subst (snd p) (bt_get m) = Some ty \<and> is_struct_tag ty
      \<and> is_hot_potato (partial_subst (snd p) (bt_get m))"
    by (auto simp: makes_potato_def split: MoveAbiSignatureToken.splits)
  moreover obtain t where "subst (snd p) (bt_get m) = Some t"
    "d' = (if is_struct_tag t then produced m (result_argument n i (fst p)) t (snd p) d else d)"
    using False assms produce_result_other [of "snd p" meta m n i d "fst p" d'] by auto
  ultimately show ?thesis by (cases "is_struct_tag t") auto
qed

lemma sum_of_bool_filter: "sum_list (map (\<lambda>x. of_bool (P x)) xs) = length (filter P xs)"
  by (induction xs) auto

lemma process_command_count:
  assumes "process_command meta d (i, cmd) = Inr d'"
  shows "potatoes ty d' + potatoes_taken meta ty cmd = potatoes ty d + potatoes_made meta ty cmd"
proof (cases cmd)
  case (Call mc)
  let ?m = "call_ty_args mc"
  from assms Call obtain f d1 where f: "call_function_of meta mc = Some f"
    and c: "foldR (consume_argument ?m) d (zip (call_arguments mc) (parameters f)) = Inr d1"
    and p: "foldR (produce_result meta ?m (length (return_paramters f)) i) d1 (enumerate 0 (return_paramters f)) = Inr d'"
    by (auto simp: process_command_def call_function_of_def res_simps)
  have "potatoes ty d1 + length (filter (takes_potato ?m ty) (zip (call_arguments mc) (parameters f))) = potatoes ty d"
    using foldR_balance [where measured = "potatoes ty" and added = "\<lambda>_. 0", OF _ c]
      consume_argument_count [where ty = ty] by (simp add: sum_of_bool_filter [symmetric])
  moreover have "potatoes ty d' = potatoes ty d1 + sum_list (map (\<lambda>q. of_bool (makes_potato meta ?m ty (snd q))) (enumerate 0 (return_paramters f)))"
    using foldR_balance [where measured = "potatoes ty" and taken = "\<lambda>_. 0", OF _ p]
      produce_result_count [where ty = ty] by simp
  moreover have "sum_list (map (\<lambda>q. of_bool (makes_potato meta ?m ty (snd q))) (enumerate 0 (return_paramters f)))
      = length (filter (makes_potato meta ?m ty) (return_paramters f))"
  proof -
    have "map (\<lambda>q. of_bool (makes_potato meta ?m ty (snd q)) :: nat) (enumerate 0 (return_paramters f))
        = map (\<lambda>r. of_bool (makes_potato meta ?m ty r)) (map snd (enumerate 0 (return_paramters f)))"
      by (simp only: map_map comp_def)
    then show ?thesis unfolding map_snd_enumerate by (simp only: sum_of_bool_filter [symmetric])
  qed
  ultimately show ?thesis
    using f by (simp add: Call potatoes_taken_def potatoes_made_def sum_of_bool_filter)
qed (use assms in \<open>auto simp: process_command_def potatoes_taken_def potatoes_made_def\<close>)

lemma collect_input_potatoes: "collect_input env d p = Inr d' \<Longrightarrow> hot_potatoes d' = hot_potatoes d"
  unfolding collect_input_def
  by (auto simp: res_simps split: prod.splits InputArgument.splits SuiObjectInputArgument.splits)

section \<open>The available objects\<close>

definition by_value :: "MoveAbiSignatureToken \<Rightarrow> bool" where
  "by_value param \<longleftrightarrow> needs_sample param \<and> \<not> is_any_reference param"

definition avail :: "ObjectData \<Rightarrow> MoveTypeTag \<Rightarrow> SequenceArgument set" where
  "avail d ty = fst ` lookup_set (existing_objects d) ty"

lemma avail_existing: "existing_objects d' = existing_objects d \<Longrightarrow> avail d' = avail d"
  by (simp add: avail_def fun_eq_iff)

lemma fst_lookup_push: "fst ` lookup_set (bt_push k (a, g) m) k' = fst ` lookup_set m k' \<union> (if k' = k then {a} else {})"
  by (auto simp: lookup_set_def bt_get_push split: option.splits)

abbreviation objects_wf :: "ObjectData \<Rightarrow> bool" where
  "objects_wf d \<equiv> bt_wf (existing_objects d)"

definition spends_at :: "ty_args \<Rightarrow> MoveTypeTag \<Rightarrow> SequenceArgument \<times> MoveAbiSignatureToken \<Rightarrow> SequenceArgument set" where
  "spends_at m ty p = (if by_value (snd p) \<and> subst (snd p) (bt_get m) = Some ty then {fst p} else {})"

definition makes_at :: "ty_args \<Rightarrow> MoveTypeTag \<Rightarrow> nat \<Rightarrow> nat \<Rightarrow> nat \<times> MoveAbiSignatureToken \<Rightarrow> SequenceArgument set" where
  "makes_at m ty n i p =
     (if (\<nexists>inner. snd p = TokVector inner) \<and> subst (snd p) (bt_get m) = Some ty \<and> is_struct_tag ty
      then {result_argument n i (fst p)} else {})"

lemma consume_argument_avail:
  assumes "consume_argument m d p = Inr d'" "objects_wf d"
  shows "objects_wf d' \<and> avail d' ty = avail d ty - spends_at m ty p"
proof -
  obtain arg param where p: "p = (arg, param)" by (cases p)
  show ?thesis
  proof (cases "by_value param")
    case True
    with assms(1) obtain t cs where t: "subst param (bt_get m) = Some t" "bt_get (existing_objects d) t = Some cs"
      and e: "existing_objects d' = (if drop_argument arg cs = [] then bt_remove t (existing_objects d)
        else bt_insert t (drop_argument arg cs) (existing_objects d))"
      by (auto simp: p by_value_def consume_argument_eq dest!: settle_argument_existing)
    have "fst ` set (drop_argument arg cs) = fst ` set cs - {arg}" by (force simp: drop_argument_def)
    then have "fst ` lookup_set (existing_objects d') ty
        = fst ` lookup_set (existing_objects d) ty - (if t = ty then {arg} else {})"
      using assms(2) t(2)
      by (cases "drop_argument arg cs = []"; cases "t = ty") (simp_all add: e lookup_set_def bt_get_remove)
    moreover have "objects_wf d'" using assms(2) by (simp add: e bt_wf_insert bt_wf_remove)
    ultimately show ?thesis using True t(1) by (simp add: p avail_def spends_at_def)
  next
    case False
    then have "d' = d" using assms(1) unfolding p consume_argument_eq by_value_def by simp
    with False assms(2) show ?thesis by (simp add: p spends_at_def)
  qed
qed

lemma produce_result_existing:
  assumes "produce_result meta m n i d (j, ret) = Inr d'"
  shows "existing_objects d' = (case subst ret (bt_get m) of
      Some t \<Rightarrow> if (\<nexists>inner. ret = TokVector inner) \<and> is_struct_tag t
        then bt_push t (result_argument n i j, GateOwned) (existing_objects d) else existing_objects d
    | None \<Rightarrow> existing_objects d)"
proof (cases "\<exists>inner. ret = TokVector inner")
  case True
  then obtain inner where r: "ret = TokVector inner" ..
  from assms have "existing_objects d' = existing_objects d" unfolding r produce_result_vector by force
  then show ?thesis by (auto simp: r split: option.splits)
next
  case False
  then obtain t where "subst ret (bt_get m) = Some t"
    "d' = (if is_struct_tag t then produced m (result_argument n i j) t ret d else d)"
    using assms produce_result_other [of ret meta m n i d j d'] by auto
  then show ?thesis using False by simp
qed

lemma produce_result_avail:
  assumes "produce_result meta m n i d p = Inr d'" "objects_wf d"
  shows "objects_wf d' \<and> avail d' ty = avail d ty \<union> makes_at m ty n i p"
proof -
  obtain j ret where p: "p = (j, ret)" by (cases p)
  obtain t where t: "subst ret (bt_get m) = Some t"
    using assms(1) by (auto simp: p produce_result_def bindR_eq_Inr unwrapR_eq_Inr)
  have e: "existing_objects d' = (if (\<nexists>inner. ret = TokVector inner) \<and> is_struct_tag t
      then bt_push t (result_argument n i j, GateOwned) (existing_objects d) else existing_objects d)"
    using produce_result_existing assms(1) t by (fastforce simp: p)
  show ?thesis
  proof (cases "(\<nexists>inner. ret = TokVector inner) \<and> is_struct_tag t")
    case True
    with e assms(2) t show ?thesis by (simp add: p makes_at_def avail_def fst_lookup_push bt_wf_push)
  next
    case False
    then have "existing_objects d' = existing_objects d" unfolding e by (rule if_not_P)
    moreover have "makes_at m ty n i p = {}" using False t by (auto simp: p makes_at_def)
    ultimately show ?thesis using assms(2) by (simp add: avail_def)
  qed
qed

text \<open>The arguments a command uses up and the ones it makes available, by type.\<close>

definition spent :: "Metadata \<Rightarrow> MoveTypeTag \<Rightarrow> MoveSequenceCall \<Rightarrow> SequenceArgument set" where
  "spent meta ty cmd = (case cmd of
     Call mc \<Rightarrow> (case call_function_of meta mc of
       Some f \<Rightarrow> (\<Union>p \<in> set (zip (call_arguments mc) (parameters f)). spends_at (call_ty_args mc) ty p)
     | None \<Rightarrow> {})
   | _ \<Rightarrow> {})"

definition made :: "Metadata \<Rightarrow> MoveTypeTag \<Rightarrow> nat \<times> MoveSequenceCall \<Rightarrow> SequenceArgument set" where
  "made meta ty p = (case snd p of
     Call mc \<Rightarrow> (case call_function_of meta mc of
       Some f \<Rightarrow> (\<Union>q \<in> set (enumerate 0 (return_paramters f)).
         makes_at (call_ty_args mc) ty (length (return_paramters f)) (fst p) q)
     | None \<Rightarrow> {})
   | _ \<Rightarrow> {})"

lemma process_command_avail:
  assumes "process_command meta d (i, cmd) = Inr d'" "objects_wf d"
  shows "objects_wf d' \<and> avail d' ty = (avail d ty - spent meta ty cmd) \<union> made meta ty (i, cmd)"
proof (cases cmd)
  case (Call mc)
  let ?m = "call_ty_args mc"
  from assms Call obtain f d1 where f: "call_function_of meta mc = Some f"
    and c: "foldR (consume_argument ?m) d (zip (call_arguments mc) (parameters f)) = Inr d1"
    and p: "foldR (produce_result meta ?m (length (return_paramters f)) i) d1 (enumerate 0 (return_paramters f)) = Inr d'"
    by (auto simp: process_command_def call_function_of_def res_simps)
  have 1: "objects_wf d1 \<and> avail d1 ty = avail d ty - (\<Union>p \<in> set (zip (call_arguments mc) (parameters f)). spends_at ?m ty p)"
    by (rule foldR_drops [where P = objects_wf and A = "\<lambda>d. avail d ty", OF _ c assms(2)])
      (rule consume_argument_avail)
  have "objects_wf d' \<and> avail d' ty = avail d1 ty \<union> (\<Union>p \<in> set (enumerate 0 (return_paramters f)).
      makes_at ?m ty (length (return_paramters f)) i p)"
    by (rule foldR_adds [where P = objects_wf and A = "\<lambda>d. avail d ty", OF _ p conjunct1 [OF 1]])
      (rule produce_result_avail)
  with 1 f show ?thesis by (simp add: Call spent_def made_def)
qed (use assms in \<open>auto simp: process_command_def spent_def made_def\<close>)

lemma spent_refs: "arg \<in> spent meta ty cmd \<Longrightarrow> result_index arg = Some i \<Longrightarrow> i \<in> command_refs cmd"
  by (auto simp: spent_def spends_at_def command_refs_def split: MoveSequenceCall.splits option.splits if_splits
      dest: set_zip_leftD)

lemma made_index: "arg \<in> made meta ty (i, cmd) \<Longrightarrow> i < 65536 \<Longrightarrow> result_index arg = Some i"
  by (auto simp: made_def makes_at_def result_argument_def unat_as_u16
      split: MoveSequenceCall.splits option.splits if_splits)

definition backward_refs :: "MoveSequenceCall list \<Rightarrow> bool" where
  "backward_refs cmds \<longleftrightarrow> (\<forall>k < length cmds. \<forall>i \<in> command_refs (cmds ! k). i < k)"

lemma backward_refs_snoc: "backward_refs (cs @ [c]) \<longleftrightarrow> backward_refs cs \<and> (\<forall>i \<in> command_refs c. i < length cs)"
  by (auto simp: backward_refs_def nth_append less_Suc_eq)

lemma process_commands_avail:
  assumes "foldR (process_command meta) d (enumerate 0 cs) = Inr d'" "objects_wf d"
    "backward_refs cs" "length cs \<le> 65536"
  shows "objects_wf d' \<and> avail d' ty =
    (avail d ty \<union> (\<Union>p \<in> set (enumerate 0 cs). made meta ty p)) - (\<Union>c \<in> set cs. spent meta ty c)"
  using assms
proof (induction cs arbitrary: d' rule: rev_induct)
  case (snoc c cs)
  let ?n = "length cs" and ?M = "\<Union>p \<in> set (enumerate 0 cs). made meta ty p" and ?S = "\<Union>c \<in> set cs. spent meta ty c"
  from snoc.prems obtain d1 where d1: "foldR (process_command meta) d (enumerate 0 cs) = Inr d1"
    "process_command meta d1 (?n, c) = Inr d'"
    by (auto simp: enumerate_append_eq foldR_append res_simps)
  have IH: "objects_wf d1" "avail d1 ty = (avail d ty \<union> ?M) - ?S"
    using snoc.IH [OF d1(1)] snoc.prems by (auto simp: backward_refs_snoc)
  have "arg \<notin> ?S \<union> spent meta ty c" if "arg \<in> made meta ty (?n, c)" for arg
  proof
    assume "arg \<in> ?S \<union> spent meta ty c"
    then have "arg \<in> (\<Union>c \<in> set (cs @ [c]). spent meta ty c)" by auto
    then obtain k where "k < length (cs @ [c])" "arg \<in> spent meta ty ((cs @ [c]) ! k)"
      by (metis UN_E in_set_conv_nth)
    moreover have "result_index arg = Some ?n" using made_index that snoc.prems(4) by simp
    ultimately have "?n \<in> command_refs ((cs @ [c]) ! k)" by (simp add: spent_refs)
    with snoc.prems(3) \<open>k < length (cs @ [c])\<close> show False by (force simp: backward_refs_def)
  qed
  then have "made meta ty (?n, c) \<inter> (?S \<union> spent meta ty c) = {}" by blast
  moreover have "objects_wf d' \<and> avail d' ty = (((avail d ty \<union> ?M) - ?S) - spent meta ty c) \<union> made meta ty (?n, c)"
    using process_command_avail [OF d1(2) IH(1), of ty] by (simp add: IH(2))
  ultimately show ?case by (simp add: enumerate_append_eq) blast
qed simp

text \<open>The object inputs of a sequence with the type the store gives them.\<close>

definition input_objects :: "StoreInfo \<Rightarrow> MoveTypeTag \<Rightarrow> nat \<times> InputArgument \<Rightarrow> SequenceArgument set" where
  "input_objects env ty p = (case snd p of
     InObject _ obj \<Rightarrow> (case get_move_object_info env (SuiObjectInputArgument_id obj) of
        Inr info \<Rightarrow> if info_ty info = ty then {Input (as_u16 (fst p))} else {}
      | Inl _ \<Rightarrow> {})
   | _ \<Rightarrow> {})"

lemma collect_input_object:
  assumes "collect_input env d (i, InObject t obj) = Inr d'"
  obtains info gate where "get_move_object_info env (SuiObjectInputArgument_id obj) = Inr info"
    "owner_gate (info_owner info) = Inr gate"
    "existing_objects d' = bt_push (info_ty info) (Input (as_u16 i), gate) (existing_objects d)"
    "used_object_ids d' = used_object_ids d @ [SuiObjectInputArgument_id obj]"
  using assms unfolding collect_input_def
  by (cases obj) (auto simp: res_simps)

lemma collect_input_avail:
  assumes "collect_input env d p = Inr d'" "objects_wf d"
  shows "objects_wf d' \<and> avail d' ty = avail d ty \<union> input_objects env ty p"
proof (cases "\<exists>t obj. snd p = InObject t obj")
  case True
  then obtain i t obj where p: "p = (i, InObject t obj)" by (cases p) auto
  from assms(1) obtain info gate where "get_move_object_info env (SuiObjectInputArgument_id obj) = Inr info"
    "existing_objects d' = bt_push (info_ty info) (Input (as_u16 i), gate) (existing_objects d)"
    unfolding p by (rule collect_input_object)
  with assms(2) show ?thesis by (simp add: p input_objects_def avail_def fst_lookup_push bt_wf_push)
next
  case False
  then have "d' = d" using assms(1) by (cases p) (auto simp: collect_input_def split: InputArgument.splits)
  with False assms(2) show ?thesis by (auto simp: input_objects_def split: InputArgument.splits)
qed

text \<open>
  C5: the objects a sequence leaves available are exactly its object inputs and the structures its
  calls return, less the ones a call takes by value; and its hot potatoes of a type, with those that
  calls take, are as many as the calls make. Whenever the bookkeeping does not panic this holds for
  every type, for sequences whose commands refer to earlier results.
\<close>
theorem from_ptb_exact:
  assumes "from_ptb env self ptb = Inr d" "commands ptb \<noteq> []" "backward_refs (commands ptb)"
    "length (commands ptb) \<le> 65536"
  shows "fst ` lookup_set (existing_objects d) ty =
      ((\<Union>p \<in> set (enumerate 0 (inputs ptb)). input_objects env ty p)
        \<union> (\<Union>p \<in> set (enumerate 0 (commands ptb)). made (fm_base self) ty p))
      - (\<Union>c \<in> set (commands ptb). spent (fm_base self) ty c)
    \<and> count_list (hot_potatoes d) ty + sum_list (map (potatoes_taken (fm_base self) ty) (commands ptb))
      = sum_list (map (potatoes_made (fm_base self) ty) (commands ptb))"
proof -
  let ?start = "ObjectData_new\<lparr>used_object_ids := [gas_id self]\<rparr>" and ?B = "fm_base self"
  from assms(1,2) obtain d0 where d0: "foldR (collect_input env) ?start (enumerate 0 (inputs ptb)) = Inr d0"
    and d: "foldR (process_command ?B) d0 (enumerate 0 (commands ptb)) = Inr d"
    by (auto simp: from_ptb_def Let_def res_simps)
  have start: "objects_wf ?start" "avail ?start ty = {}"
    by (simp_all add: ObjectData_new_def avail_def lookup_set_def)
  have "objects_wf d0 \<and> avail d0 ty = avail ?start ty \<union> (\<Union>p \<in> set (enumerate 0 (inputs ptb)). input_objects env ty p)"
    by (rule foldR_adds [where P = objects_wf and A = "\<lambda>d. avail d ty", OF _ d0 start(1)]) (rule collect_input_avail)
  with process_commands_avail [OF d _ assms(3,4), of ty] start(2)
  have "avail d ty = ((\<Union>p \<in> set (enumerate 0 (inputs ptb)). input_objects env ty p)
      \<union> (\<Union>p \<in> set (enumerate 0 (commands ptb)). made ?B ty p)) - (\<Union>c \<in> set (commands ptb). spent ?B ty c)"
    by simp
  moreover have "hot_potatoes d0 = []"
    using foldR_invariant [where P = "\<lambda>d. hot_potatoes d = []", OF _ _ d0] collect_input_potatoes
    by (simp add: ObjectData_new_def)
  moreover have "potatoes ty d + sum_list (map (\<lambda>p. potatoes_taken ?B ty (snd p)) (enumerate 0 (commands ptb)))
      = potatoes ty d0 + sum_list (map (\<lambda>p. potatoes_made ?B ty (snd p)) (enumerate 0 (commands ptb)))"
    by (rule foldR_balance [where measured = "potatoes ty", OF _ d]) (metis process_command_count prod.collapse)
  moreover have "map (\<lambda>p. g (snd p)) (enumerate 0 (commands ptb)) = map g (commands ptb)" for g :: "_ \<Rightarrow> nat"
    using map_map [of g snd "enumerate 0 (commands ptb)"] by (simp add: comp_def)
  ultimately show ?thesis by (simp add: avail_def)
qed

section \<open>Every argument is available once\<close>

definition object_args :: "object_map \<Rightarrow> SequenceArgument set" where
  "object_args objs = (\<Union>ty. fst ` lookup_set objs ty)"

definition unique_objects :: "object_map \<Rightarrow> bool" where
  "unique_objects objs \<longleftrightarrow> bt_wf objs \<and> (\<forall>ty cs. bt_get objs ty = Some cs \<longrightarrow> distinct (map fst cs))
     \<and> (\<forall>t u. t \<noteq> u \<longrightarrow> fst ` lookup_set objs t \<inter> fst ` lookup_set objs u = {})"

lemma unique_push:
  assumes "unique_objects objs" "a \<notin> object_args objs"
  shows "unique_objects (bt_push ty (a, g) objs)" "object_args (bt_push ty (a, g) objs) = insert a (object_args objs)"
proof -
  show "object_args (bt_push ty (a, g) objs) = insert a (object_args objs)"
    by (auto simp: object_args_def fst_lookup_push split: if_splits)
  have "distinct (map fst cs)" if "bt_get (bt_push ty (a, g) objs) t = Some cs" for t cs
    using assms that
    by (cases "bt_get objs ty"; cases "t = ty")
      (auto simp: unique_objects_def object_args_def bt_get_push lookup_set_def image_iff split: option.splits)
  moreover have "fst ` lookup_set (bt_push ty (a, g) objs) t \<inter> fst ` lookup_set (bt_push ty (a, g) objs) u = {}"
    if "t \<noteq> u" for t u
    using assms that unfolding fst_lookup_push unique_objects_def object_args_def by (cases "t = ty"; cases "u = ty") auto
  ultimately show "unique_objects (bt_push ty (a, g) objs)"
    using assms(1) by (simp add: unique_objects_def bt_wf_push)
qed

text \<open>Replacing the objects of a type by some of them.\<close>

lemma unique_shrink:
  assumes "unique_objects objs" "bt_get objs ty = Some cs" "bt_wf objs'"
    "bt_get objs' = (bt_get objs)(ty := ls)" "\<forall>cs'. ls = Some cs' \<longrightarrow> distinct (map fst cs') \<and> fst ` set cs' \<subseteq> fst ` set cs"
  shows "unique_objects objs'" "object_args objs' \<subseteq> object_args objs"
proof -
  have sub: "fst ` lookup_set objs' t \<subseteq> fst ` lookup_set objs t" for t
    using assms(2,5) by (cases ls) (auto simp: lookup_set_def assms(4))
  then show "object_args objs' \<subseteq> object_args objs" unfolding object_args_def by blast
  have "distinct (map fst cs')" if "bt_get objs' t = Some cs'" for t cs'
    using that assms(1,5) by (auto simp: assms(4) unique_objects_def split: if_splits)
  moreover have "fst ` lookup_set objs' t \<inter> fst ` lookup_set objs' u = {}" if "t \<noteq> u" for t u
  proof -
    have "fst ` lookup_set objs t \<inter> fst ` lookup_set objs u = {}" using assms(1) that by (simp add: unique_objects_def)
    then show ?thesis using sub [of t] sub [of u] by blast
  qed
  ultimately show "unique_objects objs'" using assms(3) by (simp add: unique_objects_def)
qed

lemma consume_argument_unique:
  assumes "consume_argument m d p = Inr d'" "unique_objects (existing_objects d)"
  shows "unique_objects (existing_objects d')" "object_args (existing_objects d') \<subseteq> object_args (existing_objects d)"
proof -
  obtain arg param where p: "p = (arg, param)" by (cases p)
  have "unique_objects (existing_objects d') \<and> object_args (existing_objects d') \<subseteq> object_args (existing_objects d)"
  proof (cases "by_value param")
    case True
    with assms(1) obtain t cs where t: "bt_get (existing_objects d) t = Some cs"
      and e: "existing_objects d' = (if drop_argument arg cs = [] then bt_remove t (existing_objects d)
        else bt_insert t (drop_argument arg cs) (existing_objects d))"
      by (auto simp: p by_value_def consume_argument_eq dest!: settle_argument_existing)
    let ?ls = "if drop_argument arg cs = [] then None else Some (drop_argument arg cs)"
    have wf: "bt_wf (existing_objects d)" "distinct (map fst cs)" using assms(2) t by (auto simp: unique_objects_def)
    have get: "bt_get (existing_objects d') = (bt_get (existing_objects d))(t := ?ls)"
      using wf(1) by (auto simp: e bt_get_remove)
    have wf': "bt_wf (existing_objects d')" using wf(1) by (simp add: e bt_wf_remove bt_wf_insert)
    have "\<forall>cs'. ?ls = Some cs' \<longrightarrow> distinct (map fst cs') \<and> fst ` set cs' \<subseteq> fst ` set cs"
      using wf(2) by (auto simp: drop_argument_def distinct_map_filter)
    from unique_shrink [OF assms(2) t wf' get this] show ?thesis by blast
  next
    case False
    then have "d' = d" using assms(1) unfolding p consume_argument_eq by_value_def by simp
    with assms(2) show ?thesis by simp
  qed
  then show "unique_objects (existing_objects d')" "object_args (existing_objects d') \<subseteq> object_args (existing_objects d)" by simp_all
qed

lemma result_argument_index: "i < 65536 \<Longrightarrow> result_index (result_argument n i j) = Some i"
  by (simp add: result_argument_def unat_as_u16)

lemma result_argument_inject:
  "j < n \<Longrightarrow> j' < n \<Longrightarrow> n \<le> 65536 \<Longrightarrow> result_argument n i j = result_argument n i j' \<Longrightarrow> j = j'"
  by (auto simp: result_argument_def unat_as_u16 word_unat_eq_iff split: if_splits)

text \<open>Where the arguments of the available objects come from after \<open>n\<close> commands.\<close>

definition arg_origin :: "nat \<Rightarrow> nat \<Rightarrow> SequenceArgument \<Rightarrow> bool" where
  "arg_origin len n a \<longleftrightarrow> (\<exists>q < len. a = Input (as_u16 q)) \<or> (\<exists>i < n. result_index a = Some i)"

lemma arg_origin_fresh: "i < 65536 \<Longrightarrow> n \<le> i \<Longrightarrow> \<not> arg_origin len n (result_argument k i j)"
  by (auto simp: arg_origin_def result_argument_index) (auto simp: result_argument_def split: if_splits)

lemma produce_results_unique:
  assumes "foldR (produce_result meta m (length rets) i) d (enumerate 0 rets) = Inr d'" "i < 65536" "length rets \<le> 65536"
    "unique_objects (existing_objects d)" "\<forall>a \<in> object_args (existing_objects d). arg_origin len i a"
  shows "unique_objects (existing_objects d') \<and> (\<forall>a \<in> object_args (existing_objects d'). arg_origin len (Suc i) a)"
proof -
  let ?P = "\<lambda>j d. unique_objects (existing_objects d) \<and> (\<forall>a \<in> object_args (existing_objects d).
    arg_origin len i a \<or> (\<exists>j' < j. a = result_argument (length rets) i j'))"
  have "?P (length rets) d'"
  proof (rule foldR_enumerate_invariant [where P = ?P, OF _ assms(1)])
    fix j s s' assume j: "j < length rets" and P: "?P j s"
      and step: "produce_result meta m (length rets) i s (j, rets ! j) = Inr s'"
    let ?a = "result_argument (length rets) i j"
    have new: "?a \<notin> object_args (existing_objects s)"
    proof
      assume "?a \<in> object_args (existing_objects s)"
      with P arg_origin_fresh [OF assms(2)] obtain j' where "j' < j" "?a = result_argument (length rets) i j'" by blast
      with result_argument_inject [of j "length rets" j' i] j assms(3) show False by simp
    qed
    from produce_result_existing [OF step] have "existing_objects s' = existing_objects s
        \<or> (\<exists>t. existing_objects s' = bt_push t (?a, GateOwned) (existing_objects s))"
      by (auto split: option.splits if_splits)
    then show "?P (Suc j) s'"
    proof
      assume "\<exists>t. existing_objects s' = bt_push t (?a, GateOwned) (existing_objects s)"
      then obtain t where "existing_objects s' = bt_push t (?a, GateOwned) (existing_objects s)" ..
      with unique_push [OF conjunct1 [OF P] new, of t GateOwned] P show ?thesis by (auto simp: less_Suc_eq)
    qed (use P in \<open>auto simp: less_Suc_eq\<close>)
  qed (use assms in auto)
  moreover have "arg_origin len (Suc i) a" if "arg_origin len i a \<or> (\<exists>j. a = result_argument (length rets) i j)" for a
    using that result_argument_index [OF assms(2)] by (auto simp: arg_origin_def less_Suc_eq)
  ultimately show ?thesis by blast
qed

definition results_fit :: "Metadata \<Rightarrow> MoveSequenceCall list \<Rightarrow> bool" where
  "results_fit meta cmds \<longleftrightarrow> length cmds \<le> 65536 \<and> (\<forall>mc f. Call mc \<in> set cmds \<longrightarrow> call_function_of meta mc = Some f \<longrightarrow>
     length (return_paramters f) \<le> 65536)"

lemma from_ptb_unique:
  assumes "from_ptb env self ptb = Inr d" "results_fit (fm_base self) (commands ptb)" "length (inputs ptb) \<le> 65536"
  shows "unique_objects (existing_objects d)
    \<and> (\<forall>a \<in> object_args (existing_objects d). arg_origin (length (inputs ptb)) (length (commands ptb)) a)"
proof (cases "commands ptb = []")
  case True
  with assms(1) show ?thesis
    by (auto simp: from_ptb_def ObjectData_new_def Let_def unique_objects_def object_args_def lookup_set_def)
next
  case False
  let ?start = "ObjectData_new\<lparr>used_object_ids := [gas_id self]\<rparr>" and ?n = "length (inputs ptb)"
  let ?Q = "\<lambda>k d. unique_objects (existing_objects d) \<and> (\<forall>a \<in> object_args (existing_objects d). arg_origin ?n k a)"
  let ?I = "\<lambda>k d. unique_objects (existing_objects d) \<and> (\<forall>a \<in> object_args (existing_objects d). \<exists>q < k. a = Input (as_u16 q))"
  from assms(1) False obtain d0 where d0: "foldR (collect_input env) ?start (enumerate 0 (inputs ptb)) = Inr d0"
    and d: "foldR (process_command (fm_base self)) d0 (enumerate 0 (commands ptb)) = Inr d"
    by (auto simp: from_ptb_def Let_def bindR_eq_Inr)
  have "?I ?n d0"
  proof (rule foldR_enumerate_invariant [where P = ?I, OF _ d0])
    fix k s s' assume k: "k < ?n" and I: "?I k s" and step: "collect_input env s (k, inputs ptb ! k) = Inr s'"
    show "?I (Suc k) s'"
    proof (cases "\<exists>t obj. inputs ptb ! k = InObject t obj")
      case True
      then obtain t obj where "inputs ptb ! k = InObject t obj" by blast
      from step [unfolded this] obtain info :: MoveObjectInfo and gate where
        e: "existing_objects s' = bt_push (info_ty info) (Input (as_u16 k), gate) (existing_objects s)"
        by (rule collect_input_object) blast
      have "Input (as_u16 k) \<notin> object_args (existing_objects s)"
        using I k assms(3) by (auto simp: word_unat_eq_iff unat_as_u16 dest!: bspec)
      from unique_push [OF conjunct1 [OF I] this, of "info_ty info" gate] I show ?thesis by (auto simp: e less_Suc_eq)
    next
      case False
      then have "s' = s" using step by (auto simp: collect_input_def split: InputArgument.splits)
      with I show ?thesis by (auto simp: less_Suc_eq)
    qed
  qed (auto simp: ObjectData_new_def unique_objects_def object_args_def lookup_set_def)
  then have "?Q 0 d0" by (auto simp: arg_origin_def)
  with d show ?thesis
  proof (rule foldR_enumerate_invariant [where P = ?Q, rotated])
    fix k s s' assume k: "k < length (commands ptb)" and Q: "?Q k s"
      and step: "process_command (fm_base self) s (k, commands ptb ! k) = Inr s'"
    show "?Q (Suc k) s'"
    proof (cases "commands ptb ! k")
      case (Call mc)
      let ?m = "call_ty_args mc"
      from step Call obtain f s1 where f: "call_function_of (fm_base self) mc = Some f"
        and c: "foldR (consume_argument ?m) s (zip (call_arguments mc) (parameters f)) = Inr s1"
        and p: "foldR (produce_result (fm_base self) ?m (length (return_paramters f)) k) s1 (enumerate 0 (return_paramters f)) = Inr s'"
        by (auto simp: process_command_def call_function_of_def res_simps)
      have "?Q k s1"
        by (rule foldR_invariant_set [where P = "?Q k", OF _ c Q]) (use consume_argument_unique in blast)
      moreover have "Call mc \<in> set (commands ptb)" using k Call by (metis nth_mem)
      then have "k < 65536" "length (return_paramters f) \<le> 65536"
        using assms(2) f k unfolding results_fit_def by (linarith, blast)
      ultimately show ?thesis using produce_results_unique [OF p] by blast
    qed (use step Q in \<open>auto simp: process_command_def arg_origin_def less_Suc_eq\<close>)
  qed
qed

section \<open>An example\<close>

definition bank_struct :: "string \<Rightarrow> MoveAbility \<Rightarrow> MoveStructTypeParameters list \<Rightarrow> MoveStructHandle" where
  "bank_struct n a ps = \<lparr>handle_module_id = \<lparr>module_address = 7, mod_name = ''bank''\<rparr>, struct_name = n,
     abilities = a, type_parameters = ps\<rparr>"

definition bank_function :: "string \<Rightarrow> MoveAbiSignatureToken list \<Rightarrow> MoveAbiSignatureToken list \<Rightarrow> MoveFunctionAbi" where
  "bank_function n ps rs = \<lparr>fn_name = n, parameters = ps, return_paramters = rs,
     fn_type_parameters = [], visibility = Public, is_entry = False\<rparr>"

definition bank_pool :: MoveTypeTag where
  "bank_pool = TagStruct (MoveStructTag 7 ''bank'' ''Pool'' [])"

definition bank_receipt :: MoveTypeTag where
  "bank_receipt = TagStruct (MoveStructTag 7 ''bank'' ''Receipt'' [])"

definition bank_coin :: MoveTypeTag where
  "bank_coin = TagStruct (MoveStructTag 7 ''bank'' ''Coin'' [TagU64])"

definition receipt_token :: MoveAbiSignatureToken where
  "receipt_token = TokStruct (bank_struct ''Receipt'' 0 [])"

definition bank_base :: Metadata where
  "bank_base = \<lparr>md_type_graph = MoveTypeGraph_new, md_abis = [],
     md_testing_abis = [(7, \<lparr>package_id = 7, modules = [\<lparr>abi_module_id = \<lparr>module_address = 7, mod_name = ''bank''\<rparr>,
       abi_structs = [], abi_functions =
         [bank_function ''lend'' [TokMutableReference (TokStruct (bank_struct ''Pool'' 8 []))] [receipt_token],
          bank_function ''repay'' [receipt_token] []]\<rparr>]\<rparr>)],
     md_types_pool = [(bank_coin, [6]), (bank_pool, [5])], md_module_address_to_package = [],
     md_ability_to_type_tag = [], md_function_name_to_idents = [], md_structs_mapping = []\<rparr>"

definition bank_meta :: "unit FuzzMetadata" where
  "bank_meta = demo_meta\<lparr>fm_base := bank_base\<rparr>"

definition bank_object :: "MoveAddress \<Rightarrow> MoveTypeTag \<Rightarrow> MoveOwner \<Rightarrow> MoveObjectInfo" where
  "bank_object a t w = \<lparr>info_id = a, info_ty = t, info_owner = w, info_version = 1, info_digest = 0\<rparr>"

definition bank_env :: StoreInfo where
  "bank_env = \<lparr>list_objects = Inr [5, 6], get_version = (\<lambda>_. Inr 1),
     get_move_object_info = (\<lambda>a. if a = 5 then Inr (bank_object 5 bank_pool (Shared 1))
       else if a = 6 then Inr (bank_object 6 bank_coin (AddressOwner 1)) else Inl (Any ''missing'')),
     get_package_info = (\<lambda>_. Inr None)\<rparr>"

definition bank_call :: "string \<Rightarrow> SequenceArgument list \<Rightarrow> MoveSequenceCall" where
  "bank_call f as = Call \<lparr>call_module_id = 7, call_module_name = ''bank'', call_function = f,
     call_type_arguments = [], call_arguments = as\<rparr>"

definition bank_sequence :: MoveSequence where
  "bank_sequence = \<lparr>inputs = [InObject bank_pool (SharedObject 5 1 True)],
     commands = [bank_call ''lend'' [Input 0], bank_call ''lend'' [Input 0], bank_call ''repay'' [Result 0]]\<rparr>"

definition bank_data :: ObjectData where
  "bank_data = \<lparr>existing_objects = [(bank_pool, [(Input 0, GateShared)]), (bank_receipt, [(Result 1, GateOwned)])],
     key_store_objects = [], hot_potatoes = [bank_receipt], used_object_ids = [3, 5], balances = []\<rparr>"

lemma bank_from_ptb: "from_ptb bank_env bank_meta bank_sequence = Inr bank_data"
  by code_simp

lemma bank_functions:
  "call_function_of bank_base \<lparr>call_module_id = 7, call_module_name = ''bank'', call_function = ''lend'',
     call_type_arguments = [], call_arguments = as\<rparr>
   = Some (bank_function ''lend'' [TokMutableReference (TokStruct (bank_struct ''Pool'' 8 []))] [receipt_token])"
  "call_function_of bank_base \<lparr>call_module_id = 7, call_module_name = ''bank'', call_function = ''repay'',
     call_type_arguments = [], call_arguments = as\<rparr> = Some (bank_function ''repay'' [receipt_token] [])"
  by (simp_all add: call_function_of_def get_function_def get_package_metadata_def resolved_package_def find_module_def
      bank_base_def bank_function_def)

lemma bank_sequence_ok: "backward_refs (commands bank_sequence)" "results_fit bank_base (commands bank_sequence)"
  by (simp add: backward_refs_def bank_sequence_def bank_call_def command_refs_def All_less_Suc)
    (auto simp: results_fit_def bank_sequence_def bank_call_def bank_functions bank_function_def)

theorem from_ptb_exact_witness:
  "fst ` lookup_set (existing_objects bank_data) bank_receipt =
      ((\<Union>p \<in> set (enumerate 0 (inputs bank_sequence)). input_objects bank_env bank_receipt p)
        \<union> (\<Union>p \<in> set (enumerate 0 (commands bank_sequence)). made bank_base bank_receipt p))
      - (\<Union>c \<in> set (commands bank_sequence). spent bank_base bank_receipt c)
    \<and> 1 + sum_list (map (potatoes_taken bank_base bank_receipt) (commands bank_sequence))
      = sum_list (map (potatoes_made bank_base bank_receipt) (commands bank_sequence))"
proof -
  have base: "fm_base bank_meta = bank_base" by (simp add: bank_meta_def)
  have "count_list (hot_potatoes bank_data) bank_receipt = 1" by (simp add: bank_data_def)
  with from_ptb_exact [OF bank_from_ptb _ bank_sequence_ok(1), of bank_receipt] show ?thesis
    by (simp add: base) (simp add: bank_sequence_def)
qed

end
