(* ===== verification/Arg_Construction.thy ===== *)
theory Arg_Construction
  imports Object_Data
begin

text \<open>
  The choice of arguments for a new call in \<open>movy-fuzz/src/mutators/object_data.rs\<close>.
  \<open>try_construct_args\<close> infers type arguments by matching the object parameters with the types of the
  available objects and of the objects of the store, then picks an argument for each parameter.
  Random numbers are threaded, and the cartesian product of \<open>itertools\<close> is the parameter \<open>product\<close>,
  with the contract \<open>product_ok\<close>.
\<close>

section \<open>Gates\<close>

definition owner_matches_gate :: "MoveOwner \<Rightarrow> Gate \<Rightarrow> MoveAddress \<Rightarrow> bool" where
  "owner_matches_gate owner gate current_sender =
     (case owner of
        AddressOwner addr \<Rightarrow> addr = current_sender
      | Shared _ \<Rightarrow> True
      | Immutable \<Rightarrow> gate = GateImmutable
      | _ \<Rightarrow> False)"

definition available_objects :: "StoreInfo \<Rightarrow> 'm FuzzMetadata \<Rightarrow> MoveTypeTag \<Rightarrow> Gate \<Rightarrow> MoveAddress list" where
  "available_objects env self ty gate =
     (case bt_get (md_types_pool (fm_base self)) ty of
        Some ids \<Rightarrow>
          List.map_filter (\<lambda>(oid, info). if owner_matches_gate (info_owner info) gate (attacker self) then Some oid else None)
            (List.map_filter (\<lambda>oid. case get_move_object_info env oid of Inr info \<Rightarrow> Some (oid, info) | Inl _ \<Rightarrow> None) ids)
      | None \<Rightarrow> [])"

datatype ConstructResult =
    ConstructOk "SequenceArgument list" "MoveTypeTag list" "InputArgument list"
  | PartialFound "SequenceArgument option list" ty_args "InputArgument list"
  | Unsolvable

section \<open>Type arguments from candidates\<close>

definition insert_generic :: "ty_args \<Rightarrow> u16 \<times> MoveTypeTag \<Rightarrow> ty_args option" where
  "insert_generic m p = (case p of (index, ty_tag) \<Rightarrow>
     (case bt_get m index of
        Some existing_ty_tag \<Rightarrow> if existing_ty_tag \<noteq> ty_tag then None else Some m
      | None \<Rightarrow> Some (bt_insert index ty_tag m)))"

definition intersect_generics :: "ty_args list \<Rightarrow> ty_args option" where
  "intersect_generics type_args = foldO (foldO insert_generic) [] type_args"

definition get_ty_args_candidates ::
  "(ty_args list list \<Rightarrow> ty_args list list) \<Rightarrow> ty_args list list \<Rightarrow> ty_args list" where
  "get_ty_args_candidates product rows = List.map_filter intersect_generics (product rows)"

definition gen_type_tag_by_abilities ::
  "'r Rand \<Rightarrow> 'm FuzzMetadata \<Rightarrow> MoveAbility \<Rightarrow> 'r \<Rightarrow> (MoveTypeTag \<times> 'r) res" where
  "gen_type_tag_by_abilities R self wanted r =
     (case bt_get (md_ability_to_type_tag (fm_base self)) wanted of
        Some type_tags \<Rightarrow>
          if type_tags = [] then Inr (TagU64, r)
          else (case below_or_zero R (length type_tags) r of (i, r) \<Rightarrow>
                  bindR (indexR type_tags i) (\<lambda>t. Inr (t, r)))
      | None \<Rightarrow> Inr (TagU64, r))"

definition get_type_tag_ability :: "Metadata \<Rightarrow> MoveTypeTag \<Rightarrow> MoveAbility res" where
  "get_type_tag_ability meta type_tag =
     (case type_tag of
        TagSigner \<Rightarrow> Inr DROP
      | TagStruct tag \<Rightarrow> unwrapR ''Struct not found in module''
          (get_abilities meta (tag_address tag) (tag_module tag) (tag_name tag))
      | _ \<Rightarrow> Inr PRIMITIVES)"

fun anyR :: "('a \<Rightarrow> bool res) \<Rightarrow> 'a list \<Rightarrow> bool res" where
  "anyR P [] = Inr False"
| "anyR P (x # xs) = bindR (P x) (\<lambda>b. if b then Inr True else anyR P xs)"

definition lacks_abilities :: "Metadata \<Rightarrow> MoveAbility list \<Rightarrow> u16 \<times> MoveTypeTag \<Rightarrow> bool res" where
  "lacks_abilities meta function_abilities p = (case p of (idx, ty_tag) \<Rightarrow>
     bindR (get_type_tag_ability meta ty_tag) (\<lambda>ability_set.
     bindR (indexR function_abilities (unat idx)) (\<lambda>a. Inr (\<not> is_subset_of a ability_set))))"

definition sample_db_type ::
  "StoreInfo \<Rightarrow> 'm FuzzMetadata \<Rightarrow> MoveAbiSignatureToken \<Rightarrow> MoveAbility list \<Rightarrow> Gate
     \<Rightarrow> ty_args list \<Rightarrow> MoveTypeTag \<Rightarrow> ty_args list res" where
  "sample_db_type env self ty function_abilities gate acc db_ty_tag =
     (case extract_ty_args ty db_ty_tag of
        None \<Rightarrow> Inr acc
      | Some tas \<Rightarrow>
          bindR (anyR (lacks_abilities (fm_base self) function_abilities) tas) (\<lambda>skip.
          if skip then Inr acc
          else if \<not> is_struct_tag db_ty_tag then Inl (Panic ''Expected a struct type tag'')
          else (case bt_get (md_types_pool (fm_base self)) db_ty_tag of
                  None \<Rightarrow> Inr acc
                | Some addresses \<Rightarrow>
                    if list_ex (\<lambda>addr. case get_move_object_info env addr of
                         Inr info \<Rightarrow> owner_matches_gate (info_owner info) gate (attacker self) | Inl _ \<Rightarrow> False) addresses
                    then Inr (acc @ [tas]) else Inr acc)))"

definition try_sample_object_from_db ::
  "StoreInfo \<Rightarrow> 'm FuzzMetadata \<Rightarrow> MoveAbiSignatureToken \<Rightarrow> MoveTypeTag list \<Rightarrow> MoveAbility list \<Rightarrow> Gate
     \<Rightarrow> ty_args list res" where
  "try_sample_object_from_db env self ty db_type_tags function_abilities gate =
     foldR (sample_db_type env self ty function_abilities gate) [] db_type_tags"

definition gate_excludes :: "Gate \<Rightarrow> (SequenceArgument \<times> Gate) list \<Rightarrow> bool" where
  "gate_excludes gate candidates =
     (case gate of
        GateOwned \<Rightarrow> list_all (\<lambda>(_, g). g \<noteq> GateOwned) candidates
      | GateImmutable \<Rightarrow> False
      | GateShared \<Rightarrow> list_all (\<lambda>(_, g). g = GateImmutable) candidates)"

definition sample_cached_type ::
  "Metadata \<Rightarrow> MoveAbiSignatureToken \<Rightarrow> MoveAbility list \<Rightarrow> Gate
     \<Rightarrow> ty_args list \<Rightarrow> MoveTypeTag \<times> (SequenceArgument \<times> Gate) list \<Rightarrow> ty_args list res" where
  "sample_cached_type meta ty function_abilities gate acc p = (case p of (db_ty_tag, candidates) \<Rightarrow>
     (case extract_ty_args ty db_ty_tag of
        None \<Rightarrow> Inr acc
      | Some tas \<Rightarrow>
          bindR (anyR (lacks_abilities meta function_abilities) tas) (\<lambda>skip.
          if skip then Inr acc
          else if \<not> is_struct_tag db_ty_tag then Inl (Panic ''Expected a struct type tag'')
          else if gate_excludes gate candidates then Inr acc
          else Inr (acc @ [tas]))))"

definition try_sample_object_from_cache ::
  "Metadata \<Rightarrow> object_map \<Rightarrow> MoveAbiSignatureToken \<Rightarrow> MoveAbility list \<Rightarrow> Gate \<Rightarrow> ty_args list res" where
  "try_sample_object_from_cache meta objects ty function_abilities gate =
     foldR (sample_cached_type meta ty function_abilities gate) [] objects"

section \<open>Arguments from the store\<close>

text \<open>The object parameters of a function with what each may take.\<close>

definition object_param :: "nat \<times> MoveAbiSignatureToken \<Rightarrow> (u16 \<times> MoveAbiSignatureToken \<times> Gate) option" where
  "object_param p = (case p of (i, param) \<Rightarrow>
     if is_tx_context param then None
     else case param of
       TokStruct _ \<Rightarrow> Some (as_u16 i, param, GateOwned)
     | TokStructInstantiation _ _ \<Rightarrow> Some (as_u16 i, param, GateOwned)
     | TokReference b \<Rightarrow> if is_struct b then Some (as_u16 i, b, GateImmutable) else None
     | TokMutableReference b \<Rightarrow> if is_struct b then Some (as_u16 i, b, GateShared) else None
     | _ \<Rightarrow> None)"

text \<open>Rows of candidates; an empty one ends the search.\<close>

fun candidate_rows :: "('p \<Rightarrow> ty_args list res) \<Rightarrow> 'p list \<Rightarrow> ty_args list list option res" where
  "candidate_rows f [] = Inr (Some [])"
| "candidate_rows f (p # ps) =
     bindR (f p) (\<lambda>row. if row = [] then Inr None
       else bindR (candidate_rows f ps) (\<lambda>rows. Inr (map_option ((#) row) rows)))"

definition fill_ty_arg ::
  "'r Rand \<Rightarrow> 'm FuzzMetadata \<Rightarrow> ty_args \<Rightarrow> 'r \<Rightarrow> nat \<times> MoveAbility \<Rightarrow> ('r \<times> MoveTypeTag) res" where
  "fill_ty_arg R self ty_args_map r p = (case p of (i, a) \<Rightarrow>
     (case bt_get ty_args_map (as_u16 i) of
        Some ty \<Rightarrow> Inr (r, ty)
      | None \<Rightarrow> bindR (gen_type_tag_by_abilities R self a r) (\<lambda>(ty, r). Inr (r, ty))))"

definition object_candidates ::
  "StoreInfo \<Rightarrow> 'm FuzzMetadata \<Rightarrow> ty_args \<Rightarrow> (u16, MoveAddress list) btree
     \<Rightarrow> u16 \<times> MoveAbiSignatureToken \<times> Gate \<Rightarrow> (u16, MoveAddress list) btree res" where
  "object_candidates env self ty_args_map acc p = (case p of (i, param, gate) \<Rightarrow>
     bindR (unwrapR ''Failed to substitute type arguments'' (subst param (bt_get ty_args_map))) (\<lambda>ty.
     if \<not> is_struct_tag ty then Inl (Panic ''Expected a struct type tag for parameter'')
     else Inr (bt_insert i (available_objects env self ty gate) acc)))"

definition pick_object ::
  "'r Rand \<Rightarrow> 'r \<Rightarrow> u16 \<times> MoveAddress list \<Rightarrow> ('r \<times> u16 \<times> MoveAddress) res" where
  "pick_object R r p = (case p of (index, ids) \<Rightarrow>
     if ids = [] then Inl (Panic ''No objects found for parameter'')
     else (case below_or_zero R (length ids) r of (k, r) \<Rightarrow> bindR (indexR ids k) (\<lambda>oid. Inr (r, index, oid))))"

definition try_construct_args_from_db ::
  "'r Rand \<Rightarrow> (ty_args list list \<Rightarrow> ty_args list list) \<Rightarrow> StoreInfo \<Rightarrow> 'm FuzzMetadata \<Rightarrow> MoveCall \<Rightarrow> 'r
     \<Rightarrow> (((u16, MoveAddress) btree \<times> MoveTypeTag list) option \<times> 'r) res" where
  "try_construct_args_from_db R product env self movecall r =
     bindR (unwrapR ''called `Option::unwrap()` on a `None` value''
             (get_function (fm_base self) (call_module_id movecall) (call_module_name movecall) (call_function movecall))) (\<lambda>f.
     let db_type_tags = map fst (md_types_pool (fm_base self));
         function_abilities = fn_type_parameters f;
         param_with_gate = List.map_filter object_param (enumerate 0 (parameters f)) in
     bindR (candidate_rows (\<lambda>(_, param, gate).
              try_sample_object_from_db env self param db_type_tags function_abilities gate) param_with_gate) (\<lambda>rows.
     case rows of
       None \<Rightarrow> Inr (None, r)
     | Some rows \<Rightarrow>
         let candidates = get_ty_args_candidates product rows in
         if candidates = [] then Inr (None, r)
         else (case below_or_zero R (length candidates) r of (k, r) \<Rightarrow>
           bindR (indexR candidates k) (\<lambda>ty_args_map.
           bindR (mapAccumR (fill_ty_arg R self ty_args_map) r (enumerate 0 function_abilities)) (\<lambda>(r, tas).
           bindR (foldR (object_candidates env self ty_args_map) [] param_with_gate) (\<lambda>objs.
           if list_ex (\<lambda>(_, ids). ids = []) objs then Inr (None, r)
           else bindR (mapAccumR (pick_object R) r objs) (\<lambda>(r, objects).
             Inr (Some (insert_all [] objects, tas), r))))))))"

section \<open>Arguments from the sequence and the store\<close>

definition sampleable :: "MoveAbiSignatureToken \<Rightarrow> bool" where
  "sampleable param =
     (case param of
        TokStruct _ \<Rightarrow> True
      | TokStructInstantiation _ _ \<Rightarrow> True
      | TokReference b \<Rightarrow> is_struct b
      | TokMutableReference b \<Rightarrow> is_struct b
      | _ \<Rightarrow> False)"

definition gated_param :: "ty_args \<Rightarrow> MoveAbiSignatureToken \<Rightarrow> (MoveAbiSignatureToken \<times> Gate) res" where
  "gated_param fixed_ty_args param =
     (if is_tx_context param then Inl (Panic ''should not be tx context'')
      else let param = partial_subst param (bt_get fixed_ty_args) in
        case param of
          TokStruct _ \<Rightarrow> Inr (param, GateOwned)
        | TokStructInstantiation _ _ \<Rightarrow> Inr (param, GateOwned)
        | TokReference b \<Rightarrow> if is_struct b then Inr (b, GateImmutable) else Inl (Panic ''unreachable'')
        | TokMutableReference b \<Rightarrow> if is_struct b then Inr (b, GateShared) else Inl (Panic ''unreachable'')
        | _ \<Rightarrow> Inl (Panic ''unreachable''))"

definition param_candidates ::
  "StoreInfo \<Rightarrow> 'm FuzzMetadata \<Rightarrow> object_map \<Rightarrow> MoveAbility list \<Rightarrow> MoveAbiSignatureToken \<times> Gate
     \<Rightarrow> ty_args list res" where
  "param_candidates env self objects function_abilities p = (case p of (param, gate) \<Rightarrow>
     bindR (try_sample_object_from_cache (fm_base self) objects param function_abilities gate) (\<lambda>from_cache.
     bindR (unwrapR ''called `Option::unwrap()` on a `None` value'' (ability param)) (\<lambda>a.
     bindR (if ability_contains a KEY
            then try_sample_object_from_db env self param (map fst (md_types_pool (fm_base self))) function_abilities gate
            else Inr []) (\<lambda>from_db.
     Inr (from_cache @ from_db)))))"

definition collect_row ::
  "StoreInfo \<Rightarrow> 'm FuzzMetadata \<Rightarrow> object_map \<Rightarrow> MoveAbility list \<Rightarrow> ty_args list list \<times> u16 list
     \<Rightarrow> nat \<times> MoveAbiSignatureToken \<times> Gate \<Rightarrow> (ty_args list list \<times> u16 list) res" where
  "collect_row env self objects function_abilities acc p =
     (case acc of (rows, missing_idx) \<Rightarrow> case p of (i, pg) \<Rightarrow>
        bindR (param_candidates env self objects function_abilities pg) (\<lambda>row.
        Inr (if row = [] then (rows, missing_idx @ [as_u16 i]) else (rows @ [row], missing_idx))))"

text \<open>The state of the sampling loop.\<close>

record 'r Sampling =
  sa_objects :: object_map
  sa_used :: "MoveAddress list"
  sa_args :: "SequenceArgument option list"
  sa_inputs :: "InputArgument list"
  sa_missing :: "u16 list"
  sa_rand :: 'r

definition gate_accepts :: "Gate \<Rightarrow> Gate \<Rightarrow> bool" where
  "gate_accepts gate g =
     (case gate of GateOwned \<Rightarrow> g \<noteq> GateImmutable | GateImmutable \<Rightarrow> True | GateShared \<Rightarrow> g \<noteq> GateImmutable)"

definition miss :: "nat \<Rightarrow> 'r Sampling \<Rightarrow> 'r Sampling" where
  "miss i st = st\<lparr>sa_args := sa_args st @ [None], sa_missing := sa_missing st @ [as_u16 i]\<rparr>"

definition sample_existing ::
  "'r Rand \<Rightarrow> nat \<Rightarrow> MoveTypeTag \<Rightarrow> Gate \<Rightarrow> (SequenceArgument \<times> Gate) list \<Rightarrow> 'r Sampling \<Rightarrow> 'r Sampling res" where
  "sample_existing R i ty gate args st =
     (let filtered_idxes = filter (\<lambda>k. gate_accepts gate (snd (args ! k))) [0..<length args] in
      if filtered_idxes = [] then Inr (miss i st)
      else (case below_or_zero R (length filtered_idxes) (sa_rand st) of (n, r) \<Rightarrow>
        bindR (indexR filtered_idxes n) (\<lambda>k.
        bindR (indexR args k) (\<lambda>(arg, _).
        let st = st\<lparr>sa_rand := r, sa_args := sa_args st @ [Some arg]\<rparr> in
        Inr (if gate = GateOwned
             then st\<lparr>sa_objects := bt_insert ty (take k args @ drop (Suc k) args) (sa_objects st)\<rparr>
             else st)))))"

definition object_input :: "MoveAddress \<Rightarrow> MoveObjectInfo \<Rightarrow> InputArgument option" where
  "object_input oid object =
     (case info_owner object of
        AddressOwner _ \<Rightarrow> Some (InObject (info_ty object) (imm_or_owned_object oid (info_version object) (info_digest object)))
      | Immutable \<Rightarrow> Some (InObject (info_ty object) (imm_or_owned_object oid (info_version object) (info_digest object)))
      | Shared start \<Rightarrow> Some (InObject (info_ty object) (shared_object oid start True))
      | _ \<Rightarrow> None)"

text \<open>The left side of the next two is the early return of \<open>Unsolvable\<close>, with the generator it leaves.\<close>

definition sample_stored ::
  "'r Rand \<Rightarrow> StoreInfo \<Rightarrow> 'm FuzzMetadata \<Rightarrow> nat \<Rightarrow> nat \<Rightarrow> MoveTypeTag \<Rightarrow> Gate \<Rightarrow> 'r Sampling
     \<Rightarrow> ('r + 'r Sampling) res" where
  "sample_stored R env self input_len i ty gate st =
     (let object_ids = filter (\<lambda>oid. oid \<notin> set (sa_used st)) (available_objects env self ty gate) in
      if object_ids = [] then Inr (Inr (miss i st))
      else (case below_or_zero R (length object_ids) (sa_rand st) of (n, r) \<Rightarrow>
        bindR (indexR object_ids n) (\<lambda>object_id.
        let st = st\<lparr>sa_rand := r, sa_used := sa_used st @ [object_id]\<rparr> in
        case get_move_object_info env object_id of
          Inl _ \<Rightarrow> Inr (Inl r)
        | Inr object \<Rightarrow>
            (case object_input object_id object of
               None \<Rightarrow> Inr (Inl r)
             | Some input \<Rightarrow>
                 let st = st\<lparr>sa_inputs := sa_inputs st @ [input]\<rparr> in
                 Inr (Inr (st\<lparr>sa_args := sa_args st
                   @ [Some (Input (as_u16 (input_len + length (sa_inputs st) - 1)))]\<rparr>))))))"

definition sample_param ::
  "'r Rand \<Rightarrow> StoreInfo \<Rightarrow> 'm FuzzMetadata \<Rightarrow> nat \<Rightarrow> ty_args \<Rightarrow> 'r Sampling
     \<Rightarrow> nat \<times> MoveAbiSignatureToken \<times> Gate \<Rightarrow> ('r + 'r Sampling) res" where
  "sample_param R env self input_len ty_args_map st p = (case p of (i, param, gate) \<Rightarrow>
     if as_u16 i \<in> set (sa_missing st) then Inr (Inr (st\<lparr>sa_args := sa_args st @ [None]\<rparr>))
     else
       bindR (unwrapR ''Failed to substitute type arguments'' (subst param (bt_get ty_args_map))) (\<lambda>ty.
       if \<not> is_struct_tag ty then Inl (Panic ''Expected a struct type tag for parameter'')
       else if \<not> is_struct param then Inl (Panic ''Expected a struct type for parameter'')
       else case bt_get (sa_objects st) ty of
         Some args \<Rightarrow> bindR (sample_existing R i ty gate args st) (\<lambda>st. Inr (Inr st))
       | None \<Rightarrow> sample_stored R env self input_len i ty gate st))"

fun foldRX :: "('s \<Rightarrow> 'a \<Rightarrow> ('x + 's) res) \<Rightarrow> 's \<Rightarrow> 'a list \<Rightarrow> ('x + 's) res" where
  "foldRX f s [] = Inr (Inr s)"
| "foldRX f s (x # xs) = bindR (f s x) (\<lambda>e. case e of Inl y \<Rightarrow> Inr (Inl y) | Inr s' \<Rightarrow> foldRX f s' xs)"

text \<open>A missing type argument is a fixed one or a generated one; the generator runs in both cases.\<close>

definition final_ty_arg ::
  "'r Rand \<Rightarrow> 'm FuzzMetadata \<Rightarrow> ty_args \<Rightarrow> ty_args \<Rightarrow> 'r \<Rightarrow> nat \<times> MoveAbility \<Rightarrow> ('r \<times> MoveTypeTag) res" where
  "final_ty_arg R self ty_args_map fixed_ty_args r p = (case p of (i, a) \<Rightarrow>
     (case bt_get ty_args_map (as_u16 i) of
        Some ty \<Rightarrow> Inr (r, ty)
      | None \<Rightarrow> bindR (gen_type_tag_by_abilities R self a r) (\<lambda>(generated, r).
          Inr (r, case bt_get fixed_ty_args (as_u16 i) of Some ty \<Rightarrow> ty | None \<Rightarrow> generated))))"

definition finish_args ::
  "'r Rand \<Rightarrow> 'm FuzzMetadata \<Rightarrow> MoveAbility list \<Rightarrow> ty_args \<Rightarrow> ty_args \<Rightarrow> 'r Sampling \<Rightarrow> (ConstructResult \<times> 'r) res" where
  "finish_args R self function_abilities ty_args_map fixed_ty_args st =
     (if sa_missing st = [] then
        bindR (mapAccumR (final_ty_arg R self ty_args_map fixed_ty_args) (sa_rand st)
                (enumerate 0 function_abilities)) (\<lambda>(r, tas).
        Inr (ConstructOk (List.map_filter (\<lambda>a. a) (sa_args st)) tas (sa_inputs st), r))
      else Inr (PartialFound (sa_args st) (insert_all [] (ty_args_map @ fixed_ty_args)) (sa_inputs st),
                sa_rand st))"

definition start_sampling :: "ObjectData \<Rightarrow> u16 list \<Rightarrow> 'r \<Rightarrow> 'r Sampling" where
  "start_sampling object_data missing_idx r =
     \<lparr>sa_objects = existing_objects object_data, sa_used = used_object_ids object_data,
      sa_args = [], sa_inputs = [], sa_missing = missing_idx, sa_rand = r\<rparr>"

definition try_construct_args ::
  "'r Rand \<Rightarrow> (ty_args list list \<Rightarrow> ty_args list list) \<Rightarrow> StoreInfo \<Rightarrow> 'm FuzzMetadata \<Rightarrow> nat
     \<Rightarrow> MoveAbiSignatureToken list \<Rightarrow> MoveAbility list \<Rightarrow> ty_args \<Rightarrow> ObjectData \<Rightarrow> 'r \<Rightarrow> (ConstructResult \<times> 'r) res" where
  "try_construct_args R product env self input_len params function_abilities fixed_ty_args object_data r =
     (if list_ex (\<lambda>param. \<not> sampleable param) params then Inr (Unsolvable, r)
      else
        bindR (mapR (gated_param fixed_ty_args) params) (\<lambda>param_with_gate.
        bindR (foldR (collect_row env self (existing_objects object_data) function_abilities) ([], [])
                (enumerate 0 param_with_gate)) (\<lambda>(rows, missing_idx).
        let candidates = get_ty_args_candidates product rows in
        if candidates = [] then Inr (Unsolvable, r)
        else (case below_or_zero R (length candidates) r of (k, r) \<Rightarrow>
          bindR (indexR candidates k) (\<lambda>ty_args_map.
          bindR (foldRX (sample_param R env self input_len ty_args_map) (start_sampling object_data missing_idx r)
                  (enumerate 0 param_with_gate)) (\<lambda>sampled.
          case sampled of
            Inl r \<Rightarrow> Inr (Unsolvable, r)
          | Inr st \<Rightarrow> finish_args R self function_abilities ty_args_map fixed_ty_args st))))))"

section \<open>Inferred type arguments\<close>

text \<open>Type arguments found by matching stand for parameters that occur in the token; parameters
  fixed before no longer occur.\<close>

abbreviation keys_of :: "ty_args \<Rightarrow> u16 set" where
  "keys_of m \<equiv> fst ` set m"

lemma merge_ty_args_keys:
  assumes "merge_ty_args m sub = Some m'"
  shows "keys_of m' \<subseteq> keys_of m \<union> keys_of sub"
  using assms unfolding merge_ty_args_def
proof (induction sub arbitrary: m)
  case (Cons p sub)
  then obtain m1 where "add_ty_arg m p = Some m1" and rest: "foldO add_ty_arg m1 sub = Some m'"
    by (auto split: option.splits)
  then have "keys_of m1 = insert (fst p) (keys_of m)"
    by (cases p) (auto simp: add_ty_arg_Some)
  with Cons.IH [OF rest] show ?case by simp
qed simp

lemma extract_fold_keys:
  assumes "foldO (\<lambda>m (t, u). case g t u of Some s \<Rightarrow> merge_ty_args m s | None \<Rightarrow> None) m ps = Some m'" "i \<in> keys_of m'"
  shows "i \<in> keys_of m \<or> (\<exists>t u s. (t, u) \<in> set ps \<and> g t u = Some s \<and> i \<in> keys_of s)"
  using assms
proof (induction ps arbitrary: m)
  case (Cons p ps)
  obtain t u where p: "p = (t, u)" by (cases p)
  with Cons.prems(1) obtain s m1 where s: "g t u = Some s" "merge_ty_args m s = Some m1"
    and rest: "foldO (\<lambda>m (t, u). case g t u of Some s \<Rightarrow> merge_ty_args m s | None \<Rightarrow> None) m1 ps = Some m'"
    by (auto split: option.splits)
  from Cons.IH [OF rest Cons.prems(2)] show ?case
  proof
    assume "i \<in> keys_of m1"
    then have "i \<in> keys_of m \<or> i \<in> keys_of s" using merge_ty_args_keys [OF s(2)] by blast
    then show ?thesis using s(1) p by (metis list.set_intros(1))
  qed (use p in \<open>metis list.set_intros(2)\<close>)
qed simp

lemma extract_keys:
  "extract_ty_args t ty = Some m \<Longrightarrow> i \<in> keys_of m \<Longrightarrow> contains_type_param t i"
proof (induction t ty arbitrary: m i rule: extract_ty_args.induct)
  case (2 inner ts ty)
  from "2.prems"(1) obtain tag where ty: "ty = TagStruct tag" by (cases ty) simp_all
  let ?g = "\<lambda>m (t, u). case extract_ty_args t u of Some s \<Rightarrow> merge_ty_args m s | None \<Rightarrow> None"
  from "2.prems"(1) have h: "handle_is inner tag" and f: "foldO ?g [] (zip ts (tag_tys tag)) = Some m"
    by (simp_all add: ty split: if_splits)
  obtain t u s where tu: "(t, u) \<in> set (zip ts (tag_tys tag))" "extract_ty_args t u = Some s" "i \<in> keys_of s"
    using extract_fold_keys [OF f "2.prems"(2)] by (metis empty_iff image_empty list.set(1))
  with "2.IH" [OF ty _ tu(1) refl] h have "contains_type_param t i" by simp
  then show ?case using set_zip_leftD [OF tu(1)] by (auto simp: list_ex_iff)
qed (auto split: MoveTypeTag.splits if_splits)

lemma lossy_closed: "\<not> contains_type_param (from_type_tag_lossy ty) i"
  by (induction ty rule: from_type_tag_lossy.induct) (auto simp: list_ex_iff Let_def)

lemma contains_partial_subst: "contains_type_param (partial_subst t \<sigma>) i \<Longrightarrow> \<sigma> i = None"
  by (induction t \<sigma> rule: partial_subst.induct) (auto simp: list_ex_iff lossy_closed split: option.splits)

lemma insert_generic_Some:
  "insert_generic m (i, ty) = Some m' \<longleftrightarrow>
     (bt_get m i = None \<and> m' = bt_insert i ty m) \<or> (bt_get m i = Some ty \<and> m' = m)"
  by (auto simp: insert_generic_def split: option.splits)

lemma insert_generics:
  assumes "foldO insert_generic m c = Some m'"
  shows "bt_wf m \<Longrightarrow> bt_wf m'" "keys_of m' \<subseteq> keys_of m \<union> keys_of c"
proof -
  have "(bt_wf m \<longrightarrow> bt_wf m') \<and> keys_of m' \<subseteq> keys_of m \<union> keys_of c"
    using assms
  proof (induction c arbitrary: m)
    case (Cons p c)
    obtain i ty where p: "p = (i, ty)" by (cases p)
    with Cons.prems obtain m1 where m1: "insert_generic m (i, ty) = Some m1" "foldO insert_generic m1 c = Some m'"
      by (auto split: option.splits)
    have "keys_of m1 \<subseteq> insert i (keys_of m) \<and> (bt_wf m \<longrightarrow> bt_wf m1)"
      using m1(1) unfolding insert_generic_Some
      by (elim disjE conjE) (simp_all add: subset_insertI bt_wf_insert)
    with Cons.IH [OF m1(2)] show ?case by (simp add: p) blast
  qed simp
  then show "bt_wf m \<Longrightarrow> bt_wf m'" "keys_of m' \<subseteq> keys_of m \<union> keys_of c" by simp_all
qed

lemma intersect_generics_Some:
  assumes "intersect_generics cs = Some m"
  shows "bt_wf m" "keys_of m \<subseteq> (\<Union>c \<in> set cs. keys_of c)"
proof -
  have "(bt_wf m0 \<longrightarrow> bt_wf m) \<and> keys_of m \<subseteq> keys_of m0 \<union> (\<Union>c \<in> set cs. keys_of c)"
    if "foldO (foldO insert_generic) m0 cs = Some m" for m0
    using that
  proof (induction cs arbitrary: m0)
    case (Cons c cs)
    then obtain m1 where m1: "foldO insert_generic m0 c = Some m1" "foldO (foldO insert_generic) m1 cs = Some m"
      by (auto split: option.splits)
    from Cons.IH [OF m1(2)] insert_generics [OF m1(1)] show ?case by simp blast
  qed simp
  from this [of "[]"] assms show "bt_wf m" "keys_of m \<subseteq> (\<Union>c \<in> set cs. keys_of c)"
    by (auto simp: intersect_generics_def)
qed

section \<open>Candidates\<close>

lemma anyR_False: "anyR P xs = Inr False \<Longrightarrow> x \<in> set xs \<Longrightarrow> P x = Inr False"
  by (induction xs) (auto simp: bindR_eq_Inr split: if_splits)

text \<open>A candidate for a parameter comes from matching it, and its indexes are those of declared
  type parameters.\<close>

definition matched :: "MoveAbility list \<Rightarrow> MoveAbiSignatureToken \<Rightarrow> ty_args \<Rightarrow> bool" where
  "matched fabs param m \<longleftrightarrow> (\<exists>tag. extract_ty_args param tag = Some m) \<and> (\<forall>i \<in> keys_of m. unat i < length fabs)"

lemma matchedI:
  assumes "extract_ty_args param tag = Some m" "anyR (lacks_abilities meta fabs) m = Inr False"
  shows "matched fabs param m"
proof -
  have "unat i < length fabs" if "(i, t) \<in> set m" for i t
    using anyR_False [OF assms(2) that] by (auto simp: lacks_abilities_def bindR_eq_Inr indexR_def split: if_splits)
  with assms(1) show ?thesis by (auto simp: matched_def)
qed

lemma sampled_from_db:
  assumes "try_sample_object_from_db env self param tags fabs gate = Inr row" "m \<in> set row"
  shows "matched fabs param m"
proof -
  have "\<forall>m \<in> set row. matched fabs param m"
    by (rule foldR_invariant_set [where P = "\<lambda>acc. \<forall>m \<in> set acc. matched fabs param m", OF _
          assms(1) [unfolded try_sample_object_from_db_def]])
      (auto simp: sample_db_type_def bindR_eq_Inr intro: matchedI split: option.splits if_splits)
  with assms(2) show ?thesis by blast
qed

lemma sampled_from_cache:
  assumes "try_sample_object_from_cache meta objs param fabs gate = Inr row" "m \<in> set row"
  shows "matched fabs param m"
proof -
  have "\<forall>m \<in> set row. matched fabs param m"
    by (rule foldR_invariant_set [where P = "\<lambda>acc. \<forall>m \<in> set acc. matched fabs param m", OF _
          assms(1) [unfolded try_sample_object_from_cache_def]])
      (auto simp: sample_cached_type_def bindR_eq_Inr intro: matchedI split: option.splits if_splits prod.splits)
  with assms(2) show ?thesis by blast
qed

lemma param_candidates_matched:
  assumes "param_candidates env self objs fabs (param, gate) = Inr row" "m \<in> set row"
  shows "matched fabs param m"
  using assms
  by (auto simp: param_candidates_def bindR_eq_Inr unwrapR_eq_Inr split: if_splits
      dest: sampled_from_db sampled_from_cache)

lemma collect_rows_matched:
  assumes "foldR (collect_row env self objs fabs) ([], []) (enumerate 0 pgs) = Inr (rows, missing)"
    "row \<in> set rows" "m \<in> set row"
  shows "\<exists>(param, gate) \<in> set pgs. matched fabs param m"
proof -
  let ?P = "\<lambda>acc. \<forall>row \<in> set (fst acc). \<forall>m \<in> set row. \<exists>pg \<in> set pgs. matched fabs (fst pg) m"
  have step: "?P acc'" if old: "?P acc" and q: "q \<in> set (enumerate 0 pgs)"
    and run: "collect_row env self objs fabs acc q = Inr acc'" for acc q acc'
  proof -
    obtain i param gate where p: "q = (i, param, gate)" by (cases q) auto
    with q have pg: "(param, gate) \<in> set pgs" by (metis enumerate_eq_zip in_set_zipE)
    from run p obtain row where r: "param_candidates env self objs fabs (param, gate) = Inr row"
      "acc' = (if row = [] then (fst acc, snd acc @ [as_u16 i]) else (fst acc @ [row], snd acc))"
      by (cases acc) (auto simp: collect_row_def bindR_eq_Inr)
    have "\<forall>m \<in> set row. matched fabs param m" using param_candidates_matched [OF r(1)] by blast
    with old pg show ?thesis unfolding r(2) by (cases "row = []") force+
  qed
  have "?P (rows, missing)" by (rule foldR_invariant_set [where P = ?P, OF _ assms(1)]) (fact step, simp)
  with assms(2,3) show ?thesis by fastforce
qed

text \<open>The product of the candidate rows that the code takes from its iterator library.\<close>

definition product_ok :: "(ty_args list list \<Rightarrow> ty_args list list) \<Rightarrow> bool" where
  "product_ok product \<longleftrightarrow> (\<forall>rows. set (product rows) = {xs. list_all2 (\<lambda>x row. x \<in> set row) xs rows})"

lemma ty_args_candidate_keys:
  assumes "product_ok product" "m \<in> set (get_ty_args_candidates product rows)" "i \<in> keys_of m"
  shows "\<exists>row \<in> set rows. \<exists>c \<in> set row. i \<in> keys_of c"
proof -
  from assms(2) obtain combo where "combo \<in> set (product rows)" "intersect_generics combo = Some m"
    by (auto simp: get_ty_args_candidates_def map_filter_def)
  then obtain c where "c \<in> set combo" "i \<in> keys_of c" and "list_all2 (\<lambda>x row. x \<in> set row) combo rows"
    using intersect_generics_Some(2) assms(1,3) unfolding product_ok_def by blast
  then show ?thesis by (metis in_set_conv_nth list_all2_conv_all_nth)
qed

section \<open>Sampling as a step relation\<close>

text \<open>
  One successful round of the sampling loop: the argument is an available object of the sequence,
  which is used up when the parameter takes it by value, or a new input for an unused object of the
  store. \<open>samples\<close> relates the state before and after a round, \<open>samples_all\<close> a run of rounds.
\<close>

inductive samples ::
  "StoreInfo \<Rightarrow> 'm FuzzMetadata \<Rightarrow> nat \<Rightarrow> ty_args \<Rightarrow> 'r Sampling \<Rightarrow> MoveAbiSignatureToken \<times> Gate
     \<Rightarrow> SequenceArgument \<Rightarrow> 'r Sampling \<Rightarrow> bool"
  for env self input_len m where
  from_sequence: "subst param (bt_get m) = Some ty \<Longrightarrow> bt_get (sa_objects st) ty = Some args \<Longrightarrow>
     k < length args \<Longrightarrow> gate_accepts gate (snd (args ! k)) \<Longrightarrow>
     sa_inputs st' = sa_inputs st \<Longrightarrow> sa_used st' = sa_used st \<Longrightarrow>
     sa_objects st' = (if gate = GateOwned then bt_insert ty (take k args @ drop (Suc k) args) (sa_objects st)
                       else sa_objects st) \<Longrightarrow>
     samples env self input_len m st (param, gate) (fst (args ! k)) st'"
| from_store: "subst param (bt_get m) = Some ty \<Longrightarrow> oid \<in> set (available_objects env self ty gate) \<Longrightarrow>
     oid \<notin> set (sa_used st) \<Longrightarrow> get_move_object_info env oid = Inr info \<Longrightarrow>
     object_input oid info = Some input \<Longrightarrow>
     sa_inputs st' = sa_inputs st @ [input] \<Longrightarrow> sa_used st' = sa_used st @ [oid] \<Longrightarrow>
     sa_objects st' = sa_objects st \<Longrightarrow>
     samples env self input_len m st (param, gate) (Input (as_u16 (input_len + length (sa_inputs st)))) st'"

inductive samples_all for env self input_len m where
  finished: "samples_all env self input_len m st [] [] st"
| one_round: "samples env self input_len m st pg arg st1 \<Longrightarrow> samples_all env self input_len m st1 pgs args st' \<Longrightarrow>
     samples_all env self input_len m st (pg # pgs) (arg # args) st'"

lemma foldRX_Cons:
  "foldRX f s (x # xs) = Inr (Inr s') \<longleftrightarrow> (\<exists>s1. f s x = Inr (Inr s1) \<and> foldRX f s1 xs = Inr (Inr s'))"
proof (cases "f s x")
  case (Inr e)
  then show ?thesis by (cases e) simp_all
qed simp

lemma sample_existing_ok:
  assumes "sample_existing R i ty gate args st = Inr st'" "rand_ok R"
    "subst param (bt_get m) = Some ty" "bt_get (sa_objects st) ty = Some args"
  shows "(\<exists>arg. samples env self input_len m st (param, gate) arg st' \<and> sa_args st' = sa_args st @ [Some arg]
      \<and> sa_missing st' = sa_missing st) \<or> st' = miss i st"
proof -
  let ?idx = "filter (\<lambda>k. gate_accepts gate (snd (args ! k))) [0..<length args]"
  show ?thesis
  proof (cases "?idx = []")
    case True
    with assms(1) show ?thesis by (simp add: sample_existing_def)
  next
    case False
    obtain n r where r: "below_or_zero R (length ?idx) (sa_rand st) = (n, r)" by (cases "below_or_zero R (length ?idx) (sa_rand st)")
    then have n: "n < length ?idx" using rand_ok_below [OF assms(2) _ r] False by simp
    define k where "k = ?idx ! n"
    have "k \<in> set ?idx" unfolding k_def using n by (rule nth_mem)
    then have k: "k < length args" "gate_accepts gate (snd (args ! k))" by simp_all
    obtain a g where ag: "args ! k = (a, g)" by (cases "args ! k")
    have "st' = (let st = st\<lparr>sa_rand := r, sa_args := sa_args st @ [Some a]\<rparr> in
        if gate = GateOwned then st\<lparr>sa_objects := bt_insert ty (take k args @ drop (Suc k) args) (sa_objects st)\<rparr> else st)"
      using assms(1) False r n k(1) ag by (simp add: sample_existing_def Let_def k_def split: if_splits)
    then have "sa_inputs st' = sa_inputs st" "sa_used st' = sa_used st" "sa_missing st' = sa_missing st"
      "sa_args st' = sa_args st @ [Some a]"
      "sa_objects st' = (if gate = GateOwned then bt_insert ty (take k args @ drop (Suc k) args) (sa_objects st) else sa_objects st)"
      by (simp_all add: Let_def)
    with from_sequence [OF assms(3,4) k, of st' env self input_len] show ?thesis by (simp add: ag)
  qed
qed

lemma sample_stored_ok:
  assumes "sample_stored R env self input_len i ty gate st = Inr (Inr st')" "rand_ok R"
    "subst param (bt_get m) = Some ty"
  shows "(\<exists>arg. samples env self input_len m st (param, gate) arg st' \<and> sa_args st' = sa_args st @ [Some arg]
      \<and> sa_missing st' = sa_missing st) \<or> st' = miss i st"
proof -
  let ?ids = "filter (\<lambda>oid. oid \<notin> set (sa_used st)) (available_objects env self ty gate)"
  show ?thesis
  proof (cases "?ids = []")
    case True
    with assms(1) show ?thesis by (simp add: sample_stored_def)
  next
    case False
    obtain n r where r: "below_or_zero R (length ?ids) (sa_rand st) = (n, r)" by (cases "below_or_zero R (length ?ids) (sa_rand st)")
    then have n: "n < length ?ids" using rand_ok_below [OF assms(2) _ r] False by simp
    then have oid: "?ids ! n \<in> set (available_objects env self ty gate)" "?ids ! n \<notin> set (sa_used st)"
      using nth_mem [OF n] by simp_all
    from assms(1) False r n obtain info input where
      i: "get_move_object_info env (?ids ! n) = Inr info" "object_input (?ids ! n) info = Some input"
      and st': "st' = st\<lparr>sa_rand := r, sa_used := sa_used st @ [?ids ! n], sa_inputs := sa_inputs st @ [input],
        sa_args := sa_args st @ [Some (Input (as_u16 (input_len + length (sa_inputs st))))]\<rparr>"
      by (auto simp: sample_stored_def Let_def split: sum.splits option.splits)
    show ?thesis
      using from_store [OF assms(3) oid i, of st' input_len] by (simp add: st')
  qed
qed

lemma sample_param_ok:
  assumes "sample_param R env self input_len m st (i, param, gate) = Inr (Inr st')" "rand_ok R" "sa_missing st' = []"
  shows "sa_missing st = []"
    "\<exists>arg. samples env self input_len m st (param, gate) arg st' \<and> sa_args st' = sa_args st @ [Some arg]"
proof -
  show st: "sa_missing st = []"
  proof (rule ccontr)
    assume ne: "sa_missing st \<noteq> []"
    have "as_u16 i \<notin> set (sa_missing st)" using assms(1,3) ne by (auto simp: sample_param_def)
    with assms obtain ty where "subst param (bt_get m) = Some ty" "(\<exists>args. bt_get (sa_objects st) ty = Some args \<and> sample_existing R i ty gate args st = Inr st')
       \<or> sample_stored R env self input_len i ty gate st = Inr (Inr st')"
      by (auto simp: sample_param_def bindR_eq_Inr unwrapR_eq_Inr split: if_splits option.splits)
    with sample_existing_ok sample_stored_ok assms(2,3) ne show False by (fastforce simp: miss_def)
  qed
  with assms obtain ty where ty: "subst param (bt_get m) = Some ty"
    and "(\<exists>args. bt_get (sa_objects st) ty = Some args \<and> sample_existing R i ty gate args st = Inr st')
       \<or> sample_stored R env self input_len i ty gate st = Inr (Inr st')"
    by (auto simp: sample_param_def bindR_eq_Inr unwrapR_eq_Inr split: if_splits option.splits)
  moreover have "st' \<noteq> miss i st" using assms(3) by (auto simp: miss_def)
  ultimately show "\<exists>arg. samples env self input_len m st (param, gate) arg st' \<and> sa_args st' = sa_args st @ [Some arg]"
    using sample_existing_ok [OF _ assms(2) ty] sample_stored_ok [OF _ assms(2) ty] by blast
qed

lemma foldRX_samples:
  assumes "foldRX (sample_param R env self input_len m) st (enumerate n pgs) = Inr (Inr st')" "rand_ok R" "sa_missing st' = []"
  shows "sa_missing st = [] \<and> (\<exists>args. samples_all env self input_len m st pgs args st' \<and> sa_args st' = sa_args st @ map Some args)"
  using assms(1)
proof (induction pgs arbitrary: st n)
  case Nil
  then show ?case using assms(3) by (auto intro: samples_all.intros)
next
  case (Cons pg pgs)
  obtain param gate where pg: "pg = (param, gate)" by (cases pg)
  from Cons.prems obtain st1 where st1: "sample_param R env self input_len m st (n, param, gate) = Inr (Inr st1)"
    "foldRX (sample_param R env self input_len m) st1 (enumerate (Suc n) pgs) = Inr (Inr st')"
    by (auto simp: pg foldRX_Cons simp del: foldRX.simps(2))
  from Cons.IH [OF st1(2)] obtain args where IH: "sa_missing st1 = []"
    "samples_all env self input_len m st1 pgs args st'" "sa_args st' = sa_args st1 @ map Some args" by blast
  from sample_param_ok [OF st1(1) assms(2) IH(1)] obtain arg where
    "sa_missing st = []" "samples env self input_len m st (param, gate) arg st1" "sa_args st1 = sa_args st @ [Some arg]" by blast
  with IH show ?case by (auto simp: pg intro!: exI [where x = "arg # args"] samples_all.intros)
qed

section \<open>The constructed arguments\<close>

lemma numbered_get:
  assumes "length tas \<le> 65536" "unat i < length tas"
  shows "bt_get (numbered_ty_args tas) i = Some (tas ! unat i)"
proof -
  have "distinct (map fst (map (\<lambda>(i, ty). (as_u16 i, ty)) (enumerate 0 tas)))"
    using assms(1) by (auto simp: distinct_conv_nth nth_enumerate_eq word_unat_eq_iff unat_as_u16)
  moreover have "(i, tas ! unat i) \<in> set (map (\<lambda>(i, ty). (as_u16 i, ty)) (enumerate 0 tas))"
    unfolding set_map by (rule image_eqI [where x = "(unat i, tas ! unat i)"])
      (use assms(2) in \<open>simp_all add: in_set_enumerate_eq\<close>)
  ultimately have "map_of (rev (map (\<lambda>(i, ty). (as_u16 i, ty)) (enumerate 0 tas))) i = Some (tas ! unat i)"
    by (intro map_of_is_SomeI) (simp_all add: rev_map [symmetric] del: set_map)
  then show ?thesis by (simp add: numbered_ty_args_def bt_get_insert_all map_add_def)
qed

definition pool_typed :: "StoreInfo \<Rightarrow> 'm FuzzMetadata \<Rightarrow> bool" where
  "pool_typed env self \<longleftrightarrow> (\<forall>ty ids oid info. bt_get (md_types_pool (fm_base self)) ty = Some ids \<longrightarrow> oid \<in> set ids \<longrightarrow>
     get_move_object_info env oid = Inr info \<longrightarrow> info_ty info = ty)"

lemma available_objects_typed:
  "pool_typed env self \<Longrightarrow> oid \<in> set (available_objects env self ty gate) \<Longrightarrow>
   get_move_object_info env oid = Inr info \<Longrightarrow> info_ty info = ty"
  unfolding pool_typed_def
  by (cases "bt_get (md_types_pool (fm_base self)) ty")
    (auto simp: available_objects_def map_filter_def split: if_splits sum.splits)

definition input_id :: "InputArgument \<Rightarrow> MoveAddress option" where
  "input_id a = (case a of InObject _ obj \<Rightarrow> Some (SuiObjectInputArgument_id obj) | _ \<Rightarrow> None)"

lemma object_input_Some:
  "object_input oid info = Some input \<Longrightarrow> InputArgument_ty input = info_ty info \<and> input_id input = Some oid"
  by (auto simp: object_input_def input_id_def imm_or_owned_object_def shared_object_def split: MoveOwner.splits)

text \<open>An argument of a type: an available object of the type, or one of the new inputs.\<close>

definition arg_typed :: "object_map \<Rightarrow> nat \<Rightarrow> InputArgument list \<Rightarrow> SequenceArgument \<Rightarrow> MoveTypeTag \<Rightarrow> bool" where
  "arg_typed objs input_len ins arg ty \<longleftrightarrow> arg \<in> fst ` lookup_set objs ty
     \<or> (\<exists>q < length ins. arg = Input (as_u16 (input_len + q)) \<and> InputArgument_ty (ins ! q) = ty)"

lemma samples_objects:
  assumes "samples env self input_len m st pg arg st'"
  shows "fst ` lookup_set (sa_objects st') ty \<subseteq> fst ` lookup_set (sa_objects st) ty"
  using assms
proof (cases rule: samples.cases)
  case (from_sequence param t args k gate)
  then show ?thesis
    by (auto simp: lookup_set_def dest: in_set_takeD in_set_dropD)
qed auto

lemma samples_all_typed:
  assumes "samples_all env self input_len m st pgs args st'" "pool_typed env self"
  shows "(\<exists>new. sa_inputs st' = sa_inputs st @ new \<and> length new \<le> length pgs)
    \<and> list_all2 (\<lambda>pg arg. \<exists>ty. subst (fst pg) (bt_get m) = Some ty
         \<and> arg_typed (sa_objects st) input_len (sa_inputs st') arg ty) pgs args"
  using assms
proof (induction rule: samples_all.induct)
  case (one_round st pg arg st1 pgs args st')
  obtain new where new: "sa_inputs st' = sa_inputs st1 @ new" "length new \<le> length pgs" using one_round by blast
  have rest: "list_all2 (\<lambda>pg arg. \<exists>ty. subst (fst pg) (bt_get m) = Some ty
      \<and> arg_typed (sa_objects st) input_len (sa_inputs st') arg ty) pgs args"
    by (rule list_all2_mono [OF conjunct2 [OF one_round.IH [OF one_round.prems]]])
      (use samples_objects [OF one_round.hyps(1)] in \<open>unfold arg_typed_def, blast\<close>)
  from one_round.hyps(1) show ?case
  proof (cases rule: samples.cases)
    case (from_sequence param ty xs k gate)
    have "fst (xs ! k) \<in> fst ` lookup_set (sa_objects st) ty"
      using from_sequence by (simp add: lookup_set_def)
    with from_sequence rest new show ?thesis by (auto simp: arg_typed_def)
  next
    case (from_store param ty oid gate info input)
    have "InputArgument_ty input = ty"
      using from_store object_input_Some available_objects_typed [OF one_round.prems] by metis
    then have "arg_typed (sa_objects st) input_len (sa_inputs st') arg ty"
      unfolding arg_typed_def using from_store new(1)
      by (intro disjI2 exI [where x = "length (sa_inputs st)"]) (simp add: nth_append)
    with from_store rest new show ?thesis by auto
  qed
qed simp

lemma gated_param_subst:
  assumes "gated_param fixed param = Inr (p, gate)"
  shows "subst p \<sigma> = subst param (\<sigma> ++ bt_get fixed)"
    and "contains_type_param p i \<Longrightarrow> bt_get fixed i = None"
    and "sampleable param \<Longrightarrow> gate = GateOwned \<longleftrightarrow> is_struct param"
proof -
  let ?q = "partial_subst param (bt_get fixed)"
  have q: "?q = p \<and> gate = GateOwned \<or> ?q = TokReference p \<and> gate = GateImmutable
      \<or> ?q = TokMutableReference p \<and> gate = GateShared"
    using assms by (auto simp: gated_param_def Let_def split: if_splits MoveAbiSignatureToken.splits)
  then show "subst p \<sigma> = subst param (\<sigma> ++ bt_get fixed)"
    using subst_partial_subst [of param "bt_get fixed" \<sigma>] by auto
  show "bt_get fixed i = None" if "contains_type_param p i"
    using q that contains_partial_subst [of param "bt_get fixed" i] by auto
  show "gate = GateOwned \<longleftrightarrow> is_struct param" if "sampleable param"
    using that assms
    by (auto simp: sampleable_def is_struct_def gated_param_def Let_def split: MoveAbiSignatureToken.splits if_splits)
qed

text \<open>A successful construction, taken apart.\<close>

lemma finish_args_Ok:
  "finish_args R self fabs m fixed st = Inr (ConstructOk args tas ins, r') \<longleftrightarrow>
     sa_missing st = [] \<and> args = List.map_filter (\<lambda>a. a) (sa_args st) \<and> ins = sa_inputs st
     \<and> mapAccumR (final_ty_arg R self m fixed) (sa_rand st) (enumerate 0 fabs) = Inr (r', tas)"
  by (auto simp: finish_args_def bindR_eq_Inr)

lemma try_construct_args_Ok:
  assumes "try_construct_args R product env self input_len params fabs fixed d r = Inr (ConstructOk args tas ins, r')"
    "rand_ok R"
  obtains pgs rows m st r0 where "\<forall>param \<in> set params. sampleable param"
    "list_all2 (\<lambda>param pg. gated_param fixed param = Inr pg) params pgs"
    "foldR (collect_row env self (existing_objects d) fabs) ([], []) (enumerate 0 pgs) = Inr (rows, [])"
    "m \<in> set (get_ty_args_candidates product rows)"
    "samples_all env self input_len m (start_sampling d [] r0) pgs args st" "sa_inputs st = ins"
    "mapAccumR (final_ty_arg R self m fixed) (sa_rand st) (enumerate 0 fabs) = Inr (r', tas)"
proof -
  from assms(1) have ok: "\<forall>param \<in> set params. sampleable param"
    by (auto simp: try_construct_args_def list_ex_iff split: if_splits)
  with assms(1) obtain pgs rows missing where pgs: "mapR (gated_param fixed) params = Inr pgs"
    and rows: "foldR (collect_row env self (existing_objects d) fabs) ([], []) (enumerate 0 pgs) = Inr (rows, missing)"
    and ne: "get_ty_args_candidates product rows \<noteq> []"
    and rest: "(case below_or_zero R (length (get_ty_args_candidates product rows)) r of (k, r) \<Rightarrow>
          bindR (indexR (get_ty_args_candidates product rows) k) (\<lambda>ty_args_map.
          bindR (foldRX (sample_param R env self input_len ty_args_map) (start_sampling d missing r)
                  (enumerate 0 pgs)) (\<lambda>sampled.
          case sampled of Inl r \<Rightarrow> Inr (Unsolvable, r) | Inr st \<Rightarrow> finish_args R self fabs ty_args_map fixed st)))
      = Inr (ConstructOk args tas ins, r')"
    by (auto simp: try_construct_args_def list_ex_iff Let_def bindR_eq_Inr split: if_splits)
  let ?cs = "get_ty_args_candidates product rows"
  obtain k r0 where k: "below_or_zero R (length ?cs) r = (k, r0)" by (cases "below_or_zero R (length ?cs) r")
  have kl: "k < length ?cs" using rand_ok_below [OF assms(2) _ k] ne by simp
  from rest k kl obtain e where
    e: "foldRX (sample_param R env self input_len (?cs ! k)) (start_sampling d missing r0) (enumerate 0 pgs) = Inr e"
      "(case e of Inl r \<Rightarrow> Inr (Unsolvable, r) | Inr st \<Rightarrow> finish_args R self fabs (?cs ! k) fixed st)
        = Inr (ConstructOk args tas ins, r')"
    by (auto simp: bindR_eq_Inr)
  then obtain st where st: "e = Inr st" by (cases e) auto
  with e have fin: "finish_args R self fabs (?cs ! k) fixed st = Inr (ConstructOk args tas ins, r')" by simp
  note fin = fin [unfolded finish_args_Ok]
  from foldRX_samples [OF e(1) [unfolded st] assms(2)] fin obtain as where
    as: "missing = []" "samples_all env self input_len (?cs ! k) (start_sampling d missing r0) pgs as st" "sa_args st = map Some as"
    by (auto simp: start_sampling_def)
  have "args = as" using fin by (simp add: as(3) map_filter_def comp_def)
  with that [of pgs rows "?cs ! k" r0 st] ok pgs rows as fin kl show ?thesis by (simp add: mapR_eq_Inr)
qed

lemma final_ty_args_extend:
  assumes tas: "mapAccumR (final_ty_arg R self m fixed) r0 (enumerate 0 fabs) = Inr (r', tas)"
    and "length fabs \<le> 65536" "\<forall>i \<in> keys_of fixed. unat i < length fabs" "\<forall>i \<in> keys_of m. unat i < length fabs"
    and disj: "\<forall>i \<in> keys_of m. bt_get fixed i = None"
  shows "bt_get m ++ bt_get fixed \<subseteq>\<^sub>m bt_get (numbered_ty_args tas)"
proof -
  note len = mapAccumR_nth(1) [OF tas]
  have "bt_get (numbered_ty_args tas) i = Some t" if it: "(bt_get m ++ bt_get fixed) i = Some t" for i t
  proof -
    from it have "i \<in> keys_of fixed \<or> i \<in> keys_of m"
      by (auto simp: map_add_Some_iff dest: map_of_SomeD intro: rev_image_eqI)
    then have i: "unat i < length fabs" using assms(3,4) by blast
    with mapAccumR_nth(2) [OF tas, of "unat i"] obtain x y where
      step: "final_ty_arg R self m fixed x (unat i, fabs ! unat i) = Inr (y, tas ! unat i)"
      by (auto simp: nth_enumerate_eq)
    have "tas ! unat i = t"
    proof (cases "bt_get m i")
      case None
      with it have "bt_get fixed i = Some t" by (auto simp: map_add_def split: option.splits)
      with None step show ?thesis by (auto simp: final_ty_arg_def bindR_eq_Inr)
    next
      case (Some t')
      then have "i \<in> keys_of m" by (auto dest: map_of_SomeD intro: rev_image_eqI)
      with disj it Some have "t' = t" by (auto simp: map_add_def)
      with Some step show ?thesis by (simp add: final_ty_arg_def)
    qed
    with numbered_get [of tas i] i len assms(2) show ?thesis by simp
  qed
  then show ?thesis by (rule map_leI)
qed

text \<open>
  C6: when arguments are constructed for a call, each has the type of its parameter: under the
  type arguments that are returned, read the way the bookkeeping of sequences reads them, the
  parameter is a type \<open>ty\<close> for which the argument is an available object of the sequence, or a new
  input whose object the store gives the type \<open>ty\<close>. Type arguments that were fixed beforehand are
  respected. The store's types agree with the pool they were collected into.
\<close>
theorem constructed_args_typed:
  assumes "try_construct_args R product env self input_len params fabs fixed d r = Inr (ConstructOk args tas ins, r')"
    "rand_ok R" "product_ok product" "pool_typed env self" "length fabs \<le> 65536"
    "\<forall>i \<in> fst ` set fixed. unat i < length fabs"
  shows "length tas = length fabs
    \<and> (\<forall>i. bt_get fixed i \<noteq> None \<longrightarrow> bt_get (numbered_ty_args tas) i = bt_get fixed i)
    \<and> list_all2 (\<lambda>param arg. \<exists>ty. subst param (bt_get (numbered_ty_args tas)) = Some ty
         \<and> arg_typed (existing_objects d) input_len ins arg ty) params args"
proof -
  from assms(1,2) obtain pgs rows m st r0 where
    pgs: "list_all2 (\<lambda>param pg. gated_param fixed param = Inr pg) params pgs"
    and rows: "foldR (collect_row env self (existing_objects d) fabs) ([], []) (enumerate 0 pgs) = Inr (rows, [])"
    and m: "m \<in> set (get_ty_args_candidates product rows)"
    and run: "samples_all env self input_len m (start_sampling d [] r0) pgs args st" "sa_inputs st = ins"
    and tas: "mapAccumR (final_ty_arg R self m fixed) (sa_rand st) (enumerate 0 fabs) = Inr (r', tas)"
    by (rule try_construct_args_Ok)
  have keys: "unat i < length fabs \<and> bt_get fixed i = None" if "i \<in> keys_of m" for i
  proof -
    from ty_args_candidate_keys [OF assms(3) m that]
    obtain row c where rc: "row \<in> set rows" "c \<in> set row" "i \<in> keys_of c" by blast
    from collect_rows_matched [OF rows rc(1,2)] rc(3)
    obtain param gate where c: "(param, gate) \<in> set pgs" "matched fabs param c" "i \<in> keys_of c" by blast
    then have i: "contains_type_param param i" "unat i < length fabs"
      by (auto simp: matched_def intro: extract_keys)
    obtain j where "j < length pgs" "pgs ! j = (param, gate)" using c(1) by (auto simp: in_set_conv_nth)
    then have "gated_param fixed (params ! j) = Inr (param, gate)" using list_all2_nthD2 [OF pgs] by force
    then show ?thesis using gated_param_subst(2) i by blast
  qed
  have le: "bt_get m ++ bt_get fixed \<subseteq>\<^sub>m bt_get (numbered_ty_args tas)"
    by (rule final_ty_args_extend [OF tas assms(5,6)]) (rule ballI, drule keys, erule conjE, assumption)+
  have typed: "list_all2 (\<lambda>pg arg. \<exists>ty. subst (fst pg) (bt_get m) = Some ty
      \<and> arg_typed (existing_objects d) input_len ins arg ty) pgs args"
    using samples_all_typed [OF run(1) assms(4)] run(2) by (simp add: start_sampling_def)
  have "list_all2 (\<lambda>param arg. \<exists>ty. subst param (bt_get (numbered_ty_args tas)) = Some ty
      \<and> arg_typed (existing_objects d) input_len ins arg ty) params args"
    by (rule list_all2_trans [OF _ pgs typed])
      (metis gated_param_subst(1) le prod.collapse subst_mono)
  moreover have "bt_get (numbered_ty_args tas) i = bt_get fixed i" if "bt_get fixed i \<noteq> None" for i
    using le that by (auto simp: map_le_def dom_def)
  ultimately show ?thesis using mapAccumR_nth(1) [OF tas] by simp
qed

section \<open>No argument by value is used twice\<close>

lemma samples_keeps:
  assumes "samples env self input_len m st pg arg st'" "unique_objects (sa_objects st)"
  shows "unique_objects (sa_objects st')" "object_args (sa_objects st') \<subseteq> object_args (sa_objects st)"
proof -
  have "unique_objects (sa_objects st') \<and> object_args (sa_objects st') \<subseteq> object_args (sa_objects st)"
    using assms(1)
  proof (cases rule: samples.cases)
    case (from_sequence param ty args k gate)
    show ?thesis
    proof (cases "gate = GateOwned")
      case True
      let ?ls = "take k args @ drop (Suc k) args"
      have d: "distinct (map fst args)" using assms(2) from_sequence by (auto simp: unique_objects_def)
      have "map fst ?ls = take k (map fst args) @ drop (Suc k) (map fst args)" by (simp add: take_map drop_map)
      also have "distinct \<dots>"
        using d id_take_nth_drop [of k "map fst args"] from_sequence by (metis distinct_append distinct.simps(2) length_map Int_insert_right_if0 inf_commute disjoint_insert(1) list.simps(15))
      finally have "\<forall>cs'. Some ?ls = Some cs' \<longrightarrow> distinct (map fst cs') \<and> fst ` set cs' \<subseteq> fst ` set args"
        by (auto dest: in_set_takeD in_set_dropD)
      from unique_shrink [OF assms(2) _ _ _ this, of ty "sa_objects st'"] from_sequence True assms(2) show ?thesis
        by (simp add: unique_objects_def bt_wf_insert)
    qed (use from_sequence assms(2) in auto)
  qed (use assms(2) in auto)
  then show "unique_objects (sa_objects st')" "object_args (sa_objects st') \<subseteq> object_args (sa_objects st)" by auto
qed

lemma samples_all_length: "samples_all env self input_len m st pgs args st' \<Longrightarrow> length args = length pgs"
  by (induction rule: samples_all.induct) simp_all

lemma samples_all_new_inputs:
  assumes "samples_all env self input_len m st pgs args st'"
  shows "\<exists>new. sa_inputs st' = sa_inputs st @ new \<and> length new \<le> length pgs \<and> distinct (map input_id new)
    \<and> (\<forall>x \<in> set new. \<exists>oid. input_id x = Some oid \<and> oid \<notin> set (sa_used st))"
  using assms
proof (induction rule: samples_all.induct)
  case (one_round st pg arg st1 pgs args st')
  then obtain new where new: "sa_inputs st' = sa_inputs st1 @ new" "length new \<le> length pgs" "distinct (map input_id new)"
    "\<forall>x \<in> set new. \<exists>oid. input_id x = Some oid \<and> oid \<notin> set (sa_used st1)" by blast
  from one_round.hyps(1) show ?case
  proof (cases rule: samples.cases)
    case (from_sequence param ty xs k gate)
    with new show ?thesis by (auto intro!: exI [where x = new])
  next
    case (from_store param ty oid gate info input)
    have "input_id input = Some oid" using from_store object_input_Some by blast
    moreover have "\<forall>x \<in> set new. input_id x \<noteq> Some oid \<and> (\<exists>o'. input_id x = Some o' \<and> o' \<notin> set (sa_used st))"
      using new(4) from_store by fastforce
    ultimately show ?thesis using new from_store by (intro exI [where x = "input # new"]) auto
  qed
qed auto

lemma samples_all_args:
  assumes "samples_all env self input_len m st pgs args st'" "unique_objects (sa_objects st)" "arg \<in> set args"
  shows "arg \<in> object_args (sa_objects st)
    \<or> (\<exists>q. length (sa_inputs st) \<le> q \<and> q < length (sa_inputs st') \<and> arg = Input (as_u16 (input_len + q)))"
  using assms
proof (induction rule: samples_all.induct)
  case (one_round st pg a st1 pgs args st')
  note keep = samples_keeps [OF one_round.hyps(1) one_round.prems(1)]
  obtain new where new: "sa_inputs st' = sa_inputs st1 @ new" using samples_all_new_inputs [OF one_round.hyps(2)] by blast
  have len: "length (sa_inputs st) \<le> length (sa_inputs st1)" using one_round.hyps(1) by (cases rule: samples.cases) auto
  show ?case
  proof (cases "arg = a")
    case True
    from one_round.hyps(1) show ?thesis
    proof (cases rule: samples.cases)
      case (from_sequence param ty xs k gate)
      then have "arg \<in> fst ` lookup_set (sa_objects st) ty" using True by (simp add: lookup_set_def)
      then show ?thesis by (auto simp: object_args_def)
    next
      case (from_store param ty oid gate info input)
      with True new show ?thesis by (intro disjI2 exI [where x = "length (sa_inputs st)"]) simp
    qed
  next
    case False
    with one_round.prems(2) have "arg \<in> set args" by simp
    from one_round.IH [OF keep(1) this] show ?thesis
    proof
      assume "arg \<in> object_args (sa_objects st1)"
      with keep(2) show ?thesis by blast
    next
      assume "\<exists>q\<ge>length (sa_inputs st1). q < length (sa_inputs st') \<and> arg = Input (as_u16 (input_len + q))"
      with len show ?thesis by (blast intro: le_trans)
    qed
  qed
qed simp

text \<open>An argument taken by value is out of reach of the later rounds.\<close>

lemma samples_owned_gone:
  assumes "samples env self input_len m st (param, GateOwned) arg st1" "unique_objects (sa_objects st)"
    "\<forall>a \<in> object_args (sa_objects st). \<forall>q. a = Input q \<longrightarrow> unat q < input_len + length (sa_inputs st)"
    "input_len + length (sa_inputs st) < 65536"
  shows "arg \<notin> object_args (sa_objects st1)" "arg = Input q \<Longrightarrow> unat q < input_len + length (sa_inputs st1)"
proof -
  have "arg \<notin> object_args (sa_objects st1) \<and> (\<forall>q. arg = Input q \<longrightarrow> unat q < input_len + length (sa_inputs st1))"
    using assms(1)
  proof (cases rule: samples.cases)
    case (from_sequence ty args k)
    have arg: "arg \<in> fst ` lookup_set (sa_objects st) ty" using from_sequence by (simp add: lookup_set_def)
    have d: "distinct (map fst args)" using assms(2) from_sequence by (auto simp: unique_objects_def)
    have "arg \<notin> fst ` lookup_set (sa_objects st1) t" for t
    proof (cases "t = ty")
      case True
      have "fst (args ! k) \<notin> set (take k (map fst args) @ drop (Suc k) (map fst args))"
        using d id_take_nth_drop [of k "map fst args"] from_sequence by (metis Un_iff distinct_append distinct.simps(2) disjoint_iff length_map list.set_intros(1) nth_map set_append)
      then show ?thesis using True from_sequence by (simp add: lookup_set_def take_map drop_map image_Un)
    next
      case False
      then have "fst ` lookup_set (sa_objects st1) t = fst ` lookup_set (sa_objects st) t"
        using from_sequence by (simp add: lookup_set_def)
      moreover have "fst ` lookup_set (sa_objects st) t \<inter> fst ` lookup_set (sa_objects st) ty = {}"
        using assms(2) False by (simp add: unique_objects_def)
      ultimately show ?thesis using arg by blast
    qed
    moreover have "arg \<in> object_args (sa_objects st)" using arg by (auto simp: object_args_def)
    ultimately show ?thesis using assms(3) from_sequence by (auto simp: object_args_def)
  next
    case (from_store ty oid info input)
    then have u: "arg = Input (as_u16 (input_len + length (sa_inputs st)))" by simp
    have "unat (as_u16 (input_len + length (sa_inputs st))) = input_len + length (sa_inputs st)"
      using assms(4) by (simp only: unat_as_u16)
    with u assms(3) from_store show ?thesis by auto
  qed
  then show "arg \<notin> object_args (sa_objects st1)" "arg = Input q \<Longrightarrow> unat q < input_len + length (sa_inputs st1)" by auto
qed

lemma samples_all_no_reuse:
  assumes "samples_all env self input_len m st pgs args st'" "unique_objects (sa_objects st)"
    "\<forall>a \<in> object_args (sa_objects st). \<forall>q. a = Input q \<longrightarrow> unat q < input_len + length (sa_inputs st)"
    "input_len + length (sa_inputs st) + length pgs \<le> 65536"
  shows "k < l \<Longrightarrow> l < length args \<Longrightarrow> snd (pgs ! k) = GateOwned \<Longrightarrow> args ! k \<noteq> args ! l"
  using assms
proof (induction arbitrary: k l rule: samples_all.induct)
  case (one_round st pg arg st1 pgs args st')
  note keep = samples_keeps [OF one_round.hyps(1) one_round.prems(4)]
  have len: "length (sa_inputs st) \<le> length (sa_inputs st1) \<and> length (sa_inputs st1) \<le> Suc (length (sa_inputs st))"
    using one_round.hyps(1) by (cases rule: samples.cases) auto
  obtain l' where l: "l = Suc l'" "l' < length args" using one_round.prems(1,2) by (cases l) auto
  show ?case
  proof (cases k)
    case 0
    then obtain param where pg: "pg = (param, GateOwned)" using one_round.prems(3) by (cases pg) auto
    note gone = samples_owned_gone [OF one_round.hyps(1) [unfolded pg] one_round.prems(4,5)]
    obtain new where new: "sa_inputs st' = sa_inputs st1 @ new" "length new \<le> length pgs"
      using samples_all_new_inputs [OF one_round.hyps(2)] by blast
    from samples_all_args [OF one_round.hyps(2) keep(1) nth_mem [OF l(2)]]
    have "args ! l' \<noteq> arg"
    proof
      assume "args ! l' \<in> object_args (sa_objects st1)"
      then show ?thesis using gone(1) one_round.prems(6) by auto
    next
      assume "\<exists>q\<ge>length (sa_inputs st1). q < length (sa_inputs st') \<and> args ! l' = Input (as_u16 (input_len + q))"
      then obtain q where q: "length (sa_inputs st1) \<le> q" "q < length (sa_inputs st')"
        "args ! l' = Input (as_u16 (input_len + q))" by blast
      have "unat (as_u16 (input_len + q)) = input_len + q"
        using q new len one_round.prems(6) by (intro unat_as_u16) simp
      with q gone(2) [of "as_u16 (input_len + q)"] one_round.prems(6) show ?thesis by auto
    qed
    with 0 l show ?thesis by simp
  next
    case (Suc k')
    have "args ! k' \<noteq> args ! l'"
      by (rule one_round.IH) (use Suc l keep len one_round.prems in \<open>force+\<close>)
    with Suc l show ?thesis by simp
  qed
qed simp

text \<open>
  For the objects a sequence leaves, constructed arguments never hand out one value twice: an
  argument that a parameter takes by value differs from the arguments of all later parameters, and
  the new inputs name different objects, none of which the sequence already uses.
\<close>
theorem by_value_not_reused:
  assumes "from_ptb env self ptb = Inr d" "results_fit (fm_base self) (commands ptb)"
    "try_construct_args R product env self (length (inputs ptb)) params fabs fixed d r
       = Inr (ConstructOk args tas ins, r')"
    "rand_ok R" "length (inputs ptb) + length params \<le> 65536"
  shows "(\<forall>k l. k < l \<longrightarrow> l < length args \<longrightarrow> is_struct (params ! k) \<longrightarrow> args ! k \<noteq> args ! l)
    \<and> distinct (map input_id ins)
    \<and> (\<forall>x \<in> set ins. \<exists>oid. input_id x = Some oid \<and> oid \<notin> set (used_object_ids d))"
proof -
  let ?n = "length (inputs ptb)"
  from assms(3,4) obtain pgs m st r0 where sam: "\<forall>param \<in> set params. sampleable param"
    and pgs: "list_all2 (\<lambda>param pg. gated_param fixed param = Inr pg) params pgs"
    and run: "samples_all env self ?n m (start_sampling d [] r0) pgs args st" and ins: "sa_inputs st = ins"
      "mapAccumR (final_ty_arg R self m fixed) (sa_rand st) (enumerate 0 fabs) = Inr (r', tas)"
    by (rule try_construct_args_Ok) blast
  have u: "unique_objects (existing_objects d)"
    and o: "\<forall>a \<in> object_args (existing_objects d). arg_origin ?n (length (commands ptb)) a"
    using from_ptb_unique [OF assms(1,2)] assms(5) by auto
  have old: "unat q < ?n" if "Input q \<in> object_args (existing_objects d)" for q
    using o that assms(5) by (auto simp: arg_origin_def unat_as_u16 dest!: bspec)
  have len: "length pgs = length params" "length args = length params"
    using list_all2_lengthD [OF pgs] samples_all_length [OF run] by simp_all
  have "args ! k \<noteq> args ! l" if "k < l" "l < length args" "is_struct (params ! k)" for k l
  proof (rule samples_all_no_reuse [OF run])
    have k: "k < length params" using that len by simp
    have "gated_param fixed (params ! k) = Inr (fst (pgs ! k), snd (pgs ! k))"
      using list_all2_nthD [OF pgs k] by simp
    then show "snd (pgs ! k) = GateOwned" using gated_param_subst(3) sam that(3) k nth_mem by blast
  qed (use u old len assms(5) that in \<open>auto simp: start_sampling_def\<close>)
  moreover obtain new where "ins = new" "distinct (map input_id new)"
    "\<forall>x \<in> set new. \<exists>oid. input_id x = Some oid \<and> oid \<notin> set (used_object_ids d)"
    using samples_all_new_inputs [OF run] ins by (auto simp: start_sampling_def)
  ultimately show ?thesis by blast
qed

section \<open>An example\<close>

definition coin_token :: MoveAbiSignatureToken where
  "coin_token = TokStructInstantiation (bank_struct ''Coin'' 12 []) [TokTypeParameter 0 0]"

definition zero_rand :: "unit Rand" where
  "zero_rand = \<lparr>below_or_zero = (\<lambda>n r. (0, r)), choose_index = (\<lambda>n r. (0, r)), float_below_growth = (\<lambda>n r. (False, r))\<rparr>"

lemma zero_rand_ok: "rand_ok zero_rand"
  by (simp add: rand_ok_def zero_rand_def max_def)

lemma product_lists_ok: "product_ok product_lists"
  by (simp add: product_ok_def product_lists_set)

lemma bank_construct:
  "try_construct_args zero_rand product_lists bank_env bank_meta 1 [receipt_token, coin_token] [0] [] bank_data () =
     Inr (ConstructOk [Result 1, Input 1] [TagU64] [InObject bank_coin (ImmOrOwnedObject (6, 1, 0))], ())"
  by code_simp

lemma bank_pool_typed: "pool_typed bank_env bank_meta"
  by (auto simp: pool_typed_def bank_meta_def bank_base_def bank_env_def bank_object_def split: if_splits)

theorem constructed_args_typed_witness:
  "list_all2 (\<lambda>param arg. \<exists>ty. subst param (bt_get (numbered_ty_args [TagU64])) = Some ty
     \<and> arg_typed (existing_objects bank_data) 1 [InObject bank_coin (ImmOrOwnedObject (6, 1, 0))] arg ty)
   [receipt_token, coin_token] [Result 1, Input 1]"
  using constructed_args_typed [OF bank_construct zero_rand_ok product_lists_ok bank_pool_typed] by simp

theorem by_value_not_reused_witness:
  "is_struct ([receipt_token, coin_token] ! 0) \<and> [Result 1, Input 1] ! 0 \<noteq> [Result 1, Input 1] ! 1
   \<and> (\<exists>oid. input_id (InObject bank_coin (ImmOrOwnedObject (6, 1, 0))) = Some oid \<and> oid \<notin> set (used_object_ids bank_data))"
proof -
  have base: "results_fit (fm_base bank_meta) (commands bank_sequence)" using bank_sequence_ok(2) by (simp add: bank_meta_def)
  have struct: "is_struct ([receipt_token, coin_token] ! 0)" by (simp add: is_struct_def receipt_token_def)
  have "length (inputs bank_sequence) = 1" by (simp add: bank_sequence_def)
  note use = by_value_not_reused [OF bank_from_ptb base _ zero_rand_ok, unfolded this, OF bank_construct]
  from use struct show ?thesis by auto
qed

end
