(* ===== verification/Value_Mutation.thy ===== *)
theory Value_Mutation
  imports Sequence_Edit
begin

text \<open>
  The mutation of pure values in \<open>movy-fuzz/src/mutators/mutation_utils.rs\<close>: the bytes of a value
  (\<open>sync\<close>, \<open>commit\<close>), the magic number mutator, and \<open>MutableValue\<close> with its operations
  \<open>mutate_by\<close>, \<open>mutate\<close> and \<open>sample_magic_number\<close>. The scheduled mutators of \<open>libafl\<close> are the
  record \<open>Libafl\<close>.
\<close>

unbundle bit_operations_syntax

section \<open>Little-endian bytes\<close>

definition to_le_bytes :: "nat \<Rightarrow> 'a::len word \<Rightarrow> u8 list" where
  "to_le_bytes n v = map (\<lambda>i. ucast (drop_bit (8 * i) v)) [0..<n]"

fun join_bytes :: "u8 list \<Rightarrow> 'a::len word" where
  "join_bytes [] = 0"
| "join_bytes (b # bs) = ucast b OR push_bit 8 (join_bytes bs)"

text \<open>\<open>T::from_le_bytes(bytes.try_into().unwrap())\<close> for a type of \<open>n\<close> bytes.\<close>

definition from_le_bytes :: "nat \<Rightarrow> u8 list \<Rightarrow> 'a::len word res" where
  "from_le_bytes n bs = (if length bs = n then Inr (join_bytes bs)
     else Inl (Panic ''called `Result::unwrap()` on an `Err` value: TryFromSliceError(())''))"

lemma length_to_le_bytes [simp]: "length (to_le_bytes n v) = n"
  by (simp add: to_le_bytes_def)

lemma bit_join_bytes:
  "bit (join_bytes bs :: 'a::len word) i \<longleftrightarrow>
     i < LENGTH('a) \<and> i div 8 < length bs \<and> bit (bs ! (i div 8)) (i mod 8)"
proof (induction bs arbitrary: i)
  case (Cons b bs)
  show ?case
  proof (cases "i < 8")
    case True
    then show ?thesis by (auto simp: bit_simps)
  next
    case False
    then have s: "i div 8 = Suc ((i - 8) div 8)" "(i - 8) mod 8 = i mod 8"
      by (simp_all add: le_div_geq le_mod_geq)
    moreover have "\<not> bit b i" using False by (simp add: bit_word.rep_eq)
    ultimately show ?thesis using False Cons.IH [of "i - 8"] by (auto simp: bit_simps)
  qed
qed simp

lemma join_to_le_bytes: "LENGTH('a) = 8 * n \<Longrightarrow> join_bytes (to_le_bytes n v) = (v :: 'a::len word)"
proof (rule bit_word_eqI)
  fix i assume n: "LENGTH('a) = 8 * n" and i: "i < LENGTH('a)"
  then have "i div 8 < n" by auto
  moreover have "i mod 8 + 8 * (i div 8) = i" "i mod 8 < LENGTH(8)" by simp_all
  ultimately show "bit (join_bytes (to_le_bytes n v) :: 'a word) i \<longleftrightarrow> bit v i"
    using i by (simp del: len_num0 len_num1 len_bit0 add: bit_join_bytes to_le_bytes_def bit_simps ac_simps)
qed

lemma to_le_bytes_join:
  assumes "LENGTH('a) = 8 * n" "length bs = n"
  shows "to_le_bytes n (join_bytes bs :: 'a::len word) = bs"
proof (rule nth_equalityI)
  fix k assume "k < length (to_le_bytes n (join_bytes bs :: 'a word))"
  then have k: "k < n" by simp
  show "to_le_bytes n (join_bytes bs :: 'a word) ! k = bs ! k"
  proof (rule bit_word_eqI)
    fix i assume i: "i < LENGTH(8)"
    then have "(8 * k + i) div 8 = k" "(8 * k + i) mod 8 = i" "8 * k + i < LENGTH('a)" using k assms by auto
    with k i assms(2) show "bit (to_le_bytes n (join_bytes bs :: 'a word) ! k) i \<longleftrightarrow> bit (bs ! k) i"
      by (simp add: to_le_bytes_def bit_simps bit_join_bytes ac_simps)
  qed
qed (simp add: assms)

lemma from_to_le_bytes [simp]:
  "LENGTH('a) = 8 * n \<Longrightarrow> from_le_bytes n (to_le_bytes n v) = Inr (v :: 'a::len word)"
  by (simp add: from_le_bytes_def join_to_le_bytes)

lemma from_le_bytes_eq_Inr:
  "LENGTH('a) = 8 * n \<Longrightarrow> from_le_bytes n bs = Inr (v :: 'a::len word) \<longleftrightarrow> bs = to_le_bytes n v"
  by (metis from_le_bytes_def from_to_le_bytes Inr_inject old.sum.distinct(1) to_le_bytes_join)

section \<open>The bytes of a value\<close>

fun sync :: "InputArgument \<Rightarrow> u8 list res" where
  "sync (InU128 v) = Inr (to_le_bytes 16 v)"
| "sync (InU256 v) = Inr (to_le_bytes 32 v)"
| "sync (InU64 v) = Inr (to_le_bytes 8 v)"
| "sync (InU32 v) = Inr (to_le_bytes 4 v)"
| "sync (InU16 v) = Inr (to_le_bytes 2 v)"
| "sync (InU8 v) = Inr (to_le_bytes 1 v)"
| "sync (InVector _ vs) = bindR (mapR sync vs) (\<lambda>bss. Inr (concat bss))"
| "sync _ = Inl (Panic ''internal error: entered unreachable code: type'')"

definition chunk_size :: "MoveTypeTag \<Rightarrow> nat res" where
  "chunk_size t = (case t of
      TagU8 \<Rightarrow> Inr 1 | TagU16 \<Rightarrow> Inr 2 | TagU32 \<Rightarrow> Inr 4 | TagU64 \<Rightarrow> Inr 8 | TagU128 \<Rightarrow> Inr 16
    | TagU256 \<Rightarrow> Inr 32
    | _ \<Rightarrow> Inl (Panic ''internal error: entered unreachable code''))"

text \<open>\<open>&bytes[start..end]\<close>\<close>

definition slice_range :: "'a list \<Rightarrow> nat \<Rightarrow> nat \<Rightarrow> 'a list res" where
  "slice_range xs start stop =
     (if start \<le> stop \<and> stop \<le> length xs then Inr (take (stop - start) (drop start xs))
      else Inl (Panic ''range end index out of range for slice''))"

lemma size_enumerated [termination_simp]:
  "(i, v) \<in> set (enumerate n vs) \<Longrightarrow> size v < Suc (size_list size vs)"
  by (auto simp: in_set_enumerate_eq less_Suc_eq_le intro!: size_list_estimation' nth_mem)

fun commit :: "u8 list \<Rightarrow> InputArgument \<Rightarrow> InputArgument res" where
  "commit bytes (InU128 _) = bindR (from_le_bytes 16 bytes) (\<lambda>v. Inr (InU128 v))"
| "commit bytes (InU64 _) = bindR (from_le_bytes 8 bytes) (\<lambda>v. Inr (InU64 v))"
| "commit bytes (InU32 _) = bindR (from_le_bytes 4 bytes) (\<lambda>v. Inr (InU32 v))"
| "commit bytes (InU16 _) = bindR (from_le_bytes 2 bytes) (\<lambda>v. Inr (InU16 v))"
| "commit bytes (InU8 _) = bindR (from_le_bytes 1 bytes) (\<lambda>v. Inr (InU8 v))"
| "commit bytes (InU256 _) = bindR (from_le_bytes 32 bytes) (\<lambda>v. Inr (InU256 v))"
| "commit bytes (InVector t vs) =
     bindR (mapR (\<lambda>(i, v). bindR (chunk_size t) (\<lambda>n.
              bindR (slice_range bytes (i * n) (i * n + n)) (\<lambda>chunk. commit chunk v))) (enumerate 0 vs))
       (\<lambda>ws. Inr (InVector t ws))"
| "commit bytes _ = Inl (Panic ''internal error: entered unreachable code'')"

section \<open>The magic number mutator\<close>

text \<open>A mutator of \<open>libafl\<close> changes the bytes of its input in place.\<close>

type_synonym 'r mutator = "'r \<Rightarrow> u8 list \<Rightarrow> (MutationResult \<times> u8 list \<times> 'r) res"

definition copy_from_slice :: "u8 list \<Rightarrow> u8 list \<Rightarrow> u8 list res" where
  "copy_from_slice dst src = (if length dst = length src then Inr src
     else Inl (Panic ''copy_from_slice: source slice length does not match destination slice length''))"

definition MagicNumberMutator_mutate :: "'r Rand \<Rightarrow> u8 list list \<Rightarrow> 'r mutator" where
  "MagicNumberMutator_mutate R magic_number_pool r input_bytes =
     (if magic_number_pool = [] then Inr (Skipped, input_bytes, r)
      else
       (let input_len = length input_bytes;
            fit_pool = filter (\<lambda>x. length x = input_len) magic_number_pool in
        if fit_pool = [] then Inr (Skipped, input_bytes, r)
        else case below_or_zero R (length fit_pool) r of (i, r) \<Rightarrow>
          bindR (indexR fit_pool i) (\<lambda>magic_number.
          let magic_number_len = length magic_number in
          bindR (if input_len < magic_number_len then copy_from_slice input_bytes (take input_len magic_number)
                 else copy_from_slice input_bytes (replicate (input_len - magic_number_len) 0 @ magic_number)) (\<lambda>bs.
          Inr (Mutated, bs, r)))))"

section \<open>Mutable values\<close>

record MutableValue =
  mv_value :: InputArgument
  mv_bytes :: "u8 list"

definition MutableValue_new :: "InputArgument \<Rightarrow> MutableValue" where
  "MutableValue_new value = \<lparr>mv_value = value, mv_bytes = []\<rparr>"

definition MAX_STACK_POW :: nat where "MAX_STACK_POW = 7"

record 'r Libafl =
  havoc_scheduled :: "nat \<Rightarrow> 'r mutator \<Rightarrow> 'r mutator"
  dword_interesting :: "'r mutator"

definition unwrap_result :: "'a res \<Rightarrow> 'a res" where
  "unwrap_result r = (case r of Inl (Err _) \<Rightarrow> Inl (Panic ''called `Result::unwrap()` on an `Err` value'') | _ \<Rightarrow> r)"

lemma unwrap_result_eq_Inr [simp]: "unwrap_result r = Inr x \<longleftrightarrow> r = Inr x"
  by (cases r) (auto simp: unwrap_result_def split: fault.splits)

text \<open>\<open>1 << k\<close>, which panics when \<open>k\<close> is not below the width.\<close>

definition shl_one :: "nat \<Rightarrow> 'a::len word res" where
  "shl_one k = (if k < LENGTH('a) then Inr (push_bit k 1) else Inl (Panic ''attempt to shift left with overflow''))"

definition run_scheduled :: "'r Libafl \<Rightarrow> 'r mutator \<Rightarrow> MutableValue \<Rightarrow> 'r \<Rightarrow> (MutationResult \<times> MutableValue \<times> 'r) res" where
  "run_scheduled A m self r =
     bindR (unwrap_result (havoc_scheduled A MAX_STACK_POW m r (mv_bytes self)))
       (\<lambda>(res, bs, r). Inr (res, self\<lparr>mv_bytes := bs\<rparr>, r))"

text \<open>The new bytes by their number.\<close>

definition mutate_bytes ::
  "'r Libafl \<Rightarrow> 'r Rand \<Rightarrow> MutableValue \<Rightarrow> u8 list list \<Rightarrow> bool \<Rightarrow> MutationResult \<Rightarrow> u8 list \<Rightarrow> 'r
     \<Rightarrow> (MutationResult \<times> MutableValue \<times> u8 list \<times> 'r) res" where
  "mutate_bytes A R self magic_number_pool split res bytes r =
      (if length bytes = 4 then
         (case below_or_zero R 10 r of (k, r) \<Rightarrow>
          if k > 0 then (case below_or_zero R 443636 r of (v, r) \<Rightarrow>
             Inr (Mutated, self, to_le_bytes 4 (word_of_nat v :: u32), r))
          else Inr (res, self, bytes, r))
       else if length bytes = 8 then
         (case below_or_zero R 10 r of (k, r) \<Rightarrow>
          if k > 5 then (case below_or_zero R 64 r of (s, r) \<Rightarrow>
             bindR (shl_one s :: u64 res) (\<lambda>v. Inr (Mutated, self, to_le_bytes 8 v, r)))
          else Inr (res, self, bytes, r))
       else if length bytes = 16 then
         (case below_or_zero R 10 r of (k, r) \<Rightarrow>
          if k > 0 then (case below_or_zero R 128 r of (s, r) \<Rightarrow>
             bindR (shl_one s :: u128 res) (\<lambda>v. Inr (Mutated, self, to_le_bytes 16 v, r)))
          else Inr (res, self, bytes, r))
       else if split \<and> magic_number_pool = [] then Inr (Mutated, self, to_le_bytes 8 (0 :: u64), r)
       else bindR (run_scheduled A (dword_interesting A) self r) (\<lambda>(res, self, r). Inr (res, self, bytes, r)))"

definition mutate_by ::
  "'r Libafl \<Rightarrow> 'r Rand \<Rightarrow> MutableValue \<Rightarrow> u8 list list \<Rightarrow> bool \<Rightarrow> 'r \<Rightarrow> (MutationResult \<times> MutableValue \<times> 'r) res" where
  "mutate_by A R self magic_number_pool split r =
     bindR (sync (mv_value self)) (\<lambda>bytes.
     bindR (run_scheduled A (MagicNumberMutator_mutate R magic_number_pool) self r) (\<lambda>(res, self, r).
     bindR (mutate_bytes A R self magic_number_pool split res bytes r) (\<lambda>(res, self, bytes, r).
     bindR (commit bytes (mv_value self)) (\<lambda>v. Inr (res, self\<lparr>mv_value := v\<rparr>, r)))))"

text \<open>The loop of \<open>mutate_u!\<close>: draw until the number differs from the original.\<close>

fun redraw_u8 :: "'r Rand \<Rightarrow> u8 \<Rightarrow> nat \<Rightarrow> 'r \<Rightarrow> (u8 \<times> 'r) fuelled" where
  "redraw_u8 R orig 0 r = None"
| "redraw_u8 R orig (Suc n) r =
     (case below_or_zero R 255 r of (k, r) \<Rightarrow>
      if word_of_nat k = orig then redraw_u8 R orig n r else Some (Inr (word_of_nat k, r)))"

definition mutate ::
  "'r Libafl \<Rightarrow> 'r Rand \<Rightarrow> 'm FuzzMetadata \<Rightarrow> MutableValue \<Rightarrow> u8 list list \<Rightarrow> bool \<Rightarrow> nat \<Rightarrow> 'r
     \<Rightarrow> (MutationResult \<times> MutableValue \<times> 'r) fuelled" where
  "mutate A R state self magic_number_pool split fuel r =
     (case mv_value self of
        InBool _ \<Rightarrow> (case below_or_zero R 2 r of (k, r) \<Rightarrow> Some (Inr (Mutated, self\<lparr>mv_value := InBool (k = 1)\<rparr>, r)))
      | InU8 orig \<Rightarrow> bindFR (redraw_u8 R orig fuel r) (\<lambda>(v, r). Some (Inr (Mutated, self\<lparr>mv_value := InU8 v\<rparr>, r)))
      | InU16 _ \<Rightarrow> Some (mutate_by A R self magic_number_pool split r)
      | InU32 _ \<Rightarrow> Some (mutate_by A R self magic_number_pool split r)
      | InU64 _ \<Rightarrow> Some (mutate_by A R self magic_number_pool split r)
      | InU128 _ \<Rightarrow> Some (mutate_by A R self magic_number_pool split r)
      | InU256 _ \<Rightarrow> Some (mutate_by A R self magic_number_pool split r)
      | InAddress _ \<Rightarrow>
          (case below_or_zero R 2 r of (k, r) \<Rightarrow>
           bindFR (Some (if k = 1 then get_rand_address R state r else get_rand_caller R state r)) (\<lambda>(a, r).
           Some (Inr (Mutated, self\<lparr>mv_value := InAddress a\<rparr>, r))))
      | _ \<Rightarrow> Some (Inr (Skipped, self, r)))"

definition has_magic_bytes :: "InputArgument \<Rightarrow> bool" where
  "has_magic_bytes v = (case v of
      InU8 _ \<Rightarrow> True | InU16 _ \<Rightarrow> True | InU32 _ \<Rightarrow> True | InU64 _ \<Rightarrow> True | InU128 _ \<Rightarrow> True | InU256 _ \<Rightarrow> True
    | InVector t _ \<Rightarrow> t \<in> {TagU8, TagU16, TagU32, TagU64, TagU128, TagU256}
    | _ \<Rightarrow> False)"

definition sample_magic_number ::
  "'r Rand \<Rightarrow> MutableValue \<Rightarrow> u8 list list \<Rightarrow> 'r \<Rightarrow> (MutationResult \<times> MutableValue \<times> 'r) res" where
  "sample_magic_number R self magic_number_pool r =
     (if has_magic_bytes (mv_value self) then
        bindR (sync (mv_value self)) (\<lambda>bytes.
        let fit_values = filter (\<lambda>num. length num = length bytes) magic_number_pool in
        if fit_values = [] then Inr (Skipped, self, r)
        else case rand_choose R fit_values r of (num, r) \<Rightarrow>
          bindR (unwrapR ''called `Option::unwrap()` on a `None` value'' num) (\<lambda>bytes.
          bindR (commit bytes (mv_value self)) (\<lambda>v. Inr (Mutated, self\<lparr>mv_value := v\<rparr>, r))))
      else Inr (Skipped, self, r))"

section \<open>The round trip\<close>

fun byte_len :: "InputArgument \<Rightarrow> nat option" where
  "byte_len (InU8 _) = Some 1"
| "byte_len (InU16 _) = Some 2"
| "byte_len (InU32 _) = Some 4"
| "byte_len (InU64 _) = Some 8"
| "byte_len (InU128 _) = Some 16"
| "byte_len (InU256 _) = Some 32"
| "byte_len _ = None"

text \<open>The integers, and the vectors whose elements are integers of the element type.\<close>

definition byte_shaped :: "InputArgument \<Rightarrow> bool" where
  "byte_shaped v = (case v of
     InVector t vs \<Rightarrow> list_all (\<lambda>e. byte_len e \<noteq> None \<and> InputArgument_ty e = t) vs
   | _ \<Rightarrow> byte_len v \<noteq> None)"

definition total_bytes :: "InputArgument \<Rightarrow> nat" where
  "total_bytes v = (case v of InVector _ vs \<Rightarrow> sum_list (map (\<lambda>e. the (byte_len e)) vs) | _ \<Rightarrow> the (byte_len v))"

text \<open>Two values of the same type, with elements of the same sizes when they are vectors.\<close>

definition same_shape :: "InputArgument \<Rightarrow> InputArgument \<Rightarrow> bool" where
  "same_shape v w \<longleftrightarrow> InputArgument_ty w = InputArgument_ty v \<and> byte_len w = byte_len v
     \<and> (case v of InVector t vs \<Rightarrow> (case w of InVector u ws \<Rightarrow> map byte_len ws = map byte_len vs | _ \<Rightarrow> False)
        | _ \<Rightarrow> True)"

lemma scalar_roundtrip:
  assumes "byte_len v = Some n"
  shows "sync v = Inr (case sync v of Inr bs \<Rightarrow> bs)" and "length (case sync v of Inr bs \<Rightarrow> bs) = n"
    and "length bs = n \<Longrightarrow> \<exists>w. commit bs v = Inr w \<and> sync w = Inr bs \<and> byte_len w = Some n \<and> InputArgument_ty w = InputArgument_ty v"
    and "commit bs v = Inr w \<Longrightarrow> sync w = Inr bs \<and> length bs = n"
    and "sync v = Inr bs \<Longrightarrow> commit bs v = Inr v"
  using assms by (cases v; force simp: from_le_bytes_def to_le_bytes_join join_to_le_bytes bindR_eq_Inr split: if_splits)+

lemma chunk_size_of_elem: "byte_len e = Some n \<Longrightarrow> chunk_size (InputArgument_ty e) = Inr n"
  by (cases e) (auto simp: chunk_size_def)

lemma slice_range_middle:
  "length pre = a \<Longrightarrow> length bs = n \<Longrightarrow> slice_range (pre @ bs @ post) a (a + n) = Inr bs"
  by (simp add: slice_range_def)

definition commit_elem :: "u8 list \<Rightarrow> nat \<Rightarrow> nat \<times> InputArgument \<Rightarrow> InputArgument res" where
  "commit_elem bytes n = (\<lambda>(i, v). bindR (slice_range bytes (i * n) (i * n + n)) (\<lambda>chunk. commit chunk v))"

lemma commit_elems:
  assumes "list_all (\<lambda>e. byte_len e = Some n) vs" "length bs = n * length vs" "length pre = k * n"
  shows "\<exists>ws. mapR (commit_elem (pre @ bs) n) (enumerate k vs) = Inr ws
    \<and> bindR (mapR sync ws) (\<lambda>bss. Inr (concat bss)) = Inr bs \<and> map byte_len ws = map byte_len vs"
  using assms
proof (induction vs arbitrary: k pre bs)
  case (Cons v vs)
  let ?b = "take n bs" and ?bs = "drop n bs"
  have l: "length ?b = n" "length ?bs = n * length vs" "bs = ?b @ ?bs" using Cons.prems(2) by simp_all
  from Cons.prems(1) scalar_roundtrip(3) [of v n ?b] l(1)
  obtain w where w: "commit ?b v = Inr w" "sync w = Inr ?b" "byte_len w = byte_len v" by auto
  from Cons.IH [of ?bs "pre @ ?b" "Suc k"] Cons.prems(1,3) l obtain ws where
    ws: "mapR (commit_elem ((pre @ ?b) @ ?bs) n) (enumerate (Suc k) vs) = Inr ws"
      "bindR (mapR sync ws) (\<lambda>bss. Inr (concat bss)) = Inr ?bs" "map byte_len ws = map byte_len vs" by auto
  from slice_range_middle [of pre "k * n" ?b n ?bs] Cons.prems(3) l have "commit_elem (pre @ bs) n (k, v) = Inr w"
    by (simp add: commit_elem_def w(1))
  with ws w l(3) show ?case by (auto simp: bindR_eq_Inr intro!: exI [of _ "w # ws"])
qed simp

lemma sync_elems:
  assumes "list_all (\<lambda>e. byte_len e = Some n) vs" "length pre = k * n"
  shows "\<exists>bss. mapR sync vs = Inr bss \<and> length (concat bss) = n * length vs
    \<and> mapR (commit_elem (pre @ concat bss @ post) n) (enumerate k vs) = Inr vs"
  using assms
proof (induction vs arbitrary: k pre)
  case (Cons v vs)
  from Cons.prems(1) scalar_roundtrip(1,2) [of v n] obtain b where b: "sync v = Inr b" "length b = n"
    by fastforce
  from Cons.IH [of "pre @ b" "Suc k"] Cons.prems b obtain bss where
    bss: "mapR sync vs = Inr bss" "length (concat bss) = n * length vs"
      "mapR (commit_elem ((pre @ b) @ concat bss @ post) n) (enumerate (Suc k) vs) = Inr vs" by auto
  from slice_range_middle [of pre "k * n" b n "concat bss @ post"] Cons.prems b scalar_roundtrip(5) [of v n b]
  have "commit_elem (pre @ (b @ concat bss) @ post) n (k, v) = Inr v" by (simp add: commit_elem_def)
  with bss b show ?case by auto
qed simp

lemma commit_vector:
  assumes "list_all (\<lambda>e. byte_len e = Some n \<and> InputArgument_ty e = t) vs"
  shows "commit bytes (InVector t vs) = bindR (mapR (commit_elem bytes n) (enumerate 0 vs)) (\<lambda>ws. Inr (InVector t ws))"
proof -
  have "vs = [] \<or> chunk_size t = Inr n" using assms chunk_size_of_elem by (cases vs) auto
  then show ?thesis by (auto simp: commit_elem_def)
qed

lemma same_elem_size:
  assumes "list_all (\<lambda>e. byte_len e \<noteq> None \<and> InputArgument_ty e = t) vs"
  obtains n where "list_all (\<lambda>e. byte_len e = Some n \<and> InputArgument_ty e = t) vs"
proof
  let ?n = "case chunk_size t of Inr n \<Rightarrow> n"
  show "list_all (\<lambda>e. byte_len e = Some ?n \<and> InputArgument_ty e = t) vs"
    using assms chunk_size_of_elem by (fastforce simp: list_all_iff)
qed

lemma sum_same_size: "list_all (\<lambda>e. byte_len e = Some n) vs \<Longrightarrow> sum_list (map (\<lambda>e. the (byte_len e)) vs) = n * length vs"
  by (induction vs) auto

text \<open>
  The bytes of an integer, or of a vector of integers, determine it, and writing any bytes of the same
  length into it gives a value of the same type and size that has exactly those bytes.
\<close>

lemma commit_sync:
  assumes "byte_shaped v"
  shows "(\<exists>bs. sync v = Inr bs \<and> length bs = total_bytes v \<and> commit bs v = Inr v)
    \<and> (\<forall>bs. length bs = total_bytes v \<longrightarrow> (\<exists>w. commit bs v = Inr w \<and> sync w = Inr bs \<and> same_shape v w))"
proof (cases "byte_len v")
  case None
  with assms obtain t vs where v: "v = InVector t vs" by (cases v) (auto simp: byte_shaped_def)
  with assms obtain n where n: "list_all (\<lambda>e. byte_len e = Some n \<and> InputArgument_ty e = t) vs"
    using same_elem_size by (auto simp: byte_shaped_def)
  then have e: "list_all (\<lambda>e. byte_len e = Some n) vs" by (simp add: list_all_iff)
  from sync_elems [OF e, of "[]" 0 "[]"] obtain bss where
    bss: "mapR sync vs = Inr bss" "length (concat bss) = n * length vs" "mapR (commit_elem (concat bss) n) (enumerate 0 vs) = Inr vs"
    by auto
  have "\<exists>w. commit bs v = Inr w \<and> sync w = Inr bs \<and> same_shape v w" if l: "length bs = n * length vs" for bs
    using commit_elems [OF e l, of "[]" 0] by (auto simp del: commit.simps simp: v commit_vector [OF n] same_shape_def)
  with bss show ?thesis by (simp del: commit.simps add: v commit_vector [OF n] total_bytes_def sum_same_size [OF e])
next
  case (Some n)
  then have "total_bytes v = n" "\<And>w. same_shape v w \<longleftrightarrow> InputArgument_ty w = InputArgument_ty v \<and> byte_len w = byte_len v"
    by (cases v; simp add: total_bytes_def same_shape_def)+
  with Some scalar_roundtrip(1,2,3,5) [OF Some] show ?thesis by metis
qed

section \<open>What a mutation can give\<close>

definition may_become :: "'m FuzzMetadata \<Rightarrow> InputArgument \<Rightarrow> InputArgument \<Rightarrow> bool" where
  "may_become state v w = (case v of
     InBool _ \<Rightarrow> (\<exists>b. w = InBool b)
   | InU8 a \<Rightarrow> (\<exists>b. w = InU8 b \<and> b \<noteq> a \<and> b < 255)
   | InU32 a \<Rightarrow> (\<exists>b. w = InU32 b \<and> (b = a \<or> b < 443636))
   | InU64 a \<Rightarrow> (\<exists>b. w = InU64 b \<and> (b = a \<or> (\<exists>k < 64. b = push_bit k 1)))
   | InU128 a \<Rightarrow> (\<exists>b. w = InU128 b \<and> (b = a \<or> (\<exists>k < 128. b = push_bit k 1)))
   | InAddress _ \<Rightarrow> (\<exists>a. w = InAddress a \<and> a \<in> set (addresses_pool state) \<union> set (callers_pool state))
   | _ \<Rightarrow> w = v)"

lemma run_scheduled_value: "run_scheduled A m self r = Inr (res, self', r') \<Longrightarrow> mv_value self' = mv_value self"
  by (auto simp: run_scheduled_def bindR_eq_Inr)

lemma commit_own_bytes: "byte_len v \<noteq> None \<Longrightarrow> sync v = Inr bs \<Longrightarrow> commit bs v = Inr w \<longleftrightarrow> w = v"
  using scalar_roundtrip(5) by fastforce

lemma sync_length: "byte_len v = Some n \<Longrightarrow> sync v = Inr bs \<Longrightarrow> length bs = n"
  using scalar_roundtrip(2) by fastforce

lemma word_of_small_draw: "k < 443636 \<Longrightarrow> (word_of_nat k :: u32) < 443636"
  by (simp add: word_less_nat_alt unat_of_nat)

lemma mutate_bytes_cases:
  assumes "mutate_bytes A R s1 pool split res bytes r = Inr (res', s2, bytes', r')" "rand_ok R"
  shows "mv_value s2 = mv_value s1 \<and> (bytes' = bytes
    \<or> length bytes = 4 \<and> (\<exists>v. v < 443636 \<and> bytes' = to_le_bytes 4 (word_of_nat v :: u32))
    \<or> length bytes = 8 \<and> (\<exists>k < 64. bytes' = to_le_bytes 8 (push_bit k 1 :: u64))
    \<or> length bytes = 16 \<and> (\<exists>k < 128. bytes' = to_le_bytes 16 (push_bit k 1 :: u128))
    \<or> length bytes \<notin> {4, 8, 16} \<and> length bytes' = 8)"
  using assms(1) rand_ok_below [OF assms(2), of 443636] unfolding mutate_bytes_def
  by (auto simp: bindR_eq_Inr shl_one_def dest: run_scheduled_value split: prod.splits if_splits)

lemma mutate_by_result:
  assumes "rand_ok R" "mutate_by A R self pool split r = Inr (res, self', r')"
    "byte_len (mv_value self) \<noteq> None" "\<forall>a. mv_value self \<noteq> InU8 a"
  shows "may_become state (mv_value self) (mv_value self')"
proof -
  let ?v = "mv_value self"
  from assms(2) obtain bytes res1 s1 r1 res2 s2 bytes2 r2 where b: "sync ?v = Inr bytes"
    and s1: "mv_value s1 = ?v" and body: "mutate_bytes A R s1 pool split res1 bytes r1 = Inr (res2, s2, bytes2, r2)"
    and c: "commit bytes2 (mv_value s2) = Inr (mv_value self')"
    by (auto simp: mutate_by_def bindR_eq_Inr dest: run_scheduled_value)
  note m = mutate_bytes_cases [OF body assms(1)]
  have len: "byte_len ?v = Some (length bytes)" using assms(3) b sync_length by fastforce
  have c': "commit bytes2 ?v = Inr (mv_value self')" using m c s1 by simp
  show ?thesis
  proof (cases "bytes2 = bytes")
    case True
    with commit_own_bytes [OF assms(3) b] c' have "mv_value self' = ?v" by simp
    with assms(3,4) show ?thesis by (cases ?v) (auto simp: may_become_def)
  next
    case False
    with m len assms(4) have "may_become state ?v w" if "commit bytes2 ?v = Inr w" for w
      using that word_of_small_draw
      by (cases ?v) (auto simp: may_become_def bindR_eq_Inr from_le_bytes_def join_to_le_bytes split: if_splits)
    with c' show ?thesis by blast
  qed
qed

lemma redraw_u8_result:
  "redraw_u8 R orig n r = Some (Inr (v, r')) \<Longrightarrow> rand_ok R \<Longrightarrow> v \<noteq> orig \<and> v < 255"
proof (induction n arbitrary: r)
  case (Suc n)
  obtain k s where k: "below_or_zero R 255 r = (k, s)" by fastforce
  then have "(word_of_nat k :: u8) < 255" using rand_ok_below [OF Suc.prems(2) _ k] by (simp add: word_less_nat_alt unat_of_nat)
  with Suc k show ?case by (auto split: if_splits)
qed simp

lemma get_rand_in_pool:
  "get_rand_address R state r = Inr (a, r') \<Longrightarrow> a \<in> set (addresses_pool state)"
  "get_rand_caller R state r = Inr (a, r') \<Longrightarrow> a \<in> set (callers_pool state)"
  by (auto simp: get_rand_address_def get_rand_caller_def bindR_eq_Inr indexR_def split: prod.splits if_splits)

lemma mutate_result:
  assumes "rand_ok R" "mutate A R state self pool split fuel r = Some (Inr (res, self', r'))"
  shows "may_become state (mv_value self) (mv_value self')"
proof -
  have scheduled: "\<forall>a. mv_value self \<noteq> InU8 a \<Longrightarrow> byte_len (mv_value self) \<noteq> None \<Longrightarrow>
      mutate_by A R self pool split r = Inr (res, self', r') \<Longrightarrow> ?thesis"
    using mutate_by_result [OF assms(1)] by blast
  show ?thesis
  proof (cases "mv_value self")
    case (InU8 orig)
    with assms(2) obtain v where v: "redraw_u8 R orig fuel r = Some (Inr (v, r'))" "mv_value self' = InU8 v"
      by (auto simp: mutate_def bindFR_def split: option.splits sum.splits)
    with redraw_u8_result [OF v(1) assms(1)] InU8 show ?thesis by (simp add: may_become_def)
  next
    case (InAddress a)
    with assms(2) show ?thesis
      by (auto simp: mutate_def bindFR_def may_become_def dest: get_rand_in_pool split: prod.splits sum.splits if_splits)
  qed (use assms(2) scheduled in \<open>auto simp: mutate_def may_become_def split: prod.splits\<close>)
qed

text \<open>A generator that replays a list of numbers, and scheduled mutators that do nothing.\<close>

definition scripted :: "nat list Rand" where
  "scripted = \<lparr>below_or_zero = (\<lambda>n r. case r of [] \<Rightarrow> (0, []) | k # ks \<Rightarrow> (k mod max 1 n, ks)),
     choose_index = (\<lambda>n r. case r of [] \<Rightarrow> (0, []) | k # ks \<Rightarrow> (k mod max 1 n, ks)),
     float_below_growth = (\<lambda>n r. (False, r))\<rparr>"

lemma scripted_ok: "rand_ok scripted"
  by (auto simp: rand_ok_def scripted_def max_def split: list.splits)

lemma scripted_draw: "k < n \<Longrightarrow> below_or_zero scripted n (k # ks) = (k, ks)"
  by (simp add: scripted_def)

definition idle_libafl :: "'r Libafl" where
  "idle_libafl = \<lparr>havoc_scheduled = (\<lambda>_ _ r bs. Inr (Skipped, bs, r)), dword_interesting = (\<lambda>r bs. Inr (Skipped, bs, r))\<rparr>"

lemma run_scheduled_idle [simp]: "run_scheduled idle_libafl m self r = Inr (Skipped, self, r)"
  by (simp add: run_scheduled_def idle_libafl_def unwrap_result_def)

lemma mutate_reaches:
  assumes "may_become state v w"
  shows "\<exists>r res self'. mutate idle_libafl scripted state (MutableValue_new v) pool False 1 r = Some (Inr (res, self', []))
    \<and> mv_value self' = w"
proof (cases v)
  case (InBool x)
  with assms obtain b where b: "w = InBool b" by (auto simp: may_become_def)
  show ?thesis
    by (intro exI [of _ "[if b then 1 else 0]"]) (simp add: InBool b mutate_def MutableValue_new_def scripted_draw)
next
  case (InU8 a)
  with assms obtain b where b: "w = InU8 b" "b \<noteq> a" "unat b < 255" by (auto simp: may_become_def word_less_nat_alt)
  show ?thesis
    by (intro exI [of _ "[unat b]"]) (simp add: InU8 b mutate_def MutableValue_new_def scripted_draw)
next
  case (InU32 a)
  with assms obtain b where b: "w = InU32 b" "b = a \<or> unat b < 443636" by (auto simp: may_become_def word_less_nat_alt)
  show ?thesis
    by (intro exI [of _ "if b = a then [0] else [1, unat b]"])
      (use b in \<open>auto simp: InU32 mutate_def mutate_by_def mutate_bytes_def MutableValue_new_def scripted_draw\<close>)
next
  case (InU64 a)
  with assms obtain b where b: "w = InU64 b" "b = a \<or> (\<exists>k < 64. b = push_bit k 1)" by (auto simp: may_become_def)
  show ?thesis
  proof (cases "b = a")
    case True
    show ?thesis by (intro exI [of _ "[0]"])
        (simp add: InU64 b True mutate_def mutate_by_def mutate_bytes_def MutableValue_new_def scripted_draw)
  next
    case False
    with b obtain k where "k < 64" "b = push_bit k 1" by blast
    then show ?thesis by (intro exI [of _ "[6, k]"])
        (simp add: InU64 b(1) mutate_def mutate_by_def mutate_bytes_def MutableValue_new_def scripted_draw shl_one_def)
  qed
next
  case (InU128 a)
  with assms obtain b where b: "w = InU128 b" "b = a \<or> (\<exists>k < 128. b = push_bit k 1)" by (auto simp: may_become_def)
  show ?thesis
  proof (cases "b = a")
    case True
    show ?thesis by (intro exI [of _ "[0]"])
        (simp add: InU128 b True mutate_def mutate_by_def mutate_bytes_def MutableValue_new_def scripted_draw)
  next
    case False
    with b obtain k where "k < 128" "b = push_bit k 1" by blast
    then show ?thesis by (intro exI [of _ "[1, k]"])
        (simp add: InU128 b(1) mutate_def mutate_by_def mutate_bytes_def MutableValue_new_def scripted_draw shl_one_def)
  qed
next
  case (InAddress x)
  with assms obtain a where w: "w = InAddress a" and a: "a \<in> set (addresses_pool state) \<union> set (callers_pool state)"
    by (auto simp: may_become_def)
  from a consider i where "i < length (addresses_pool state)" "addresses_pool state ! i = a"
    | i where "i < length (callers_pool state)" "callers_pool state ! i = a"
    by (auto simp: in_set_conv_nth)
  then show ?thesis
  proof cases
    case 1
    then show ?thesis by (intro exI [of _ "[1, i]"])
        (simp add: InAddress w mutate_def MutableValue_new_def scripted_draw get_rand_address_def)
  next
    case 2
    then show ?thesis by (intro exI [of _ "[0, i]"])
        (simp add: InAddress w mutate_def MutableValue_new_def scripted_draw get_rand_caller_def)
  qed
qed (use assms in \<open>auto simp: may_become_def mutate_def mutate_by_def mutate_bytes_def MutableValue_new_def intro!: exI [of _ "[]"]\<close>)

text \<open>The \<open>n\<close>-th number of the generator.\<close>

fun nth_draw :: "'r Rand \<Rightarrow> nat \<Rightarrow> nat \<Rightarrow> 'r \<Rightarrow> nat" where
  "nth_draw R m 0 r = fst (below_or_zero R m r)"
| "nth_draw R m (Suc k) r = nth_draw R m k (snd (below_or_zero R m r))"

lemma redraw_u8_stuck:
  "redraw_u8 R orig n r = None \<longleftrightarrow> (\<forall>k < n. word_of_nat (nth_draw R 255 k r) = orig)"
proof (induction n arbitrary: r)
  case (Suc n)
  obtain k s where k: "below_or_zero R 255 r = (k, s)" by fastforce
  with Suc.IH [of s] show ?case by (auto simp: All_less_Suc2)
qed simp

text \<open>
  C30: mutating a value with some random numbers can give exactly these values: any boolean; another 8-bit
  number below 255; the same 16-bit or 256-bit number, always, since the scheduled mutators work on
  the bytes of the \<open>MutableValue\<close>, which stay empty; the same 32-bit number or one below 443636; the
  same 64-bit or 128-bit number or a power of two; an address of the two pools; and any other value
  itself.
\<close>

theorem mutate_exact:
  "(\<exists>(A :: nat list Libafl) R pool split fuel r res self' r'. rand_ok R
      \<and> mutate A R state (MutableValue_new v) pool split fuel r = Some (Inr (res, self', r')) \<and> mv_value self' = w)
   \<longleftrightarrow> may_become state v w"
proof
  assume "may_become state v w"
  then show "\<exists>(A :: nat list Libafl) R pool split fuel r res self' r'. rand_ok R
      \<and> mutate A R state (MutableValue_new v) pool split fuel r = Some (Inr (res, self', r')) \<and> mv_value self' = w"
    using mutate_reaches [of state v w "[]"] scripted_ok by blast
qed (use mutate_result in \<open>fastforce simp: MutableValue_new_def\<close>)

text \<open>
  A magic number is written into an integer, or a vector of integers, exactly when the pool has one of
  its size; the value keeps its type and size and then has the bytes of a number of the pool.
\<close>

theorem sample_magic_number_exact:
  assumes "rand_ok R" "has_magic_bytes v" "byte_shaped v"
  shows "\<exists>res self' r'. sample_magic_number R (MutableValue_new v) pool r = Inr (res, self', r')
    \<and> (if \<exists>num \<in> set pool. length num = total_bytes v
       then res = Mutated \<and> same_shape v (mv_value self') \<and> (\<exists>num \<in> set pool. sync (mv_value self') = Inr num)
       else res = Skipped \<and> mv_value self' = v)"
proof -
  from commit_sync [OF assms(3)] obtain bs where bs: "sync v = Inr bs" "length bs = total_bytes v"
    and put: "\<And>num. length num = total_bytes v \<Longrightarrow> \<exists>w. commit num v = Inr w \<and> sync w = Inr num \<and> same_shape v w" by blast
  let ?fit = "filter (\<lambda>num. length num = total_bytes v) pool"
  show ?thesis
  proof (cases "?fit = []")
    case True
    then have "\<not> (\<exists>num \<in> set pool. length num = total_bytes v)" by (simp add: filter_empty_conv)
    with bs True assms(2) show ?thesis by (simp add: sample_magic_number_def MutableValue_new_def)
  next
    case False
    obtain i r1 where i: "choose_index R (length ?fit) r = (i, r1)" by fastforce
    have "max 1 (length ?fit) = length ?fit" using False by (simp add: max_def Suc_leI)
    with assms(1) i have "i < length ?fit" unfolding rand_ok_def by (metis fst_conv)
    then have "?fit ! i \<in> set ?fit" by (rule nth_mem)
    then have num: "?fit ! i \<in> set pool" "length (?fit ! i) = total_bytes v" by auto
    from put [OF num(2)] obtain w where "commit (?fit ! i) v = Inr w" "sync w = Inr (?fit ! i)" "same_shape v w" by blast
    with bs False i num assms(2) show ?thesis
      by (auto simp: sample_magic_number_def MutableValue_new_def rand_choose_def)
  qed
qed


theorem sample_magic_number_exact_witness:
  "\<exists>self' r'. sample_magic_number scripted (MutableValue_new (InVector TagU16 [InU16 1, InU16 2])) [[7], [0, 1, 255, 2]] [0]
      = Inr (Mutated, self', r') \<and> same_shape (InVector TagU16 [InU16 1, InU16 2]) (mv_value self')
    \<and> (\<exists>num \<in> set [[7], [0, 1, 255, 2]]. sync (mv_value self') = Inr num)"
proof -
  let ?v = "InVector TagU16 [InU16 1, InU16 2]"
  have "has_magic_bytes ?v" "byte_shaped ?v" "total_bytes ?v = 4"
    by (simp_all add: has_magic_bytes_def byte_shaped_def total_bytes_def)
  with sample_magic_number_exact [OF scripted_ok this(1,2), of "[[7], [0, 1, 255, 2]]" "[0]"] show ?thesis by auto
qed

end
