(* ===== verification/Solver.thy ===== *)
theory Solver
  imports Concolic Fuzz_Meta
begin

text \<open>
  Solving the logged constraints of a call in \<open>movy-fuzz/src/solver.rs\<close>: \<open>solve\<close> asserts the
  constraints and the ranges of the symbolic arguments, hands the script to a worker that runs the
  solver, and reads the values of its model back with \<open>value_from_assignment\<close>. The solver is the
  record \<open>Smt\<close>, beside the term constructors of \<open>Z3\<close>; the parsers of the \<open>ruint\<close> crate are the
  record \<open>Ruint\<close>. Strings are ASCII, as the solver prints them.
\<close>

section \<open>Reading values\<close>

definition is_ascii_space :: "char \<Rightarrow> bool" where
  "is_ascii_space c \<longleftrightarrow> c \<in> {CHR '' '', CHR 0x09, CHR 0x0A, CHR 0x0B, CHR 0x0C, CHR 0x0D}"

definition trim_by :: "(char \<Rightarrow> bool) \<Rightarrow> string \<Rightarrow> string" where
  "trim_by p s = rev (dropWhile p (rev (dropWhile p s)))"

definition str_trim :: "string \<Rightarrow> string" where
  "str_trim s = trim_by is_ascii_space s"

definition ends_with :: "char \<Rightarrow> string \<Rightarrow> bool" where
  "ends_with c s \<longleftrightarrow> s \<noteq> [] \<and> last s = c"

text \<open>\<open>split_whitespace\<close>: the maximal runs of other characters.\<close>

function split_whitespace :: "string \<Rightarrow> string list" where
  "split_whitespace [] = []"
| "split_whitespace (c # cs) =
     (if is_ascii_space c then split_whitespace cs
      else (c # takeWhile (\<lambda>c. \<not> is_ascii_space c) cs) # split_whitespace (dropWhile (\<lambda>c. \<not> is_ascii_space c) cs))"
  by pat_completeness auto

termination
  by (relation "measure length") (auto simp: length_dropWhile_le less_Suc_eq_le)

record Ruint =
  u256_from_str_radix :: "string \<Rightarrow> nat \<Rightarrow> u256 option"
  u128_from_str :: "string \<Rightarrow> u128 option"
  u256_from_str :: "string \<Rightarrow> u256 option"

definition normalize_model_value :: "string \<Rightarrow> string" where
  "normalize_model_value raw =
     (let trimmed = str_trim raw in
      if starts_with trimmed ''('' \<and> ends_with (CHR '')'') trimmed \<and> 2 \<le> length trimmed
      then filter (\<lambda>c. c \<noteq> CHR '' '') (take (length trimmed - 2) (drop 1 trimmed))
      else trimmed)"

definition parse_numeric_value :: "Ruint \<Rightarrow> string \<Rightarrow> string option" where
  "parse_numeric_value U raw =
     (let trimmed = str_trim raw in
      if starts_with trimmed ''(_ bv'' \<and> ends_with (CHR '')'') trimmed then
        (case split_whitespace (trim_by (\<lambda>c. c = CHR ''('' \<or> c = CHR '')'') trimmed) of
           first # second # _ \<Rightarrow>
             if first = ''_'' \<and> starts_with second ''bv'' then Some (drop 2 second)
             else Some (normalize_model_value trimmed)
         | _ \<Rightarrow> None)
      else if starts_with trimmed ''#x'' then
        map_option (\<lambda>v. dec (unat v)) (u256_from_str_radix U (drop 2 trimmed) 16)
      else if starts_with trimmed ''#b'' then
        map_option (\<lambda>v. dec (unat v)) (u256_from_str_radix U (drop 2 trimmed) 2)
      else Some (normalize_model_value trimmed))"

text \<open>\<open>str::parse\<close> of an unsigned integer of the standard library.\<close>

definition uint_from_str :: "nat \<Rightarrow> string \<Rightarrow> nat option" where
  "uint_from_str bits s =
     (let ds = (case s of c # cs \<Rightarrow> if c = CHR ''+'' then cs else s | [] \<Rightarrow> []) in
      if ds = [] \<or> \<not> list_all is_digit ds \<or> 2 ^ bits \<le> digits_value ds then None
      else Some (digits_value ds))"

definition bool_literal :: "string \<Rightarrow> bool option" where
  "bool_literal s = (if s = ''true'' \<or> s = ''1'' then Some True
     else if s = ''false'' \<or> s = ''0'' then Some False else None)"

definition small_value :: "Ruint \<Rightarrow> nat \<Rightarrow> string \<Rightarrow> nat option" where
  "small_value U limit raw_value =
     Option.bind (parse_numeric_value U raw_value) (\<lambda>s.
     Option.bind (uint_from_str 128 s) (\<lambda>num. if num > limit then None else Some num))"

definition value_from_assignment :: "Ruint \<Rightarrow> MoveAbiSignatureToken \<Rightarrow> string \<Rightarrow> InputArgument option res" where
  "value_from_assignment U ty raw_value =
     (case ty of
        TokBool \<Rightarrow>
          (let v = str_trim raw_value in
           Inr (map_option InBool (case bool_literal v of Some b \<Rightarrow> Some b | None \<Rightarrow> bool_literal (normalize_model_value v))))
      | TokU8 \<Rightarrow> Inr (map_option (\<lambda>n. InU8 (word_of_nat n)) (small_value U 255 raw_value))
      | TokU16 \<Rightarrow> Inr (map_option (\<lambda>n. InU16 (word_of_nat n)) (small_value U 65535 raw_value))
      | TokU32 \<Rightarrow> Inr (map_option (\<lambda>n. InU32 (word_of_nat n)) (small_value U 4294967295 raw_value))
      | TokU64 \<Rightarrow> Inr (Option.bind (parse_numeric_value U raw_value) (\<lambda>s.
          map_option InU64 (u64_from_str s)))
      | TokU128 \<Rightarrow> Inr (Option.bind (parse_numeric_value U raw_value) (\<lambda>s. map_option InU128 (u128_from_str U s)))
      | TokU256 \<Rightarrow> Inr (Option.bind (parse_numeric_value U raw_value) (\<lambda>s. map_option InU256 (u256_from_str U s)))
      | _ \<Rightarrow> Inl (Panic ''Unsupported argument type for symbolic execution''))"

section \<open>The worker\<close>

datatype SatResult = Sat | Unsat | SatUnknown

record ('i, 'b, 'm) Smt =
  smt_to_string :: "'b list \<Rightarrow> string"
  smt_decl_name :: "'i \<Rightarrow> string"
  smt_check :: "string \<Rightarrow> SatResult"
  smt_get_model :: "string \<Rightarrow> 'm option"
  smt_eval :: "'m \<Rightarrow> string \<Rightarrow> string option"

datatype SolveOutcome = SolveSat "(nat, string) btree" | SolveUnsat | SolveUnknown | SolveTimeout

definition run_solver_worker :: "('i, 'b, 'm) Smt \<Rightarrow> string \<Rightarrow> (nat, string) btree \<Rightarrow> SolveOutcome" where
  "run_solver_worker S solver_script arg_names =
     (case smt_check S solver_script of
        Sat \<Rightarrow> (case smt_get_model S solver_script of
          Some model \<Rightarrow> SolveSat (foldl (\<lambda>assignments (i, name).
              case smt_eval S model name of Some val \<Rightarrow> bt_insert i val assignments | None \<Rightarrow> assignments)
            [] arg_names)
        | None \<Rightarrow> SolveUnknown)
      | Unsat \<Rightarrow> SolveUnsat
      | SatUnknown \<Rightarrow> SolveUnknown)"

text \<open>What happens to the worker: it answers in time, it is late, or it panics first.\<close>

datatype WorkerFate = InTime | Late | Panicked

definition received :: "WorkerFate \<Rightarrow> SolveOutcome \<Rightarrow> SolveOutcome" where
  "received fate outcome = (case fate of InTime \<Rightarrow> outcome | Late \<Rightarrow> SolveTimeout | Panicked \<Rightarrow> SolveUnknown)"

section \<open>The solve function\<close>

definition upper_bound :: "('i, 'b) Z3 \<Rightarrow> MoveAbiSignatureToken \<Rightarrow> 'i res" where
  "upper_bound Z t = (case t of
      TokBool \<Rightarrow> Inr (z_from_u64 Z 1)
    | TokU8 \<Rightarrow> Inr (z_from_u64 Z 255)
    | TokU16 \<Rightarrow> Inr (z_from_u64 Z 65535)
    | TokU32 \<Rightarrow> Inr (z_from_u64 Z 4294967295)
    | TokU64 \<Rightarrow> Inr (z_from_u64 Z 18446744073709551615)
    | TokU128 \<Rightarrow> Inr (z_numeral Z 340282366920938463463374607431768211455)
    | TokU256 \<Rightarrow> Inr (z_numeral Z 115792089237316195423570985008687907853269984665640564039457584007913129639935)
    | _ \<Rightarrow> Inl (Panic ''Unsupported argument type for symbolic execution''))"

definition param_at :: "MoveAbiSignatureToken list \<Rightarrow> nat \<Rightarrow> MoveAbiSignatureToken res" where
  "param_at params i = (if i < length params then Inr (params ! i)
     else Inl (Panic ''Parameter index out of bounds for function''))"

definition assert_arg ::
  "('i, 'b, 'm) Smt \<Rightarrow> ('i, 'b) Z3 \<Rightarrow> MoveAbiSignatureToken list \<Rightarrow> 'b list \<times> (nat, string) btree \<Rightarrow> nat \<times> 'i
     \<Rightarrow> ('b list \<times> (nat, string) btree) res" where
  "assert_arg S Z function_params acc arg = (case acc of (asserted, arg_names) \<Rightarrow> case arg of (i, term) \<Rightarrow>
     bindR (param_at function_params i) (\<lambda>t.
     bindR (upper_bound Z t) (\<lambda>m.
     Inr (asserted @ [z_ge Z term (z_from_u64 Z 0), z_le Z term m], bt_insert i (smt_decl_name S term) arg_names))))"

definition read_assignment ::
  "Ruint \<Rightarrow> MoveAbiSignatureToken list \<Rightarrow> (nat, InputArgument) btree \<Rightarrow> nat \<times> string \<Rightarrow> (nat, InputArgument) btree res" where
  "read_assignment U function_params result p = (case p of (idx, raw_value) \<Rightarrow>
     bindR (param_at function_params idx) (\<lambda>ty.
     bindR (value_from_assignment U ty raw_value) (\<lambda>v.
     Inr (case v of Some value \<Rightarrow> bt_insert idx value result | None \<Rightarrow> result))))"

definition solve ::
  "('i, 'b, 'm) Smt \<Rightarrow> ('i, 'b) Z3 \<Rightarrow> Ruint \<Rightarrow> WorkerFate \<Rightarrow> MoveFunctionAbi \<Rightarrow> (nat, 'i) btree \<Rightarrow> 'b list
     \<Rightarrow> (nat, InputArgument) btree option res" where
  "solve S Z U fate function args logged =
     (if logged = [] then Inr None
      else
       bindR (foldR (assert_arg S Z (parameters function)) (logged, []) args) (\<lambda>(asserted, arg_names).
       let solver_script = smt_to_string S asserted;
           solver_outcome = received fate (run_solver_worker S solver_script arg_names) in
       if solver_outcome \<noteq> SolveTimeout \<and> fate = Panicked then Inr None
       else case solver_outcome of
           SolveSat assignments \<Rightarrow>
             bindR (foldR (read_assignment U (parameters function)) [] assignments) (\<lambda>result. Inr (Some result))
         | _ \<Rightarrow> Inr None))"

section \<open>Decimal values\<close>

lemma is_digit_code: "d < 10 \<Longrightarrow> is_digit (char_of (48 + d :: nat))"
  by (simp add: is_digit_def)

lemma dec_ne [simp]: "dec n \<noteq> []"
  by (subst dec.simps) simp

lemma dec_digits: "list_all is_digit (dec n)"
proof (induction n rule: dec.induct)
  case (1 n)
  then show ?case by (subst dec.simps) (simp add: is_digit_code)
qed

lemma digits_value_snoc: "digits_value (ds @ [c]) = 10 * digits_value ds + (of_char c - 48)"
  by (simp add: digits_value_def)

lemma digits_value_dec: "digits_value (dec n) = n"
proof (induction n rule: dec.induct)
  case (1 n)
  show ?case
  proof (cases "n < 10")
    case True
    then show ?thesis by (subst dec.simps) (simp add: digits_value_def)
  next
    case False
    with 1 have "digits_value (dec (n div 10)) = n div 10" by simp
    moreover have "n mod 10 < 10" by simp
    ultimately show ?thesis using False by (subst dec.simps) (simp add: digits_value_snoc)
  qed
qed

lemma digit_plain: "is_digit c \<Longrightarrow> \<not> is_ascii_space c \<and> c \<noteq> CHR ''('' \<and> c \<noteq> CHR ''#'' \<and> c \<noteq> CHR ''+''"
  by (auto simp: is_digit_def is_ascii_space_def)

lemma dec_hd: "is_digit (hd (dec n))" and dec_last: "is_digit (last (dec n))"
  using dec_digits [of n] dec_ne [of n] by (auto simp: list_all_iff)

lemma trim_dec [simp]: "str_trim (dec n) = dec n"
proof -
  have "dropWhile is_ascii_space (dec n) = dec n"
    using digit_plain [OF dec_hd [of n]] dec_ne by (metis dropWhile.simps(2) list.collapse)
  moreover have "dropWhile is_ascii_space (rev (dec n)) = rev (dec n)"
    using digit_plain [OF dec_last [of n]] dec_ne by (metis dropWhile.simps(2) hd_rev list.collapse rev_is_Nil_conv)
  ultimately show ?thesis by (simp add: str_trim_def trim_by_def)
qed

lemma dec_no_prefix: "\<not> is_digit c \<Longrightarrow> \<not> starts_with (dec n) (c # pre)"
  using dec_hd [of n] by (cases "dec n") (auto simp: starts_with_def)

lemma normalize_dec [simp]: "normalize_model_value (dec n) = dec n"
  using dec_no_prefix [of "CHR ''(''" n "[]"] digit_plain by (auto simp: normalize_model_value_def Let_def)

lemma parse_numeric_dec [simp]: "parse_numeric_value U (dec n) = Some (dec n)"
proof -
  have "\<not> is_digit (CHR ''('')" "\<not> is_digit (CHR ''#'')" using digit_plain by blast+
  then show ?thesis by (simp add: parse_numeric_value_def Let_def dec_no_prefix)
qed

lemma dec_not_plus: "(case dec n of c # cs \<Rightarrow> if c = CHR ''+'' then cs else dec n | [] \<Rightarrow> []) = dec n"
  using digit_plain [OF dec_hd [of n]] by (cases "dec n") auto

lemma uint_from_dec [simp]: "n < 2 ^ bits \<Longrightarrow> uint_from_str bits (dec n) = Some n"
  by (simp add: uint_from_str_def dec_not_plus digits_value_dec dec_digits)

lemma u64_from_dec [simp]: "n < 2 ^ 64 \<Longrightarrow> u64_from_str (dec n) = Some (word_of_nat n)"
  by (simp add: u64_from_str_def dec_not_plus digits_value_dec dec_digits)

text \<open>The documented parsers of \<open>ruint\<close> read decimal numbers.\<close>

definition ruint_ok :: "Ruint \<Rightarrow> bool" where
  "ruint_ok U \<longleftrightarrow> (\<forall>n < 2 ^ 128. u128_from_str U (dec n) = Some (word_of_nat n))
     \<and> (\<forall>n < 2 ^ 256. u256_from_str U (dec n) = Some (word_of_nat n))"

text \<open>The number that an integer or a boolean stands for.\<close>

fun value_number :: "InputArgument \<Rightarrow> nat option" where
  "value_number (InBool b) = Some (of_bool b)"
| "value_number (InU8 v) = Some (unat v)"
| "value_number (InU16 v) = Some (unat v)"
| "value_number (InU32 v) = Some (unat v)"
| "value_number (InU64 v) = Some (unat v)"
| "value_number (InU128 v) = Some (unat v)"
| "value_number (InU256 v) = Some (unat v)"
| "value_number _ = None"

fun max_number :: "MoveAbiSignatureToken \<Rightarrow> nat option" where
  "max_number TokBool = Some 1"
| "max_number TokU8 = Some (2 ^ 8 - 1)"
| "max_number TokU16 = Some (2 ^ 16 - 1)"
| "max_number TokU32 = Some (2 ^ 32 - 1)"
| "max_number TokU64 = Some (2 ^ 64 - 1)"
| "max_number TokU128 = Some (2 ^ 128 - 1)"
| "max_number TokU256 = Some (2 ^ 256 - 1)"
| "max_number _ = None"

lemma dec_01: "dec 0 = ''0''" "dec 1 = ''1''"
  by code_simp+

lemma bool_dec: "n \<le> 1 \<Longrightarrow> bool_literal (dec n) = Some (n = 1)"
  using dec_01 by (cases "n = 0") (auto simp: bool_literal_def le_Suc_eq)

lemma value_from_dec:
  assumes "max_number ty = Some m" "n \<le> m" "ruint_ok U"
  shows "\<exists>v. value_from_assignment U ty (dec n) = Inr (Some v) \<and> value_number v = Some n
    \<and> subst ty (\<lambda>_. None) = Some (InputArgument_ty v)"
  using assms by (cases ty) (auto simp: value_from_assignment_def small_value_def bool_dec ruint_ok_def unat_of_nat)

section \<open>Soundness of solving\<close>

text \<open>
  The documented behaviour of the solver on one list of assertions: its model makes them true, and it
  prints the value of a constant in decimal when it is not negative.
\<close>

definition smt_sound :: "('i, 'b, 'm) Smt \<Rightarrow> ('i, 'b) Z3 \<Rightarrow> 'b list \<Rightarrow> bool" where
  "smt_sound S Z asserted \<longleftrightarrow> (\<forall>model.
     smt_check S (smt_to_string S asserted) = Sat \<and> smt_get_model S (smt_to_string S asserted) = Some model \<longrightarrow>
     (\<exists>ev evb. z3_semantics Z ev evb \<and> (\<forall>b \<in> set asserted. evb b)
        \<and> (\<forall>n. 0 \<le> ev (z_new_const Z n) \<longrightarrow> smt_eval S model n = Some (dec (nat (ev (z_new_const Z n)))))))"

text \<open>The same for the assertions of one call of \<open>solve\<close>.\<close>

definition smt_sound_for ::
  "('i, 'b, 'm) Smt \<Rightarrow> ('i, 'b) Z3 \<Rightarrow> MoveFunctionAbi \<Rightarrow> (nat, 'i) btree \<Rightarrow> 'b list \<Rightarrow> bool" where
  "smt_sound_for S Z f args logged \<longleftrightarrow> (\<forall>asserted names.
     foldR (assert_arg S Z (parameters f)) (logged, []) args = Inr (asserted, names) \<longrightarrow> smt_sound S Z asserted)"

text \<open>The symbolic arguments are constants that carry their names.\<close>

definition named_args :: "('i, 'b, 'm) Smt \<Rightarrow> ('i, 'b) Z3 \<Rightarrow> (nat, 'i) btree \<Rightarrow> bool" where
  "named_args S Z args \<longleftrightarrow> (\<forall>(i, t) \<in> set args. t = z_new_const Z (smt_decl_name S t))"

lemma upper_bound_max:
  assumes "upper_bound Z ty = Inr b" "z3_semantics Z ev evb"
  obtains m where "max_number ty = Some m" "ev b = int m"
  using assms(1) z3_semantics.ev_from_u64 [OF assms(2)] z3_semantics.ev_numeral [OF assms(2)]
  by (cases ty) (auto simp: upper_bound_def)

text \<open>Inserting the entries of an ordered map one by one, with their values changed, keeps their order.\<close>

lemma foldR_bt_insert:
  assumes "foldR f m xs = Inr m'" "sorted_wrt (<) (bt_keys m @ bt_keys xs)"
    and "\<And>m k v m'. (k, v) \<in> set xs \<Longrightarrow> f m (k, v) = Inr m' \<Longrightarrow> \<exists>w. P k v w \<and> m' = bt_insert k w m"
  shows "\<exists>ws. m' = m @ ws \<and> list_all2 (\<lambda>(k, v) (k', w). k' = k \<and> P k v w) xs ws"
  using assms
proof (induction xs arbitrary: m)
  case (Cons x xs)
  obtain k v where x: "x = (k, v)" by fastforce
  from Cons.prems(1) obtain t where t: "f m x = Inr t" "foldR f t xs = Inr m'" by (auto simp: bindR_eq_Inr)
  with Cons.prems(3) [of k v m t] x obtain w where w: "P k v w" "t = bt_insert k w m" by auto
  have "\<forall>k' \<in> set (bt_keys m). k' < k"
    using Cons.prems(2) x by (simp add: sorted_wrt_append)
  then have tm: "t = m @ [(k, w)]" by (simp add: w(2) bt_insert_last)
  have "\<exists>ws. m' = t @ ws \<and> list_all2 (\<lambda>(k, v) (k', w). k' = k \<and> P k v w) xs ws"
    by (rule Cons.IH [OF t(2)]) (use Cons.prems x tm in auto)
  with w(1) x tm show ?case by auto
qed simp

lemma assert_arg_Inr:
  "assert_arg S Z params (asserted, names) (i, t) = Inr acc \<longleftrightarrow> i < length params \<and>
     (\<exists>b. upper_bound Z (params ! i) = Inr b
        \<and> acc = (asserted @ [z_ge Z t (z_from_u64 Z 0), z_le Z t b], bt_insert i (smt_decl_name S t) names))"
  by (auto simp: assert_arg_def param_at_def bindR_eq_Inr split: if_splits)

lemma assert_args:
  assumes "foldR (assert_arg S Z params) (asserted, names) args = Inr (asserted', names')"
    "sorted_wrt (<) (bt_keys names @ bt_keys args)"
  shows "names' = names @ map (\<lambda>(i, t). (i, smt_decl_name S t)) args \<and> set asserted \<subseteq> set asserted'
    \<and> (\<forall>(i, t) \<in> set args. i < length params \<and> (\<exists>b. upper_bound Z (params ! i) = Inr b
         \<and> {z_ge Z t (z_from_u64 Z 0), z_le Z t b} \<subseteq> set asserted'))"
  using assms
proof (induction args arbitrary: asserted names)
  case (Cons x args)
  obtain i t where x: "x = (i, t)" by fastforce
  from Cons.prems(1) x obtain b where b: "i < length params" "upper_bound Z (params ! i) = Inr b"
    and rest: "foldR (assert_arg S Z params) (asserted @ [z_ge Z t (z_from_u64 Z 0), z_le Z t b],
        bt_insert i (smt_decl_name S t) names) args = Inr (asserted', names')"
    by (auto simp: assert_arg_Inr bindR_eq_Inr)
  have n: "bt_insert i (smt_decl_name S t) names = names @ [(i, smt_decl_name S t)]"
    using Cons.prems(2) x by (intro bt_insert_last) (simp add: sorted_wrt_append)
  from Cons.IH [OF rest] Cons.prems(2) x n b show ?case by auto
qed simp

lemma worker_assignments:
  assumes "\<forall>(i, n) \<in> set names. smt_eval S model n = Some (g n)" "sorted_wrt (<) (bt_keys m @ bt_keys names)"
  shows "foldl (\<lambda>assignments (i, name).
      case smt_eval S model name of Some val \<Rightarrow> bt_insert i val assignments | None \<Rightarrow> assignments) m names
    = m @ map (\<lambda>(i, n). (i, g n)) names"
  using assms
proof (induction names arbitrary: m)
  case (Cons x names)
  obtain i n where x: "x = (i, n)" by fastforce
  have "bt_insert i (g n) m = m @ [(i, g n)]"
    using Cons.prems(2) x by (intro bt_insert_last) (simp add: sorted_wrt_append)
  with Cons x show ?case by simp
qed simp


lemma solve_found:
  assumes "solve S Z U fate f args logged = Inr (Some result)"
  obtains asserted names model where "foldR (assert_arg S Z (parameters f)) (logged, []) args = Inr (asserted, names)"
    "smt_check S (smt_to_string S asserted) = Sat" "smt_get_model S (smt_to_string S asserted) = Some model"
    "foldR (read_assignment U (parameters f)) [] (foldl (\<lambda>assignments (i, name).
        case smt_eval S model name of Some val \<Rightarrow> bt_insert i val assignments | None \<Rightarrow> assignments) [] names)
      = Inr result"
proof -
  from assms obtain asserted names where a: "foldR (assert_arg S Z (parameters f)) (logged, []) args = Inr (asserted, names)"
    and b: "(let solver_script = smt_to_string S asserted;
           solver_outcome = received fate (run_solver_worker S solver_script names) in
       if solver_outcome \<noteq> SolveTimeout \<and> fate = Panicked then Inr None
       else case solver_outcome of
           SolveSat assignments \<Rightarrow>
             bindR (foldR (read_assignment U (parameters f)) [] assignments) (\<lambda>result. Inr (Some result))
         | _ \<Rightarrow> Inr None) = Inr (Some result)"
    by (auto simp: solve_def bindR_eq_Inr split: if_splits)
  then obtain as where "run_solver_worker S (smt_to_string S asserted) names = SolveSat as"
    "foldR (read_assignment U (parameters f)) [] as = Inr result"
    by (auto simp: received_def Let_def bindR_eq_Inr split: WorkerFate.splits SolveOutcome.splits)
  with a that show ?thesis
    by (auto simp: run_solver_worker_def split: SatResult.splits option.splits)
qed

lemma named_assignments:
  assumes "named_args S Z args" "names = map (\<lambda>(i, t). (i, smt_decl_name S t)) args"
  shows "map (\<lambda>(i, n). (i, g (z_new_const Z n))) names = map (\<lambda>(i, t). (i, g t)) args"
proof -
  have "g (z_new_const Z (smt_decl_name S t)) = g t" if "(i, t) \<in> set args" for i t
    using assms(1) that by (force simp: named_args_def)
  then show ?thesis by (auto simp: assms(2))
qed

lemma solve_model:
  assumes "solve S Z U fate f args logged = Inr (Some result)" "bt_wf args" "named_args S Z args"
    "smt_sound_for S Z f args logged"
  obtains ev evb where "z3_semantics Z ev evb" "\<forall>c \<in> set logged. evb c"
    "\<forall>i t. (i, t) \<in> set args \<longrightarrow>
       i < length (parameters f) \<and> (\<exists>m. max_number (parameters f ! i) = Some m \<and> 0 \<le> ev t \<and> ev t \<le> int m)"
    "foldR (read_assignment U (parameters f)) [] (map (\<lambda>(i, t). (i, dec (nat (ev t)))) args) = Inr result"
proof -
  from solve_found [OF assms(1)] obtain asserted names model where
    a: "foldR (assert_arg S Z (parameters f)) (logged, []) args = Inr (asserted, names)"
    and sat: "smt_check S (smt_to_string S asserted) = Sat" "smt_get_model S (smt_to_string S asserted) = Some model"
    and read: "foldR (read_assignment U (parameters f)) [] (foldl (\<lambda>assignments (i, name).
        case smt_eval S model name of Some val \<Rightarrow> bt_insert i val assignments | None \<Rightarrow> assignments) [] names) = Inr result"
    by blast
  from assms(4) a sat obtain ev evb where ev: "z3_semantics Z ev evb" "\<forall>b \<in> set asserted. evb b"
    and dec: "\<And>n. 0 \<le> ev (z_new_const Z n) \<Longrightarrow> smt_eval S model n = Some (dec (nat (ev (z_new_const Z n))))"
    unfolding smt_sound_for_def smt_sound_def by blast
  have srt: "sorted_wrt (<) (bt_keys args)" using assms(2) by (simp add: bt_wf_def)
  note as = assert_args [OF a, simplified, OF srt]
  have bound: "i < length (parameters f) \<and> (\<exists>m. max_number (parameters f ! i) = Some m \<and> 0 \<le> ev t \<and> ev t \<le> int m)"
    if it: "(i, t) \<in> set args" for i t
  proof -
    from as it obtain b where b: "i < length (parameters f)" "upper_bound Z (parameters f ! i) = Inr b"
      "z_ge Z t (z_from_u64 Z 0) \<in> set asserted" "z_le Z t b \<in> set asserted" by fastforce
    from upper_bound_max [OF b(2) ev(1)] obtain m where m: "max_number (parameters f ! i) = Some m" "ev b = int m" by blast
    from b(3,4) ev m z3_semantics.evb_ge [OF ev(1)] z3_semantics.evb_le [OF ev(1)] z3_semantics.ev_from_u64 [OF ev(1)]
    have "0 \<le> ev t" "ev t \<le> int m" by force+
    with b(1) m show ?thesis by blast
  qed
  have n: "names = map (\<lambda>(i, t). (i, smt_decl_name S t)) args" using as by simp
  have "\<forall>(i, n) \<in> set names. smt_eval S model n = Some (dec (nat (ev (z_new_const Z n))))"
    using n bound assms(3) dec by (fastforce simp: named_args_def)
  moreover have "bt_keys names = bt_keys args" using n by (simp add: case_prod_beta comp_def)
  ultimately have "foldl (\<lambda>assignments (i, name).
        case smt_eval S model name of Some val \<Rightarrow> bt_insert i val assignments | None \<Rightarrow> assignments) [] names
      = map (\<lambda>(i, n). (i, dec (nat (ev (z_new_const Z n))))) names"
    using worker_assignments [of names S model "\<lambda>n. dec (nat (ev (z_new_const Z n)))" "[]"] srt by simp
  also have "\<dots> = map (\<lambda>(i, t). (i, dec (nat (ev t)))) args"
    by (rule named_assignments [OF assms(3) n, of "\<lambda>t. dec (nat (ev t))"])
  finally have r: "foldR (read_assignment U (parameters f)) [] (map (\<lambda>(i, t). (i, dec (nat (ev t)))) args) = Inr result"
    using read by simp
  have "\<forall>c \<in> set logged. evb c" using ev(2) as by blast
  with r bound show ?thesis by (intro that [OF ev(1)]) blast+
qed

text \<open>
  C10: when solving returns values, some interpretation of the terms makes every logged constraint true and
  gives each symbolic argument a number; the values are one for each argument, each of the type of its
  parameter and equal to that number.
\<close>

theorem solve_sound:
  assumes "solve S Z U fate f args logged = Inr (Some result)" "bt_wf args" "named_args S Z args" "ruint_ok U"
    "smt_sound_for S Z f args logged"
  shows "\<exists>ev evb. z3_semantics Z ev evb \<and> (\<forall>c \<in> set logged. evb c)
    \<and> list_all2 (\<lambda>(i, t) (j, v). j = i \<and> map_option int (value_number v) = Some (ev t)
        \<and> subst (parameters f ! i) (\<lambda>_. None) = Some (InputArgument_ty v)) args result"
proof -
  from solve_model [OF assms(1,2,3,5)] obtain ev evb where ev: "z3_semantics Z ev evb" "\<forall>c \<in> set logged. evb c"
    and bound: "\<forall>i t. (i, t) \<in> set args \<longrightarrow>
       i < length (parameters f) \<and> (\<exists>m. max_number (parameters f ! i) = Some m \<and> 0 \<le> ev t \<and> ev t \<le> int m)"
    and read: "foldR (read_assignment U (parameters f)) [] (map (\<lambda>(i, t). (i, dec (nat (ev t)))) args) = Inr result"
    by blast
  let ?P = "\<lambda>i s v. subst (parameters f ! i) (\<lambda>_. None) = Some (InputArgument_ty v) \<and> value_number v \<noteq> None
      \<and> s = dec (the (value_number v))"
  have "\<exists>ws. result = [] @ ws \<and> list_all2 (\<lambda>(k, v) (k', w). k' = k \<and> ?P k v w) (map (\<lambda>(i, t). (i, dec (nat (ev t)))) args) ws"
  proof (rule foldR_bt_insert [OF read])
    show "sorted_wrt (<) (bt_keys [] @ bt_keys (map (\<lambda>(i, t). (i, dec (nat (ev t)))) args))"
      using assms(2) by (simp add: bt_wf_def case_prod_beta comp_def)
    fix m k s m' assume "(k, s) \<in> set (map (\<lambda>(i, t). (i, dec (nat (ev t)))) args)"
      and step: "read_assignment U (parameters f) m (k, s) = Inr m'"
    then obtain t where t: "(k, t) \<in> set args" "s = dec (nat (ev t))" by auto
    from bound t(1) obtain n where "k < length (parameters f)" "max_number (parameters f ! k) = Some n" "nat (ev t) \<le> n"
      by (auto simp: nat_le_iff)
    with value_from_dec [OF _ _ assms(4)] step t(2) show "\<exists>w. ?P k s w \<and> m' = bt_insert k w m"
      by (fastforce simp: read_assignment_def param_at_def bindR_eq_Inr)
  qed
  then obtain ws where ws: "result = ws"
    "list_all2 (\<lambda>(k, v) (k', w). k' = k \<and> ?P k v w) (map (\<lambda>(i, t). (i, dec (nat (ev t)))) args) ws" by auto
  have inj: "dec a = dec b \<Longrightarrow> a = b" for a b by (metis digits_value_dec)
  have "list_all2 (\<lambda>(i, t) (j, v). j = i \<and> map_option int (value_number v) = Some (ev t)
        \<and> subst (parameters f ! i) (\<lambda>_. None) = Some (InputArgument_ty v)) args ws"
  proof (rule list_all2_all_nthI)
    show len: "length args = length ws" using list_all2_lengthD [OF ws(2)] by simp
    fix n assume "n < length args"
    moreover obtain i t j v where ij: "args ! n = (i, t)" "ws ! n = (j, v)" by fastforce
    moreover have "(i, t) \<in> set args" using ij(1) calculation(1) by (metis nth_mem)
    ultimately show "(case args ! n of (i, t) \<Rightarrow> \<lambda>(j, v). j = i \<and> map_option int (value_number v) = Some (ev t)
        \<and> subst (parameters f ! i) (\<lambda>_. None) = Some (InputArgument_ty v)) (ws ! n)"
      using list_all2_nthD [OF ws(2), of n] len bound inj by fastforce
  qed
  with ev ws(1) show ?thesis by blast
qed

definition checked_function :: MoveFunctionAbi where
  "checked_function = \<lparr>fn_name = ''check'', parameters = [TokU8], return_paramters = [], fn_type_parameters = [],
     visibility = Public, is_entry = True\<rparr>"

definition demo_ruint :: Ruint where
  "demo_ruint = \<lparr>u256_from_str_radix = (\<lambda>_ _. None), u128_from_str = (\<lambda>s. map_option word_of_nat (uint_from_str 128 s)),
     u256_from_str = (\<lambda>s. map_option word_of_nat (uint_from_str 256 s))\<rparr>"

definition demo_smt :: "(assignment \<Rightarrow> int, assignment \<Rightarrow> bool, assignment) Smt" where
  "demo_smt = \<lparr>smt_to_string = (\<lambda>_. ''''), smt_decl_name = (\<lambda>_. ''0.0''), smt_check = (\<lambda>_. Sat),
     smt_get_model = (\<lambda>_. Some (\<lambda>_. 7)), smt_eval = (\<lambda>\<rho> n. Some (dec (nat (\<rho> n))))\<rparr>"

lemma demo_solve:
  "solve demo_smt den_api demo_ruint InTime checked_function [(0, z_new_const den_api ''0.0'')] [\<lambda>\<rho>. \<rho> ''0.0'' > 5]
     = Inr (Some [(0, InU8 7)])"
proof -
  have "value_from_assignment demo_ruint TokU8 (dec 7) = Inr (Some (InU8 7))"
    by (simp add: value_from_assignment_def small_value_def)
  then show ?thesis
    by (simp add: solve_def demo_smt_def checked_function_def assert_arg_def param_at_def upper_bound_def received_def
        run_solver_worker_def read_assignment_def)
qed

theorem solve_sound_witness:
  "\<exists>ev evb. z3_semantics den_api ev evb \<and> evb (\<lambda>\<rho>. \<rho> ''0.0'' > 5) \<and> ev (z_new_const den_api ''0.0'') = 7"
proof -
  let ?args = "[(0, z_new_const den_api ''0.0'')]" and ?logged = "[\<lambda>\<rho> :: assignment. \<rho> ''0.0'' > 5]"
  have "smt_sound_for demo_smt den_api checked_function ?args ?logged"
    unfolding smt_sound_for_def smt_sound_def
    by (auto simp: demo_smt_def checked_function_def assert_arg_Inr bindR_eq_Inr upper_bound_def den_api_def
        intro!: exI [of _ "\<lambda>t. t (\<lambda>_. 7)"] den_semantics [unfolded den_api_def])
  moreover have "ruint_ok demo_ruint" by (simp add: ruint_ok_def demo_ruint_def)
  moreover have "named_args demo_smt den_api ?args" by (simp add: named_args_def demo_smt_def)
  moreover have "bt_wf ?args" by (simp add: bt_wf_Cons)
  ultimately show ?thesis using solve_sound [OF demo_solve] by auto
qed

end
