(* ===== verification/Arg_Mutation.thy ===== *)
theory Arg_Mutation
  imports Value_Mutation Solver Fuzz_Tracer
begin

text \<open>
  The mutation of the arguments of a sequence: the stage replay and the candidate selection of
  \<open>movy-fuzz/src/mutators/utils.rs\<close>, the magic number pool of \<open>input.rs\<close>, and the argument mutator of
  \<open>mutators/arg.rs\<close>, which mutates a value or replaces it by a solution of the logged constraints.
  The printer and the parser of addresses, and the hash of a sequence, are parameters.
\<close>

section \<open>Stage replay\<close>

definition MAX_STAGE_REPLAY_ATTEMPTS :: nat where "MAX_STAGE_REPLAY_ATTEMPTS = 30"

datatype StageReplayAction = Fresh | Replay (replay_stage_idx: nat) (replay_snapshot: MoveSequence)

record StageReplay =
  sr_kind :: MutatorKind
  cached :: "MoveSequence option"
  cached_fingerprint :: "u64 option"
  sr_stage_idx :: "nat option"
  attempts :: nat

definition StageReplay_new :: "MutatorKind \<Rightarrow> StageReplay" where
  "StageReplay_new kind = \<lparr>sr_kind = kind, cached = None, cached_fingerprint = None, sr_stage_idx = None, attempts = 0\<rparr>"

definition record_success :: "MoveSequence \<Rightarrow> StageReplay \<Rightarrow> StageReplay" where
  "record_success ptb self = self\<lparr>cached := Some ptb\<rparr>"

definition invalidate_cache :: "StageReplay \<Rightarrow> StageReplay" where
  "invalidate_cache self = self\<lparr>cached := None, cached_fingerprint := None\<rparr>"

definition reset_progress :: "StageReplay \<Rightarrow> StageReplay" where
  "reset_progress self = self\<lparr>sr_stage_idx := None, attempts := 0\<rparr>"

definition restart_progress :: "StageReplay \<Rightarrow> StageReplay" where
  "restart_progress self = self\<lparr>sr_stage_idx := Some 0, attempts := 0\<rparr>"

record ('i, 'b) ExecutionExtraOutcome =
  ex_logs :: "(FunctionIdent, 'b Log list) btree"
  ex_solver :: "'i ConcolicState"
  ex_stage_idx :: "nat option"
  ex_success :: bool

definition decide ::
  "MutatorKind option \<Rightarrow> ('i, 'b) ExecutionExtraOutcome option \<Rightarrow> u64 \<Rightarrow> StageReplay \<Rightarrow> StageReplayAction \<times> StageReplay" where
  "decide current run current_fingerprint self =
     (if (case cached_fingerprint self of Some fp \<Rightarrow> fp \<noteq> current_fingerprint | None \<Rightarrow> False) then
        (Fresh, (reset_progress (invalidate_cache self))\<lparr>cached_fingerprint := Some current_fingerprint\<rparr>)
      else
        let self = (if cached_fingerprint self = None then self\<lparr>cached_fingerprint := Some current_fingerprint\<rparr> else self) in
        if current \<noteq> Some (sr_kind self) then (Fresh, reset_progress self)
        else case run of
          None \<Rightarrow> (Fresh, reset_progress self)
        | Some ex \<Rightarrow> (case ex_stage_idx ex of
            None \<Rightarrow> (Fresh, reset_progress self)
          | Some stage_idx \<Rightarrow>
              let prev_stage = sr_stage_idx self;
                  self = self\<lparr>sr_stage_idx := (case prev_stage of
                    Some current \<Rightarrow> if stage_idx > current then Some (current + 1) else Some stage_idx
                  | None \<Rightarrow> Some stage_idx)\<rparr>;
                  self = (if sr_stage_idx self \<noteq> prev_stage then self\<lparr>attempts := 0\<rparr> else self);
                  self = self\<lparr>attempts := attempts self + 1\<rparr>;
                  self = (if attempts self \<ge> MAX_STAGE_REPLAY_ATTEMPTS then restart_progress self else self) in
              (case cached self of
                 Some ptb \<Rightarrow> (Replay (the (sr_stage_idx self)) ptb, self)
               | None \<Rightarrow> (Fresh, self))))"

section \<open>The magic number pool\<close>

type_synonym magic_pool = "(string, (string, (string, u8 list list) btree) btree) btree"

record 'o MoveFuzzInput =
  in_sequence :: MoveSequence
  in_outcome :: "'o option"
  in_magic_number_pool :: magic_pool
  in_flash :: "FlashWrapper option"
  in_display :: "string option"

definition MoveFuzzInput_default :: "'o MoveFuzzInput" where
  "MoveFuzzInput_default = \<lparr>in_sequence = \<lparr>inputs = [], commands = []\<rparr>, in_outcome = None,
     in_magic_number_pool = [], in_flash = None, in_display = None\<rparr>"

fun magic_bytes :: "Magic \<Rightarrow> u8 list option" where
  "magic_bytes (MagicU8 v) = Some [v]"
| "magic_bytes (MagicU16 v) = Some (to_le_bytes 2 v)"
| "magic_bytes (MagicU32 v) = Some (to_le_bytes 4 v)"
| "magic_bytes (MagicU64 v) = Some (to_le_bytes 8 v)"
| "magic_bytes (MagicU128 v) = Some (to_le_bytes 16 v)"
| "magic_bytes (MagicU256 v) = Some (to_le_bytes 32 v)"
| "magic_bytes (MagicBytes v) = (if v = [] then None else Some v)"

definition insert_magic :: "u8 list list \<Rightarrow> Magic \<Rightarrow> u8 list list" where
  "insert_magic function_pool magic =
     (case magic_bytes magic of Some bs \<Rightarrow> insort_insert bs function_pool | None \<Rightarrow> function_pool)"

definition insert_log :: "u8 list list \<Rightarrow> 'b Log \<Rightarrow> u8 list list" where
  "insert_log function_pool log = (case log of
     CmpLog lhs rhs op _ \<Rightarrow>
       if op = EQ \<or> op = GE \<or> op = LE then insert_magic (insert_magic function_pool lhs) rhs else function_pool
   | _ \<Rightarrow> function_pool)"

definition or_default :: "'v list option \<Rightarrow> 'v list" where
  "or_default v = (case v of Some x \<Rightarrow> x | None \<Rightarrow> [])"

definition add_function_pool ::
  "(MoveAddress \<Rightarrow> string) \<Rightarrow> magic_pool \<Rightarrow> FunctionIdent \<times> 'b Log list \<Rightarrow> magic_pool" where
  "add_function_pool addr pool entry = (case entry of (f, cmps) \<Rightarrow>
     let pkg = addr (module_address (ident_module f));
         module = mod_name (ident_module f);
         func = ident_function f;
         module_map = or_default (bt_get pool pkg);
         func_map = or_default (bt_get module_map module);
         function_pool = foldl insert_log (or_default (bt_get func_map func)) cmps in
     bt_insert pkg (bt_insert module (bt_insert func function_pool func_map) module_map) pool)"

definition update_magic_number ::
  "(MoveAddress \<Rightarrow> string) \<Rightarrow> ('i, 'b) ExecutionExtraOutcome \<Rightarrow> 'o MoveFuzzInput \<Rightarrow> 'o MoveFuzzInput" where
  "update_magic_number addr ex self =
     self\<lparr>in_magic_number_pool := foldl (add_function_pool addr) [] (ex_logs ex)\<rparr>"

definition magic_number_pool ::
  "(string \<Rightarrow> MoveAddress option) \<Rightarrow> 'm FuzzMetadata \<Rightarrow> 'o MoveFuzzInput \<Rightarrow> (FunctionIdent, u8 list list) btree res" where
  "magic_number_pool parse meta self =
     foldR (\<lambda>res (pkg, module_map).
       bindR (unwrapR ''called `Result::unwrap()` on an `Err` value'' (parse pkg)) (\<lambda>p.
       let p = resolved_package (fm_base meta) p in
       Inr (foldl (\<lambda>res (module, func_map).
              foldl (\<lambda>res (func, cmps).
                bt_insert (FunctionIdent_new p module func) cmps res) res func_map)
            res module_map)))
     [] (in_magic_number_pool self)"


section \<open>Candidates\<close>

definition flash_command_limits :: "FlashProvider option \<Rightarrow> nat \<times> nat" where
  "flash_command_limits flash = (case flash of
     Some (Cetus _ _ _ _ _ _) \<Rightarrow> (1, 8) | Some (Nemo _ _ _ _ _) \<Rightarrow> (2, 4) | None \<Rightarrow> (0, 0))"

definition command_has_mutable_user_arg :: "MoveFunctionAbi \<Rightarrow> MoveCall \<Rightarrow> nat \<Rightarrow> bool" where
  "command_has_mutable_user_arg f movecall input_limit =
     list_ex (\<lambda>(param, arg). is_mutable param \<and>
         (case arg of Input input_idx \<Rightarrow> \<not> unat input_idx < input_limit | _ \<Rightarrow> True))
       (zip (parameters f) (call_arguments movecall))"

definition function_of :: "'m FuzzMetadata \<Rightarrow> MoveCall \<Rightarrow> MoveFunctionAbi res" where
  "function_of state movecall = unwrapR ''called `Option::unwrap()` on a `None` value''
     (get_function (fm_base state) (call_module_id movecall) (call_module_name movecall) (call_function movecall))"

definition is_split_call :: "MoveSequenceCall \<Rightarrow> bool" where
  "is_split_call cmd = (case cmd of Call mc \<Rightarrow> is_split mc | _ \<Rightarrow> False)"

definition stage_candidate_indices :: "'m FuzzMetadata \<Rightarrow> MoveSequence \<Rightarrow> nat \<Rightarrow> nat \<Rightarrow> nat list res" where
  "stage_candidate_indices state ptb stage_idx input_limit =
     (if stage_idx \<ge> length (commands ptb) then Inr []
      else case commands ptb ! stage_idx of
        Call movecall \<Rightarrow>
          bindR (function_of state movecall) (\<lambda>f.
          Inr ((if command_has_mutable_user_arg f movecall input_limit then [stage_idx] else [])
               @ takeWhile (\<lambda>i. is_split_call (commands ptb ! i)) (rev [0..<stage_idx])))
      | _ \<Rightarrow> Inr [])"

definition general_candidate_indices :: "'m FuzzMetadata \<Rightarrow> MoveSequence \<Rightarrow> nat \<Rightarrow> nat \<Rightarrow> nat list res" where
  "general_candidate_indices state ptb start_idx input_limit =
     bindR (mapR (\<lambda>(i, cmd). case cmd of
              Call movecall \<Rightarrow> bindR (function_of state movecall) (\<lambda>f.
                Inr (if command_has_mutable_user_arg f movecall input_limit then [i] else []))
            | _ \<Rightarrow> Inr [])
           (drop start_idx (enumerate 0 (commands ptb)))) (\<lambda>idxs. Inr (concat idxs))"

definition candidate_move_call_indices ::
  "FlashProvider option \<Rightarrow> 'm FuzzMetadata \<Rightarrow> MoveSequence \<Rightarrow> nat option \<Rightarrow> nat list res" where
  "candidate_move_call_indices flash state ptb stage_idx =
     (case flash_command_limits flash of (start_idx, input_limit) \<Rightarrow>
      case stage_idx of
        Some stage_idx \<Rightarrow> stage_candidate_indices state ptb stage_idx input_limit
      | None \<Rightarrow> general_candidate_indices state ptb start_idx input_limit)"

section \<open>Mutating a type argument\<close>

text \<open>The type parameters that no parameter and no result mentions.\<close>

definition unused_type_param :: "MoveFunctionAbi \<Rightarrow> nat \<Rightarrow> bool" where
  "unused_type_param f i \<longleftrightarrow> \<not> list_ex (\<lambda>param. contains_type_param param (as_u16 i)) (parameters f)
     \<and> \<not> list_ex (\<lambda>ret. contains_type_param ret (as_u16 i)) (return_paramters f)"

definition free_ty_args :: "'m FuzzMetadata \<Rightarrow> nat \<Rightarrow> MoveCall \<Rightarrow> (MoveAbility \<times> nat \<times> nat) list res" where
  "free_ty_args state cmd_idx movecall =
     bindR (function_of state movecall) (\<lambda>f.
     mapR (\<lambda>i. bindR (unwrapR ''called `Option::unwrap()` on a `None` value''
                        (if i < length (fn_type_parameters f) then Some (fn_type_parameters f ! i) else None))
                 (\<lambda>type_param. Inr (type_param, cmd_idx, i)))
       (filter (unused_type_param f) [0..<length (call_type_arguments movecall)]))"

definition set_ty_arg :: "MoveSequence \<Rightarrow> nat \<Rightarrow> nat \<Rightarrow> MoveTypeTag \<Rightarrow> MoveSequence" where
  "set_ty_arg ptb c i ty = ptb\<lparr>commands := (commands ptb)[c := (case commands ptb ! c of
     Call mc \<Rightarrow> Call (mc\<lparr>call_type_arguments := (call_type_arguments mc)[i := ty]\<rparr>) | cmd \<Rightarrow> cmd)]\<rparr>"

definition mutable_ty_args ::
  "FlashProvider option \<Rightarrow> 'm FuzzMetadata \<Rightarrow> MoveSequence \<Rightarrow> nat option \<Rightarrow> (MoveAbility \<times> nat \<times> nat) list option res" where
  "mutable_ty_args flash state ptb stage_idx =
     (case stage_idx of
        Some stage_idx \<Rightarrow>
          if stage_idx < length (commands ptb) then
            (case commands ptb ! stage_idx of
               Call movecall \<Rightarrow> bindR (free_ty_args state stage_idx movecall) (\<lambda>xs. Inr (Some xs))
             | _ \<Rightarrow> Inr None)
          else Inr None
      | None \<Rightarrow>
          bindR (mapR (\<lambda>(i, cmd). case cmd of Call movecall \<Rightarrow> free_ty_args state i movecall | _ \<Rightarrow> Inr [])
                  (drop (fst (flash_command_limits flash)) (enumerate 0 (commands ptb))))
            (\<lambda>xss. Inr (Some (concat xss))))"

definition choose_ty_arg ::
  "'r Rand \<Rightarrow> 'm FuzzMetadata \<Rightarrow> MoveSequence \<Rightarrow> MoveAbility \<times> nat \<times> nat \<Rightarrow> 'r \<Rightarrow> MutationResult \<times> MoveSequence \<times> 'r" where
  "choose_ty_arg R state ptb chosen r = (case chosen of (wanted, c, i) \<Rightarrow>
     case rand_choose R (or_default (bt_get (md_ability_to_type_tag (fm_base state)) wanted)) r of (new_ty_arg, r) \<Rightarrow>
     (case new_ty_arg of None \<Rightarrow> (Skipped, ptb, r) | Some ty \<Rightarrow> (Mutated, set_ty_arg ptb c i ty, r)))"

definition mutate_ty_arg ::
  "'r Rand \<Rightarrow> FlashProvider option \<Rightarrow> 'm FuzzMetadata \<Rightarrow> MoveSequence \<Rightarrow> nat option \<Rightarrow> 'r
     \<Rightarrow> (MutationResult \<times> MoveSequence \<times> 'r) res" where
  "mutate_ty_arg R flash state ptb stage_idx r =
     (if commands ptb = [] then Inr (Skipped, ptb, r)
      else bindR (mutable_ty_args flash state ptb stage_idx) (\<lambda>found.
        case found of
          None \<Rightarrow> Inr (Skipped, ptb, r)
        | Some ty_args \<Rightarrow>
            if ty_args = [] then Inr (Skipped, ptb, r)
            else case below_or_zero R (length ty_args) r of (idx, r) \<Rightarrow>
              bindR (indexR ty_args idx) (\<lambda>chosen. Inr (choose_ty_arg R state ptb chosen r))))"

section \<open>Mutating an argument\<close>

definition user_arg_candidates :: "MoveFunctionAbi \<Rightarrow> MoveCall \<Rightarrow> nat \<Rightarrow> u16 list" where
  "user_arg_candidates f movecall input_limit =
     List.map_filter (\<lambda>(i, param, arg).
         if is_mutable param \<and> (case arg of Input input_idx \<Rightarrow> unat input_idx \<ge> input_limit | _ \<Rightarrow> False)
         then Some (as_u16 i) else None)
       (enumerate 0 (zip (parameters f) (call_arguments movecall)))"

definition magic_function_ident :: "MoveSequenceCall list \<Rightarrow> nat \<Rightarrow> MoveCall \<Rightarrow> FunctionIdent" where
  "magic_function_ident cmds cmd_idx movecall =
     (if is_split movecall then
        (case List.find (\<lambda>cmd. case cmd of Call mc \<Rightarrow> \<not> is_split mc | _ \<Rightarrow> False) (drop cmd_idx cmds) of
           Some (Call mc) \<Rightarrow> call_ident mc
         | _ \<Rightarrow> call_ident movecall)
      else call_ident movecall)"

definition choose_user_arg ::
  "'r Rand \<Rightarrow> FlashProvider option \<Rightarrow> nat \<Rightarrow> MoveCall \<Rightarrow> MoveFunctionAbi \<Rightarrow> 'r
     \<Rightarrow> (nat \<times> MoveCall \<times> MoveFunctionAbi \<times> u16) option \<times> 'r" where
  "choose_user_arg R flash cmd_idx movecall f r =
     (case rand_choose R (user_arg_candidates f movecall (snd (flash_command_limits flash))) r of (idx, r) \<Rightarrow>
      (map_option (\<lambda>idx. (cmd_idx, movecall, f, idx)) idx, r))"

text \<open>The command and the argument that are mutated, drawn in this order.\<close>

definition pick_argument ::
  "'r Rand \<Rightarrow> FlashProvider option \<Rightarrow> 'm FuzzMetadata \<Rightarrow> MoveSequence \<Rightarrow> nat option \<Rightarrow> 'r
     \<Rightarrow> ((nat \<times> MoveCall \<times> MoveFunctionAbi \<times> u16) option \<times> 'r) res" where
  "pick_argument R flash state ptb stage_idx r =
     bindR (candidate_move_call_indices flash state ptb stage_idx) (\<lambda>cmd_candidates.
     if cmd_candidates = [] then Inr (None, r)
     else case below_or_zero R (length cmd_candidates) r of (idx, r) \<Rightarrow>
       bindR (indexR cmd_candidates idx) (\<lambda>cmd_idx.
       bindR (indexR (commands ptb) cmd_idx) (\<lambda>cmd.
       case cmd of
         Call movecall \<Rightarrow>
           bindR (function_of state movecall) (\<lambda>f. Inr (choose_user_arg R flash cmd_idx movecall f r))
       | _ \<Rightarrow> Inr (None, r))))"

definition mutate_picked ::
  "'r Libafl \<Rightarrow> 'r Rand \<Rightarrow> 'm FuzzMetadata \<Rightarrow> (FunctionIdent, u8 list list) btree \<Rightarrow> 'o MoveFuzzInput \<Rightarrow> bool \<Rightarrow> nat
     \<Rightarrow> nat \<times> MoveCall \<times> MoveFunctionAbi \<times> u16 \<Rightarrow> 'r \<Rightarrow> (MutationResult \<times> 'o MoveFuzzInput \<times> 'r) fuelled" where
  "mutate_picked A R state pool input magic fuel picked r =
     (let ptb = in_sequence input in case picked of (cmd_idx, movecall, f, idx) \<Rightarrow>
      bindFR (Some (indexR (call_arguments movecall) (unat idx))) (\<lambda>arg.
      case arg of
        Input input_idx \<Rightarrow>
          bindFR (Some (indexR (inputs ptb) (unat input_idx))) (\<lambda>call_input.
          bindFR (Some (indexR (parameters f) (unat idx))) (\<lambda>param.
          if \<not> is_mutable param then Some (Inr (Skipped, input, r))
          else
            let numbers = or_default (bt_get pool (magic_function_ident (commands ptb) cmd_idx movecall));
                value = MutableValue_new call_input in
            bindFR (if magic then Some (sample_magic_number R value numbers r)
                    else mutate A R state value numbers (is_split movecall) fuel r) (\<lambda>(_, value, r).
            Some (Inr (Mutated, input\<lparr>in_sequence := ptb\<lparr>inputs := (inputs ptb)[unat input_idx := mv_value value]\<rparr>\<rparr>, r)))))
      | _ \<Rightarrow> Some (Inr (Skipped, input, r))))"

definition mutate_arg ::
  "'r Libafl \<Rightarrow> 'r Rand \<Rightarrow> (string \<Rightarrow> MoveAddress option) \<Rightarrow> FlashProvider option \<Rightarrow> 'm FuzzMetadata
     \<Rightarrow> 'o MoveFuzzInput \<Rightarrow> bool \<Rightarrow> nat option \<Rightarrow> nat \<Rightarrow> 'r \<Rightarrow> (MutationResult \<times> 'o MoveFuzzInput \<times> 'r) fuelled" where
  "mutate_arg A R parse flash state input magic stage_idx fuel r =
     bindFR (Some (magic_number_pool parse state input)) (\<lambda>pool.
     let ptb = in_sequence input in
     if commands ptb = [] then Some (Inr (Skipped, input, r))
     else case below_or_zero R 10 r of (k, r) \<Rightarrow>
       bindFR (Some (if k = 0 then mutate_ty_arg R flash state ptb stage_idx r else Inr (Skipped, ptb, r))) (\<lambda>(res, ptb', r).
       if res = Mutated then Some (Inr (Mutated, input\<lparr>in_sequence := ptb'\<rparr>, r))
       else
         bindFR (Some (pick_argument R flash state ptb stage_idx r)) (\<lambda>(picked, r).
         case picked of
           None \<Rightarrow> Some (Inr (Skipped, input, r))
         | Some picked \<Rightarrow> mutate_picked A R state pool input magic fuel picked r)))"

section \<open>Solving for an argument\<close>

definition cmp_constraint :: "'b Log \<Rightarrow> 'b option" where
  "cmp_constraint log = (case log of CmpLog _ _ _ c \<Rightarrow> c | _ \<Rightarrow> None)"

definition side_constraint :: "'b Log \<Rightarrow> 'b option" where
  "side_constraint log = (case log of CastLog _ c \<Rightarrow> c | ShlLog _ _ c \<Rightarrow> c | _ \<Rightarrow> None)"

text \<open>With even odds, one comparison is negated.\<close>

definition flip_one :: "'r Rand \<Rightarrow> ('i, 'b) Z3 \<Rightarrow> 'b list \<Rightarrow> 'r \<Rightarrow> 'b list \<times> 'r" where
  "flip_one R Z cs r =
     (if cs = [] then (cs, r)
      else case below_or_zero R 2 r of (k, r) \<Rightarrow>
        if k = 0 then (case choose_index R (length cs) r of (i, r) \<Rightarrow> (cs[i := z_not Z (cs ! i)], r)) else (cs, r))"

definition solve_arg ::
  "('i, 'b, 'sm) Smt \<Rightarrow> ('i, 'b) Z3 \<Rightarrow> Ruint \<Rightarrow> WorkerFate \<Rightarrow> 'r Rand \<Rightarrow> FlashProvider option \<Rightarrow> 'm FuzzMetadata
     \<Rightarrow> 'o MoveFuzzInput \<Rightarrow> (FunctionIdent, 'b Log list) btree \<Rightarrow> 'i ConcolicState \<Rightarrow> nat option \<Rightarrow> 'r
     \<Rightarrow> (MutationResult \<times> 'o MoveFuzzInput \<times> 'r) res" where
  "solve_arg S Z U fate R flash state input cmps solver stage_idx r =
     (let ptb = in_sequence input in
      if commands ptb = [] then Inr (Skipped, input, r)
      else bindR (pick_argument R flash state ptb stage_idx r) (\<lambda>(picked, r).
        case picked of
          None \<Rightarrow> Inr (Skipped, input, r)
        | Some (cmd_idx, movecall, f, idx) \<Rightarrow>
            bindR (indexR (call_arguments movecall) (unat idx)) (\<lambda>arg.
            if \<not> cmd_idx < length (sym_args solver) then Inr (Skipped, input, r)
            else bindR (unwrapR ''called `Option::unwrap()` on a `None` value''
                          (get_package_metadata (fm_base state) (call_module_id movecall))) (\<lambda>_.
              case bt_get cmps (call_ident movecall) of
                None \<Rightarrow> Inr (Skipped, input, r)
              | Some target_function_logs \<Rightarrow>
                  (case flip_one R Z (List.map_filter cmp_constraint target_function_logs) r of (flipped, r) \<Rightarrow>
                   bindR (solve S Z U fate f (sym_args solver ! cmd_idx)
                            (flipped @ List.map_filter side_constraint target_function_logs)) (\<lambda>solution.
                   case solution of
                     None \<Rightarrow> Inr (Skipped, input, r)
                   | Some values \<Rightarrow>
                       (case (bt_get values (unat idx), arg) of
                          (Some new_value, Input input_idx) \<Rightarrow>
                            bindR (indexR (inputs ptb) (unat input_idx)) (\<lambda>_.
                            Inr (Mutated, input\<lparr>in_sequence :=
                              ptb\<lparr>inputs := (inputs ptb)[unat input_idx := new_value]\<rparr>\<rparr>, r))
                        | _ \<Rightarrow> Inr (Skipped, input, r))))))))"

record ArgMutator =
  am_flash :: "FlashProvider option"
  am_stage :: StageReplay

definition ArgMutator_new :: ArgMutator where
  "ArgMutator_new = \<lparr>am_flash = None, am_stage = StageReplay_new KindMagic\<rparr>"

text \<open>What the mutator calls of the rest of the program and of libraries.\<close>

record ('r, 'i, 'b, 'sm) ArgEnv =
  ae_libafl :: "'r Libafl"
  ae_rand :: "'r Rand"
  ae_smt :: "('i, 'b, 'sm) Smt"
  ae_z3 :: "('i, 'b) Z3"
  ae_ruint :: Ruint
  ae_fate :: WorkerFate
  ae_print :: "MoveAddress \<Rightarrow> string"
  ae_parse :: "string \<Rightarrow> MoveAddress option"
  ae_fingerprint :: "MoveSequence \<Rightarrow> u64"

definition ArgMutator_mutate ::
  "('r, 'i, 'b, 'sm) ArgEnv \<Rightarrow> ArgMutator \<Rightarrow> 'm FuzzMetadata \<Rightarrow> ('i, 'b) ExecutionExtraOutcome option
     \<Rightarrow> 'o MoveFuzzInput \<Rightarrow> nat \<Rightarrow> 'r \<Rightarrow> (MutationResult \<times> ArgMutator \<times> 'm FuzzMetadata \<times> 'o MoveFuzzInput \<times> 'r) fuelled" where
  "ArgMutator_mutate E self state ex input fuel r =
     (let input = (case ex of Some ex \<Rightarrow> update_magic_number (ae_print E) ex input | None \<Rightarrow> input) in
      case decide (current_mutator state) ex (ae_fingerprint E (in_sequence input)) (am_stage self) of (action, stage) \<Rightarrow>
      let self = self\<lparr>am_stage := stage\<rparr>;
          input = (case action of Replay _ ptb \<Rightarrow> input\<lparr>in_sequence := ptb\<rparr> | Fresh \<Rightarrow> input);
          stage_idx = (case action of Replay i _ \<Rightarrow> Some i | Fresh \<Rightarrow> None) in
      bindFR
       (case ex of
          Some ex \<Rightarrow>
            (case below_or_zero (ae_rand E) 2 r of (k, r) \<Rightarrow>
             if k = 0 then Some (solve_arg (ae_smt E) (ae_z3 E) (ae_ruint E) (ae_fate E) (ae_rand E) (am_flash self) state
                                   input (ex_logs ex) (ex_solver ex) stage_idx r)
             else mutate_arg (ae_libafl E) (ae_rand E) (ae_parse E) (am_flash self) state input False stage_idx fuel r)
        | None \<Rightarrow> mutate_arg (ae_libafl E) (ae_rand E) (ae_parse E) (am_flash self) state input False None fuel r)
       (\<lambda>(res, input, r).
        let self = (if res = Mutated then self\<lparr>am_stage := record_success (in_sequence input) (am_stage self)\<rparr> else self);
            state = (if res = Mutated then state\<lparr>current_mutator := Some KindMagic\<rparr> else state) in
        Some (Inr (res, self, state, input\<lparr>in_outcome := None\<rparr>, r))))"

section \<open>Stage replay: what is replayed, and how long\<close>

text \<open>The calls of a stage replay, in any order.\<close>

datatype ('i, 'b) stage_call =
    Decide "MutatorKind option" "('i, 'b) ExecutionExtraOutcome option" u64
  | RecordSuccess MoveSequence

fun stage_step :: "StageReplay \<Rightarrow> ('i, 'b) stage_call \<Rightarrow> StageReplay" where
  "stage_step self (Decide current ex fp) = snd (decide current ex fp self)"
| "stage_step self (RecordSuccess ptb) = record_success ptb self"

definition stage_ok :: "StageReplay \<Rightarrow> bool" where
  "stage_ok self \<longleftrightarrow> attempts self < MAX_STAGE_REPLAY_ATTEMPTS \<and> (sr_stage_idx self = None \<longrightarrow> attempts self = 0)"

lemmas stage_defs = decide_def reset_progress_def restart_progress_def invalidate_cache_def record_success_def
  stage_ok_def MAX_STAGE_REPLAY_ATTEMPTS_def

lemma stage_step_ok: "stage_ok self \<Longrightarrow> stage_ok (stage_step self c)"
  by (cases c) (auto simp: stage_defs Let_def split: option.splits if_splits)

lemma stage_run_ok: "stage_ok self \<Longrightarrow> stage_ok (foldl stage_step self cs)"
  by (induction cs arbitrary: self) (auto intro: stage_step_ok)

lemma stage_step_kind: "sr_kind (stage_step self c) = sr_kind self"
  by (cases c) (auto simp: stage_defs Let_def split: option.splits if_splits)

lemma stage_run_kind: "sr_kind (foldl stage_step self cs) = sr_kind self"
  by (induction cs arbitrary: self) (auto simp: stage_step_kind)

lemma decide_replay:
  assumes "decide current ex fp self = (Replay i ptb, self')"
  shows "current = Some (sr_kind self) \<and> cached self = Some ptb
    \<and> (\<exists>run stage. ex = Some run \<and> ex_stage_idx run = Some stage \<and> i \<le> stage) \<and> sr_stage_idx self' = Some i"
  using assms by (auto simp: stage_defs Let_def split: option.splits if_splits)

lemma recorded_cached: "cached (foldl stage_step self cs) = Some ptb \<Longrightarrow> cached self = Some ptb \<or> RecordSuccess ptb \<in> set cs"
proof (induction cs rule: rev_induct)
  case (snoc c cs)
  have "cached (foldl stage_step self cs) = Some ptb \<or> c = RecordSuccess ptb"
    using snoc.prems by (cases c) (auto simp: stage_defs Let_def split: option.splits if_splits)
  with snoc.IH show ?case by auto
qed simp

text \<open>One decision for the same sequence and a run that stops at stage \<open>s\<close>.\<close>

definition same_sequence :: "u64 \<Rightarrow> StageReplay \<Rightarrow> bool" where
  "same_sequence fp self \<longleftrightarrow> cached_fingerprint self = None \<or> cached_fingerprint self = Some fp"

definition advance :: "nat \<Rightarrow> u64 \<Rightarrow> StageReplay \<Rightarrow> StageReplay" where
  "advance s fp self =
     (let idx = (case sr_stage_idx self of Some c \<Rightarrow> if c < s then c + 1 else s | None \<Rightarrow> s);
          a = (if sr_stage_idx self = Some idx then attempts self + 1 else 1) in
      self\<lparr>cached_fingerprint := Some fp, sr_stage_idx := Some (if a \<ge> 30 then 0 else idx), attempts := (if a \<ge> 30 then 0 else a)\<rparr>)"

lemma decide_advance:
  assumes "ex_stage_idx run = Some s" "same_sequence fp self" "kind = sr_kind self"
  shows "stage_step self (Decide (Some kind) (Some run) fp) = advance s fp self"
proof (cases self)
  case (fields k c f i a)
  with assms have "f = None \<or> f = Some fp" by (simp add: same_sequence_def)
  then show ?thesis using assms(1,3) fields by (cases i) (auto simp: stage_defs advance_def Let_def split: option.splits)
qed

lemma advance_simps [simp]: "sr_kind (advance s fp self) = sr_kind self" "same_sequence fp (advance s fp self)"
  by (simp_all add: advance_def same_sequence_def Let_def)

lemma advances_to_start:
  "sr_stage_idx self = Some s \<Longrightarrow> attempts self + n = 30 \<Longrightarrow> 0 < n \<Longrightarrow>
   \<exists>m \<le> n. sr_stage_idx ((advance s fp ^^ m) self) = Some 0"
proof (induction n arbitrary: self)
  case (Suc n)
  show ?case
  proof (cases "n = 0")
    case True
    with Suc.prems have "sr_stage_idx ((advance s fp ^^ 1) self) = Some 0" by (simp add: advance_def)
    with True show ?thesis by fastforce
  next
    case False
    have "sr_stage_idx (advance s fp self) = Some s" "attempts (advance s fp self) + n = 30"
      using Suc.prems False by (simp_all add: advance_def)
    with Suc.IH [of "advance s fp self"] False obtain m where
      "m \<le> n" "sr_stage_idx ((advance s fp ^^ m) (advance s fp self)) = Some 0" by auto
    then show ?thesis by (intro exI [of _ "Suc m"]) (simp add: funpow_swap1)
  qed
qed simp

lemma advance_climbs:
  "sr_stage_idx self = Some c \<Longrightarrow> c + n = s \<Longrightarrow> 0 < n \<Longrightarrow>
   sr_stage_idx ((advance s fp ^^ n) self) = Some s \<and> attempts ((advance s fp ^^ n) self) = 1"
proof (induction n arbitrary: c self)
  case (Suc n)
  have step: "sr_stage_idx (advance s fp self) = Some (Suc c)" "attempts (advance s fp self) = 1"
    using Suc.prems by (simp_all add: advance_def)
  show ?case
  proof (cases "n = 0")
    case True
    with step Suc.prems show ?thesis by simp
  next
    case False
    with Suc.IH [OF step(1)] Suc.prems show ?thesis by (simp add: funpow_swap1)
  qed
qed simp

lemma advance_restarts:
  assumes "stage_ok self"
  shows "\<exists>m \<le> s + 31. sr_stage_idx ((advance s fp ^^ m) self) = Some 0"
proof -
  have shift: "(\<exists>m \<le> b. sr_stage_idx ((advance s fp ^^ m) ((advance s fp ^^ k) self)) = Some 0) \<Longrightarrow> k + b \<le> s + 31 \<Longrightarrow> ?thesis" for k b
    by (metis funpow_add comp_apply add.commute add_le_mono le_trans order_refl)
  show ?thesis
  proof (cases "\<exists>c. sr_stage_idx self = Some c \<and> c < s")
    case True
    then obtain c where c: "sr_stage_idx self = Some c" "c < s" by blast
    with advance_climbs [of self c "s - c" s] have
      "sr_stage_idx ((advance s fp ^^ (s - c)) self) = Some s" "attempts ((advance s fp ^^ (s - c)) self) = 1" by auto
    from advances_to_start [OF this(1), of 29] this(2) show ?thesis by (intro shift [of 29 "s - c"]) auto
  next
    case False
    then have f: "sr_stage_idx self = None \<or> (\<exists>c \<ge> s. sr_stage_idx self = Some c)" by (metis not_less option.exhaust)
    then have "sr_stage_idx (advance s fp self) = Some 0
        \<or> sr_stage_idx (advance s fp self) = Some s \<and> attempts (advance s fp self) < 30"
      by (auto simp: advance_def Let_def not_le)
    then consider "sr_stage_idx (advance s fp self) = Some 0"
      | "sr_stage_idx (advance s fp self) = Some s" "attempts (advance s fp self) < 30"
      by blast
    then show ?thesis
    proof cases
      case 1
      then show ?thesis by (intro exI [of _ 1]) simp
    next
      case 2
      from advances_to_start [OF 2(1), of "30 - attempts (advance s fp self)"] 2(2)
      show ?thesis by (intro shift [of "30 - attempts (advance s fp self)" 1]) auto
    qed
  qed
qed


lemma stage_run_advances:
  assumes "ex_stage_idx run = Some s" "same_sequence fp self" "kind = sr_kind self"
  shows "foldl stage_step self (replicate n (Decide (Some kind) (Some run) fp)) = (advance s fp ^^ n) self"
  using assms
proof (induction n arbitrary: self)
  case (Suc n)
  have "stage_step self (Decide (Some kind) (Some run) fp) = advance s fp self" by (rule decide_advance [OF Suc.prems])
  with Suc.IH [of "advance s fp self"] Suc.prems show ?case by (simp del: stage_step.simps add: funpow_swap1)
qed simp

lemma decided_same_sequence:
  "cached_fingerprint (stage_step self (Decide current ex fp)) = Some fp"
  by (auto simp: stage_defs Let_def split: option.splits if_splits)

lemma stage_restarts:
  assumes "stage_ok self" "ex_stage_idx run = Some s" "kind = sr_kind self"
  shows "\<exists>n \<le> s + 32. sr_stage_idx (foldl stage_step self (replicate n (Decide (Some kind) (Some run) fp))) = Some 0"
proof -
  let ?d = "Decide (Some kind) (Some run) fp"
  have ok: "stage_ok (stage_step self ?d)" "same_sequence fp (stage_step self ?d)" "kind = sr_kind (stage_step self ?d)"
    using stage_step_ok [OF assms(1)] assms(3) decided_same_sequence [of self "Some kind" "Some run" fp]
    by (simp_all del: stage_step.simps add: same_sequence_def stage_step_kind)
  obtain m where "m \<le> s + 31" "sr_stage_idx ((advance s fp ^^ m) (stage_step self ?d)) = Some 0"
    using advance_restarts [OF ok(1)] by blast
  then show ?thesis
    by (intro exI [of _ "Suc m"]) (simp del: stage_step.simps add: stage_run_advances [OF assms(2) ok(2,3)])
qed

text \<open>
  C28: after any calls, the attempt counter is below thirty. A replay only happens for the mutator's own
  kind, returns a sequence that was recorded as a success, and starts no later than the stage that the
  last run reached. When the runs of one sequence keep stopping at the same stage, the replay is back
  at the first stage after finitely many decisions.
\<close>

theorem stage_replay_bounded:
  assumes "self = foldl stage_step (StageReplay_new kind) cs"
  shows "attempts self < 30
    \<and> (\<forall>i ptb self'. decide current ex fp self = (Replay i ptb, self') \<longrightarrow>
         current = Some kind \<and> RecordSuccess ptb \<in> set cs
         \<and> (\<exists>run stage. ex = Some run \<and> ex_stage_idx run = Some stage \<and> i \<le> stage))
    \<and> (\<forall>run s. ex_stage_idx run = Some s \<longrightarrow>
         (\<exists>n \<le> s + 32. sr_stage_idx (foldl stage_step self (replicate n (Decide (Some kind) (Some run) fp))) = Some 0))"
proof -
  have ok: "stage_ok self" and k: "sr_kind self = kind"
    unfolding assms by (rule stage_run_ok) (simp_all add: stage_ok_def MAX_STAGE_REPLAY_ATTEMPTS_def StageReplay_new_def stage_run_kind)
  have c: "cached self = Some ptb \<Longrightarrow> RecordSuccess ptb \<in> set cs" for ptb
    using recorded_cached [of "StageReplay_new kind" cs ptb] assms by (simp add: StageReplay_new_def)
  have "attempts self < 30" using ok by (simp add: stage_ok_def MAX_STAGE_REPLAY_ATTEMPTS_def)
  moreover have "current = Some kind \<and> RecordSuccess ptb \<in> set cs
         \<and> (\<exists>run stage. ex = Some run \<and> ex_stage_idx run = Some stage \<and> i \<le> stage)"
    if "decide current ex fp self = (Replay i ptb, self')" for i ptb self'
    using decide_replay [OF that] c k by blast
  moreover have "\<exists>n \<le> s + 32. sr_stage_idx (foldl stage_step self (replicate n (Decide (Some kind) (Some run) fp))) = Some 0"
    if "ex_stage_idx run = Some s" for run s using stage_restarts [OF ok that] k by blast
  ultimately show ?thesis by blast
qed

definition demo_run :: "(unit, unit) ExecutionExtraOutcome" where
  "demo_run = \<lparr>ex_logs = [], ex_solver = ConcolicState_new, ex_stage_idx = Some 2, ex_success = False\<rparr>"

theorem stage_replay_bounded_witness:
  "RecordSuccess demo_sequence \<in> set [RecordSuccess demo_sequence :: (unit, unit) stage_call]
   \<and> fst (decide (Some KindMagic) (Some demo_run) 7 (record_success demo_sequence (StageReplay_new KindMagic))) = Replay 2 demo_sequence"
proof -
  let ?self = "record_success demo_sequence (StageReplay_new KindMagic)"
  have d: "decide (Some KindMagic) (Some demo_run) 7 ?self =
      (Replay 2 demo_sequence, ?self\<lparr>cached_fingerprint := Some 7, sr_stage_idx := Some 2, attempts := 1\<rparr>)"
    by (simp add: stage_defs StageReplay_new_def demo_run_def Let_def)
  with stage_replay_bounded [of ?self KindMagic "[RecordSuccess demo_sequence]" "Some KindMagic" "Some demo_run" 7]
  show ?thesis by simp
qed

section \<open>What an argument mutation changes\<close>

lemma rand_choose_in: "rand_ok R \<Longrightarrow> rand_choose R xs r = (Some x, r') \<Longrightarrow> x \<in> set xs"
proof -
  assume ok: "rand_ok R" and c: "rand_choose R xs r = (Some x, r')"
  then obtain i where i: "choose_index R (length xs) r = (i, r')" "x = xs ! i" "xs \<noteq> []"
    by (auto simp: rand_choose_def split: if_splits prod.splits)
  then have "max 1 (length xs) = length xs" by (simp add: max_def Suc_leI)
  with ok i(1) have "i < length xs" unfolding rand_ok_def by (metis fst_conv)
  with i(2) show ?thesis by simp
qed

lemma user_arg_candidates_in:
  assumes "idx \<in> set (user_arg_candidates f mc lim)"
  obtains i k where "idx = as_u16 i" "i < length (parameters f)" "i < length (call_arguments mc)"
    "is_mutable (parameters f ! i)" "call_arguments mc ! i = Input k" "lim \<le> unat k"
proof -
  from assms obtain i param arg where p: "(i, param, arg) \<in> set (enumerate 0 (zip (parameters f) (call_arguments mc)))"
    "is_mutable param \<and> (case arg of Input input_idx \<Rightarrow> unat input_idx \<ge> lim | _ \<Rightarrow> False)" "idx = as_u16 i"
    by (auto simp: user_arg_candidates_def List.map_filter_def split: if_splits)
  moreover from p(1) have "i < length (parameters f)" "i < length (call_arguments mc)"
    "param = parameters f ! i" "arg = call_arguments mc ! i" by (auto simp: in_set_enumerate_eq)
  moreover from p(2) obtain k where "arg = Input k" "lim \<le> unat k" by (auto split: SequenceArgument.splits)
  ultimately show ?thesis using that p(2) by metis
qed

lemma pick_argument_Some:
  assumes "pick_argument R flash state ptb stage_idx r = Inr (Some (c, mc, f, idx), r')" "rand_ok R"
  shows "(\<exists>cands. candidate_move_call_indices flash state ptb stage_idx = Inr cands \<and> c \<in> set cands)
    \<and> c < length (commands ptb) \<and> commands ptb ! c = Call mc \<and> function_of state mc = Inr f
    \<and> idx \<in> set (user_arg_candidates f mc (snd (flash_command_limits flash)))"
proof -
  have choose: "choose_user_arg R flash c0 mc0 f0 r1 = (Some (c, mc, f, idx), r') \<Longrightarrow>
      c0 = c \<and> mc0 = mc \<and> f0 = f \<and> idx \<in> set (user_arg_candidates f mc (snd (flash_command_limits flash)))" for c0 mc0 f0 r1
    using rand_choose_in [OF assms(2)] by (auto simp: choose_user_arg_def split: prod.splits)
  from assms(1) show ?thesis unfolding pick_argument_def
    by (auto simp: bindR_eq_Inr indexR_def dest!: choose split: if_splits MoveSequenceCall.splits prod.splits)
qed

lemma free_ty_args_in:
  assumes "free_ty_args state c0 mc = Inr xs" "(w, c, i) \<in> set xs"
  shows "c = c0 \<and> (\<exists>f. function_of state mc = Inr f \<and> unused_type_param f i \<and> i < length (call_type_arguments mc))"
proof -
  from assms(1) obtain f where f: "function_of state mc = Inr f" and m: "list_all2 (\<lambda>i y. bindR
      (unwrapR ''called `Option::unwrap()` on a `None` value'' (if i < length (fn_type_parameters f) then Some (fn_type_parameters f ! i) else None))
      (\<lambda>type_param. Inr (type_param, c0, i)) = Inr y) (filter (unused_type_param f) [0..<length (call_type_arguments mc)]) xs"
    by (auto simp: free_ty_args_def bindR_eq_Inr mapR_eq_Inr)
  from assms(2) obtain n where n: "n < length xs" "xs ! n = (w, c, i)" by (auto simp: in_set_conv_nth)
  let ?js = "filter (unused_type_param f) [0..<length (call_type_arguments mc)]"
  from list_all2_nthD2 [OF m n(1)] n(2) have "c = c0" "i = ?js ! n" by (auto simp: bindR_eq_Inr)
  moreover have "?js ! n \<in> set ?js" using n(1) list_all2_lengthD [OF m] by (intro nth_mem) simp
  ultimately show ?thesis using f by auto
qed

definition ty_arg_changed ::
  "FlashProvider option \<Rightarrow> 'm FuzzMetadata \<Rightarrow> nat option \<Rightarrow> MoveSequence \<Rightarrow> MoveSequence \<Rightarrow> bool" where
  "ty_arg_changed flash state stage_idx ptb ptb' \<longleftrightarrow> (\<exists>c mc f i ty. c < length (commands ptb) \<and> commands ptb ! c = Call mc
     \<and> function_of state mc = Inr f \<and> unused_type_param f i \<and> i < length (call_type_arguments mc)
     \<and> (case stage_idx of Some s \<Rightarrow> c = s | None \<Rightarrow> fst (flash_command_limits flash) \<le> c)
     \<and> ptb' = set_ty_arg ptb c i ty)"

lemma mutable_ty_args_in:
  assumes "mutable_ty_args flash state ptb stage_idx = Inr (Some xs)" "(w, c, i) \<in> set xs"
  shows "\<exists>mc f. c < length (commands ptb) \<and> commands ptb ! c = Call mc \<and> function_of state mc = Inr f \<and> unused_type_param f i
    \<and> i < length (call_type_arguments mc) \<and> (case stage_idx of Some s \<Rightarrow> c = s | None \<Rightarrow> fst (flash_command_limits flash) \<le> c)"
proof (cases stage_idx)
  case (Some s)
  with assms(1) obtain mc where mc: "s < length (commands ptb)" "commands ptb ! s = Call mc" "free_ty_args state s mc = Inr xs"
    by (auto simp: mutable_ty_args_def bindR_eq_Inr split: if_splits MoveSequenceCall.splits)
  with free_ty_args_in [OF mc(3) assms(2)] Some show ?thesis by auto
next
  case None
  let ?s = "fst (flash_command_limits flash)"
  from assms(1) None obtain xss where l: "list_all2 (\<lambda>p y. (case p of (i, cmd) \<Rightarrow>
      case cmd of Call mc \<Rightarrow> free_ty_args state i mc | _ \<Rightarrow> Inr []) = Inr y) (drop ?s (enumerate 0 (commands ptb))) xss"
    and xs: "xs = concat xss"
    by (auto simp: mutable_ty_args_def bindR_eq_Inr mapR_eq_Inr)
  from xs assms(2) obtain n where n: "n < length xss" "(w, c, i) \<in> set (xss ! n)" by (metis UN_E in_set_conv_nth set_concat)
  from l n(1) have n': "?s + n < length (commands ptb)" "(case commands ptb ! (?s + n) of
      Call mc \<Rightarrow> free_ty_args state (?s + n) mc | _ \<Rightarrow> Inr []) = Inr (xss ! n)"
    by (auto simp: list_all2_conv_all_nth nth_enumerate_eq)
  then obtain mc where mc: "commands ptb ! (?s + n) = Call mc" "free_ty_args state (?s + n) mc = Inr (xss ! n)"
    using n(2) by (auto split: MoveSequenceCall.splits)
  with free_ty_args_in [OF mc(2) n(2)] n'(1) None show ?thesis by auto
qed

lemma mutate_ty_arg_changes:
  assumes "mutate_ty_arg R flash state ptb stage_idx r = Inr (res, ptb', r')"
  shows "(res = Skipped \<and> ptb' = ptb) \<or> (res = Mutated \<and> ty_arg_changed flash state stage_idx ptb ptb')"
proof -
  have choose: "choose_ty_arg R state ptb x r1 = (res, ptb', r') \<Longrightarrow>
      res = Skipped \<and> ptb' = ptb \<or> res = Mutated \<and> (\<exists>ty. ptb' = set_ty_arg ptb (fst (snd x)) (snd (snd x)) ty)" for x r1
    by (auto simp: choose_ty_arg_def split: prod.splits option.splits)
  have draw: "(case below_or_zero R (length xs) r of (k, r1) \<Rightarrow>
      bindR (indexR xs k) (\<lambda>x. Inr (choose_ty_arg R state ptb x r1))) = Inr (res, ptb', r') \<Longrightarrow>
      \<exists>x r1. x \<in> set xs \<and> choose_ty_arg R state ptb x r1 = (res, ptb', r')" for xs
    by (auto simp: bindR_eq_Inr indexR_def split: prod.splits if_splits) (metis nth_mem)
  have "res = Skipped \<and> ptb' = ptb \<or> (\<exists>xs x r1. mutable_ty_args flash state ptb stage_idx = Inr (Some xs) \<and> x \<in> set xs
      \<and> choose_ty_arg R state ptb x r1 = (res, ptb', r'))"
  proof (cases "mutable_ty_args flash state ptb stage_idx")
    case (Inr found)
    show ?thesis
    proof (cases found)
      case (Some xs)
      with assms Inr draw [of xs] show ?thesis by (auto simp: mutate_ty_arg_def split: if_splits)
    qed (use assms Inr in \<open>auto simp: mutate_ty_arg_def split: if_splits\<close>)
  qed (use assms in \<open>auto simp: mutate_ty_arg_def split: if_splits\<close>)
  then consider "res = Skipped" "ptb' = ptb"
    | xs x r1 where "mutable_ty_args flash state ptb stage_idx = Inr (Some xs)" "x \<in> set xs" "choose_ty_arg R state ptb x r1 = (res, ptb', r')"
    by blast
  then show ?thesis
  proof cases
    case 2
    obtain w c i where x: "x = (w, c, i)" by (cases x)
    with 2 mutable_ty_args_in [of flash state ptb stage_idx xs w c i] choose [OF 2(3)] show ?thesis
      unfolding ty_arg_changed_def by fastforce
  qed simp
qed


text \<open>
  What \<open>sample_magic_number\<close> can make of a value, given the numbers of the pool: when the value is an
  integer or a vector of integers and the pool has a number of its size, the value that has the
  bytes of such a number; otherwise the value is kept.
\<close>

definition magic_may_become :: "u8 list list \<Rightarrow> InputArgument \<Rightarrow> InputArgument \<Rightarrow> bool" where
  "magic_may_become numbers v w \<longleftrightarrow>
     (if has_magic_bytes v \<and> (\<exists>bytes. sync v = Inr bytes \<and> (\<exists>num \<in> set numbers. length num = length bytes))
      then \<exists>bytes num. sync v = Inr bytes \<and> num \<in> set numbers \<and> length num = length bytes \<and> commit num v = Inr w
             \<and> (byte_shaped v \<longrightarrow> sync w = Inr num \<and> same_shape v w)
      else w = v)"

lemma sample_magic_number_result:
  assumes "sample_magic_number R (MutableValue_new v) numbers r = Inr (res, mv, r')" "rand_ok R"
  shows "magic_may_become numbers v (mv_value mv)"
proof (cases "has_magic_bytes v")
  case True
  with assms(1) obtain bytes where b: "sync v = Inr bytes"
    by (auto simp: sample_magic_number_def MutableValue_new_def bindR_eq_Inr)
  let ?fit = "filter (\<lambda>num. length num = length bytes) numbers"
  show ?thesis
  proof (cases "?fit = []")
    case True
    then have "mv_value mv = v" "\<not> (\<exists>num \<in> set numbers. length num = length bytes)"
      using assms(1) b \<open>has_magic_bytes v\<close>
      by (auto simp: sample_magic_number_def MutableValue_new_def filter_empty_conv)
    then show ?thesis using b by (simp add: magic_may_become_def)
  next
    case False
    then obtain num where n: "rand_choose R ?fit r = (Some num, r')" "commit num v = Inr (mv_value mv)"
      using assms(1) b True
      by (auto simp: sample_magic_number_def MutableValue_new_def bindR_eq_Inr unwrapR_eq_Inr split: prod.splits)
    from rand_choose_in [OF assms(2) n(1)] have num: "num \<in> set numbers" "length num = length bytes" by simp_all
    have "sync (mv_value mv) = Inr num \<and> same_shape v (mv_value mv)" if "byte_shaped v"
      using commit_sync [OF that] b n(2) num(2) by fastforce
    with b n(2) num True show ?thesis unfolding magic_may_become_def by auto
  qed
next
  case False
  with assms(1) show ?thesis by (auto simp: sample_magic_number_def MutableValue_new_def magic_may_become_def)
qed

text \<open>
  The input \<open>k\<close> that a call among the candidates receives for a parameter of a pure type, and the
  values it may get; \<open>pool\<close> are the magic numbers of each function.
\<close>

definition input_changed ::
  "bool \<Rightarrow> FlashProvider option \<Rightarrow> 'm FuzzMetadata \<Rightarrow> nat option \<Rightarrow> (FunctionIdent, u8 list list) btree
     \<Rightarrow> MoveSequence \<Rightarrow> MoveSequence \<Rightarrow> bool" where
  "input_changed magic flash state stage_idx pool ptb ptb' \<longleftrightarrow> (\<exists>cands c mc f i k v.
     candidate_move_call_indices flash state ptb stage_idx = Inr cands \<and> c \<in> set cands
     \<and> c < length (commands ptb) \<and> commands ptb ! c = Call mc \<and> function_of state mc = Inr f
     \<and> i < length (parameters f) \<and> is_mutable (parameters f ! i)
     \<and> i < length (call_arguments mc) \<and> call_arguments mc ! i = Input k
     \<and> snd (flash_command_limits flash) \<le> unat k \<and> unat k < length (inputs ptb)
     \<and> ptb' = ptb\<lparr>inputs := (inputs ptb)[unat k := v]\<rparr>
     \<and> (if magic then magic_may_become (or_default (bt_get pool (magic_function_ident (commands ptb) c mc))) (inputs ptb ! unat k) v
        else may_become state (inputs ptb ! unat k) v))"

lemma mutate_picked_changes:
  assumes "mutate_picked A R state pool input magic fuel (c, mc, f, idx) r = Some (Inr (res, input', r'))" "rand_ok R"
    and "pick_argument R flash state (in_sequence input) stage_idx r0 = Inr (Some (c, mc, f, idx), r)"
    and "length (call_arguments mc) \<le> 65536"
  shows "\<exists>ptb'. input_changed magic flash state stage_idx pool (in_sequence input) ptb' \<and> res = Mutated
    \<and> input' = input\<lparr>in_sequence := ptb'\<rparr>"
proof -
  let ?ptb = "in_sequence input"
  note c = pick_argument_Some [OF assms(3,2)]
  from c have "idx \<in> set (user_arg_candidates f mc (snd (flash_command_limits flash)))" by blast
  from user_arg_candidates_in [OF this] obtain i k where i: "idx = as_u16 i" "i < length (parameters f)"
    "i < length (call_arguments mc)" "is_mutable (parameters f ! i)" "call_arguments mc ! i = Input k"
    "snd (flash_command_limits flash) \<le> unat k" .
  let ?numbers = "or_default (bt_get pool (magic_function_ident (commands ?ptb) c mc))"
  let ?v = "inputs ?ptb ! unat k"
  have "unat idx = i" using i(1,3) assms(4) by (simp add: unat_of_nat)
  with i assms(1) obtain x mv r1 where k: "unat k < length (inputs ?ptb)" and
    m: "(if magic then Some (sample_magic_number R (MutableValue_new ?v) ?numbers r)
         else mutate A R state (MutableValue_new ?v) ?numbers (is_split mc) fuel r) = Some (Inr (x, mv, r1))"
    and out: "res = Mutated" "input' = input\<lparr>in_sequence := ?ptb\<lparr>inputs := (inputs ?ptb)[unat k := mv_value mv]\<rparr>\<rparr>"
    by (auto simp: mutate_picked_def bindFR_eq_Inr indexR_def Let_def split: if_splits)
  have "if magic then magic_may_become ?numbers ?v (mv_value mv) else may_become state ?v (mv_value mv)"
    using m mutate_result [OF assms(2)] sample_magic_number_result [OF _ assms(2)]
    by (fastforce simp: MutableValue_new_def split: if_splits)
  with c i k have "input_changed magic flash state stage_idx pool ?ptb (?ptb\<lparr>inputs := (inputs ?ptb)[unat k := mv_value mv]\<rparr>)"
    unfolding input_changed_def by blast
  with out show ?thesis by blast
qed

text \<open>
  C29: one mutation of the arguments either does nothing, or replaces one type argument that no parameter
  and no result of its call mentions, or replaces one input: one that a call among the candidates
  receives for a parameter of a mutable (pure) type. The inputs of the flash loan are never replaced,
  the calls of the flash loan keep their type arguments when no stage is replayed, and everything else
  of the input is kept. The new value is one that the value mutation can give or, with magic numbers,
  the value read from the bytes of a number of its size in the pool of the function, if there is one.
\<close>

theorem mutate_arg_frame:
  assumes "rand_ok R" "mutate_arg A R parse flash state input magic stage_idx fuel r = Some (Inr (res, input', r'))"
    "\<forall>mc. Call mc \<in> set (commands (in_sequence input)) \<longrightarrow> length (call_arguments mc) \<le> 65536"
  shows "\<exists>pool. magic_number_pool parse state input = Inr pool
    \<and> ((res = Skipped \<and> input' = input)
     \<or> (res = Mutated \<and> (\<exists>ptb'. input' = input\<lparr>in_sequence := ptb'\<rparr>
         \<and> (ty_arg_changed flash state stage_idx (in_sequence input) ptb'
            \<or> input_changed magic flash state stage_idx pool (in_sequence input) ptb'))))"
proof -
  let ?ptb = "in_sequence input"
  obtain k r1 where k: "below_or_zero R 10 r = (k, r1)" by fastforce
  from assms(2) obtain pool where pool: "magic_number_pool parse state input = Inr pool"
    unfolding mutate_arg_def by (auto simp: bindFR_eq_Inr)
  have "res = Skipped \<and> input' = input \<or> (\<exists>res1 ptb1 r2.
      (if k = 0 then mutate_ty_arg R flash state ?ptb stage_idx r1 else Inr (Skipped, ?ptb, r1)) = Inr (res1, ptb1, r2)
      \<and> (if res1 = Mutated then (res, input', r') = (Mutated, input\<lparr>in_sequence := ptb1\<rparr>, r2)
         else \<exists>picked r3. pick_argument R flash state ?ptb stage_idx r2 = Inr (Some picked, r3)
            \<and> mutate_picked A R state pool input magic fuel picked r3 = Some (Inr (res, input', r'))))"
    using assms(2) k pool unfolding mutate_arg_def
    by (auto simp: bindFR_eq_Inr Let_def split: if_splits option.splits)
  then consider "res = Skipped" "input' = input"
    | ptb1 r2 where "mutate_ty_arg R flash state ?ptb stage_idx r1 = Inr (Mutated, ptb1, r2)" "res = Mutated" "input' = input\<lparr>in_sequence := ptb1\<rparr>"
    | picked r2 r3 where "pick_argument R flash state ?ptb stage_idx r2 = Inr (Some picked, r3)"
      "mutate_picked A R state pool input magic fuel picked r3 = Some (Inr (res, input', r'))"
    by (auto split: if_splits)
  then show ?thesis
  proof cases
    case 2
    with pool mutate_ty_arg_changes [OF 2(1)] show ?thesis by blast
  next
    case 3
    obtain c mc f idx where p: "picked = (c, mc, f, idx)" by (cases picked)
    from pick_argument_Some [OF 3(1) [unfolded p] assms(1)] have "Call mc \<in> set (commands ?ptb)" by (metis nth_mem)
    with assms(3) have "length (call_arguments mc) \<le> 65536" by blast
    with pool mutate_picked_changes [OF 3(2) [unfolded p] assms(1) 3(1) [unfolded p]] show ?thesis by blast
  qed (use pool in blast)
qed

definition vote_function :: MoveFunctionAbi where
  "vote_function = \<lparr>fn_name = ''vote'', parameters = [TokU64], return_paramters = [], fn_type_parameters = [],
     visibility = Public, is_entry = True\<rparr>"

definition vote_meta :: "unit FuzzMetadata" where
  "vote_meta = demo_meta\<lparr>fm_base := demo_base\<lparr>md_testing_abis := [(7, \<lparr>package_id = 7,
     modules = [\<lparr>abi_module_id = \<lparr>module_address = 7, mod_name = ''m''\<rparr>, abi_structs = [],
       abi_functions = [vote_function]\<rparr>]\<rparr>)]\<rparr>\<rparr>"

definition vote_input :: "u64 \<Rightarrow> unit MoveFuzzInput" where
  "vote_input n = MoveFuzzInput_default\<lparr>in_sequence := \<lparr>inputs = [InU64 n], commands = [demo_call ''vote'' [Input 0]]\<rparr>\<rparr>"

lemma vote_mutates:
  "mutate_arg idle_libafl scripted bit_parse None vote_meta (vote_input 5) False None 1 [1, 0, 0, 6, 3] =
     Some (Inr (Mutated, vote_input 8, []))"
  by code_simp

theorem mutate_arg_frame_witness:
  "\<exists>pool ptb'. magic_number_pool bit_parse vote_meta (vote_input 5) = Inr pool
     \<and> vote_input 8 = (vote_input 5)\<lparr>in_sequence := ptb'\<rparr>
     \<and> (ty_arg_changed None vote_meta None (in_sequence (vote_input 5)) ptb'
        \<or> input_changed False None vote_meta None pool (in_sequence (vote_input 5)) ptb')"
proof -
  have "\<forall>mc. Call mc \<in> set (commands (in_sequence (vote_input 5))) \<longrightarrow> length (call_arguments mc) \<le> 65536"
    by (simp add: vote_input_def demo_call_def)
  from mutate_arg_frame [OF scripted_ok vote_mutates this] show ?thesis by auto
qed

end
