(* ===== verification/Sequence_Grow.thy ===== *)
theory Sequence_Grow
  imports Arg_Construction Arg_Mutation
begin

text \<open>
  The growth of sequences in \<open>movy-fuzz/src/mutators/sequence\<close>: \<open>append.rs\<close> adds a call and the calls
  that produce its missing arguments, \<open>hooks.rs\<close> puts hooks and contexts around the calls, \<open>post.rs\<close>
  returns balances and objects, and \<open>sequence.rs\<close> is the mutator that drives them.

  \<open>append_function\<close> recurses on the levels that the bound \<open>recursion_depth > 10\<close> leaves, so it is
  structural: depth \<open>d\<close> is level \<open>11 - d\<close>, and level 0 is the early return of the source. The only
  fuel is that of the value mutation.
\<close>

section \<open>Weighted choice\<close>

text \<open>The sum and the running sum are 64-bit and panic on overflow.\<close>

definition sum_u64 :: "u64 list \<Rightarrow> u64 res" where
  "sum_u64 ws = foldR add_u64 0 ws"

fun pick_weighted :: "'a list \<Rightarrow> nat \<Rightarrow> u64 \<Rightarrow> nat \<Rightarrow> u64 list \<Rightarrow> 'a res" where
  "pick_weighted items n cumulative i [] = Inl (Panic ''internal error: entered unreachable code'')"
| "pick_weighted items n cumulative i (w # ws) =
     bindR (add_u64 cumulative w) (\<lambda>cumulative.
     if n \<le> unat cumulative then indexR items i else pick_weighted items n cumulative (Suc i) ws)"

definition weighted_sample :: "'r Rand \<Rightarrow> 'a list \<Rightarrow> u64 list \<Rightarrow> 'r \<Rightarrow> ('a \<times> 'r) res" where
  "weighted_sample R items weights r =
     (if length items \<noteq> length weights then Inl (Panic ''Items and weights must have the same length'')
      else if weights = [] then Inl (Panic ''Weights cannot be empty'')
      else bindR (sum_u64 weights) (\<lambda>total_weight.
        if total_weight = 0 then Inl (Panic ''Total weight cannot be zero'')
        else case below_or_zero R (unat total_weight) r of (k, r) \<Rightarrow>
          bindR (pick_weighted items (k + 1) 0 0 weights) (\<lambda>x. Inr (x, r))))"

section \<open>Loops with an early return\<close>

fun foldFX :: "('s \<Rightarrow> 'a \<Rightarrow> ('x + 's) fuelled) \<Rightarrow> 's \<Rightarrow> 'a list \<Rightarrow> ('x + 's) fuelled" where
  "foldFX f s [] = Some (Inr (Inr s))"
| "foldFX f s (x # xs) = bindFR (f s x) (\<lambda>e. case e of Inl y \<Rightarrow> Some (Inr (Inl y)) | Inr s' \<Rightarrow> foldFX f s' xs)"

definition add_idx :: "u16 \<Rightarrow> u16 \<Rightarrow> u16 res" where
  "add_idx a b = (if unat a + unat b < 65536 then Inr (a + b) else Inl (Panic ''attempt to add with overflow''))"

definition sub_idx :: "u16 \<Rightarrow> u16 \<Rightarrow> u16 res" where
  "sub_idx a b = (if b \<le> a then Inr (a - b) else Inl (Panic ''attempt to subtract with overflow''))"

section \<open>Appending a call\<close>

record ('r, 'm) GrowEnv =
  ge_libafl :: "'r Libafl"
  ge_rand :: "'r Rand"
  ge_product :: "ty_args list list \<Rightarrow> ty_args list list"
  ge_store :: StoreInfo
  ge_state :: "'m FuzzMetadata"
  ge_fuel :: nat

type_synonym fixed_args = "(u16, SequenceArgument \<times> MoveTypeTag) btree"

definition is_ref :: "MoveAbiSignatureToken \<Rightarrow> bool" where
  "is_ref t = (case t of TokReference _ \<Rightarrow> True | TokMutableReference _ \<Rightarrow> True | _ \<Rightarrow> False)"

text \<open>A zero value, mutated once without magic numbers.\<close>

definition initial_value :: "('r, 'm) GrowEnv \<Rightarrow> MoveAbiSignatureToken \<Rightarrow> 'r \<Rightarrow> (InputArgument \<times> 'r) fuelled" where
  "initial_value E param r =
     bindFR (Some (gen_input_arg param)) (\<lambda>v.
     bindFR (Some (unwrapR ''Failed to generate initial value for parameter'' v)) (\<lambda>init_value.
     bindFR (mutate (ge_libafl E) (ge_rand E) (ge_state E) (MutableValue_new init_value) [] False (ge_fuel E) r) (\<lambda>(_, v, r).
     Some (Inr (mv_value v, r)))))"

definition struct_params :: "fixed_args \<Rightarrow> MoveFunctionAbi \<Rightarrow> MoveAbiSignatureToken list" where
  "struct_params fixed f = map snd (filter (\<lambda>(i, p). bt_get fixed (as_u16 i) = None \<and> needs_sample p)
     (enumerate 0 (parameters f)))"

definition hinted_ty_args :: "fixed_args \<Rightarrow> ty_args \<Rightarrow> ty_args" where
  "hinted_ty_args fixed tas =
     foldl (\<lambda>m (i, _, ty_tag). case bt_get m i of None \<Rightarrow> bt_insert i ty_tag m | Some _ \<Rightarrow> m) tas fixed"

text \<open>The arguments of a call whose objects were all found.\<close>

definition found_param ::
  "('r, 'm) GrowEnv \<Rightarrow> fixed_args \<Rightarrow> nat \<Rightarrow> SequenceArgument list \<times> SequenceArgument list \<times> InputArgument list \<times> 'r
     \<Rightarrow> nat \<times> MoveAbiSignatureToken
     \<Rightarrow> ('x + (SequenceArgument list \<times> SequenceArgument list \<times> InputArgument list \<times> 'r)) fuelled" where
  "found_param E fixed len acc p = (case acc of (arguments, args, ins, r) \<Rightarrow> case p of (i, param) \<Rightarrow>
     case bt_get fixed (as_u16 i) of
       Some (arg, _) \<Rightarrow> Some (Inr (Inr (arguments @ [arg], args, ins, r)))
     | None \<Rightarrow>
       if is_tx_context param then Some (Inr (Inr acc))
       else if needs_sample param then
         (case args of
            [] \<Rightarrow> Some (Inl (Panic ''removal index (is 0) should be < len (is 0)''))
          | arg # args \<Rightarrow> Some (Inr (Inr (arguments @ [arg], args, ins, r))))
       else
         bindFR (initial_value E param r) (\<lambda>(v, r).
         let ins = ins @ [v] in
         Some (Inr (Inr (arguments @ [Input (as_u16 (len + length ins - 1))], args, ins, r)))))"

record 'r Partial =
  pa_args :: "SequenceArgument option list"
  pa_params :: "MoveAbiSignatureToken list"
  pa_arguments :: "SequenceArgument list"
  pa_types :: ty_args
  pa_used :: "SequenceArgument list"
  pa_inputs :: "InputArgument list"
  pa_ptb :: MoveSequence
  pa_rand :: 'r

text \<open>The first result of a producer that the wanted type may be.\<close>

definition matching_return ::
  "MoveAbiSignatureToken \<Rightarrow> MoveFunctionAbi \<Rightarrow> (partial_args \<times> nat) option" where
  "matching_return arg_type f =
     (case List.map_filter (\<lambda>(i, ret_ty). map_option (\<lambda>e. (e, i)) (partial_extract_ty_args arg_type ret_ty))
             (enumerate 0 (return_paramters f)) of
        [] \<Rightarrow> None | x # _ \<Rightarrow> Some x)"

text \<open>The type arguments of the producer that are known already; none when they conflict.\<close>

definition carry_ty_arg :: "ty_args \<Rightarrow> ty_args \<Rightarrow> u16 \<times> u16 \<Rightarrow> ty_args option" where
  "carry_ty_arg known producing p = (case p of (self, other) \<Rightarrow>
     case bt_get known self of
       None \<Rightarrow> Some producing
     | Some ty_arg \<Rightarrow> (case bt_get producing other of
         Some other_ty_arg \<Rightarrow> if ty_arg \<noteq> other_ty_arg then None else Some producing
       | None \<Rightarrow> Some (bt_insert other ty_arg producing)))"

definition last_call :: "MoveSequence \<Rightarrow> MoveCall res" where
  "last_call ptb = (case rev (commands ptb) of
     Call mc # _ \<Rightarrow> Inr mc
   | [] \<Rightarrow> Inl (Panic ''called `Option::unwrap()` on a `None` value'')
   | _ \<Rightarrow> Inl (Panic ''Expected MoveCall command''))"

type_synonym append_result = "(SequenceArgument list \<times> SequenceArgument list) option"

text \<open>
  A missing argument: choose a producer, append it with the recursive call \<open>rec\<close>, and take its result.
  The value of the early return is the sequence as it is then, and the state of the generator.
\<close>

definition take_result ::
  "ty_args \<Rightarrow> 'r Partial \<Rightarrow> MoveAbiSignatureToken \<Rightarrow> ty_args \<Rightarrow> (u16 \<times> u16) list \<Rightarrow> nat
     \<Rightarrow> SequenceArgument list \<Rightarrow> MoveSequence \<Rightarrow> 'r \<Rightarrow> 'r Partial res" where
  "take_result ty_args st param arg_ty_arg mapping ret_idx new_rets ptb r =
     bindR (last_call ptb) (\<lambda>new_movecall.
     bindR (foldR (\<lambda>m (self, other).
              bindR (indexR (call_type_arguments new_movecall) (unat other)) (\<lambda>ty. Inr (bt_insert self ty m)))
            (insert_all ty_args arg_ty_arg) mapping) (\<lambda>new_ty_args.
     bindR (indexR new_rets ret_idx) (\<lambda>ret.
     Inr (st\<lparr>pa_types := insert_all (pa_types st) new_ty_args,
             pa_arguments := pa_arguments st @ [ret],
             pa_used := pa_used st @ (if is_ref param then [] else [ret]),
             pa_ptb := ptb, pa_rand := r\<rparr>))))"

type_synonym 'r appender =
  "MoveSequence \<Rightarrow> FunctionIdent \<Rightarrow> ty_args \<Rightarrow> SequenceArgument list \<Rightarrow> 'r \<Rightarrow> (append_result \<times> MoveSequence \<times> 'r) fuelled"

definition produce_missing ::
  "'r appender \<Rightarrow> ('r, 'm) GrowEnv \<Rightarrow> FunctionIdent \<Rightarrow> ty_args \<Rightarrow> 'r Partial \<Rightarrow> MoveAbiSignatureToken
     \<Rightarrow> MoveAbiSignatureToken \<Rightarrow> ((MoveSequence \<times> 'r) + 'r Partial) fuelled" where
  "produce_missing rec E target ty_args st param wanted =
     (let arg_type = partial_subst wanted (bt_get ty_args);
          funcs = find_producers (md_type_graph (fm_base (ge_state E))) arg_type True
            (Some (module_address (ident_module target), mod_name (ident_module target), ident_function target)) in
      if funcs = [] then Some (Inr (Inl (pa_ptb st, pa_rand st)))
      else case below_or_zero (ge_rand E) (length funcs) (pa_rand st) of (k, r) \<Rightarrow>
        bindFR (Some (indexR funcs k)) (\<lambda>(pre_module, pre_func).
        case matching_return arg_type pre_func of
          None \<Rightarrow> Some (Inr (Inl (pa_ptb st, r)))
        | Some ((arg_ty_arg, producing_ty_arg, mapping), ret_idx) \<Rightarrow>
          (case foldO (carry_ty_arg (pa_types st)) producing_ty_arg mapping of
             None \<Rightarrow> Some (Inr (Inl (pa_ptb st, r)))
           | Some producing_ty_arg \<Rightarrow>
             bindFR (rec (pa_ptb st) (FunctionIdent_new (module_address pre_module) (mod_name pre_module) (fn_name pre_func))
                       producing_ty_arg (pa_used st) r) (\<lambda>(appended, ptb, r).
             case appended of
               None \<Rightarrow> Some (Inr (Inl (ptb, r)))
             | Some (_, new_rets) \<Rightarrow>
                 bindFR (Some (take_result ty_args st param arg_ty_arg mapping ret_idx new_rets ptb r))
                   (\<lambda>st. Some (Inr (Inr st)))))))"

definition partial_param ::
  "'r appender \<Rightarrow> ('r, 'm) GrowEnv \<Rightarrow> FunctionIdent \<Rightarrow> fixed_args \<Rightarrow> ty_args \<Rightarrow> nat \<Rightarrow> 'r Partial
     \<Rightarrow> nat \<times> MoveAbiSignatureToken \<Rightarrow> ((MoveSequence \<times> 'r) + 'r Partial) fuelled" where
  "partial_param rec E target fixed ty_args initial_len st p = (case p of (i, param) \<Rightarrow>
     case bt_get fixed (as_u16 i) of
       Some (arg, _) \<Rightarrow> Some (Inr (Inr (st\<lparr>pa_arguments := pa_arguments st @ [arg]\<rparr>)))
     | None \<Rightarrow>
       if is_tx_context param then Some (Inr (Inr st))
       else if needs_sample param then
         (case (pa_args st, pa_params st) of
            (found # args, wanted # params) \<Rightarrow>
              (let st = st\<lparr>pa_args := args, pa_params := params\<rparr> in
               case found of
                 Some arg \<Rightarrow> Some (Inr (Inr (st\<lparr>pa_arguments := pa_arguments st @ [arg]\<rparr>)))
               | None \<Rightarrow> produce_missing rec E target ty_args st param wanted)
          | _ \<Rightarrow> Some (Inl (Panic ''removal index (is 0) should be < len (is 0)'')))
       else
         bindFR (initial_value E param (pa_rand st)) (\<lambda>(v, r).
         let ins = pa_inputs st @ [v] in
         Some (Inr (Inr (st\<lparr>pa_inputs := ins, pa_rand := r,
           pa_arguments := pa_arguments st @ [Input (as_u16 (initial_len + length ins - 1))]\<rparr>)))))"

definition partial_ty_arg ::
  "('r, 'm) GrowEnv \<Rightarrow> ty_args \<Rightarrow> 'r \<Rightarrow> nat \<times> MoveAbility \<Rightarrow> ('r \<times> MoveTypeTag) res" where
  "partial_ty_arg E known r p = (case p of (j, wanted) \<Rightarrow>
     bindR (gen_type_tag_by_abilities (ge_rand E) (ge_state E) wanted r) (\<lambda>(ty, r).
     Inr (r, case bt_get known (as_u16 j) of Some t \<Rightarrow> t | None \<Rightarrow> ty)))"

text \<open>The arguments of a call, its type arguments and its new inputs.\<close>

type_synonym 'r built = "SequenceArgument list \<times> MoveTypeTag list \<times> InputArgument list \<times> MoveSequence \<times> 'r"

definition new_used :: "SequenceArgument option list \<Rightarrow> MoveAbiSignatureToken list \<Rightarrow> SequenceArgument list" where
  "new_used partial_args params =
     List.map_filter (\<lambda>(arg, param). if is_ref param then None else arg) (zip partial_args params)"

definition build_args ::
  "'r appender \<Rightarrow> ('r, 'm) GrowEnv \<Rightarrow> FunctionIdent \<Rightarrow> MoveFunctionAbi \<Rightarrow> fixed_args \<Rightarrow> SequenceArgument list
     \<Rightarrow> MoveSequence \<Rightarrow> ConstructResult \<Rightarrow> 'r \<Rightarrow> ((MoveSequence \<times> 'r) + 'r built) fuelled" where
  "build_args rec E target f fixed used_arguments ptb found r =
     (let len = length (inputs ptb); wanted = struct_params fixed f in
      case found of
        Unsolvable \<Rightarrow> Some (Inr (Inl (ptb, r)))
      | ConstructOk args tas ins \<Rightarrow>
          bindFR (foldFX (found_param E fixed len) ([], args, ins, r) (enumerate 0 (parameters f))) (\<lambda>e.
          case e of
            Inl x \<Rightarrow> Some (Inr (Inl x))
          | Inr (arguments, _, ins, r) \<Rightarrow> Some (Inr (Inr (arguments, tas, ins, ptb, r))))
      | PartialFound partial_args tas ins \<Rightarrow>
          if length partial_args \<noteq> length wanted then Some (Inl (Panic ''Partial arguments length mismatch''))
          else
            bindFR (foldFX (partial_param rec E target fixed tas len)
                \<lparr>pa_args = partial_args, pa_params = wanted, pa_arguments = [], pa_types = [],
                 pa_used = new_used partial_args wanted @ used_arguments, pa_inputs = ins, pa_ptb = ptb, pa_rand = r\<rparr>
                (enumerate 0 (parameters f))) (\<lambda>e.
            case e of
              Inl x \<Rightarrow> Some (Inr (Inl x))
            | Inr st \<Rightarrow>
                bindFR (Some (mapAccumR (partial_ty_arg E (pa_types st)) (pa_rand st) (enumerate 0 (fn_type_parameters f))))
                  (\<lambda>(r, tas). Some (Inr (Inr (pa_arguments st, tas, pa_inputs st, pa_ptb st, r))))))"

section \<open>The inputs of the new call\<close>

text \<open>
  An object among the new inputs that the sequence has as an input already: a reference is redirected
  to the old input, and a use by value gives up.
\<close>

type_synonym redirect = "SequenceArgument list \<times> nat list \<times> nat list"

definition is_object :: "InputArgument \<Rightarrow> bool" where
  "is_object v = (case v of InObject _ _ \<Rightarrow> True | _ \<Rightarrow> False)"

fun position :: "'a \<Rightarrow> 'a list \<Rightarrow> nat option" where
  "position x [] = None"
| "position x (y # ys) = (if y = x then Some 0 else map_option Suc (position x ys))"

definition redirect_input ::
  "MoveSequence \<Rightarrow> nat \<Rightarrow> InputArgument list \<Rightarrow> redirect \<Rightarrow> nat \<times> SequenceArgument \<times> MoveAbiSignatureToken
     \<Rightarrow> (unit + redirect) res" where
  "redirect_input ptb initial_len ins acc p =
     (case acc of (arguments, remove_idxs, fixed_idxs) \<Rightarrow> case p of (i, arg, param) \<Rightarrow>
      case arg of
        Input input_idx \<Rightarrow>
          if unat input_idx < initial_len then Inr (Inr acc)
          else
            (let offset = unat input_idx - initial_len in
             bindR (indexR ins offset) (\<lambda>v.
             case position v (inputs ptb) of
               Some k \<Rightarrow>
                 if is_object v then
                   if is_ref param then Inr (Inr (arguments[i := Input (as_u16 k)], remove_idxs @ [offset], fixed_idxs @ [i]))
                   else Inr (Inl ())
                 else Inr (Inr acc)
             | None \<Rightarrow> Inr (Inr acc)))
      | _ \<Rightarrow> Inr (Inr acc))"

definition shift_input ::
  "nat \<Rightarrow> nat \<Rightarrow> nat list \<Rightarrow> nat list \<Rightarrow> nat \<times> SequenceArgument \<Rightarrow> SequenceArgument res" where
  "shift_input initial_len len remove_idxs fixed_idxs p = (case p of (i, arg) \<Rightarrow>
     if i \<in> set fixed_idxs then Inr arg
     else case arg of
       Input input_idx \<Rightarrow>
         if unat input_idx \<ge> initial_len then
           (let offset = unat input_idx - initial_len;
                adjust = length (filter (\<lambda>x. x < offset) remove_idxs) in
            bindR (sub_idx input_idx (as_u16 adjust)) (\<lambda>input_idx.
            bindR (add_idx input_idx (as_u16 (len - initial_len))) (\<lambda>input_idx. Inr (Input input_idx))))
         else Inr arg
     | _ \<Rightarrow> Inr arg)"

definition place_inputs ::
  "MoveSequence \<Rightarrow> nat \<Rightarrow> MoveFunctionAbi \<Rightarrow> SequenceArgument list \<Rightarrow> InputArgument list
     \<Rightarrow> (SequenceArgument list \<times> InputArgument list) option res" where
  "place_inputs ptb initial_len f arguments ins =
     bindR (foldRX (redirect_input ptb initial_len ins) (arguments, [], [])
              (enumerate 0 (zip arguments (parameters f)))) (\<lambda>e.
     case e of
       Inl _ \<Rightarrow> Inr None
     | Inr (arguments, remove_idxs, fixed_idxs) \<Rightarrow>
         (let remove_idxs = sort_dedup remove_idxs in
          bindR (foldR remove_at ins (rev remove_idxs)) (\<lambda>ins.
          bindR (mapR (shift_input initial_len (length (inputs ptb)) remove_idxs fixed_idxs) (enumerate 0 arguments)) (\<lambda>arguments.
          Inr (Some (arguments, ins))))))"

section \<open>Splitting coins and balances\<close>

definition split_param ::
  "MoveTypeTag list \<Rightarrow> SequenceArgument list \<times> InputArgument list \<times> MoveSequence \<Rightarrow> nat \<times> SequenceArgument \<times> MoveAbiSignatureToken
     \<Rightarrow> (SequenceArgument list \<times> InputArgument list \<times> MoveSequence) res" where
  "split_param tas acc p = (case acc of (arguments, ins, ptb) \<Rightarrow> case p of (i, old_arg, param) \<Rightarrow>
     if is_balance param \<or> is_coin param then
       (let special_string = (if is_balance param then ''balance'' else ''coin'') in
        bindR (unwrapR ''called `Option::unwrap()` on a `None` value'' (subst param (bt_get (numbered_ty_args tas)))) (\<lambda>ty.
        case ty of
          TagStruct s \<Rightarrow>
            bindR (gen_input_arg TokU64) (\<lambda>v.
            bindR (unwrapR ''called `Option::unwrap()` on a `None` value'' v) (\<lambda>v.
            let ins = ins @ [v] in
            bindR (sub_idx (as_u16 (length (inputs ptb) + length ins)) 1) (\<lambda>input_idx.
            Inr (arguments[i := Result (as_u16 (length (commands ptb)))], ins,
                 ptb\<lparr>commands := commands ptb @ [Call \<lparr>call_module_id = two, call_module_name = special_string,
                   call_function = ''split'', call_type_arguments = tag_tys s,
                   call_arguments = [old_arg, Input input_idx]\<rparr>]\<rparr>))))
        | _ \<Rightarrow> Inl (Panic ''Expected parameter to be a struct'')))
     else Inr acc)"

definition call_returns :: "MoveFunctionAbi \<Rightarrow> nat \<Rightarrow> SequenceArgument list" where
  "call_returns f n =
     (if length (return_paramters f) = 1 then [Result (as_u16 n)]
      else map (\<lambda>j. NestedResult (as_u16 n) (as_u16 j)) [0..<length (return_paramters f)])"

definition push_call ::
  "FunctionIdent \<Rightarrow> MoveFunctionAbi \<Rightarrow> bool \<Rightarrow> SequenceArgument list \<Rightarrow> MoveTypeTag list \<Rightarrow> InputArgument list
     \<Rightarrow> MoveSequence \<Rightarrow> (append_result \<times> MoveSequence) res" where
  "push_call target f disable_split arguments tas ins ptb =
     bindR (if disable_split then Inr (arguments, ins, ptb)
            else foldR (split_param tas) (arguments, ins, ptb) (enumerate 0 (zip arguments (parameters f)))) (\<lambda>(arguments, ins, ptb).
     if length tas \<noteq> length (fn_type_parameters f) then Inl (Panic ''Type arguments length mismatch for function'')
     else
       Inr (Some (arguments, call_returns f (length (commands ptb))),
            \<lparr>inputs = inputs ptb @ ins,
             commands = commands ptb @ [Call \<lparr>call_module_id = module_address (ident_module target),
               call_module_name = mod_name (ident_module target), call_function = ident_function target,
               call_type_arguments = tas, call_arguments = arguments\<rparr>]\<rparr>))"

text \<open>One level of \<open>append_function\<close> over the appender of the next level.\<close>

definition append_level ::
  "'r appender \<Rightarrow> ('r, 'm) GrowEnv \<Rightarrow> MoveSequence \<Rightarrow> FunctionIdent \<Rightarrow> fixed_args \<Rightarrow> ty_args \<Rightarrow> SequenceArgument list
     \<Rightarrow> bool \<Rightarrow> 'r \<Rightarrow> (append_result \<times> MoveSequence \<times> 'r) fuelled" where
  "append_level rec E ptb function_ident fixed_args fixed_ty_args used_arguments disable_split r =
     bindFR (Some (from_ptb_and_remove_used (ge_store E) (ge_state E) ptb used_arguments)) (\<lambda>object_data.
     bindFR (Some (unwrapR ''Function not found''
       (get_function (fm_base (ge_state E)) (module_address (ident_module function_ident))
          (mod_name (ident_module function_ident)) (ident_function function_ident)))) (\<lambda>f.
     bindFR (Some (try_construct_args (ge_rand E) (ge_product E) (ge_store E) (ge_state E) (length (inputs ptb))
               (struct_params fixed_args f) (fn_type_parameters f) (hinted_ty_args fixed_args fixed_ty_args) object_data r)) (\<lambda>(found, r).
     bindFR (build_args rec E function_ident f fixed_args used_arguments ptb found r) (\<lambda>e.
     case e of
       Inl (ptb, r) \<Rightarrow> Some (Inr (None, ptb, r))
     | Inr (arguments, tas, ins, ptb', r) \<Rightarrow>
         bindFR (Some (place_inputs ptb' (length (inputs ptb)) f arguments ins)) (\<lambda>placed.
         case placed of
           None \<Rightarrow> Some (Inr (None, ptb', r))
         | Some (arguments, ins) \<Rightarrow>
             bindFR (Some (push_call function_ident f disable_split arguments tas ins ptb')) (\<lambda>(res, ptb).
             Some (Inr (res, ptb, r))))))))"

fun append_function ::
  "nat \<Rightarrow> ('r, 'm) GrowEnv \<Rightarrow> MoveSequence \<Rightarrow> FunctionIdent \<Rightarrow> fixed_args \<Rightarrow> ty_args \<Rightarrow> SequenceArgument list
     \<Rightarrow> bool \<Rightarrow> 'r \<Rightarrow> (append_result \<times> MoveSequence \<times> 'r) fuelled" where
  "append_function 0 E ptb function_ident fixed_args fixed_ty_args used_arguments disable_split r = Some (Inr (None, ptb, r))"
| "append_function (Suc level) E ptb function_ident fixed_args fixed_ty_args used_arguments disable_split r =
     append_level (\<lambda>ptb ident tas used r. append_function level E ptb ident [] tas used False r)
       E ptb function_ident fixed_args fixed_ty_args used_arguments disable_split r"

text \<open>\<open>recursion_depth = 0\<close>\<close>

definition TOP_LEVEL :: nat where "TOP_LEVEL = 11"

section \<open>Hooks\<close>

text \<open>The arguments a hook takes from its target: the context first, then the target's own.\<close>

definition mirror_param ::
  "nat \<Rightarrow> ty_args \<Rightarrow> MoveCall \<Rightarrow> fixed_args \<Rightarrow> nat \<times> MoveAbiSignatureToken \<times> MoveAbiSignatureToken \<Rightarrow> fixed_args option" where
  "mirror_param param_offset tas target_call fixed p = (case p of (i, hook_param, target_param) \<Rightarrow>
     case (subst hook_param (bt_get tas), subst target_param (bt_get tas)) of
       (Some hook_ty, Some target_ty) \<Rightarrow>
         if hook_ty \<noteq> target_ty then None
         else if is_tx_context target_param then Some fixed
         else if i < length (call_arguments target_call)
         then Some (bt_insert (as_u16 (param_offset + i)) (call_arguments target_call ! i, hook_ty) fixed)
         else None
     | _ \<Rightarrow> None)"

definition hook_args ::
  "MoveFunctionAbi \<Rightarrow> (MoveCall \<times> MoveFunctionAbi) option \<Rightarrow> SequenceArgument option \<Rightarrow> (fixed_args \<times> ty_args) option" where
  "hook_args hook_abi target ctx_arg =
     (let param_offset = (if ctx_arg \<noteq> None then 1 else 0);
          fixed_args = (case ctx_arg of
            None \<Rightarrow> []
          | Some ctx \<Rightarrow> (case parameters hook_abi of
              [] \<Rightarrow> []
            | p # _ \<Rightarrow> (case subst p (\<lambda>_. None) of Some ty \<Rightarrow> [(0, ctx, ty)] | None \<Rightarrow> []))) in
      case target of
        None \<Rightarrow> Some (fixed_args, [])
      | Some (target_call, target_abi) \<Rightarrow>
          if length (fn_type_parameters hook_abi) \<noteq> length (call_type_arguments target_call) then None
          else if length (parameters hook_abi) \<noteq> param_offset + length (parameters target_abi) then None
          else
            (let tas = call_ty_args target_call in
             map_option (\<lambda>fixed_args. (fixed_args, tas))
               (foldO (mirror_param param_offset tas target_call) fixed_args
                  (enumerate 0 (zip (drop param_offset (parameters hook_abi)) (parameters target_abi))))))"

definition append_hook_call ::
  "('r, 'm) GrowEnv \<Rightarrow> MoveSequence \<Rightarrow> FunctionIdent \<Rightarrow> (MoveCall \<times> MoveFunctionAbi) option \<Rightarrow> SequenceArgument option
     \<Rightarrow> 'r \<Rightarrow> (MoveSequence \<times> 'r) fuelled" where
  "append_hook_call E ptb hook target ctx_arg r =
     (case get_function (fm_base (ge_state E)) (module_address (ident_module hook))
             (mod_name (ident_module hook)) (ident_function hook) of
        None \<Rightarrow> Some (Inr (ptb, r))
      | Some hook_abi \<Rightarrow>
          (case hook_args hook_abi target ctx_arg of
             None \<Rightarrow> Some (Inr (ptb, r))
           | Some (fixed_args, fixed_ty_args) \<Rightarrow>
               bindFR (append_function TOP_LEVEL E ptb hook fixed_args fixed_ty_args
                         (map (fst \<circ> snd) fixed_args) True r) (\<lambda>(_, ptb, r). Some (Inr (ptb, r)))))"

definition resolve_destroy_param_ty ::
  "'m FuzzMetadata \<Rightarrow> (FunctionIdent \<times> FunctionIdent) option \<Rightarrow> MoveTypeTag option" where
  "resolve_destroy_param_ty state contexts =
     Option.bind contexts (\<lambda>(_, destroy).
     Option.bind (get_function (fm_base state) (module_address (ident_module destroy)) (mod_name (ident_module destroy))
                    (ident_function destroy)) (\<lambda>abi.
     case parameters abi of [] \<Rightarrow> None | p # _ \<Rightarrow> subst p (\<lambda>_. None)))"

definition append_context_creation ::
  "('r, 'm) GrowEnv \<Rightarrow> MoveSequence \<Rightarrow> (FunctionIdent \<times> FunctionIdent) option \<Rightarrow> 'r
     \<Rightarrow> (SequenceArgument option \<times> MoveSequence \<times> 'r) fuelled" where
  "append_context_creation E ptb contexts r =
     (case contexts of
        None \<Rightarrow> Some (Inr (None, ptb, r))
      | Some (create, _) \<Rightarrow>
          bindFR (append_function TOP_LEVEL E ptb create [] [] [] True r) (\<lambda>(res, ptb, r).
          Some (Inr (case res of Some (_, ret # _) \<Rightarrow> Some ret | _ \<Rightarrow> None, ptb, r))))"

definition append_context_destruction ::
  "('r, 'm) GrowEnv \<Rightarrow> MoveSequence \<Rightarrow> (FunctionIdent \<times> FunctionIdent) option \<Rightarrow> MoveTypeTag option
     \<Rightarrow> SequenceArgument option \<Rightarrow> 'r \<Rightarrow> (MoveSequence \<times> 'r) fuelled" where
  "append_context_destruction E ptb contexts destroy_param_ty ctx_arg r =
     (case (ctx_arg, contexts, destroy_param_ty) of
        (Some ctx, Some (_, destroy), Some ty) \<Rightarrow>
          bindFR (append_function TOP_LEVEL E ptb destroy [(0, ctx, ty)] [] [] True r) (\<lambda>(_, ptb, r). Some (Inr (ptb, r)))
      | _ \<Rightarrow> Some (Inr (ptb, r)))"

fun append_hooks ::
  "('r, 'm) GrowEnv \<Rightarrow> (MoveCall \<times> MoveFunctionAbi) option \<Rightarrow> SequenceArgument option \<Rightarrow> FunctionIdent list
     \<Rightarrow> MoveSequence \<Rightarrow> 'r \<Rightarrow> (MoveSequence \<times> 'r) fuelled" where
  "append_hooks E target ctx [] ptb r = Some (Inr (ptb, r))"
| "append_hooks E target ctx (hook # hooks) ptb r =
     bindFR (append_hook_call E ptb hook target ctx r) (\<lambda>(ptb, r). append_hooks E target ctx hooks ptb r)"

definition append_sequence_hooks_with_ctx ::
  "('r, 'm) GrowEnv \<Rightarrow> FunctionIdent list \<Rightarrow> MoveSequence \<Rightarrow> SequenceArgument option \<Rightarrow> 'r \<Rightarrow> (MoveSequence \<times> 'r) fuelled" where
  "append_sequence_hooks_with_ctx E hooks ptb ctx r = append_hooks E None ctx hooks ptb r"

definition push_command :: "MoveSequence \<Rightarrow> u16 list \<Rightarrow> MoveSequenceCall \<Rightarrow> MoveSequence \<times> u16 list" where
  "push_command ptb index_map cmd =
     (ptb\<lparr>commands := commands ptb @ [cmd]\<rparr>, index_map @ [as_u16 (length (commands ptb))])"

definition append_call_without_hooks :: "MoveSequence \<Rightarrow> u16 list \<Rightarrow> MoveCall \<Rightarrow> MoveSequence \<times> u16 list" where
  "append_call_without_hooks ptb index_map remapped_call = push_command ptb index_map (Call remapped_call)"

definition append_non_call_command :: "MoveSequence \<Rightarrow> u16 list \<Rightarrow> MoveSequenceCall \<Rightarrow> (MoveSequence \<times> u16 list) res" where
  "append_non_call_command ptb index_map cmd =
     bindR (remap_command index_map cmd) (\<lambda>cmd. Inr (push_command ptb index_map cmd))"

definition handle_function_call_hooks ::
  "('r, 'm) GrowEnv \<Rightarrow> MoveCall \<Rightarrow> MoveCall \<Rightarrow> MoveSequence \<Rightarrow> u16 list \<Rightarrow> (FunctionIdent \<times> FunctionIdent) option
     \<Rightarrow> MoveTypeTag option \<Rightarrow> 'r \<Rightarrow> (bool \<times> MoveSequence \<times> u16 list \<times> 'r) fuelled" where
  "handle_function_call_hooks E movecall remapped_call ptb index_map contexts destroy_param_ty r =
     (case get_function (fm_base (ge_state E)) (call_module_id movecall) (call_module_name movecall) (call_function movecall) of
        None \<Rightarrow> Some (Inr (False, ptb, index_map, r))
      | Some target_abi \<Rightarrow>
          (case bt_get (function_hooks (ge_state E)) (call_ident movecall) of
             None \<Rightarrow> Some (Inr (False, ptb, index_map, r))
           | Some hooks \<Rightarrow>
               bindFR (append_context_creation E ptb contexts r) (\<lambda>(ctx, ptb, r).
               bindFR (append_hooks E (Some (remapped_call, target_abi)) ctx (pre_hooks hooks) ptb r) (\<lambda>(ptb, r).
               case push_command ptb index_map (Call remapped_call) of (ptb, index_map) \<Rightarrow>
               bindFR (append_hooks E (Some (remapped_call, target_abi)) ctx (post_hooks hooks) ptb r) (\<lambda>(ptb, r).
               bindFR (append_context_destruction E ptb contexts destroy_param_ty ctx r) (\<lambda>(ptb, r).
               Some (Inr (True, ptb, index_map, r))))))))"

definition hook_command ::
  "('r, 'm) GrowEnv \<Rightarrow> (FunctionIdent \<times> FunctionIdent) option \<Rightarrow> MoveTypeTag option \<Rightarrow> MoveSequence \<times> u16 list \<times> 'r
     \<Rightarrow> MoveSequenceCall \<Rightarrow> (MoveSequence \<times> u16 list \<times> 'r) fuelled" where
  "hook_command E contexts destroy_param_ty acc cmd = (case acc of (ptb, index_map, r) \<Rightarrow>
     case cmd of
       Call movecall \<Rightarrow>
         bindFR (Some (remap_command index_map cmd)) (\<lambda>remapped.
         case remapped of
           Call remapped_call \<Rightarrow>
             bindFR (handle_function_call_hooks E movecall remapped_call ptb index_map contexts destroy_param_ty r)
               (\<lambda>(handled, ptb, index_map, r).
               if handled then Some (Inr (ptb, index_map, r))
               else case append_call_without_hooks ptb index_map remapped_call of (ptb, index_map) \<Rightarrow>
                 Some (Inr (ptb, index_map, r)))
         | _ \<Rightarrow> Some (Inl (Panic ''expected MoveCall'')))
     | _ \<Rightarrow> bindFR (Some (append_non_call_command ptb index_map cmd)) (\<lambda>(ptb, index_map). Some (Inr (ptb, index_map, r))))"

fun hook_commands ::
  "('r, 'm) GrowEnv \<Rightarrow> (FunctionIdent \<times> FunctionIdent) option \<Rightarrow> MoveTypeTag option \<Rightarrow> MoveSequence \<times> u16 list \<times> 'r
     \<Rightarrow> MoveSequenceCall list \<Rightarrow> (MoveSequence \<times> u16 list \<times> 'r) fuelled" where
  "hook_commands E contexts destroy_param_ty acc [] = Some (Inr acc)"
| "hook_commands E contexts destroy_param_ty acc (cmd # cmds) =
     bindFR (hook_command E contexts destroy_param_ty acc cmd) (\<lambda>acc. hook_commands E contexts destroy_param_ty acc cmds)"

section \<open>Returning balances and objects\<close>

definition process_key_store :: "StoreInfo \<Rightarrow> 'm FuzzMetadata \<Rightarrow> MoveSequence \<Rightarrow> MoveSequence res" where
  "process_key_store env state ptb =
     bindR (from_ptb env state ptb) (\<lambda>object_data.
     if key_store_objects object_data = [] then Inr ptb
     else
       (let ins = inputs ptb @ [InAddress (attacker state)] in
        bindR (sub_idx (as_u16 (length ins)) 1) (\<lambda>i.
        Inr \<lparr>inputs = ins, commands = commands ptb @ [TransferObjects (key_store_objects object_data) (Input i)]\<rparr>)))"

definition balance_ty_arg :: "'m FuzzMetadata \<Rightarrow> MoveSequence \<Rightarrow> SequenceArgument \<Rightarrow> MoveTypeTag res" where
  "balance_ty_arg state ptb balance =
     bindR (case balance of Result i \<Rightarrow> Inr (unat i, 0) | NestedResult i j \<Rightarrow> Inr (unat i, unat j)
            | _ \<Rightarrow> Inl (Panic ''Expected balance argument to be Result or NestedResult'')) (\<lambda>(i, ret_idx).
     bindR (indexR (commands ptb) i) (\<lambda>cmd.
     case cmd of
       Call movecall \<Rightarrow>
         bindR (function_of state movecall) (\<lambda>f.
         if \<not> ret_idx < length (return_paramters f) then Inl (Panic ''Expected balance return type to be a struct'')
         else case return_paramters f ! ret_idx of
           TokStructInstantiation _ type_arguments \<Rightarrow>
             bindR (indexR type_arguments 0) (\<lambda>t. case t of
               TokTypeParameter j _ \<Rightarrow> indexR (call_type_arguments movecall) (unat j)
             | _ \<Rightarrow> unwrapR ''called `Option::unwrap()` on a `None` value'' (subst t (\<lambda>_. None)))
         | _ \<Rightarrow> Inl (Panic ''Expected balance return type to be a struct''))
     | _ \<Rightarrow> Inl (Panic ''Expected MoveCall command'')))"

definition from_balance_command :: "MoveTypeTag \<Rightarrow> SequenceArgument \<Rightarrow> MoveSequenceCall" where
  "from_balance_command ty balance = Call \<lparr>call_module_id = two, call_module_name = ''coin'',
     call_function = ''from_balance'', call_type_arguments = [ty], call_arguments = [balance]\<rparr>"

definition process_balance :: "StoreInfo \<Rightarrow> 'm FuzzMetadata \<Rightarrow> MoveSequence \<Rightarrow> MoveSequence res" where
  "process_balance env state ptb =
     bindR (from_ptb env state ptb) (\<lambda>object_data.
     foldR (\<lambda>ptb balance. bindR (balance_ty_arg state ptb balance) (\<lambda>ty.
         Inr (ptb\<lparr>commands := commands ptb @ [from_balance_command ty balance]\<rparr>))) ptb (balances object_data))"

definition apply_hooks :: "('r, 'm) GrowEnv \<Rightarrow> MoveSequence \<Rightarrow> 'r \<Rightarrow> (MoveSequence \<times> 'r) fuelled" where
  "apply_hooks E base r =
     (let contexts = context_idents (ge_state E);
          destroy_param_ty = resolve_destroy_param_ty (ge_state E) contexts;
          hooks = sequence_hooks (ge_state E) in
      bindFR (append_context_creation E \<lparr>inputs = inputs base, commands = []\<rparr> contexts r) (\<lambda>(global_ctx, ptb, r).
      bindFR (append_sequence_hooks_with_ctx E (pre_hooks hooks) ptb global_ctx r) (\<lambda>(ptb, r).
      bindFR (hook_commands E contexts destroy_param_ty (ptb, [], r) (commands base)) (\<lambda>(ptb, index_map, r).
      bindFR (append_sequence_hooks_with_ctx E (post_hooks hooks) ptb global_ctx r) (\<lambda>(ptb, r).
      bindFR (append_context_destruction E ptb contexts destroy_param_ty global_ctx r) (\<lambda>(ptb, r).
      bindFR (Some (process_balance (ge_store E) (ge_state E) ptb)) (\<lambda>ptb.
      bindFR (Some (process_key_store (ge_store E) (ge_state E) ptb)) (\<lambda>ptb.
      Some (Inr (ptb, r))))))))))"

section \<open>The sequence mutator\<close>

record SequenceMutator =
  sm_flash :: "FlashProvider option"
  sm_stage :: StageReplay

definition SequenceMutator_new :: SequenceMutator where
  "SequenceMutator_new = \<lparr>sm_flash = None, sm_stage = StageReplay_new KindSequence\<rparr>"

text \<open>Where new calls go, and the loan that they may not use.\<close>

definition insertion_point :: "FlashProvider option \<Rightarrow> nat \<Rightarrow> (nat \<times> SequenceArgument list) res" where
  "insertion_point flash len = (case flash of
     Some (Cetus _ _ _ _ _ _) \<Rightarrow> bindR (sub_usize len 3) (\<lambda>i. Inr (i, [NestedResult 0 2]))
   | Some (Nemo _ _ _ _ _) \<Rightarrow> bindR (sub_usize len 1) (\<lambda>i. Inr (i, [NestedResult 1 1]))
   | None \<Rightarrow> Inr (len, []))"

text \<open>How the loop of \<open>mutate_sequence\<close> ends: by a \<open>return\<close>, or with a result.\<close>

datatype ('r, 'm) loop_end =
    LoopReturn MutationResult MoveSequence "'m FuzzMetadata" 'r
  | LoopBreak MutationResult MoveSequence "'m FuzzMetadata" 'r

definition function_weights :: "'m FuzzMetadata \<Rightarrow> FunctionIdent list \<Rightarrow> u64 list" where
  "function_weights state functions = map (\<lambda>f. case bt_get (function_scores state) f of Some w \<Rightarrow> w | None \<Rightarrow> 0) functions"

definition count_splits :: "MoveSequence \<Rightarrow> nat" where
  "count_splits ptb = length (filter is_split_call (commands ptb))"

text \<open>One round; \<open>Inr\<close> is the state of the next round.\<close>

definition grow_round ::
  "('r, 'm) GrowEnv \<Rightarrow> FlashProvider option \<Rightarrow> FunctionIdent list \<Rightarrow> MoveSequence \<Rightarrow> MoveSequence \<times> 'm FuzzMetadata \<times> 'r
     \<Rightarrow> (('r, 'm) loop_end + (MoveSequence \<times> 'm FuzzMetadata \<times> 'r)) fuelled" where
  "grow_round E flash functions ptb_snapshot acc = (case acc of (ptb, state, r) \<Rightarrow>
     let weights = function_weights state functions in
     if list_all (\<lambda>w. w = 0) weights then Some (Inr (Inl (LoopReturn Skipped ptb state r)))
     else
       bindFR (Some (weighted_sample (ge_rand E) functions weights r)) (\<lambda>(f, r).
       bindFR (Some (insertion_point flash (length (commands ptb)))) (\<lambda>(idx, used_arguments).
       bindFR (append_function TOP_LEVEL (E\<lparr>ge_state := state\<rparr>) (ptb\<lparr>commands := take idx (commands ptb)\<rparr>) f [] []
                 used_arguments False r) (\<lambda>(appended, ptb', r).
       if appended = None then Some (Inr (Inr (ptb_snapshot, state, r)))
       else
         let ptb = ptb'\<lparr>commands := commands ptb' @ drop idx (commands ptb)\<rparr> in
         if count_splits ptb > 10 then Some (Inr (Inl (LoopBreak Skipped ptb state r)))
         else
           bindFR (Some (from_ptb (ge_store E) state ptb)) (\<lambda>object_data.
           bindFR (Some (update_score (hot_potatoes object_data) state)) (\<lambda>state.
           if hot_potatoes object_data = [] then Some (Inr (Inl (LoopBreak Mutated ptb state r)))
           else Some (Inr (Inr (ptb, state, r)))))))))"

fun grow_loop ::
  "nat \<Rightarrow> ('r, 'm) GrowEnv \<Rightarrow> FlashProvider option \<Rightarrow> FunctionIdent list \<Rightarrow> MoveSequence \<Rightarrow> MoveSequence \<times> 'm FuzzMetadata \<times> 'r
     \<Rightarrow> ('r, 'm) loop_end fuelled" where
  "grow_loop 0 E flash functions ptb_snapshot (ptb, state, r) = Some (Inr (LoopBreak Skipped ptb state r))"
| "grow_loop (Suc n) E flash functions ptb_snapshot acc =
     bindFR (grow_round E flash functions ptb_snapshot acc) (\<lambda>e.
     case e of Inl fin \<Rightarrow> Some (Inr fin) | Inr acc \<Rightarrow> grow_loop n E flash functions ptb_snapshot acc)"

definition mutate_sequence ::
  "('r, 'm) GrowEnv \<Rightarrow> FlashProvider option \<Rightarrow> MoveSequence \<Rightarrow> 'r
     \<Rightarrow> (MutationResult \<times> MoveSequence \<times> 'm FuzzMetadata \<times> 'r) fuelled" where
  "mutate_sequence E flash ptb r =
     (let state = ge_state E; functions = target_functions state; len = length (commands ptb) in
      if functions = [] then Some (Inl (Panic ''No target functions available''))
      else case (if len \<le> 3 then (True, r) else float_below_growth (ge_rand E) len r) of (inc, r) \<Rightarrow>
        if \<not> inc then
          (case below_or_zero (ge_rand E) len r of (idx, r) \<Rightarrow>
           bindFR (remove_command (fm_base state) flash len ptb (idx mod 65536)) (\<lambda>(res, ptb). Some (Inr (res, ptb, state, r))))
        else
          bindFR (grow_loop 10 E flash functions ptb (ptb, state, r)) (\<lambda>e.
          case e of
            LoopReturn res ptb state r \<Rightarrow> Some (Inr (res, ptb, state, r))
          | LoopBreak res ptb' state r \<Rightarrow>
              let ptb = (if res = Skipped then ptb else ptb') in
              bindFR (Some (from_ptb (ge_store E) state ptb)) (\<lambda>object_data.
              bindFR (Some (update_score (hot_potatoes object_data) state)) (\<lambda>state.
              Some (Inr (res, ptb, state, r))))))"

record SequenceText =
  st_print :: "MoveAddress \<Rightarrow> string"
  st_parse :: "string \<Rightarrow> MoveAddress option"
  st_fingerprint :: "MoveSequence \<Rightarrow> u64"

definition SequenceMutator_mutate ::
  "SequenceText \<Rightarrow> ('r, 'm) GrowEnv \<Rightarrow> SequenceMutator \<Rightarrow> ('i, 'b) ExecutionExtraOutcome option
     \<Rightarrow> 'o MoveFuzzInput \<Rightarrow> 'r \<Rightarrow> (MutationResult \<times> SequenceMutator \<times> 'm FuzzMetadata \<times> 'o MoveFuzzInput \<times> 'r) fuelled" where
  "SequenceMutator_mutate T E self ex input r =
     (let R = ge_rand E; state = ge_state E; flash = sm_flash self;
          input = (case ex of Some ex \<Rightarrow> update_magic_number (st_print T) ex input | None \<Rightarrow> input) in
      case decide (current_mutator state) ex (st_fingerprint T (in_sequence input)) (sm_stage self) of (action, stage) \<Rightarrow>
      let self = self\<lparr>sm_stage := stage\<rparr> in
      case action of
        Replay stage_idx ptb \<Rightarrow>
          (let input = input\<lparr>in_sequence := ptb\<rparr> in
           case below_or_zero R 2 r of (k, r) \<Rightarrow>
           bindFR (mutate_arg (ge_libafl E) R (st_parse T) flash state input (k = 0) (Some stage_idx) (ge_fuel E) r)
             (\<lambda>(res, input, r).
             let self = (if res = Mutated then self\<lparr>sm_stage := record_success (in_sequence input) (sm_stage self)\<rparr> else self);
                 state = (if res = Mutated then state\<lparr>current_mutator := Some KindSequence\<rparr> else state) in
             Some (Inr (res, self, state, input\<lparr>in_outcome := None\<rparr>, r))))
      | Fresh \<Rightarrow>
          bindFR (mutate_sequence E flash (strip_generated (in_sequence input) state) r) (\<lambda>(res, ptb, state, r).
          case below_or_zero R 2 r of (k, r) \<Rightarrow>
          bindFR (mutate_arg (ge_libafl E) R (st_parse T) flash state (input\<lparr>in_sequence := ptb\<rparr>) (k = 0) None (ge_fuel E) r)
            (\<lambda>(_, input, r).
          bindFR (apply_hooks (E\<lparr>ge_state := state\<rparr>) (in_sequence input) r) (\<lambda>(decorated, r).
          let input = input\<lparr>in_sequence := decorated, in_outcome := None\<rparr>;
              self = (if res = Mutated then self\<lparr>sm_stage := record_success decorated (sm_stage self)\<rparr> else self);
              state = (if res = Mutated then state\<lparr>current_mutator := Some KindSequence\<rparr> else state) in
          Some (Inr (res, self, state, input, r))))))"

section \<open>Weights\<close>

lemma sum_u64_from: "unat c + sum_list (map unat ws) < 2 ^ 64 \<Longrightarrow>
   \<exists>t. foldR add_u64 c ws = Inr t \<and> unat t = unat c + sum_list (map unat ws)"
proof (induction ws arbitrary: c)
  case (Cons w ws)
  then have "unat c + unat w < 2 ^ 64" by simp
  then have a: "add_u64 c w = Inr (c + w)" "unat (c + w) = unat c + unat w"
    by (simp_all add: add_u64_def unat_word_ariths)
  with Cons.IH [of "c + w"] Cons.prems show ?case by (simp add: add.assoc)
qed simp

lemma pick_weighted_at:
  assumes "unat c + sum_list (map unat ws) < 2 ^ 64" "unat c + sum_list (map unat (take j ws)) < n"
    "n \<le> unat c + sum_list (map unat (take (Suc j) ws))" "j < length ws"
  shows "pick_weighted items n c i ws = indexR items (i + j)"
  using assms
proof (induction ws arbitrary: c i j)
  case (Cons w ws)
  then have "unat c + unat w < 2 ^ 64" by simp
  then have a: "add_u64 c w = Inr (c + w)" "unat (c + w) = unat c + unat w"
    by (simp_all add: add_u64_def unat_word_ariths)
  show ?case
  proof (cases j)
    case 0
    with Cons.prems a show ?thesis by simp
  next
    case (Suc k)
    with Cons.prems(2) have "\<not> n \<le> unat c + unat w" by simp
    moreover have "pick_weighted items n (c + w) (Suc i) ws = indexR items (Suc i + k)"
      by (rule Cons.IH) (use Cons.prems a(2) Suc in \<open>simp_all add: ac_simps\<close>)
    ultimately show ?thesis using a Suc by simp
  qed
qed simp

text \<open>
  When the weights have a positive sum of 64 bits, the choice never panics, and the numbers that lead to
  an item are as many as its weight: the item at position \<open>i\<close> is chosen exactly for the numbers from
  the sum of the weights before it up to that sum and its own weight.
\<close>

theorem weighted_sample_exact:
  assumes "length items = length weights" "sum_list (map unat weights) < 2 ^ 64"
    "below_or_zero R (sum_list (map unat weights)) r = (k, r')" "i < length weights"
    "sum_list (map unat (take i weights)) \<le> k" "k < sum_list (map unat (take i weights)) + unat (weights ! i)"
  shows "weighted_sample R items weights r = Inr (items ! i, r')"
proof -
  obtain t where t: "sum_u64 weights = Inr t" "unat t = sum_list (map unat weights)"
    using sum_u64_from [of 0 weights] assms(2) by (auto simp: sum_u64_def)
  have next_sum: "sum_list (map unat (take (Suc i) weights)) = sum_list (map unat (take i weights)) + unat (weights ! i)"
    using assms(4) by (simp add: take_Suc_conv_app_nth)
  have "weights ! i \<in> set weights" using assms(4) by simp
  then have "unat (weights ! i) \<le> sum_list (map unat weights)" by (simp add: member_le_sum_list)
  moreover have "0 < unat (weights ! i)" using assms(5,6) by simp
  ultimately have "t \<noteq> 0" using t(2) by (metis not_less unat_0)
  moreover have "pick_weighted items (k + 1) 0 0 weights = Inr (items ! i)"
    using pick_weighted_at [of 0 weights i "k + 1" items 0] assms next_sum by simp
  moreover have "weights \<noteq> []" using assms(4) by auto
  ultimately show ?thesis using assms(1,3) t by (simp add: weighted_sample_def)
qed

theorem weighted_sample_exact_witness: "weighted_sample scripted [''a'', ''b'', ''c''] [2, 0, 5] [3] = Inr (''c'', [])"
  by (rule weighted_sample_exact [of "[''a'', ''b'', ''c'']" "[2, 0, 5]" scripted "[3]" 3 "[]" 2, simplified])
    (simp_all add: scripted_def)

section \<open>Sequences only grow\<close>

definition grows :: "MoveSequence \<Rightarrow> MoveSequence \<Rightarrow> bool" where
  "grows ptb ptb' \<longleftrightarrow> (\<exists>cs. commands ptb' = commands ptb @ cs) \<and> (\<exists>ins. inputs ptb' = inputs ptb @ ins)"

lemma grows_refl [simp, intro]: "grows ptb ptb"
  by (simp add: grows_def)

lemma grows_trans [trans]: "grows a b \<Longrightarrow> grows b c \<Longrightarrow> grows a c"
  by (auto simp: grows_def)

lemma grows_push [simp, intro]: "grows ptb (ptb\<lparr>commands := commands ptb @ cs\<rparr>)"
  by (simp add: grows_def)

definition appender_grows :: "'r appender \<Rightarrow> bool" where
  "appender_grows rec \<longleftrightarrow> (\<forall>ptb f tas used r res ptb' r'. rec ptb f tas used r = Some (Inr (res, ptb', r')) \<longrightarrow> grows ptb ptb')"

lemma foldFX_invariant:
  assumes "\<And>s x e. P s \<Longrightarrow> f s x = Some (Inr e) \<Longrightarrow> (case e of Inl y \<Rightarrow> Q y | Inr s' \<Rightarrow> P s')"
  shows "P s \<Longrightarrow> foldFX f s xs = Some (Inr e) \<Longrightarrow> (case e of Inl y \<Rightarrow> Q y | Inr s' \<Rightarrow> P s')"
proof (induction xs arbitrary: s)
  case (Cons x xs)
  from Cons.prems(2) obtain d where d: "f s x = Some (Inr d)"
    and rest: "(case d of Inl y \<Rightarrow> Some (Inr (Inl y)) | Inr s' \<Rightarrow> foldFX f s' xs) = Some (Inr e)"
    by (auto simp: bindFR_eq_Inr)
  from assms [OF Cons.prems(1) d] have "case d of Inl y \<Rightarrow> Q y | Inr s' \<Rightarrow> P s'" .
  with rest Cons.IH show ?case by (cases d) auto
qed auto

lemma take_result_ptb: "take_result tas st param a m i rets ptb r = Inr st' \<Longrightarrow> pa_ptb st' = ptb"
  by (auto simp: take_result_def bindR_eq_Inr)

lemma produce_missing_grows:
  assumes "appender_grows rec" "produce_missing rec E target tas st param wanted = Some (Inr e)"
  shows "case e of Inl (ptb, _) \<Rightarrow> grows (pa_ptb st) ptb | Inr st' \<Rightarrow> grows (pa_ptb st) (pa_ptb st')"
proof -
  have rec: "rec ptb f tas used r = Some (Inr (res, ptb', r')) \<Longrightarrow> grows ptb ptb'" for ptb f tas used r res ptb' r'
    using assms(1) unfolding appender_grows_def by blast
  let ?t = "partial_subst wanted (bt_get tas)"
  let ?funcs = "find_producers (md_type_graph (fm_base (ge_state E))) ?t True
            (Some (module_address (ident_module target), mod_name (ident_module target), ident_function target))"
  obtain k r1 where k: "below_or_zero (ge_rand E) (length ?funcs) (pa_rand st) = (k, r1)" by fastforce
  show ?thesis
  proof (cases "?funcs = []")
    case False
    with assms(2) k obtain m f where f: "indexR ?funcs k = Inr (m, f)" by (auto simp: produce_missing_def bindFR_eq_Inr Let_def)
    show ?thesis
    proof (cases "matching_return ?t f")
      case (Some x)
      obtain a pr mp ri where x: "x = ((a, pr, mp), ri)" by (metis prod.exhaust)
      show ?thesis
      proof (cases "foldO (carry_ty_arg (pa_types st)) pr mp")
        case (Some pr')
        with assms(2) False k f \<open>matching_return ?t f = Some x\<close> x show ?thesis
          by (auto simp: produce_missing_def bindFR_eq_Inr Let_def take_result_ptb dest!: rec split: option.splits)
      qed (use assms(2) False k f Some x in \<open>auto simp: produce_missing_def Let_def\<close>)
    qed (use assms(2) False k f in \<open>auto simp: produce_missing_def Let_def\<close>)
  qed (use assms(2) in \<open>auto simp: produce_missing_def Let_def\<close>)
qed

lemma partial_param_grows:
  assumes "appender_grows rec" "partial_param rec E target fixed tas len st p = Some (Inr e)"
  shows "case e of Inl (ptb, _) \<Rightarrow> grows (pa_ptb st) ptb | Inr st' \<Rightarrow> grows (pa_ptb st) (pa_ptb st')"
proof -
  obtain i param where p: "p = (i, param)" by (cases p)
  have missing: "produce_missing rec E target tas (st\<lparr>pa_args := a, pa_params := b\<rparr>) param w = Some (Inr e) \<Longrightarrow> ?thesis" for a b w
    using produce_missing_grows [OF assms(1), of E target tas "st\<lparr>pa_args := a, pa_params := b\<rparr>" param w e]
    by (cases e) auto
  from assms(2) show ?thesis unfolding partial_param_def p
    by (auto simp: bindFR_eq_Inr Let_def intro: missing split: if_splits option.splits list.splits)
qed

lemma build_args_grows:
  assumes "appender_grows rec" "build_args rec E target f fixed used ptb found r = Some (Inr e)"
  shows "case e of Inl (ptb', _) \<Rightarrow> grows ptb ptb' | Inr (_, _, _, ptb', _) \<Rightarrow> grows ptb ptb'"
proof (cases found)
  case (ConstructOk args tas ins)
  with assms(2) have "bindFR (foldFX (found_param E fixed (length (inputs ptb))) ([], args, ins, r) (enumerate 0 (parameters f)))
      (\<lambda>d. case d of Inl x \<Rightarrow> Some (Inr (Inl x)) | Inr (arguments, _, ins, r) \<Rightarrow> Some (Inr (Inr (arguments, tas, ins, ptb, r)))) = Some (Inr e)"
    by (simp add: build_args_def Let_def)
  then obtain d where d: "foldFX (found_param E fixed (length (inputs ptb))) ([], args, ins, r) (enumerate 0 (parameters f)) = Some (Inr d)"
    "(case d of Inl x \<Rightarrow> Some (Inr (Inl x)) | Inr (arguments, _, ins, r) \<Rightarrow> Some (Inr (Inr (arguments, tas, ins, ptb, r)))) = (Some (Inr e) :: _ fuelled)"
    by (rule bindFR_E) (rule that)
  have "case d of Inl y \<Rightarrow> False | Inr _ \<Rightarrow> True"
    by (rule foldFX_invariant [OF _ _ d(1), where P = "\<lambda>_. True" and Q = "\<lambda>_. False"])
      (auto simp: found_param_def bindFR_eq_Inr Let_def split: option.splits if_splits list.splits prod.splits)
  with d(2) show ?thesis by (auto split: sum.splits prod.splits)
next
  case (PartialFound pargs tas ins)
  let ?st = "\<lparr>pa_args = pargs, pa_params = struct_params fixed f, pa_arguments = [], pa_types = [],
    pa_used = new_used pargs (struct_params fixed f) @ used, pa_inputs = ins, pa_ptb = ptb, pa_rand = r\<rparr>"
  from assms(2) PartialFound obtain d where
    d: "foldFX (partial_param rec E target fixed tas (length (inputs ptb))) ?st (enumerate 0 (parameters f)) = Some (Inr d)"
    and fin: "(case d of Inl x \<Rightarrow> Some (Inr (Inl x)) | Inr st \<Rightarrow>
       bindFR (Some (mapAccumR (partial_ty_arg E (pa_types st)) (pa_rand st) (enumerate 0 (fn_type_parameters f))))
         (\<lambda>(r, tas). Some (Inr (Inr (pa_arguments st, tas, pa_inputs st, pa_ptb st, r))))) = Some (Inr e)"
    by (auto simp: build_args_def bindFR_eq_Inr Let_def split: if_splits)
  have "case d of Inl (ptb', _) \<Rightarrow> grows ptb ptb' | Inr st' \<Rightarrow> grows ptb (pa_ptb st')"
  proof -
    have "case d of Inl y \<Rightarrow> grows ptb (fst y) | Inr st' \<Rightarrow> grows ptb (pa_ptb st')"
    proof (rule foldFX_invariant [OF _ _ d, where P = "\<lambda>st. grows ptb (pa_ptb st)" and Q = "\<lambda>y. grows ptb (fst y)"])
      fix st p e assume g: "grows ptb (pa_ptb st)" and s: "partial_param rec E target fixed tas (length (inputs ptb)) st p = Some (Inr e)"
      from partial_param_grows [OF assms(1) s] grows_trans [OF g] show "case e of Inl y \<Rightarrow> grows ptb (fst y) | Inr st' \<Rightarrow> grows ptb (pa_ptb st')"
        by (cases e) auto
    qed simp
    then show ?thesis by (cases d) auto
  qed
  with fin show ?thesis by (cases d) (auto simp: bindFR_eq_Inr)
qed (use assms(2) in \<open>auto simp: build_args_def Let_def\<close>)

lemma split_param_step:
  assumes "split_param tas (args, ins, ptb) p = Inr (args', ins', ptb')"
  shows "inputs ptb' = inputs ptb \<and> grows ptb ptb' \<and> length args' = length args"
proof -
  obtain i arg param where p: "p = (i, arg, param)" by (cases p)
  show ?thesis
  proof (cases "is_balance param \<or> is_coin param")
    case True
    with assms p obtain ty where ty: "subst param (bt_get (numbered_ty_args tas)) = Some ty"
      by (auto simp: split_param_def bindR_eq_Inr Let_def unwrapR_eq_Inr)
    with True assms p show ?thesis by (cases ty) (auto simp: split_param_def bindR_eq_Inr Let_def)
  qed (use assms p in \<open>simp add: split_param_def\<close>)
qed

lemma push_call_grows:
  assumes "push_call target f ds args tas ins ptb = Inr (res, ptb')"
  shows "grows ptb ptb' \<and> (\<exists>args' mc. res = Some (args', call_returns f (length (commands ptb') - 1)) \<and> length tas = length (fn_type_parameters f)
    \<and> length (commands ptb) < length (commands ptb') \<and> last (commands ptb') = Call mc \<and> call_ident mc = target \<and> call_type_arguments mc = tas \<and> call_arguments mc = args')"
proof -
  from assms obtain args1 ins1 ptb1 where
    s: "(if ds then Inr (args, ins, ptb) else foldR (split_param tas) (args, ins, ptb) (enumerate 0 (zip args (parameters f)))) = Inr (args1, ins1, ptb1)"
    and r: "length tas = length (fn_type_parameters f)" "res = Some (args1, call_returns f (length (commands ptb1)))"
      "ptb' = \<lparr>inputs = inputs ptb1 @ ins1, commands = commands ptb1 @ [Call \<lparr>call_module_id = module_address (ident_module target),
               call_module_name = mod_name (ident_module target), call_function = ident_function target,
               call_type_arguments = tas, call_arguments = args1\<rparr>]\<rparr>"
    by (auto simp: push_call_def bindR_eq_Inr split: if_splits)
  have "inputs ptb1 = inputs ptb \<and> grows ptb ptb1"
  proof (cases ds)
    case False
    with s have f: "foldR (split_param tas) (args, ins, ptb) (enumerate 0 (zip args (parameters f))) = Inr (args1, ins1, ptb1)" by simp
    have "inputs (snd (snd (args1, ins1, ptb1))) = inputs ptb \<and> grows ptb (snd (snd (args1, ins1, ptb1)))"
    proof (rule foldR_invariant [OF _ _ f, where P = "\<lambda>s. inputs (snd (snd s)) = inputs ptb \<and> grows ptb (snd (snd s))"])
      fix s p s' assume g: "inputs (snd (snd s)) = inputs ptb \<and> grows ptb (snd (snd s))" "split_param tas s p = Inr s'"
      obtain a i pt a' i' pt' where "s = (a, i, pt)" "s' = (a', i', pt')" by (cases s; cases s')
      with g split_param_step [of tas a i pt p a' i' pt'] show "inputs (snd (snd s')) = inputs ptb \<and> grows ptb (snd (snd s'))"
        by (auto intro: grows_trans)
    qed simp
    then show ?thesis by simp
  qed (use s in simp)
  moreover have "FunctionIdent_new (module_address (ident_module target)) (mod_name (ident_module target)) (ident_function target) = target"
    by (cases target) (simp add: FunctionIdent_new_def)
  ultimately show ?thesis using r by (auto simp: grows_def call_ident_def)
qed

text \<open>What a call of \<open>append_function\<close> leaves, whether it succeeds or not.\<close>

definition appended ::
  "('r, 'm) GrowEnv \<Rightarrow> FunctionIdent \<Rightarrow> MoveSequence \<Rightarrow> append_result \<Rightarrow> MoveSequence \<Rightarrow> bool" where
  "appended E target ptb res ptb' \<longleftrightarrow> grows ptb ptb' \<and> (\<forall>args rets. res = Some (args, rets) \<longrightarrow>
     (\<exists>mc f. length (commands ptb) < length (commands ptb') \<and> last (commands ptb') = Call mc \<and> call_ident mc = target \<and> call_arguments mc = args
        \<and> get_function (fm_base (ge_state E)) (call_module_id mc) (call_module_name mc) (call_function mc) = Some f
        \<and> length (call_type_arguments mc) = length (fn_type_parameters f)
        \<and> rets = call_returns f (length (commands ptb') - 1)))"

lemma append_level_appended:
  assumes "appender_grows rec" "append_level rec E ptb target fixed tas used ds r = Some (Inr (res, ptb', r'))"
  shows "appended E target ptb res ptb'"
proof -
  from assms(2) obtain f found r1 e where f: "get_function (fm_base (ge_state E)) (module_address (ident_module target))
          (mod_name (ident_module target)) (ident_function target) = Some f"
    and e: "build_args rec E target f fixed used ptb found r1 = Some (Inr e)"
    and rest: "(case e of Inl (ptb, r) \<Rightarrow> Some (Inr (None, ptb, r))
     | Inr (arguments, tas, ins, ptb', r) \<Rightarrow>
         bindFR (Some (place_inputs ptb' (length (inputs ptb)) f arguments ins)) (\<lambda>placed.
         case placed of
           None \<Rightarrow> Some (Inr (None, ptb', r))
         | Some (arguments, ins) \<Rightarrow>
             bindFR (Some (push_call target f ds arguments tas ins ptb')) (\<lambda>(res, ptb).
             Some (Inr (res, ptb, r))))) = Some (Inr (res, ptb', r'))"
    by (auto simp: append_level_def bindFR_eq_Inr unwrapR_eq_Inr)
  note g = build_args_grows [OF assms(1) e]
  show ?thesis
  proof (cases e)
    case (Inl x)
    with rest g show ?thesis by (cases x) (auto simp: appended_def)
  next
    case (Inr x)
    obtain args tas1 ins ptb1 r2 where x: "x = (args, tas1, ins, ptb1, r2)" by (cases x) auto
    with rest Inr obtain placed where pl: "(case placed of
           None \<Rightarrow> Some (Inr (None, ptb1, r2))
         | Some (arguments, ins) \<Rightarrow>
             bindFR (Some (push_call target f ds arguments tas1 ins ptb1)) (\<lambda>(res, ptb).
             Some (Inr (res, ptb, r2)))) = Some (Inr (res, ptb', r'))"
      by (auto simp: bindFR_eq_Inr)
    have g1: "grows ptb ptb1" using g Inr x by simp
    show ?thesis
    proof (cases placed)
      case None
      with pl g1 show ?thesis by (auto simp: appended_def)
    next
      case (Some y)
      obtain args1 ins1 where "y = (args1, ins1)" by (cases y)
      with pl Some have p: "push_call target f ds args1 tas1 ins1 ptb1 = Inr (res, ptb')" by (auto simp: bindFR_eq_Inr)
      from g1 have "length (commands ptb) \<le> length (commands ptb1)" by (auto simp: grows_def)
      with push_call_grows [OF p] f grows_trans [OF g1] show ?thesis
        by (fastforce simp: appended_def call_ident_def FunctionIdent_new_def)
    qed
  qed
qed

lemma append_function_appended:
  "append_function n E ptb target fixed tas used ds r = Some (Inr (res, ptb', r')) \<Longrightarrow> appended E target ptb res ptb'"
proof (induction n arbitrary: ptb target fixed tas used ds r res ptb' r')
  case (Suc n)
  have "appender_grows (\<lambda>ptb ident tas used r. append_function n E ptb ident [] tas used False r)"
    using Suc.IH unfolding appender_grows_def appended_def by blast
  with Suc.prems append_level_appended show ?case by fastforce
qed (auto simp: appended_def)

lemma append_function_grows:
  "append_function n E ptb target fixed tas used ds r = Some (Inr (res, ptb', r')) \<Longrightarrow> grows ptb ptb'"
  using append_function_appended by (fastforce simp: appended_def)

text \<open>
  C27: \<open>append_function\<close> keeps the sequence it is given as a prefix of the one it leaves, commands and inputs
  alike, whether it finds arguments or not. When it reports success, the last command is a call of the
  wanted function with the reported arguments, with as many type arguments as the function has type
  parameters, and the reported results are the result arguments of that command, one for each value the
  function returns.
\<close>

theorem append_function_appends:
  assumes "append_function level E ptb target fixed tas used disable_split r = Some (Inr (res, ptb', r'))"
  shows "appended E target ptb res ptb'"
  using assms by (rule append_function_appended)

section \<open>Hooks keep the sequence\<close>

lemma append_hook_call_grows: "append_hook_call E ptb hook target ctx r = Some (Inr (ptb', r')) \<Longrightarrow> grows ptb ptb'"
  by (auto simp: append_hook_call_def bindFR_eq_Inr dest: append_function_grows split: option.splits)

lemma append_context_creation_grows:
  assumes "append_context_creation E ptb contexts r = Some (Inr (ctx, ptb', r'))"
  shows "grows ptb ptb'"
proof (cases contexts)
  case (Some c)
  with assms obtain res where "append_function TOP_LEVEL E ptb (fst c) [] [] [] True r = Some (Inr (res, ptb', r'))"
    unfolding append_context_creation_def by (auto simp: bindFR_eq_Inr simp del: split_paired_Ex split: prod.splits)
  then show ?thesis by (rule append_function_grows)
qed (use assms in \<open>simp add: append_context_creation_def\<close>)

lemma append_context_destruction_grows:
  assumes "append_context_destruction E ptb contexts ty ctx r = Some (Inr (ptb', r'))"
  shows "grows ptb ptb'"
proof (cases "ctx = None \<or> contexts = None \<or> ty = None")
  case False
  then obtain c d e t where "ctx = Some c" "contexts = Some (d, e)" "ty = Some t" by auto
  with assms obtain res where "append_function TOP_LEVEL E ptb e [(0, c, t)] [] [] True r = Some (Inr (res, ptb', r'))"
    by (auto simp: append_context_destruction_def bindFR_eq_Inr)
  then show ?thesis by (rule append_function_grows)
qed (use assms in \<open>auto simp: append_context_destruction_def split: option.splits\<close>)

lemma append_hooks_grows: "append_hooks E target ctx hooks ptb r = Some (Inr (ptb', r')) \<Longrightarrow> grows ptb ptb'"
proof (induction hooks arbitrary: ptb r)
  case (Cons h hooks)
  from Cons.prems obtain ptb1 r1 where s: "append_hook_call E ptb h target ctx r = Some (Inr (ptb1, r1))"
    "append_hooks E target ctx hooks ptb1 r1 = Some (Inr (ptb', r'))" by (auto simp: bindFR_eq_Inr)
  show ?case by (rule grows_trans [OF append_hook_call_grows [OF s(1)] Cons.IH [OF s(2)]])
qed simp

text \<open>The commands done so far stand, renumbered, at ascending positions of the new sequence.\<close>

definition embedded :: "MoveSequenceCall list \<Rightarrow> MoveSequence \<Rightarrow> nat list \<Rightarrow> bool" where
  "embedded cmds ptb pos \<longleftrightarrow> length pos = length cmds \<and> sorted_wrt (<) pos \<and> (\<forall>p \<in> set pos. p < length (commands ptb))
     \<and> (\<forall>j < length cmds. remap_command (map as_u16 (take j pos)) (cmds ! j) = Inr (commands ptb ! (pos ! j)))"

lemma embedded_grows:
  assumes "embedded cmds ptb pos" "grows ptb ptb'"
  shows "embedded cmds ptb' pos"
proof -
  from assms(2) obtain cs where "commands ptb' = commands ptb @ cs" by (auto simp: grows_def)
  with assms(1) show ?thesis unfolding embedded_def by (auto simp: nth_append)
qed

lemma embedded_push:
  assumes "embedded cmds ptb pos" "remap_command (map as_u16 pos) cmd = Inr cmd'"
  shows "embedded (cmds @ [cmd]) (ptb\<lparr>commands := commands ptb @ [cmd']\<rparr>) (pos @ [length (commands ptb)])"
  using assms unfolding embedded_def by (auto simp: nth_append sorted_wrt_append less_Suc_eq)

definition hook_state :: "MoveSequence \<Rightarrow> MoveSequenceCall list \<Rightarrow> MoveSequence \<times> u16 list \<times> 'r \<Rightarrow> bool" where
  "hook_state start cmds acc \<longleftrightarrow> (case acc of (ptb, index_map, _) \<Rightarrow>
     grows start ptb \<and> (\<exists>pos. index_map = map as_u16 pos \<and> embedded cmds ptb pos))"

lemma hook_state_grows: "hook_state start cmds (ptb, im, r) \<Longrightarrow> grows ptb ptb' \<Longrightarrow> hook_state start cmds (ptb', im, r')"
  unfolding hook_state_def using embedded_grows grows_trans by fastforce

lemma hook_state_push:
  assumes "hook_state start cmds (ptb, im, r)" "remap_command im cmd = Inr cmd'"
  shows "hook_state start (cmds @ [cmd]) (ptb\<lparr>commands := commands ptb @ [cmd']\<rparr>, im @ [as_u16 (length (commands ptb))], r')"
proof -
  from assms(1) obtain pos where p: "grows start ptb" "im = map as_u16 pos" "embedded cmds ptb pos"
    by (auto simp: hook_state_def)
  with embedded_push [OF p(3)] assms(2) have "embedded (cmds @ [cmd]) (ptb\<lparr>commands := commands ptb @ [cmd']\<rparr>) (pos @ [length (commands ptb)])"
    by simp
  moreover have "im @ [as_u16 (length (commands ptb))] = map as_u16 (pos @ [length (commands ptb)])" using p(2) by simp
  moreover have "grows start (ptb\<lparr>commands := commands ptb @ [cmd']\<rparr>)" using p(1) grows_trans grows_push by blast
  ultimately show ?thesis unfolding hook_state_def by blast
qed

lemma remap_call_is_call: "remap_command im (Call mc) = Inr c \<Longrightarrow> \<exists>mc'. c = Call mc'"
  by (auto simp: bindR_eq_Inr)

lemma handle_hooks_state:
  assumes "handle_function_call_hooks E mc mc' ptb im contexts ty r = Some (Inr (handled, ptb', im', r'))"
    "hook_state start cmds (ptb, im, r)" "remap_command im (Call mc) = Inr (Call mc')"
  shows "if handled then hook_state start (cmds @ [Call mc]) (ptb', im', r') else ptb' = ptb \<and> im' = im \<and> r' = r"
proof (cases handled)
  case True
  with assms(1) obtain abi and hooks :: FunctionHook where
    "bindFR (append_context_creation E ptb contexts r) (\<lambda>(ctx, ptb, r).
     bindFR (append_hooks E (Some (mc', abi)) ctx (pre_hooks hooks) ptb r) (\<lambda>(ptb, r).
     case push_command ptb im (Call mc') of (ptb, index_map) \<Rightarrow>
     bindFR (append_hooks E (Some (mc', abi)) ctx (post_hooks hooks) ptb r) (\<lambda>(ptb, r).
     bindFR (append_context_destruction E ptb contexts ty ctx r) (\<lambda>(ptb, r).
     Some (Inr (True, ptb, index_map, r)))))) = Some (Inr (handled, ptb', im', r'))"
    by (auto simp: handle_function_call_hooks_def split: option.splits)
  then obtain ctx ptb1 r1 ptb2 r2 ptb3 r3 where
    s: "append_context_creation E ptb contexts r = Some (Inr (ctx, ptb1, r1))"
      "append_hooks E (Some (mc', abi)) ctx (pre_hooks hooks) ptb1 r1 = Some (Inr (ptb2, r2))"
      "append_hooks E (Some (mc', abi)) ctx (post_hooks hooks) (ptb2\<lparr>commands := commands ptb2 @ [Call mc']\<rparr>) r2 = Some (Inr (ptb3, r3))"
      "append_context_destruction E ptb3 contexts ty ctx r3 = Some (Inr (ptb', r'))"
      "im' = im @ [as_u16 (length (commands ptb2))]"
    by (fastforce simp: push_command_def elim!: bindFR_E)
  have "grows ptb ptb2" by (rule grows_trans [OF append_context_creation_grows [OF s(1)] append_hooks_grows [OF s(2)]])
  with assms(2) have "hook_state start cmds (ptb2, im, r2)" by (rule hook_state_grows)
  from hook_state_push [OF this assms(3)] have "hook_state start (cmds @ [Call mc]) (ptb2\<lparr>commands := commands ptb2 @ [Call mc']\<rparr>, im', r2)"
    by (simp add: s(5))
  moreover have "grows (ptb2\<lparr>commands := commands ptb2 @ [Call mc']\<rparr>) ptb'"
    by (rule grows_trans [OF append_hooks_grows [OF s(3)] append_context_destruction_grows [OF s(4)]])
  ultimately show ?thesis using True by (simp add: hook_state_grows)
next
  case False
  with assms(1) show ?thesis
    by (auto simp: handle_function_call_hooks_def bindFR_eq_Inr split: option.splits prod.splits)
qed

lemma hook_command_state:
  assumes "hook_command E contexts ty (ptb, im, r) cmd = Some (Inr acc')" "hook_state start cmds (ptb, im, r)"
  shows "hook_state start (cmds @ [cmd]) acc'"
proof (cases "\<exists>mc. cmd = Call mc")
  case True
  then obtain mc where mc: "cmd = Call mc" ..
  with assms(1) obtain rc where rc: "remap_command im (Call mc) = Inr rc"
    by (auto simp: hook_command_def simp del: remap_command.simps elim!: bindFR_E)
  then obtain mc' where mc': "rc = Call mc'" using remap_call_is_call by blast
  with assms(1) mc rc obtain handled ptb1 im1 r1 where
    h: "handle_function_call_hooks E mc mc' ptb im contexts ty r = Some (Inr (handled, ptb1, im1, r1))"
    and a: "acc' = (if handled then (ptb1, im1, r1) else (fst (append_call_without_hooks ptb1 im1 mc'), snd (append_call_without_hooks ptb1 im1 mc'), r1))"
    by (auto simp: hook_command_def simp del: remap_command.simps elim!: bindFR_E split: if_splits prod.splits)
  from handle_hooks_state [OF h assms(2)] rc mc' a mc hook_state_push [OF assms(2), of cmd rc r1] show ?thesis
    by (auto simp: append_call_without_hooks_def push_command_def simp del: remap_command.simps split: if_splits)
next
  case False
  with assms(1) obtain p where p: "append_non_call_command ptb im cmd = Inr p" "acc' = (fst p, snd p, r)"
    by (cases cmd) (auto simp: hook_command_def simp del: remap_command.simps elim!: bindFR_E)
  then obtain cmd' where "remap_command im cmd = Inr cmd'" "p = push_command ptb im cmd'"
    by (auto simp: append_non_call_command_def bindR_eq_Inr simp del: remap_command.simps)
  with p(2) hook_state_push [OF assms(2), of cmd cmd' r] show ?thesis by (simp add: push_command_def)
qed

lemma hook_commands_state:
  "hook_commands E contexts ty acc cmds = Some (Inr acc') \<Longrightarrow> hook_state start before acc \<Longrightarrow> hook_state start (before @ cmds) acc'"
proof (induction cmds arbitrary: acc before)
  case (Cons cmd cmds)
  from Cons.prems(1) obtain acc1 where s: "hook_command E contexts ty acc cmd = Some (Inr acc1)"
    "hook_commands E contexts ty acc1 cmds = Some (Inr acc')" by (auto elim!: bindFR_E)
  obtain ptb im r where "acc = (ptb, im, r)" by (cases acc)
  with s(1) Cons.prems(2) have "hook_state start (before @ [cmd]) acc1" using hook_command_state by metis
  from Cons.IH [OF s(2) this] show ?case by simp
qed simp

lemma process_balance_grows: "process_balance env state ptb = Inr ptb' \<Longrightarrow> grows ptb ptb'"
proof -
  assume "process_balance env state ptb = Inr ptb'"
  then obtain od :: ObjectData where f: "foldR (\<lambda>ptb balance. bindR (balance_ty_arg state ptb balance) (\<lambda>ty.
         Inr (ptb\<lparr>commands := commands ptb @ [from_balance_command ty balance]\<rparr>))) ptb (balances od) = Inr ptb'"
    by (auto simp: process_balance_def bindR_eq_Inr)
  show ?thesis
    by (rule foldR_invariant [OF _ _ f, where P = "grows ptb"]) (auto simp: bindR_eq_Inr intro: grows_trans [OF _ grows_push])
qed

lemma process_key_store_grows: "process_key_store env state ptb = Inr ptb' \<Longrightarrow> grows ptb ptb'"
  by (auto simp: process_key_store_def bindR_eq_Inr Let_def grows_def split: if_splits)

text \<open>
  C11: \<open>apply_hooks\<close> only adds: whenever it returns a sequence, the inputs of the given sequence are a prefix of
  the new ones, and its commands stand in the new sequence in their order, at ascending positions, with
  every reference to an earlier result redirected to the position where that command now stands.
\<close>

theorem apply_hooks_embeds:
  assumes "apply_hooks E base r = Some (Inr (ptb', r'))"
  shows "(\<exists>ins. inputs ptb' = inputs base @ ins) \<and> (\<exists>pos. embedded (commands base) ptb' pos)"
proof -
  let ?start = "\<lparr>inputs = inputs base, commands = []\<rparr>"
  from assms obtain ctx ptb1 r1 ptb2 r2 ptb3 im3 r3 ptb4 r4 ptb5 r5 ptb6 contexts ty where
    s: "append_context_creation E ?start contexts r = Some (Inr (ctx, ptb1, r1))"
      "append_hooks E None ctx (pre_hooks (sequence_hooks (ge_state E))) ptb1 r1 = Some (Inr (ptb2, r2))"
      "hook_commands E contexts ty (ptb2, [], r2) (commands base) = Some (Inr (ptb3, im3, r3))"
      "append_hooks E None ctx (post_hooks (sequence_hooks (ge_state E))) ptb3 r3 = Some (Inr (ptb4, r4))"
      "append_context_destruction E ptb4 contexts ty ctx r4 = Some (Inr (ptb5, r5))"
      "process_balance (ge_store E) (ge_state E) ptb5 = Inr ptb6"
      "process_key_store (ge_store E) (ge_state E) ptb6 = Inr ptb'"
    by (fastforce simp: apply_hooks_def Let_def append_sequence_hooks_with_ctx_def elim!: bindFR_E)
  have "grows ?start ptb2" using append_context_creation_grows [OF s(1)] append_hooks_grows [OF s(2)] by (rule grows_trans)
  then have "hook_state ?start [] (ptb2, [], r2)" by (simp add: hook_state_def embedded_def)
  from hook_commands_state [OF s(3) this] obtain pos where p: "grows ?start ptb3" "embedded (commands base) ptb3 pos"
    by (auto simp: hook_state_def)
  have "grows ptb3 ptb'"
    using append_hooks_grows [OF s(4)] append_context_destruction_grows [OF s(5)] process_balance_grows [OF s(6)]
      process_key_store_grows [OF s(7)] grows_trans by blast
  with p have "grows ?start ptb'" "embedded (commands base) ptb' pos" using grows_trans embedded_grows by blast+
  then show ?thesis by (auto simp: grows_def)
qed

section \<open>A growing step\<close>

text \<open>The new commands stand together before the last \<open>k\<close> ones, and end with a call of a target function.\<close>

definition kept_tail :: "FlashProvider option \<Rightarrow> nat" where
  "kept_tail flash = (case flash of Some (Cetus _ _ _ _ _ _) \<Rightarrow> 3 | Some (Nemo _ _ _ _ _) \<Rightarrow> 1 | None \<Rightarrow> 0)"

definition inserted :: "nat \<Rightarrow> MoveSequence \<Rightarrow> MoveSequence \<Rightarrow> MoveSequenceCall list \<Rightarrow> bool" where
  "inserted k ptb ptb' new \<longleftrightarrow> (let n = length (commands ptb) - k in
     commands ptb' = take n (commands ptb) @ new @ drop n (commands ptb) \<and> (\<exists>ins. inputs ptb' = inputs ptb @ ins))"

definition settled :: "('r, 'm) GrowEnv \<Rightarrow> FlashProvider option \<Rightarrow> MoveSequence \<Rightarrow> MoveSequence \<Rightarrow> bool" where
  "settled E flash ptb ptb' \<longleftrightarrow>
     (\<exists>new mc. inserted (kept_tail flash) ptb ptb' (new @ [Call mc]) \<and> call_ident mc \<in> set (target_functions (ge_state E)))
     \<and> count_splits ptb' \<le> 10
     \<and> (\<exists>d. from_ptb (ge_store E) (ge_state E) ptb' = Inr d \<and> hot_potatoes d = [])"

definition only_scores :: "'m FuzzMetadata \<Rightarrow> 'm FuzzMetadata \<Rightarrow> bool" where
  "only_scores state state' \<longleftrightarrow> (\<exists>s. state' = state\<lparr>function_scores := s\<rparr>)"

lemma only_scores_refl [simp]: "only_scores state state"
  unfolding only_scores_def by (rule exI [of _ "function_scores state"]) simp

lemma only_scores_update: "only_scores state s \<Longrightarrow> update_score ps s = Inr s' \<Longrightarrow> only_scores state s'"
  by (auto simp: only_scores_def update_score_def bindR_eq_Inr Let_def)

lemma from_ptb_scores: "only_scores state s \<Longrightarrow> from_ptb env s = from_ptb env state"
  by (auto simp: only_scores_def from_ptb_def fun_eq_iff Let_def)

lemma pick_weighted_mem: "pick_weighted items n c i ws = Inr x \<Longrightarrow> x \<in> set items"
  by (induction items n c i ws rule: pick_weighted.induct) (auto simp: bindR_eq_Inr indexR_def split: if_splits)

lemma weighted_sample_mem: "weighted_sample R items ws r = Inr (x, r') \<Longrightarrow> x \<in> set items"
  by (auto simp: weighted_sample_def bindR_eq_Inr intro: pick_weighted_mem split: if_splits prod.splits)

lemma insertion_point_kept:
  assumes "insertion_point flash n = Inr (i, used)"
  shows "i = n - kept_tail flash \<and> kept_tail flash \<le> n"
  using assms by (auto simp: insertion_point_def kept_tail_def bindR_eq_Inr sub_usize_def split: option.splits FlashProvider.splits if_splits)

lemma inserted_twice:
  assumes "inserted k ptb p old" "k \<le> length (commands ptb)"
    "commands q = take (length (commands p) - k) (commands p) @ new" "\<exists>ins. inputs q = inputs p @ ins"
  shows "inserted k ptb (q\<lparr>commands := commands q @ drop (length (commands p) - k) (commands p)\<rparr>) (old @ new)"
proof -
  let ?n = "length (commands ptb) - k"
  have c: "commands p = take ?n (commands ptb) @ old @ drop ?n (commands ptb)" using assms(1) by (simp add: inserted_def Let_def)
  with assms(2) have "length (commands p) - k = ?n + length old" by simp
  then have "take (length (commands p) - k) (commands p) = take ?n (commands ptb) @ old"
    "drop (length (commands p) - k) (commands p) = drop ?n (commands ptb)" using c assms(2) by simp_all
  with assms show ?thesis by (auto simp: inserted_def Let_def)
qed

definition growing :: "('r, 'm) GrowEnv \<Rightarrow> FlashProvider option \<Rightarrow> MoveSequence \<Rightarrow> MoveSequence \<Rightarrow> 'm FuzzMetadata \<Rightarrow> bool" where
  "growing E flash ptb p state \<longleftrightarrow> only_scores (ge_state E) state
     \<and> (p = ptb \<or> kept_tail flash \<le> length (commands ptb) \<and> (\<exists>old. inserted (kept_tail flash) ptb p old))"

definition loop_ends :: "('r, 'm) GrowEnv \<Rightarrow> FlashProvider option \<Rightarrow> MoveSequence \<Rightarrow> ('r, 'm) loop_end \<Rightarrow> bool" where
  "loop_ends E flash ptb e \<longleftrightarrow> (case e of
     LoopReturn res p state _ \<Rightarrow> res = Skipped \<and> only_scores (ge_state E) state
       \<and> list_all (\<lambda>w. w = 0) (function_weights state (target_functions (ge_state E)))
   | LoopBreak res p state _ \<Rightarrow> only_scores (ge_state E) state \<and> (res = Mutated \<longrightarrow> settled E flash ptb p))"

lemma inserted_nothing [simp]: "inserted k ptb ptb []"
  by (simp add: inserted_def)

lemma append_inserts:
  assumes "growing E flash ptb p state" "insertion_point flash (length (commands p)) = Inr (idx, used)"
    "append_function n E' (p\<lparr>commands := take idx (commands p)\<rparr>) f [] [] used ds r = Some (Inr (Some ar, q, r'))"
  obtains new mc where "inserted (kept_tail flash) ptb (q\<lparr>commands := commands q @ drop idx (commands p)\<rparr>) (new @ [Call mc])"
    "call_ident mc = f" "kept_tail flash \<le> length (commands ptb)"
proof -
  let ?k = "kept_tail flash"
  have idx: "idx = length (commands p) - ?k" "?k \<le> length (commands p)" using insertion_point_kept [OF assms(2)] by simp_all
  have k: "?k \<le> length (commands ptb)" using assms(1) idx(2) by (auto simp: growing_def)
  obtain old where old: "inserted ?k ptb p old" using assms(1) inserted_nothing unfolding growing_def by blast
  obtain new mc where new: "commands q = take idx (commands p) @ new @ [Call mc]" "call_ident mc = f" "\<exists>ins. inputs q = inputs p @ ins"
  proof -
    obtain mc cs where m: "commands q = take idx (commands p) @ cs" "length (take idx (commands p)) < length (commands q)"
      "last (commands q) = Call mc" "call_ident mc = f" "\<exists>ins. inputs q = inputs p @ ins"
      using append_function_appended [OF assms(3)] by (cases ar) (auto simp: appended_def grows_def)
    then have "cs \<noteq> []" by auto
    with m have "cs = butlast cs @ [Call mc]" by (metis append_butlast_last_id last_appendR)
    with m that [of "butlast cs" mc] show ?thesis by simp
  qed
  have "inserted ?k ptb (q\<lparr>commands := commands q @ drop idx (commands p)\<rparr>) ((old @ new) @ [Call mc])"
    using inserted_twice [OF old k _ new(3)] new(1) idx(1) by simp
  from that [OF this new(2) k] show ?thesis .
qed

lemma grow_round_step:
  assumes "growing E flash ptb p state"
    "grow_round E flash (target_functions (ge_state E)) ptb (p, state, r) = Some (Inr e)"
  shows "case e of Inl fin \<Rightarrow> loop_ends E flash ptb fin | Inr (p', state', _) \<Rightarrow> growing E flash ptb p' state'"
proof (cases "list_all (\<lambda>w. w = 0) (function_weights state (target_functions (ge_state E)))")
  case True
  with assms show ?thesis by (auto simp: grow_round_def Let_def loop_ends_def growing_def)
next
  case False
  from False assms(2) obtain f r1 idx used res q r2 where
    s: "weighted_sample (ge_rand E) (target_functions (ge_state E)) (function_weights state (target_functions (ge_state E))) r = Inr (f, r1)"
      "insertion_point flash (length (commands p)) = Inr (idx, used)"
      "append_function TOP_LEVEL (E\<lparr>ge_state := state\<rparr>) (p\<lparr>commands := take idx (commands p)\<rparr>) f [] [] used False r1 = Some (Inr (res, q, r2))"
    and rest: "(if res = None then Some (Inr (Inr (ptb, state, r2)))
       else
         let ptb = q\<lparr>commands := commands q @ drop idx (commands p)\<rparr> in
         if count_splits ptb > 10 then Some (Inr (Inl (LoopBreak Skipped ptb state r2)))
         else
           bindFR (Some (from_ptb (ge_store E) state ptb)) (\<lambda>object_data.
           bindFR (Some (update_score (hot_potatoes object_data) state)) (\<lambda>state.
           if hot_potatoes object_data = [] then Some (Inr (Inl (LoopBreak Mutated ptb state r2)))
           else Some (Inr (Inr (ptb, state, r2)))))) = Some (Inr e)"
    by (fastforce simp: grow_round_def Let_def elim!: bindFR_E)
  let ?new = "q\<lparr>commands := commands q @ drop idx (commands p)\<rparr>"
  have sc: "only_scores (ge_state E) state" using assms(1) by (simp add: growing_def)
  show ?thesis
  proof (cases "res = None \<or> count_splits ?new > 10")
    case True
    with rest sc assms(1) show ?thesis by (auto simp: growing_def loop_ends_def Let_def split: if_splits)
  next
    case False
    then obtain ar where ar: "res = Some ar" by auto
    obtain new mc where ins: "inserted (kept_tail flash) ptb ?new (new @ [Call mc])"
      "call_ident mc = f" "kept_tail flash \<le> length (commands ptb)"
      by (rule append_inserts [OF assms(1) s(2) s(3) [unfolded ar]])
    from False rest have
      "bindFR (Some (from_ptb (ge_store E) state ?new)) (\<lambda>object_data.
       bindFR (Some (update_score (hot_potatoes object_data) state)) (\<lambda>state.
       if hot_potatoes object_data = [] then Some (Inr (Inl (LoopBreak Mutated ?new state r2)))
       else Some (Inr (Inr (?new, state, r2))))) = Some (Inr e)" unfolding ar Let_def by auto
    then obtain d state' where d: "from_ptb (ge_store E) state ?new = Inr d" "update_score (hot_potatoes d) state = Inr state'"
      and e: "e = (if hot_potatoes d = [] then Inl (LoopBreak Mutated ?new state' r2) else Inr (?new, state', r2))"
      by (auto elim!: bindFR_E split: if_splits)
    have "hot_potatoes d = [] \<Longrightarrow> settled E flash ptb ?new"
      using ins(1,2) weighted_sample_mem [OF s(1)] False d(1) from_ptb_scores [OF sc] unfolding settled_def by (auto simp: not_less)
    with e ins only_scores_update [OF sc d(2)] show ?thesis by (auto simp: loop_ends_def growing_def)
  qed
qed

lemma grow_loop_ends:
  "growing E flash ptb p state \<Longrightarrow> grow_loop n E flash (target_functions (ge_state E)) ptb (p, state, r) = Some (Inr e) \<Longrightarrow> loop_ends E flash ptb e"
proof (induction n arbitrary: p state r)
  case 0
  then show ?case by (auto simp: loop_ends_def growing_def)
next
  case (Suc n)
  from Suc.prems(2) obtain x where x: "grow_round E flash (target_functions (ge_state E)) ptb (p, state, r) = Some (Inr x)"
    "(case x of Inl fin \<Rightarrow> Some (Inr fin) | Inr acc \<Rightarrow> grow_loop n E flash (target_functions (ge_state E)) ptb acc) = Some (Inr e)"
    by (auto elim!: bindFR_E)
  from grow_round_step [OF Suc.prems(1) x(1)] x(2) Suc.IH show ?case by (cases x) auto
qed

text \<open>
  C1: a step of \<open>mutate_sequence\<close> that returns either removes a command of a sequence of more than three, or
  grows it. Growing reports \<open>Mutated\<close> only for a sequence in which every hot potato is consumed and at
  most ten splits stand: the commands of the given sequence are all kept, the new ones stand together at
  its end (or before the repayment of a flash loan) and end with a call of a target function. When it
  reports \<open>Skipped\<close>, the sequence is as it was, or the weights of all target functions had become zero.
  Of the state, only the scores change.
\<close>

theorem mutate_sequence_settled:
  assumes "mutate_sequence E flash ptb r = Some (Inr (res, ptb', state', r'))"
  shows "(\<exists>idx. 3 < length (commands ptb) \<and> state' = ge_state E
            \<and> remove_command (fm_base (ge_state E)) flash (length (commands ptb)) ptb idx = Some (Inr (res, ptb')))
    \<or> (\<exists>scores. state' = (ge_state E)\<lparr>function_scores := scores\<rparr>)
      \<and> (if res = Mutated then settled E flash ptb ptb'
         else ptb' = ptb \<or> list_all (\<lambda>w. w = 0) (function_weights state' (target_functions (ge_state E))))"
proof -
  let ?len = "length (commands ptb)"
  obtain inc r1 where inc: "(if ?len \<le> 3 then (True, r) else float_below_growth (ge_rand E) ?len r) = (inc, r1)" by fastforce
  have ne: "target_functions (ge_state E) \<noteq> []" using assms by (auto simp: mutate_sequence_def Let_def)
  show ?thesis
  proof (cases inc)
    case False
    obtain idx r2 where b: "below_or_zero (ge_rand E) ?len r1 = (idx, r2)" by fastforce
    with False inc ne assms have "remove_command (fm_base (ge_state E)) flash ?len ptb (idx mod 65536) = Some (Inr (res, ptb'))" "state' = ge_state E"
      by (auto simp: mutate_sequence_def Let_def elim!: bindFR_E)
    moreover have "3 < ?len" using False inc by (auto split: if_splits)
    ultimately show ?thesis by blast
  next
    case True
    with inc ne assms obtain e where e: "grow_loop 10 E flash (target_functions (ge_state E)) ptb (ptb, ge_state E, r1) = Some (Inr e)"
      and rest: "(case e of
            LoopReturn res ptb state r \<Rightarrow> Some (Inr (res, ptb, state, r))
          | LoopBreak res ptb'' state r \<Rightarrow>
              bindFR (Some (from_ptb (ge_store E) state (if res = Skipped then ptb else ptb''))) (\<lambda>object_data.
              bindFR (Some (update_score (hot_potatoes object_data) state)) (\<lambda>state.
              Some (Inr (res, if res = Skipped then ptb else ptb'', state, r))))) = Some (Inr (res, ptb', state', r'))"
      by (auto simp: mutate_sequence_def Let_def elim!: bindFR_E)
    have "loop_ends E flash ptb e" by (rule grow_loop_ends [OF _ e]) (simp add: growing_def)
    with rest have "only_scores (ge_state E) state' \<and> (if res = Mutated then settled E flash ptb ptb'
         else ptb' = ptb \<or> list_all (\<lambda>w. w = 0) (function_weights state' (target_functions (ge_state E))))"
      by (cases e; cases res) (auto simp: loop_ends_def elim!: bindFR_E intro: only_scores_update)
    then show ?thesis by (simp add: only_scores_def)
  qed
qed

section \<open>A call with its hook\<close>

definition vote_state :: "unit FuzzMetadata" where
  "vote_state = vote_meta\<lparr>target_functions := [FunctionIdent_new 7 ''m'' ''vote''],
       function_scores := [(FunctionIdent_new 7 ''m'' ''vote'', 100)],
       function_hooks := [(FunctionIdent_new 7 ''m'' ''vote'',
        \<lparr>pre_hooks = [], post_hooks = [FunctionIdent_new 7 ''m'' ''vote'']\<rparr>)]\<rparr>"
definition vote_env :: "(nat list, unit) GrowEnv" where
  "vote_env = \<lparr>ge_libafl = idle_libafl, ge_rand = scripted, ge_product = product_lists, ge_store = demo_env,
     ge_state = vote_state, ge_fuel = 1\<rparr>"

abbreviation vote_ident :: FunctionIdent where "vote_ident \<equiv> FunctionIdent_new 7 ''m'' ''vote''"
abbreviation empty_ptb :: MoveSequence where "empty_ptb \<equiv> \<lparr>inputs = [], commands = []\<rparr>"

lemma vote_env_simps [simp]:
  "ge_libafl vote_env = idle_libafl" "ge_rand vote_env = scripted" "ge_product vote_env = product_lists"
  "ge_store vote_env = demo_env" "ge_state vote_env = vote_state" "ge_fuel vote_env = 1"
  by (simp_all add: vote_env_def)

lemma vote_ident_parts:
  "module_address (ident_module vote_ident) = 7" "mod_name (ident_module vote_ident) = ''m''" "ident_function vote_ident = ''vote''"
  by (simp_all add: FunctionIdent_new_def)

lemma vote_found:
  "get_function (fm_base vote_state) 7 ''m'' ''vote'' = Some vote_function"
  "from_ptb_and_remove_used demo_env vote_state empty_ptb [] = Inr (ObjectData_new\<lparr>used_object_ids := [3]\<rparr>)"
  "struct_params [] vote_function = []"
  "hinted_ty_args [] [] = []"
  by code_simp+

lemma vote_construct:
  "try_construct_args scripted product_lists demo_env vote_state 0 [] [] [] (ObjectData_new\<lparr>used_object_ids := [3]\<rparr>) [0] =
     Inr (ConstructOk [] [] [], [])"
proof -
  have c: "get_ty_args_candidates product_lists [] = [[]]" by code_simp
  have b: "below_or_zero scripted 1 [0] = (0, [])" by code_simp
  have f: "finish_args scripted vote_state [] [] [] (start_sampling (ObjectData_new\<lparr>used_object_ids := [3]\<rparr>) [] []) = Inr (ConstructOk [] [] [], [])"
   by code_simp
  show ?thesis using b f by (simp add: try_construct_args_def c)
qed

lemma vote_zero: "initial_value vote_env TokU64 [] = Some (Inr (InU64 0, []))"
  by code_simp

lemma vote_place:
  "place_inputs empty_ptb 0 vote_function [Input 0] [InU64 0] = Inr (Some ([Input 0], [InU64 0]))"
  by (simp add: place_inputs_def vote_function_def redirect_input_def shift_input_def is_object_def sub_idx_def add_idx_def sort_dedup_def)

lemma vote_placed:
  "push_call vote_ident vote_function False [Input 0] [] [InU64 0] empty_ptb =
     Inr (Some ([Input 0], []), \<lparr>inputs = [InU64 0], commands = [demo_call ''vote'' [Input 0]]\<rparr>)"
  by code_simp+

lemma vote_build: "build_args rec vote_env vote_ident vote_function [] [] empty_ptb (ConstructOk [] [] []) [] =
  Some (Inr (Inr ([Input 0], [], [InU64 0], empty_ptb, [])))"
  using vote_zero by (simp add: build_args_def found_param_def vote_function_def sampled_leaf_def)

lemma vote_level: "append_level rec vote_env empty_ptb vote_ident [] [] [] False [0] =
  Some (Inr (Some ([Input 0], []), \<lparr>inputs = [InU64 0], commands = [demo_call ''vote'' [Input 0]]\<rparr>, []))"
proof -
  have "fn_type_parameters vote_function = []" by (simp add: vote_function_def sampled_leaf_def)
  then show ?thesis by (simp add: append_level_def vote_ident_parts vote_found vote_construct vote_build vote_place vote_placed)
qed


abbreviation voted_ptb :: "u64 \<Rightarrow> nat \<Rightarrow> MoveSequence" where
  "voted_ptb x n \<equiv> \<lparr>inputs = [InU64 x], commands = replicate n (demo_call ''vote'' [Input 0])\<rparr>"

lemma vote_appended: "append_function TOP_LEVEL vote_env empty_ptb vote_ident [] [] [] False [0] = Some (Inr (Some ([Input 0], []), voted_ptb 0 1, []))"
  by (simp add: TOP_LEVEL_def numeral_eq_Suc vote_level)

lemma vote_from_ptb: "from_ptb demo_env vote_state (voted_ptb 0 1) = Inr (ObjectData_new\<lparr>used_object_ids := [3]\<rparr>)"
  by code_simp

lemma vote_update: "update_score [] vote_state = Inr vote_state"
  by code_simp

lemma vote_grows: "mutate_sequence vote_env None empty_ptb [0, 0] = Some (Inr (Mutated, voted_ptb 0 1, vote_state, []))"
proof -
  have t: "target_functions vote_state = [vote_ident]" "function_weights vote_state [vote_ident] = [100]" by code_simp+
  have w: "weighted_sample scripted [vote_ident] [100] [0,0] = Inr (vote_ident, [0])"
    by (simp add: weighted_sample_def sum_u64_def add_u64_def scripted_def indexR_def)
  have e: "vote_env\<lparr>ge_state := vote_state\<rparr> = vote_env" by (simp add: vote_env_def)
  have s: "count_splits (voted_ptb 0 1) = 0" by code_simp
  have "grow_round vote_env None [vote_ident] empty_ptb (empty_ptb, vote_state, [0, 0]) = Some (Inr (Inl (LoopBreak Mutated (voted_ptb 0 1) vote_state [])))"
    using vote_appended s vote_from_ptb by (simp add: grow_round_def t w insertion_point_def e vote_update ObjectData_new_def)
  then have "grow_loop 10 vote_env None [vote_ident] empty_ptb (empty_ptb, vote_state, [0, 0]) = Some (Inr (LoopBreak Mutated (voted_ptb 0 1) vote_state []))"
    by (simp add: numeral_eq_Suc)
  then show ?thesis using vote_from_ptb by (simp add: mutate_sequence_def t vote_update ObjectData_new_def)
qed

lemma vote_hooks_none: "context_idents vote_state = None" "sequence_hooks vote_state = FunctionHook_default" by code_simp+

abbreviation vote_call :: MoveCall where
  "vote_call \<equiv> \<lparr>call_module_id = 7, call_module_name = ''m'', call_function = ''vote'', call_type_arguments = [], call_arguments = [Input 0]\<rparr>"

lemma vote_hook_args: "hook_args vote_function (Some (vote_call, vote_function)) None = Some ([(0, Input 0, TagU64)], [])" by code_simp

lemma vote_hook_found:
  "from_ptb_and_remove_used demo_env vote_state (voted_ptb 5 1) [Input 0] = Inr (ObjectData_new\<lparr>used_object_ids := [3]\<rparr>)"
  "struct_params [(0, Input 0, TagU64)] vote_function = []"
  "hinted_ty_args [(0, Input 0, TagU64)] [] = [(0, TagU64)]"
  by code_simp+

lemma vote_hook_construct:
  "try_construct_args scripted product_lists demo_env vote_state 1 [] [] [(0, TagU64)] (ObjectData_new\<lparr>used_object_ids := [3]\<rparr>) [0] =
     Inr (ConstructOk [] [] [], [])"
proof -
  have c: "get_ty_args_candidates product_lists [] = [[]]" by code_simp
  have b: "below_or_zero scripted 1 [0] = (0, [])" by code_simp
  have f: "finish_args scripted vote_state [] [] [(0, TagU64)] (start_sampling (ObjectData_new\<lparr>used_object_ids := [3]\<rparr>) [] []) = Inr (ConstructOk [] [] [], [])"
   by code_simp
  show ?thesis using b f by (simp add: try_construct_args_def c)
qed

lemma vote_hook_build: "build_args rec vote_env vote_ident vote_function [(0, Input 0, TagU64)] [Input 0] (voted_ptb 5 1) (ConstructOk [] [] []) [] =
  Some (Inr (Inr ([Input 0], [], [], voted_ptb 5 1, [])))"
  by (simp add: build_args_def found_param_def vote_function_def)

lemma vote_hook_place:
  "place_inputs (voted_ptb 5 1) 1 vote_function [Input 0] [] = Inr (Some ([Input 0], []))"
  by (simp add: place_inputs_def vote_function_def redirect_input_def shift_input_def sort_dedup_def)

lemma vote_hook_level: "append_level rec vote_env (voted_ptb 5 1) vote_ident [(0, Input 0, TagU64)] [] [Input 0] True [0] =
  Some (Inr (Some ([Input 0], []), voted_ptb 5 2, []))"
proof -
  have "fn_type_parameters vote_function = []" by (simp add: vote_function_def)
  moreover have "push_call vote_ident vote_function True [Input 0] [] [] (voted_ptb 5 1) = Inr (Some ([Input 0], []), voted_ptb 5 2)"
   by code_simp
  ultimately show ?thesis using vote_hook_found vote_hook_construct vote_hook_build vote_hook_place
    by (simp add: append_level_def vote_ident_parts vote_found)
qed

lemma vote_hook_call: "append_hook_call vote_env (voted_ptb 5 1) vote_ident (Some (vote_call, vote_function)) None [0] = Some (Inr (voted_ptb 5 2, []))"
proof -
  have "append_function TOP_LEVEL vote_env (voted_ptb 5 1) vote_ident [(0, Input 0, TagU64)] [] [Input 0] True [0] =
    Some (Inr (Some ([Input 0], []), voted_ptb 5 2, []))"
    using vote_hook_level by (simp add: TOP_LEVEL_def numeral_eq_Suc)
  then show ?thesis by (simp add: append_hook_call_def vote_ident_parts vote_found vote_hook_args)
qed

lemma vote_hooked:
  "apply_hooks vote_env (voted_ptb 5 1) [0] = Some (Inr (voted_ptb 5 2, []))"
proof -
  have h: "bt_get (function_hooks vote_state) vote_ident = Some \<lparr>pre_hooks = [], post_hooks = [vote_ident]\<rparr>" by code_simp
  have i: "call_ident vote_call = vote_ident" by code_simp
  have k: "process_balance demo_env vote_state (voted_ptb 5 2) = Inr (voted_ptb 5 2)" "process_key_store demo_env vote_state (voted_ptb 5 2) = Inr (voted_ptb 5 2)"
   by code_simp+
  have "handle_function_call_hooks vote_env vote_call vote_call \<lparr>inputs = [InU64 5], commands = []\<rparr> [] None None [0] =
      Some (Inr (True, voted_ptb 5 2, [0], []))"
    using vote_hook_call by (simp add: handle_function_call_hooks_def vote_found h i append_context_creation_def append_context_destruction_def push_command_def demo_call_def)
  then show ?thesis using k
    by (simp add: apply_hooks_def vote_hooks_none resolve_destroy_param_ty_def append_context_creation_def append_context_destruction_def
      append_sequence_hooks_with_ctx_def FunctionHook_default_def hook_command_def demo_call_def)
qed

theorem append_function_appends_witness:
  "appended vote_env vote_ident empty_ptb (Some ([Input 0], [])) (voted_ptb 0 1)"
  by (rule append_function_appends [OF vote_appended])

theorem apply_hooks_embeds_witness: "\<exists>pos. embedded (commands (voted_ptb 5 1)) (voted_ptb 5 2) pos"
  using apply_hooks_embeds [OF vote_hooked] by simp

theorem mutate_sequence_settled_witness: "settled vote_env None empty_ptb (voted_ptb 0 1)"
  using mutate_sequence_settled [OF vote_grows] by simp

end
