(* ===== verification/Stackless.thy ===== *)
theory Stackless
  imports Metadata Oracles
begin

text \<open>
  \<open>movy-static-analysis/src/sui\<close>: the stackless form of compiled modules (\<open>generate_bytecode.rs\<close>), the
  loading of modules with what they depend on (\<open>common.rs\<close>) and the five detectors that read it
  (\<open>bool_judgement.rs\<close>, \<open>infinite_loop.rs\<close>, \<open>precision_loss.rs\<close>, \<open>type_conversion.rs\<close>,
  \<open>unchecked_return.rs\<close>).

  Stackless instructions are those of \<open>move_stackless_bytecode\<close>, with the operations that the code
  matches; their attributes carry source positions and are left out. The model builder, the generator
  and \<open>label_offsets\<close> are parameters, as is the store of package objects (\<open>CodeStore\<close>).
\<close>

section \<open>Stackless bytecode\<close>

type_synonym FunId = nat

datatype Operation =
    OpFunction FunId | OpDestroy | OpCast IntTy | OpMul | OpDiv | OpEq | OpNeq | OpOther string

datatype SLConstant = SLConstBool bool | SLConstOther string

datatype SLType = SLTyBool | SLTyInt IntTy | SLTyOther string

datatype SLBytecode =
    SLAssign nat nat
  | SLCall "nat list" Operation "nat list" "nat option"
  | SLRet "nat list"
  | SLLoad nat SLConstant
  | SLBranch nat nat nat
  | SLJump nat
  | SLLabel nat
  | SLAbort nat
  | SLVariantSwitch nat "nat list"
  | SLNop

record FunctionInfo =
  fi_idx :: nat
  fi_name :: string
  args_count :: nat
  sl_code :: "SLBytecode list"
  local_types :: "SLType list"
  def_attrid :: "nat list list"
  use_attrid :: "nat list list"

record ModuleBytecode =
  mb_name :: string
  mb_functions :: "FunctionInfo list"

text \<open>What the model builder and the generator give for a module.\<close>

record FunctionEnv =
  fe_is_native :: bool
  fe_has_jump_tables :: bool
  fe_def_idx :: nat
  fe_name :: string
  fe_code :: "SLBytecode list"
  fe_local_types :: "SLType list"

record ModuleEnv =
  me_name :: string
  me_functions :: "FunctionEnv list"

record GlobalEnv =
  genv_modules :: "ModuleEnv list"
  symbol_string :: "FunId \<Rightarrow> string"

type_synonym model_builder = "CompiledModule list \<Rightarrow> GlobalEnv res"

definition record_slot :: "nat list list \<Rightarrow> nat \<Rightarrow> nat \<Rightarrow> nat list list" where
  "record_slot slots idx offset = (if idx < length slots then slots[idx := slots ! idx @ [offset]] else slots)"

definition record_all :: "nat list list \<Rightarrow> nat list \<Rightarrow> nat \<Rightarrow> nat list list" where
  "record_all slots temps offset = foldl (\<lambda>slots t. record_slot slots t offset) slots temps"

definition def_use_step :: "nat list list \<times> nat list list \<Rightarrow> nat \<times> SLBytecode \<Rightarrow> nat list list \<times> nat list list" where
  "def_use_step acc p = (case acc of (defs, uses) \<Rightarrow> case p of (offset, instr) \<Rightarrow>
     case instr of
       SLAssign dst src \<Rightarrow> (record_slot defs dst offset, record_slot uses src offset)
     | SLCall dsts _ srcs abort_action \<Rightarrow>
         (let defs = record_all defs dsts offset; uses = record_all uses srcs offset in
          (case abort_action of Some temp \<Rightarrow> record_slot defs temp offset | None \<Rightarrow> defs, uses))
     | SLRet srcs \<Rightarrow> (defs, record_all uses srcs offset)
     | SLLoad dst _ \<Rightarrow> (record_slot defs dst offset, uses)
     | SLBranch _ _ src \<Rightarrow> (defs, record_slot uses src offset)
     | SLAbort src \<Rightarrow> (defs, record_slot uses src offset)
     | SLVariantSwitch discr _ \<Rightarrow> (defs, record_slot uses discr offset)
     | _ \<Rightarrow> (defs, uses))"

definition compute_def_use :: "nat \<Rightarrow> SLBytecode list \<Rightarrow> nat list list \<times> nat list list" where
  "compute_def_use locals_len code =
     foldl def_use_step (replicate locals_len [], replicate locals_len []) (enumerate 0 code)"

definition function_info :: "FunctionEnv \<Rightarrow> FunctionInfo" where
  "function_info fe =
     (let n = length (fe_local_types fe); (defs, uses) = compute_def_use n (fe_code fe) in
      \<lparr>fi_idx = fe_def_idx fe, fi_name = fe_name fe, args_count = n, sl_code = fe_code fe,
       local_types = fe_local_types fe, def_attrid = defs, use_attrid = uses\<rparr>)"

definition generate_stackless_bytecode ::
  "model_builder \<Rightarrow> CompiledModule list \<Rightarrow> (ModuleBytecode list \<times> GlobalEnv) res" where
  "generate_stackless_bytecode build ms =
     (if ms = [] then Inl (Err (Any ''no modules provided to stackless generator''))
      else bindR (build ms) (\<lambda>env.
        Inr (map (\<lambda>m. \<lparr>mb_name = me_name m,
               mb_functions = map function_info (filter (\<lambda>f. \<not> fe_is_native f \<and> \<not> fe_has_jump_tables f) (me_functions m))\<rparr>)
             (genv_modules env), env)))"

definition generate_stackless_bytecode_for_module ::
  "model_builder \<Rightarrow> CompiledModule list \<Rightarrow> CompiledModule \<Rightarrow> (ModuleBytecode \<times> GlobalEnv) res" where
  "generate_stackless_bytecode_for_module build dependencies module =
     bindR (generate_stackless_bytecode build (dependencies @ [module])) (\<lambda>(all, env).
     if all = [] then Inl (Err (Any ''stackless generator produced no modules'')) else Inr (last all, env))"

section \<open>Loading the target modules\<close>

record 'o CodeStore =
  store_get_object :: "MoveAddress \<Rightarrow> 'o option"
  deserialize_module_by_str :: "'o \<Rightarrow> (string \<Rightarrow> CompiledModule option) option"

definition self_id :: "CompiledModule \<Rightarrow> MoveModuleId" where
  "self_id m = \<lparr>module_address = cm_address m, mod_name = cm_name m\<rparr>"

definition fetch_compiled_module :: "'o CodeStore \<Rightarrow> MoveModuleId \<Rightarrow> CompiledModule option" where
  "fetch_compiled_module env module_id =
     Option.bind (store_get_object env (module_address module_id)) (\<lambda>object.
     Option.bind (deserialize_module_by_str env object) (\<lambda>package. package (mod_name module_id)))"

text \<open>The recursion follows the store, which may be of any depth: \<open>None\<close> is running out of fuel.\<close>

fun collect_deps ::
  "(CompiledModule \<Rightarrow> MoveModuleId list \<times> CompiledModule list \<Rightarrow> (MoveModuleId list \<times> CompiledModule list) option)
     \<Rightarrow> (MoveModuleId \<Rightarrow> CompiledModule option) \<Rightarrow> MoveModuleId list \<Rightarrow> MoveModuleId list \<times> CompiledModule list
     \<Rightarrow> (MoveModuleId list \<times> CompiledModule list) option" where
  "collect_deps rec fetch [] acc = Some acc"
| "collect_deps rec fetch (dep # deps) acc =
     (if dep \<in> set (fst acc) then collect_deps rec fetch deps acc
      else case fetch dep of
        Some dep_module \<Rightarrow> Option.bind (rec dep_module acc) (collect_deps rec fetch deps)
      | None \<Rightarrow> collect_deps rec fetch deps acc)"

fun collect_modules_rec ::
  "nat \<Rightarrow> (MoveModuleId \<Rightarrow> CompiledModule option) \<Rightarrow> CompiledModule \<Rightarrow> MoveModuleId list \<times> CompiledModule list
     \<Rightarrow> (MoveModuleId list \<times> CompiledModule list) option" where
  "collect_modules_rec 0 fetch module acc = None"
| "collect_modules_rec (Suc n) fetch module acc =
     (case acc of (visited, ordered) \<Rightarrow>
      if self_id module \<in> set visited then Some acc
      else map_option (\<lambda>(visited, ordered). (visited, ordered @ [module]))
        (collect_deps (collect_modules_rec n fetch) fetch (immediate_dependencies module) (self_id module # visited, ordered)))"

definition collect_modules :: "nat \<Rightarrow> 'o CodeStore \<Rightarrow> CompiledModule \<Rightarrow> CompiledModule list option" where
  "collect_modules n env root = map_option snd (collect_modules_rec n (fetch_compiled_module env) root ([], []))"

record ModuleAnalysis =
  compiled :: CompiledModule
  stackless :: ModuleBytecode
  global_env :: GlobalEnv

definition analyze_module ::
  "nat \<Rightarrow> model_builder \<Rightarrow> 'o CodeStore \<Rightarrow> CompiledModule \<Rightarrow> CompiledModule option \<Rightarrow> ModuleAnalysis option fuelled" where
  "analyze_module n build env m std_dependency =
     (case collect_modules n env m of
        None \<Rightarrow> None
      | Some ms \<Rightarrow>
          if ms = [] then Some (Inr None)
          else
            let ms = (case std_dependency of Some std_dep \<Rightarrow> std_dep # ms | None \<Rightarrow> ms) in
            Some (case generate_stackless_bytecode_for_module build (butlast ms) (last ms) of
              Inr (sl, genv) \<Rightarrow> Inr (Some \<lparr>compiled = last ms, stackless = sl, global_env = genv\<rparr>)
            | Inl (Err _) \<Rightarrow> Inr None
            | Inl (Panic msg) \<Rightarrow> Inl (Panic msg)))"

definition load_module ::
  "nat \<Rightarrow> model_builder \<Rightarrow> 'o CodeStore \<Rightarrow> CompiledModule option \<Rightarrow> MoveAddress \<Rightarrow> (string \<Rightarrow> CompiledModule option)
     \<Rightarrow> (MoveAddress \<times> string) list \<times> ModuleAnalysis list \<Rightarrow> string
     \<Rightarrow> ((MoveAddress \<times> string) list \<times> ModuleAnalysis list) fuelled" where
  "load_module n build env std_dependency pkg package acc m = (case acc of (seen, analyses) \<Rightarrow>
     if (pkg, m) \<in> set seen then Some (Inr acc)
     else case package m of
       None \<Rightarrow> Some (Inr ((pkg, m) # seen, analyses))
     | Some c \<Rightarrow> bindFR (analyze_module n build env c std_dependency) (\<lambda>a.
         Some (Inr ((pkg, m) # seen, analyses @ (case a of Some a \<Rightarrow> [a] | None \<Rightarrow> [])))))"

definition load_package ::
  "nat \<Rightarrow> model_builder \<Rightarrow> StoreInfo \<Rightarrow> 'o CodeStore \<Rightarrow> CompiledModule option
     \<Rightarrow> (MoveAddress \<times> string) list \<times> ModuleAnalysis list \<Rightarrow> MoveAddress
     \<Rightarrow> ((MoveAddress \<times> string) list \<times> ModuleAnalysis list) fuelled" where
  "load_package n build info env std_dependency acc pkg =
     (case get_package_info info pkg of
        Inl e \<Rightarrow> Some (Inl (Err e))
      | Inr None \<Rightarrow> Some (Inr acc)
      | Inr (Some package_meta) \<Rightarrow>
          (case Option.bind (store_get_object env pkg) (deserialize_module_by_str env) of
             None \<Rightarrow> Some (Inr acc)
           | Some package \<Rightarrow> foldFR (load_module n build env std_dependency pkg package) acc
               (sort (map (mod_name \<circ> abi_module_id) (modules package_meta)))))"

definition load_target_modules ::
  "nat \<Rightarrow> model_builder \<Rightarrow> StoreInfo \<Rightarrow> 'o CodeStore \<Rightarrow> MoveAddress list \<Rightarrow> ModuleAnalysis list fuelled" where
  "load_target_modules n build info env target_packages =
     bindFR (foldFR (load_package n build info env
         (fetch_compiled_module env \<lparr>module_address = one, mod_name = ''vector''\<rparr>)) ([], []) target_packages) (\<lambda>(_, analyses).
     Some (Inr analyses))"

section \<open>The definition an instruction reads\<close>

definition get_def_bytecode :: "FunctionInfo \<Rightarrow> nat \<Rightarrow> nat \<Rightarrow> SLBytecode option" where
  "get_def_bytecode f temp code_offset =
     (let get = (\<lambda>i. if i < length (sl_code f) then Some (sl_code f ! i) else None) in
      if length (def_attrid f) \<le> temp then None
      else case def_attrid f ! temp of
        [] \<Rightarrow> None
      | [d] \<Rightarrow> get d
      | d # ds \<Rightarrow>
          (let candidates = sort (filter (\<lambda>i. i < code_offset) (d # ds)) in
           if candidates = [] then get d else get (last candidates)))"

section \<open>Detectors\<close>

definition is_ld_bool :: "SLBytecode \<Rightarrow> bool" where
  "is_ld_bool b = (case b of SLLoad _ (SLConstBool _) \<Rightarrow> True | _ \<Rightarrow> False)"

definition local_is :: "SLType list \<Rightarrow> nat \<Rightarrow> SLType \<Rightarrow> bool" where
  "local_is lts i ty \<longleftrightarrow> i < length lts \<and> lts ! i = ty"

definition ret_is_bool :: "SLBytecode \<Rightarrow> SLType list \<Rightarrow> bool" where
  "ret_is_bool b lts = (case b of
     SLCall dsts _ _ _ \<Rightarrow> (case dsts of [] \<Rightarrow> False | d # _ \<Rightarrow> local_is lts d SLTyBool)
   | SLAssign dst _ \<Rightarrow> local_is lts dst SLTyBool
   | SLLoad dst _ \<Rightarrow> local_is lts dst SLTyBool
   | _ \<Rightarrow> False)"

definition judges_bool :: "FunctionInfo \<Rightarrow> nat \<times> SLBytecode \<Rightarrow> bool" where
  "judges_bool f p = (case p of
     (offset, SLCall _ op [a, b] _) \<Rightarrow>
       (op = OpEq \<or> op = OpNeq) \<and>
       (case (get_def_bytecode f a offset, get_def_bytecode f b offset) of
          (Some left, Some right) \<Rightarrow>
            is_ld_bool left \<and> ret_is_bool right (local_types f) \<or> is_ld_bool right \<and> ret_is_bool left (local_types f)
        | _ \<Rightarrow> False)
   | _ \<Rightarrow> False)"

definition detect_bool_judgement :: "FunctionInfo \<Rightarrow> bool" where
  "detect_bool_judgement f = list_ex (judges_bool f) (enumerate 0 (sl_code f))"

text \<open>\<open>label_offsets\<close> of the stackless library is the parameter \<open>label_offsets\<close>.\<close>

type_synonym label_table = "SLBytecode list \<Rightarrow> nat \<Rightarrow> u16 option"

definition loops_back :: "label_table \<Rightarrow> FunctionInfo \<Rightarrow> nat \<times> SLBytecode \<Rightarrow> bool" where
  "loops_back label_offsets f p = (case p of
     (offset, SLBranch then_label else_label cond) \<Rightarrow>
       (case get_def_bytecode f cond offset of
          Some (SLLoad _ (SLConstBool v)) \<Rightarrow>
            (case (label_offsets (sl_code f) then_label, label_offsets (sl_code f) else_label) of
               (Some then_offset, Some else_offset) \<Rightarrow>
                 v \<and> then_offset \<le> as_u16 offset \<or> \<not> v \<and> else_offset \<le> as_u16 offset
             | _ \<Rightarrow> False)
        | _ \<Rightarrow> False)
   | _ \<Rightarrow> False)"

definition detect_infinite_loop :: "label_table \<Rightarrow> FunctionInfo \<Rightarrow> bool" where
  "detect_infinite_loop label_offsets f = list_ex (loops_back label_offsets f) (enumerate 0 (sl_code f))"

definition is_div :: "SLBytecode \<Rightarrow> bool" where
  "is_div b = (case b of SLCall _ op _ _ \<Rightarrow> op = OpDiv | _ \<Rightarrow> False)"

definition is_sqrt :: "(FunId \<Rightarrow> string) \<Rightarrow> SLBytecode \<Rightarrow> bool" where
  "is_sqrt symbols b = (case b of SLCall _ (OpFunction fid) _ _ \<Rightarrow> symbols fid = ''sqrt'' | _ \<Rightarrow> False)"

definition loses_precision :: "(FunId \<Rightarrow> string) \<Rightarrow> FunctionInfo \<Rightarrow> nat \<times> SLBytecode \<Rightarrow> bool" where
  "loses_precision symbols f p = (case p of
     (offset, SLCall _ op [a, b] _) \<Rightarrow>
       op = OpMul \<and>
       (case (get_def_bytecode f a offset, get_def_bytecode f b offset) of
          (Some op1, Some op2) \<Rightarrow> is_div op1 \<or> is_div op2 \<or> is_sqrt symbols op1 \<or> is_sqrt symbols op2
        | _ \<Rightarrow> False)
   | _ \<Rightarrow> False)"

definition detect_precision_loss :: "(FunId \<Rightarrow> string) \<Rightarrow> FunctionInfo \<Rightarrow> bool" where
  "detect_precision_loss symbols f = list_ex (loses_precision symbols f) (enumerate 0 (sl_code f))"

definition converts_to_itself :: "SLType list \<Rightarrow> SLBytecode \<Rightarrow> bool res" where
  "converts_to_itself lts b = (case b of
     SLCall _ (OpCast ity) srcs _ \<Rightarrow> bindR (indexR srcs 0) (\<lambda>s. bindR (indexR lts s) (\<lambda>ty. Inr (ty = SLTyInt ity)))
   | _ \<Rightarrow> Inr False)"

fun any_converts :: "SLType list \<Rightarrow> SLBytecode list \<Rightarrow> bool res" where
  "any_converts lts [] = Inr False"
| "any_converts lts (b # bs) = bindR (converts_to_itself lts b) (\<lambda>found. if found then Inr True else any_converts lts bs)"

definition detect_unnecessary_type_conversion :: "FunctionInfo \<Rightarrow> bool res" where
  "detect_unnecessary_type_conversion f = any_converts (local_types f) (sl_code f)"

definition destroys :: "nat list \<Rightarrow> SLBytecode \<Rightarrow> bool" where
  "destroys dsts b = (case b of SLCall _ OpDestroy [s] _ \<Rightarrow> s \<in> set dsts | _ \<Rightarrow> False)"

definition dropped_call :: "FunctionInfo \<Rightarrow> nat \<times> SLBytecode \<Rightarrow> FunId option" where
  "dropped_call f p = (case p of
     (offset, SLCall dsts (OpFunction fid) _ _) \<Rightarrow>
       if dsts \<noteq> [] \<and> list_ex (destroys dsts) (drop (offset + 1) (sl_code f)) then Some fid else None
   | _ \<Rightarrow> None)"

definition detect_unchecked_return :: "FunctionInfo \<Rightarrow> FunId list" where
  "detect_unchecked_return f = List.map_filter (dropped_call f) (enumerate 0 (sl_code f))"

section \<open>Reports\<close>

definition qualified_module_name :: "(MoveAddress \<Rightarrow> string) \<Rightarrow> ModuleAnalysis \<Rightarrow> string" where
  "qualified_module_name print m = print (cm_address (compiled m)) @ ''::'' @ cm_name (compiled m)"

definition function_is_native :: "ModuleAnalysis \<Rightarrow> FunctionInfo \<Rightarrow> bool" where
  "function_is_native m f =
     (let defs = cm_function_defs (compiled m) in
      if fi_idx f < length defs then fd_code (defs ! fi_idx f) = None else True)"

definition get_function_name :: "ModuleAnalysis \<Rightarrow> FunId \<Rightarrow> string" where
  "get_function_name m fid = symbol_string (global_env m) fid"

definition static_finding ::
  "(MoveAddress \<Rightarrow> string) \<Rightarrow> string \<Rightarrow> Severity \<Rightarrow> (string \<times> ('own, 'ty) Json) list \<Rightarrow> string \<Rightarrow> ModuleAnalysis \<Rightarrow> FunctionInfo
     \<Rightarrow> ('own, 'ty) OracleFinding" where
  "static_finding print name sev details msg m f =
     \<lparr>finding_oracle = name, severity = sev,
      extra = JObject ([(''module'', JString (qualified_module_name print m)), (''function'', JString (fi_name f))]
        @ details @ [(''message'', JString msg)])\<rparr>"

definition analyzed_functions :: "ModuleAnalysis list \<Rightarrow> (ModuleAnalysis \<times> FunctionInfo) list" where
  "analyzed_functions ms = concat (map (\<lambda>m. map (Pair m) (filter (\<lambda>f. \<not> function_is_native m f) (mb_functions (stackless m)))) ms)"

definition analyze_bool_judgement :: "(MoveAddress \<Rightarrow> string) \<Rightarrow> ModuleAnalysis list \<Rightarrow> ('own, 'ty) OracleFinding list" where
  "analyze_bool_judgement print ms =
     map (\<lambda>(m, f). static_finding print ''StaticBoolJudgement'' Minor []
            ''Unnecessary bool judgement (boolean compared with boolean literal)'' m f)
       (filter (\<lambda>(m, f). detect_bool_judgement f) (analyzed_functions ms))"

definition analyze_infinite_loop ::
  "label_table \<Rightarrow> (MoveAddress \<Rightarrow> string) \<Rightarrow> ModuleAnalysis list \<Rightarrow> ('own, 'ty) OracleFinding list" where
  "analyze_infinite_loop label_offsets print ms =
     map (\<lambda>(m, f). static_finding print ''StaticInfiniteLoop'' Major []
            ''Potential infinite loop detected from constant branch condition'' m f)
       (filter (\<lambda>(m, f). detect_infinite_loop label_offsets f) (analyzed_functions ms))"

definition analyze_precision_loss :: "(MoveAddress \<Rightarrow> string) \<Rightarrow> ModuleAnalysis list \<Rightarrow> ('own, 'ty) OracleFinding list" where
  "analyze_precision_loss print ms =
     map (\<lambda>(m, f). static_finding print ''StaticPrecisionLoss'' Medium []
            ''Potential precision loss from multiplication involving division/sqrt'' m f)
       (filter (\<lambda>(m, f). detect_precision_loss (symbol_string (global_env m)) f) (analyzed_functions ms))"

definition analyze_type_conversion :: "(MoveAddress \<Rightarrow> string) \<Rightarrow> ModuleAnalysis list \<Rightarrow> ('own, 'ty) OracleFinding list res" where
  "analyze_type_conversion print ms =
     foldR (\<lambda>reports (m, f). bindR (detect_unnecessary_type_conversion f) (\<lambda>found.
         Inr (if found then reports @ [static_finding print ''StaticTypeConversion'' Minor [] ''Unnecessary type conversion'' m f] else reports)))
       [] (analyzed_functions ms)"

definition analyze_unchecked_return :: "(MoveAddress \<Rightarrow> string) \<Rightarrow> ModuleAnalysis list \<Rightarrow> ('own, 'ty) OracleFinding list" where
  "analyze_unchecked_return print ms =
     concat (map (\<lambda>(m, f). map (\<lambda>fid. static_finding print ''StaticUncheckedReturn'' Minor
              [(''callee'', JString (get_function_name m fid))] ''Return value dropped without handling'' m f)
            (detect_unchecked_return f)) (analyzed_functions ms))"

section \<open>Definitions and uses\<close>

fun defs_of :: "SLBytecode \<Rightarrow> nat list" where
  "defs_of (SLAssign dst _) = [dst]"
| "defs_of (SLCall dsts _ _ abort_action) = dsts @ (case abort_action of Some t \<Rightarrow> [t] | None \<Rightarrow> [])"
| "defs_of (SLLoad dst _) = [dst]"
| "defs_of _ = []"

fun uses_of :: "SLBytecode \<Rightarrow> nat list" where
  "uses_of (SLAssign _ src) = [src]"
| "uses_of (SLCall _ _ srcs _) = srcs"
| "uses_of (SLRet srcs) = srcs"
| "uses_of (SLBranch _ _ src) = [src]"
| "uses_of (SLAbort src) = [src]"
| "uses_of (SLVariantSwitch discr _) = [discr]"
| "uses_of _ = []"

lemma record_all_Nil [simp]: "record_all slots [] offset = slots"
  by (simp add: record_all_def)

lemma record_all_single: "record_all slots [t] offset = record_slot slots t offset"
  by (simp add: record_all_def)

lemma record_all_append: "record_all slots (xs @ ys) offset = record_all (record_all slots xs offset) ys offset"
  by (simp add: record_all_def)

lemma length_record_slot [simp]: "length (record_slot slots t offset) = length slots"
  by (simp add: record_slot_def)

lemma length_record_all [simp]: "length (record_all slots ts offset) = length slots"
  by (induction ts arbitrary: slots) (simp_all add: record_all_def)

lemma nth_record_all:
  "t < length slots \<Longrightarrow> record_all slots ts offset ! t = slots ! t @ replicate (count_list ts t) offset"
proof (induction ts arbitrary: slots)
  case (Cons x ts)
  have "record_all slots (x # ts) offset = record_all (record_slot slots x offset) ts offset" by (simp add: record_all_def)
  with Cons show ?case by (auto simp: record_slot_def nth_list_update)
qed simp

lemma def_use_step_record:
  "def_use_step (defs, uses) (i, b) = (record_all defs (defs_of b) i, record_all uses (uses_of b) i)"
  by (cases b) (auto simp: def_use_step_def record_all_single record_all_append Let_def split: option.splits)

text \<open>The offsets at which a list of instructions names the local \<open>t\<close>, once for each occurrence.\<close>

definition occurrences :: "(SLBytecode \<Rightarrow> nat list) \<Rightarrow> SLBytecode list \<Rightarrow> nat \<Rightarrow> nat list" where
  "occurrences g code t = concat (map (\<lambda>(i, b). replicate (count_list (g b) t) i) (enumerate 0 code))"

lemma def_use_fold:
  "\<exists>defs' uses'. foldl def_use_step (defs, uses) ps = (defs', uses') \<and> length defs' = length defs \<and> length uses' = length uses
     \<and> (\<forall>t < length defs. defs' ! t = defs ! t @ concat (map (\<lambda>(i, b). replicate (count_list (defs_of b) t) i) ps))
     \<and> (\<forall>t < length uses. uses' ! t = uses ! t @ concat (map (\<lambda>(i, b). replicate (count_list (uses_of b) t) i) ps))"
proof (induction ps arbitrary: defs uses)
  case (Cons p ps)
  obtain i b where "p = (i, b)" by (cases p)
  with Cons.IH [of "record_all defs (defs_of b) i" "record_all uses (uses_of b) i"] show ?case
    by (auto simp: def_use_step_record nth_record_all)
qed simp

text \<open>
  \<open>compute_def_use\<close> lists, for every local, the offsets of the instructions that write it and of those
  that read it, in ascending order and once for every occurrence.
\<close>

theorem compute_def_use_exact:
  "compute_def_use n code = (map (occurrences defs_of code) [0..<n], map (occurrences uses_of code) [0..<n])"
proof -
  from def_use_fold [of "replicate n []" "replicate n []" "enumerate 0 code"] obtain defs uses where
    d: "compute_def_use n code = (defs, uses)" "length defs = n" "length uses = n"
      "\<forall>t < n. defs ! t = occurrences defs_of code t" "\<forall>t < n. uses ! t = occurrences uses_of code t"
    by (auto simp: compute_def_use_def occurrences_def)
  then show ?thesis by (auto intro!: nth_equalityI)
qed

lemma set_occurrences: "set (occurrences g code t) = {i. i < length code \<and> t \<in> set (g (code ! i))}"
proof -
  have "i \<in> set (occurrences g code t)" if "i < length code" "t \<in> set (g (code ! i))" for i
    using that by (force simp: occurrences_def count_list_0_iff in_set_enumerate_eq intro!: bexI [of _ "(i, code ! i)"])
  then show ?thesis by (auto simp: occurrences_def in_set_enumerate_eq count_list_0_iff)
qed

lemma sorted_replicates: "sorted (map fst ps) \<Longrightarrow> sorted (concat (map (\<lambda>(i, b). replicate (k b) (i :: nat)) ps))"
  by (induction ps) (auto simp: sorted_append)

lemma sorted_occurrences: "sorted (occurrences g code t)"
  unfolding occurrences_def by (rule sorted_replicates) simp

definition def_sites :: "SLBytecode list \<Rightarrow> nat \<Rightarrow> nat set" where
  "def_sites code t = {i. i < length code \<and> t \<in> set (defs_of (code ! i))}"

lemma sorted_last_Max: "sorted xs \<Longrightarrow> xs \<noteq> [] \<Longrightarrow> last xs = Max (set xs)"
  by (induction xs) (auto simp: sorted_append max_def intro: Max_insert [symmetric])

lemma sorted_hd_Min: "sorted (x # xs) \<Longrightarrow> x = Min (set (x # xs))"
  by (rule Min_eqI [symmetric]) auto

text \<open>
  For a function in stackless form, the definition that \<open>get_def_bytecode\<close> gives for a local at an offset is
  the last instruction before the offset that writes it; when only later instructions write it, the
  first of them; nothing when none does.
\<close>

theorem get_def_bytecode_reaches:
  assumes "t < length (fe_local_types fe)"
  shows "get_def_bytecode (function_info fe) t offset =
    (let sites = def_sites (fe_code fe) t; before = {i \<in> sites. i < offset} in
     if sites = {} then None
     else Some (fe_code fe ! (if before = {} then Min sites else Max before)))"
proof -
  let ?c = "fe_code fe" and ?f = "function_info fe"
  have f: "sl_code ?f = ?c" "def_attrid ?f ! t = occurrences defs_of ?c t" "length (def_attrid ?f) = length (fe_local_types fe)"
    using assms by (simp_all add: function_info_def compute_def_use_exact Let_def)
  have s: "set (occurrences defs_of ?c t) = def_sites ?c t" by (simp add: set_occurrences def_sites_def)
  have lt: "i < length ?c" if "i \<in> def_sites ?c t" for i using that by (simp add: def_sites_def)
  show ?thesis
  proof (cases "occurrences defs_of ?c t")
    case Nil
    with s have "def_sites ?c t = {}" by simp
    with Nil f assms show ?thesis by (simp add: get_def_bytecode_def)
  next
    case (Cons d ds)
    let ?cs = "filter (\<lambda>i. i < offset) (d # ds)"
    have sd: "set (d # ds) = def_sites ?c t" "sorted (d # ds)" using s Cons sorted_occurrences [of defs_of ?c t] by simp_all
    have d: "d = Min (def_sites ?c t)" using sorted_hd_Min [OF sd(2)] sd(1) by simp
    have b: "set ?cs = {i \<in> def_sites ?c t. i < offset}" using sd(1) by auto
    have srt: "sort ?cs = ?cs" using sd(2) by (simp add: sorted_sort_id sorted_filter [of id, simplified])
    have mx: "last ?cs = Max {i \<in> def_sites ?c t. i < offset}" if "?cs \<noteq> []"
      using sorted_last_Max [OF _ that] sd(2) b by (simp add: sorted_filter [of id, simplified])
    have dc: "d < length ?c" using sd(1) lt by auto
    have lc: "last ?cs < length ?c" if "?cs \<noteq> []" using last_in_set [OF that] b lt by auto
    show ?thesis
    proof (cases ds)
      case Nil
      then have "def_sites ?c t = {d}" using sd(1) by simp
      moreover have "get_def_bytecode ?f t offset = Some (?c ! d)"
        using Nil Cons f assms dc by (simp add: get_def_bytecode_def)
      ultimately show ?thesis by (auto simp: Let_def Collect_conv_if)
    next
      case (Cons e es)
      with \<open>occurrences defs_of ?c t = d # ds\<close> f assms have
        "get_def_bytecode ?f t offset = (if sort ?cs = [] then Some (?c ! d)
           else if last (sort ?cs) < length ?c then Some (?c ! last (sort ?cs)) else None)"
        using dc by (simp add: get_def_bytecode_def Let_def)
      moreover have "(?cs = []) = ({i \<in> def_sites ?c t. i < offset} = {})" using b by (metis set_empty)
      moreover have "def_sites ?c t \<noteq> {}" using sd(1) by auto
      ultimately show ?thesis unfolding srt Let_def using mx lc d by (simp split: if_splits) blast+
    qed
  qed
qed

section \<open>Dependencies before their users\<close>

definition fetched_deps :: "(MoveModuleId \<Rightarrow> CompiledModule option) \<Rightarrow> CompiledModule \<Rightarrow> CompiledModule set" where
  "fetched_deps fetch m = {m'. \<exists>d \<in> set (immediate_dependencies m). fetch d = Some m'}"

definition needs :: "(MoveModuleId \<Rightarrow> CompiledModule option) \<Rightarrow> (CompiledModule \<times> CompiledModule) set" where
  "needs fetch = {(m, m'). m' \<in> fetched_deps fetch m}"

text \<open>The store answers with the module asked for, and dependencies do not lead in circles.\<close>

definition ranked :: "(MoveModuleId \<Rightarrow> CompiledModule option) \<Rightarrow> (MoveModuleId \<Rightarrow> nat) \<Rightarrow> bool" where
  "ranked fetch rank \<longleftrightarrow> (\<forall>d m. fetch d = Some m \<longrightarrow> self_id m = d \<and> (\<forall>m' \<in> fetched_deps fetch m. rank (self_id m') < rank d))"

definition dependency_order :: "(MoveModuleId \<Rightarrow> CompiledModule option) \<Rightarrow> CompiledModule list \<Rightarrow> bool" where
  "dependency_order fetch ms \<longleftrightarrow> (\<forall>pre m post. ms = pre @ m # post \<longrightarrow> fetched_deps fetch m \<subseteq> set pre)"

lemma ranked_dep:
  assumes "ranked fetch rank" "fetch (self_id m) = Some m" "d \<in> set (immediate_dependencies m)" "fetch d = Some m'"
  shows "rank d < rank (self_id m)"
proof -
  have "self_id m' = d" using assms(1,4) unfolding ranked_def by blast
  moreover have "m' \<in> fetched_deps fetch m" using assms(3,4) unfolding fetched_deps_def by blast
  then have "rank (self_id m') < rank (self_id m)" using assms(1,2) unfolding ranked_def by blast
  ultimately show ?thesis by simp
qed

lemma dependency_order_Nil [simp]: "dependency_order fetch []"
  by (simp add: dependency_order_def)

lemma dependency_order_snoc:
  "dependency_order fetch ms \<Longrightarrow> fetched_deps fetch m \<subseteq> set ms \<Longrightarrow> dependency_order fetch (ms @ [m])"
  unfolding dependency_order_def
proof (intro allI impI)
  fix pre x post
  assume o: "\<forall>pre m post. ms = pre @ m # post \<longrightarrow> fetched_deps fetch m \<subseteq> set pre" and f: "fetched_deps fetch m \<subseteq> set ms"
    and e: "ms @ [m] = pre @ x # post"
  show "fetched_deps fetch x \<subseteq> set pre"
  proof (cases post rule: rev_cases)
    case Nil
    with e f show ?thesis by simp
  next
    case (snoc ys y)
    with e have "ms = pre @ x # ys" by (metis append_Cons append_assoc butlast_snoc)
    with o show ?thesis by blast
  qed
qed

definition explored ::
  "(MoveModuleId \<Rightarrow> CompiledModule option) \<Rightarrow> (MoveModuleId \<Rightarrow> nat) \<Rightarrow> nat \<Rightarrow> MoveModuleId list \<Rightarrow> CompiledModule list \<Rightarrow> bool" where
  "explored fetch rank k visited ordered \<longleftrightarrow> dependency_order fetch ordered \<and> distinct (map self_id ordered)
     \<and> (\<forall>x \<in> set ordered. fetch (self_id x) = Some x) \<and> self_id ` set ordered \<subseteq> set visited
     \<and> (\<forall>i \<in> set visited. i \<in> self_id ` set ordered \<or> k \<le> rank i)"

definition visit ::
  "(MoveModuleId \<Rightarrow> CompiledModule option) \<Rightarrow> (MoveModuleId \<Rightarrow> nat) \<Rightarrow> nat \<Rightarrow> CompiledModule set
     \<Rightarrow> MoveModuleId list \<times> CompiledModule list \<Rightarrow> (MoveModuleId list \<times> CompiledModule list) option \<Rightarrow> bool" where
  "visit fetch rank k starts acc res \<longleftrightarrow> (\<exists>visited new. res = Some (visited, snd acc @ new) \<and> explored fetch rank k visited (snd acc @ new)
     \<and> set visited = set (fst acc) \<union> self_id ` set (snd acc @ new) \<and> starts \<subseteq> set (snd acc @ new)
     \<and> set new \<subseteq> (needs fetch)\<^sup>* `` starts \<and> (\<forall>x \<in> set new. rank (self_id x) < k))"

lemma visit_nothing: "explored fetch rank k visited ordered \<Longrightarrow> starts \<subseteq> set ordered \<Longrightarrow>
    visit fetch rank k starts (visited, ordered) (Some (visited, ordered))"
  unfolding visit_def explored_def by force

lemma visit_more:
  assumes "visit fetch rank k A acc (Some acc')" "visit fetch rank k B acc' res"
  shows "visit fetch rank k (A \<union> B) acc res"
proof -
  obtain v o' where acc: "acc' = (v, o')" by (cases acc')
  from assms(1) obtain new where 1: "o' = snd acc @ new" "set v = set (fst acc) \<union> self_id ` set o'" "A \<subseteq> set o'"
    "set new \<subseteq> (needs fetch)\<^sup>* `` A" "\<forall>x \<in> set new. rank (self_id x) < k" by (auto simp: visit_def acc)
  from assms(2) obtain v2 new2 where 2: "res = Some (v2, o' @ new2)" "explored fetch rank k v2 (o' @ new2)"
    "set v2 = set v \<union> self_id ` set (o' @ new2)" "B \<subseteq> set (o' @ new2)" "set new2 \<subseteq> (needs fetch)\<^sup>* `` B" "\<forall>x \<in> set new2. rank (self_id x) < k"
    by (auto simp: visit_def acc)
  have "res = Some (v2, snd acc @ (new @ new2))" "explored fetch rank k v2 (snd acc @ (new @ new2))"
    "set v2 = set (fst acc) \<union> self_id ` set (snd acc @ (new @ new2))" "A \<union> B \<subseteq> set (snd acc @ (new @ new2))"
    "set (new @ new2) \<subseteq> (needs fetch)\<^sup>* `` (A \<union> B)" "\<forall>x \<in> set (new @ new2). rank (self_id x) < k"
    using 1 2 by auto
  then show ?thesis unfolding visit_def by blast
qed

lemma collect_deps_visit:
  assumes "ranked fetch rank"
    and rec: "\<And>m v o'. fetch (self_id m) = Some m \<Longrightarrow> rank (self_id m) < k \<Longrightarrow> explored fetch rank k v o' \<Longrightarrow> visit fetch rank k {m} (v, o') (rec m (v, o'))"
  shows "(\<And>d m. d \<in> set deps \<Longrightarrow> fetch d = Some m \<Longrightarrow> rank d < k) \<Longrightarrow> explored fetch rank k v o' \<Longrightarrow>
    visit fetch rank k {m. \<exists>d \<in> set deps. fetch d = Some m} (v, o') (collect_deps rec fetch deps (v, o'))"
proof (induction deps arbitrary: v o')
  case Nil
  then show ?case by (simp add: visit_nothing)
next
  case (Cons d deps)
  let ?A = "{m. fetch d = Some m}" and ?B = "{m. \<exists>d \<in> set deps. fetch d = Some m}"
  have split: "{m. \<exists>e \<in> set (d # deps). fetch e = Some m} = ?A \<union> ?B" by auto
  obtain v1 o1 where s: "visit fetch rank k ?A (v, o') (Some (v1, o1))"
    "collect_deps rec fetch (d # deps) (v, o') = collect_deps rec fetch deps (v1, o1)"
  proof (cases "d \<in> set v \<or> fetch d = None")
    case True
    have "?A \<subseteq> set o'"
    proof
      fix m assume m: "m \<in> ?A"
      have "rank d < k" using Cons.prems(1) [of d m] m by simp
      with True m Cons.prems(2) have "d \<in> self_id ` set o'" by (auto simp: explored_def)
      then obtain x where "x \<in> set o'" "self_id x = d" by auto
      with Cons.prems(2) m show "m \<in> set o'" by (auto simp: explored_def)
    qed
    with Cons.prems(2) True that [of v o'] show ?thesis by (auto simp: visit_nothing)
  next
    case False
    then obtain m where m: "fetch d = Some m" by auto
    with assms(1) have "self_id m = d" by (simp add: ranked_def)
    with rec [of m v o'] Cons.prems m have r: "visit fetch rank k ?A (v, o') (rec m (v, o'))" by (simp add: Collect_conv_if)
    then obtain acc where "rec m (v, o') = Some acc" by (auto simp: visit_def)
    with r False m that [of "fst acc" "snd acc"] show ?thesis by simp
  qed
  from s(1) have "explored fetch rank k v1 o1" by (auto simp: visit_def)
  with Cons.IH Cons.prems(1) have "visit fetch rank k ?B (v1, o1) (collect_deps rec fetch deps (v1, o1))" by simp
  from visit_more [OF s(1) this] show ?case unfolding split s(2) .
qed

text \<open>A module whose dependencies stand in the list can follow them.\<close>

lemma visit_push:
  assumes "visit fetch rank (rank (self_id m)) (fetched_deps fetch m) (self_id m # v, o') res"
    "explored fetch rank k v o'" "self_id m \<notin> set v" "rank (self_id m) < k" "fetch (self_id m) = Some m"
  shows "visit fetch rank k {m} (v, o') (map_option (\<lambda>(v, o'). (v, o' @ [m])) res)"
proof -
  from assms(1) obtain v' new where r: "res = Some (v', o' @ new)" "explored fetch rank (rank (self_id m)) v' (o' @ new)"
    "set v' = insert (self_id m) (set v) \<union> self_id ` set (o' @ new)" "fetched_deps fetch m \<subseteq> set (o' @ new)"
    "set new \<subseteq> (needs fetch)\<^sup>* `` fetched_deps fetch m" "\<forall>x \<in> set new. rank (self_id x) < rank (self_id m)"
    by (auto simp: visit_def)
  let ?l = "o' @ (new @ [m])"
  have fresh: "self_id m \<notin> self_id ` set (o' @ new)" using assms(2,3) r(6) by (auto simp: explored_def)
  have order: "dependency_order fetch ?l"
    using dependency_order_snoc [OF _ r(4)] r(2) by (simp add: explored_def)
  have "explored fetch rank k v' ?l" unfolding explored_def
  proof (intro conjI)
    show "distinct (map self_id ?l)" using r(2) fresh by (auto simp: explored_def)
    show "\<forall>x \<in> set ?l. fetch (self_id x) = Some x" using r(2) assms(5) by (auto simp: explored_def)
    show "self_id ` set ?l \<subseteq> set v'" using r(3) by auto
    show "\<forall>i \<in> set v'. i \<in> self_id ` set ?l \<or> k \<le> rank i" using r(3) assms(2) by (auto simp: explored_def)
  qed (rule order)
  moreover have "set (new @ [m]) \<subseteq> (needs fetch)\<^sup>* `` {m}"
    using r(5) by (auto simp: needs_def intro: converse_rtrancl_into_rtrancl)
  moreover have "set v' = set v \<union> self_id ` set ?l" using r(3) by auto
  moreover have "\<forall>x \<in> set (new @ [m]). rank (self_id x) < k" using r(6) assms(4) by auto
  moreover have "map_option (\<lambda>(v, o'). (v, o' @ [m])) res = Some (v', ?l)" using r(1) by simp
  ultimately show ?thesis unfolding visit_def by (auto intro!: exI [of _ v'] exI [of _ "new @ [m]"])
qed

lemma explored_enter: "explored fetch rank k v o' \<Longrightarrow> j \<le> k \<Longrightarrow> j \<le> rank i \<Longrightarrow> explored fetch rank j (i # v) o'"
  by (auto simp: explored_def)

lemma collect_modules_rec_visit:
  assumes "ranked fetch rank"
  shows "fetch (self_id m) = Some m \<Longrightarrow> rank (self_id m) < k \<Longrightarrow> rank (self_id m) < n \<Longrightarrow> explored fetch rank k v o' \<Longrightarrow>
    visit fetch rank k {m} (v, o') (collect_modules_rec n fetch m (v, o'))"
proof (induction n arbitrary: m k v o')
  case (Suc n)
  show ?case
  proof (cases "self_id m \<in> set v")
    case True
    with Suc.prems(2,4) have "self_id m \<in> self_id ` set o'" by (auto simp: explored_def)
    then obtain x where x: "x \<in> set o'" "self_id x = self_id m" by (metis imageE)
    have "fetch (self_id x) = Some x" using Suc.prems(4) x(1) by (simp add: explored_def)
    with Suc.prems(1) x have "m \<in> set o'" by (metis option.inject)
    with True Suc.prems(4) show ?thesis by (simp add: visit_nothing)
  next
    case False
    let ?r = "rank (self_id m)"
    note deps = ranked_dep [OF assms Suc.prems(1)]
    have "visit fetch rank ?r (fetched_deps fetch m) (self_id m # v, o')
        (collect_deps (collect_modules_rec n fetch) fetch (immediate_dependencies m) (self_id m # v, o'))"
      unfolding fetched_deps_def
    proof (rule collect_deps_visit [OF assms _ deps])
      show "explored fetch rank ?r (self_id m # v) o'" using Suc.prems by (intro explored_enter) auto
    next
      fix x v o' assume "fetch (self_id x) = Some x" "rank (self_id x) < ?r" "explored fetch rank ?r v o'"
      with Suc.prems(3) show "visit fetch rank ?r {x} (v, o') (collect_modules_rec n fetch x (v, o'))" by (intro Suc.IH) auto
    qed
    from visit_push [OF this Suc.prems(4) False Suc.prems(2,1)] False show ?thesis by simp
  qed
qed simp

text \<open>
  C31: the modules that \<open>analyze_module\<close> hands to the model builder. When the store answers with the module
  asked for and dependencies do not lead in circles, the search ends; it finds the root and everything
  the root needs, each module once, every module after the modules it depends on, and the root last,
  where \<open>analyze_module\<close> takes it from.
\<close>

theorem collect_modules_ordered:
  assumes "ranked (fetch_compiled_module env) rank" "fetched_deps (fetch_compiled_module env) root \<subseteq> {m. rank (self_id m) < r}"
    "r \<le> rank (self_id root)" "r \<le> n"
  shows "\<exists>ms. collect_modules (Suc n) env root = Some (ms @ [root]) \<and> distinct (map self_id (ms @ [root]))
    \<and> dependency_order (fetch_compiled_module env) (ms @ [root])
    \<and> set (ms @ [root]) = (needs (fetch_compiled_module env))\<^sup>* `` {root}"
proof -
  let ?f = "fetch_compiled_module env"
  have deps: "rank d < r" if "d \<in> set (immediate_dependencies root)" "?f d = Some m'" for d m'
  proof -
    have "self_id m' = d" using assms(1) that(2) by (simp add: ranked_def)
    with assms(2) that show ?thesis by (auto simp: fetched_deps_def)
  qed
  have "visit ?f rank r (fetched_deps ?f root) ([self_id root], [])
      (collect_deps (collect_modules_rec n ?f) ?f (immediate_dependencies root) ([self_id root], []))"
    unfolding fetched_deps_def
  proof (rule collect_deps_visit [OF assms(1) _ deps])
    show "explored ?f rank r [self_id root] []" using assms(3) by (simp add: explored_def)
  next
    fix x v o' assume "?f (self_id x) = Some x" "rank (self_id x) < r" "explored ?f rank r v o'"
    with assms(4) show "visit ?f rank r {x} (v, o') (collect_modules_rec n ?f x (v, o'))"
      by (intro collect_modules_rec_visit [OF assms(1)]) auto
  qed
  then obtain v ms where m: "collect_deps (collect_modules_rec n ?f) ?f (immediate_dependencies root) ([self_id root], []) = Some (v, ms)"
    "explored ?f rank r v ms" "fetched_deps ?f root \<subseteq> set ms" "set ms \<subseteq> (needs ?f)\<^sup>* `` fetched_deps ?f root" "\<forall>x \<in> set ms. rank (self_id x) < r"
    by (auto simp: visit_def)
  have order: "dependency_order ?f (ms @ [root])" using m(2,3) dependency_order_snoc by (auto simp: explored_def)
  have reach: "x \<in> set (ms @ [root])" if "(root, x) \<in> (needs ?f)\<^sup>*" for x
    using that
  proof (induction rule: rtrancl_induct)
    case (step y z)
    then obtain pre post where "ms @ [root] = pre @ y # post" by (meson split_list)
    with order have "fetched_deps ?f y \<subseteq> set pre" by (simp add: dependency_order_def)
    with step.hyps(2) \<open>ms @ [root] = pre @ y # post\<close> show ?case by (auto simp: needs_def)
  qed simp
  have "set ms \<subseteq> (needs ?f)\<^sup>* `` {root}" using m(4) by (auto simp: needs_def intro: converse_rtrancl_into_rtrancl)
  then have "set (ms @ [root]) = (needs ?f)\<^sup>* `` {root}" using reach by auto
  moreover have "distinct (map self_id (ms @ [root]))" using m(2,5) assms(3) by (auto simp: explored_def)
  ultimately show ?thesis using m(1) order by (auto simp: collect_modules_def)
qed

section \<open>Concrete modules\<close>

definition bare_module :: "MoveAddress \<Rightarrow> string \<Rightarrow> MoveModuleId list \<Rightarrow> CompiledModule" where
  "bare_module a n deps = \<lparr>cm_address = a, cm_name = n,
     datatype_handle_at = (\<lambda>_. \<lparr>dh_module = 0, dh_name = 0, dh_abilities = \<lparr>has_copy = False, has_key = False, has_store = False, has_drop = False\<rparr>, dh_type_parameters = []\<rparr>),
     identifier_at = (\<lambda>_. n), module_handle_at = (\<lambda>_. \<lparr>mh_address = 0, mh_name = 0\<rparr>), address_identifier_at = (\<lambda>_. a),
     signature_at = (\<lambda>_. []), function_handle_at = (\<lambda>_. \<lparr>fh_module = 0, fh_name = 0, fh_parameters = 0, fh_return = 0, fh_type_parameters = []\<rparr>),
     cm_struct_defs = [], cm_function_defs = [], function_instantiation_at = (\<lambda>_. \<lparr>fi_handle = 0, fi_type_parameters = 0\<rparr>),
     struct_instantiation_def = (\<lambda>_. 0), variant_handle_enum = (\<lambda>_. 0), variant_instantiation_enum = (\<lambda>_. 0), enum_defs_len = 0,
     constant_pool = [], immediate_dependencies = deps\<rparr>"

abbreviation "base_id \<equiv> \<lparr>module_address = 6, mod_name = ''base''\<rparr>"

definition base_store :: "MoveAddress CodeStore" where
  "base_store = \<lparr>store_get_object = (\<lambda>a. if a = 6 then Some a else None),
     deserialize_module_by_str = (\<lambda>_. Some (\<lambda>n. if n = ''base'' then Some (bare_module 6 n []) else None))\<rparr>"

lemma fetch_base: "fetch_compiled_module base_store i = (if i = base_id then Some (bare_module 6 ''base'' []) else None)"
  by (cases i) (auto simp: fetch_compiled_module_def base_store_def)

theorem collect_modules_ordered_witness:
  "\<exists>ms. collect_modules 2 base_store (bare_module 5 ''user'' [base_id]) = Some (ms @ [bare_module 5 ''user'' [base_id]])
    \<and> dependency_order (fetch_compiled_module base_store) (ms @ [bare_module 5 ''user'' [base_id]])"
proof -
  have "ranked (fetch_compiled_module base_store) (\<lambda>i. if i = base_id then 0 else 1)"
    by (auto simp: ranked_def fetch_base fetched_deps_def self_id_def bare_module_def)
  from collect_modules_ordered [OF this, of "bare_module 5 ''user'' [base_id]" 1 1] show ?thesis
    by (auto simp: fetched_deps_def fetch_base self_id_def bare_module_def numeral_2_eq_2)
qed

definition loop_env :: FunctionEnv where
  "loop_env = \<lparr>fe_is_native = False, fe_has_jump_tables = False, fe_def_idx = 0, fe_name = ''spin'',
     fe_code = [SLLoad 0 (SLConstBool False), SLLabel 7, SLLoad 0 (SLConstBool True), SLBranch 7 8 0, SLLabel 8, SLRet []],
     fe_local_types = [SLTyBool]\<rparr>"

theorem get_def_bytecode_reaches_witness:
  "get_def_bytecode (function_info loop_env) 0 3 = Some (SLLoad 0 (SLConstBool True))"
proof -
  have "def_sites (fe_code loop_env) 0 = set [0, 2]"
    by (auto simp: def_sites_def loop_env_def less_Suc_eq numeral_eq_Suc)
  moreover have "{i. (i = 0 \<or> i = 2) \<and> i < (3 :: nat)} = {0, 2}" by auto
  ultimately show ?thesis
    using get_def_bytecode_reaches [of 0 loop_env 3] by (simp add: loop_env_def Let_def)
qed

end
