(* ===== verification/Unused_Code.thy ===== *)
theory Unused_Code
  imports Stackless
begin

text \<open>
  \<open>movy-static-analysis/src/sui\<close>: constants, functions and types that are defined and never used
  (\<open>unused_const.rs\<close>, \<open>unused_private_fun.rs\<close>, \<open>unused_struct.rs\<close>) and the entry \<open>run_all\<close> of
  \<open>mod.rs\<close>. A \<open>BTreeSet\<close> is an ascending list. The texts of addresses and module identifiers are
  parameters.
\<close>

section \<open>Packages and code\<close>

definition target_package ::
  "StoreInfo \<Rightarrow> 'o CodeStore \<Rightarrow> MoveAddress \<Rightarrow> (MovePackageAbi \<times> (string \<Rightarrow> CompiledModule option)) option res" where
  "target_package info env pkg =
     (case store_get_object env pkg of
        None \<Rightarrow> Inr None
      | Some object \<Rightarrow>
          (case get_package_info info pkg of
             Inl e \<Rightarrow> Inl (Err e)
           | Inr None \<Rightarrow> Inr None
           | Inr (Some package_meta) \<Rightarrow>
               Inr (map_option (Pair package_meta) (deserialize_module_by_str env object))))"

definition module_names :: "MovePackageAbi \<Rightarrow> string list" where
  "module_names package_meta = map (mod_name \<circ> abi_module_id) (modules package_meta)"

definition loaded :: "(string \<Rightarrow> CompiledModule option) \<Rightarrow> string list \<Rightarrow> (string \<times> CompiledModule) list" where
  "loaded package names = List.map_filter (\<lambda>n. map_option (Pair n) (package n)) names"

definition module_code :: "CompiledModule \<Rightarrow> Bytecode list" where
  "module_code m = concat (map (\<lambda>f. case fd_code f of Some code \<Rightarrow> code | None \<Rightarrow> []) (cm_function_defs m))"

text \<open>\<open>visited[i] = true\<close> panics beyond the end.\<close>

definition mark :: "bool list \<Rightarrow> nat \<Rightarrow> bool list res" where
  "mark visited i = (if i < length visited then Inr (visited[i := True]) else Inl (Panic ''index out of bounds''))"

definition unmarked :: "bool list \<Rightarrow> nat list" where
  "unmarked visited = filter (\<lambda>i. \<not> visited ! i) [0..<length visited]"

definition package_finding ::
  "(MoveAddress \<Rightarrow> string) \<Rightarrow> string \<Rightarrow> MoveAddress \<Rightarrow> (string \<times> ('own, 'ty) Json) list \<Rightarrow> string \<Rightarrow> ('own, 'ty) OracleFinding" where
  "package_finding print name pkg details msg =
     \<lparr>finding_oracle = name, severity = Informational,
      extra = JObject ([(''package'', JString (print pkg))] @ details @ [(''message'', JString msg)])\<rparr>"

section \<open>Constants\<close>

definition mark_constant :: "bool list \<Rightarrow> Bytecode \<Rightarrow> bool list res" where
  "mark_constant visited b = (case b of BcLdConst i \<Rightarrow> mark visited (unat i) | _ \<Rightarrow> Inr visited)"

definition visited_constants :: "CompiledModule \<Rightarrow> bool list res" where
  "visited_constants m = foldR mark_constant (replicate (length (constant_pool m)) False) (module_code m)"

definition unused_constants :: "CompiledModule \<Rightarrow> string list res" where
  "unused_constants m =
     bindR (visited_constants m) (\<lambda>visited.
     mapR (\<lambda>i. case constant_pool m ! i of
         Some text \<Rightarrow> Inr text
       | None \<Rightarrow> Inl (Err (Other ''failed to deserialize constant''))) (unmarked visited))"

definition analyze_unused_const ::
  "(MoveAddress \<Rightarrow> string) \<Rightarrow> StoreInfo \<Rightarrow> 'o CodeStore \<Rightarrow> MoveAddress list \<Rightarrow> ('own, 'ty) OracleFinding list res" where
  "analyze_unused_const print info env target_packages =
     foldR (\<lambda>reports pkg. bindR (target_package info env pkg) (\<lambda>p. case p of
         None \<Rightarrow> Inr reports
       | Some (package_meta, package) \<Rightarrow>
           foldR (\<lambda>reports (n, m). bindR (unused_constants m) (\<lambda>unused.
               Inr (if unused = [] then reports
                    else reports @ [package_finding print ''StaticUnusedConstant'' pkg
                      [(''module'', JString n), (''unused_constants'', JArray (map JString unused))]
                      ''Constants are defined but never referenced''])))
             reports (loaded package (module_names package_meta)))) [] target_packages"

section \<open>Functions\<close>

type_synonym function_key = "(MoveAddress \<times> string) \<times> string"

definition handle_key :: "CompiledModule \<Rightarrow> FunctionHandle \<Rightarrow> function_key" where
  "handle_key m h =
     (let mh = module_handle_at m (fh_module h) in
      ((address_identifier_at m (mh_address mh), identifier_at m (mh_name mh)), identifier_at m (fh_name h)))"

definition def_key :: "CompiledModule \<Rightarrow> FunctionDefinition \<Rightarrow> function_key" where
  "def_key m f = ((cm_address m, cm_name m), identifier_at m (fh_name (function_handle_at m (fd_function f))))"

definition callee_key :: "CompiledModule \<Rightarrow> Bytecode \<Rightarrow> function_key option" where
  "callee_key m b = (case b of
     BcCall i \<Rightarrow> Some (handle_key m (function_handle_at m i))
   | BcCallGeneric i \<Rightarrow> Some (handle_key m (function_handle_at m (fi_handle (function_instantiation_at m i))))
   | _ \<Rightarrow> None)"

definition friend_functions :: "CompiledModule \<Rightarrow> function_key list" where
  "friend_functions m = map (def_key m) (filter (\<lambda>f. fd_visibility f = VisFriend \<and> \<not> fd_is_entry f) (cm_function_defs m))"

definition private_functions :: "CompiledModule \<Rightarrow> function_key list" where
  "private_functions m = map (def_key m) (filter (\<lambda>f. fd_visibility f = VisPrivate \<and> snd (def_key m f) \<noteq> ''init'' \<and> \<not> fd_is_entry f)
     (cm_function_defs m))"

definition remove_callee ::
  "CompiledModule \<Rightarrow> function_key list \<times> function_key list \<Rightarrow> Bytecode \<Rightarrow> function_key list \<times> function_key list" where
  "remove_callee m acc b = (case callee_key m b of
     Some k \<Rightarrow> (removeAll k (fst acc), removeAll k (snd acc)) | None \<Rightarrow> acc)"

definition unused_private :: "CompiledModule \<Rightarrow> function_key list \<Rightarrow> function_key list \<times> function_key list" where
  "unused_private m unused_friend = foldl (remove_callee m) (sort_dedup (private_functions m), unused_friend) (module_code m)"

definition unused_functions :: "CompiledModule list \<Rightarrow> function_key list list \<times> function_key list" where
  "unused_functions ms =
     foldl (\<lambda>(privates, unused_friend) m. case unused_private m unused_friend of (p, fr) \<Rightarrow> (privates @ [p], fr))
       ([], sort_dedup (concat (map friend_functions ms))) ms"

definition analyze_unused_private_fun ::
  "(MoveAddress \<Rightarrow> string) \<Rightarrow> (MoveAddress \<times> string \<Rightarrow> string) \<Rightarrow> StoreInfo \<Rightarrow> 'o CodeStore \<Rightarrow> MoveAddress list
     \<Rightarrow> ('own, 'ty) OracleFinding list res" where
  "analyze_unused_private_fun print print_id info env target_packages =
     foldR (\<lambda>reports pkg. bindR (target_package info env pkg) (\<lambda>p. case p of
         None \<Rightarrow> Inr reports
       | Some (package_meta, package) \<Rightarrow>
           (let ms = loaded package (module_names package_meta);
                text = (\<lambda>ks. JArray (map (\<lambda>(i, f). JString (print_id i @ ''::'' @ f)) ks)) in
            case unused_functions (map snd ms) of (privates, friends) \<Rightarrow>
            Inr (reports
              @ concat (map (\<lambda>((n, _), unused). if unused = [] then [] else
                  [package_finding print ''StaticUnusedPrivateFunction'' pkg
                     [(''module'', JString n), (''functions'', text unused)] ''Private functions are never invoked'']) (zip ms privates))
              @ (if friends = [] then [] else
                  [package_finding print ''StaticUnusedFriendFunction'' pkg
                     [(''functions'', text friends)] ''Friend functions are never invoked'']))))) [] target_packages"

section \<open>Structures and enumerations\<close>

type_synonym visited_types = "bool list \<times> bool list"

definition mark_parameter :: "CompiledModule \<Rightarrow> visited_types \<Rightarrow> SignatureToken \<Rightarrow> visited_types res" where
  "mark_parameter m acc sig = (case sig of
     SigDatatype idx \<Rightarrow>
       (case position_of (\<lambda>s. sd_struct_handle s = idx) (cm_struct_defs m) of
          Some sid \<Rightarrow> bindR (mark (fst acc) sid) (\<lambda>v. Inr (v, snd acc))
        | None \<Rightarrow> Inr acc)
   | _ \<Rightarrow> Inr acc)"

definition mark_packed :: "CompiledModule \<Rightarrow> visited_types \<Rightarrow> Bytecode \<Rightarrow> visited_types res" where
  "mark_packed m acc b = (case b of
     BcPackOp BPack idx \<Rightarrow> bindR (mark (fst acc) (unat idx)) (\<lambda>v. Inr (v, snd acc))
   | BcPackOp BPackGeneric idx \<Rightarrow> bindR (mark (fst acc) (unat (struct_instantiation_def m idx))) (\<lambda>v. Inr (v, snd acc))
   | BcPackOp BPackVariant idx \<Rightarrow> bindR (mark (snd acc) (unat (variant_handle_enum m idx))) (\<lambda>v. Inr (fst acc, v))
   | BcPackOp BPackVariantGeneric idx \<Rightarrow> bindR (mark (snd acc) (unat (variant_instantiation_enum m idx))) (\<lambda>v. Inr (fst acc, v))
   | _ \<Rightarrow> Inr acc)"

definition mark_function :: "CompiledModule \<Rightarrow> visited_types \<Rightarrow> FunctionDefinition \<Rightarrow> visited_types res" where
  "mark_function m acc f =
     bindR (foldR (mark_parameter m) acc (signature_at m (fh_parameters (function_handle_at m (fd_function f))))) (\<lambda>acc.
     foldR (mark_packed m) acc (case fd_code f of Some code \<Rightarrow> code | None \<Rightarrow> []))"

definition visited_types :: "CompiledModule \<Rightarrow> visited_types res" where
  "visited_types m =
     foldR (mark_function m) (replicate (length (cm_struct_defs m)) False, replicate (enum_defs_len m) False) (cm_function_defs m)"

definition analyze_unused_struct ::
  "(MoveAddress \<Rightarrow> string) \<Rightarrow> StoreInfo \<Rightarrow> 'o CodeStore \<Rightarrow> MoveAddress list \<Rightarrow> ('own, 'ty) OracleFinding list res" where
  "analyze_unused_struct print info env target_packages =
     foldR (\<lambda>reports pkg. bindR (target_package info env pkg) (\<lambda>p. case p of
         None \<Rightarrow> Inr reports
       | Some (package_meta, package) \<Rightarrow>
           foldR (\<lambda>reports (n, m). bindR (visited_types m) (\<lambda>(structs, enums).
               let report = (\<lambda>name field unused msg. if unused = [] then [] else
                     [package_finding print name pkg
                       [(''module'', JString n), (field, JArray (map (\<lambda>i. JNumber (of_nat i)) unused))] msg]) in
               Inr (reports
                 @ report ''StaticUnusedStruct'' ''struct_indices'' (unmarked structs) ''Structs are defined but never used''
                 @ report ''StaticUnusedEnum'' ''enum_indices'' (unmarked enums) ''Enums are defined but never used'')))
             reports (loaded package (module_names package_meta)))) [] target_packages"

section \<open>All analyses\<close>

definition run_all ::
  "nat \<Rightarrow> model_builder \<Rightarrow> label_table \<Rightarrow> (MoveAddress \<Rightarrow> string) \<Rightarrow> (MoveAddress \<times> string \<Rightarrow> string) \<Rightarrow> StoreInfo \<Rightarrow> 'o CodeStore
     \<Rightarrow> MoveAddress list \<Rightarrow> ('own, 'ty) OracleFinding list fuelled" where
  "run_all n build label_offsets print print_id info env target_packages =
     bindFR (load_target_modules n build info env target_packages) (\<lambda>ms.
     bindFR (Some (analyze_type_conversion print ms)) (\<lambda>conversions.
     bindFR (Some (analyze_unused_const print info env target_packages)) (\<lambda>constants.
     bindFR (Some (analyze_unused_private_fun print print_id info env target_packages)) (\<lambda>functions.
     bindFR (Some (analyze_unused_struct print info env target_packages)) (\<lambda>types.
     Some (Inr (analyze_bool_judgement print ms @ analyze_infinite_loop label_offsets print ms @ analyze_precision_loss print ms
       @ conversions @ analyze_unchecked_return print ms @ constants @ functions @ types)))))))"

section \<open>What is reported\<close>

definition callees :: "CompiledModule \<Rightarrow> function_key set" where
  "callees m = {k. \<exists>b \<in> set (module_code m). callee_key m b = Some k}"

lemma foldl_remove_callee:
  "set (fst (foldl (remove_callee m) acc bs)) = set (fst acc) - {k. \<exists>b \<in> set bs. callee_key m b = Some k}"
  "set (snd (foldl (remove_callee m) acc bs)) = set (snd acc) - {k. \<exists>b \<in> set bs. callee_key m b = Some k}"
  by (induction bs arbitrary: acc) (auto simp: remove_callee_def split: option.splits)

lemma unused_private_sets:
  "set (fst (unused_private m fr)) = set (private_functions m) - callees m"
  "set (snd (unused_private m fr)) = set fr - callees m"
  by (simp_all add: unused_private_def foldl_remove_callee callees_def)

lemma unused_functions_fold:
  "\<exists>ps fr'. foldl (\<lambda>(privates, unused_friend) m. case unused_private m unused_friend of (p, fr) \<Rightarrow> (privates @ [p], fr)) (ps0, fr) ms
     = (ps0 @ ps, fr') \<and> map set ps = map (\<lambda>m. set (private_functions m) - callees m) ms \<and> set fr' = set fr - (\<Union>m \<in> set ms. callees m)"
proof (induction ms arbitrary: ps0 fr)
  case (Cons m ms)
  obtain p fr1 where p: "unused_private m fr = (p, fr1)" by fastforce
  with unused_private_sets [of m fr] have "set p = set (private_functions m) - callees m" "set fr1 = set fr - callees m" by simp_all
  with p Cons.IH [of "ps0 @ [p]" fr1] show ?case by (auto intro: exI [of _ "p # _"])
qed simp

text \<open>
  The functions reported for a package. Of each module, the private functions that are neither \<open>init\<close>
  nor an entry and that no code of the module calls; of the package, the friend functions that are no
  entries and that no code of any of its modules calls.
\<close>

theorem unused_functions_exact:
  "map set (fst (unused_functions ms)) = map (\<lambda>m. set (private_functions m) - callees m) ms
   \<and> set (snd (unused_functions ms)) = (\<Union>m \<in> set ms. set (friend_functions m)) - (\<Union>m \<in> set ms. callees m)"
  using unused_functions_fold [of "[]" "sort_dedup (concat (map friend_functions ms))" ms]
  by (auto simp: unused_functions_def)

text \<open>One step of marking: an index of the structures, or one of the enumerations.\<close>

definition mark_item :: "visited_types \<Rightarrow> (nat + nat) option \<Rightarrow> visited_types res" where
  "mark_item acc it = (case it of
     None \<Rightarrow> Inr acc
   | Some (Inl i) \<Rightarrow> bindR (mark (fst acc) i) (\<lambda>v. Inr (v, snd acc))
   | Some (Inr i) \<Rightarrow> bindR (mark (snd acc) i) (\<lambda>v. Inr (fst acc, v)))"

definition parameter_item :: "CompiledModule \<Rightarrow> SignatureToken \<Rightarrow> (nat + nat) option" where
  "parameter_item m sig = (case sig of
     SigDatatype idx \<Rightarrow> map_option Inl (position_of (\<lambda>s. sd_struct_handle s = idx) (cm_struct_defs m)) | _ \<Rightarrow> None)"

definition packed_item :: "CompiledModule \<Rightarrow> Bytecode \<Rightarrow> (nat + nat) option" where
  "packed_item m b = (case b of
     BcPackOp BPack idx \<Rightarrow> Some (Inl (unat idx))
   | BcPackOp BPackGeneric idx \<Rightarrow> Some (Inl (unat (struct_instantiation_def m idx)))
   | BcPackOp BPackVariant idx \<Rightarrow> Some (Inr (unat (variant_handle_enum m idx)))
   | BcPackOp BPackVariantGeneric idx \<Rightarrow> Some (Inr (unat (variant_instantiation_enum m idx)))
   | _ \<Rightarrow> None)"

definition function_items :: "CompiledModule \<Rightarrow> FunctionDefinition \<Rightarrow> (nat + nat) option list" where
  "function_items m f = map (parameter_item m) (signature_at m (fh_parameters (function_handle_at m (fd_function f))))
     @ map (packed_item m) (case fd_code f of Some code \<Rightarrow> code | None \<Rightarrow> [])"

definition used_types :: "CompiledModule \<Rightarrow> (nat + nat) set" where
  "used_types m = {t. \<exists>f \<in> set (cm_function_defs m). Some t \<in> set (function_items m f)}"

lemma mark_parameter_item: "mark_parameter m acc sig = mark_item acc (parameter_item m sig)"
  by (cases sig) (simp_all add: mark_parameter_def mark_item_def parameter_item_def split: option.split)

lemma mark_packed_item: "mark_packed m acc b = mark_item acc (packed_item m b)"
  by (cases b) (simp_all add: mark_packed_def mark_item_def packed_item_def split: PackBc.split)

lemma foldR_map: "foldR f s (map g xs) = foldR (\<lambda>s x. f s (g x)) s xs"
proof (induction xs arbitrary: s)
  case (Cons x xs)
  then show ?case by (cases "f s (g x)") simp_all
qed simp

lemma foldR_concat: "foldR f s (concat xss) = foldR (foldR f) s xss"
proof (induction xss arbitrary: s)
  case (Cons xs xss)
  then show ?case by (cases "foldR f s xs") (simp_all add: foldR_append)
qed simp

lemma visited_types_items:
  "visited_types m = foldR mark_item (replicate (length (cm_struct_defs m)) False, replicate (enum_defs_len m) False)
     (concat (map (function_items m) (cm_function_defs m)))"
proof -
  have p: "mark_parameter m = (\<lambda>acc sig. mark_item acc (parameter_item m sig))" by (intro ext mark_parameter_item)
  have q: "mark_packed m = (\<lambda>acc b. mark_item acc (packed_item m b))" by (intro ext mark_packed_item)
  have "mark_function m = (\<lambda>acc f. foldR mark_item acc (function_items m f))"
    by (intro ext) (simp only: mark_function_def function_items_def foldR_append foldR_map p q)
  then show ?thesis by (simp add: visited_types_def foldR_concat foldR_map)
qed

fun in_range :: "nat \<Rightarrow> nat \<Rightarrow> (nat + nat) option \<Rightarrow> bool" where
  "in_range a b (Some (Inl i)) = (i < a)"
| "in_range a b (Some (Inr i)) = (i < b)"
| "in_range a b None = True"

lemma mark_item_Inr:
  "mark_item (s, e) it = Inr (s', e') \<longleftrightarrow> in_range (length s) (length e) it
     \<and> s' = (case it of Some (Inl i) \<Rightarrow> s[i := True] | _ \<Rightarrow> s) \<and> e' = (case it of Some (Inr i) \<Rightarrow> e[i := True] | _ \<Rightarrow> e)"
  by (auto simp: mark_item_def mark_def split: option.splits sum.splits)

lemma mark_items:
  "foldR mark_item (s, e) its = Inr (s', e') \<longleftrightarrow> (\<forall>it \<in> set its. in_range (length s) (length e) it)
     \<and> s' = map (\<lambda>i. s ! i \<or> Some (Inl i) \<in> set its) [0..<length s]
     \<and> e' = map (\<lambda>i. e ! i \<or> Some (Inr i) \<in> set its) [0..<length e]"
proof (induction its arbitrary: s e)
  case Nil
  show ?case by (auto simp: map_nth)
next
  case (Cons it its)
  show ?case
  proof (cases "in_range (length s) (length e) it")
    case True
    define s1 where "s1 = (case it of Some (Inl i) \<Rightarrow> s[i := True] | _ \<Rightarrow> s)"
    define e1 where "e1 = (case it of Some (Inr i) \<Rightarrow> e[i := True] | _ \<Rightarrow> e)"
    have m: "mark_item (s, e) it = Inr (s1, e1)" using True by (simp add: mark_item_Inr s1_def e1_def)
    have l: "length s1 = length s" "length e1 = length e" by (simp_all add: s1_def e1_def split: option.split sum.split)
    have n: "map (\<lambda>i. s1 ! i \<or> Some (Inl i) \<in> set its) [0..<length s] = map (\<lambda>i. s ! i \<or> Some (Inl i) \<in> set (it # its)) [0..<length s]"
      "map (\<lambda>i. e1 ! i \<or> Some (Inr i) \<in> set its) [0..<length e] = map (\<lambda>i. e ! i \<or> Some (Inr i) \<in> set (it # its)) [0..<length e]"
      using True by (auto simp: s1_def e1_def nth_list_update split: option.splits sum.splits if_splits)
    have "foldR mark_item (s, e) (it # its) = foldR mark_item (s1, e1) its" using m by simp
    then show ?thesis using True by (simp only: Cons.IH l n) simp
  next
    case False
    then have "mark_item (s, e) it \<noteq> Inr x" for x using mark_item_Inr by (cases x) blast
    with False show ?thesis by (auto simp: bindR_eq_Inr)
  qed
qed

definition constant_item :: "Bytecode \<Rightarrow> (nat + nat) option" where
  "constant_item b = (case b of BcLdConst i \<Rightarrow> Some (Inl (unat i)) | _ \<Rightarrow> None)"

lemma mark_constant_item: "bindR (mark_constant v b) (\<lambda>v. Inr (v, [])) = mark_item (v, []) (constant_item b)"
  by (cases b) (simp_all add: mark_constant_def mark_item_def constant_item_def)

lemma mark_constants: "foldR mark_item (v, []) (map constant_item bs) = bindR (foldR mark_constant v bs) (\<lambda>v. Inr (v, []))"
proof (induction bs arbitrary: v)
  case (Cons b bs)
  then show ?case using mark_constant_item [of v b, symmetric] by (cases "mark_constant v b") simp_all
qed simp

definition used_constants :: "CompiledModule \<Rightarrow> nat set" where
  "used_constants m = {unat c |c. BcLdConst c \<in> set (module_code m)}"

text \<open>The indices of the module stay within its tables, as the bounds check of the Move verifier demands.\<close>

definition in_bounds :: "CompiledModule \<Rightarrow> bool" where
  "in_bounds m \<longleftrightarrow> used_constants m \<subseteq> {0..<length (constant_pool m)}
     \<and> used_types m \<subseteq> Inl ` {0..<length (cm_struct_defs m)} \<union> Inr ` {0..<enum_defs_len m}"

lemma constant_item_Some: "Some t \<in> constant_item ` set bs \<longleftrightarrow> (\<exists>c. BcLdConst c \<in> set bs \<and> t = Inl (unat c))"
  by (force simp: constant_item_def split: Bytecode.splits intro: rev_image_eqI)

lemma visited_constants_exact:
  assumes "in_bounds m"
  shows "visited_constants m = Inr (map (\<lambda>i. i \<in> used_constants m) [0..<length (constant_pool m)])"
proof -
  let ?n = "length (constant_pool m)" and ?its = "map constant_item (module_code m)"
  have "in_range ?n 0 it" if it: "it \<in> set ?its" for it
  proof (cases it)
    case (Some t)
    with it obtain c where "BcLdConst c \<in> set (module_code m)" "t = Inl (unat c)" using constant_item_Some [of t "module_code m"] by auto
    with assms Some show ?thesis by (auto simp: in_bounds_def used_constants_def)
  qed simp
  moreover have "Some (Inl i) \<in> set ?its \<longleftrightarrow> i \<in> used_constants m" for i
    using constant_item_Some [of "Inl i" "module_code m"] by (auto simp: used_constants_def)
  ultimately have "foldR mark_item (replicate ?n False, []) ?its = Inr (map (\<lambda>i. i \<in> used_constants m) [0..<?n], [])"
    by (simp add: mark_items)
  then show ?thesis by (auto simp: mark_constants visited_constants_def bindR_eq_Inr)
qed

lemma visited_types_exact:
  assumes "in_bounds m"
  shows "visited_types m = Inr (map (\<lambda>i. Inl i \<in> used_types m) [0..<length (cm_struct_defs m)], map (\<lambda>i. Inr i \<in> used_types m) [0..<enum_defs_len m])"
proof -
  let ?its = "concat (map (function_items m) (cm_function_defs m))"
  have u: "Some t \<in> set ?its \<longleftrightarrow> t \<in> used_types m" for t by (auto simp: used_types_def)
  have "in_range (length (cm_struct_defs m)) (enum_defs_len m) it" if "it \<in> set ?its" for it
  proof (cases it)
    case (Some t)
    with that u have "t \<in> used_types m" by blast
    with assms Some show ?thesis by (cases t) (auto simp: in_bounds_def)
  qed simp
  then show ?thesis unfolding visited_types_items mark_items by (auto simp: used_types_def)
qed

text \<open>
  For a module whose indices stay within its tables, the constants reported are those that no
  instruction loads, and the structures and enumerations reported are those that no function takes by
  value and no instruction packs. Nothing panics, and the only error is a constant that cannot be read.
\<close>

theorem unused_data_exact:
  assumes "in_bounds m"
  shows "unused_constants m = mapR (\<lambda>i. case constant_pool m ! i of
         Some text \<Rightarrow> Inr text
       | None \<Rightarrow> Inl (Err (Other ''failed to deserialize constant''))) (filter (\<lambda>i. i \<notin> used_constants m) [0..<length (constant_pool m)])
    \<and> (\<exists>structs enums. visited_types m = Inr (structs, enums)
        \<and> unmarked structs = filter (\<lambda>i. Inl i \<notin> used_types m) [0..<length (cm_struct_defs m)]
        \<and> unmarked enums = filter (\<lambda>i. Inr i \<notin> used_types m) [0..<enum_defs_len m])"
proof -
  have u: "unmarked (map P [0..<n]) = filter (\<lambda>i. \<not> P i) [0..<n]" for P n
    by (auto simp: unmarked_def intro!: filter_cong)
  show ?thesis using assms by (simp add: unused_constants_def visited_constants_exact visited_types_exact u)
qed

definition const_module :: CompiledModule where
  "const_module = (bare_module 5 ''m'' [])\<lparr>constant_pool := [Some ''1u64'', Some ''2u64''],
     cm_function_defs := [\<lparr>fd_function = 0, fd_visibility = VisPublic, fd_is_entry = False, fd_code = Some [BcLdConst 1, BcRet]\<rparr>]\<rparr>"

theorem unused_data_exact_witness: "unused_constants const_module = Inr [''1u64'']"
proof -
  have u: "used_constants const_module = {1}"
    by (auto simp: used_constants_def module_code_def const_module_def)
  have "used_types const_module = {}"
    by (auto simp: used_types_def const_module_def bare_module_def function_items_def packed_item_def)
  with u have "in_bounds const_module" by (simp add: in_bounds_def const_module_def)
  moreover have "filter (\<lambda>i. i \<notin> used_constants const_module) [0..<length (constant_pool const_module)] = [0]"
    unfolding u by (simp add: const_module_def upt_conv_Cons)
  ultimately show ?thesis using unused_data_exact [of const_module] by (simp add: const_module_def)
qed

end
