(* ===== verification/Call_Graph.thy ===== *)
theory Call_Graph
  imports Move_Abi
begin

text \<open>
  \<open>movy-types/src/bytecode.rs\<close>, the calls that the functions of a compiled module make, and
  \<open>movy-analysis/src/call_graph.rs\<close>, the graph built from them. A graph of \<open>petgraph\<close> is the list of its
  nodes, whose positions are the node indices, and the list of its edges. The lookup of a function
  definition by name, a method of the binary format, is the parameter \<open>find_def\<close>.
\<close>

section \<open>Calls of a module\<close>

record MoveFunctionCall =
  call_target_module :: MoveModuleId
  call_abi :: MoveFunctionAbi
  call_tys :: "MoveAbiSignatureToken list"

record MoveModuleBytecodeAnalysis =
  analysis_abi :: MoveModuleAbi
  analysis_calls :: "(MoveFunctionAbi \<times> MoveFunctionCall list) list"

type_synonym def_lookup = "CompiledModule \<Rightarrow> string \<Rightarrow> FunctionDefinition option"

definition MoveModuleId_from_module_handle :: "ModuleHandle \<Rightarrow> CompiledModule \<Rightarrow> MoveModuleId" where
  "MoveModuleId_from_module_handle handle module =
     \<lparr>module_address = address_identifier_at module (mh_address handle), mod_name = identifier_at module (mh_name handle)\<rparr>"

definition handle_fcall :: "def_lookup \<Rightarrow> FunctionHandle \<Rightarrow> CompiledModule \<Rightarrow> MoveFunctionAbi res" where
  "handle_fcall find_def fcall module =
     (let fcall_function = identifier_at module (fh_name fcall);
          fcall_module = module_handle_at module (fh_module fcall);
          by_handle = from_module_function_handle_visibility fcall module Public in
      if identifier_at module (mh_name fcall_module) = cm_name module
         \<and> address_identifier_at module (mh_address fcall_module) = cm_address module
      then (case find_def module fcall_function of
              Some fdef \<Rightarrow> function_from_module_def fdef module
            | None \<Rightarrow> by_handle)
      else by_handle)"

definition bytecode_call ::
  "def_lookup \<Rightarrow> MoveFunctionAbi \<Rightarrow> CompiledModule \<Rightarrow> Bytecode \<Rightarrow> MoveFunctionCall option res" where
  "bytecode_call find_def caller module b =
     (let target = (\<lambda>fcall. MoveModuleId_from_module_handle (module_handle_at module (fh_module fcall)) module) in
      case b of
        BcCall i \<Rightarrow>
          (let fcall = function_handle_at module i in
           bindR (handle_fcall find_def fcall module) (\<lambda>abi.
           Inr (Some \<lparr>call_target_module = target fcall, call_abi = abi, call_tys = []\<rparr>)))
      | BcCallGeneric i \<Rightarrow>
          (let inst = function_instantiation_at module i; fcall = function_handle_at module (fi_handle inst) in
           bindR (handle_fcall find_def fcall module) (\<lambda>abi.
           bindR (mapR (\<lambda>v. from_sui_token_module v (fn_type_parameters caller) module)
                   (signature_at module (fi_type_parameters inst))) (\<lambda>ts.
           Inr (Some \<lparr>call_target_module = target fcall, call_abi = abi, call_tys = ts\<rparr>))))
      | _ \<Rightarrow> Inr None)"

definition function_calls ::
  "def_lookup \<Rightarrow> CompiledModule \<Rightarrow> FunctionDefinition \<Rightarrow> (MoveFunctionAbi \<times> MoveFunctionCall list) res" where
  "function_calls find_def module func =
     bindR (function_from_module_def func module) (\<lambda>caller.
     bindR (mapR (bytecode_call find_def caller module) (case fd_code func of Some code \<Rightarrow> code | None \<Rightarrow> [])) (\<lambda>cs.
     Inr (caller, List.map_filter (\<lambda>c. c) cs)))"

definition analysis_from_sui_module :: "def_lookup \<Rightarrow> CompiledModule \<Rightarrow> MoveModuleBytecodeAnalysis res" where
  "analysis_from_sui_module find_def module =
     bindR (from_sui_module module) (\<lambda>abi.
     bindR (mapR (function_calls find_def module) (cm_function_defs module)) (\<lambda>cs.
     Inr \<lparr>analysis_abi = abi, analysis_calls = cs\<rparr>))"

section \<open>The graph\<close>

record MoveCallGraphNode =
  node_module_id :: MoveModuleId
  node_function :: string

record MoveCallGraph =
  cg_nodes :: "MoveCallGraphNode list"
  cg_edges :: "(nat \<times> nat \<times> MoveAbiSignatureToken list) list"
  cg_functions :: "MoveCallGraphNode \<rightharpoonup> nat"
  cg_modules :: "MoveModuleId set"

definition MoveCallGraph_new :: MoveCallGraph where
  "MoveCallGraph_new = \<lparr>cg_nodes = [], cg_edges = [], cg_functions = Map.empty, cg_modules = {}\<rparr>"

definition may_add_function :: "MoveCallGraphNode \<Rightarrow> MoveCallGraph \<Rightarrow> nat \<times> MoveCallGraph" where
  "may_add_function fcall self =
     (case cg_functions self fcall of
        Some idx \<Rightarrow> (idx, self)
      | None \<Rightarrow>
          (let idx = length (cg_nodes self) in
           (idx, self\<lparr>cg_nodes := cg_nodes self @ [fcall], cg_functions := (cg_functions self)(fcall \<mapsto> idx)\<rparr>)))"

definition add_call :: "nat \<Rightarrow> MoveCallGraph \<Rightarrow> MoveFunctionCall \<Rightarrow> MoveCallGraph" where
  "add_call src self c =
     (case may_add_function \<lparr>node_module_id = call_target_module c, node_function = fn_name (call_abi c)\<rparr> self of (dst, self) \<Rightarrow>
      self\<lparr>cg_edges := cg_edges self @ [(src, dst, call_tys c)]\<rparr>)"

text \<open>\<open>unique\<close> of the iterator library keeps the first of equal elements.\<close>

definition unique :: "'a list \<Rightarrow> 'a list" where
  "unique xs = rev (remdups (rev xs))"

definition add_caller_calls ::
  "MoveModuleId \<Rightarrow> MoveCallGraph \<Rightarrow> MoveFunctionAbi \<times> MoveFunctionCall list \<Rightarrow> MoveCallGraph" where
  "add_caller_calls m self p = (case p of (caller, cs) \<Rightarrow>
     case may_add_function \<lparr>node_module_id = m, node_function = fn_name caller\<rparr> self of (src, self) \<Rightarrow>
     foldl (add_call src) self (unique cs))"

definition add_bytecode_analysis :: "MoveModuleBytecodeAnalysis \<Rightarrow> MoveCallGraph \<Rightarrow> MoveCallGraph" where
  "add_bytecode_analysis result self =
     (let m = abi_module_id (analysis_abi result) in
      if m \<in> cg_modules self then self
      else foldl (add_caller_calls m) (self\<lparr>cg_modules := insert m (cg_modules self)\<rparr>) (analysis_calls result))"

section \<open>The graph is the calls\<close>

definition graph_ok :: "MoveCallGraph \<Rightarrow> bool" where
  "graph_ok g \<longleftrightarrow> (\<forall>f i. cg_functions g f = Some i \<longleftrightarrow> i < length (cg_nodes g) \<and> cg_nodes g ! i = f)
     \<and> (\<forall>(s, d, _) \<in> set (cg_edges g). s < length (cg_nodes g) \<and> d < length (cg_nodes g))"

definition graph_calls :: "MoveCallGraph \<Rightarrow> (MoveCallGraphNode \<times> MoveCallGraphNode \<times> MoveAbiSignatureToken list) set" where
  "graph_calls g = (\<lambda>(s, d, ts). (cg_nodes g ! s, cg_nodes g ! d, ts)) ` set (cg_edges g)"

text \<open>The graph \<open>g\<close> becomes \<open>g'\<close> by more nodes and the calls \<open>E\<close>.\<close>

definition graph_extends :: "MoveCallGraph \<Rightarrow> MoveCallGraph \<Rightarrow> MoveCallGraphNode set
     \<Rightarrow> (MoveCallGraphNode \<times> MoveCallGraphNode \<times> MoveAbiSignatureToken list) set \<Rightarrow> bool" where
  "graph_extends g g' N E \<longleftrightarrow> graph_ok g' \<and> (\<exists>ns. cg_nodes g' = cg_nodes g @ ns) \<and> set (cg_nodes g') = set (cg_nodes g) \<union> N
     \<and> graph_calls g' = graph_calls g \<union> E \<and> cg_modules g' = cg_modules g"

lemma graph_extends_refl: "graph_ok g \<Longrightarrow> graph_extends g g {} {}"
  by (simp add: graph_extends_def)

lemma graph_extends_trans: "graph_extends g g' N E \<Longrightarrow> graph_extends g' g'' N' E' \<Longrightarrow> graph_extends g g'' (N \<union> N') (E \<union> E')"
  by (auto simp: graph_extends_def)

lemma graph_ok_new [simp]: "graph_ok MoveCallGraph_new"
  by (simp add: graph_ok_def MoveCallGraph_new_def)

lemma graph_ok_node: "graph_ok g \<Longrightarrow> f \<in> set (cg_nodes g) \<longleftrightarrow> cg_functions g f \<noteq> None"
  unfolding graph_ok_def by (auto simp: in_set_conv_nth)

lemma may_add_extends:
  assumes "graph_ok g" "may_add_function f g = (i, g')"
  shows "graph_extends g g' {f} {}" "i < length (cg_nodes g')" "cg_nodes g' ! i = f"
proof -
  have fs: "cg_functions g f = Some j \<longleftrightarrow> j < length (cg_nodes g) \<and> cg_nodes g ! j = f" for f j
    using assms(1) by (simp add: graph_ok_def)
  have ed: "s < length (cg_nodes g)" "d < length (cg_nodes g)" if "(s, d, ts) \<in> set (cg_edges g)" for s d ts
    using assms(1) that by (auto simp: graph_ok_def)
  have "graph_extends g g' {f} {} \<and> i < length (cg_nodes g') \<and> cg_nodes g' ! i = f"
  proof (cases "cg_functions g f")
    case None
    then have "f \<notin> set (cg_nodes g)" using graph_ok_node [OF assms(1)] by simp
    then have new: "cg_nodes g ! j \<noteq> f" if "j < length (cg_nodes g)" for j using that nth_mem by metis
    have g': "g' = g\<lparr>cg_nodes := cg_nodes g @ [f], cg_functions := (cg_functions g)(f \<mapsto> length (cg_nodes g))\<rparr>" "i = length (cg_nodes g)"
      using None assms(2) by (auto simp: may_add_function_def Let_def)
    have "cg_functions g' h = Some j \<longleftrightarrow> j < length (cg_nodes g') \<and> cg_nodes g' ! j = h" for h j
      using fs [of h j] new [of j] by (auto simp: g' nth_append less_Suc_eq)
    moreover have "graph_calls g' = graph_calls g"
      unfolding graph_calls_def by (rule image_cong) (auto simp: g' nth_append dest: ed)
    ultimately show ?thesis using ed by (fastforce simp: g' graph_extends_def graph_ok_def)
  next
    case (Some j)
    with fs have "j < length (cg_nodes g)" "cg_nodes g ! j = f" by simp_all
    with Some assms show ?thesis by (auto simp: may_add_function_def graph_extends_def)
  qed
  then show "graph_extends g g' {f} {}" "i < length (cg_nodes g')" "cg_nodes g' ! i = f" by simp_all
qed

definition callee_node :: "MoveFunctionCall \<Rightarrow> MoveCallGraphNode" where
  "callee_node c = \<lparr>node_module_id = call_target_module c, node_function = fn_name (call_abi c)\<rparr>"

lemma add_call_extends:
  assumes "graph_ok g" "src < length (cg_nodes g)"
  shows "graph_extends g (add_call src g c) {callee_node c} {(cg_nodes g ! src, callee_node c, call_tys c)}"
proof -
  obtain dst g' where m: "may_add_function (callee_node c) g = (dst, g')" by fastforce
  note e = may_add_extends [OF assms(1) m]
  then have src: "src < length (cg_nodes g')" "cg_nodes g' ! src = cg_nodes g ! src"
    using assms(2) by (auto simp: graph_extends_def nth_append)
  have "graph_ok g'" using e(1) by (simp add: graph_extends_def)
  then have "graph_ok (add_call src g c)" "graph_calls (add_call src g c) = insert (cg_nodes g ! src, callee_node c, call_tys c) (graph_calls g')"
    using m e(2,3) src by (auto simp: add_call_def callee_node_def graph_ok_def graph_calls_def)
  with e(1) m show ?thesis by (auto simp: graph_extends_def add_call_def callee_node_def)
qed

lemma add_calls_extends:
  "graph_ok g \<Longrightarrow> src < length (cg_nodes g) \<Longrightarrow>
     graph_extends g (foldl (add_call src) g cs) (callee_node ` set cs) ((\<lambda>c. (cg_nodes g ! src, callee_node c, call_tys c)) ` set cs)"
proof (induction cs arbitrary: g)
  case Nil
  then show ?case by (simp add: graph_extends_refl)
next
  case (Cons c cs)
  note e = add_call_extends [OF Cons.prems, of c]
  then have "graph_ok (add_call src g c)" "src < length (cg_nodes (add_call src g c))" "cg_nodes (add_call src g c) ! src = cg_nodes g ! src"
    using Cons.prems(2) by (auto simp: graph_extends_def nth_append)
  with graph_extends_trans [OF e Cons.IH] show ?case by (simp add: image_iff)
qed

lemma set_unique [simp]: "set (unique cs) = set cs"
  by (simp add: unique_def)

definition caller_node :: "MoveModuleId \<Rightarrow> MoveFunctionAbi \<Rightarrow> MoveCallGraphNode" where
  "caller_node m f = \<lparr>node_module_id = m, node_function = fn_name f\<rparr>"

definition calls_of :: "MoveModuleId \<Rightarrow> MoveFunctionAbi \<times> MoveFunctionCall list
     \<Rightarrow> (MoveCallGraphNode \<times> MoveCallGraphNode \<times> MoveAbiSignatureToken list) set" where
  "calls_of m p = (\<lambda>c. (caller_node m (fst p), callee_node c, call_tys c)) ` set (snd p)"

definition nodes_of :: "MoveModuleId \<Rightarrow> MoveFunctionAbi \<times> MoveFunctionCall list \<Rightarrow> MoveCallGraphNode set" where
  "nodes_of m p = insert (caller_node m (fst p)) (callee_node ` set (snd p))"

lemma add_caller_extends: "graph_ok g \<Longrightarrow> graph_extends g (add_caller_calls m g p) (nodes_of m p) (calls_of m p)"
proof -
  assume ok: "graph_ok g"
  obtain caller cs where p: "p = (caller, cs)" by (cases p)
  obtain src g' where m: "may_add_function (caller_node m caller) g = (src, g')" by fastforce
  note e = may_add_extends [OF ok m]
  then have "graph_ok g'" by (simp add: graph_extends_def)
  from graph_extends_trans [OF e(1) add_calls_extends [OF this e(2), of "unique cs"]] m e(3) show ?thesis
    by (simp add: add_caller_calls_def p calls_of_def nodes_of_def caller_node_def)
qed

lemma add_callers_extends:
  "graph_ok g \<Longrightarrow> graph_extends g (foldl (add_caller_calls m) g ps) (\<Union>p \<in> set ps. nodes_of m p) (\<Union>p \<in> set ps. calls_of m p)"
proof (induction ps arbitrary: g)
  case (Cons p ps)
  note e = add_caller_extends [OF Cons.prems, of m p]
  then have "graph_ok (add_caller_calls m g p)" by (simp add: graph_extends_def)
  from graph_extends_trans [OF e Cons.IH [OF this]] show ?case by simp
qed (simp add: graph_extends_refl)

text \<open>The analyses that count: the first of every module.\<close>

fun first_analyses :: "MoveModuleId set \<Rightarrow> MoveModuleBytecodeAnalysis list \<Rightarrow> MoveModuleBytecodeAnalysis list" where
  "first_analyses seen [] = []"
| "first_analyses seen (r # rs) = (let m = abi_module_id (analysis_abi r) in
     if m \<in> seen then first_analyses seen rs else r # first_analyses (insert m seen) rs)"

definition analysis_edges :: "MoveModuleBytecodeAnalysis \<Rightarrow> (MoveCallGraphNode \<times> MoveCallGraphNode \<times> MoveAbiSignatureToken list) set" where
  "analysis_edges r = (\<Union>p \<in> set (analysis_calls r). calls_of (abi_module_id (analysis_abi r)) p)"

definition analysis_nodes :: "MoveModuleBytecodeAnalysis \<Rightarrow> MoveCallGraphNode set" where
  "analysis_nodes r = (\<Union>p \<in> set (analysis_calls r). nodes_of (abi_module_id (analysis_abi r)) p)"

lemma add_analyses:
  "graph_ok g \<Longrightarrow> (let g' = foldl (\<lambda>g r. add_bytecode_analysis r g) g rs; rs' = first_analyses (cg_modules g) rs in
     graph_ok g' \<and> graph_calls g' = graph_calls g \<union> (\<Union>r \<in> set rs'. analysis_edges r)
       \<and> set (cg_nodes g') = set (cg_nodes g) \<union> (\<Union>r \<in> set rs'. analysis_nodes r))"
proof (induction rs arbitrary: g)
  case (Cons r rs)
  let ?m = "abi_module_id (analysis_abi r)"
  show ?case
  proof (cases "?m \<in> cg_modules g")
    case True
    with Cons.IH [OF Cons.prems] show ?thesis by (simp add: add_bytecode_analysis_def)
  next
    case False
    let ?g = "g\<lparr>cg_modules := insert ?m (cg_modules g)\<rparr>"
    have ok: "graph_ok ?g" using Cons.prems by (simp add: graph_ok_def)
    have c: "graph_calls ?g = graph_calls g" by (simp add: graph_calls_def)
    have e: "graph_extends ?g (add_bytecode_analysis r g) (analysis_nodes r) (analysis_edges r)"
      using add_callers_extends [OF ok, of ?m "analysis_calls r"] False
      by (simp add: add_bytecode_analysis_def analysis_nodes_def analysis_edges_def Let_def)
    then have "graph_ok (add_bytecode_analysis r g)" "cg_modules (add_bytecode_analysis r g) = insert ?m (cg_modules g)"
      by (simp_all add: graph_extends_def)
    with Cons.IH [of "add_bytecode_analysis r g"] False e c show ?thesis by (auto simp: graph_extends_def Let_def)
  qed
qed simp

definition call_graph :: "MoveModuleBytecodeAnalysis list \<Rightarrow> MoveCallGraph" where
  "call_graph rs = foldl (\<lambda>g r. add_bytecode_analysis r g) MoveCallGraph_new rs"

text \<open>
  The call graph of a list of module analyses, of which the first of every module counts. Every function
  has one node; the nodes are the functions of those modules and the functions they call; the edges are
  exactly their calls, with the type arguments of the call.
\<close>

theorem call_graph_exact:
  "distinct (cg_nodes (call_graph rs))
   \<and> set (cg_nodes (call_graph rs)) = (\<Union>r \<in> set (first_analyses {} rs). analysis_nodes r)
   \<and> graph_calls (call_graph rs) = (\<Union>r \<in> set (first_analyses {} rs). analysis_edges r)"
proof -
  have "graph_ok (call_graph rs)" and r: "graph_calls (call_graph rs) = (\<Union>r \<in> set (first_analyses {} rs). analysis_edges r)"
    "set (cg_nodes (call_graph rs)) = (\<Union>r \<in> set (first_analyses {} rs). analysis_nodes r)"
    using add_analyses [OF graph_ok_new, of rs] by (auto simp: call_graph_def graph_calls_def MoveCallGraph_new_def Let_def)
  then have "distinct (cg_nodes (call_graph rs))"
    unfolding graph_ok_def distinct_conv_nth by (metis option.inject)
  with r show ?thesis by simp
qed

end
