(* ===== verification/Compiled_Package.thy ===== *)
theory Compiled_Package
  imports Move_Abi
begin

text \<open>
  \<open>movy-sui/src/compile.rs\<close>: what a build of a Move package keeps of the artifacts of the compiler,
  how modules of unpublished dependencies are linked to the address of the root package, and the
  order of local dependencies. The compiler, the package loader and the file system are parameters:
  \<open>Artifacts\<close> is what a build returns. A module is its tables, because linking rewrites them; the
  accessors that the rest of the development reads are computed from the tables.
\<close>

section \<open>Tables of a module\<close>

record ModuleTables =
  module_handles :: "ModuleHandle list"
  address_identifiers :: "MoveAddress list"
  identifiers :: "string list"
  self_module_handle_idx :: u16
  function_handles :: "FunctionHandle list"
  publishable :: bool
  other_tables :: CompiledModule

definition self_handle :: "ModuleTables \<Rightarrow> ModuleHandle" where
  "self_handle m = module_handles m ! unat (self_module_handle_idx m)"

definition handle_address :: "ModuleTables \<Rightarrow> ModuleHandle \<Rightarrow> MoveAddress" where
  "handle_address m h = address_identifiers m ! unat (mh_address h)"

definition handle_name :: "ModuleTables \<Rightarrow> ModuleHandle \<Rightarrow> string" where
  "handle_name m h = identifiers m ! unat (mh_name h)"

definition module_id_for_handle :: "ModuleTables \<Rightarrow> ModuleHandle \<Rightarrow> MoveModuleId" where
  "module_id_for_handle m h = \<lparr>module_address = handle_address m h, mod_name = handle_name m h\<rparr>"

text \<open>\<open>address()\<close> and \<open>immediate_dependencies()\<close>: the handles other than the own one.\<close>

definition table_address :: "ModuleTables \<Rightarrow> MoveAddress" where
  "table_address m = handle_address m (self_handle m)"

definition dependency_ids :: "ModuleTables \<Rightarrow> MoveModuleId list" where
  "dependency_ids m = map (module_id_for_handle m) (filter (\<lambda>h. h \<noteq> self_handle m) (module_handles m))"

definition compiled_module :: "ModuleTables \<Rightarrow> CompiledModule" where
  "compiled_module m = (other_tables m)\<lparr>cm_address := table_address m, cm_name := handle_name m (self_handle m),
     identifier_at := \<lambda>i. identifiers m ! unat i, module_handle_at := \<lambda>i. module_handles m ! unat i,
     address_identifier_at := \<lambda>i. address_identifiers m ! unat i,
     function_handle_at := \<lambda>i. function_handles m ! unat i, immediate_dependencies := dependency_ids m\<rparr>"

text \<open>The indices of a well-formed module are in range of its tables.\<close>

definition tables_ok :: "ModuleTables \<Rightarrow> bool" where
  "tables_ok m \<longleftrightarrow> length (address_identifiers m) \<le> 65536 \<and> unat (self_module_handle_idx m) < length (module_handles m)
     \<and> (\<forall>h \<in> set (module_handles m). unat (mh_address h) < length (address_identifiers m)
          \<and> unat (mh_name h) < length (identifiers m))"

section \<open>Compiled packages\<close>

definition mock_module_address :: "MoveAddress \<Rightarrow> ModuleTables \<Rightarrow> ModuleTables" where
  "mock_module_address address m =
     (let idx = unat (mh_address (self_handle m)) in
      if idx < length (address_identifiers m)
      then m\<lparr>address_identifiers := (address_identifiers m)[idx := address]\<rparr> else m)"

record SuiCompiledPackage =
  package_id :: MoveAddress
  package_name :: string
  package_names :: "string list"
  package_modules :: "ModuleTables list"
  dependencies :: "MoveAddress list"
  published_dependencies :: "MoveAddress list"

definition into_deployment :: "SuiCompiledPackage \<Rightarrow> ModuleTables list \<times> MoveAddress list" where
  "into_deployment p = (package_modules p, dependencies p)"

definition package_abi :: "SuiCompiledPackage \<Rightarrow> MovePackageAbi res" where
  "package_abi p = from_sui_id_and_modules (package_id p) (map compiled_module (package_modules p))"

definition contains_nonzero_modules :: "SuiCompiledPackage \<Rightarrow> bool" where
  "contains_nonzero_modules p = list_ex (\<lambda>m. table_address m = 0) (package_modules p)"

definition all_same_address :: "SuiCompiledPackage \<Rightarrow> MoveAddress option" where
  "all_same_address p = (case map table_address (package_modules p) of
     [] \<Rightarrow> None
   | a # as \<Rightarrow> if list_all (\<lambda>b. b = a) as then Some a else None)"

definition contains_unit_test :: "ModuleTables \<Rightarrow> bool" where
  "contains_unit_test m = list_ex (\<lambda>fcall.
     let md = module_handles m ! unat (fh_module fcall) in
     handle_address m md = 1 \<and> handle_name m md = ''unit_test''
       \<and> identifiers m ! unat (fh_name fcall) = ''poison'') (function_handles m)"

definition test_modules :: "SuiCompiledPackage \<Rightarrow> ModuleTables list" where
  "test_modules p = filter contains_unit_test (package_modules p)"

definition contains_movy :: "ModuleTables \<Rightarrow> bool" where
  "contains_movy m = list_ex (\<lambda>fdef.
     let fname = identifiers m ! unat (fh_name (function_handles m ! unat (fd_function fdef))) in
     fname = MOVY_INIT \<or> starts_with fname MOVY_ORACLE) (cm_function_defs (other_tables m))"

definition mock_module :: "ModuleTables \<Rightarrow> ModuleTables" where
  "mock_module m = m\<lparr>publishable := True\<rparr>"

definition movy_mock :: "SuiCompiledPackage \<Rightarrow> SuiCompiledPackage" where
  "movy_mock p = p\<lparr>package_modules := map mock_module (package_modules p),
     dependencies := sort_dedup (dependencies p)\<rparr>"

section \<open>Builds\<close>

record BuildIsolation =
  install_dir :: "string option"
  extra_sources :: "string list"

record SuiBuildConfig =
  cfg_test_mode :: bool
  silence_warnings :: bool
  set_unpublished_deps_to_zero :: bool
  cfg_install_dir :: "string option"
  extra_source_files :: "string list"
  run_bytecode_verifier :: bool
  print_diags_to_stderr :: bool

definition sui_build_config :: "bool \<Rightarrow> BuildIsolation \<Rightarrow> SuiBuildConfig" where
  "sui_build_config test_mode isolation =
     \<lparr>cfg_test_mode = test_mode, silence_warnings = True, set_unpublished_deps_to_zero = True,
      cfg_install_dir = install_dir isolation, extra_source_files = extra_sources isolation,
      run_bytecode_verifier = False, print_diags_to_stderr = False\<rparr>"

record CompiledUnit =
  unit_address :: MoveAddress
  unit_address_name :: "string option"
  unit_module :: ModuleTables

record Artifacts =
  published_at :: "MoveAddress option"
  artifact_name :: string
  deps_compiled_units :: "(string \<times> CompiledUnit) list"
  root_compiled_units :: "CompiledUnit list"
  all_compiled_units :: "CompiledUnit list"
  published :: "(string \<times> MoveAddress) list"

text \<open>The compiler: a build, and the diagnostics that a failed build is rendered to.\<close>

datatype CompileFailure = DriverError string | ErrorDiagnostics string

record Compiler =
  build :: "SuiBuildConfig \<Rightarrow> string \<Rightarrow> MovyError + Artifacts"
  compile_with_driver :: "SuiBuildConfig \<Rightarrow> string \<Rightarrow> MovyError + (CompileFailure + unit)"
  trim :: "string \<Rightarrow> string"

fun failure_text :: "Compiler \<Rightarrow> CompileFailure \<Rightarrow> string" where
  "failure_text K (DriverError e) = e"
| "failure_text K (ErrorDiagnostics buf) = (if trim K buf = '''' then ''Compilation error'' else trim K buf)"

definition render_compilation_diagnostics ::
  "Compiler \<Rightarrow> string \<Rightarrow> bool \<Rightarrow> BuildIsolation \<Rightarrow> MovyError + string option" where
  "render_compilation_diagnostics K folder test_mode isolation =
     (case compile_with_driver K (sui_build_config test_mode isolation) folder of
        Inl e \<Rightarrow> Inl e
      | Inr (Inr _) \<Rightarrow> Inr None
      | Inr (Inl failure) \<Rightarrow>
          let rendered = failure_text K failure in
          Inr (if trim K rendered = '''' \<or> trim K rendered = ''Compilation error'' then None else Some rendered))"

definition build_package_resolved :: "Compiler \<Rightarrow> string \<Rightarrow> bool \<Rightarrow> BuildIsolation \<Rightarrow> Artifacts res" where
  "build_package_resolved K folder test_mode isolation =
     (case build K (sui_build_config test_mode isolation) folder of
        Inr package \<Rightarrow> Inr package
      | Inl err \<Rightarrow>
          (case render_compilation_diagnostics K folder test_mode isolation of
             Inr (Some rendered) \<Rightarrow> Inl (Err (Other rendered))
           | _ \<Rightarrow> Inl (Err err)))"

definition root_address :: "Artifacts \<Rightarrow> MoveAddress" where
  "root_address a = (case published_at a of Some address \<Rightarrow> address | None \<Rightarrow> 0)"

definition names_at_root :: "Artifacts \<Rightarrow> string list" where
  "names_at_root a = sort_dedup (artifact_name a
     # map fst (filter (\<lambda>(_, u). table_address (unit_module u) = root_address a) (deps_compiled_units a)))"

definition dep_addresses :: "Artifacts \<Rightarrow> (MoveAddress \<times> string option) list" where
  "dep_addresses a = filter (\<lambda>v. fst v \<noteq> 0)
     (map (\<lambda>(_, u). (table_address (unit_module u), unit_address_name u)) (deps_compiled_units a))"

definition is_dep :: "(MoveAddress \<times> string option) list \<Rightarrow> CompiledUnit \<Rightarrow> bool" where
  "is_dep deps u = list_ex (\<lambda>(addr, name). addr = table_address (unit_module u)
     \<or> (case unit_address_name u of None \<Rightarrow> False
        | Some n \<Rightarrow> (case name of None \<Rightarrow> False | Some n' \<Rightarrow> n' = n))) deps"

definition selected_modules :: "bool \<Rightarrow> bool \<Rightarrow> Artifacts \<Rightarrow> ModuleTables list" where
  "selected_modules test_mode with_unpublished a =
     (if with_unpublished
      then map unit_module (filter (\<lambda>u. root_address a = unit_address u \<or> unit_address u = 0) (all_compiled_units a))
      else map unit_module (filter (\<lambda>u. if test_mode then \<not> is_dep (dep_addresses a) u else True)
             (root_compiled_units a)))"

section \<open>Linking\<close>

text \<open>One handle of the original table, with its index; \<open>address.0 = t as _\<close> keeps 16 bits.\<close>

definition link_handle :: "MoveAddress \<Rightarrow> ModuleTables \<Rightarrow> nat \<times> ModuleHandle \<Rightarrow> ModuleTables res" where
  "link_handle root m x = (case x of (hd_idx, handle) \<Rightarrow>
     bindR (indexR (identifiers m) (unat (mh_name handle))) (\<lambda>_.
     bindR (unwrapR ''called `Option::unwrap()` on a `None` value''
         (if unat (mh_address handle) < length (address_identifiers m) then Some (handle_address m handle) else None)) (\<lambda>addr.
       if addr = 0 \<and> root \<noteq> 0 then
         (case position_of (\<lambda>t. t = root) (address_identifiers m) of
            Some t \<Rightarrow> bindR (indexR (module_handles m) hd_idx) (\<lambda>h.
              Inr (m\<lparr>module_handles := (module_handles m)[hd_idx := h\<lparr>mh_address := as_u16 t\<rparr>]\<rparr>))
          | None \<Rightarrow> Inr (m\<lparr>address_identifiers := (address_identifiers m)[unat (mh_address handle) := root]\<rparr>))
       else Inr m)))"

definition link_module :: "MoveAddress \<Rightarrow> ModuleTables \<Rightarrow> ModuleTables res" where
  "link_module root m = foldR (link_handle root) m (enumerate 0 (module_handles m))"

definition link_modules :: "MoveAddress \<Rightarrow> ModuleTables list \<Rightarrow> ModuleTables list res" where
  "link_modules root ms = bindR (mapR (link_module root) ms) (\<lambda>ms. Inr (map (mock_module_address root) ms))"

definition depends_on_zero :: "ModuleTables list \<Rightarrow> bool" where
  "depends_on_zero ms = list_ex (\<lambda>m. list_ex (\<lambda>d. module_address d = 0) (dependency_ids m)) ms"

definition finish_package :: "Artifacts \<Rightarrow> ModuleTables list \<Rightarrow> SuiCompiledPackage res" where
  "finish_package a ms =
     (if ms = [] then Inl (Err (Other ''compiling yields 0 modules''))
      else Inr \<lparr>package_id = root_address a, package_name = artifact_name a, package_names = names_at_root a,
        package_modules = ms,
        dependencies = sort_dedup (filter (\<lambda>t. t \<noteq> 0 \<and> t \<noteq> root_address a) (map snd (published a))),
        published_dependencies = map snd (published a)\<rparr>)"

definition build_checked ::
  "Compiler \<Rightarrow> string \<Rightarrow> bool \<Rightarrow> bool \<Rightarrow> bool \<Rightarrow> BuildIsolation \<Rightarrow> SuiCompiledPackage res" where
  "build_checked K folder test_mode with_unpublished verify_deps isolation =
     bindR (build_package_resolved K folder test_mode isolation) (\<lambda>a.
     if verify_deps \<and> \<not> with_unpublished
        \<and> list_ex (\<lambda>(_, u). unit_address u = 0) (deps_compiled_units a)
     then Inl (Err (Other ''dependency does not have a published address''))
     else
       bindR (if with_unpublished then link_modules (root_address a) (selected_modules test_mode with_unpublished a)
              else Inr (selected_modules test_mode with_unpublished a)) (\<lambda>ms.
       if verify_deps \<and> root_address a \<noteq> 0 \<and> depends_on_zero ms
       then Inl (Err (Other ''module still has 0x0 immediate dependency''))
       else finish_package a ms))"

definition build_all_unpublished_from_folder :: "Compiler \<Rightarrow> string \<Rightarrow> bool \<Rightarrow> BuildIsolation \<Rightarrow> SuiCompiledPackage res" where
  "build_all_unpublished_from_folder K folder test_mode isolation = build_checked K folder test_mode True True isolation"

section \<open>Local dependencies\<close>

record LocalPackage =
  original_id :: "MoveAddress option"
  local_path :: string

text \<open>\<open>sorted_packages\<close> of a folder, \<open>canonicalize\<close> and \<open>is_system_package\<close>.\<close>

record PackageLoader =
  sorted_packages :: "string \<Rightarrow> LocalPackage list res"
  canonicalize :: "string \<Rightarrow> string res"
  is_system_package :: "MoveAddress \<Rightarrow> bool"

definition is_system :: "PackageLoader \<Rightarrow> LocalPackage \<Rightarrow> bool" where
  "is_system L p = (case original_id p of None \<Rightarrow> False | Some i \<Rightarrow> is_system_package L i)"

definition add_path :: "PackageLoader \<Rightarrow> string list \<Rightarrow> LocalPackage \<Rightarrow> string list res" where
  "add_path L ordered p =
     (if is_system L p then Inr ordered
      else bindR (canonicalize L (local_path p)) (\<lambda>path.
        Inr (if path \<in> set ordered then ordered else ordered @ [path])))"

definition resolve_local_dependency_paths :: "PackageLoader \<Rightarrow> string list \<Rightarrow> string list res" where
  "resolve_local_dependency_paths L folders =
     foldR (\<lambda>ordered folder. bindR (sorted_packages L folder) (\<lambda>ps. foldR (add_path L) ordered (rev ps))) [] folders"

section \<open>Linking leaves no zero address\<close>

text \<open>Where a handle points after its address was linked.\<close>

definition linked_address :: "MoveAddress \<Rightarrow> MoveAddress \<Rightarrow> MoveAddress" where
  "linked_address root a = (if a = 0 then root else a)"

definition address_of :: "ModuleTables \<Rightarrow> nat \<Rightarrow> MoveAddress" where
  "address_of m i = handle_address m (module_handles m ! i)"

text \<open>\<open>links root m k m'\<close>: the first \<open>k\<close> handles of \<open>m\<close> are linked in \<open>m'\<close>, the others at most through
  a table entry that they share.\<close>

definition same_shape :: "ModuleTables \<Rightarrow> ModuleTables \<Rightarrow> bool" where
  "same_shape m m' \<longleftrightarrow> tables_ok m' \<and> identifiers m' = identifiers m
     \<and> self_module_handle_idx m' = self_module_handle_idx m \<and> length (module_handles m') = length (module_handles m)
     \<and> (\<forall>i < length (module_handles m). mh_name (module_handles m' ! i) = mh_name (module_handles m ! i))"

definition links :: "MoveAddress \<Rightarrow> ModuleTables \<Rightarrow> nat \<Rightarrow> ModuleTables \<Rightarrow> bool" where
  "links root m k m' \<longleftrightarrow> same_shape m m'
     \<and> (\<forall>i < k. address_of m' i = linked_address root (address_of m i))
     \<and> (\<forall>i. k \<le> i \<longrightarrow> i < length (module_handles m) \<longrightarrow> module_handles m' ! i = module_handles m ! i
          \<and> address_of m' i \<in> {address_of m i, linked_address root (address_of m i)})"

lemma links_Suc:
  assumes "links root m k m'" "k < length (module_handles m)" "same_shape m m''"
    and "address_of m'' k = linked_address root (address_of m k)"
    and "\<And>i. i < length (module_handles m) \<Longrightarrow> i \<noteq> k \<Longrightarrow> module_handles m'' ! i = module_handles m' ! i
      \<and> address_of m'' i \<in> {address_of m' i, linked_address root (address_of m' i)}"
  shows "links root m (Suc k) m''"
proof -
  have idem: "linked_address root (linked_address root a) = linked_address root a" for a
    by (simp add: linked_address_def)
  have "address_of m'' i = linked_address root (address_of m i)" if "i < Suc k" for i
  proof (cases "i = k")
    case False
    then have "address_of m' i = linked_address root (address_of m i)" "i < length (module_handles m)"
      using that assms(1,2) by (auto simp: links_def)
    then show ?thesis using assms(5) [of i] False idem by auto
  qed (use assms(4) in simp)
  moreover have "module_handles m'' ! i = module_handles m ! i
      \<and> address_of m'' i \<in> {address_of m i, linked_address root (address_of m i)}"
    if "Suc k \<le> i" "i < length (module_handles m)" for i
  proof -
    have "module_handles m' ! i = module_handles m ! i \<and> address_of m' i \<in> {address_of m i, linked_address root (address_of m i)}"
      using that assms(1) by (simp add: links_def)
    then show ?thesis using assms(5) [of i] that idem by auto
  qed
  ultimately show ?thesis using assms(3) by (simp add: links_def)
qed

lemma same_shape_handle:
  assumes "same_shape m m'" "i < length (module_handles m)"
  shows "unat (mh_address (module_handles m' ! i)) < length (address_identifiers m')"
    "unat (mh_name (module_handles m' ! i)) < length (identifiers m')"
proof -
  have "tables_ok m'" "module_handles m' ! i \<in> set (module_handles m')"
    using assms by (simp_all add: same_shape_def)
  then show "unat (mh_address (module_handles m' ! i)) < length (address_identifiers m')"
    "unat (mh_name (module_handles m' ! i)) < length (identifiers m')"
    by (simp_all add: tables_ok_def)
qed

text \<open>The two ways a handle is redirected: to an entry of the table, and by changing its entry.\<close>

definition redirect_handle :: "nat \<Rightarrow> nat \<Rightarrow> ModuleTables \<Rightarrow> ModuleTables" where
  "redirect_handle k t m =
     m\<lparr>module_handles := (module_handles m)[k := (module_handles m ! k)\<lparr>mh_address := as_u16 t\<rparr>]\<rparr>"

definition redirect_entry :: "nat \<Rightarrow> MoveAddress \<Rightarrow> ModuleTables \<Rightarrow> ModuleTables" where
  "redirect_entry k root m =
     m\<lparr>address_identifiers := (address_identifiers m)[unat (mh_address (module_handles m ! k)) := root]\<rparr>"

lemma redirect_handle:
  assumes "same_shape m m'" "k < length (module_handles m)" "t < length (address_identifiers m')"
  shows "same_shape m (redirect_handle k t m')"
    and "address_of (redirect_handle k t m') k = address_identifiers m' ! t"
    and "i \<noteq> k \<Longrightarrow> module_handles (redirect_handle k t m') ! i = module_handles m' ! i
      \<and> address_of (redirect_handle k t m') i = address_of m' i"
proof -
  let ?m = "redirect_handle k t m'"
  have ok: "tables_ok m'" and len: "length (module_handles m') = length (module_handles m)"
    using assms(1) by (simp_all add: same_shape_def)
  have u: "unat (as_u16 t) = t"
    using ok assms(3) by (intro unat_as_u16) (simp add: tables_ok_def)
  have "unat (mh_address h) < length (address_identifiers m') \<and> unat (mh_name h) < length (identifiers m')"
    if "h \<in> set (module_handles ?m)" for h
  proof -
    from that consider "h = (module_handles m' ! k)\<lparr>mh_address := as_u16 t\<rparr>" | "h \<in> set (module_handles m')"
      using set_update_subset_insert [of "module_handles m'" k] by (auto simp: redirect_handle_def)
    then show ?thesis
      using u assms(3) same_shape_handle [OF assms(1,2)] ok by cases (auto simp: tables_ok_def)
  qed
  then have "tables_ok ?m" using ok by (simp add: tables_ok_def redirect_handle_def)
  moreover have "mh_name (module_handles ?m ! i) = mh_name (module_handles m ! i)" if "i < length (module_handles m)" for i
    using that assms(1) len by (cases "i = k") (simp_all add: same_shape_def redirect_handle_def)
  ultimately show "same_shape m ?m" using assms(1) by (simp add: same_shape_def redirect_handle_def)
  show "address_of ?m k = address_identifiers m' ! t"
    using assms(2) len u by (simp add: address_of_def handle_address_def redirect_handle_def)
  show "i \<noteq> k \<Longrightarrow> module_handles ?m ! i = module_handles m' ! i \<and> address_of ?m i = address_of m' i"
    by (simp add: address_of_def handle_address_def redirect_handle_def)
qed

lemma redirect_entry:
  assumes "same_shape m m'" "k < length (module_handles m)"
  shows "same_shape m (redirect_entry k root m')" and "address_of (redirect_entry k root m') k = root"
    and "module_handles (redirect_entry k root m') = module_handles m'"
    and "i < length (module_handles m) \<Longrightarrow> address_of (redirect_entry k root m') i =
      (if mh_address (module_handles m' ! i) = mh_address (module_handles m' ! k) then root else address_of m' i)"
proof -
  show "same_shape m (redirect_entry k root m')"
    using assms by (auto simp: same_shape_def tables_ok_def redirect_entry_def)
  show "address_of (redirect_entry k root m') k = root"
    using same_shape_handle [OF assms] by (simp add: address_of_def handle_address_def redirect_entry_def)
  show "module_handles (redirect_entry k root m') = module_handles m'" by (simp add: redirect_entry_def)
  show "address_of (redirect_entry k root m') i =
      (if mh_address (module_handles m' ! i) = mh_address (module_handles m' ! k) then root else address_of m' i)"
    if "i < length (module_handles m)"
    using same_shape_handle [OF assms]
    by (simp add: address_of_def handle_address_def redirect_entry_def nth_list_update word_unat_eq_iff)
qed

lemma links_step:
  assumes "links root m k m'" "k < length (module_handles m)" "root \<noteq> 0"
  shows "\<exists>m''. link_handle root m' (k, module_handles m ! k) = Inr m'' \<and> links root m (Suc k) m''"
proof -
  let ?h = "module_handles m ! k"
  have shape: "same_shape m m'" and here: "module_handles m' ! k = ?h"
    and at: "address_of m' k \<in> {address_of m k, linked_address root (address_of m k)}"
    using assms(1,2) by (auto simp: links_def)
  note range = same_shape_handle [OF shape assms(2), unfolded here]
  have len: "k < length (module_handles m')" using shape assms(2) by (simp add: same_shape_def)
  have addr: "handle_address m' ?h = address_of m' k" by (simp add: address_of_def here)
  consider (keep) "address_of m' k \<noteq> 0"
    | (entry) t where "address_of m' k = 0" "position_of (\<lambda>t. t = root) (address_identifiers m') = Some t"
    | (new) "address_of m' k = 0" "position_of (\<lambda>t. t = root) (address_identifiers m') = None" by blast
  then show ?thesis
  proof cases
    case keep
    then have "link_handle root m' (k, ?h) = Inr m'"
      using range by (simp add: link_handle_def addr)
    moreover have "links root m (Suc k) m'"
      using keep at by (intro links_Suc [OF assms(1,2) shape]) (auto simp: linked_address_def)
    ultimately show ?thesis by blast
  next
    case entry
    then have t: "t < length (address_identifiers m')" "address_identifiers m' ! t = root"
      by (auto dest: position_of_SomeD)
    have "links root m (Suc k) (redirect_handle k t m')"
      using redirect_handle [OF shape assms(2) t(1)] t(2) entry(1) at assms(3)
      by (intro links_Suc [OF assms(1,2)]) (auto simp: linked_address_def split: if_splits)
    then show ?thesis
      using entry range len assms(3) by (simp add: link_handle_def addr redirect_handle_def)
  next
    case new
    have "address_of m' i = 0" if "mh_address (module_handles m' ! i) = mh_address (module_handles m' ! k)" for i
      using that new(1) by (simp add: address_of_def handle_address_def)
    then have "links root m (Suc k) (redirect_entry k root m')"
      using redirect_entry [OF shape assms(2), where root = root] new(1) at assms(3)
      by (intro links_Suc [OF assms(1,2)]) (auto simp: linked_address_def split: if_splits)
    then show ?thesis
      using new range assms(3) by (simp add: link_handle_def addr here redirect_entry_def)
  qed
qed

lemma link_module_links:
  assumes "tables_ok m" "root \<noteq> 0"
  shows "\<exists>m'. link_module root m = Inr m' \<and> links root m (length (module_handles m)) m'"
proof -
  have "\<exists>m'. foldR (link_handle root) m (enumerate 0 (take k (module_handles m))) = Inr m' \<and> links root m k m'"
    if "k \<le> length (module_handles m)" for k
    using that
  proof (induction k)
    case 0
    have "links root m 0 m" using assms by (simp add: links_def same_shape_def)
    then show ?case by simp
  next
    case (Suc k)
    then obtain m' where "foldR (link_handle root) m (enumerate 0 (take k (module_handles m))) = Inr m'"
        "links root m k m'" by auto
    moreover have "enumerate 0 (take (Suc k) (module_handles m))
        = enumerate 0 (take k (module_handles m)) @ [(k, module_handles m ! k)]"
      using Suc.prems by (simp add: take_Suc_conv_app_nth enumerate_append_eq)
    ultimately show ?case
      using links_step [of root m k m'] Suc.prems assms(2) by (auto simp: foldR_append)
  qed
  from this [of "length (module_handles m)"] show ?thesis by (simp add: link_module_def)
qed

lemma mock_module_address:
  assumes "tables_ok m"
  shows "tables_ok (mock_module_address root m)" "module_handles (mock_module_address root m) = module_handles m"
    "table_address (mock_module_address root m) = root"
    "i < length (module_handles m) \<Longrightarrow> address_of (mock_module_address root m) i \<in> {root, address_of m i}"
proof -
  let ?j = "unat (mh_address (self_handle m))"
  have j: "?j < length (address_identifiers m)"
    using assms by (simp add: tables_ok_def self_handle_def)
  then have eq: "mock_module_address root m = m\<lparr>address_identifiers := (address_identifiers m)[?j := root]\<rparr>"
    by (simp add: mock_module_address_def Let_def)
  show "tables_ok (mock_module_address root m)" "module_handles (mock_module_address root m) = module_handles m"
    using assms by (simp_all add: eq tables_ok_def)
  show "table_address (mock_module_address root m) = root"
    using j by (simp add: eq table_address_def handle_address_def self_handle_def)
  show "address_of (mock_module_address root m) i \<in> {root, address_of m i}"
    if "i < length (module_handles m)"
    using j by (simp add: eq address_of_def handle_address_def nth_list_update)
qed

lemma dependency_addresses:
  "module_address ` set (dependency_ids m) \<subseteq> address_of m ` {..<length (module_handles m)}"
  by (auto simp: dependency_ids_def module_id_for_handle_def address_of_def in_set_conv_nth)

lemma link_modules_ok:
  assumes "\<forall>m \<in> set ms. tables_ok m" "root \<noteq> 0"
  shows "\<exists>ms'. link_modules root ms = Inr ms' \<and> length ms' = length ms
    \<and> (\<forall>m \<in> set ms'. table_address m = root \<and> (\<forall>i < length (module_handles m). address_of m i \<noteq> 0))"
proof -
  have "\<exists>ms'. mapR (link_module root) ms = Inr ms' \<and> length ms' = length ms
      \<and> (\<forall>m \<in> set ms'. tables_ok m \<and> (\<forall>i < length (module_handles m). address_of m i \<noteq> 0))"
    using assms(1)
  proof (induction ms)
    case (Cons m ms)
    from link_module_links [of m root] Cons.prems assms(2) obtain m' where m':
      "link_module root m = Inr m'" "links root m (length (module_handles m)) m'" by auto
    then have "tables_ok m'" "\<forall>i < length (module_handles m'). address_of m' i \<noteq> 0"
      using assms(2) by (auto simp: links_def same_shape_def linked_address_def)
    moreover from Cons obtain ms' where "mapR (link_module root) ms = Inr ms'" "length ms' = length ms"
      "\<forall>m \<in> set ms'. tables_ok m \<and> (\<forall>i < length (module_handles m). address_of m i \<noteq> 0)" by auto
    ultimately show ?case using m'(1) by auto
  qed simp
  then obtain ms' where "mapR (link_module root) ms = Inr ms'" "length ms' = length ms"
    "\<forall>m \<in> set ms'. tables_ok m \<and> (\<forall>i < length (module_handles m). address_of m i \<noteq> 0)" by blast
  moreover from this have "table_address (mock_module_address root m) = root
      \<and> (\<forall>i < length (module_handles m). address_of (mock_module_address root m) i \<noteq> 0)" if "m \<in> set ms'" for m
    using mock_module_address [of m, where root = root] that assms(2) by fastforce
  ultimately show ?thesis using mock_module_address(2) by (fastforce simp: link_modules_def)
qed

section \<open>Properties\<close>

text \<open>
  C32: a build that bundles unpublished dependencies at a published root succeeds whenever the
  compiler gives well-formed modules at all. Every module of the package then has the address of the
  root, no module depends on address zero any more, so the check for such a dependency never rejects
  the build, and the dependencies of the package are its published ones in ascending order without
  address zero and without the root.
\<close>

theorem build_checked_bundles:
  assumes "build_package_resolved K folder test_mode isolation = Inr a" "root_address a \<noteq> 0"
    and "\<forall>m \<in> set (selected_modules test_mode True a). tables_ok m" "selected_modules test_mode True a \<noteq> []"
  shows "\<exists>p. build_checked K folder test_mode True verify_deps isolation = Inr p
    \<and> length (package_modules p) = length (selected_modules test_mode True a)
    \<and> (\<forall>m \<in> set (package_modules p). table_address m = root_address a
         \<and> (\<forall>d \<in> set (dependency_ids m). module_address d \<noteq> 0))
    \<and> sorted_wrt (<) (dependencies p)
    \<and> set (dependencies p) = snd ` set (published a) - {0, root_address a}"
proof -
  from link_modules_ok [OF assms(3,2)] obtain ms where ms:
    "link_modules (root_address a) (selected_modules test_mode True a) = Inr ms"
    "length ms = length (selected_modules test_mode True a)"
    "\<forall>m \<in> set ms. table_address m = root_address a \<and> (\<forall>i < length (module_handles m). address_of m i \<noteq> 0)"
    by blast
  then have deps: "\<forall>d \<in> set (dependency_ids m). module_address d \<noteq> 0" if "m \<in> set ms" for m
    using that dependency_addresses [of m] by fastforce
  then have "\<not> depends_on_zero ms"
    by (auto simp: list_ex_iff depends_on_zero_def)
  moreover have "ms \<noteq> []" using ms(2) assms(4) by auto
  ultimately show ?thesis
    using assms(1) ms deps by (auto simp: build_checked_def finish_package_def sorted_sort_dedup)
qed

definition bundle_module :: ModuleTables where
  "bundle_module = \<lparr>module_handles = [\<lparr>mh_address = 0, mh_name = 0\<rparr>, \<lparr>mh_address = 0, mh_name = 1\<rparr>],
     address_identifiers = [0], identifiers = [''app'', ''lib''], self_module_handle_idx = 0,
     function_handles = [], publishable = True, other_tables = undefined\<rparr>"

definition bundle_artifacts :: Artifacts where
  "bundle_artifacts = \<lparr>published_at = Some 9, artifact_name = ''app'', deps_compiled_units = [],
     root_compiled_units = [], all_compiled_units =
       [\<lparr>unit_address = 0, unit_address_name = None, unit_module = bundle_module\<rparr>],
     published = [(''sui'', 2), (''app'', 9)]\<rparr>"

definition bundle_compiler :: Compiler where
  "bundle_compiler = \<lparr>build = \<lambda>_ _. Inr bundle_artifacts, compile_with_driver = \<lambda>_ _. Inr (Inr ()), trim = \<lambda>s. s\<rparr>"

theorem build_checked_bundles_witness:
  "\<exists>p. build_checked bundle_compiler ''app'' False True True \<lparr>install_dir = None, extra_sources = []\<rparr> = Inr p
    \<and> length (package_modules p) = 1 \<and> set (dependencies p) = {2}"
proof -
  have "build_package_resolved bundle_compiler ''app'' False \<lparr>install_dir = None, extra_sources = []\<rparr> = Inr bundle_artifacts"
    by (simp add: build_package_resolved_def bundle_compiler_def)
  moreover have "root_address bundle_artifacts = 9" "selected_modules False True bundle_artifacts = [bundle_module]"
    by (simp_all add: root_address_def bundle_artifacts_def selected_modules_def)
  moreover have "tables_ok bundle_module" by (simp add: tables_ok_def bundle_module_def)
  moreover have "snd ` set (published bundle_artifacts) = {2, 9}" by (simp add: bundle_artifacts_def)
  ultimately show ?thesis
    using build_checked_bundles [of bundle_compiler "''app''" False "\<lparr>install_dir = None, extra_sources = []\<rparr>"
        bundle_artifacts True] by auto
qed

text \<open>The paths that one pass over the packages adds.\<close>

lemma add_paths:
  assumes "foldR (add_path L) ordered ps = Inr out"
  shows "\<exists>qs. mapR (\<lambda>p. canonicalize L (local_path p)) (filter (\<lambda>p. \<not> is_system L p) ps) = Inr qs
    \<and> out = ordered @ filter (\<lambda>q. q \<notin> set ordered) (rev (remdups (rev qs)))"
  using assms
proof (induction ps arbitrary: ordered)
  case (Cons p ps)
  show ?case
  proof (cases "is_system L p")
    case True
    then show ?thesis using Cons by (simp add: add_path_def)
  next
    case False
    then have "add_path L ordered p = bindR (canonicalize L (local_path p)) (\<lambda>path.
        Inr (if path \<in> set ordered then ordered else ordered @ [path]))" by (simp add: add_path_def)
    with Cons.prems obtain path where path: "canonicalize L (local_path p) = Inr path"
      "foldR (add_path L) (if path \<in> set ordered then ordered else ordered @ [path]) ps = Inr out"
      by (auto simp: bindR_eq_Inr)
    from Cons.IH [OF path(2)] obtain qs where qs:
      "mapR (\<lambda>p. canonicalize L (local_path p)) (filter (\<lambda>p. \<not> is_system L p) ps) = Inr qs"
      "out = (if path \<in> set ordered then ordered else ordered @ [path])
        @ filter (\<lambda>q. q \<notin> set (if path \<in> set ordered then ordered else ordered @ [path])) (rev (remdups (rev qs)))"
      by blast
    have "remdups (rev (path # qs)) = filter (\<lambda>q. q \<noteq> path) (remdups (rev qs)) @ [path]"
      by (induction qs rule: rev_induct) auto
    then have "rev (remdups (rev (path # qs))) = path # filter (\<lambda>q. q \<noteq> path) (rev (remdups (rev qs)))"
      by (simp add: rev_filter)
    then show ?thesis
      using qs False path(1) by (auto intro!: filter_cong)
  qed
qed simp

lemma fold_packages:
  assumes "foldR (\<lambda>ordered folder. bindR (sorted_packages L folder) (\<lambda>ps. foldR (add_path L) ordered (rev ps))) ordered folders = Inr out"
  shows "\<exists>lists. mapR (sorted_packages L) folders = Inr lists
    \<and> foldR (add_path L) ordered (concat (map rev lists)) = Inr out"
  using assms
proof (induction folders arbitrary: ordered)
  case (Cons folder folders)
  then obtain ps mid where "sorted_packages L folder = Inr ps" "foldR (add_path L) ordered (rev ps) = Inr mid"
      "foldR (\<lambda>ordered folder. bindR (sorted_packages L folder) (\<lambda>ps. foldR (add_path L) ordered (rev ps))) mid folders = Inr out"
    by (auto simp: bindR_eq_Inr)
  moreover from Cons.IH [OF this(3)] obtain lists where "mapR (sorted_packages L) folders = Inr lists"
      "foldR (add_path L) mid (concat (map rev lists)) = Inr out" by blast
  ultimately show ?case by (auto simp: foldR_append intro!: exI [of _ "ps # lists"])
qed simp

text \<open>
  The local dependencies of some folders are listed once each, in the order of their first
  occurrence when every folder's packages are read from the deepest dependency up, and the system
  packages are left out. An error of the loader or of the file system is the only other outcome.
\<close>

theorem resolve_local_dependency_paths_exact:
  assumes "resolve_local_dependency_paths L folders = Inr out"
  shows "\<exists>lists qs. mapR (sorted_packages L) folders = Inr lists
    \<and> mapR (\<lambda>p. canonicalize L (local_path p)) (filter (\<lambda>p. \<not> is_system L p) (concat (map rev lists))) = Inr qs
    \<and> distinct out \<and> out = rev (remdups (rev qs))"
proof -
  from fold_packages [OF assms [unfolded resolve_local_dependency_paths_def]] obtain lists where lists:
    "mapR (sorted_packages L) folders = Inr lists" "foldR (add_path L) [] (concat (map rev lists)) = Inr out"
    by blast
  from add_paths [OF lists(2)] lists(1) show ?thesis by auto
qed

definition shared_loader :: PackageLoader where
  "shared_loader = \<lparr>sorted_packages = \<lambda>folder. Inr [\<lparr>original_id = None, local_path = folder\<rparr>,
       \<lparr>original_id = None, local_path = ''shared''\<rparr>, \<lparr>original_id = Some 2, local_path = ''sui''\<rparr>],
     canonicalize = \<lambda>p. Inr (CHR ''/'' # p), is_system_package = \<lambda>a. a = 2\<rparr>"

theorem resolve_local_dependency_paths_exact_witness:
  "\<exists>out. resolve_local_dependency_paths shared_loader [''left'', ''right''] = Inr out \<and> distinct out
    \<and> out = [''/shared'', ''/left'', ''/right'']"
proof -
  have "resolve_local_dependency_paths shared_loader [''left'', ''right''] = Inr [''/shared'', ''/left'', ''/right'']"
    by (simp add: resolve_local_dependency_paths_def shared_loader_def add_path_def is_system_def)
  from resolve_local_dependency_paths_exact [OF this] this show ?thesis by blast
qed

end
