(* ===== verification/Export_Graph.thy ===== *)
theory Export_Graph
  imports Call_Graph Compiled_Package "HOL-Library.Option_ord"
begin

text \<open>
  \<open>movy-analysis/src/export_call_graph.rs\<close> and \<open>export_package_structure.rs\<close>: the call graph of a package
  and its local dependencies in the form of the repository model, with numbered contracts, functions and
  calls, and the structures and function metadata that refer to those numbers. Paths are strings; the
  file system, the compiler, the loader of dependencies and the printers of addresses are parameters. The
  numbers are counters of type \<open>i32\<close> in the source, starting at one: here they are natural numbers, and
  every increment is checked, with the panic of an addition that leaves the type. The same exporter over
  unbounded numbers is its specification; the two agree while the counters stay in range.
\<close>

section \<open>Parameters\<close>

datatype FileKind = IsDir | IsFile | IsOther

text \<open>\<open>read_dir\<close> is \<open>None\<close> when the directory cannot be read; an entry has no kind when it cannot be asked.\<close>

record FileApi =
  canonical_path :: "string \<Rightarrow> string option"
  path_is_dir :: "string \<Rightarrow> bool"
  path_is_file :: "string \<Rightarrow> bool"
  path_join :: "string \<Rightarrow> string \<Rightarrow> string"
  read_dir :: "string \<Rightarrow> (string \<times> FileKind option) list option"
  path_extension :: "string \<Rightarrow> string option"
  path_stem :: "string \<Rightarrow> string option"
  path_strip_prefix :: "string \<Rightarrow> string \<Rightarrow> string option"
  path_file_name :: "string \<Rightarrow> string option"

text \<open>\<open>account_text\<close> prints the address of a compiled module, \<open>address_text\<close> and \<open>short_text\<close> the address of
  an interface in full and in short, \<open>canonical_text\<close> without a prefix.\<close>

record ExportApi =
  xa_file :: FileApi
  xa_compiler :: Compiler
  xa_loader :: PackageLoader
  xa_find_def :: def_lookup
  account_text :: "MoveAddress \<Rightarrow> string"
  full_text :: "MoveAddress \<Rightarrow> string"
  short_text :: "MoveAddress \<Rightarrow> string"
  canonical_text :: "MoveAddress \<Rightarrow> string"

section \<open>Addresses\<close>

definition is_whitespace :: "char \<Rightarrow> bool" where
  "is_whitespace c \<longleftrightarrow> of_char c \<in> {9, 10, 11, 12, 13, 32 :: nat}"

definition trim_text :: "string \<Rightarrow> string" where
  "trim_text s = rev (dropWhile is_whitespace (rev (dropWhile is_whitespace s)))"

definition strip_0x :: "string \<Rightarrow> string" where
  "strip_0x s = (if take 2 s = ''0x'' then drop 2 s else s)"

definition to_ascii_lowercase :: "char \<Rightarrow> char" where
  "to_ascii_lowercase c = (if 65 \<le> (of_char c :: nat) \<and> of_char c \<le> (90 :: nat) then char_of (of_char c + 32 :: nat) else c)"

definition canonicalize_address :: "string \<Rightarrow> string" where
  "canonicalize_address value =
     (let trimmed = dropWhile (\<lambda>c. c = CHR ''0'') (strip_0x (trim_text value)) in
      ''0x'' @ map to_ascii_lowercase (if trimmed = [] then ''0'' else trimmed))"

definition canonical_module_id :: "string \<Rightarrow> string \<Rightarrow> string" where
  "canonical_module_id address name = canonicalize_address address @ ''::'' @ name"

definition is_sui_std_module :: "string \<Rightarrow> bool" where
  "is_sui_std_module address \<longleftrightarrow> canonicalize_address address \<in> {''0x1'', ''0x2'', ''0x3'', ''0xd''}"

section \<open>Paths\<close>

definition canonical_package_root :: "FileApi \<Rightarrow> string \<Rightarrow> string res" where
  "canonical_package_root F package_root =
     (let root = (case canonical_path F package_root of Some p \<Rightarrow> p | None \<Rightarrow> package_root) in
      if \<not> path_is_dir F root then Inl (Err (Any ''Move package root is not a directory''))
      else if \<not> path_is_file F (path_join F root ''Move.toml'') then Inl (Err (Any ''Move package root does not contain Move.toml''))
      else Inr root)"

definition resolve_search_roots :: "PackageLoader \<Rightarrow> string \<Rightarrow> string list res" where
  "resolve_search_roots L package_root =
     bindR (resolve_local_dependency_paths L [package_root]) (\<lambda>ps.
       Inr (foldl (\<lambda>roots root. if root \<in> set roots then roots else roots @ [root]) [package_root] ps))"

definition is_module_file :: "FileApi \<Rightarrow> string \<Rightarrow> string \<times> FileKind option \<Rightarrow> bool" where
  "is_module_file F name e = (case e of (path, kind) \<Rightarrow>
     kind = Some IsFile \<and> path_extension F path = Some ''move'' \<and> path_stem F path = Some name)"

text \<open>The entries of one directory: the first matching file, or the directories to visit.\<close>

fun scan_entries ::
  "FileApi \<Rightarrow> string \<Rightarrow> (string \<times> FileKind option) list \<Rightarrow> string list \<Rightarrow> string + string list" where
  "scan_entries F name [] pending = Inr pending"
| "scan_entries F name ((path, kind) # es) pending =
     (if kind = Some IsDir then scan_entries F name es (pending @ [path])
      else if is_module_file F name (path, kind) then Inl path
      else scan_entries F name es pending)"

text \<open>\<open>pending\<close> is a stack with its top at the end; the outer \<open>None\<close> is an exhausted bound.\<close>

fun find_file_loop :: "nat \<Rightarrow> FileApi \<Rightarrow> string \<Rightarrow> string list \<Rightarrow> string option option" where
  "find_file_loop 0 F name pending = None"
| "find_file_loop (Suc n) F name pending =
     (if pending = [] then Some None
      else let directory = last pending; pending = butlast pending in
        case read_dir F directory of
          None \<Rightarrow> find_file_loop n F name pending
        | Some entries \<Rightarrow>
            (case scan_entries F name entries pending of
               Inl path \<Rightarrow> Some (Some path)
             | Inr pending \<Rightarrow> find_file_loop n F name pending))"

definition find_module_source_file :: "nat \<Rightarrow> FileApi \<Rightarrow> string \<Rightarrow> string \<Rightarrow> string option option" where
  "find_module_source_file n F root name = (if \<not> path_is_dir F root then Some None else find_file_loop n F name [root])"

definition relativize_to_analysis_root :: "FileApi \<Rightarrow> string \<Rightarrow> string \<Rightarrow> string \<Rightarrow> string \<Rightarrow> string" where
  "relativize_to_analysis_root F analysis_root package_root pname source_path =
     (let absolute = (case canonical_path F source_path of Some p \<Rightarrow> p | None \<Rightarrow> source_path) in
      case path_strip_prefix F absolute analysis_root of
        Some relative \<Rightarrow> relative
      | None \<Rightarrow> (case path_strip_prefix F absolute package_root of
          Some relative \<Rightarrow> path_join F pname relative
        | None \<Rightarrow> path_join F pname (case path_file_name F absolute of Some f \<Rightarrow> f | None \<Rightarrow> ''unknown.move'')))"

fun first_source :: "nat \<Rightarrow> FileApi \<Rightarrow> string list \<Rightarrow> string \<Rightarrow> string option option" where
  "first_source n F [] name = Some None"
| "first_source n F (root # roots) name =
     (case find_module_source_file n F root name of
        None \<Rightarrow> None | Some (Some path) \<Rightarrow> Some (Some path) | Some None \<Rightarrow> first_source n F roots name)"

definition infer_relative_source_path :: "nat \<Rightarrow> FileApi \<Rightarrow> string \<Rightarrow> string \<Rightarrow> string \<Rightarrow> string \<Rightarrow> string option" where
  "infer_relative_source_path n F analysis_root package_root pname name =
     map_option (\<lambda>src. case src of
         Some path \<Rightarrow> relativize_to_analysis_root F analysis_root package_root pname path
       | None \<Rightarrow> path_join F (path_join F pname ''sources'') (name @ ''.move''))
       (first_source n F [path_join F package_root ''sources'', path_join F package_root ''tests'',
          path_join F (path_join F (path_join F package_root ''build'') pname) ''sources''] name)"

definition sanitize_path_component :: "string \<Rightarrow> string" where
  "sanitize_path_component value =
     map (\<lambda>c. if c \<in> {CHR '':'', CHR ''/'', CHR 0x5C, CHR ''*'', CHR ''?'', CHR 0x22, CHR ''<'', CHR ''>'', CHR ''|''}
       then CHR ''_'' else c) value"

text \<open>\<open>split_once\<close> at the first double colon.\<close>

fun split_once_colons :: "string \<Rightarrow> (string \<times> string) option" where
  "split_once_colons [] = None"
| "split_once_colons (c # s) =
     (if take 2 (c # s) = ''::'' then Some ([], drop 2 (c # s))
      else map_option (\<lambda>(a, b). (c # a, b)) (split_once_colons s))"

definition synthetic_relative_path :: "string \<Rightarrow> string" where
  "synthetic_relative_path mid = (case (case split_once_colons mid of Some p \<Rightarrow> p | None \<Rightarrow> (''external'', mid)) of (address, name) \<Rightarrow>
     ''external/'' @ sanitize_path_component address @ ''_'' @ sanitize_path_component name @ ''.move'')"

section \<open>The graph\<close>

type_synonym MoveFunctionKey = "string \<times> string"

type_synonym PendingCall = "MoveFunctionKey \<times> string \<times> string option"

record FileLocation =
  start_line :: nat
  start_column :: nat
  end_line :: nat
  end_column :: nat

definition placeholder_location :: FileLocation where
  "placeholder_location = \<lparr>start_line = 1, start_column = 0, end_line = 1, end_column = 0\<rparr>"

record FunctionCall =
  xl_id :: nat
  xl_from :: nat
  xl_to :: nat
  xl_description :: "string option"

record Function =
  xf_id :: nat
  xf_name :: string
  xf_args :: string
  xf_path :: string
  xf_loc :: FileLocation
  xf_calls :: "FunctionCall list"
  xf_description :: "string option"

record Contract =
  xc_id :: nat
  xc_name :: string
  xc_path :: string
  xc_loc :: FileLocation
  xc_functions :: "Function list"
  xc_description :: "string option"

record ExportState =
  next_contract_id :: nat
  next_function_id :: nat
  xs_contracts :: "(nat, Contract) btree"
  seen_modules :: "string set"
  xs_module_ids :: "(string, nat) btree"
  xs_function_ids :: "(MoveFunctionKey, nat) btree"
  function_locations :: "(nat, nat \<times> nat) btree"
  pending_calls :: "(MoveFunctionKey, PendingCall set) btree"

definition ExportState_new :: ExportState where
  "ExportState_new = \<lparr>next_contract_id = 1, next_function_id = 1, xs_contracts = [], seen_modules = {}, xs_module_ids = [],
     xs_function_ids = [], function_locations = [], pending_calls = []\<rparr>"

definition render_call_description :: "ExportApi \<Rightarrow> MoveAbiSignatureToken list \<Rightarrow> string option" where
  "render_call_description X targs = (if targs = [] then None
     else Some (''type_args=<'' @ join '', '' (map (token_to_string (short_text X)) targs) @ ''>''))"

definition render_args :: "ExportApi \<Rightarrow> MoveFunctionAbi \<Rightarrow> string" where
  "render_args X f = join '', '' (map (token_to_string (short_text X)) (parameters f))"

definition render_returns :: "ExportApi \<Rightarrow> MoveFunctionAbi \<Rightarrow> string" where
  "render_returns X f = join '', '' (map (token_to_string (short_text X)) (return_paramters f))"

definition pending_call :: "ExportApi \<Rightarrow> MoveFunctionCall \<Rightarrow> PendingCall" where
  "pending_call X c = ((canonical_module_id (full_text X (module_address (call_target_module c))) (mod_name (call_target_module c)),
     fn_name (call_abi c)), render_args X (call_abi c), render_call_description X (call_tys c))"

definition exported_function :: "ExportApi \<Rightarrow> nat \<Rightarrow> string \<Rightarrow> MoveFunctionAbi \<Rightarrow> Function" where
  "exported_function X fid path f = \<lparr>xf_id = fid, xf_name = fn_name f, xf_args = render_args X f, xf_path = path,
     xf_loc = placeholder_location, xf_calls = [],
     xf_description = Some (visibility_to_string (visibility f) @ '' '' @ fn_name f @ ''('' @ render_args X f @ '')''
       @ (if render_returns X f = [] then [] else '': '' @ render_returns X f))\<rparr>"

definition export_function ::
  "ExportApi \<Rightarrow> string \<Rightarrow> nat \<Rightarrow> string \<Rightarrow> ExportState \<times> Function list \<Rightarrow> MoveFunctionAbi \<times> MoveFunctionCall list
     \<Rightarrow> ExportState \<times> Function list" where
  "export_function X mid cid path s p = (case s of (st, fs) \<Rightarrow> case p of (f, cs) \<Rightarrow>
     let fid = next_function_id st; key = (mid, fn_name f);
         old = (case bt_get (pending_calls st) key of Some c \<Rightarrow> c | None \<Rightarrow> {})
     in (st\<lparr>next_function_id := fid + 1, xs_function_ids := bt_insert key fid (xs_function_ids st),
           function_locations := bt_insert fid (cid, length fs) (function_locations st),
           pending_calls := bt_insert key (old \<union> pending_call X ` set cs) (pending_calls st)\<rparr>,
         fs @ [exported_function X fid path f]))"

definition put_contract :: "nat \<Rightarrow> string \<Rightarrow> string \<Rightarrow> string option \<Rightarrow> ExportState \<times> Function list \<Rightarrow> ExportState" where
  "put_contract cid mid path desc s = (case s of (st, fs) \<Rightarrow>
     st\<lparr>xs_contracts := bt_insert cid \<lparr>xc_id = cid, xc_name = mid, xc_path = path, xc_loc = placeholder_location, xc_functions = fs,
       xc_description = desc\<rparr> (xs_contracts st)\<rparr>)"

definition open_module :: "string \<Rightarrow> ExportState \<Rightarrow> ExportState" where
  "open_module mid st = st\<lparr>seen_modules := insert mid (seen_modules st), next_contract_id := next_contract_id st + 1,
     xs_module_ids := bt_insert mid (next_contract_id st) (xs_module_ids st)\<rparr>"

type_synonym Entry = "string \<times> string \<times> (MoveFunctionAbi \<times> MoveFunctionCall list) list"

definition export_entry :: "ExportApi \<Rightarrow> ExportState \<Rightarrow> Entry \<Rightarrow> ExportState" where
  "export_entry X st e = (case e of (mid, path, calls) \<Rightarrow>
     put_contract (next_contract_id st) mid path None
       (foldl (export_function X mid (next_contract_id st) path) (open_module mid st, []) calls))"

text \<open>The result of \<open>+= 1\<close> on a counter of type \<open>i32\<close>: the new number \<open>n\<close> must be in range. The numbers of
  the functions of a module are checked when all of them have been taken: nothing else happens in that
  loop that could be seen.\<close>

definition checked_i32 :: "nat \<Rightarrow> 'a \<Rightarrow> 'a res" where
  "checked_i32 n x = (if n < 2 ^ 31 then Inr x else Inl (Panic ''attempt to add with overflow''))"

definition export_module ::
  "nat \<Rightarrow> ExportApi \<Rightarrow> string \<Rightarrow> string \<Rightarrow> string \<Rightarrow> ExportState \<Rightarrow> CompiledModule \<Rightarrow> ExportState fuelled" where
  "export_module n X package_root root pname st m =
     (let mid = canonical_module_id (account_text X (cm_address m)) (cm_name m) in
      if is_sui_std_module (account_text X (cm_address m)) then Some (Inr st)
      else if mid \<in> seen_modules st then Some (Inr st)
      else
        bindFR (Some (checked_i32 (next_contract_id st + 1) ())) (\<lambda>_.
        map_option (\<lambda>path.
          bindR (analysis_from_sui_module (xa_find_def X) m) (\<lambda>analysis.
            let st' = export_entry X st (mid, path, analysis_calls analysis) in checked_i32 (next_function_id st') st'))
          (infer_relative_source_path n (xa_file X) package_root root pname (cm_name m))))"

definition default_isolation :: BuildIsolation where
  "default_isolation = \<lparr>install_dir = None, extra_sources = []\<rparr>"

definition export_root :: "nat \<Rightarrow> ExportApi \<Rightarrow> bool \<Rightarrow> string \<Rightarrow> ExportState \<Rightarrow> string \<Rightarrow> ExportState fuelled" where
  "export_root n X test_mode package_root st root =
     bindFR (Some (build_checked (xa_compiler X) root test_mode False True default_isolation)) (\<lambda>p.
       foldFR (export_module n X package_root root (package_name p)) st (map compiled_module (package_modules p)))"

section \<open>Functions outside the packages\<close>

definition external_contract :: "string \<Rightarrow> ExportState \<Rightarrow> (nat \<times> ExportState) res" where
  "external_contract mid st = (case bt_get (xs_module_ids st) mid of
     Some cid \<Rightarrow> Inr (cid, st)
   | None \<Rightarrow> checked_i32 (next_contract_id st + 1) (next_contract_id st,
       put_contract (next_contract_id st) mid (synthetic_relative_path mid) (Some ''external module referenced from Move call graph'')
         (st\<lparr>next_contract_id := next_contract_id st + 1, xs_module_ids := bt_insert mid (next_contract_id st) (xs_module_ids st)\<rparr>, [])))"

definition external_function :: "MoveFunctionKey \<Rightarrow> string \<Rightarrow> nat \<Rightarrow> Contract \<Rightarrow> ExportState \<Rightarrow> ExportState" where
  "external_function key args cid con st = (let fid = next_function_id st in
     st\<lparr>next_function_id := fid + 1,
       xs_contracts := bt_insert cid (con\<lparr>xc_functions := xc_functions con @ [\<lparr>xf_id = fid, xf_name = snd key, xf_args = args,
         xf_path = xc_path con, xf_loc = placeholder_location, xf_calls = [],
         xf_description = Some ''external function referenced from Move bytecode''\<rparr>]\<rparr>) (xs_contracts st),
       xs_function_ids := bt_insert key fid (xs_function_ids st),
       function_locations := bt_insert fid (cid, length (xc_functions con)) (function_locations st)\<rparr>)"

definition add_external :: "ExportState \<Rightarrow> PendingCall \<Rightarrow> ExportState res" where
  "add_external st pc = (case pc of (key, args, _) \<Rightarrow>
     if bt_get (xs_function_ids st) key \<noteq> None then Inr st
     else bindR (external_contract (fst key) st) (\<lambda>(cid, st).
       bindR (checked_i32 (next_function_id st + 1) ()) (\<lambda>_.
       bindR (unwrapR ''callee contract should exist'' (bt_get (xs_contracts st) cid)) (\<lambda>con.
         Inr (external_function key args cid con st)))))"

definition add_externals :: "ExportState \<Rightarrow> ExportState res" where
  "add_externals st = foldR (\<lambda>st (_, cs). foldR add_external st (sorted_list_of_set cs)) st (pending_calls st)"

section \<open>Calls\<close>

definition resolve_call :: "ExportState \<Rightarrow> nat \<Rightarrow> nat \<Rightarrow> PendingCall \<Rightarrow> FunctionCall res" where
  "resolve_call st caller cid pc = (case pc of (key, _, desc) \<Rightarrow>
     bindR (unwrapR ''callee function id should exist'' (bt_get (xs_function_ids st) key)) (\<lambda>callee.
       Inr \<lparr>xl_id = cid, xl_from = caller, xl_to = callee, xl_description = desc\<rparr>))"

text \<open>The calls of one caller are numbered from \<open>next\<close> on, the counter going up after each of them; the
  contracts with these calls added, and the next number.\<close>

definition with_calls ::
  "nat \<Rightarrow> nat \<Rightarrow> Contract \<Rightarrow> Function \<Rightarrow> FunctionCall list \<Rightarrow> (nat, Contract) btree \<Rightarrow> (nat, Contract) btree" where
  "with_calls cid i con f out contracts =
     bt_insert cid (con\<lparr>xc_functions := (xc_functions con)[i := f\<lparr>xf_calls := xf_calls f @ out\<rparr>]\<rparr>) contracts"

definition emit_calls ::
  "ExportState \<Rightarrow> (nat, Contract) btree \<times> nat \<Rightarrow> MoveFunctionKey \<times> PendingCall set \<Rightarrow> ((nat, Contract) btree \<times> nat) res" where
  "emit_calls st acc p = (case acc of (contracts, next) \<Rightarrow> case p of (key, cs) \<Rightarrow>
     bindR (unwrapR ''caller function id should exist'' (bt_get (xs_function_ids st) key)) (\<lambda>caller.
     bindR (unwrapR ''caller function location should exist'' (bt_get (function_locations st) caller)) (\<lambda>(cid, i).
     bindR (unwrapR ''caller contract should exist'' (bt_get contracts cid)) (\<lambda>con.
     bindR (indexR (xc_functions con) i) (\<lambda>f.
     bindR (mapR (\<lambda>(k, pc). bindR (resolve_call st caller (next + k) pc) (checked_i32 (next + k + 1)))
         (enumerate 0 (sorted_list_of_set cs))) (\<lambda>out.
       Inr (with_calls cid i con f out contracts, next + length out)))))))"

definition link_graph :: "ExportState \<Rightarrow> (nat, Contract) btree res" where
  "link_graph st =
     bindR (add_externals st) (\<lambda>st.
     bindR (foldR (emit_calls st) (xs_contracts st, 1) (pending_calls st)) (\<lambda>acc. Inr (fst acc)))"

text \<open>An interface has the fields of a contract; the exporter makes none.\<close>

record CallGraph =
  graph_contracts :: "(nat, Contract) btree"
  graph_interfaces :: "(nat, Contract) btree"

definition load_call_graph :: "nat \<Rightarrow> ExportApi \<Rightarrow> string \<Rightarrow> bool \<Rightarrow> CallGraph fuelled" where
  "load_call_graph n X package_root test_mode =
     bindFR (Some (canonical_package_root (xa_file X) package_root)) (\<lambda>package_root.
     bindFR (Some (resolve_search_roots (xa_loader X) package_root)) (\<lambda>roots.
     bindFR (foldFR (export_root n X test_mode package_root) ExportState_new roots) (\<lambda>st.
       Some (bindR (link_graph st) (\<lambda>g. Inr \<lparr>graph_contracts = g, graph_interfaces = []\<rparr>)))))"

section \<open>Every number has its place\<close>

text \<open>What holds between the tables of the walk once a module is complete: the number of a function leads
  to its place, the place holds that function under its module, and no function has calls yet.\<close>

definition places_function :: "ExportState \<Rightarrow> MoveFunctionKey \<Rightarrow> nat \<Rightarrow> bool" where
  "places_function st key fid \<longleftrightarrow> (\<exists>cid i con. bt_get (function_locations st) fid = Some (cid, i)
     \<and> bt_get (xs_contracts st) cid = Some con \<and> xc_name con = fst key \<and> i < length (xc_functions con)
     \<and> xf_id (xc_functions con ! i) = fid \<and> xf_name (xc_functions con ! i) = snd key)"

definition contract_placed :: "ExportState \<Rightarrow> nat \<Rightarrow> Contract \<Rightarrow> bool" where
  "contract_placed st cid con \<longleftrightarrow> xc_id con = cid \<and> cid < next_contract_id st
     \<and> (\<forall>i < length (xc_functions con). bt_get (function_locations st) (xf_id (xc_functions con ! i)) = Some (cid, i)
          \<and> xf_calls (xc_functions con ! i) = [])"

definition export_ok :: "ExportState \<Rightarrow> bool" where
  "export_ok st \<longleftrightarrow>
     (\<forall>mid cid. bt_get (xs_module_ids st) mid = Some cid \<longrightarrow> (\<exists>con. bt_get (xs_contracts st) cid = Some con \<and> xc_name con = mid))
     \<and> (\<forall>key fid. bt_get (xs_function_ids st) key = Some fid \<longrightarrow> places_function st key fid)
     \<and> (\<forall>cid con. bt_get (xs_contracts st) cid = Some con \<longrightarrow> contract_placed st cid con)
     \<and> (\<forall>fid p. bt_get (function_locations st) fid = Some p \<longrightarrow> fid < next_function_id st)
     \<and> bt_wf (pending_calls st)
     \<and> (\<forall>key cs. bt_get (pending_calls st) key = Some cs \<longrightarrow> finite cs \<and> bt_get (xs_function_ids st) key \<noteq> None)
     \<and> bt_wf (xs_contracts st)"

lemma export_ok_new: "export_ok ExportState_new"
  by (simp add: export_ok_def ExportState_new_def)

lemma export_okD:
  assumes "export_ok st"
  shows "bt_get (xs_module_ids st) mid = Some cid \<Longrightarrow> \<exists>con. bt_get (xs_contracts st) cid = Some con \<and> xc_name con = mid"
    and "bt_get (xs_function_ids st) key = Some fid \<Longrightarrow> places_function st key fid"
    and "bt_get (xs_contracts st) cid = Some con \<Longrightarrow> contract_placed st cid con"
    and "bt_get (function_locations st) fid = Some p \<Longrightarrow> fid < next_function_id st"
    and "bt_get (pending_calls st) key = Some cs \<Longrightarrow> finite cs \<and> (\<exists>fid. bt_get (xs_function_ids st) key = Some fid)"
    and "bt_wf (pending_calls st)" and "bt_wf (xs_contracts st)"
  using assms unfolding export_ok_def by blast+

text \<open>A new function at the end of a contract keeps all of it.\<close>

definition place_function :: "nat \<Rightarrow> Contract \<Rightarrow> MoveFunctionKey \<Rightarrow> Function \<Rightarrow> ExportState \<Rightarrow> ExportState" where
  "place_function cid con key f st = st\<lparr>next_function_id := next_function_id st + 1,
     xs_contracts := bt_insert cid (con\<lparr>xc_functions := xc_functions con @ [f]\<rparr>) (xs_contracts st),
     xs_function_ids := bt_insert key (next_function_id st) (xs_function_ids st),
     function_locations := bt_insert (next_function_id st) (cid, length (xc_functions con)) (function_locations st)\<rparr>"

lemma place_function_fields [simp]:
  "pending_calls (place_function cid con key f st) = pending_calls st"
  "xs_module_ids (place_function cid con key f st) = xs_module_ids st"
  "seen_modules (place_function cid con key f st) = seen_modules st"
  "xs_function_ids (place_function cid con key f st) = bt_insert key (next_function_id st) (xs_function_ids st)"
  "xs_contracts (place_function cid con key f st) = bt_insert cid (con\<lparr>xc_functions := xc_functions con @ [f]\<rparr>) (xs_contracts st)"
  "function_locations (place_function cid con key f st) =
     bt_insert (next_function_id st) (cid, length (xc_functions con)) (function_locations st)"
  "next_function_id (place_function cid con key f st) = next_function_id st + 1"
  "next_contract_id (place_function cid con key f st) = next_contract_id st"
  by (simp_all add: place_function_def)

lemma places_function_new:
  "xc_name con = fst key \<Longrightarrow> xf_id f = next_function_id st \<Longrightarrow> xf_name f = snd key
     \<Longrightarrow> places_function (place_function cid con key f st) key (next_function_id st)"
  by (simp add: places_function_def)

lemma places_function_old:
  assumes ok: "export_ok st" and con: "bt_get (xs_contracts st) cid = Some con" and old: "places_function st k fid"
  shows "places_function (place_function cid con key f st) k fid"
proof -
  from old obtain c i con' where at: "bt_get (function_locations st) fid = Some (c, i)"
      "bt_get (xs_contracts st) c = Some con'" "xc_name con' = fst k" "i < length (xc_functions con')"
      "xf_id (xc_functions con' ! i) = fid" "xf_name (xc_functions con' ! i) = snd k"
    by (auto simp: places_function_def)
  have "fid \<noteq> next_function_id st" using export_okD(4) [OF ok at(1)] by simp
  then show ?thesis
    using at con by (auto simp: places_function_def nth_append)
qed

lemma contract_placed_place:
  assumes ok: "export_ok st" and con: "bt_get (xs_contracts st) cid = Some con"
    and f: "xf_id f = next_function_id st" "xf_calls f = []"
    and c: "bt_get (xs_contracts (place_function cid con key f st)) c = Some con'"
  shows "contract_placed (place_function cid con key f st) c con'"
proof -
  have fresh: "xf_id (xc_functions d ! i) \<noteq> next_function_id st"
    if "bt_get (xs_contracts st) e = Some d" "i < length (xc_functions d)" for e d i
    using export_okD(3) [OF ok that(1)] that(2) export_okD(4) [OF ok] by (fastforce simp: contract_placed_def)
  show ?thesis
  proof (cases "c = cid")
    case True
    then have "con' = con\<lparr>xc_functions := xc_functions con @ [f]\<rparr>" using c by simp
    then show ?thesis
      using True export_okD(3) [OF ok con] fresh [OF con] f by (auto simp: contract_placed_def nth_append less_Suc_eq)
  next
    case False
    then have "bt_get (xs_contracts st) c = Some con'" using c by simp
    then show ?thesis using export_okD(3) [OF ok] fresh by (auto simp: contract_placed_def)
  qed
qed

lemma export_ok_place:
  assumes ok: "export_ok st" and con: "bt_get (xs_contracts st) cid = Some con" and name: "xc_name con = fst key"
    and f: "xf_id f = next_function_id st" "xf_name f = snd key" "xf_calls f = []"
  shows "export_ok (place_function cid con key f st)"
proof -
  let ?s = "place_function cid con key f st"
  have "\<exists>con'. bt_get (xs_contracts ?s) c = Some con' \<and> xc_name con' = mid" if "bt_get (xs_module_ids ?s) mid = Some c" for mid c
    using that con export_okD(1) [OF ok, of mid c] by auto
  moreover have "places_function ?s k fid" if "bt_get (xs_function_ids ?s) k = Some fid" for k fid
  proof (cases "k = key")
    case True
    with that have "fid = next_function_id st" by simp
    with True show ?thesis using places_function_new [OF name f(1,2)] by simp
  next
    case False
    with that have "places_function st k fid" using export_okD(2) [OF ok] by simp
    then show ?thesis by (rule places_function_old [OF ok con])
  qed
  moreover have "fid < next_function_id ?s" if "bt_get (function_locations ?s) fid = Some p" for fid p
    using that export_okD(4) [OF ok, of fid p] by (auto split: if_splits)
  moreover have "finite cs \<and> bt_get (xs_function_ids ?s) k \<noteq> None" if "bt_get (pending_calls ?s) k = Some cs" for k cs
    using that export_okD(5) [OF ok, of k cs] by auto
  moreover have "bt_wf (pending_calls ?s)" "bt_wf (xs_contracts ?s)"
    using export_okD(6,7) [OF ok] by (simp_all add: bt_wf_insert)
  ultimately show ?thesis
    unfolding export_ok_def using contract_placed_place [OF ok con f(1,3)] by blast
qed

text \<open>Opening a contract without functions.\<close>

lemma export_ok_open:
  assumes ok: "export_ok st" and cid: "cid = next_contract_id st"
  shows "export_ok (put_contract cid mid path desc
    (st\<lparr>next_contract_id := cid + 1, xs_module_ids := bt_insert mid cid (xs_module_ids st)\<rparr>, []))" (is "export_ok ?s")
proof -
  have kept: "bt_get (xs_contracts ?s) c = Some con" if "bt_get (xs_contracts st) c = Some con" for c con
    using that export_okD(3) [OF ok that] by (auto simp: put_contract_def contract_placed_def cid)
  have "\<exists>con. bt_get (xs_contracts ?s) c = Some con \<and> xc_name con = m" if "bt_get (xs_module_ids ?s) m = Some c" for m c
  proof (cases "m = mid")
    case True
    with that show ?thesis by (simp add: put_contract_def)
  next
    case False
    with that have "bt_get (xs_module_ids st) m = Some c" by (simp add: put_contract_def)
    then show ?thesis using export_okD(1) [OF ok] kept by blast
  qed
  moreover have "places_function ?s k fid" if "bt_get (xs_function_ids ?s) k = Some fid" for k fid
  proof -
    from that have "places_function st k fid" using export_okD(2) [OF ok] by (simp add: put_contract_def)
    then show ?thesis using kept unfolding places_function_def by (fastforce simp: put_contract_def)
  qed
  moreover have "contract_placed ?s c con" if "bt_get (xs_contracts ?s) c = Some con" for c con
    using that export_okD(3) [OF ok, of c con] by (auto simp: put_contract_def contract_placed_def cid split: if_splits)
  moreover have "fid < next_function_id ?s" if "bt_get (function_locations ?s) fid = Some p" for fid p
    using that export_okD(4) [OF ok, of fid p] by (auto simp: put_contract_def)
  moreover have "finite cs \<and> bt_get (xs_function_ids ?s) k \<noteq> None" if "bt_get (pending_calls ?s) k = Some cs" for k cs
    using that export_okD(5) [OF ok, of k cs] by (auto simp: put_contract_def)
  moreover have "bt_wf (pending_calls ?s)" "bt_wf (xs_contracts ?s)"
    using export_okD(6,7) [OF ok] by (simp_all add: put_contract_def bt_wf_insert)
  ultimately show ?thesis unfolding export_ok_def by blast
qed

text \<open>Tables that the invariant does not read, and the calls noted for a function.\<close>

lemma export_ok_seen [simp]: "export_ok (st\<lparr>seen_modules := S\<rparr>) = export_ok st"
  by (simp add: export_ok_def places_function_def contract_placed_def)

lemma export_ok_note:
  assumes ok: "export_ok st" and key: "bt_get (xs_function_ids st) key \<noteq> None" and fin: "finite cs"
  shows "export_ok (st\<lparr>pending_calls := bt_insert key cs (pending_calls st)\<rparr>)"
  using ok key fin by (simp add: export_ok_def places_function_def contract_placed_def bt_wf_insert)

lemma bt_insert_twice: "bt_insert k v (bt_insert k w m) = bt_insert k v m"
  by (induction k w m rule: bt_insert.induct) auto

text \<open>Exporting a function of the open contract is placing it in the contract and noting its calls.\<close>

lemma export_function_places:
  "put_contract cid mid path desc (export_function X mid cid path (st, fs) (f, cs)) =
     (let s = place_function cid \<lparr>xc_id = cid, xc_name = mid, xc_path = path, xc_loc = placeholder_location, xc_functions = fs,
            xc_description = desc\<rparr> (mid, fn_name f) (exported_function X (next_function_id st) path f)
          (put_contract cid mid path desc (st, fs));
          old = (case bt_get (pending_calls st) (mid, fn_name f) of Some c \<Rightarrow> c | None \<Rightarrow> {})
      in s\<lparr>pending_calls := bt_insert (mid, fn_name f) (old \<union> pending_call X ` set cs) (pending_calls s)\<rparr>)"
  by (simp add: put_contract_def export_function_def place_function_def Let_def bt_insert_twice)

lemma export_function_ok:
  assumes ok: "export_ok (put_contract cid mid path desc s)"
  shows "export_ok (put_contract cid mid path desc (export_function X mid cid path s p))"
proof -
  obtain st fs f cs where s: "s = (st, fs)" and p: "p = (f, cs)" by (metis surj_pair)
  let ?con = "\<lparr>xc_id = cid, xc_name = mid, xc_path = path, xc_loc = placeholder_location, xc_functions = fs,
            xc_description = desc\<rparr>"
  let ?old = "case bt_get (pending_calls st) (mid, fn_name f) of Some c \<Rightarrow> c | None \<Rightarrow> {}"
  have "finite ?old"
    using export_okD(5) [OF ok, of "(mid, fn_name f)"] by (auto simp: s put_contract_def split: option.splits)
  moreover have "export_ok (place_function cid ?con (mid, fn_name f) (exported_function X (next_function_id st) path f)
      (put_contract cid mid path desc (st, fs)))"
    using ok unfolding s by (rule export_ok_place) (simp_all add: put_contract_def exported_function_def)
  ultimately show ?thesis
    unfolding s p export_function_places Let_def by (intro export_ok_note) simp_all
qed

lemma export_functions_ok:
  "export_ok (put_contract cid mid path desc s)
     \<Longrightarrow> export_ok (put_contract cid mid path desc (foldl (export_function X mid cid path) s ps))"
  by (induction ps arbitrary: s) (simp_all add: export_function_ok)

lemma export_entry_ok:
  assumes ok: "export_ok st"
  shows "export_ok (export_entry X st e)"
proof -
  obtain mid path calls where e: "e = (mid, path, calls)" by (metis surj_pair)
  have "put_contract (next_contract_id st) mid path None (open_module mid st, []) =
      (put_contract (next_contract_id st) mid path None (st\<lparr>next_contract_id := next_contract_id st + 1,
         xs_module_ids := bt_insert mid (next_contract_id st) (xs_module_ids st)\<rparr>, []))
        \<lparr>seen_modules := insert mid (seen_modules st)\<rparr>"
    by (simp add: put_contract_def open_module_def)
  then have "export_ok (put_contract (next_contract_id st) mid path None (open_module mid st, []))"
    by (metis export_ok_open [OF ok refl] export_ok_seen)
  then show ?thesis unfolding e export_entry_def prod.case by (rule export_functions_ok)
qed

text \<open>The walk over a list of analysed modules, of which the first of every name counts.\<close>

definition export_new :: "ExportApi \<Rightarrow> ExportState \<Rightarrow> Entry \<Rightarrow> ExportState" where
  "export_new X st e = (if fst e \<in> seen_modules st then st else export_entry X st e)"

definition export_all :: "ExportApi \<Rightarrow> Entry list \<Rightarrow> ExportState" where
  "export_all X es = foldl (export_new X) ExportState_new es"

lemma export_all_ok: "export_ok (export_all X es)"
  unfolding export_all_def
  by (induction es rule: rev_induct) (simp_all add: export_ok_new export_new_def export_entry_ok)

fun first_entries :: "string set \<Rightarrow> Entry list \<Rightarrow> Entry list" where
  "first_entries seen [] = []"
| "first_entries seen (e # es) = (if fst e \<in> seen then first_entries seen es else e # first_entries (insert (fst e) seen) es)"

definition noted_calls :: "ExportState \<Rightarrow> (MoveFunctionKey \<times> PendingCall) set" where
  "noted_calls st = {(key, pc). \<exists>cs. bt_get (pending_calls st) key = Some cs \<and> pc \<in> cs}"

definition entry_calls :: "ExportApi \<Rightarrow> Entry \<Rightarrow> (MoveFunctionKey \<times> PendingCall) set" where
  "entry_calls X e = {((fst e, fn_name f), pending_call X c) |f cs c. (f, cs) \<in> set (snd (snd e)) \<and> c \<in> set cs}"

lemma noted_put [simp]: "noted_calls (put_contract cid mid path desc s) = noted_calls (fst s)"
  by (cases s) (simp add: put_contract_def noted_calls_def)

lemma seen_put [simp]: "seen_modules (put_contract cid mid path desc s) = seen_modules (fst s)"
  by (cases s) (simp add: put_contract_def)

lemma export_function_notes:
  "noted_calls (fst (export_function X mid cid path s (f, cs))) = noted_calls (fst s) \<union> {((mid, fn_name f), pending_call X c) |c. c \<in> set cs}"
  "seen_modules (fst (export_function X mid cid path s (f, cs))) = seen_modules (fst s)"
  by (cases s; auto simp: export_function_def noted_calls_def Let_def split: option.splits if_splits)+

lemma export_functions_note:
  "noted_calls (fst (foldl (export_function X mid cid path) s ps))
     = noted_calls (fst s) \<union> {((mid, fn_name f), pending_call X c) |f cs c. (f, cs) \<in> set ps \<and> c \<in> set cs}
   \<and> seen_modules (fst (foldl (export_function X mid cid path) s ps)) = seen_modules (fst s)"
proof (induction ps arbitrary: s)
  case (Cons p ps)
  obtain f cs where p: "p = (f, cs)" by force
  show ?case unfolding p foldl_Cons using Cons.IH [of "export_function X mid cid path s (f, cs)"]
    by (auto simp: export_function_notes)
qed simp

lemma export_entry_notes:
  "noted_calls (export_entry X st e) = noted_calls st \<union> entry_calls X e"
  "seen_modules (export_entry X st e) = insert (fst e) (seen_modules st)"
proof -
  obtain mid path calls where e: "e = (mid, path, calls)" by (metis surj_pair)
  note n = export_functions_note [of X mid "next_contract_id st" path "(open_module mid st, [])" calls]
  have opened: "noted_calls (open_module mid st) = noted_calls st" "seen_modules (open_module mid st) = insert mid (seen_modules st)"
    by (simp_all add: open_module_def noted_calls_def)
  show "noted_calls (export_entry X st e) = noted_calls st \<union> entry_calls X e"
    unfolding e export_entry_def entry_calls_def prod.case noted_put n [THEN conjunct1] fst_conv snd_conv opened ..
  show "seen_modules (export_entry X st e) = insert (fst e) (seen_modules st)"
    unfolding e export_entry_def prod.case seen_put n [THEN conjunct2] fst_conv opened ..
qed

lemma export_all_notes: "noted_calls (export_all X es) = (\<Union>e \<in> set (first_entries {} es). entry_calls X e)"
proof -
  have "noted_calls (foldl (export_new X) st es) = noted_calls st \<union> (\<Union>e \<in> set (first_entries (seen_modules st) es). entry_calls X e)" for st
    by (induction es arbitrary: st) (auto simp: export_new_def export_entry_notes)
  from this [of ExportState_new] show ?thesis
    by (simp add: export_all_def ExportState_new_def noted_calls_def)
qed

section \<open>The exporter over unbounded numbers\<close>

definition external_contract_nat :: "string \<Rightarrow> ExportState \<Rightarrow> nat \<times> ExportState" where
  "external_contract_nat mid st = (case bt_get (xs_module_ids st) mid of
     Some cid \<Rightarrow> (cid, st)
   | None \<Rightarrow> (next_contract_id st,
       put_contract (next_contract_id st) mid (synthetic_relative_path mid) (Some ''external module referenced from Move call graph'')
         (st\<lparr>next_contract_id := next_contract_id st + 1, xs_module_ids := bt_insert mid (next_contract_id st) (xs_module_ids st)\<rparr>, [])))"

definition add_external_nat :: "ExportState \<Rightarrow> PendingCall \<Rightarrow> ExportState res" where
  "add_external_nat st pc = (case pc of (key, args, _) \<Rightarrow>
     if bt_get (xs_function_ids st) key \<noteq> None then Inr st
     else (case external_contract_nat (fst key) st of (cid, st) \<Rightarrow>
       bindR (unwrapR ''callee contract should exist'' (bt_get (xs_contracts st) cid)) (\<lambda>con.
         Inr (external_function key args cid con st))))"

definition add_externals_nat :: "ExportState \<Rightarrow> ExportState res" where
  "add_externals_nat st = foldR (\<lambda>st (_, cs). foldR add_external_nat st (sorted_list_of_set cs)) st (pending_calls st)"

definition emit_calls_nat ::
  "ExportState \<Rightarrow> (nat, Contract) btree \<times> nat \<Rightarrow> MoveFunctionKey \<times> PendingCall set \<Rightarrow> ((nat, Contract) btree \<times> nat) res" where
  "emit_calls_nat st acc p = (case acc of (contracts, next) \<Rightarrow> case p of (key, cs) \<Rightarrow>
     bindR (unwrapR ''caller function id should exist'' (bt_get (xs_function_ids st) key)) (\<lambda>caller.
     bindR (unwrapR ''caller function location should exist'' (bt_get (function_locations st) caller)) (\<lambda>(cid, i).
     bindR (unwrapR ''caller contract should exist'' (bt_get contracts cid)) (\<lambda>con.
     bindR (indexR (xc_functions con) i) (\<lambda>f.
     bindR (mapR (\<lambda>(k, pc). resolve_call st caller (next + k) pc) (enumerate 0 (sorted_list_of_set cs))) (\<lambda>out.
       Inr (with_calls cid i con f out contracts, next + length out)))))))"

definition link_graph_nat :: "ExportState \<Rightarrow> (nat, Contract) btree res" where
  "link_graph_nat st =
     bindR (add_externals_nat st) (\<lambda>st.
     bindR (foldR (emit_calls_nat st) (xs_contracts st, 1) (pending_calls st)) (\<lambda>acc. Inr (fst acc)))"

text \<open>The checked exporter does what the unbounded one does, as long as the counters end in range.\<close>

lemma checked_i32_eq [simp]: "checked_i32 n x = Inr y \<longleftrightarrow> n < 2 ^ 31 \<and> x = y"
  by (simp add: checked_i32_def)

definition in_range :: "ExportState \<Rightarrow> bool" where
  "in_range st \<longleftrightarrow> next_contract_id st < 2 ^ 31 \<and> next_function_id st < 2 ^ 31"

lemma external_contract_nat_counts:
  assumes "external_contract_nat mid st = (cid, st')"
  shows "next_contract_id st' = next_contract_id st + (if bt_get (xs_module_ids st) mid = None then 1 else 0)"
    and "next_function_id st' = next_function_id st"
  using assms by (auto simp: external_contract_nat_def put_contract_def split: option.splits)

lemma external_contract_checked:
  assumes "external_contract_nat mid st = (cid, st')"
  shows "external_contract mid st = (if bt_get (xs_module_ids st) mid = None then checked_i32 (next_contract_id st') (cid, st') else Inr (cid, st'))"
  using assms by (auto simp: external_contract_nat_def external_contract_def put_contract_def split: option.splits)

lemma external_function_counts [simp]:
  "next_contract_id (external_function key args cid con st) = next_contract_id st"
  "next_function_id (external_function key args cid con st) = next_function_id st + 1"
  by (simp_all add: external_function_def Let_def)

lemma add_external_refines:
  "add_external st pc = Inr st' \<Longrightarrow> add_external_nat st pc = Inr st'"
proof -
  obtain key args desc where pc: "pc = (key, args, desc)" by (cases pc)
  obtain cid t where t: "external_contract_nat (fst key) st = (cid, t)" by force
  show "add_external st pc = Inr st' \<Longrightarrow> add_external_nat st pc = Inr st'"
    using external_contract_checked [OF t] t
    by (auto simp: pc add_external_def add_external_nat_def bindR_eq_Inr split: if_splits)
qed

lemma add_external_in_range:
  assumes "add_external_nat st pc = Inr st'"
  shows "next_contract_id st \<le> next_contract_id st' \<and> next_contract_id st' \<le> next_contract_id st + 1
    \<and> next_function_id st \<le> next_function_id st' \<and> next_function_id st' \<le> next_function_id st + 1
    \<and> (in_range st' \<longrightarrow> add_external st pc = Inr st')"
proof -
  obtain key args desc where pc: "pc = (key, args, desc)" by (cases pc)
  obtain cid t where t: "external_contract_nat (fst key) st = (cid, t)" by force
  show ?thesis
  proof (cases "bt_get (xs_function_ids st) key")
    case None
    with assms t obtain con where con: "bt_get (xs_contracts t) cid = Some con" "st' = external_function key args cid con t"
      by (auto simp: pc add_external_nat_def bindR_eq_Inr unwrapR_eq_Inr)
    then show ?thesis
      using None external_contract_nat_counts [OF t] external_contract_checked [OF t]
      by (auto simp: pc add_external_def in_range_def checked_i32_def)
  next
    case (Some fid)
    then show ?thesis using assms by (simp add: pc add_external_nat_def add_external_def)
  qed
qed

lemma foldR_externals:
  assumes step: "\<And>s x s'. f s x = Inr s' \<Longrightarrow> next_contract_id s \<le> next_contract_id s' \<and> next_contract_id s' \<le> next_contract_id s + c x
      \<and> next_function_id s \<le> next_function_id s' \<and> next_function_id s' \<le> next_function_id s + c x
      \<and> (in_range s' \<longrightarrow> g s x = Inr s')"
  shows "foldR f s xs = Inr s' \<Longrightarrow> next_contract_id s \<le> next_contract_id s' \<and> next_contract_id s' \<le> next_contract_id s + sum_list (map c xs)
      \<and> next_function_id s \<le> next_function_id s' \<and> next_function_id s' \<le> next_function_id s + sum_list (map c xs)
      \<and> (in_range s' \<longrightarrow> foldR g s xs = Inr s')"
proof (induction xs arbitrary: s)
  case (Cons x xs)
  then obtain t where t: "f s x = Inr t" "foldR f t xs = Inr s'" by (auto simp: bindR_eq_Inr)
  from Cons.IH [OF t(2)] step [OF t(1)] show ?case by (auto simp: in_range_def)
qed simp

lemma foldR_refines: "(\<And>s x s'. g s x = Inr s' \<Longrightarrow> f s x = Inr s') \<Longrightarrow> foldR g s xs = Inr s' \<Longrightarrow> foldR f s xs = Inr s'"
  by (induction xs arbitrary: s) (auto simp: bindR_eq_Inr)

abbreviation call_count :: "MoveFunctionKey \<times> PendingCall set \<Rightarrow> nat" where
  "call_count p \<equiv> length (sorted_list_of_set (snd p))"

lemma add_externals_in_range:
  assumes "add_externals_nat st = Inr st'"
  shows "next_contract_id st' \<le> next_contract_id st + sum_list (map call_count (pending_calls st))"
    and "next_function_id st' \<le> next_function_id st + sum_list (map call_count (pending_calls st))"
    and "in_range st' \<Longrightarrow> add_externals st = Inr st'"
proof -
  have inner: "next_contract_id s \<le> next_contract_id s' \<and> next_contract_id s' \<le> next_contract_id s + call_count p
      \<and> next_function_id s \<le> next_function_id s' \<and> next_function_id s' \<le> next_function_id s + call_count p
      \<and> (in_range s' \<longrightarrow> (case p of (_, cs) \<Rightarrow> foldR add_external s (sorted_list_of_set cs)) = Inr s')"
    if "(case p of (_, cs) \<Rightarrow> foldR add_external_nat s (sorted_list_of_set cs)) = Inr s'" for s s' and p :: "MoveFunctionKey \<times> PendingCall set"
    using foldR_externals [where f = add_external_nat and g = add_external and c = "\<lambda>_. 1", OF add_external_in_range,
        where s = s and xs = "sorted_list_of_set (snd p)" and s' = s'] that by (cases p) (simp add: sum_list_triv)
  from foldR_externals [OF inner, where s = st and xs = "pending_calls st" and s' = st'] assms
  show "next_contract_id st' \<le> next_contract_id st + sum_list (map call_count (pending_calls st))"
    "next_function_id st' \<le> next_function_id st + sum_list (map call_count (pending_calls st))"
    "in_range st' \<Longrightarrow> add_externals st = Inr st'"
    by (simp_all add: add_externals_def add_externals_nat_def)
qed

lemma add_externals_refines: "add_externals st = Inr st' \<Longrightarrow> add_externals_nat st = Inr st'"
proof -
  have "(case p of (_, cs) \<Rightarrow> foldR add_external s (sorted_list_of_set cs)) = Inr s'
      \<Longrightarrow> (case p of (_, cs) \<Rightarrow> foldR add_external_nat s (sorted_list_of_set cs)) = Inr s'" for s s' and p :: "MoveFunctionKey \<times> PendingCall set"
    by (cases p) (simp add: foldR_refines [OF add_external_refines])
  from foldR_refines [OF this] show "add_externals st = Inr st' \<Longrightarrow> add_externals_nat st = Inr st'"
    unfolding add_externals_def add_externals_nat_def .
qed

lemma emit_calls_in_range:
  assumes "emit_calls_nat st (c, nx) p = Inr (c', nx')"
  shows "nx' = nx + call_count p" and "nx' < 2 ^ 31 \<Longrightarrow> emit_calls st (c, nx) p = Inr (c', nx')"
proof -
  obtain key cs where p: "p = (key, cs)" by (metis surj_pair)
  from assms obtain caller cid i con out where r: "bt_get (xs_function_ids st) key = Some caller"
      "bt_get (function_locations st) caller = Some (cid, i)" "bt_get c cid = Some con" "i < length (xc_functions con)"
      "list_all2 (\<lambda>(k, pc) y. resolve_call st caller (nx + k) pc = Inr y) (enumerate 0 (sorted_list_of_set cs)) out"
      "c' = with_calls cid i con (xc_functions con ! i) out c" "nx' = nx + length out"
    by (auto simp: p emit_calls_nat_def bindR_eq_Inr unwrapR_eq_Inr indexR_def mapR_eq_Inr case_prod_unfold split: if_splits)
  show nx': "nx' = nx + call_count p" using r(7) list_all2_lengthD [OF r(5)] by (simp add: p)
  show "emit_calls st (c, nx) p = Inr (c', nx')" if "nx' < 2 ^ 31"
  proof -
    let ?pcs = "sorted_list_of_set cs"
    have len: "length out = length ?pcs" using list_all2_lengthD [OF r(5)] by simp
    have "(case enumerate 0 ?pcs ! k of (k, pc) \<Rightarrow> bindR (resolve_call st caller (nx + k) pc) (checked_i32 (nx + k + 1))) = Inr (out ! k)"
      if "k < length ?pcs" for k
    proof -
      have "resolve_call st caller (nx + k) (?pcs ! k) = Inr (out ! k)"
        using list_all2_nthD [OF r(5), of k] that by (simp add: nth_enumerate_eq)
      moreover have "nx + k + 1 < 2 ^ 31" using that \<open>nx' < 2 ^ 31\<close> r(7) len by linarith
      ultimately show ?thesis using that by (simp add: nth_enumerate_eq checked_i32_def)
    qed
    then have "mapR (\<lambda>(k, pc). bindR (resolve_call st caller (nx + k) pc) (checked_i32 (nx + k + 1))) (enumerate 0 ?pcs) = Inr out"
      using len unfolding mapR_eq_Inr list_all2_conv_all_nth by simp
    then show ?thesis using r by (simp add: p emit_calls_def indexR_def)
  qed
qed

lemma emit_calls_refines: "emit_calls st acc p = Inr acc' \<Longrightarrow> emit_calls_nat st acc p = Inr acc'"
proof -
  have "mapR (\<lambda>(k, pc). bindR (resolve_call st caller (nx + k) pc) (checked_i32 (nx + k + 1))) xs = Inr out
      \<Longrightarrow> mapR (\<lambda>(k, pc). resolve_call st caller (nx + k) pc) xs = Inr out" for caller nx xs out
    unfolding mapR_eq_Inr by (erule list_all2_mono) (auto simp: bindR_eq_Inr)
  then show "emit_calls st acc p = Inr acc' \<Longrightarrow> emit_calls_nat st acc p = Inr acc'"
    by (cases acc; cases p) (fastforce simp: emit_calls_def emit_calls_nat_def bindR_eq_Inr)
qed

lemma emit_all_in_range:
  "foldR (emit_calls_nat st) (c, nx) ps = Inr (c', nx')
     \<Longrightarrow> nx' = nx + sum_list (map call_count ps) \<and> (nx' < 2 ^ 31 \<longrightarrow> foldR (emit_calls st) (c, nx) ps = Inr (c', nx'))"
proof (induction ps arbitrary: c nx)
  case (Cons p ps)
  then obtain c1 nx1 where t: "emit_calls_nat st (c, nx) p = Inr (c1, nx1)" "foldR (emit_calls_nat st) (c1, nx1) ps = Inr (c', nx')"
    by (auto simp: bindR_eq_Inr)
  from Cons.IH [OF t(2)] emit_calls_in_range [OF t(1)] show ?case by auto
qed simp

lemma add_external_pending: "add_external_nat st pc = Inr st' \<Longrightarrow> pending_calls st' = pending_calls st"
  by (cases pc) (auto simp: add_external_nat_def external_contract_nat_def external_function_def put_contract_def bindR_eq_Inr Let_def
      split: if_splits option.splits)

lemma add_externals_pending:
  assumes "add_externals_nat st = Inr st'"
  shows "pending_calls st' = pending_calls st"
proof -
  have "foldR add_external_nat s xs = Inr s' \<Longrightarrow> pending_calls s' = pending_calls s" for s s' xs
    by (induction xs arbitrary: s) (auto simp: bindR_eq_Inr dest: add_external_pending)
  then have "foldR (\<lambda>st (_, cs). foldR add_external_nat st (sorted_list_of_set cs)) s ps = Inr s' \<Longrightarrow> pending_calls s' = pending_calls s"
    for s s' and ps :: "(MoveFunctionKey \<times> PendingCall set) list"
    by (induction ps arbitrary: s) (fastforce simp: bindR_eq_Inr)+
  then show ?thesis using assms unfolding add_externals_nat_def by blast
qed

text \<open>A graph that is returned is the graph of the specification, and the graph of the specification is
  returned when there are few enough modules, functions and calls.\<close>

lemma link_graph_refines: "link_graph st = Inr g \<Longrightarrow> link_graph_nat st = Inr g"
proof -
  assume "link_graph st = Inr g"
  then obtain s nx where "add_externals st = Inr s" "foldR (emit_calls s) (xs_contracts s, 1) (pending_calls s) = Inr (g, nx)"
    by (auto simp: link_graph_def bindR_eq_Inr)
  then have "add_externals_nat st = Inr s" "foldR (emit_calls_nat s) (xs_contracts s, 1) (pending_calls s) = Inr (g, nx)"
    by (auto intro: add_externals_refines foldR_refines [OF emit_calls_refines])
  then show ?thesis by (simp add: link_graph_nat_def)
qed

lemma link_graph_in_range:
  assumes g: "link_graph_nat st = Inr g" and C: "C = sum_list (map call_count (pending_calls st))"
    and few: "next_contract_id st + C < 2 ^ 31" "next_function_id st + C < 2 ^ 31" "1 + C < 2 ^ 31"
  shows "link_graph st = Inr g"
proof -
  from g obtain s nx where s: "add_externals_nat st = Inr s" "foldR (emit_calls_nat s) (xs_contracts s, 1) (pending_calls s) = Inr (g, nx)"
    by (auto simp: link_graph_nat_def bindR_eq_Inr)
  note n = add_externals_in_range [OF s(1)]
  have "in_range s" using n(1,2) few(1,2) by (simp add: in_range_def C)
  then have "add_externals st = Inr s" by (rule n(3))
  moreover have "foldR (emit_calls s) (xs_contracts s, 1) (pending_calls s) = Inr (g, nx)"
    using emit_all_in_range [OF s(2)] few(3) by (simp add: add_externals_pending [OF s(1)] C)
  ultimately show ?thesis by (simp add: link_graph_def)
qed

section \<open>Linking\<close>

lemma external_contract_nat_ok:
  assumes ok: "export_ok st" and run: "external_contract_nat mid st = (cid, s)"
  shows "export_ok s \<and> (\<exists>con. bt_get (xs_contracts s) cid = Some con \<and> xc_name con = mid)
    \<and> pending_calls s = pending_calls st \<and> xs_function_ids s = xs_function_ids st
    \<and> dom (bt_get (xs_module_ids st)) \<subseteq> dom (bt_get (xs_module_ids s))"
proof (cases "bt_get (xs_module_ids st) mid")
  case None
  then have s: "s = put_contract (next_contract_id st) mid (synthetic_relative_path mid)
      (Some ''external module referenced from Move call graph'')
      (st\<lparr>next_contract_id := next_contract_id st + 1, xs_module_ids := bt_insert mid (next_contract_id st) (xs_module_ids st)\<rparr>, [])"
    and "cid = next_contract_id st"
    using run by (auto simp: external_contract_nat_def)
  then show ?thesis using export_ok_open [OF ok refl] by (auto simp: put_contract_def)
next
  case (Some c)
  then show ?thesis using run ok export_okD(1) [OF ok Some] by (simp add: external_contract_nat_def)
qed

lemma add_external_nat_ok:
  assumes ok: "export_ok st"
  shows "\<exists>s. add_external_nat st (key, args, desc) = Inr s \<and> export_ok s \<and> pending_calls s = pending_calls st
    \<and> dom (bt_get (xs_module_ids st)) \<subseteq> dom (bt_get (xs_module_ids s))
    \<and> dom (bt_get (xs_function_ids s)) = insert key (dom (bt_get (xs_function_ids st)))"
proof (cases "bt_get (xs_function_ids st) key = None")
  case True
  obtain cid t where run: "external_contract_nat (fst key) st = (cid, t)" by force
  obtain con where t: "export_ok t" "bt_get (xs_contracts t) cid = Some con" "xc_name con = fst key"
      "pending_calls t = pending_calls st" "xs_function_ids t = xs_function_ids st"
      "dom (bt_get (xs_module_ids st)) \<subseteq> dom (bt_get (xs_module_ids t))"
    using external_contract_nat_ok [OF ok run] by blast
  let ?f = "\<lparr>xf_id = next_function_id t, xf_name = snd key, xf_args = args, xf_path = xc_path con,
     xf_loc = placeholder_location, xf_calls = [],
     xf_description = Some ''external function referenced from Move bytecode''\<rparr>"
  have "add_external_nat st (key, args, desc) = Inr (place_function cid con key ?f t)"
    using True run t(2) by (simp add: add_external_nat_def place_function_def external_function_def Let_def)
  moreover have "export_ok (place_function cid con key ?f t)"
    by (rule export_ok_place [OF t(1-3)]) simp_all
  ultimately show ?thesis using t(4-6) by simp
next
  case False
  then show ?thesis using ok by (auto simp: add_external_nat_def)
qed

lemma foldR_total_adds:
  assumes step: "\<And>s x. P s \<Longrightarrow> \<exists>s'. f s x = Inr s' \<and> P s' \<and> A s' = A s \<union> g x"
  shows "P s \<Longrightarrow> \<exists>s'. foldR f s xs = Inr s' \<and> P s' \<and> A s' = A s \<union> (\<Union>x \<in> set xs. g x)"
proof (induction xs arbitrary: s)
  case (Cons x xs)
  obtain t where t: "f s x = Inr t" "P t" "A t = A s \<union> g x" using step [OF Cons.prems] by blast
  then show ?case using Cons.IH [OF t(2)] by auto
qed simp

lemma add_externals_nat_ok:
  assumes ok: "export_ok st"
  obtains s where "add_externals_nat st = Inr s" "export_ok s" "pending_calls s = pending_calls st"
    "dom (bt_get (xs_module_ids st)) \<subseteq> dom (bt_get (xs_module_ids s))"
    "\<And>key cs callee args desc. bt_get (pending_calls st) key = Some cs \<Longrightarrow> (callee, args, desc) \<in> cs
       \<Longrightarrow> bt_get (xs_function_ids s) callee \<noteq> None"
proof -
  let ?P = "\<lambda>s. export_ok s \<and> pending_calls s = pending_calls st \<and> dom (bt_get (xs_module_ids st)) \<subseteq> dom (bt_get (xs_module_ids s))"
  let ?A = "\<lambda>s. dom (bt_get (xs_function_ids s))"
  have one: "\<exists>s'. add_external_nat s pc = Inr s' \<and> ?P s' \<and> ?A s' = ?A s \<union> {fst pc}" if "?P s" for s pc
    using that add_external_nat_ok [of s "fst pc" "fst (snd pc)" "snd (snd pc)"] by auto
  have "\<exists>s'. foldR add_external_nat s (sorted_list_of_set cs) = Inr s' \<and> ?P s'
      \<and> ?A s' = ?A s \<union> (\<Union>pc \<in> set (sorted_list_of_set cs). {fst pc})" if "?P s" for s cs
    by (rule foldR_total_adds [where P = ?P and A = ?A, OF one that])
  then have total: "\<exists>s'. (case p of (_, cs) \<Rightarrow> foldR add_external_nat s (sorted_list_of_set cs)) = Inr s' \<and> ?P s'
      \<and> ?A s' = ?A s \<union> (case p of (_, cs) \<Rightarrow> \<Union>pc \<in> set (sorted_list_of_set cs). {fst pc})"
    if "?P s" for s and p :: "MoveFunctionKey \<times> PendingCall set"
    using that by (cases p) simp
  obtain s where s: "add_externals_nat st = Inr s" "?P s"
      "?A s = ?A st \<union> (\<Union>p \<in> set (pending_calls st). case p of (_, cs) \<Rightarrow> \<Union>pc \<in> set (sorted_list_of_set cs). {fst pc})"
    using ok foldR_total_adds [where P = ?P and A = ?A and s = st and xs = "pending_calls st"
        and f = "\<lambda>st (_, cs). foldR add_external_nat st (sorted_list_of_set cs)"
        and g = "\<lambda>(_, cs). \<Union>pc \<in> set (sorted_list_of_set cs). {fst pc}", OF total]
    unfolding add_externals_nat_def by auto
  have refs: "bt_get (xs_function_ids s) callee \<noteq> None"
    if "bt_get (pending_calls st) key = Some cs" "(callee, args, desc) \<in> cs" for key cs callee args desc
  proof -
    have "(key, cs) \<in> set (pending_calls st)" using that(1) by (rule map_of_SomeD)
    moreover have "callee \<in> (\<Union>pc \<in> set (sorted_list_of_set cs). {fst pc})"
      using export_okD(5) [OF ok that(1)] that(2) by force
    ultimately have "callee \<in> ?A s" unfolding s(3) by fastforce
    then show ?thesis by blast
  qed
  show ?thesis by (rule that [OF s(1) _ _ _ refs]) (use s(2) in auto)
qed

text \<open>The contracts with calls given to their functions by number.\<close>

definition fill_calls :: "(nat \<Rightarrow> FunctionCall list) \<Rightarrow> Contract \<Rightarrow> Contract" where
  "fill_calls out con = con\<lparr>xc_functions := map (\<lambda>f. f\<lparr>xf_calls := out (xf_id f)\<rparr>) (xc_functions con)\<rparr>"

definition filled :: "(nat \<Rightarrow> FunctionCall list) \<Rightarrow> ExportState \<Rightarrow> (nat, Contract) btree \<Rightarrow> bool" where
  "filled out st g \<longleftrightarrow> bt_get g = (\<lambda>cid. map_option (fill_calls out) (bt_get (xs_contracts st) cid))"

definition call_records :: "ExportState \<Rightarrow> nat \<Rightarrow> nat \<Rightarrow> PendingCall list \<Rightarrow> FunctionCall list" where
  "call_records st caller next pcs = map (\<lambda>(k, key, _, desc). \<lparr>xl_id = next + k, xl_from = caller,
     xl_to = the (bt_get (xs_function_ids st) key), xl_description = desc\<rparr>) (enumerate 0 pcs)"

lemma filled_start: "export_ok st \<Longrightarrow> filled (\<lambda>_. []) st (xs_contracts st)"
proof -
  assume ok: "export_ok st"
  have "map (\<lambda>f. f\<lparr>xf_calls := []\<rparr>) (xc_functions con) = xc_functions con" if "bt_get (xs_contracts st) cid = Some con" for cid con
  proof (rule map_idI)
    fix f assume "f \<in> set (xc_functions con)"
    then have "xf_calls f = []"
      using export_okD(3) [OF ok that] by (auto simp: contract_placed_def in_set_conv_nth)
    then show "f\<lparr>xf_calls := []\<rparr> = f" by simp
  qed
  then have "map_option (fill_calls (\<lambda>_. [])) (bt_get (xs_contracts st) cid) = bt_get (xs_contracts st) cid" for cid
    by (cases "bt_get (xs_contracts st) cid") (simp_all add: fill_calls_def)
  then show ?thesis by (simp add: filled_def)
qed

lemma resolve_calls:
  assumes "\<And>callee args desc. (callee, args, desc) \<in> set pcs \<Longrightarrow> bt_get (xs_function_ids st) callee \<noteq> None"
  shows "mapR (\<lambda>(k, pc). resolve_call st caller (next + k) pc) (enumerate 0 pcs) = Inr (call_records st caller next pcs)"
proof -
  have "(case p of (k, pc) \<Rightarrow> resolve_call st caller (next + k) pc) = Inr (case p of (k, key, _, desc) \<Rightarrow>
      \<lparr>xl_id = next + k, xl_from = caller, xl_to = the (bt_get (xs_function_ids st) key), xl_description = desc\<rparr>)"
    if p: "p \<in> set (enumerate 0 pcs)" for p
  proof -
    obtain k key args desc where [simp]: "p = (k, key, args, desc)" by (metis prod_cases4)
    have "(key, args, desc) \<in> set pcs" using p by (auto simp: in_set_enumerate_eq) (metis nth_mem)
    then obtain fid where "bt_get (xs_function_ids st) key = Some fid" using assms by blast
    then show ?thesis by (simp add: resolve_call_def)
  qed
  then show ?thesis
    unfolding call_records_def mapR_eq_Inr by (auto simp: list_all2_map2 intro!: list_all2_same [THEN iffD2])
qed

text \<open>Giving a function its calls changes that function only: no other place has its number.\<close>

lemma fill_calls_at:
  assumes ok: "export_ok st" and con: "bt_get (xs_contracts st) cid = Some con"
    and at: "bt_get (function_locations st) fid = Some (cid, i)" "i < length (xc_functions con)" "xf_id (xc_functions con ! i) = fid"
  shows "fill_calls (out(fid := cs)) con = (fill_calls out con)\<lparr>xc_functions :=
    (xc_functions (fill_calls out con))[i := (xc_functions (fill_calls out con) ! i)\<lparr>xf_calls := cs\<rparr>]\<rparr>"
proof -
  have "xf_id (xc_functions con ! j) = fid \<longleftrightarrow> j = i" if "j < length (xc_functions con)" for j
  proof -
    have "bt_get (function_locations st) (xf_id (xc_functions con ! j)) = Some (cid, j)"
      using export_okD(3) [OF ok con] that by (simp add: contract_placed_def)
    with at(1) have "j = i" if "xf_id (xc_functions con ! j) = fid" unfolding that by simp
    with at(3) show ?thesis by blast
  qed
  then have "map (\<lambda>f. f\<lparr>xf_calls := (out(fid := cs)) (xf_id f)\<rparr>) (xc_functions con) =
      (map (\<lambda>f. f\<lparr>xf_calls := out (xf_id f)\<rparr>) (xc_functions con))[i := (xc_functions con ! i)\<lparr>xf_calls := cs\<rparr>]"
    using at(2) by (intro nth_equalityI) (simp_all add: nth_list_update)
  then show ?thesis using at(2) by (simp add: fill_calls_def)
qed

lemma fill_calls_elsewhere:
  assumes ok: "export_ok st" and con: "bt_get (xs_contracts st) c = Some con"
    and at: "bt_get (function_locations st) fid = Some (cid, i)" "c \<noteq> cid"
  shows "fill_calls (out(fid := cs)) con = fill_calls out con"
proof -
  have "xf_id f \<noteq> fid" if "f \<in> set (xc_functions con)" for f
    using that at export_okD(3) [OF ok con] by (auto simp: contract_placed_def in_set_conv_nth)
  then show ?thesis by (simp add: fill_calls_def)
qed

lemma emit_calls_nat_fills:
  assumes ok: "export_ok st" and g: "filled out st g" and key: "bt_get (xs_function_ids st) key = Some fid"
    and callees: "\<And>callee args desc. (callee, args, desc) \<in> set (sorted_list_of_set cs) \<Longrightarrow> bt_get (xs_function_ids st) callee \<noteq> None"
  obtains g' where "emit_calls_nat st (g, nx) (key, cs) = Inr (g', nx + length (sorted_list_of_set cs))"
    "filled (out(fid := out fid @ call_records st fid nx (sorted_list_of_set cs))) st g'"
proof -
  let ?new = "call_records st fid nx (sorted_list_of_set cs)"
  obtain cid i con where at: "bt_get (function_locations st) fid = Some (cid, i)" "bt_get (xs_contracts st) cid = Some con"
      "i < length (xc_functions con)" "xf_id (xc_functions con ! i) = fid"
    using export_okD(2) [OF ok key] by (auto simp: places_function_def)
  have gc: "bt_get g cid = Some (fill_calls out con)" using g at(2) by (simp add: filled_def)
  let ?f = "xc_functions (fill_calls out con) ! i"
  have i: "i < length (xc_functions (fill_calls out con))" and calls: "xf_calls ?f = out fid"
    using at(3,4) by (simp_all add: fill_calls_def)
  let ?g = "bt_insert cid ((fill_calls out con)\<lparr>xc_functions :=
    (xc_functions (fill_calls out con))[i := ?f\<lparr>xf_calls := out fid @ ?new\<rparr>]\<rparr>) g"
  have "length ?new = length (sorted_list_of_set cs)" by (simp add: call_records_def)
  then have "emit_calls_nat st (g, nx) (key, cs) = Inr (?g, nx + length (sorted_list_of_set cs))"
    using key at(1) gc i calls by (simp add: emit_calls_nat_def with_calls_def resolve_calls [OF callees])
  moreover have "filled (out(fid := out fid @ ?new)) st ?g"
  proof -
    have "bt_get ?g c = map_option (fill_calls (out(fid := out fid @ ?new))) (bt_get (xs_contracts st) c)" for c
    proof (cases "c = cid")
      case True
      then show ?thesis using at(2) by (simp add: fill_calls_at [OF ok at(2,1,3,4)])
    next
      case False
      then show ?thesis
        using g fill_calls_elsewhere [OF ok _ at(1)] by (cases "bt_get (xs_contracts st) c") (auto simp: filled_def)
    qed
    then show ?thesis by (auto simp: filled_def)
  qed
  ultimately show ?thesis by (rule that)
qed

text \<open>A function has one key.\<close>

lemma function_ids_inj:
  assumes ok: "export_ok st" and "bt_get (xs_function_ids st) k = Some fid" "bt_get (xs_function_ids st) k' = Some fid"
  shows "k = k'"
  using export_okD(2) [OF ok assms(2)] export_okD(2) [OF ok assms(3)] by (auto simp: places_function_def prod_eq_iff)

text \<open>The third loop: it does not panic, gives every caller the calls noted for it, and numbers the calls in
  order.\<close>

lemma emit_all:
  assumes ok: "export_ok st"
  shows "filled out st g \<Longrightarrow> distinct (map fst ps)
    \<Longrightarrow> (\<And>key cs. (key, cs) \<in> set ps \<Longrightarrow> \<exists>fid. bt_get (xs_function_ids st) key = Some fid \<and> out fid = [])
    \<Longrightarrow> (\<And>key cs callee args desc. (key, cs) \<in> set ps \<Longrightarrow> (callee, args, desc) \<in> set (sorted_list_of_set cs)
          \<Longrightarrow> bt_get (xs_function_ids st) callee \<noteq> None)
    \<Longrightarrow> \<exists>g' nx' out'. foldR (emit_calls_nat st) (g, nx) ps = Inr (g', nx') \<and> filled out' st g' \<and> nx \<le> nx'
      \<and> (\<forall>(key, cs) \<in> set ps. \<exists>n. out' (the (bt_get (xs_function_ids st) key)) =
               call_records st (the (bt_get (xs_function_ids st) key)) n (sorted_list_of_set cs))
      \<and> (\<forall>fid. (\<forall>key \<in> fst ` set ps. bt_get (xs_function_ids st) key \<noteq> Some fid) \<longrightarrow> out' fid = out fid)
      \<and> concat (map (\<lambda>(key, cs). map xl_id (out' (the (bt_get (xs_function_ids st) key)))) ps) = [nx ..< nx']"
proof (induction ps arbitrary: g nx out)
  case Nil
  then show ?case by auto
next
  case (Cons p ps)
  obtain key cs where p: "p = (key, cs)" by (cases p)
  obtain fid where fid: "bt_get (xs_function_ids st) key = Some fid" "out fid = []" using Cons.prems(3) [of key cs] p by auto
  let ?pcs = "sorted_list_of_set cs"
  let ?out = "out(fid := call_records st fid nx ?pcs)"
  have callees: "bt_get (xs_function_ids st) callee \<noteq> None" if "(callee, args, desc) \<in> set ?pcs" for callee args desc
    using Cons.prems(4) [of key cs] p that by simp
  obtain g1 where g1: "emit_calls_nat st (g, nx) p = Inr (g1, nx + length ?pcs)" "filled ?out st g1"
  proof (rule emit_calls_nat_fills [OF ok Cons.prems(1) fid(1), where cs = cs and nx = nx])
    fix callee args desc assume "(callee, args, desc) \<in> set ?pcs"
    then show "bt_get (xs_function_ids st) callee \<noteq> None" by (rule callees)
  qed (use that fid(2) p in auto)
  have others: "bt_get (xs_function_ids st) k \<noteq> Some fid" if "k \<in> fst ` set ps" for k
    using that function_ids_inj [OF ok fid(1), of k] Cons.prems(2) p by auto
  have "\<exists>fid'. bt_get (xs_function_ids st) k = Some fid' \<and> ?out fid' = []" if "(k, c) \<in> set ps" for k c
    using Cons.prems(3) [of k c] that others [of k] by force
  moreover have "bt_get (xs_function_ids st) callee \<noteq> None"
    if "(k, c) \<in> set ps" "(callee, args, desc) \<in> set (sorted_list_of_set c)" for k c callee args desc
    using Cons.prems(4) [of k c] that by simp
  ultimately obtain g' nx' out' where rest: "foldR (emit_calls_nat st) (g1, nx + length ?pcs) ps = Inr (g', nx')"
      "filled out' st g'" "nx + length ?pcs \<le> nx'"
      "\<forall>(key, cs) \<in> set ps. \<exists>n. out' (the (bt_get (xs_function_ids st) key)) =
               call_records st (the (bt_get (xs_function_ids st) key)) n (sorted_list_of_set cs)"
      "\<forall>fid. (\<forall>key \<in> fst ` set ps. bt_get (xs_function_ids st) key \<noteq> Some fid) \<longrightarrow> out' fid = ?out fid"
      "concat (map (\<lambda>(key, cs). map xl_id (out' (the (bt_get (xs_function_ids st) key)))) ps) = [nx + length ?pcs ..< nx']"
    using Cons.IH [OF g1(2), of "nx + length ?pcs"] Cons.prems(2) by (simp add: p) blast
  have mine: "out' fid = call_records st fid nx ?pcs" using rest(5) others by auto
  moreover have "map xl_id (call_records st fid nx ?pcs) = [nx ..< nx + length ?pcs]"
    by (intro nth_equalityI) (auto simp: call_records_def nth_enumerate_eq split_def)
  moreover have "[nx ..< nx + length ?pcs] @ [nx + length ?pcs ..< nx'] = [nx ..< nx']"
    using rest(3) by (metis le_add1 upt_add_eq_append le_iff_add)
  moreover have "\<exists>n. out' (the (bt_get (xs_function_ids st) k)) =
      call_records st (the (bt_get (xs_function_ids st) k)) n (sorted_list_of_set c)" if "(k, c) \<in> set (p # ps)" for k c
  proof (cases "(k, c) = p")
    case True
    then show ?thesis using mine fid(1) rest(3) p by auto
  next
    case False
    then have "(k, c) \<in> set ps" using that by simp
    then show ?thesis using rest(4) by blast
  qed
  ultimately show ?case
    using g1(1) rest(1-3,5,6) fid(1) p by (intro exI [of _ g'] exI [of _ nx'] exI [of _ out']) auto
qed

section \<open>The finished graph\<close>

definition named_at :: "(nat, Contract) btree \<Rightarrow> MoveFunctionKey \<Rightarrow> Function \<Rightarrow> bool" where
  "named_at g key f \<longleftrightarrow> (\<exists>cid con. bt_get g cid = Some con \<and> xc_name con = fst key \<and> f \<in> set (xc_functions con) \<and> xf_name f = snd key)"

definition function_at :: "(nat, Contract) btree \<Rightarrow> nat \<Rightarrow> nat \<Rightarrow> Function option" where
  "function_at g cid i = (case bt_get g cid of None \<Rightarrow> None
     | Some con \<Rightarrow> if i < length (xc_functions con) then Some (xc_functions con ! i) else None)"

definition graph_edges :: "(nat, Contract) btree \<Rightarrow> (MoveFunctionKey \<times> MoveFunctionKey \<times> string option) set" where
  "graph_edges g = {(key, callee, desc). \<exists>f l f'. named_at g key f \<and> l \<in> set (xf_calls f) \<and> xl_description l = desc
     \<and> named_at g callee f' \<and> xf_id f' = xl_to l}"

definition noted_edges :: "ExportState \<Rightarrow> (MoveFunctionKey \<times> MoveFunctionKey \<times> string option) set" where
  "noted_edges st = (\<lambda>(key, callee, _, desc). (key, callee, desc)) ` noted_calls st"

lemma function_at_filled:
  "filled out st g \<Longrightarrow> function_at g c i = Some f \<longleftrightarrow> (\<exists>con. bt_get (xs_contracts st) c = Some con \<and> i < length (xc_functions con)
     \<and> f = (xc_functions con ! i)\<lparr>xf_calls := out (xf_id (xc_functions con ! i))\<rparr>)"
  by (cases "bt_get (xs_contracts st) c") (auto simp: function_at_def filled_def fill_calls_def)

lemma named_at_filled:
  "filled out st g \<Longrightarrow> named_at g key f \<longleftrightarrow> (\<exists>c con i. bt_get (xs_contracts st) c = Some con \<and> xc_name con = fst key
     \<and> i < length (xc_functions con) \<and> xf_name (xc_functions con ! i) = snd key
     \<and> f = (xc_functions con ! i)\<lparr>xf_calls := out (xf_id (xc_functions con ! i))\<rparr>)"
  unfolding named_at_def filled_def fill_calls_def
  by (fastforce simp: in_set_conv_nth)

lemma named_at_id:
  assumes ok: "export_ok st" and g: "filled out st g" and key: "bt_get (xs_function_ids st) key = Some fid"
  shows "\<exists>f. named_at g key f \<and> xf_id f = fid \<and> xf_calls f = out fid"
    and "named_at g k f \<Longrightarrow> xf_id f = fid \<Longrightarrow> k = key"
proof -
  obtain c i con where at: "bt_get (function_locations st) fid = Some (c, i)" "bt_get (xs_contracts st) c = Some con"
      "xc_name con = fst key" "i < length (xc_functions con)" "xf_id (xc_functions con ! i) = fid"
      "xf_name (xc_functions con ! i) = snd key"
    using export_okD(2) [OF ok key] by (auto simp: places_function_def)
  let ?f = "(xc_functions con ! i)\<lparr>xf_calls := out fid\<rparr>"
  have "named_at g key ?f" unfolding named_at_filled [OF g] using at by blast
  then show "\<exists>f. named_at g key f \<and> xf_id f = fid \<and> xf_calls f = out fid" using at(5) by (intro exI [of _ ?f]) simp
  show "k = key" if f: "named_at g k f" "xf_id f = fid"
  proof -
    obtain c' con' j where f': "bt_get (xs_contracts st) c' = Some con'" "xc_name con' = fst k" "j < length (xc_functions con')"
        "xf_name (xc_functions con' ! j) = snd k" "xf_id (xc_functions con' ! j) = fid"
      using f unfolding named_at_filled [OF g] by auto
    have "bt_get (function_locations st) fid = Some (c', j)"
      using export_okD(3) [OF ok f'(1)] f'(3,5) by (auto simp: contract_placed_def)
    then have "c' = c" "j = i" using at(1) by auto
    then show ?thesis using f' at by (simp add: prod_eq_iff)
  qed
qed

text \<open>What linking leaves: the extended state \<open>s\<close> and the calls \<open>out\<close> of each number.\<close>

definition linked :: "ExportState \<Rightarrow> ExportState \<Rightarrow> (nat \<Rightarrow> FunctionCall list) \<Rightarrow> (nat, Contract) btree \<Rightarrow> bool" where
  "linked st s out g \<longleftrightarrow> export_ok s \<and> filled out s g
     \<and> (\<forall>key cs. bt_get (pending_calls st) key = Some cs
       \<longrightarrow> (\<exists>fid n. bt_get (xs_function_ids s) key = Some fid \<and> out fid = call_records s fid n (sorted_list_of_set cs)))
     \<and> (\<forall>fid. out fid \<noteq> [] \<longrightarrow> (\<exists>key cs. bt_get (pending_calls st) key = Some cs \<and> bt_get (xs_function_ids s) key = Some fid))
     \<and> (\<forall>key cs callee args desc. bt_get (pending_calls st) key = Some cs \<longrightarrow> (callee, args, desc) \<in> cs
       \<longrightarrow> bt_get (xs_function_ids s) callee \<noteq> None)
     \<and> distinct (concat (map (\<lambda>(key, cs). map xl_id (out (the (bt_get (xs_function_ids s) key)))) (pending_calls st)))
     \<and> dom (bt_get (xs_module_ids st)) \<subseteq> dom (bt_get (xs_module_ids s))"

lemma linkedD:
  assumes "linked st s out g"
  shows "export_ok s" "filled out s g"
    and "bt_get (pending_calls st) key = Some cs
       \<Longrightarrow> \<exists>fid n. bt_get (xs_function_ids s) key = Some fid \<and> out fid = call_records s fid n (sorted_list_of_set cs)"
    and "l \<in> set (out fid) \<Longrightarrow> \<exists>key cs. bt_get (pending_calls st) key = Some cs \<and> bt_get (xs_function_ids s) key = Some fid"
    and "bt_get (pending_calls st) key = Some cs \<Longrightarrow> (callee, args, desc) \<in> cs
       \<Longrightarrow> \<exists>t. bt_get (xs_function_ids s) callee = Some t"
    and "distinct (concat (map (\<lambda>(key, cs). map xl_id (out (the (bt_get (xs_function_ids s) key)))) (pending_calls st)))"
    and "dom (bt_get (xs_module_ids st)) \<subseteq> dom (bt_get (xs_module_ids s))"
proof -
  note D = assms [unfolded linked_def, THEN conjunct1] assms [unfolded linked_def, THEN conjunct2]
  show "export_ok s" by (rule D(1))
  show "filled out s g" by (rule D(2) [THEN conjunct1])
  note D2 = D(2) [THEN conjunct2]
  show "bt_get (pending_calls st) key = Some cs
       \<Longrightarrow> \<exists>fid n. bt_get (xs_function_ids s) key = Some fid \<and> out fid = call_records s fid n (sorted_list_of_set cs)"
    by (rule D2 [THEN conjunct1, rule_format])
  note D3 = D2 [THEN conjunct2]
  show "l \<in> set (out fid) \<Longrightarrow> \<exists>key cs. bt_get (pending_calls st) key = Some cs \<and> bt_get (xs_function_ids s) key = Some fid"
    by (rule D3 [THEN conjunct1, rule_format]) auto
  note D4 = D3 [THEN conjunct2]
  show "bt_get (pending_calls st) key = Some cs \<Longrightarrow> (callee, args, desc) \<in> cs
       \<Longrightarrow> \<exists>t. bt_get (xs_function_ids s) callee = Some t"
    using D4 [THEN conjunct1, rule_format, of key cs callee args desc] by simp
  show "distinct (concat (map (\<lambda>(key, cs). map xl_id (out (the (bt_get (xs_function_ids s) key)))) (pending_calls st)))"
    by (rule D4 [THEN conjunct2, THEN conjunct1])
  show "dom (bt_get (xs_module_ids st)) \<subseteq> dom (bt_get (xs_module_ids s))" by (rule D4 [THEN conjunct2, THEN conjunct2])
qed

text \<open>A call record comes from a noted call.\<close>

lemma call_records_origin:
  assumes l: "l \<in> set (call_records s fid n pcs)"
  obtains callee args desc where "(callee, args, desc) \<in> set pcs" "xl_to l = the (bt_get (xs_function_ids s) callee)"
    "xl_description l = desc" "xl_from l = fid"
proof -
  from l obtain k callee args desc where "(k, callee, args, desc) \<in> set (enumerate 0 pcs)"
      "l = \<lparr>xl_id = n + k, xl_from = fid, xl_to = the (bt_get (xs_function_ids s) callee), xl_description = desc\<rparr>"
    by (auto simp: call_records_def)
  moreover from this(1) have "(callee, args, desc) \<in> set pcs" by (auto simp: in_set_enumerate_eq) (metis nth_mem)
  ultimately show ?thesis by (intro that) simp_all
qed

lemma link_graph_nat_linked:
  assumes ok: "export_ok st"
  obtains s out g where "link_graph_nat st = Inr g" "linked st s out g"
proof -
  obtain s where s: "add_externals_nat st = Inr s" "export_ok s" "pending_calls s = pending_calls st"
      "dom (bt_get (xs_module_ids st)) \<subseteq> dom (bt_get (xs_module_ids s))"
    and refs: "\<And>key cs callee args desc. bt_get (pending_calls st) key = Some cs \<Longrightarrow> (callee, args, desc) \<in> cs
       \<Longrightarrow> bt_get (xs_function_ids s) callee \<noteq> None"
    using add_externals_nat_ok [OF ok] by blast
  have get: "(key, cs) \<in> set (pending_calls st) \<longleftrightarrow> bt_get (pending_calls st) key = Some cs" for key cs
    by (rule bt_wf_get [OF export_okD(6) [OF ok]])
  have ids: "\<exists>fid. bt_get (xs_function_ids s) key = Some fid" and fin: "finite cs"
    if "bt_get (pending_calls st) key = Some cs" for key cs
    using export_okD(5) [OF s(2), of key cs] that s(3) by auto
  have "\<exists>g' nx' out'. foldR (emit_calls_nat s) (xs_contracts s, 1) (pending_calls st) = Inr (g', nx') \<and> filled out' s g' \<and> 1 \<le> nx'
      \<and> (\<forall>(key, cs) \<in> set (pending_calls st). \<exists>n. out' (the (bt_get (xs_function_ids s) key)) =
               call_records s (the (bt_get (xs_function_ids s) key)) n (sorted_list_of_set cs))
      \<and> (\<forall>fid. (\<forall>key \<in> fst ` set (pending_calls st). bt_get (xs_function_ids s) key \<noteq> Some fid) \<longrightarrow> out' fid = [])
      \<and> concat (map (\<lambda>(key, cs). map xl_id (out' (the (bt_get (xs_function_ids s) key)))) (pending_calls st)) = [1 ..< nx']"
  proof (rule emit_all [OF s(2) filled_start [OF s(2)]])
    show "distinct (map fst (pending_calls st))" by (rule bt_wf_distinct [OF export_okD(6) [OF ok]])
  next
    fix key cs assume "(key, cs) \<in> set (pending_calls st)"
    then show "\<exists>fid. bt_get (xs_function_ids s) key = Some fid \<and> [] = []" using ids unfolding get by simp
  next
    fix key cs callee args desc
    assume *: "(key, cs) \<in> set (pending_calls st)" "(callee, args, desc) \<in> set (sorted_list_of_set cs)"
    then show "bt_get (xs_function_ids s) callee \<noteq> None"
      using refs [of key cs callee args desc] fin [of key cs] unfolding get by simp
  qed
  then obtain g nx out where run: "foldR (emit_calls_nat s) (xs_contracts s, 1) (pending_calls st) = Inr (g, nx)" "filled out s g"
    and calls: "\<And>key cs. (key, cs) \<in> set (pending_calls st) \<Longrightarrow> \<exists>n. out (the (bt_get (xs_function_ids s) key)) =
               call_records s (the (bt_get (xs_function_ids s) key)) n (sorted_list_of_set cs)"
    and rest: "\<And>fid. (\<forall>key \<in> fst ` set (pending_calls st). bt_get (xs_function_ids s) key \<noteq> Some fid) \<Longrightarrow> out fid = []"
    and num: "concat (map (\<lambda>(key, cs). map xl_id (out (the (bt_get (xs_function_ids s) key)))) (pending_calls st)) = [1 ..< nx]"
    by blast
  have "link_graph_nat st = Inr g" using s run(1) by (simp add: link_graph_nat_def)
  moreover have "\<exists>fid n. bt_get (xs_function_ids s) key = Some fid \<and> out fid = call_records s fid n (sorted_list_of_set cs)"
    if "bt_get (pending_calls st) key = Some cs" for key cs
  proof -
    from ids [OF that] obtain fid where "bt_get (xs_function_ids s) key = Some fid" by blast
    with calls [of key cs] that show ?thesis unfolding get by simp
  qed
  moreover have "\<exists>key cs. bt_get (pending_calls st) key = Some cs \<and> bt_get (xs_function_ids s) key = Some fid"
    if "out fid \<noteq> []" for fid
    using rest [of fid] that get by force
  moreover have "distinct (concat (map (\<lambda>(key, cs). map xl_id (out (the (bt_get (xs_function_ids s) key)))) (pending_calls st)))"
    unfolding num by simp
  ultimately have "link_graph_nat st = Inr g \<and> linked st s out g"
    unfolding linked_def using s(2,4) run(2) refs by blast
  then show ?thesis by (intro that) auto
qed

lemma call_records_member:
  assumes i: "i < length pcs" "pcs ! i = (callee, args, desc)" and t: "bt_get (xs_function_ids s) callee = Some t"
  shows "\<lparr>xl_id = n + i, xl_from = fid, xl_to = t, xl_description = desc\<rparr> \<in> set (call_records s fid n pcs)"
proof -
  have "call_records s fid n pcs ! i = \<lparr>xl_id = n + i, xl_from = fid, xl_to = t, xl_description = desc\<rparr>"
    using i t by (simp add: call_records_def nth_enumerate_eq)
  then show ?thesis using i(1) nth_mem [of i "call_records s fid n pcs"] by (simp add: call_records_def)
qed

lemma link_graph_nat_edges:
  assumes ok: "export_ok st"
  shows "\<exists>g. link_graph_nat st = Inr g \<and> graph_edges g = noted_edges st"
proof -
  obtain s g out where run: "link_graph_nat st = Inr g" and L: "linked st s out g"
    using link_graph_nat_linked [OF ok] by metis
  note s = linkedD(1) [OF L] and g = linkedD(2) [OF L] and calls = linkedD(3) [OF L] and origin = linkedD(4) [OF L]
    and refs = linkedD(5) [OF L]
  have fin: "finite cs" if "bt_get (pending_calls st) key = Some cs" for key cs using export_okD(5) [OF ok that] by simp
  have "(k, k', d) \<in> noted_edges st" if "(k, k', d) \<in> graph_edges g" for k k' d
  proof -
    from that obtain f l f' where e: "named_at g k f" "l \<in> set (xf_calls f)" "xl_description l = d" "named_at g k' f'" "xf_id f' = xl_to l"
      by (auto simp: graph_edges_def)
    then have l: "l \<in> set (out (xf_id f))" by (auto simp: named_at_filled [OF g])
    obtain key cs where key: "bt_get (pending_calls st) key = Some cs" "bt_get (xs_function_ids s) key = Some (xf_id f)"
      using origin [OF l] by blast
    have k: "k = key" using named_at_id(2) [OF s g key(2) e(1)] by simp
    obtain n where "out (xf_id f) = call_records s (xf_id f) n (sorted_list_of_set cs)" using calls [OF key(1)] key(2) by auto
    with l have "l \<in> set (call_records s (xf_id f) n (sorted_list_of_set cs))" by simp
    then obtain callee args desc where to: "(callee, args, desc) \<in> set (sorted_list_of_set cs)"
        "xl_to l = the (bt_get (xs_function_ids s) callee)" "xl_description l = desc"
      by (rule call_records_origin)
    have pc: "(callee, args, d) \<in> cs" using to(1,3) e(3) fin [OF key(1)] by simp
    obtain t where t: "bt_get (xs_function_ids s) callee = Some t" using refs [OF key(1) pc] by blast
    have "k' = callee" using named_at_id(2) [OF s g t e(4)] e(5) to(2) t by simp
    with k key(1) pc have "(k, k', args, d) \<in> noted_calls st" by (simp add: noted_calls_def)
    then show ?thesis unfolding noted_edges_def by (rule rev_image_eqI) simp
  qed
  moreover have "(k, k', d) \<in> graph_edges g" if "(k, k', d) \<in> noted_edges st" for k k' d
  proof -
    from that obtain cs args where k: "bt_get (pending_calls st) k = Some cs" "(k', args, d) \<in> cs"
      by (auto simp: noted_edges_def noted_calls_def)
    obtain fid n where fid: "bt_get (xs_function_ids s) k = Some fid" "out fid = call_records s fid n (sorted_list_of_set cs)"
      using calls [OF k(1)] by blast
    obtain t where t: "bt_get (xs_function_ids s) k' = Some t" using refs [OF k] by blast
    obtain i where i: "i < length (sorted_list_of_set cs)" "sorted_list_of_set cs ! i = (k', args, d)"
      using k(2) fin [OF k(1)] by (metis in_set_conv_nth set_sorted_list_of_set)
    let ?l = "\<lparr>xl_id = n + i, xl_from = fid, xl_to = t, xl_description = d\<rparr>"
    have "?l \<in> set (out fid)"
      unfolding fid(2) by (rule call_records_member [OF i t])
    moreover obtain f where "named_at g k f" "xf_calls f = out fid" using named_at_id(1) [OF s g fid(1)] by blast
    moreover obtain f' where "named_at g k' f'" "xf_id f' = t" using named_at_id(1) [OF s g t] by blast
    ultimately show ?thesis unfolding graph_edges_def mem_Collect_eq prod.case
      by (intro exI [of _ f] exI [of _ ?l] exI [of _ f']) simp
  qed
  ultimately show ?thesis using run by auto
qed

lemma distinct_concat_origin:
  "distinct (concat (map F xs)) \<Longrightarrow> x \<in> set xs \<Longrightarrow> y \<in> set xs \<Longrightarrow> a \<in> set (F x) \<Longrightarrow> a \<in> set (F y) \<Longrightarrow> x = y"
  by (induction xs) auto

lemma distinct_map_inj: "distinct (map h xs) \<Longrightarrow> x \<in> set xs \<Longrightarrow> y \<in> set xs \<Longrightarrow> h x = h y \<Longrightarrow> x = y"
  by (auto simp: distinct_map dest: inj_onD)

text \<open>Numbers identify functions and calls, and the ends of a call are functions of the graph.\<close>

definition graph_closed :: "(nat, Contract) btree \<Rightarrow> bool" where
  "graph_closed g \<longleftrightarrow> (\<forall>c i f l. function_at g c i = Some f \<and> l \<in> set (xf_calls f)
     \<longrightarrow> xl_from l = xf_id f \<and> (\<exists>c' j f'. function_at g c' j = Some f' \<and> xf_id f' = xl_to l))"

definition graph_numbered :: "(nat, Contract) btree \<Rightarrow> bool" where
  "graph_numbered g \<longleftrightarrow>
     (\<forall>c con. bt_get g c = Some con \<longrightarrow> xc_id con = c)
     \<and> (\<forall>c i f c' j f'. function_at g c i = Some f \<and> function_at g c' j = Some f' \<and> xf_id f = xf_id f' \<longrightarrow> c = c' \<and> i = j)
     \<and> (\<forall>c i f l c' j f' l'. function_at g c i = Some f \<and> l \<in> set (xf_calls f) \<and> function_at g c' j = Some f'
          \<and> l' \<in> set (xf_calls f') \<and> xl_id l = xl_id l' \<longrightarrow> f = f' \<and> l = l')"

lemma linked_closed:
  assumes L: "linked st s out g" and ok: "export_ok st"
  shows "graph_closed g"
  unfolding graph_closed_def
proof (intro allI impI, elim conjE)
  fix c i f l assume f: "function_at g c i = Some f" and l: "l \<in> set (xf_calls f)"
  note s = linkedD(1) [OF L] and g = linkedD(2) [OF L]
  have l': "l \<in> set (out (xf_id f))" using f l by (auto simp: function_at_filled [OF g])
  obtain key cs where key: "bt_get (pending_calls st) key = Some cs" "bt_get (xs_function_ids s) key = Some (xf_id f)"
    using linkedD(4) [OF L l'] by blast
  obtain n where "out (xf_id f) = call_records s (xf_id f) n (sorted_list_of_set cs)"
    using linkedD(3) [OF L key(1)] key(2) by auto
  with l' have "l \<in> set (call_records s (xf_id f) n (sorted_list_of_set cs))" by simp
  then obtain callee args desc where to: "(callee, args, desc) \<in> set (sorted_list_of_set cs)"
      "xl_to l = the (bt_get (xs_function_ids s) callee)" "xl_from l = xf_id f"
    by (rule call_records_origin)
  have pc: "(callee, args, desc) \<in> cs" using to(1) export_okD(5) [OF ok key(1)] by simp
  obtain t where t: "bt_get (xs_function_ids s) callee = Some t" using linkedD(5) [OF L key(1) pc] by blast
  obtain c' j con where at: "bt_get (xs_contracts s) c' = Some con" "j < length (xc_functions con)" "xf_id (xc_functions con ! j) = t"
    using export_okD(2) [OF s t] by (auto simp: places_function_def)
  have "function_at g c' j = Some ((xc_functions con ! j)\<lparr>xf_calls := out t\<rparr>)"
    using at by (simp add: function_at_filled [OF g])
  then show "xl_from l = xf_id f \<and> (\<exists>c' j f'. function_at g c' j = Some f' \<and> xf_id f' = xl_to l)"
    using to(2,3) t at(3) by (intro conjI exI [of _ c'] exI [of _ j] exI [of _ "(xc_functions con ! j)\<lparr>xf_calls := out t\<rparr>"]) simp_all
qed

lemma function_at_location:
  assumes L: "linked st s out g" and f: "function_at g c i = Some f"
  shows "bt_get (function_locations s) (xf_id f) = Some (c, i)" "xf_calls f = out (xf_id f)"
proof -
  obtain con where con: "bt_get (xs_contracts s) c = Some con" "i < length (xc_functions con)"
      "f = (xc_functions con ! i)\<lparr>xf_calls := out (xf_id (xc_functions con ! i))\<rparr>"
    using f by (auto simp: function_at_filled [OF linkedD(2) [OF L]])
  then show "xf_calls f = out (xf_id f)" by simp
  show "bt_get (function_locations s) (xf_id f) = Some (c, i)"
    using export_okD(3) [OF linkedD(1) [OF L] con(1)] con(2,3) by (simp add: contract_placed_def)
qed

lemma linked_numbered:
  assumes L: "linked st s out g"
  shows "graph_numbered g"
proof -
  note s = linkedD(1) [OF L] and g = linkedD(2) [OF L]
  let ?F = "\<lambda>(key, cs). map xl_id (out (the (bt_get (xs_function_ids s) key)))"
  have "xc_id con = c" if con: "bt_get g c = Some con" for c con
  proof -
    from con g obtain d where "bt_get (xs_contracts s) c = Some d" "con = fill_calls out d" by (auto simp: filled_def)
    then show ?thesis using export_okD(3) [OF s] by (auto simp: contract_placed_def fill_calls_def)
  qed
  moreover have same: "c = c' \<and> i = j" if "function_at g c i = Some f" "function_at g c' j = Some f'" "xf_id f = xf_id f'" for c i f c' j f'
    using function_at_location(1) [OF L that(1)] function_at_location(1) [OF L that(2)] that(3) by simp
  moreover have "f = f' \<and> l = l'" if f: "function_at g c i = Some f" "l \<in> set (xf_calls f)"
      and f': "function_at g c' j = Some f'" "l' \<in> set (xf_calls f')" and eq: "xl_id l = xl_id l'" for c i f l c' j f' l'
  proof -
    have l: "l \<in> set (out (xf_id f))" "l' \<in> set (out (xf_id f'))"
      using f f' function_at_location(2) [OF L f(1)] function_at_location(2) [OF L f'(1)] by simp_all
    obtain key cs where k: "(key, cs) \<in> set (pending_calls st)" "bt_get (xs_function_ids s) key = Some (xf_id f)"
      using linkedD(4) [OF L l(1)] by (blast dest: map_of_SomeD)
    obtain key' cs' where k': "(key', cs') \<in> set (pending_calls st)" "bt_get (xs_function_ids s) key' = Some (xf_id f')"
      using linkedD(4) [OF L l(2)] by (blast dest: map_of_SomeD)
    have in1: "xl_id l \<in> set (?F (key, cs))" using k(2) l(1) by simp
    have in2: "xl_id l \<in> set (?F (key', cs'))" unfolding eq using k'(2) l(2) by simp
    have "(key, cs) = (key', cs')" by (rule distinct_concat_origin [OF linkedD(6) [OF L] k(1) k'(1) in1 in2])
    then have id: "xf_id f = xf_id f'" using k(2) k'(2) by simp
    then have "f = f'" using same [OF f(1) f'(1)] f(1) f'(1) by simp
    moreover have "distinct (map xl_id (out (xf_id f)))"
      using linkedD(6) [OF L] k by (force simp: distinct_concat_iff)
    then have "l = l'" using distinct_map_inj l id eq by metis
    ultimately show ?thesis by simp
  qed
  ultimately show ?thesis unfolding graph_numbered_def by blast
qed

section \<open>How far the counters go\<close>

definition entry_size :: "Entry \<Rightarrow> nat" where
  "entry_size e = 1 + sum_list (map (\<lambda>(f, cs). 1 + length cs) (snd (snd e)))"

definition entry_call_count :: "Entry \<Rightarrow> nat" where
  "entry_call_count e = sum_list (map (\<lambda>(f, cs). length cs) (snd (snd e)))"

lemma entry_size_eq: "entry_size e = 1 + length (snd (snd e)) + entry_call_count e"
proof -
  have "sum_list (map (\<lambda>(f, cs). 1 + length cs) ps) = length ps + sum_list (map (\<lambda>(f, cs). length cs) ps)"
    for ps :: "(MoveFunctionAbi \<times> MoveFunctionCall list) list" by (induction ps) auto
  then show ?thesis by (simp add: entry_size_def entry_call_count_def)
qed

lemma export_functions_count:
  "next_function_id (fst (foldl (export_function X mid cid path) s ps)) = next_function_id (fst s) + length ps
   \<and> next_contract_id (fst (foldl (export_function X mid cid path) s ps)) = next_contract_id (fst s)"
proof (induction ps arbitrary: s)
  case (Cons p ps)
  have "next_function_id (fst (export_function X mid cid path s p)) = next_function_id (fst s) + 1
      \<and> next_contract_id (fst (export_function X mid cid path s p)) = next_contract_id (fst s)"
    by (cases s; cases p) (simp add: export_function_def Let_def)
  then show ?case using Cons.IH by simp
qed simp

lemma export_entry_count:
  "next_contract_id (export_entry X st e) = next_contract_id st + 1"
  "next_function_id (export_entry X st e) = next_function_id st + length (snd (snd e))"
proof -
  obtain mid path calls where e: "e = (mid, path, calls)" by (metis surj_pair)
  have "next_contract_id (put_contract cid mid path desc s) = next_contract_id (fst s)"
    "next_function_id (put_contract cid mid path desc s) = next_function_id (fst s)" for cid desc s
    by (cases s; simp add: put_contract_def)+
  then show "next_contract_id (export_entry X st e) = next_contract_id st + 1"
    "next_function_id (export_entry X st e) = next_function_id st + length (snd (snd e))"
    by (simp_all add: e export_entry_def export_functions_count open_module_def)
qed

lemma export_all_snoc: "export_all X (es @ [e]) = export_new X (export_all X es) e"
  by (simp add: export_all_def)

lemma export_all_count:
  "next_contract_id (export_all X es) \<le> 1 + length es
   \<and> next_function_id (export_all X es) \<le> 1 + sum_list (map (\<lambda>e. length (snd (snd e))) es)"
proof (induction es rule: rev_induct)
  case (snoc e es)
  then show ?case unfolding export_all_snoc by (auto simp: export_new_def export_entry_count)
qed (simp add: export_all_def ExportState_new_def)

lemma pending_count:
  "distinct (map fst ps) \<Longrightarrow> \<forall>p \<in> set ps. finite (snd p)
     \<Longrightarrow> sum_list (map call_count ps) = card (\<Union>p \<in> set ps. Pair (fst p) ` snd p)"
proof (induction ps)
  case (Cons p ps)
  have "fst p \<noteq> fst p'" if "p' \<in> set ps" for p'
    using Cons.prems(1) that by (metis distinct.simps(2) image_eqI list.simps(9) set_map)
  then have "Pair (fst p) ` snd p \<inter> (\<Union>p \<in> set ps. Pair (fst p) ` snd p) = {}" by blast
  then have "card (Pair (fst p) ` snd p \<union> (\<Union>p \<in> set ps. Pair (fst p) ` snd p))
      = card (Pair (fst p) ` snd p) + card (\<Union>p \<in> set ps. Pair (fst p) ` snd p)"
    using Cons.prems by (intro card_Un_disjoint) auto
  moreover have "card (Pair (fst p) ` snd p) = call_count p"
    by (simp add: card_image inj_on_def)
  ultimately show ?case using Cons by simp
qed simp

definition entry_call_list :: "ExportApi \<Rightarrow> Entry \<Rightarrow> (MoveFunctionKey \<times> PendingCall) list" where
  "entry_call_list X e = concat (map (\<lambda>(f, cs). map (\<lambda>c. ((fst e, fn_name f), pending_call X c)) cs) (snd (snd e)))"

lemma entry_call_list:
  "set (entry_call_list X e) = entry_calls X e" "length (entry_call_list X e) = entry_call_count e"
proof -
  show "set (entry_call_list X e) = entry_calls X e"
    by (fastforce simp: entry_call_list_def entry_calls_def)
  show "length (entry_call_list X e) = entry_call_count e"
    by (simp add: entry_call_list_def entry_call_count_def length_concat comp_def case_prod_unfold)
qed

lemma first_entries_sum: "sum_list (map f (first_entries seen es)) \<le> (sum_list (map f es) :: nat)"
  by (induction es arbitrary: seen) (auto simp: trans_le_add2)

lemma export_all_calls:
  "sum_list (map call_count (pending_calls (export_all X es))) \<le> sum_list (map entry_call_count es)"
proof -
  let ?st = "export_all X es" and ?es = "first_entries {} es"
  have wf: "bt_wf (pending_calls ?st)" using export_okD(6) [OF export_all_ok] .
  have get: "p \<in> set (pending_calls ?st) \<longleftrightarrow> bt_get (pending_calls ?st) (fst p) = Some (snd p)" for p
    using bt_wf_get [OF wf, of "fst p" "snd p"] by simp
  have "\<forall>p \<in> set (pending_calls ?st). finite (snd p)"
    using export_okD(5) [OF export_all_ok] get by blast
  then have "sum_list (map call_count (pending_calls ?st)) = card (\<Union>p \<in> set (pending_calls ?st). Pair (fst p) ` snd p)"
    by (rule pending_count [OF bt_wf_distinct [OF wf]])
  also have "(\<Union>p \<in> set (pending_calls ?st). Pair (fst p) ` snd p) = noted_calls ?st"
    using get by (force simp: noted_calls_def)
  also have "noted_calls ?st = set (concat (map (entry_call_list X) ?es))"
    by (simp add: export_all_notes entry_call_list)
  also have "card \<dots> \<le> length (concat (map (entry_call_list X) ?es))" by (rule card_length)
  also have "\<dots> = sum_list (map entry_call_count ?es)" by (simp add: length_concat comp_def entry_call_list)
  also have "\<dots> \<le> sum_list (map entry_call_count es)" by (rule first_entries_sum)
  finally show ?thesis .
qed

lemma link_export_all:
  assumes "link_graph_nat (export_all X es) = Inr g" "sum_list (map entry_size es) + 1 < 2 ^ 31"
  shows "link_graph (export_all X es) = Inr g"
proof (rule link_graph_in_range [OF assms(1) refl])
  have sizes: "sum_list (map entry_size es)
      = length es + sum_list (map (\<lambda>e. length (snd (snd e))) es) + sum_list (map entry_call_count es)"
    by (induction es) (auto simp: entry_size_eq)
  note c = export_all_count [of X es] export_all_calls [of X es]
  show "next_contract_id (export_all X es) + sum_list (map call_count (pending_calls (export_all X es))) < 2 ^ 31"
    "next_function_id (export_all X es) + sum_list (map call_count (pending_calls (export_all X es))) < 2 ^ 31"
    "1 + sum_list (map call_count (pending_calls (export_all X es))) < 2 ^ 31"
    using c assms(2) unfolding sizes by linarith+
qed

section \<open>The walk over the packages\<close>

text \<open>Every state of the walk is that of a list of analysed modules: in the order in which they are met, the
  first module of every name outside the standard library, with the calls of its functions.\<close>

definition exported_name :: "ExportApi \<Rightarrow> CompiledModule \<Rightarrow> string" where
  "exported_name X m = canonical_module_id (account_text X (cm_address m)) (cm_name m)"

definition entry_for :: "ExportApi \<Rightarrow> CompiledModule \<Rightarrow> Entry \<Rightarrow> bool" where
  "entry_for X m e \<longleftrightarrow> fst e = exported_name X m
     \<and> (\<exists>a. analysis_from_sui_module (xa_find_def X) m = Inr a \<and> snd (snd e) = analysis_calls a)"

fun first_modules :: "ExportApi \<Rightarrow> string set \<Rightarrow> CompiledModule list \<Rightarrow> CompiledModule list" where
  "first_modules X seen [] = []"
| "first_modules X seen (m # ms) =
     (if is_sui_std_module (account_text X (cm_address m)) \<or> exported_name X m \<in> seen then first_modules X seen ms
      else m # first_modules X (insert (exported_name X m) seen) ms)"

lemma first_modules_append:
  "first_modules X seen (xs @ ys)
     = first_modules X seen xs @ first_modules X (seen \<union> exported_name X ` set (first_modules X seen xs)) ys"
  by (induction xs arbitrary: seen) simp_all

lemma seen_export_all: "seen_modules (export_all X es) = fst ` set es"
proof (induction es rule: rev_induct)
  case (snoc e es)
  then show ?case unfolding export_all_snoc by (auto simp: export_new_def export_entry_notes)
qed (simp add: export_all_def ExportState_new_def)

lemma entry_for_names: "list_all2 (entry_for X) ms es \<Longrightarrow> fst ` set es = exported_name X ` set ms"
  by (induction rule: list_all2_induct) (auto simp: entry_for_def)

lemma export_module_walk:
  assumes run: "export_module n X package_root root pname (export_all X es) m = Some (Inr st)"
  shows "\<exists>fs. st = export_all X (es @ fs) \<and> list_all2 (entry_for X) (first_modules X (fst ` set es) [m]) fs"
proof (cases "is_sui_std_module (account_text X (cm_address m)) \<or> exported_name X m \<in> fst ` set es")
  case True
  then have "st = export_all X es"
    using run by (auto simp: export_module_def Let_def exported_name_def [symmetric] seen_export_all split: if_splits)
  with True show ?thesis by (intro exI [of _ "[]"]) simp
next
  case False
  then obtain path a where a: "analysis_from_sui_module (xa_find_def X) m = Inr a"
      "st = export_entry X (export_all X es) (exported_name X m, path, analysis_calls a)"
    using run by (auto simp: export_module_def Let_def exported_name_def [symmetric] seen_export_all bindFR_eq_Inr bindR_eq_Inr)
  let ?e = "(exported_name X m, path, analysis_calls a)"
  have "export_all X (es @ [?e]) = st"
    using False a(2) by (simp add: export_all_snoc export_new_def seen_export_all)
  moreover have "entry_for X m ?e" using a(1) by (simp add: entry_for_def)
  ultimately show ?thesis using False by (intro exI [of _ "[?e]"]) simp
qed

lemma export_walk_Cons:
  assumes fs: "list_all2 (entry_for X) (first_modules X (fst ` set es) xs) fs"
    and gs: "list_all2 (entry_for X) (first_modules X (fst ` set (es @ fs)) ys) gs"
  shows "list_all2 (entry_for X) (first_modules X (fst ` set es) (xs @ ys)) (fs @ gs)"
  unfolding first_modules_append
  using fs gs entry_for_names [OF fs] by (intro list_all2_appendI) (simp_all add: image_Un)

lemma export_modules_walk:
  "foldFR (export_module n X package_root root pname) (export_all X es) ms = Some (Inr st)
     \<Longrightarrow> \<exists>fs. st = export_all X (es @ fs) \<and> list_all2 (entry_for X) (first_modules X (fst ` set es) ms) fs"
proof (induction ms arbitrary: es)
  case (Cons m ms)
  obtain t where t: "export_module n X package_root root pname (export_all X es) m = Some (Inr t)"
      "foldFR (export_module n X package_root root pname) t ms = Some (Inr st)"
    using Cons.prems by (auto simp: bindFR_eq_Inr)
  obtain fs where fs: "t = export_all X (es @ fs)" "list_all2 (entry_for X) (first_modules X (fst ` set es) [m]) fs"
    using export_module_walk [OF t(1)] by blast
  obtain gs where gs: "st = export_all X ((es @ fs) @ gs)" "list_all2 (entry_for X) (first_modules X (fst ` set (es @ fs)) ms) gs"
    using Cons.IH t(2) fs(1) by blast
  show ?case using gs(1) export_walk_Cons [OF fs(2) gs(2)] by (intro exI [of _ "fs @ gs"]) simp
qed (auto intro!: exI [of _ "[]"])

text \<open>The packages built at the search roots, and their modules in order.\<close>

abbreviation built :: "ExportApi \<Rightarrow> bool \<Rightarrow> string \<Rightarrow> SuiCompiledPackage \<Rightarrow> bool" where
  "built X test_mode root p \<equiv> build_checked (xa_compiler X) root test_mode False True default_isolation = Inr p"

definition modules_of :: "SuiCompiledPackage list \<Rightarrow> CompiledModule list" where
  "modules_of ps = concat (map (\<lambda>p. map compiled_module (package_modules p)) ps)"

lemma export_roots_walk:
  "foldFR (export_root n X test_mode package_root) (export_all X es) roots = Some (Inr st)
     \<Longrightarrow> \<exists>ps fs. list_all2 (built X test_mode) roots ps \<and> st = export_all X (es @ fs)
        \<and> list_all2 (entry_for X) (first_modules X (fst ` set es) (modules_of ps)) fs"
proof (induction roots arbitrary: es)
  case (Cons root roots)
  obtain t where t: "export_root n X test_mode package_root (export_all X es) root = Some (Inr t)"
      "foldFR (export_root n X test_mode package_root) t roots = Some (Inr st)"
    using Cons.prems by (auto simp: bindFR_eq_Inr)
  obtain p where p: "built X test_mode root p"
      "foldFR (export_module n X package_root root (package_name p)) (export_all X es) (map compiled_module (package_modules p)) = Some (Inr t)"
    using t(1) by (auto simp: bindFR_eq_Inr export_root_def)
  obtain fs where fs: "t = export_all X (es @ fs)"
      "list_all2 (entry_for X) (first_modules X (fst ` set es) (map compiled_module (package_modules p))) fs"
    using export_modules_walk [OF p(2)] by blast
  obtain ps gs where gs: "list_all2 (built X test_mode) roots ps" "st = export_all X ((es @ fs) @ gs)"
      "list_all2 (entry_for X) (first_modules X (fst ` set (es @ fs)) (modules_of ps)) gs"
    using Cons.IH t(2) fs(1) by blast
  have "modules_of (p # ps) = map compiled_module (package_modules p) @ modules_of ps" by (simp add: modules_of_def)
  then show ?case
    using p(1) gs(1,2) export_walk_Cons [OF fs(2) gs(3)]
    by (intro exI [of _ "p # ps"] exI [of _ "fs @ gs"]) simp
qed (auto intro!: exI [of _ "[]"] simp: modules_of_def)

lemma load_call_graph_walk:
  assumes "load_call_graph n X package_root test_mode = Some (Inr g)"
  obtains root roots ps es where "canonical_package_root (xa_file X) package_root = Inr root"
    "resolve_search_roots (xa_loader X) root = Inr roots" "list_all2 (built X test_mode) roots ps"
    "list_all2 (entry_for X) (first_modules X {} (modules_of ps)) es"
    "link_graph (export_all X es) = Inr (graph_contracts g)" "graph_interfaces g = []"
proof -
  obtain root roots st where r: "canonical_package_root (xa_file X) package_root = Inr root"
      "resolve_search_roots (xa_loader X) root = Inr roots" "graph_interfaces g = []"
      "foldFR (export_root n X test_mode root) ExportState_new roots = Some (Inr st)" "link_graph st = Inr (graph_contracts g)"
    using assms unfolding load_call_graph_def by (auto elim!: bindFR_E simp: bindR_eq_Inr)
  have "foldFR (export_root n X test_mode root) (export_all X []) roots = Some (Inr st)"
    using r(4) by (simp add: export_all_def)
  from export_roots_walk [OF this] obtain ps es where "list_all2 (built X test_mode) roots ps" "st = export_all X es"
      "list_all2 (entry_for X) (first_modules X {} (modules_of ps)) es"
    by auto
  then show ?thesis using that r by blast
qed

section \<open>The search for sources ends\<close>

text \<open>The directories below a directory are at most \<open>w d\<close>: a finite tree of directories, as \<open>file_type\<close> does not
  follow links.\<close>

definition finite_tree :: "FileApi \<Rightarrow> (string \<Rightarrow> nat) \<Rightarrow> bool" where
  "finite_tree F w \<longleftrightarrow> (\<forall>d es. read_dir F d = Some es
     \<longrightarrow> sum_list (map (\<lambda>e. if snd e = Some IsDir then Suc (w (fst e)) else 0) es) \<le> w d)"

abbreviation tree_size :: "(string \<Rightarrow> nat) \<Rightarrow> string list \<Rightarrow> nat" where
  "tree_size w pending \<equiv> sum_list (map (\<lambda>d. Suc (w d)) pending)"

lemma scan_entries_size:
  "scan_entries F name es pending = Inr pending'
     \<Longrightarrow> tree_size w pending' = tree_size w pending + sum_list (map (\<lambda>e. if snd e = Some IsDir then Suc (w (fst e)) else 0) es)"
  by (induction es pending rule: scan_entries.induct) (auto split: if_splits)

lemma find_file_loop_ends:
  assumes tree: "finite_tree F w"
  shows "tree_size w pending < n \<Longrightarrow> find_file_loop n F name pending \<noteq> None"
proof (induction n arbitrary: pending)
  case (Suc n)
  show ?case
  proof (cases "pending = []")
    case False
    have split: "tree_size w pending = tree_size w (butlast pending) + Suc (w (last pending))"
      by (subst append_butlast_last_id [OF False, symmetric]) simp
    have "find_file_loop n F name (butlast pending) \<noteq> None" using Suc split by (intro Suc.IH) simp
    moreover have "find_file_loop n F name pending' \<noteq> None"
      if "read_dir F (last pending) = Some es" "scan_entries F name es (butlast pending) = Inr pending'" for es pending'
    proof (rule Suc.IH)
      have "sum_list (map (\<lambda>e. if snd e = Some IsDir then Suc (w (fst e)) else 0) es) \<le> w (last pending)"
        using tree that(1) by (simp add: finite_tree_def)
      then show "tree_size w pending' < n" using scan_entries_size [OF that(2), of w] split Suc.prems by simp
    qed
    ultimately show ?thesis using False by (simp add: Let_def split: option.split sum.split)
  qed simp
qed simp

lemma infer_relative_source_path_ends:
  assumes "finite_tree F w" and "\<forall>d. w d + 1 < n"
  shows "infer_relative_source_path n F analysis_root package_root pname name \<noteq> None"
proof -
  have "find_module_source_file n F root name \<noteq> None" for root
    using find_file_loop_ends [OF assms(1), of "[root]" n] assms(2) by (simp add: find_module_source_file_def)
  then have "first_source n F roots name \<noteq> None" for roots
    by (induction roots) (auto split: option.split)
  then show ?thesis by (simp add: infer_relative_source_path_def del: first_source.simps)
qed

lemma foldFR_ends: "(\<And>s x. x \<in> set xs \<Longrightarrow> f s x \<noteq> None) \<Longrightarrow> foldFR f s xs \<noteq> None"
proof (induction xs arbitrary: s)
  case (Cons x xs)
  have "f s x \<noteq> None" "\<And>t. foldFR f t xs \<noteq> None" using Cons by simp_all
  then show ?case by (auto simp: bindFR_def split: sum.split)
qed simp

lemma export_root_ends:
  assumes "finite_tree (xa_file X) w" and "\<forall>d. w d + 1 < n"
  shows "export_root n X test_mode package_root st root \<noteq> None"
proof -
  have "export_module n X package_root root pname st m \<noteq> None" for pname st m
    using infer_relative_source_path_ends [OF assms] by (simp add: export_module_def bindFR_def checked_i32_def Let_def)
  then have "foldFR (export_module n X package_root root pname) st ms \<noteq> None" for pname ms by (intro foldFR_ends)
  then show ?thesis by (simp add: export_root_def bindFR_def split: sum.split)
qed

section \<open>Properties\<close>

text \<open>
  C38: the exported call graph of any list of analysed modules, as long as modules, functions and calls together
  are fewer than \<open>2 ^ 31 - 1\<close>. Linking them never panics: no counter of type \<open>i32\<close> overflows, and every name
  noted for a call gets a number and a place, in a module of the packages or in a placeholder for an
  external one. In the graph the numbers of contracts, functions and calls are unique, a call is held by the
  function it comes from and leads to a function of the graph, and the edges, by names, are exactly the
  calls of the first module of every name, with their type arguments.
\<close>

theorem call_graph_exported:
  assumes "sum_list (map entry_size es) + 1 < 2 ^ 31"
  shows "\<exists>g. link_graph (export_all X es) = Inr g \<and> graph_closed g \<and> graph_numbered g
     \<and> graph_edges g = (\<lambda>(key, callee, _, desc). (key, callee, desc)) ` (\<Union>e \<in> set (first_entries {} es). entry_calls X e)"
proof -
  obtain s out g where g: "link_graph_nat (export_all X es) = Inr g" "linked (export_all X es) s out g"
    by (rule link_graph_nat_linked [OF export_all_ok])
  then have "graph_closed g \<and> graph_numbered g
     \<and> graph_edges g = (\<lambda>(key, callee, _, desc). (key, callee, desc)) ` (\<Union>e \<in> set (first_entries {} es). entry_calls X e)"
    using link_graph_nat_edges [OF export_all_ok, of X es] linked_closed [OF g(2) export_all_ok] linked_numbered [OF g(2)]
    by (simp add: noted_edges_def export_all_notes)
  then show ?thesis using link_export_all [OF g(1) assms] by blast
qed

text \<open>A package of one source directory whose compiler gives nothing but an empty bundle.\<close>

definition demo_files :: FileApi where
  "demo_files = \<lparr>canonical_path = \<lambda>p. Some p, path_is_dir = \<lambda>p. True, path_is_file = \<lambda>p. True,
     path_join = \<lambda>a b. a @ ''/'' @ b, read_dir = \<lambda>d. if d = ''p/sources'' then Some [(''p/sources/app.move'', Some IsFile)] else None,
     path_extension = \<lambda>_. Some ''move'', path_stem = \<lambda>_. Some ''app'', path_strip_prefix = \<lambda>p _. Some p,
     path_file_name = \<lambda>p. Some p\<rparr>"

definition demo_export :: ExportApi where
  "demo_export = \<lparr>xa_file = demo_files, xa_compiler = bundle_compiler,
     xa_loader = \<lparr>sorted_packages = \<lambda>_. Inr [], canonicalize = \<lambda>p. Inr p, is_system_package = \<lambda>_. False\<rparr>,
     xa_find_def = \<lambda>_ _. None, account_text = \<lambda>_. ''9'', full_text = \<lambda>_. ''0x9'', short_text = \<lambda>_. ''0x9'', canonical_text = \<lambda>_. ''9''\<rparr>"

text \<open>A module whose one function calls a function of another package.\<close>

definition demo_caller :: MoveFunctionAbi where
  "demo_caller = \<lparr>fn_name = ''swap'', parameters = [], return_paramters = [], fn_type_parameters = [], visibility = Public, is_entry = True\<rparr>"

definition demo_entries :: "Entry list" where
  "demo_entries = [(''0x9::app'', ''p/sources/app.move'', [(demo_caller, [\<lparr>call_target_module = \<lparr>module_address = 7, mod_name = ''pool''\<rparr>,
     call_abi = demo_caller\<lparr>fn_name := ''take''\<rparr>, call_tys = []\<rparr>])])]"

theorem call_graph_exported_witness:
  "\<exists>g. link_graph (export_all demo_export demo_entries) = Inr g \<and> graph_closed g \<and> graph_numbered g
     \<and> graph_edges g = {((''0x9::app'', ''swap''), (canonical_module_id ''0x9'' ''pool'', ''take''), None)}"
proof -
  have "sum_list (map entry_size demo_entries) + 1 < 2 ^ 31" by (simp add: demo_entries_def entry_size_def)
  from call_graph_exported [OF this, of demo_export]
  show ?thesis by (simp add: demo_entries_def entry_calls_def pending_call_def render_call_description_def demo_export_def demo_caller_def)
qed

text \<open>
  C39: loading the call graph of a package ends, given that the directories searched for sources form a
  finite tree. A graph that it returns is the exported graph of all modules of the packages: every search
  root was built, and the modules of the graph are, in the order in which they are met, the first module
  of every name outside the standard library, none left out, each with the calls of its functions.
\<close>

theorem load_call_graph_ends:
  assumes "finite_tree (xa_file X) w" and "\<forall>d. w d + 1 < n"
  shows "\<exists>r. load_call_graph n X package_root test_mode = Some r
    \<and> (\<forall>g. r = Inr g \<longrightarrow> (\<exists>root roots ps es. canonical_package_root (xa_file X) package_root = Inr root
         \<and> resolve_search_roots (xa_loader X) root = Inr roots
         \<and> list_all2 (\<lambda>r p. build_checked (xa_compiler X) r test_mode False True default_isolation = Inr p) roots ps
         \<and> list_all2 (entry_for X) (first_modules X {} (modules_of ps)) es
         \<and> link_graph (export_all X es) = Inr (graph_contracts g)))"
proof -
  have walk: "foldFR (export_root n X test_mode root) st roots \<noteq> None" for root roots st
    by (rule foldFR_ends) (rule export_root_ends [OF assms])
  have "load_call_graph n X package_root test_mode \<noteq> None"
    unfolding load_call_graph_def bindFR_def by (simp add: walk [unfolded not_None_eq] walk split: sum.split option.split)
  moreover have "\<exists>root roots ps es. canonical_package_root (xa_file X) package_root = Inr root
         \<and> resolve_search_roots (xa_loader X) root = Inr roots \<and> list_all2 (built X test_mode) roots ps
         \<and> list_all2 (entry_for X) (first_modules X {} (modules_of ps)) es
         \<and> link_graph (export_all X es) = Inr (graph_contracts g)"
    if g: "load_call_graph n X package_root test_mode = Some (Inr g)" for g
    by (rule load_call_graph_walk [OF g]) (intro exI conjI)
  ultimately show ?thesis by (auto simp del: not_None_eq)
qed

text \<open>Printers that tell the standard library apart.\<close>

definition demo_print :: "MoveAddress \<Rightarrow> string" where
  "demo_print a = (if a = 1 then ''1'' else if a = 2 then ''2'' else if a = 3 then ''3'' else if a = 13 then ''d'' else ''a9'')"

definition walk_module :: ModuleTables where
  "walk_module = bundle_module\<lparr>address_identifiers := [9], other_tables := undefined\<lparr>cm_struct_defs := [], cm_function_defs := []\<rparr>\<rparr>"

definition walk_compiler :: Compiler where
  "walk_compiler = bundle_compiler\<lparr>build := \<lambda>_ _. Inr (bundle_artifacts\<lparr>root_compiled_units :=
     [\<lparr>unit_address = 9, unit_address_name = None, unit_module = walk_module\<rparr>]\<rparr>)\<rparr>"

definition demo_walk :: ExportApi where
  "demo_walk = demo_export\<lparr>xa_compiler := walk_compiler, account_text := demo_print, canonical_text := demo_print\<rparr>"

lemma demo_print_ok:
  "canonicalize_address (demo_print a) = canonical_short demo_print a"
  "is_sui_std_module (demo_print a) = is_sui_std a"
  by (simp_all add: demo_print_def canonicalize_address_def trim_text_def is_whitespace_def strip_0x_def to_ascii_lowercase_def
      canonical_short_def is_sui_std_module_def is_sui_std_def)

lemma walk_build:
  "\<exists>p. build_checked walk_compiler root False False True default_isolation = Inr p
     \<and> package_modules p = [walk_module] \<and> package_name p = ''app''"
  by (simp add: build_checked_def build_package_resolved_def walk_compiler_def bundle_compiler_def bundle_artifacts_def
      selected_modules_def finish_package_def depends_on_zero_def dependency_ids_def walk_module_def bundle_module_def
      module_id_for_handle_def handle_address_def self_handle_def res_simps)

lemma walk_roots:
  "canonical_package_root (xa_file demo_walk) ''p'' = Inr ''p''" "resolve_search_roots (xa_loader demo_walk) ''p'' = Inr [''p'']"
  by (simp_all add: canonical_package_root_def resolve_search_roots_def resolve_local_dependency_paths_def demo_walk_def demo_export_def
      demo_files_def res_simps)

lemma walk_module_abi:
  "from_sui_module (compiled_module walk_module) = Inr \<lparr>abi_module_id = \<lparr>module_address = 9, mod_name = ''app''\<rparr>,
     abi_structs = [], abi_functions = []\<rparr>"
  "analysis_from_sui_module find_def (compiled_module walk_module) = Inr \<lparr>analysis_abi =
     \<lparr>abi_module_id = \<lparr>module_address = 9, mod_name = ''app''\<rparr>, abi_structs = [], abi_functions = []\<rparr>, analysis_calls = []\<rparr>"
  "cm_address (compiled_module walk_module) = 9"
  by (simp_all add: analysis_from_sui_module_def from_sui_module_def compiled_module_def walk_module_def bundle_module_def
      table_address_def handle_address_def self_handle_def handle_name_def res_simps)

lemma walk_fields:
  "xa_compiler demo_walk = walk_compiler" "xa_file demo_walk = demo_files" "xa_find_def demo_walk = (\<lambda>_ _. None)"
  "account_text demo_walk = demo_print"
  by (simp_all add: demo_walk_def demo_export_def)

lemma demo_tree: "finite_tree demo_files (\<lambda>_. 0)"
  by (auto simp: finite_tree_def demo_files_def)

lemma walk_load: "\<exists>g. load_call_graph 2 demo_walk ''p'' False = Some (Inr g)"
proof -
  obtain p where p: "build_checked walk_compiler ''p'' False False True default_isolation = Inr p"
      "package_modules p = [walk_module]" "package_name p = ''app''"
    using walk_build by blast
  obtain q where q: "infer_relative_source_path 2 demo_files ''p'' ''p'' ''app'' (cm_name (compiled_module walk_module)) = Some q"
    using infer_relative_source_path_ends [OF demo_tree, of 2 "''p''" "''p''" "''app''" "cm_name (compiled_module walk_module)"] by auto
  let ?e = "(exported_name demo_walk (compiled_module walk_module), q, []) :: Entry"
  have one: "export_all demo_walk [?e] = export_entry demo_walk ExportState_new ?e"
    by (simp add: export_all_def export_new_def ExportState_new_def)
  have "\<not> is_sui_std_module (demo_print 9)" by (simp add: demo_print_ok is_sui_std_def)
  then have "export_module 2 demo_walk ''p'' ''p'' ''app'' ExportState_new (compiled_module walk_module) = Some (Inr (export_all demo_walk [?e]))"
    unfolding one using q walk_module_abi
    by (simp add: export_module_def Let_def walk_fields exported_name_def checked_i32_def export_entry_count res_simps)
      (simp add: ExportState_new_def)
  then have "export_root 2 demo_walk False ''p'' ExportState_new ''p'' = Some (Inr (export_all demo_walk [?e]))"
    using p by (simp add: export_root_def walk_fields)
  moreover have "\<exists>g. link_graph (export_all demo_walk [?e]) = Inr g"
    using link_graph_nat_edges [OF export_all_ok, of demo_walk "[?e]"] link_export_all [of demo_walk "[?e]"]
    by (auto simp: entry_size_def)
  ultimately show ?thesis by (auto simp: load_call_graph_def walk_roots)
qed

theorem load_call_graph_ends_witness:
  "\<exists>g es. load_call_graph 2 demo_walk ''p'' False = Some (Inr g)
     \<and> list_all2 (entry_for demo_walk) [compiled_module walk_module] es
     \<and> link_graph (export_all demo_walk es) = Inr (graph_contracts g)"
proof -
  have tree: "finite_tree (xa_file demo_walk) (\<lambda>_. 0)" using demo_tree by (simp add: walk_fields)
  obtain g where g: "load_call_graph 2 demo_walk ''p'' False = Some (Inr g)" using walk_load by blast
  have "\<forall>d :: string. (\<lambda>_. 0) d + 1 < (2 :: nat)" by simp
  from load_call_graph_ends [OF tree this, of "''p''" False] g obtain ps es where
    e: "list_all2 (\<lambda>r p. build_checked (xa_compiler demo_walk) r False False True default_isolation = Inr p) [''p''] ps"
      "list_all2 (entry_for demo_walk) (first_modules demo_walk {} (modules_of ps)) es"
      "link_graph (export_all demo_walk es) = Inr (graph_contracts g)"
    by (auto simp: walk_roots)
  from e(1) [unfolded walk_fields] walk_build [of "''p''"] have "modules_of ps = [compiled_module walk_module]"
    by (auto simp: list_all2_Cons1 modules_of_def)
  then have "first_modules demo_walk {} (modules_of ps) = [compiled_module walk_module]"
    using demo_print_ok(2) [of 9] by (simp add: walk_fields walk_module_abi is_sui_std_def)
  with e g show ?thesis by auto
qed

end
