(* ===== verification/Export_Structure.thy ===== *)
theory Export_Structure
  imports Export_Graph
begin

text \<open>
  \<open>movy-analysis/src/export_package_structure.rs\<close>: the second walk over the packages of an exported call
  graph. It collects the structures of every module and the metadata of its functions, and finds their
  contracts and functions in the graph by name. The walk builds the packages again; that the two
  walks agree on the names depends on two printers of addresses, which are parameters. The counter of
  structures, of type \<open>i32\<close>, is a natural number whose increments are checked.
\<close>

section \<open>Rows\<close>

datatype RowAbility = AbilityCopy | AbilityDrop | AbilityStore | AbilityKey

datatype MoveVisibility = VisibilityPublic | VisibilityPrivate | PublicPackage

record MoveGenericParam =
  gp_name :: string
  gp_constraints :: "RowAbility list"
  gp_phantom :: bool

record MoveField =
  row_field_name :: string
  type_repr :: string

record MoveStruct =
  row_id :: nat
  row_contract_id :: nat
  row_name :: string
  row_abilities :: "RowAbility list"
  row_generic_params :: "MoveGenericParam list"
  row_fields :: "MoveField list"

record MoveFunctionMetadata =
  md_function_id :: nat
  md_visibility :: MoveVisibility
  md_is_entry :: bool
  md_generic_params :: "MoveGenericParam list"

definition movy_ability_to_vec :: "MoveAbility \<Rightarrow> RowAbility list" where
  "movy_ability_to_vec a =
     (if ability_contains a COPY then [AbilityCopy] else []) @ (if ability_contains a DROP then [AbilityDrop] else [])
     @ (if ability_contains a STORE then [AbilityStore] else []) @ (if ability_contains a KEY then [AbilityKey] else [])"

fun visibility_to_knowdit :: "MoveFunctionVisibility \<Rightarrow> MoveVisibility" where
  "visibility_to_knowdit Public = VisibilityPublic"
| "visibility_to_knowdit Private = VisibilityPrivate"
| "visibility_to_knowdit Friend = PublicPackage"

definition struct_from_abi :: "ExportApi \<Rightarrow> nat \<Rightarrow> nat \<Rightarrow> MoveStructAbi \<Rightarrow> MoveStruct" where
  "struct_from_abi X i cid abi =
     \<lparr>row_id = i, row_contract_id = cid, row_name = struct_name (struct_handle abi),
      row_abilities = movy_ability_to_vec (abilities (struct_handle abi)),
      row_generic_params = map (\<lambda>(k, p). \<lparr>gp_name = ''T'' @ dec k, gp_constraints = movy_ability_to_vec (constraints p),
        gp_phantom = phantom p\<rparr>) (enumerate 0 (type_parameters (struct_handle abi))),
      row_fields = map (\<lambda>f. \<lparr>row_field_name = sf_name f, type_repr = token_to_string (full_text X) (sf_ty f)\<rparr>) (struct_fields abi)\<rparr>"

definition metadata_from_abi :: "nat \<Rightarrow> MoveFunctionAbi \<Rightarrow> MoveFunctionMetadata" where
  "metadata_from_abi fid f =
     \<lparr>md_function_id = fid, md_visibility = visibility_to_knowdit (visibility f), md_is_entry = is_entry f,
      md_generic_params = map (\<lambda>(k, a). \<lparr>gp_name = ''T'' @ dec k, gp_constraints = movy_ability_to_vec a, gp_phantom = False\<rparr>)
        (enumerate 0 (fn_type_parameters f))\<rparr>"

section \<open>Names\<close>

record NameLookup =
  contract_ids :: "(string, nat) btree"
  named_function_ids :: "(MoveFunctionKey, nat) btree"

definition lookup_contract :: "NameLookup \<Rightarrow> Contract \<Rightarrow> NameLookup" where
  "lookup_contract lk con =
     lk\<lparr>contract_ids := bt_insert (xc_name con) (xc_id con) (contract_ids lk),
        named_function_ids := foldl (\<lambda>m f. bt_insert (xc_name con, xf_name f) (xf_id f) m) (named_function_ids lk) (xc_functions con)\<rparr>"

definition from_call_graph :: "CallGraph \<Rightarrow> NameLookup" where
  "from_call_graph g = foldl lookup_contract (foldl lookup_contract \<lparr>contract_ids = [], named_function_ids = []\<rparr>
     (map snd (graph_contracts g))) (map snd (graph_interfaces g))"

definition from_repo_database :: "CallGraph res \<Rightarrow> NameLookup res" where
  "from_repo_database loaded = bindR loaded (\<lambda>g. Inr (from_call_graph g))"

definition contract_id :: "NameLookup \<Rightarrow> string \<Rightarrow> nat option" where
  "contract_id lk mid = bt_get (contract_ids lk) mid"

definition function_id :: "NameLookup \<Rightarrow> string \<Rightarrow> string \<Rightarrow> nat option" where
  "function_id lk mid name = bt_get (named_function_ids lk) (mid, name)"

definition module_canonical_short :: "ExportApi \<Rightarrow> MoveModuleId \<Rightarrow> string" where
  "module_canonical_short X m = canonical_short (canonical_text X) (module_address m) @ ''::'' @ mod_name m"

section \<open>The walk\<close>

record StructureState =
  walked_modules :: "string set"
  next_struct_id :: nat
  structs :: "MoveStruct list"
  struct_id_lookup :: "(string \<times> string, nat) btree"
  function_metadata :: "MoveFunctionMetadata list"

definition StructureState_new :: StructureState where
  "StructureState_new = \<lparr>walked_modules = {}, next_struct_id = 1, structs = [], struct_id_lookup = [], function_metadata = []\<rparr>"

definition put_struct :: "ExportApi \<Rightarrow> string \<Rightarrow> nat \<Rightarrow> MoveStructAbi \<Rightarrow> StructureState \<Rightarrow> StructureState" where
  "put_struct X mid cid abi st =
     st\<lparr>next_struct_id := next_struct_id st + 1,
        struct_id_lookup := bt_insert (mid, struct_name (struct_handle abi)) (next_struct_id st) (struct_id_lookup st),
        structs := structs st @ [struct_from_abi X (next_struct_id st) cid abi]\<rparr>"

definition collect_struct :: "ExportApi \<Rightarrow> string \<Rightarrow> nat \<Rightarrow> StructureState \<Rightarrow> MoveStructAbi \<Rightarrow> StructureState res" where
  "collect_struct X mid cid st abi = checked_i32 (next_struct_id st + 1) (put_struct X mid cid abi st)"

definition collect_function :: "NameLookup \<Rightarrow> string \<Rightarrow> StructureState \<Rightarrow> MoveFunctionAbi \<Rightarrow> StructureState" where
  "collect_function lk mid st f = (case function_id lk mid (fn_name f) of
     None \<Rightarrow> st | Some fid \<Rightarrow> st\<lparr>function_metadata := function_metadata st @ [metadata_from_abi fid f]\<rparr>)"

definition collect_module :: "ExportApi \<Rightarrow> NameLookup \<Rightarrow> StructureState \<Rightarrow> CompiledModule \<Rightarrow> StructureState res" where
  "collect_module X lk st m =
     bindR (from_sui_module m) (\<lambda>abi.
       let mid = module_canonical_short X (abi_module_id abi) in
       if is_sui_std (module_address (abi_module_id abi)) then Inr st
       else if mid \<in> walked_modules st then Inr st
       else (case contract_id lk mid of
           None \<Rightarrow> Inl (Err (Any ''module has no row in contract''))
         | Some cid \<Rightarrow>
             bindR (foldR (collect_struct X mid cid) (st\<lparr>walked_modules := insert mid (walked_modules st)\<rparr>) (abi_structs abi)) (\<lambda>st.
               Inr (foldl (collect_function lk mid) st (abi_functions abi)))))"

definition collect_root :: "ExportApi \<Rightarrow> bool \<Rightarrow> NameLookup \<Rightarrow> StructureState \<Rightarrow> string \<Rightarrow> StructureState res" where
  "collect_root X test_mode lk st root =
     bindR (build_checked (xa_compiler X) root test_mode False True default_isolation) (\<lambda>p.
       foldR (collect_module X lk) st (map compiled_module (package_modules p)))"

definition collect_package_structure :: "ExportApi \<Rightarrow> string \<Rightarrow> bool \<Rightarrow> NameLookup \<Rightarrow> StructureState res" where
  "collect_package_structure X package_root test_mode lk =
     bindR (canonical_package_root (xa_file X) package_root) (\<lambda>package_root.
     bindR (resolve_search_roots (xa_loader X) package_root) (\<lambda>roots.
       foldR (collect_root X test_mode lk) StructureState_new roots))"

record PackageWalk =
  walk_call_graph :: CallGraph
  walk_structure :: StructureState

definition from_package_root :: "nat \<Rightarrow> ExportApi \<Rightarrow> string \<Rightarrow> bool \<Rightarrow> PackageWalk fuelled" where
  "from_package_root n X package_root test_mode =
     bindFR (load_call_graph n X package_root test_mode) (\<lambda>g.
     bindFR (Some (collect_package_structure X package_root test_mode (from_call_graph g))) (\<lambda>st.
       Some (Inr \<lparr>walk_call_graph = g, walk_structure = st\<rparr>)))"

section \<open>The names of a graph\<close>

definition names_contract :: "CallGraph \<Rightarrow> string \<Rightarrow> nat \<Rightarrow> bool" where
  "names_contract g mid cid \<longleftrightarrow> (\<exists>con \<in> snd ` set (graph_contracts g). xc_name con = mid \<and> xc_id con = cid)"

lemma lookup_contracts:
  "(contract_id (foldl lookup_contract lk cons) mid = Some cid
      \<longrightarrow> contract_id lk mid = Some cid \<or> (\<exists>con \<in> set cons. xc_name con = mid \<and> xc_id con = cid))
   \<and> (contract_id lk mid \<noteq> None \<or> (\<exists>con \<in> set cons. xc_name con = mid) \<longrightarrow> contract_id (foldl lookup_contract lk cons) mid \<noteq> None)"
proof (induction cons arbitrary: lk)
  case (Cons con cons)
  have "contract_id (lookup_contract lk con) mid = (if mid = xc_name con then Some (xc_id con) else contract_id lk mid)"
    by (simp add: contract_id_def lookup_contract_def)
  then show ?case using Cons.IH [of "lookup_contract lk con"] by (auto split: if_splits)
qed simp

lemma lookup_functions_of:
  "bt_get (foldl (\<lambda>m f. bt_insert (mid, xf_name f) (xf_id f) m) m fs) k = Some fid
     \<Longrightarrow> bt_get m k = Some fid \<or> (\<exists>f \<in> set fs. k = (mid, xf_name f) \<and> xf_id f = fid)"
proof (induction fs arbitrary: m)
  case (Cons f fs)
  then show ?case by (fastforce split: if_splits)
qed simp

lemma lookup_functions:
  "function_id (foldl lookup_contract lk cons) mid name = Some fid
     \<Longrightarrow> function_id lk mid name = Some fid
        \<or> (\<exists>con \<in> set cons. xc_name con = mid \<and> (\<exists>f \<in> set (xc_functions con). xf_name f = name \<and> xf_id f = fid))"
proof (induction cons arbitrary: lk)
  case (Cons con cons)
  have "function_id (lookup_contract lk con) mid name = Some fid \<Longrightarrow> function_id lk mid name = Some fid
      \<or> (xc_name con = mid \<and> (\<exists>f \<in> set (xc_functions con). xf_name f = name \<and> xf_id f = fid))"
    unfolding function_id_def lookup_contract_def by (auto dest: lookup_functions_of)
  then show ?case using Cons.IH [of "lookup_contract lk con"] Cons.prems by auto
qed simp

lemma from_call_graph_sound:
  assumes "graph_interfaces g = []"
  shows "contract_id (from_call_graph g) mid = Some cid \<Longrightarrow> names_contract g mid cid"
    and "con \<in> snd ` set (graph_contracts g) \<Longrightarrow> contract_id (from_call_graph g) (xc_name con) \<noteq> None"
    and "function_id (from_call_graph g) mid name = Some fid
      \<Longrightarrow> \<exists>con \<in> snd ` set (graph_contracts g). xc_name con = mid \<and> (\<exists>f \<in> set (xc_functions con). xf_name f = name \<and> xf_id f = fid)"
proof -
  let ?lk = "\<lparr>contract_ids = [], named_function_ids = []\<rparr>"
  have g: "from_call_graph g = foldl lookup_contract ?lk (map snd (graph_contracts g))"
    using assms by (simp add: from_call_graph_def)
  note c = lookup_contracts [of ?lk "map snd (graph_contracts g)"]
  show "contract_id (from_call_graph g) mid = Some cid \<Longrightarrow> names_contract g mid cid"
    using c [of mid cid] unfolding g by (auto simp: contract_id_def names_contract_def)
  show "con \<in> snd ` set (graph_contracts g) \<Longrightarrow> contract_id (from_call_graph g) (xc_name con) \<noteq> None"
    using c [of "xc_name con"] unfolding g by auto
  show "function_id (from_call_graph g) mid name = Some fid
      \<Longrightarrow> \<exists>con \<in> snd ` set (graph_contracts g). xc_name con = mid \<and> (\<exists>f \<in> set (xc_functions con). xf_name f = name \<and> xf_id f = fid)"
    using lookup_functions [of ?lk "map snd (graph_contracts g)" mid name fid] unfolding g by (auto simp: function_id_def)
qed

section \<open>Every row refers to the graph\<close>

definition structure_ok :: "CallGraph \<Rightarrow> StructureState \<Rightarrow> bool" where
  "structure_ok g st \<longleftrightarrow>
     next_struct_id st = Suc (length (structs st)) \<and> map row_id (structs st) = [1 ..< next_struct_id st]
     \<and> (\<forall>r \<in> set (structs st). \<exists>mid. names_contract g mid (row_contract_id r))
     \<and> (\<forall>k i. bt_get (struct_id_lookup st) k = Some i
          \<longrightarrow> (\<exists>r \<in> set (structs st). row_id r = i \<and> row_name r = snd k \<and> names_contract g (fst k) (row_contract_id r)))
     \<and> (\<forall>md \<in> set (function_metadata st). \<exists>con \<in> snd ` set (graph_contracts g). \<exists>f \<in> set (xc_functions con). xf_id f = md_function_id md)"

lemma structure_ok_new: "structure_ok g StructureState_new"
  by (simp add: structure_ok_def StructureState_new_def)

lemma put_struct_ok: "names_contract g mid cid \<Longrightarrow> structure_ok g st \<Longrightarrow> structure_ok g (put_struct X mid cid abi st)"
  by (auto simp: structure_ok_def put_struct_def struct_from_abi_def)

lemma collect_structs_ok:
  assumes "names_contract g mid cid" "foldR (collect_struct X mid cid) st abis = Inr st'" "structure_ok g st"
  shows "structure_ok g st'"
  using assms(3,2)
proof (rule foldR_invariant [where P = "structure_ok g", rotated])
  fix s abi s' assume "structure_ok g s" "collect_struct X mid cid s abi = Inr s'"
  then show "structure_ok g s'"
    using put_struct_ok [OF assms(1)] by (auto simp: collect_struct_def)
qed

lemma collect_functions_ok:
  assumes "\<And>name fid. function_id lk mid name = Some fid
      \<Longrightarrow> \<exists>con \<in> snd ` set (graph_contracts g). \<exists>f \<in> set (xc_functions con). xf_id f = fid"
  shows "structure_ok g st \<Longrightarrow> structure_ok g (foldl (collect_function lk mid) st fs)"
proof (induction fs arbitrary: st)
  case (Cons f fs)
  have "structure_ok g (collect_function lk mid st f)"
    using Cons.prems assms [of "fn_name f"]
    by (auto simp: structure_ok_def collect_function_def metadata_from_abi_def split: option.split)
  then show ?case using Cons.IH by simp
qed simp

lemma collect_module_ok:
  assumes g: "graph_interfaces g = []" and ok: "structure_ok g st" and run: "collect_module X (from_call_graph g) st m = Inr st'"
  shows "structure_ok g st'"
proof -
  obtain abi where abi: "from_sui_module m = Inr abi" using run by (auto simp: collect_module_def bindR_eq_Inr)
  let ?mid = "module_canonical_short X (abi_module_id abi)"
  have seen: "structure_ok g (st\<lparr>walked_modules := S\<rparr>)" for S using ok by (simp add: structure_ok_def)
  have "structure_ok g (foldl (collect_function (from_call_graph g) ?mid) s (abi_functions abi))"
    if "contract_id (from_call_graph g) ?mid = Some cid"
      "foldR (collect_struct X ?mid cid) (st\<lparr>walked_modules := S\<rparr>) (abi_structs abi) = Inr s" for cid S s
  proof (rule collect_functions_ok)
    show "structure_ok g s" by (rule collect_structs_ok [OF from_call_graph_sound(1) [OF g that(1)] that(2) seen])
  qed (use from_call_graph_sound(3) [OF g] in blast)
  then show ?thesis
    using run ok abi by (auto simp: collect_module_def Let_def bindR_eq_Inr split: if_splits option.splits)
qed

text \<open>How far the counter of structures goes.\<close>

definition module_structs :: "CompiledModule \<Rightarrow> nat" where
  "module_structs m = (case from_sui_module m of Inr abi \<Rightarrow> length (abi_structs abi) | Inl _ \<Rightarrow> 0)"

abbreviation overflow_panic :: fault where
  "overflow_panic \<equiv> Panic ''attempt to add with overflow''"

lemma collect_structs_count:
  "foldR (collect_struct X mid cid) st abis = Inr st' \<Longrightarrow> next_struct_id st' = next_struct_id st + length abis"
  "foldR (collect_struct X mid cid) st abis = Inl e \<Longrightarrow> e = overflow_panic \<and> 2 ^ 31 \<le> next_struct_id st + length abis"
proof (induction abis arbitrary: st)
  case (Cons abi abis)
  { case 1
    then obtain s where s: "collect_struct X mid cid st abi = Inr s" "foldR (collect_struct X mid cid) s abis = Inr st'"
      by (auto simp: bindR_eq_Inr)
    then have "next_struct_id s = next_struct_id st + 1" by (auto simp: collect_struct_def put_struct_def)
    then show ?case using Cons.IH(1) [OF s(2)] by simp }
  { case 2
    show ?case
    proof (cases "collect_struct X mid cid st abi")
      case (Inl a)
      then show ?thesis using 2 by (auto simp: collect_struct_def checked_i32_def split: if_splits)
    next
      case (Inr s)
      then have "next_struct_id s = next_struct_id st + 1" by (auto simp: collect_struct_def put_struct_def)
      then show ?thesis using 2 Inr Cons.IH(2) [of s] by simp
    qed }
qed simp_all

lemma collect_functions_count: "next_struct_id (foldl (collect_function lk mid) st fs) = next_struct_id st"
proof (induction fs arbitrary: st)
  case (Cons f fs)
  have "next_struct_id (collect_function lk mid st f) = next_struct_id st" by (simp add: collect_function_def split: option.split)
  then show ?case using Cons.IH by simp
qed simp

lemma collect_module_count:
  assumes "collect_module X lk st m = Inr st'"
  shows "next_struct_id st' \<le> next_struct_id st + module_structs m"
proof -
  obtain abi where abi: "from_sui_module m = Inr abi" using assms by (auto simp: collect_module_def bindR_eq_Inr)
  let ?mid = "module_canonical_short X (abi_module_id abi)"
  consider "st' = st" | cid s where
      "foldR (collect_struct X ?mid cid) (st\<lparr>walked_modules := insert ?mid (walked_modules st)\<rparr>) (abi_structs abi) = Inr s"
      "st' = foldl (collect_function lk ?mid) s (abi_functions abi)"
    using assms abi by (auto simp: collect_module_def bindR_eq_Inr Let_def split: if_splits option.splits)
  then show ?thesis
  proof cases
    case 2
    from collect_structs_count(1) [OF 2(1)] 2(2) abi show ?thesis by (simp add: module_structs_def collect_functions_count)
  qed simp
qed

lemma collect_modules_count:
  "foldR (collect_module X lk) st ms = Inr st' \<Longrightarrow> next_struct_id st' \<le> next_struct_id st + sum_list (map module_structs ms)"
proof (induction ms arbitrary: st)
  case (Cons m ms)
  then obtain s where s: "collect_module X lk st m = Inr s" "foldR (collect_module X lk) s ms = Inr st'" by (auto simp: bindR_eq_Inr)
  from Cons.IH [OF s(2)] collect_module_count [OF s(1)] show ?case by simp
qed simp

text \<open>The packages are built as in the first walk, so the second walk goes over the same modules.\<close>

lemma collect_roots_modules:
  "list_all2 (built X test_mode) roots ps
     \<Longrightarrow> foldR (collect_root X test_mode lk) st roots = foldR (collect_module X lk) st (modules_of ps)"
proof (induction roots ps arbitrary: st rule: list_all2_induct)
  case (Cons root roots p ps)
  have "modules_of (p # ps) = map compiled_module (package_modules p) @ modules_of ps" by (simp add: modules_of_def)
  then show ?case using Cons by (simp add: collect_root_def foldR_append)
qed (simp add: modules_of_def)

section \<open>The first walk has met every module of the second\<close>

lemma seen_in_modules: "seen_modules (export_all X es) \<subseteq> dom (bt_get (xs_module_ids (export_all X es)))"
proof -
  have keep: "xs_module_ids (fst (foldl (export_function X mid cid path) s ps)) = xs_module_ids (fst s)" for mid cid path s ps
    by (induction ps arbitrary: s) (auto simp: export_function_def Let_def split: prod.split)
  have entry: "xs_module_ids (export_entry X st e) = bt_insert (fst e) (next_contract_id st) (xs_module_ids st)" for st e
  proof -
    obtain mid path calls where e: "e = (mid, path, calls)" by (metis surj_pair)
    have "xs_module_ids (put_contract cid mid path desc s) = xs_module_ids (fst s)" for cid desc s
      by (cases s) (simp add: put_contract_def)
    then show ?thesis by (simp add: e export_entry_def keep open_module_def)
  qed
  show ?thesis unfolding export_all_def
    by (induction es rule: rev_induct) (auto simp: export_new_def export_entry_notes entry ExportState_new_def split: if_splits)
qed

lemma seen_in_graph:
  assumes "link_graph (export_all X es) = Inr g" "mid \<in> seen_modules (export_all X es)"
  shows "\<exists>con \<in> snd ` set g. xc_name con = mid"
proof -
  obtain s out g' where g': "link_graph_nat (export_all X es) = Inr g'" "linked (export_all X es) s out g'"
    by (rule link_graph_nat_linked [OF export_all_ok])
  then have L: "linked (export_all X es) s out g" using link_graph_refines [OF assms(1)] by simp
  obtain cid where "bt_get (xs_module_ids s) mid = Some cid"
    using linkedD(7) [OF L] seen_in_modules assms(2) by blast
  then obtain con where "bt_get (xs_contracts s) cid = Some con" "xc_name con = mid"
    using export_okD(1) [OF linkedD(1) [OF L]] by blast
  then have "bt_get g cid = Some (fill_calls out con)" "xc_name (fill_calls out con) = mid"
    using linkedD(2) [OF L] by (simp_all add: filled_def fill_calls_def)
  then show ?thesis by (force dest: map_of_SomeD)
qed

lemma first_modules_cover:
  "m \<in> set ms \<Longrightarrow> \<not> is_sui_std_module (account_text X (cm_address m))
     \<Longrightarrow> exported_name X m \<in> seen \<union> exported_name X ` set (first_modules X seen ms)"
proof (induction ms arbitrary: seen)
  case (Cons x ms)
  show ?case
  proof (cases "m = x")
    case True
    with Cons.prems(2) show ?thesis by auto
  next
    case False
    with Cons.prems have "m \<in> set ms" by simp
    from Cons.IH [OF this Cons.prems(2), of seen] Cons.IH [OF this Cons.prems(2), of "insert (exported_name X x) seen"]
    show ?thesis by auto
  qed
qed simp

lemma load_call_graph_covers:
  assumes "load_call_graph n X package_root test_mode = Some (Inr g)"
  obtains root roots ps where "canonical_package_root (xa_file X) package_root = Inr root"
    "resolve_search_roots (xa_loader X) root = Inr roots" "graph_interfaces g = []" "list_all2 (built X test_mode) roots ps"
    "\<And>m. m \<in> set (modules_of ps) \<Longrightarrow> \<not> is_sui_std_module (account_text X (cm_address m))
       \<Longrightarrow> \<exists>con \<in> snd ` set (graph_contracts g). xc_name con = exported_name X m"
proof -
  from assms obtain root roots ps es where r: "canonical_package_root (xa_file X) package_root = Inr root"
    "resolve_search_roots (xa_loader X) root = Inr roots" "list_all2 (built X test_mode) roots ps"
    "list_all2 (entry_for X) (first_modules X {} (modules_of ps)) es"
    "link_graph (export_all X es) = Inr (graph_contracts g)" "graph_interfaces g = []"
    by (rule load_call_graph_walk)
  have "\<exists>con \<in> snd ` set (graph_contracts g). xc_name con = exported_name X m"
    if m: "m \<in> set (modules_of ps)" "\<not> is_sui_std_module (account_text X (cm_address m))" for m
  proof (rule seen_in_graph [OF r(5)])
    from first_modules_cover [OF m, of "{}"] show "exported_name X m \<in> seen_modules (export_all X es)"
      by (simp add: seen_export_all entry_for_names [OF r(4)])
  qed
  then show ?thesis using that r by blast
qed

section \<open>Properties\<close>

text \<open>What the two walks assume of the printers of addresses.\<close>

definition printers_agree :: "ExportApi \<Rightarrow> bool" where
  "printers_agree X \<longleftrightarrow> (\<forall>a. canonicalize_address (account_text X a) = canonical_short (canonical_text X) a
     \<and> is_sui_std_module (account_text X a) = is_sui_std a)"

lemma foldR_Inl:
  "foldR f s xs = Inl e \<Longrightarrow> \<exists>ys x zs s'. xs = ys @ x # zs \<and> foldR f s ys = Inr s' \<and> f s' x = Inl e"
proof (induction xs arbitrary: s)
  case (Cons x xs)
  show ?case
  proof (cases "f s x")
    case (Inl a)
    then show ?thesis using Cons.prems by (intro exI [of _ "[]"]) auto
  next
    case (Inr b)
    with Cons.prems have "foldR f b xs = Inl e" by simp
    from Cons.IH [OF this] obtain ys y zs s' where "xs = ys @ y # zs" "foldR f b ys = Inr s'" "f s' y = Inl e" by blast
    then show ?thesis using Inr by (intro exI [of _ "x # ys"] exI [of _ y] exI [of _ zs] exI [of _ s']) simp
  qed
qed simp

lemma collect_module_error:
  assumes agree: "printers_agree X" and g: "graph_interfaces g = []"
    and row: "\<not> is_sui_std_module (account_text X (cm_address m)) \<Longrightarrow> \<exists>con \<in> snd ` set (graph_contracts g). xc_name con = exported_name X m"
    and run: "collect_module X (from_call_graph g) st m = Inl e"
  shows "from_sui_module m = Inl e \<or> e = overflow_panic \<and> 2 ^ 31 \<le> next_struct_id st + module_structs m"
proof (cases "from_sui_module m")
  case (Inr abi)
  have a: "module_address (abi_module_id abi) = cm_address m" "mod_name (abi_module_id abi) = cm_name m"
    using Inr by (auto simp: from_sui_module_def bindR_eq_Inr)
  have name: "module_canonical_short X (abi_module_id abi) = exported_name X m"
    using agree by (simp add: module_canonical_short_def exported_name_def canonical_module_id_def printers_agree_def a)
  have "contract_id (from_call_graph g) (exported_name X m) \<noteq> None" if "\<not> is_sui_std (cm_address m)"
  proof -
    from that have "\<not> is_sui_std_module (account_text X (cm_address m))" using agree by (simp add: printers_agree_def)
    then obtain con where "con \<in> snd ` set (graph_contracts g)" "xc_name con = exported_name X m" using row by blast
    then show ?thesis using from_call_graph_sound(2) [OF g] by metis
  qed
  then obtain cid where "foldR (collect_struct X (exported_name X m) cid)
      (st\<lparr>walked_modules := insert (exported_name X m) (walked_modules st)\<rparr>) (abi_structs abi) = Inl e"
    using run Inr a name by (auto simp: collect_module_def Let_def bindR_def split: if_splits option.splits sum.splits)
  from collect_structs_count(2) [OF this] Inr show ?thesis by (simp add: module_structs_def)
qed (use run in \<open>simp add: collect_module_def\<close>)

lemma collect_modules_error:
  assumes agree: "printers_agree X" and g: "graph_interfaces g = []"
    and rows: "\<And>m. m \<in> set ms \<Longrightarrow> \<not> is_sui_std_module (account_text X (cm_address m))
      \<Longrightarrow> \<exists>con \<in> snd ` set (graph_contracts g). xc_name con = exported_name X m"
    and run: "foldR (collect_module X (from_call_graph g)) StructureState_new ms = Inl e"
  shows "(\<exists>m \<in> set ms. from_sui_module m = Inl e) \<or> e = overflow_panic \<and> 2 ^ 31 \<le> 1 + sum_list (map module_structs ms)"
proof -
  obtain ys m zs s where s: "ms = ys @ m # zs" "foldR (collect_module X (from_call_graph g)) StructureState_new ys = Inr s"
      "collect_module X (from_call_graph g) s m = Inl e"
    using foldR_Inl [OF run] by blast
  have "next_struct_id s \<le> 1 + sum_list (map module_structs ys)"
    using collect_modules_count [OF s(2)] by (simp add: StructureState_new_def)
  moreover have "from_sui_module m = Inl e \<or> e = overflow_panic \<and> 2 ^ 31 \<le> next_struct_id s + module_structs m"
    by (rule collect_module_error [OF agree g rows s(3)]) (simp_all add: s(1))
  ultimately show ?thesis using s(1) by auto
qed

text \<open>
  C40: the structure of a package, collected after its call graph. Every structure row names a contract of the graph and
  has its number as its place in the list, the index of structures by name leads to those rows, and every
  metadata row names a function of the graph. The error for a module without a contract never occurs, given
  that the two printers of addresses agree: the walk fails only as loading the graph fails, as the
  interface of a module of the packages cannot be read, or as the counter of type \<open>i32\<close> overflows, which
  takes modules with at least \<open>2 ^ 31 - 1\<close> structures.
\<close>

theorem package_structure_rows:
  assumes agree: "printers_agree X" and run: "from_package_root n X package_root test_mode = Some r"
  shows "case r of Inr w \<Rightarrow> load_call_graph n X package_root test_mode = Some (Inr (walk_call_graph w))
          \<and> structure_ok (walk_call_graph w) (walk_structure w)
      | Inl e \<Rightarrow> load_call_graph n X package_root test_mode = Some (Inl e)
          \<or> (\<exists>root roots ps. canonical_package_root (xa_file X) package_root = Inr root
                \<and> resolve_search_roots (xa_loader X) root = Inr roots
                \<and> list_all2 (\<lambda>r p. build_checked (xa_compiler X) r test_mode False True default_isolation = Inr p) roots ps
                \<and> ((\<exists>m \<in> set (modules_of ps). from_sui_module m = Inl e)
                   \<or> e = Panic ''attempt to add with overflow'' \<and> 2 ^ 31 \<le> 1 + sum_list (map module_structs (modules_of ps))))"
proof (cases "\<exists>g. load_call_graph n X package_root test_mode = Some (Inr g)")
  case True
  then obtain g where load: "load_call_graph n X package_root test_mode = Some (Inr g)" by blast
  obtain root roots ps where r: "canonical_package_root (xa_file X) package_root = Inr root"
      "resolve_search_roots (xa_loader X) root = Inr roots" and g: "graph_interfaces g = []"
    and builds: "list_all2 (built X test_mode) roots ps"
    and rows: "\<And>m. m \<in> set (modules_of ps) \<Longrightarrow> \<not> is_sui_std_module (account_text X (cm_address m))
       \<Longrightarrow> \<exists>con \<in> snd ` set (graph_contracts g). xc_name con = exported_name X m"
    by (rule load_call_graph_covers [OF load]) blast
  let ?lk = "from_call_graph g"
  have collect: "collect_package_structure X package_root test_mode ?lk = foldR (collect_module X ?lk) StructureState_new (modules_of ps)"
    using r by (simp add: collect_package_structure_def collect_roots_modules [OF builds])
  have ok: "structure_ok g st'" if "foldR (collect_module X ?lk) StructureState_new (modules_of ps) = Inr st'" for st'
    using structure_ok_new that by (rule foldR_invariant [where P = "structure_ok g", rotated]) (rule collect_module_ok [OF g])
  show ?thesis
  proof (cases "foldR (collect_module X ?lk) StructureState_new (modules_of ps)")
    case (Inl e)
    from collect_modules_error [OF agree g rows Inl] have
      "(\<exists>m \<in> set (modules_of ps). from_sui_module m = Inl e)
        \<or> e = overflow_panic \<and> 2 ^ 31 \<le> 1 + sum_list (map module_structs (modules_of ps))" .
    moreover have "r = Inl e" using run load collect Inl by (simp add: from_package_root_def)
    ultimately show ?thesis using r builds by auto
  next
    case (Inr st)
    with ok run load collect show ?thesis by (auto simp: from_package_root_def)
  qed
next
  case False
  then show ?thesis using run by (auto simp: from_package_root_def bindFR_def split: option.splits sum.splits)
qed

theorem package_structure_rows_witness:
  "\<exists>w. from_package_root 2 demo_walk ''p'' False = Some (Inr w) \<and> structure_ok (walk_call_graph w) (walk_structure w)"
proof -
  have agree: "printers_agree demo_walk" by (simp add: printers_agree_def demo_walk_def demo_print_ok)
  obtain g where load: "load_call_graph 2 demo_walk ''p'' False = Some (Inr g)" using walk_load by blast
  then obtain r where r: "from_package_root 2 demo_walk ''p'' False = Some r"
    by (cases "collect_package_structure demo_walk ''p'' False (from_call_graph g)") (simp_all add: from_package_root_def)
  have mods: "modules_of ps = [compiled_module walk_module]"
    if "list_all2 (\<lambda>r p. build_checked (xa_compiler demo_walk) r False False True default_isolation = Inr p) [''p''] ps" for ps
    using that walk_build [of "''p''"] by (auto simp: list_all2_Cons1 modules_of_def walk_fields)
  have "module_structs (compiled_module walk_module) = 0" by (simp add: module_structs_def walk_module_abi)
  then show ?thesis
    using package_structure_rows [OF agree r] r load mods by (cases r) (auto simp: walk_roots walk_module_abi)
qed

end
