(* ===== verification/Sui_Exec.thy ===== *)
theory Sui_Exec
  imports Cached_Store Ptb Oracles Compiled_Package
begin

text \<open>
  \<open>movy-replay/src/exec.rs\<close> and \<open>db.rs\<close>: running a transaction on a store and publishing or
  upgrading a package. The store is the record \<open>Db\<close> of the operations of its traits, given by either
  cache of \<open>Cached_Store\<close>; the execution engine of Sui is the record \<open>Engine\<close>. It returns the events
  of the trace, which the tracer then consumes; a tracer cannot change an execution. The static map
  of pending deployments is part of the state \<open>World\<close>.
\<close>

section \<open>Objects and stores\<close>

text \<open>\<open>'p\<close> is the type of packages.\<close>

datatype 'p ObjData = PackageData 'p | MoveData MoveTypeTag "u8 list"

record 'p ObjectBody =
  body_owner :: MoveOwner
  body_digest :: u256
  body_data :: "'p ObjData"

type_synonym 'p SuiObject = "'p ObjectBody Object"

definition object_owner :: "'p SuiObject \<Rightarrow> MoveOwner" where
  "object_owner obj = body_owner (object_contents obj)"

definition is_package :: "'p SuiObject \<Rightarrow> bool" where
  "is_package obj = (case body_data (object_contents obj) of PackageData _ \<Rightarrow> True | MoveData _ _ \<Rightarrow> False)"

definition object_type :: "'p SuiObject \<Rightarrow> MoveTypeTag option" where
  "object_type obj = (case body_data (object_contents obj) of PackageData _ \<Rightarrow> None | MoveData ty _ \<Rightarrow> Some ty)"

definition MoveObjectInfo_try_from :: "'p SuiObject \<Rightarrow> MoveObjectInfo res" where
  "MoveObjectInfo_try_from obj = (case object_type obj of
     Some ty \<Rightarrow> Inr \<lparr>info_id = object_id obj, info_ty = ty, info_owner = object_owner obj,
       info_version = object_version obj, info_digest = body_digest (object_contents obj)\<rparr>
   | None \<Rightarrow> Inl (Err (Other ''not a move object'')))"

definition sui_reference :: "MoveObjectInfo \<Rightarrow> ObjectRef" where
  "sui_reference info = (info_id info, info_version info, info_digest info)"

definition object_reference :: "'p SuiObject \<Rightarrow> ObjectRef" where
  "object_reference obj = (object_id obj, object_version obj, body_digest (object_contents obj))"

text \<open>The traits of the store: \<open>'d\<close> is its state.\<close>

record ('c, 'd) Db =
  db_get_object :: "ObjectID \<Rightarrow> 'd \<Rightarrow> 'c Object option \<times> 'd"
  db_get_object_by_key :: "ObjectID \<Rightarrow> u64 \<Rightarrow> 'd \<Rightarrow> 'c Object option \<times> 'd"
  db_get_package_object :: "ObjectID \<Rightarrow> 'd \<Rightarrow> ('c Object option \<times> 'd) res"
  db_commit_store :: "'c InnerTemporaryStore \<Rightarrow> CommitEffects \<Rightarrow> 'd \<Rightarrow> 'd res"
  db_commit_single_object :: "'c Object \<Rightarrow> 'd \<Rightarrow> 'd"
  db_list_objects :: "'d \<Rightarrow> ObjectID list"

definition cached_db :: "'c ObjectStore \<Rightarrow> ('c, 'c CachedSnapshot) Db" where
  "cached_db store = \<lparr>db_get_object = cs_get_object store, db_get_object_by_key = cs_get_object_by_key store,
     db_get_package_object = cs_get_package_object store, db_commit_store = cs_commit_store,
     db_commit_single_object = cs_commit_single_object, db_list_objects = bt_keys\<rparr>"

definition rocks_cached_db :: "'c ObjectStore \<Rightarrow> ('c, 'c RocksCachedStore) Db" where
  "rocks_cached_db store = \<lparr>db_get_object = rc_get_object store, db_get_object_by_key = rc_get_object_by_key store,
     db_get_package_object = rc_get_package_object store, db_commit_store = rc_commit_store,
     db_commit_single_object = rc_commit_single_object, db_list_objects = rc_list_object_ids\<rparr>"

definition get_version :: "('c, 'd) Db \<Rightarrow> ObjectID \<Rightarrow> ('d, u64) act" where
  "get_version D i = bindS (readS (db_get_object D i)) (\<lambda>obj. case obj of
     Some obj \<Rightarrow> returnS (object_version obj) | None \<Rightarrow> liftS (Inl (Err (Any ''object not found''))))"

definition get_object_info :: "('p ObjectBody, 'd) Db \<Rightarrow> ObjectID \<Rightarrow> ('d, MoveObjectInfo) act" where
  "get_object_info D i = bindS (readS (db_get_object D i)) (\<lambda>obj. case obj of
     Some obj \<Rightarrow> liftS (MoveObjectInfo_try_from obj) | None \<Rightarrow> liftS (Inl (Err (Any ''object not found''))))"

definition load_object :: "('c, 'd) Db \<Rightarrow> ObjectID \<Rightarrow> ('d, unit) act" where
  "load_object D i = bindS (readS (db_get_object D i)) (\<lambda>obj. case obj of
     Some _ \<Rightarrow> returnS () | None \<Rightarrow> liftS (Inl (Err (Other ''can not load''))))"

text \<open>\<open>MoveObject::new_coin\<close> wrapped by \<open>Object::new_move\<close>, with the conversion of the coin's type.\<close>

type_synonym 'p coin_maker = "MoveTypeTag \<Rightarrow> MoveOwner \<Rightarrow> ObjectID \<Rightarrow> u64 \<Rightarrow> 'p SuiObject res"

definition mint_coin_id ::
  "'p coin_maker \<Rightarrow> ('p ObjectBody, 'd) Db \<Rightarrow> MoveTypeTag \<Rightarrow> MoveOwner \<Rightarrow> ObjectID \<Rightarrow> u64 \<Rightarrow> ('d, unit) act" where
  "mint_coin_id mint D coin owner i v =
     bindS (liftS (mint coin owner i v)) (\<lambda>obj. readS (\<lambda>d. ((), db_commit_single_object D obj d)))"

definition mint_coin ::
  "'p coin_maker \<Rightarrow> ('p ObjectBody, 'd) Db \<Rightarrow> ObjectID \<Rightarrow> MoveTypeTag \<Rightarrow> MoveOwner \<Rightarrow> u64 \<Rightarrow> ('d, ObjectID) act" where
  "mint_coin mint D fresh coin owner v = bindS (mint_coin_id mint D coin owner fresh v) (\<lambda>_. returnS fresh)"

section \<open>Transactions\<close>

datatype CallArg = CallPure "u8 list" | CallObject ObjectArg

record ProgrammableTransaction =
  ptb_inputs :: "CallArg list"
  ptb_commands :: "Command list"

datatype TransactionKind = ProgrammableTx ProgrammableTransaction | SystemTx string

record TransactionData =
  tx_kind :: TransactionKind
  tx_sender :: MoveAddress
  tx_gas :: "ObjectRef list"
  tx_budget :: u64
  tx_price :: u64

datatype WriteKind = WriteMutate | WriteCreate | WriteUnwrap

record ExecEffects =
  xe_status :: ExecutionStatus
  xe_changed :: "(ObjectRef \<times> MoveOwner \<times> WriteKind) list"
  xe_commit :: CommitEffects

text \<open>The modes of the engine differ in what they allow and in the identifiers of new packages.\<close>

record ExecutionMode =
  allow_arbitrary_function_calls :: bool
  targeted_deployment :: "u256 \<Rightarrow> ObjectID option"

type_synonym deployments = "(u256, ObjectID) btree"

definition SuiFuzzMode :: "ExecutionMode \<Rightarrow> deployments \<Rightarrow> ExecutionMode" where
  "SuiFuzzMode normal targets = normal\<lparr>allow_arbitrary_function_calls := True, targeted_deployment := bt_get targets\<rparr>"

record ('p, 'g) ExecutionResults =
  xr_effects :: ExecEffects
  xr_store :: "'p ObjectBody InnerTemporaryStore"
  xr_events :: "Event list"
  xr_gas :: 'g

record ('p, 'g, 't) ExecutionTracedResults =
  results :: "('p, 'g) ExecutionResults"
  traced :: "'t option"

text \<open>What is read for an input, with the input it is read for.\<close>

type_synonym 'p read_result = "InputObjectKind \<times> 'p SuiObject"

record ('p, 'd, 'g) Engine =
  tx_input_objects :: "TransactionData \<Rightarrow> InputObjectKind list res"
  tx_is_system :: "TransactionData \<Rightarrow> bool"
  tx_digest :: "TransactionData \<Rightarrow> u256"
  gas_unmetered :: 'g
  gas_status :: "u64 \<Rightarrow> u64 \<Rightarrow> 'g res"
  normal_mode :: ExecutionMode
  execute_to_effects :: "ExecutionMode \<Rightarrow> 'p read_result list \<Rightarrow> 'g \<Rightarrow> TransactionData \<Rightarrow> u64 \<Rightarrow> u64 \<Rightarrow> 'd
     \<Rightarrow> (('p, 'g) ExecutionResults \<times> TraceEvent list) \<times> 'd"

record 'd World =
  w_db :: 'd
  w_targets :: deployments

definition on_db :: "('d, 'a) act \<Rightarrow> ('d World, 'a) act" where
  "on_db m w = map_option (\<lambda>(r, d). (r, w\<lparr>w_db := d\<rparr>)) (m (w_db w))"

definition very_big_gas :: u64 where
  "very_big_gas = 10000000000000000000"

section \<open>Inputs\<close>

definition owner_start_version :: "MoveOwner \<Rightarrow> u64 option" where
  "owner_start_version owner = (case owner of
     Shared v \<Rightarrow> Some v | ConsensusAddressOwner v _ \<Rightarrow> Some v | _ \<Rightarrow> None)"

definition found :: "string \<Rightarrow> InputObjectKind \<Rightarrow> 'p SuiObject option \<Rightarrow> ('d, 'p read_result) act" where
  "found msg kind obj = (case obj of Some obj \<Rightarrow> returnS (kind, obj) | None \<Rightarrow> liftS (Inl (Err (Other msg))))"

definition read_input :: "('p ObjectBody, 'd) Db \<Rightarrow> InputObjectKind \<Rightarrow> ('d, 'p read_result) act" where
  "read_input D kind = (case kind of
     MovePackageObject package \<Rightarrow>
       (\<lambda>d. case db_get_package_object D package d of
          Inl e \<Rightarrow> Some (Inl e, d)
        | Inr (obj, d) \<Rightarrow> found ''package not found'' kind obj d)
   | ImmOrOwnedMoveObject i v _ \<Rightarrow> bindS (readS (db_get_object_by_key D i v)) (found ''object not found'' kind)
   | SharedMoveObject i v _ \<Rightarrow>
       bindS (readS (db_get_object D i)) (\<lambda>obj. case obj of
         None \<Rightarrow> liftS (Inl (Err (Other ''Shared object not found'')))
       | Some obj \<Rightarrow>
           bindS (liftS (unwrapR ''called `Option::unwrap()` on a `None` value'' (owner_start_version (object_owner obj)))) (\<lambda>start.
             if v = start then returnS (kind, obj) else liftS (Inl (Err (Other ''mismatched input''))))))"

definition read_gas :: "('p ObjectBody, 'd) Db \<Rightarrow> ObjectRef \<Rightarrow> ('d, 'p read_result) act" where
  "read_gas D gas = (case gas of (i, v, digest) \<Rightarrow>
     bindS (readS (db_get_object_by_key D i v)) (found ''gas missing'' (ImmOrOwnedMoveObject i v digest)))"

section \<open>Pending deployments\<close>

text \<open>\<open>GlobalDeployment::new\<close> tries the digest of the transaction and raises the gas budget until the
  digest is free.\<close>

fun GlobalDeployment_new ::
  "nat \<Rightarrow> (TransactionData \<Rightarrow> u256) \<Rightarrow> TransactionData \<Rightarrow> ObjectID \<Rightarrow> deployments
     \<Rightarrow> (u256 \<times> TransactionData \<times> deployments) fuelled" where
  "GlobalDeployment_new 0 digest tx target m = None"
| "GlobalDeployment_new (Suc n) digest tx target m =
     (if bt_get m (digest tx) = None then Some (Inr (digest tx, tx, bt_insert (digest tx) target m))
      else if tx_budget tx = - 1 then Some (Inl (Panic ''attempt to add with overflow''))
      else GlobalDeployment_new n digest (tx\<lparr>tx_budget := tx_budget tx + 1\<rparr>) target m)"

definition GlobalDeployment_drop :: "u256 \<Rightarrow> deployments \<Rightarrow> deployments" where
  "GlobalDeployment_drop digest m = bt_remove digest m"

section \<open>Running a transaction\<close>

definition run_engine ::
  "('p, 'd, 'g) Engine \<Rightarrow> ExecutionMode \<Rightarrow> 'p read_result list \<Rightarrow> 'g \<Rightarrow> TransactionData \<Rightarrow> u64 \<Rightarrow> u64
     \<Rightarrow> ('d World, ('p, 'g) ExecutionResults \<times> TraceEvent list) act" where
  "run_engine E mode objects gas tx epoch epoch_ms =
     on_db (readS (execute_to_effects E mode objects gas tx epoch epoch_ms))"

definition execute ::
  "nat \<Rightarrow> ('p, 'd, 'g) Engine \<Rightarrow> ObjectID option \<Rightarrow> bool \<Rightarrow> 'p read_result list \<Rightarrow> 'g \<Rightarrow> TransactionData
     \<Rightarrow> u64 \<Rightarrow> u64 \<Rightarrow> ('d World, ('p, 'g) ExecutionResults \<times> TraceEvent list) act" where
  "execute fuel E target allow_testing_calls objects gas tx epoch epoch_ms w = (case target of
     Some target \<Rightarrow>
       (case GlobalDeployment_new fuel (tx_digest E) tx target (w_targets w) of
          None \<Rightarrow> None
        | Some (Inl e) \<Rightarrow> Some (Inl e, w)
        | Some (Inr (digest, tx, targets)) \<Rightarrow>
            map_option (\<lambda>(r, w). (r, w\<lparr>w_targets := GlobalDeployment_drop digest (w_targets w)\<rparr>))
              (run_engine E (SuiFuzzMode (normal_mode E) targets) objects gas tx epoch epoch_ms (w\<lparr>w_targets := targets\<rparr>)))
   | None \<Rightarrow>
       run_engine E (if allow_testing_calls \<or> tx_is_system E tx then SuiFuzzMode (normal_mode E) (w_targets w)
         else normal_mode E) objects gas tx epoch epoch_ms w)"

definition input_kinds :: "('p, 'd, 'g) Engine \<Rightarrow> TransactionData \<Rightarrow> InputObjectKind list res" where
  "input_kinds E tx = (case tx_input_objects E tx of Inl (Err _) \<Rightarrow> Inl (Err (Other ''invalid ptb'')) | r \<Rightarrow> r)"

definition load_gas ::
  "('p ObjectBody, 'd) Db \<Rightarrow> ('p, 'd, 'g) Engine \<Rightarrow> TransactionData \<Rightarrow> 'p read_result list
     \<Rightarrow> ('d World, 'p read_result list \<times> 'g) act" where
  "load_gas D E tx objects =
     (if tx_is_system E tx then returnS (objects, gas_unmetered E)
      else bindS (on_db (mapS (read_gas D) (tx_gas tx))) (\<lambda>paid.
           bindS (liftS (gas_status E (tx_budget tx) (tx_price tx))) (\<lambda>gas. returnS (objects @ paid, gas))))"

definition finish_trace ::
  "('t \<Rightarrow> TraceEvent \<Rightarrow> 't res) \<Rightarrow> 't option \<Rightarrow> ('p, 'g) ExecutionResults \<times> TraceEvent list
     \<Rightarrow> ('p, 'g, 't) ExecutionTracedResults res" where
  "finish_trace step trc run = (case trc of
     None \<Rightarrow> Inr \<lparr>results = fst run, traced = None\<rparr>
   | Some t \<Rightarrow> bindR (foldR step t (snd run)) (\<lambda>t. Inr \<lparr>results = fst run, traced = Some t\<rparr>))"

definition run_tx_trace_inner ::
  "nat \<Rightarrow> ('p ObjectBody, 'd) Db \<Rightarrow> ('p, 'd, 'g) Engine \<Rightarrow> ('t \<Rightarrow> TraceEvent \<Rightarrow> 't res) \<Rightarrow> TransactionData
     \<Rightarrow> u64 \<Rightarrow> u64 \<Rightarrow> 't option \<Rightarrow> ObjectID option \<Rightarrow> bool \<Rightarrow> ('d World, ('p, 'g, 't) ExecutionTracedResults) act" where
  "run_tx_trace_inner fuel D E step tx epoch epoch_ms trc target allow_testing_calls =
     bindS (liftS (input_kinds E tx)) (\<lambda>kinds.
     bindS (on_db (mapS (read_input D) kinds)) (\<lambda>objects.
     bindS (load_gas D E tx objects) (\<lambda>loaded.
     bindS (execute fuel E target allow_testing_calls (fst loaded) (snd loaded) tx epoch epoch_ms) (\<lambda>run.
     liftS (finish_trace step trc run)))))"

definition run_tx_trace where
  "run_tx_trace fuel D E step tx epoch epoch_ms trc = run_tx_trace_inner fuel D E step tx epoch epoch_ms trc None False"

definition ptb_transaction :: "ProgrammableTransaction \<Rightarrow> MoveAddress \<Rightarrow> ObjectRef \<Rightarrow> TransactionData" where
  "ptb_transaction ptb sender gas = \<lparr>tx_kind = ProgrammableTx ptb, tx_sender = sender, tx_gas = [gas],
     tx_budget = very_big_gas div 1000, tx_price = 1\<rparr>"

definition run_ptb_with_gas_inner ::
  "nat \<Rightarrow> ('p ObjectBody, 'd) Db \<Rightarrow> ('p, 'd, 'g) Engine \<Rightarrow> ('t \<Rightarrow> TraceEvent \<Rightarrow> 't res) \<Rightarrow> ProgrammableTransaction
     \<Rightarrow> u64 \<Rightarrow> u64 \<Rightarrow> MoveAddress \<Rightarrow> ObjectID \<Rightarrow> 't option \<Rightarrow> ObjectID option
     \<Rightarrow> ('d World, ('p, 'g, 't) ExecutionTracedResults) act" where
  "run_ptb_with_gas_inner fuel D E step ptb epoch epoch_ms sender gas trc target =
     bindS (on_db (get_object_info D gas)) (\<lambda>info.
       run_tx_trace_inner fuel D E step (ptb_transaction ptb sender (sui_reference info)) epoch epoch_ms trc target False)"

definition run_ptb_with_gas where
  "run_ptb_with_gas fuel D E step ptb epoch epoch_ms sender gas trc =
     run_ptb_with_gas_inner fuel D E step ptb epoch epoch_ms sender gas trc None"

definition unwrap_tracer ::
  "('p, 'g, 't MovySuiTracerWrapper) ExecutionTracedResults \<Rightarrow> ('p, 'g, 't) ExecutionTracedResults" where
  "unwrap_tracer v = \<lparr>results = results v, traced = map_option tracer (traced v)\<rparr>"

definition run_ptb_with_movy_tracer_gas ::
  "nat \<Rightarrow> ('p ObjectBody, 'd) Db \<Rightarrow> ('p, 'd, 'g) Engine \<Rightarrow> TraceApi \<Rightarrow> 't TracerExt \<Rightarrow> ProgrammableTransaction
     \<Rightarrow> u64 \<Rightarrow> u64 \<Rightarrow> MoveAddress \<Rightarrow> ObjectID \<Rightarrow> 't option \<Rightarrow> ('d World, ('p, 'g, 't) ExecutionTracedResults) act" where
  "run_ptb_with_movy_tracer_gas fuel D E A T ptb epoch epoch_ms sender gas trc =
     bindS (run_ptb_with_gas fuel D E (notify A T) ptb epoch epoch_ms sender gas (map_option wrapper_from trc))
       (\<lambda>v. returnS (unwrap_tracer v))"

definition run_ptb_with_movy_testing_tracer_gas ::
  "nat \<Rightarrow> ('p ObjectBody, 'd) Db \<Rightarrow> ('p, 'd, 'g) Engine \<Rightarrow> TraceApi \<Rightarrow> 't TracerExt \<Rightarrow> ProgrammableTransaction
     \<Rightarrow> u64 \<Rightarrow> u64 \<Rightarrow> MoveAddress \<Rightarrow> ObjectID \<Rightarrow> 't option \<Rightarrow> ('d World, ('p, 'g, 't) ExecutionTracedResults) act" where
  "run_ptb_with_movy_testing_tracer_gas fuel D E A T ptb epoch epoch_ms sender gas trc =
     bindS (on_db (get_object_info D gas)) (\<lambda>info.
     bindS (run_tx_trace_inner fuel D E (notify A T) (ptb_transaction ptb sender (sui_reference info)) epoch epoch_ms
              (map_option wrapper_from trc) None True)
       (\<lambda>v. returnS (unwrap_tracer v)))"

definition sui_coin :: MoveTypeTag where
  "sui_coin = TagStruct (MoveStructTag 2 ''sui'' ''SUI'' [])"

definition run_ptb_mint_gas ::
  "nat \<Rightarrow> 'p coin_maker \<Rightarrow> ('p ObjectBody, 'd) Db \<Rightarrow> ('p, 'd, 'g) Engine \<Rightarrow> ('t \<Rightarrow> TraceEvent \<Rightarrow> 't res)
     \<Rightarrow> ObjectID \<Rightarrow> ProgrammableTransaction \<Rightarrow> u64 \<Rightarrow> u64 \<Rightarrow> MoveAddress \<Rightarrow> 't option
     \<Rightarrow> ('d World, ('p, 'g, 't) ExecutionTracedResults) act" where
  "run_ptb_mint_gas fuel mint D E step gas_id ptb epoch epoch_ms sender trc =
     bindS (on_db (mint_coin_id mint D sui_coin (AddressOwner sender) gas_id very_big_gas)) (\<lambda>_.
     bindS (on_db (tryS (get_object_info D gas_id))) (\<lambda>info. case info of
       Inl _ \<Rightarrow> liftS (Inl (Panic ''called `Result::unwrap()` on an `Err` value''))
     | Inr info \<Rightarrow> run_ptb_with_gas fuel D E step ptb epoch epoch_ms sender (info_id info) trc))"

section \<open>Publishing and upgrading\<close>

record PublishApi =
  serialize_with_version :: "ModuleTables \<Rightarrow> u8 list res"
  compute_digest :: "u8 list list \<Rightarrow> ObjectID list \<Rightarrow> u8 list"
  address_bytes :: "MoveAddress \<Rightarrow> u8 list"

text \<open>The builder of \<open>Ptb\<close> with the pure bytes of a digest and the finished transaction.\<close>

record 'b TxBuilder = "'b Builder" +
  b_pure_bytes :: "'b \<Rightarrow> u8 list \<Rightarrow> ('b \<times> Argument) res"
  b_finish :: "'b \<Rightarrow> ProgrammableTransaction"

definition zero_modules :: "string \<Rightarrow> ModuleTables list \<Rightarrow> unit res" where
  "zero_modules msg ms = (case List.find (\<lambda>m. table_address m \<noteq> 0) ms of Some _ \<Rightarrow> Inl (Err (Other msg)) | None \<Rightarrow> Inr ())"

definition deployment_target :: "MoveAddress \<Rightarrow> ObjectID option" where
  "deployment_target package = (if package \<noteq> 0 then Some package else None)"

text \<open>The objects that the effects report as created, read in the temporary store.\<close>

definition written_object :: "('p, 'g) ExecutionResults \<Rightarrow> ObjectRef \<Rightarrow> 'p SuiObject res" where
  "written_object r ref = unwrapR ''called `Option::unwrap()` on a `None` value'' (bt_get (written (xr_store r)) (fst ref))"

definition note_package ::
  "('p, 'g) ExecutionResults \<Rightarrow> ObjectRef option \<Rightarrow> ObjectRef \<times> MoveOwner \<times> WriteKind \<Rightarrow> ObjectRef option res" where
  "note_package r acc t = (case t of (ref, owner, kind) \<Rightarrow>
     if kind = WriteCreate \<and> owner = Immutable
     then bindR (written_object r ref) (\<lambda>obj. Inr (if is_package obj then Some ref else acc))
     else Inr acc)"

definition is_upgrade_cap :: "MoveTypeTag \<Rightarrow> bool" where
  "is_upgrade_cap ty \<longleftrightarrow> ty = TagStruct (MoveStructTag 2 ''package'' ''UpgradeCap'' [])"

text \<open>The pattern \<open>Owner::AddressOwner(_admin)\<close> binds a new name, so any address owner matches.\<close>

definition note_cap ::
  "('p, 'g) ExecutionResults \<Rightarrow> ObjectRef option \<Rightarrow> ObjectRef \<times> MoveOwner \<times> WriteKind \<Rightarrow> ObjectRef option res" where
  "note_cap r acc t = (case t of (ref, owner, kind) \<Rightarrow>
     if kind = WriteCreate \<and> (case owner of AddressOwner _ \<Rightarrow> True | _ \<Rightarrow> False)
     then bindR (written_object r ref) (\<lambda>obj.
       Inr (if (case object_type obj of Some ty \<Rightarrow> is_upgrade_cap ty | None \<Rightarrow> False) then Some ref else acc))
     else Inr acc)"

definition note_deployed ::
  "('p, 'g) ExecutionResults \<Rightarrow> ObjectRef option \<times> ObjectRef option \<Rightarrow> ObjectRef \<times> MoveOwner \<times> WriteKind
     \<Rightarrow> (ObjectRef option \<times> ObjectRef option) res" where
  "note_deployed r acc t = bindR (note_package r (fst acc) t) (\<lambda>p. bindR (note_cap r (snd acc) t) (\<lambda>c. Inr (p, c)))"

definition wrong_target :: "ObjectID option \<Rightarrow> ObjectRef \<Rightarrow> bool" where
  "wrong_target target ref = (case target of Some t \<Rightarrow> fst ref \<noteq> t | None \<Rightarrow> False)"

definition commit_results :: "('p ObjectBody, 'd) Db \<Rightarrow> ('p, 'g) ExecutionResults \<Rightarrow> ('d World, unit) act" where
  "commit_results D r w = (case db_commit_store D (xr_store r) (xe_commit (xr_effects r)) (w_db w) of
     Inl e \<Rightarrow> Some (Inl e, w) | Inr d \<Rightarrow> Some (Inr (), w\<lparr>w_db := d\<rparr>))"

definition package_call :: "string \<Rightarrow> Argument list \<Rightarrow> Command" where
  "package_call name args = CmdMoveCall \<lparr>pmc_package = 2, pmc_module = ''package'', pmc_function = name,
     pmc_type_arguments = [], pmc_arguments = args\<rparr>"

text \<open>The transaction of an upgrade: authorize with the compatible policy, upgrade, commit.\<close>

definition upgrade_ptb ::
  "'b TxBuilder \<Rightarrow> u8 list \<Rightarrow> ObjectRef \<Rightarrow> ObjectID \<Rightarrow> ObjectID list \<Rightarrow> u8 list list \<Rightarrow> ProgrammableTransaction res" where
  "upgrade_ptb B digest cap original deps bytes =
     bindR (b_pure B (b_new B) (PureU8 0)) (\<lambda>(b, policy).
     bindR (b_pure_bytes B b digest) (\<lambda>(b, digest).
     bindR (b_obj B b (OaImmOrOwnedObject cap)) (\<lambda>(b, cap).
     case b_command B b (package_call ''authorize_upgrade'' [cap, policy, digest]) of (b, ticket) \<Rightarrow>
     case b_command B b (CmdUpgrade bytes deps original ticket) of (b, receipt) \<Rightarrow>
     case b_command B b (package_call ''commit_upgrade'' [cap, receipt]) of (b, _) \<Rightarrow>
     Inr (b_finish B b))))"

definition settle_upgrade ::
  "('p ObjectBody, 'd) Db \<Rightarrow> ObjectID option \<Rightarrow> ('p, 'g) ExecutionResults \<Rightarrow> ObjectRef option \<Rightarrow> ('d World, ObjectID) act" where
  "settle_upgrade D target r new_package = (case new_package of
     Some new_package \<Rightarrow>
       if wrong_target target new_package then liftS (Inl (Err (Other ''failed to deployed at target'')))
       else bindS (commit_results D r) (\<lambda>_. returnS (fst new_package))
   | None \<Rightarrow> liftS (Inl (Err (Other ''fail to upgrade''))))"

definition upgrade_contract ::
  "nat \<Rightarrow> PublishApi \<Rightarrow> 'b TxBuilder \<Rightarrow> ('p ObjectBody, 'd) Db \<Rightarrow> ('p, 'd, 'g) Engine \<Rightarrow> u64 \<Rightarrow> u64 \<Rightarrow> MoveAddress \<Rightarrow> ObjectID
     \<Rightarrow> ObjectID \<Rightarrow> ObjectID \<Rightarrow> SuiCompiledPackage \<Rightarrow> ('d World, ObjectID) act" where
  "upgrade_contract fuel X B D E epoch epoch_ms deployer gas original upgrade_cap project =
     bindS (on_db (readS (db_get_object D original))) (\<lambda>orig.
     if orig = None then liftS (Inl (Err (Other ''the package being upgraded is missing'')))
     else
     bindS (on_db (readS (db_get_object D upgrade_cap))) (\<lambda>cap. case cap of
       None \<Rightarrow> liftS (Inl (Err (Other ''upgrade cap missing'')))
     | Some cap \<Rightarrow>
     case into_deployment project of (ms, deps) \<Rightarrow>
     bindS (liftS (zero_modules ''can not upgrade modules with non-zero id'' ms)) (\<lambda>_.
     bindS (liftS (mapR (serialize_with_version X) ms)) (\<lambda>bytes.
     let target = deployment_target (package_id project) in
     bindS (liftS (upgrade_ptb B (compute_digest X bytes deps) (object_reference cap) original deps bytes)) (\<lambda>ptb.
     bindS (run_ptb_with_gas_inner fuel D E (\<lambda>t _. Inr t) ptb epoch epoch_ms deployer gas (None :: unit option) target) (\<lambda>out.
     bindS (liftS (foldR (note_package (results out)) None (xe_changed (xr_effects (results out))))) (\<lambda>new_package.
     settle_upgrade D target (results out) new_package)))))))"

definition deploy_ptb :: "PublishApi \<Rightarrow> MoveAddress \<Rightarrow> u8 list list \<Rightarrow> ObjectID list \<Rightarrow> ProgrammableTransaction" where
  "deploy_ptb X admin bytes deps = \<lparr>ptb_inputs = [CallPure (address_bytes X admin)],
     ptb_commands = [CmdPublish bytes deps, CmdTransferObjects [ArgResult 0] (ArgInput 0)]\<rparr>"

definition settle_deployment ::
  "('p ObjectBody, 'd) Db \<Rightarrow> ObjectID option \<Rightarrow> ('p, 'g) ExecutionResults \<Rightarrow> ObjectRef option \<times> ObjectRef option
     \<Rightarrow> ('d World, ObjectID \<times> ObjectID) act" where
  "settle_deployment D target r new = (case fst new of
     Some new_object \<Rightarrow>
       if wrong_target target new_object then liftS (Inl (Err (Other ''failed to deployed at target'')))
       else (case snd new of
           Some cap \<Rightarrow> bindS (commit_results D r) (\<lambda>_. returnS (fst new_object, fst cap))
         | None \<Rightarrow> liftS (Inl (Err (Other ''no upgrade cap is produced, which shall not happen''))))
   | None \<Rightarrow> liftS (Inl (Err (Other ''fail to deploy''))))"

definition deploy_contract ::
  "nat \<Rightarrow> PublishApi \<Rightarrow> ('p ObjectBody, 'd) Db \<Rightarrow> ('p, 'd, 'g) Engine \<Rightarrow> u64 \<Rightarrow> u64 \<Rightarrow> MoveAddress \<Rightarrow> ObjectID
     \<Rightarrow> SuiCompiledPackage \<Rightarrow> ('d World, ObjectID \<times> ObjectID) act" where
  "deploy_contract fuel X D E epoch epoch_ms admin gas project =
     (case into_deployment project of (ms, deps) \<Rightarrow>
     bindS (liftS (zero_modules ''can not deploy modules with non-zero id'' ms)) (\<lambda>_.
     bindS (liftS (mapR (serialize_with_version X) ms)) (\<lambda>bytes.
     let target = deployment_target (package_id project) in
     bindS (run_ptb_with_gas_inner fuel D E (\<lambda>t _. Inr t) (deploy_ptb X admin bytes deps) epoch epoch_ms admin gas
              (None :: unit option) target) (\<lambda>out.
     bindS (liftS (foldR (note_deployed (results out)) (None, None) (xe_changed (xr_effects (results out))))) (\<lambda>new.
     settle_deployment D target (results out) new)))))"

section \<open>Pending deployments: properties\<close>

definition with_budget :: "TransactionData \<Rightarrow> nat \<Rightarrow> TransactionData" where
  "with_budget tx i = tx\<lparr>tx_budget := tx_budget tx + of_nat i\<rparr>"

text \<open>What the loop relies on: digests of transactions with different gas budgets differ.\<close>

definition collision_free :: "(TransactionData \<Rightarrow> u256) \<Rightarrow> TransactionData \<Rightarrow> nat \<Rightarrow> bool" where
  "collision_free digest tx n \<longleftrightarrow> inj_on (\<lambda>i. digest (with_budget tx i)) {..n}"

lemma bt_remove_insert: "bt_wf m \<Longrightarrow> bt_get m k = None \<Longrightarrow> bt_remove k (bt_insert k v m) = m"
proof (induction k v m rule: bt_insert.induct)
  case (2 k v k' v' m)
  then show ?case by (auto simp: bt_wf_Cons split: if_splits)
qed simp

lemma GlobalDeployment_new_from:
  assumes "\<And>j. i \<le> j \<Longrightarrow> j < i + k \<Longrightarrow> bt_get m (digest (with_budget tx j)) \<noteq> None"
    and "bt_get m (digest (with_budget tx (i + k))) = None" "unat (tx_budget tx) + i + k < 2 ^ 64"
  shows "GlobalDeployment_new (Suc k) digest (with_budget tx i) target m =
    Some (Inr (digest (with_budget tx (i + k)), with_budget tx (i + k), bt_insert (digest (with_budget tx (i + k))) target m))"
  using assms
proof (induction k arbitrary: i)
  case (Suc k)
  have u: "unat (tx_budget tx + of_nat i) = unat (tx_budget tx) + i"
    using Suc.prems(3) by (simp add: unat_word_ariths unat_of_nat)
  have "tx_budget tx + of_nat i \<noteq> - 1"
  proof
    assume "tx_budget tx + of_nat i = - 1"
    then have "unat (tx_budget tx + of_nat i) = 2 ^ 64 - 1"
      by (simp add: unsigned_minus_1_eq_mask mask_eq_exp_minus_1)
    then show False using Suc.prems(3) u by linarith
  qed
  then have "tx_budget (with_budget tx i) \<noteq> - 1" by (simp add: with_budget_def)
  moreover have "(with_budget tx i)\<lparr>tx_budget := tx_budget (with_budget tx i) + 1\<rparr> = with_budget tx (Suc i)"
    by (simp add: with_budget_def algebra_simps)
  moreover have "GlobalDeployment_new (Suc k) digest (with_budget tx (Suc i)) target m =
      Some (Inr (digest (with_budget tx (Suc i + k)), with_budget tx (Suc i + k), bt_insert (digest (with_budget tx (Suc i + k))) target m))"
    using Suc.prems by (intro Suc.IH) auto
  moreover have "bt_get m (digest (with_budget tx i)) \<noteq> None" using Suc.prems(1) [of i] by simp
  ultimately show ?case by (simp only: GlobalDeployment_new.simps(2) [of "Suc k"] if_False add_Suc_right add_Suc)
qed simp

lemma free_digest:
  assumes "bt_wf m" "collision_free digest tx (length m)"
  shows "\<exists>k \<le> length m. bt_get m (digest (with_budget tx k)) = None
    \<and> (\<forall>j < k. bt_get m (digest (with_budget tx j)) \<noteq> None)"
proof -
  let ?d = "\<lambda>i. digest (with_budget tx i)"
  have "\<exists>k \<le> length m. bt_get m (?d k) = None"
  proof (rule ccontr)
    assume "\<not> ?thesis"
    then have "?d ` {..length m} \<subseteq> set (bt_keys m)"
      using bt_wf_get [OF assms(1)] by (force simp: image_iff)
    then have "card (?d ` {..length m}) \<le> length m"
      using card_mono [of "set (bt_keys m)" "?d ` {..length m}"] card_length [of "bt_keys m"] by auto
    moreover have "card (?d ` {..length m}) = Suc (length m)"
      using assms(2) by (simp add: collision_free_def card_image)
    ultimately show False by simp
  qed
  then obtain k where k: "k \<le> length m" "bt_get m (?d k) = None" by blast
  let ?k = "LEAST k. bt_get m (?d k) = None"
  have "bt_get m (?d ?k) = None" "?k \<le> k" using k(2) by (rule LeastI, rule Least_le)
  moreover have "\<forall>j < ?k. bt_get m (?d j) \<noteq> None" using not_less_Least by blast
  ultimately show ?thesis using k(1) by (meson le_trans)
qed

lemma with_budget_0 [simp]: "with_budget tx 0 = tx"
  by (simp add: with_budget_def)

text \<open>
  Registering a targeted deployment ends: with as many attempts as there are pending
  deployments and one more, a free digest is found, provided that raising the gas budget changes the
  digest and does not overflow. Only the gas budget of the transaction changes, the digest was not in
  use, the engine finds the target under it, and dropping the registration restores the map.
\<close>

theorem GlobalDeployment_new_ends:
  assumes "bt_wf m" "collision_free digest tx (length m)" "unat (tx_budget tx) + length m < 2 ^ 64"
  shows "\<exists>k \<le> length m. \<exists>d m'. GlobalDeployment_new (Suc (length m)) digest tx target m = Some (Inr (d, with_budget tx k, m'))
    \<and> d = digest (with_budget tx k) \<and> bt_get m d = None
    \<and> targeted_deployment (SuiFuzzMode normal m') d = Some target \<and> GlobalDeployment_drop d m' = m"
proof -
  from free_digest [OF assms(1,2)] obtain k where k: "k \<le> length m"
    "bt_get m (digest (with_budget tx k)) = None" "\<forall>j < k. bt_get m (digest (with_budget tx j)) \<noteq> None" by blast
  have more: "GlobalDeployment_new n digest tx target m = Some r \<Longrightarrow> n \<le> n' \<Longrightarrow>
      GlobalDeployment_new n' digest tx target m = Some r" for n n' tx r
  proof (induction n arbitrary: n' tx)
    case (Suc n)
    then show ?case by (cases n') (auto split: if_splits)
  qed simp
  have "GlobalDeployment_new (Suc k) digest tx target m = Some (Inr (digest (with_budget tx k), with_budget tx k,
      bt_insert (digest (with_budget tx k)) target m))"
    using GlobalDeployment_new_from [of 0 k m digest tx target] k assms(3) by simp
  then have "GlobalDeployment_new (Suc (length m)) digest tx target m = Some (Inr (digest (with_budget tx k), with_budget tx k,
      bt_insert (digest (with_budget tx k)) target m))"
    by (rule more) (use k(1) in simp)
  moreover have "targeted_deployment (SuiFuzzMode normal (bt_insert (digest (with_budget tx k)) target m))
      (digest (with_budget tx k)) = Some target"
    using assms(1) by (simp add: SuiFuzzMode_def)
  moreover have "GlobalDeployment_drop (digest (with_budget tx k)) (bt_insert (digest (with_budget tx k)) target m) = m"
    using assms(1) k(2) by (simp add: GlobalDeployment_drop_def bt_remove_insert)
  ultimately show ?thesis using k(1,2) by (intro exI [of _ k]) simp
qed

text \<open>Deployments of several threads: each registers before its execution and drops after it.\<close>

inductive deploy_step ::
  "(TransactionData \<Rightarrow> u256) \<Rightarrow> (u256 \<times> ObjectID) list \<times> deployments \<Rightarrow> (u256 \<times> ObjectID) list \<times> deployments \<Rightarrow> bool"
  for digest where
  register: "GlobalDeployment_new n digest tx target m = Some (Inr (d, tx', m')) \<Longrightarrow>
    deploy_step digest (running, m) ((d, target) # running, m')"
| finish: "(d, target) \<in> set running \<Longrightarrow>
    deploy_step digest (running, m) (remove1 (d, target) running, GlobalDeployment_drop d m)"

inductive_cases deploy_stepE: "deploy_step digest s s'"

lemma GlobalDeployment_new_registers:
  "GlobalDeployment_new n digest tx target m = Some (Inr (d, tx', m')) \<Longrightarrow> bt_get m d = None \<and> m' = bt_insert d target m"
  by (induction n arbitrary: tx) (auto split: if_splits)

definition deployments_ok :: "(u256 \<times> ObjectID) list \<times> deployments \<Rightarrow> bool" where
  "deployments_ok s \<longleftrightarrow> bt_wf (snd s) \<and> distinct (map fst (fst s)) \<and> (\<forall>d. bt_get (snd s) d = map_of (fst s) d)"

lemma map_of_remove1:
  "distinct (map fst xs) \<Longrightarrow> (k, v) \<in> set xs \<Longrightarrow> map_of (remove1 (k, v) xs) = (map_of xs)(k := None)"
proof (induction xs)
  case (Cons p xs)
  have "map_of xs k = None" if "p = (k, v)" using that Cons.prems by (simp add: map_of_eq_None_iff)
  then show ?case using Cons by (cases p) (auto simp: fun_eq_iff rev_image_eqI)
qed simp

lemma deploy_step_ok: "deploy_step digest s s' \<Longrightarrow> deployments_ok s \<Longrightarrow> deployments_ok s'"
proof (erule deploy_stepE, goal_cases)
  case (1 n tx target m d tx' m' running)
  then have "bt_get m d = None" "m' = bt_insert d target m" by (auto dest: GlobalDeployment_new_registers)
  with 1 show ?case
    by (auto simp: deployments_ok_def bt_wf_insert map_of_eq_None_iff)
next
  case (2 d target running m)
  then have "distinct (map fst (remove1 (d, target) running))"
    by (auto simp: deployments_ok_def intro: distinct_remove1 simp: distinct_map remove1_filter_not dest: inj_on_subset [OF _ set_remove1_subset])
  with 2 show ?case
    by (auto simp: deployments_ok_def GlobalDeployment_drop_def bt_wf_remove map_of_remove1 bt_get_remove)
qed

text \<open>
  C33: deployments that run side by side do not see each other: in every state that any
  interleaving of registrations and drops reaches, the engine finds for each running deployment its
  own target, no two share a digest, and nothing is left in the map when none runs.
\<close>

theorem deployments_isolated:
  assumes "(deploy_step digest)\<^sup>*\<^sup>* ([], []) (running, m)"
  shows "distinct (map fst running)
    \<and> (\<forall>(d, target) \<in> set running. targeted_deployment (SuiFuzzMode normal m) d = Some target)
    \<and> (running = [] \<longrightarrow> m = [])"
proof -
  have ok: "deployments_ok (running, m)"
    using assms by (induction rule: rtranclp_induct) (use deploy_step_ok in \<open>auto simp: deployments_ok_def [of "([], [])"]\<close>)
  moreover have "m = []" if "running = []"
  proof (cases m)
    case (Cons p ps)
    then have "bt_get m (fst p) \<noteq> None" using ok bt_wf_get [of m "fst p" "snd p"] by (auto simp: deployments_ok_def)
    then show ?thesis using ok that by (simp add: deployments_ok_def)
  qed
  ultimately show ?thesis
    by (auto simp: deployments_ok_def SuiFuzzMode_def)
qed

definition plain_tx :: "u64 \<Rightarrow> TransactionData" where
  "plain_tx budget = \<lparr>tx_kind = SystemTx [], tx_sender = 1, tx_gas = [], tx_budget = budget, tx_price = 1\<rparr>"

text \<open>A digest that is the gas budget: one deployment with budget 5 is pending.\<close>

theorem GlobalDeployment_new_ends_witness:
  "\<exists>k \<le> 1. \<exists>d m'. GlobalDeployment_new (Suc 1) (\<lambda>tx. ucast (tx_budget tx)) (plain_tx 5) 9 [(5, 7)] = Some (Inr (d, with_budget (plain_tx 5) k, m'))
    \<and> GlobalDeployment_drop d m' = [(5, 7)]"
proof -
  have "collision_free (\<lambda>tx. ucast (tx_budget tx)) (plain_tx 5) (length [(5 :: u256, 7 :: ObjectID)])"
    by (auto simp: collision_free_def inj_on_def with_budget_def plain_tx_def le_Suc_eq)
  then show ?thesis
    using GlobalDeployment_new_ends [of "[(5, 7)]" "\<lambda>tx. ucast (tx_budget tx)" "plain_tx 5" 9 undefined]
    by (auto simp: bt_wf_Cons plain_tx_def simp del: GlobalDeployment_new.simps)
qed

theorem deployments_isolated_witness:
  "targeted_deployment (SuiFuzzMode \<lparr>allow_arbitrary_function_calls = False, targeted_deployment = \<lambda>_. None\<rparr>
     [(5, 7), (6, 9)]) 6 = Some 9"
proof -
  let ?d = "\<lambda>tx. ucast (tx_budget tx)"
  have "deploy_step ?d ([], []) ([(5, 7)], [(5, 7)])"
    by (rule register [where n = 1 and tx = "plain_tx 5"]) (simp add: plain_tx_def)
  moreover have "deploy_step ?d ([(5, 7)], [(5, 7)]) ([(6, 9), (5, 7)], [(5, 7), (6, 9)])"
    by (rule register [where n = "Suc 1" and tx = "plain_tx 5"]) (simp add: plain_tx_def)
  ultimately have "(deploy_step ?d)\<^sup>*\<^sup>* ([], []) ([(6, 9), (5, 7)], [(5, 7), (6, 9)])"
    by (rule rtranclp.rtrancl_into_rtrancl [OF r_into_rtranclp])
  from deployments_isolated [OF this, where normal = "\<lparr>allow_arbitrary_function_calls = False, targeted_deployment = \<lambda>_. None\<rparr>"]
  show ?thesis by simp
qed

section \<open>The contract of a store of objects\<close>

text \<open>Reads answer with the object that was asked for and keep the store well formed.\<close>

locale object_db =
  fixes D :: "('p ObjectBody, 'd) Db"
    and wf :: "'d \<Rightarrow> bool"
  assumes get_object_wf: "wf d \<Longrightarrow> wf (snd (db_get_object D i d))"
    and get_object_id: "wf d \<Longrightarrow> fst (db_get_object D i d) = Some obj \<Longrightarrow> object_id obj = i"
    and get_by_key_wf: "wf d \<Longrightarrow> wf (snd (db_get_object_by_key D i v d))"
    and get_by_key_id: "wf d \<Longrightarrow> fst (db_get_object_by_key D i v d) = Some obj \<Longrightarrow>
      object_id obj = i \<and> object_version obj = v"
    and get_package_wf: "wf d \<Longrightarrow> db_get_package_object D i d = Inr (r, d') \<Longrightarrow> wf d'"
    and get_package_id: "wf d \<Longrightarrow> db_get_package_object D i d = Inr (Some obj, d') \<Longrightarrow> object_id obj = i"

text \<open>Both caches meet it when the backing store does: what they hold is held under its own identifier
  and version.\<close>

definition honest_store :: "'c ObjectStore \<Rightarrow> bool" where
  "honest_store S \<longleftrightarrow> (\<forall>i obj. store_get_object S i = Some obj \<longrightarrow> object_id obj = i)
     \<and> (\<forall>i v obj. store_get_object_by_key S i v = Some obj \<longrightarrow> object_id obj = i \<and> object_version obj = v)
     \<and> (\<forall>i obj. store_get_package_object S i = Inr (Some obj) \<longrightarrow> object_id obj = i)"

definition snap_keyed :: "'c ObjectStore \<Rightarrow> 'c CachedSnapshot \<Rightarrow> bool" where
  "snap_keyed S d \<longleftrightarrow> honest_store S \<and> snap_wf d
     \<and> (\<forall>i v obj. object_exact_version d i v = Some obj \<longrightarrow> object_id obj = i \<and> object_version obj = v)"

definition rocks_keyed :: "'c ObjectStore \<Rightarrow> 'c RocksCachedStore \<Rightarrow> bool" where
  "rocks_keyed S d \<longleftrightarrow> honest_store S \<and> rocks_wf d
     \<and> (\<forall>i v obj. rc_get_object_exact i v d = Some obj \<longrightarrow> object_id obj = i \<and> object_version obj = v)"

lemma snap_keyed_put: "snap_keyed S d \<Longrightarrow> snap_keyed S (cache_object_only obj d)"
  by (simp add: snap_keyed_def snap.wf_put snap.exact_put)

lemma rocks_keyed_put: "rocks_keyed S d \<Longrightarrow> rocks_keyed S (rc_put_object obj d)"
  by (simp add: rocks_keyed_def rocks.wf_put rocks.exact_put)

lemma snap_keyed_newest: "snap_keyed S d \<Longrightarrow> object_id_cached d i = Some obj \<Longrightarrow> object_id obj = i"
  using snap.bounded_exact [of d i] unfolding snap_keyed_def object_id_cached_def by blast

lemma rocks_keyed_newest: "rocks_keyed S d \<Longrightarrow> rc_get_object_upperbound i b d = Some obj \<Longrightarrow> object_id obj = i"
  using rocks.bounded_exact [of d i] unfolding rocks_keyed_def by blast

lemma honest_storeD:
  assumes "honest_store S"
  shows "store_get_object S i = Some obj \<Longrightarrow> object_id obj = i"
    and "store_get_object_by_key S i v = Some obj \<Longrightarrow> object_id obj = i \<and> object_version obj = v"
    and "store_get_package_object S i = Inr (Some obj) \<Longrightarrow> object_id obj = i"
  using assms by (simp_all add: honest_store_def)

lemma snap_keyed_reads:
  assumes "snap_keyed S d"
  shows "snap_keyed S (snd (cs_get_object S i d))"
    and "fst (cs_get_object S i d) = Some obj \<Longrightarrow> object_id obj = i"
    and "snap_keyed S (snd (cs_get_object_by_key S i v d))"
    and "fst (cs_get_object_by_key S i v d) = Some obj \<Longrightarrow> object_id obj = i \<and> object_version obj = v"
    and "cs_get_package_object S i d = Inr (r, d') \<Longrightarrow> snap_keyed S d'"
    and "cs_get_package_object S i d = Inr (Some obj, d') \<Longrightarrow> object_id obj = i"
proof -
  have S: "honest_store S"
    and ex: "\<And>obj. object_exact_version d i v = Some obj \<Longrightarrow> object_id obj = i \<and> object_version obj = v"
    using assms by (simp_all add: snap_keyed_def)
  note [split] = option.split option.split_asm and put = snap_keyed_put [OF assms]
    and new = snap_keyed_newest [OF assms] and store = honest_storeD [OF S]
  show "snap_keyed S (snd (cs_get_object S i d))" "snap_keyed S (snd (cs_get_object_by_key S i v d))"
    using assms put by (simp_all add: cs_get_object_def cs_get_object_by_key_def)
  show "fst (cs_get_object S i d) = Some obj \<Longrightarrow> object_id obj = i"
    by (simp add: cs_get_object_def) (use new store(1) in blast)+
  show "fst (cs_get_object_by_key S i v d) = Some obj \<Longrightarrow> object_id obj = i \<and> object_version obj = v"
    by (simp add: cs_get_object_by_key_def) (use ex store(2) in blast)+
  show "cs_get_package_object S i d = Inr (r, d') \<Longrightarrow> snap_keyed S d'"
    using assms put by (auto simp: cs_get_package_object_def bindR_eq_Inr)
  show "cs_get_package_object S i d = Inr (Some obj, d') \<Longrightarrow> object_id obj = i"
    by (simp add: cs_get_package_object_def bindR_eq_Inr) (use new store(3) in blast)+
qed

lemma rocks_keyed_reads:
  assumes "rocks_keyed S d"
  shows "rocks_keyed S (snd (rc_get_object S i d))"
    and "fst (rc_get_object S i d) = Some obj \<Longrightarrow> object_id obj = i"
    and "rocks_keyed S (snd (rc_get_object_by_key S i v d))"
    and "fst (rc_get_object_by_key S i v d) = Some obj \<Longrightarrow> object_id obj = i \<and> object_version obj = v"
    and "rc_get_package_object S i d = Inr (r, d') \<Longrightarrow> rocks_keyed S d'"
    and "rc_get_package_object S i d = Inr (Some obj, d') \<Longrightarrow> object_id obj = i"
proof -
  have S: "honest_store S"
    and ex: "\<And>obj. rc_get_object_exact i v d = Some obj \<Longrightarrow> object_id obj = i \<and> object_version obj = v"
    using assms by (simp_all add: rocks_keyed_def)
  note [split] = option.split option.split_asm and put = rocks_keyed_put [OF assms]
    and new = rocks_keyed_newest [OF assms] and store = honest_storeD [OF S]
  show "rocks_keyed S (snd (rc_get_object S i d))" "rocks_keyed S (snd (rc_get_object_by_key S i v d))"
    using assms put by (simp_all add: rc_get_object_def rc_get_object_by_key_def Let_def)
  show "fst (rc_get_object S i d) = Some obj \<Longrightarrow> object_id obj = i"
    by (simp add: rc_get_object_def rc_get_object_by_id_db_def Let_def) (use new store(1) in blast)+
  show "fst (rc_get_object_by_key S i v d) = Some obj \<Longrightarrow> object_id obj = i \<and> object_version obj = v"
    by (simp add: rc_get_object_by_key_def Let_def) (use ex store(2) in blast)+
  show "rc_get_package_object S i d = Inr (r, d') \<Longrightarrow> rocks_keyed S d'"
    using assms put by (auto simp: rc_get_package_object_def bindR_eq_Inr)
  show "rc_get_package_object S i d = Inr (Some obj, d') \<Longrightarrow> object_id obj = i"
    by (simp add: rc_get_package_object_def rc_get_object_by_id_db_def bindR_eq_Inr) (use new store(3) in blast)+
qed

interpretation cached: object_db "cached_db S" "snap_keyed S" for S :: "'p ObjectBody ObjectStore"
  by unfold_locales (unfold cached_db_def Db.simps, (erule (1) snap_keyed_reads | erule snap_keyed_reads)+)

interpretation rocks_cached: object_db "rocks_cached_db S" "rocks_keyed S" for S :: "'p ObjectBody ObjectStore"
  by unfold_locales (unfold rocks_cached_db_def Db.simps, (erule (1) rocks_keyed_reads | erule rocks_keyed_reads)+)

text \<open>What the engine is given for an input.\<close>

fun input_matches :: "InputObjectKind \<Rightarrow> 'p SuiObject \<Rightarrow> bool" where
  "input_matches (MovePackageObject i) obj \<longleftrightarrow> object_id obj = i"
| "input_matches (ImmOrOwnedMoveObject i v _) obj \<longleftrightarrow> object_id obj = i \<and> object_version obj = v"
| "input_matches (SharedMoveObject i v _) obj \<longleftrightarrow> object_id obj = i \<and> owner_start_version (object_owner obj) = Some v"

fun gas_kind :: "ObjectRef \<Rightarrow> InputObjectKind" where
  "gas_kind (i, v, digest) = ImmOrOwnedMoveObject i v digest"

lemma mapS_success:
  assumes "mapS f xs s = Some (Inr ys, t)" "P s"
    and step: "\<And>x s y t. P s \<Longrightarrow> f x s = Some (Inr y, t) \<Longrightarrow> P t \<and> Q x y"
  shows "P t \<and> list_all2 Q xs ys"
proof -
  have "P t \<and> (\<exists>zs. ys = acc @ zs \<and> list_all2 Q xs zs)"
    if "foldS (\<lambda>ys x. bindS (f x) (\<lambda>y. returnS (ys @ [y]))) acc xs s = Some (Inr ys, t)" "P s" for acc s
    using that
  proof (induction xs arbitrary: acc s)
    case (Cons x xs)
    let ?F = "foldS (\<lambda>ys x. bindS (f x) (\<lambda>y. returnS (ys @ [y])))"
    from Cons.prems(1) obtain b u where b: "bindS (f x) (\<lambda>y. returnS (acc @ [y])) s = Some (Inr b, u)"
      "?F b xs u = Some (Inr ys, t)" by (auto elim: bindS_E simp only: foldS.simps)
    from b(1) obtain y where y: "f x s = Some (Inr y, u)" "?F (acc @ [y]) xs u = Some (Inr ys, t)"
      using b(2) by (auto elim!: bindS_E)
    from Cons.IH [OF y(2)] step [OF Cons.prems(2) y(1)] show ?case by auto
  qed simp
  from this [of "[]" s] assms(1,2) show ?thesis by (simp add: mapS_def)
qed

lemma found_eq: "found msg kind obj s = Some (Inr y, t) \<longleftrightarrow> (\<exists>x. obj = Some x \<and> y = (kind, x) \<and> t = s)"
  by (auto simp: found_def split: option.splits)

lemma read_shared_eq:
  "read_input D (SharedMoveObject i v mutable) d = Some (Inr y, d') \<longleftrightarrow>
    (\<exists>obj. db_get_object D i d = (Some obj, d') \<and> y = (SharedMoveObject i v mutable, obj) \<and> owner_start_version (object_owner obj) = Some v)"
  by (cases "db_get_object D i d"; cases "fst (db_get_object D i d)")
    (auto simp: read_input_def bindS_eq_Inr unwrapR_eq_Inr split: if_splits)

context object_db
begin

lemma read_input_matches:
  assumes "wf d" "read_input D kind d = Some (Inr y, d')"
  shows "wf d' \<and> fst y = kind \<and> input_matches kind (snd y)"
proof (cases kind)
  case (ImmOrOwnedMoveObject i v digest)
  then show ?thesis
    using assms get_by_key_wf [OF assms(1), of i v] get_by_key_id [OF assms(1), of i v]
    by (auto simp: read_input_def bindS_eq_Inr found_eq)
next
  case (SharedMoveObject i v mutable)
  with assms(2) obtain obj where obj: "db_get_object D i d = (Some obj, d')" "y = (kind, obj)"
    "owner_start_version (object_owner obj) = Some v" by (auto simp: read_shared_eq)
  with SharedMoveObject show ?thesis
    using get_object_wf [OF assms(1), of i] get_object_id [OF assms(1), of i obj] by simp
next
  case (MovePackageObject i)
  with assms(2) obtain obj where "db_get_package_object D i d = Inr (Some obj, d')" "y = (kind, obj)"
    by (auto simp: read_input_def found_eq split: sum.splits prod.splits)
  with MovePackageObject show ?thesis
    using get_package_wf [OF assms(1), of i] get_package_id [OF assms(1), of i obj] by auto
qed

lemma read_gas_matches:
  assumes "wf d" "read_gas D gas d = Some (Inr y, d')"
  shows "wf d' \<and> fst y = gas_kind gas \<and> input_matches (gas_kind gas) (snd y)"
proof (cases gas)
  case (fields i v digest)
  then show ?thesis
    using assms get_by_key_wf [OF assms(1), of i v] get_by_key_id [OF assms(1), of i v]
    by (auto simp: read_gas_def bindS_eq_Inr found_eq)
qed

lemma read_inputs_match:
  assumes "wf d" "mapS (read_input D) kinds d = Some (Inr objects, d')"
  shows "wf d' \<and> map fst objects = kinds \<and> (\<forall>(k, obj) \<in> set objects. input_matches k obj)"
proof -
  have "wf d' \<and> list_all2 (\<lambda>k y. fst y = k \<and> input_matches k (snd y)) kinds objects"
    using assms by (rule_tac mapS_success [where P = wf]) (auto dest: read_input_matches)
  moreover have "list_all2 (\<lambda>k y. fst y = k \<and> input_matches k (snd y)) kinds objects \<Longrightarrow>
      map fst objects = kinds \<and> (\<forall>(k, obj) \<in> set objects. input_matches k obj)"
    by (induction kinds objects rule: list_all2_induct) auto
  ultimately show ?thesis by simp
qed

lemma read_gases_match:
  assumes "wf d" "mapS (read_gas D) gases d = Some (Inr objects, d')"
  shows "wf d' \<and> map fst objects = map gas_kind gases \<and> (\<forall>(k, obj) \<in> set objects. input_matches k obj)"
proof -
  have "wf d' \<and> list_all2 (\<lambda>g y. fst y = gas_kind g \<and> input_matches (gas_kind g) (snd y)) gases objects"
    using assms by (rule_tac mapS_success [where P = wf]) (auto dest: read_gas_matches)
  moreover have "list_all2 (\<lambda>g y. fst y = gas_kind g \<and> input_matches (gas_kind g) (snd y)) gases objects \<Longrightarrow>
      map fst objects = map gas_kind gases \<and> (\<forall>(k, obj) \<in> set objects. input_matches k obj)"
    by (induction gases objects rule: list_all2_induct) auto
  ultimately show ?thesis by simp
qed

end

section \<open>What the engine runs\<close>

lemma on_db_eq: "on_db m w = Some (Inr x, w') \<longleftrightarrow> (\<exists>d. m (w_db w) = Some (Inr x, d) \<and> w' = w\<lparr>w_db := d\<rparr>)"
  by (cases "m (w_db w)") (auto simp: on_db_def)

lemma GlobalDeployment_new_tx:
  "GlobalDeployment_new n digest tx target m = Some (Inr (d, tx', m')) \<Longrightarrow> \<exists>k. tx' = with_budget tx k \<and> d = digest tx'"
proof (induction n arbitrary: tx)
  case (Suc n)
  show ?case
  proof (cases "bt_get m (digest tx) = None")
    case True
    then show ?thesis using Suc.prems by (auto intro!: exI [of _ 0])
  next
    case False
    with Suc.prems have "GlobalDeployment_new n digest (with_budget tx 1) target m = Some (Inr (d, tx', m'))"
      by (simp add: with_budget_def split: if_splits)
    from Suc.IH [OF this] obtain k where "tx' = with_budget (with_budget tx 1) k" "d = digest tx'" by blast
    then show ?thesis by (auto simp: with_budget_def intro!: exI [of _ "Suc k"])
  qed
qed simp

lemma execute_eq:
  assumes "execute fuel E target allow objects gas tx epoch epoch_ms w = Some (Inr (r, events), w')" "bt_wf (w_targets w)"
  shows "\<exists>mode n. execute_to_effects E mode objects gas (with_budget tx n) epoch epoch_ms (w_db w) = ((r, events), w_db w')
    \<and> w_targets w' = w_targets w
    \<and> (\<forall>t. target = Some t \<longrightarrow> targeted_deployment mode (tx_digest E (with_budget tx n)) = Some t)"
proof (cases target)
  case None
  then show ?thesis
    using assms(1) by (auto simp: execute_def run_engine_def on_db_def prod_eq_iff intro!: exI [of _ 0]
        exI [of _ "if allow \<or> tx_is_system E tx then SuiFuzzMode (normal_mode E) (w_targets w) else normal_mode E"])
next
  case (Some t)
  with assms(1) obtain d tx' m' where g: "GlobalDeployment_new fuel (tx_digest E) tx t (w_targets w) = Some (Inr (d, tx', m'))"
    and w': "execute_to_effects E (SuiFuzzMode (normal_mode E) m') objects gas tx' epoch epoch_ms (w_db w) = ((r, events), w_db w')"
      "w_targets w' = GlobalDeployment_drop d m'"
    by (auto simp: execute_def run_engine_def on_db_def prod_eq_iff split: option.splits sum.splits prod.splits)
  from GlobalDeployment_new_tx [OF g] obtain k where k: "tx' = with_budget tx k" "d = tx_digest E tx'" by blast
  from GlobalDeployment_new_registers [OF g] have m': "bt_get (w_targets w) d = None" "m' = bt_insert d t (w_targets w)" by auto
  then have "w_targets w' = w_targets w" "targeted_deployment (SuiFuzzMode (normal_mode E) m') d = Some t"
    using assms(2) w'(2) by (simp_all add: GlobalDeployment_drop_def bt_remove_insert SuiFuzzMode_def)
  then show ?thesis using w'(1) k Some by auto
qed

lemma input_kinds_eq: "input_kinds E tx = Inr kinds \<longleftrightarrow> tx_input_objects E tx = Inr kinds"
  by (auto simp: input_kinds_def split: sum.splits fault.splits)

lemma load_gas_eq:
  "load_gas D E tx objects w = Some (Inr y, w') \<longleftrightarrow>
    (if tx_is_system E tx then w' = w \<and> y = (objects, gas_unmetered E)
     else \<exists>paid d g. mapS (read_gas D) (tx_gas tx) (w_db w) = Some (Inr paid, d) \<and> w' = w\<lparr>w_db := d\<rparr>
       \<and> gas_status E (tx_budget tx) (tx_price tx) = Inr g \<and> y = (objects @ paid, g))"
  by (auto simp: load_gas_def bindS_eq_Inr on_db_eq)

lemma finish_trace_eq:
  assumes "finish_trace step trc run = Inr out"
  shows "results out = fst run" "trc = Some t \<Longrightarrow> \<exists>t'. foldR step t (snd run) = Inr t' \<and> traced out = Some t'"
  using assms by (auto simp: finish_trace_def bindR_eq_Inr split: option.splits)

text \<open>The steps of a successful run.\<close>

lemma run_tx_steps:
  assumes "run_tx_trace_inner fuel D E step tx epoch epoch_ms trc target allow w = Some (Inr out, w')"
  obtains kinds objects d loaded w1 run where "tx_input_objects E tx = Inr kinds"
    "mapS (read_input D) kinds (w_db w) = Some (Inr objects, d)"
    "load_gas D E tx objects (w\<lparr>w_db := d\<rparr>) = Some (Inr loaded, w1)"
    "execute fuel E target allow (fst loaded) (snd loaded) tx epoch epoch_ms w1 = Some (Inr run, w')"
    "finish_trace step trc run = Inr out"
  using assms unfolding run_tx_trace_inner_def
  by (auto elim!: bindS_E simp: on_db_eq input_kinds_eq)

context object_db
begin

lemma run_tx_matches:
  assumes "wf (w_db w)" "bt_wf (w_targets w)"
    and "run_tx_trace_inner fuel D E step tx epoch epoch_ms trc target allow w = Some (Inr out, w')"
  shows "\<exists>kinds objects gas mode n d events. tx_input_objects E tx = Inr kinds
    \<and> map fst objects = kinds @ (if tx_is_system E tx then [] else map gas_kind (tx_gas tx))
    \<and> (\<forall>(k, obj) \<in> set objects. input_matches k obj)
    \<and> execute_to_effects E mode objects gas (with_budget tx n) epoch epoch_ms d = ((results out, events), w_db w')
    \<and> wf d \<and> w_targets w' = w_targets w
    \<and> (\<forall>t. target = Some t \<longrightarrow> targeted_deployment mode (tx_digest E (with_budget tx n)) = Some t)
    \<and> (\<forall>t. trc = Some t \<longrightarrow> (\<exists>t'. foldR step t events = Inr t' \<and> traced out = Some t'))"
  using assms(3)
proof (rule run_tx_steps)
  fix kinds objects d loaded w1 run
  assume kinds: "tx_input_objects E tx = Inr kinds"
    and objects: "mapS (read_input D) kinds (w_db w) = Some (Inr objects, d)"
    and gas: "load_gas D E tx objects (w\<lparr>w_db := d\<rparr>) = Some (Inr loaded, w1)"
    and run: "execute fuel E target allow (fst loaded) (snd loaded) tx epoch epoch_ms w1 = Some (Inr run, w')"
    and out: "finish_trace step trc run = Inr out"
  note o = read_inputs_match [OF assms(1) objects]
  have g: "wf (w_db w1) \<and> w_targets w1 = w_targets w
      \<and> map fst (fst loaded) = kinds @ (if tx_is_system E tx then [] else map gas_kind (tx_gas tx))
      \<and> (\<forall>(k, obj) \<in> set (fst loaded). input_matches k obj)"
  proof (cases "tx_is_system E tx")
    case False
    with gas obtain paid d1 g where "mapS (read_gas D) (tx_gas tx) d = Some (Inr paid, d1)" "loaded = (objects @ paid, g)"
      "w1 = w\<lparr>w_db := d\<rparr>\<lparr>w_db := d1\<rparr>" by (auto simp: load_gas_eq)
    then show ?thesis using read_gases_match [of d "tx_gas tx" paid d1] o False by auto
  qed (use gas o in \<open>auto simp: load_gas_eq\<close>)
  from execute_eq [of fuel E target allow "fst loaded" "snd loaded" tx epoch epoch_ms w1 "fst run" "snd run" w'] run g assms(2)
  obtain mode n where
    "execute_to_effects E mode (fst loaded) (snd loaded) (with_budget tx n) epoch epoch_ms (w_db w1) = (run, w_db w')"
    "w_targets w' = w_targets w" "\<forall>t. target = Some t \<longrightarrow> targeted_deployment mode (tx_digest E (with_budget tx n)) = Some t"
    by auto
  with g kinds finish_trace_eq [OF out] show ?thesis
    by (intro exI [of _ kinds] exI [of _ "fst loaded"] exI [of _ "snd loaded"] exI [of _ mode] exI [of _ n]
        exI [of _ "w_db w1"] exI [of _ "snd run"]) simp
qed

end

text \<open>
  C3: a transaction is executed on what it names. When a run on the cached store returns, the
  engine was given one object for every input of the transaction and, unless it is a system
  transaction, for every gas payment, in that order; each has the identifier asked for, an owned one
  the version and a shared one the initial version asked for. The transaction that ran is the given one
  up to its gas budget; a targeted deployment finds its target and leaves no trace in the map of pending
  deployments; the tracer that is returned has consumed the events of the execution in order.
\<close>

theorem executed_inputs_match:
  assumes "snap_keyed S (w_db w)" "bt_wf (w_targets w)"
    and "run_tx_trace_inner fuel (cached_db S) E step tx epoch epoch_ms trc target allow w = Some (Inr out, w')"
  shows "\<exists>kinds objects gas mode n d events. tx_input_objects E tx = Inr kinds
    \<and> map fst objects = kinds @ (if tx_is_system E tx then [] else map gas_kind (tx_gas tx))
    \<and> (\<forall>(k, obj) \<in> set objects. input_matches k obj)
    \<and> execute_to_effects E mode objects gas (with_budget tx n) epoch epoch_ms d = ((results out, events), w_db w')
    \<and> snap_keyed S d \<and> w_targets w' = w_targets w
    \<and> (\<forall>t. target = Some t \<longrightarrow> targeted_deployment mode (tx_digest E (with_budget tx n)) = Some t)
    \<and> (\<forall>t. trc = Some t \<longrightarrow> (\<exists>t'. foldR step t events = Inr t' \<and> traced out = Some t'))"
  using assms by (rule cached.run_tx_matches)

section \<open>Deployments: properties\<close>

definition written_package :: "('p, 'g) ExecutionResults \<Rightarrow> ObjectID \<Rightarrow> bool" where
  "written_package r i \<longleftrightarrow> (\<exists>obj. bt_get (written (xr_store r)) i = Some obj \<and> is_package obj)"

definition written_cap :: "('p, 'g) ExecutionResults \<Rightarrow> ObjectID \<Rightarrow> bool" where
  "written_cap r i \<longleftrightarrow> (\<exists>obj ty. bt_get (written (xr_store r)) i = Some obj \<and> object_type obj = Some ty \<and> is_upgrade_cap ty)"

lemma note_package_written:
  assumes "note_package r acc t = Inr acc'" "\<forall>ref. acc = Some ref \<longrightarrow> written_package r (fst ref)"
  shows "\<forall>ref. acc' = Some ref \<longrightarrow> written_package r (fst ref)"
  using assms
  by (auto simp: note_package_def written_object_def written_package_def bindR_eq_Inr unwrapR_eq_Inr split: if_splits prod.splits)

lemma note_cap_written:
  assumes "note_cap r acc t = Inr acc'" "\<forall>ref. acc = Some ref \<longrightarrow> written_cap r (fst ref)"
  shows "\<forall>ref. acc' = Some ref \<longrightarrow> written_cap r (fst ref)"
  using assms
  by (auto simp: note_cap_def written_object_def written_cap_def bindR_eq_Inr unwrapR_eq_Inr split: if_splits prod.splits option.splits)

lemma deployed_written:
  assumes "foldR (note_deployed r) (None, None) ts = Inr (p, c)"
  shows "p = Some ref \<Longrightarrow> written_package r (fst ref)" "c = Some ref \<Longrightarrow> written_cap r (fst ref)"
proof -
  let ?P = "\<lambda>acc. (\<forall>ref. fst acc = Some ref \<longrightarrow> written_package r (fst ref)) \<and> (\<forall>ref. snd acc = Some ref \<longrightarrow> written_cap r (fst ref))"
  have step: "?P acc'" if "?P acc" "note_deployed r acc t = Inr acc'" for acc t acc'
    using that note_package_written [of r "fst acc" t "fst acc'"] note_cap_written [of r "snd acc" t "snd acc'"]
    by (auto simp: note_deployed_def bindR_eq_Inr)
  have "?P (p, c)" using step by (rule foldR_invariant [where P = ?P, OF _ _ assms]) auto
  then show "p = Some ref \<Longrightarrow> written_package r (fst ref)" "c = Some ref \<Longrightarrow> written_cap r (fst ref)" by auto
qed

lemma zero_modules_eq: "zero_modules msg ms = Inr x \<longleftrightarrow> (\<forall>m \<in> set ms. table_address m = 0)"
  by (auto simp: zero_modules_def find_None_iff find_Some_iff split: option.splits)

lemma commit_results_eq:
  "commit_results D r w = Some (Inr x, w') \<longleftrightarrow>
    (\<exists>d. db_commit_store D (xr_store r) (xe_commit (xr_effects r)) (w_db w) = Inr d \<and> w' = w\<lparr>w_db := d\<rparr>)"
  by (auto simp: commit_results_def split: sum.splits)

lemma settle_deployment_eq:
  assumes "settle_deployment D target r (p, c) w = Some (Inr (pkg, cap), w')"
  obtains pref cref where "p = Some pref" "c = Some cref" "\<not> wrong_target target pref" "pkg = fst pref" "cap = fst cref"
    "commit_results D r w = Some (Inr (), w')"
  using assms by (auto simp: settle_deployment_def bindS_eq_Inr split: option.splits if_splits)

lemma settle_upgrade_eq:
  assumes "settle_upgrade D target r p w = Some (Inr pkg, w')"
  obtains pref where "p = Some pref" "\<not> wrong_target target pref" "pkg = fst pref" "commit_results D r w = Some (Inr (), w')"
  using assms by (auto simp: settle_upgrade_def bindS_eq_Inr split: option.splits if_splits)

lemma run_ptb_targets:
  assumes "run_ptb_with_gas_inner fuel D E step ptb epoch epoch_ms sender gas trc target w = Some (Inr out, w')" "bt_wf (w_targets w)"
  shows "w_targets w' = w_targets w"
proof -
  from assms(1) obtain info d where
    "run_tx_trace_inner fuel D E step (ptb_transaction ptb sender (sui_reference info)) epoch epoch_ms trc target False (w\<lparr>w_db := d\<rparr>)
      = Some (Inr out, w')" by (auto simp: run_ptb_with_gas_inner_def on_db_eq elim!: bindS_E)
  then show ?thesis
  proof (rule run_tx_steps)
    fix objects d1 loaded w1 run
    assume gas: "load_gas D E (ptb_transaction ptb sender (sui_reference info)) objects (w\<lparr>w_db := d\<rparr>\<lparr>w_db := d1\<rparr>) = Some (Inr loaded, w1)"
      and run: "execute fuel E target False (fst loaded) (snd loaded) (ptb_transaction ptb sender (sui_reference info)) epoch epoch_ms w1 = Some (Inr run, w')"
    have "w_targets w1 = w_targets w" using gas by (auto simp: load_gas_eq split: if_splits)
    then show ?thesis using execute_eq [of fuel E target False "fst loaded" "snd loaded" _ epoch epoch_ms w1 "fst run" "snd run" w'] run assms(2) by auto
  qed
qed

text \<open>
  C34: a deployment that returns has published what was asked for: all modules were compiled
  for address zero, the package has the identifier of the project when it has one, the package and an
  upgrade capability are among the objects the execution wrote, exactly those results were committed to
  the store, and no pending deployment is left behind.
\<close>

theorem deploy_contract_committed:
  fixes E :: "('p, 'd, 'g) Engine"
  assumes "bt_wf (w_targets w)" "deploy_contract fuel X D E epoch epoch_ms admin gas project w = Some (Inr (pkg, cap), w')"
  shows "(\<forall>m \<in> set (package_modules project). table_address m = 0)
    \<and> (package_id project \<noteq> 0 \<longrightarrow> pkg = package_id project) \<and> w_targets w' = w_targets w
    \<and> (\<exists>(r :: ('p, 'g) ExecutionResults) d. db_commit_store D (xr_store r) (xe_commit (xr_effects r)) d = Inr (w_db w')
          \<and> written_package r pkg \<and> written_cap r cap)"
proof -
  from assms(2) obtain bytes out w1 p c where ms: "\<forall>m \<in> set (package_modules project). table_address m = 0"
    and run: "run_ptb_with_gas_inner fuel D E (\<lambda>t _. Inr t) (deploy_ptb X admin bytes (dependencies project)) epoch epoch_ms admin gas
      (None :: unit option) (deployment_target (package_id project)) w = Some (Inr out, w1)"
    and deployed: "foldR (note_deployed (results out)) (None, None) (xe_changed (xr_effects (results out))) = Inr (p, c)"
    and settled: "settle_deployment D (deployment_target (package_id project)) (results out) (p, c) w1 = Some (Inr (pkg, cap), w')"
    by (auto simp: deploy_contract_def into_deployment_def Let_def bindS_eq_Inr zero_modules_eq)
  from settled obtain pref cref where refs: "p = Some pref" "c = Some cref" "pkg = fst pref" "cap = fst cref"
    and target: "\<not> wrong_target (deployment_target (package_id project)) pref"
    and commit: "commit_results D (results out) w1 = Some (Inr (), w')"
    by (rule settle_deployment_eq)
  have "w_targets w' = w_targets w"
    using commit run_ptb_targets [OF run assms(1)] by (auto simp: commit_results_eq)
  moreover have "package_id project \<noteq> 0 \<longrightarrow> pkg = package_id project"
    using target refs by (auto simp: wrong_target_def deployment_target_def)
  moreover have "db_commit_store D (xr_store (results out)) (xe_commit (xr_effects (results out))) (w_db w1) = Inr (w_db w')"
    using commit by (auto simp: commit_results_eq)
  moreover have "written_package (results out) pkg" "written_cap (results out) cap"
    using deployed_written [OF deployed] refs by simp_all
  ultimately show ?thesis using ms by (intro conjI exI [of _ "results out"] exI [of _ "w_db w1"])
qed

text \<open>A relation that every read of the store and the engine maintain; a commit need not.\<close>

definition read_only :: "('p ObjectBody, 'd) Db \<Rightarrow> ('p, 'd, 'g) Engine \<Rightarrow> ('d \<Rightarrow> 'd \<Rightarrow> bool) \<Rightarrow> bool" where
  "read_only D E R \<longleftrightarrow> reflp R \<and> transp R \<and> (\<forall>i d. R d (snd (db_get_object D i d)))
     \<and> (\<forall>i v d. R d (snd (db_get_object_by_key D i v d)))
     \<and> (\<forall>i d r d'. db_get_package_object D i d = Inr (r, d') \<longrightarrow> R d d')
     \<and> (\<forall>mode objects gas tx epoch epoch_ms d. R d (snd (execute_to_effects E mode objects gas tx epoch epoch_ms d)))"

definition world_rel :: "('d \<Rightarrow> 'd \<Rightarrow> bool) \<Rightarrow> 'd World \<Rightarrow> 'd World \<Rightarrow> bool" where
  "world_rel R w w' \<longleftrightarrow> R (w_db w) (w_db w')"

lemma world_rel_preorder: "reflp R \<Longrightarrow> reflp (world_rel R)" "transp R \<Longrightarrow> transp (world_rel R)"
  by (auto simp: reflp_def transp_def world_rel_def)

lemma keepsS_on_db: "keepsS R m \<Longrightarrow> keepsS (world_rel R) (on_db m)"
  by (auto simp: keepsS_def world_rel_def on_db_def)

lemma keepsS_read: "(\<And>d. R d (snd (f d))) \<Longrightarrow> keepsS R (readS f)"
  by (simp add: keepsS_def)

lemma read_only_preorder:
  assumes "read_only D E R"
  shows "reflp R" "transp R" "reflp (world_rel R)" "transp (world_rel R)"
  using assms by (auto simp: read_only_def intro: world_rel_preorder)

lemmas read_only_basic = keepsS_basic [OF read_only_preorder(1)] keepsS_basic [OF read_only_preorder(3)]

lemma read_only_reads:
  assumes "read_only D E R"
  shows "keepsS R (readS (db_get_object D i))" "keepsS R (readS (db_get_object_by_key D i v))"
    "keepsS (world_rel R) (run_engine E mode objects gas tx epoch epoch_ms)"
  using assms by (auto simp: read_only_def run_engine_def intro!: keepsS_read keepsS_on_db)

lemma read_only_found: "read_only D E R \<Longrightarrow> keepsS R (found msg kind obj)"
  by (cases obj) (auto simp: found_def intro: read_only_basic)

lemma read_only_input:
  assumes "read_only D E R"
  shows "keepsS R (read_input D kind)"
proof (cases kind)
  case (MovePackageObject i)
  have "R d d'" if "read_input D kind d = Some (r, d')" for d r d'
  proof (cases "db_get_package_object D i d")
    case (Inl e)
    then show ?thesis using that MovePackageObject read_only_preorder(1) [OF assms] by (simp add: read_input_def reflpD)
  next
    case (Inr p)
    then have "found ''package not found'' kind (fst p) (snd p) = Some (r, d')" "R d (snd p)"
      using that MovePackageObject assms by (cases p; force simp: read_input_def read_only_def)+
    then show ?thesis
      using read_only_found [OF assms] read_only_preorder(2) [OF assms] unfolding keepsS_def by (meson transpD)
  qed
  then show ?thesis by (simp add: keepsS_def)
qed (auto simp: read_input_def split: option.split
  intro!: keepsS_bind read_only_reads [OF assms] read_only_found [OF assms] read_only_preorder [OF assms] read_only_basic [OF assms])

lemma read_only_maps:
  assumes "read_only D E R" "\<And>x. keepsS R (f x)"
  shows "keepsS R (mapS f xs)"
  unfolding mapS_def
  by (intro keepsS_fold keepsS_bind assms(2) read_only_basic [OF assms(1)] read_only_preorder [OF assms(1)])

lemma read_only_execute:
  assumes "read_only D E R"
  shows "keepsS (world_rel R) (execute fuel E target allow objects gas tx epoch epoch_ms)"
proof -
  have "world_rel R w w'" if x: "execute fuel E target allow objects gas tx epoch epoch_ms w = Some (r, w')" for w r w'
  proof (cases target)
    case None
    then show ?thesis using x read_only_reads(3) [OF assms] by (simp add: execute_def keepsS_def split: if_splits)
  next
    case (Some t)
    have R: "R d d" for d using read_only_preorder(1) [OF assms] by (simp add: reflpD)
    have run: "R d (snd (execute_to_effects E mode objects gas tx epoch epoch_ms d))" for mode tx d
      using assms by (simp add: read_only_def)
    show ?thesis
      using x Some R run
      by (auto simp: execute_def run_engine_def on_db_def world_rel_def split: option.splits sum.splits prod.splits)
  qed
  then show ?thesis by (simp add: keepsS_def)
qed

lemma read_only_run:
  assumes "read_only D E R"
  shows "keepsS (world_rel R) (run_ptb_with_gas_inner fuel D E step ptb epoch epoch_ms sender gas trc target)"
proof -
  note rules = keepsS_bind keepsS_on_db read_only_maps [OF assms] read_only_basic [OF assms] read_only_reads [OF assms]
    read_only_preorder [OF assms] read_only_input [OF assms] read_only_execute [OF assms]
  have gas: "keepsS R (read_gas D g)" for g
    by (cases g) (auto simp: read_gas_def intro!: rules read_only_found [OF assms])
  have info: "keepsS R (get_object_info D i)" for i
    unfolding get_object_info_def by (intro keepsS_bind read_only_reads [OF assms] read_only_preorder [OF assms])
      (auto intro: read_only_basic [OF assms] split: option.split)
  have load: "keepsS (world_rel R) (load_gas D E tx objects)" for tx objects
    unfolding load_gas_def by (cases "tx_is_system E tx") (auto intro!: rules gas)
  show ?thesis
    unfolding run_ptb_with_gas_inner_def run_tx_trace_inner_def by (intro rules info load gas)
qed

text \<open>What a failing run keeps.\<close>

definition failsS :: "('s \<Rightarrow> 's \<Rightarrow> bool) \<Rightarrow> ('s, 'a) act \<Rightarrow> bool" where
  "failsS R m \<longleftrightarrow> (\<forall>s e t. m s = Some (Inl e, t) \<longrightarrow> R s t)"

lemma failsS_bind:
  assumes "keepsS R m" "\<And>x. failsS R (f x)" "transp R"
  shows "failsS R (bindS m f)"
  unfolding failsS_def
proof (intro allI impI)
  fix s e t assume "bindS m f s = Some (Inl e, t)"
  then consider "m s = Some (Inl e, t)" | x u where "m s = Some (Inr x, u)" "f x u = Some (Inl e, t)"
    by (auto simp: bindS_def split: option.splits sum.splits prod.splits)
  then show "R s t"
    using assms unfolding keepsS_def failsS_def by cases (blast dest: transpD)+
qed

lemma failsS_settle: "reflp R \<Longrightarrow> failsS (world_rel R) (settle_deployment D target r new)"
  by (auto simp: failsS_def settle_deployment_def commit_results_def bindS_def world_rel_def reflpD
      split: option.splits sum.splits if_splits)

text \<open>
  A deployment that fails commits nothing: whatever relation between states of the store the
  reads and the engine maintain, a deployment that returns an error or panics maintains it too.
\<close>

theorem deploy_failure_commits_nothing:
  assumes "read_only D E R" "deploy_contract fuel X D E epoch epoch_ms admin gas project w = Some (Inl e, w')"
  shows "R (w_db w) (w_db w')"
proof -
  note pre = read_only_preorder [OF assms(1)]
  have "failsS (world_rel R) (deploy_contract fuel X D E epoch epoch_ms admin gas project)"
    unfolding deploy_contract_def into_deployment_def prod.case Let_def
    by (intro failsS_bind failsS_settle pre read_only_run [OF assms(1)] read_only_basic [OF assms(1)])
  with assms(2) show ?thesis by (auto simp: failsS_def world_rel_def)
qed

section \<open>A concrete store and engine\<close>

definition demo_gas :: "unit SuiObject" where
  "demo_gas = \<lparr>object_id = 5, object_version = 3,
     object_contents = \<lparr>body_owner = AddressOwner 1, body_digest = 0, body_data = MoveData TagU64 []\<rparr>\<rparr>"

definition demo_backing :: "unit ObjectBody ObjectStore" where
  "demo_backing = \<lparr>store_get_object = \<lambda>i. if i = 5 then Some demo_gas else None,
     store_get_object_by_key = \<lambda>i v. if i = 5 \<and> v = 3 then Some demo_gas else None,
     store_get_package_object = \<lambda>_. Inr None, store_get_object_received = \<lambda>_ _ _ _. Inr None,
     store_read_child_object = \<lambda>_ _ _. Inr None\<rparr>"

definition demo_written :: "ObjectID \<Rightarrow> MoveOwner \<Rightarrow> unit ObjData \<Rightarrow> unit SuiObject" where
  "demo_written i owner data = \<lparr>object_id = i, object_version = 4,
     object_contents = \<lparr>body_owner = owner, body_digest = 0, body_data = data\<rparr>\<rparr>"

definition demo_published :: "(unit, unit) ExecutionResults" where
  "demo_published = \<lparr>xr_effects = \<lparr>xe_status = Success,
       xe_changed = [((9, 4, 0), Immutable, WriteCreate), ((8, 4, 0), AddressOwner 1, WriteCreate)],
       xe_commit = \<lparr>deleted = [], transferred_from_consensus = [], consensus_owner_changed = [], stream_ended_mutably_accessed = []\<rparr>\<rparr>,
     xr_store = \<lparr>written = [(8, demo_written 8 (AddressOwner 1) (MoveData (TagStruct (MoveStructTag 2 ''package'' ''UpgradeCap'' [])) [])),
         (9, demo_written 9 Immutable (PackageData ()))],
       input_objects = [], lamport_version = 4, stream_ended_consensus_objects = []\<rparr>,
     xr_events = [], xr_gas = ()\<rparr>"

definition demo_engine :: "(unit, unit ObjectBody CachedSnapshot, unit) Engine" where
  "demo_engine = \<lparr>tx_input_objects = \<lambda>_. Inr [], tx_is_system = \<lambda>_. False, tx_digest = \<lambda>tx. ucast (tx_budget tx),
     gas_unmetered = (), gas_status = \<lambda>_ _. Inr (),
     normal_mode = \<lparr>allow_arbitrary_function_calls = False, targeted_deployment = \<lambda>_. None\<rparr>,
     execute_to_effects = \<lambda>_ _ _ _ _ _ d. ((demo_published, []), d)\<rparr>"

definition demo_world :: "unit ObjectBody CachedSnapshot World" where
  "demo_world = \<lparr>w_db = [], w_targets = []\<rparr>"

definition demo_project :: "MoveAddress \<Rightarrow> SuiCompiledPackage" where
  "demo_project i = \<lparr>package_id = i, package_name = ''app'', package_names = [''app''], package_modules = [],
     dependencies = [], published_dependencies = []\<rparr>"

definition demo_publish :: PublishApi where
  "demo_publish = \<lparr>serialize_with_version = \<lambda>_. Inr [], compute_digest = \<lambda>_ _. [], address_bytes = \<lambda>_. []\<rparr>"

lemma demo_keyed: "snap_keyed demo_backing []"
  by (auto simp: snap_keyed_def honest_store_def demo_backing_def demo_gas_def snap_wf_def object_exact_version_def split: if_splits)

lemma demo_run:
  "run_ptb_with_gas_inner (Suc 0) (cached_db demo_backing) demo_engine step ptb 0 0 1 5 (None :: unit option) (Some 9) demo_world
   = Some (Inr \<lparr>results = demo_published, traced = None\<rparr>, \<lparr>w_db = [(5, [(3, Some demo_gas)])], w_targets = []\<rparr>)"
  by (simp add: run_ptb_with_gas_inner_def bindS_def on_db_def get_object_info_def cached_db_def cs_get_object_def
      object_id_cached_def object_resolved_upperbound_def object_resolve_upperbound_details_def demo_world_def demo_backing_def
      demo_gas_def MoveObjectInfo_try_from_def object_type_def cache_object_only_def cache_query_def run_tx_trace_inner_def
      input_kinds_def demo_engine_def mapS_def load_gas_def ptb_transaction_def sui_reference_def object_owner_def read_gas_def
      cs_get_object_by_key_def object_exact_version_def found_def execute_def run_engine_def GlobalDeployment_drop_def
      finish_trace_def)

lemma demo_deploy:
  "\<exists>w'. deploy_contract 1 demo_publish (cached_db demo_backing) demo_engine 0 0 1 5 (demo_project 9) demo_world = Some (Inr (9, 8), w')"
  by (simp add: deploy_contract_def into_deployment_def demo_project_def zero_modules_def deployment_target_def demo_publish_def
      bindS_def Let_def demo_run)
     (simp add: demo_published_def note_deployed_def note_package_def note_cap_def written_object_def demo_written_def
      is_package_def object_type_def is_upgrade_cap_def settle_deployment_def wrong_target_def bindS_def commit_results_def
      cached_db_def cs_commit_store_def removed_refs_def)

lemma demo_wrong_target:
  "\<exists>e w'. deploy_contract 1 demo_publish (cached_db demo_backing) demo_engine 0 0 1 6 (demo_project 9) demo_world = Some (Inl e, w')"
  by (simp add: deploy_contract_def into_deployment_def demo_project_def zero_modules_def demo_publish_def bindS_def Let_def
      run_ptb_with_gas_inner_def on_db_def get_object_info_def cached_db_def cs_get_object_def object_id_cached_def
      object_resolved_upperbound_def object_resolve_upperbound_details_def demo_world_def demo_backing_def)

theorem deploy_contract_committed_witness:
  "\<exists>w' (r :: (unit, unit) ExecutionResults). deploy_contract 1 demo_publish (cached_db demo_backing) demo_engine 0 0 1 5 (demo_project 9) demo_world
      = Some (Inr (9, 8), w') \<and> w_targets w' = [] \<and> written_package r 9 \<and> written_cap r 8"
proof -
  obtain w' where w': "deploy_contract 1 demo_publish (cached_db demo_backing) demo_engine 0 0 1 5 (demo_project 9) demo_world
      = Some (Inr (9, 8), w')" using demo_deploy by blast
  have "bt_wf (w_targets demo_world)" by (simp add: demo_world_def)
  from deploy_contract_committed [OF this w'] w' show ?thesis by (auto simp: demo_world_def)
qed

text \<open>Reads of the cache keep the objects that it holds in some version.\<close>

theorem deploy_failure_commits_nothing_witness:
  "\<exists>e w'. deploy_contract 1 demo_publish (cached_db demo_backing) demo_engine 0 0 1 6 (demo_project 9) demo_world = Some (Inl e, w')
    \<and> fst ` set (w_db w') \<subseteq> {5}"
proof -
  let ?R = "\<lambda>d d' :: unit ObjectBody CachedSnapshot. fst ` set d \<subseteq> {5} \<longrightarrow> fst ` set d' \<subseteq> {5}"
  have put: "fst ` set (cache_object_only obj d) = insert (object_id obj) (fst ` set d)" for obj and d :: "unit ObjectBody CachedSnapshot"
    using bt_keys_insert [of "object_id obj" _ d] by (simp add: cache_object_only_def cache_query_def)
  have ro: "read_only (cached_db demo_backing) demo_engine ?R"
    using put
    by (auto simp: read_only_def reflp_def transp_def cached_db_def cs_get_object_def cs_get_object_by_key_def
        cs_get_package_object_def demo_backing_def demo_engine_def demo_gas_def bindR_eq_Inr split: option.splits if_splits)
  obtain e w' where w': "deploy_contract 1 demo_publish (cached_db demo_backing) demo_engine 0 0 1 6 (demo_project 9) demo_world = Some (Inl e, w')"
    using demo_wrong_target by blast
  from deploy_failure_commits_nothing [OF ro w'] w' show ?thesis by (auto simp: demo_world_def)
qed

theorem executed_inputs_match_witness:
  "\<exists>out w' objects. run_tx_trace_inner 1 (cached_db demo_backing) demo_engine (\<lambda>t _. Inr t)
      (ptb_transaction \<lparr>ptb_inputs = [], ptb_commands = []\<rparr> 1 (5, 3, 0)) 0 0 (None :: unit option) None False demo_world = Some (Inr out, w')
    \<and> map fst objects = [ImmOrOwnedMoveObject 5 3 0] \<and> input_matches (fst (hd objects)) (snd (hd objects) :: unit SuiObject)"
proof -
  let ?tx = "ptb_transaction \<lparr>ptb_inputs = [], ptb_commands = []\<rparr> 1 (5, 3, 0)"
  have "\<exists>out w'. run_tx_trace_inner 1 (cached_db demo_backing) demo_engine (\<lambda>t _. Inr t) ?tx 0 0 (None :: unit option) None False demo_world = Some (Inr out, w')"
    by (simp add: bindS_def on_db_def cached_db_def demo_world_def demo_backing_def run_tx_trace_inner_def
      input_kinds_def demo_engine_def mapS_def load_gas_def ptb_transaction_def read_gas_def
      cs_get_object_by_key_def object_exact_version_def found_def execute_def run_engine_def finish_trace_def)
  then obtain out w' where run: "run_tx_trace_inner 1 (cached_db demo_backing) demo_engine (\<lambda>t _. Inr t) ?tx 0 0 (None :: unit option) None False demo_world = Some (Inr out, w')"
    by blast
  have "snap_keyed demo_backing (w_db demo_world)" "bt_wf (w_targets demo_world)"
    by (simp_all add: demo_world_def demo_keyed)
  from executed_inputs_match [OF this run] obtain kinds and objects :: "(InputObjectKind \<times> unit SuiObject) list" where
    o: "tx_input_objects demo_engine ?tx = Inr kinds"
    "map fst objects = kinds @ (if tx_is_system demo_engine ?tx then [] else map gas_kind (tx_gas ?tx))"
    "\<forall>(k, obj) \<in> set objects. input_matches k obj"
    by blast
  have "map fst objects = [ImmOrOwnedMoveObject 5 3 0]"
    using o(1,2) by (simp add: demo_engine_def ptb_transaction_def)
  moreover from this o(3) have "input_matches (fst (hd objects)) (snd (hd objects))" by (cases objects) auto
  ultimately show ?thesis using run by (intro exI [of _ out] exI [of _ w'] exI [of _ objects] conjI)
qed

end
