(* ===== verification/Fuzz_Executor.thy ===== *)
theory Fuzz_Executor
  imports Sui_Exec Arg_Mutation Tree_Tracer
begin

text \<open>
  \<open>movy-fuzz/src/executor.rs\<close>: one execution of the fuzzer. It composes the transaction builder of
  \<open>Ptb\<close>, the executor of \<open>Sui_Exec\<close>, the tracers of \<open>Fuzz_Tracer\<close> and \<open>Tree_Tracer\<close>, the oracles of
  \<open>Oracles\<close> and the cache of \<open>Cached_Store\<close>, and publishes the outcome that the mutators of
  \<open>Arg_Mutation\<close> read. The tracer holds mutable references to the observer, the fuzzing state and the
  oracles; here they are moved into it and taken out of it.
\<close>

section \<open>State\<close>

text \<open>The state of the fuzzer as far as an execution uses it; \<open>es_view\<close> is the part that the oracles
  read. \<open>global_outcome\<close> there and \<open>es_extra\<close> are the two halves of \<open>GlobalOutcome\<close>.\<close>

record ('own, 'ty, 'i, 'b) ExecState =
  es_view :: "('own, 'ty) OracleView"
  es_extra :: "('i, 'b) ExecutionExtraOutcome option"
  es_executions :: u64
  es_epoch :: u64
  es_epoch_ms :: u64

text \<open>\<open>fe_ob\<close> is the map of the code observer, \<open>None\<close> when the tuple has none; \<open>fe_line_coverage\<close> are
  the hits of the collector, which its tracers share.\<close>

record ('d, 'o, 'm) SuiFuzzExecutor =
  fe_world :: "'d World"
  fe_ob :: "u8 list option"
  fe_attacker :: MoveAddress
  fe_oracles :: 'o
  fe_packages_cache :: "'m PackageResolvedCache"
  fe_line_coverage :: "BytecodeLocation set option"

type_synonym ('d, 'o, 'm, 'own, 'ty, 'i, 'b) exec_state =
  "('d, 'o, 'm) SuiFuzzExecutor \<times> ('own, 'ty, 'i, 'b) ExecState"

definition line_coverage_hits :: "('d, 'o, 'm) SuiFuzzExecutor \<Rightarrow> BytecodeLocation set" where
  "line_coverage_hits self = (case fe_line_coverage self of Some h \<Rightarrow> h | None \<Rightarrow> {})"

text \<open>What the oracles see of a store, of a store under the results of the run, and of the effects;
  the decoding of events for the log, done at level DEBUG only.\<close>

record ('d, 'p, 'g, 'db, 'fx) ExecViews =
  base_view :: "'d \<Rightarrow> 'db"
  overlay_view :: "'p ObjectBody CachedSnapshot \<Rightarrow> 'd \<Rightarrow> 'db"
  effects_view :: "('p, 'g) ExecutionResults \<Rightarrow> 'fx"
  log_debug :: bool
  log_event :: "Event \<Rightarrow> unit res"

section \<open>The observer\<close>

definition mark_map :: "u8 list option \<Rightarrow> u8 list res" where
  "mark_map ob = (case ob of
     None \<Rightarrow> Inl (Panic ''no code ob installed'')
   | Some [] \<Rightarrow> Inl (Panic ''index out of bounds'')
   | Some (_ # m) \<Rightarrow> Inr (1 # m))"

definition reset_map :: "u8 list option \<Rightarrow> u8 list res" where
  "reset_map ob = (case ob of
     None \<Rightarrow> Inl (Panic ''no code ob installed'') | Some m \<Rightarrow> Inr (replicate (length m) 0))"

section \<open>Stages of an execution\<close>

text \<open>The observer is marked, the oracles prepare, the execution is counted and the package cache moves
  into the resolver.\<close>

definition begin_execution ::
  "('o, ('own, 'ty) OracleView, 'i, 'b, 'db, 'fx, ('own, 'ty) OracleFinding, 'm) FuzzApi
     \<Rightarrow> ('d, 'p, 'g, 'db, 'fx) ExecViews \<Rightarrow> MoveSequence
     \<Rightarrow> (('d, 'o, 'm, 'own, 'ty, 'i, 'b) exec_state, 'm PackageResolvedCache) act" where
  "begin_execution X V sequence s = (case s of (self, st) \<Rightarrow>
     case mark_map (fe_ob self) of
       Inl e \<Rightarrow> Some (Inl e, s)
     | Inr m \<Rightarrow>
         let self = self\<lparr>fe_ob := Some m\<rparr> in
         case pre_execution (fa_oracles X) (base_view V (w_db (fe_world self))) sequence (fe_oracles self) (es_view st) of
           Inl e \<Rightarrow> Some (Inl e, self, st)
         | Inr (o1, view) \<Rightarrow>
             if es_executions st = - 1
             then Some (Inl (Panic ''attempt to add with overflow''), self\<lparr>fe_oracles := o1\<rparr>, st\<lparr>es_view := view\<rparr>)
             else Some (Inr (fe_packages_cache self),
               self\<lparr>fe_oracles := o1, fe_packages_cache := []\<rparr>,
               st\<lparr>es_view := view, es_executions := es_executions st + 1\<rparr>))"

type_synonym ('o, 'own, 'ty, 'i, 'b, 'm) executor_trace =
  "(('o, ('own, 'ty) OracleView, 'i, 'b, ('own, 'ty) OracleFinding, 'm) SuiFuzzTracer \<times> LineCoverageTracer)
     + ('o, ('own, 'ty) OracleView, 'i, 'b, ('own, 'ty) OracleFinding, 'm) SuiFuzzTracer"

definition executor_tracer ::
  "('o, ('own, 'ty) OracleView, 'i, 'b, 'db, 'fx, ('own, 'ty) OracleFinding, 'm) FuzzApi
     \<Rightarrow> ('o, 'own, 'ty, 'i, 'b, 'm) executor_trace TracerExt" where
  "executor_tracer X = selective_tracer (tee_tracer (fuzz_tracer X) lcov_tracer) (fuzz_tracer X)"

definition new_trace ::
  "'m PackageResolvedCache \<Rightarrow> ('d, 'o, 'm, 'own, 'ty, 'i, 'b) exec_state \<Rightarrow> ('o, 'own, 'ty, 'i, 'b, 'm) executor_trace" where
  "new_trace cache s = (case s of (self, st) \<Rightarrow>
     let t = SuiFuzzTracer_new (fe_ob self) (es_view st) (fe_oracles self) cache in
     case fe_line_coverage self of Some h \<Rightarrow> Inl (t, \<lparr>hits = h, cov_frames = []\<rparr>) | None \<Rightarrow> Inr t)"

definition fuzz_part ::
  "('o, 'own, 'ty, 'i, 'b, 'm) executor_trace
     \<Rightarrow> ('o, ('own, 'ty) OracleView, 'i, 'b, ('own, 'ty) OracleFinding, 'm) SuiFuzzTracer" where
  "fuzz_part tr = (case tr of Inl (t, _) \<Rightarrow> t | Inr t \<Rightarrow> t)"

definition line_part :: "('o, 'own, 'ty, 'i, 'b, 'm) executor_trace \<Rightarrow> BytecodeLocation set option" where
  "line_part tr = (case tr of Inl (_, l) \<Rightarrow> Some (hits l) | Inr _ \<Rightarrow> None)"

text \<open>What the tracer wrote through its references.\<close>

definition absorb_trace ::
  "('o, 'own, 'ty, 'i, 'b, 'm) executor_trace \<Rightarrow> ('d, 'o, 'm, 'own, 'ty, 'i, 'b) exec_state
     \<Rightarrow> ('d, 'o, 'm, 'own, 'ty, 'i, 'b) exec_state" where
  "absorb_trace tr s = (case s of (self, st) \<Rightarrow>
     (self\<lparr>fe_ob := cov_map (coverage (fuzz_part tr)), fe_oracles := oracle_state (fuzz_part tr),
        fe_line_coverage := line_part tr\<rparr>, st\<lparr>es_view := fuzz_state (fuzz_part tr)\<rparr>))"

definition on_world :: "('d World, 'a) act \<Rightarrow> (('d, 'o, 'm, 'own, 'ty, 'i, 'b) exec_state, 'a) act" where
  "on_world m s = map_option (\<lambda>(r, w). (r, (fst s)\<lparr>fe_world := w\<rparr>, snd s)) (m (fe_world (fst s)))"

text \<open>The references are written by the run itself, before its results are looked at.\<close>

definition trace_execution ::
  "nat \<Rightarrow> ('o, ('own, 'ty) OracleView, 'i, 'b, 'db, 'fx, ('own, 'ty) OracleFinding, 'm) FuzzApi \<Rightarrow> 'tb TxBuilder
     \<Rightarrow> ('p ObjectBody, 'd) Db \<Rightarrow> ('p, 'd, 'g) Engine \<Rightarrow> MoveSequence \<Rightarrow> u64 \<Rightarrow> u64 \<Rightarrow> 'm PackageResolvedCache
     \<Rightarrow> (('d, 'o, 'm, 'own, 'ty, 'i, 'b) exec_state,
         ('p, 'g) ExecutionResults \<times> ('o, 'own, 'ty, 'i, 'b, 'm) executor_trace option) act" where
  "trace_execution fuel X B D E sequence epoch epoch_ms cache s =
     bindS (liftS (to_ptb B sequence)) (\<lambda>b.
     bindS (on_world (run_ptb_with_movy_tracer_gas fuel D E (fa_trace X) (executor_tracer X) (b_finish B b) epoch epoch_ms
              (fe_attacker (fst s)) (fuzz_gas_id (es_view (snd s))) (Some (new_trace cache s)))) (\<lambda>out s.
       Some (Inr (results out, traced out), case traced out of Some tr \<Rightarrow> absorb_trace tr s | None \<Rightarrow> s))) s"

text \<open>The results are committed to a new cache over the store, so that the store itself keeps its state.\<close>

definition overlay_results :: "('p, 'g) ExecutionResults \<Rightarrow> 'p ObjectBody CachedSnapshot res" where
  "overlay_results r = (case cs_commit_store (xr_store r) (xe_commit (xr_effects r)) [] of
     Inl (Err _) \<Rightarrow> Inl (Err (Other ''commit store failed'')) | x \<Rightarrow> x)"

definition run_status :: "nat \<Rightarrow> ExecutionStatus \<Rightarrow> nat option \<times> bool" where
  "run_status n status =
     (let bounded = (\<lambda>command. case command of Some c \<Rightarrow> if c < n then Some c else None | None \<Rightarrow> None) in
      case status of
        Success \<Rightarrow> (None, True)
      | MoveAbortFailure _ command \<Rightarrow> (bounded command, False)
      | OtherFailure command \<Rightarrow> (bounded command, False))"

definition publish_outcome ::
  "('own, 'ty) ExecutionOutcome \<Rightarrow> ('i, 'b) ExecutionExtraOutcome \<Rightarrow> ('own, 'ty, 'i, 'b) ExecState \<Rightarrow> ('own, 'ty, 'i, 'b) ExecState" where
  "publish_outcome out ex st = st\<lparr>es_view := (es_view st)\<lparr>global_outcome := Some out\<rparr>, es_extra := Some ex\<rparr>"

definition reset_failed ::
  "bool \<Rightarrow> (('d, 'o, 'm, 'own, 'ty, 'i, 'b) exec_state, unit) act" where
  "reset_failed success s =
     (if success then Some (Inr (), s)
      else case reset_map (fe_ob (fst s)) of
        Inl e \<Rightarrow> Some (Inl e, s)
      | Inr m \<Rightarrow> Some (Inr (), (fst s)\<lparr>fe_ob := Some m\<rparr>, snd s))"

definition log_events :: "('d, 'p, 'g, 'db, 'fx) ExecViews \<Rightarrow> Event list \<Rightarrow> unit res" where
  "log_events V evs = (if log_debug V then foldR (\<lambda>_ ev. log_event V ev) () evs else Inr ())"

text \<open>The preliminary outcome, the last word of the oracles, and the final outcome.\<close>

definition conclude ::
  "('o, ('own, 'ty) OracleView, 'i, 'b, 'db, 'fx, ('own, 'ty) OracleFinding, 'm) FuzzApi
     \<Rightarrow> ('d, 'p, 'g, 'db, 'fx) ExecViews \<Rightarrow> 'p ObjectBody CachedSnapshot \<Rightarrow> ('p, 'g) ExecutionResults
     \<Rightarrow> ('i, 'b, ('own, 'ty) OracleFinding) TraceOutcome \<Rightarrow> nat option \<Rightarrow> bool
     \<Rightarrow> (('d, 'o, 'm, 'own, 'ty, 'i, 'b) exec_state, ExitKind) act" where
  "conclude X V overlay r t stage_idx success s = (case s of (self, st) \<Rightarrow>
     let ex = \<lparr>ex_logs = logs t, ex_solver = concolic t, ex_stage_idx = stage_idx, ex_success = success\<rparr>;
         exec = \<lparr>events_verdict = verdict t, exec_events = xr_events r, allowed_success = success,
           exec_findings = findings t\<rparr>;
         st = publish_outcome exec ex st
     in case done_execution (fa_oracles X) (overlay_view V overlay (w_db (fe_world self))) (effects_view V r)
            (fe_oracles self) (es_view st) of
          Inl e \<Rightarrow> Some (Inl e, self, st)
        | Inr (o1, view, oracle_vulns) \<Rightarrow>
            let all_findings = findings t @ oracle_vulns;
                kind = (if all_findings \<noteq> [] then ExitCrash else verdict t);
                exec = \<lparr>events_verdict = kind, exec_events = xr_events r, allowed_success = success,
                  exec_findings = all_findings\<rparr>
            in Some (Inr kind, self\<lparr>fe_oracles := o1\<rparr>, publish_outcome exec ex (st\<lparr>es_view := view\<rparr>)))"

definition keep_cache :: "'m PackageResolvedCache \<Rightarrow> (('d, 'o, 'm, 'own, 'ty, 'i, 'b) exec_state, unit) act" where
  "keep_cache cache s = Some (Inr (), (fst s)\<lparr>fe_packages_cache := cache\<rparr>, snd s)"

definition run_target ::
  "nat \<Rightarrow> ('o, ('own, 'ty) OracleView, 'i, 'b, 'db, 'fx, ('own, 'ty) OracleFinding, 'm) FuzzApi \<Rightarrow> 'tb TxBuilder
     \<Rightarrow> ('p ObjectBody, 'd) Db \<Rightarrow> ('p, 'd, 'g) Engine \<Rightarrow> ('d, 'p, 'g, 'db, 'fx) ExecViews \<Rightarrow> MoveSequence
     \<Rightarrow> (('d, 'o, 'm, 'own, 'ty, 'i, 'b) exec_state, ExitKind) act" where
  "run_target fuel X B D E V sequence s =
     bindS (begin_execution X V sequence) (\<lambda>cache.
     bindS (trace_execution fuel X B D E sequence (es_epoch (snd s)) (es_epoch_ms (snd s)) cache) (\<lambda>(r, trace).
     bindS (liftS (overlay_results r)) (\<lambda>overlay.
     bindS (liftS (unwrapR ''tracer should be present when tracing is enabled'' trace)) (\<lambda>tr.
     bindS (keep_cache (resolver_cache (fuzz_part tr))) (\<lambda>_.
     case run_status (length (commands sequence)) (xe_status (xr_effects r)) of (stage_idx, success) \<Rightarrow>
     bindS (reset_failed success) (\<lambda>_.
     bindS (liftS (log_events V (xr_events r))) (\<lambda>_.
       conclude X V overlay r (outcome (fuzz_part tr)) stage_idx success))))))) s"

section \<open>The fuzz tracer inside the combined tracer\<close>

lemma dispatch_selective:
  "dispatch (selective_tracer T1 T2) st ev (Inl a) = bindR (dispatch T1 st ev a) (\<lambda>a. Inr (Inl a))"
  "dispatch (selective_tracer T1 T2) st ev (Inr b) = bindR (dispatch T2 st ev b) (\<lambda>b. Inr (Inr b))"
  by (cases ev; simp add: dispatch_def selective_tracer_def)+

lemma on_raw_event_selective:
  "on_raw_event (selective_tracer T1 T2) st ev (Inl a) = bindR (on_raw_event T1 st ev a) (\<lambda>(a, k). Inr (Inl a, k))"
  "on_raw_event (selective_tracer T1 T2) st ev (Inr b) = bindR (on_raw_event T2 st ev b) (\<lambda>(b, k). Inr (Inr b, k))"
  by (simp_all add: selective_tracer_def)

lemma on_raw_event_tee:
  "on_raw_event (tee_tracer T1 T2) st ev (a, b) = bindR (on_raw_event T1 st ev a) (\<lambda>(a, k). bindR (on_raw_event T2 st ev b)
     (\<lambda>(b, k'). Inr ((a, b), k \<or> k')))"
  by (simp add: tee_tracer_def)

text \<open>The fuzz tracer consumes an event as if it ran alone.\<close>

lemma executor_notify:
  assumes "notify A (executor_tracer X) w ev = Inr w'"
  shows "notify A (fuzz_tracer X) \<lparr>tracer = fuzz_part (tracer w), wrapper_state = wrapper_state w\<rparr> ev
    = Inr \<lparr>tracer = fuzz_part (tracer w'), wrapper_state = wrapper_state w'\<rparr>"
proof -
  have raw: "on_raw_event (fuzz_tracer X) st ev t = Inr (fuzz_on_raw_event st ev t, True)" for st t
    by (simp add: fuzz_tracer_def)
  show ?thesis
  proof (cases "tracer w")
    case (Inl p)
    then show ?thesis
      using assms
      by (auto simp: notify_def executor_tracer_def dispatch_selective on_raw_event_selective raw bindR_eq_Inr fuzz_part_def
          dispatch_tee both_def on_raw_event_tee split: prod.splits)
  next
    case (Inr t)
    then show ?thesis
      using assms
      by (auto simp: notify_def executor_tracer_def dispatch_selective on_raw_event_selective raw bindR_eq_Inr fuzz_part_def)
  qed
qed

lemma executor_trace_inv:
  assumes "foldR (notify A (executor_tracer X)) (wrapper_from (new_trace cache (self, st))) events = Inr w"
  shows "fuzz_inv (map_option length (fe_ob self)) (fuzz_part (tracer w))"
proof (rule foldR_invariant [where P = "\<lambda>w. fuzz_inv (map_option length (fe_ob self)) (fuzz_part (tracer w))", OF _ _ assms])
  show "fuzz_inv (map_option length (fe_ob self)) (fuzz_part (tracer (wrapper_from (new_trace cache (self, st)))))"
    by (auto simp: fuzz_inv_def wrapper_from_def new_trace_def fuzz_part_def SuiFuzzTracer_new_def CoverageTracer_new_def
        TraceOutcome_new_def Let_def split: option.split)
next
  fix w ev w' assume "fuzz_inv (map_option length (fe_ob self)) (fuzz_part (tracer w))" "notify A (executor_tracer X) w ev = Inr w'"
  then show "fuzz_inv (map_option length (fe_ob self)) (fuzz_part (tracer w'))"
    using fuzz_notify_inv [OF executor_notify] by simp
qed

section \<open>Results of the stages\<close>

lemma on_world_eq:
  "on_world m (self, st) = Some (Inr x, s') \<longleftrightarrow> (\<exists>w. m (fe_world self) = Some (Inr x, w) \<and> s' = (self\<lparr>fe_world := w\<rparr>, st))"
  by (cases "m (fe_world self)") (auto simp: on_world_def)


lemma movy_run_eq:
  assumes "run_ptb_with_movy_tracer_gas fuel D E A T ptb epoch epoch_ms sender gas (Some t) w = Some (Inr out, w')"
  shows "\<exists>events v. foldR (notify A T) (wrapper_from t) events = Inr v \<and> traced out = Some (tracer v)"
proof -
  from assms obtain v info d where v: "out = unwrap_tracer v"
    and run: "run_tx_trace_inner fuel D E (notify A T) (ptb_transaction ptb sender (sui_reference info)) epoch epoch_ms
      (Some (wrapper_from t)) None False (w\<lparr>w_db := d\<rparr>) = Some (Inr v, w')"
    by (auto simp: run_ptb_with_movy_tracer_gas_def run_ptb_with_gas_def run_ptb_with_gas_inner_def on_db_eq elim!: bindS_E)
  from run show ?thesis
    by (rule run_tx_steps) (use finish_trace_eq(2) v in \<open>fastforce simp: unwrap_tracer_def\<close>)
qed

lemma trace_execution_eq:
  assumes "trace_execution fuel X B D E sequence epoch epoch_ms cache (self, st) = Some (Inr (r, Some tr), self', st')"
  shows "fuzz_inv (map_option length (fe_ob self)) (fuzz_part tr)" "fe_ob self' = cov_map (coverage (fuzz_part tr))"
    "es_executions st' = es_executions st"
proof -
  from assms obtain out w b where run: "run_ptb_with_movy_tracer_gas fuel D E (fa_trace X) (executor_tracer X) (b_finish B b) epoch epoch_ms
        (fe_attacker self) (fuzz_gas_id (es_view st)) (Some (new_trace cache (self, st))) (fe_world self) = Some (Inr out, w)"
    and tr: "traced out = Some tr" "(self', st') = absorb_trace tr (self\<lparr>fe_world := w\<rparr>, st)"
    by (auto simp: trace_execution_def bindS_eq_Inr on_world_eq)
  from movy_run_eq [OF run] tr(1) show "fuzz_inv (map_option length (fe_ob self)) (fuzz_part tr)"
    using executor_trace_inv by fastforce
  show "fe_ob self' = cov_map (coverage (fuzz_part tr))" "es_executions st' = es_executions st"
    using tr(2) by (auto simp: absorb_trace_def)
qed







text \<open>Each stage only reads the store.\<close>

definition store_rel ::
  "('d \<Rightarrow> 'd \<Rightarrow> bool) \<Rightarrow> ('d, 'o, 'm, 'own, 'ty, 'i, 'b) exec_state \<Rightarrow> ('d, 'o, 'm, 'own, 'ty, 'i, 'b) exec_state \<Rightarrow> bool" where
  "store_rel R s s' \<longleftrightarrow> world_rel R (fe_world (fst s)) (fe_world (fst s'))"

lemma store_rel_preorder: "reflp R \<Longrightarrow> reflp (store_rel R)" "transp R \<Longrightarrow> transp (store_rel R)"
  by (auto simp: reflp_def transp_def store_rel_def world_rel_def)

lemma keepsS_on_world: "keepsS (world_rel R) m \<Longrightarrow> keepsS (store_rel R) (on_world m)"
  by (auto simp: keepsS_def store_rel_def on_world_def)

lemma same_world_keeps:
  assumes "reflp R" "\<And>s r t. m s = Some (r, t) \<Longrightarrow> fe_world (fst t) = fe_world (fst s)"
  shows "keepsS (store_rel R) m"
  unfolding keepsS_def store_rel_def world_rel_def
proof (intro allI impI)
  fix s r t assume "m s = Some (r, t)"
  from assms(2) [OF this] assms(1) show "R (w_db (fe_world (fst s))) (w_db (fe_world (fst t)))" by (simp add: reflpD)
qed

lemma stages_keep:
  assumes "reflp R"
  shows "keepsS (store_rel R) (begin_execution X V sequence)" "keepsS (store_rel R) (reset_failed success)"
    "keepsS (store_rel R) (keep_cache cache)" "keepsS (store_rel R) (conclude X V overlay r t stage_idx success)"
    "keepsS (store_rel R) (\<lambda>s. Some (Inr y, case trace of Some tr \<Rightarrow> absorb_trace tr s | None \<Rightarrow> s))"
  by (rule same_world_keeps [OF assms];
      auto simp: begin_execution_def reset_failed_def keep_cache_def conclude_def absorb_trace_def Let_def
        split: sum.splits if_splits prod.splits option.splits)+

lemma trace_execution_keeps:
  assumes "read_only D E R"
  shows "keepsS (store_rel R) (trace_execution fuel X B D E sequence epoch epoch_ms cache)"
proof -
  note R = read_only_preorder(1,2) [OF assms] and S = store_rel_preorder(1) [OF read_only_preorder(1) [OF assms]]
    store_rel_preorder(2) [OF read_only_preorder(2) [OF assms]]
  have "keepsS (world_rel R) (run_ptb_with_movy_tracer_gas fuel D E A T ptb epoch epoch_ms sender gas trc)" for A T ptb sender gas trc
    unfolding run_ptb_with_movy_tracer_gas_def run_ptb_with_gas_def
    by (intro keepsS_bind read_only_run [OF assms] keepsS_basic world_rel_preorder R)
  then have "keepsS (store_rel R) (bindS (liftS x) (\<lambda>b. bindS (on_world (run_ptb_with_movy_tracer_gas fuel D E (fa_trace X) (executor_tracer X) (b_finish B b)
      epoch epoch_ms sender gas trc)) (\<lambda>out s. Some (Inr (results out, traced out), case traced out of Some tr \<Rightarrow> absorb_trace tr s | None \<Rightarrow> s))))"
    for x sender gas trc
    by (intro keepsS_bind keepsS_on_world keepsS_basic S stages_keep R)
  then show ?thesis by (simp add: keepsS_def trace_execution_def)
qed

text \<open>
  An execution of the fuzzer never commits to its store. Whatever the reads of the store
  and of the engine maintain holds between the store before and after \<open>run_target\<close>, also when it fails.
\<close>

theorem run_target_commits_nothing:
  assumes "read_only D E R" "run_target fuel X B D E V sequence (self, st) = Some (res, self', st')"
  shows "R (w_db (fe_world self)) (w_db (fe_world self'))"
proof -
  note R = read_only_preorder(1,2) [OF assms(1)] and S = store_rel_preorder(1) [OF read_only_preorder(1) [OF assms(1)]]
    store_rel_preorder(2) [OF read_only_preorder(2) [OF assms(1)]]
  have "keepsS (store_rel R) (bindS (begin_execution X V sequence) (\<lambda>cache.
     bindS (trace_execution fuel X B D E sequence epoch epoch_ms cache) (\<lambda>(r, trace).
     bindS (liftS (overlay_results r)) (\<lambda>overlay.
     bindS (liftS (unwrapR ''tracer should be present when tracing is enabled'' trace)) (\<lambda>tr.
     bindS (keep_cache (resolver_cache (fuzz_part tr))) (\<lambda>_.
     case run_status (length (commands sequence)) (xe_status (xr_effects r)) of (stage_idx, success) \<Rightarrow>
     bindS (reset_failed success) (\<lambda>_.
     bindS (liftS (log_events V (xr_events r))) (\<lambda>_.
       conclude X V overlay r (outcome (fuzz_part tr)) stage_idx success))))))))" for epoch epoch_ms
    by (intro keepsS_bind stages_keep R S trace_execution_keeps [OF assms(1)])
      (auto split: prod.split intro!: keepsS_bind keepsS_basic stages_keep R S)
  then have "store_rel R (self, st) (self', st')"
    using assms(2) unfolding keepsS_def run_target_def by blast
  then show ?thesis by (simp add: store_rel_def world_rel_def)
qed

section \<open>A run that finds a bug\<close>

text \<open>The engine aborts the first command with the code of the typed-bug oracle, which runs here alone,
  after one instruction.\<close>

definition aborting_engine :: "(unit, unit ObjectBody CachedSnapshot, unit) Engine" where
  "aborting_engine = demo_engine\<lparr>execute_to_effects := \<lambda>_ _ _ _ _ _ d.
     ((demo_published\<lparr>xr_effects := (xr_effects demo_published)\<lparr>xe_status := MoveAbortFailure TYPED_BUG_ABORT_CODE (Some 0)\<rparr>\<rparr>,
       [OpenFrame (demo_frame 0) 9, InstructionEv [] 3 8 BcLdTrue]), d)\<rparr>"

definition demo_fuzzing ::
  "(unit, (nat, nat) OracleView, assignment \<Rightarrow> int, assignment \<Rightarrow> bool, unit, nat TransactionEffects, (nat, nat) OracleFinding, unit) FuzzApi" where
  "demo_fuzzing = demo_fuzz\<lparr>fa_oracles := TypedBugOracle True\<rparr>"

definition demo_views :: "(unit ObjectBody CachedSnapshot, unit, unit, unit, nat TransactionEffects) ExecViews" where
  "demo_views = \<lparr>base_view = \<lambda>_. (), overlay_view = \<lambda>_ _. (),
     effects_view = \<lambda>r. \<lparr>fx_status = xe_status (xr_effects r), gas_owner = 1, net_gas_usage = 0, all_changed_objects = [],
       modified_at_versions = [], unwrapped_then_deleted = []\<rparr>,
     log_debug = True, log_event = \<lambda>_. Inr ()\<rparr>"

definition tx_list_builder :: "(nat \<times> Command list) TxBuilder" where
  "tx_list_builder = Builder.extend list_builder (TxBuilder.fields (\<lambda>(n, cs) _. Inr ((Suc n, cs), ArgInput (as_u16 n)))
     (\<lambda>(n, cs). \<lparr>ptb_inputs = [], ptb_commands = cs\<rparr>))"

definition demo_run_sequence :: MoveSequence where
  "demo_run_sequence = \<lparr>inputs = [], commands = [MergeCoins GasCoin []]\<rparr>"

definition demo_executor :: "(unit ObjectBody CachedSnapshot, unit, unit) SuiFuzzExecutor" where
  "demo_executor = \<lparr>fe_world = demo_world, fe_ob = Some [0, 0, 0], fe_attacker = 1, fe_oracles = (), fe_packages_cache = [],
     fe_line_coverage = Some {}\<rparr>"

definition demo_exec_state :: "(nat, nat, assignment \<Rightarrow> int, assignment \<Rightarrow> bool) ExecState" where
  "demo_exec_state = \<lparr>es_view = \<lparr>global_outcome = None, fuzz_gas_id = 5\<rparr>, es_extra = None, es_executions = 41, es_epoch = 0,
     es_epoch_ms = 0\<rparr>"

lemmas demo_trace_simps = notify_def fuzz_tracer_def SuiFuzzTracer_new_def CoverageTracer_new_def
  TraceOutcome_new_def TraceState_new_def fuzz_on_raw_event_def on_raw_event_inner_def
  ConcolicState_new_def dispatch_def fuzz_open_frame_def may_load_package_def demo_fuzz_def
  on_open_frame_inner_def demo_frame_def call_package_def apply_event_def open_locals_def
  fuzz_before_instruction_def ask_oracles_def default_oracle_def no_findings_def
  from_resolver_def on_before_instruction_inner_def may_do_coverage_def hit_cov_def
  log_instruction_def TypedBugOracle_def

lemma demo_begin:
  "begin_execution demo_fuzzing demo_views demo_run_sequence (demo_executor, demo_exec_state)
    = Some (Inr [], demo_executor\<lparr>fe_ob := Some [1, 0, 0]\<rparr>, demo_exec_state\<lparr>es_executions := 42\<rparr>)"
  by (simp add: begin_execution_def demo_executor_def demo_exec_state_def mark_map_def Let_def demo_fuzzing_def TypedBugOracle_def
      default_oracle_def word_unat_eq_iff unsigned_minus_1_eq_mask mask_eq_exp_minus_1)

lemma demo_events:
  "\<exists>v. foldR (notify runtime_api (executor_tracer demo_fuzzing))
    (wrapper_from (new_trace [] (demo_executor\<lparr>fe_ob := Some [1, 0, 0]\<rparr>, demo_exec_state\<lparr>es_executions := 42\<rparr>)))
    [OpenFrame (demo_frame 0) 9, InstructionEv [] 3 8 BcLdTrue] = Inr v"
  by (simp add: wrapper_from_def new_trace_def demo_executor_def demo_exec_state_def executor_tracer_def selective_tracer_def
      tee_tracer_def both_def lcov_tracer_def default_tracer_def Let_def demo_fuzzing_def demo_trace_simps)

lemma demo_movy_run:
  assumes "foldR (notify runtime_api T) (wrapper_from t) [OpenFrame (demo_frame 0) 9, InstructionEv [] 3 8 BcLdTrue] = Inr v"
  shows "run_ptb_with_movy_tracer_gas (Suc 0) (cached_db demo_backing) aborting_engine runtime_api T ptb 0 0 1 5 (Some t) demo_world
   = Some (Inr \<lparr>results = demo_published\<lparr>xr_effects := (xr_effects demo_published)\<lparr>xe_status := MoveAbortFailure TYPED_BUG_ABORT_CODE (Some 0)\<rparr>\<rparr>,
       traced = Some (tracer v)\<rparr>, \<lparr>w_db = [(5, [(3, Some demo_gas)])], w_targets = []\<rparr>)"
  using assms
  by (simp add: run_ptb_with_movy_tracer_gas_def run_ptb_with_gas_def unwrap_tracer_def aborting_engine_def
      run_ptb_with_gas_inner_def bindS_def on_db_def get_object_info_def cached_db_def cs_get_object_def
      object_id_cached_def object_resolved_upperbound_def object_resolve_upperbound_details_def demo_world_def demo_backing_def
      demo_gas_def MoveObjectInfo_try_from_def object_type_def cache_object_only_def cache_query_def run_tx_trace_inner_def
      input_kinds_def demo_engine_def mapS_def load_gas_def ptb_transaction_def sui_reference_def object_owner_def read_gas_def
      cs_get_object_by_key_def object_exact_version_def found_def execute_def run_engine_def GlobalDeployment_drop_def
      finish_trace_def del: foldR.simps)

lemma demo_target:
  "\<exists>self' st'. run_target (Suc 0) demo_fuzzing tx_list_builder (cached_db demo_backing) aborting_engine demo_views demo_run_sequence
     (demo_executor, demo_exec_state) = Some (Inr ExitCrash, self', st')"
proof -
  let ?s = "(demo_executor\<lparr>fe_ob := Some [1, 0, 0]\<rparr>, demo_exec_state\<lparr>es_executions := 42\<rparr>)"
  let ?r = "demo_published\<lparr>xr_effects := (xr_effects demo_published)\<lparr>xe_status := MoveAbortFailure TYPED_BUG_ABORT_CODE (Some 0)\<rparr>\<rparr>"
  obtain v where v: "foldR (notify runtime_api (executor_tracer demo_fuzzing)) (wrapper_from (new_trace [] ?s))
    [OpenFrame (demo_frame 0) 9, InstructionEv [] 3 8 BcLdTrue] = Inr v" using demo_events by blast
  have trace: "\<exists>self2 st2. trace_execution (Suc 0) demo_fuzzing tx_list_builder (cached_db demo_backing) aborting_engine demo_run_sequence 0 0 [] ?s
      = Some (Inr (?r, Some (tracer v)), self2, st2)"
  proof -
    have "fa_trace demo_fuzzing = runtime_api" "fe_attacker (fst ?s) = 1" "fuzz_gas_id (es_view (snd ?s)) = 5" "fe_world (fst ?s) = demo_world"
      by (simp_all add: demo_fuzzing_def demo_fuzz_def demo_executor_def demo_exec_state_def)
    moreover have "\<exists>b. to_ptb tx_list_builder demo_run_sequence = Inr b"
      by (simp add: to_ptb_def tx_list_builder_def list_builder_def Builder.defs TxBuilder.defs demo_run_sequence_def)
    ultimately show ?thesis
      using demo_movy_run [OF v] by (auto simp: trace_execution_def bindS_def on_world_def absorb_trace_def)
  qed
  then obtain self2 st2 where t: "trace_execution (Suc 0) demo_fuzzing tx_list_builder (cached_db demo_backing) aborting_engine demo_run_sequence 0 0 [] ?s
      = Some (Inr (?r, Some (tracer v)), self2, st2)" by blast
  obtain m where m: "fe_ob self2 = Some m" using trace_execution_eq(1,2) [OF t] by (auto simp: fuzz_inv_def)
  have "es_epoch demo_exec_state = 0" "es_epoch_ms demo_exec_state = 0" "xe_status (xr_effects ?r) = MoveAbortFailure TYPED_BUG_ABORT_CODE (Some 0)"
    "overlay_results ?r \<noteq> Inl e" for e
    by (simp_all add: demo_exec_state_def overlay_results_def demo_published_def cs_commit_store_def removed_refs_def)
  moreover have "log_events demo_views (xr_events ?r) = Inr ()" "length (commands demo_run_sequence) = 1"
    by (simp_all add: log_events_def demo_views_def demo_published_def demo_run_sequence_def)
  moreover have "done_execution (fa_oracles demo_fuzzing) db (effects_view demo_views ?r) o1 s = Inr (o1, s, [\<lparr>finding_oracle = ''TypedBugOracle'',
      severity = Critical, extra = JObject [(''abort_code'', JNumber (uint TYPED_BUG_ABORT_CODE))]\<rparr>])" for db o1 s
    by (simp add: demo_fuzzing_def TypedBugOracle_def demo_views_def)
  ultimately show ?thesis
    using demo_begin t m
    by (cases "overlay_results ?r")
      (auto simp: run_target_def bindS_def keep_cache_def run_status_def reset_failed_def reset_map_def
        conclude_def Let_def publish_outcome_def split: option.splits)
qed


theorem run_target_commits_nothing_witness:
  "\<exists>self' st'. run_target (Suc 0) demo_fuzzing tx_list_builder (cached_db demo_backing) aborting_engine demo_views demo_run_sequence
     (demo_executor, demo_exec_state) = Some (Inr ExitCrash, self', st') \<and> fst ` set (w_db (fe_world self')) \<subseteq> {5}"
proof -
  let ?R = "\<lambda>d d' :: unit ObjectBody CachedSnapshot. fst ` set d \<subseteq> {5} \<longrightarrow> fst ` set d' \<subseteq> {5}"
  obtain self' st' where r: "run_target (Suc 0) demo_fuzzing tx_list_builder (cached_db demo_backing) aborting_engine demo_views demo_run_sequence
     (demo_executor, demo_exec_state) = Some (Inr ExitCrash, self', st')" using demo_target by blast
  have put: "fst ` set (cache_object_only obj d) = insert (object_id obj) (fst ` set d)" for obj and d :: "unit ObjectBody CachedSnapshot"
    using bt_keys_insert [of "object_id obj" _ d] by (simp add: cache_object_only_def cache_query_def)
  have ro: "read_only (cached_db demo_backing) aborting_engine ?R"
    using put
    by (auto simp: read_only_def reflp_def transp_def cached_db_def cs_get_object_def cs_get_object_by_key_def aborting_engine_def
        cs_get_package_object_def demo_backing_def demo_engine_def demo_gas_def bindR_eq_Inr split: option.splits if_splits)
  from run_target_commits_nothing [OF ro r] r show ?thesis by (auto simp: demo_executor_def demo_world_def)
qed

end
