(* ===== verification/Line_Coverage.thy ===== *)
theory Line_Coverage
  imports Tree_Tracer
begin

text \<open>
  \<open>movy-sui/src/lcov.rs\<close>: the map from bytecode locations to source lines of the local packages, and the
  report in the LCOV format that it makes of the locations that the tracer of \<open>Tree_Tracer\<close> records.
  Paths have any linear order; the compiler with its source maps, and the file system, are parameters.
\<close>

section \<open>Compiled units\<close>

text \<open>What \<open>add_unit\<close> reads of a unit: the name of its module, its functions with their names and the
  lengths of their code, and the queries of the source map, whose locations have the type \<open>'loc\<close>.\<close>

record 'loc SourceMap =
  from_file_path :: "string option"
  get_function_source_map :: "u16 \<Rightarrow> 'loc option"
  get_code_location :: "u16 \<Rightarrow> u16 \<Rightarrow> 'loc option"

record 'loc MappedFiles =
  loc_is_valid :: "'loc \<Rightarrow> bool"
  start_position_opt :: "'loc \<Rightarrow> nat option"

record 'loc LcovUnit =
  lu_module :: string
  lu_functions :: "(string \<times> nat option) list"
  lu_source_map :: "'loc SourceMap"

definition line_for_loc :: "'loc SourceMap \<Rightarrow> 'loc MappedFiles \<Rightarrow> 'loc \<Rightarrow> nat option" where
  "line_for_loc source_map files loc =
     (if \<not> loc_is_valid files loc \<or> from_file_path source_map = None then None
      else start_position_opt files loc)"

section \<open>The map\<close>

record FileCoverageMap =
  fc_functions :: "(string, nat) btree"
  fc_lines :: "nat set"

definition empty_file :: FileCoverageMap where
  "empty_file = \<lparr>fc_functions = [], fc_lines = {}\<rparr>"

text \<open>The two lookup maps are never iterated.\<close>

record 'path LineCoverageMap =
  lc_files :: "('path, FileCoverageMap) btree"
  function_to_source :: "MoveModuleId \<times> u16 \<rightharpoonup> 'path \<times> string"
  pc_to_line :: "BytecodeLocation \<rightharpoonup> 'path \<times> nat"

definition LineCoverageMap_empty :: "'path LineCoverageMap" where
  "LineCoverageMap_empty = \<lparr>lc_files = [], function_to_source = Map.empty, pc_to_line = Map.empty\<rparr>"

definition file_of :: "('path :: linorder) LineCoverageMap \<Rightarrow> 'path \<Rightarrow> FileCoverageMap" where
  "file_of self path = (case bt_get (lc_files self) path of Some f \<Rightarrow> f | None \<Rightarrow> empty_file)"

definition set_file :: "'path :: linorder \<Rightarrow> FileCoverageMap \<Rightarrow> 'path LineCoverageMap \<Rightarrow> 'path LineCoverageMap" where
  "set_file path f self = self\<lparr>lc_files := bt_insert path f (lc_files self)\<rparr>"

definition add_line :: "'path :: linorder \<Rightarrow> nat \<Rightarrow> 'path LineCoverageMap \<Rightarrow> 'path LineCoverageMap" where
  "add_line path line self = set_file path ((file_of self path)\<lparr>fc_lines := insert line (fc_lines (file_of self path))\<rparr>) self"

text \<open>\<open>functions.entry(name).or_insert(line)\<close>.\<close>

definition add_function_line :: "'path :: linorder \<Rightarrow> string \<Rightarrow> nat \<Rightarrow> 'path LineCoverageMap \<Rightarrow> 'path LineCoverageMap" where
  "add_function_line path name line self =
     (let fns = fc_functions (file_of self path) in
      if bt_get fns name = None
      then set_file path ((file_of self path)\<lparr>fc_functions := bt_insert name line fns\<rparr>) self else self)"

definition add_pc ::
  "'loc MappedFiles \<Rightarrow> 'loc LcovUnit \<Rightarrow> MoveModuleId \<Rightarrow> 'path :: linorder \<Rightarrow> u16 \<Rightarrow> 'path LineCoverageMap \<Rightarrow> nat
     \<Rightarrow> 'path LineCoverageMap" where
  "add_pc files u module_id path idx self pc =
     (case Option.bind (get_code_location (lu_source_map u) idx (of_nat pc)) (line_for_loc (lu_source_map u) files) of
        None \<Rightarrow> self
      | Some line \<Rightarrow>
          let self = add_line path line self in
          self\<lparr>pc_to_line := (pc_to_line self)(\<lparr>loc_module = module_id, loc_function = idx, loc_pc = of_nat pc\<rparr> \<mapsto> (path, line))\<rparr>)"

definition add_unit_function ::
  "'loc MappedFiles \<Rightarrow> 'loc LcovUnit \<Rightarrow> MoveModuleId \<Rightarrow> 'path :: linorder \<Rightarrow> 'path LineCoverageMap \<Rightarrow> nat \<times> string \<times> nat option
     \<Rightarrow> 'path LineCoverageMap" where
  "add_unit_function files u module_id path self f = (case f of (i, name, code) \<Rightarrow>
     let idx = of_nat i :: u16;
         self = self\<lparr>function_to_source := (function_to_source self)((module_id, idx) \<mapsto> (path, name))\<rparr>;
         self = (case Option.bind (get_function_source_map (lu_source_map u) idx) (line_for_loc (lu_source_map u) files) of
             Some line \<Rightarrow> add_line path line (add_function_line path name line self) | None \<Rightarrow> self)
     in case code of None \<Rightarrow> self | Some n \<Rightarrow> foldl (add_pc files u module_id path idx) self [0..<n])"

definition add_unit ::
  "('path \<Rightarrow> 'path option) \<Rightarrow> 'loc LcovUnit \<Rightarrow> 'path :: linorder \<Rightarrow> 'loc MappedFiles \<Rightarrow> MoveAddress \<Rightarrow> 'path LineCoverageMap
     \<Rightarrow> 'path LineCoverageMap" where
  "add_unit canonicalize u source_path files pkg self =
     (let module_id = \<lparr>module_address = pkg, mod_name = lu_module u\<rparr>;
          path = (case canonicalize source_path of Some p \<Rightarrow> p | None \<Rightarrow> source_path);
          self = set_file path (file_of self path) self
      in foldl (add_unit_function files u module_id path) self (enumerate 0 (lu_functions u)))"

section \<open>Local packages\<close>

record ('path, 'loc) LcovArtifacts =
  la_published_at :: "MoveAddress option"
  la_root_units :: "('loc LcovUnit \<times> 'path) list"
  la_file_map :: "'loc MappedFiles"

text \<open>\<open>canonicalize\<close> of a missing file is an error for a package and ignored for a source file. The
  parameter \<open>compile\<close> is \<open>compile_package_artifacts\<close> with the isolation of its install directory.\<close>

definition add_local ::
  "('path \<Rightarrow> 'path option) \<Rightarrow> ('path \<Rightarrow> ('path, 'loc) LcovArtifacts res) \<Rightarrow> MoveAddress list
     \<Rightarrow> ('path :: linorder) LineCoverageMap \<Rightarrow> nat \<times> 'path \<Rightarrow> 'path LineCoverageMap res" where
  "add_local canonicalize compile pkgs out p = (case p of (idx, local) \<Rightarrow>
     bindR (case canonicalize local of Some p \<Rightarrow> Inr p | None \<Rightarrow> Inl (Err (Other ''io''))) (\<lambda>local.
     bindR (compile local) (\<lambda>artifacts.
       let pkg = (if idx < length pkgs then pkgs ! idx
             else case la_published_at artifacts of Some a \<Rightarrow> a | None \<Rightarrow> 0)
       in Inr (foldl (\<lambda>out (u, source_path). add_unit canonicalize u source_path (la_file_map artifacts) pkg out)
            out (la_root_units artifacts)))))"

definition for_locals_with_package_ids ::
  "('path \<Rightarrow> 'path option) \<Rightarrow> ('path \<Rightarrow> ('path, 'loc) LcovArtifacts res) \<Rightarrow> 'path list \<Rightarrow> MoveAddress list
     \<Rightarrow> ('path :: linorder) LineCoverageMap option res" where
  "for_locals_with_package_ids canonicalize compile locals pkgs =
     (if locals = [] then Inr None
      else bindR (foldR (add_local canonicalize compile pkgs) LineCoverageMap_empty (enumerate 0 locals))
        (\<lambda>out. Inr (Some out)))"

definition for_locals where
  "for_locals canonicalize compile locals = for_locals_with_package_ids canonicalize compile locals []"

section \<open>The report\<close>

datatype 'path LcovLine =
    SF 'path | FN nat string | FNDA nat string | FNF nat | FNH nat | DA nat nat | LF nat | LH nat | EndOfRecord

fun lcov_line_to_string :: "('path \<Rightarrow> string) \<Rightarrow> 'path LcovLine \<Rightarrow> string" where
  "lcov_line_to_string display (SF path) = ''SF:'' @ display path"
| "lcov_line_to_string display (FN line name) = ''FN:'' @ dec line @ '','' @ name"
| "lcov_line_to_string display (FNDA count name) = ''FNDA:'' @ dec count @ '','' @ name"
| "lcov_line_to_string display (FNF n) = ''FNF:'' @ dec n"
| "lcov_line_to_string display (FNH n) = ''FNH:'' @ dec n"
| "lcov_line_to_string display (DA line count) = ''DA:'' @ dec line @ '','' @ dec count"
| "lcov_line_to_string display (LF n) = ''LF:'' @ dec n"
| "lcov_line_to_string display (LH n) = ''LH:'' @ dec n"
| "lcov_line_to_string display EndOfRecord = ''end_of_record''"

text \<open>The hit lines and functions of each file; a file without hits has no entry.\<close>

definition note_hit :: "'path :: linorder \<Rightarrow> 'a \<Rightarrow> ('path, 'a set) btree \<Rightarrow> ('path, 'a set) btree" where
  "note_hit path x m = bt_insert path (insert x (case bt_get m path of Some s \<Rightarrow> s | None \<Rightarrow> {})) m"

definition count_hit ::
  "('path :: linorder) LineCoverageMap \<Rightarrow> ('path, nat set) btree \<times> ('path, string set) btree \<Rightarrow> BytecodeLocation
     \<Rightarrow> ('path, nat set) btree \<times> ('path, string set) btree" where
  "count_hit self m hit = (case m of (line_hits, function_hits) \<Rightarrow>
     let function_hits = (case function_to_source self (loc_module hit, loc_function hit) of
           Some (file, name) \<Rightarrow> note_hit file name function_hits | None \<Rightarrow> function_hits)
     in case pc_to_line self hit of
          Some (file, line) \<Rightarrow> (note_hit file line line_hits, function_hits)
        | None \<Rightarrow> (line_hits, function_hits))"

definition file_records ::
  "('path :: linorder, nat set) btree \<Rightarrow> ('path, string set) btree \<Rightarrow> 'path \<times> FileCoverageMap \<Rightarrow> 'path LcovLine list" where
  "file_records line_hits function_hits p = (case p of (path, file) \<Rightarrow>
     let ls = bt_get line_hits path; fs = bt_get function_hits path;
         hit_function = (\<lambda>name. case fs of Some h \<Rightarrow> name \<in> h | None \<Rightarrow> False);
         hit_line = (\<lambda>line. case ls of Some h \<Rightarrow> line \<in> h | None \<Rightarrow> False)
     in [SF path] @ map (\<lambda>(name, start). FN start name) (fc_functions file)
        @ map (\<lambda>name. FNDA (if hit_function name then 1 else 0) name) (bt_keys (fc_functions file))
        @ [FNF (length (fc_functions file)), FNH (case fs of Some h \<Rightarrow> card h | None \<Rightarrow> 0)]
        @ map (\<lambda>line. DA line (if hit_line line then 1 else 0)) (sorted_list_of_set (fc_lines file))
        @ [LF (card (fc_lines file)), LH (case ls of Some h \<Rightarrow> card h | None \<Rightarrow> 0), EndOfRecord])"

definition lcov_records :: "('path :: linorder) LineCoverageMap \<Rightarrow> BytecodeLocation list \<Rightarrow> 'path LcovLine list" where
  "lcov_records self hs = (case foldl (count_hit self) ([], []) hs of (line_hits, function_hits) \<Rightarrow>
     concat (map (file_records line_hits function_hits) (lc_files self)))"

definition render_lcov :: "('path \<Rightarrow> string) \<Rightarrow> ('path :: linorder) LineCoverageMap \<Rightarrow> BytecodeLocation list \<Rightarrow> string" where
  "render_lcov display self hs = concat (map (\<lambda>l. lcov_line_to_string display l @ [CHR 0x0A]) (lcov_records self hs))"

section \<open>Invariant of the map\<close>

text \<open>Every location leads to a line of its file.\<close>

definition lc_ok :: "('path :: linorder) LineCoverageMap \<Rightarrow> bool" where
  "lc_ok self \<longleftrightarrow> bt_wf (lc_files self) \<and> (\<forall>path. finite (fc_lines (file_of self path)) \<and> bt_wf (fc_functions (file_of self path)))
     \<and> (\<forall>loc path line. pc_to_line self loc = Some (path, line) \<longrightarrow>
          path \<in> fst ` set (lc_files self) \<and> line \<in> fc_lines (file_of self path))"

lemma file_of_set [simp]: "file_of (set_file path f self) q = (if q = path then f else file_of self q)"
  by (simp add: file_of_def set_file_def)

lemma set_file_simps [simp]:
  "pc_to_line (set_file path f self) = pc_to_line self" "function_to_source (set_file path f self) = function_to_source self"
  "fst ` set (lc_files (set_file path f self)) = insert path (fst ` set (lc_files self))"
  "bt_wf (lc_files self) \<Longrightarrow> bt_wf (lc_files (set_file path f self))"
  by (simp_all add: set_file_def bt_wf_insert)

lemma lc_ok_set_file:
  assumes "lc_ok self" "finite (fc_lines f)" "bt_wf (fc_functions f)" "fc_lines (file_of self path) \<subseteq> fc_lines f"
  shows "lc_ok (set_file path f self)"
  using assms by (force simp: lc_ok_def)

lemma lc_ok_add_line: "lc_ok self \<Longrightarrow> lc_ok (add_line path line self)"
  unfolding add_line_def by (rule lc_ok_set_file) (auto simp: lc_ok_def)

lemma lc_ok_add_function_line: "lc_ok self \<Longrightarrow> lc_ok (add_function_line path name line self)"
  unfolding add_function_line_def Let_def
  by (auto intro!: lc_ok_set_file bt_wf_insert simp: lc_ok_def)

lemma file_of_pc [simp]: "file_of (self\<lparr>pc_to_line := m\<rparr>) = file_of self" "file_of (self\<lparr>function_to_source := s\<rparr>) = file_of self"
  by (simp_all add: file_of_def fun_eq_iff)

lemma lc_ok_add_pc: "lc_ok self \<Longrightarrow> lc_ok (add_pc files u module_id path idx self pc)"
  using lc_ok_add_line [of self path]
  by (auto simp: add_pc_def Let_def lc_ok_def add_line_def split: option.splits if_splits)

lemma foldl_invariant: "P s \<Longrightarrow> (\<And>s x. P s \<Longrightarrow> P (f s x)) \<Longrightarrow> P (foldl f s xs)"
  by (induction xs arbitrary: s) auto

lemma lc_ok_add_unit_function: "lc_ok self \<Longrightarrow> lc_ok (add_unit_function files u module_id path self f)"
proof -
  assume ok: "lc_ok self"
  have "lc_ok (self\<lparr>function_to_source := m\<rparr>)" for m using ok by (simp add: lc_ok_def)
  then show ?thesis
    by (auto simp: add_unit_function_def Let_def split: prod.split option.split
        intro!: foldl_invariant [where P = lc_ok] lc_ok_add_pc lc_ok_add_line lc_ok_add_function_line)
qed

lemma lc_ok_add_unit: "lc_ok self \<Longrightarrow> lc_ok (add_unit canonicalize u source_path files pkg self)"
  unfolding add_unit_def Let_def
  by (intro foldl_invariant [where P = lc_ok] lc_ok_add_unit_function lc_ok_set_file) (auto simp: lc_ok_def)

lemma lc_ok_for_locals:
  assumes "for_locals_with_package_ids canonicalize compile locals pkgs = Inr (Some m)"
  shows "lc_ok m"
proof -
  have step: "lc_ok out'" if "lc_ok out" "add_local canonicalize compile pkgs out p = Inr out'" for out p out'
    using that by (auto simp: add_local_def Let_def bindR_eq_Inr split: prod.splits option.splits
        intro!: foldl_invariant [where P = lc_ok] lc_ok_add_unit)
  have "lc_ok LineCoverageMap_empty" by (simp add: lc_ok_def LineCoverageMap_empty_def file_of_def empty_file_def)
  then show ?thesis
    using assms step by (auto simp: for_locals_with_package_ids_def bindR_eq_Inr split: if_splits
        dest: foldR_invariant [where P = lc_ok, rotated 2])
qed

section \<open>What the report counts\<close>

definition hit_set :: "('path :: linorder, 'a set) btree \<Rightarrow> 'path \<Rightarrow> 'a set" where
  "hit_set m path = (case bt_get m path of Some s \<Rightarrow> s | None \<Rightarrow> {})"

lemma hit_set_note: "hit_set (note_hit path x m) q = (if q = path then insert x (hit_set m path) else hit_set m q)"
  by (simp add: hit_set_def note_hit_def)

lemma count_hits:
  "hit_set (fst (foldl (count_hit self) acc hs)) path = hit_set (fst acc) path \<union> {l. \<exists>h \<in> set hs. pc_to_line self h = Some (path, l)}
   \<and> hit_set (snd (foldl (count_hit self) acc hs)) path = hit_set (snd acc) path
       \<union> {n. \<exists>h \<in> set hs. function_to_source self (loc_module h, loc_function h) = Some (path, n)}"
proof (induction hs arbitrary: acc)
  case (Cons h hs)
  have "hit_set (fst (count_hit self acc h)) path = hit_set (fst acc) path \<union> {l. pc_to_line self h = Some (path, l)}"
    "hit_set (snd (count_hit self acc h)) path = hit_set (snd acc) path
      \<union> {n. function_to_source self (loc_module h, loc_function h) = Some (path, n)}"
    by (auto simp: count_hit_def Let_def hit_set_note split: prod.splits option.splits)
  then show ?case using Cons.IH [of "count_hit self acc h"] by auto
qed auto

text \<open>The lines of source that a list of locations hits, and the names of the functions.\<close>

definition lines_hit :: "'path LineCoverageMap \<Rightarrow> BytecodeLocation list \<Rightarrow> 'path \<Rightarrow> nat set" where
  "lines_hit self hs path = {l. \<exists>h \<in> set hs. pc_to_line self h = Some (path, l)}"

definition functions_hit :: "'path LineCoverageMap \<Rightarrow> BytecodeLocation list \<Rightarrow> 'path \<Rightarrow> string set" where
  "functions_hit self hs path = {n. \<exists>h \<in> set hs. function_to_source self (loc_module h, loc_function h) = Some (path, n)}"

lemma file_records_eq:
  assumes "(line_hits, function_hits) = foldl (count_hit self) ([], []) hs"
  shows "file_records line_hits function_hits (path, file) =
    [SF path] @ map (\<lambda>(name, start). FN start name) (fc_functions file)
    @ map (\<lambda>name. FNDA (if name \<in> functions_hit self hs path then 1 else 0) name) (bt_keys (fc_functions file))
    @ [FNF (length (fc_functions file)), FNH (card (functions_hit self hs path))]
    @ map (\<lambda>line. DA line (if line \<in> lines_hit self hs path then 1 else 0)) (sorted_list_of_set (fc_lines file))
    @ [LF (card (fc_lines file)), LH (card (lines_hit self hs path)), EndOfRecord]"
proof -
  have "hit_set line_hits path = lines_hit self hs path" "hit_set function_hits path = functions_hit self hs path"
    using count_hits [of self "([], [])" hs path] assms [symmetric] by (simp_all add: hit_set_def lines_hit_def functions_hit_def)
  then show ?thesis
    unfolding hit_set_def by (auto simp: file_records_def Let_def split: option.splits)
qed

text \<open>
  C35: the line counts of the coverage report. In the report of a map built from local packages, the
  section of a file lists each line that carries code or a function once, in ascending order, marked 1
  exactly when one of the recorded locations leads to it and 0 otherwise; the number found is the number
  of lines listed and the number hit the number of lines marked 1.
\<close>

theorem lcov_lines_exact:
  assumes "for_locals_with_package_ids canonicalize compile locals pkgs = Inr (Some m)" "(path, file) \<in> set (lc_files m)"
  shows "\<exists>pre fns ls post. lcov_records m hs = pre @ [SF path] @ fns
       @ map (\<lambda>l. DA l (if l \<in> lines_hit m hs path then 1 else 0)) ls @ [LF (length ls),
           LH (length (filter (\<lambda>l. l \<in> lines_hit m hs path) ls)), EndOfRecord] @ post
    \<and> set ls = fc_lines file \<and> sorted_wrt (<) ls \<and> lines_hit m hs path \<subseteq> set ls
    \<and> (\<forall>x \<in> set fns. case x of FN _ _ \<Rightarrow> True | FNDA _ _ \<Rightarrow> True | FNF _ \<Rightarrow> True | FNH _ \<Rightarrow> True | _ \<Rightarrow> False)"
proof -
  have ok: "lc_ok m" by (rule lc_ok_for_locals [OF assms(1)])
  have at_path: "file_of m path = file" using ok assms(2) bt_wf_get [of "lc_files m" path "file"] by (simp add: file_of_def lc_ok_def)
  then have fin: "finite (fc_lines file)" using ok by (auto simp: lc_ok_def)
  have sub: "lines_hit m hs path \<subseteq> fc_lines file" using ok at_path by (auto simp: lines_hit_def lc_ok_def)
  obtain l f where lf: "(l, f) = foldl (count_hit m) ([], []) hs" by (metis surj_pair)
  obtain ps qs where "lc_files m = ps @ (path, file) # qs" using assms(2) by (auto simp: in_set_conv_decomp)
  then have "lcov_records m hs = concat (map (file_records l f) ps) @ file_records l f (path, file) @ concat (map (file_records l f) qs)"
    by (simp add: lcov_records_def lf [symmetric])
  moreover let ?ls = "sorted_list_of_set (fc_lines file)"
  have "length (filter (\<lambda>l. l \<in> lines_hit m hs path) ?ls) = card (lines_hit m hs path)"
    using sub fin by (simp add: distinct_length_filter Int_absorb2)
  moreover have "length ?ls = card (fc_lines file)" by simp
  ultimately show ?thesis
    using fin sub file_records_eq [OF lf, of path "file"] strict_sorted_list_of_set
    by (intro exI [of _ "concat (map (file_records l f) ps)"] exI [of _ "map (\<lambda>(name, start). FN start name) (fc_functions file)
        @ map (\<lambda>name. FNDA (if name \<in> functions_hit m hs path then 1 else 0) name) (bt_keys (fc_functions file))
        @ [FNF (length (fc_functions file)), FNH (card (functions_hit m hs path))]"] exI [of _ ?ls] exI [of _ "concat (map (file_records l f) qs)"])
      (auto simp: set_sorted_list_of_set split: if_splits)
qed

section \<open>A small package\<close>

text \<open>Two functions; only the first has a location in the source.\<close>

definition demo_unit :: "nat LcovUnit" where
  "demo_unit = \<lparr>lu_module = ''m'', lu_functions = [(''f'', Some 2), (''g'', Some 1)],
     lu_source_map = \<lparr>from_file_path = Some ''m.move'', get_function_source_map = \<lambda>i. if i = 0 then Some 3 else None,
       get_code_location = \<lambda>i pc. if i = 0 then Some (4 + unat pc) else None\<rparr>\<rparr>"

definition demo_artifacts :: "(nat, nat) LcovArtifacts" where
  "demo_artifacts = \<lparr>la_published_at = Some 9, la_root_units = [(demo_unit, 1)],
     la_file_map = \<lparr>loc_is_valid = \<lambda>_. True, start_position_opt = Some\<rparr>\<rparr>"

definition demo_lcov :: "nat LineCoverageMap" where
  "demo_lcov = add_unit Some demo_unit 1 (la_file_map demo_artifacts) 9 LineCoverageMap_empty"

lemma demo_locals: "for_locals_with_package_ids Some (\<lambda>_. Inr demo_artifacts) [7] [] = Inr (Some demo_lcov)"
  by (simp add: for_locals_with_package_ids_def add_local_def demo_artifacts_def demo_lcov_def Let_def)

lemmas demo_lcov_simps = demo_lcov_def demo_unit_def demo_artifacts_def add_unit_def add_unit_function_def add_pc_def add_line_def
  add_function_line_def set_file_def file_of_def empty_file_def LineCoverageMap_empty_def line_for_loc_def Let_def upt_rec

lemma demo_lcov_files: "lc_files demo_lcov = [(1, \<lparr>fc_functions = [(''f'', 3)], fc_lines = {3, 4, 5}\<rparr>)]"
  by (auto simp: demo_lcov_simps)

theorem lcov_lines_exact_witness:
  "\<exists>pre fns ls post. lcov_records demo_lcov [] = pre @ [SF 1] @ fns
       @ map (\<lambda>l. DA l (if l \<in> lines_hit demo_lcov [] 1 then 1 else 0)) ls @ [LF (length ls),
           LH (length (filter (\<lambda>l. l \<in> lines_hit demo_lcov [] 1) ls)), EndOfRecord] @ post \<and> set ls = {3, 4, 5}"
  using lcov_lines_exact [OF demo_locals, of 1 "\<lparr>fc_functions = [(''f'', 3)], fc_lines = {3, 4, 5}\<rparr>" "[]"]
  by (simp add: demo_lcov_files) blast

text \<open>The number of functions hit is not bounded by the number of functions found: a function without a
  location in the source is counted when it runs but never listed.\<close>

lemma functions_hit_exceed_found:
  "FNF 1 \<in> set (lcov_records demo_lcov [\<lparr>loc_module = \<lparr>module_address = 9, mod_name = ''m''\<rparr>, loc_function = 0, loc_pc = 0\<rparr>,
      \<lparr>loc_module = \<lparr>module_address = 9, mod_name = ''m''\<rparr>, loc_function = 1, loc_pc = 0\<rparr>])
   \<and> FNH 2 \<in> set (lcov_records demo_lcov [\<lparr>loc_module = \<lparr>module_address = 9, mod_name = ''m''\<rparr>, loc_function = 0, loc_pc = 0\<rparr>,
      \<lparr>loc_module = \<lparr>module_address = 9, mod_name = ''m''\<rparr>, loc_function = 1, loc_pc = 0\<rparr>])"
proof -
  have "function_to_source demo_lcov = [(\<lparr>module_address = 9, mod_name = ''m''\<rparr>, 0) \<mapsto> (1, ''f''), (\<lparr>module_address = 9, mod_name = ''m''\<rparr>, 1) \<mapsto> (1, ''g'')]"
    by (auto simp: demo_lcov_simps)
  then show ?thesis
    by (auto simp: lcov_records_def demo_lcov_files count_hit_def Let_def note_hit_def file_records_def split: prod.splits option.splits)
qed

end
