(* ===== verification/Testing_Env.thy ===== *)
theory Testing_Env
  imports Sui_Exec Tree_Tracer
begin

text \<open>
  \<open>movy-replay/src/env.rs\<close>: the environment in which packages are tested. It installs the standard
  packages, fetches packages and objects of the chain, and loads a local package: build, dependencies
  from the chain, deployment or upgrade, and the call of its \<open>movy_init\<close> functions. The store is shared
  with the executor, whose clone of it is a reference. The chain is a function from identifiers; the
  compiler, the transaction builder and the engine are the parameters of \<open>Compiled_Package\<close>, \<open>Ptb\<close> and
  \<open>Sui_Exec\<close>.
\<close>

section \<open>Parameters\<close>

record 'p EnvApi =
  from_sui_object :: "'p SuiObject \<Rightarrow> MovePackageAbi res"
  linkage_table :: "'p \<Rightarrow> (ObjectID \<times> ObjectID) list"
  new_system_package :: "ModuleTables list \<Rightarrow> u64 \<Rightarrow> ObjectID list \<Rightarrow> 'p SuiObject"
  identifier_ok :: "string \<Rightarrow> bool"
  ea_print :: "MoveAddress \<Rightarrow> string"
  ea_error :: "ExecutionStatus \<Rightarrow> string"
  ea_trim :: "string \<Rightarrow> string"
  ea_fmt :: Fmt
  ea_render :: "string \<times> TreeOp list \<Rightarrow> string"

type_synonym 'p chain = "ObjectID \<Rightarrow> 'p SuiObject option res"

section \<open>Arguments of movy\_init\<close>

datatype MovyInitObjectMode = OwnedValue | ImmutableRef | MutableRef

definition movy_init_param_ty_and_mode :: "MoveAbiSignatureToken \<Rightarrow> (MoveTypeTag \<times> MovyInitObjectMode) option" where
  "movy_init_param_ty_and_mode param = (case param of
     TokStruct _ \<Rightarrow> map_option (\<lambda>t. (t, OwnedValue)) (subst param Map.empty)
   | TokStructInstantiation _ _ \<Rightarrow> map_option (\<lambda>t. (t, OwnedValue)) (subst param Map.empty)
   | TokReference inner \<Rightarrow> map_option (\<lambda>t. (t, ImmutableRef)) (subst inner Map.empty)
   | TokMutableReference inner \<Rightarrow> map_option (\<lambda>t. (t, MutableRef)) (subst inner Map.empty)
   | _ \<Rightarrow> None)"

definition owner_allows :: "MoveAddress \<Rightarrow> MovyInitObjectMode \<Rightarrow> MoveOwner \<Rightarrow> bool" where
  "owner_allows deployer mode owner = (case owner of
     AddressOwner a \<Rightarrow> a = deployer
   | Immutable \<Rightarrow> mode = ImmutableRef
   | Shared _ \<Rightarrow> mode = ImmutableRef \<or> mode = MutableRef
   | _ \<Rightarrow> False)"

definition init_object_arg :: "MoveObjectInfo \<Rightarrow> MovyInitObjectMode \<Rightarrow> ObjectArg option" where
  "init_object_arg info mode = (case info_owner info of
     AddressOwner _ \<Rightarrow> Some (OaImmOrOwnedObject (sui_reference info))
   | Immutable \<Rightarrow> if mode = ImmutableRef then Some (OaImmOrOwnedObject (sui_reference info)) else None
   | Shared v \<Rightarrow> (case mode of
         ImmutableRef \<Rightarrow> Some (OaSharedObject (info_id info) v False)
       | MutableRef \<Rightarrow> Some (OaSharedObject (info_id info) v True)
       | OwnedValue \<Rightarrow> None)
   | _ \<Rightarrow> None)"

definition movy_init_object_arg_for_param ::
  "(MoveAddress \<Rightarrow> string) \<Rightarrow> MoveAbiSignatureToken \<Rightarrow> MoveAddress \<Rightarrow> MoveObjectInfo list \<Rightarrow> MoveAddress set
     \<Rightarrow> (MoveObjectInfo \<times> ObjectArg) res" where
  "movy_init_object_arg_for_param addr param deployer objects used_ids = (case movy_init_param_ty_and_mode param of
     None \<Rightarrow> Inl (Err (Other (''unsupported movy_init parameter type: '' @ token_to_string addr param)))
   | Some (expected_ty, mode) \<Rightarrow>
       (case List.find (\<lambda>info. info_id info \<notin> used_ids \<and> info_ty info = expected_ty
               \<and> owner_allows deployer mode (info_owner info)) objects of
          None \<Rightarrow> Inl (Err (Other (''unable to find a DB object for movy_init parameter '' @ token_to_string addr param)))
        | Some info \<Rightarrow> (case init_object_arg info mode of
            None \<Rightarrow> Inl (Err (Other ''unsupported owner for movy_init parameter''))
          | Some arg \<Rightarrow> Inr (info, arg))))"

text \<open>The objects of the store that have a Move type, in the order of the store.\<close>

definition object_infos :: "('p ObjectBody, 'd) Db \<Rightarrow> ObjectID list \<Rightarrow> ('d, MoveObjectInfo list) act" where
  "object_infos D ids = foldS (\<lambda>infos i. bindS (tryS (get_object_info D i)) (\<lambda>r.
     returnS (case r of Inl _ \<Rightarrow> infos | Inr info \<Rightarrow> infos @ [info]))) [] ids"

definition init_arg ::
  "(MoveAddress \<Rightarrow> string) \<Rightarrow> ('b, 'z) Builder_scheme \<Rightarrow> MoveAddress \<Rightarrow> MoveAddress \<Rightarrow> MoveObjectInfo list
     \<Rightarrow> 'b \<times> MoveAddress set \<times> Argument list \<Rightarrow> nat \<times> MoveAbiSignatureToken \<Rightarrow> ('b \<times> MoveAddress set \<times> Argument list) res" where
  "init_arg addr B deployer attacker objects s p = (case s of (b, used_ids, args) \<Rightarrow> case p of (idx, param) \<Rightarrow>
     if idx = 0 then bindR (b_pure B b (PureAddress deployer)) (\<lambda>(b, arg). Inr (b, used_ids, args @ [arg]))
     else if idx = 1 then bindR (b_pure B b (PureAddress attacker)) (\<lambda>(b, arg). Inr (b, used_ids, args @ [arg]))
     else bindR (movy_init_object_arg_for_param addr param deployer objects used_ids) (\<lambda>(info, oarg).
          bindR (b_obj B b oarg) (\<lambda>(b, arg). Inr (b, insert (info_id info) used_ids, args @ [arg]))))"

definition build_movy_init_args ::
  "(MoveAddress \<Rightarrow> string) \<Rightarrow> ('b, 'z) Builder_scheme \<Rightarrow> ('p ObjectBody, 'd) Db \<Rightarrow> 'b \<Rightarrow> MoveFunctionAbi \<Rightarrow> MoveAddress \<Rightarrow> MoveAddress
     \<Rightarrow> ('d, 'b \<times> Argument list) act" where
  "build_movy_init_args addr B D b init deployer attacker d =
     bindS (object_infos D (db_list_objects D d)) (\<lambda>objects.
     bindS (liftS (foldR (init_arg addr B deployer attacker objects) (b, {}, []) (enumerate 0 (parameters init))))
       (\<lambda>(b, _, args). returnS (b, args))) d"

section \<open>Standard packages and objects of the chain\<close>

definition commit_object :: "('c, 'd) Db \<Rightarrow> 'c Object \<Rightarrow> ('d, unit) act" where
  "commit_object D obj = readS (\<lambda>d. ((), db_commit_single_object D obj d))"

definition install_movy :: "'p EnvApi \<Rightarrow> ('p ObjectBody, 'd) Db \<Rightarrow> SuiCompiledPackage \<Rightarrow> ('d, unit) act" where
  "install_movy A D movy = (case into_deployment movy of (ms, deps) \<Rightarrow> commit_object D (new_system_package A ms 0 deps))"

definition install_std_package :: "'p EnvApi \<Rightarrow> ('p ObjectBody, 'd) Db \<Rightarrow> SuiCompiledPackage \<Rightarrow> ('d, unit) act" where
  "install_std_package A D out = (let out = movy_mock out in
     if SuiCompiledPackage.package_id out \<noteq> 0
     then (case into_deployment out of (ms, deps) \<Rightarrow> commit_object D (new_system_package A ms 0xff deps))
     else returnS ())"

definition install_std ::
  "'p EnvApi \<Rightarrow> ('p ObjectBody, 'd) Db \<Rightarrow> SuiCompiledPackage list \<Rightarrow> SuiCompiledPackage list \<Rightarrow> bool \<Rightarrow> ('d, unit) act" where
  "install_std A D testing_std sui_std test =
     foldS (\<lambda>_. install_std_package A D) () (if test then testing_std else sui_std)"

definition deploy_object_id :: "('p ObjectBody, 'd) Db \<Rightarrow> 'p chain \<Rightarrow> ObjectID \<Rightarrow> ('d, unit) act" where
  "deploy_object_id D rpc i = bindS (liftS (rpc i)) (\<lambda>obj. case obj of
     Some obj \<Rightarrow> commit_object D obj | None \<Rightarrow> liftS (Inl (Err (Other ''object not found''))))"

definition fetch_linked :: "('p ObjectBody, 'd) Db \<Rightarrow> 'p chain \<Rightarrow> ObjectID \<Rightarrow> ('d, unit) act" where
  "fetch_linked D rpc upgraded = bindS (readS (db_get_object D upgraded)) (\<lambda>obj.
     if obj = None then deploy_object_id D rpc upgraded else returnS ())"

definition fetch_package_at_address ::
  "'p EnvApi \<Rightarrow> ('p ObjectBody, 'd) Db \<Rightarrow> 'p chain \<Rightarrow> ObjectID \<Rightarrow> ('d, ObjectID list) act" where
  "fetch_package_at_address A D rpc i = bindS (liftS (rpc i)) (\<lambda>obj. case obj of
     None \<Rightarrow> liftS (Inl (Err (Other ''package not found'')))
   | Some obj \<Rightarrow> (case body_data (object_contents obj) of
       MoveData _ _ \<Rightarrow> liftS (Inl (Err (Other ''Expected package data'')))
     | PackageData pkg \<Rightarrow>
         bindS (foldS (\<lambda>_ (_, upgraded). fetch_linked D rpc upgraded) () (linkage_table A pkg)) (\<lambda>_.
         bindS (commit_object D obj) (\<lambda>_. returnS (sort_dedup (map fst (linkage_table A pkg)))))))"

text \<open>The loop over the packages to fetch, an ordered set that gives its greatest element.\<close>

fun fetch_packages ::
  "nat \<Rightarrow> 'p EnvApi \<Rightarrow> ('p ObjectBody, 'd) Db \<Rightarrow> 'p chain \<Rightarrow> ObjectID \<Rightarrow> ObjectID list \<Rightarrow> ('d, unit) act" where
  "fetch_packages 0 A D rpc own to_fetch = (\<lambda>_. None)"
| "fetch_packages (Suc n) A D rpc own to_fetch =
     (if to_fetch = [] then returnS ()
      else let dep = last to_fetch; rest = butlast to_fetch in
        if dep \<noteq> 0 \<and> dep \<noteq> own
        then bindS (readS (db_get_object D dep)) (\<lambda>obj.
          if obj = None
          then bindS (tryS (fetch_package_at_address A D rpc dep)) (\<lambda>r. case r of
              Inr nexts \<Rightarrow> fetch_packages n A D rpc own (sort_dedup (rest @ nexts))
            | Inl _ \<Rightarrow> fetch_packages n A D rpc own rest)
          else fetch_packages n A D rpc own rest)
        else fetch_packages n A D rpc own rest)"

definition all_dependencies :: "SuiCompiledPackage \<Rightarrow> ObjectID list" where
  "all_dependencies p = sort_dedup (dependencies p @ concat (map (map module_address \<circ> dependency_ids) (package_modules p)))"

section \<open>Queries\<close>

definition get_package_info :: "'p EnvApi \<Rightarrow> ('p ObjectBody, 'd) Db \<Rightarrow> ObjectID \<Rightarrow> ('d, MovePackageAbi option) act" where
  "get_package_info A D i = bindS (readS (db_get_object D i)) (\<lambda>obj. case obj of
     Some obj \<Rightarrow> bindS (liftS (from_sui_object A obj)) (\<lambda>abi. returnS (Some abi)) | None \<Rightarrow> returnS None)"

definition load_inner_types :: "('p ObjectBody, 'd) Db \<Rightarrow> ('d, unit) act" where
  "load_inner_types D d = foldS (\<lambda>_ obj. bindS (tryS (get_object_info D obj)) (\<lambda>r. case r of
     Inl _ \<Rightarrow> returnS () | Inr mv \<Rightarrow> foldS (\<lambda>_ addr. load_object D addr) () (flat_addresses (info_ty mv))))
     () (db_list_objects D d) d"

definition all_tys :: "('p ObjectBody, 'd) Db \<Rightarrow> ('d, MoveStructTag set) act" where
  "all_tys D d = foldS (\<lambda>tags obj. bindS (tryS (get_object_info D obj)) (\<lambda>r. returnS (case r of
     Inl _ \<Rightarrow> tags | Inr info \<Rightarrow> tags \<union> set (flat_structs (info_ty info))))) {} (db_list_objects D d) d"

text \<open>\<open>filter_objects\<close> of the chain at a checkpoint: the shared objects whose type starts with a text.\<close>

definition load_history ::
  "'p EnvApi \<Rightarrow> ('p ObjectBody, 'd) Db \<Rightarrow> (MoveAddress \<Rightarrow> string) \<Rightarrow> (string \<Rightarrow> 'p SuiObject list res) \<Rightarrow> ObjectID \<Rightarrow> ('d, unit) act" where
  "load_history A D canonical filter_objects i = bindS (get_package_info A D i) (\<lambda>package. case package of
     None \<Rightarrow> returnS ()
   | Some package \<Rightarrow> foldS (\<lambda>_ md. foldS (\<lambda>_ s.
       let m = handle_module_id (struct_handle s) in
       bindS (liftS (filter_objects (canonical (module_address m) @ ''::'' @ mod_name m))) (\<lambda>objects.
         foldS (\<lambda>_. commit_object D) () objects)) () (abi_structs md)) () (modules package))"

section \<open>Loading a local package\<close>

record LoadConfig =
  lc_path :: string
  lc_deployer :: MoveAddress
  lc_attacker :: MoveAddress
  lc_epoch :: u64
  lc_epoch_ms :: u64
  lc_gas :: ObjectID
  lc_unpublished :: bool
  lc_verify_deps :: bool
  lc_onchain_fallback :: bool
  lc_pinned_addresses :: "(string, MoveAddress) btree"
  lc_isolation :: BuildIsolation

definition pin_name ::
  "(string, MoveAddress) btree \<Rightarrow> MoveAddress option \<Rightarrow> string \<Rightarrow> MoveAddress option res" where
  "pin_name pinned matched name = (case bt_get pinned name of
     None \<Rightarrow> Inr matched
   | Some addr \<Rightarrow>
       if matched \<noteq> None \<and> matched \<noteq> Some addr then Inl (Err (Other ''conflicting --deploy-at addresses for package''))
       else Inr (Some addr))"

definition pinned_address :: "(string, MoveAddress) btree \<Rightarrow> string list \<Rightarrow> MoveAddress option res" where
  "pinned_address pinned names = foldR (pin_name pinned) None names"

text \<open>The state of a load: the world of the executor and the hits of the line-coverage collector, if
  there is one.\<close>

record 'd LoadState =
  ls_world :: "'d World"
  ls_hits :: "BytecodeLocation set option"

definition on_load :: "('d World, 'a) act \<Rightarrow> ('d LoadState, 'a) act" where
  "on_load m s = map_option (\<lambda>(r, w). (r, s\<lparr>ls_world := w\<rparr>)) (m (ls_world s))"

definition zero_addresses :: "SuiCompiledPackage \<Rightarrow> SuiCompiledPackage" where
  "zero_addresses p = p\<lparr>package_modules := map (mock_module_address 0) (package_modules p)\<rparr>"

text \<open>What is deployed, and the address under which it is deployed first when it has to be upgraded.\<close>

definition deployment_plan :: "MoveAddress option \<Rightarrow> MoveAddress \<Rightarrow> SuiCompiledPackage \<Rightarrow> SuiCompiledPackage \<times> MoveAddress option" where
  "deployment_plan pinned module_addr p =
     (let p = zero_addresses p in
      case pinned of
        Some a \<Rightarrow> (p\<lparr>SuiCompiledPackage.package_id := a\<rparr>, None)
      | None \<Rightarrow>
          if module_addr = 0 \<or> module_addr = SuiCompiledPackage.package_id p then (p, None) else (p, Some module_addr))"

definition place_package ::
  "nat \<Rightarrow> PublishApi \<Rightarrow> 'b TxBuilder \<Rightarrow> ('p ObjectBody, 'd) Db \<Rightarrow> ('p, 'd, 'g) Engine \<Rightarrow> LoadConfig
     \<Rightarrow> SuiCompiledPackage \<times> MoveAddress option \<Rightarrow> ('d World, ObjectID) act" where
  "place_package fuel X B D E cfg plan = (case plan of (p, original) \<Rightarrow> case original of
     None \<Rightarrow> bindS (deploy_contract fuel X D E (lc_epoch cfg) (lc_epoch_ms cfg) (lc_deployer cfg) (lc_gas cfg) p)
       (\<lambda>(address, _). returnS address)
   | Some original \<Rightarrow>
       bindS (deploy_contract fuel X D E (lc_epoch cfg) (lc_epoch_ms cfg) (lc_deployer cfg) (lc_gas cfg)
                (p\<lparr>SuiCompiledPackage.package_id := original\<rparr>)) (\<lambda>(address, cap).
         upgrade_contract fuel X B D E (lc_epoch cfg) (lc_epoch_ms cfg) (lc_deployer cfg) (lc_gas cfg) address cap p))"

definition pprint_failure_views :: "Fmt \<Rightarrow> (string \<times> TreeOp list \<Rightarrow> string) \<Rightarrow> TreeTraceResult \<Rightarrow> string" where
  "pprint_failure_views F render r = render (pprint F r) @ [CHR 0x0A]
     @ (case pprint_error_trace F r of Some e \<Rightarrow> e @ [CHR 0x0A] | None \<Rightarrow> []) @ render (pprint_without_params F r)"

definition format_movy_init_failure :: "'p EnvApi \<Rightarrow> ExecutionStatus \<Rightarrow> string option \<Rightarrow> string" where
  "format_movy_init_failure A status trace =
     (let failed = (\<lambda>command. (case command of Some c \<Rightarrow> ''command: '' @ dec c @ [CHR 0x0A] | None \<Rightarrow> []) @ ''error: '' @ ea_error A status) in
      (case status of
         Success \<Rightarrow> ''status: success'' | MoveAbortFailure _ command \<Rightarrow> failed command | OtherFailure command \<Rightarrow> failed command)
      @ (case trace of Some t \<Rightarrow> if ea_trim A t = [] then [] else [CHR 0x0A] @ t | None \<Rightarrow> []))"

type_synonym init_trace = "(TreeTraceResult \<times> LineCoverageTracer) + TreeTraceResult"

definition init_tracer :: "init_trace TracerExt" where
  "init_tracer = selective_tracer (tee_tracer tree_tracer lcov_tracer) tree_tracer"

definition init_trace_new :: "BytecodeLocation set option \<Rightarrow> init_trace" where
  "init_trace_new lcov = (case lcov of
     Some h \<Rightarrow> Inl (TreeTracer_new, \<lparr>hits = h, cov_frames = []\<rparr>) | None \<Rightarrow> Inr TreeTracer_new)"

definition init_hits :: "BytecodeLocation set option \<Rightarrow> init_trace option \<Rightarrow> BytecodeLocation set option" where
  "init_hits lcov t = (case t of Some (Inl (_, l)) \<Rightarrow> Some (hits l) | _ \<Rightarrow> lcov)"

definition init_views :: "'p EnvApi \<Rightarrow> init_trace option \<Rightarrow> string option" where
  "init_views A t = map_option (\<lambda>t. pprint_failure_views (ea_fmt A) (ea_render A) (case t of Inl (r, _) \<Rightarrow> r | Inr r \<Rightarrow> r)) t"

definition init_call :: "'p EnvApi \<Rightarrow> ObjectID \<Rightarrow> MoveModuleAbi \<Rightarrow> MoveFunctionAbi \<Rightarrow> Argument list \<Rightarrow> Command res" where
  "init_call A address md init args =
     (if identifier_ok A (mod_name (abi_module_id md)) \<and> identifier_ok A (fn_name init)
      then Inr (CmdMoveCall \<lparr>pmc_package = address, pmc_module = mod_name (abi_module_id md), pmc_function = fn_name init,
        pmc_type_arguments = [], pmc_arguments = args\<rparr>)
      else Inl (Panic ''called `Result::unwrap()` on an `Err` value''))"

text \<open>The effects of a reverting call are not committed.\<close>

definition settle_init :: "'p EnvApi \<Rightarrow> ('p ObjectBody, 'd) Db \<Rightarrow> ('p, 'g, init_trace) ExecutionTracedResults \<Rightarrow> ('d LoadState, unit) act" where
  "settle_init A D out s =
     (let s = s\<lparr>ls_hits := init_hits (ls_hits s) (traced out)\<rparr>; status = xe_status (xr_effects (results out)) in
      if status \<noteq> Success
      then Some (Inl (Err (Other (''movy_init reverts!'' @ [CHR 0x0A] @ format_movy_init_failure A status (init_views A (traced out))))), s)
      else on_load (commit_results D (results out)) s)"

definition run_movy_init ::
  "nat \<Rightarrow> 'p EnvApi \<Rightarrow> TraceApi \<Rightarrow> 'b TxBuilder \<Rightarrow> ('p ObjectBody, 'd) Db \<Rightarrow> ('p, 'd, 'g) Engine \<Rightarrow> LoadConfig \<Rightarrow> ObjectID
     \<Rightarrow> MoveModuleAbi \<Rightarrow> MoveFunctionAbi \<Rightarrow> ('d LoadState, unit) act" where
  "run_movy_init fuel A T B D E cfg address md init s =
     bindS (on_load (on_db (build_movy_init_args (ea_print A) B D (b_new B) init (lc_deployer cfg) (lc_attacker cfg)))) (\<lambda>(b, args).
     bindS (liftS (init_call A address md init args)) (\<lambda>call.
     bindS (on_load (run_ptb_with_movy_tracer_gas fuel D E T init_tracer (b_finish B (fst (b_command B b call))) (lc_epoch cfg)
              (lc_epoch_ms cfg) (lc_deployer cfg) (lc_gas cfg) (Some (init_trace_new (ls_hits s))))) (\<lambda>out.
       settle_init A D out))) s"

definition init_module ::
  "nat \<Rightarrow> 'p EnvApi \<Rightarrow> TraceApi \<Rightarrow> 'b TxBuilder \<Rightarrow> ('p ObjectBody, 'd) Db \<Rightarrow> ('p, 'd, 'g) Engine \<Rightarrow> LoadConfig \<Rightarrow> ObjectID
     \<Rightarrow> MoveModuleAbi \<Rightarrow> ('d LoadState, unit) act" where
  "init_module fuel A T B D E cfg address md =
     (if is_test_only_module md
      then case locate_movy_init md of Some init \<Rightarrow> run_movy_init fuel A T B D E cfg address md init | None \<Rightarrow> returnS ()
      else returnS ())"

definition build_local ::
  "Compiler \<Rightarrow> LoadConfig \<Rightarrow> (SuiCompiledPackage \<times> MovePackageAbi \<times> SuiCompiledPackage) res" where
  "build_local K cfg =
     bindR (build_checked K (lc_path cfg) False (lc_unpublished cfg) (lc_verify_deps cfg) (lc_isolation cfg)) (\<lambda>abi_result.
     bindR (package_abi abi_result) (\<lambda>non_test_abi.
     bindR (build_checked K (lc_path cfg) True (lc_unpublished cfg) (lc_verify_deps cfg) (lc_isolation cfg)) (\<lambda>compiled.
       Inr (abi_result, non_test_abi, compiled))))"

definition load_local ::
  "nat \<Rightarrow> Compiler \<Rightarrow> PublishApi \<Rightarrow> 'p EnvApi \<Rightarrow> TraceApi \<Rightarrow> 'b TxBuilder \<Rightarrow> ('p ObjectBody, 'd) Db \<Rightarrow> ('p, 'd, 'g) Engine \<Rightarrow> 'p chain
     \<Rightarrow> LoadConfig \<Rightarrow> ('d LoadState, MoveAddress \<times> MovePackageAbi \<times> MovePackageAbi \<times> string list) act" where
  "load_local fuel K X A T B D E rpc cfg =
     bindS (liftS (build_local K cfg)) (\<lambda>(abi_result, non_test_abi, compiled).
     let names = package_names compiled; compiled = movy_mock compiled in
     bindS (liftS (pinned_address (lc_pinned_addresses cfg) names)) (\<lambda>pinned.
     bindS (if lc_onchain_fallback cfg
            then on_load (on_db (fetch_packages fuel A D rpc (SuiCompiledPackage.package_id compiled) (all_dependencies abi_result)))
            else returnS ()) (\<lambda>_.
     bindS (liftS (case all_same_address compiled of
                Some a \<Rightarrow> Inr a | None \<Rightarrow> Inl (Err (Other ''modules' addresses not all same'')))) (\<lambda>module_addr.
     bindS (on_load (place_package fuel X B D E cfg (deployment_plan pinned module_addr compiled))) (\<lambda>address.
     bindS (on_load (on_db (get_package_info A D address))) (\<lambda>abi.
     bindS (liftS (unwrapR ''called `Option::unwrap()` on a `None` value'' abi)) (\<lambda>abi.
     bindS (foldS (\<lambda>_. init_module fuel A T B D E cfg address) () (modules abi)) (\<lambda>_.
       returnS (address, package_published_at address abi, package_published_at address non_test_abi, names)))))))))"

section \<open>Fetching ends\<close>

definition present :: "('c, 'd) Db \<Rightarrow> 'd \<Rightarrow> ObjectID \<Rightarrow> bool" where
  "present D d i \<longleftrightarrow> fst (db_get_object D i d) \<noteq> None"

text \<open>A store in which the objects of \<open>K\<close> stay once they are there.\<close>

locale package_db = object_db D wf for D :: "('p ObjectBody, 'd) Db" and wf :: "'d \<Rightarrow> bool" +
  fixes K :: "ObjectID set"
  assumes commit_wf: "wf d \<Longrightarrow> wf (db_commit_single_object D obj d)"
    and get_object_present: "wf d \<Longrightarrow> i \<in> K \<Longrightarrow> present D d i \<Longrightarrow> present D (snd (db_get_object D j d)) i"
    and commit_keeps: "wf d \<Longrightarrow> i \<in> K \<Longrightarrow> present D d i \<Longrightarrow> present D (db_commit_single_object D obj d) i"
    and commit_present: "wf d \<Longrightarrow> object_id obj \<in> K \<Longrightarrow> present D (db_commit_single_object D obj d) (object_id obj)"

text \<open>What the chain provides: packages under their own identifiers, linked to packages of \<open>K\<close>, and no
  panics.\<close>

definition chain_ok :: "'p EnvApi \<Rightarrow> ObjectID set \<Rightarrow> 'p chain \<Rightarrow> bool" where
  "chain_ok A K rpc \<longleftrightarrow> (\<forall>i p. rpc i \<noteq> Inl (Panic p)) \<and> (\<forall>i obj. rpc i = Inr (Some obj) \<longrightarrow> object_id obj = i)
     \<and> (\<forall>i \<in> K. \<forall>obj pkg. rpc i = Inr (Some obj) \<longrightarrow> body_data (object_contents obj) = PackageData pkg
          \<longrightarrow> fst ` set (linkage_table A pkg) \<subseteq> K)"

text \<open>Every package of \<open>K\<close> can be fetched, with what it links to.\<close>

definition chain_complete :: "'p EnvApi \<Rightarrow> ObjectID set \<Rightarrow> 'p chain \<Rightarrow> bool" where
  "chain_complete A K rpc \<longleftrightarrow> (\<forall>i \<in> K. \<exists>obj pkg. rpc i = Inr (Some obj) \<and> body_data (object_contents obj) = PackageData pkg
     \<and> (\<forall>(_, upgraded) \<in> set (linkage_table A pkg). \<exists>obj. rpc upgraded = Inr (Some obj)))"

definition no_panicS :: "('s, 'a) act \<Rightarrow> bool" where
  "no_panicS m \<longleftrightarrow> (\<forall>s. \<exists>r t. m s = Some (r, t) \<and> (\<forall>p. r \<noteq> Inl (Panic p)))"

lemma no_panicS_bind: "no_panicS m \<Longrightarrow> (\<And>x. no_panicS (f x)) \<Longrightarrow> no_panicS (bindS m f)"
  unfolding no_panicS_def
proof
  fix s assume m: "\<forall>s. \<exists>r t. m s = Some (r, t) \<and> (\<forall>p. r \<noteq> Inl (Panic p))"
    and f: "\<And>x. \<forall>s. \<exists>r t. f x s = Some (r, t) \<and> (\<forall>p. r \<noteq> Inl (Panic p))"
  obtain r t where r: "m s = Some (r, t)" "\<forall>p. r \<noteq> Inl (Panic p)" using m by blast
  show "\<exists>r t. bindS m f s = Some (r, t) \<and> (\<forall>p. r \<noteq> Inl (Panic p))"
    using r f by (cases r) auto
qed

lemma no_panicS_basic: "no_panicS (returnS x)" "no_panicS (readS g)" "(\<And>p. r \<noteq> Inl (Panic p)) \<Longrightarrow> no_panicS (liftS r)"
  by (auto simp: no_panicS_def)

lemma no_panicS_fold: "(\<And>b x. no_panicS (f b x)) \<Longrightarrow> no_panicS (foldS f b xs)"
  by (induction xs arbitrary: b) (auto intro: no_panicS_bind no_panicS_basic)

lemma fetch_package_no_panic:
  assumes "chain_ok A K rpc"
  shows "no_panicS (fetch_package_at_address A D rpc i)"
proof -
  have rpc: "no_panicS (liftS (rpc j))" for j using assms by (auto simp: chain_ok_def intro!: no_panicS_basic)
  have dep: "no_panicS (deploy_object_id D rpc j)" for j
    unfolding deploy_object_id_def by (intro no_panicS_bind rpc) (auto simp: commit_object_def split: option.split intro: no_panicS_basic)
  have "no_panicS (fetch_linked D rpc j)" for j
    unfolding fetch_linked_def by (intro no_panicS_bind no_panicS_basic) (auto intro: dep no_panicS_basic)
  then show ?thesis
    unfolding fetch_package_at_address_def
    by (intro no_panicS_bind rpc) (auto simp: commit_object_def split: option.split ObjData.split prod.split
        intro!: no_panicS_bind no_panicS_fold no_panicS_basic)
qed

definition store_grows :: "('c, 'd) Db \<Rightarrow> ('d \<Rightarrow> bool) \<Rightarrow> ObjectID set \<Rightarrow> 'd \<Rightarrow> 'd \<Rightarrow> bool" where
  "store_grows D good K d d' \<longleftrightarrow> (good d \<longrightarrow> good d' \<and> (\<forall>i \<in> K. present D d i \<longrightarrow> present D d' i))"

lemma fetch_package_steps:
  assumes "fetch_package_at_address A D rpc i d = Some (Inr nexts, d')"
  obtains obj pkg d1 where "rpc i = Inr (Some obj)" "body_data (object_contents obj) = PackageData pkg"
    "foldS (\<lambda>_ (_, upgraded). fetch_linked D rpc upgraded) () (linkage_table A pkg) d = Some (Inr (), d1)"
    "d' = db_commit_single_object D obj d1" "nexts = sort_dedup (map fst (linkage_table A pkg))"
proof (cases "rpc i")
  case (Inr x)
  then show ?thesis
  proof (cases x)
    case (Some obj)
    with assms Inr that show ?thesis
      by (cases "body_data (object_contents obj)") (auto simp: fetch_package_at_address_def commit_object_def elim!: bindS_E)
  qed (use assms in \<open>simp add: fetch_package_at_address_def\<close>)
qed (use assms in \<open>simp add: fetch_package_at_address_def\<close>)

lemma fetch_package_complete:
  assumes "chain_complete A K rpc" "i \<in> K"
  shows "\<exists>nexts d'. fetch_package_at_address A D rpc i d = Some (Inr nexts, d')"
proof -
  from assms obtain obj pkg where obj: "rpc i = Inr (Some obj)" "body_data (object_contents obj) = PackageData pkg"
    and linked: "\<forall>(_, upgraded) \<in> set (linkage_table A pkg). \<exists>obj. rpc upgraded = Inr (Some obj)"
    unfolding chain_complete_def by blast
  have "\<exists>d'. foldS (\<lambda>_ (_, upgraded). fetch_linked D rpc upgraded) () ps d = Some (Inr (), d')"
    if "\<forall>(_, upgraded) \<in> set ps. \<exists>obj. rpc upgraded = Inr (Some obj)" for ps d
    using that
  proof (induction ps arbitrary: d)
    case (Cons p ps)
    have "\<exists>d1. fetch_linked D rpc (snd p) d = Some (Inr (), d1)"
      using Cons.prems by (auto simp: fetch_linked_def deploy_object_id_def commit_object_def split: prod.splits)
    then show ?case using Cons.IH Cons.prems by (auto split: prod.splits)
  qed simp
  from this [OF linked, of d] show ?thesis
    using obj by (auto simp: fetch_package_at_address_def commit_object_def)
qed

context package_db
begin

lemma grows_preorder: "reflp (store_grows D wf K)" "transp (store_grows D wf K)"
  by (auto simp: store_grows_def reflp_def transp_def)

lemma grows_steps: "keepsS (store_grows D wf K) (readS (db_get_object D i))" "keepsS (store_grows D wf K) (commit_object D obj)"
  by (auto simp: keepsS_def store_grows_def commit_object_def get_object_wf commit_wf get_object_present commit_keeps)

lemmas grows_rules = keepsS_bind grows_steps grows_preorder keepsS_basic [OF grows_preorder(1)] keepsS_fold

lemma fetch_links_grow: "keepsS (store_grows D wf K) (foldS (\<lambda>_ (_, upgraded). fetch_linked D rpc upgraded) () ps)"
proof -
  have "keepsS (store_grows D wf K) (deploy_object_id D rpc j)" for j
    unfolding deploy_object_id_def by (intro grows_rules) (auto split: option.split intro: grows_rules)
  then have "keepsS (store_grows D wf K) (fetch_linked D rpc j)" for j
    unfolding fetch_linked_def by (intro grows_rules) (auto intro: grows_rules)
  then show ?thesis by (intro keepsS_fold grows_preorder) (simp split: prod.split)
qed

lemma fetch_package_grows: "keepsS (store_grows D wf K) (fetch_package_at_address A D rpc i)"
  unfolding fetch_package_at_address_def
  by (intro grows_rules) (auto split: option.split ObjData.split intro!: grows_rules fetch_links_grow)

lemma fetch_package_success:
  assumes "chain_ok A K rpc" "wf d" "i \<in> K" "fetch_package_at_address A D rpc i d = Some (Inr nexts, d')"
  shows "present D d' i" "set nexts \<subseteq> K" "distinct nexts"
proof -
  from assms(4) obtain obj pkg d1 where obj: "rpc i = Inr (Some obj)" "body_data (object_contents obj) = PackageData pkg"
    and d1: "foldS (\<lambda>_ (_, upgraded). fetch_linked D rpc upgraded) () (linkage_table A pkg) d = Some (Inr (), d1)"
    and d': "d' = db_commit_single_object D obj d1" "nexts = sort_dedup (map fst (linkage_table A pkg))"
    by (rule fetch_package_steps)
  have "store_grows D wf K d d1" using fetch_links_grow d1 unfolding keepsS_def by blast
  then have "wf d1" using assms(2) by (simp add: store_grows_def)
  moreover have "object_id obj = i" using assms(1) obj(1) by (simp add: chain_ok_def)
  ultimately show "present D d' i" using commit_present [of d1 obj] assms(3) d'(1) by simp
  show "set nexts \<subseteq> K" "distinct nexts"
    using assms(1,3) obj d'(2) by (auto simp: chain_ok_def distinct_sort_dedup)
qed

lemma fetch_packages_ends:
  assumes "finite K" "chain_ok A K rpc"
  shows "wf d \<Longrightarrow> set to_fetch \<subseteq> K \<Longrightarrow> distinct to_fetch \<Longrightarrow>
    card {i \<in> K. \<not> present D d i} * Suc (card K) + length to_fetch < n \<Longrightarrow>
    \<exists>d'. fetch_packages n A D rpc own to_fetch d = Some (Inr (), d') \<and> store_grows D wf K d d'
      \<and> (chain_complete A K rpc \<longrightarrow> (\<forall>i \<in> set to_fetch - {0, own}. present D d' i))"
proof (induction n arbitrary: to_fetch d)
  case (Suc n)
  show ?case
  proof (cases "to_fetch = []")
    case True
    then show ?thesis using grows_preorder(1) by (simp add: reflpD)
  next
    case False
    define dep rest where split: "dep = last to_fetch" "rest = butlast to_fetch"
    have tf: "to_fetch = rest @ [dep]" using False by (simp add: split)
    have dep: "dep \<in> K" "set rest \<subseteq> K" "distinct rest" "dep \<notin> set rest" using Suc.prems(2,3) by (auto simp: tf)
    let ?absent = "\<lambda>d. {i \<in> K. \<not> present D d i}"
    have shrink: "card (?absent d2) * Suc (card K) + length rest < n" if "store_grows D wf K d d2" for d2
    proof -
      have "?absent d2 \<subseteq> ?absent d" using that Suc.prems(1) by (auto simp: store_grows_def)
      then have "card (?absent d2) \<le> card (?absent d)" using assms(1) by (intro card_mono) auto
      then have "card (?absent d2) * Suc (card K) \<le> card (?absent d) * Suc (card K)" by (rule mult_le_mono1)
      then show ?thesis using Suc.prems(4) by (simp add: tf)
    qed
    have step: "\<exists>d'. fetch_packages n A D rpc own rest d2 = Some (Inr (), d') \<and> store_grows D wf K d d'
        \<and> (chain_complete A K rpc \<longrightarrow> (\<forall>i \<in> set rest - {0, own}. present D d' i) \<and> (present D d2 dep \<longrightarrow> present D d' dep))"
      if "store_grows D wf K d d2" for d2
      using Suc.IH [of d2 rest] shrink [OF that] dep that Suc.prems(1) grows_preorder(2)
      by (auto simp: store_grows_def)
    show ?thesis
    proof (cases "dep = 0 \<or> dep = own")
      case True
      then show ?thesis
        using step [of d] grows_preorder(1) False by (auto simp: tf reflpD)
    next
      case named: False
      let ?d1 = "snd (db_get_object D dep d)"
      have d1: "store_grows D wf K d ?d1" using grows_steps(1) [of dep] by (simp add: keepsS_def)
      show ?thesis
      proof (cases "present D d dep")
        case True
        then have "present D ?d1 dep" using d1 dep(1) Suc.prems(1) by (simp add: store_grows_def)
        with step [OF d1] True named show ?thesis by (auto simp: tf present_def [of D d] bindS_def)
      next
        case absent: False
        obtain r d2 where r: "fetch_package_at_address A D rpc dep ?d1 = Some (r, d2)" "\<forall>p. r \<noteq> Inl (Panic p)"
          using fetch_package_no_panic [OF assms(2), of D dep] unfolding no_panicS_def by (auto dest!: spec [of _ ?d1])
        have d2: "store_grows D wf K d d2"
          using r(1) d1 fetch_package_grows [of A rpc dep] grows_preorder(2) unfolding keepsS_def by (metis transpD)
        show ?thesis
        proof (cases r)
          case (Inl e)
          then have "\<not> chain_complete A K rpc" using fetch_package_complete [of A K rpc dep D ?d1] dep(1) r(1) by auto
          moreover obtain e' where "e = Err e'" using Inl r(2) by (cases e) auto
          ultimately show ?thesis using step [OF d2] Inl r(1) absent named by (auto simp: tf present_def [of D d] bindS_def tryS_def)
        next
          case (Inr nexts)
          have wf1: "wf ?d1" "wf d2" using d1 d2 Suc.prems(1) by (auto simp: store_grows_def)
          note ok = fetch_package_success [OF assms(2) wf1(1) dep(1), of nexts d2]
          have new: "present D d2 dep" "set nexts \<subseteq> K" using ok r(1) Inr by simp_all
          let ?next = "sort_dedup (rest @ nexts)"
          have next_ok: "set ?next \<subseteq> K" "distinct ?next" using new(2) dep(2) by (auto simp: distinct_sort_dedup)
          have "?absent d2 \<subset> ?absent d" using d2 new(1) absent dep(1) Suc.prems(1) by (auto simp: store_grows_def)
          then have "card (?absent d2) < card (?absent d)" using assms(1) by (intro psubset_card_mono) auto
          then have "Suc (card (?absent d2)) * Suc (card K) \<le> card (?absent d) * Suc (card K)" by (intro mult_le_mono1) simp
          moreover have "length ?next \<le> card K"
            using next_ok assms(1) by (metis card_mono distinct_card)
          ultimately have "card (?absent d2) * Suc (card K) + length ?next < n" using Suc.prems(4) by (simp add: tf)
          from Suc.IH [OF wf1(2) next_ok this] obtain d' where d': "fetch_packages n A D rpc own ?next d2 = Some (Inr (), d')"
            "store_grows D wf K d2 d'" "chain_complete A K rpc \<longrightarrow> (\<forall>i \<in> set ?next - {0, own}. present D d' i)" by blast
          moreover have "store_grows D wf K d d'" using d2 d'(2) grows_preorder(2) by (metis transpD)
          moreover have "present D d' dep" using d'(2) new(1) dep(1) wf1(2) by (simp add: store_grows_def)
          ultimately show ?thesis using Inr r(1) absent named by (auto simp: tf present_def [of D d] bindS_def tryS_def)
        qed
      qed
    qed
  qed
qed simp

end

text \<open>The cache in memory keeps the objects of \<open>K\<close> as long as it holds no tombstone for one of them, the
  cache on disk in any case.\<close>

definition undeleted :: "ObjectID set \<Rightarrow> 'c CachedSnapshot \<Rightarrow> bool" where
  "undeleted K d \<longleftrightarrow> (\<forall>i \<in> K. \<forall>(v, x) \<in> set (versions_of d i). x \<noteq> None)"

lemma cached_present: "present (cached_db S) d i \<longleftrightarrow> object_id_cached d i \<noteq> None \<or> store_get_object S i \<noteq> None"
  by (auto simp: present_def cached_db_def cs_get_object_def split: option.splits)

lemma undeleted_cached:
  assumes "undeleted K d" "i \<in> K" "versions_of d i \<noteq> []"
  shows "object_id_cached d i \<noteq> None"
proof -
  let ?vs = "versions_of d i"
  have "filter (\<lambda>(v, _). v \<le> - 1) ?vs = ?vs" by (rule filter_True) auto
  then have "resolve_versions ?vs (- 1) = (case snd (last ?vs) of None \<Rightarrow> KnownNotExisting | Some obj \<Rightarrow> Existing obj)"
    using assms(3) by (cases ?vs) (simp_all add: resolve_versions_def del: last.simps)
  moreover have "snd (last ?vs) \<noteq> None"
    using assms last_in_set [OF assms(3)] by (cases "last ?vs") (auto simp: undeleted_def)
  ultimately show ?thesis by (auto simp: object_id_cached_def bounded_versions)
qed

lemma cached_versions: "object_id_cached d i \<noteq> None \<Longrightarrow> versions_of d i \<noteq> []"
  by (auto simp: object_id_cached_def bounded_versions resolve_versions_def)

lemma bt_insert_nonempty [simp]: "bt_insert k v m \<noteq> []"
  by (cases m) (auto split: if_split_asm)

lemma undeleted_put: "undeleted K d \<Longrightarrow> undeleted K (cache_object_only obj d)"
  by (auto simp: undeleted_def cache_object_only_def dest!: subsetD [OF bt_set_insert])

lemma put_present:
  assumes "undeleted K d" "i \<in> K" "object_id_cached d i \<noteq> None \<or> i = object_id obj"
  shows "object_id_cached (cache_object_only obj d) i \<noteq> None"
proof (rule undeleted_cached [OF undeleted_put [OF assms(1)] assms(2)])
  show "versions_of (cache_object_only obj d) i \<noteq> []"
    using assms(3) cached_versions [of d i] by (auto simp: cache_object_only_def)
qed

definition good_snapshot :: "'p ObjectBody ObjectStore \<Rightarrow> ObjectID set \<Rightarrow> 'p ObjectBody CachedSnapshot \<Rightarrow> bool" where
  "good_snapshot S K d \<longleftrightarrow> snap_keyed S d \<and> undeleted K d"

lemma undeleted_reads:
  assumes "undeleted K d"
  shows "undeleted K (snd (cs_get_object S i d))" "undeleted K (snd (cs_get_object_by_key S i v d))"
    "cs_get_package_object S i d = Inr (r, d') \<Longrightarrow> undeleted K d'"
  using assms undeleted_put [OF assms]
  by (auto simp: cs_get_object_def cs_get_object_by_key_def cs_get_package_object_def bindR_eq_Inr split: option.splits)

lemma get_object_cached:
  assumes "undeleted K d" "i \<in> K" "object_id_cached d i \<noteq> None"
  shows "object_id_cached (snd (cs_get_object S j d)) i \<noteq> None"
  using assms put_present [OF assms(1,2)] by (auto simp: cs_get_object_def split: option.splits)

interpretation cached_packages: package_db "cached_db S" "good_snapshot S K" K for S :: "'p ObjectBody ObjectStore" and K
proof unfold_locales
  note reads = snap_keyed_reads
  fix d i v obj r d' j
  assume "good_snapshot S K d"
  then have ok: "snap_keyed S d" "undeleted K d" by (simp_all add: good_snapshot_def)
  note cached = cached.get_object_wf [OF ok(1)] cached.get_by_key_wf [OF ok(1)] cached.get_package_wf [OF ok(1)]
  show "good_snapshot S K (snd (db_get_object (cached_db S) i d))" "good_snapshot S K (snd (db_get_object_by_key (cached_db S) i v d))"
    using cached undeleted_reads [OF ok(2), of S] by (simp_all add: good_snapshot_def cached_db_def)
  show "db_get_package_object (cached_db S) i d = Inr (r, d') \<Longrightarrow> good_snapshot S K d'"
    using cached(3) undeleted_reads(3) [OF ok(2), of S] by (simp add: good_snapshot_def cached_db_def)
  show "fst (db_get_object (cached_db S) i d) = Some obj \<Longrightarrow> object_id obj = i"
    by (rule cached.get_object_id [OF ok(1)])
  show "fst (db_get_object_by_key (cached_db S) i v d) = Some obj \<Longrightarrow> object_id obj = i \<and> object_version obj = v"
    by (rule cached.get_by_key_id [OF ok(1)])
  show "db_get_package_object (cached_db S) i d = Inr (Some obj, d') \<Longrightarrow> object_id obj = i"
    by (rule cached.get_package_id [OF ok(1)])
  have put: "db_commit_single_object (cached_db S) obj d = cache_object_only obj d" for obj
    by (simp add: cached_db_def cs_commit_single_object_def)
  show "good_snapshot S K (db_commit_single_object (cached_db S) obj d)"
    using snap_keyed_put [OF ok(1)] undeleted_put [OF ok(2)] by (simp add: put good_snapshot_def)
  show "present (cached_db S) (snd (db_get_object (cached_db S) j d)) i" if "i \<in> K" "present (cached_db S) d i"
    using that get_object_cached [OF ok(2) that(1), of S j] unfolding cached_present by (auto simp: cached_db_def)
  show "present (cached_db S) (db_commit_single_object (cached_db S) obj d) i" if "i \<in> K" "present (cached_db S) d i"
    using that put_present [OF ok(2) that(1)] unfolding cached_present put by auto
  show "present (cached_db S) (db_commit_single_object (cached_db S) obj d) (object_id obj)" if "object_id obj \<in> K"
    using put_present [OF ok(2) that] unfolding cached_present put by auto
qed

text \<open>The cache on disk: an object is present when one of its versions is.\<close>

lemma rocks_by_id: "rocks_keyed S d \<Longrightarrow> rc_get_object_by_id_db i d \<noteq> None \<longleftrightarrow> (\<exists>v. rc_get_object_exact i v d \<noteq> None)"
proof -
  assume ok: "rocks_keyed S d"
  then have wf: "rocks_wf d" "bt_wf (rocks_db d)" by (auto simp: rocks_keyed_def rocks_wf_def)
  have "rc_get_object_by_id_db i d \<noteq> None \<longleftrightarrow> (\<exists>v x. ((i, v), x) \<in> set (rocks_db d))"
    unfolding rc_get_object_by_id_db_def rocks_upperbound_filter [OF wf(1)] by (auto simp: Let_def filter_empty_conv)
  then show ?thesis unfolding rc_get_object_exact_def bt_wf_get [OF wf(2)] by simp
qed

lemma rocks_present:
  "rocks_keyed S d \<Longrightarrow> present (rocks_cached_db S) d i \<longleftrightarrow> (\<exists>v. rc_get_object_exact i v d \<noteq> None) \<or> store_get_object S i \<noteq> None"
  using rocks_by_id [of S d i] by (auto simp: present_def rocks_cached_db_def rc_get_object_def Let_def split: option.splits)

lemma rocks_put_exact:
  assumes "rocks_keyed S d" "(\<exists>v. rc_get_object_exact i v d \<noteq> None) \<or> i = object_id obj"
  shows "\<exists>v. rc_get_object_exact i v (rc_put_object obj d) \<noteq> None"
proof -
  have "rc_get_object_exact i v (rc_put_object obj d) = (if i = object_id obj \<and> v = object_version obj then Some obj else rc_get_object_exact i v d)" for v
    using assms(1) rocks.exact_put [where s = d and obj = obj and i = i and v = v] by (simp add: rocks_keyed_def)
  then show ?thesis using assms(2) by (metis option.distinct(1))
qed

interpretation rocks_packages: package_db "rocks_cached_db S" "rocks_keyed S" K for S :: "'p ObjectBody ObjectStore" and K
proof unfold_locales
  fix d i obj j
  assume ok: "rocks_keyed S d"
  have put: "db_commit_single_object (rocks_cached_db S) obj d = rc_put_object obj d" for obj
    by (simp add: rocks_cached_db_def rc_commit_single_object_def)
  note ok' = rocks_keyed_put [OF ok] and get = rocks_cached.get_object_wf [OF ok]
  show "rocks_keyed S (db_commit_single_object (rocks_cached_db S) obj d)" using ok' by (simp add: put)
  show "present (rocks_cached_db S) (snd (db_get_object (rocks_cached_db S) j d)) i" if "present (rocks_cached_db S) d i"
  proof -
    have "\<exists>v. rc_get_object_exact i v (rc_put_object x d) \<noteq> None" if "\<exists>v. rc_get_object_exact i v d \<noteq> None" for x
      using that by (intro rocks_put_exact [OF ok]) blast
    moreover have "snd (db_get_object (rocks_cached_db S) j d) = d \<or> (\<exists>x. snd (db_get_object (rocks_cached_db S) j d) = rc_put_object x d)"
      by (auto simp: rocks_cached_db_def rc_get_object_def Let_def split: option.splits)
    ultimately show ?thesis
      using that unfolding rocks_present [OF ok] rocks_present [OF get] by metis
  qed
  show "present (rocks_cached_db S) (db_commit_single_object (rocks_cached_db S) obj d) i" if "present (rocks_cached_db S) d i"
    using that rocks_put_exact [OF ok, where i = i and obj = obj] unfolding put rocks_present [OF ok] rocks_present [OF ok'] by blast
  show "present (rocks_cached_db S) (db_commit_single_object (rocks_cached_db S) obj d) (object_id obj)"
    using rocks_put_exact [OF ok, where i = "object_id obj" and obj = obj] unfolding put rocks_present [OF ok'] by auto
qed

lemma fetch_fuel: "x \<le> card K \<Longrightarrow> y \<le> card K \<Longrightarrow> x * Suc (card K) + y < Suc (card K) * Suc (card K)"
  using mult_le_mono1 [of x "card K" "Suc (card K)"] by simp

text \<open>
  C36: fetching the dependencies of a package from the chain ends. Over the cached store, with
  as many rounds as the square of one more than the number of package identifiers that the chain leads
  to, the loop returns without an error, whatever single fetches fail; it keeps what the store has, and
  when the chain has every package then every dependency other than the package itself and address zero
  is in the store at the end.
\<close>

theorem onchain_fallback_ends:
  assumes "good_snapshot S K d" "chain_ok A K rpc" "set to_fetch \<subseteq> K" "distinct to_fetch"
  shows "\<exists>d'. fetch_packages (Suc (card K) * Suc (card K)) A (cached_db S) rpc own to_fetch d = Some (Inr (), d')
    \<and> good_snapshot S K d' \<and> (\<forall>i \<in> K. present (cached_db S) d i \<longrightarrow> present (cached_db S) d' i)
    \<and> (chain_complete A K rpc \<longrightarrow> (\<forall>i \<in> set to_fetch - {0, own}. present (cached_db S) d' i))"
proof -
  have fin: "finite K" by simp
  have "card {i \<in> K. \<not> present (cached_db S) d i} \<le> card K" using fin by (intro card_mono) auto
  moreover have "length to_fetch \<le> card K" using assms(3,4) fin by (metis card_mono distinct_card)
  ultimately have "card {i \<in> K. \<not> present (cached_db S) d i} * Suc (card K) + length to_fetch < Suc (card K) * Suc (card K)"
    by (rule fetch_fuel)
  from cached_packages.fetch_packages_ends [OF fin assms(2,1,3,4) this, of own] assms(1) show ?thesis
    by (auto simp: store_grows_def)
qed

section \<open>Arguments of movy\_init: properties\<close>

text \<open>
  How a parameter takes an object of type \<open>ty\<close>, and the argument an object is passed as: an object
  of the deployer by its reference whatever the mode, an immutable one by its reference and only to
  an immutable reference, a shared one by its identifier and initial version, only to a reference,
  and mutable exactly when the reference is.
\<close>

fun takes :: "MoveAbiSignatureToken \<Rightarrow> MoveTypeTag \<Rightarrow> MovyInitObjectMode \<Rightarrow> bool" where
  "takes (TokReference inner) ty mode \<longleftrightarrow> mode = ImmutableRef \<and> subst inner Map.empty = Some ty"
| "takes (TokMutableReference inner) ty mode \<longleftrightarrow> mode = MutableRef \<and> subst inner Map.empty = Some ty"
| "takes (TokStruct h) ty mode \<longleftrightarrow> mode = OwnedValue \<and> subst (TokStruct h) Map.empty = Some ty"
| "takes (TokStructInstantiation h ts) ty mode \<longleftrightarrow> mode = OwnedValue \<and> subst (TokStructInstantiation h ts) Map.empty = Some ty"
| "takes _ _ _ \<longleftrightarrow> False"

definition passed_as :: "MoveAddress \<Rightarrow> MoveAbiSignatureToken \<Rightarrow> MoveObjectInfo \<Rightarrow> ObjectArg \<Rightarrow> bool" where
  "passed_as deployer param info oa \<longleftrightarrow> (\<exists>mode. takes param (info_ty info) mode \<and> (case info_owner info of
       AddressOwner a \<Rightarrow> a = deployer \<and> oa = OaImmOrOwnedObject (sui_reference info)
     | Immutable \<Rightarrow> mode = ImmutableRef \<and> oa = OaImmOrOwnedObject (sui_reference info)
     | Shared v \<Rightarrow> mode \<noteq> OwnedValue \<and> oa = OaSharedObject (info_id info) v (mode = MutableRef)
     | _ \<Rightarrow> False))"

definition fits :: "MoveAddress \<Rightarrow> MoveAbiSignatureToken \<Rightarrow> MoveObjectInfo \<Rightarrow> bool" where
  "fits deployer param info \<longleftrightarrow> (\<exists>mode. movy_init_param_ty_and_mode param = Some (info_ty info, mode)
     \<and> owner_allows deployer mode (info_owner info))"

lemma param_takes: "movy_init_param_ty_and_mode param = Some (ty, mode) \<Longrightarrow> takes param ty mode"
  by (cases param) (auto simp: movy_init_param_ty_and_mode_def)

lemma allowed_has_arg: "owner_allows deployer mode (info_owner info) \<Longrightarrow> init_object_arg info mode \<noteq> None"
  by (auto simp: owner_allows_def init_object_arg_def split: MoveOwner.splits MovyInitObjectMode.splits)

lemma movy_init_object_arg_eq:
  assumes "movy_init_object_arg_for_param addr param deployer objects used_ids = Inr (info, arg)"
  shows "info \<in> set objects \<and> info_id info \<notin> used_ids \<and> passed_as deployer param info arg"
proof -
  from assms obtain mode where m: "movy_init_param_ty_and_mode param = Some (info_ty info, mode)"
    "owner_allows deployer mode (info_owner info)" "init_object_arg info mode = Some arg"
    and i: "info \<in> set objects" "info_id info \<notin> used_ids"
    by (auto simp: movy_init_object_arg_for_param_def find_Some_iff split: option.splits prod.splits)
  from param_takes [OF m(1)] m(2,3) have "passed_as deployer param info arg"
    unfolding passed_as_def
    by (intro exI [of _ mode]) (auto simp: owner_allows_def init_object_arg_def split: MoveOwner.splits MovyInitObjectMode.splits)
  with i show ?thesis by simp
qed

lemma movy_init_object_arg_total:
  assumes "info \<in> set objects" "info_id info \<notin> used_ids" "fits deployer param info"
  shows "\<exists>r. movy_init_object_arg_for_param addr param deployer objects used_ids = Inr r"
proof -
  from assms(3) obtain mode where mode: "movy_init_param_ty_and_mode param = Some (info_ty info, mode)"
    "owner_allows deployer mode (info_owner info)" by (auto simp: fits_def)
  let ?P = "\<lambda>x. info_id x \<notin> used_ids \<and> info_ty x = info_ty info \<and> owner_allows deployer mode (info_owner x)"
  have "List.find ?P objects \<noteq> None" using assms mode(2) by (auto simp: find_None_iff)
  then obtain x where x: "List.find ?P objects = Some x" by blast
  then have "owner_allows deployer mode (info_owner x)" by (auto simp: find_Some_iff)
  then have "init_object_arg x mode \<noteq> None" by (rule allowed_has_arg)
  with x mode show ?thesis by (auto simp: movy_init_object_arg_for_param_def)
qed

text \<open>The inputs given to the transaction builder, one after the other.\<close>

datatype BuilderInput = PureIn PureValue | ObjIn ObjectArg

definition give :: "('b, 'z) Builder_scheme \<Rightarrow> 'b \<Rightarrow> BuilderInput \<Rightarrow> ('b \<times> Argument) res" where
  "give B b x = (case x of PureIn v \<Rightarrow> b_pure B b v | ObjIn oa \<Rightarrow> b_obj B b oa)"

lemma mapAccumR_snoc:
  assumes "mapAccumR f s xs = Inr (s1, ys)" "f s1 x = Inr (s2, y)"
  shows "mapAccumR f s (xs @ [x]) = Inr (s2, ys @ [y])"
  using assms by (induction xs arbitrary: s ys) (auto simp: bindR_eq_Inr)

definition init_inputs :: "MoveAddress \<Rightarrow> MoveAddress \<Rightarrow> nat \<Rightarrow> (MoveObjectInfo \<times> ObjectArg) list \<Rightarrow> BuilderInput list" where
  "init_inputs deployer attacker n picks =
     take n [PureIn (PureAddress deployer), PureIn (PureAddress attacker)] @ map (ObjIn \<circ> snd) picks"

lemma init_args_sound:
  assumes "foldR (init_arg addr B deployer attacker objects) (b, {}, []) (enumerate 0 ps) = Inr (b', used_ids, args)"
  shows "length args = length ps \<and> (\<exists>picks. distinct (map (info_id \<circ> fst) picks) \<and> used_ids = info_id ` fst ` set picks
    \<and> fst ` set picks \<subseteq> set objects
    \<and> list_all2 (\<lambda>param (info, oa). passed_as deployer param info oa) (drop 2 ps) picks
    \<and> mapAccumR (give B) b (init_inputs deployer attacker (length ps) picks) = Inr (b', args))"
  using assms
proof (induction ps arbitrary: b' used_ids args rule: rev_induct)
  case (snoc p ps)
  from snoc.prems obtain b1 used1 args1 where s: "foldR (init_arg addr B deployer attacker objects) (b, {}, []) (enumerate 0 ps) = Inr (b1, used1, args1)"
    "init_arg addr B deployer attacker objects (b1, used1, args1) (length ps, p) = Inr (b', used_ids, args)"
    by (auto simp: enumerate_append_eq foldR_append bindR_eq_Inr)
  from snoc.IH [OF s(1)] obtain picks where i: "length args1 = length ps" "distinct (map (info_id \<circ> fst) picks)"
    "used1 = info_id ` fst ` set picks" "fst ` set picks \<subseteq> set objects"
    "list_all2 (\<lambda>param (info, oa). passed_as deployer param info oa) (drop 2 ps) picks"
    "mapAccumR (give B) b (init_inputs deployer attacker (length ps) picks) = Inr (b1, args1)" by blast
  show ?case
  proof (cases "length ps \<le> 1")
    case True
    then have n: "length ps = 0 \<or> length ps = Suc 0" by linarith
    let ?who = "if length ps = 0 then deployer else attacker"
    from n s(2) obtain arg where arg: "give B b1 (PureIn (PureAddress ?who)) = Inr (b', arg)" "used_ids = used1" "args = args1 @ [arg]"
      by (auto simp: init_arg_def give_def bindR_eq_Inr split: if_splits)
    have d: "drop 2 ps = []" "drop 2 (ps @ [p]) = []" using n by auto
    with i(5) have "picks = []" by simp
    then have "init_inputs deployer attacker (length (ps @ [p])) picks
        = init_inputs deployer attacker (length ps) picks @ [PureIn (PureAddress ?who)]"
      using n by (auto simp: init_inputs_def)
    then have "mapAccumR (give B) b (init_inputs deployer attacker (length (ps @ [p])) picks) = Inr (b', args)"
      using mapAccumR_snoc [OF i(6) arg(1)] arg(3) by simp
    with i(1-5) d arg show ?thesis by (intro conjI exI [of _ picks]) simp_all
  next
    case False
    then obtain info oa arg where info: "movy_init_object_arg_for_param addr p deployer objects used1 = Inr (info, oa)"
      "give B b1 (ObjIn oa) = Inr (b', arg)" "used_ids = insert (info_id info) used1" "args = args1 @ [arg]"
      using s(2) by (auto simp: init_arg_def give_def bindR_eq_Inr split: if_splits)
    note info' = movy_init_object_arg_eq [OF info(1)]
    have d: "drop 2 (ps @ [p]) = drop 2 ps @ [p]" using False by simp
    have "init_inputs deployer attacker (length (ps @ [p])) (picks @ [(info, oa)])
        = init_inputs deployer attacker (length ps) picks @ [ObjIn oa]"
      using False by (simp add: init_inputs_def)
    then have "mapAccumR (give B) b (init_inputs deployer attacker (length (ps @ [p])) (picks @ [(info, oa)])) = Inr (b', args)"
      using mapAccumR_snoc [OF i(6) info(2)] info(4) by simp
    moreover have "list_all2 (\<lambda>param (info, oa). passed_as deployer param info oa) (drop 2 (ps @ [p])) (picks @ [(info, oa)])"
      unfolding d using i(5) info' by (intro list_all2_appendI) simp_all
    ultimately show ?thesis
      using i(1-4) info(3,4) info' by (intro conjI exI [of _ "picks @ [(info, oa)]"]) (auto simp: comp_def)
  qed
qed (simp add: init_inputs_def)

text \<open>
  C37: the arguments of a \<open>movy_init\<close> function. When they can be built, there is one for each
  parameter: they are what the transaction builder returns when it is given, in the order of the
  parameters, the address of the deployer, the address of the attacker, and then for every further
  parameter one object of the store. That object has the type of the parameter, no object is given
  twice, and its owner permits how the parameter takes it: an object of the deployer is given by its
  reference, an immutable one by its reference and only to an immutable reference, a shared one by its
  identifier and initial version, only to a reference, and mutable exactly when the reference is.
\<close>

theorem movy_init_arguments:
  assumes "build_movy_init_args addr B D b init deployer attacker d = Some (Inr (b', args), d')"
  shows "\<exists>objects picks. object_infos D (db_list_objects D d) d = Some (Inr objects, d')
    \<and> length args = length (parameters init)
    \<and> mapAccumR (give B) b (init_inputs deployer attacker (length (parameters init)) picks) = Inr (b', args)
    \<and> list_all2 (\<lambda>param (info, oa). passed_as deployer param info oa) (drop 2 (parameters init)) picks
    \<and> fst ` set picks \<subseteq> set objects \<and> distinct (map (info_id \<circ> fst) picks)"
proof -
  from assms obtain objects used_ids where o: "object_infos D (db_list_objects D d) d = Some (Inr objects, d')"
    "foldR (init_arg addr B deployer attacker objects) (b, {}, []) (enumerate 0 (parameters init)) = Inr (b', used_ids, args)"
    by (auto simp: build_movy_init_args_def elim!: bindS_E)
  with init_args_sound [OF o(2)] show ?thesis by blast
qed

section \<open>Loading: properties\<close>

lemma pinned_address_eq:
  assumes "pinned_address pins names = Inr pinned"
  shows "\<forall>name \<in> set names. \<forall>a. bt_get pins name = Some a \<longrightarrow> pinned = Some a"
    and "pinned = Some a \<Longrightarrow> \<exists>name \<in> set names. bt_get pins name = Some a"
proof -
  have "(\<forall>name \<in> set names. \<forall>a. bt_get pins name = Some a \<longrightarrow> pinned = Some a)
      \<and> (\<forall>a. pinned = Some a \<longrightarrow> (\<exists>name \<in> set names. bt_get pins name = Some a))"
    using assms unfolding pinned_address_def
  proof (induction names arbitrary: pinned rule: rev_induct)
    case (snoc n names)
    then obtain mid where m: "foldR (pin_name pins) None names = Inr mid" "pin_name pins mid n = Inr pinned"
      by (auto simp: foldR_append bindR_eq_Inr)
    from snoc.IH [OF m(1)] m(2) show ?case
      by (auto simp: pin_name_def split: option.splits if_splits)
  qed simp
  then show "\<forall>name \<in> set names. \<forall>a. bt_get pins name = Some a \<longrightarrow> pinned = Some a"
    "pinned = Some a \<Longrightarrow> \<exists>name \<in> set names. bt_get pins name = Some a" by auto
qed

lemma deploy_contract_target:
  fixes E :: "('p, 'd, 'g) Engine"
  assumes "deploy_contract fuel X D E epoch epoch_ms admin gas p w = Some (Inr (address, cap), w')" "SuiCompiledPackage.package_id p \<noteq> 0"
  shows "address = SuiCompiledPackage.package_id p"
proof -
  from assms(1) obtain r :: "('p, 'g) ExecutionResults" and pr c w1 where
    "settle_deployment D (deployment_target (SuiCompiledPackage.package_id p)) r (pr, c) w1 = Some (Inr (address, cap), w')"
    by (auto simp: deploy_contract_def Let_def elim!: bindS_E split: prod.splits)
  then show ?thesis
    by (rule settle_deployment_eq) (use assms(2) in \<open>auto simp: wrong_target_def deployment_target_def\<close>)
qed

lemma upgrade_contract_target:
  fixes E :: "('p, 'd, 'g) Engine"
  assumes "upgrade_contract fuel X B D E epoch epoch_ms admin gas original cap p w = Some (Inr address, w')" "SuiCompiledPackage.package_id p \<noteq> 0"
  shows "address = SuiCompiledPackage.package_id p"
proof -
  from assms(1) obtain r :: "('p, 'g) ExecutionResults" and pr w1 where "settle_upgrade D (deployment_target (SuiCompiledPackage.package_id p)) r pr w1 = Some (Inr address, w')"
    by (auto simp: upgrade_contract_def Let_def elim!: bindS_E split: prod.splits option.splits if_splits)
  then show ?thesis
    by (rule settle_upgrade_eq) (use assms(2) in \<open>auto simp: wrong_target_def deployment_target_def\<close>)
qed

lemma place_package_target:
  assumes "place_package fuel X B D E cfg (p, original) w = Some (Inr address, w')" "SuiCompiledPackage.package_id p \<noteq> 0"
  shows "address = SuiCompiledPackage.package_id p"
  using assms
  by (cases original) (auto simp: place_package_def elim!: bindS_E dest: deploy_contract_target upgrade_contract_target)

lemma published_at_addresses:
  "MovePackageAbi.package_id (package_published_at a abi) = a"
  "md \<in> set (modules (package_published_at a abi)) \<Longrightarrow> module_address (abi_module_id md) = a"
  by (auto simp: package_published_at_def Let_def)

lemma on_load_eq: "on_load m s = Some (Inr x, s') \<longleftrightarrow> (\<exists>w. m (ls_world s) = Some (Inr x, w) \<and> s' = s\<lparr>ls_world := w\<rparr>)"
  by (cases "m (ls_world s)") (auto simp: on_load_def)

lemma load_local_steps:
  assumes "load_local fuel K X A T B D E rpc cfg s = Some (Inr (address, abi, non_test_abi, names), s')"
  obtains abi_result abi0 compiled pinned module_addr w w' abi1 where
    "build_local K cfg = Inr (abi_result, abi0, compiled)" "names = package_names compiled"
    "pinned_address (lc_pinned_addresses cfg) names = Inr pinned" "all_same_address (movy_mock compiled) = Some module_addr"
    "place_package fuel X B D E cfg (deployment_plan pinned module_addr (movy_mock compiled)) w = Some (Inr address, w')"
    "abi = package_published_at address abi1" "non_test_abi = package_published_at address abi0"
  using assms unfolding load_local_def
  by (auto simp: Let_def on_load_eq elim!: bindS_E split: option.splits)

text \<open>
  C4: where a local package is loaded. When \<open>load_local\<close> returns, the package is at the address
  pinned for one of its names, when there is one other than zero, and all its names with a pinned address
  agree on it; without a pinned address it is at the address of the project, when that is not zero,
  whether it was deployed there or deployed at the address of its modules and then upgraded. Both
  interfaces that are returned name this address for the package and for every module.
\<close>

theorem load_local_placed:
  assumes "load_local fuel K X A T B D E rpc cfg s = Some (Inr (address, abi, non_test_abi, names), s')"
  shows "\<exists>pinned compiled. build_checked K (lc_path cfg) True (lc_unpublished cfg) (lc_verify_deps cfg) (lc_isolation cfg) = Inr compiled
    \<and> names = package_names compiled
    \<and> (\<forall>name \<in> set names. \<forall>a. bt_get (lc_pinned_addresses cfg) name = Some a \<longrightarrow> pinned = Some a)
    \<and> (\<forall>a. pinned = Some a \<longrightarrow> (\<exists>name \<in> set names. bt_get (lc_pinned_addresses cfg) name = Some a) \<and> (a \<noteq> 0 \<longrightarrow> address = a))
    \<and> (pinned = None \<and> SuiCompiledPackage.package_id compiled \<noteq> 0 \<longrightarrow> address = SuiCompiledPackage.package_id compiled)
    \<and> MovePackageAbi.package_id abi = address \<and> (\<forall>md \<in> set (modules abi). module_address (abi_module_id md) = address)
    \<and> MovePackageAbi.package_id non_test_abi = address \<and> (\<forall>md \<in> set (modules non_test_abi). module_address (abi_module_id md) = address)"
  using assms
proof (rule load_local_steps)
  fix abi_result abi0 compiled pinned module_addr w w' abi1
  assume b: "build_local K cfg = Inr (abi_result, abi0, compiled)" "names = package_names compiled"
    and pin: "pinned_address (lc_pinned_addresses cfg) names = Inr pinned"
    and place: "place_package fuel X B D E cfg (deployment_plan pinned module_addr (movy_mock compiled)) w = Some (Inr address, w')"
    and abis: "abi = package_published_at address abi1" "non_test_abi = package_published_at address abi0"
  have "pinned = Some a \<Longrightarrow> a \<noteq> 0 \<Longrightarrow> address = a" for a
    using place by (auto simp: deployment_plan_def Let_def dest: place_package_target)
  moreover have "address = SuiCompiledPackage.package_id compiled" if "pinned = None" "SuiCompiledPackage.package_id compiled \<noteq> 0"
    using place that by (auto simp: deployment_plan_def Let_def zero_addresses_def movy_mock_def split: if_splits dest: place_package_target)
  moreover have "build_checked K (lc_path cfg) True (lc_unpublished cfg) (lc_verify_deps cfg) (lc_isolation cfg) = Inr compiled"
    using b(1) by (auto simp: build_local_def bindR_eq_Inr)
  ultimately show ?thesis
    using b(2) pinned_address_eq [OF pin] published_at_addresses unfolding abis
    by (intro exI [of _ pinned] exI [of _ compiled] conjI allI impI ballI) auto
qed

section \<open>A small environment\<close>

text \<open>Packages are their linkage tables; package 7 of the chain links to package 8.\<close>

definition chain_package :: "ObjectID \<Rightarrow> (ObjectID \<times> ObjectID) list \<Rightarrow> (ObjectID \<times> ObjectID) list SuiObject" where
  "chain_package i linked = \<lparr>object_id = i, object_version = 1,
     object_contents = \<lparr>body_owner = Immutable, body_digest = 0, body_data = PackageData linked\<rparr>\<rparr>"

definition demo_chain :: "(ObjectID \<times> ObjectID) list chain" where
  "demo_chain i = Inr (if i = 7 then Some (chain_package 7 [(8, 8)]) else if i = 8 then Some (chain_package 8 []) else None)"

definition demo_env_api :: "(ObjectID \<times> ObjectID) list EnvApi" where
  "demo_env_api = \<lparr>from_sui_object = \<lambda>obj. Inr \<lparr>MovePackageAbi.package_id = object_id obj, modules = []\<rparr>, linkage_table = \<lambda>l. l,
     new_system_package = \<lambda>_ v _. chain_package 2 [], identifier_ok = \<lambda>_. True, ea_print = \<lambda>_. [], ea_error = \<lambda>_. [], ea_trim = \<lambda>s. s,
     ea_fmt = demo_fmt, ea_render = fst\<rparr>"

definition no_store :: "'c ObjectStore" where
  "no_store = \<lparr>store_get_object = \<lambda>_. None, store_get_object_by_key = \<lambda>_ _. None, store_get_package_object = \<lambda>_. Inr None,
     store_get_object_received = \<lambda>_ _ _ _. Inr None, store_read_child_object = \<lambda>_ _ _. Inr None\<rparr>"

lemma demo_chain_ok: "chain_ok demo_env_api {7, 8} demo_chain" "chain_complete demo_env_api {7, 8} demo_chain"
  by (auto simp: chain_ok_def chain_complete_def demo_chain_def demo_env_api_def chain_package_def split: if_splits)

lemma empty_good: "good_snapshot no_store K []"
  by (auto simp: good_snapshot_def undeleted_def snap_keyed_def honest_store_def no_store_def snap_wf_def versions_of_def object_exact_version_def)

theorem onchain_fallback_ends_witness:
  "\<exists>d'. fetch_packages (Suc (card {7, 8 :: ObjectID}) * Suc (card {7, 8 :: ObjectID})) demo_env_api (cached_db no_store) demo_chain 9 [7] []
      = Some (Inr (), d') \<and> present (cached_db no_store) d' 7"
  using onchain_fallback_ends [OF empty_good demo_chain_ok(1), of "[7]" 9] demo_chain_ok(2) by auto

text \<open>The store of \<open>Sui_Exec\<close>: object 5 belongs to address 1.\<close>

definition demo_init :: MoveFunctionAbi where
  "demo_init = \<lparr>fn_name = ''movy_init'', parameters = [TokAddress, TokAddress, TokReference TokU64], return_paramters = [],
     fn_type_parameters = [], visibility = Public, is_entry = False\<rparr>"

theorem movy_init_arguments_witness:
  "\<exists>b' args d' picks. build_movy_init_args (\<lambda>_. []) list_builder (cached_db demo_backing) (0, []) demo_init 1 2 [(5, [(3, Some demo_gas)])]
      = Some (Inr (b', args), d') \<and> length args = 3
    \<and> mapAccumR (give list_builder) (0, []) (init_inputs 1 2 3 picks) = Inr (b', args)
    \<and> list_all2 (\<lambda>param (info, oa). passed_as 1 param info oa) [TokReference TokU64] picks"
proof -
  have "\<exists>b' args d'. build_movy_init_args (\<lambda>_. []) list_builder (cached_db demo_backing) (0, []) demo_init 1 2 [(5, [(3, Some demo_gas)])]
      = Some (Inr (b', args), d')"
    by (simp add: build_movy_init_args_def object_infos_def cached_db_def tryS_def get_object_info_def cs_get_object_def object_id_cached_def
        object_resolved_upperbound_def object_resolve_upperbound_details_def resolve_versions_def demo_gas_def MoveObjectInfo_try_from_def
        object_type_def object_owner_def demo_init_def init_arg_def list_builder_def movy_init_object_arg_for_param_def
        movy_init_param_ty_and_mode_def owner_allows_def init_object_arg_def bindS_def enumerate_eq_zip)
  then obtain b' args d' where r: "build_movy_init_args (\<lambda>_. []) list_builder (cached_db demo_backing) (0, []) demo_init 1 2 [(5, [(3, Some demo_gas)])]
      = Some (Inr (b', args), d')" by blast
  from movy_init_arguments [OF r] obtain picks where p: "length args = length (parameters demo_init)"
    "mapAccumR (give list_builder) (0, []) (init_inputs 1 2 (length (parameters demo_init)) picks) = Inr (b', args)"
    "list_all2 (\<lambda>param (info, oa). passed_as 1 param info oa) (drop 2 (parameters demo_init)) picks" by blast
  have "length (parameters demo_init) = 3" "drop 2 (parameters demo_init) = [TokReference TokU64]"
    by (simp_all add: demo_init_def)
  with r p show ?thesis by auto
qed

definition tx_of :: "(nat \<times> Command list) Builder \<Rightarrow> (nat \<times> Command list) TxBuilder" where
  "tx_of B = Builder.extend B (TxBuilder.fields (\<lambda>(n, cs) _. Inr ((Suc n, cs), ArgInput (as_u16 n)))
     (\<lambda>(n, cs). \<lparr>ptb_inputs = [], ptb_commands = cs\<rparr>))"

definition plain_module :: ModuleTables where
  "plain_module = \<lparr>module_handles = [\<lparr>mh_address = 0, mh_name = 0\<rparr>], address_identifiers = [0], identifiers = [''app''],
     self_module_handle_idx = 0, function_handles = [], publishable = True,
     other_tables = undefined\<lparr>cm_struct_defs := [], cm_function_defs := []\<rparr>\<rparr>"

definition plain_compiler :: Compiler where
  "plain_compiler = \<lparr>build = \<lambda>_ _. Inr \<lparr>published_at = None, artifact_name = ''app'', deps_compiled_units = [],
       root_compiled_units = [\<lparr>unit_address = 0, unit_address_name = None, unit_module = plain_module\<rparr>],
       all_compiled_units = [], published = []\<rparr>,
     compile_with_driver = \<lambda>_ _. Inr (Inr ()), trim = \<lambda>s. s\<rparr>"

definition demo_config :: LoadConfig where
  "demo_config = \<lparr>lc_path = ''app'', lc_deployer = 1, lc_attacker = 2, lc_epoch = 0, lc_epoch_ms = 0, lc_gas = 5, lc_unpublished = False,
     lc_verify_deps = True, lc_onchain_fallback = False, lc_pinned_addresses = [(''app'', 9)],
     lc_isolation = \<lparr>install_dir = None, extra_sources = []\<rparr>\<rparr>"

definition unit_env_api :: "unit EnvApi" where
  "unit_env_api = \<lparr>from_sui_object = \<lambda>obj. Inr \<lparr>MovePackageAbi.package_id = object_id obj, modules = []\<rparr>, linkage_table = \<lambda>_. [],
     new_system_package = \<lambda>_ v _. demo_gas, identifier_ok = \<lambda>_. True, ea_print = \<lambda>_. [], ea_error = \<lambda>_. [], ea_trim = \<lambda>s. s,
     ea_fmt = demo_fmt, ea_render = fst\<rparr>"

lemma demo_build: "build_local plain_compiler demo_config = Inr
   (\<lparr>package_id = 0, package_name = ''app'', package_names = [''app''], package_modules = [plain_module], dependencies = [], published_dependencies = []\<rparr>,
    \<lparr>MovePackageAbi.package_id = 0, modules = [\<lparr>abi_module_id = \<lparr>module_address = 0, mod_name = ''app''\<rparr>, abi_structs = [], abi_functions = []\<rparr>]\<rparr>,
    \<lparr>package_id = 0, package_name = ''app'', package_names = [''app''], package_modules = [plain_module], dependencies = [], published_dependencies = []\<rparr>)"
  by (simp add: build_local_def demo_config_def plain_compiler_def build_checked_def build_package_resolved_def finish_package_def
      root_address_def names_at_root_def selected_modules_def is_dep_def dep_addresses_def depends_on_zero_def plain_module_def
      dependency_ids_def self_handle_def package_abi_def from_sui_id_and_modules_def from_sui_module_def compiled_module_def
      table_address_def handle_address_def handle_name_def sort_dedup_def)

definition demo_placed :: "unit ObjectBody CachedSnapshot World" where
  "demo_placed = \<lparr>w_db = [(5, [(3, Some demo_gas)]),
     (8, [(4, Some (demo_written 8 (AddressOwner 1) (MoveData (TagStruct (MoveStructTag 2 ''package'' ''UpgradeCap'' [])) [])))]),
     (9, [(4, Some (demo_written 9 Immutable (PackageData ())))])], w_targets = []\<rparr>"

lemma demo_place:
  "place_package (Suc 0) demo_publish B (cached_db demo_backing) demo_engine demo_config
     (\<lparr>package_id = 9, package_name = ''app'', package_names = [''app''], package_modules = [plain_module],
       dependencies = [], published_dependencies = []\<rparr>, None) demo_world = Some (Inr 9, demo_placed)"
  by (simp add: place_package_def demo_config_def deploy_contract_def into_deployment_def zero_modules_def plain_module_def table_address_def
      handle_address_def self_handle_def deployment_target_def demo_publish_def bindS_def Let_def demo_run)
     (simp add: demo_published_def note_deployed_def note_package_def note_cap_def written_object_def demo_written_def
      is_package_def object_type_def is_upgrade_cap_def settle_deployment_def wrong_target_def bindS_def commit_results_def
      cached_db_def cs_commit_store_def removed_refs_def demo_placed_def cache_object_only_def cache_query_def)

lemma demo_placed_info: "get_package_info unit_env_api (cached_db demo_backing) 9 (w_db demo_placed)
    = Some (Inr (Some \<lparr>MovePackageAbi.package_id = 9, modules = []\<rparr>), w_db demo_placed)"
  by (simp add: get_package_info_def cached_db_def cs_get_object_def object_id_cached_def object_resolved_upperbound_def
      object_resolve_upperbound_details_def resolve_versions_def demo_placed_def unit_env_api_def bindS_def demo_written_def)

lemma demo_load: "\<exists>abi non_test_abi s'. load_local (Suc 0) plain_compiler demo_publish unit_env_api runtime_api (tx_of list_builder) (cached_db demo_backing)
    demo_engine (\<lambda>_. Inr None) demo_config \<lparr>ls_world = demo_world, ls_hits = None\<rparr> = Some (Inr (9, abi, non_test_abi, [''app'']), s')"
proof -
  let ?p = "\<lparr>package_id = 0, package_name = ''app'', package_names = [''app''], package_modules = [plain_module],
      dependencies = [], published_dependencies = []\<rparr>"
  have plan: "deployment_plan (Some 9) 0 (movy_mock ?p)
    = (\<lparr>package_id = 9, package_name = ''app'', package_names = [''app''], package_modules = [plain_module],
      dependencies = [], published_dependencies = []\<rparr>, None)"
    by (simp add: deployment_plan_def zero_addresses_def movy_mock_def mock_module_def mock_module_address_def plain_module_def
        self_handle_def sort_dedup_def Let_def)
  have "pinned_address (lc_pinned_addresses demo_config) [''app''] = Inr (Some 9)" "all_same_address (movy_mock ?p) = Some 0"
    "\<not> lc_onchain_fallback demo_config"
    by (simp_all add: demo_config_def pinned_address_def pin_name_def all_same_address_def movy_mock_def mock_module_def plain_module_def
        table_address_def handle_address_def self_handle_def)
  then show ?thesis
    by (simp add: load_local_def demo_build bindS_def Let_def plan on_load_def demo_place on_db_def demo_placed_info)
qed

theorem load_local_placed_witness:
  "\<exists>abi non_test_abi s'. load_local (Suc 0) plain_compiler demo_publish unit_env_api runtime_api (tx_of list_builder) (cached_db demo_backing)
    demo_engine (\<lambda>_. Inr None) demo_config \<lparr>ls_world = demo_world, ls_hits = None\<rparr> = Some (Inr (9, abi, non_test_abi, [''app'']), s')
    \<and> MovePackageAbi.package_id abi = 9 \<and> bt_get (lc_pinned_addresses demo_config) ''app'' = Some 9"
proof -
  obtain abi non_test_abi s' where r: "load_local (Suc 0) plain_compiler demo_publish unit_env_api runtime_api (tx_of list_builder) (cached_db demo_backing)
    demo_engine (\<lambda>_. Inr None) demo_config \<lparr>ls_world = demo_world, ls_hits = None\<rparr> = Some (Inr (9, abi, non_test_abi, [''app'']), s')"
    using demo_load by blast
  from load_local_placed [OF r] have "MovePackageAbi.package_id abi = 9" by blast
  with r show ?thesis by (auto simp: demo_config_def)
qed

end
