(* ===== verification/Spec2Isabelle.thy ===== *)
theory Spec2Isabelle
  imports Range_Chunks Test_Report Tree_Tracer Fuzz_Tracer Cached_Store Sequence_Grow Unused_Code
    Export_Structure Fuzz_Executor Line_Coverage Testing_Env
begin

text \<open>
  \<^bold>\<open>Verification of movy\<close>, a replay, tracing and fuzzing tool for Move programs on Sui.

  \<^bold>\<open>The program.\<close> movy loads packages and objects of a chain through caching stores
  (\<open>movy-sui/src/database\<close>), reads the ABI of compiled modules (\<open>movy-types/src/abi.rs\<close>), builds
  sequences of Move calls from it (\<open>movy-types/src/input.rs\<close>), links functions by the types they
  consume and produce (\<open>movy-analysis\<close>), and executes a sequence with a tracer
  (\<open>movy-replay/src/tracer\<close>). The tracer sees one event per instruction, frame and effect. It
  rebuilds the machine state, runs a concolic machine beside it, asks the oracles of
  \<open>movy-fuzz/src/oracles\<close>, and fills the coverage map that guides the fuzzer.

  \<^bold>\<open>Theories\<close>, in the order of their imports (paths are under \<open>src/crates\<close>).

  \<^item> \<open>Movy_Prelude\<close>: machine words, fallible results (\<open>res\<close>, whose left side is an \<open>Err\<close> or a
    panic), loops with early exit (\<open>foldR\<close>, \<open>mapR\<close>), and \<open>BTreeMap\<close> as a key-sorted association
    list behind the locale \<open>ordered_map\<close>.
  \<^item> \<open>Move_Types\<close>: \<open>movy-types/src/input.rs\<close>, \<open>object.rs\<close> and the identifiers of \<open>abi.rs\<close>.
    Type tags convert to the SDK and back without loss, identifiers print and parse back.
  \<^item> \<open>Move_Bytecode\<close>: the instructions of compiled modules, a type of the Move library.
  \<^item> \<open>Move_Abi\<close>: \<open>movy-types/src/abi.rs\<close>. Inference of type arguments is sound, inverts
    substitution, and unifies a parameter with a producer; substitutions compose; layouts of acyclic
    structures are computed in bounded depth; republishing rewrites every signature.
  \<^item> \<open>Ptb\<close>: \<open>MoveSequence::to_ptb\<close> and the printed forms. Without vector inputs a sequence
    becomes one command per call, in order, over the inputs it declared.
  \<^item> \<open>Range_Chunks\<close>, \<open>Test_Report\<close>: \<open>movy-types/src/range.rs\<close>, \<open>test_report.rs\<close>. The chunks of
    a range partition it; the verdicts of a report are those of its outcomes.
  \<^item> \<open>Concolic_Int\<close>: the integer encodings of bitwise operations in
    \<open>movy-replay/src/tracer/concolic.rs\<close>, over the locale \<open>z3_semantics\<close> of the term builder. At
    widths below 256 they are the bitwise operations; at 256, the width of \<open>u256\<close>, the source takes the
    operand modulo zero, and nothing is claimed of the value.
  \<^item> \<open>Trace_State\<close>: \<open>tracer/state.rs\<close> and \<open>tracer/mod.rs\<close>. The wrapper calls the hooks of a
    tracer event by event and hands them the state the earlier events determine; a complete call restores the call stack; a tee runs each tracer as
    it would run alone.
  \<^item> \<open>Concolic\<close>: the concolic machine. Symbolic and concrete stacks stay in step, arithmetic is
    simulated at every width, bitwise operations and \<open>Shl\<close> below 256 bits, and constraints hold on the run that gave them. What the comparisons leave on the
    stack is stated as the code has it (\<open>comparison_result_is_one\<close>).
  \<^item> \<open>Tree_Tracer\<close>: \<open>tracer/tree.rs\<close> and \<open>tracer/lcov.rs\<close>. The call tree lists the opened
    frames; after an error its trace can be printed; the filtered view shows the included frames.
  \<^item> \<open>Oracles\<close>: \<open>tracer/oracle.rs\<close>, \<open>movy-types/src/oracle.rs\<close>, \<open>movy-fuzz/src/oracles/sui\<close>.
    The overflow oracle reports lost bits, the loop oracle every 1001st unchanged branch; balance
    changes are sums of coins; the searches of solver terms are exact below their node limit.
  \<^item> \<open>Fuzz_Tracer\<close>: \<open>tracer/fuzz.rs\<close>, \<open>op.rs\<close>, \<open>extra.rs\<close>. Coverage never leaves its map; the
    verdict follows the findings; the package stack follows the frames.
  \<^item> \<open>Cached_Store\<close>: \<open>movy-sui/src/database/cache.rs\<close> and \<open>file.rs\<close>, two caches that interpret
    the locale \<open>version_cache\<close>. Reads by version are transparent, commits are visible, snapshots
    restore; a deletion does not hide the backing store from \<open>get_object\<close>, as the code has it.
  \<^item> \<open>Graphs\<close>: \<open>movy-analysis/src/type_graph.rs\<close>. The queries answer exactly.
  \<^item> \<open>Metadata\<close>: \<open>movy-replay/src/meta.rs\<close> and \<open>export_abi\<close> of \<open>env.rs\<close>. The newest package of a
    module wins; the pools of types hold what the store and the packages contain.
  \<^item> \<open>Fuzz_Meta\<close>: \<open>movy-fuzz/src/meta.rs\<close> and \<open>update_score\<close>. Targets pass their filters and have
    scores, hooks belong to the functions they name, scores move by ticks within 64 bits.
  \<^item> \<open>Sequence_Edit\<close>: the editing half of \<open>movy-fuzz/src/mutators/sequence.rs\<close> with \<open>remap.rs\<close> and
    the stripping halves of \<open>hooks.rs\<close> and \<open>post.rs\<close>. Removing a command removes what depends on
    it and renumbers the rest; stripped sequences can be renumbered back.
  \<^item> \<open>Object_Data\<close>, \<open>Arg_Construction\<close>: \<open>movy-fuzz/src/mutators/object_data.rs\<close>. A sequence leaves
    the objects that no call took by value, and as many hot potatoes as were made and not consumed;
    constructed arguments have the types of their parameters and are not used twice.
  \<^item> \<open>Value_Mutation\<close>: \<open>mutation_utils.rs\<close>. Values are cut into bytes and rebuilt without loss; a
    theorem says what each type of value may become.
  \<^item> \<open>Solver\<close>: \<open>movy-fuzz/src/solver.rs\<close>. With a sound solver, the values read back satisfy the
    constraints and fit their parameters.
  \<^item> \<open>Arg_Mutation\<close>: \<open>mutators/utils.rs\<close>, \<open>arg.rs\<close>, \<open>movy-fuzz/src/input.rs\<close>. One argument changes,
    one of a candidate call, and nothing else; the replay of a stage is bounded.
  \<^item> \<open>Sequence_Grow\<close>: \<open>append.rs\<close>, the adding halves of \<open>hooks.rs\<close> and \<open>post.rs\<close>, the growth loop and
    the mutator of \<open>sequence.rs\<close>. Sequences only grow, hooks embed the sequence they decorate, and a
    grown sequence is reported only when its hot potatoes are consumed.
  \<^item> \<open>Stackless\<close>, \<open>Unused_Code\<close>: \<open>movy-static-analysis/src/sui\<close>. Definitions and uses of locals are
    found exactly, the definition chosen for a use is the nearest one before it, modules are analysed
    after what they depend on, and what is reported as unused is what no instruction names.
  \<^item> \<open>Call_Graph\<close>: \<open>movy-types/src/bytecode.rs\<close>, \<open>movy-analysis/src/call_graph.rs\<close>. The graph has the
    functions and the calls of the analysed modules and nothing else.
  \<^item> \<open>Compiled_Package\<close>: \<open>movy-sui/src/compile.rs\<close>. Bundled modules are linked to the root address and
    none depends on address zero afterwards; local dependencies are listed once, deepest first.
  \<^item> \<open>Sui_Exec\<close>: \<open>movy-replay/src/exec.rs\<close> and \<open>db.rs\<close>, over the locale \<open>object_db\<close> that both caches
    interpret. The engine runs a transaction on the objects it names; targeted deployments register
    under free digests and do not disturb each other; a deployment commits its package or nothing.
  \<^item> \<open>Fuzz_Executor\<close>: \<open>movy-fuzz/src/executor.rs\<close>, the composition of the builder, the executor, the
    tracers, the oracles and the cache. The published outcome agrees with the verdict and the findings,
    and an execution never commits to the store.
  \<^item> \<open>Line_Coverage\<close>: \<open>movy-sui/src/lcov.rs\<close>. The line counts of a report are those of the recorded
    locations; the count of functions may exceed the functions listed, as the code has it.
  \<^item> \<open>Testing_Env\<close>: \<open>movy-replay/src/env.rs\<close>, over the locale \<open>package_db\<close>, which extends \<open>object_db\<close> and which
    both caches interpret. Fetching dependencies ends, the builder is given the deployer, the attacker and
    objects of the types of the parameters for \<open>movy_init\<close>, and a local package is loaded where it is pinned or published.
  \<^item> \<open>Export_Graph\<close>: \<open>movy-analysis/src/export_call_graph.rs\<close>. The exporter with its \<open>i32\<close> counters
    refines one over unbounded numbers. With fewer than \<open>2 ^ 31 - 1\<close> items linking never panics; all
    modules of all search roots are exported, numbers are unique, calls stay inside the graph and are exactly those of the analysed modules.
  \<^item> \<open>Export_Structure\<close>: \<open>movy-analysis/src/export_package_structure.rs\<close>. The rows of the second walk refer
    to contracts and functions of the graph, and no module lacks its contract.

  \<^bold>\<open>Conventions.\<close> A structure of the source is a record, an enumeration a datatype, a \<open>Vec\<close> a list
  with its newest element last, a \<open>BTreeMap\<close> a \<open>btree\<close>, an integer a word of its width; positions and
  lengths (\<open>usize\<close>) are natural numbers, and so are the \<open>i32\<close> counters of the exporters, whose increments
  are checked against the type. An arithmetic overflow is the panic of a build with overflow checks. Interior
  mutability is explicit state. Code of other crates is a record of the functions that the source
  calls; what the source relies on is a named hypothesis of the theorem or a law of a locale, and
  each is shown to hold on a concrete instance. Log messages are not modelled.

  \<^bold>\<open>Bounds and fuel.\<close> The searches of solver terms stop after 10000 nodes because the source does.
  Expansion of structure layouts recurses through other modules' definitions, so it takes fuel and
  returns \<open>None\<close> when it ends; \<open>to_move_type_layout_terminates\<close> gives enough fuel for acyclic
  structures. The chunk iterator takes fuel in the same way, and \<open>range_chunks_partition\<close> shows the
  length of the range is enough. The recursion of \<open>gen_remove_idxes\<close> takes the number of commands as
  fuel, which \<open>gen_remove_total\<close> shows to be enough. \<open>append_function\<close> recurses over its level, which is
  \<open>11 - recursion_depth\<close> because the source stops at depth 11, and the growth loop runs ten rounds
  because the source does. \<open>redraw_u8\<close> draws random bytes until one differs; its fuel is the number of
  draws, and \<open>redraw_u8_stuck\<close> says that it runs out exactly when every draw is the old byte, which the
  source would repeat forever. The traversal of dependencies takes the number of modules as fuel;
  \<open>collect_modules_ordered\<close> gives a bound that is enough. \<open>GlobalDeployment_new\<close> takes attempts as
  fuel; \<open>GlobalDeployment_new_ends\<close> shows that one more than the pending deployments is enough. The loop
  that fetches packages takes rounds as fuel; \<open>onchain_fallback_ends\<close> gives a number that is enough.
  The search for source files takes directories as fuel; \<open>load_call_graph_ends\<close> shows that a number above
  the directories of the tree is enough. Counters that the source keeps in \<open>usize\<close> and only increments
  once per recorded item are natural numbers without a check.

  \<^bold>\<open>Not modelled.\<close> The execution engine, network access
  (\<open>movy-sui/src/rpc\<close>), the Move compiler, the command line, debug printing, and the encoding of database
  keys and values: they are calls of the Sui and Move libraries with little logic between them. The
  corpus scheduler computes a floating-point score over the corpus of the fuzzing library.
\<close>

end
